(* ===== verification/Prelude.thy ===== *)
theory Prelude
  imports Complex_Main "HOL-Library.Monad_Syntax"
begin

text \<open>
  Shared vocabulary of the development: the outcome of a Rust call, the arithmetic of
  \<open>usize\<close> and \<open>u64\<close> with its failures made explicit, indexing that can fail, and the
  generic lemmas on lists the components share.

  A Rust function returns a value, returns an \<open>Err\<close>, or panics (an \<open>assert!\<close>, an
  \<open>unwrap\<close>, an index out of range, an arithmetic overflow with overflow checks on, a stack
  or memory exhaustion).  \<open>res\<close> has one constructor for each.  Machine integers are \<open>nat\<close>
  with the bound \<open>2 ^ 64\<close> written out in the operations below; an operation that would leave
  the range is a panic, as with Rust's overflow checks.  A build without the checks wraps
  instead, so a theorem whose conclusion is \<open>Ok\<close> holds of both builds.
\<close>

section \<open>Outcomes of a Rust call\<close>

datatype ('a, 'e) res = Ok 'a | Err 'e | Panic

named_theorems res_simps \<open>inversion of successful and failed calls\<close>

definition and_then :: "('a, 'e) res \<Rightarrow> ('a \<Rightarrow> ('b, 'e) res) \<Rightarrow> ('b, 'e) res" where
  "and_then r f = (case r of Ok x \<Rightarrow> f x | Err e \<Rightarrow> Err e | Panic \<Rightarrow> Panic)"

lemma and_then_simps [simp]:
  "and_then (Ok x) f = f x"
  "and_then (Err e) f = Err e"
  "and_then Panic f = Panic"
  by (simp_all add: and_then_def)

lemma and_then_eq_Ok [res_simps]:
  "and_then r f = Ok y \<longleftrightarrow> (\<exists>x. r = Ok x \<and> f x = Ok y)"
  by (cases r) auto

lemma and_then_eq_Err [res_simps]:
  "and_then r f = Err e \<longleftrightarrow> r = Err e \<or> (\<exists>x. r = Ok x \<and> f x = Err e)"
  by (cases r) auto

lemma and_then_eq_Panic [res_simps]:
  "and_then r f = Panic \<longleftrightarrow> r = Panic \<or> (\<exists>x. r = Ok x \<and> f x = Panic)"
  by (cases r) auto

lemma and_then_cong [fundef_cong]:
  "r = r' \<Longrightarrow> (\<And>x. r' = Ok x \<Longrightarrow> f x = g x) \<Longrightarrow> and_then r f = and_then r' g"
  by (cases r') auto

lemma and_then_assoc: "and_then (and_then r f) g = and_then r (\<lambda>x. and_then (f x) g)"
  by (cases r) auto

text \<open>\<open>assert!\<close> and \<open>Option::unwrap\<close>.\<close>

definition assert_that :: "bool \<Rightarrow> (unit, 'e) res" where
  "assert_that b = (if b then Ok () else Panic)"

lemma assert_that_simps [simp]:
  "assert_that True = Ok ()"
  "assert_that False = Panic"
  "assert_that b = Ok u \<longleftrightarrow> b"
  "assert_that b = Panic \<longleftrightarrow> \<not> b"
  "assert_that b \<noteq> Err e"
  by (simp_all add: assert_that_def)

definition unwrap :: "'a option \<Rightarrow> ('a, 'e) res" where
  "unwrap o' = (case o' of Some x \<Rightarrow> Ok x | None \<Rightarrow> Panic)"

lemma unwrap_simps [simp]:
  "unwrap (Some x) = Ok x"
  "unwrap None = Panic"
  by (simp_all add: unwrap_def)

lemma unwrap_eq_Ok [simp]: "unwrap m = Ok x \<longleftrightarrow> m = Some x"
  by (cases m) auto

definition ok_or :: "'e \<Rightarrow> 'a option \<Rightarrow> ('a, 'e) res" where
  "ok_or e o' = (case o' of Some x \<Rightarrow> Ok x | None \<Rightarrow> Err e)"

lemma ok_or_simps [simp]:
  "ok_or e (Some x) = Ok x"
  "ok_or e None = Err e"
  by (simp_all add: ok_or_def)

lemma ok_or_eq_Ok [simp]: "ok_or e m = Ok x \<longleftrightarrow> m = Some x"
  by (cases m) auto

text \<open>\<open>iter().map(f).collect::<Result<Vec<_>, _>>()\<close>: the first failure stops the loop.\<close>

fun traverse :: "('a \<Rightarrow> ('b, 'e) res) \<Rightarrow> 'a list \<Rightarrow> ('b list, 'e) res" where
  "traverse f [] = Ok []"
| "traverse f (x # xs) = and_then (f x) (\<lambda>y. and_then (traverse f xs) (\<lambda>ys. Ok (y # ys)))"

lemma traverse_Ok_iff:
  "traverse f xs = Ok ys \<longleftrightarrow> list_all2 (\<lambda>x y. f x = Ok y) xs ys"
  by (induction xs arbitrary: ys) (auto simp: res_simps list_all2_Cons1)

lemma traverse_all_Ok: "(\<And>x. x \<in> set xs \<Longrightarrow> f x = Ok (g x)) \<Longrightarrow> traverse f xs = Ok (map g xs)"
  by (induction xs) auto

lemma traverse_Err: "traverse f xs = Err e \<Longrightarrow> \<exists>x\<in>set xs. f x = Err e"
  by (induction xs) (auto simp: res_simps)

lemma traverse_length: "traverse f xs = Ok ys \<Longrightarrow> length ys = length xs"
  by (auto simp: traverse_Ok_iff list_all2_lengthD)

text \<open>A \<open>for\<close> loop whose body may fail, threading the loop's state.\<close>

fun fold_res :: "('a \<Rightarrow> 's \<Rightarrow> ('s, 'e) res) \<Rightarrow> 'a list \<Rightarrow> 's \<Rightarrow> ('s, 'e) res" where
  "fold_res f [] s = Ok s"
| "fold_res f (x # xs) s = and_then (f x s) (fold_res f xs)"

lemma fold_res_append:
  "fold_res f (xs @ ys) s = and_then (fold_res f xs s) (fold_res f ys)"
proof (induction xs arbitrary: s)
  case (Cons x xs)
  then show ?case by (cases "f x s") simp_all
qed simp

lemma fold_res_invariant:
  assumes "fold_res f xs s = Ok s'" and "P s"
    and "\<And>x s s'. x \<in> set xs \<Longrightarrow> P s \<Longrightarrow> f x s = Ok s' \<Longrightarrow> P s'"
  shows "P s'"
  using assms by (induction xs arbitrary: s) (auto simp: res_simps)

section \<open>Machine integers and indexing\<close>

abbreviation usize_bound :: nat where
  "usize_bound \<equiv> 2 ^ 64"

definition uadd :: "nat \<Rightarrow> nat \<Rightarrow> (nat, 'e) res" where
  "uadd a b = (if a + b < usize_bound then Ok (a + b) else Panic)"

definition usub :: "nat \<Rightarrow> nat \<Rightarrow> (nat, 'e) res" where
  "usub a b = (if b \<le> a then Ok (a - b) else Panic)"

definition umul :: "nat \<Rightarrow> nat \<Rightarrow> (nat, 'e) res" where
  "umul a b = (if a * b < usize_bound then Ok (a * b) else Panic)"

definition upow :: "nat \<Rightarrow> nat \<Rightarrow> (nat, 'e) res" where
  "upow a n = (if a ^ n < usize_bound then Ok (a ^ n) else Panic)"

lemma uadd_eq_Ok [simp]: "uadd a b = Ok c \<longleftrightarrow> a + b < usize_bound \<and> c = a + b"
  by (auto simp: uadd_def)

lemma usub_eq_Ok [simp]: "usub a b = Ok c \<longleftrightarrow> b \<le> a \<and> c = a - b"
  by (auto simp: usub_def)

lemma usub_eq_Ok_add: "usub a b = Ok c \<longleftrightarrow> a = b + c"
  by auto

lemma umul_eq_Ok [simp]: "umul a b = Ok c \<longleftrightarrow> a * b < usize_bound \<and> c = a * b"
  by (auto simp: umul_def)

lemma upow_eq_Ok [simp]: "upow a n = Ok c \<longleftrightarrow> a ^ n < usize_bound \<and> c = a ^ n"
  by (auto simp: upow_def)

lemma machine_op_neq_Err [simp]:
  "uadd a b \<noteq> Err e" "usub a b \<noteq> Err e" "umul a b \<noteq> Err e" "upow a b \<noteq> Err e"
  by (auto simp: uadd_def usub_def umul_def upow_def)

text \<open>The cast \<open>n as u32\<close>, which the code applies to the exponents of its powers.\<close>

definition as_u32 :: "nat \<Rightarrow> nat" where
  "as_u32 n = n mod 2 ^ 32"

lemma as_u32_id [simp]: "n < 2 ^ 32 \<Longrightarrow> as_u32 n = n"
  by (simp add: as_u32_def)

lemma power_as_u32:
  assumes "0 < b" "b ^ n \<le> usize_bound"
  shows "b ^ as_u32 n = b ^ n"
proof (cases "b = 1")
  case False
  then have "2 ^ n \<le> b ^ n" using assms by (intro power_mono) auto
  then have "(2::nat) ^ n \<le> 2 ^ 64" using assms by linarith
  then have "n \<le> 64" by (rule power_le_imp_le_exp [rotated]) simp
  then show ?thesis by simp
qed simp

text \<open>\<open>checked_add\<close>, \<open>checked_sub\<close> and \<open>checked_mul\<close> return an option.\<close>

definition checked_add :: "nat \<Rightarrow> nat \<Rightarrow> nat option" where
  "checked_add a b = (if a + b < usize_bound then Some (a + b) else None)"

definition checked_sub :: "nat \<Rightarrow> nat \<Rightarrow> nat option" where
  "checked_sub a b = (if b \<le> a then Some (a - b) else None)"

definition checked_mul :: "nat \<Rightarrow> nat \<Rightarrow> nat option" where
  "checked_mul a b = (if a * b < usize_bound then Some (a * b) else None)"

lemma checked_eq_Some [simp]:
  "checked_add a b = Some c \<longleftrightarrow> a + b < usize_bound \<and> c = a + b"
  "checked_sub a b = Some c \<longleftrightarrow> b \<le> a \<and> c = a - b"
  "checked_mul a b = Some c \<longleftrightarrow> a * b < usize_bound \<and> c = a * b"
  by (auto simp: checked_add_def checked_sub_def checked_mul_def)

text \<open>\<open>v[i]\<close> and \<open>v[i] = x\<close>, which panic out of range.\<close>

definition index :: "'a list \<Rightarrow> nat \<Rightarrow> ('a, 'e) res" where
  "index xs i = (if i < length xs then Ok (xs ! i) else Panic)"

definition update :: "'a list \<Rightarrow> nat \<Rightarrow> 'a \<Rightarrow> ('a list, 'e) res" where
  "update xs i x = (if i < length xs then Ok (xs[i := x]) else Panic)"

lemma index_eq_Ok [simp]: "index xs i = Ok x \<longleftrightarrow> i < length xs \<and> x = xs ! i"
  by (auto simp: index_def)

lemma update_eq_Ok [simp]: "update xs i x = Ok ys \<longleftrightarrow> i < length xs \<and> ys = xs[i := x]"
  by (auto simp: update_def)

lemma index_update_neq_Err [simp]: "index xs i \<noteq> Err e" "update xs i x \<noteq> Err e"
  by (auto simp: index_def update_def)

section \<open>Arithmetic and lists\<close>

lemma nat_div_eq_iff:
  fixes c :: nat
  assumes "0 < c"
  shows "x div c = q \<longleftrightarrow> q * c \<le> x \<and> x < (q + 1) * c"
proof
  assume "x div c = q"
  then show "q * c \<le> x \<and> x < (q + 1) * c"
    using assms div_times_less_eq_dividend [of x c] dividend_less_div_times [of c x] by auto
next
  assume "q * c \<le> x \<and> x < (q + 1) * c"
  then show "x div c = q" by (intro div_nat_eqI) (simp_all add: mult.commute)
qed

end
