(* ===== verification/Float64.thy ===== *)
theory Float64
  imports Prelude "HOL-Library.Log_Nat"
begin

text \<open>
  The part of Rust's \<open>f64\<close> the code uses on unsigned integers: the conversion
  \<open>n as f64\<close>, the quotient of two floats, and \<open>floor() as usize\<close>.  All values involved
  are zero or lie between \<open>2 ^ -64\<close> and \<open>2 ^ 65\<close>, so neither subnormal numbers nor
  infinities arise and a float is its rational value; every operation is the exact result
  rounded to 53 significant bits, ties to even (IEEE 754 binary64).
\<close>

section \<open>Rounding to 53 significant bits\<close>

text \<open>\<open>ilog2 x\<close> is the exponent \<open>e\<close> with \<open>2 ^ e \<le> x < 2 ^ (e + 1)\<close>.\<close>

definition ilog2 :: "rat \<Rightarrow> int" where
  "ilog2 x = (case quotient_of x of (n, d) \<Rightarrow>
     let t = int (floorlog 2 (nat n)) - int (floorlog 2 (nat d))
     in if 2 powi t \<le> x then t else t - 1)"

definition round_half_even :: "rat \<Rightarrow> int" where
  "round_half_even x =
     (let f = \<lfloor>x\<rfloor>; r = x - of_int f
      in if r < 1 / 2 then f else if 1 / 2 < r then f + 1 else if even f then f else f + 1)"

definition f64_round :: "rat \<Rightarrow> rat" where
  "f64_round x =
     (if x = 0 then 0
      else let e = ilog2 \<bar>x\<bar> - 52
           in of_int (round_half_even (x / 2 powi e)) * 2 powi e)"

definition f64_of_nat :: "nat \<Rightarrow> rat" where
  "f64_of_nat n = f64_round (of_nat n)"

definition f64_div :: "rat \<Rightarrow> rat \<Rightarrow> rat" where
  "f64_div x y = f64_round (x / y)"

text \<open>\<open>x.floor() as usize\<close> and \<open>x.ceil() as u64\<close>; the cast saturates.\<close>

definition f64_floor_usize :: "rat \<Rightarrow> nat" where
  "f64_floor_usize x = min (nat \<lfloor>x\<rfloor>) (usize_bound - 1)"

definition f64_ceil_u64 :: "rat \<Rightarrow> nat" where
  "f64_ceil_u64 x = min (nat \<lceil>x\<rceil>) (usize_bound - 1)"

section \<open>Facts about rounding\<close>

lemma two_powi_less_imp_less: "(2::rat) powi m < 2 powi n \<Longrightarrow> m < n"
  using power_int_increasing [of n m "2::rat"] by (meson linorder_not_le one_le_numeral)

lemma ilog2_bounds:
  assumes "0 < x"
  shows "2 powi ilog2 x \<le> x \<and> x < 2 powi (ilog2 x + 1)"
proof -
  obtain n d where nd: "quotient_of x = (n, d)" by (cases "quotient_of x") auto
  have d: "0 < d" using quotient_of_denom_pos [OF nd] .
  have x: "x = of_int n / of_int d" using quotient_of_div [OF nd] .
  have n: "0 < n" using assms x d by (simp add: zero_less_divide_iff)
  define a b where "a = floorlog 2 (nat n)" and "b = floorlog 2 (nat d)"
  have an: "a > 0" "b > 0"
    using n d floorlog_eq_zero_iff [of 2 "nat n"] floorlog_eq_zero_iff [of 2 "nat d"]
    unfolding a_def b_def by linarith+
  have n1: "(2::rat) ^ (a - 1) \<le> of_int n" "of_int n < (2::rat) ^ a"
    using floorlog_bounds [of "nat n" 2] n unfolding a_def [symmetric]
    by (simp_all add: nat_less_iff le_nat_iff)
  have d1: "(2::rat) ^ (b - 1) \<le> of_int d" "of_int d < (2::rat) ^ b"
    using floorlog_bounds [of "nat d" 2] d unfolding b_def [symmetric]
    by (simp_all add: nat_less_iff le_nat_iff)
  define t where "t = int a - int b"
  have p: "(2::rat) powi t = 2 ^ a / 2 ^ b" by (simp add: t_def power_int_diff)
  have low: "2 powi (t - 1) \<le> x"
  proof -
    have "(2::rat) powi (t - 1) = 2 ^ (a - 1) / 2 ^ b"
      using an p by (cases a) (simp_all add: power_int_diff)
    also have "\<dots> \<le> of_int n / of_int d"
      using n1(1) d1(2) n d by (intro frac_le) auto
    finally show ?thesis by (simp add: x)
  qed
  have high: "x < 2 powi (t + 1)"
  proof -
    have "x < 2 ^ a / of_int d" using n1(2) d by (simp add: x divide_strict_right_mono)
    also have "\<dots> \<le> 2 ^ a / 2 ^ (b - 1)" using d1(1) d by (intro frac_le) auto
    also have "\<dots> = 2 powi (t + 1)"
      using an p by (cases b) (simp_all add: power_int_add)
    finally show ?thesis .
  qed
  have "ilog2 x = (if 2 powi t \<le> x then t else t - 1)"
    by (simp add: ilog2_def nd t_def a_def b_def Let_def)
  then show ?thesis using low high by auto
qed

lemma ilog2_unique:
  assumes "2 powi e \<le> x" "x < 2 powi (e + 1)"
  shows "ilog2 x = e"
proof -
  have pos: "0 < x" using assms(1) by (meson less_le_trans zero_less_numeral zero_less_power_int)
  note b = ilog2_bounds [OF pos]
  have "e < ilog2 x + 1"
    by (rule two_powi_less_imp_less) (use assms(1) b in linarith)
  moreover have "ilog2 x < e + 1"
    by (rule two_powi_less_imp_less) (use assms(2) b in linarith)
  ultimately show ?thesis by linarith
qed

lemma round_half_even_of_int [simp]: "round_half_even (of_int k) = k"
  by (simp add: round_half_even_def)

lemma round_half_even_bounds:
  "of_int (round_half_even x) \<le> x + 1 / 2" "x - 1 / 2 \<le> of_int (round_half_even x)"
  by (auto simp: round_half_even_def Let_def) linarith+

lemma round_half_even_ge: "of_int k \<le> x \<Longrightarrow> k \<le> round_half_even x"
  by (auto simp: round_half_even_def Let_def le_floor_iff) (use le_floor_iff in force)+

lemma round_half_even_le:
  assumes "x \<le> of_int k"
  shows "round_half_even x \<le> k"
proof -
  have "\<lfloor>x\<rfloor> \<le> k" using assms by (simp add: floor_le_iff)
  moreover have "\<lfloor>x\<rfloor> = k \<Longrightarrow> x - of_int \<lfloor>x\<rfloor> \<le> 0" using assms by simp
  ultimately show ?thesis
    by (cases "\<lfloor>x\<rfloor> = k") (auto simp: round_half_even_def Let_def)
qed

text \<open>A number with at most 53 significant bits is a float: rounding leaves it alone.\<close>

lemma f64_round_exact:
  assumes x: "x = of_int m * 2 powi k" and m: "0 < m" "m \<le> 2 ^ 53"
  shows "f64_round x = x"
proof -
  have pos: "0 < x" using m by (simp add: x)
  define t where "t = ilog2 x"
  have t: "2 powi t \<le> x" "x < 2 powi (t + 1)"
    using ilog2_bounds [OF pos] by (simp_all add: t_def)
  have "of_int m \<le> (2::rat) ^ 53" using m by (metis of_int_le_iff of_int_numeral of_int_power)
  then have le: "x \<le> 2 powi (53 + k)"
    by (simp add: x power_int_add mult_right_mono)
  have "\<exists>j. x / 2 powi (t - 52) = of_int j"
  proof (cases "t < 53 + k")
    case True
    then have "x / 2 powi (t - 52) = of_int m * 2 powi (k - (t - 52))"
      by (simp add: x power_int_diff)
    also have "\<dots> = of_int (m * 2 ^ nat (k - (t - 52)))"
      using True by (simp add: power_int_nonneg_exp)
    finally show ?thesis by blast
  next
    case False
    then have "2 powi (53 + k) \<le> (2::rat) powi t" by (intro power_int_increasing) auto
    with t le have "x = 2 powi t" by linarith
    then have "x / 2 powi (t - 52) = of_int (2 ^ 52)" by (simp add: power_int_diff)
    then show ?thesis by blast
  qed
  then obtain j where j: "x / 2 powi (t - 52) = of_int j" by blast
  have "f64_round x = of_int (round_half_even (of_int j)) * 2 powi (t - 52)"
    using pos by (simp add: f64_round_def Let_def t_def [symmetric] j)
  also have "\<dots> = of_int j * 2 powi (t - 52)" by simp
  also have "\<dots> = x" unfolding j [symmetric] by simp
  finally show ?thesis .
qed

lemma f64_of_nat_exact:
  assumes "n \<le> 2 ^ 53"
  shows "f64_of_nat n = of_nat n"
proof (cases "n = 0")
  case True
  then show ?thesis by (simp add: f64_of_nat_def f64_round_def)
next
  case False
  have "int n \<le> int (2 ^ 53)" using assms by (rule zle_int [THEN iffD2])
  then show ?thesis
    using f64_round_exact [of "of_nat n" "int n" 0] False by (simp add: f64_of_nat_def)
qed

text \<open>The floor of a float quotient of small numbers is their integer quotient.\<close>

lemma f64_div_floor:
  assumes a: "a < 2 ^ 53" and b: "0 < b"
  shows "\<lfloor>f64_div (of_nat a) (of_nat b)\<rfloor> = int (a div b)"
proof (cases "a = 0")
  case True
  then show ?thesis by (simp add: f64_div_def f64_round_def)
next
  case False
  define x :: rat where "x = of_nat a / of_nat b"
  have pos: "0 < x" using False b by (simp add: x_def)
  define t where "t = ilog2 x"
  have t: "2 powi t \<le> x" "x < 2 powi (t + 1)"
    using ilog2_bounds [OF pos] by (simp_all add: t_def)
  have "of_nat a < (2::rat) ^ 53" using a by (metis of_nat_less_iff of_nat_numeral of_nat_power)
  moreover have "x \<le> of_nat a"
    using divide_left_mono [of 1 "of_nat b" "of_nat a :: rat"] b by (simp add: x_def)
  ultimately have "x < 2 powi 53" by simp
  with t have "(2::rat) powi t < 2 powi 53" by linarith
  then have "t < 53" by (rule two_powi_less_imp_less)
  define k where "k = nat (52 - t)"
  have e: "(2::rat) powi (t - 52) = 1 / 2 ^ k"
    using \<open>t < 53\<close> by (simp add: k_def power_int_def field_simps)
  define y where "y = x * 2 ^ k"
  have rnd: "f64_div (of_nat a) (of_nat b) = of_int (round_half_even y) / 2 ^ k"
    using pos by (simp add: f64_div_def f64_round_def x_def [symmetric] Let_def t_def [symmetric] e y_def)
  have "(2::rat) powi t * 2 ^ k = 2 ^ 52"
    using \<open>t < 53\<close> by (simp add: k_def power_int_nonneg_exp [symmetric] power_int_add [symmetric])
  then have y52: "2 ^ 52 \<le> y" using t(1) unfolding y_def by (metis mult_right_mono zero_le_numeral zero_le_power)
  define q where "q = a div b"
  have qx: "of_nat q \<le> x" "x \<le> of_nat q + 1 - 1 / of_nat b"
  proof -
    have "q * b \<le> a" by (simp add: q_def)
    then have "of_nat (q * b) \<le> (of_nat a :: rat)" by (rule of_nat_mono)
    then show "of_nat q \<le> x" using b by (simp add: x_def field_simps)
    have "a + 1 \<le> (q + 1) * b" using b
      by (metis Suc_eq_plus1 Suc_leI dividend_less_times_div mult.commute mult_Suc q_def)
    then have "of_nat (a + 1) \<le> (of_nat ((q + 1) * b) :: rat)" by (rule of_nat_mono)
    then show "x \<le> of_nat q + 1 - 1 / of_nat b" using b by (simp add: x_def field_simps)
  qed
  have "of_int (int q * 2 ^ k) \<le> y" using qx(1) by (simp add: y_def)
  then have low: "int q * 2 ^ k \<le> round_half_even y" by (rule round_half_even_ge)
  have half: "1 / 2 < (2::rat) ^ k / of_nat b"
  proof -
    have "2 ^ 52 * of_nat b \<le> of_nat a * (2::rat) ^ k"
      using y52 b by (simp add: y_def x_def field_simps)
    also have "\<dots> < 2 ^ 53 * 2 ^ k" using \<open>of_nat a < _\<close> by (intro mult_strict_right_mono) auto
    finally show ?thesis using b by (simp add: field_simps)
  qed
  have "y \<le> (of_nat q + 1 - 1 / of_nat b) * 2 ^ k"
    using qx(2) by (simp add: y_def mult_right_mono)
  then have "y + 1 / 2 < (of_nat q + 1) * 2 ^ k"
    using half by (simp add: field_simps)
  then have "of_int (round_half_even y) < ((of_nat q + 1) * 2 ^ k :: rat)"
    using round_half_even_bounds(1) [of y] by linarith
  then have high: "f64_div (of_nat a) (of_nat b) < of_nat q + 1"
    by (simp add: rnd field_simps)
  have "of_int (int q * 2 ^ k) \<le> (of_int (round_half_even y) :: rat)" using low by (simp only: of_int_le_iff)
  then have "of_nat q \<le> f64_div (of_nat a) (of_nat b)"
    by (simp add: rnd field_simps)
  with high show ?thesis by (simp add: floor_eq_iff q_def)
qed

end
