(* ===== verification/Payout_Types.thy ===== *)
theory Payout_Types
  imports Prelude
begin

text \<open>
  The errors and the payout records of \<open>dlc/src/lib.rs\<close> that the tries, the payout curves and the
  transaction builders share.  Amounts are numbers of satoshis.
\<close>

text \<open>The errors of the crate; the texts they carry are left out.\<close>

datatype dlc_error = Secp256k1 | P2wpkh | InvalidArgument | Miniscript | InputsIndex

record payout =
  offer :: nat
  accept :: nat

record range_payout =
  rp_start :: nat
  rp_count :: nat
  rp_payout :: payout

text \<open>A list of ranges is contiguous from \<open>a\<close> to \<open>c\<close> (exclusive).\<close>

fun contiguous :: "range_payout list \<Rightarrow> nat \<Rightarrow> nat \<Rightarrow> bool" where
  "contiguous [] a c \<longleftrightarrow> a = c"
| "contiguous (r # rs) a c \<longleftrightarrow> rp_start r = a \<and> 0 < rp_count r \<and> contiguous rs (a + rp_count r) c"

lemma contiguous_append:
  "contiguous (xs @ ys) a c \<longleftrightarrow> (\<exists>m. contiguous xs a m \<and> contiguous ys m c)"
  by (induction xs arbitrary: a) auto

lemma contiguous_le: "contiguous rs a c \<Longrightarrow> a \<le> c"
  by (induction rs arbitrary: a) force+

lemma contiguous_range_bound:
  "contiguous rs a c \<Longrightarrow> r \<in> set rs \<Longrightarrow> a \<le> rp_start r \<and> rp_start r + rp_count r \<le> c"
proof (induction rs arbitrary: a)
  case (Cons x xs)
  then show ?case using contiguous_le [of xs "a + rp_count x" c] by fastforce
qed simp

end
