(* ===== verification/Digit_Decomposition.thy ===== *)
theory Digit_Decomposition
  imports Float64 Payout_Types "HOL-Library.Sublist"
begin

text \<open>
  \<open>dlc-trie/src/digit_decomposition.rs\<close>: numbers as digit lists (most significant digit
  first) and the grouping of an interval of outcomes into digit prefixes.  A prefix \<open>p\<close>
  of \<open>n\<close>-digit numbers stands for the interval of the numbers whose digits start with
  \<open>p\<close>; the main result is that \<open>group_by_ignoring_digits\<close> returns prefixes whose
  intervals tile the requested interval exactly, in order.
\<close>

section \<open>Decomposition and composition\<close>

text \<open>
  The \<open>while value > 0\<close> loop.  The quotient is computed in floating point, as in the code.
  A step that does not make \<open>value\<close> smaller repeats for ever (base 1) and ends when the
  vector cannot grow any more, a panic.
\<close>

function decompose_loop :: "nat \<Rightarrow> nat \<Rightarrow> (nat list, 'e) res" where
  "decompose_loop value base =
     (if value = 0 then Ok []
      else if base = 0 then Panic
      else let next = f64_floor_usize (f64_div (f64_of_nat value) (f64_of_nat base))
           in if next < value
              then and_then (decompose_loop next base) (\<lambda>ds. Ok (value mod base # ds))
              else Panic)"
  by pat_completeness auto
termination
  by (relation "measure fst") auto

declare decompose_loop.simps [simp del]

definition decompose_value :: "nat \<Rightarrow> nat \<Rightarrow> nat \<Rightarrow> (nat list, 'e) res" where
  "decompose_value value base nb_digits =
     and_then (decompose_loop value base) (\<lambda>ds.
       let res = ds @ replicate (nb_digits - length ds) 0
       in and_then (assert_that (nb_digits = length res)) (\<lambda>_. Ok (rev res)))"

fun compose_loop :: "nat list \<Rightarrow> nat \<Rightarrow> nat \<Rightarrow> (nat, 'e) res" where
  "compose_loop [] base composed = Ok composed"
| "compose_loop (v # vs) base composed =
     and_then (upow base (as_u32 (length vs))) (\<lambda>p.
     and_then (umul v p) (\<lambda>t.
     and_then (uadd composed t) (compose_loop vs base)))"

definition compose_value :: "nat list \<Rightarrow> nat \<Rightarrow> (nat, 'e) res" where
  "compose_value values base = compose_loop values base 0"

section \<open>Padding range payouts to the whole outcome space\<close>

definition pad_range_payouts :: "range_payout list \<Rightarrow> nat \<Rightarrow> nat \<Rightarrow> (range_payout list, 'e) res" where
  "pad_range_payouts original base nb_digits =
     and_then (index original 0) (\<lambda>first.
     and_then (if rp_start first \<noteq> 0
               then and_then (uadd (rp_count first) (rp_start first)) (\<lambda>c.
                      update original 0 (first\<lparr>rp_start := 0, rp_count := c\<rparr>))
               else Ok original) (\<lambda>outcomes.
     let last_index = length outcomes - 1 in
     and_then (index outcomes last_index) (\<lambda>last_outcome.
     and_then (upow base (as_u32 nb_digits)) (\<lambda>max_value.
     and_then (uadd (rp_start last_outcome) (rp_count last_outcome)) (\<lambda>e.
       if e \<noteq> max_value
       then and_then (usub max_value (rp_start last_outcome)) (\<lambda>c.
              update outcomes last_index (last_outcome\<lparr>rp_count := c\<rparr>))
       else Ok outcomes)))))"

section \<open>Grouping an interval into prefixes\<close>

text \<open>\<open>take_prefix\<close> splits off the common prefix; it returns the prefix and the two rests.\<close>

fun take_prefix_loop :: "nat list \<Rightarrow> nat list \<Rightarrow> (nat list \<times> nat list \<times> nat list, 'e) res" where
  "take_prefix_loop (x # xs) (y # ys) =
     (if x = y
      then and_then (take_prefix_loop xs ys) (\<lambda>(p, s, e). Ok (x # p, s, e))
      else Ok ([], x # xs, y # ys))"
| "take_prefix_loop _ _ = Panic"

definition take_prefix :: "nat list \<Rightarrow> nat list \<Rightarrow> (nat list \<times> nat list \<times> nat list, 'e) res" where
  "take_prefix ds de = (if ds = de then Ok (ds, [], []) else take_prefix_loop ds de)"

fun remove_tail :: "nat list \<Rightarrow> nat \<Rightarrow> nat list" where
  "remove_tail v to_remove =
     (if 1 < length v \<and> last v = to_remove then remove_tail (butlast v) to_remove else v)"

declare remove_tail.simps [simp del]

lemma length_remove_tail: "length (remove_tail v r) \<le> length v"
proof (induction v r rule: remove_tail.induct)
  case (1 v r)
  then show ?case by (subst remove_tail.simps) force
qed

lemma remove_tail_ne [simp]: "v \<noteq> [] \<Longrightarrow> remove_tail v r \<noteq> []"
proof (induction v r rule: remove_tail.induct)
  case (1 v r)
  show ?case
  proof (cases "1 < length v \<and> last v = r")
    case True
    then have "butlast v \<noteq> []" by (cases v rule: rev_cases) auto
    with True "1.IH" show ?thesis by (subst remove_tail.simps) simp
  next
    case False
    with "1.prems" show ?thesis by (subst remove_tail.simps) (simp only: if_False simp_thms)
  qed
qed

text \<open>\<open>stack[stack.len() - 1] += 1\<close>.\<close>

definition incr_last :: "nat list \<Rightarrow> nat list" where
  "incr_last s = butlast s @ [last s + 1]"

lemma length_incr_last: "s \<noteq> [] \<Longrightarrow> length (incr_last s) = length s"
  by (cases s rule: rev_cases) (auto simp: incr_last_def)

text \<open>The three loops, each with the list of prefixes found so far.\<close>

function group_head :: "nat \<Rightarrow> nat list \<Rightarrow> nat list list \<Rightarrow> (nat list \<times> nat list list, 'e) res" where
  "group_head base stack lst =
     (if length stack = 1 then Ok (stack, lst)
      else if stack = [] then Panic
      else if last stack = base - 1 then
        (let stack' = incr_last (remove_tail (butlast stack) (base - 1))
         in if list_all (\<lambda>x. x < base) stack' then group_head base stack' (lst @ [stack]) else Panic)
      else if last stack = 0 then
        (let stack' = remove_tail stack 0
         in if list_all (\<lambda>x. x < base) stack' then group_head base stack' lst else Panic)
      else
        (let stack' = incr_last stack
         in if list_all (\<lambda>x. x < base) stack' then group_head base stack' (lst @ [stack]) else Panic))"
  by pat_completeness auto

termination
proof (relation "measures [\<lambda>(base, stack, lst). length stack, \<lambda>(base, stack, lst). base - last stack]",
       goal_cases)
  case (2 base stack lst s)
  then have "butlast stack \<noteq> []" by (cases stack rule: rev_cases) auto
  then have "length s = length (remove_tail (butlast stack) (base - 1))"
    using 2 by (simp add: length_incr_last)
  moreover have "length (remove_tail (butlast stack) (base - 1)) \<le> length (butlast stack)"
    by (rule length_remove_tail)
  ultimately show ?case using 2 by (cases stack) auto
next
  case (3 base stack lst s)
  then have "1 < length stack" by (cases stack) auto
  then have "s = remove_tail (butlast stack) 0"
    using 3 by (subst (asm) remove_tail.simps) auto
  then have "length s \<le> length (butlast stack)" using length_remove_tail by blast
  then have "length s < length stack" using \<open>1 < length stack\<close> by simp
  then show ?case by simp
next
  case (4 base stack lst s)
  then have "last s = last stack + 1" "length s = length stack" "last stack + 1 < base"
    by (auto simp: incr_last_def)
  then show ?case by simp
qed simp

declare group_head.simps [simp del]

function group_mid :: "nat list \<Rightarrow> nat list \<Rightarrow> nat list list \<Rightarrow> (nat list \<times> nat list list, 'e) res" where
  "group_mid stack de lst =
     (if stack = [] \<or> de = [] then Panic
      else if hd stack = hd de then Ok (stack, lst)
      else if hd stack + 1 < usize_bound
           then group_mid ((hd stack + 1) # tl stack) de (lst @ [stack])
           else Panic)"
  by pat_completeness auto
termination
  by (relation "measure (\<lambda>(stack, de, lst). usize_bound - hd stack)") auto

declare group_mid.simps [simp del]

function group_tail :: "nat list \<Rightarrow> nat list \<Rightarrow> nat list list \<Rightarrow> (nat list list, 'e) res" where
  "group_tail stack de lst =
     (if stack = de then Ok lst
      else if stack = [] \<or> length de < length stack then Panic
      else if last stack = de ! (length stack - 1) then group_tail (stack @ [0]) de lst
      else if last stack + 1 < usize_bound
           then group_tail (incr_last stack) de (lst @ [stack])
           else Panic)"
  by pat_completeness auto
termination
  by (relation "measures [\<lambda>(stack, de, lst). Suc (length de) - length stack,
        \<lambda>(stack, de, lst). usize_bound - last stack]")
     (auto simp: length_incr_last, simp add: incr_last_def)

declare group_tail.simps [simp del]

definition group_by_ignoring_digits :: "nat \<Rightarrow> nat \<Rightarrow> nat \<Rightarrow> nat \<Rightarrow> (nat list list, 'e) res" where
  "group_by_ignoring_digits start end' base nb_digits =
     and_then (assert_that (start \<le> end')) (\<lambda>_.
     and_then (decompose_value start base nb_digits) (\<lambda>ds0.
     and_then (decompose_value end' base nb_digits) (\<lambda>de0.
     and_then (take_prefix ds0 de0) (\<lambda>(prefix, ds1, de1).
       if (ds1 = [] \<and> de1 = []) \<or> (list_all (\<lambda>x. x = 0) ds1 \<and> list_all (\<lambda>x. x = base - 1) de1)
       then Ok [prefix]
       else
         (let ds = remove_tail ds1 0; de = remove_tail de1 (base - 1) in
          and_then (group_head base ds []) (\<lambda>(stack, lst).
          and_then (group_mid stack de lst) (\<lambda>(stack, lst).
          and_then (group_tail stack de lst) (\<lambda>lst.
            let lst = lst @ [de]
            in Ok (if prefix \<noteq> [] then map ((@) prefix) lst else lst)))))))))"

section \<open>The value of a digit list\<close>

text \<open>The specification: the number a digit list stands for.\<close>

fun dval :: "nat \<Rightarrow> nat list \<Rightarrow> nat" where
  "dval b [] = 0"
| "dval b (d # ds) = d * b ^ length ds + dval b ds"

abbreviation digits_below :: "nat \<Rightarrow> nat list \<Rightarrow> bool" where
  "digits_below b ds \<equiv> list_all (\<lambda>x. x < b) ds"

lemma dval_append: "dval b (xs @ ys) = dval b xs * b ^ length ys + dval b ys"
  by (induction xs) (auto simp: algebra_simps power_add)

lemma dval_replicate_0 [simp]: "dval b (replicate k 0) = 0"
  by (induction k) auto

lemma dval_less: "digits_below b ds \<Longrightarrow> dval b ds < b ^ length ds"
proof (induction ds)
  case (Cons d ds)
  then have "d * b ^ length ds + dval b ds < (d + 1) * b ^ length ds" by simp
  also have "\<dots> \<le> b * b ^ length ds" using Cons.prems by (intro mult_right_mono) auto
  finally show ?case by simp
qed simp

lemma dval_replicate_max: "0 < b \<Longrightarrow> dval b (replicate k (b - 1)) + 1 = b ^ k"
proof (induction k)
  case (Suc k)
  then have "dval b (replicate (Suc k) (b - 1)) + 1 = (b - 1) * b ^ k + b ^ k" by simp
  also have "\<dots> = (b - 1 + 1) * b ^ k" by (simp only: add_mult_distrib mult_1)
  finally show ?case using Suc.prems by simp
qed simp

lemma dval_inject:
  "digits_below b xs \<Longrightarrow> digits_below b ys \<Longrightarrow> length xs = length ys \<Longrightarrow>
   dval b xs = dval b ys \<Longrightarrow> xs = ys"
proof (induction xs ys rule: list_induct2')
  case (4 x xs y ys)
  then have len: "length xs = length ys" by simp
  have lt: "dval b xs < b ^ length ys" "dval b ys < b ^ length ys"
    using dval_less 4 len by (metis list.pred_inject(2))+
  have pos: "0 < b ^ length ys" using lt(1) by linarith
  have eq: "x * b ^ length ys + dval b xs = y * b ^ length ys + dval b ys"
    using 4 len by simp
  then have "(x * b ^ length ys + dval b xs) div b ^ length ys = (y * b ^ length ys + dval b ys) div b ^ length ys"
    by simp
  then have "x = y" using lt pos by simp
  with 4 eq len show ?case by simp
qed auto

section \<open>Correctness of decomposition\<close>

lemma f64_quotient_small:
  assumes "value < 2 ^ 53" "0 < base" "base \<le> 2 ^ 53"
  shows "f64_floor_usize (f64_div (f64_of_nat value) (f64_of_nat base)) = value div base"
proof -
  have "value div base < 2 ^ 64"
    using div_le_dividend [of "value" base] assms(1)
    by (rule le_less_trans [OF _ less_trans]) simp
  then show ?thesis
    using assms by (simp add: f64_of_nat_exact f64_div_floor f64_floor_usize_def)
qed

text \<open>
  The loop yields the digits of a value below \<open>2 ^ 53\<close>, least significant first, without a
  leading zero.
\<close>

lemma decompose_loop_correct:
  assumes "2 \<le> base" "base \<le> 2 ^ 53" "value < 2 ^ 53"
  shows "\<exists>ds. decompose_loop value base = (Ok ds :: (nat list, 'e) res) \<and> dval base (rev ds) = value \<and>
    digits_below base ds \<and> (ds \<noteq> [] \<longrightarrow> last ds \<noteq> 0)"
  using assms
proof (induction "value" rule: less_induct)
  case (less v)
  show ?case
  proof (cases "v = 0")
    case True
    then show ?thesis by (simp add: decompose_loop.simps)
  next
    case False
    have q: "f64_floor_usize (f64_div (f64_of_nat v) (f64_of_nat base)) = v div base"
      using less.prems by (intro f64_quotient_small) auto
    have lt: "v div base < v" using False less.prems by simp
    moreover have "v div base < 2 ^ 53" using lt less.prems by linarith
    ultimately obtain ds where ds: "decompose_loop (v div base) base = (Ok ds :: (nat list, 'e) res)"
      "dval base (rev ds) = v div base" "digits_below base ds" "ds \<noteq> [] \<longrightarrow> last ds \<noteq> 0"
      using less.IH less.prems by blast
    have "decompose_loop v base = (Ok (v mod base # ds) :: (nat list, 'e) res)"
      using False less.prems(1) lt
      by (subst decompose_loop.simps) (simp only: q Let_def if_True if_False and_then_simps ds(1), simp)
    moreover have "dval base (rev (v mod base # ds)) = v"
      using ds(2) by (simp add: dval_append mult.commute)
    moreover have "last (v mod base # ds) \<noteq> 0"
      using False ds(2,4) less.prems(1) by (cases "ds = []") (auto simp: div_eq_0_iff)
    ultimately show ?thesis using ds(3) less.prems by auto
  qed
qed

lemma decompose_value_spec:
  assumes "2 \<le> base" "base \<le> 2 ^ 53" "value < 2 ^ 53" "value < base ^ nb"
  obtains ds where "decompose_value value base nb = (Ok ds :: (nat list, 'e) res)" "length ds = nb"
    "digits_below base ds" "dval base ds = value"
proof -
  obtain ds where ds: "decompose_loop value base = (Ok ds :: (nat list, 'e) res)" "dval base (rev ds) = value"
    "digits_below base ds" "ds \<noteq> [] \<longrightarrow> last ds \<noteq> 0"
    using decompose_loop_correct [OF assms(1-3)] by blast
  have "length ds \<le> nb"
  proof (rule ccontr)
    assume "\<not> length ds \<le> nb"
    then obtain xs d where xs: "ds = xs @ [d]" and "nb \<le> length xs" by (cases ds rule: rev_cases) auto
    have "base ^ nb \<le> base ^ length xs" using \<open>nb \<le> length xs\<close> assms(1) by simp
    also have "\<dots> \<le> d * base ^ length xs" using ds(4) xs by simp
    also have "\<dots> \<le> value" using ds(2) xs by simp
    finally show False using assms(4) by simp
  qed
  then have "decompose_value value base nb = (Ok (replicate (nb - length ds) 0 @ rev ds) :: (nat list, 'e) res)"
    by (simp add: decompose_value_def ds(1) Let_def)
  moreover have "digits_below base (replicate (nb - length ds) 0 @ rev ds)"
    using ds(3) assms(1) by (auto simp: list_all_iff)
  ultimately show thesis
    using that [of "replicate (nb - length ds) 0 @ rev ds"] ds(2) \<open>length ds \<le> nb\<close>
    by (simp add: dval_append)
qed

lemma compose_loop_correct:
  assumes "digits_below b ds" "acc + dval b ds < usize_bound" "0 < b" "b ^ length ds \<le> usize_bound"
  shows "compose_loop ds b acc = Ok (acc + dval b ds)"
  using assms
proof (induction ds arbitrary: acc)
  case (Cons d ds)
  then have b: "b ^ length ds < usize_bound"
  proof (cases "b = 1")
    case False
    then have "b ^ length ds < b ^ length (d # ds)" using Cons.prems by (intro power_strict_increasing) auto
    then show ?thesis using Cons.prems by linarith
  qed simp
  moreover have "b ^ as_u32 (length ds) = b ^ length ds"
    using b Cons.prems by (intro power_as_u32) auto
  ultimately show ?case using Cons by (simp add: upow_def umul_def uadd_def add.assoc)
qed simp

section \<open>Prefixes as intervals\<close>

text \<open>
  The first number and the number after the last number of \<open>n\<close> digits that start with \<open>p\<close>.
\<close>

definition plo :: "nat \<Rightarrow> nat \<Rightarrow> nat list \<Rightarrow> nat" where
  "plo b n p = dval b p * b ^ (n - length p)"

definition phi :: "nat \<Rightarrow> nat \<Rightarrow> nat list \<Rightarrow> nat" where
  "phi b n p = (dval b p + 1) * b ^ (n - length p)"

text \<open>\<open>tiles b n ps a c\<close>: the intervals of \<open>ps\<close> are adjacent and cover \<open>a ..< c\<close>.\<close>

fun tiles :: "nat \<Rightarrow> nat \<Rightarrow> nat list list \<Rightarrow> nat \<Rightarrow> nat \<Rightarrow> bool" where
  "tiles b n [] a c \<longleftrightarrow> a = c"
| "tiles b n (p # ps) a c \<longleftrightarrow>
     length p \<le> n \<and> digits_below b p \<and> plo b n p = a \<and> tiles b n ps (phi b n p) c"

lemma tiles_append: "tiles b n (xs @ ys) a c \<longleftrightarrow> (\<exists>m. tiles b n xs a m \<and> tiles b n ys m c)"
  by (induction xs arbitrary: a) auto

lemma plo_zeros: "length p + k \<le> n \<Longrightarrow> plo b n (p @ replicate k 0) = plo b n p"
proof -
  assume "length p + k \<le> n"
  then have "n - length p = k + (n - (length p + k))" by simp
  then show ?thesis
    by (simp add: plo_def dval_append power_add)
qed

lemma phi_max: "0 < b \<Longrightarrow> length p + k \<le> n \<Longrightarrow> phi b n (p @ replicate k (b - 1)) = phi b n p"
proof -
  assume b: "0 < b" and "length p + k \<le> n"
  then have n: "n - length p = k + (n - (length p + k))" by simp
  have "dval b (p @ replicate k (b - 1)) + 1 = (dval b p + 1) * b ^ k"
    using dval_replicate_max [OF b, of k] by (simp add: dval_append)
  then have "phi b n (p @ replicate k (b - 1)) = (dval b p + 1) * b ^ k * b ^ (n - (length p + k))"
    by (simp add: phi_def)
  then show ?thesis by (simp only: phi_def n power_add mult.assoc)
qed

lemma plo_incr_last: "s \<noteq> [] \<Longrightarrow> plo b n (incr_last s) = phi b n s"
  by (cases s rule: rev_cases) (auto simp: incr_last_def plo_def phi_def dval_append)

lemma plo_prepend:
  "length p + length pre \<le> n \<Longrightarrow>
   plo b n (pre @ p) = dval b pre * b ^ (n - length pre) + plo b (n - length pre) p"
proof -
  assume "length p + length pre \<le> n"
  then have "n - length pre = length p + (n - (length pre + length p))" by simp
  then have "b ^ (n - length pre) = b ^ length p * b ^ (n - (length pre + length p))"
    by (metis power_add)
  then show ?thesis
    by (simp only: plo_def dval_append add_mult_distrib mult.assoc length_append diff_diff_left)
qed

lemma phi_eq_plo: "phi b n p = plo b n p + b ^ (n - length p)"
  by (simp add: phi_def plo_def)

lemma phi_prepend:
  "length p + length pre \<le> n \<Longrightarrow>
   phi b n (pre @ p) = dval b pre * b ^ (n - length pre) + phi b (n - length pre) p"
  by (simp only: phi_eq_plo plo_prepend length_append diff_diff_left add.assoc)

lemma tiles_prepend:
  assumes "tiles b (n - length pre) ps a c" "digits_below b pre" "length pre \<le> n"
  shows "tiles b n (map ((@) pre) ps) (dval b pre * b ^ (n - length pre) + a)
    (dval b pre * b ^ (n - length pre) + c)"
  using assms(1)
proof (induction ps arbitrary: a)
  case (Cons p ps)
  then have len: "length p + length pre \<le> n" using assms(3) by auto
  with Cons assms(2) show ?case by (simp add: plo_prepend phi_prepend)
qed simp

lemma plo_le_phi: "plo b n p \<le> phi b n p"
  by (simp add: plo_def phi_def)

lemma tiles_le: "tiles b n ps a c \<Longrightarrow> a \<le> c"
proof (induction ps arbitrary: a)
  case (Cons p ps)
  then have "phi b n p \<le> c" "plo b n p = a" by auto
  then show ?case using plo_le_phi [of b n p] by simp
qed simp

text \<open>A number lies in the interval of \<open>p\<close> exactly when its digits start with \<open>p\<close>.\<close>

lemma dval_in_prefix:
  assumes "digits_below b ds" "digits_below b p" "length p \<le> length ds"
  shows "plo b (length ds) p \<le> dval b ds \<and> dval b ds < phi b (length ds) p \<longleftrightarrow> prefix p ds"
proof -
  define u v where "u = take (length p) ds" and "v = drop (length p) ds"
  have ds: "ds = u @ v" and lu: "length u = length p" and lv: "length ds - length p = length v"
    using assms(3) by (simp_all add: u_def v_def)
  have bel: "digits_below b u" "digits_below b v" using assms(1) ds by simp_all
  have v: "dval b v < b ^ length v" using dval_less [OF bel(2)] .
  have pos: "0 < b ^ length v" using v by linarith
  have "plo b (length ds) p \<le> dval b ds \<and> dval b ds < phi b (length ds) p \<longleftrightarrow>
    dval b p * b ^ length v \<le> dval b u * b ^ length v + dval b v \<and>
    dval b u * b ^ length v + dval b v < (dval b p + 1) * b ^ length v"
    unfolding plo_def phi_def lv by (simp add: ds dval_append)
  also have "\<dots> \<longleftrightarrow> (dval b u * b ^ length v + dval b v) div b ^ length v = dval b p"
    using nat_div_eq_iff [OF pos] by blast
  also have "\<dots> \<longleftrightarrow> dval b u = dval b p" using v pos by simp
  also have "\<dots> \<longleftrightarrow> u = p" using dval_inject [OF bel(1) assms(2)] lu by blast
  also have "\<dots> \<longleftrightarrow> prefix p ds" by (simp add: u_def prefix_def) (metis append_eq_conv_conj append_take_drop_id)
  finally show ?thesis .
qed

section \<open>Correctness of the grouping\<close>

lemma remove_tail_replicate:
  "\<exists>k. v = remove_tail v r @ replicate k r \<and> (1 < length (remove_tail v r) \<longrightarrow> last (remove_tail v r) \<noteq> r)"
proof (induction v r rule: remove_tail.induct)
  case (1 v r)
  show ?case
  proof (cases "1 < length v \<and> last v = r")
    case True
    then obtain k where k: "butlast v = remove_tail (butlast v) r @ replicate k r"
      "1 < length (remove_tail (butlast v) r) \<longrightarrow> last (remove_tail (butlast v) r) \<noteq> r"
      using "1.IH" by blast
    have rt: "remove_tail v r = remove_tail (butlast v) r" using True by (subst remove_tail.simps) simp
    have "v = butlast v @ [r]" using True by (cases v rule: rev_cases) auto
    then have "v = remove_tail v r @ replicate (Suc k) r"
      using k(1) rt by (metis append_assoc replicate_append_same replicate_Suc)
    with k(2) rt show ?thesis by metis
  next
    case False
    then have "remove_tail v r = v" by (subst remove_tail.simps) (simp only: if_False)
    with False show ?thesis by (intro exI [of _ 0]) auto
  qed
qed

lemma plo_remove_tail: "length v \<le> n \<Longrightarrow> plo b n (remove_tail v 0) = plo b n v"
  using remove_tail_replicate [of v 0] plo_zeros [of "remove_tail v 0" _ n b]
  by (metis length_append length_replicate)

lemma phi_remove_tail:
  "0 < b \<Longrightarrow> length v \<le> n \<Longrightarrow> phi b n (remove_tail v (b - 1)) = phi b n v"
  using remove_tail_replicate [of v "b - 1"] phi_max [of b "remove_tail v (b - 1)" _ n]
  by (metis length_append length_replicate)

lemma remove_tail_digits: "digits_below b v \<Longrightarrow> digits_below b (remove_tail v r)"
  using remove_tail_replicate [of v r] by (metis list_all_append)

lemma hd_remove_tail: "v \<noteq> [] \<Longrightarrow> hd (remove_tail v r) = hd v"
  using remove_tail_replicate [of v r] remove_tail_ne [of v r] by (metis hd_append2)

text \<open>
  First loop: from a stack whose first digit is below \<open>h\<close> it ends with a single digit of at
  most \<open>h\<close>, and the prefixes it collects tile the numbers in between.
\<close>

definition head_inv :: "nat \<Rightarrow> nat \<Rightarrow> nat \<Rightarrow> nat list \<Rightarrow> bool" where
  "head_inv b n h s \<longleftrightarrow> s \<noteq> [] \<and> length s \<le> n \<and> digits_below b s \<and>
     (if length s = 1 then hd s \<le> h else hd s < h)"

lemma head_inv_incr_last:
  assumes s: "s \<noteq> []" "length s \<le> n" "digits_below b s" "hd s < h" "h < b"
    and last: "1 < length s \<longrightarrow> last s + 1 < b"
  shows "head_inv b n h (incr_last s)"
proof (cases "length s = 1")
  case True
  then obtain x where "s = [x]" by (cases s) auto
  with s show ?thesis by (simp add: head_inv_def incr_last_def)
next
  case False
  then obtain x ys y where xs: "s = x # ys @ [y]" using s(1)
    by (cases s; cases "tl s" rule: rev_cases) auto
  with s last show ?thesis by (simp add: head_inv_def incr_last_def)
qed

lemma group_head_correct:
  assumes "head_inv b n h stack" "h < b" "2 \<le> b"
  shows "\<exists>s ps. group_head b stack lst = (Ok ([s], lst @ ps) :: (_, 'e) res) \<and> s \<le> h \<and>
    tiles b n ps (plo b n stack) (plo b n [s])"
  using assms
proof (induction b stack lst rule: group_head.induct)
  case (1 b stack lst)
  note inv = "1.prems"(1) [unfolded head_inv_def]
  show ?case
  proof (cases "length stack = 1")
    case True
    then obtain s where "stack = [s]" by (cases stack) auto
    then show ?thesis using inv by (subst group_head.simps) simp
  next
    case False
    then have len: "1 < length stack" using inv by (cases stack) auto
    then have ne: "butlast stack \<noteq> []" "stack \<noteq> []" by (cases stack rule: rev_cases; auto)+
    have hd: "hd stack < h" using inv False by simp
    have hdb: "hd (butlast stack) = hd stack" using ne by (metis append_butlast_last_id hd_append2)
    have bel: "digits_below b (butlast stack)" "last stack < b"
      using inv ne by (auto simp: list_all_iff dest: in_set_butlastD)
    consider (max) "last stack = b - 1" | (zero) "last stack = 0" "last stack \<noteq> b - 1"
      | (mid) "last stack \<noteq> 0" "last stack \<noteq> b - 1" by blast
    then show ?thesis
    proof cases
      case max
      define s where "s = remove_tail (butlast stack) (b - 1)"
      have s: "s \<noteq> []" "length s \<le> n" "digits_below b s" "hd s < h"
        using ne inv hd hdb length_remove_tail [of "butlast stack" "b - 1"] bel
        by (auto simp: s_def hd_remove_tail remove_tail_digits)
      have "1 < length s \<longrightarrow> last s \<noteq> b - 1"
        using remove_tail_replicate [of "butlast stack" "b - 1"] by (auto simp: s_def)
      moreover have "last s < b" using s by (simp add: list_all_iff)
      ultimately have inv': "head_inv b n h (incr_last s)"
        using s "1.prems" by (intro head_inv_incr_last) auto
      have plo: "plo b n (incr_last s) = phi b n stack"
      proof -
        have "stack = butlast stack @ replicate 1 (b - 1)"
          using append_butlast_last_id [OF ne(2)] max by simp
        then have "phi b n stack = phi b n (butlast stack)"
          using phi_max [of b "butlast stack" 1 n] "1.prems" inv ne by simp
        moreover have "phi b n s = phi b n (butlast stack)"
          unfolding s_def using "1.prems"(3) inv by (intro phi_remove_tail) auto
        ultimately show ?thesis using s(1) by (simp add: plo_incr_last)
      qed
      have all: "list_all (\<lambda>x. x < b) (incr_last s)" using inv' by (simp add: head_inv_def)
      obtain x ps where r: "group_head b (incr_last s) (lst @ [stack]) = (Ok ([x], (lst @ [stack]) @ ps) :: (_, 'e) res)"
        "x \<le> h" "tiles b n ps (plo b n (incr_last s)) (plo b n [x])"
        using "1.IH"(1) [OF False ne(2) max _ _ inv' "1.prems"(2,3)] all unfolding s_def by blast
      have "group_head b stack lst = (Ok ([x], lst @ stack # ps) :: (_, 'e) res)"
        using False ne(2) max all r(1) by (subst group_head.simps) (simp add: s_def)
      moreover have "tiles b n (stack # ps) (plo b n stack) (plo b n [x])"
        using r(3) plo inv by simp
      ultimately show ?thesis using r(2) by blast
    next
      case zero
      have inv': "head_inv b n h (remove_tail stack 0)"
        using inv hd ne length_remove_tail [of stack 0]
        by (simp add: head_inv_def hd_remove_tail remove_tail_digits less_imp_le)
      have all: "list_all (\<lambda>x. x < b) (remove_tail stack 0)" using inv' by (simp add: head_inv_def)
      obtain x ps where r: "group_head b (remove_tail stack 0) lst = (Ok ([x], lst @ ps) :: (_, 'e) res)"
        "x \<le> h" "tiles b n ps (plo b n (remove_tail stack 0)) (plo b n [x])"
        using "1.IH"(2) [OF False ne(2) zero(2,1) _ _ inv' "1.prems"(2,3)] all by blast
      have "group_head b stack lst = (Ok ([x], lst @ ps) :: (_, 'e) res)"
        using False ne(2) zero all r(1) by (subst group_head.simps) simp
      then show ?thesis using r inv by (auto simp: plo_remove_tail)
    next
      case mid
      have inv': "head_inv b n h (incr_last stack)"
        using inv hd bel mid "1.prems"(2) by (intro head_inv_incr_last) auto
      have all: "list_all (\<lambda>x. x < b) (incr_last stack)" using inv' by (simp add: head_inv_def)
      obtain x ps where r: "group_head b (incr_last stack) (lst @ [stack]) = (Ok ([x], (lst @ [stack]) @ ps) :: (_, 'e) res)"
        "x \<le> h" "tiles b n ps (plo b n (incr_last stack)) (plo b n [x])"
        using "1.IH"(3) [OF False ne(2) mid(2,1) _ _ inv' "1.prems"(2,3)] all by blast
      have "group_head b stack lst = (Ok ([x], lst @ stack # ps) :: (_, 'e) res)"
        using False ne(2) mid all r(1) by (subst group_head.simps) simp
      moreover have "tiles b n (stack # ps) (plo b n stack) (plo b n [x])"
        using r(3) inv ne by (simp add: plo_incr_last)
      ultimately show ?thesis using r(2) by blast
    qed
  qed
qed

text \<open>Second loop: single digits up to the first digit of the end.\<close>

lemma group_mid_correct:
  assumes "de = e # es" "s \<le> e" "e < b" "b \<le> usize_bound" "0 < n"
  shows "\<exists>ps. group_mid [s] de lst = (Ok ([e], lst @ ps) :: (_, 'e) res) \<and>
    tiles b n ps (plo b n [s]) (plo b n [e])"
  using assms
proof (induction "e - s" arbitrary: s lst)
  case 0
  then have "s = e" by simp
  then show ?case using 0 by (subst group_mid.simps) simp
next
  case (Suc k)
  then have lt: "s < e" by linarith
  then have "s + 1 < usize_bound" using Suc.prems by linarith
  moreover obtain ps where ps: "group_mid [s + 1] de (lst @ [[s]]) = (Ok ([e], (lst @ [[s]]) @ ps) :: (_, 'e) res)"
    "tiles b n ps (plo b n [s + 1]) (plo b n [e])"
    using Suc.hyps(1) [of "s + 1" "lst @ [[s]]"] Suc.hyps(2) Suc.prems lt by force
  ultimately have "group_mid [s] de lst = (Ok ([e], lst @ [s] # ps) :: (_, 'e) res)"
    using Suc.prems(1) lt by (subst group_mid.simps) simp
  moreover have "tiles b n ([s] # ps) (plo b n [s]) (plo b n [e])"
    using ps(2) Suc.prems lt by (simp add: plo_def phi_def)
  ultimately show ?case by blast
qed

text \<open>Third loop: digits below the end, following its digits one after the other.\<close>

lemma group_tail_correct:
  assumes "digits_below b de" "length de \<le> n" "b \<le> usize_bound" "stack \<noteq> []" "length stack \<le> length de"
    and "butlast stack = take (length stack - 1) de" "last stack \<le> de ! (length stack - 1)"
  shows "\<exists>ps. group_tail stack de lst = (Ok (lst @ ps) :: (_, 'e) res) \<and>
    tiles b n ps (plo b n stack) (plo b n de)"
  using assms
proof (induction stack de lst rule: group_tail.induct)
  case (1 stack de lst)
  show ?case
  proof (cases "stack = de")
    case True
    then show ?thesis by (subst group_tail.simps) simp
  next
    case False
    define i where "i = length stack - 1"
    have i: "i < length de" "length stack = Suc i" using "1.prems" by (cases stack; auto simp: i_def)+
    have st: "stack = take i de @ [last stack]"
      using "1.prems"(4,6) by (metis append_butlast_last_id i_def)
    have nP: "\<not> (stack = [] \<or> length de < length stack)" using "1.prems" by simp
    show ?thesis
    proof (cases "last stack = de ! i")
      case True
      then have tk: "stack = take (Suc i) de" using st i by (simp add: take_Suc_conv_app_nth)
      then have "Suc i < length de" using False i by (metis Suc_lessI take_all order_refl)
      then obtain ps where ps: "group_tail (stack @ [0]) de lst = (Ok (lst @ ps) :: (_, 'e) res)"
        "tiles b n ps (plo b n (stack @ [0])) (plo b n de)"
        using "1.IH"(1) [OF False nP] True "1.prems" tk i by (auto simp: i_def [symmetric])
      have "plo b n (stack @ [0]) = plo b n stack"
        using plo_zeros [of stack 1 n b] i \<open>Suc i < length de\<close> "1.prems"(2) by simp
      moreover have "group_tail stack de lst = (Ok (lst @ ps) :: (_, 'e) res)"
        using False nP True ps(1) by (subst group_tail.simps) (simp add: i_def)
      ultimately show ?thesis using ps by auto
    next
      case neq: False
      then have lt: "last stack < de ! i" using "1.prems"(7) by (simp add: i_def)
      have deb: "de ! i < b" using "1.prems"(1) i by (simp add: list_all_length)
      then have ub: "last stack + 1 < usize_bound" using lt "1.prems"(3) by linarith
      have len: "length (incr_last stack) = Suc i" using st i by (simp add: incr_last_def)
      obtain ps where ps: "group_tail (incr_last stack) de (lst @ [stack]) = (Ok ((lst @ [stack]) @ ps) :: (_, 'e) res)"
        "tiles b n ps (plo b n (incr_last stack)) (plo b n de)"
        using "1.IH"(2) [OF False nP] neq ub "1.prems" lt i len
        by (auto simp: i_def [symmetric] incr_last_def)
      have "group_tail stack de lst = (Ok (lst @ stack # ps) :: (_, 'e) res)"
        using False nP neq ub ps(1) by (subst group_tail.simps) (simp add: i_def)
      moreover have "digits_below b (take i de)" using "1.prems"(1)
        by (auto simp: list_all_iff dest: in_set_takeD)
      then have "digits_below b stack" using lt deb by (subst st) simp
      then have "tiles b n (stack # ps) (plo b n stack) (plo b n de)"
        using ps(2) nP "1.prems"(2,5) by (simp add: plo_incr_last)
      ultimately show ?thesis by blast
    qed
  qed
qed

lemma list_all_replicateD: "list_all (\<lambda>v. v = c) xs \<Longrightarrow> xs = replicate (length xs) c"
  by (induction xs) auto

lemma take_prefix_loop_spec:
  "length ds = length de \<Longrightarrow> ds \<noteq> de \<Longrightarrow>
   \<exists>p x xs y ys. take_prefix_loop ds de = (Ok (p, x # xs, y # ys) :: (_, 'e) res) \<and>
     ds = p @ x # xs \<and> de = p @ y # ys \<and> x \<noteq> y"
proof (induction ds de rule: list_induct2')
  case (4 x xs y ys)
  show ?case
  proof (cases "x = y")
    case True
    with 4 obtain p x' xs' y' ys' where
      r: "take_prefix_loop xs ys = (Ok (p, x' # xs', y' # ys') :: (_, 'e) res)"
      "xs = p @ x' # xs'" "ys = p @ y' # ys'" "x' \<noteq> y'" by fastforce
    then have "take_prefix_loop (x # xs) (y # ys) = (Ok (x # p, x' # xs', y' # ys') :: (_, 'e) res)"
      using True by simp
    with r True show ?thesis by (metis append_Cons)
  qed auto
qed auto

text \<open>The general case: start and end differ in their first digit.\<close>

lemma group_differing:
  assumes ds1: "ds1 = x # xs" and de1: "de1 = y # ys" and "x < y"
    and len: "length ds1 = m" "length de1 = m"
    and bel: "digits_below b ds1" "digits_below b de1" and b: "2 \<le> b" "b \<le> usize_bound"
  shows "\<exists>ps. and_then (group_head b (remove_tail ds1 0) []) (\<lambda>(stack, lst).
      and_then (group_mid stack (remove_tail de1 (b - 1)) lst) (\<lambda>(stack, lst).
      group_tail stack (remove_tail de1 (b - 1)) lst)) = (Ok ps :: (_, 'e) res) \<and>
    tiles b m (ps @ [remove_tail de1 (b - 1)]) (dval b ds1) (dval b de1 + 1)"
proof -
  define ds de where "ds = remove_tail ds1 0" and "de = remove_tail de1 (b - 1)"
  have ne: "ds \<noteq> []" "de \<noteq> []" by (simp_all add: ds_def de_def ds1 de1)
  have hd: "hd ds = x" "hd de = y" by (simp_all add: ds_def de_def ds1 de1 hd_remove_tail)
  then obtain es where de: "de = y # es" using ne by (cases de) auto
  have yb: "y < b" using bel by (simp add: de1)
  have lens: "length ds \<le> m" "length de \<le> m"
    using length_remove_tail [of ds1 0] length_remove_tail [of de1 "b - 1"] len
    by (simp_all add: ds_def de_def)
  have bel': "digits_below b ds" "digits_below b de"
    using bel by (simp_all add: ds_def de_def remove_tail_digits)
  have "head_inv b m y ds" using ne lens bel' hd \<open>x < y\<close> by (simp add: head_inv_def)
  then obtain s ps1 where h: "group_head b ds [] = (Ok ([s], [] @ ps1) :: (_, 'e) res)" "s \<le> y"
    "tiles b m ps1 (plo b m ds) (plo b m [s])"
    using group_head_correct yb b(1) by blast
  have "0 < m" using len ds1 by auto
  then obtain ps2 where mid: "group_mid [s] de ([] @ ps1) = (Ok ([y], ([] @ ps1) @ ps2) :: (_, 'e) res)"
    "tiles b m ps2 (plo b m [s]) (plo b m [y])"
    using group_mid_correct [OF de h(2) yb b(2)] by blast
  have "\<exists>ps3. group_tail [y] de (([] @ ps1) @ ps2) = (Ok ((([] @ ps1) @ ps2) @ ps3) :: (_, 'e) res) \<and>
      tiles b m ps3 (plo b m [y]) (plo b m de)"
    by (rule group_tail_correct [OF bel'(2) lens(2) b(2)]) (simp_all add: de)
  then obtain ps3 where tl: "group_tail [y] de (([] @ ps1) @ ps2) = (Ok ((([] @ ps1) @ ps2) @ ps3) :: (_, 'e) res)"
    "tiles b m ps3 (plo b m [y]) (plo b m de)"
    by blast
  have "plo b m ds = dval b ds1" using len plo_remove_tail [of ds1 m b] by (simp add: ds_def plo_def)
  moreover have "phi b m de = dval b de1 + 1"
    using len b phi_remove_tail [of b de1 m] by (simp add: de_def phi_def)
  ultimately have "tiles b m (((([] @ ps1) @ ps2) @ ps3) @ [de]) (dval b ds1) (dval b de1 + 1)"
    using h(3) mid(2) tl(2) bel' lens by (auto simp: tiles_append)
  moreover have "and_then (group_head b ds []) (\<lambda>(stack, lst).
      and_then (group_mid stack de lst) (\<lambda>(stack, lst). group_tail stack de lst)) =
      (Ok ((([] @ ps1) @ ps2) @ ps3) :: (_, 'e) res)"
    using h(1) mid(1) tl(1) by simp
  ultimately show ?thesis unfolding ds_def de_def by blast
qed

lemma group_by_ignoring_digits_tiles:
  assumes b: "2 \<le> base" "base \<le> 2 ^ 53" and le: "start \<le> end'" and e: "end' < 2 ^ 53" "end' < base ^ n"
  shows "\<exists>ps. group_by_ignoring_digits start end' base n = (Ok ps :: (_, 'e) res) \<and>
    tiles base n ps start (end' + 1)"
proof -
  have bu: "base \<le> usize_bound" using b(2) by (rule order_trans) simp
  have s: "start < 2 ^ 53" "start < base ^ n" using le e by linarith+
  obtain ds where ds: "decompose_value start base n = (Ok ds :: (_, 'e) res)" "length ds = n"
    "digits_below base ds" "dval base ds = start" using decompose_value_spec [OF b s] by metis
  obtain de where de: "decompose_value end' base n = (Ok de :: (_, 'e) res)" "length de = n"
    "digits_below base de" "dval base de = end'" using decompose_value_spec [OF b e] by metis
  note unf = group_by_ignoring_digits_def ds(1) de(1) and_then_simps assert_that_simps le
  show ?thesis
  proof (cases "ds = de")
    case True
    then have "group_by_ignoring_digits start end' base n = (Ok [ds] :: (_, 'e) res)"
      by (simp add: unf take_prefix_def)
    moreover have "tiles base n [ds] start (end' + 1)"
      using True ds de by (simp add: plo_def phi_def)
    ultimately show ?thesis by blast
  next
    case False
    obtain p x xs y ys where tp: "take_prefix_loop ds de = (Ok (p, x # xs, y # ys) :: (_, 'e) res)"
      "ds = p @ x # xs" "de = p @ y # ys" "x \<noteq> y"
      using take_prefix_loop_spec [OF _ False] ds(2) de(2) by metis
    define m where "m = n - length p"
    have len: "length (x # xs) = m" "length (y # ys) = m" "length p \<le> n"
      using ds(2) de(2) tp by (auto simp: m_def)
    have bel: "digits_below base (x # xs)" "digits_below base (y # ys)" "digits_below base p"
      using ds(3) de(3) tp by auto
    have val: "start = dval base p * base ^ m + dval base (x # xs)"
      "end' = dval base p * base ^ m + dval base (y # ys)"
      using ds(4) de(4) tp len by (auto simp: dval_append)
    have "dval base (x # xs) \<le> dval base (y # ys)" using le val by linarith
    have "x < y"
    proof (rule ccontr)
      assume "\<not> x < y"
      then have "(y + 1) * base ^ length ys \<le> x * base ^ length ys" using tp(4) by (intro mult_right_mono) auto
      moreover have "dval base ys < base ^ length ys" using bel by (simp add: dval_less)
      moreover have "length xs = length ys" using len by simp
      ultimately have "dval base (y # ys) < dval base (x # xs)" by simp
      then show False using \<open>dval base (x # xs) \<le> _\<close> by linarith
    qed
    have tk: "take_prefix ds de = (Ok (p, x # xs, y # ys) :: (_, 'e) res)"
      using False tp(1) by (simp add: take_prefix_def)
    show ?thesis
    proof (cases "list_all (\<lambda>v. v = 0) (x # xs) \<and> list_all (\<lambda>v. v = base - 1) (y # ys)")
      case True
      then have "x # xs = replicate (length (x # xs)) 0" "y # ys = replicate (length (y # ys)) (base - 1)"
        by (blast intro: list_all_replicateD)+
      then have "x # xs = replicate m 0" "y # ys = replicate m (base - 1)" unfolding len .
      then have "plo base n p = start" "phi base n p = end' + 1"
        using val dval_replicate_max [of base m] b by (simp_all add: plo_def phi_def m_def)
      moreover have "group_by_ignoring_digits start end' base n = (Ok [p] :: (_, 'e) res)"
        using True le unfolding unf tk by (simp add: res_simps)
      ultimately show ?thesis using bel(3) len(3) by auto
    next
      case notall: False
      define de' where "de' = remove_tail (y # ys) (base - 1)"
      obtain ps where ps: "and_then (group_head base (remove_tail (x # xs) 0) []) (\<lambda>(stack, lst).
          and_then (group_mid stack de' lst) (\<lambda>(stack, lst). group_tail stack de' lst)) = (Ok ps :: (_, 'e) res)"
        "tiles base m (ps @ [de']) (dval base (x # xs)) (dval base (y # ys) + 1)"
        using group_differing [OF refl refl \<open>x < y\<close> len(1,2) bel(1,2) b(1) bu] unfolding de'_def by blast
      obtain st l st' l' where "group_head base (remove_tail (x # xs) 0) [] = (Ok (st, l) :: (_, 'e) res)"
        "group_mid st de' l = (Ok (st', l') :: (_, 'e) res)" "group_tail st' de' l' = (Ok ps :: (_, 'e) res)"
        using ps(1) by (auto simp: res_simps)
      with notall le have "group_by_ignoring_digits start end' base n =
          (Ok (map ((@) p) (ps @ [de'])) :: (_, 'e) res)"
        unfolding de'_def unf tk by (auto simp: Let_def map_idI)
      moreover have "tiles base n (map ((@) p) (ps @ [de'])) start (end' + 1)"
        using tiles_prepend [OF ps(2) [unfolded m_def] bel(3) len(3)] val by (simp add: m_def)
      ultimately show ?thesis by metis
    qed
  qed
qed

section \<open>Properties\<close>

text \<open>Exactly one prefix of a tiling matches a number of the interval, and none any other.\<close>

lemma tiles_count:
  assumes "tiles b n ps a c" "digits_below b ds" "length ds = n"
  shows "length (filter (\<lambda>p. prefix p ds) ps) = (if a \<le> dval b ds \<and> dval b ds < c then 1 else 0)"
  using assms
proof (induction ps arbitrary: a)
  case (Cons p ps)
  have iff: "prefix p ds \<longleftrightarrow> plo b n p \<le> dval b ds \<and> dval b ds < phi b n p"
    using dval_in_prefix [of b ds p] Cons.prems by auto
  have "phi b n p \<le> c" "plo b n p = a" using Cons.prems tiles_le by auto
  moreover have "length (filter (\<lambda>p. prefix p ds) ps) = (if phi b n p \<le> dval b ds \<and> dval b ds < c then 1 else 0)"
    using Cons by auto
  ultimately show ?case using iff plo_le_phi [of b n p] by (cases "prefix p ds") auto
qed simp

text \<open>
  C13. Grouping an interval of outcomes into digit prefixes is exact: for a start and an end
  below \<open>2 ^ 53\<close> and below \<open>base ^ n\<close> the function returns a list of prefixes such that
  every outcome (a list of \<open>n\<close> digits) in the interval starts with exactly one of them, and
  an outcome outside of the interval with none.
\<close>

theorem group_by_ignoring_digits_exact:
  assumes "2 \<le> base" "base \<le> 2 ^ 53" "start \<le> end'" "end' < 2 ^ 53" "end' < base ^ n"
  shows "\<exists>ps. group_by_ignoring_digits start end' base n = (Ok ps :: (nat list list, 'e) res) \<and>
    (\<forall>ds. length ds = n \<longrightarrow> digits_below base ds \<longrightarrow>
      length (filter (\<lambda>p. prefix p ds) ps) =
        (if start \<le> dval base ds \<and> dval base ds \<le> end' then 1 else 0))"
proof -
  obtain ps where ps: "group_by_ignoring_digits start end' base n = (Ok ps :: (nat list list, 'e) res)"
    "tiles base n ps start (end' + 1)"
    using group_by_ignoring_digits_tiles [OF assms] by blast
  then show ?thesis using tiles_count [OF ps(2)] by (auto simp: less_Suc_eq_le)
qed

lemma group_by_ignoring_digits_exact_witness:
  "\<exists>ps. group_by_ignoring_digits 123 456 10 3 = (Ok ps :: (nat list list, unit) res) \<and>
    (\<forall>ds. length ds = 3 \<longrightarrow> digits_below 10 ds \<longrightarrow>
      length (filter (\<lambda>p. prefix p ds) ps) =
        (if 123 \<le> dval 10 ds \<and> dval 10 ds \<le> 456 then 1 else 0))"
  by (rule group_by_ignoring_digits_exact) simp_all

text \<open>
  Decomposing a value and composing the digits gives the value back, for every base up to
  \<open>2 ^ 53\<close> and every value below \<open>2 ^ 53\<close> that has at most \<open>n\<close> digits, when \<open>base ^ n\<close>
  is at most \<open>2 ^ 64\<close>; the digits are \<open>n\<close> numbers below the base.
\<close>

theorem compose_decompose_value:
  assumes "2 \<le> base" "base \<le> 2 ^ 53" "v < 2 ^ 53" "v < base ^ n" "base ^ n \<le> 2 ^ 64"
  shows "\<exists>ds. decompose_value v base n = (Ok ds :: (nat list, 'e) res) \<and> length ds = n \<and>
    list_all (\<lambda>d. d < base) ds \<and> compose_value ds base = (Ok v :: (nat, 'e) res)"
proof -
  obtain ds where ds: "decompose_value v base n = (Ok ds :: (nat list, 'e) res)" "length ds = n"
    "digits_below base ds" "dval base ds = v"
    using decompose_value_spec [OF assms(1-4)] by blast
  have "compose_value ds base = (Ok v :: (nat, 'e) res)"
    using compose_loop_correct [of base ds 0] ds assms by (simp add: compose_value_def)
  with ds show ?thesis by blast
qed

lemma compose_decompose_value_witness:
  "\<exists>ds. decompose_value 1234 10 4 = (Ok ds :: (nat list, unit) res) \<and> length ds = 4 \<and>
    list_all (\<lambda>d. d < 10) ds \<and> compose_value ds 10 = (Ok 1234 :: (nat, unit) res)"
  by (rule compose_decompose_value) simp_all

text \<open>
  Composing is exact also above \<open>2 ^ 53\<close>, as it does not use floating point numbers.
\<close>

lemma compose_value_spec:
  assumes "digits_below b ds" "0 < b" "b ^ length ds \<le> 2 ^ 64"
  shows "compose_value ds b = Ok (dval b ds)"
  using compose_loop_correct [of b ds 0] dval_less [OF assms(1)] assms by (simp add: compose_value_def)

text \<open>Above \<open>2 ^ 53\<close> the quotient is rounded.\<close>

lemma f64_round_power2 [simp]: "f64_round (2 ^ k) = 2 ^ k"
  using f64_round_exact [of "2 ^ k" 1 "int k"] by simp

lemma f64_quotient_power2:
  assumes "k < 64"
  shows "f64_floor_usize (f64_div (f64_of_nat (2 ^ Suc k)) (f64_of_nat 2)) = 2 ^ k"
proof -
  have "f64_of_nat (2 ^ Suc k) = 2 ^ Suc k" "f64_of_nat 2 = 2"
    using f64_round_power2 [of "Suc k"] f64_round_power2 [of 1]
    by (simp_all add: f64_of_nat_def del: f64_round_power2)
  then have "f64_div (f64_of_nat (2 ^ Suc k)) (f64_of_nat 2) = 2 ^ k"
    by (simp add: f64_div_def)
  moreover have "nat \<lfloor>2 ^ k :: rat\<rfloor> = 2 ^ k"
    by (metis floor_of_nat nat_int of_nat_numeral of_nat_power)
  moreover have "(2::nat) ^ k \<le> 2 ^ 63" using assms by (intro power_increasing) auto
  moreover have "nat (2 ^ k) = 2 ^ k" by (simp add: nat_power_eq)
  ultimately show ?thesis by (simp add: f64_floor_usize_def min_def nat_power_eq)
qed

lemma decompose_loop_power2:
  "k < 64 \<Longrightarrow> \<exists>ds. decompose_loop (2 ^ k) 2 = (Ok ds :: (nat list, 'e) res) \<and> length ds = Suc k"
proof (induction k)
  case 0
  have "f64_floor_usize (f64_div (f64_of_nat 1) (f64_of_nat 2)) = 1 div 2"
    by (rule f64_quotient_small) simp_all
  then show ?case
    by (subst decompose_loop.simps) (simp add: Let_def decompose_loop.simps [of 0])
next
  case (Suc k)
  then obtain ds where ds: "decompose_loop (2 ^ k) 2 = (Ok ds :: (nat list, 'e) res)" "length ds = Suc k"
    by auto
  have "decompose_loop (2 ^ Suc k) 2 = (Ok (0 # ds) :: (nat list, 'e) res)"
    using Suc.prems f64_quotient_power2 [of k] ds(1)
    by (subst decompose_loop.simps) (simp add: Let_def)
  then show ?case using ds(2) by simp
qed

lemma decompose_loop_step:
  assumes "v \<noteq> 0" "b \<noteq> 0" "f64_floor_usize (f64_div (f64_of_nat v) (f64_of_nat b)) = q" "q < v"
  shows "decompose_loop v b = and_then (decompose_loop q b) (\<lambda>ds. Ok (v mod b # ds))"
  using assms by (subst decompose_loop.simps) (simp only: Let_def if_True if_False)

lemma decompose_loop_rounding:
  "\<exists>ds. decompose_loop (2 ^ 54 - 1) 2 = (Ok ds :: (nat list, 'e) res) \<and> length ds = 55"
proof -
  have "ilog2 (2 ^ 54 - 1) = 53" by (rule ilog2_unique) simp_all
  moreover have "round_half_even ((2 ^ 54 - 1) / 2 powi 1) = 2 ^ 53"
  proof -
    have "\<lfloor>(2 ^ 54 - 1) / 2 :: rat\<rfloor> = 2 ^ 53 - 1" by (simp add: floor_eq_iff)
    then show ?thesis by (simp add: round_half_even_def Let_def)
  qed
  ultimately have "f64_of_nat (2 ^ 54 - 1) = of_nat (2 ^ Suc 53)"
    by (simp add: f64_of_nat_def f64_round_def Let_def)
  also have "\<dots> = f64_of_nat (2 ^ Suc 53)"
    using f64_round_power2 [of "Suc 53"] by (simp add: f64_of_nat_def del: f64_round_power2)
  finally have q: "f64_floor_usize (f64_div (f64_of_nat (2 ^ 54 - 1)) (f64_of_nat 2)) = 2 ^ 53"
    using f64_quotient_power2 [of 53] by (simp only:)
  obtain ds where ds: "decompose_loop (2 ^ 53) 2 = (Ok ds :: (nat list, 'e) res)" "length ds = 54"
    using decompose_loop_power2 [of 53] by auto
  have "decompose_loop (2 ^ 54 - 1) 2 = (Ok ((2 ^ 54 - 1) mod 2 # ds) :: (nat list, 'e) res)"
    using ds(1) by (subst decompose_loop_step [OF _ _ q]) simp_all
  then show ?thesis by (intro exI conjI, assumption) (simp add: ds(2))
qed

text \<open>
  Decomposition is not right for every \<open>usize\<close>: the quotient is a double precision
  number, and from \<open>2 ^ 53\<close> it may be rounded up.  The number \<open>2 ^ 54 - 1\<close> has 54 binary
  digits, but the call for 54 digits produces 55 of them and panics on its length check.
\<close>

theorem decompose_value_rounding:
  "(2 ^ 54 - 1 :: nat) < 2 ^ 54 \<and> decompose_value (2 ^ 54 - 1) 2 54 = (Panic :: (nat list, 'e) res)"
proof -
  obtain ds where "decompose_loop (2 ^ 54 - 1) 2 = (Ok ds :: (nat list, 'e) res)" "length ds = 55"
    using decompose_loop_rounding by blast
  then show ?thesis by (simp add: decompose_value_def assert_that_def)
qed

text \<open>
  Padding a contiguous list of ranges makes it cover the whole outcome space
  \<open>0 ..< base ^ n\<close>: the first range is extended down to 0 and the last one is extended, or cut,
  at \<open>base ^ n\<close>; the number of ranges and their payouts stay.
\<close>

theorem pad_range_payouts_covers:
  assumes "contiguous rs a c" "rs \<noteq> []" "c < 2 ^ 64" "rp_start (last rs) < base ^ n" "base ^ n < 2 ^ 64"
  shows "\<exists>rs'. pad_range_payouts rs base n = (Ok rs' :: (range_payout list, 'e) res) \<and>
    contiguous rs' 0 (base ^ n) \<and> map rp_payout rs' = map rp_payout rs"
proof -
  let ?m = "base ^ n"
  have pw: "base ^ as_u32 n = ?m"
  proof (cases "base = 0")
    case False
    then show ?thesis using assms(5) by (intro power_as_u32) auto
  next
    case True
    then have "n = 0" using assms(4) by (cases n) auto
    then show ?thesis by simp
  qed
  obtain r rs1 where rs: "rs = r # rs1" using assms(2) by (cases rs) auto
  obtain rs0 l where l: "rs = rs0 @ [l]" using assms(2) by (cases rs rule: rev_cases) auto
  define r' where "r' = r\<lparr>rp_start := 0, rp_count := rp_count r + rp_start r\<rparr>"
  have c: "rp_start r = a" "contiguous rs1 (a + rp_count r) c" "0 < rp_count r" "a + rp_count r \<le> c"
    using assms(1) contiguous_le [of rs1] by (auto simp: rs)
  define ys where "ys = r' # rs1"
  have ys: "contiguous ys 0 c" "map rp_payout ys = map rp_payout rs" "ys \<noteq> []"
    using c by (auto simp: ys_def r'_def rs add.commute)
  have pad1: "(if rp_start r \<noteq> 0
       then and_then (uadd (rp_count r) (rp_start r)) (\<lambda>c. update rs 0 (r\<lparr>rp_start := 0, rp_count := c\<rparr>))
       else Ok rs) = (Ok ys :: (range_payout list, 'e) res)"
    using c assms(3) by (auto simp: uadd_def update_def rs ys_def r'_def)
  obtain ys0 k where k: "ys = ys0 @ [k]" using ys(3) by (cases ys rule: rev_cases) auto
  have kc: "contiguous ys0 0 (rp_start k)" "rp_start k + rp_count k = c" "0 < rp_count k"
    using ys(1) by (auto simp: k contiguous_append)
  have "rp_start k \<le> rp_start l"
    using k l rs by (cases rs1 rule: rev_cases) (auto simp: ys_def r'_def)
  then have kl: "rp_start k < ?m" using assms(4) by (simp add: l)
  have "\<exists>zs. pad_range_payouts rs base n = (Ok zs :: (range_payout list, 'e) res) \<and>
      (zs = ys \<and> c = ?m \<or> zs = ys0 @ [k\<lparr>rp_count := ?m - rp_start k\<rparr>])"
  proof -
    have idx: "index rs 0 = (Ok r :: (range_payout, 'e) res)" by (simp add: rs)
    have f: "index ys (length ys - 1) = (Ok k :: (range_payout, 'e) res)"
      "upow base (as_u32 n) = (Ok ?m :: (nat, 'e) res)"
      "uadd (rp_start k) (rp_count k) = (Ok c :: (nat, 'e) res)"
      "usub ?m (rp_start k) = (Ok (?m - rp_start k) :: (nat, 'e) res)"
      using assms(3,5) kl kc pw by (simp_all add: k)
    have u: "update ys (length ys - 1) (k\<lparr>rp_count := ?m - rp_start k\<rparr>) =
        (Ok (ys0 @ [k\<lparr>rp_count := ?m - rp_start k\<rparr>]) :: (range_payout list, 'e) res)"
      by (simp add: k)
    show ?thesis
      unfolding pad_range_payouts_def idx and_then_simps pad1 Let_def f u by (auto split: if_splits)
  qed
  then obtain zs where "pad_range_payouts rs base n = (Ok zs :: (range_payout list, 'e) res)"
    "zs = ys \<and> c = ?m \<or> zs = ys0 @ [k\<lparr>rp_count := ?m - rp_start k\<rparr>]" by blast
  moreover from this(2) have "contiguous zs 0 ?m \<and> map rp_payout zs = map rp_payout rs"
    using ys kc kl by (auto simp: contiguous_append k)
  ultimately show ?thesis by blast
qed

lemma pad_range_payouts_covers_witness:
  "\<exists>rs'. pad_range_payouts
      [\<lparr>rp_start = 3, rp_count = 2, rp_payout = \<lparr>offer = 10, accept = 0\<rparr>\<rparr>,
       \<lparr>rp_start = 5, rp_count = 4, rp_payout = \<lparr>offer = 0, accept = 10\<rparr>\<rparr>] 2 4 =
      (Ok rs' :: (range_payout list, unit) res) \<and>
    contiguous rs' 0 (2 ^ 4) \<and>
    map rp_payout rs' = map rp_payout
      [\<lparr>rp_start = 3, rp_count = 2, rp_payout = \<lparr>offer = 10, accept = 0\<rparr>\<rparr>,
       \<lparr>rp_start = 5, rp_count = 4, rp_payout = \<lparr>offer = 0, accept = 10\<rparr>\<rparr>]"
  by (rule pad_range_payouts_covers [where a = 3 and c = 9]) simp_all

end
