(* ===== verification/Combination_Iterator.thy ===== *)
theory Combination_Iterator
  imports Prelude
begin

text \<open>
  \<open>dlc-trie/src/combination_iterator.rs\<close>: iteration over the ways to choose
  \<open>nb_selected\<close> of \<open>nb_elements\<close> oracles.  The iterator is a record that \<open>ci_next\<close>
  returns updated.  The main result: from a new iterator the successive calls yield exactly
  the increasing lists of the given length, each once, in lexicographic order
  (\<open>combs\<close>), and then \<open>None\<close>.
\<close>

section \<open>The iterator\<close>

record combination_iterator =
  selector :: "nat list"
  nb_selected :: nat
  nb_elements :: nat
  is_init :: bool

definition ci_new :: "nat \<Rightarrow> nat \<Rightarrow> (combination_iterator, 'e) res" where
  "ci_new n k =
     and_then (assert_that (k \<le> n)) (\<lambda>_.
       Ok \<lparr>selector = [0..<k], nb_selected = k, nb_elements = n, is_init = False\<rparr>)"

text \<open>The first loop of \<open>next\<close>: the last position that is not at its maximum, or 0.\<close>

fun ci_find :: "nat list \<Rightarrow> nat \<Rightarrow> nat \<Rightarrow> nat \<Rightarrow> (nat, 'e) res" where
  "ci_find sel n last_index 0 = Ok 0"
| "ci_find sel n last_index (Suc c) =
     and_then (index sel (Suc c)) (\<lambda>v.
     and_then (usub n 1) (\<lambda>n1.
     and_then (usub last_index (Suc c)) (\<lambda>d.
     and_then (usub n1 d) (\<lambda>m.
       if v = m then ci_find sel n last_index c else Ok (Suc c)))))"

text \<open>The second loop: the first argument counts the positions from \<open>cur\<close> to the last one.\<close>

fun ci_fill :: "nat \<Rightarrow> nat \<Rightarrow> nat list \<Rightarrow> (nat list, 'e) res" where
  "ci_fill 0 cur sel = Ok sel"
| "ci_fill (Suc k) cur sel =
     and_then (index sel (cur - 1)) (\<lambda>v.
     and_then (uadd v 1) (\<lambda>v'.
     and_then (update sel cur v') (ci_fill k (cur + 1))))"

definition ci_next :: "combination_iterator \<Rightarrow> (nat list option \<times> combination_iterator, 'e) res" where
  "ci_next it =
     (if \<not> is_init it then Ok (Some (selector it), it\<lparr>is_init := True\<rparr>)
      else
        and_then (usub (nb_selected it) 1) (\<lambda>last_index.
        and_then (ci_find (selector it) (nb_elements it) last_index last_index) (\<lambda>cur.
        and_then (index (selector it) cur) (\<lambda>v.
        and_then (uadd v 1) (\<lambda>v'.
        and_then (update (selector it) cur v') (\<lambda>sel1.
        and_then (ci_fill (last_index - cur) (cur + 1) sel1) (\<lambda>sel2.
        and_then (index sel2 0) (\<lambda>first.
        and_then (usub (nb_elements it) (nb_selected it)) (\<lambda>d.
          let it' = it\<lparr>selector := sel2\<rparr>
          in Ok (if first = d + 1 then None else Some sel2, it'))))))))))"

text \<open>
  Draining the iterator (\<open>for c in iterator\<close>).  A selector is a list of \<open>nb_selected\<close>
  numbers of at most \<open>nb_elements\<close>, and each step makes it larger in the lexicographic order,
  so \<open>(nb_elements + 1) ^ nb_selected + 1\<close> steps are enough.
\<close>

fun ci_drain :: "nat \<Rightarrow> combination_iterator \<Rightarrow> (nat list list, 'e) res" where
  "ci_drain 0 it = Panic"
| "ci_drain (Suc f) it =
     and_then (ci_next it) (\<lambda>(r, it').
       case r of None \<Rightarrow> Ok []
       | Some c \<Rightarrow> and_then (ci_drain f it') (\<lambda>cs. Ok (c # cs)))"

definition ci_fuel :: "combination_iterator \<Rightarrow> nat" where
  "ci_fuel it = (nb_elements it + 1) ^ nb_selected it + 1"

definition ci_collect :: "combination_iterator \<Rightarrow> (nat list list, 'e) res" where
  "ci_collect it = ci_drain (ci_fuel it) it"

fun ci_search :: "nat \<Rightarrow> nat \<Rightarrow> combination_iterator \<Rightarrow> nat list \<Rightarrow> (nat option, 'e) res" where
  "ci_search 0 i it combination = Panic"
| "ci_search (Suc f) i it combination =
     and_then (ci_next it) (\<lambda>(r, it').
       case r of None \<Rightarrow> Ok None
       | Some cur \<Rightarrow>
           if combination = cur then Ok (Some i) else ci_search f (i + 1) it' combination)"

definition get_index_for_combination ::
  "combination_iterator \<Rightarrow> nat list \<Rightarrow> (nat option, 'e) res" where
  "get_index_for_combination it combination = ci_search (ci_fuel it) 0 it combination"

section \<open>The combinations in order\<close>

text \<open>
  \<open>combs lo d k\<close>: the increasing lists of \<open>k\<close> numbers of \<open>lo ..< lo + d\<close>, in
  lexicographic order.
\<close>

fun combs :: "nat \<Rightarrow> nat \<Rightarrow> nat \<Rightarrow> nat list list" where
  "combs lo d 0 = [[]]"
| "combs lo 0 (Suc k) = []"
| "combs lo (Suc d) (Suc k) = map ((#) lo) (combs (Suc lo) d k) @ combs (Suc lo) d (Suc k)"

lemma set_combs:
  "set (combs lo d k) = {s. length s = k \<and> sorted_wrt (<) s \<and> set s \<subseteq> {lo..<lo + d}}"
proof (induction lo d k rule: combs.induct)
  case (2 lo k)
  then show ?case by (auto simp: length_Suc_conv)
next
  case (3 lo d k)
  have "s \<in> set (combs lo (Suc d) (Suc k)) \<longleftrightarrow>
    length s = Suc k \<and> sorted_wrt (<) s \<and> set s \<subseteq> {lo..<lo + Suc d}" for s
  proof (cases s)
    case (Cons x xs)
    show ?thesis
    proof (cases "x = lo")
      case True
      then have "s \<notin> set (combs (Suc lo) d (Suc k))" using 3(2) Cons by auto
      moreover have "set xs \<subseteq> {Suc lo..<Suc (lo + d)}"
        if "set xs \<subseteq> {lo..<Suc (lo + d)}" "\<forall>x\<in>set xs. lo < x"
        using that by (auto simp: Suc_le_eq)
      ultimately show ?thesis using True Cons 3(1) by (auto simp: Suc_le_eq)
    next
      case False
      then show ?thesis using Cons 3(2) by (auto simp: Suc_le_eq) fastforce+
    qed
  qed (use 3 in auto)
  then show ?case by blast
qed auto

lemma length_combs: "length (combs lo d k) = d choose k"
  by (induction lo d k rule: combs.induct) auto

lemma sorted_combs: "sorted_wrt (\<lambda>a b. (a, b) \<in> lexord {(x, y). x < y}) (combs lo d k)"
proof (induction lo d k rule: combs.induct)
  case (3 lo d k)
  have "(lo # a, b) \<in> lexord {(x, y). x < y}" if b: "b \<in> set (combs (Suc lo) d (Suc k))" for a b
  proof -
    have "length b = Suc k \<and> set b \<subseteq> {Suc lo..<Suc lo + d}" using b unfolding set_combs by blast
    then obtain y ys where "b = y # ys" "lo < y" by (auto simp: length_Suc_conv)
    then show ?thesis by simp
  qed
  with 3 show ?case by (auto simp: sorted_wrt_append sorted_wrt_map set_combs)
qed auto

lemma distinct_combs: "distinct (combs lo d k)"
proof (induction lo d k rule: combs.induct)
  case (3 lo d k)
  then show ?case by (auto simp: distinct_map set_combs)
qed auto

text \<open>The successor of a list of numbers below \<open>n\<close>.\<close>

fun csucc :: "nat \<Rightarrow> nat list \<Rightarrow> nat list option" where
  "csucc n [] = None"
| "csucc n (x # xs) =
     (case csucc n xs of Some ys \<Rightarrow> Some (x # ys)
      | None \<Rightarrow> if x + length xs + 1 < n then Some [x + 1..<x + 2 + length xs] else None)"

text \<open>\<open>chain n ss r\<close>: each list is the successor of the one before, and \<open>r\<close> follows the last.\<close>

fun chain :: "nat \<Rightarrow> nat list list \<Rightarrow> nat list option \<Rightarrow> bool" where
  "chain n [] r \<longleftrightarrow> False"
| "chain n [s] r \<longleftrightarrow> csucc n s = r"
| "chain n (s # t # ss) r \<longleftrightarrow> csucc n s = Some t \<and> chain n (t # ss) r"

lemma hd_combs: "k \<le> d \<Longrightarrow> \<exists>ss. combs lo d k = [lo..<lo + k] # ss"
proof (induction lo d k rule: combs.induct)
  case (3 lo d k)
  then obtain ss where "combs (Suc lo) d k = [Suc lo..<Suc lo + k] # ss" by auto
  then show ?case by (simp add: upt_conv_Cons del: upt_Suc)
qed auto

lemma combs_empty: "d < k \<Longrightarrow> combs lo d k = []"
  by (induction lo d k rule: combs.induct) auto

lemma chain_append:
  "ss \<noteq> [] \<Longrightarrow> chain n (ss @ t # ts) r \<longleftrightarrow> chain n ss (Some t) \<and> chain n (t # ts) r"
  by (induction ss rule: induct_list012) auto

lemma chain_Cons_map:
  assumes "chain n ss None" "\<forall>s\<in>set ss. length s = k"
  shows "chain n (map ((#) x) ss) (if x + k + 1 < n then Some [x + 1..<x + 2 + k] else None)"
  using assms by (induction ss rule: induct_list012) auto

lemma chain_combs: "k \<le> d \<Longrightarrow> chain (lo + d) (combs lo d k) None"
proof (induction lo d k rule: combs.induct)
  case (3 lo d k)
  have "chain (lo + Suc d) (map ((#) lo) (combs (Suc lo) d k))
      (if lo + k + 1 < lo + Suc d then Some [lo + 1..<lo + 2 + k] else None)"
    using 3 by (intro chain_Cons_map) (auto simp: set_combs)
  moreover have "combs (Suc lo) d k \<noteq> []" using hd_combs [of k d "Suc lo"] 3 by auto
  moreover have "\<exists>ss. combs (Suc lo) d (Suc k) = [lo + 1..<lo + 2 + k] # ss" if "k < d"
    using hd_combs [of "Suc k" d "Suc lo"] that by auto
  ultimately show ?case
    using 3 combs_empty [of d "Suc k"] by (cases "k < d") (auto simp: chain_append)
qed auto

section \<open>The code's steps are the successor\<close>

lemma csucc_upt: "j \<le> n \<Longrightarrow> csucc n [n - j..<n] = None"
proof (induction j)
  case (Suc j)
  then have "[n - Suc j..<n] = (n - Suc j) # [n - j..<n]"
    by (simp add: upt_conv_Cons Suc_diff_Suc)
  with Suc show ?case by simp
qed simp

lemma csucc_append: "csucc n q = Some q' \<Longrightarrow> csucc n (p @ q) = Some (p @ q')"
  by (induction p) auto

lemma ci_find_spec:
  assumes "length s = Suc last_index" "c \<le> last_index" "last_index < n"
    and "drop (Suc c) s = [n - (last_index - c)..<n]"
  shows "\<exists>c'. ci_find s n last_index c = (Ok c' :: (nat, 'e) res) \<and> c' \<le> c \<and>
    drop (Suc c') s = [n - (last_index - c')..<n] \<and>
    (c' = 0 \<or> s ! c' \<noteq> n - 1 - (last_index - c'))"
  using assms(2,4)
proof (induction c)
  case (Suc c)
  show ?case
  proof (cases "s ! Suc c = n - 1 - (last_index - Suc c)")
    case True
    have "drop (Suc c) s = s ! Suc c # drop (Suc (Suc c)) s"
      using Suc.prems assms(1) by (intro Cons_nth_drop_Suc [symmetric]) simp
    also have "\<dots> = [n - (last_index - c)..<n]"
      using True Suc.prems assms(3) by (subst upt_conv_Cons) (auto simp: Suc_diff_Suc Suc_diff_le)
    finally have "drop (Suc c) s = [n - (last_index - c)..<n]" .
    then obtain c' where "ci_find s n last_index c = (Ok c' :: (nat, 'e) res)" "c' \<le> c"
      "drop (Suc c') s = [n - (last_index - c')..<n]" "c' = 0 \<or> s ! c' \<noteq> n - 1 - (last_index - c')"
      using Suc.IH Suc.prems by auto
    with True Suc.prems assms show ?thesis by (auto simp: index_def usub_def)
  next
    case False
    with Suc.prems assms show ?thesis by (auto simp: index_def usub_def)
  qed
qed simp

lemma ci_fill_spec:
  "length rest = k \<Longrightarrow> v + k < usize_bound \<Longrightarrow> cur = Suc (length q) \<Longrightarrow>
   ci_fill k cur (q @ v # rest) = (Ok (q @ [v..<v + 1 + k]) :: (nat list, 'e) res)"
proof (induction k arbitrary: cur q v rest)
  case (Suc k)
  then obtain y rest' where r: "rest = y # rest'" by (cases rest) auto
  have "ci_fill k (cur + 1) ((q @ [v]) @ (v + 1) # rest') =
      (Ok ((q @ [v]) @ [v + 1..<v + 1 + 1 + k]) :: (nat list, 'e) res)"
    by (rule Suc.IH) (use Suc.prems r in auto)
  moreover have "[v..<v + 1 + Suc k] = v # [v + 1..<v + 1 + 1 + k]" by (simp add: upt_conv_Cons)
  ultimately show ?case using Suc.prems
    by (simp add: index_def update_def uadd_def nth_append list_update_append r)
qed simp

definition ci_valid :: "nat \<Rightarrow> nat \<Rightarrow> nat list \<Rightarrow> bool" where
  "ci_valid n k s \<longleftrightarrow> length s = k \<and> sorted_wrt (<) s \<and> (\<forall>x\<in>set s. x < n)"

lemma sorted_less_hd:
  "sorted_wrt (<) (x # s) \<Longrightarrow> \<forall>y\<in>set (x # s). y < n \<Longrightarrow> x + length s < (n :: nat)"
proof (induction s arbitrary: x)
  case (Cons y s)
  then have "y + length s < n" "x < y" by auto
  then show ?case by simp
qed simp

lemma ci_next_csucc:
  assumes "ci_valid n k s" "0 < k" "n < usize_bound"
    and it: "it = \<lparr>selector = s, nb_selected = k, nb_elements = n, is_init = True\<rparr>"
  shows "\<exists>t. ci_next it = (Ok (csucc n s, it\<lparr>selector := t\<rparr>) :: (_, 'e) res) \<and>
    (\<forall>t'. csucc n s = Some t' \<longrightarrow> t = t')"
proof -
  define l where "l = k - 1"
  have l: "length s = Suc l" using assms(1,2) by (simp add: ci_valid_def l_def)
  obtain x0 s0 where s0: "s = x0 # s0" using l by (cases s) auto
  have x0: "x0 + l < n" using sorted_less_hd [of x0 s0 n] assms(1) l by (simp add: ci_valid_def s0)
  obtain c where c: "ci_find s n l l = (Ok c :: (nat, 'e) res)" "c \<le> l"
    "drop (Suc c) s = [n - (l - c)..<n]" "c = 0 \<or> s ! c \<noteq> n - 1 - (l - c)"
    using ci_find_spec [of s l l n] l x0 by fastforce
  define p x j where "p = take c s" and "x = s ! c" and "j = l - c"
  have s: "s = p @ x # [n - j..<n]" "length p = c"
    using c l unfolding p_def x_def j_def by (metis id_take_nth_drop le_imp_less_Suc, simp)
  have "x + j < n"
  proof -
    have "sorted_wrt (<) (x # [n - j..<n])" "\<forall>y\<in>set (x # [n - j..<n]). y < n"
      using assms(1) s by (auto simp: ci_valid_def sorted_wrt_append)
    moreover have "length [n - j..<n] = j" using x0 by (simp add: j_def)
    ultimately show ?thesis using sorted_less_hd by metis
  qed
  have j: "length [n - j..<n] = j" using x0 by (simp add: j_def)
  define t where "t = p @ [x + 1..<x + 2 + j]"
  have fill: "ci_fill j (c + 1) (s[c := x + 1]) = (Ok t :: (nat list, 'e) res)"
  proof -
    have "s[c := x + 1] = p @ (x + 1) # [n - j..<n]"
      unfolding s(1) using s(2) by (simp add: list_update_append)
    moreover have "ci_fill j (c + 1) (p @ (x + 1) # [n - j..<n]) =
        (Ok (p @ [x + 1..<x + 1 + 1 + j]) :: (nat list, 'e) res)"
      using s(2) \<open>x + j < n\<close> assms(3) by (intro ci_fill_spec j) auto
    ultimately show ?thesis by (simp add: t_def)
  qed
  have xc: "index s c = (Ok x :: (nat, 'e) res)" "x + 1 < usize_bound" "c < length s"
    using c l \<open>x + j < n\<close> assms(3) by (auto simp: x_def)
  have k: "k = Suc l" "k \<le> n" using assms(2) x0 by (auto simp: l_def)
  have t: "t \<noteq> []" by (simp add: t_def)
  have next_eq: "ci_next it = (Ok (if t ! 0 = n - k + 1 then None else Some t, it\<lparr>selector := t\<rparr>) :: (_, 'e) res)"
    using c(1) xc fill k t unfolding ci_next_def it j_def [symmetric]
    by (simp add: usub_def uadd_def update_def index_def j_def [symmetric] Let_def)
  have su: "csucc n (x # [n - j..<n]) = (if x + j + 1 < n then Some [x + 1..<x + 2 + j] else None)"
    using csucc_upt [of j n] x0 j by (simp add: j_def)
  show ?thesis
  proof (cases "x + j + 1 < n")
    case True
    have "csucc n s = Some t" using csucc_append [of n _ _ p] su True by (simp add: s(1) t_def)
    moreover have "t ! 0 \<noteq> n - k + 1"
    proof (cases p)
      case Nil
      then have "t ! 0 = x + 1" "j = l" using s(2) by (auto simp: t_def j_def nth_append)
      then show ?thesis using True k by simp
    next
      case (Cons y p')
      then have "t ! 0 = x0" using s s0 by (simp add: t_def)
      then show ?thesis using x0 k by simp
    qed
    ultimately show ?thesis using next_eq by auto
  next
    case False
    then have "c = 0" using c(4) \<open>x + j < n\<close> by (auto simp: x_def [symmetric] j_def)
    then have "p = []" using s(2) by simp
    then have "csucc n s = None" using su False s(1) by simp
    moreover have "t ! 0 = n - k + 1"
      using False \<open>x + j < n\<close> \<open>p = []\<close> \<open>c = 0\<close> k
      by (simp add: t_def j_def upt_conv_Cons del: upt_Suc)
    ultimately show ?thesis using next_eq by auto
  qed
qed

lemma ci_drain_chain:
  assumes "chain n (s # ss) None" "\<forall>s\<in>set (s # ss). ci_valid n k s" "0 < k" "n < usize_bound"
    "length ss < f"
  shows "ci_drain f \<lparr>selector = s, nb_selected = k, nb_elements = n, is_init = True\<rparr> =
    (Ok ss :: (_, 'e) res)"
  using assms
proof (induction ss arbitrary: s f)
  case Nil
  then obtain f' where f: "f = Suc f'" by (cases f) auto
  have "csucc n s = None" "ci_valid n k s" using Nil by auto
  then have "\<exists>it'. ci_next \<lparr>selector = s, nb_selected = k, nb_elements = n, is_init = True\<rparr> =
      (Ok (None, it') :: (_, 'e) res)"
    using ci_next_csucc [OF _ Nil(3,4) refl, of s] by force
  then show ?case by (auto simp: f)
next
  case (Cons t ss)
  then obtain f' where f: "f = Suc f'" by (cases f) auto
  have "csucc n s = Some t" "ci_valid n k s" using Cons.prems by auto
  then have "ci_next \<lparr>selector = s, nb_selected = k, nb_elements = n, is_init = True\<rparr> =
      (Ok (Some t, \<lparr>selector = t, nb_selected = k, nb_elements = n, is_init = True\<rparr>) :: (_, 'e) res)"
    using ci_next_csucc [OF _ Cons.prems(3,4) refl, of s] by force
  moreover have "ci_drain f' \<lparr>selector = t, nb_selected = k, nb_elements = n, is_init = True\<rparr> =
      (Ok ss :: (_, 'e) res)"
    using Cons.prems by (intro Cons.IH) (auto simp: f)
  ultimately show ?case by (simp add: f)
qed

lemma ci_search_drain:
  "ci_drain f it = (Ok cs :: (_, 'e) res) \<Longrightarrow>
   ci_search f i it c = (Ok (if c \<in> set cs then Some (i + length (takeWhile (\<lambda>x. x \<noteq> c) cs)) else None) :: (_, 'e) res)"
proof (induction f arbitrary: i it cs)
  case (Suc f)
  then obtain r it' where n: "ci_next it = (Ok (r, it') :: (_, 'e) res)" by (auto simp: res_simps)
  show ?case
  proof (cases r)
    case None
    with Suc.prems n show ?thesis by simp
  next
    case (Some d)
    with Suc.prems n obtain ds where ds: "ci_drain f it' = (Ok ds :: (_, 'e) res)" "cs = d # ds"
      by (auto simp: res_simps)
    show ?thesis using Some n ds(2) Suc.IH [OF ds(1), of "i + 1"] by simp
  qed
qed simp

lemma ci_collect_combs:
  assumes "0 < k" "k \<le> n" "n < usize_bound"
    and it: "it = \<lparr>selector = [0..<k], nb_selected = k, nb_elements = n, is_init = False\<rparr>"
  shows "ci_collect it = (Ok (combs 0 n k) :: (_, 'e) res)"
proof -
  obtain ss where ss: "combs 0 n k = [0..<k] # ss" using hd_combs [OF assms(2), of 0] by auto
  have "chain n ([0..<k] # ss) None" using chain_combs [OF assms(2), of 0] ss by simp
  moreover have "\<forall>s\<in>set ([0..<k] # ss). ci_valid n k s"
    unfolding ss [symmetric] by (auto simp: set_combs ci_valid_def)
  moreover have "length ss < (n + 1) ^ k"
  proof -
    have "length ss < n choose k" using length_combs [of 0 n k] by (simp add: ss)
    also have "\<dots> \<le> n ^ k" using assms(2) by (rule binomial_le_pow)
    also have "\<dots> \<le> (n + 1) ^ k" by (intro power_mono) auto
    finally show ?thesis .
  qed
  ultimately have "ci_drain ((n + 1) ^ k) (it\<lparr>is_init := True\<rparr>) = (Ok ss :: (_, 'e) res)"
    unfolding it using ci_drain_chain assms(1,3) by simp
  then show ?thesis by (simp add: ci_collect_def ci_fuel_def it ci_next_def ss)
qed

lemma get_index_combs:
  assumes "0 < k" "k \<le> n" "n < usize_bound"
    and it: "it = \<lparr>selector = [0..<k], nb_selected = k, nb_elements = n, is_init = False\<rparr>"
  shows "get_index_for_combination it c =
    (Ok (if c \<in> set (combs 0 n k) then Some (length (takeWhile (\<lambda>x. x \<noteq> c) (combs 0 n k))) else None) :: (_, 'e) res)"
proof -
  have "ci_drain (ci_fuel it) it = (Ok (combs 0 n k) :: (_, 'e) res)"
    by (rule ci_collect_combs [OF assms, unfolded ci_collect_def])
  from ci_search_drain [OF this, of 0 c] show ?thesis by (simp add: get_index_for_combination_def)
qed

lemma takeWhile_neq_index:
  "c \<in> set xs \<Longrightarrow> length (takeWhile (\<lambda>x. x \<noteq> c) xs) < length xs \<and>
     xs ! length (takeWhile (\<lambda>x. x \<noteq> c) xs) = c"
  by (induction xs) auto

lemma takeWhile_index_iff:
  assumes "distinct xs"
  shows "(if c \<in> set xs then Some (length (takeWhile (\<lambda>x. x \<noteq> c) xs)) else None) = Some i \<longleftrightarrow>
    i < length xs \<and> xs ! i = c"
proof (cases "c \<in> set xs")
  case True
  then show ?thesis using takeWhile_neq_index [OF True] assms
    by (simp only: if_True option.inject) (metis nth_eq_iff_index_eq)
next
  case False
  then show ?thesis using nth_mem [of i xs] by auto
qed

section \<open>Properties\<close>

text \<open>
  C22. Iterating from \<open>CombinationIterator::new(n, k)\<close> ends and yields every choice of \<open>k\<close> of
  the \<open>n\<close> oracles, as an increasing list of indices, exactly once and in lexicographic
  order.
\<close>

theorem combination_iterator_complete:
  assumes "0 < k" "k \<le> n" "n < 2 ^ 64"
  shows "\<exists>cs. and_then (ci_new n k) ci_collect = (Ok cs :: (nat list list, 'e) res) \<and>
    set cs = {s. length s = k \<and> sorted_wrt (<) s \<and> set s \<subseteq> {..<n}} \<and> distinct cs \<and>
    sorted_wrt (\<lambda>a b. (a, b) \<in> lexord {(x, y). x < y}) cs"
proof -
  have "and_then (ci_new n k) ci_collect = (Ok (combs 0 n k) :: (nat list list, 'e) res)"
    using ci_collect_combs [OF assms refl] assms(2) by (simp add: ci_new_def)
  then show ?thesis using set_combs [of 0 n k] distinct_combs sorted_combs
    by (intro exI [of _ "combs 0 n k"]) (auto simp: lessThan_atLeast0)
qed

lemma combination_iterator_complete_witness:
  "\<exists>cs. and_then (ci_new 4 3) ci_collect = (Ok cs :: (nat list list, unit) res) \<and>
    set cs = {s. length s = 3 \<and> sorted_wrt (<) s \<and> set s \<subseteq> {..<4}} \<and> distinct cs \<and>
    sorted_wrt (\<lambda>a b. (a, b) \<in> lexord {(x, y). x < y}) cs"
  by (rule combination_iterator_complete) simp_all

text \<open>
  The index of a combination is its position in the iteration: \<open>get_index_for_combination\<close>
  returns \<open>Some i\<close> exactly when the \<open>i\<close>-th list the iterator yields is the given one, and
  \<open>None\<close> when the list is not a combination.
\<close>

theorem get_index_for_combination_position:
  assumes "0 < k" "k \<le> n" "n < 2 ^ 64"
  shows "\<exists>cs r. and_then (ci_new n k) ci_collect = (Ok cs :: (nat list list, 'e) res) \<and>
    and_then (ci_new n k) (\<lambda>it. get_index_for_combination it c) = (Ok r :: (nat option, 'e) res) \<and>
    (\<forall>i. r = Some i \<longleftrightarrow> i < length cs \<and> cs ! i = c) \<and>
    (r = None \<longleftrightarrow> \<not> (length c = k \<and> sorted_wrt (<) c \<and> set c \<subseteq> {..<n}))"
proof -
  let ?cs = "combs 0 n k"
  let ?r = "if c \<in> set ?cs then Some (length (takeWhile (\<lambda>x. x \<noteq> c) ?cs)) else None"
  have "and_then (ci_new n k) ci_collect = (Ok ?cs :: (nat list list, 'e) res)"
    using ci_collect_combs [OF assms refl] assms(2) by (simp add: ci_new_def)
  moreover have "and_then (ci_new n k) (\<lambda>it. get_index_for_combination it c) = (Ok ?r :: (nat option, 'e) res)"
    using get_index_combs [OF assms refl, of c] assms(2) by (simp add: ci_new_def)
  moreover have "?r = Some i \<longleftrightarrow> i < length ?cs \<and> ?cs ! i = c" for i
    by (rule takeWhile_index_iff [OF distinct_combs])
  moreover have "?r = None \<longleftrightarrow> c \<notin> set ?cs" by simp
  moreover have "c \<in> set ?cs \<longleftrightarrow> length c = k \<and> sorted_wrt (<) c \<and> set c \<subseteq> {..<n}"
    unfolding set_combs by (simp add: lessThan_atLeast0)
  ultimately show ?thesis by (intro exI [of _ ?cs] exI [of _ ?r] conjI allI) simp_all
qed

lemma get_index_for_combination_position_witness:
  "\<exists>cs r. and_then (ci_new 4 3) ci_collect = (Ok cs :: (nat list list, unit) res) \<and>
    and_then (ci_new 4 3) (\<lambda>it. get_index_for_combination it [0, 2, 3]) = (Ok r :: (nat option, unit) res) \<and>
    (\<forall>i. r = Some i \<longleftrightarrow> i < length cs \<and> cs ! i = [0, 2, 3]) \<and>
    (r = None \<longleftrightarrow> \<not> (length [0, 2, 3 :: nat] = 3 \<and> sorted_wrt (<) [0, 2, 3 :: nat] \<and> set [0, 2, 3] \<subseteq> {..<4 :: nat}))"
  by (rule get_index_for_combination_position) simp_all

end
