(* ===== verification/Trie_Types.thy ===== *)
theory Trie_Types
  imports Prelude
begin

text \<open>
  The types of \<open>dlc-trie/src/lib.rs\<close> that all tries share: arena nodes, lookup results,
  the information stored for an outcome and the description of the oracles.
\<close>

datatype ('l, 'n) node = Node_None | Leaf 'l | Node 'n

type_synonym indexed_path = "nat \<times> nat list"

record ('v, 'p) lookup_result =
  lr_path :: "'p list"
  lr_value :: 'v

record range_info =
  cet_index :: nat
  adaptor_index :: nat

record trie_iter_info =
  ti_indexes :: "nat list"
  ti_paths :: "nat list list"
  ti_value :: range_info

record oracle_numeric_info =
  oni_base :: nat
  oni_nb_digits :: "nat list"

definition get_min_nb_digits :: "oracle_numeric_info \<Rightarrow> (nat, 'e) res" where
  "get_min_nb_digits info =
     (if oni_nb_digits info = [] then Panic else Ok (Min (set (oni_nb_digits info))))"

definition has_diff_nb_digits :: "oracle_numeric_info \<Rightarrow> bool" where
  "has_diff_nb_digits info =
     list_ex (\<lambda>x. x \<noteq> oni_nb_digits info ! 0) (drop 1 (oni_nb_digits info))"

lemma min_nb_digits_le:
  "get_min_nb_digits info = Ok m \<Longrightarrow> d \<in> set (oni_nb_digits info) \<Longrightarrow> m \<le> d"
  by (auto simp: get_min_nb_digits_def split: if_splits)

lemma same_nb_digits:
  assumes "\<not> has_diff_nb_digits info" "d \<in> set (oni_nb_digits info)"
  shows "get_min_nb_digits info = Ok d"
proof -
  obtain x xs where n: "oni_nb_digits info = x # xs" using assms(2) by (cases "oni_nb_digits info") auto
  then have "set (oni_nb_digits info) = {d}"
    using assms by (auto simp: has_diff_nb_digits_def list_ex_iff) metis
  then show ?thesis by (auto simp: get_min_nb_digits_def)
qed

end
