(* ===== verification/Digit_Trie.thy ===== *)
theory Digit_Trie
  imports Trie_Types "HOL-Library.Sublist"
begin

text \<open>
  \<open>dlc-trie/src/digit_trie.rs\<close>: a radix trie on digit paths whose nodes live in an arena
  (\<open>dt_store\<close>) and point to each other by index.  \<open>insert\<close> takes the node it visits out
  of the arena (leaving \<open>Node_None\<close>) and puts it back when it is done, as the code does to
  satisfy the borrow checker.  The callback \<open>get_data\<close> is an \<open>FnMut\<close>: a function on the
  old value and the state it captures.

  A trie that is well formed is described by a tree whose nodes carry their arena index
  (\<open>atree\<close>); \<open>entry\<close> reads the tree as a map from paths to data.  The results: insertion
  keeps well-formedness and updates the map at one path, and a lookup returns the entries at
  the prefixes of the path, from the shortest to the longest.
\<close>

section \<open>The trie\<close>

record 'a digit_leaf =
  dl_data :: 'a
  dl_prefix :: "nat list"

record 'a digit_node =
  dn_children :: "nat option list"
  dn_prefix :: "nat list"
  dn_data :: "'a option"

type_synonym 'a dnode = "('a digit_leaf, 'a digit_node) node"

record 'a digit_trie =
  dt_store :: "'a dnode list"
  dt_root :: "nat option"
  dt_base :: nat

definition digit_trie_new :: "nat \<Rightarrow> 'a digit_trie" where
  "digit_trie_new base = \<lparr>dt_store = [], dt_root = None, dt_base = base\<rparr>"

fun get_node_prefix :: "'a dnode \<Rightarrow> (nat list, 'e) res" where
  "get_node_prefix Node_None = Panic"
| "get_node_prefix (Leaf l) = Ok (dl_prefix l)"
| "get_node_prefix (Node n) = Ok (dn_prefix n)"

fun set_node_prefix :: "'a dnode \<Rightarrow> nat list \<Rightarrow> ('a dnode, 'e) res" where
  "set_node_prefix Node_None p = Panic"
| "set_node_prefix (Leaf l) p = Ok (Leaf (l\<lparr>dl_prefix := p\<rparr>))"
| "set_node_prefix (Node n) p = Ok (Node (n\<lparr>dn_prefix := p\<rparr>))"

definition get_common_prefix :: "nat list \<Rightarrow> nat list \<Rightarrow> nat list" where
  "get_common_prefix a b = map fst (takeWhile (\<lambda>(x, y). x = y) (zip a b))"

definition insert_new_leaf :: "'a dnode list \<Rightarrow> nat list \<Rightarrow> 'a \<Rightarrow> nat \<times> 'a dnode list" where
  "insert_new_leaf store path data =
     (length store, store @ [Leaf \<lparr>dl_data = data, dl_prefix = path\<rparr>])"

definition is_prefix_of :: "nat list \<Rightarrow> nat list \<Rightarrow> bool" where
  "is_prefix_of p v \<longleftrightarrow> length p \<le> length v \<and> list_all (\<lambda>i. p ! i = v ! i) [0..<length p]"

type_synonym ('a, 's, 'e) get_data = "'a option \<Rightarrow> 's \<Rightarrow> ('a \<times> 's, 'e) res"

fun is_node :: "('l, 'n) node \<Rightarrow> bool" where
  "is_node Node_None = False"
| "is_node _ = True"

lemma count_nodes_less:
  assumes "cur < length store" "is_node (store ! cur)"
  shows "length (filter is_node (store[cur := Node_None])) < length (filter is_node store)"
proof -
  have s: "store = take cur store @ store ! cur # drop (Suc cur) store"
    using assms(1) by (rule id_take_nth_drop)
  have "store[cur := Node_None] = take cur store @ Node_None # drop (Suc cur) store"
    using assms(1) by (rule upd_conv_take_nth_drop)
  then have "length (filter is_node (store[cur := Node_None])) =
      length (filter is_node (take cur store)) + length (filter is_node (drop (Suc cur) store))"
    by simp
  also have "\<dots> < length (filter is_node store)" using assms(2) by (subst (3) s) simp
  finally show ?thesis .
qed

text \<open>
  \<open>insert_internal\<close>: \<open>swap_remove\<close> at an index that does not exist, or that holds a
  placeholder, panics.  Every recursive call has one more placeholder in the arena.
\<close>

function insert_internal ::
  "nat \<Rightarrow> 'a dnode list \<Rightarrow> nat option \<Rightarrow> nat list \<Rightarrow> ('a, 's, 'e) get_data \<Rightarrow> 's
    \<Rightarrow> (nat \<times> 'a dnode list \<times> 's, 'e) res" where
  "insert_internal base store None path get_data s =
     and_then (get_data None s) (\<lambda>(d, s').
       let (i, store') = insert_new_leaf store path d in Ok (i, store', s'))"
| "insert_internal base store (Some cur) path get_data s =
     (if \<not> (cur < length store \<and> is_node (store ! cur)) then Panic
      else
        let cur_node = store ! cur; store1 = store[cur := Node_None] in
        and_then (get_node_prefix cur_node) (\<lambda>pre.
          if pre = path then
            (case cur_node of
               Leaf l \<Rightarrow>
                 and_then (get_data (Some (dl_data l)) s) (\<lambda>(d, s').
                   Ok (cur, store1[cur := Leaf \<lparr>dl_data = d, dl_prefix = dl_prefix l\<rparr>], s'))
             | Node n \<Rightarrow>
                 and_then (get_data (dn_data n) s) (\<lambda>(d, s').
                   Ok (cur, store1[cur := Node (n\<lparr>dn_data := Some d\<rparr>)], s'))
             | Node_None \<Rightarrow> Panic)
          else
            (let common = get_common_prefix pre path; suffix = drop (length common) path in
             if pre = common then
               (case cur_node of
                  Node n \<Rightarrow>
                    and_then (index suffix 0) (\<lambda>digit.
                    and_then (index (dn_children n) digit) (\<lambda>child.
                    and_then (insert_internal base store1 child suffix get_data s) (\<lambda>(i, store2, s').
                    and_then (update (dn_children n) digit (Some i)) (\<lambda>cs.
                    and_then (update store2 cur (Node (n\<lparr>dn_children := cs\<rparr>))) (\<lambda>store3.
                      Ok (cur, store3, s'))))))
                | Leaf l \<Rightarrow>
                    and_then (get_data None s) (\<lambda>(d, s').
                    let (i, store2) = insert_new_leaf store1 suffix d in
                    and_then (index suffix 0) (\<lambda>digit.
                    and_then (update (replicate base None) digit (Some i)) (\<lambda>cs.
                      Ok (cur, store2[cur := Node \<lparr>dn_children = cs, dn_prefix = dl_prefix l,
                        dn_data = Some (dl_data l)\<rparr>], s'))))
                | Node_None \<Rightarrow> Panic)
             else
               and_then
                 (if path = common
                  then and_then (get_data None s) (\<lambda>(d, s').
                         Ok (Some d, replicate base None, store1, s'))
                  else and_then (get_data None s) (\<lambda>(d, s').
                         let (i, store2) = insert_new_leaf store1 suffix d in
                         and_then (index path (length common)) (\<lambda>digit.
                         and_then (update (replicate base None) digit (Some i)) (\<lambda>cs.
                           Ok (None, cs, store2, s')))))
                 (\<lambda>(data, cs, store2, s').
                   and_then (index pre (length common)) (\<lambda>digit.
                   and_then (update cs digit (Some cur)) (\<lambda>cs'.
                   and_then (set_node_prefix cur_node (drop (length common) pre)) (\<lambda>cur_node'.
                     let store3 = store2 @ [Node \<lparr>dn_children = cs', dn_prefix = common, dn_data = data\<rparr>]
                     in Ok (length store3 - 1, store3[cur := cur_node'], s'))))))))"
  by pat_completeness auto

termination
proof (relation "measure (\<lambda>(base, store, cur, path, get_data, s). length (filter is_node store))", goal_cases)
  case (2 base store cur path get_data s x xa)
  from 2(1,3) count_nodes_less [of cur store] show ?case unfolding in_measure prod.case not_not by blast
qed (rule wf_measure)

declare insert_internal.simps(2) [simp del]

definition digit_trie_insert ::
  "'a digit_trie \<Rightarrow> nat list \<Rightarrow> ('a, 's, 'e) get_data \<Rightarrow> 's \<Rightarrow> ('a digit_trie \<times> 's, 'e) res" where
  "digit_trie_insert trie path get_data s =
     (if path = [] \<or> list_ex (\<lambda>x. dt_base trie < x) path then Panic
      else and_then (insert_internal (dt_base trie) (dt_store trie) (dt_root trie) path get_data s)
             (\<lambda>(i, store', s'). Ok (trie\<lparr>dt_store := store', dt_root := Some i\<rparr>, s')))"

section \<open>Lookup\<close>

definition extend_lookup_res_paths :: "('a, nat) lookup_result list \<Rightarrow> nat list \<Rightarrow> ('a, nat) lookup_result list" where
  "extend_lookup_res_paths l_res path = map (\<lambda>x. \<lparr>lr_path = path @ lr_path x, lr_value = lr_value x\<rparr>) l_res"

text \<open>
  The recursion goes to a child with the rest of the path.  It does not end on a store with a
  cycle through empty prefixes; then the stack is exhausted.  The fuel counts the pairs of a
  node and a rest of the path.
\<close>

fun look_up_internal ::
  "nat \<Rightarrow> 'a dnode list \<Rightarrow> nat option \<Rightarrow> nat list \<Rightarrow> (('a, nat) lookup_result list option, 'e) res" where
  "look_up_internal 0 store cur path = Panic"
| "look_up_internal (Suc fuel) store None path = Ok None"
| "look_up_internal (Suc fuel) store (Some cur) path =
     and_then (index store cur) (\<lambda>node.
       case node of
         Node_None \<Rightarrow> Panic
       | Leaf l \<Rightarrow>
           if dl_prefix l = get_common_prefix (dl_prefix l) path
           then Ok (Some [\<lparr>lr_path = dl_prefix l, lr_value = dl_data l\<rparr>])
           else Ok None
       | Node n \<Rightarrow>
           let here = map_option (\<lambda>d. [\<lparr>lr_path = dn_prefix n, lr_value = d\<rparr>]) (dn_data n) in
           if length path < length (dn_prefix n) \<or> \<not> is_prefix_of (dn_prefix n) path then Ok None
           else if length (dn_prefix n) = length path then Ok here
           else
             and_then (index path (length (dn_prefix n))) (\<lambda>digit.
             and_then (index (dn_children n) digit) (\<lambda>child.
             and_then (look_up_internal fuel store child (drop (length (dn_prefix n)) path)) (\<lambda>r.
               case r of
                 None \<Rightarrow> Ok here
               | Some l_res \<Rightarrow>
                   let up_res = extend_lookup_res_paths l_res (dn_prefix n) in
                   (case here of None \<Rightarrow> Ok (Some up_res) | Some h \<Rightarrow> Ok (Some (h @ up_res)))))))"

definition digit_trie_look_up :: "'a digit_trie \<Rightarrow> nat list \<Rightarrow> (('a, nat) lookup_result list option, 'e) res" where
  "digit_trie_look_up trie path =
     look_up_internal ((length (dt_store trie) + 1) * (length path + 1)) (dt_store trie) (dt_root trie) path"

section \<open>Trees with arena indices\<close>

datatype 'a atree =
    ALeaf nat "nat list" 'a
  | ANode nat "'a atree option list" "nat list" "'a option"

primrec aix :: "'a atree \<Rightarrow> nat" where
  "aix (ALeaf i p d) = i"
| "aix (ANode i cs p d) = i"

primrec apath :: "'a atree \<Rightarrow> nat list" where
  "apath (ALeaf i p d) = p"
| "apath (ANode i cs p d) = p"

primrec set_path :: "'a atree \<Rightarrow> nat list \<Rightarrow> 'a atree" where
  "set_path (ALeaf i p d) r = ALeaf i r d"
| "set_path (ANode i cs p d) r = ANode i cs r d"

primrec ixs :: "'a atree \<Rightarrow> nat set" where
  "ixs (ALeaf i p d) = {i}"
| "ixs (ANode i cs p d) =
     insert i (\<Union>c\<in>set (map (map_option ixs) cs). case c of None \<Rightarrow> {} | Some S \<Rightarrow> S)"

definition kid :: "'a option list \<Rightarrow> nat \<Rightarrow> 'a option" where
  "kid cs k = (if k < length cs then cs ! k else None)"

primrec entry :: "'a atree \<Rightarrow> nat list \<Rightarrow> 'a option" where
  "entry (ALeaf i p d) = (\<lambda>q. if q = p then Some d else None)"
| "entry (ANode i cs p d) =
     (\<lambda>q. if q = p then d
          else if prefix p q
               then (case kid (map (map_option entry) cs) (q ! length p) of
                       None \<Rightarrow> None | Some f \<Rightarrow> f (drop (length p) q))
               else None)"

text \<open>The entries and the indices of a child, which may be absent.\<close>

definition oentry :: "'a atree option \<Rightarrow> nat list \<Rightarrow> 'a option" where
  "oentry c q = (case c of None \<Rightarrow> None | Some t \<Rightarrow> entry t q)"

definition oixs :: "'a atree option \<Rightarrow> nat set" where
  "oixs c = (case c of None \<Rightarrow> {} | Some t \<Rightarrow> ixs t)"

lemma oentry_simps [simp]: "oentry None q = None" "oentry (Some t) q = entry t q"
  by (simp_all add: oentry_def)

lemma oixs_simps [simp]: "oixs None = {}" "oixs (Some t) = ixs t"
  by (simp_all add: oixs_def)

lemma entry_ANode:
  "entry (ANode i cs p d) q =
     (if q = p then d
      else if prefix p q then oentry (kid cs (q ! length p)) (drop (length p) q) else None)"
  by (auto simp: kid_def oentry_def split: option.splits)

lemma ixs_ANode: "ixs (ANode i cs p d) = insert i (\<Union>k<length cs. oixs (cs ! k))"
proof -
  have "(\<Union>c\<in>set (map (map_option ixs) cs). case c of None \<Rightarrow> {} | Some S \<Rightarrow> S) = (\<Union>c\<in>set cs. oixs c)"
    by (auto simp: oixs_def split: option.splits)
  also have "\<dots> = (\<Union>k<length cs. oixs (cs ! k))"
    by (auto simp: set_conv_nth)
  finally show ?thesis by simp
qed

declare entry.simps(2) [simp del] ixs.simps(2) [simp del]

lemma set_path_simps [simp]:
  "aix (set_path t r) = aix t" "apath (set_path t r) = r" "ixs (set_path t r) = ixs t"
  by (cases t; simp add: ixs_ANode)+

lemma aix_in_ixs [simp]: "aix t \<in> ixs t"
  by (cases t) (auto simp: ixs_ANode)

lemma entry_prefix: "entry t q = Some d \<Longrightarrow> prefix (apath t) q"
  by (cases t) (auto simp: entry_ANode split: if_splits)

lemma entry_set_path:
  assumes "apath t = c @ r"
  shows "entry (set_path t r) q = entry t (c @ q)"
  using assms by (cases t) (auto simp: entry_ANode)

text \<open>The arena holds the tree: every node is at its index, and no index is used twice.\<close>

inductive holds :: "nat \<Rightarrow> 'a dnode list \<Rightarrow> 'a atree \<Rightarrow> bool" for b st where
  holds_leaf: "\<lbrakk>i < length st; st ! i = Leaf \<lparr>dl_data = d, dl_prefix = p\<rparr>; \<forall>x\<in>set p. x < b\<rbrakk>
    \<Longrightarrow> holds b st (ALeaf i p d)"
| holds_node: "\<lbrakk>i < length st;
      st ! i = Node \<lparr>dn_children = map (map_option aix) cs, dn_prefix = p, dn_data = d\<rparr>;
      \<forall>x\<in>set p. x < b; length cs = b;
      \<And>k u. k < b \<Longrightarrow> cs ! k = Some u \<Longrightarrow> holds b st u \<and> i \<notin> ixs u \<and> (\<exists>r. apath u = k # r);
      \<And>k l. k < b \<Longrightarrow> l < b \<Longrightarrow> k \<noteq> l \<Longrightarrow> oixs (cs ! k) \<inter> oixs (cs ! l) = {}\<rbrakk>
    \<Longrightarrow> holds b st (ANode i cs p d)"

inductive_cases holds_leafE: "holds b st (ALeaf i p d)"
inductive_cases holds_nodeE: "holds b st (ANode i cs p d)"
inductive_simps holds_simps: "holds b st (ALeaf i p d)" "holds b st (ANode i cs p d)"

lemma holds_bound: "holds b st t \<Longrightarrow> j \<in> ixs t \<Longrightarrow> j < length st"
proof (induction t rule: holds.induct)
  case (holds_node i cs p d)
  then show ?case by (auto simp: ixs_ANode oixs_def split: option.splits)
qed simp

lemma holds_aix: "holds b st t \<Longrightarrow> aix t < length st"
  using holds_bound aix_in_ixs by blast

text \<open>A tree does not depend on the rest of the arena.\<close>

lemma holds_frame:
  "holds b st t \<Longrightarrow> (\<And>j. j \<in> ixs t \<Longrightarrow> j < length st' \<and> st' ! j = st ! j) \<Longrightarrow> holds b st' t"
proof (induction t rule: holds.induct)
  case (holds_node i cs p d)
  have "holds b st' u \<and> i \<notin> ixs u \<and> (\<exists>r. apath u = k # r)" if "k < b" "cs ! k = Some u" for k u
  proof -
    have "ixs u \<subseteq> ixs (ANode i cs p d)"
      using that holds_node.hyps(4) by (auto simp: ixs_ANode oixs_def intro!: bexI [of _ k])
    then show ?thesis using holds_node.IH [OF that] holds_node.prems by blast
  qed
  then show ?case
    using holds_node by (intro holds.holds_node) (auto simp: ixs_ANode)
qed (auto intro: holds.holds_leaf)

lemma holds_update: "holds b st u \<Longrightarrow> i \<notin> ixs u \<Longrightarrow> holds b (st[i := n]) u"
  by (rule holds_frame) (auto dest: holds_bound intro: nth_list_update_neq)

lemma holds_append: "holds b st u \<Longrightarrow> holds b (st @ ys) u"
  by (rule holds_frame) (auto dest: holds_bound simp: nth_append)

lemma holds_digits: "holds b st t \<Longrightarrow> x \<in> set (apath t) \<Longrightarrow> x < b"
  by (induction t rule: holds.induct) auto

lemma holds_is_node: "holds b st t \<Longrightarrow> is_node (st ! aix t)"
  by (induction t rule: holds.induct) auto

lemma holds_prefix: "holds b st t \<Longrightarrow> get_node_prefix (st ! aix t) = Ok (apath t)"
  by (induction t rule: holds.induct) auto

text \<open>Changing the prefix of the topmost node.\<close>

lemma holds_set_path:
  assumes "holds b (st :: 'a dnode list) t" "\<forall>x\<in>set r. x < b"
  shows "\<exists>n. set_node_prefix (st ! aix t) r = (Ok n :: (_, 'e) res) \<and> holds b (st[aix t := n]) (set_path t r)"
  using assms(1)
proof (cases t)
  case (ALeaf i p d)
  then show ?thesis using assms by (auto simp: holds_simps)
next
  case (ANode i cs p d)
  then have h: "holds b st (ANode i cs p d)" using assms(1) by simp
  define n :: "'a dnode" where "n = Node \<lparr>dn_children = map (map_option aix) cs, dn_prefix = r, dn_data = d\<rparr>"
  have "set_node_prefix (st ! i) r = (Ok n :: (_, 'e) res)"
    using h by (auto simp: holds_simps n_def)
  moreover have "holds b (st[i := n]) (ANode i cs r d)"
  proof (rule holds.holds_node)
    fix k u assume k: "k < b" "cs ! k = Some u"
    then have u: "holds b st u" "i \<notin> ixs u" "\<exists>r. apath u = k # r" using h by (auto simp: holds_simps)
    then have "holds b (st[i := n]) u" by (intro holds_update)
    with u show "holds b (st[i := n]) u \<and> i \<notin> ixs u \<and> (\<exists>r. apath u = k # r)" by blast
  qed (use h assms(2) in \<open>auto simp: holds_simps n_def\<close>)
  ultimately show ?thesis using ANode by simp
qed

section \<open>Common prefixes\<close>

lemma common_prefix_split:
  obtains p' q' where "p = get_common_prefix p q @ p'" "q = get_common_prefix p q @ q'"
    "p' = [] \<or> q' = [] \<or> hd p' \<noteq> hd q'"
proof -
  have "\<exists>p' q'. p = get_common_prefix p q @ p' \<and> q = get_common_prefix p q @ q' \<and>
      (p' = [] \<or> q' = [] \<or> hd p' \<noteq> hd q')"
    by (induction p q rule: list_induct2') (auto simp: get_common_prefix_def)
  then show thesis using that by blast
qed

lemma get_common_prefix_append:
  "p' = [] \<or> q' = [] \<or> hd p' \<noteq> hd q' \<Longrightarrow> get_common_prefix (c @ p') (c @ q') = c"
  by (induction c) (cases p'; cases q'; auto simp: get_common_prefix_def)+

lemma is_prefix_of_iff: "is_prefix_of p v \<longleftrightarrow> prefix p v"
proof -
  have nth: "(\<forall>i<length p. p ! i = v ! i) \<longleftrightarrow> take (length p) v = p" if "length p \<le> length v"
    using that by (simp add: list_eq_iff_nth_eq min_absorb2) metis
  have "is_prefix_of p v \<longleftrightarrow> length p \<le> length v \<and> take (length p) v = p"
    using nth by (auto simp: is_prefix_of_def list_all_iff)
  also have "\<dots> \<longleftrightarrow> prefix p v"
    by (auto simp: prefix_def dest: sym) (metis append_take_drop_id)
  finally show ?thesis .
qed

lemma common_prefix_eq_iff: "p = get_common_prefix p q \<longleftrightarrow> prefix p q"
proof
  assume "p = get_common_prefix p q"
  then show "prefix p q" by (metis common_prefix_split prefixI)
next
  assume "prefix p q"
  then obtain r where "q = p @ r" by (auto simp: prefix_def)
  then show "p = get_common_prefix p q" using get_common_prefix_append [of "[]" r p] by simp
qed

section \<open>Insertion\<close>

text \<open>What an insertion at \<open>path\<close> below an (optional) child does to the arena.\<close>

definition ins_ok ::
  "nat \<Rightarrow> 'a dnode list \<Rightarrow> 'a atree option \<Rightarrow> nat list \<Rightarrow> 'a \<Rightarrow> 'a dnode list \<Rightarrow> 'a atree \<Rightarrow> bool" where
  "ins_ok b st ot path x st' t' \<longleftrightarrow>
     holds b st' t' \<and> (\<forall>q. entry t' q = (if q = path then Some x else oentry ot q)) \<and>
     length st \<le> length st' \<and> (\<forall>j<length st. j \<notin> oixs ot \<longrightarrow> st' ! j = st ! j) \<and>
     (\<forall>j<length st'. length st \<le> j \<longrightarrow> is_node (st' ! j)) \<and>
     ixs t' \<subseteq> oixs ot \<union> {length st..} \<and> oixs ot \<subseteq> ixs t' \<and>
     (\<forall>k. (\<exists>r. path = k # r) \<longrightarrow> (\<forall>u. ot = Some u \<longrightarrow> (\<exists>r. apath u = k # r)) \<longrightarrow> (\<exists>r. apath t' = k # r))"

lemma insert_new_leaf_ok:
  assumes "\<forall>x\<in>set path. x < b" "insert_new_leaf st path x = (i, st')"
  shows "\<exists>t'. aix t' = i \<and> ins_ok b st None path x st' t'"
  using assms
  by (intro exI [of _ "ALeaf i path x"])
     (auto simp: insert_new_leaf_def ins_ok_def holds_simps nth_append)

text \<open>
  The path leaves the tree within the prefix of its topmost node: a new node takes the common
  prefix and gets the old node, and the new leaf unless the path ends there, as children.
\<close>

lemma holds_split_end:
  assumes t: "holds b (st :: 'a dnode list) t" and p: "apath t = c @ k # r"
    and n: "holds b (st[aix t := n]) (set_path t (k # r))"
    and st': "st' = st[aix t := n] @ [Node \<lparr>dn_children = (replicate b None)[k := Some (aix t)], dn_prefix = c, dn_data = Some x\<rparr>]"
  shows "\<exists>t'. aix t' = length st \<and> ins_ok b st (Some t) c x st' t'"
proof -
  define t' where "t' = ANode (length st) ((replicate b None)[k := Some (set_path t (k # r))]) c (Some x)"
  have b: "k < b" "\<forall>x\<in>set c. x < b" using holds_digits [OF t] p by auto
  have n': "holds b st' (set_path t (k # r))" unfolding st' by (rule holds_append [OF n])
  have old: "entry t q = None" if "\<not> prefix (c @ k # r) q" for q
    using entry_prefix [of t q] that p by (cases "entry t q") auto
  have "holds b st' t'"
    unfolding t'_def
  proof (rule holds.holds_node)
    fix l u assume "l < b" "(replicate b None)[k := Some (set_path t (k # r))] ! l = Some u"
    then have "l = k" "u = set_path t (k # r)" using b by (auto simp: nth_list_update split: if_splits)
    with n' holds_bound [OF t] show "holds b st' u \<and> length st \<notin> ixs u \<and> (\<exists>r. apath u = l # r)"
      by fastforce
  qed (use b in \<open>auto simp: st' nth_append map_update nth_list_update\<close>)
  moreover have "entry t' q = (if q = c then Some x else entry t q)" for q
  proof (cases "prefix c q \<and> q \<noteq> c")
    case True
    then obtain l q' where q: "q = c @ l # q'" by (metis append_Nil2 list.exhaust prefix_def)
    then have "entry t' q = oentry (kid ((replicate b None)[k := Some (set_path t (k # r))]) l) (l # q')"
      by (simp add: t'_def entry_ANode)
    also have "\<dots> = (if l = k then entry t q else None)"
      using b entry_set_path [OF p, of "l # q'"] q by (auto simp: kid_def nth_list_update)
    finally show ?thesis using q old [of q] by auto
  next
    case False
    then show ?thesis using old [of q] by (auto simp: t'_def entry_ANode prefix_def)
  qed
  moreover have "ixs t' \<subseteq> ixs t \<union> {length st..}"
    using b by (auto simp: t'_def ixs_ANode nth_list_update oixs_def split: if_splits)
  moreover have "ixs t \<subseteq> ixs t'"
    using b by (auto simp: t'_def ixs_ANode intro!: bexI [of _ k])
  moreover have "st[aix t := n] ! j = st ! j" if "j \<notin> ixs t" for j
    using that by (metis aix_in_ixs nth_list_update_neq)
  ultimately show ?thesis
    using p by (intro exI [of _ t']) (auto simp: ins_ok_def t'_def st' nth_append Cons_eq_append_conv)
qed

lemma holds_split_leaf:
  assumes t: "holds b (st :: 'a dnode list) t" and p: "apath t = c @ k # r" and q: "\<forall>x\<in>set (m # q'). x < b" "m \<noteq> k"
    and n: "holds b (st[aix t := n]) (set_path t (k # r))"
    and st': "st' = st[aix t := n] @ [Leaf \<lparr>dl_data = x, dl_prefix = m # q'\<rparr>,
      Node \<lparr>dn_children = (replicate b None)[m := Some (length st), k := Some (aix t)], dn_prefix = c, dn_data = None\<rparr>]"
  shows "\<exists>t'. aix t' = Suc (length st) \<and> ins_ok b st (Some t) (c @ m # q') x st' t'"
proof -
  define cs where "cs = (replicate b None)[m := Some (ALeaf (length st) (m # q') x), k := Some (set_path t (k # r))]"
  define t' where "t' = ANode (Suc (length st)) cs c None"
  have b: "k < b" "m < b" "\<forall>x\<in>set c. x < b" using holds_digits [OF t] p q by auto
  have n': "holds b st' (set_path t (k # r))" unfolding st' by (rule holds_append [OF n])
  have l': "holds b st' (ALeaf (length st) (m # q') x)"
    using q by (auto simp: st' holds_simps nth_append)
  have cs: "cs ! l = (if l = k then Some (set_path t (k # r)) else if l = m then Some (ALeaf (length st) (m # q') x) else None)"
    if "l < b" for l using that b by (auto simp: cs_def nth_list_update)
  have len: "length cs = b" by (simp add: cs_def)
  have old: "entry t q = None" if "\<not> prefix (c @ k # r) q" for q
    using entry_prefix [of t q] that p by (cases "entry t q") auto
  have "holds b st' t'"
    unfolding t'_def
  proof (rule holds.holds_node)
    show "st' ! Suc (length st) = Node \<lparr>dn_children = map (map_option aix) cs, dn_prefix = c, dn_data = None\<rparr>"
      using b by (simp add: st' nth_append cs_def map_update)
  next
    fix l u assume "l < b" "cs ! l = Some u"
    then show "holds b st' u \<and> Suc (length st) \<notin> ixs u \<and> (\<exists>r. apath u = l # r)"
      using n' l' holds_bound [OF t, of "Suc (length st)"] by (auto simp: cs split: if_splits)
  next
    fix l l' assume "l < b" "l' < b" "l \<noteq> l'"
    then show "oixs (cs ! l) \<inter> oixs (cs ! l') = {}"
      using holds_bound [OF t, of "length st"] by (auto simp: cs)
  qed (use b len in \<open>auto simp: st'\<close>)
  moreover have "entry t' q = (if q = c @ m # q' then Some x else entry t q)" for q
  proof (cases "prefix c q \<and> q \<noteq> c")
    case True
    then obtain l q2 where q2: "q = c @ l # q2" by (metis append_Nil2 list.exhaust prefix_def)
    then have "entry t' q = oentry (kid cs l) (l # q2)"
      by (simp add: t'_def entry_ANode)
    also have "\<dots> = (if l = k then entry t q else if l = m \<and> q2 = q' then Some x else None)"
      using b entry_set_path [OF p, of "l # q2"] q2 len by (auto simp: kid_def cs)
    finally show ?thesis using q2 old [of q] q(2) by auto
  next
    case False
    then show ?thesis using old [of q] by (auto simp: t'_def entry_ANode prefix_def)
  qed
  moreover have "ixs t' \<subseteq> ixs t \<union> {length st..}"
    using len by (auto simp: t'_def ixs_ANode cs split: if_splits)
  moreover have "ixs t \<subseteq> ixs t'"
    using b len cs by (auto simp: t'_def ixs_ANode intro!: bexI [of _ k])
  moreover have "st[aix t := n] ! j = st ! j" if "j \<notin> ixs t" for j
    using that by (metis aix_in_ixs nth_list_update_neq)
  moreover have "\<forall>j<length st'. length st \<le> j \<longrightarrow> is_node (st' ! j)"
    by (auto simp: st' nth_append nth_Cons')
  moreover have "\<exists>r. c = l # r" if "c @ m # q' = l # r1" "apath t = l # r2" for l r1 r2
    using that p q(2) by (cases c) auto
  ultimately show ?thesis
    by (intro exI [of _ t']) (auto simp: ins_ok_def t'_def st' nth_append)
qed

text \<open>The code's steps in the case of a split.\<close>

lemma insert_internal_split:
  assumes t: "holds b (st :: 'a dnode list) t" and p: "apath t = c @ k # r" and path: "path = c @ q'"
    and q: "q' = [] \<or> hd q' \<noteq> k" "\<forall>x\<in>set path. x < b"
    and g: "get_data None s = Ok (x, s')"
  shows "\<exists>st' t'. insert_internal b st (Some (aix t)) path get_data s = (Ok (aix t', st', s') :: (_, 'e) res) \<and>
    ins_ok b st (Some t) path x st' t'"
proof -
  have common: "get_common_prefix (apath t) path = c"
    using get_common_prefix_append [of "k # r" q' c] q(1) p path by auto
  have neq: "apath t \<noteq> path" "apath t \<noteq> c" using p path q(1) by auto
  have k: "k < b" "\<forall>x\<in>set (k # r). x < b" using holds_digits [OF t] p by auto
  obtain n where n: "set_node_prefix (st ! aix t) (k # r) = (Ok n :: (_, 'e) res)"
    "holds b (st[aix t := n]) (set_path t (k # r))"
    using holds_set_path [OF t k(2)] by blast
  note unf = insert_internal.simps(2) holds_aix [OF t] holds_is_node [OF t] holds_prefix [OF t] neq common Let_def g
  show ?thesis
  proof (cases q')
    case Nil
    define st' where "st' = st[aix t := n] @ [Node \<lparr>dn_children = (replicate b None)[k := Some (aix t)], dn_prefix = c, dn_data = Some x\<rparr>]"
    have "get_common_prefix (c @ k # r) c = c" using common p path Nil by simp
    then have "insert_internal b st (Some (aix t)) path get_data s = (Ok (length st, st', s') :: (_, 'e) res)"
      using neq path Nil k p n(1) holds_aix [OF t]
      by (simp add: unf nth_append index_def update_def st'_def list_update_append)
    then show ?thesis using holds_split_end [OF t p n(2) st'_def] path Nil by force
  next
    case (Cons m q2)
    define st' where "st' = st[aix t := n] @ [Leaf \<lparr>dl_data = x, dl_prefix = m # q2\<rparr>,
      Node \<lparr>dn_children = (replicate b None)[m := Some (length st), k := Some (aix t)], dn_prefix = c, dn_data = None\<rparr>]"
    have m: "m \<noteq> k" "\<forall>x\<in>set (m # q2). x < b" using q Cons path by auto
    have "get_common_prefix (c @ k # r) (c @ m # q2) = c" using common p path Cons by simp
    then have "insert_internal b st (Some (aix t)) path get_data s = (Ok (Suc (length st), st', s') :: (_, 'e) res)"
      using neq path Cons k p n(1) m holds_aix [OF t] less_SucI [OF holds_aix [OF t]]
      by (simp add: unf nth_append index_def update_def st'_def list_update_append insert_new_leaf_def)
    then show ?thesis using holds_split_leaf [OF t p m(2,1) n(2) st'_def] path Cons by force
  qed
qed

text \<open>An insertion below a child is an insertion below its parent.\<close>

lemma ins_ok_child:
  assumes t: "holds b (st :: 'a dnode list) (ANode i cs p d)" and m: "\<forall>x\<in>set (m # q2). x < b"
    and u: "ins_ok b (st[i := Node_None]) (cs ! m) (m # q2) x st2 u"
    and st': "st' = st2[i := Node \<lparr>dn_children = map (map_option aix) (cs[m := Some u]), dn_prefix = p, dn_data = d\<rparr>]"
  shows "ins_ok b st (Some (ANode i cs p d)) (p @ m # q2) x st' (ANode i (cs[m := Some u]) p d)"
proof -
  have h: "i < length st" "\<forall>x\<in>set p. x < b" "length cs = b" "m < b"
    "\<And>k v. k < b \<Longrightarrow> cs ! k = Some v \<Longrightarrow> holds b st v \<and> i \<notin> ixs v \<and> (\<exists>r. apath v = k # r)"
    "\<And>k l. k < b \<Longrightarrow> l < b \<Longrightarrow> k \<noteq> l \<Longrightarrow> oixs (cs ! k) \<inter> oixs (cs ! l) = {}"
    using t m by (auto simp: holds_simps)
  have u': "holds b st2 u" "\<And>q. entry u q = (if q = m # q2 then Some x else oentry (cs ! m) q)"
    "length st \<le> length st2" "\<forall>j<length st2. length st \<le> j \<longrightarrow> is_node (st2 ! j)"
    "oixs (cs ! m) \<subseteq> ixs u"
    "\<And>j. j < length st \<Longrightarrow> j \<notin> oixs (cs ! m) \<Longrightarrow> st2 ! j = st[i := Node_None] ! j"
    "ixs u \<subseteq> oixs (cs ! m) \<union> {length st..}"
    using u by (auto simp: ins_ok_def)
  have im: "i \<notin> oixs (cs ! m)" using h(5) [OF h(4)] by (cases "cs ! m") auto
  have iu: "i \<notin> ixs u" using u'(7) im h(1) by auto
  have pu: "\<exists>r. apath u = m # r"
  proof -
    have "\<forall>v. cs ! m = Some v \<longrightarrow> (\<exists>r. apath v = m # r)" using h(5) [OF h(4)] by blast
    then show ?thesis using u unfolding ins_ok_def by blast
  qed
  have cs': "cs[m := Some u] ! k = (if k = m then Some u else cs ! k)" if "k < b" for k
    using that h(3) by (auto simp: nth_list_update)
  have bnd: "j < length st" if "j \<in> oixs (cs ! k)" "k < b" for j k
    using that h(5) [of k] holds_bound [of b st] by (cases "cs ! k") auto
  have sep: "oixs (Some u) \<inter> oixs (cs ! k) = {}" if "k < b" "k \<noteq> m" for k
    using u'(7) h(6) [of m k] bnd [of _ k] that h(4) by fastforce
  have "holds b st' (ANode i (cs[m := Some u]) p d)"
  proof (rule holds.holds_node)
    show "st' ! i = Node \<lparr>dn_children = map (map_option aix) (cs[m := Some u]), dn_prefix = p, dn_data = d\<rparr>"
      "i < length st'" using h(1) u'(3) by (auto simp: st')
  next
    fix k v assume k: "k < b" "cs[m := Some u] ! k = Some v"
    show "holds b st' v \<and> i \<notin> ixs v \<and> (\<exists>r. apath v = k # r)"
    proof (cases "k = m")
      case True
      then have "v = u" using k cs' by auto
      then show ?thesis using True iu pu holds_update [OF u'(1) iu] by (simp add: st')
    next
      case False
      then have v: "cs ! k = Some v" using k cs' by auto
      note hv = h(5) [OF k(1) v]
      have "holds b st' v"
      proof (rule holds_frame [of b st])
        fix j assume j: "j \<in> ixs v"
        then have "j < length st" "j \<noteq> i" "j \<notin> oixs (cs ! m)"
          using bnd [of j k] k(1) v hv h(6) [OF k(1) h(4) False] by auto
        then show "j < length st' \<and> st' ! j = st ! j" using u'(3,6) by (simp add: st')
      qed (use hv in blast)
      with hv show ?thesis by blast
    qed
  next
    fix k l assume "k < b" "l < b" "k \<noteq> l"
    then show "oixs (cs[m := Some u] ! k) \<inter> oixs (cs[m := Some u] ! l) = {}"
      using h(6) sep by (auto simp: cs')
  qed (use h in auto)
  moreover have "entry (ANode i (cs[m := Some u]) p d) q =
      (if q = p @ m # q2 then Some x else entry (ANode i cs p d) q)" for q
  proof (cases "prefix p q \<and> q \<noteq> p")
    case True
    then obtain l q' where q: "q = p @ l # q'" by (metis append_Nil2 list.exhaust prefix_def)
    have "entry (ANode i (cs[m := Some u]) p d) q = oentry (kid (cs[m := Some u]) l) (l # q')"
      by (simp add: q entry_ANode)
    also have "\<dots> = (if q = p @ m # q2 then Some x else oentry (kid cs l) (l # q'))"
      using h(3,4) u'(2) by (auto simp: kid_def cs' q)
    finally show ?thesis by (simp add: q entry_ANode)
  next
    case False
    then show ?thesis by (auto simp: entry_ANode prefix_def)
  qed
  moreover have "ixs (ANode i (cs[m := Some u]) p d) \<subseteq> ixs (ANode i cs p d) \<union> {length st..}"
  proof
    fix j assume "j \<in> ixs (ANode i (cs[m := Some u]) p d)"
    then consider "j = i" | k where "k < b" "j \<in> oixs (cs[m := Some u] ! k)"
      using h(3) by (auto simp: ixs_ANode)
    then show "j \<in> ixs (ANode i cs p d) \<union> {length st..}"
    proof cases
      case 2
      then have "j \<in> oixs (cs ! k) \<or> length st \<le> j \<or> j \<in> oixs (cs ! m)"
        using u'(7) by (auto simp: cs' split: if_splits)
      then show ?thesis using 2(1) h(3,4) by (auto simp: ixs_ANode)
    qed (simp add: ixs_ANode)
  qed
  moreover have "st' ! j = st ! j" if "j < length st" "j \<notin> ixs (ANode i cs p d)" for j
  proof -
    have "j \<noteq> i" "j \<notin> oixs (cs ! m)" using that(2) h(3,4) by (auto simp: ixs_ANode)
    then show ?thesis using u'(6) that(1) by (simp add: st')
  qed
  moreover have "ixs (ANode i cs p d) \<subseteq> ixs (ANode i (cs[m := Some u]) p d)"
  proof
    fix j assume "j \<in> ixs (ANode i cs p d)"
    then consider "j = i" | k where "k < b" "j \<in> oixs (cs ! k)"
      using h(3) by (auto simp: ixs_ANode)
    then show "j \<in> ixs (ANode i (cs[m := Some u]) p d)"
    proof cases
      case 2
      then have "j \<in> oixs (cs[m := Some u] ! k)" using u'(5) by (auto simp: cs')
      then show ?thesis using 2(1) h(3) by (auto simp: ixs_ANode)
    qed (simp add: ixs_ANode)
  qed
  moreover have "\<forall>j<length st'. length st \<le> j \<longrightarrow> is_node (st' ! j)"
    using u'(4) h(1) by (simp add: st')
  ultimately show ?thesis using u'(3) by (auto simp: ins_ok_def st')
qed

lemma insert_internal_correct:
  assumes "holds b (st :: 'a dnode list) t" "\<forall>x\<in>set path. x < b" "get_data (entry t path) s = Ok (x, s')"
  shows "\<exists>st' t'. insert_internal b st (Some (aix t)) path get_data s = (Ok (aix t', st', s') :: (_, 'e) res) \<and>
    ins_ok b st (Some t) path x st' t'"
  using assms
proof (induction t arbitrary: st path rule: atree.induct)
  case (ALeaf i p d)
  note h = ALeaf.prems(1) [unfolded holds_simps]
  obtain p' q' where pq: "p = get_common_prefix p path @ p'" "path = get_common_prefix p path @ q'"
    "p' = [] \<or> q' = [] \<or> hd p' \<noteq> hd q'" by (rule common_prefix_split)
  consider (same) "p = path" | (leaf) m q2 where "p' = []" "q' = m # q2" | (split) k r where "p' = k # r"
    using pq by (cases p'; cases q') auto
  then show ?case
  proof cases
    case same
    have "insert_internal b st (Some i) path get_data s =
        (Ok (i, st[i := Leaf \<lparr>dl_data = x, dl_prefix = p\<rparr>], s') :: (_, 'e) res)"
      using h ALeaf.prems(3) same by (simp add: insert_internal.simps(2))
    moreover have "ins_ok b st (Some (ALeaf i p d)) path x (st[i := Leaf \<lparr>dl_data = x, dl_prefix = p\<rparr>]) (ALeaf i p x)"
      using h same by (auto simp: ins_ok_def holds_simps)
    ultimately show ?thesis by (metis aix.simps(1))
  next
    case leaf
    have c: "get_common_prefix p path = p" "path = p @ m # q2" using pq leaf by auto
    have m: "\<forall>x\<in>set (m # q2). x < b" "m < b" using ALeaf.prems(2) c by auto
    define cs :: "'a atree option list" where "cs = replicate b None"
    define st1 where "st1 = st[i := Node \<lparr>dn_children = map (map_option aix) cs, dn_prefix = p, dn_data = Some d\<rparr>]"
    define u where "u = ALeaf (length st) (m # q2) x"
    define st2 where "st2 = st1[i := Node_None] @ [Leaf \<lparr>dl_data = x, dl_prefix = m # q2\<rparr>]"
    define st' where "st' = st2[i := Node \<lparr>dn_children = map (map_option aix) (cs[m := Some u]), dn_prefix = p, dn_data = Some d\<rparr>]"
    have "insert_internal b st (Some i) path get_data s = (Ok (i, st', s') :: (_, 'e) res)"
      using h ALeaf.prems(3) c m(2)
      by (simp add: insert_internal.simps(2) insert_new_leaf_def index_def update_def st'_def st2_def st1_def
          u_def cs_def map_update list_update_append)
    moreover have "holds b st1 (ANode i cs p (Some d))"
      using h by (auto simp: holds_simps st1_def cs_def)
    moreover have "ins_ok b (st1[i := Node_None]) (cs ! m) (m # q2) x st2 u"
      using m by (auto simp: ins_ok_def holds_simps st2_def st1_def u_def cs_def nth_append)
    ultimately have "ins_ok b st1 (Some (ANode i cs p (Some d))) (p @ m # q2) x st' (ANode i (cs[m := Some u]) p (Some d))"
      using ins_ok_child [OF _ m(1) _ st'_def] by blast
    moreover have "entry (ANode i cs p (Some d)) q = entry (ALeaf i p d) q" for q
      by (auto simp: entry_ANode cs_def kid_def)
    moreover have "ixs (ANode i cs p (Some d)) = {i}" by (auto simp: ixs_ANode cs_def)
    moreover have "st1 ! j = st ! j" if "j \<noteq> i" for j using that by (simp add: st1_def)
    ultimately have "ins_ok b st (Some (ALeaf i p d)) path x st' (ANode i (cs[m := Some u]) p (Some d))"
      using c(2) by (auto simp: ins_ok_def st1_def)
    with \<open>insert_internal b st (Some i) path get_data s = _\<close> show ?thesis by (metis aix.simps)
  next
    case split
    have "\<not> prefix p path" using pq split by (metis common_prefix_eq_iff append_self_conv list.distinct(1))
    then have "p \<noteq> path" by auto
    then have "get_data None s = Ok (x, s')" using ALeaf.prems(3) by simp
    then show ?thesis
      using insert_internal_split [OF ALeaf.prems(1) _ pq(2) _ ALeaf.prems(2), of k r get_data s x s'] pq split by auto
  qed
next
  case (ANode i cs p d)
  note h = ANode.prems(1) [unfolded holds_simps]
  obtain p' q' where pq: "p = get_common_prefix p path @ p'" "path = get_common_prefix p path @ q'"
    "p' = [] \<or> q' = [] \<or> hd p' \<noteq> hd q'" by (rule common_prefix_split)
  consider (same) "p = path" | (child) m q2 where "p' = []" "q' = m # q2" | (split) k r where "p' = k # r"
    using pq by (cases p'; cases q') auto
  then show ?case
  proof cases
    case same
    define n :: "'a dnode" where "n = Node \<lparr>dn_children = map (map_option aix) cs, dn_prefix = p, dn_data = Some x\<rparr>"
    have "insert_internal b st (Some i) path get_data s = (Ok (i, st[i := n], s') :: (_, 'e) res)"
      using h ANode.prems(3) same by (simp add: insert_internal.simps(2) entry_ANode n_def)
    moreover have "ins_ok b st (Some (ANode i cs p d)) path x (st[i := n]) (ANode i cs p (Some x))"
    proof -
      have "holds b (st[i := n]) (ANode i cs p (Some x))"
        using h by (auto simp: holds_simps n_def intro!: holds_update)
      then show ?thesis using same by (auto simp: ins_ok_def entry_ANode ixs_ANode)
    qed
    ultimately show ?thesis by (metis aix.simps(2))
  next
    case child
    have c: "get_common_prefix p path = p" "path = p @ m # q2" using pq child by auto
    have m: "\<forall>x\<in>set (m # q2). x < b" "m < b" "length cs = b" using ANode.prems(2) c h by auto
    let ?st1 = "st[i := Node_None]"
    have g: "get_data (oentry (cs ! m) (m # q2)) s = Ok (x, s')"
      using ANode.prems(3) c m by (simp add: entry_ANode kid_def)
    have "\<exists>st2 u. insert_internal b ?st1 (map_option aix (cs ! m)) (m # q2) get_data s =
        (Ok (aix u, st2, s') :: (_, 'e) res) \<and> ins_ok b ?st1 (cs ! m) (m # q2) x st2 u"
    proof (cases "cs ! m")
      case None
      then show ?thesis using g m insert_new_leaf_ok [OF m(1), of ?st1 x]
        by (auto simp: insert_new_leaf_def) metis
    next
      case (Some v)
      then have "holds b st v" "i \<notin> ixs v" using h m by blast+
      then have v: "holds b ?st1 v" by (rule holds_update)
      have "Some v \<in> set cs" using Some m by (metis nth_mem)
      then show ?thesis using ANode.IH [OF _ _ v m(1)] g Some by simp
    qed
    then obtain st2 u where u: "insert_internal b ?st1 (map_option aix (cs ! m)) (m # q2) get_data s =
        (Ok (aix u, st2, s') :: (_, 'e) res)" "ins_ok b ?st1 (cs ! m) (m # q2) x st2 u" by blast
    define st' where "st' = st2[i := Node \<lparr>dn_children = map (map_option aix) (cs[m := Some u]), dn_prefix = p, dn_data = d\<rparr>]"
    have "i < length st2" using u(2) h by (auto simp: ins_ok_def)
    then have "insert_internal b st (Some i) path get_data s = (Ok (i, st', s') :: (_, 'e) res)"
      using h c m u(1)
      by (simp add: insert_internal.simps(2) index_def update_def st'_def map_update)
    moreover have "ins_ok b st (Some (ANode i cs p d)) path x st' (ANode i (cs[m := Some u]) p d)"
      unfolding c(2) by (rule ins_ok_child [OF ANode.prems(1) m(1) u(2) st'_def])
    ultimately show ?thesis by (metis aix.simps(2))
  next
    case split
    have "\<not> prefix p path" using pq split by (metis common_prefix_eq_iff append_self_conv list.distinct(1))
    then have "entry (ANode i cs p d) path = None" by (auto simp: entry_ANode)
    then have "get_data None s = Ok (x, s')" using ANode.prems(3) by simp
    then show ?thesis
      using insert_internal_split [OF ANode.prems(1) _ pq(2) _ ANode.prems(2), of k r get_data s x s'] pq split by auto
  qed
qed

text \<open>When the callback fails, so does the insertion, with the callback's error.\<close>

lemma insert_internal_fail:
  assumes "holds b (st :: 'a dnode list) t" "\<forall>x\<in>set path. x < b" "\<And>y. get_data (entry t path) s \<noteq> Ok y"
  shows "insert_internal b st (Some (aix t)) path get_data s =
    and_then (get_data (entry t path) s) (\<lambda>_. Panic :: (_, 'e) res)"
  using assms
proof (induction t arbitrary: st path rule: atree.induct)
  case (ALeaf i p d)
  note h = ALeaf.prems(1) [unfolded holds_simps]
  show ?case
  proof (cases "p = path")
    case True
    then show ?thesis using h ALeaf.prems(3)
      by (cases "get_data (Some d) s") (auto simp: insert_internal.simps(2))
  next
    case False
    then show ?thesis using h ALeaf.prems(3)
      by (cases "get_data None s") (auto simp: insert_internal.simps(2) Let_def)
  qed
next
  case (ANode i cs p d)
  note h = ANode.prems(1) [unfolded holds_simps]
  show ?case
  proof (cases "p = path")
    case True
    then show ?thesis using h ANode.prems(3)
      by (cases "get_data d s") (auto simp: insert_internal.simps(2) entry_ANode)
  next
    case False
    show ?thesis
    proof (cases "prefix p path")
      case True
      then obtain m q2 where path: "path = p @ m # q2" using False by (metis append_Nil2 list.exhaust prefix_def)
      have c: "get_common_prefix p (p @ m # q2) = p" using True path common_prefix_eq_iff by metis
      have m: "\<forall>x\<in>set (m # q2). x < b" "m < b" "length cs = b" using ANode.prems(2) path h by auto
      have g: "entry (ANode i cs p d) path = oentry (cs ! m) (m # q2)" using path m by (simp add: entry_ANode kid_def)
      let ?r = "and_then (get_data (oentry (cs ! m) (m # q2)) s) (\<lambda>_. Panic) :: (nat \<times> 'a dnode list \<times> 's, 'e) res"
      have "insert_internal b (st[i := Node_None]) (map_option aix (cs ! m)) (m # q2) get_data s = ?r"
      proof (cases "cs ! m")
        case None
        then show ?thesis using ANode.prems(3) g by (cases "get_data None s") auto
      next
        case (Some v)
        then have "holds b st v" "i \<notin> ixs v" using h m by blast+
        then have v: "holds b (st[i := Node_None]) v" by (rule holds_update)
        have "Some v \<in> set cs" using Some m by (metis nth_mem)
        then show ?thesis using ANode.IH [OF _ _ v m(1)] ANode.prems(3) g Some by simp
      qed
      then show ?thesis using h False path c m g ANode.prems(3)
        by (cases "get_data (oentry (cs ! m) (m # q2)) s")
           (auto simp: insert_internal.simps(2) index_def)
    next
      case np: False
      then have "p \<noteq> get_common_prefix p path" using common_prefix_eq_iff by blast
      then show ?thesis using h False np ANode.prems(3)
        by (cases "get_data None s") (auto simp: insert_internal.simps(2) entry_ANode Let_def)
    qed
  qed
qed

section \<open>Lookup returns the entries at the prefixes of the path\<close>

definition hits :: "(nat list \<Rightarrow> 'a option) \<Rightarrow> nat list \<Rightarrow> ('a, nat) lookup_result list" where
  "hits m path = concat (map (\<lambda>p. case m p of None \<Rightarrow> [] | Some d \<Rightarrow> [\<lparr>lr_path = p, lr_value = d\<rparr>]) (prefixes path))"

definition hits_opt :: "(nat list \<Rightarrow> 'a option) \<Rightarrow> nat list \<Rightarrow> ('a, nat) lookup_result list option" where
  "hits_opt m path = (if hits m path = [] then None else Some (hits m path))"

lemma hits_empty: "(\<And>p. prefix p path \<Longrightarrow> m p = None) \<Longrightarrow> hits m path = []"
  by (auto simp: hits_def)

lemma hits_above:
  assumes "\<forall>q. m q \<noteq> None \<longrightarrow> prefix p q"
  shows "hits m (p @ r) =
    (case m p of None \<Rightarrow> [] | Some d \<Rightarrow> [\<lparr>lr_path = p, lr_value = d\<rparr>]) @
    concat (map (\<lambda>q. case m (p @ q) of None \<Rightarrow> [] | Some d \<Rightarrow> [\<lparr>lr_path = p @ q, lr_value = d\<rparr>]) (tl (prefixes r)))"
proof -
  have pp: "prefixes p = butlast (prefixes p) @ [p]"
    by (metis append_butlast_last_id prefixes_not_Nil last_prefixes)
  have "m q = None" if "q \<in> set (butlast (prefixes p))" for q
  proof (rule ccontr)
    assume "m q \<noteq> None"
    then have "prefix p q" using assms by blast
    moreover have "prefix q p" using that by (meson in_set_butlastD in_set_prefixes)
    ultimately have "q = p" by (simp add: prefix_order.antisym)
    moreover have "distinct (prefixes p)" by (rule distinct_prefixes)
    ultimately show False using that pp by (metis distinct_append disjoint_iff list.set_intros(1))
  qed
  then have z: "concat (map (\<lambda>p. case m p of None \<Rightarrow> [] | Some d \<Rightarrow> [\<lparr>lr_path = p, lr_value = d\<rparr>])
      (butlast (prefixes p))) = []"
    by auto
  have "hits m (p @ r) = concat (map (\<lambda>p. case m p of None \<Rightarrow> [] | Some d \<Rightarrow> [\<lparr>lr_path = p, lr_value = d\<rparr>])
      ((butlast (prefixes p) @ [p]) @ map ((@) p) (tl (prefixes r))))"
    unfolding hits_def prefixes_append pp [symmetric] ..
  then show ?thesis by (simp add: z comp_def del: concat_eq_Nil_conv)
qed

lemma extend_lookup_concat:
  "extend_lookup_res_paths (concat (map (\<lambda>q. case m q of None \<Rightarrow> [] | Some d \<Rightarrow> [\<lparr>lr_path = q, lr_value = d\<rparr>]) qs)) p =
    concat (map (\<lambda>q. case m q of None \<Rightarrow> [] | Some d \<Rightarrow> [\<lparr>lr_path = p @ q, lr_value = d\<rparr>]) qs)"
  by (induction qs) (auto simp: extend_lookup_res_paths_def split: option.splits)

lemma hits_child:
  assumes "\<forall>q. m q \<noteq> None \<longrightarrow> q \<noteq> []"
  shows "extend_lookup_res_paths (hits m r) p =
    concat (map (\<lambda>q. case m q of None \<Rightarrow> [] | Some d \<Rightarrow> [\<lparr>lr_path = p @ q, lr_value = d\<rparr>]) (tl (prefixes r)))"
proof -
  have "prefixes r = [] # tl (prefixes r)" by (cases r) auto
  then obtain ps where ps: "prefixes r = [] # ps" "tl (prefixes r) = ps" by simp
  moreover have "m [] = None" using assms by blast
  ultimately have "hits m r = concat (map (\<lambda>q. case m q of None \<Rightarrow> [] | Some d \<Rightarrow> [\<lparr>lr_path = q, lr_value = d\<rparr>]) (tl (prefixes r)))"
    by (simp add: hits_def)
  then show ?thesis by (simp only: extend_lookup_concat)
qed

lemma look_up_internal_correct:
  assumes "holds b (st :: 'a dnode list) t" "\<forall>x\<in>set path. x < b"
    and "length path + (if apath t = [] \<and> path \<noteq> [] then 2 else 1) \<le> fuel"
  shows "look_up_internal fuel st (Some (aix t)) path = (Ok (hits_opt (entry t) path) :: (_, 'e) res)"
  using assms
proof (induction t arbitrary: path fuel rule: atree.induct)
  case (ALeaf i p d)
  then obtain f where f: "fuel = Suc f" by (cases fuel) auto
  have "hits_opt (entry (ALeaf i p d)) path = (if prefix p path then Some [\<lparr>lr_path = p, lr_value = d\<rparr>] else None)"
  proof (cases "prefix p path")
    case True
    then obtain r where r: "path = p @ r" by (auto simp: prefix_def)
    have "hits (entry (ALeaf i p d)) (p @ r) = [\<lparr>lr_path = p, lr_value = d\<rparr>]"
    proof -
      have "\<forall>q\<in>set (tl (prefixes r)). q \<noteq> []" by (cases r) auto
      then show ?thesis by (subst hits_above [where p = p]) (auto split: if_splits)
    qed
    then show ?thesis using True by (simp add: hits_opt_def r)
  next
    case False
    then have "hits (entry (ALeaf i p d)) path = []" by (intro hits_empty) auto
    then show ?thesis using False by (simp add: hits_opt_def)
  qed
  then show ?case using ALeaf.prems(1) by (simp add: f holds_simps index_def common_prefix_eq_iff)
next
  case (ANode i cs p d)
  note h = ANode.prems(1) [unfolded holds_simps]
  obtain f where f: "fuel = Suc f" using ANode.prems(3) by (cases fuel) auto
  have above: "\<forall>q. entry (ANode i cs p d) q \<noteq> None \<longrightarrow> prefix p q"
    using entry_prefix [of "ANode i cs p d"] by auto
  show ?case
  proof (cases "prefix p path")
    case False
    then have "hits (entry (ANode i cs p d)) path = []"
      using above by (intro hits_empty) (metis prefix_order.trans)
    then show ?thesis using False h by (auto simp: f hits_opt_def index_def is_prefix_of_iff Let_def)
  next
    case True
    then obtain r where r: "path = p @ r" by (auto simp: prefix_def)
    note ha = hits_above [of "entry (ANode i cs p d)" p r, OF above]
    have ep: "entry (ANode i cs p d) p = d" by (simp add: entry_ANode)
    show ?thesis
    proof (cases r)
      case Nil
      then show ?thesis using h ha r True ep
        by (cases d) (auto simp: f hits_opt_def index_def is_prefix_of_iff Let_def)
    next
      case (Cons k r')
      have k: "k < b" "length cs = b" "\<forall>x\<in>set r. x < b" using ANode.prems(2) r Cons h by auto
      have ent: "entry (ANode i cs p d) (p @ q) = oentry (cs ! k) q" if "q \<in> set (tl (prefixes r))" for q
        using that k Cons by (auto simp: entry_ANode kid_def)
      have ne: "\<forall>q. oentry (cs ! k) q \<noteq> None \<longrightarrow> q \<noteq> []"
      proof (cases "cs ! k")
        case (Some u)
        then have "\<exists>r. apath u = k # r" using h k by blast
        then show ?thesis using Some entry_prefix [of u] by fastforce
      qed simp
      let ?here = "map_option (\<lambda>d. [\<lparr>lr_path = p, lr_value = d\<rparr>]) d"
      have hits: "hits (entry (ANode i cs p d)) path =
          (case ?here of None \<Rightarrow> [] | Some x \<Rightarrow> x) @ extend_lookup_res_paths (hits (oentry (cs ! k)) r) p"
      proof -
        have "map (\<lambda>q. case entry (ANode i cs p d) (p @ q) of None \<Rightarrow> [] | Some d \<Rightarrow> [\<lparr>lr_path = p @ q, lr_value = d\<rparr>])
              (tl (prefixes r)) =
            map (\<lambda>q. case oentry (cs ! k) q of None \<Rightarrow> [] | Some d \<Rightarrow> [\<lparr>lr_path = p @ q, lr_value = d\<rparr>])
              (tl (prefixes r))"
          using ent by (intro map_cong refl) (simp only:)
        then have "hits (entry (ANode i cs p d)) path =
            (case d of None \<Rightarrow> [] | Some d \<Rightarrow> [\<lparr>lr_path = p, lr_value = d\<rparr>]) @
            extend_lookup_res_paths (hits (oentry (cs ! k)) r) p"
          using ha ep hits_child [OF ne, of r p] r by (simp only:)
        then show ?thesis by (cases d) simp_all
      qed
      have "look_up_internal f st (map_option aix (cs ! k)) r = (Ok (hits_opt (oentry (cs ! k)) r) :: (_, 'e) res)"
      proof (cases "cs ! k")
        case None
        obtain f' where "f = Suc f'" using ANode.prems(3) f r Cons by (cases f) (auto split: if_splits)
        then show ?thesis using None by (simp add: hits_opt_def hits_empty)
      next
        case (Some u)
        then have u: "holds b st u" "apath u \<noteq> []" using h k by fastforce+
        have "Some u \<in> set cs" using Some k by (metis nth_mem)
        moreover have "length r + 1 \<le> f" using ANode.prems(3) r f Cons by (cases p) auto
        ultimately show ?thesis using ANode.IH [OF _ _ u(1) k(3)] Some u(2) by (simp add: oentry_def [abs_def])
      qed
      then show ?thesis using h r Cons k hits
        by (cases d)
           (auto simp: f index_def is_prefix_of_iff Let_def hits_opt_def extend_lookup_res_paths_def)
    qed
  qed
qed

section \<open>Dumping and restoring\<close>

record 'a digit_node_data =
  nd_data :: "'a option"
  nd_prefix :: "nat list"
  nd_children :: "nat option list option"

record 'a digit_trie_dump =
  dd_node_data :: "'a digit_node_data list"
  dd_root :: "nat option"
  dd_base :: nat

fun node_get_data :: "'a dnode \<Rightarrow> ('a digit_node_data, 'e) res" where
  "node_get_data (Leaf l) = Ok \<lparr>nd_data = Some (dl_data l), nd_prefix = dl_prefix l, nd_children = None\<rparr>"
| "node_get_data (Node n) = Ok \<lparr>nd_data = dn_data n, nd_prefix = dn_prefix n, nd_children = Some (dn_children n)\<rparr>"
| "node_get_data Node_None = Panic"

definition node_from_data :: "'a digit_node_data \<Rightarrow> ('a dnode, 'e) res" where
  "node_from_data data =
     (case nd_children data of
        Some c \<Rightarrow> Ok (Node \<lparr>dn_children = c, dn_prefix = nd_prefix data, dn_data = nd_data data\<rparr>)
      | None \<Rightarrow> and_then (unwrap (nd_data data)) (\<lambda>d. Ok (Leaf \<lparr>dl_data = d, dl_prefix = nd_prefix data\<rparr>)))"

definition digit_trie_dump :: "'a digit_trie \<Rightarrow> ('a digit_trie_dump, 'e) res" where
  "digit_trie_dump trie =
     and_then (traverse node_get_data (dt_store trie)) (\<lambda>nd.
       Ok \<lparr>dd_node_data = nd, dd_root = dt_root trie, dd_base = dt_base trie\<rparr>)"

definition digit_trie_from_dump :: "'a digit_trie_dump \<Rightarrow> ('a digit_trie, 'e) res" where
  "digit_trie_from_dump dump =
     and_then (traverse node_from_data (dd_node_data dump)) (\<lambda>store.
       Ok \<lparr>dt_store = store, dt_root = dd_root dump, dt_base = dd_base dump\<rparr>)"

lemma node_from_get_data: "node_get_data n = (Ok d :: (_, 'e) res) \<Longrightarrow> node_from_data d = (Ok n :: (_, 'e) res)"
  by (cases n) (auto simp: node_from_data_def)

lemma traverse_inverse:
  assumes "\<And>x y. x \<in> set xs \<Longrightarrow> f x = (Ok y :: (_, 'e) res) \<Longrightarrow> g y = (Ok x :: (_, 'e) res)" "traverse f xs = Ok ys"
  shows "traverse g ys = Ok xs"
  using assms by (induction xs arbitrary: ys) (auto simp: res_simps)

section \<open>The trie as a map\<close>

definition dt_path :: "nat \<Rightarrow> nat list \<Rightarrow> bool" where
  "dt_path b p \<longleftrightarrow> list_all (\<lambda>x. x < b) p"

text \<open>The datum at a path, read off a lookup.\<close>

definition dt_get :: "'a digit_trie \<Rightarrow> nat list \<Rightarrow> 'a option" where
  "dt_get trie p =
     (case (digit_trie_look_up trie p :: (_, unit) res) of
        Ok (Some rs) \<Rightarrow>
          (if dt_path (dt_base trie) p
           then map_option lr_value (find (\<lambda>r. lr_path r = p) rs) else None)
      | _ \<Rightarrow> None)"

text \<open>The invariant of a trie for base \<open>b\<close>.\<close>

definition dt_inv :: "nat \<Rightarrow> 'a digit_trie \<Rightarrow> bool" where
  "dt_inv b trie \<longleftrightarrow> dt_base trie = b \<and> list_all is_node (dt_store trie) \<and>
     (\<forall>i. dt_root trie = Some i \<longrightarrow> (\<exists>t. aix t = i \<and> holds b (dt_store trie) t))"

definition dt_tree :: "nat \<Rightarrow> 'a digit_trie \<Rightarrow> 'a atree option \<Rightarrow> bool" where
  "dt_tree b trie ot \<longleftrightarrow> dt_base trie = b \<and> list_all is_node (dt_store trie) \<and> map_option aix ot = dt_root trie \<and>
     (\<forall>t. ot = Some t \<longrightarrow> holds b (dt_store trie) t)"

lemma dt_inv_tree: "dt_inv b trie \<longleftrightarrow> (\<exists>ot. dt_tree b trie ot)"
proof
  assume "dt_inv b trie"
  then show "\<exists>ot. dt_tree b trie ot"
    by (cases "dt_root trie") (force simp: dt_inv_def dt_tree_def)+
qed (force simp: dt_inv_def dt_tree_def)

lemma look_up_tree:
  assumes "dt_tree b trie ot" "dt_path b p"
  shows "digit_trie_look_up trie p = (Ok (hits_opt (oentry ot) p) :: (_, 'e) res)"
proof (cases ot)
  case None
  then show ?thesis using assms
    by (auto simp: digit_trie_look_up_def dt_tree_def hits_opt_def hits_empty add.commute)
next
  case (Some t)
  then have h: "holds b (dt_store trie) t" "dt_root trie = Some (aix t)" using assms by (auto simp: dt_tree_def)
  then have "0 < length (dt_store trie)" using holds_aix by fastforce
  then obtain n where "length (dt_store trie) = Suc n" by (cases "length (dt_store trie)") auto
  then have "length p + (if apath t = [] \<and> p \<noteq> [] then 2 else 1) \<le> (length (dt_store trie) + 1) * (length p + 1)"
    by simp
  then have "look_up_internal ((length (dt_store trie) + 1) * (length p + 1)) (dt_store trie) (Some (aix t)) p =
      (Ok (hits_opt (entry t) p) :: (_, 'e) res)"
    using assms(2) by (intro look_up_internal_correct [OF h(1)]) (auto simp: dt_path_def list_all_iff)
  then show ?thesis using h(2) Some by (simp only: digit_trie_look_up_def oentry_def [abs_def] option.case)
qed

lemma holds_nodes: "holds b st t \<Longrightarrow> j \<in> ixs t \<Longrightarrow> is_node (st ! j)"
proof (induction t rule: holds.induct)
  case (holds_node i cs p d)
  then show ?case by (auto simp: ixs_ANode oixs_def split: option.splits)
qed simp

lemma entry_digits: "holds b st t \<Longrightarrow> entry t q = Some d \<Longrightarrow> \<forall>x\<in>set q. x < b"
proof (induction t arbitrary: q rule: holds.induct)
  case (holds_node i cs p d')
  show ?case
  proof (cases "q = p")
    case False
    then have pq: "prefix p q" "oentry (kid cs (q ! length p)) (drop (length p) q) = Some d"
      using holds_node.prems by (auto simp: entry_ANode split: if_splits)
    then obtain u where u: "cs ! (q ! length p) = Some u" "q ! length p < b" "entry u (drop (length p) q) = Some d"
      using holds_node.hyps(4) by (auto simp: kid_def oentry_def split: if_splits option.splits)
    then have "\<forall>x\<in>set (drop (length p) q). x < b" using holds_node.IH by blast
    moreover have "q = p @ drop (length p) q" using pq(1) by (auto simp: prefix_def)
    ultimately show ?thesis using holds_node.hyps(3) by (metis Un_iff set_append)
  qed (use holds_node in simp)
qed (simp split: if_splits)

lemma find_hits: "map_option lr_value (find (\<lambda>r. lr_path r = p) (hits m q)) = (if prefix p q then m p else None)"
proof -
  have "map_option lr_value (find (\<lambda>r. lr_path r = p)
      (concat (map (\<lambda>p. case m p of None \<Rightarrow> [] | Some d \<Rightarrow> [\<lparr>lr_path = p, lr_value = d\<rparr>]) qs))) =
      (if p \<in> set qs then m p else None)" for qs
    by (induction qs) (auto split: option.splits if_splits)
  then show ?thesis by (simp add: hits_def)
qed

lemma dt_get_tree:
  assumes "dt_tree b trie ot"
  shows "dt_get trie = oentry ot"
proof
  fix p
  have b: "dt_base trie = b" using assms by (simp add: dt_tree_def)
  show "dt_get trie p = oentry ot p"
  proof (cases "dt_path b p")
    case True
    then have l: "digit_trie_look_up trie p = (Ok (hits_opt (oentry ot) p) :: (_, unit) res)"
      using look_up_tree [OF assms] by blast
    show ?thesis using find_hits [of p "oentry ot" p] True b
      by (auto simp: dt_get_def l hits_opt_def)
  next
    case False
    have "oentry ot p = None"
    proof (cases ot)
      case (Some t)
      then have "holds b (dt_store trie) t" using assms by (simp add: dt_tree_def)
      then show ?thesis using False Some entry_digits [of b "dt_store trie" t p]
        by (cases "entry t p") (auto simp: dt_path_def list_all_iff)
    qed simp
    then show ?thesis using False b by (auto simp: dt_get_def split: res.splits option.splits)
  qed
qed

lemma insert_tree:
  assumes "dt_tree b trie ot" "dt_path b p" "p \<noteq> []" "f (oentry ot p) s = Ok (x, s')"
  shows "\<exists>trie' ot'. digit_trie_insert trie p f s = (Ok (trie', s') :: (_, 'e) res) \<and>
    dt_tree b trie' ot' \<and> oentry ot' = (oentry ot)(p \<mapsto> x)"
proof -
  have dig: "\<forall>x\<in>set p. x < b" using assms(2) by (simp add: dt_path_def list_all_iff)
  have tree: "dt_base trie = b" "list_all is_node (dt_store trie)" "map_option aix ot = dt_root trie"
    "\<forall>t. ot = Some t \<longrightarrow> holds b (dt_store trie) t"
    using assms(1) by (auto simp: dt_tree_def)
  have "\<exists>st' t'. insert_internal b (dt_store trie) (map_option aix ot) p f s = (Ok (aix t', st', s') :: (_, 'e) res) \<and>
      ins_ok b (dt_store trie) ot p x st' t'"
  proof (cases ot)
    case None
    then show ?thesis using assms(4) insert_new_leaf_ok [OF dig, of "dt_store trie" x]
      by (auto simp: insert_new_leaf_def) metis
  next
    case (Some t)
    then show ?thesis using insert_internal_correct [OF _ dig, of "dt_store trie" t f s x s'] assms(4) tree
      by simp
  qed
  then obtain st' t' where i: "insert_internal b (dt_store trie) (map_option aix ot) p f s = (Ok (aix t', st', s') :: (_, 'e) res)"
    "ins_ok b (dt_store trie) ot p x st' t'" by blast
  define trie' where "trie' = trie\<lparr>dt_store := st', dt_root := Some (aix t')\<rparr>"
  have nodes: "is_node (st' ! j)" if "j < length st'" for j
  proof (cases "j \<in> oixs ot")
    case True
    then show ?thesis using i(2) holds_nodes [of b st' t' j] by (auto simp: ins_ok_def)
  next
    case False
    then show ?thesis using i(2) tree(2) that by (auto simp: ins_ok_def list_all_length not_less)
  qed
  have "\<not> list_ex (\<lambda>x. dt_base trie < x) p" using dig tree(1) by (auto simp: list_ex_iff)
  then have "digit_trie_insert trie p f s = (Ok (trie', s') :: (_, 'e) res)"
    using i(1) assms(3) tree by (simp add: digit_trie_insert_def trie'_def)
  moreover have "dt_tree b trie' (Some t')"
    using i(2) nodes tree(1) by (auto simp: dt_tree_def trie'_def ins_ok_def list_all_length)
  moreover have "oentry (Some t') = (oentry ot)(p \<mapsto> x)"
    using i(2) by (auto simp: ins_ok_def)
  ultimately show ?thesis by blast
qed

lemma insert_tree_fail:
  assumes "dt_tree b trie ot" "dt_path b p" "p \<noteq> []" "\<And>y. f (oentry ot p) s \<noteq> Ok y"
  shows "digit_trie_insert trie p f s = and_then (f (oentry ot p) s) (\<lambda>_. Panic :: (_, 'e) res)"
proof -
  have dig: "\<forall>x\<in>set p. x < b" using assms(2) by (simp add: dt_path_def list_all_iff)
  have tree: "dt_base trie = b" "map_option aix ot = dt_root trie"
    "\<forall>t. ot = Some t \<longrightarrow> holds b (dt_store trie) t"
    using assms(1) by (auto simp: dt_tree_def)
  have "insert_internal b (dt_store trie) (map_option aix ot) p f s =
      and_then (f (oentry ot p) s) (\<lambda>_. Panic :: (_, 'e) res)"
  proof (cases ot)
    case None
    then show ?thesis using assms(4) by (cases "f None s") auto
  next
    case (Some t)
    then show ?thesis using insert_internal_fail [OF _ dig, of "dt_store trie" t f s] assms(4) tree by simp
  qed
  moreover have "\<not> list_ex (\<lambda>x. dt_base trie < x) p" using dig tree(1) by (auto simp: list_ex_iff)
  ultimately show ?thesis
    using assms(3,4) tree by (cases "f (oentry ot p) s") (auto simp: digit_trie_insert_def)
qed

section \<open>The interface of a prefix map\<close>

text \<open>
  What the oracle tries rely on: an insertion at a valid path updates the map there and fails
  only as the callback does, and a lookup returns the entries at the prefixes of a path.
\<close>

locale prefix_map =
  fixes inv :: "'t \<Rightarrow> bool"
    and get :: "'t \<Rightarrow> nat list \<Rightarrow> 'a option"
    and ok :: "nat list \<Rightarrow> bool"
    and ins :: "'t \<Rightarrow> nat list \<Rightarrow> ('a, 's, 'e) get_data \<Rightarrow> 's \<Rightarrow> ('t \<times> 's, 'e) res"
    and look :: "'t \<Rightarrow> nat list \<Rightarrow> (('a, nat) lookup_result list option, 'e) res"
  assumes ins_Ok: "inv t \<Longrightarrow> ok p \<Longrightarrow> p \<noteq> [] \<Longrightarrow> f (get t p) s = Ok (x, s') \<Longrightarrow>
      \<exists>t'. ins t p f s = Ok (t', s') \<and> inv t' \<and> get t' = (get t)(p \<mapsto> x)"
    and ins_fail: "inv t \<Longrightarrow> ok p \<Longrightarrow> p \<noteq> [] \<Longrightarrow> (\<And>y. f (get t p) s \<noteq> Ok y) \<Longrightarrow>
      ins t p f s = and_then (f (get t p) s) (\<lambda>_. Panic)"
    and look_hits: "inv t \<Longrightarrow> ok p \<Longrightarrow> look t p = Ok (hits_opt (get t) p)"
begin

text \<open>Insertions one after the other, with callbacks that always succeed.\<close>

fun puts :: "(nat list \<Rightarrow> 's \<Rightarrow> 'a) \<Rightarrow> (nat list \<Rightarrow> 's \<Rightarrow> 's) \<Rightarrow> nat list list \<Rightarrow> 's
    \<Rightarrow> (nat list \<Rightarrow> 'a option) \<Rightarrow> nat list \<Rightarrow> 'a option" where
  "puts v n [] s m = m"
| "puts v n (p # ps) s m = puts v n ps (n p s) (m(p \<mapsto> v p s))"

lemma ins_all:
  assumes "inv t" "\<And>p. p \<in> set ps \<Longrightarrow> ok p \<and> p \<noteq> []"
    and "\<And>p old s. p \<in> set ps \<Longrightarrow> f p old s = Ok (v p s, n p s)"
  shows "\<exists>t'. fold_res (\<lambda>p (t, s). ins t p (f p) s) ps (t, s) = Ok (t', fold n ps s) \<and> inv t' \<and>
    get t' = puts v n ps s (get t)"
  using assms
proof (induction ps arbitrary: t s)
  case (Cons p ps)
  obtain t1 where t1: "ins t p (f p) s = Ok (t1, n p s)" "inv t1" "get t1 = (get t)(p \<mapsto> v p s)"
    using ins_Ok [of t p "f p" s "v p s" "n p s"] Cons.prems by auto
  have "\<exists>t'. fold_res (\<lambda>p (t, s). ins t p (f p) s) ps (t1, n p s) = Ok (t', fold n ps (n p s)) \<and> inv t' \<and>
      get t' = puts v n ps (n p s) (get t1)"
    using Cons.prems by (intro Cons.IH t1(2)) auto
  then show ?case using t1 by auto
qed simp

end

lemma dt_ins_Ok:
  "dt_inv b t \<Longrightarrow> dt_path b p \<Longrightarrow> p \<noteq> [] \<Longrightarrow> f (dt_get t p) s = Ok (x, s') \<Longrightarrow>
   \<exists>t'. digit_trie_insert t p f s = (Ok (t', s') :: (_, 'e) res) \<and> dt_inv b t' \<and> dt_get t' = (dt_get t)(p \<mapsto> x)"
  using insert_tree [of b t _ p f s x s'] dt_get_tree unfolding dt_inv_tree by metis

lemma dt_ins_fail:
  "dt_inv b t \<Longrightarrow> dt_path b p \<Longrightarrow> p \<noteq> [] \<Longrightarrow> (\<And>y. f (dt_get t p) s \<noteq> Ok y) \<Longrightarrow>
   digit_trie_insert t p f s = and_then (f (dt_get t p) s) (\<lambda>_. Panic :: (_, 'e) res)"
  using insert_tree_fail [of b t _ p f s] dt_get_tree unfolding dt_inv_tree by metis

lemma dt_look_hits:
  "dt_inv b t \<Longrightarrow> dt_path b p \<Longrightarrow> digit_trie_look_up t p = (Ok (hits_opt (dt_get t) p) :: (_, 'e) res)"
  using look_up_tree [of b t _ p] dt_get_tree unfolding dt_inv_tree by metis

interpretation dt: prefix_map "dt_inv b" dt_get "dt_path b" digit_trie_insert digit_trie_look_up for b
  by unfold_locales (rule dt_ins_Ok dt_ins_fail dt_look_hits; assumption)+

lemma dt_inv_new: "dt_inv b (digit_trie_new b)"
  by (simp add: dt_inv_def digit_trie_new_def)

lemma dt_get_new: "dt_get (digit_trie_new b) = Map.empty"
  by (rule ext) (simp add: dt_get_def digit_trie_look_up_def digit_trie_new_def)

text \<open>The dump of a trie restores it.\<close>

lemma digit_trie_from_dump_dump:
  assumes "dt_inv b t"
  shows "\<exists>d. digit_trie_dump t = (Ok d :: (_, 'e) res) \<and> digit_trie_from_dump d = (Ok t :: (_, 'e) res)"
proof -
  have nodes: "\<forall>n\<in>set (dt_store t). is_node n" using assms by (simp add: dt_inv_def list_all_iff)
  define g where "g n = (case n of Leaf l \<Rightarrow> \<lparr>nd_data = Some (dl_data l), nd_prefix = dl_prefix l, nd_children = None\<rparr>
    | Node n \<Rightarrow> \<lparr>nd_data = dn_data n, nd_prefix = dn_prefix n, nd_children = Some (dn_children n)\<rparr>
    | Node_None \<Rightarrow> undefined)" for n :: "'a dnode"
  have "traverse node_get_data (dt_store t) = (Ok (map g (dt_store t)) :: (_, 'e) res)"
    using nodes by (intro traverse_all_Ok) (auto simp: g_def split: node.splits elim: is_node.elims)
  moreover from this have "traverse node_from_data (map g (dt_store t)) = (Ok (dt_store t) :: (_, 'e) res)"
    by (rule traverse_inverse [rotated]) (rule node_from_get_data)
  ultimately show ?thesis by (simp add: digit_trie_dump_def digit_trie_from_dump_def)
qed

section \<open>Properties\<close>

text \<open>
  C18. Inserting into a well-formed trie: at a non-empty path of digits below the base,
  \<open>insert\<close> calls the callback once with the datum now at the path; if the callback succeeds,
  the new trie is well formed and differs from the old one as a map at this path only, and if
  the callback returns an error, so does \<open>insert\<close>.
\<close>

theorem digit_trie_insert_correct:
  assumes "dt_inv b t" "list_all (\<lambda>x. x < b) p" "p \<noteq> []"
  shows "(\<forall>x s'. f (dt_get t p) s = Ok (x, s') \<longrightarrow>
      (\<exists>t'. digit_trie_insert t p f s = (Ok (t', s') :: (_, 'e) res) \<and> dt_inv b t' \<and>
        dt_get t' = (dt_get t)(p \<mapsto> x))) \<and>
    (\<forall>e. f (dt_get t p) s = Err e \<longrightarrow> digit_trie_insert t p f s = Err e)"
  using dt_ins_Ok [of b t p f s] dt_ins_fail [of b t p f s] assms by (auto simp: dt_path_def)

lemma digit_trie_insert_correct_witness:
  "\<exists>t'. digit_trie_insert (digit_trie_new 10) [1, 2] (\<lambda>_ s. Ok (5 :: nat, s + 1)) (0 :: nat) =
      (Ok (t', 1) :: (_, unit) res) \<and>
    dt_inv 10 t' \<and> dt_get t' = (dt_get (digit_trie_new 10))([1, 2] \<mapsto> 5)"
  using digit_trie_insert_correct [of 10 "digit_trie_new 10" "[1, 2]" "\<lambda>_ s. Ok (5 :: nat, s + 1)" "0 :: nat"]
  by (simp add: dt_inv_new)

text \<open>
  Looking up a path of digits below the base in a well-formed trie returns all entries
  whose path is the path or a prefix of it, the shortest first, and \<open>None\<close> when there are
  none.
\<close>

theorem digit_trie_look_up_prefixes:
  assumes "dt_inv b t" "list_all (\<lambda>x. x < b) q"
  shows "\<exists>rs. digit_trie_look_up t q = (Ok (if rs = [] then None else Some rs) :: (_, 'e) res) \<and>
    map lr_path rs = filter (\<lambda>p. dt_get t p \<noteq> None) (prefixes q) \<and>
    map (\<lambda>r. Some (lr_value r)) rs = map (\<lambda>r. dt_get t (lr_path r)) rs"
proof -
  have "map lr_path (hits m q) = filter (\<lambda>p. m p \<noteq> None) (prefixes q) \<and>
      map (\<lambda>r. Some (lr_value r)) (hits m q) = map (\<lambda>r. m (lr_path r)) (hits m q)" for m :: "nat list \<Rightarrow> 'a option"
  proof -
    have "map lr_path (concat (map (\<lambda>p. case m p of None \<Rightarrow> [] | Some d \<Rightarrow> [\<lparr>lr_path = p, lr_value = d\<rparr>]) qs)) =
        filter (\<lambda>p. m p \<noteq> None) qs" for qs
      by (induction qs) (auto split: option.splits)
    then show ?thesis by (auto simp: hits_def split: option.splits)
  qed
  then show ?thesis using dt_look_hits [of b t q] assms
    by (intro exI [of _ "hits (dt_get t) q"]) (auto simp: dt_path_def hits_opt_def)
qed

lemma digit_trie_look_up_prefixes_witness:
  "\<exists>rs. digit_trie_look_up (digit_trie_new 2 :: nat digit_trie) [1, 0] =
      (Ok (if rs = [] then None else Some rs) :: (_, unit) res) \<and>
    map lr_path rs = filter (\<lambda>p. dt_get (digit_trie_new 2 :: nat digit_trie) p \<noteq> None) (prefixes [1, 0]) \<and>
    map (\<lambda>r. Some (lr_value r)) rs = map (\<lambda>r. dt_get (digit_trie_new 2) (lr_path r)) rs"
  by (rule digit_trie_look_up_prefixes [OF dt_inv_new]) simp

text \<open>
  A trie restored from its dump is the same trie: for every well-formed trie the dump
  succeeds and \<open>from_dump\<close> gives the trie back, arena and all.
\<close>

theorem digit_trie_dump_roundtrip:
  assumes "dt_inv b t"
  shows "\<exists>d. digit_trie_dump t = (Ok d :: (_, 'e) res) \<and> digit_trie_from_dump d = (Ok t :: (_, 'e) res)"
  using assms by (rule digit_trie_from_dump_dump)

lemma digit_trie_dump_roundtrip_witness:
  "\<exists>d. digit_trie_dump (digit_trie_new 2 :: nat digit_trie) = (Ok d :: (_, unit) res) \<and>
    digit_trie_from_dump d = (Ok (digit_trie_new 2) :: (_, unit) res)"
  by (rule digit_trie_dump_roundtrip [OF dt_inv_new])

text \<open>
  The check of the path is off by one: a digit equal to the base passes it.  In base 2 the
  path 2 is inserted, and the next insertion, at the valid path 0, panics.
\<close>

theorem digit_trie_insert_digit_base:
  "\<exists>t. digit_trie_insert (digit_trie_new 2) [2] (\<lambda>_ s. Ok (7 :: nat, s)) () = (Ok (t, ()) :: (_, unit) res) \<and>
    digit_trie_insert t [0] (\<lambda>_ s. Ok (8, s)) () = (Panic :: (_, unit) res)"
  by (simp add: digit_trie_insert_def digit_trie_new_def insert_new_leaf_def insert_internal.simps(2)
      get_common_prefix_def update_def index_def)

end
