(* ===== verification/Multi_Oracle.thy ===== *)
theory Multi_Oracle
  imports Digit_Decomposition "HOL-Library.List_Lexorder" "HOL-Library.Word"
begin

text \<open>
  \<open>dlc-trie/src/multi_oracle.rs\<close>: given a prefix of the outcome of one oracle, the prefixes of
  the outcomes of the other oracles that are close enough to count as agreeing.  A combination
  has one prefix per oracle.  The differences below \<open>2 ^ min_support_exp\<close> have to be covered, and
  differences from \<open>2 ^ max_error_exp\<close> must not be, unless all outcomes share the prefix.
  Slices are compared in the lexicographic order, which \<open>List_Lexorder\<close> makes the order of lists.
\<close>

unbundle bit_operations_syntax

section \<open>Arithmetic of the code\<close>

definition ushl :: "nat \<Rightarrow> nat \<Rightarrow> (nat, 'e) res" where
  "ushl a k = (if k < 64 then Ok (a * 2 ^ k mod usize_bound) else Panic)"

definition ushr :: "nat \<Rightarrow> nat \<Rightarrow> (nat, 'e) res" where
  "ushr a k = (if k < 64 then Ok (a div 2 ^ k) else Panic)"

text \<open>\<open>0..(1 << k)\<close> at the type \<open>i32\<close>: \<open>1 << 31\<close> is negative.\<close>

definition i32_shl_range :: "nat \<Rightarrow> (nat list, 'e) res" where
  "i32_shl_range k = (if k < 31 then Ok [0..<2 ^ k] else if k = 31 then Ok [] else Panic)"

text \<open>\<open>Result::unwrap\<close>, and keeping the values that are \<open>Ok\<close>.\<close>

definition unwrap_ok :: "('a, 'e) res \<Rightarrow> ('a, 'f) res" where
  "unwrap_ok r = (case r of Ok x \<Rightarrow> Ok x | _ \<Rightarrow> Panic)"

definition push_if_ok :: "('a, 'e) res \<Rightarrow> ('a list, 'f) res" where
  "push_if_ok r = (case r of Ok x \<Rightarrow> Ok [x] | Err _ \<Rightarrow> Ok [] | Panic \<Rightarrow> Panic)"

section \<open>Prefixes\<close>

definition pre_pad_vec :: "nat list \<Rightarrow> nat \<Rightarrow> (nat list, 'e) res" where
  "pre_pad_vec inp expected_size =
     (if length inp = expected_size then Ok inp
      else and_then (usub expected_size (length inp)) (\<lambda>k. Ok (replicate k 0 @ inp)))"

definition adjust_prefix_size :: "nat list \<Rightarrow> nat \<Rightarrow> nat \<Rightarrow> (nat list, unit) res" where
  "adjust_prefix_size pre nb_digits suffix_len =
     and_then (usub nb_digits suffix_len) (\<lambda>expected_len.
       if length pre \<le> expected_len then pre_pad_vec pre expected_len
       else if list_all (\<lambda>x. x = 0) (take (length pre - expected_len) pre)
            then Ok (drop (length pre - expected_len) pre)
            else Err ())"

definition compute_interval_from_prefix :: "nat list \<Rightarrow> nat \<Rightarrow> nat \<Rightarrow> (nat \<times> nat, 'e) res" where
  "compute_interval_from_prefix pre num_digits base =
     and_then (usub num_digits (length pre)) (\<lambda>suffix_len.
     and_then (compose_value (pre @ replicate suffix_len 0) base) (\<lambda>start.
     and_then (compose_value (pre @ replicate suffix_len (base - 1)) base) (\<lambda>end'.
       Ok (start, end'))))"

definition num_to_vec :: "nat \<Rightarrow> nat \<Rightarrow> nat \<Rightarrow> nat \<Rightarrow> (nat list, 'e) res" where
  "num_to_vec inp nb_digits ignored_digits base =
     and_then (decompose_value inp base nb_digits) (\<lambda>decomposed.
     and_then (usub (length decomposed) ignored_digits) (\<lambda>to_take. Ok (take to_take decomposed)))"

definition compute_min_support_covering_prefix :: "nat \<Rightarrow> nat \<Rightarrow> nat \<Rightarrow> nat \<Rightarrow> (nat list, 'e) res" where
  "compute_min_support_covering_prefix start end' min_support min_nb_digits =
     and_then (usub start min_support) (\<lambda>left_bound.
     and_then (uadd end' min_support) (\<lambda>right_bound.
     and_then (decompose_value left_bound 2 min_nb_digits) (\<lambda>ls.
     and_then (decompose_value right_bound 2 min_nb_digits) (\<lambda>rs.
       Ok (map fst (takeWhile (\<lambda>(x, y). x = y) (zip ls rs)))))))"

definition split_at :: "'a list \<Rightarrow> nat \<Rightarrow> ('a list \<times> 'a list, 'e) res" where
  "split_at xs k = (if k \<le> length xs then Ok (take k xs, drop k xs) else Panic)"

definition compute_left_covering_prefix :: "nat \<Rightarrow> nat \<Rightarrow> nat \<Rightarrow> nat \<Rightarrow> (nat list, 'e) res" where
  "compute_left_covering_prefix start max_error_exp min_support nb_digits =
     and_then (usub start min_support) (\<lambda>left_bound.
     and_then (decompose_value left_bound 2 nb_digits) (\<lambda>ds.
     and_then (usub nb_digits max_error_exp) (\<lambda>k.
     and_then (split_at ds k) (\<lambda>(pre, suffix).
       Ok (pre @ takeWhile (\<lambda>x. x = 1) suffix)))))"

definition compute_right_covering_prefix :: "nat \<Rightarrow> nat \<Rightarrow> nat \<Rightarrow> nat \<Rightarrow> (nat list, 'e) res" where
  "compute_right_covering_prefix end' max_error_exp min_support nb_digits =
     and_then (uadd end' min_support) (\<lambda>left_bound.
     and_then (decompose_value left_bound 2 nb_digits) (\<lambda>ds.
     and_then (usub nb_digits max_error_exp) (\<lambda>k.
     and_then (split_at ds k) (\<lambda>(pre, suffix).
       Ok (pre @ takeWhile (\<lambda>x. x = 0) suffix)))))"

section \<open>Combinations\<close>

definition single_covering_prefix_combinations ::
  "nat list \<Rightarrow> nat list \<Rightarrow> nat list \<Rightarrow> nat \<Rightarrow> (nat list list, 'e) res" where
  "single_covering_prefix_combinations main_outcome_prefix secondary_outcomes_prefix oracle_digits_infos suffix_len =
     and_then (traverse (\<lambda>nb_digits.
         and_then (usub (length main_outcome_prefix) (length secondary_outcomes_prefix)) (\<lambda>d.
         and_then (uadd d suffix_len) (\<lambda>s.
           unwrap_ok (adjust_prefix_size secondary_outcomes_prefix nb_digits s)))) (drop 1 oracle_digits_infos)) (\<lambda>secondary.
     and_then (index oracle_digits_infos 0) (\<lambda>nb0.
     and_then (unwrap_ok (adjust_prefix_size main_outcome_prefix nb0 suffix_len)) (\<lambda>m.
       Ok (m # secondary))))"

definition double_covering_prefix_combinations ::
  "nat list \<Rightarrow> nat list \<Rightarrow> nat list \<Rightarrow> nat list \<Rightarrow> nat \<Rightarrow> (nat list list list, 'e) res" where
  "double_covering_prefix_combinations main_outcome_prefix left_interval_prefix right_interval_prefix
     oracle_digits_infos suffix_len =
     (let nb_oracles = length oracle_digits_infos;
          (first, second) = (if left_interval_prefix \<le> right_interval_prefix
             then (left_interval_prefix, right_interval_prefix)
             else (right_interval_prefix, left_interval_prefix)) in
      and_then (usub nb_oracles 1) (\<lambda>k.
      and_then (i32_shl_range k) (\<lambda>is.
      and_then (traverse (\<lambda>i.
          let mid_res = map (\<lambda>j. if i AND 2 ^ j = 0 then first else second) [0..<k];
              mid_res = rev (mid_res @ [main_outcome_prefix]);
              trimmed = traverse (\<lambda>(x, y).
                and_then (uadd (length main_outcome_prefix) suffix_len) (\<lambda>l.
                and_then (usub l (length x)) (\<lambda>s. adjust_prefix_size x y s)))
                (zip mid_res oracle_digits_infos)
          in push_if_ok trimmed) is) (\<lambda>res. Ok (concat res)))))"

definition double_covering_restricted_prefix_combinations ::
  "nat list \<Rightarrow> nat list \<Rightarrow> nat list \<Rightarrow> nat \<Rightarrow> (nat list list list, 'e) res" where
  "double_covering_restricted_prefix_combinations main_outcome_prefix other_interval_prefix
     oracle_digits_infos suffix_len =
     and_then (double_covering_prefix_combinations main_outcome_prefix main_outcome_prefix
                 other_interval_prefix oracle_digits_infos suffix_len) (\<lambda>combinations.
       if main_outcome_prefix > other_interval_prefix
       then (if combinations = [] then Panic else Ok (butlast combinations))
       else Ok (drop 1 combinations))"

text \<open>
  The function is cut where the code branches: an interval shorter than the maximal error, and
  the two ends of a longer one.
\<close>

definition short_interval_combinations ::
  "nat list \<Rightarrow> nat list \<Rightarrow> nat \<Rightarrow> nat \<Rightarrow> nat \<Rightarrow> nat \<Rightarrow> nat \<Rightarrow> nat \<Rightarrow> nat \<Rightarrow> nat \<Rightarrow> nat \<Rightarrow> bool
    \<Rightarrow> (nat list list list, 'e) res" where
  "short_interval_combinations oracle_digits_infos main_outcome_prefix min_num_digits max_num
     max_error_exp max_error half_max_error min_support suffix_len start end' maximize_coverage =
     (let single = (\<lambda>p. and_then (single_covering_prefix_combinations main_outcome_prefix p
                               oracle_digits_infos suffix_len) (\<lambda>c. Ok [c]));
          double = (\<lambda>p q. double_covering_prefix_combinations main_outcome_prefix p q oracle_digits_infos suffix_len);
          start_max_error_suffix = start AND (max_error - 1) in
      and_then (ushr start max_error_exp) (\<lambda>q.
      and_then (ushl q max_error_exp) (\<lambda>left_bound.
      let right_bound = left_bound OR (max_error - 1) in
      and_then (num_to_vec left_bound min_num_digits max_error_exp 2) (\<lambda>error_interval_prefix.
      and_then (usub right_bound min_support) (\<lambda>right_support.
        if min_support \<le> start_max_error_suffix \<and> end' \<le> right_support then
          and_then (if maximize_coverage then Ok error_interval_prefix
                    else compute_min_support_covering_prefix start end' min_support min_num_digits) single
        else if start_max_error_suffix < min_support then
          and_then (if maximize_coverage then Ok error_interval_prefix
                    else compute_right_covering_prefix end' max_error_exp min_support min_num_digits)
            (\<lambda>right_interval_prefix.
             if left_bound = 0 then single right_interval_prefix
             else and_then
               (if maximize_coverage
                then and_then (usub left_bound half_max_error) (\<lambda>l.
                     and_then (usub max_error_exp 1) (\<lambda>e. num_to_vec l min_num_digits e 2))
                else compute_left_covering_prefix start max_error_exp min_support min_num_digits)
               (\<lambda>left_interval_prefix. double right_interval_prefix left_interval_prefix))
        else if right_support < end' then
          and_then (if maximize_coverage then Ok error_interval_prefix
                    else compute_left_covering_prefix start max_error_exp min_support min_num_digits)
            (\<lambda>left_interval_prefix.
             if right_bound = max_num then single left_interval_prefix
             else and_then
               (if maximize_coverage
                then and_then (uadd right_bound 1) (\<lambda>r.
                     and_then (usub max_error_exp 1) (\<lambda>e. num_to_vec r min_num_digits e 2))
                else compute_right_covering_prefix end' max_error_exp min_support min_num_digits)
               (\<lambda>right_interval_prefix. double left_interval_prefix right_interval_prefix))
        else Panic)))))"

definition left_end_combinations ::
  "nat list \<Rightarrow> nat \<Rightarrow> nat \<Rightarrow> nat \<Rightarrow> nat \<Rightarrow> nat \<Rightarrow> nat \<Rightarrow> bool \<Rightarrow> (nat list list list, 'e) res" where
  "left_end_combinations oracle_digits_infos min_num_digits max_error_exp half_max_error min_support_exp
     min_support start maximize_coverage =
     (if start \<noteq> 0 then
        and_then (if maximize_coverage
          then and_then (usub max_error_exp 1) (\<lambda>e. num_to_vec start min_num_digits e 2)
          else num_to_vec start min_num_digits min_support_exp 2) (\<lambda>right_interval_prefix.
        and_then (if maximize_coverage
          then and_then (usub start half_max_error) (\<lambda>l.
               and_then (usub max_error_exp 1) (\<lambda>e. num_to_vec l min_num_digits e 2))
          else and_then (usub start min_support) (\<lambda>l. num_to_vec l min_num_digits min_support_exp 2))
          (\<lambda>left_interval_prefix.
        and_then (usub min_num_digits (length right_interval_prefix)) (\<lambda>s.
          double_covering_restricted_prefix_combinations right_interval_prefix left_interval_prefix
            oracle_digits_infos s)))
      else Ok [])"

definition right_end_combinations ::
  "nat list \<Rightarrow> nat \<Rightarrow> nat \<Rightarrow> nat \<Rightarrow> nat \<Rightarrow> nat \<Rightarrow> nat \<Rightarrow> nat \<Rightarrow> bool \<Rightarrow> (nat list list list, 'e) res" where
  "right_end_combinations oracle_digits_infos min_num_digits max_num max_error_exp half_max_error min_support_exp
     min_support end' maximize_coverage =
     (if end' \<noteq> max_num then
        and_then (if maximize_coverage
          then and_then (usub end' half_max_error) (\<lambda>l. and_then (uadd l 1) (\<lambda>l.
               and_then (usub max_error_exp 1) (\<lambda>e. num_to_vec l min_num_digits e 2)))
          else and_then (usub end' min_support) (\<lambda>l. and_then (uadd l 1) (\<lambda>l.
               num_to_vec l min_num_digits min_support_exp 2))) (\<lambda>right_interval_prefix.
        and_then (uadd end' 1) (\<lambda>r.
        and_then (if maximize_coverage
          then and_then (usub max_error_exp 1) (\<lambda>e. num_to_vec r min_num_digits e 2)
          else num_to_vec r min_num_digits min_support_exp 2) (\<lambda>left_interval_prefix.
        and_then (usub min_num_digits (length right_interval_prefix)) (\<lambda>s.
          double_covering_restricted_prefix_combinations right_interval_prefix left_interval_prefix
            oracle_digits_infos s))))
      else Ok [])"

definition compute_outcome_combinations ::
  "nat list \<Rightarrow> nat list \<Rightarrow> nat \<Rightarrow> nat \<Rightarrow> bool \<Rightarrow> (nat list list list, 'e) res" where
  "compute_outcome_combinations oracle_digits_infos main_outcome_prefix max_error_exp min_support_exp
     maximize_coverage =
     and_then (assert_that (1 < length oracle_digits_infos \<and> min_support_exp < max_error_exp)) (\<lambda>_.
     and_then (index oracle_digits_infos 0) (\<lambda>min_num_digits.
     and_then (if list_all (\<lambda>x. x = min_num_digits) (drop 1 oracle_digits_infos)
               then and_then (ushl 1 min_num_digits) (\<lambda>b. and_then (usub b 1) (\<lambda>max_num.
                    Ok (min_num_digits, max_num, main_outcome_prefix)))
               else and_then (uadd min_num_digits 1) (\<lambda>n. and_then (ushl 1 n) (\<lambda>b. and_then (usub b 1) (\<lambda>max_num.
                    Ok (n, max_num, 0 # main_outcome_prefix)))))
       (\<lambda>(min_num_digits, max_num, main_outcome_prefix).
     and_then (ushl 1 max_error_exp) (\<lambda>max_error.
     let half_max_error = max_error div 2 in
     and_then (ushl 1 min_support_exp) (\<lambda>min_support.
     and_then (usub min_num_digits (length main_outcome_prefix)) (\<lambda>suffix_len.
     and_then (compute_interval_from_prefix main_outcome_prefix min_num_digits 2) (\<lambda>(start, end').
       if suffix_len < max_error_exp
       then short_interval_combinations oracle_digits_infos main_outcome_prefix min_num_digits max_num
              max_error_exp max_error half_max_error min_support suffix_len start end' maximize_coverage
       else
         and_then (left_end_combinations oracle_digits_infos min_num_digits max_error_exp half_max_error
                     min_support_exp min_support start maximize_coverage) (\<lambda>ls.
         and_then (single_covering_prefix_combinations main_outcome_prefix main_outcome_prefix
                     oracle_digits_infos suffix_len) (\<lambda>m.
         and_then (right_end_combinations oracle_digits_infos min_num_digits max_num max_error_exp half_max_error
                     min_support_exp min_support end' maximize_coverage) (\<lambda>rs.
           Ok (ls @ [m] @ rs)))))))))))"

lemma traverse_cong [fundef_cong]:
  "xs = ys \<Longrightarrow> (\<And>x. x \<in> set ys \<Longrightarrow> f x = g x) \<Longrightarrow> traverse f xs = traverse g ys"
  by (induction xs arbitrary: ys) auto

section \<open>Binary digits\<close>

text \<open>
  The specification of the digits: the \<open>n\<close> binary digits of a number, most significant first,
  and the outcomes of \<open>n\<close> digits that a prefix covers.
\<close>

fun dg :: "nat \<Rightarrow> nat \<Rightarrow> nat list" where
  "dg 0 v = []"
| "dg (Suc n) v = dg n (v div 2) @ [v mod 2]"

definition covered :: "nat \<Rightarrow> nat list \<Rightarrow> nat \<Rightarrow> bool" where
  "covered n p y \<longleftrightarrow> y < 2 ^ n \<and> take (length p) (dg n y) = p"

lemma length_dg [simp]: "length (dg n v) = n"
  by (induction n arbitrary: v) auto

lemma dg_digits: "digits_below 2 (dg n v)"
  by (induction n arbitrary: v) auto

lemma dval_dg: "v < 2 ^ n \<Longrightarrow> dval 2 (dg n v) = v"
proof (induction n arbitrary: v)
  case (Suc n)
  then have "dval 2 (dg n (v div 2)) = v div 2" by auto
  then show ?case by (simp add: dval_append)
qed simp

lemma dg_dval: "digits_below 2 ds \<Longrightarrow> dg (length ds) (dval 2 ds) = ds"
  by (rule dval_inject [of 2]) (simp_all add: dg_digits dval_dg dval_less)

lemma dg_inject: "a < 2 ^ n \<Longrightarrow> b < 2 ^ n \<Longrightarrow> dg n a = dg n b \<longleftrightarrow> a = b"
  by (metis dval_dg)

lemma take_dg_add: "take m (dg (m + k) v) = dg m (v div 2 ^ k)"
proof (induction k arbitrary: v)
  case (Suc k)
  have "take m (dg (m + Suc k) v) = take m (dg (m + k) (v div 2))" by simp
  then show ?case using Suc by (simp add: div_mult2_eq)
qed simp

lemma take_dg: "m \<le> n \<Longrightarrow> take m (dg n v) = dg m (v div 2 ^ (n - m))"
  using take_dg_add [of m "n - m" v] by simp

lemma dg_Cons: "dg (Suc n) v = (v div 2 ^ n) mod 2 # dg n v"
  by (induction n arbitrary: v) (simp_all add: div_mult2_eq)

lemma decompose_dg:
  assumes "v < 2 ^ n" "n \<le> 53"
  shows "decompose_value v 2 n = Ok (dg n v)"
proof -
  have "(2::nat) ^ n \<le> 2 ^ 53" using assms(2) by (rule power_increasing) simp
  then have "v < 2 ^ 53" using assms(1) by linarith
  then obtain ds where "decompose_value v 2 n = (Ok ds :: (nat list, 'a) res)" "length ds = n"
    "digits_below 2 ds" "dval 2 ds = v"
    using decompose_value_spec [of 2 v n] assms(1) by auto
  then show ?thesis using dg_dval [of ds] by simp
qed

lemma covered_dg:
  assumes "k \<le> n" "w < 2 ^ (n - k)"
  shows "covered n (dg (n - k) w) y \<longleftrightarrow> y < 2 ^ n \<and> y div 2 ^ k = w"
proof -
  have "y < 2 ^ n \<Longrightarrow> y div 2 ^ k < 2 ^ (n - k)"
    using assms(1) by (simp add: less_mult_imp_div_less flip: power_add)
  then show ?thesis using assms by (auto simp: covered_def take_dg dg_inject)
qed

lemma covered_block:
  assumes "k \<le> n" "v < 2 ^ n"
  shows "covered n (dg (n - k) (v div 2 ^ k)) y \<longleftrightarrow> y < 2 ^ n \<and> y div 2 ^ k = v div 2 ^ k"
  using assms by (intro covered_dg) (simp_all add: less_mult_imp_div_less flip: power_add)

lemma covered_length: "covered n p y \<Longrightarrow> length p \<le> n"
  unfolding covered_def by (metis length_dg length_take min.bounded_iff order_refl)

lemma covered_prefix:
  "digits_below 2 p \<Longrightarrow> length p \<le> n \<Longrightarrow>
    covered n p y \<longleftrightarrow> y < 2 ^ n \<and> y div 2 ^ (n - length p) = dval 2 p"
  using covered_dg [of "n - length p" n "dval 2 p" y] dval_less [of 2 p] by (simp add: dg_dval)

section \<open>Prefixes of more or fewer digits\<close>

lemma adjust_longer:
  assumes "length p \<le> n" "n \<le> nb"
  shows "\<exists>q. adjust_prefix_size p nb (n - length p) = Ok q \<and> (\<forall>y<2 ^ nb. covered nb q y \<longleftrightarrow> covered n p y)"
proof -
  define k where "k = nb - n"
  have nb: "nb = k + n" using assms(2) by (simp add: k_def)
  have e: "nb - (n - length p) = k + length p" "n - length p \<le> nb" using assms(1) nb by simp_all
  have a: "adjust_prefix_size p nb (n - length p) = Ok (replicate k 0 @ p)"
    by (simp add: adjust_prefix_size_def pre_pad_vec_def usub_def e)
  have d: "dg (k + n) y = dg k (y div 2 ^ n) @ dg n y" for k y
    by (induction k) (simp_all add: dg_Cons power_add mult.commute flip: div_mult2_eq del: dg.simps(2))
  have "covered nb (replicate k 0 @ p) y \<longleftrightarrow> covered n p y" if y: "y < 2 ^ nb" for y
  proof -
    have "y div 2 ^ n < 2 ^ k" using y nb by (simp add: less_mult_imp_div_less power_add)
    moreover have "dg k 0 = replicate k 0" by (induction k) (simp_all add: replicate_append_same)
    ultimately have "dg k (y div 2 ^ n) = replicate k 0 \<longleftrightarrow> y div 2 ^ n = 0"
      using dg_inject [of "y div 2 ^ n" k 0] by simp
    then have "covered nb (replicate k 0 @ p) y \<longleftrightarrow> y div 2 ^ n = 0 \<and> take (length p) (dg n y) = p"
      using y by (auto simp: covered_def nb d)
    then show ?thesis by (auto simp: covered_def div_eq_0_iff)
  qed
  then show ?thesis using a by blast
qed

lemma adjust_shorter:
  assumes "length p \<le> Suc nb" "p \<noteq> []"
  shows "if hd p = 0
    then \<exists>q. adjust_prefix_size p nb (Suc nb - length p) = Ok q \<and> (\<forall>y<2 ^ nb. covered nb q y \<longleftrightarrow> covered (Suc nb) p y)
    else adjust_prefix_size p nb (Suc nb - length p) = Err () \<and> (\<forall>y<2 ^ nb. \<not> covered (Suc nb) p y)"
proof -
  obtain x xs where p: "p = x # xs" using assms(2) by (cases p) auto
  then have e: "nb - (Suc nb - length p) = length xs" "Suc nb - length p \<le> nb" using assms(1) by auto
  have a: "adjust_prefix_size p nb (Suc nb - length p) = (if x = 0 then Ok xs else Err ())"
    using e by (simp add: adjust_prefix_size_def usub_def p)
  have "covered (Suc nb) p y \<longleftrightarrow> x = 0 \<and> covered nb xs y" if "y < 2 ^ nb" for y
    using that by (auto simp: covered_def p dg_Cons simp del: dg.simps(2))
  then show ?thesis using a p by auto
qed

text \<open>
  The prefixes a call can adjust to an oracle of \<open>nb\<close> digits, and those that are adjusted for sure.
\<close>

definition adjustable :: "nat \<Rightarrow> nat \<Rightarrow> nat list \<Rightarrow> bool" where
  "adjustable n nb p \<longleftrightarrow> length p \<le> n \<and> (n \<le> nb \<or> Suc nb = n \<and> p \<noteq> [])"

definition fits :: "nat \<Rightarrow> nat \<Rightarrow> nat list \<Rightarrow> bool" where
  "fits n nb p \<longleftrightarrow> length p \<le> n \<and> (n \<le> nb \<or> Suc nb = n \<and> p \<noteq> [] \<and> hd p = 0)"

lemma fits_adjustable: "fits n nb p \<Longrightarrow> adjustable n nb p"
  by (auto simp: fits_def adjustable_def)

lemma adjust_fits:
  assumes "fits n nb p"
  shows "\<exists>q. adjust_prefix_size p nb (n - length p) = Ok q \<and> (\<forall>y<2 ^ nb. covered nb q y \<longleftrightarrow> covered n p y)"
  using assms adjust_longer [of p n nb] adjust_shorter [of p nb] by (auto simp: fits_def)

lemma adjust_cases:
  assumes "adjustable n nb p"
  obtains q where "adjust_prefix_size p nb (n - length p) = Ok q" "\<forall>y<2 ^ nb. covered nb q y \<longleftrightarrow> covered n p y"
    | "adjust_prefix_size p nb (n - length p) = Err ()" "\<forall>y<2 ^ nb. \<not> covered n p y"
  using assms adjust_longer [of p n nb] adjust_shorter [of p nb]
  by (auto simp: adjustable_def split: if_splits)

text \<open>The outcomes of oracles with the given numbers of digits, and those a combination covers.\<close>

definition outcomes :: "nat list \<Rightarrow> nat list \<Rightarrow> bool" where
  "outcomes infos ys \<longleftrightarrow> list_all2 (\<lambda>nb y. y < 2 ^ nb) infos ys"

fun matches :: "nat list \<Rightarrow> nat list list \<Rightarrow> nat list \<Rightarrow> bool" where
  "matches [] [] [] = True"
| "matches (nb # infos) (p # c) (y # ys) \<longleftrightarrow> covered nb p y \<and> matches infos c ys"
| "matches _ _ _ = False"

lemma outcomes_Cons [simp]: "outcomes (nb # infos) ys \<longleftrightarrow> (\<exists>z zs. ys = z # zs \<and> z < 2 ^ nb \<and> outcomes infos zs)"
  by (auto simp: outcomes_def list_all2_Cons1)

lemma outcomes_Nil [simp]: "outcomes [] ys \<longleftrightarrow> ys = []"
  by (simp add: outcomes_def)

lemma outcomes_length: "outcomes infos ys \<Longrightarrow> length ys = length infos"
  by (simp add: outcomes_def list_all2_lengthD)

definition adjust_all :: "nat \<Rightarrow> nat list list \<Rightarrow> nat list \<Rightarrow> (nat list list, unit) res" where
  "adjust_all n xs infos = traverse (\<lambda>(x, y). adjust_prefix_size x y (n - length x)) (zip xs infos)"

lemma adjust_all_cases:
  assumes "list_all2 (\<lambda>x nb. adjustable n nb x) xs infos"
  shows "(\<exists>c. adjust_all n xs infos = Ok c \<and>
      (\<forall>ys. outcomes infos ys \<longrightarrow> matches infos c ys = list_all2 (covered n) xs ys)) \<or>
    adjust_all n xs infos = Err () \<and> (\<forall>ys. outcomes infos ys \<longrightarrow> \<not> list_all2 (covered n) xs ys)"
  using assms
proof (induction rule: list_all2_induct)
  case (Cons x xs nb infos)
  from Cons(1) show ?case
  proof (cases rule: adjust_cases)
    case (1 q)
    with Cons(3) show ?thesis by (fastforce simp: adjust_all_def)
  next
    case 2
    then show ?thesis by (auto simp: adjust_all_def)
  qed
qed (auto simp: adjust_all_def)


section \<open>What the combinations cover\<close>

definition covered_by :: "nat list \<Rightarrow> nat list list list \<Rightarrow> nat list \<Rightarrow> bool" where
  "covered_by infos cs ys \<longleftrightarrow> (\<exists>c\<in>set cs. matches infos c ys)"

lemma unwrap_ok_Ok [simp]: "unwrap_ok (Ok x) = Ok x"
  by (simp add: unwrap_ok_def)

lemma single_covers:
  fixes infos :: "nat list"
  assumes "list_all (\<lambda>nb. fits n nb main \<and> fits n nb sec) infos" "infos \<noteq> []"
    and "length sec \<le> length main" "length main \<le> n" "n < usize_bound"
  obtains c where "single_covering_prefix_combinations main sec infos (n - length main) = (Ok c :: (_, 'e) res)"
    "\<And>y ys. outcomes infos (y # ys) \<Longrightarrow> matches infos c (y # ys) \<longleftrightarrow> covered n main y \<and> list_all (covered n sec) ys"
proof -
  obtain nb0 infos' where i: "infos = nb0 # infos'" using assms(2) by (cases infos) auto
  have "list_all (\<lambda>nb. fits n nb sec) infos'" using assms(1) by (auto simp: i list_all_iff)
  then have "\<exists>cs. traverse (\<lambda>nb. unwrap_ok (adjust_prefix_size sec nb (n - length sec))) infos' = (Ok cs :: (_, 'e) res) \<and>
      (\<forall>ys. outcomes infos' ys \<longrightarrow> matches infos' cs ys = list_all (covered n sec) ys)"
  proof (induction infos')
    case (Cons nb infos')
    then show ?case using adjust_fits [of n nb sec] by fastforce
  qed simp
  then obtain cs where cs: "traverse (\<lambda>nb. unwrap_ok (adjust_prefix_size sec nb (n - length sec))) infos' = (Ok cs :: (_, 'e) res)"
    "\<forall>ys. outcomes infos' ys \<longrightarrow> matches infos' cs ys = list_all (covered n sec) ys" by blast
  obtain m where m: "adjust_prefix_size main nb0 (n - length main) = Ok m"
    "\<forall>y<2 ^ nb0. covered nb0 m y \<longleftrightarrow> covered n main y"
    using adjust_fits [of n nb0 main] assms(1) by (auto simp: i)
  have "length main - length sec + (n - length main) = n - length sec" "n - length sec < usize_bound"
    using assms(3-5) by linarith+
  then have "single_covering_prefix_combinations main sec infos (n - length main) = (Ok (m # cs) :: (_, 'e) res)"
    using assms(3-5) cs(1) m(1)
    by (simp add: single_covering_prefix_combinations_def i usub_def uadd_def index_def)
  then show thesis using that [of "m # cs"] cs(2) m(2) by (auto simp: i)
qed

definition choice :: "nat \<Rightarrow> nat list \<Rightarrow> nat list \<Rightarrow> nat \<Rightarrow> nat list list" where
  "choice k first second i = map (\<lambda>j. if bit i j then second else first) (rev [0..<k])"

lemma choice_0: "choice k first second 0 = replicate k first"
  by (simp add: choice_def map_replicate_const)

lemma choice_max: "choice k first second (2 ^ k - 1) = replicate k second"
proof -
  have "bit (mask k :: nat) j" if "j < k" for j
    using that by (simp add: bit_mask_iff)
  then have "bit (2 ^ k - 1 :: nat) j" if "j < k" for j
    using that unfolding mask_eq_exp_minus_1 by blast
  then have "choice k first second (2 ^ k - 1) = map (\<lambda>_. second) (rev [0..<k])"
    by (auto simp: choice_def)
  then show ?thesis by (simp add: map_replicate_const)
qed

lemma choice_covers:
  assumes "length ys = k"
  shows "(\<exists>i<2 ^ k. list_all2 P (choice k first second i) ys) \<longleftrightarrow> list_all (\<lambda>y. P first y \<or> P second y) ys"
proof
  assume "\<exists>i<2 ^ k. list_all2 P (choice k first second i) ys"
  then show "list_all (\<lambda>y. P first y \<or> P second y) ys"
    by (auto simp: list_all_length list_all2_conv_all_nth choice_def split: if_splits)
next
  assume a: "list_all (\<lambda>y. P first y \<or> P second y) ys"
  define i :: nat where "i = horner_sum of_bool 2 (map (\<lambda>j. \<not> P first (rev ys ! j)) [0..<k])"
  have bit: "bit i j \<longleftrightarrow> \<not> P first (rev ys ! j)" if "j < k" for j
    using that by (simp add: i_def bit_horner_sum_bit_iff)
  have "i < 2 ^ k"
    using horner_sum_of_bool_2_less [of "map (\<lambda>j. \<not> P first (rev ys ! j)) [0..<k]", where ?'a = nat] by (simp add: i_def)
  moreover have "list_all2 P (choice k first second i) ys"
    using a assms by (auto simp: list_all2_conv_all_nth choice_def rev_nth bit list_all_length)
  ultimately show "\<exists>i<2 ^ k. list_all2 P (choice k first second i) ys" by blast
qed

lemma choice_last:
  fixes i :: nat
  assumes "i < 2 ^ k" "i \<noteq> 2 ^ k - 1"
  obtains j where "j < k" "\<not> bit i j"
proof -
  have "\<exists>j<k. \<not> bit i j"
  proof (rule ccontr)
    assume "\<not> (\<exists>j<k. \<not> bit i j)"
    then have "take_bit k i = mask k" by (auto simp: bit_eq_iff bit_take_bit_iff bit_mask_iff)
    then show False using assms by (simp add: take_bit_nat_eq_self mask_eq_exp_minus_1)
  qed
  then show thesis using that by blast
qed

lemma choice_first:
  fixes i :: nat
  assumes "i < 2 ^ k" "i \<noteq> 0"
  obtains j where "j < k" "bit i j"
proof -
  have "\<exists>j<k. bit i j"
  proof (rule ccontr)
    assume "\<not> (\<exists>j<k. bit i j)"
    then have "take_bit k i = 0" by (auto simp: bit_eq_iff bit_take_bit_iff)
    then show False using assms by (simp add: take_bit_nat_eq_self)
  qed
  then show thesis using that by blast
qed


lemma concat_single_covers:
  assumes "\<And>i. i \<in> set is \<Longrightarrow> (\<exists>c\<in>set (g i). matches infos c ys) \<longleftrightarrow> Q i"
  shows "covered_by infos (concat (map g is)) ys \<longleftrightarrow> (\<exists>i\<in>set is. Q i)"
  using assms by (auto simp: covered_by_def)

text \<open>
  The list of the combinations of a choice, empty when one of the prefixes does not fit its oracle.
\<close>

definition combos :: "nat \<Rightarrow> nat list \<Rightarrow> nat list \<Rightarrow> nat list \<Rightarrow> nat list \<Rightarrow> nat \<Rightarrow> nat list list list" where
  "combos n infos main first second i =
     (case adjust_all n (main # choice (length infos - 1) first second i) infos of Ok c \<Rightarrow> [c] | _ \<Rightarrow> [])"

lemma double_combos:
  assumes "list_all (\<lambda>nb. adjustable n nb main \<and> adjustable n nb l \<and> adjustable n nb r) infos" "infos \<noteq> []"
    and "length infos \<le> 31" "n < usize_bound"
    and f: "(first, second) = (if l \<le> r then (l, r) else (r, l))"
  shows "double_covering_prefix_combinations main l r infos (n - length main) =
    (Ok (concat (map (combos n infos main first second) [0..<2 ^ (length infos - 1)])) :: (_, 'e) res)"
proof -
  define k where "k = length infos - 1"
  have k: "length infos = Suc k" using assms(2) by (cases infos) (simp_all add: k_def)
  have len: "length main \<le> n" using assms(1,2) by (cases infos) (auto simp: adjustable_def)
  have ch: "rev (map (\<lambda>j. if i AND 2 ^ j = 0 then first else second) [0..<k] @ [main]) = main # choice k first second i" for i
    by (simp add: choice_def rev_map and_exp_eq_0_iff_not_bit cong: if_cong)
  have m: "n - length main + length main < usize_bound" using len assms(4) by simp
  have tr: "traverse (\<lambda>(x, y). and_then (uadd (length main) (n - length main)) (\<lambda>l. and_then (usub l (length x)) (\<lambda>s. adjust_prefix_size x y s)))
      (zip (main # choice k first second i) infos) = adjust_all n (main # choice k first second i) infos" for i
    unfolding adjust_all_def
  proof (rule traverse_cong [OF refl], clarify)
    fix x y assume "(x, y) \<in> set (zip (main # choice k first second i) infos)"
    then have "x \<in> set (main # choice k first second i)" "y \<in> set infos"
      by (rule set_zip_leftD, rule set_zip_rightD)
    then have "x \<in> {main, l, r}" "y \<in> set infos"
      using f by (auto simp: choice_def split: if_splits)
    then have "length x \<le> n" using assms(1) by (auto simp: list_all_iff adjustable_def)
    then show "and_then (uadd (length main) (n - length main)) (\<lambda>l. and_then (usub l (length x)) (\<lambda>s. adjust_prefix_size x y s)) =
        adjust_prefix_size x y (n - length x)"
      using len assms(4) by (simp add: uadd_def usub_def)
  qed
  have "adjust_all n (main # choice k first second i) infos \<noteq> Panic" for i
  proof -
    have "list_all2 (\<lambda>x nb. adjustable n nb x) (main # choice k first second i) infos"
      using assms(1) k f
      by (auto simp: list_all2_conv_all_nth list_all_length choice_def nth_Cons split: if_splits nat.splits)
    then show ?thesis using adjust_all_cases [of n "main # choice k first second i" infos] by auto
  qed
  then have p: "push_if_ok (adjust_all n (main # choice k first second i) infos) =
      (Ok (combos n infos main first second i) :: (_, 'e) res)" for i
    by (cases "adjust_all n (main # choice k first second i) infos") (auto simp: push_if_ok_def combos_def k_def)
  have "usub (length infos) 1 = (Ok k :: (_, 'e) res)" "i32_shl_range k = (Ok [0..<2 ^ k] :: (_, 'e) res)"
    using k assms(3) by (auto simp: i32_shl_range_def)
  then show ?thesis
    unfolding double_covering_prefix_combinations_def f [symmetric] Let_def
    by (simp only: prod.case and_then_simps ch tr p traverse_all_Ok [of _ _ "combos n infos main first second"]) (simp only: k_def)
qed

lemma combos_covers:
  assumes "list_all (\<lambda>nb. adjustable n nb main \<and> adjustable n nb first \<and> adjustable n nb second) infos"
    and "outcomes infos (y # ys)"
  shows "(\<exists>c\<in>set (combos n infos main first second i). matches infos c (y # ys)) \<longleftrightarrow>
    covered n main y \<and> list_all2 (covered n) (choice (length infos - 1) first second i) ys"
proof -
  have "length infos = Suc (length ys)" using outcomes_length [OF assms(2)] by simp
  then have "list_all2 (\<lambda>x nb. adjustable n nb x) (main # choice (length infos - 1) first second i) infos"
    using assms(1) by (auto simp: list_all2_conv_all_nth list_all_length choice_def nth_Cons split: nat.splits)
  from adjust_all_cases [OF this] assms(2) show ?thesis
    by (auto simp: combos_def split: res.splits)
qed

lemma double_covers:
  assumes "list_all (\<lambda>nb. adjustable n nb main \<and> adjustable n nb l \<and> adjustable n nb r) infos" "infos \<noteq> []"
    and "length infos \<le> 31" "n < usize_bound"
  obtains cs where "double_covering_prefix_combinations main l r infos (n - length main) = (Ok cs :: (_, 'e) res)"
    "\<And>y ys. outcomes infos (y # ys) \<Longrightarrow> covered_by infos cs (y # ys) \<longleftrightarrow>
      covered n main y \<and> list_all (\<lambda>z. covered n l z \<or> covered n r z) ys"
proof -
  obtain first second where f: "(first, second) = (if l \<le> r then (l, r) else (r, l))"
    by (cases "l \<le> r") auto
  have a: "list_all (\<lambda>nb. adjustable n nb main \<and> adjustable n nb first \<and> adjustable n nb second) infos"
    using assms(1) f by (auto simp: list_all_iff split: if_splits)
  have lr: "covered n first z \<or> covered n second z \<longleftrightarrow> covered n l z \<or> covered n r z" for z
    using f by (auto split: if_splits)
  let ?cs = "concat (map (combos n infos main first second) [0..<2 ^ (length infos - 1)])"
  have "covered_by infos ?cs (y # ys) \<longleftrightarrow> covered n main y \<and> list_all (\<lambda>z. covered n l z \<or> covered n r z) ys"
    if o: "outcomes infos (y # ys)" for y ys
  proof -
    have "length ys = length infos - 1" using outcomes_length [OF o] by simp
    note ch = choice_covers [OF this, of "covered n" first second]
    have "covered_by infos ?cs (y # ys) \<longleftrightarrow> covered n main y \<and>
        (\<exists>i<2 ^ (length infos - 1). list_all2 (covered n) (choice (length infos - 1) first second i) ys)"
      using combos_covers [OF a o] by (subst concat_single_covers) auto
    then show ?thesis using ch lr by simp
  qed
  then show thesis using that double_combos [OF assms f] by blast
qed

lemma choice_covers_restricted:
  assumes "length ys = k" and "\<forall>z. \<not> (P first z \<and> P second z)"
  shows "(\<exists>i<2 ^ k. i \<noteq> 2 ^ k - 1 \<and> list_all2 P (choice k first second i) ys) \<longleftrightarrow>
      list_all (\<lambda>y. P first y \<or> P second y) ys \<and> \<not> list_all (P second) ys"
    "(\<exists>i<2 ^ k. i \<noteq> 0 \<and> list_all2 P (choice k first second i) ys) \<longleftrightarrow>
      list_all (\<lambda>y. P first y \<or> P second y) ys \<and> \<not> list_all (P first) ys"
proof -
  have all: "list_all2 P (replicate k x) ys \<longleftrightarrow> list_all (P x) ys" for x
    using assms(1) by (auto simp: list_all2_conv_all_nth list_all_length)
  have nth: "list_all2 P (choice k first second i) ys \<Longrightarrow> j < k \<Longrightarrow>
      P (if bit i j then second else first) (ys ! (k - 1 - j))" for i j
    by (auto dest!: list_all2_nthD [of P _ ys "k - 1 - j"] simp: choice_def rev_nth)
  have "\<not> list_all (P second) ys" if "i < 2 ^ k" "i \<noteq> 2 ^ k - 1" "list_all2 P (choice k first second i) ys" for i
  proof -
    obtain j where "j < k" "\<not> bit i j" using choice_last \<open>i < 2 ^ k\<close> \<open>i \<noteq> 2 ^ k - 1\<close> by blast
    then have "P first (ys ! (k - 1 - j))" using nth [OF that(3), of j] by simp
    then show ?thesis using assms \<open>j < k\<close> by (auto simp: list_all_length intro!: exI [of _ "k - 1 - j"])
  qed
  moreover have "\<not> list_all (P first) ys" if "i < 2 ^ k" "i \<noteq> 0" "list_all2 P (choice k first second i) ys" for i
  proof -
    obtain j where "j < k" "bit i j" using choice_first \<open>i < 2 ^ k\<close> \<open>i \<noteq> 0\<close> by blast
    then have "P second (ys ! (k - 1 - j))" using nth [OF that(3), of j] by simp
    then show ?thesis using assms \<open>j < k\<close> by (auto simp: list_all_length intro!: exI [of _ "k - 1 - j"])
  qed
  ultimately show "(\<exists>i<2 ^ k. i \<noteq> 2 ^ k - 1 \<and> list_all2 P (choice k first second i) ys) \<longleftrightarrow>
      list_all (\<lambda>y. P first y \<or> P second y) ys \<and> \<not> list_all (P second) ys"
    "(\<exists>i<2 ^ k. i \<noteq> 0 \<and> list_all2 P (choice k first second i) ys) \<longleftrightarrow>
      list_all (\<lambda>y. P first y \<or> P second y) ys \<and> \<not> list_all (P first) ys"
    unfolding choice_covers [OF assms(1), of P first second, symmetric]
    using choice_0 [of k first second] choice_max [of k first second] all by metis+
qed


lemma upt_shrink: "[0..<2 ^ k] = [0..<2 ^ k - 1] @ [2 ^ k - (1::nat)]" "[0..<2 ^ k] = (0::nat) # [1..<2 ^ k]"
  by (simp_all add: upt_conv_Cons flip: upt_Suc_append)

lemma combos_all_main:
  assumes "list_all (\<lambda>nb. fits n nb main) infos" "infos \<noteq> []"
    and "choice (length infos - 1) first second i = replicate (length infos - 1) main"
  shows "\<exists>c. combos n infos main first second i = [c]"
proof -
  have "main # replicate (length infos - 1) main = replicate (length infos) main"
    using assms(2) by (cases infos) auto
  moreover have "\<exists>c. traverse (\<lambda>(x, y). adjust_prefix_size x y (n - length x)) (zip (replicate (length infos) main) infos) = Ok c"
    using assms(1)
  proof (induction infos)
    case (Cons nb infos)
    then show ?case using adjust_fits [of n nb main] by fastforce
  qed simp
  ultimately show ?thesis using assms(3) by (auto simp: combos_def adjust_all_def)
qed

lemma restricted_covers:
  assumes "list_all (\<lambda>nb. fits n nb main \<and> adjustable n nb r) infos" "infos \<noteq> []"
    and "length infos \<le> 31" "n < usize_bound" and dis: "\<forall>z. \<not> (covered n main z \<and> covered n r z)"
  obtains cs where "double_covering_restricted_prefix_combinations main r infos (n - length main) = (Ok cs :: (_, 'e) res)"
    "\<And>y ys. outcomes infos (y # ys) \<Longrightarrow> covered_by infos cs (y # ys) \<longleftrightarrow>
      covered n main y \<and> list_all (\<lambda>z. covered n main z \<or> covered n r z) ys \<and> \<not> list_all (covered n main) ys"
proof -
  define k where "k = length infos - 1"
  have a: "list_all (\<lambda>nb. adjustable n nb main \<and> adjustable n nb main \<and> adjustable n nb r) infos"
    and fit: "list_all (\<lambda>nb. fits n nb main) infos"
    using assms(1) by (auto simp: list_all_iff fits_adjustable)
  show thesis
  proof (cases "main \<le> r")
    case True
    let ?c = "combos n infos main main r"
    obtain c0 where c0: "?c 0 = [c0]" using combos_all_main [OF fit assms(2) choice_0] by blast
    have "double_covering_prefix_combinations main main r infos (n - length main) =
        (Ok (concat (map ?c [0..<2 ^ k])) :: (_, 'e) res)"
      unfolding k_def using True by (intro double_combos [OF a assms(2-4)]) simp
    then have "double_covering_restricted_prefix_combinations main r infos (n - length main) =
        (Ok (concat (map ?c [1..<2 ^ k])) :: (_, 'e) res)"
      using True c0 by (simp add: double_covering_restricted_prefix_combinations_def upt_shrink(2) not_less del: upt_Suc)
    moreover have "covered_by infos (concat (map ?c [1..<2 ^ k])) (y # ys) \<longleftrightarrow>
        covered n main y \<and> list_all (\<lambda>z. covered n main z \<or> covered n r z) ys \<and> \<not> list_all (covered n main) ys"
      if o: "outcomes infos (y # ys)" for y ys
    proof -
      have len: "length ys = k" using outcomes_length [OF o] by (simp add: k_def)
      have "(\<exists>i\<in>set [1..<2 ^ k]. list_all2 (covered n) (choice k main r i) ys) \<longleftrightarrow>
          (\<exists>i<2 ^ k. i \<noteq> 0 \<and> list_all2 (covered n) (choice k main r i) ys)"
      proof -
        have "i \<in> set [1..<2 ^ k] \<longleftrightarrow> i < 2 ^ k \<and> i \<noteq> 0" for i by auto
        then show ?thesis by blast
      qed
      with choice_covers_restricted(2) [OF len dis] show ?thesis
        using combos_covers [OF _ o, of n main main r] a
        by (subst concat_single_covers [of _ _ _ _ "\<lambda>i. covered n main y \<and> list_all2 (covered n) (choice k main r i) ys"])
           (auto simp: k_def)
    qed
    ultimately show thesis using that by blast
  next
    case False
    let ?c = "combos n infos main r main"
    obtain c0 where c0: "?c (2 ^ k - 1) = [c0]"
      using combos_all_main [OF fit assms(2) choice_max] unfolding k_def by blast
    have "double_covering_prefix_combinations main main r infos (n - length main) =
        (Ok (concat (map ?c [0..<2 ^ k])) :: (_, 'e) res)"
      unfolding k_def using False by (intro double_combos [OF a assms(2-4)]) simp
    then have "double_covering_restricted_prefix_combinations main r infos (n - length main) =
        (Ok (concat (map ?c [0..<2 ^ k - 1])) :: (_, 'e) res)"
      using False c0 by (simp add: double_covering_restricted_prefix_combinations_def upt_shrink(1) not_le del: upt_Suc)
    moreover have "covered_by infos (concat (map ?c [0..<2 ^ k - 1])) (y # ys) \<longleftrightarrow>
        covered n main y \<and> list_all (\<lambda>z. covered n main z \<or> covered n r z) ys \<and> \<not> list_all (covered n main) ys"
      if o: "outcomes infos (y # ys)" for y ys
    proof -
      have len: "length ys = k" using outcomes_length [OF o] by (simp add: k_def)
      have dis': "\<forall>z. \<not> (covered n r z \<and> covered n main z)" using dis by blast
      have "(\<exists>i\<in>set [0..<2 ^ k - 1]. list_all2 (covered n) (choice k r main i) ys) \<longleftrightarrow>
          (\<exists>i<2 ^ k. i \<noteq> 2 ^ k - 1 \<and> list_all2 (covered n) (choice k r main i) ys)"
      proof -
        have "i \<in> set [0..<2 ^ k - 1] \<longleftrightarrow> i < 2 ^ k \<and> i \<noteq> 2 ^ k - 1" for i by auto
        then show ?thesis by blast
      qed
      with choice_covers_restricted(1) [OF len dis'] show ?thesis
        using combos_covers [OF _ o, of n main r main] a
        by (subst concat_single_covers [of _ _ _ _ "\<lambda>i. covered n main y \<and> list_all2 (covered n) (choice k r main i) ys"])
           (auto simp: k_def list_all_iff)
    qed
    ultimately show thesis using that by blast
  qed
qed

end
