(* ===== verification/Outcome_Agreement.thy ===== *)
theory Outcome_Agreement
  imports Multi_Oracle
begin

text \<open>
  Which outcomes the combinations of \<open>compute_outcome_combinations\<close> cover: every prefix the code
  computes is an aligned block of outcomes, and the blocks of each case of the code lie
  between the minimal support and the maximal error.
\<close>

unbundle bit_operations_syntax

section \<open>Prefixes as aligned blocks\<close>

text \<open>\<open>block n p a k\<close>: the prefix \<open>p\<close> covers the \<open>2 ^ k\<close> outcomes from \<open>a\<close>.\<close>

definition block :: "nat \<Rightarrow> nat list \<Rightarrow> nat \<Rightarrow> nat \<Rightarrow> bool" where
  "block n p a k \<longleftrightarrow> k \<le> n \<and> 2 ^ k dvd a \<and> a < 2 ^ n \<and> p = dg (n - k) (a div 2 ^ k)"

lemma block_end: "block n p a k \<Longrightarrow> a + 2 ^ k \<le> 2 ^ n"
proof -
  assume b: "block n p a k"
  then obtain q where q: "a = 2 ^ k * q" by (auto simp: block_def)
  have n: "(2::nat) ^ n = 2 ^ k * 2 ^ (n - k)" using b by (simp add: block_def flip: power_add)
  then have "q < 2 ^ (n - k)" using b q by (simp add: block_def)
  then have "2 ^ k * (q + 1) \<le> 2 ^ k * (2::nat) ^ (n - k)" by (intro mult_left_mono) auto
  then show ?thesis using q n by simp
qed

lemma block_covers: "block n p a k \<Longrightarrow> covered n p y \<longleftrightarrow> a \<le> y \<and> y < a + 2 ^ k"
proof -
  assume b: "block n p a k"
  then obtain q where q: "a = 2 ^ k * q" by (auto simp: block_def)
  then have "covered n p y \<longleftrightarrow> y < 2 ^ n \<and> y div 2 ^ k = q"
    using covered_block [of k n a y] b by (auto simp: block_def)
  also have "\<dots> \<longleftrightarrow> y < 2 ^ n \<and> a \<le> y \<and> y < a + 2 ^ k"
    using nat_div_eq_iff [of "2 ^ k" y q] by (simp add: q mult.commute add.commute)
  finally show ?thesis using block_end [OF b] by auto
qed

lemma block_length: "block n p a k \<Longrightarrow> length p = n - k \<and> n - length p = k"
  by (auto simp: block_def)

lemma block_adjustable: "block n p a k \<Longrightarrow> n \<le> nb \<or> Suc nb = n \<and> k < n \<Longrightarrow> adjustable n nb p"
  using block_length [of n p a k] by (auto simp: adjustable_def)

lemma block_fits:
  "block n p a k \<Longrightarrow> n \<le> nb \<or> Suc nb = n \<and> k < n \<and> a < 2 ^ (n - 1) \<Longrightarrow> fits n nb p"
proof -
  assume b: "block n p a k" and nb: "n \<le> nb \<or> Suc nb = n \<and> k < n \<and> a < 2 ^ (n - 1)"
  have "p \<noteq> [] \<and> hd p = 0" if n: "Suc nb = n" "k < n" "a < 2 ^ (n - 1)"
  proof -
    obtain m where m: "n - k = Suc m" using n(2) by (metis Suc_diff_Suc)
    then have e: "n - 1 = k + m" using n(2) by simp
    have "a div 2 ^ k < 2 ^ m" using n(3) unfolding e by (simp add: less_mult_imp_div_less power_add mult.commute)
    then show ?thesis using b by (simp add: block_def m dg_Cons del: dg.simps(2))
  qed
  then show ?thesis using b nb by (auto simp: fits_def block_def)
qed

lemma prefix_block: "digits_below 2 p \<Longrightarrow> length p \<le> n \<Longrightarrow> block n p (plo 2 n p) (n - length p)"
proof -
  assume p: "digits_below 2 p" "length p \<le> n"
  have "dval 2 p * 2 ^ (n - length p) < 2 ^ length p * 2 ^ (n - length p)"
    using dval_less [OF p(1)] by simp
  also have "\<dots> = 2 ^ n" using p(2) by (simp flip: power_add)
  finally show ?thesis using p dg_dval [OF p(1)] by (simp add: block_def plo_def)
qed

lemma block_prefix: "block n p a k \<Longrightarrow> digits_below 2 p \<and> plo 2 n p = a"
proof -
  assume b: "block n p a k"
  then have "a div 2 ^ k < 2 ^ (n - k)" by (simp add: block_def less_mult_imp_div_less flip: power_add)
  then show ?thesis using b by (auto simp: block_def dg_digits plo_def dval_dg)
qed

lemma compute_interval_block:
  assumes "block n p a k" "n \<le> 53"
  shows "compute_interval_from_prefix p n 2 = (Ok (a, a + 2 ^ k - 1) :: (_, 'e) res)"
proof -
  have p: "digits_below 2 p" "length p + k = n" "plo 2 n p = a"
    using block_prefix [OF assms(1)] assms(1) by (auto simp: block_def)
  have "(2::nat) ^ n \<le> 2 ^ 53" using assms(2) by (rule power_increasing) simp
  then have n: "(2::nat) ^ n < usize_bound" by (rule le_less_trans) simp
  have e: "n - length p = k" using p(2) by simp
  have d: "digits_below 2 (p @ replicate k 0)" "digits_below 2 (p @ replicate k 1)"
    using p(1) by (auto simp: list_all_iff)
  have "dval 2 (p @ replicate k 0) = a" "dval 2 (p @ replicate k 1) = a + 2 ^ k - 1"
    using p(3) dval_replicate_max [of 2 k] by (simp_all add: dval_append plo_def e)
  moreover have "compose_value (p @ replicate k x) 2 = (Ok (dval 2 (p @ replicate k x)) :: (_, 'e) res)"
    if "digits_below 2 (p @ replicate k x)" for x
    using n p(2) that by (intro compose_value_spec) simp_all
  moreover have "n - length p = k" "length p \<le> n" using p(2) by simp_all
  ultimately show ?thesis using d
    by (simp add: compute_interval_from_prefix_def usub_def del: list_all_append)
qed

lemma num_to_vec_block:
  assumes "2 ^ k dvd v" "v < 2 ^ n" "k \<le> n" "n \<le> 53"
  obtains p where "num_to_vec v n k 2 = (Ok p :: (_, 'e) res)" "block n p v k"
proof -
  have "num_to_vec v n k 2 = (Ok (dg (n - k) (v div 2 ^ k)) :: (_, 'e) res)"
    using assms(3) by (simp add: num_to_vec_def usub_def take_dg decompose_dg [OF assms(2,4)])
  then show thesis using that assms by (auto simp: block_def)
qed


section \<open>The covering prefixes\<close>

lemma zip_takeWhile_prefix:
  assumes "length xs = length ys"
  shows "\<exists>m\<le>length xs. map fst (takeWhile (\<lambda>(x, y). x = y) (zip xs ys)) = take m xs \<and> take m xs = take m ys \<and>
    (\<forall>m'\<le>length xs. take m' xs = take m' ys \<longrightarrow> m' \<le> m)"
  using assms
proof (induction xs ys rule: list_induct2)
  case (Cons x xs y ys)
  then obtain m where m: "m \<le> length xs" "map fst (takeWhile (\<lambda>(x, y). x = y) (zip xs ys)) = take m xs"
    "take m xs = take m ys" "\<forall>m'\<le>length xs. take m' xs = take m' ys \<longrightarrow> m' \<le> m" by blast
  show ?case
  proof (cases "x = y")
    case True
    have "\<forall>m'\<le>length (x # xs). take m' (x # xs) = take m' (y # ys) \<longrightarrow> m' \<le> Suc m"
      using m(4) by (auto simp: take_Cons split: nat.splits)
    then show ?thesis using True m(1-3) by (intro exI [of _ "Suc m"]) simp
  qed (auto simp: take_Cons split: nat.splits)
qed simp

lemma min_support_block:
  assumes "s \<le> a" "b + s < 2 ^ n" "a \<le> b" "n \<le> 53"
  obtains p k c where "compute_min_support_covering_prefix a b s n = (Ok p :: (_, 'e) res)" "block n p c k"
    "c \<le> a - s" "b + s < c + 2 ^ k"
    "\<And>E. E \<le> n \<Longrightarrow> (a - s) div 2 ^ E = (b + s) div 2 ^ E \<Longrightarrow> k \<le> E"
proof -
  define l r where "l = a - s" and "r = b + s"
  have lr: "l < 2 ^ n" "r < 2 ^ n" "l \<le> r" using assms by (auto simp: l_def r_def)
  obtain m where m: "m \<le> n" "map fst (takeWhile (\<lambda>(x, y). x = y) (zip (dg n l) (dg n r))) = take m (dg n l)"
    "take m (dg n l) = take m (dg n r)" "\<forall>m'\<le>n. take m' (dg n l) = take m' (dg n r) \<longrightarrow> m' \<le> m"
    using zip_takeWhile_prefix [of "dg n l" "dg n r"] by auto
  define k where "k = n - m"
  have k: "k \<le> n" "n - k = m" using m(1) by (auto simp: k_def)
  have div: "l div 2 ^ E < 2 ^ (n - E)" "r div 2 ^ E < 2 ^ (n - E)" if "E \<le> n" for E
    using lr that by (simp_all add: less_mult_imp_div_less flip: power_add)
  have same: "take (n - E) (dg n l) = take (n - E) (dg n r) \<longleftrightarrow> l div 2 ^ E = r div 2 ^ E" if "E \<le> n" for E
    using div [OF that] that by (simp add: take_dg dg_inject)
  have eq: "l div 2 ^ k = r div 2 ^ k" using m(3) same [of k] k by simp
  have "(2::nat) ^ n \<le> 2 ^ 53" using assms(4) by (rule power_increasing) simp
  then have "r < usize_bound" using lr(2) by simp
  then have "compute_min_support_covering_prefix a b s n = (Ok (take m (dg n l)) :: (_, 'e) res)"
    using assms(1) m(2) decompose_dg [OF lr(1) assms(4)] decompose_dg [OF lr(2) assms(4)]
    by (simp add: compute_min_support_covering_prefix_def usub_def uadd_def flip: l_def r_def)
       (simp add: decompose_dg [OF lr(1) assms(4)] decompose_dg [OF lr(2) assms(4)])
  moreover have "block n (take m (dg n l)) (l div 2 ^ k * 2 ^ k) k"
    using k m(1) lr(1) by (simp add: block_def take_dg k_def) (metis div_times_less_eq_dividend le_less_trans)
  moreover have "l div 2 ^ k * 2 ^ k \<le> l" by simp
  moreover have "r < l div 2 ^ k * 2 ^ k + 2 ^ k" unfolding eq
    using dividend_less_div_times [of "2 ^ k" r] by (simp add: add.commute)
  moreover have "k \<le> E" if "E \<le> n" "l div 2 ^ E = r div 2 ^ E" for E
  proof -
    have "n - E \<le> m" using m(4) same [OF that(1)] that by simp
    then show ?thesis by (simp add: k_def)
  qed
  ultimately show thesis using that unfolding l_def r_def by blast
qed

lemma dg_append: "dg (m + k) v = dg m (v div 2 ^ k) @ dg k v"
proof (induction k arbitrary: v)
  case (Suc k)
  then show ?case by (simp add: div_mult2_eq)
qed simp

lemma dg_ones: "dg m (2 ^ m - 1) = replicate m 1"
proof (induction m)
  case (Suc m)
  obtain q where "(2::nat) ^ m = Suc q" by (cases "(2::nat) ^ m") auto
  then have "(2 ^ Suc m - 1 :: nat) = 2 * (2 ^ m - 1) + 1" by simp
  then have "dg (Suc m) (2 ^ Suc m - 1) = dg m (2 ^ m - 1) @ [1]" by (simp only: dg.simps) simp
  then show ?case using Suc by (simp add: replicate_append_same)
qed simp

lemma takeWhile_ones:
  "\<exists>k\<le>E. takeWhile (\<lambda>x. x = 1) (dg E v) = replicate (E - k) 1 \<and> 2 ^ E - 2 ^ k \<le> v mod 2 ^ E \<and>
    (\<forall>j\<le>E. 2 ^ E - 2 ^ j \<le> v mod 2 ^ E \<longrightarrow> k \<le> j)"
proof (induction E)
  case (Suc E)
  then obtain k where k: "k \<le> E" "takeWhile (\<lambda>x. x = 1) (dg E v) = replicate (E - k) 1"
    "2 ^ E - 2 ^ k \<le> v mod 2 ^ E" "\<forall>j\<le>E. 2 ^ E - 2 ^ j \<le> v mod 2 ^ E \<longrightarrow> k \<le> j" by blast
  have v: "v mod 2 ^ Suc E = v div 2 ^ E mod 2 * 2 ^ E + v mod 2 ^ E"
    using mod_mult2_eq [of v "2 ^ E" 2] by (simp add: mult.commute)
  have lt: "v mod 2 ^ E < 2 ^ E" by simp
  have pow: "j \<le> E \<Longrightarrow> (2::nat) ^ j \<le> 2 ^ E" for j by (rule power_increasing) auto
  show ?case
  proof (cases "v div 2 ^ E mod 2 = 1")
    case True
    have "\<forall>j\<le>Suc E. 2 ^ Suc E - 2 ^ j \<le> v mod 2 ^ Suc E \<longrightarrow> k \<le> j"
      using k(1,4) True unfolding v by (auto simp: le_Suc_eq)
    then show ?thesis using k True pow [of k] unfolding v
      by (intro exI [of _ k]) (simp add: dg_Cons Suc_diff_le del: dg.simps(2))
  next
    case False
    then have "v div 2 ^ E mod 2 = 0" by simp
    moreover have "\<not> 2 ^ Suc E - 2 ^ j \<le> v mod 2 ^ E" if "j \<le> E" for j
      using lt pow [OF that] unfolding power_Suc by linarith
    ultimately show ?thesis using False unfolding v
      by (intro exI [of _ "Suc E"]) (auto simp: dg_Cons le_Suc_eq simp del: dg.simps(2))
  qed
qed simp

lemma takeWhile_zeros:
  "\<exists>k\<le>E. takeWhile (\<lambda>x. x = 0) (dg E v) = replicate (E - k) 0 \<and> v mod 2 ^ E < 2 ^ k \<and>
    (\<forall>j\<le>E. v mod 2 ^ E < 2 ^ j \<longrightarrow> k \<le> j)"
proof (induction E)
  case (Suc E)
  then obtain k where k: "k \<le> E" "takeWhile (\<lambda>x. x = 0) (dg E v) = replicate (E - k) 0"
    "v mod 2 ^ E < 2 ^ k" "\<forall>j\<le>E. v mod 2 ^ E < 2 ^ j \<longrightarrow> k \<le> j" by blast
  have v: "v mod 2 ^ Suc E = v div 2 ^ E mod 2 * 2 ^ E + v mod 2 ^ E"
    using mod_mult2_eq [of v "2 ^ E" 2] by (simp add: mult.commute)
  have pow: "j \<le> E \<Longrightarrow> (2::nat) ^ j \<le> 2 ^ E" for j by (rule power_increasing) auto
  show ?case
  proof (cases "v div 2 ^ E mod 2 = 0")
    case True
    then show ?thesis using k unfolding v
      by (intro exI [of _ k]) (auto simp: dg_Cons Suc_diff_le le_Suc_eq simp del: dg.simps(2))
  next
    case False
    then have "v div 2 ^ E mod 2 = 1" by simp
    moreover have "\<not> 2 ^ E + v mod 2 ^ E < 2 ^ j" if "j \<le> E" for j
      using pow [OF that] by linarith
    ultimately show ?thesis using False mod_less_divisor [of "2 ^ Suc E" v] unfolding v
      by (intro exI [of _ "Suc E"]) (auto simp: dg_Cons le_Suc_eq simp del: dg.simps(2))
  qed
qed simp


lemma dg_add: "dg m (q * 2 ^ m + w) = dg m w"
proof (induction m arbitrary: w)
  case (Suc m)
  have "q * 2 ^ Suc m + w = 2 * (q * 2 ^ m) + w" by simp
  then have "(q * 2 ^ Suc m + w) div 2 = q * 2 ^ m + w div 2" "(q * 2 ^ Suc m + w) mod 2 = w mod 2"
    by (simp_all only: div_mult_self2 mod_mult_self2 mod_mult_self4)
  then show ?case using Suc by (simp only: dg.simps)
qed simp

lemma left_covering_block:
  assumes "s \<le> a" "a - s < 2 ^ n" "E \<le> n" "n \<le> 53"
  obtains p k where "compute_left_covering_prefix a E s n = (Ok p :: (_, 'e) res)" "k \<le> E"
    "block n p ((a - s) div 2 ^ E * 2 ^ E + 2 ^ E - 2 ^ k) k"
    "(a - s) div 2 ^ E * 2 ^ E + 2 ^ E - 2 ^ k \<le> a - s"
    "\<And>j. j \<le> E \<Longrightarrow> (a - s) div 2 ^ E * 2 ^ E + 2 ^ E - 2 ^ j \<le> a - s \<Longrightarrow> k \<le> j"
proof -
  define v q where "v = a - s" and "q = v div 2 ^ E"
  obtain k where k: "k \<le> E" "takeWhile (\<lambda>x. x = 1) (dg E v) = replicate (E - k) 1"
    "2 ^ E - 2 ^ k \<le> v mod 2 ^ E" "\<forall>j\<le>E. 2 ^ E - 2 ^ j \<le> v mod 2 ^ E \<longrightarrow> k \<le> j"
    using takeWhile_ones by blast
  have v: "v = q * 2 ^ E + v mod 2 ^ E" unfolding q_def by (rule div_mult_mod_eq [symmetric])
  have pow: "j \<le> E \<Longrightarrow> (2::nat) ^ j \<le> 2 ^ E" for j by (rule power_increasing) auto
  have E: "(2::nat) ^ E = 2 ^ (E - k) * 2 ^ k" using k(1) by (simp flip: power_add)
  have B: "q * 2 ^ E + 2 ^ E - 2 ^ k = (q * 2 ^ (E - k) + (2 ^ (E - k) - 1)) * 2 ^ k"
    unfolding E by (simp add: add_mult_distrib diff_mult_distrib mult.assoc)
  have dgn: "dg n v = dg (n - E) q @ dg E v" using dg_append [of "n - E" E v] assms(3) by (simp add: q_def)
  let ?p = "dg (n - E) q @ replicate (E - k) 1"
  have "compute_left_covering_prefix a E s n = (Ok ?p :: (_, 'e) res)"
    using assms(1,3,4) k(2) decompose_dg [of v n]
    by (simp add: compute_left_covering_prefix_def usub_def flip: v_def)
       (simp add: decompose_dg [OF assms(2) [folded v_def] assms(4)] dgn split_at_def)
  moreover have "block n ?p (q * 2 ^ E + 2 ^ E - 2 ^ k) k"
  proof -
    have "q * 2 ^ E + 2 ^ E - 2 ^ k \<le> v" using v k(3) by linarith
    moreover have "dg (n - k) (q * 2 ^ (E - k) + (2 ^ (E - k) - 1)) = ?p"
    proof -
      define x where "x = q * 2 ^ (E - k) + (2 ^ (E - k) - 1)"
      have "x div 2 ^ (E - k) = q" unfolding x_def by (subst div_mult_self3) simp_all
      moreover have "dg (E - k) x = replicate (E - k) 1" unfolding x_def dg_add by (rule dg_ones)
      ultimately show ?thesis
        using dg_append [of "n - E" "E - k" x] assms(3) k(1) unfolding x_def [symmetric] by simp
    qed
    ultimately show ?thesis using assms(2,3) k(1) unfolding block_def B v_def [symmetric] by simp
  qed
  moreover have "q * 2 ^ E + 2 ^ E - 2 ^ k \<le> v" using v k(3) by linarith
  moreover have "k \<le> j" if "j \<le> E" "q * 2 ^ E + 2 ^ E - 2 ^ j \<le> v" for j
    using k(4) that pow [OF that(1)] v by auto
  ultimately show thesis using that k(1) unfolding v_def q_def by blast
qed

lemma right_covering_block:
  assumes "b + s < 2 ^ n" "E \<le> n" "n \<le> 53"
  obtains p k where "compute_right_covering_prefix b E s n = (Ok p :: (_, 'e) res)" "k \<le> E"
    "block n p ((b + s) div 2 ^ E * 2 ^ E) k" "b + s < (b + s) div 2 ^ E * 2 ^ E + 2 ^ k"
    "\<And>j. j \<le> E \<Longrightarrow> b + s < (b + s) div 2 ^ E * 2 ^ E + 2 ^ j \<Longrightarrow> k \<le> j"
proof -
  define v q where "v = b + s" and "q = v div 2 ^ E"
  obtain k where k: "k \<le> E" "takeWhile (\<lambda>x. x = 0) (dg E v) = replicate (E - k) 0"
    "v mod 2 ^ E < 2 ^ k" "\<forall>j\<le>E. v mod 2 ^ E < 2 ^ j \<longrightarrow> k \<le> j"
    using takeWhile_zeros by blast
  have v: "v = q * 2 ^ E + v mod 2 ^ E" unfolding q_def by (rule div_mult_mod_eq [symmetric])
  have E: "(2::nat) ^ E = 2 ^ (E - k) * 2 ^ k" using k(1) by (simp flip: power_add)
  have B: "q * 2 ^ E = q * 2 ^ (E - k) * 2 ^ k" unfolding E by simp
  have dgn: "dg n v = dg (n - E) q @ dg E v" using dg_append [of "n - E" E v] assms(2) by (simp add: q_def)
  let ?p = "dg (n - E) q @ replicate (E - k) 0"
  have "(2::nat) ^ n \<le> 2 ^ 53" using assms(3) by (rule power_increasing) simp
  then have "v < usize_bound" using assms(1) by (simp add: v_def)
  then have "compute_right_covering_prefix b E s n = (Ok ?p :: (_, 'e) res)"
    using assms(2) k(2)
    by (simp add: compute_right_covering_prefix_def usub_def uadd_def flip: v_def)
       (simp add: decompose_dg [OF assms(1) [folded v_def] assms(3)] dgn split_at_def)
  moreover have "block n ?p (q * 2 ^ E) k"
  proof -
    have "q * 2 ^ E \<le> v" using v by linarith
    moreover have "dg j 0 = replicate j 0" for j by (induction j) (simp_all add: replicate_append_same)
    then have "dg (n - k) (q * 2 ^ (E - k)) = ?p"
      using dg_append [of "n - E" "E - k" "q * 2 ^ (E - k)"] dg_add [of "E - k" q 0] assms(2) k(1) by simp
    ultimately show ?thesis using assms(1,2) k(1) unfolding block_def B v_def [symmetric] by simp
  qed
  moreover have "v < q * 2 ^ E + 2 ^ k" using v k(3) by linarith
  moreover have "k \<le> j" if "j \<le> E" "v < q * 2 ^ E + 2 ^ j" for j
    using k(4) that v by auto
  ultimately show thesis using that k(1) unfolding v_def q_def by blast
qed


section \<open>Agreement\<close>

lemma dvd_next: "d dvd x \<Longrightarrow> d dvd y \<Longrightarrow> x < (y::nat) \<Longrightarrow> x + d \<le> y"
  by (metis add.commute diff_is_0_eq dvd_diff_nat dvd_imp_le le_diff_conv2 less_imp_le_nat not_le zero_less_diff)

lemma pow2_or_mask: "2 ^ E dvd (l::nat) \<Longrightarrow> l OR (2 ^ E - 1) = l + (2 ^ E - 1)"
proof -
  assume d: "2 ^ E dvd l"
  then obtain c where "l = push_bit E c" by (auto simp: push_bit_eq_mult mult.commute elim: dvdE)
  then have "\<not> bit l i" if "i < E" for i
    using that by (simp add: bit_push_bit_iff)
  then have "l + mask E = l OR mask E"
    by (intro disjunctive_add) (metis bit_mask_iff)
  then show ?thesis by (simp add: mask_eq_exp_minus_1)
qed

lemma and_mask_mod: "(a::nat) AND (2 ^ E - 1) = a mod 2 ^ E"
  using take_bit_eq_mask [of E a] by (simp add: mask_eq_exp_minus_1 take_bit_eq_mod)

text \<open>
  The oracles: the numbers of digits, the number of digits the combinations are computed with,
  and an exponent below which a prefix of an outcome of the first oracle fits all of them.
\<close>

definition oracles :: "nat list \<Rightarrow> nat \<Rightarrow> nat \<Rightarrow> bool" where
  "oracles infos n a \<longleftrightarrow> 2 \<le> length infos \<and> length infos \<le> 31 \<and> n \<le> 53 \<and>
     ((\<forall>nb\<in>set infos. n \<le> nb) \<or> (\<forall>nb\<in>set infos. n \<le> nb \<or> Suc nb = n) \<and> a \<le> 2 ^ (n - 1))"

definition short_of :: "nat list \<Rightarrow> nat \<Rightarrow> nat \<Rightarrow> bool" where
  "short_of infos n E \<longleftrightarrow> (if \<forall>nb\<in>set infos. n \<le> nb then E \<le> n else E < n)"

lemma oracles_fits:
  assumes "oracles infos n u" "block n p a k" "short_of infos n k" "a < u" "nb \<in> set infos"
  shows "fits n nb p"
  using assms by (intro block_fits [OF assms(2)]) (auto simp: oracles_def short_of_def split: if_splits)

lemma oracles_adjustable:
  assumes "oracles infos n u" "block n p a k" "short_of infos n k" "nb \<in> set infos"
  shows "adjustable n nb p"
  using assms by (intro block_adjustable [OF assms(2)]) (auto simp: oracles_def short_of_def split: if_splits)

lemma short_of_mono: "short_of infos n E \<Longrightarrow> k \<le> E \<Longrightarrow> short_of infos n k"
  by (auto simp: short_of_def split: if_splits)

lemma n_usize: "n \<le> 53 \<Longrightarrow> n < usize_bound"
  by simp

lemma single_block:
  assumes "oracles infos n u" "block n p a k" "block n q c j" "short_of infos n j" "a < u" "c \<le> a" "a + 2 ^ k \<le> c + 2 ^ j"
  obtains cs where "single_covering_prefix_combinations p q infos k = (Ok cs :: (_, 'e) res)"
    "\<And>y ys. outcomes infos (y # ys) \<Longrightarrow> covered_by infos [cs] (y # ys) \<longleftrightarrow>
      a \<le> y \<and> y < a + 2 ^ k \<and> (\<forall>z\<in>set ys. c \<le> z \<and> z < c + 2 ^ j)"
proof -
  have "(2::nat) ^ k \<le> 2 ^ j" using assms(6,7) by linarith
  then have kj: "k \<le> j" by (rule power_le_imp_le_exp [rotated]) simp
  have f: "list_all (\<lambda>nb. fits n nb p \<and> fits n nb q) infos"
    using oracles_fits [OF assms(1,2)] oracles_fits [OF assms(1,3,4)] short_of_mono [OF assms(4) kj] assms(5,6)
    by (auto simp: list_all_iff)
  have n: "n < usize_bound" "infos \<noteq> []" using assms(1) n_usize by (auto simp: oracles_def)
  note l = block_length [OF assms(2)] block_length [OF assms(3)]
  have "length q \<le> length p" "length p \<le> n" using l kj by auto
  from single_covers [OF f n(2) this n(1)] obtain cs where cs:
    "single_covering_prefix_combinations p q infos (n - length p) = (Ok cs :: (_, 'e) res)"
    "\<And>y ys. outcomes infos (y # ys) \<Longrightarrow> matches infos cs (y # ys) \<longleftrightarrow> covered n p y \<and> list_all (covered n q) ys"
    by blast
  have nk: "n - length p = k" using l by blast
  show thesis
    by (rule that [OF cs(1) [unfolded nk]]) (simp add: covered_by_def cs(2) list_all_iff block_covers [OF assms(2)] block_covers [OF assms(3)])
qed

lemma double_block:
  assumes "oracles infos n u" "block n p a k" "block n q c j" "block n r d i"
    and "short_of infos n k" "short_of infos n j" "short_of infos n i"
  obtains cs where "double_covering_prefix_combinations p q r infos k = (Ok cs :: (_, 'e) res)"
    "\<And>y ys. outcomes infos (y # ys) \<Longrightarrow> covered_by infos cs (y # ys) \<longleftrightarrow>
      a \<le> y \<and> y < a + 2 ^ k \<and> (\<forall>z\<in>set ys. c \<le> z \<and> z < c + 2 ^ j \<or> d \<le> z \<and> z < d + 2 ^ i)"
proof -
  have f: "list_all (\<lambda>nb. adjustable n nb p \<and> adjustable n nb q \<and> adjustable n nb r) infos"
    using oracles_adjustable [OF assms(1,2,5)] oracles_adjustable [OF assms(1,3,6)] oracles_adjustable [OF assms(1,4,7)]
    by (auto simp: list_all_iff)
  have n: "n < usize_bound" "infos \<noteq> []" "length infos \<le> 31" using assms(1) n_usize by (auto simp: oracles_def)
  from double_covers [OF f n(2,3,1)] obtain cs where cs:
    "double_covering_prefix_combinations p q r infos (n - length p) = (Ok cs :: (_, 'e) res)"
    "\<And>y ys. outcomes infos (y # ys) \<Longrightarrow> covered_by infos cs (y # ys) \<longleftrightarrow>
      covered n p y \<and> list_all (\<lambda>z. covered n q z \<or> covered n r z) ys"
    by blast
  have nk: "n - length p = k" using block_length [OF assms(2)] by blast
  show thesis
    by (rule that [OF cs(1) [unfolded nk]]) (simp add: cs(2) list_all_iff block_covers [OF assms(2)] block_covers [OF assms(3)] block_covers [OF assms(4)])
qed

lemma restricted_block:
  assumes "oracles infos n u" "block n p a k" "block n r d k" "short_of infos n k" "a < u" "a + 2 ^ k \<le> d \<or> d + 2 ^ k \<le> a"
  obtains cs where "double_covering_restricted_prefix_combinations p r infos k = (Ok cs :: (_, 'e) res)"
    "\<And>y ys. outcomes infos (y # ys) \<Longrightarrow> covered_by infos cs (y # ys) \<longleftrightarrow>
      a \<le> y \<and> y < a + 2 ^ k \<and> (\<forall>z\<in>set ys. a \<le> z \<and> z < a + 2 ^ k \<or> d \<le> z \<and> z < d + 2 ^ k) \<and>
      \<not> (\<forall>z\<in>set ys. a \<le> z \<and> z < a + 2 ^ k)"
proof -
  have f: "list_all (\<lambda>nb. fits n nb p \<and> adjustable n nb r) infos"
    using oracles_fits [OF assms(1,2,4,5)] oracles_adjustable [OF assms(1,3,4)] by (auto simp: list_all_iff)
  have n: "n < usize_bound" "infos \<noteq> []" "length infos \<le> 31" using assms(1) n_usize by (auto simp: oracles_def)
  have d: "\<forall>z. \<not> (covered n p z \<and> covered n r z)"
    using assms(6) by (auto simp: block_covers [OF assms(2)] block_covers [OF assms(3)])
  from restricted_covers [OF f n(2,3,1) d] obtain cs where cs:
    "double_covering_restricted_prefix_combinations p r infos (n - length p) = (Ok cs :: (_, 'e) res)"
    "\<And>y ys. outcomes infos (y # ys) \<Longrightarrow> covered_by infos cs (y # ys) \<longleftrightarrow>
      covered n p y \<and> list_all (\<lambda>z. covered n p z \<or> covered n r z) ys \<and> \<not> list_all (covered n p) ys"
    by blast
  have nk: "n - length p = k" using block_length [OF assms(2)] by blast
  show thesis
    by (rule that [OF cs(1) [unfolded nk]]) (simp add: cs(2) list_all_iff block_covers [OF assms(2)] block_covers [OF assms(3)])
qed

text \<open>
  The main outcome lies in \<open>t\<close> numbers from \<open>a\<close>, and each of the others between \<open>lo\<close> and \<open>hi\<close>.
\<close>

definition interval_cover :: "nat list \<Rightarrow> nat \<Rightarrow> nat \<Rightarrow> nat \<Rightarrow> nat \<Rightarrow> nat list list list \<Rightarrow> bool" where
  "interval_cover infos a t lo hi cs \<longleftrightarrow> (\<forall>y ys. outcomes infos (y # ys) \<longrightarrow>
     (covered_by infos cs (y # ys) \<longleftrightarrow> a \<le> y \<and> y < a + t \<and> (\<forall>z\<in>set ys. lo \<le> z \<and> z < hi)))"

text \<open>
  What the bounds have to be: far enough for the minimal support, near enough for the maximal error.
\<close>

definition good_bounds :: "nat \<Rightarrow> nat \<Rightarrow> nat \<Rightarrow> nat \<Rightarrow> nat \<Rightarrow> nat \<Rightarrow> nat \<Rightarrow> bool" where
  "good_bounds n a t s e lo hi \<longleftrightarrow> hi \<le> a + e \<and> a + t \<le> lo + e \<and> lo \<le> a - s \<and> (a + t + s \<le> hi \<or> hi = 2 ^ n)"

lemma single_interval:
  assumes "oracles infos n u" "block n p a k" "block n q c j" "short_of infos n j" "a < u" "c \<le> a" "a + 2 ^ k \<le> c + 2 ^ j"
  obtains cs where "and_then (single_covering_prefix_combinations p q infos k) (\<lambda>c. Ok [c]) = (Ok cs :: (_, 'e) res)"
    "interval_cover infos a (2 ^ k) c (c + 2 ^ j) cs"
proof -
  obtain cs where cs: "single_covering_prefix_combinations p q infos k = (Ok cs :: (_, 'e) res)"
    "\<And>y ys. outcomes infos (y # ys) \<Longrightarrow> covered_by infos [cs] (y # ys) \<longleftrightarrow>
      a \<le> y \<and> y < a + 2 ^ k \<and> (\<forall>z\<in>set ys. c \<le> z \<and> z < c + 2 ^ j)"
    using single_block [OF assms, where ?'e = 'e] by metis
  have "interval_cover infos a (2 ^ k) c (c + 2 ^ j) [cs]" unfolding interval_cover_def using cs(2) by blast
  then show thesis using that cs(1) by simp
qed

lemma double_interval:
  assumes "oracles infos n u" "block n p a k" "block n q c j" "block n r d i"
    and "short_of infos n k" "short_of infos n j" "short_of infos n i"
    and "c + 2 ^ j = d \<and> lo = c \<and> hi = d + 2 ^ i \<or> d + 2 ^ i = c \<and> lo = d \<and> hi = c + 2 ^ j"
  obtains cs where "double_covering_prefix_combinations p q r infos k = (Ok cs :: (_, 'e) res)"
    "interval_cover infos a (2 ^ k) lo hi cs"
proof -
  obtain cs where cs: "double_covering_prefix_combinations p q r infos k = (Ok cs :: (_, 'e) res)"
    "\<And>y ys. outcomes infos (y # ys) \<Longrightarrow> covered_by infos cs (y # ys) \<longleftrightarrow>
      a \<le> y \<and> y < a + 2 ^ k \<and> (\<forall>z\<in>set ys. c \<le> z \<and> z < c + 2 ^ j \<or> d \<le> z \<and> z < d + 2 ^ i)"
    using double_block [OF assms(1-7), where ?'e = 'e] by metis
  have e: "c \<le> z \<and> z < c + 2 ^ j \<or> d \<le> z \<and> z < d + 2 ^ i \<longleftrightarrow> lo \<le> z \<and> z < hi" for z
    using assms(8) by auto
  have "interval_cover infos a (2 ^ k) lo hi cs" unfolding interval_cover_def using cs(2) [unfolded e] by blast
  then show thesis using that cs(1) by simp
qed

text \<open>Where an interval shorter than the maximal error can lie in its block.\<close>

lemma near_left:
  assumes "2 ^ k dvd (a::nat)" "2 ^ E dvd l" "l \<le> a" "a < l + 2 ^ S" "k < E" "S < E"
  shows "a + 2 ^ k \<le> l + 2 ^ (E - 1)"
proof -
  have k: "2 ^ k dvd l" using assms(2,5) by (meson dvd_trans le_imp_power_dvd less_imp_le)
  have le: "(2::nat) ^ k \<le> 2 ^ (E - 1)" "(2::nat) ^ S \<le> 2 ^ (E - 1)" using assms(5,6) by (auto intro: power_increasing)
  show ?thesis
  proof (cases "k \<le> S")
    case True
    then have "(2::nat) ^ k dvd l + 2 ^ S" using k by (simp add: le_imp_power_dvd)
    then show ?thesis using dvd_next [of "2 ^ k" a "l + 2 ^ S"] assms(1,4) le by linarith
  next
    case False
    then have "(2::nat) ^ S \<le> 2 ^ k" by (intro power_increasing) auto
    then have "a = l" using dvd_next [of "2 ^ k" l a] k assms(1,3,4) by linarith
    then show ?thesis using le by simp
  qed
qed

lemma near_right:
  assumes "2 ^ k dvd (a::nat)" "2 ^ E dvd l" "a + 2 ^ k \<le> l + 2 ^ E" "l + 2 ^ E < a + 2 ^ k + 2 ^ S" "k < E" "S < E"
  shows "l + 2 ^ (E - 1) \<le> a"
proof -
  have E: "(2::nat) ^ E = 2 * 2 ^ (E - 1)" using assms(5) by (cases E) auto
  have k: "2 ^ k dvd l + 2 ^ E" using assms(2,5) by (meson dvd_add dvd_refl dvd_trans le_imp_power_dvd less_imp_le)
  have le: "(2::nat) ^ k \<le> 2 ^ (E - 1)" "(2::nat) ^ S \<le> 2 ^ (E - 1)" using assms(5,6) by (auto intro: power_increasing)
  show ?thesis
  proof (cases "k \<le> S")
    case True
    then have "(2::nat) ^ k dvd a + 2 ^ k + 2 ^ S" using assms(1) by (simp add: le_imp_power_dvd)
    then show ?thesis using dvd_next [of "2 ^ k" "l + 2 ^ E" "a + 2 ^ k + 2 ^ S"] k assms(4) le E by linarith
  next
    case False
    then have "(2::nat) ^ S \<le> 2 ^ k" by (intro power_increasing) auto
    moreover have "2 ^ k dvd a + 2 ^ k" using assms(1) by simp
    ultimately have "a + 2 ^ k = l + 2 ^ E" using dvd_next [of "2 ^ k" "a + 2 ^ k" "l + 2 ^ E"] k assms(3,4) by linarith
    then show ?thesis using le E by linarith
  qed
qed

lemma div_block: "l \<le> v \<Longrightarrow> v < l + 2 ^ E \<Longrightarrow> 2 ^ E dvd l \<Longrightarrow> v div 2 ^ E * 2 ^ E = (l::nat)"
proof -
  assume "l \<le> v" "v < l + 2 ^ E" "2 ^ E dvd l"
  moreover from this obtain q where "l = 2 ^ E * q" by blast
  ultimately show ?thesis using nat_div_eq_iff [of "2 ^ E" v q] by (simp add: mult.commute add.commute)
qed


text \<open>The three cases of an interval shorter than the maximal error.\<close>

lemma short_inner:
  assumes o: "oracles infos n u" and p: "block n p a k" and u: "a + 2 ^ k \<le> u" "u \<le> 2 ^ n"
    and E: "short_of infos n E" "k < E" "S < E" and eb: "block n ep l E" "l \<le> a"
    and in_block: "l + 2 ^ S \<le> a" "a + 2 ^ k + 2 ^ S \<le> l + 2 ^ E"
  shows "\<exists>cs lo hi. and_then (if mc then Ok ep
        else compute_min_support_covering_prefix a (a + 2 ^ k - 1) (2 ^ S) n)
      (\<lambda>p'. and_then (single_covering_prefix_combinations p p' infos k) (\<lambda>c. Ok [c])) = (Ok cs :: (_, 'e) res) \<and>
    interval_cover infos a (2 ^ k) lo hi cs \<and> good_bounds n a (2 ^ k) (2 ^ S) (2 ^ E) lo hi"
proof -
  have t: "1 \<le> (2::nat) ^ k" by simp
  then have au: "a < u" using u(1) by linarith
  have lE: "2 ^ E dvd l" "E \<le> n" using eb(1) by (auto simp: block_def)
  have e: "l + 2 ^ E \<le> 2 ^ n" using block_end [OF eb(1)] .
  show ?thesis
  proof (cases mc)
    case True
    have "a + 2 ^ k \<le> l + 2 ^ E" using in_block by linarith
    from single_interval [OF o p eb(1) E(1) au eb(2) this] obtain cs where
      "and_then (single_covering_prefix_combinations p ep infos k) (\<lambda>c. Ok [c]) = (Ok cs :: (_, 'e) res)"
      "interval_cover infos a (2 ^ k) l (l + 2 ^ E) cs" by blast
    moreover have "good_bounds n a (2 ^ k) (2 ^ S) (2 ^ E) l (l + 2 ^ E)"
      unfolding good_bounds_def using in_block eb(2) by auto
    ultimately show ?thesis using True by (intro exI conjI) simp_all
  next
    case False
    have n: "n \<le> 53" using o by (simp add: oracles_def)
    have s: "2 ^ S \<le> a" "a + 2 ^ k - 1 + 2 ^ S < 2 ^ n" "a \<le> a + 2 ^ k - 1"
      using in_block e t by linarith+
    obtain q j c where q: "compute_min_support_covering_prefix a (a + 2 ^ k - 1) (2 ^ S) n = (Ok q :: (_, 'e) res)"
      "block n q c j" "c \<le> a - 2 ^ S" "a + 2 ^ k - 1 + 2 ^ S < c + 2 ^ j"
      "\<And>E. E \<le> n \<Longrightarrow> (a - 2 ^ S) div 2 ^ E = (a + 2 ^ k - 1 + 2 ^ S) div 2 ^ E \<Longrightarrow> j \<le> E"
      using min_support_block [OF s n, where ?'e = 'e] by metis
    have "(a - 2 ^ S) div 2 ^ E * 2 ^ E = l" "(a + 2 ^ k - 1 + 2 ^ S) div 2 ^ E * 2 ^ E = l"
      using in_block t by (intro div_block lE(1); linarith)+
    then have "(a - 2 ^ S) div 2 ^ E = (a + 2 ^ k - 1 + 2 ^ S) div 2 ^ E"
      by (metis mult_cancel2 power_not_zero zero_neq_numeral)
    then have j: "j \<le> E" using q(5) lE(2) by blast
    then have j2: "(2::nat) ^ j \<le> 2 ^ E" by (intro power_increasing) auto
    have c: "c \<le> a" "a + 2 ^ k \<le> c + 2 ^ j" using q(3,4) by linarith+
    from single_interval [OF o p q(2) short_of_mono [OF E(1) j] au c] obtain cs where
      "and_then (single_covering_prefix_combinations p q infos k) (\<lambda>c. Ok [c]) = (Ok cs :: (_, 'e) res)"
      "interval_cover infos a (2 ^ k) c (c + 2 ^ j) cs" by blast
    moreover have "good_bounds n a (2 ^ k) (2 ^ S) (2 ^ E) c (c + 2 ^ j)"
      unfolding good_bounds_def using q(3,4) c j2 by (intro conjI disjI1; linarith)
    ultimately show ?thesis using False q(1) by (intro exI conjI) simp_all
  qed
qed

lemma short_left:
  assumes o: "oracles infos n u" and p: "block n p a k" and u: "a + 2 ^ k \<le> u" "u \<le> 2 ^ n"
    and E: "short_of infos n E" "k < E" "S < E" and eb: "block n ep l E" "l \<le> a" and near: "a < l + 2 ^ S"
  shows "\<exists>cs lo hi. and_then (if mc then Ok ep else compute_right_covering_prefix (a + 2 ^ k - 1) E (2 ^ S) n)
      (\<lambda>rp. if l = 0 then and_then (single_covering_prefix_combinations p rp infos k) (\<lambda>c. Ok [c])
        else and_then
          (if mc then and_then (usub l (2 ^ E div 2)) (\<lambda>l. and_then (usub E 1) (\<lambda>e. num_to_vec l n e 2))
           else compute_left_covering_prefix a E (2 ^ S) n)
          (\<lambda>lp. double_covering_prefix_combinations p rp lp infos k)) = (Ok cs :: (_, 'e) res) \<and>
    interval_cover infos a (2 ^ k) lo hi cs \<and> good_bounds n a (2 ^ k) (2 ^ S) (2 ^ E) lo hi"
proof -
  have t: "1 \<le> (2::nat) ^ k" "1 \<le> (2::nat) ^ S" by simp_all
  then have au: "a < u" using u(1) by linarith
  have n: "n \<le> 53" using o by (simp add: oracles_def)
  have lE: "2 ^ E dvd l" "E \<le> n" "2 ^ k dvd a" using eb(1) p by (auto simp: block_def)
  have e: "l + 2 ^ E \<le> 2 ^ n" using block_end [OF eb(1)] .
  have E2: "(2::nat) ^ E = 2 * 2 ^ (E - 1)" "(2::nat) ^ E div 2 = 2 ^ (E - 1)" using E(2) by (cases E; simp)+
  have S: "(2::nat) ^ S \<le> 2 ^ (E - 1)" using E(3) by (intro power_increasing) auto
  have half: "a + 2 ^ k \<le> l + 2 ^ (E - 1)" by (rule near_left [OF lE(3,1) eb(2) near E(2,3)])
  have l0: "2 ^ E \<le> l" if "l \<noteq> 0" using lE(1) that by (auto intro: dvd_imp_le)
  \<comment> \<open>the right block\<close>
  obtain rp j where r: "(if mc then Ok ep else compute_right_covering_prefix (a + 2 ^ k - 1) E (2 ^ S) n) = (Ok rp :: (_, 'e) res)"
    "block n rp l j" "j \<le> E" "a + 2 ^ k + 2 ^ S \<le> l + 2 ^ j"
  proof (cases mc)
    case True
    have "a + 2 ^ k + 2 ^ S \<le> l + 2 ^ E" using half S E2(1) by linarith
    then show thesis using that [of ep E] eb(1) True by simp
  next
    case False
    have s: "a + 2 ^ k - 1 + 2 ^ S < 2 ^ n" using half S E2(1) e t by linarith
    have d: "(a + 2 ^ k - 1 + 2 ^ S) div 2 ^ E * 2 ^ E = l"
      using half S E2(1) t eb(2) by (intro div_block lE(1)) linarith+
    obtain rp j where "compute_right_covering_prefix (a + 2 ^ k - 1) E (2 ^ S) n = (Ok rp :: (_, 'e) res)" "j \<le> E"
      "block n rp l j" "a + 2 ^ k - 1 + 2 ^ S < l + 2 ^ j"
      using right_covering_block [OF s lE(2) n, where ?'e = 'e] unfolding d by metis
    then show thesis using that [of rp j] False by simp
  qed
  have j2: "(2::nat) ^ j \<le> 2 ^ E" using r(3) by (intro power_increasing) auto
  show ?thesis
  proof (cases "l = 0")
    case True
    have c: "a + 2 ^ k \<le> l + 2 ^ j" using r(4) by linarith
    from single_interval [OF o p r(2) short_of_mono [OF E(1) r(3)] au eb(2) c] obtain cs where
      "and_then (single_covering_prefix_combinations p rp infos k) (\<lambda>c. Ok [c]) = (Ok cs :: (_, 'e) res)"
      "interval_cover infos a (2 ^ k) l (l + 2 ^ j) cs" by blast
    moreover have "good_bounds n a (2 ^ k) (2 ^ S) (2 ^ E) l (l + 2 ^ j)"
      unfolding good_bounds_def using True r(4) j2 half E2(1) by auto
    ultimately show ?thesis using True r(1) by (intro exI conjI) simp_all
  next
    case False
    note l0 = l0 [OF False]
    obtain lp i where lp: "(if mc then and_then (usub l (2 ^ E div 2)) (\<lambda>l. and_then (usub E 1) (\<lambda>e. num_to_vec l n e 2))
           else compute_left_covering_prefix a E (2 ^ S) n) = (Ok lp :: (_, 'e) res)"
      "block n lp (l - 2 ^ i) i" "i \<le> E - 1" "l - 2 ^ i \<le> a - 2 ^ S"
    proof (cases mc)
      case True
      have "2 ^ (E - 1) dvd l - 2 ^ (E - 1)"
        using lE(1) by (auto simp: E2(1) intro!: dvd_diff_nat dest: dvd_mult_right)
      moreover have "l - 2 ^ (E - 1) < 2 ^ n" using e zero_less_power [of "2::nat" E] by linarith
      ultimately obtain lp where "num_to_vec (l - 2 ^ (E - 1)) n (E - 1) 2 = (Ok lp :: (_, 'e) res)" "block n lp (l - 2 ^ (E - 1)) (E - 1)"
        using num_to_vec_block [of "E - 1" "l - 2 ^ (E - 1)" n, where ?'e = 'e] lE(2) n by (metis diff_le_self order_trans)
      moreover have "l - 2 ^ (E - 1) \<le> a - 2 ^ S" using S eb(2) by linarith
      ultimately show thesis using that [of lp "E - 1"] True l0 E2 E(2) by (simp add: usub_def)
    next
      case False
      have s: "2 ^ S \<le> a" "a - 2 ^ S < 2 ^ n" using l0 S E2(1) eb(2) e near by linarith+
      have d: "(a - 2 ^ S) div 2 ^ E * 2 ^ E = l - 2 ^ E"
      proof (rule div_block)
        show "l - 2 ^ E \<le> a - 2 ^ S" "a - 2 ^ S < l - 2 ^ E + 2 ^ E" using l0 S E2(1) near eb(2) by linarith+
        show "2 ^ E dvd l - 2 ^ E" using lE(1) by (simp add: dvd_diff_nat)
      qed
      obtain lp i where c: "compute_left_covering_prefix a E (2 ^ S) n = (Ok lp :: (_, 'e) res)" "i \<le> E"
        "block n lp (l - 2 ^ E + 2 ^ E - 2 ^ i) i" "l - 2 ^ E + 2 ^ E - 2 ^ i \<le> a - 2 ^ S"
        "\<And>j. j \<le> E \<Longrightarrow> l - 2 ^ E + 2 ^ E - 2 ^ j \<le> a - 2 ^ S \<Longrightarrow> i \<le> j"
        using left_covering_block [OF s lE(2) n, where ?'e = 'e] unfolding d by metis
      have "l - 2 ^ E + 2 ^ E - 2 ^ (E - 1) \<le> a - 2 ^ S" using l0 S eb(2) by linarith
      then have "i \<le> E - 1" by (intro c(5)) simp_all
      then show thesis using that [of lp i] c False l0 by simp
    qed
    have i2: "(2::nat) ^ i \<le> 2 ^ (E - 1)" using lp(3) by (intro power_increasing) auto
    have adj: "l + 2 ^ j = l - 2 ^ i \<and> l - 2 ^ i = l \<and> l + 2 ^ j = l - 2 ^ i + 2 ^ i \<or>
        l - 2 ^ i + 2 ^ i = l \<and> l - 2 ^ i = l - 2 ^ i \<and> l + 2 ^ j = l + 2 ^ j"
      using i2 l0 E2(1) by linarith
    have sh: "short_of infos n k" "short_of infos n i"
      using E(2) lp(3) by (auto intro!: short_of_mono [OF E(1)])
    from double_interval [OF o p r(2) lp(2) sh(1) short_of_mono [OF E(1) r(3)] sh(2) adj] obtain cs where
      "double_covering_prefix_combinations p rp lp infos k = (Ok cs :: (_, 'e) res)"
      "interval_cover infos a (2 ^ k) (l - 2 ^ i) (l + 2 ^ j) cs" by blast
    moreover have "good_bounds n a (2 ^ k) (2 ^ S) (2 ^ E) (l - 2 ^ i) (l + 2 ^ j)"
      unfolding good_bounds_def using r(4) j2 i2 half E2(1) lp(4) eb(2) by linarith
    ultimately show ?thesis using False r(1) lp(1) by (intro exI conjI) simp_all
  qed
qed


lemma short_right:
  assumes o: "oracles infos n u" and p: "block n p a k" and u: "a + 2 ^ k \<le> u" "u \<le> 2 ^ n"
    and E: "short_of infos n E" "k < E" "S < E" and eb: "block n ep l E" "a + 2 ^ k \<le> l + 2 ^ E"
    and far: "l + 2 ^ S \<le> a" and near: "l + 2 ^ E < a + 2 ^ k + 2 ^ S"
  shows "\<exists>cs lo hi. and_then (if mc then Ok ep else compute_left_covering_prefix a E (2 ^ S) n)
      (\<lambda>lp. if l + (2 ^ E - 1) = 2 ^ n - 1 then and_then (single_covering_prefix_combinations p lp infos k) (\<lambda>c. Ok [c])
        else and_then
          (if mc then and_then (uadd (l + (2 ^ E - 1)) 1) (\<lambda>r. and_then (usub E 1) (\<lambda>e. num_to_vec r n e 2))
           else compute_right_covering_prefix (a + 2 ^ k - 1) E (2 ^ S) n)
          (\<lambda>rp. double_covering_prefix_combinations p lp rp infos k)) = (Ok cs :: (_, 'e) res) \<and>
    interval_cover infos a (2 ^ k) lo hi cs \<and> good_bounds n a (2 ^ k) (2 ^ S) (2 ^ E) lo hi"
proof -
  have t: "1 \<le> (2::nat) ^ k" "1 \<le> (2::nat) ^ S" "1 \<le> (2::nat) ^ E" by simp_all
  then have au: "a < u" using u(1) by linarith
  have n: "n \<le> 53" using o by (simp add: oracles_def)
  have lE: "2 ^ E dvd l" "E \<le> n" "2 ^ k dvd a" using eb(1) p by (auto simp: block_def)
  have e: "l + 2 ^ E \<le> 2 ^ n" using block_end [OF eb(1)] .
  have E2: "(2::nat) ^ E = 2 * 2 ^ (E - 1)" using E(2) by (cases E; simp)+
  have S: "(2::nat) ^ S \<le> 2 ^ (E - 1)" using E(3) by (intro power_increasing) auto
  have half: "l + 2 ^ (E - 1) \<le> a" by (rule near_right [OF lE(3,1) eb(2) near E(2,3)])
  obtain lp i where lp: "(if mc then Ok ep else compute_left_covering_prefix a E (2 ^ S) n) = (Ok lp :: (_, 'e) res)"
    "block n lp (l + 2 ^ E - 2 ^ i) i" "i \<le> E" "l + 2 ^ E - 2 ^ i \<le> a - 2 ^ S"
  proof (cases mc)
    case True
    have "l \<le> a - 2 ^ S" using far by linarith
    then show thesis using that [of ep E] eb(1) True by simp
  next
    case False
    have s: "2 ^ S \<le> a" "a - 2 ^ S < 2 ^ n" using far e eb(2) t by linarith+
    have d: "(a - 2 ^ S) div 2 ^ E * 2 ^ E = l"
      using far eb(2) t by (intro div_block lE(1)) linarith+
    obtain lp i where "compute_left_covering_prefix a E (2 ^ S) n = (Ok lp :: (_, 'e) res)" "i \<le> E"
      "block n lp (l + 2 ^ E - 2 ^ i) i" "l + 2 ^ E - 2 ^ i \<le> a - 2 ^ S"
      using left_covering_block [OF s lE(2) n, where ?'e = 'e] unfolding d by metis
    then show thesis using that [of lp i] False by simp
  qed
  have i2: "(2::nat) ^ i \<le> 2 ^ E" using lp(3) by (intro power_increasing) auto
  have lpe: "l + 2 ^ E - 2 ^ i + 2 ^ i = l + 2 ^ E" using i2 by linarith
  show ?thesis
  proof (cases "l + 2 ^ E = 2 ^ n")
    case True
    have c: "l + 2 ^ E - 2 ^ i \<le> a" "a + 2 ^ k \<le> l + 2 ^ E - 2 ^ i + 2 ^ i" using lp(4) lpe eb(2) by linarith+
    from single_interval [OF o p lp(2) short_of_mono [OF E(1) lp(3)] au c] obtain cs where
      "and_then (single_covering_prefix_combinations p lp infos k) (\<lambda>c. Ok [c]) = (Ok cs :: (_, 'e) res)"
      "interval_cover infos a (2 ^ k) (l + 2 ^ E - 2 ^ i) (l + 2 ^ E) cs" unfolding lpe by blast
    moreover have "good_bounds n a (2 ^ k) (2 ^ S) (2 ^ E) (l + 2 ^ E - 2 ^ i) (l + 2 ^ E)"
      unfolding good_bounds_def using True lp(4) i2 half E2 eb(2) far by (intro conjI disjI2; linarith)
    moreover have "l + (2 ^ E - 1) = 2 ^ n - 1" using True t by linarith
    ultimately show ?thesis using lp(1) by (intro exI conjI) simp_all
  next
    case False
    have "(2::nat) ^ E dvd 2 ^ n" "2 ^ E dvd l + 2 ^ E" using lE by (auto simp: le_imp_power_dvd)
    then have e2: "l + 2 ^ E + 2 ^ E \<le> 2 ^ n" using dvd_next [of "2 ^ E" "l + 2 ^ E" "2 ^ n"] e False by simp
    have nz: "l + (2 ^ E - 1) \<noteq> 2 ^ n - 1" using e2 t by linarith
    have lr: "l + (2 ^ E - 1) + 1 = l + 2 ^ E" using t by linarith
    have "(2::nat) ^ n \<le> 2 ^ 53" using n by (rule power_increasing) simp
    then have us: "l + 2 ^ E < usize_bound" using e by simp
    obtain rp j where r: "(if mc then and_then (uadd (l + (2 ^ E - 1)) 1) (\<lambda>r. and_then (usub E 1) (\<lambda>e. num_to_vec r n e 2))
           else compute_right_covering_prefix (a + 2 ^ k - 1) E (2 ^ S) n) = (Ok rp :: (_, 'e) res)"
      "block n rp (l + 2 ^ E) j" "j \<le> E - 1" "a + 2 ^ k + 2 ^ S \<le> l + 2 ^ E + 2 ^ j"
    proof (cases mc)
      case True
      have "2 ^ (E - 1) dvd l + 2 ^ E" using lE(1) by (auto simp: E2 dest: dvd_mult_right)
      moreover have "l + 2 ^ E < 2 ^ n" using e2 t by linarith
      ultimately obtain rp where "num_to_vec (l + 2 ^ E) n (E - 1) 2 = (Ok rp :: (_, 'e) res)" "block n rp (l + 2 ^ E) (E - 1)"
        using num_to_vec_block [of "E - 1" "l + 2 ^ E" n, where ?'e = 'e] lE(2) n by (metis diff_le_self order_trans)
      moreover have "a + 2 ^ k + 2 ^ S \<le> l + 2 ^ E + 2 ^ (E - 1)" using eb(2) S by linarith
      ultimately show thesis using that [of rp "E - 1"] True E(2) us by (simp add: uadd_def usub_def lr)
    next
      case False
      have s: "a + 2 ^ k - 1 + 2 ^ S < 2 ^ n" using eb(2) S E2 e2 t by linarith
      have d: "(a + 2 ^ k - 1 + 2 ^ S) div 2 ^ E * 2 ^ E = l + 2 ^ E"
        using eb(2) near S E2 t lE(1) by (intro div_block) (linarith+, simp)
      obtain rp j where c: "compute_right_covering_prefix (a + 2 ^ k - 1) E (2 ^ S) n = (Ok rp :: (_, 'e) res)"
        "block n rp (l + 2 ^ E) j" "a + 2 ^ k - 1 + 2 ^ S < l + 2 ^ E + 2 ^ j"
        "\<And>j'. j' \<le> E \<Longrightarrow> a + 2 ^ k - 1 + 2 ^ S < l + 2 ^ E + 2 ^ j' \<Longrightarrow> j \<le> j'"
        using right_covering_block [OF s lE(2) n, where ?'e = 'e] unfolding d by metis
      have "a + 2 ^ k - 1 + 2 ^ S < l + 2 ^ E + 2 ^ (E - 1)" using eb(2) S t by linarith
      then have "j \<le> E - 1" using c(4) [of "E - 1"] by simp
      moreover have "a + 2 ^ k + 2 ^ S \<le> l + 2 ^ E + 2 ^ j" using c(3) by linarith
      ultimately show thesis using that [of rp j] c(1,2) False by simp
    qed
    have j2: "(2::nat) ^ j \<le> 2 ^ (E - 1)" using r(3) by (intro power_increasing) auto
    have adj: "l + 2 ^ E - 2 ^ i + 2 ^ i = l + 2 ^ E \<and> l + 2 ^ E - 2 ^ i = l + 2 ^ E - 2 ^ i \<and> l + 2 ^ E + 2 ^ j = l + 2 ^ E + 2 ^ j \<or>
        l + 2 ^ E + 2 ^ j = l + 2 ^ E - 2 ^ i \<and> l + 2 ^ E - 2 ^ i = l + 2 ^ E \<and> l + 2 ^ E + 2 ^ j = l + 2 ^ E - 2 ^ i + 2 ^ i"
      using lpe by simp
    have sh: "short_of infos n k" "short_of infos n j"
      using E(2) r(3) by (auto intro!: short_of_mono [OF E(1)])
    from double_interval [OF o p lp(2) r(2) sh(1) short_of_mono [OF E(1) lp(3)] sh(2) adj] obtain cs where
      "double_covering_prefix_combinations p lp rp infos k = (Ok cs :: (_, 'e) res)"
      "interval_cover infos a (2 ^ k) (l + 2 ^ E - 2 ^ i) (l + 2 ^ E + 2 ^ j) cs" by blast
    moreover have "good_bounds n a (2 ^ k) (2 ^ S) (2 ^ E) (l + 2 ^ E - 2 ^ i) (l + 2 ^ E + 2 ^ j)"
      unfolding good_bounds_def using r(4) j2 i2 half E2 lp(4) eb(2) far by (intro conjI disjI1; linarith)
    ultimately show ?thesis using nz r(1) lp(1) by (intro exI conjI) simp_all
  qed
qed

lemma short_interval_correct:
  assumes o: "oracles infos n u" and p: "block n p a k" and u: "a + 2 ^ k \<le> u" "u \<le> 2 ^ n"
    and E: "short_of infos n E" "k < E" "S < E"
  shows "\<exists>cs lo hi. short_interval_combinations infos p n (2 ^ n - 1) E (2 ^ E) (2 ^ E div 2) (2 ^ S) k a
      (a + 2 ^ k - 1) mc = (Ok cs :: (_, 'e) res) \<and>
    interval_cover infos a (2 ^ k) lo hi cs \<and> good_bounds n a (2 ^ k) (2 ^ S) (2 ^ E) lo hi"
proof -
  define l where "l = a div 2 ^ E * 2 ^ E"
  have n: "n \<le> 53" using o by (simp add: oracles_def)
  have E53: "E \<le> n" using E(1) by (auto simp: short_of_def split: if_splits)
  have "(2::nat) ^ n \<le> 2 ^ 53" using n by (rule power_increasing) simp
  then have nu: "(2::nat) ^ n < usize_bound" by simp
  have a: "a < 2 ^ n" "2 ^ k dvd a" using p by (auto simp: block_def)
  have l: "2 ^ E dvd l" "l \<le> a" "a mod 2 ^ E = a - l" by (simp_all add: l_def minus_div_mult_eq_mod)
  have lt: "a < l + 2 ^ E" using dividend_less_div_times [of "2 ^ E" a] by (simp add: l_def add.commute)
  obtain ep where ep: "num_to_vec l n E 2 = (Ok ep :: (_, 'e) res)" "block n ep l E"
    using num_to_vec_block [of E l n, where ?'e = 'e] l(1,2) a(1) E53 n by (metis le_less_trans)
  have t: "1 \<le> (2::nat) ^ k" "1 \<le> (2::nat) ^ E" "(2::nat) ^ S \<le> 2 ^ (E - 1)" "(2::nat) ^ E = 2 * 2 ^ (E - 1)"
    using E(2,3) by (auto intro: power_increasing simp flip: power_Suc)
  have "2 ^ k dvd l + 2 ^ E" using l(1) E(2) by (meson dvd_add dvd_refl dvd_trans le_imp_power_dvd less_imp_le)
  then have al: "a + 2 ^ k \<le> l + 2 ^ E" using dvd_next a(2) lt by blast
  have sh: "ushr a E = (Ok (a div 2 ^ E) :: (_, 'e) res)" "ushl (a div 2 ^ E) E = (Ok l :: (_, 'e) res)"
    using E53 n l(2) a(1) nu by (simp_all add: ushr_def ushl_def flip: l_def)
  have sub: "usub (l + (2 ^ E - 1)) (2 ^ S) = (Ok (l + (2 ^ E - 1) - 2 ^ S) :: (_, 'e) res)"
  proof -
    have "2 ^ S \<le> l + (2 ^ E - 1)" using t by linarith
    then show ?thesis by (simp only: usub_eq_Ok simp_thms)
  qed
  note unf = short_interval_combinations_def Let_def sh and_then_simps pow2_or_mask [OF l(1)] ep(1) sub and_mask_mod l(3)
  consider "l + 2 ^ S \<le> a" "a + 2 ^ k + 2 ^ S \<le> l + 2 ^ E" | "a < l + 2 ^ S"
    | "l + 2 ^ S \<le> a" "l + 2 ^ E < a + 2 ^ k + 2 ^ S" by linarith
  then show ?thesis
  proof cases
    case 1
    then have c: "2 ^ S \<le> a - l \<and> a + 2 ^ k - 1 \<le> l + (2 ^ E - 1) - 2 ^ S" using t by linarith
    show ?thesis unfolding unf if_P [OF c] by (rule short_inner [OF o p u E ep(2) l(2) 1])
  next
    case 2
    then have c: "\<not> (2 ^ S \<le> a - l \<and> a + 2 ^ k - 1 \<le> l + (2 ^ E - 1) - 2 ^ S)" "a - l < 2 ^ S" using l(2) by linarith+
    show ?thesis unfolding unf if_not_P [OF c(1)] if_P [OF c(2)] by (rule short_left [OF o p u E ep(2) l(2) 2])
  next
    case 3
    then have c: "\<not> (2 ^ S \<le> a - l \<and> a + 2 ^ k - 1 \<le> l + (2 ^ E - 1) - 2 ^ S)" "\<not> a - l < 2 ^ S"
      "l + (2 ^ E - 1) - 2 ^ S < a + 2 ^ k - 1" using t l(2) by linarith+
    show ?thesis unfolding unf if_not_P [OF c(1)] if_not_P [OF c(2)] if_P [OF c(3)]
      by (rule short_right [OF o p u E ep(2) al 3])
  qed
qed


text \<open>The two ends of an interval at least as long as the maximal error.\<close>

definition end_cover :: "nat list \<Rightarrow> nat \<Rightarrow> nat \<Rightarrow> nat \<Rightarrow> nat list list list \<Rightarrow> bool" where
  "end_cover infos a d h cs \<longleftrightarrow> (\<forall>y ys. outcomes infos (y # ys) \<longrightarrow>
     (covered_by infos cs (y # ys) \<longleftrightarrow> a \<le> y \<and> y < a + h \<and>
       (\<forall>z\<in>set ys. a \<le> z \<and> z < a + h \<or> d \<le> z \<and> z < d + h) \<and> \<not> (\<forall>z\<in>set ys. a \<le> z \<and> z < a + h)))"

lemma restricted_end:
  assumes "oracles infos n u" "2 ^ e dvd a" "2 ^ e dvd d" "a < 2 ^ n" "d < 2 ^ n" "short_of infos n e" "a < u"
    and "a + 2 ^ e \<le> d \<or> d + 2 ^ e \<le> a"
  obtains p r cs where "num_to_vec a n e 2 = (Ok p :: (_, 'e) res)" "num_to_vec d n e 2 = (Ok r :: (_, 'e) res)"
    "n - length p = e" "length p \<le> n"
    "double_covering_restricted_prefix_combinations p r infos e = (Ok cs :: (_, 'e) res)"
    "end_cover infos a d (2 ^ e) cs"
proof -
  have n: "n \<le> 53" "e \<le> n" using assms(1,6) by (auto simp: oracles_def short_of_def split: if_splits)
  obtain p where p: "num_to_vec a n e 2 = (Ok p :: (_, 'e) res)" "block n p a e"
    using num_to_vec_block [OF assms(2,4) n(2,1)] by blast
  obtain r where r: "num_to_vec d n e 2 = (Ok r :: (_, 'e) res)" "block n r d e"
    using num_to_vec_block [OF assms(3,5) n(2,1)] by blast
  obtain cs where cs: "double_covering_restricted_prefix_combinations p r infos e = (Ok cs :: (_, 'e) res)"
    "\<And>y ys. outcomes infos (y # ys) \<Longrightarrow> covered_by infos cs (y # ys) \<longleftrightarrow>
      a \<le> y \<and> y < a + 2 ^ e \<and> (\<forall>z\<in>set ys. a \<le> z \<and> z < a + 2 ^ e \<or> d \<le> z \<and> z < d + 2 ^ e) \<and>
      \<not> (\<forall>z\<in>set ys. a \<le> z \<and> z < a + 2 ^ e)"
    by (rule restricted_block [OF assms(1) p(2) r(2) assms(6-8)]) (rule that)
  have "end_cover infos a d (2 ^ e) cs" unfolding end_cover_def using cs(2) by blast
  moreover have "length p \<le> n" "n - length p = e" using block_length [OF p(2)] by auto
  ultimately show thesis using that [OF p(1) r(1) _ _ cs(1)] by blast
qed

lemma left_end_correct:
  assumes o: "oracles infos n u" and a: "2 ^ E dvd a" "a < 2 ^ n" "a < u" and E: "short_of infos n E" "S < E"
    and e: "e = (if mc then E - 1 else S)"
  shows "\<exists>cs. left_end_combinations infos n E (2 ^ E div 2) S (2 ^ S) a mc = (Ok cs :: (_, 'e) res) \<and>
    (if a = 0 then cs = [] else 2 ^ E \<le> a \<and> end_cover infos a (a - 2 ^ e) (2 ^ e) cs)"
proof (cases "a = 0")
  case False
  have eE: "e < E" using E(2) e by simp
  have E2: "(2::nat) ^ E div 2 = 2 ^ (E - 1)" using eE by (cases E; simp)
  have "2 ^ e dvd (2::nat) ^ E" using eE by (simp add: le_imp_power_dvd)
  then have d1: "2 ^ e dvd a" by (rule dvd_trans [OF _ a(1)])
  note d = d1 dvd_diff_nat [OF d1 dvd_refl]
  have Ea: "2 ^ E \<le> a" using a(1) False by (auto intro: dvd_imp_le)
  moreover have "(2::nat) ^ e \<le> 2 ^ E" using eE by (intro power_increasing) auto
  ultimately have le: "2 ^ e \<le> a" by linarith
  then have dis: "a - 2 ^ e < 2 ^ n" "a + 2 ^ e \<le> a - 2 ^ e \<or> a - 2 ^ e + 2 ^ e \<le> a" using a(2) by linarith+
  obtain p r cs where c: "num_to_vec a n e 2 = (Ok p :: (_, 'e) res)" "num_to_vec (a - 2 ^ e) n e 2 = (Ok r :: (_, 'e) res)"
    "n - length p = e" "length p \<le> n"
    "double_covering_restricted_prefix_combinations p r infos e = (Ok cs :: (_, 'e) res)"
    "end_cover infos a (a - 2 ^ e) (2 ^ e) cs"
    using restricted_end [OF o d a(2) dis(1) short_of_mono [OF E(1) less_imp_le [OF eE]] a(3) dis(2)] by blast
  have "left_end_combinations infos n E (2 ^ E div 2) S (2 ^ S) a mc = (Ok cs :: (_, 'e) res)"
    using False c(1-5) e le eE
    by (cases mc) (simp_all add: left_end_combinations_def E2 usub_def)
  then show ?thesis using False c(6) Ea by auto
qed (simp add: left_end_combinations_def)

lemma right_end_correct:
  assumes o: "oracles infos n u" and b: "2 ^ E dvd b" "0 < b" "b \<le> 2 ^ n" "b \<le> u" and E: "short_of infos n E" "S < E"
    and e: "e = (if mc then E - 1 else S)"
  shows "\<exists>cs. right_end_combinations infos n (2 ^ n - 1) E (2 ^ E div 2) S (2 ^ S) (b - 1) mc = (Ok cs :: (_, 'e) res) \<and>
    (if b = 2 ^ n then cs = [] else 2 ^ E \<le> b \<and> end_cover infos (b - 2 ^ e) b (2 ^ e) cs)"
proof (cases "b = 2 ^ n")
  case False
  have n: "n \<le> 53" using o by (simp add: oracles_def)
  have "(2::nat) ^ n \<le> 2 ^ 53" using n by (rule power_increasing) simp
  then have us: "b < usize_bound" using b(3) by simp
  have eE: "e < E" using E(2) e by simp
  have E2: "(2::nat) ^ E div 2 = 2 ^ (E - 1)" using eE by (cases E; simp)
  have "2 ^ e dvd (2::nat) ^ E" using eE by (simp add: le_imp_power_dvd)
  then have d1: "2 ^ e dvd b" by (rule dvd_trans [OF _ b(1)])
  note d = d1 dvd_diff_nat [OF d1 dvd_refl]
  have Eb: "2 ^ E \<le> b" using b(1,2) by (auto intro: dvd_imp_le)
  moreover have "(2::nat) ^ e < 2 ^ E" using eE by simp
  ultimately have le: "2 ^ e < b" by linarith
  have pos: "0 < (2::nat) ^ e" by simp
  have dis: "b - 2 ^ e < 2 ^ n" "b < 2 ^ n" "b - 2 ^ e < u" "b - 2 ^ e + 2 ^ e \<le> b \<or> b + 2 ^ e \<le> b - 2 ^ e"
    using b False le pos by linarith+
  obtain p r cs where c: "num_to_vec (b - 2 ^ e) n e 2 = (Ok p :: (_, 'e) res)" "num_to_vec b n e 2 = (Ok r :: (_, 'e) res)"
    "n - length p = e" "length p \<le> n"
    "double_covering_restricted_prefix_combinations p r infos e = (Ok cs :: (_, 'e) res)"
    "end_cover infos (b - 2 ^ e) b (2 ^ e) cs"
    using restricted_end [OF o d(2,1) dis(1,2) short_of_mono [OF E(1) less_imp_le [OF eE]] dis(3,4)] by blast
  have nz: "b - 1 \<noteq> 2 ^ n - 1" using False b(2,3) by linarith
  have b1: "b - 1 + 1 = b" "b - 1 - 2 ^ e + 1 = b - 2 ^ e" "2 ^ e \<le> b - 1" using le by linarith+
  have s: "usub (b - 1) (2 ^ e) = (Ok (b - 1 - 2 ^ e) :: (_, 'e) res)" "uadd (b - 1 - 2 ^ e) 1 = (Ok (b - 2 ^ e) :: (_, 'e) res)"
    "uadd (b - 1) 1 = (Ok b :: (_, 'e) res)" "usub E 1 = (Ok (E - 1) :: (_, 'e) res)" "usub n (length p) = (Ok e :: (_, 'e) res)"
    unfolding usub_def uadd_def b1 using us b1(3) eE c(3,4) by simp_all
  have "right_end_combinations infos n (2 ^ n - 1) E (2 ^ E div 2) S (2 ^ S) (b - 1) mc = (Ok cs :: (_, 'e) res)"
  proof (cases mc)
    case True
    then have "e = E - 1" using e by simp
    then show ?thesis using True
      by (simp only: right_end_combinations_def if_P [OF nz] E2 if_True and_then_simps s [unfolded \<open>e = E - 1\<close>] c(1,2,5) [unfolded \<open>e = E - 1\<close>])
  next
    case False
    then have "e = S" using e by simp
    then show ?thesis using False
      by (simp only: right_end_combinations_def if_P [OF nz] E2 if_False and_then_simps s [unfolded \<open>e = S\<close>] c(1,2,5) [unfolded \<open>e = S\<close>])
  qed
  then show ?thesis using False c(6) Eb by auto
qed (simp add: right_end_combinations_def)


lemma compute_outcome_combinations_eq:
  assumes "oracles infos n u" "block n q a k" "S < E" "E \<le> n"
    and "n = (if \<forall>nb\<in>set (tl infos). nb = hd infos then hd infos else hd infos + 1)"
    and "q = (if \<forall>nb\<in>set (tl infos). nb = hd infos then p else 0 # p)"
  shows "compute_outcome_combinations infos p E S mc = (if k < E
     then short_interval_combinations infos q n (2 ^ n - 1) E (2 ^ E) (2 ^ E div 2) (2 ^ S) k a (a + 2 ^ k - 1) mc
     else and_then (left_end_combinations infos n E (2 ^ E div 2) S (2 ^ S) a mc) (\<lambda>ls.
          and_then (single_covering_prefix_combinations q q infos k) (\<lambda>m.
          and_then (right_end_combinations infos n (2 ^ n - 1) E (2 ^ E div 2) S (2 ^ S) (a + 2 ^ k - 1) mc) (\<lambda>rs.
            Ok (ls @ [m] @ rs)))) :: (_, 'e) res)"
proof -
  have n: "n \<le> 53" "1 < length infos" using assms(1) by (auto simp: oracles_def)
  obtain m rest where i: "infos = m # rest" using n(2) by (cases infos) auto
  have pow: "(2::nat) ^ j < usize_bound" "j < 64" if "j \<le> n" for j
  proof -
    have "(2::nat) ^ j \<le> 2 ^ 53" using that n(1) by (intro power_increasing) auto
    then show "(2::nat) ^ j < usize_bound" by simp
  qed (use that n(1) in simp)
  have shl: "ushl 1 j = (Ok (2 ^ j) :: (_, 'e) res)" if "j \<le> n" for j
    using pow [OF that] by (simp add: ushl_def)
  have sub: "usub (2 ^ j) 1 = (Ok (2 ^ j - 1) :: (_, 'e) res)" for j
    by (simp add: usub_def)
  have k: "usub n (length q) = (Ok k :: (_, 'e) res)"
    using block_length [OF assms(2)] assms(2) by (simp add: usub_def block_def)
  have add: "uadd m 1 = (Ok (m + 1) :: (_, 'e) res)" if "m + 1 \<le> n"
    using that n(1) by (simp add: uadd_def)
  note iv = compute_interval_block [OF assms(2) n(1), where ?'e = 'e]
  have pre: "(if list_all (\<lambda>x. x = m) rest
       then and_then (ushl 1 m) (\<lambda>b. and_then (usub b 1) (\<lambda>max_num. Ok (m, max_num, p)))
       else and_then (uadd m 1) (\<lambda>n. and_then (ushl 1 n) (\<lambda>b. and_then (usub b 1) (\<lambda>max_num. Ok (n, max_num, 0 # p)))))
     = (Ok (n, 2 ^ n - 1, q) :: (_, 'e) res)"
  proof (cases "\<forall>nb\<in>set rest. nb = m")
    case True
    then have e: "list_all (\<lambda>x. x = m) rest" "n = m" "q = p" using assms(5,6) by (simp_all add: i list_all_iff)
    have "ushl 1 m = (Ok (2 ^ m) :: (_, 'e) res)" by (rule shl) (simp add: e(2))
    then show ?thesis unfolding if_P [OF e(1)] e(2,3) by (simp only: and_then_simps sub)
  next
    case False
    then have e: "\<not> list_all (\<lambda>x. x = m) rest" "n = m + 1" "q = 0 # p"
      unfolding assms(5,6) i by (simp_all add: list_all_iff)
    have "ushl 1 (m + 1) = (Ok (2 ^ (m + 1)) :: (_, 'e) res)" by (rule shl) (simp add: e(2))
    moreover have "uadd m 1 = (Ok (m + 1) :: (_, 'e) res)" by (rule add) (simp add: e(2))
    ultimately show ?thesis unfolding if_not_P [OF e(1)] e(2,3) by (simp only: and_then_simps sub)
  qed
  have as: "assert_that (1 < length infos \<and> S < E) = (Ok () :: (_, 'e) res)" using n(2) assms(3) by simp
  have ix: "index infos 0 = (Ok m :: (_, 'e) res)" "drop 1 infos = rest" by (simp_all add: i)
  have "S \<le> n" using assms(3,4) by linarith
  then show ?thesis
    by (simp only: compute_outcome_combinations_def as and_then_simps ix pre prod.case shl [OF assms(4)] shl k iv Let_def)
qed

text \<open>What the two ends cover is within the maximal error, and they cover what the middle does not.\<close>

lemma left_end_sound:
  assumes "if a = 0 then ls = [] else e \<le> a \<and> end_cover infos a (a - h) h ls" "2 * h \<le> e"
    and "outcomes infos (y # ys)" "covered_by infos ls (y # ys)"
  shows "a \<le> y \<and> y < a + h \<and> (\<forall>z\<in>set ys. z < y + e \<and> y < z + e)"
proof -
  have "a \<noteq> 0" using assms(1,4) by (auto simp: covered_by_def split: if_splits)
  then have c: "e \<le> a" "a \<le> y" "y < a + h" "\<forall>z\<in>set ys. a \<le> z \<and> z < a + h \<or> a - h \<le> z \<and> z < a - h + h"
    using assms(1,3,4) by (auto simp: end_cover_def)
  have "z < y + e \<and> y < z + e" if "z \<in> set ys" for z
    using c(4) [rule_format, OF that] c(1-3) assms(2) by linarith
  then show ?thesis using c by blast
qed

lemma left_end_complete:
  assumes "if a = 0 then ls = [] else e \<le> a \<and> end_cover infos a (a - h) h ls" "2 * h \<le> e" "s \<le> h"
    and "outcomes infos (y # ys)" "a \<le> y" and near: "\<forall>v\<in>set (y # ys). \<forall>w\<in>set (y # ys). v \<le> w + s"
    and z: "z \<in> set ys" "z < a"
  shows "covered_by infos ls (y # ys)"
proof -
  have c: "e \<le> a" "end_cover infos a (a - h) h ls" using assms(1) z(2) by auto
  have "a \<le> w \<and> w < a + h \<or> a - h \<le> w \<and> w < a - h + h" if "w \<in> set ys" for w
  proof -
    have "w \<le> z + s" "y \<le> w + s" using near that z(1) by auto
    then show ?thesis using z(2) assms(2,3,5) c(1) by linarith
  qed
  moreover have "y < a + h" using near z assms(3) by fastforce
  moreover have "\<not> (\<forall>z\<in>set ys. a \<le> z \<and> z < a + h)" using z by (auto intro!: bexI [of _ z])
  ultimately show ?thesis using c(2) assms(4,5) unfolding end_cover_def by blast
qed

lemma right_end_sound:
  assumes "if b = t then rs = [] else e \<le> b \<and> end_cover infos (b - h) b h rs" "2 * h \<le> e"
    and "outcomes infos (y # ys)" "covered_by infos rs (y # ys)"
  shows "b - h \<le> y \<and> y < b \<and> (\<forall>z\<in>set ys. z < y + e \<and> y < z + e)"
proof -
  have "b \<noteq> t" using assms(1,4) by (auto simp: covered_by_def split: if_splits)
  then have c: "e \<le> b" "b - h \<le> y" "y < b - h + h" "\<forall>z\<in>set ys. b - h \<le> z \<and> z < b - h + h \<or> b \<le> z \<and> z < b + h"
    using assms(1,3,4) by (auto simp: end_cover_def)
  have "z < y + e \<and> y < z + e" if "z \<in> set ys" for z
    using c(4) [rule_format, OF that] c(1-3) assms(2) by linarith
  then show ?thesis using c assms(2) by auto
qed

lemma right_end_complete:
  assumes "if b = t then rs = [] else e \<le> b \<and> end_cover infos (b - h) b h rs" "2 * h \<le> e" "s \<le> h" "b \<le> t"
    and "outcomes infos (y # ys)" "y < b" and near: "\<forall>v\<in>set (y # ys). \<forall>w\<in>set (y # ys). v \<le> w + s"
    and z: "z \<in> set ys" "b \<le> z" "z < t"
  shows "covered_by infos rs (y # ys)"
proof -
  have c: "e \<le> b" "end_cover infos (b - h) b h rs" using assms(1) z(2,3) by auto
  then have h: "b - h + h = b" using assms(2) by linarith
  have "b - h \<le> w \<and> w < b - h + h \<or> b \<le> w \<and> w < b + h" if "w \<in> set ys" for w
  proof -
    have "z \<le> w + s" "w \<le> y + s" using near that z(1) by auto
    then show ?thesis using z(2) assms(2,3,6) unfolding h by linarith
  qed
  moreover have "z \<le> y + s" using near z(1) by auto
  then have "b - h \<le> y \<and> y < b - h + h" using z(2) assms(3,6) unfolding h by linarith
  moreover have "\<not> (\<forall>z\<in>set ys. b - h \<le> z \<and> z < b - h + h)" using z unfolding h by (auto intro!: bexI [of _ z])
  ultimately show ?thesis using c(2) assms(5) unfolding end_cover_def by blast
qed

text \<open>Agreement: near enough for the minimal support, or not farther than the maximal error.\<close>

definition agrees :: "nat list \<Rightarrow> nat \<Rightarrow> nat \<Rightarrow> nat \<Rightarrow> nat \<Rightarrow> nat \<Rightarrow> nat list list list \<Rightarrow> bool" where
  "agrees infos n a t s e cs \<longleftrightarrow> (\<forall>y ys. outcomes infos (y # ys) \<longrightarrow>
     (covered_by infos cs (y # ys) \<longrightarrow> a \<le> y \<and> y < a + t \<and>
       ((\<forall>z\<in>set ys. z < y + e \<and> y < z + e) \<or> (\<forall>z\<in>set ys. a \<le> z \<and> z < a + t))) \<and>
     (a \<le> y \<and> y < a + t \<and> (\<forall>v\<in>set (y # ys). \<forall>w\<in>set (y # ys). v \<le> w + s) \<and> (\<forall>z\<in>set ys. z < 2 ^ n) \<longrightarrow>
       covered_by infos cs (y # ys)))"

lemma interval_agrees:
  assumes "interval_cover infos a t lo hi cs" "good_bounds n a t s e lo hi"
  shows "agrees infos n a t s e cs"
  unfolding agrees_def
proof (intro allI impI conjI)
  fix y ys assume o: "outcomes infos (y # ys)"
  note c = assms(1) [unfolded interval_cover_def, rule_format, OF o]
  have g: "hi \<le> a + e" "a + t \<le> lo + e" "lo \<le> a - s" "a + t + s \<le> hi \<or> hi = 2 ^ n"
    using assms(2) by (auto simp: good_bounds_def)
  {
    assume "covered_by infos cs (y # ys)"
    then have b: "a \<le> y" "y < a + t" "\<forall>z\<in>set ys. lo \<le> z \<and> z < hi" using c by auto
    then have "\<forall>z\<in>set ys. z < y + e \<and> y < z + e" using g by fastforce
    then show "a \<le> y" "y < a + t" "(\<forall>z\<in>set ys. z < y + e \<and> y < z + e) \<or> (\<forall>z\<in>set ys. a \<le> z \<and> z < a + t)"
      using b by blast+
  }
  assume h: "a \<le> y \<and> y < a + t \<and> (\<forall>v\<in>set (y # ys). \<forall>w\<in>set (y # ys). v \<le> w + s) \<and> (\<forall>z\<in>set ys. z < 2 ^ n)"
  have "lo \<le> z \<and> z < hi" if "z \<in> set ys" for z
  proof -
    have "y \<le> z + s" "z \<le> y + s" "z < 2 ^ n" using h that by auto
    then show ?thesis using g h by linarith
  qed
  then show "covered_by infos cs (y # ys)" using c h by blast
qed

lemma ends_agree:
  assumes ls: "if a = 0 then ls = [] else e \<le> a \<and> end_cover infos a (a - h) h ls"
    and rs: "if a + t = 2 ^ n then rs = [] else e \<le> a + t \<and> end_cover infos (a + t - h) (a + t) h rs"
    and m: "\<And>y ys. outcomes infos (y # ys) \<Longrightarrow> covered_by infos [m] (y # ys) \<longleftrightarrow>
      a \<le> y \<and> y < a + t \<and> (\<forall>z\<in>set ys. a \<le> z \<and> z < a + t)"
    and h: "2 * h \<le> e" "s \<le> h" "e \<le> t" "a + t \<le> 2 ^ n"
  shows "agrees infos n a t s e (ls @ [m] @ rs)"
  unfolding agrees_def
proof (intro allI impI conjI)
  fix y ys assume o: "outcomes infos (y # ys)"
  have cov: "covered_by infos (ls @ [m] @ rs) (y # ys) \<longleftrightarrow>
      covered_by infos ls (y # ys) \<or> covered_by infos [m] (y # ys) \<or> covered_by infos rs (y # ys)"
    by (auto simp: covered_by_def)
  {
    assume "covered_by infos (ls @ [m] @ rs) (y # ys)"
    then consider "covered_by infos ls (y # ys)" | "covered_by infos [m] (y # ys)" | "covered_by infos rs (y # ys)"
      using cov by blast
    then have "a \<le> y \<and> y < a + t \<and> ((\<forall>z\<in>set ys. z < y + e \<and> y < z + e) \<or> (\<forall>z\<in>set ys. a \<le> z \<and> z < a + t))"
    proof cases
      case 1
      then show ?thesis using left_end_sound [OF ls h(1) o 1] h by auto
    next
      case 2
      then show ?thesis using m [OF o] by blast
    next
      case 3
      then show ?thesis using right_end_sound [OF rs h(1) o 3] h by auto
    qed
    then show "a \<le> y" "y < a + t" "(\<forall>z\<in>set ys. z < y + e \<and> y < z + e) \<or> (\<forall>z\<in>set ys. a \<le> z \<and> z < a + t)"
      by blast+
  }
  assume n: "a \<le> y \<and> y < a + t \<and> (\<forall>v\<in>set (y # ys). \<forall>w\<in>set (y # ys). v \<le> w + s) \<and> (\<forall>z\<in>set ys. z < 2 ^ n)"
  then consider "\<forall>z\<in>set ys. a \<le> z \<and> z < a + t" | z where "z \<in> set ys" "z < a"
    | z where "z \<in> set ys" "a + t \<le> z" "z < 2 ^ n" by (meson not_le)
  then show "covered_by infos (ls @ [m] @ rs) (y # ys)"
  proof cases
    case 1
    then show ?thesis using n m [OF o] cov by blast
  next
    case (2 z)
    then show ?thesis using left_end_complete [OF ls h(1,2) o _ _ 2] n cov by blast
  next
    case (3 z)
    then show ?thesis using right_end_complete [OF rs h(1,2,4) o _ _ 3] n cov by blast
  qed
qed

lemma long_interval_correct:
  assumes o: "oracles infos n u" and p: "block n q a k" and u: "a + 2 ^ k \<le> u" and E: "short_of infos n E" "S < E" "E \<le> k"
    and kn: "short_of infos n k"
  shows "\<exists>ls m rs. left_end_combinations infos n E (2 ^ E div 2) S (2 ^ S) a mc = (Ok ls :: (_, 'e) res) \<and>
    single_covering_prefix_combinations q q infos k = (Ok m :: (_, 'e) res) \<and>
    right_end_combinations infos n (2 ^ n - 1) E (2 ^ E div 2) S (2 ^ S) (a + 2 ^ k - 1) mc = (Ok rs :: (_, 'e) res) \<and>
    agrees infos n a (2 ^ k) (2 ^ S) (2 ^ E) (ls @ [m] @ rs)"
proof -
  define e where "e = (if mc then E - 1 else S)"
  have ak: "2 ^ k dvd a" "a < 2 ^ n" using p by (auto simp: block_def)
  have t: "0 < (2::nat) ^ k" by simp
  have b: "a + 2 ^ k \<le> 2 ^ n" by (rule block_end [OF p])
  have dvd: "2 ^ E dvd a" "2 ^ E dvd a + 2 ^ k" using ak(1) E(3) by (meson dvd_add dvd_trans le_imp_power_dvd)+
  have au: "a < u" "0 < a + 2 ^ k" using u t by linarith+
  have pow: "2 * 2 ^ e \<le> (2::nat) ^ E" "(2::nat) ^ S \<le> 2 ^ e" "(2::nat) ^ E \<le> 2 ^ k"
    using E(2,3) by (auto simp: e_def intro: power_increasing simp flip: power_Suc)
  obtain ls where ls: "left_end_combinations infos n E (2 ^ E div 2) S (2 ^ S) a mc = (Ok ls :: (_, 'e) res)"
    "if a = 0 then ls = [] else 2 ^ E \<le> a \<and> end_cover infos a (a - 2 ^ e) (2 ^ e) ls"
    using left_end_correct [OF o dvd(1) ak(2) au(1) E(1,2) e_def] by blast
  obtain rs where rs: "right_end_combinations infos n (2 ^ n - 1) E (2 ^ E div 2) S (2 ^ S) (a + 2 ^ k - 1) mc = (Ok rs :: (_, 'e) res)"
    "if a + 2 ^ k = 2 ^ n then rs = [] else 2 ^ E \<le> a + 2 ^ k \<and> end_cover infos (a + 2 ^ k - 2 ^ e) (a + 2 ^ k) (2 ^ e) rs"
    using right_end_correct [OF o dvd(2) au(2) b u E(1,2) e_def] by blast
  obtain m where m: "single_covering_prefix_combinations q q infos k = (Ok m :: (_, 'e) res)"
    "\<And>y ys. outcomes infos (y # ys) \<Longrightarrow> covered_by infos [m] (y # ys) \<longleftrightarrow>
      a \<le> y \<and> y < a + 2 ^ k \<and> (\<forall>z\<in>set ys. a \<le> z \<and> z < a + 2 ^ k)"
    by (rule single_block [OF o p p kn au(1) order_refl order_refl]) (rule that)
  show ?thesis using ls(1) m(1) rs(1) ends_agree [OF ls(2) rs(2) m(2) pow b] by blast
qed

text \<open>The two cases together.\<close>

lemma combinations_agree:
  assumes "2 \<le> length infos" "length infos \<le> 31" "\<forall>nb\<in>set infos. hd infos \<le> nb" "hd infos \<le> 52"
    and "digits_below 2 p" "length p \<le> hd infos" "S < E" "E \<le> hd infos"
  shows "\<exists>cs. compute_outcome_combinations infos p E S mc = (Ok cs :: (_, 'e) res) \<and>
    (\<forall>y ys. outcomes infos (y # ys) \<longrightarrow>
      (covered_by infos cs (y # ys) \<longrightarrow> covered (hd infos) p y \<and>
        ((\<forall>z\<in>set ys. z < y + 2 ^ E \<and> y < z + 2 ^ E) \<or> (\<forall>z\<in>set ys. covered (hd infos) p z))) \<and>
      (covered (hd infos) p y \<and> (\<forall>v\<in>set (y # ys). \<forall>w\<in>set (y # ys). v \<le> w + 2 ^ S) \<longrightarrow>
        covered_by infos cs (y # ys)))"
proof -
  define m n q where "m = hd infos"
    and "n = (if \<forall>nb\<in>set (tl infos). nb = hd infos then hd infos else hd infos + 1)"
    and "q = (if \<forall>nb\<in>set (tl infos). nb = hd infos then p else 0 # p)"
  define a k where "a = plo 2 m p" and "k = m - length p"
  obtain rest where i: "infos = m # rest" using assms(1) by (cases infos) (auto simp: m_def)
  have p: "block m p a k" using prefix_block assms(5,6) by (simp add: a_def k_def m_def)
  have q: "block n q a k"
    using prefix_block [of "0 # p" "Suc m"] assms(5,6) p
    by (auto simp: n_def q_def m_def a_def k_def plo_def)
  have nm: "n = m \<and> (\<forall>nb\<in>set infos. n \<le> nb) \<or> n = Suc m \<and> (\<forall>nb\<in>set infos. n \<le> nb \<or> Suc nb = n)"
    using assms(3) by (auto simp: n_def m_def le_Suc_eq Suc_le_eq)
  then have o: "oracles infos n (2 ^ m)"
    using assms(1,2,4) by (auto simp: oracles_def m_def)
  have E: "short_of infos n E" and k: "short_of infos n k" and En: "E \<le> n"
    using nm assms(8) unfolding k_def by (auto simp: short_of_def m_def)
  have u: "a + 2 ^ k \<le> 2 ^ m" by (rule block_end [OF p])
  have mn: "(2::nat) ^ m \<le> 2 ^ n" by (auto simp: n_def m_def)
  have "\<exists>cs. compute_outcome_combinations infos p E S mc = (Ok cs :: (_, 'e) res) \<and> agrees infos n a (2 ^ k) (2 ^ S) (2 ^ E) cs"
  proof (cases "k < E")
    case True
    then show ?thesis
      unfolding compute_outcome_combinations_eq [OF o q assms(7) En n_def q_def] if_P [OF True]
      using short_interval_correct [OF o q u mn E True assms(7), where ?'e = 'e] interval_agrees by blast
  next
    case False
    then have "E \<le> k" by simp
    from long_interval_correct [OF o q u E assms(7) this k, where ?'e = 'e and mc = mc] obtain ls c rs where
      "left_end_combinations infos n E (2 ^ E div 2) S (2 ^ S) a mc = (Ok ls :: (_, 'e) res)"
      "single_covering_prefix_combinations q q infos k = (Ok c :: (_, 'e) res)"
      "right_end_combinations infos n (2 ^ n - 1) E (2 ^ E div 2) S (2 ^ S) (a + 2 ^ k - 1) mc = (Ok rs :: (_, 'e) res)"
      "agrees infos n a (2 ^ k) (2 ^ S) (2 ^ E) (ls @ [c] @ rs)" by blast
    then show ?thesis
      unfolding compute_outcome_combinations_eq [OF o q assms(7) En n_def q_def] if_not_P [OF False]
      by (intro exI [of _ "ls @ [c] @ rs"]) simp
  qed
  then obtain cs where cs: "compute_outcome_combinations infos p E S mc = (Ok cs :: (_, 'e) res)"
    "agrees infos n a (2 ^ k) (2 ^ S) (2 ^ E) cs" by blast
  have below: "z < 2 ^ n" if out: "outcomes infos (y # ys)" and y: "y < 2 ^ m" and z: "z \<in> set ys" "z \<le> y + 2 ^ S" for y ys z
  proof (cases "\<forall>nb\<in>set (tl infos). nb = hd infos")
    case True
    have "list_all2 (\<lambda>nb y. y < 2 ^ nb) rest ys" using out by (simp add: i outcomes_def)
    then obtain nb where "nb \<in> set rest" "z < 2 ^ nb" using z(1) by (metis in_set_conv_nth list_all2_conv_all_nth)
    then show ?thesis using True by (simp add: n_def i)
  next
    case False
    have "(2::nat) ^ S < 2 ^ m" using assms(7,8) by (intro power_strict_increasing) (auto simp: m_def)
    then have "z < 2 ^ m + 2 ^ m" using y z(2) by linarith
    moreover have "n = Suc m" unfolding n_def m_def if_not_P [OF False] by simp
    ultimately show ?thesis by simp
  qed
  have "covered_by infos cs (y # ys)" if out: "outcomes infos (y # ys)" and y: "a \<le> y" "y < a + 2 ^ k"
    and near: "\<forall>v\<in>set (y # ys). \<forall>w\<in>set (y # ys). v \<le> w + 2 ^ S" for y ys
  proof -
    have "z < 2 ^ n" if "z \<in> set ys" for z using below [OF out _ that] near that y(2) u by auto
    then show ?thesis using cs(2) out y near unfolding agrees_def by blast
  qed
  then show ?thesis
    using cs unfolding m_def [symmetric] block_covers [OF p] agrees_def by blast
qed

text \<open>
  C17. The combinations of agreeing outcomes.  For a prefix of an outcome of the first oracle, which
  has the fewest digits, they cover outcomes of all oracles only if the first one has the
  prefix and each of the others differs from it by less than the maximal error (or they are all
  in the interval of the prefix, which has one payout); and they cover them all when the first one
  has the prefix and no two of them differ by more than the minimal support.
\<close>

theorem outcome_combinations_agree:
  assumes "2 \<le> length infos" "length infos \<le> 31" "\<forall>nb\<in>set infos. hd infos \<le> nb" "hd infos \<le> 52"
    and "digits_below 2 p" "length p \<le> hd infos" "S < E" "E \<le> hd infos"
  shows "\<exists>cs. compute_outcome_combinations infos p E S mc = (Ok cs :: (_, 'e) res) \<and>
    (\<forall>y ys. outcomes infos (y # ys) \<longrightarrow>
      (covered_by infos cs (y # ys) \<longrightarrow> covered (hd infos) p y \<and>
        ((\<forall>z\<in>set ys. z < y + 2 ^ E \<and> y < z + 2 ^ E) \<or> (\<forall>z\<in>set ys. covered (hd infos) p z))) \<and>
      (covered (hd infos) p y \<and> (\<forall>v\<in>set (y # ys). \<forall>w\<in>set (y # ys). v \<le> w + 2 ^ S) \<longrightarrow>
        covered_by infos cs (y # ys)))"
  by (rule combinations_agree [OF assms])

lemma outcome_combinations_agree_witness:
  "\<exists>cs. compute_outcome_combinations [5, 5, 6] [0, 1, 1] 3 1 True = (Ok cs :: (_, unit) res) \<and>
     covered_by [5, 5, 6] cs [13, 15, 14] \<and> \<not> covered_by [5, 5, 6] cs [13, 15, 22]"
proof -
  obtain cs where cs: "compute_outcome_combinations [5, 5, 6] [0, 1, 1] 3 1 True = (Ok cs :: (_, unit) res)"
    "\<forall>y ys. outcomes [5, 5, 6] (y # ys) \<longrightarrow>
      (covered_by [5, 5, 6] cs (y # ys) \<longrightarrow> covered (hd [5, 5, 6]) [0, 1, 1] y \<and>
        ((\<forall>z\<in>set ys. z < y + 2 ^ 3 \<and> y < z + 2 ^ 3) \<or> (\<forall>z\<in>set ys. covered (hd [5, 5, 6]) [0, 1, 1] z))) \<and>
      (covered (hd [5, 5, 6]) [0, 1, 1] y \<and> (\<forall>v\<in>set (y # ys). \<forall>w\<in>set (y # ys). v \<le> w + 2 ^ 1) \<longrightarrow>
        covered_by [5, 5, 6] cs (y # ys))"
    using outcome_combinations_agree [of "[5, 5, 6]" "[0, 1, 1]" 1 3 True, where ?'e = unit] by auto
  have c: "covered 5 [0, 1, 1] 13" "\<not> covered 5 [0, 1, 1] 22"
    by (simp_all add: covered_prefix)
  have "covered_by [5, 5, 6] cs [13, 15, 14]" "\<not> covered_by [5, 5, 6] cs [13, 15, 22]"
    using cs(2) [rule_format, of 13 "[15, 14]"] cs(2) [rule_format, of 13 "[15, 22]"] c by simp_all
  then show ?thesis using cs(1) by blast
qed

end
