(* ===== verification/Trie_Utils.thy ===== *)
theory Trie_Utils
  imports Trie_Types Combination_Iterator Multi_Oracle
begin

text \<open>
  \<open>dlc-trie/src/utils.rs\<close>: the paths that cover the outcomes beyond the range of the oracles
  with the fewest digits, and the callback that hands out adaptor signature indices.
\<close>

section \<open>The callback\<close>

definition get_value_callback ::
  "nat list list \<Rightarrow> nat list \<Rightarrow> nat \<Rightarrow> nat \<times> trie_iter_info list \<Rightarrow> (range_info \<times> nat \<times> trie_iter_info list, 'e) res" where
  "get_value_callback paths oracle_indexes cet = (\<lambda>(adaptor, trie_infos).
     let info = \<lparr>cet_index = cet, adaptor_index = adaptor\<rparr>;
         iter_info = \<lparr>ti_indexes = oracle_indexes, ti_paths = paths, ti_value = info\<rparr> in
     and_then (uadd adaptor 1) (\<lambda>adaptor'. Ok (info, adaptor', trie_infos @ [iter_info])))"

section \<open>Covering the outcomes beyond the common range\<close>

text \<open>The path of one combination for given counters.\<close>

definition covering_path :: "nat \<Rightarrow> nat list \<Rightarrow> nat list \<Rightarrow> (nat \<times> nat list) list" where
  "covering_path min_nb_digits counters combination =
     map (\<lambda>(x, i). (i, if x = 0 then replicate min_nb_digits 1 else replicate (x - 1) 0 @ [1]))
       (zip counters combination)"

text \<open>
  The inner loop: the counters at their maximum start again, the first other one is incremented.
  Running past the last counter is an index out of range.
\<close>

fun next_counters :: "nat \<Rightarrow> nat list \<Rightarrow> nat list \<Rightarrow> nat list \<Rightarrow> (nat list, 'e) res" where
  "next_counters min_nb_digits (i # infos) (m # maxs) (c # counters) =
     (if c = m
      then and_then (next_counters min_nb_digits infos maxs counters) (\<lambda>cs.
             Ok ((if i \<noteq> min_nb_digits then 1 else c) # cs))
      else and_then (uadd c 1) (\<lambda>c'. Ok (c' # counters)))"
| "next_counters min_nb_digits _ _ _ = Panic"

text \<open>
  The outer loop.  It visits each choice of the counters at most once, so the product of the numbers
  of values is enough fuel.
\<close>

fun covering_loop ::
  "nat \<Rightarrow> nat \<Rightarrow> nat list \<Rightarrow> nat list \<Rightarrow> nat list \<Rightarrow> nat list \<Rightarrow> ((nat \<times> nat list) list list, 'e) res" where
  "covering_loop 0 min_nb_digits infos maxs combination counters = Panic"
| "covering_loop (Suc fuel) min_nb_digits infos maxs combination counters =
     (let path = covering_path min_nb_digits counters combination in
      if list_all (\<lambda>(x, y). x = y) (zip counters maxs) then Ok [path]
      else and_then (next_counters min_nb_digits infos maxs counters) (\<lambda>counters'.
           and_then (covering_loop fuel min_nb_digits infos maxs combination counters') (\<lambda>ps. Ok (path # ps))))"

definition get_max_covering_paths ::
  "oracle_numeric_info \<Rightarrow> nat \<Rightarrow> ((nat \<times> nat list) list list, 'e) res" where
  "get_max_covering_paths oracle_numeric_infos threshold =
     and_then (get_min_nb_digits oracle_numeric_infos) (\<lambda>min_nb_digits.
     and_then (ci_new (length (oni_nb_digits oracle_numeric_infos)) threshold) (\<lambda>it.
     and_then (ci_collect it) (\<lambda>combinations.
     and_then (traverse (\<lambda>combination.
         let infos = map snd (filter (\<lambda>(i, x). i \<in> set combination)
               (enumerate 0 (oni_nb_digits oracle_numeric_infos))) in
         if list_all (\<lambda>x. x = min_nb_digits) infos then Ok []
         else
           and_then (traverse (\<lambda>x. usub x min_nb_digits) infos) (\<lambda>maxs.
           let counters = map (\<lambda>x. if x \<noteq> min_nb_digits then 1 else 0) infos in
             covering_loop (prod_list (map Suc maxs)) min_nb_digits infos maxs combination counters)) combinations)
       (\<lambda>paths. Ok (concat paths)))))"

end
