(* ===== verification/Multi_Trie.thy ===== *)
theory Multi_Trie
  imports Trie_Utils Digit_Trie
begin

text \<open>
  \<open>dlc-trie/src/multi_trie.rs\<close>: a trie of tries.  The nodes live in an arena; the roots
  are its first nodes, one for each oracle that can come first.  An inner node is a digit trie
  whose data are lists of children, each with the index of its oracle and its place in the arena;
  a leaf is a digit trie with the values.  An insertion takes the node it visits out of the
  arena and puts it back, as the code does.
\<close>

section \<open>The trie\<close>

record trie_node_info =
  trie_index :: nat
  store_index :: nat

type_synonym 'a mnode = "('a digit_trie, trie_node_info list digit_trie) node"

record 'a multi_trie =
  mt_store :: "'a mnode list"
  mt_nb_tries :: nat
  mt_nb_required :: nat
  mt_min_support_exp :: nat
  mt_max_error_exp :: nat
  mt_maximize_coverage :: bool
  mt_infos :: oracle_numeric_info

definition mnode_new :: "bool \<Rightarrow> nat \<Rightarrow> 'a mnode" where
  "mnode_new is_leaf base = (if is_leaf then Leaf (digit_trie_new base) else Node (digit_trie_new base))"

definition multi_trie_new :: "oracle_numeric_info \<Rightarrow> nat \<Rightarrow> nat \<Rightarrow> nat \<Rightarrow> bool \<Rightarrow> ('a multi_trie, 'e) res" where
  "multi_trie_new oracle_numeric_infos nb_required min_support_exp max_error_exp maximize_coverage =
     (let nb_tries = length (oni_nb_digits oracle_numeric_infos) in
      and_then (assert_that (0 < nb_required \<and> nb_required \<le> nb_tries \<and> oni_nb_digits oracle_numeric_infos \<noteq> [])) (\<lambda>_.
      and_then (usub nb_tries nb_required) (\<lambda>d.
      and_then (uadd d 1) (\<lambda>nb_roots.
        Ok \<lparr>mt_store = map (\<lambda>_. mnode_new (\<not> 1 < nb_required) (oni_base oracle_numeric_infos)) (take nb_roots [0..<nb_tries]),
            mt_nb_tries = nb_tries, mt_nb_required = nb_required, mt_min_support_exp = min_support_exp,
            mt_max_error_exp = max_error_exp, mt_maximize_coverage = maximize_coverage,
            mt_infos = oracle_numeric_infos\<rparr>))))"

section \<open>Insertion\<close>

fun find_store_index :: "trie_node_info list \<Rightarrow> nat \<Rightarrow> nat option" where
  "find_store_index [] ti = None"
| "find_store_index (info # infos) ti =
     (if ti = trie_index info then Some (store_index info) else find_store_index infos ti)"

text \<open>
  The callback of an inner node: it finds the child for the next oracle, or adds a node to
  the arena.  It captures the arena and the index of the child.
\<close>

definition child_callback ::
  "nat \<Rightarrow> nat list list \<Rightarrow> nat \<Rightarrow> nat list \<Rightarrow> (trie_node_info list, 'a mnode list \<times> nat, 'e) get_data" where
  "child_callback base paths path_index trie_indexes old = (\<lambda>(store, si).
     and_then (index trie_indexes (path_index + 1)) (\<lambda>ti.
     let cur_data = (case old of Some d \<Rightarrow> d | None \<Rightarrow> []) in
     case find_store_index cur_data ti of
       Some i \<Rightarrow> Ok (cur_data, (store, i))
     | None \<Rightarrow>
         Ok (cur_data @ [\<lparr>trie_index = ti, store_index = length store\<rparr>],
             (store @ [mnode_new (length paths - 1 = path_index + 1) base], length store))))"

type_synonym ('a, 's, 'e) get_value = "nat list list \<Rightarrow> nat list \<Rightarrow> 's \<Rightarrow> ('a \<times> 's, 'e) res"

function mt_insert_internal ::
  "nat \<Rightarrow> 'a mnode list \<Rightarrow> nat \<Rightarrow> nat list list \<Rightarrow> nat \<Rightarrow> nat list \<Rightarrow> ('a, 's, 'e) get_value \<Rightarrow> 's
    \<Rightarrow> ('a mnode list \<times> 's, 'e) res" where
  "mt_insert_internal base store cur paths path_index trie_indexes get_value s =
     (if \<not> path_index < length paths then Panic
      else
        and_then (index store cur) (\<lambda>cur_node.
        let store1 = store[cur := Node_None] in
        case cur_node of
          Node_None \<Rightarrow> Panic
        | Leaf t \<Rightarrow>
            and_then (assert_that (path_index = length paths - 1)) (\<lambda>_.
            and_then (digit_trie_insert t (paths ! path_index) (\<lambda>_. get_value paths trie_indexes) s) (\<lambda>(t', s').
              Ok (store1[cur := Leaf t'], s')))
        | Node t \<Rightarrow>
            and_then (assert_that (path_index < length paths - 1)) (\<lambda>_.
            and_then (digit_trie_insert t (paths ! path_index)
                        (child_callback base paths path_index trie_indexes) (store1, 0)) (\<lambda>(t', store2, si).
              mt_insert_internal base (store2[cur := Node t']) si paths (path_index + 1) trie_indexes get_value s))))"
  by pat_completeness auto
termination
  by (relation "measure (\<lambda>(base, store, cur, paths, path_index, trie_indexes, get_value, s). length paths - path_index)") auto

declare mt_insert_internal.simps [simp del]

text \<open>\<open>min_by_key\<close> is the first minimum; the minimum goes to the front.\<close>

definition reorder_to_min_first :: "nat list \<Rightarrow> (nat list \<times> nat, 'e) res" where
  "reorder_to_min_first infos =
     (if infos = [] then Panic
      else
        (let min_index = length (takeWhile (\<lambda>x. x \<noteq> Min (set infos)) infos) in
         Ok (if min_index \<noteq> 0
             then infos ! min_index # take min_index infos @ drop (min_index + 1) infos else infos,
             min_index)))"

definition insert_paths ::
  "nat \<Rightarrow> nat list list \<times> nat list \<Rightarrow> ('a, 's, 'e) get_value \<Rightarrow> 'a mnode list \<times> 's \<Rightarrow> ('a mnode list \<times> 's, 'e) res" where
  "insert_paths base = (\<lambda>(paths, indexes) get_value (store, s).
     and_then (index indexes 0) (\<lambda>root. mt_insert_internal base store root paths 0 indexes get_value s))"

definition insert_max_paths ::
  "'a multi_trie \<Rightarrow> ('a, 's, 'e) get_value \<Rightarrow> 's \<Rightarrow> ('a multi_trie \<times> 's, 'e) res" where
  "insert_max_paths trie get_value s =
     and_then (get_max_covering_paths (mt_infos trie) (mt_nb_required trie)) (\<lambda>indexed_paths.
     and_then (fold_res (\<lambda>p. insert_paths (oni_base (mt_infos trie)) (map snd p, map fst p) get_value)
                 indexed_paths (mt_store trie, s)) (\<lambda>(store, s').
       Ok (trie\<lparr>mt_store := store\<rparr>, s')))"

text \<open>The combinations of paths to insert for the oracles of one selector.\<close>

definition selector_combinations :: "'a multi_trie \<Rightarrow> nat list \<Rightarrow> nat list \<Rightarrow> (nat list list list, 'e) res" where
  "selector_combinations trie path sel =
     (if 1 < mt_nb_required trie then
        and_then (get_min_nb_digits (mt_infos trie)) (\<lambda>min_nb_digits.
        let digit_infos = map snd (filter (\<lambda>(i, x). i \<in> set sel) (enumerate 0 (oni_nb_digits (mt_infos trie)))) in
        and_then (reorder_to_min_first digit_infos) (\<lambda>(digit_infos, min_index).
        and_then (index digit_infos 0) (\<lambda>d0.
        and_then (usub d0 min_nb_digits) (\<lambda>to_pad.
        and_then (uadd (length path) to_pad) (\<lambda>expected.
        and_then (pre_pad_vec path expected) (\<lambda>padded_path.
        and_then (compute_outcome_combinations digit_infos padded_path (mt_max_error_exp trie)
                    (mt_min_support_exp trie) (mt_maximize_coverage trie)) (\<lambda>combinations.
          if min_index \<noteq> 0
          then traverse (\<lambda>c. if c = [] \<or> length (tl c) < min_index then Panic
                              else Ok (take min_index (tl c) @ hd c # drop min_index (tl c))) combinations
          else Ok combinations)))))))
      else Ok [[path]])"

definition multi_trie_insert ::
  "'a multi_trie \<Rightarrow> nat list \<Rightarrow> ('a, 's, 'e) get_value \<Rightarrow> 's \<Rightarrow> ('a multi_trie \<times> 's, 'e) res" where
  "multi_trie_insert trie path get_value s =
     and_then (ci_new (mt_nb_tries trie) (mt_nb_required trie)) (\<lambda>it.
     and_then (ci_collect it) (\<lambda>selectors.
     and_then (get_min_nb_digits (mt_infos trie)) (\<lambda>_ :: nat.
     and_then (fold_res (\<lambda>sel (store, s).
         and_then (selector_combinations trie path sel) (\<lambda>combinations.
           fold_res (\<lambda>c. insert_paths (oni_base (mt_infos trie)) (c, sel) get_value) combinations (store, s)))
         selectors (mt_store trie, s)) (\<lambda>(store, s').
       Ok (trie\<lparr>mt_store := store\<rparr>, s')))))"

section \<open>Lookup\<close>

text \<open>A \<open>for\<close> loop that returns at the first success.\<close>

fun first_some :: "('a \<Rightarrow> ('b option, 'e) res) \<Rightarrow> 'a list \<Rightarrow> ('b option, 'e) res" where
  "first_some f [] = Ok None"
| "first_some f (x # xs) = and_then (f x) (\<lambda>r. case r of Some y \<Rightarrow> Ok (Some y) | None \<Rightarrow> first_some f xs)"

lemma first_some_cong [fundef_cong]:
  "xs = ys \<Longrightarrow> (\<And>x. x \<in> set ys \<Longrightarrow> f x = g x) \<Longrightarrow> first_some f xs = first_some g ys"
proof (induction xs arbitrary: ys)
  case (Cons x xs)
  then show ?case by (auto intro!: and_then_cong split: option.split)
qed simp

function mt_look_up_internal ::
  "'a mnode list \<Rightarrow> 'a mnode \<Rightarrow> indexed_path list \<Rightarrow> nat \<Rightarrow> (('a, indexed_path) lookup_result option, 'e) res" where
  "mt_look_up_internal store cur_node paths path_index =
     (if \<not> path_index < length paths then Panic
      else
        (let (ti, path) = paths ! path_index in
         case cur_node of
           Node_None \<Rightarrow> Panic
         | Leaf t \<Rightarrow>
             and_then (digit_trie_look_up t path) (\<lambda>r.
               case r of None \<Rightarrow> Ok None
               | Some rs \<Rightarrow> and_then (index rs 0) (\<lambda>l. Ok (Some \<lparr>lr_path = [(ti, lr_path l)], lr_value = lr_value l\<rparr>)))
         | Node t \<Rightarrow>
             and_then (assert_that (path_index < length paths - 1)) (\<lambda>_.
             and_then (digit_trie_look_up t path) (\<lambda>r.
               case r of None \<Rightarrow> Ok None
               | Some rs \<Rightarrow>
                   first_some (\<lambda>l.
                     case find_store_index (lr_value l) (fst (paths ! (path_index + 1))) of
                       None \<Rightarrow> Ok None
                     | Some i \<Rightarrow>
                         and_then (index store i) (\<lambda>next_node.
                         and_then (mt_look_up_internal store next_node paths (path_index + 1)) (\<lambda>c.
                           Ok (map_option (\<lambda>c. c\<lparr>lr_path := lr_path c @ [(ti, lr_path l)]\<rparr>) c)))) rs))))"
  by pat_completeness auto
termination
  by (relation "measure (\<lambda>(store, cur_node, paths, path_index). length paths - path_index)") auto

declare mt_look_up_internal.simps [simp del]

definition multi_trie_look_up ::
  "'a multi_trie \<Rightarrow> indexed_path list \<Rightarrow> (('a \<times> indexed_path list) option, 'e) res" where
  "multi_trie_look_up trie paths =
     (if length paths < mt_nb_required trie then Ok None
      else
        and_then (ci_new (length paths) (mt_nb_required trie)) (\<lambda>it.
        and_then (usub (mt_nb_tries trie) (mt_nb_required trie)) (\<lambda>d.
        and_then (uadd d 1) (\<lambda>nb_roots.
        and_then (ci_collect it) (\<lambda>selectors.
          first_some (\<lambda>sel.
            and_then (index sel 0) (\<lambda>s0.
            and_then (index paths s0) (\<lambda>p0.
              if nb_roots \<le> fst p0 then Ok None
              else
                and_then (index (mt_store trie) (fst p0)) (\<lambda>node.
                and_then (mt_look_up_internal (mt_store trie) node
                            (map snd (filter (\<lambda>(i, x). i \<in> set sel) (enumerate 0 paths))) 0) (\<lambda>r.
                  Ok (map_option (\<lambda>l. (lr_value l, rev (lr_path l))) r)))))) selectors)))))"

section \<open>Dump\<close>

datatype 'a multi_trie_node_data =
    Leaf_Data "'a digit_trie_dump" | Node_Data "trie_node_info list digit_trie_dump"

record 'a multi_trie_dump =
  md_node_data :: "'a multi_trie_node_data list"
  md_nb_tries :: nat
  md_nb_required :: nat
  md_min_support_exp :: nat
  md_max_error_exp :: nat
  md_maximize_coverage :: bool
  md_infos :: oracle_numeric_info

definition mnode_get_data :: "'a mnode \<Rightarrow> ('a multi_trie_node_data, 'e) res" where
  "mnode_get_data n = (case n of
     Leaf l \<Rightarrow> and_then (digit_trie_dump l) (\<lambda>d. Ok (Leaf_Data d))
   | Node n \<Rightarrow> and_then (digit_trie_dump n) (\<lambda>d. Ok (Node_Data d))
   | Node_None \<Rightarrow> Panic)"

definition mnode_from_data :: "'a multi_trie_node_data \<Rightarrow> ('a mnode, 'e) res" where
  "mnode_from_data d = (case d of
     Leaf_Data l \<Rightarrow> and_then (digit_trie_from_dump l) (\<lambda>t. Ok (Leaf t))
   | Node_Data n \<Rightarrow> and_then (digit_trie_from_dump n) (\<lambda>t. Ok (Node t)))"

definition multi_trie_get_dump :: "'a multi_trie \<Rightarrow> ('a multi_trie_dump, 'e) res" where
  "multi_trie_get_dump trie =
     and_then (traverse mnode_get_data (mt_store trie)) (\<lambda>node_data.
       Ok \<lparr>md_node_data = node_data, md_nb_tries = mt_nb_tries trie, md_nb_required = mt_nb_required trie,
           md_min_support_exp = mt_min_support_exp trie, md_max_error_exp = mt_max_error_exp trie,
           md_maximize_coverage = mt_maximize_coverage trie, md_infos = mt_infos trie\<rparr>)"

definition multi_trie_from_dump :: "'a multi_trie_dump \<Rightarrow> ('a multi_trie, 'e) res" where
  "multi_trie_from_dump d =
     and_then (traverse mnode_from_data (md_node_data d)) (\<lambda>store.
       Ok \<lparr>mt_store = store, mt_nb_tries = md_nb_tries d, mt_nb_required = md_nb_required d,
           mt_min_support_exp = md_min_support_exp d, mt_max_error_exp = md_max_error_exp d,
           mt_maximize_coverage = md_maximize_coverage d, mt_infos = md_infos d\<rparr>)"

section \<open>The trie of tries as a map\<close>

text \<open>
  A key is a path for each oracle.  \<open>edge\<close> is the child of an inner node for a path and the
  next oracle; \<open>mget\<close> follows a key from a node of the arena, where the first oracle is given by
  the node.
\<close>

definition edge :: "trie_node_info list digit_trie \<Rightarrow> nat list \<Rightarrow> nat \<Rightarrow> nat option" where
  "edge t p i = (case dt_get t p of None \<Rightarrow> None | Some infos \<Rightarrow> find_store_index infos i)"

fun mget :: "'a mnode list \<Rightarrow> nat \<Rightarrow> nat list list \<Rightarrow> nat list \<Rightarrow> 'a option" where
  "mget st n [] is = None"
| "mget st n (p # ps) is =
     (if n < length st then
        (case st ! n of
           Node_None \<Rightarrow> None
         | Leaf t \<Rightarrow> if ps = [] \<and> is = [] then dt_get t p else None
         | Node t \<Rightarrow>
             (case is of [] \<Rightarrow> None
              | i # is' \<Rightarrow> (case edge t p i of None \<Rightarrow> None | Some m \<Rightarrow> mget st m ps is')))
      else None)"

declare mget.simps(2) [simp del]

definition edge_at :: "'a mnode list \<Rightarrow> nat \<Rightarrow> nat list \<Rightarrow> nat \<Rightarrow> nat \<Rightarrow> bool" where
  "edge_at st n p i m \<longleftrightarrow> n < length st \<and> (\<exists>t. st ! n = Node t \<and> edge t p i = Some m)"

fun node_ok :: "nat \<Rightarrow> nat \<Rightarrow> nat \<Rightarrow> 'a mnode \<Rightarrow> bool" where
  "node_ok b k d Node_None \<longleftrightarrow> False"
| "node_ok b k d (Leaf t) \<longleftrightarrow> dt_inv b t \<and> d + 1 = k"
| "node_ok b k d (Node t) \<longleftrightarrow> dt_inv b t \<and> d + 1 < k"

text \<open>
  The invariant of an arena for keys of \<open>k\<close> paths, where \<open>dep\<close> is the depth of a node: every
  node is well formed and a leaf exactly at depth \<open>k - 1\<close>, every edge goes one level down, and
  no two edges lead to the same node.
\<close>

definition mt_ok :: "nat \<Rightarrow> nat \<Rightarrow> (nat \<Rightarrow> nat) \<Rightarrow> 'a mnode list \<Rightarrow> bool" where
  "mt_ok b k dep st \<longleftrightarrow>
     (\<forall>n<length st. node_ok b k (dep n) (st ! n)) \<and>
     (\<forall>n p i m. edge_at st n p i m \<longrightarrow> m < length st \<and> dep m = dep n + 1) \<and>
     (\<forall>n p i n' p' i' m. edge_at st n p i m \<longrightarrow> edge_at st n' p' i' m \<longrightarrow> n = n' \<and> p = p' \<and> i = i')"

lemma mt_okI:
  assumes "\<And>n. n < length st \<Longrightarrow> node_ok b k (dep n) (st ! n)"
    and "\<And>n p i m. edge_at st n p i m \<Longrightarrow> m < length st \<and> dep m = dep n + 1"
    and "\<And>n p i n' p' i' m. edge_at st n p i m \<Longrightarrow> edge_at st n' p' i' m \<Longrightarrow> n = n' \<and> p = p' \<and> i = i'"
  shows "mt_ok b k dep st"
  unfolding mt_ok_def using assms by blast

lemma mt_okD:
  assumes "mt_ok b k dep st"
  shows "n < length st \<Longrightarrow> node_ok b k (dep n) (st ! n)"
    and "edge_at st n p i m \<Longrightarrow> m < length st \<and> dep m = dep n + 1"
    and "edge_at st n p i m \<Longrightarrow> edge_at st n' p' i' m \<Longrightarrow> n = n' \<and> p = p' \<and> i = i'"
  using assms unfolding mt_ok_def by blast+

lemma find_store_index_append:
  "find_store_index (xs @ [\<lparr>trie_index = i, store_index = m\<rparr>]) j =
     (case find_store_index xs j of Some s \<Rightarrow> Some s | None \<Rightarrow> if j = i then Some m else None)"
  by (induction xs) auto

lemma edge_new [simp]: "edge (digit_trie_new b) p i = None"
  by (simp add: edge_def dt_get_new)

lemma edge_at_mnode_new:
  "n < length st \<Longrightarrow> st ! n = mnode_new l b \<Longrightarrow> \<not> edge_at st n p i m"
  by (auto simp: edge_at_def mnode_new_def split: if_splits)

text \<open>A change of a leaf changes no edge.\<close>

lemma edge_at_leaf:
  "c < length st \<Longrightarrow> st ! c = Leaf t \<Longrightarrow> edge_at (st[c := Leaf t']) n p i m \<longleftrightarrow> edge_at st n p i m"
  by (auto simp: edge_at_def nth_list_update)

lemma mt_ok_leaf:
  assumes "mt_ok b k dep st" "c < length st" "st ! c = Leaf t" "dt_inv b t'"
  shows "mt_ok b k dep (st[c := Leaf t'])"
proof (rule mt_okI, goal_cases)
  case (1 n)
  then show ?case using mt_okD(1) [OF assms(1), of n] assms by (auto simp: nth_list_update)
next
  case (2 n p i m)
  then show ?case using mt_okD(2) [OF assms(1), of n p i m] unfolding edge_at_leaf [OF assms(2,3)] by simp
next
  case (3 n p i n' p' i' m)
  then show ?case using mt_okD(3) [OF assms(1), of n p i m n' p' i'] unfolding edge_at_leaf [OF assms(2,3)] by blast
qed

lemma dep_bound: "mt_ok b k dep st \<Longrightarrow> n < length st \<Longrightarrow> dep n < k"
  using mt_okD(1) [of b k dep st n] by (cases "st ! n") auto

text \<open>A new child.\<close>

lemma mt_ok_child:
  assumes ok: "mt_ok b k dep st" and c: "c < length st" "st ! c = Node t" and t': "dt_inv b t'"
    and e: "\<And>p' i'. edge t' p' i' = (if p' = p \<and> i' = i then Some (length st) else edge t p' i')"
    and none: "edge t p i = None"
  defines "st' \<equiv> (st @ [mnode_new (dep c + 2 = k) b])[c := Node t']"
  defines "dep' \<equiv> dep(length st := dep c + 1)"
  shows "mt_ok b k dep' st'"
    and "edge_at st' n q j m \<longleftrightarrow> edge_at st n q j m \<or> n = c \<and> q = p \<and> j = i \<and> m = length st"
proof -
  have dc: "dep c + 1 < k" using mt_okD(1) [OF ok c(1)] c(2) by simp
  have ea: "edge_at st' n q j m \<longleftrightarrow> edge_at st n q j m \<or> n = c \<and> q = p \<and> j = i \<and> m = length st" for n q j m
  proof -
    consider "n = c" | "n = length st" | "n \<noteq> c" "n \<noteq> length st" by blast
    then show ?thesis
    proof cases
      case 1
      then show ?thesis using c e none by (auto simp: edge_at_def st'_def)
    next
      case 2
      then show ?thesis using c by (auto simp: edge_at_def st'_def mnode_new_def)
    next
      case 3
      then show ?thesis using c by (auto simp: edge_at_def st'_def nth_append)
    qed
  qed
  then show "edge_at st' n q j m \<longleftrightarrow> edge_at st n q j m \<or> n = c \<and> q = p \<and> j = i \<and> m = length st" .
  show "mt_ok b k dep' st'"
  proof (rule mt_okI, goal_cases)
    case (1 n)
    show ?case
    proof (cases "n = length st")
      case True
      then show ?thesis using c dc by (auto simp: st'_def dep'_def mnode_new_def dt_inv_new)
    next
      case False
      then show ?thesis using 1 mt_okD(1) [OF ok, of n] c t' dc
        by (cases "n = c") (auto simp: st'_def dep'_def nth_append)
    qed
  next
    case (2 n q j m)
    then show ?case using mt_okD(2) [OF ok, of n q j m] c unfolding ea
      by (auto simp: st'_def dep'_def edge_at_def)
  next
    case (3 n q j n' q' j' m)
    then show ?case using mt_okD(2,3) [OF ok] unfolding ea by (metis less_irrefl)
  qed
qed

text \<open>Reading below a node that does not change.\<close>

lemma mget_Node:
  "n < length st \<Longrightarrow> st ! n = Node t \<Longrightarrow>
   mget st n (p # ps) (i # is) = (case edge t p i of None \<Rightarrow> None | Some m \<Rightarrow> mget st m ps is)"
  by (simp add: mget.simps(2))

lemma mget_Leaf: "n < length st \<Longrightarrow> st ! n = Leaf t \<Longrightarrow> mget st n [p] [] = dt_get t p"
  by (simp add: mget.simps(2))

lemma mget_new: "n < length st \<Longrightarrow> st ! n = mnode_new l b \<Longrightarrow> mget st n ps is = None"
  by (cases ps; cases "is") (auto simp: mget.simps(2) mnode_new_def dt_get_new)

lemma mget_frame:
  assumes "mt_ok b k dep st" "n < length st" "\<And>m. m < length st \<Longrightarrow> dep n \<le> dep m \<Longrightarrow> m < length st' \<and> st' ! m = st ! m"
  shows "mget st' n ps is = mget st n ps is"
  using assms(2,3)
proof (induction ps arbitrary: n "is")
  case (Cons p ps)
  have n: "n < length st'" "st' ! n = st ! n" using Cons.prems(2) [of n] Cons.prems(1) by simp_all
  show ?case
  proof (cases "st ! n")
    case (Node t)
    show ?thesis
    proof (cases "is")
      case (Cons i is')
      have "mget st' m ps is' = mget st m ps is'" if "edge t p i = Some m" for m
      proof -
        have "edge_at st n p i m" using that Node Cons.prems(1) by (simp add: edge_at_def)
        then have "m < length st \<and> dep m = dep n + 1" by (rule mt_okD(2) [OF assms(1)])
        then show ?thesis using Cons.prems(2) by (intro Cons.IH) auto
      qed
      then show ?thesis using Node n Cons Cons.prems(1) by (auto simp: mget_Node split: option.split)
    qed (use Node n Cons.prems(1) in \<open>simp add: mget.simps(2)\<close>)
  qed (use n Cons.prems(1) in \<open>simp_all add: mget.simps(2)\<close>)
qed simp

text \<open>A new child has no values, so the parent's map does not change.\<close>

lemma mget_child:
  assumes ok: "mt_ok b k dep st" and c: "c < length st" "st ! c = Node t"
    and e: "\<And>p' i'. edge t' p' i' = (if p' = p \<and> i' = i then Some (length st) else edge t p' i')"
    and none: "edge t p i = None" and n: "n < length st" "dep n = dep c"
  shows "mget ((st @ [mnode_new l b])[c := Node t']) n ps is = mget st n ps is" (is "mget ?st' _ _ _ = _")
proof (cases ps)
  case (Cons q qs)
  have below: "mget ?st' m qs js = mget st m qs js" if "edge_at st n q j m" for q j m qs js
  proof -
    have m: "m < length st \<and> dep m = dep n + 1" by (rule mt_okD(2) [OF ok that])
    show ?thesis by (rule mget_frame [OF ok]) (use m n c in \<open>auto simp: nth_append nth_list_update\<close>)
  qed
  have fresh: "mget ?st' (length st) qs js = None" for js
    by (rule mget_new) (use c in simp_all)
  show ?thesis
  proof (cases "n = c")
    case True
    then show ?thesis using c e none below [of q] fresh n Cons
      by (auto simp: mget.simps(2) edge_at_def split: list.split option.split)
  next
    case False
    then have "?st' ! n = st ! n" using n by (simp add: nth_append)
    then show ?thesis using c below [of q] n Cons
      by (auto simp: mget.simps(2) edge_at_def split: node.split list.split option.split)
  qed
qed simp

text \<open>An insertion that does not change the edges of an inner node.\<close>

lemma edge_at_same:
  "c < length st \<Longrightarrow> st ! c = Node t \<Longrightarrow> edge t' = edge t \<Longrightarrow>
   edge_at (st[c := Node t']) n p i m \<longleftrightarrow> edge_at st n p i m"
  by (auto simp: edge_at_def nth_list_update)

lemma mt_ok_same:
  assumes "mt_ok b k dep st" "c < length st" "st ! c = Node t" "dt_inv b t'" "edge t' = edge t"
  shows "mt_ok b k dep (st[c := Node t'])"
proof (rule mt_okI, goal_cases)
  case (1 n)
  then show ?case using mt_okD(1) [OF assms(1), of n] assms by (auto simp: nth_list_update)
next
  case (2 n p i m)
  then show ?case using mt_okD(2) [OF assms(1), of n p i m] unfolding edge_at_same [OF assms(2,3,5)] by simp
next
  case (3 n p i n' p' i' m)
  then show ?case using mt_okD(3) [OF assms(1), of n p i m n' p' i'] unfolding edge_at_same [OF assms(2,3,5)] by blast
qed

lemma mget_same:
  assumes "c < length st" "st ! c = Node t" "edge t' = edge t"
  shows "mget (st[c := Node t']) n ps is = mget st n ps is"
proof (induction ps arbitrary: n "is")
  case (Cons p ps)
  then show ?case using assms
    by (cases "n = c") (auto simp: mget.simps(2) split: node.split list.split option.split)
qed simp

text \<open>
  An insertion below a node at depth \<open>j\<close> keeps the nodes above, and the maps of the nodes
  at depth \<open>j\<close> except at the inserted key.
\<close>

definition mt_ins_ok ::
  "nat \<Rightarrow> nat \<Rightarrow> (nat \<Rightarrow> nat) \<Rightarrow> 'a mnode list \<Rightarrow> nat \<Rightarrow> nat \<Rightarrow> nat list list \<Rightarrow> nat list \<Rightarrow> 'a \<Rightarrow> 'a mnode list \<Rightarrow> bool" where
  "mt_ins_ok b k dep st cur j ps is v st' \<longleftrightarrow>
     (\<exists>dep'. mt_ok b k dep' st' \<and> (\<forall>n<length st. dep' n = dep n)) \<and> length st \<le> length st' \<and>
     (\<forall>n<length st. dep n < j \<longrightarrow> st' ! n = st ! n) \<and>
     (\<forall>n<length st. dep n = j \<longrightarrow>
        (\<forall>qs js. mget st' n qs js = (if n = cur \<and> qs = ps \<and> js = is then Some v else mget st n qs js)))"

lemma mt_ins_leaf:
  assumes ok: "mt_ok b k dep st" and c: "cur < length st" "st ! cur = Leaf t"
    and t': "dt_inv b t'" "dt_get t' = (dt_get t)(p \<mapsto> v)"
  shows "mt_ins_ok b k dep st cur (dep cur) [p] [] v (st[cur := Leaf t'])"
proof -
  have leaf: "\<exists>u. st ! n = Leaf u" if "n < length st" "dep n = dep cur" for n
    using mt_okD(1) [OF ok that(1)] mt_okD(1) [OF ok c(1)] c(2) that(2) by (cases "st ! n") auto
  have "mget (st[cur := Leaf t']) n qs js = (if n = cur \<and> qs = [p] \<and> js = [] then Some v else mget st n qs js)"
    if "n < length st" "dep n = dep cur" for n qs js
  proof (cases qs)
    case (Cons q qs')
    then show ?thesis using leaf [OF that] that(1) c t'(2) by (cases "n = cur") (auto simp: mget.simps(2))
  qed simp
  then show ?thesis
    unfolding mt_ins_ok_def using mt_ok_leaf [OF ok c t'(1)] c(1) by (auto simp: nth_list_update)
qed

text \<open>From the child to the parent.\<close>

lemma mt_ins_node:
  assumes ok: "mt_ok b k dep st" and c: "cur < length st"
    and ok1: "mt_ok b k dep1 st1" and dep1: "\<And>n. n < length st \<Longrightarrow> dep1 n = dep n" and len: "length st \<le> length st1"
    and above: "\<And>n. n < length st \<Longrightarrow> n \<noteq> cur \<Longrightarrow> st1 ! n = st ! n"
    and same: "\<And>n qs js. n < length st \<Longrightarrow> dep n = dep cur \<Longrightarrow> mget st1 n qs js = mget st n qs js"
    and e: "edge_at st1 cur p i m" and k: "dep cur + 1 < k"
    and below: "mt_ins_ok b k dep1 st1 m (dep cur + 1) ps is v st'"
  shows "mt_ins_ok b k dep st cur (dep cur) (p # ps) (i # is) v st'"
proof -
  obtain dep' where d: "mt_ok b k dep' st'" "\<And>n. n < length st1 \<Longrightarrow> dep' n = dep1 n" and len': "length st1 \<le> length st'"
    and above': "\<And>n. n < length st1 \<Longrightarrow> dep1 n < dep cur + 1 \<Longrightarrow> st' ! n = st1 ! n"
    and get': "\<And>n qs js. n < length st1 \<Longrightarrow> dep1 n = dep cur + 1 \<Longrightarrow>
      mget st' n qs js = (if n = m \<and> qs = ps \<and> js = is then Some v else mget st1 n qs js)"
    using below unfolding mt_ins_ok_def by blast
  have "mget st' n qs js = (if n = cur \<and> qs = p # ps \<and> js = i # is then Some v else mget st n qs js)"
    if n: "n < length st" "dep n = dep cur" for n qs js
  proof -
    have node: "\<exists>u. st1 ! n = Node u"
      using mt_okD(1) [OF ok1, of n] n len dep1 k by (cases "st1 ! n") auto
    then obtain u where u: "st1 ! n = Node u" ..
    have st': "st' ! n = Node u" "n < length st1" "n < length st'" using above' [of n] u n len len' dep1 by auto
    show ?thesis
    proof (cases "\<exists>q qs' j js'. qs = q # qs' \<and> js = j # js'")
      case False
      then show ?thesis using same [OF n, of qs js, symmetric] u st'
        by (cases qs; cases js) (auto simp: mget.simps(2))
    next
      case True
      then obtain q qs' j js' where q: "qs = q # qs'" "js = j # js'" by blast
      show ?thesis
      proof (cases "edge u q j")
        case None
        then have "\<not> (n = cur \<and> q = p \<and> j = i)" using e u by (auto simp: edge_at_def)
        then show ?thesis using None same [OF n, of qs js, symmetric] u st' q by (auto simp: mget_Node)
      next
        case (Some x)
        then have ex: "edge_at st1 n q j x" using u st' by (simp add: edge_at_def)
        have x: "x < length st1 \<and> dep1 x = dep cur + 1" using mt_okD(2) [OF ok1 ex] dep1 n by simp
        have "n = cur \<and> q = p \<and> j = i" if "x = m"
          using mt_okD(3) [OF ok1 ex, of cur p i] e that by blast
        moreover have "x = m" if "n = cur" "q = p" "j = i"
          using e ex that by (auto simp: edge_at_def)
        ultimately have "x = m \<longleftrightarrow> n = cur \<and> q = p \<and> j = i" by blast
        then show ?thesis using Some same [OF n, of qs js, symmetric] u st' q get' [of x qs' js'] x
          by (auto simp: mget_Node)
      qed
    qed
  qed
  moreover have "st' ! n = st ! n" if "n < length st" "dep n < dep cur" for n
    using above [of n] above' [of n] that len dep1 by auto
  ultimately show ?thesis unfolding mt_ins_ok_def
    using d dep1 len len' by (auto intro!: exI [of _ dep'])
qed

lemma mt_insert_internal_ok:
  assumes "mt_ok b k dep st" "cur < length st" "dep cur = j" "length paths = k" "length inds = k"
    "\<And>p. p \<in> set paths \<Longrightarrow> dt_path b p \<and> p \<noteq> []" "gv paths inds s = (Ok (v, s') :: (_, 'e) res)"
  shows "\<exists>st'. mt_insert_internal b st cur paths j inds gv s = Ok (st', s') \<and>
    mt_ins_ok b k dep st cur j (drop j paths) (drop (j + 1) inds) v st'"
  using assms
proof (induction "k - j" arbitrary: dep st cur j)
  case 0
  then show ?case using dep_bound [OF 0(2,3)] by simp
next
  case (Suc x)
  note ok = Suc.prems(1) and c = Suc.prems(2) and j = Suc.prems(3)
  have jk: "j < k" using dep_bound [OF ok c] j by simp
  have p: "dt_path b (paths ! j)" "paths ! j \<noteq> []" using Suc.prems(4,6) jk by auto
  have drops: "drop j paths = paths ! j # drop (j + 1) paths" using jk Suc.prems(4) by (simp add: Cons_nth_drop_Suc)
  have nok: "node_ok b k j (st ! cur)" using mt_okD(1) [OF ok c] j by simp
  show ?case
  proof (cases "st ! cur")
    case Node_None
    then show ?thesis using nok by simp
  next
    case (Leaf t)
    then have l: "dt_inv b t" "j + 1 = k" using nok by simp_all
    obtain t' where t': "digit_trie_insert t (paths ! j) (\<lambda>_. gv paths inds) s = Ok (t', s')" "dt_inv b t'"
      "dt_get t' = (dt_get t)(paths ! j \<mapsto> v)"
      using dt_ins_Ok [OF l(1) p, of "\<lambda>_. gv paths inds" s v s'] Suc.prems(7) by blast
    have "mt_insert_internal b st cur paths j inds gv s = Ok (st[cur := Leaf t'], s')"
      using Leaf l jk c t'(1) Suc.prems(4) by (subst mt_insert_internal.simps) (simp add: index_def assert_that_def)
    moreover have "mt_ins_ok b k dep st cur j (drop j paths) (drop (j + 1) inds) v (st[cur := Leaf t'])"
      using mt_ins_leaf [OF ok c Leaf t'(2,3)] l Suc.prems(4,5) j by (simp add: drops)
    ultimately show ?thesis by blast
  next
    case (Node t)
    then have l: "dt_inv b t" "j + 1 < k" using nok by simp_all
    let ?p = "paths ! j" and ?i = "inds ! (j + 1)"
    have dropi: "drop (j + 1) inds = ?i # drop (j + 2) inds" using l(2) Suc.prems(5) by (simp add: Cons_nth_drop_Suc)
    let ?cb = "child_callback b paths j inds" and ?st = "st[cur := Node_None]"
    have main: "\<exists>st'. mt_insert_internal b st cur paths j inds gv s = Ok (st', s') \<and>
        mt_ins_ok b k dep st cur j (drop j paths) (drop (j + 1) inds) v st'"
      if ins: "digit_trie_insert t ?p ?cb (?st, 0) = (Ok (t', st2, m) :: (_, 'e) res)"
        and ok1: "mt_ok b k dep1 (st2[cur := Node t'])" and dep1: "\<And>n. n < length st \<Longrightarrow> dep1 n = dep n"
        and len: "length st \<le> length st2"
        and above: "\<And>n. n < length st \<Longrightarrow> n \<noteq> cur \<Longrightarrow> st2 ! n = st ! n"
        and same: "\<And>n qs js. n < length st \<Longrightarrow> dep n = dep cur \<Longrightarrow> mget (st2[cur := Node t']) n qs js = mget st n qs js"
        and e: "edge_at (st2[cur := Node t']) cur ?p ?i m" for t' st2 m dep1
    proof -
      have m: "m < length st2" "dep1 m = j + 1" using mt_okD(2) [OF ok1 e] dep1 [OF c] j by simp_all
      have x: "x = k - (j + 1)" using Suc.hyps(2) by simp
      obtain st' where st': "mt_insert_internal b (st2[cur := Node t']) m paths (j + 1) inds gv s = Ok (st', s')"
        "mt_ins_ok b k dep1 (st2[cur := Node t']) m (j + 1) (drop (j + 1) paths) (drop (j + 1 + 1) inds) v st'"
        using Suc.hyps(1) [OF x ok1 _ m(2) Suc.prems(4-7)] m(1) by auto
      have "mt_insert_internal b st cur paths j inds gv s = Ok (st', s')"
        using Node l jk c ins st'(1) Suc.prems(4) by (subst mt_insert_internal.simps) (simp add: index_def assert_that_def)
      moreover have "mt_ins_ok b k dep st cur j (drop j paths) (drop (j + 1) inds) v st'"
        unfolding drops dropi
        by (rule mt_ins_node [OF ok c ok1 dep1 _ _ same, unfolded j]) (use len above e l st'(2) in auto)
      ultimately show ?thesis by blast
    qed
    show ?thesis
    proof (cases "edge t ?p ?i")
      case (Some m)
      then obtain infos where infos: "dt_get t ?p = Some infos" "find_store_index infos ?i = Some m"
        by (auto simp: edge_def split: option.splits)
      obtain t' where t': "digit_trie_insert t ?p ?cb (?st, 0) = (Ok (t', ?st, m) :: (_, 'e) res)" "dt_inv b t'"
        "dt_get t' = (dt_get t)(?p \<mapsto> infos)"
        using dt_ins_Ok [OF l(1) p, of ?cb "(?st, 0)" infos "(?st, m)"] infos l Suc.prems(4,5)
        by (auto simp: child_callback_def index_def)
      have et: "edge t' = edge t" using t'(3) infos by (intro ext) (auto simp: edge_def)
      show ?thesis
        by (rule main [OF t'(1), of dep])
          (use Some et c Node t'(2) mt_ok_same [OF ok c Node] mget_same [OF c Node et] in \<open>auto simp: edge_at_def\<close>)
    next
      case None
      let ?infos = "case dt_get t ?p of Some d \<Rightarrow> d | None \<Rightarrow> []"
      let ?new = "\<lparr>trie_index = ?i, store_index = length st\<rparr>"
      let ?st2 = "?st @ [mnode_new (dep cur + 2 = k) b]"
      have nf: "find_store_index ?infos ?i = None" using None by (auto simp: edge_def split: option.splits)
      have q: "(length paths - 1 = j + 1) = (dep cur + 2 = k)" using l Suc.prems(4) j by auto
      have cb: "?cb (dt_get t ?p) (?st, 0) = (Ok (?infos @ [?new], ?st2, length st) :: (_, 'e) res)"
        unfolding child_callback_def Let_def q using nf l Suc.prems(5) by (simp add: index_def)
      obtain t' where t': "digit_trie_insert t ?p ?cb (?st, 0) = (Ok (t', ?st2, length st) :: (_, 'e) res)" "dt_inv b t'"
        "dt_get t' = (dt_get t)(?p \<mapsto> ?infos @ [?new])"
        using dt_ins_Ok [OF l(1) p, of ?cb "(?st, 0)"] cb by blast
      have et: "edge t' p' i' = (if p' = ?p \<and> i' = ?i then Some (length st) else edge t p' i')" for p' i'
        using t'(3) None by (auto simp: edge_def find_store_index_append split: option.splits)
      have st2: "?st2[cur := Node t'] = (st @ [mnode_new (dep cur + 2 = k) b])[cur := Node t']"
        using c by (simp add: list_update_append)
      note new = mt_ok_child [OF ok c Node t'(2) et None]
      have e: "edge_at ((st @ [mnode_new (dep cur + 2 = k) b])[cur := Node t']) cur ?p ?i (length st)"
        unfolding new(2) by simp
      show ?thesis
        by (rule main [OF t'(1), of "dep(length st := dep cur + 1)"], unfold st2)
          (use new(1) e mget_child [OF ok c Node et None] in \<open>auto simp: st2 nth_append\<close>)
    qed
  qed
qed

text \<open>A lookup returns the value at a key whose paths are prefixes of the given ones.\<close>

lemma first_some_spec:
  assumes "\<And>x. x \<in> set xs \<Longrightarrow> \<exists>r. f x = (Ok r :: (_, 'e) res)"
  shows "\<exists>r. first_some f xs = Ok r \<and> (r = None \<longrightarrow> (\<forall>x\<in>set xs. f x = Ok None)) \<and>
    (\<forall>y. r = Some y \<longrightarrow> (\<exists>x\<in>set xs. f x = Ok (Some y)))"
  using assms
proof (induction xs)
  case (Cons x xs)
  obtain r where r: "f x = Ok r" using Cons.prems [of x] by auto
  show ?case
  proof (cases r)
    case None
    then show ?thesis using Cons r by auto
  next
    case (Some y)
    then show ?thesis using r by auto
  qed
qed simp

lemma set_hits: "l \<in> set (hits m q) \<longleftrightarrow> prefix (lr_path l) q \<and> m (lr_path l) = Some (lr_value l)"
  by (cases l) (auto simp: hits_def split: option.splits)

lemma mget_length:
  "mt_ok b k dep st \<Longrightarrow> n < length st \<Longrightarrow> mget st n ps is = Some v \<Longrightarrow>
   length ps + dep n = k \<and> length is + dep n + 1 = k"
proof (induction ps arbitrary: n "is")
  case (Cons p ps)
  have nok: "node_ok b k (dep n) (st ! n)" by (rule mt_okD(1) [OF Cons.prems(1,2)])
  show ?case
  proof (cases "st ! n")
    case (Node t)
    then obtain i is' m where i: "is = i # is'" "edge t p i = Some m" "mget st m ps is' = Some v"
      using Cons.prems(2,3) by (auto simp: mget.simps(2) split: list.splits option.splits)
    have "edge_at st n p i m" using i Node Cons.prems(2) by (simp add: edge_at_def)
    then have "m < length st \<and> dep m = dep n + 1" by (rule mt_okD(2) [OF Cons.prems(1)])
    then show ?thesis using Cons.IH [OF Cons.prems(1) _ i(3)] i by simp
  qed (use nok Cons.prems(2,3) in \<open>auto simp: mget.simps(2) split: if_splits\<close>)
qed simp

definition mt_found :: "'a mnode list \<Rightarrow> nat \<Rightarrow> indexed_path list \<Rightarrow> (nat list list \<Rightarrow> 'a \<Rightarrow> bool)" where
  "mt_found st n paths qs v \<longleftrightarrow>
     list_all2 (\<lambda>q p. prefix q (snd p)) qs paths \<and> mget st n qs (map fst (tl paths)) = Some v"

lemma mt_look_up_internal_ok:
  fixes st :: "'a mnode list"
  assumes "mt_ok b k dep st" "n < length st" "dep n = j" "length paths = k" "\<forall>p\<in>set paths. dt_path b (snd p)"
  shows "\<exists>r. mt_look_up_internal st (st ! n) paths j = (Ok r :: (_, 'e) res) \<and>
    (r = None \<longrightarrow> (\<forall>qs v. \<not> mt_found st n (drop j paths) qs v)) \<and>
    (\<forall>l. r = Some l \<longrightarrow> map fst (rev (lr_path l)) = map fst (drop j paths) \<and>
       mt_found st n (drop j paths) (map snd (rev (lr_path l))) (lr_value l))"
  using assms(2,3)
proof (induction "k - j" arbitrary: n j)
  case 0
  then show ?case using dep_bound [OF assms(1) 0(2)] by simp
next
  case (Suc x)
  have jk: "j < k" using dep_bound [OF assms(1) Suc.prems(1)] Suc.prems(2) by simp
  obtain i p where ip: "paths ! j = (i, p)" by fastforce
  have p: "dt_path b p" using assms(4,5) jk ip by (metis nth_mem snd_conv)
  have drops: "drop j paths = (i, p) # drop (j + 1) paths"
    using jk assms(4) ip by (simp add: Cons_nth_drop_Suc [symmetric])
  have nok: "node_ok b k j (st ! n)" using mt_okD(1) [OF assms(1) Suc.prems(1)] Suc.prems(2) by simp
  show ?case
  proof (cases "st ! n")
    case Node_None
    then show ?thesis using nok by simp
  next
    case (Leaf t)
    then have l: "dt_inv b t" "j + 1 = k" using nok by simp_all
    have found: "mt_found st n (drop j paths) qs v \<longleftrightarrow> (\<exists>q. qs = [q] \<and> prefix q p \<and> dt_get t q = Some v)" for qs v
      using Leaf Suc.prems(1) l assms(4) unfolding mt_found_def drops by (auto simp: list_all2_Cons2 mget_Leaf)
    have look: "mt_look_up_internal st (st ! n) paths j = and_then (Ok (hits_opt (dt_get t) p) :: (_, 'e) res) (\<lambda>r.
        case r of None \<Rightarrow> Ok None
        | Some rs \<Rightarrow> and_then (index rs 0) (\<lambda>l. Ok (Some \<lparr>lr_path = [(i, lr_path l)], lr_value = lr_value l\<rparr>)))"
      using jk assms(4) ip Leaf dt_look_hits [OF l(1) p, where ?'e = 'e]
      by (subst mt_look_up_internal.simps) simp
    show ?thesis
    proof (cases "hits (dt_get t) p")
      case Nil
      then have "\<not> (prefix q p \<and> dt_get t q = Some v)" for q v
        using set_hits [of "\<lparr>lr_path = q, lr_value = v\<rparr>" "dt_get t" p] by simp
      then show ?thesis unfolding look found using Nil by (auto simp: hits_opt_def)
    next
      case (Cons l ls)
      then have "prefix (lr_path l) p \<and> dt_get t (lr_path l) = Some (lr_value l)"
        using set_hits [of l "dt_get t" p] by simp
      then show ?thesis unfolding look found using Cons l assms(4) by (auto simp: hits_opt_def index_def drops)
    qed
  next
    case (Node t)
    then have l: "dt_inv b t" "j + 1 < k" using nok by simp_all
    obtain i' p' where ip': "paths ! (j + 1) = (i', p')" by fastforce
    have drops': "drop (j + 1) paths = (i', p') # drop (j + 2) paths"
      using l(2) assms(4) ip' by (simp add: Cons_nth_drop_Suc [symmetric])
    define f :: "(trie_node_info list, nat) lookup_result \<Rightarrow> (('a, indexed_path) lookup_result option, 'e) res"
      where "f = (\<lambda>l. case find_store_index (lr_value l) i' of
        None \<Rightarrow> Ok None
      | Some i'' \<Rightarrow> and_then (index st i'') (\<lambda>next_node.
          and_then (mt_look_up_internal st next_node paths (j + 1)) (\<lambda>c.
            Ok (map_option (\<lambda>c. c\<lparr>lr_path := lr_path c @ [(i, lr_path l)]\<rparr>) c))))"
    have look: "mt_look_up_internal st (st ! n) paths j = and_then (Ok (hits_opt (dt_get t) p) :: (_, 'e) res) (\<lambda>r.
        case r of None \<Rightarrow> Ok None | Some rs \<Rightarrow> first_some f rs)"
      using jk l assms(4) ip ip' Node dt_look_hits [OF l(1) p, where ?'e = 'e]
      by (subst mt_look_up_internal.simps) (simp add: f_def less_diff_conv)
    have look': "mt_look_up_internal st (st ! n) paths j = first_some f (hits (dt_get t) p)"
      unfolding look by (simp add: hits_opt_def)
    have found: "mt_found st n (drop j paths) qs v \<longleftrightarrow>
        (\<exists>q qs' m. qs = q # qs' \<and> prefix q p \<and> edge t q i' = Some m \<and> mt_found st m (drop (j + 1) paths) qs' v)" for qs v
      using Node Suc.prems(1) unfolding mt_found_def drops drops'
      by (auto simp: list_all2_Cons2 mget_Node split: option.splits)
    have step: "\<exists>r. f h = Ok r \<and>
        (r = None \<longrightarrow> (\<forall>qs v m. edge t (lr_path h) i' = Some m \<longrightarrow> \<not> mt_found st m (drop (j + 1) paths) qs v)) \<and>
        (\<forall>y. r = Some y \<longrightarrow> map fst (rev (lr_path y)) = map fst (drop j paths) \<and>
           mt_found st n (drop j paths) (map snd (rev (lr_path y))) (lr_value y))"
      if h: "h \<in> set (hits (dt_get t) p)" for h
    proof -
      have h': "prefix (lr_path h) p" "dt_get t (lr_path h) = Some (lr_value h)" using h set_hits by blast+
      then have ed: "edge t (lr_path h) i' = find_store_index (lr_value h) i'" by (simp add: edge_def)
      show ?thesis
      proof (cases "find_store_index (lr_value h) i'")
        case None
        then show ?thesis using ed by (auto simp: f_def)
      next
        case (Some m)
        have "edge_at st n (lr_path h) i' m" using Some ed Node Suc.prems(1) by (simp add: edge_at_def)
        then have m: "m < length st \<and> dep m = dep n + 1" by (rule mt_okD(2) [OF assms(1)])
        have x: "x = k - (j + 1)" using Suc.hyps(2) by simp
        obtain r where r: "mt_look_up_internal st (st ! m) paths (j + 1) = (Ok r :: (_, 'e) res)"
          "r = None \<longrightarrow> (\<forall>qs v. \<not> mt_found st m (drop (j + 1) paths) qs v)"
          "\<forall>l. r = Some l \<longrightarrow> map fst (rev (lr_path l)) = map fst (drop (j + 1) paths) \<and>
             mt_found st m (drop (j + 1) paths) (map snd (rev (lr_path l))) (lr_value l)"
          using Suc.hyps(1) [OF x, of m] m Suc.prems(2) by auto
        have fh: "f h = Ok (map_option (\<lambda>c. c\<lparr>lr_path := lr_path c @ [(i, lr_path h)]\<rparr>) r)"
          using Some m r(1) by (simp add: f_def index_def)
        show ?thesis
          unfolding fh found using r(2,3) ed Some h' by (auto simp: drops)
      qed
    qed
    obtain r where r: "first_some f (hits (dt_get t) p) = Ok r"
      "r = None \<longrightarrow> (\<forall>h\<in>set (hits (dt_get t) p). f h = Ok None)"
      "\<forall>y. r = Some y \<longrightarrow> (\<exists>h\<in>set (hits (dt_get t) p). f h = Ok (Some y))"
      using first_some_spec [of "hits (dt_get t) p" f] step by blast
    have "\<not> mt_found st n (drop j paths) qs v" if none: "r = None" for qs v
    proof
      assume "mt_found st n (drop j paths) qs v"
      then obtain q qs' m where q: "prefix q p" "edge t q i' = Some m" "mt_found st m (drop (j + 1) paths) qs' v"
        unfolding found by blast
      then obtain d where d: "dt_get t q = Some d" by (auto simp: edge_def split: option.splits)
      let ?h = "\<lparr>lr_path = q, lr_value = d\<rparr>"
      have "?h \<in> set (hits (dt_get t) p)" using q(1) d by (simp add: set_hits)
      then show False using step [of ?h] r(2) none q by auto
    qed
    moreover have "map fst (rev (lr_path y)) = map fst (drop j paths) \<and>
        mt_found st n (drop j paths) (map snd (rev (lr_path y))) (lr_value y)" if "r = Some y" for y
      using r(3) that step by fastforce
    ultimately show ?thesis unfolding look' using r(1) by blast
  qed
qed

section \<open>The whole trie\<close>

definition mt_roots :: "'a multi_trie \<Rightarrow> nat" where
  "mt_roots trie = mt_nb_tries trie - mt_nb_required trie + 1"

definition mt_inv :: "'a multi_trie \<Rightarrow> bool" where
  "mt_inv trie \<longleftrightarrow> 0 < mt_nb_required trie \<and> mt_nb_required trie \<le> mt_nb_tries trie \<and>
     mt_nb_tries trie = length (oni_nb_digits (mt_infos trie)) \<and> mt_nb_tries trie < usize_bound \<and>
     (\<exists>dep. mt_ok (oni_base (mt_infos trie)) (mt_nb_required trie) dep (mt_store trie) \<and>
       mt_roots trie \<le> length (mt_store trie) \<and> (\<forall>r<mt_roots trie. dep r = 0))"

definition mt_val :: "'a multi_trie \<Rightarrow> indexed_path list \<Rightarrow> 'a option" where
  "mt_val trie key =
     (if key \<noteq> [] \<and> fst (hd key) < mt_roots trie
      then mget (mt_store trie) (fst (hd key)) (map snd key) (map fst (tl key)) else None)"

lemma mt_roots_update [simp]: "mt_roots (trie\<lparr>mt_store := st\<rparr>) = mt_roots trie"
  by (simp add: mt_roots_def)

text \<open>The keys a trie accepts.\<close>

definition mt_key :: "'a multi_trie \<Rightarrow> nat list list \<times> nat list \<Rightarrow> bool" where
  "mt_key trie = (\<lambda>(paths, inds). length paths = mt_nb_required trie \<and> length inds = mt_nb_required trie \<and>
     inds ! 0 < mt_roots trie \<and> (\<forall>p\<in>set paths. dt_path (oni_base (mt_infos trie)) p \<and> p \<noteq> []))"

lemma mt_key_update [simp]: "mt_key (trie\<lparr>mt_store := st\<rparr>) = mt_key trie"
  by (simp add: mt_key_def)

lemma map_zip_eq: "length xs = length ys \<Longrightarrow> key = zip xs ys \<longleftrightarrow> map fst key = xs \<and> map snd key = ys"
  by (metis map_fst_zip map_snd_zip zip_map_fst_snd)

lemma insert_paths_ok:
  assumes inv: "mt_inv trie" and key: "mt_key trie (paths, inds)"
    and gv: "gv paths inds s = (Ok (v, s') :: (_, 'e) res)"
  shows "\<exists>st'. insert_paths (oni_base (mt_infos trie)) (paths, inds) gv (mt_store trie, s) = Ok (st', s') \<and>
    mt_inv (trie\<lparr>mt_store := st'\<rparr>) \<and> mt_val (trie\<lparr>mt_store := st'\<rparr>) = (mt_val trie)(zip inds paths \<mapsto> v)"
proof -
  obtain dep where ok: "mt_ok (oni_base (mt_infos trie)) (mt_nb_required trie) dep (mt_store trie)"
    and r: "mt_roots trie \<le> length (mt_store trie)" "\<And>r. r < mt_roots trie \<Longrightarrow> dep r = 0"
    and k: "0 < mt_nb_required trie"
    using inv unfolding mt_inv_def by blast
  have l: "length paths = mt_nb_required trie" "length inds = mt_nb_required trie" and i0: "inds ! 0 < mt_roots trie"
    using key by (auto simp: mt_key_def)
  let ?r = "inds ! 0"
  have c: "?r < length (mt_store trie)" "dep ?r = 0" using r i0 by simp_all
  obtain st' where st': "mt_insert_internal (oni_base (mt_infos trie)) (mt_store trie) ?r paths 0 inds gv s = Ok (st', s')"
    and ins: "mt_ins_ok (oni_base (mt_infos trie)) (mt_nb_required trie) dep (mt_store trie) ?r 0 (drop 0 paths) (drop (0 + 1) inds) v st'"
    using mt_insert_internal_ok [OF ok c l, of gv s v s'] key gv unfolding mt_key_def by auto
  obtain dep' where d': "mt_ok (oni_base (mt_infos trie)) (mt_nb_required trie) dep' st'"
    "\<And>n. n < length (mt_store trie) \<Longrightarrow> dep' n = dep n" "length (mt_store trie) \<le> length st'"
    and get: "\<And>n qs js. n < length (mt_store trie) \<Longrightarrow> dep n = 0 \<Longrightarrow>
      mget st' n qs js = (if n = ?r \<and> qs = paths \<and> js = tl inds then Some v else mget (mt_store trie) n qs js)"
    using ins unfolding mt_ins_ok_def by (auto simp: drop_Suc)
  have inv': "mt_inv (trie\<lparr>mt_store := st'\<rparr>)"
  proof -
    have "mt_roots trie \<le> length st' \<and> (\<forall>r<mt_roots trie. dep' r = 0)" using d'(2,3) r by auto
    then show ?thesis using inv d'(1) unfolding mt_inv_def by auto
  qed
  have "mt_val (trie\<lparr>mt_store := st'\<rparr>) key = ((mt_val trie)(zip inds paths \<mapsto> v)) key" for key
  proof (cases "key \<noteq> [] \<and> fst (hd key) < mt_roots trie")
    case True
    have eq: "fst (hd key) = ?r \<and> map snd key = paths \<and> map fst (tl key) = tl inds \<longleftrightarrow> key = zip inds paths"
      using True l k map_zip_eq [of inds paths key] by (cases key; cases inds) auto
    show ?thesis using True r get [of "fst (hd key)" "map snd key" "map fst (tl key)"]
      unfolding fun_upd_apply eq [symmetric] by (simp add: mt_val_def)
  next
    case False
    then have "key \<noteq> zip inds paths" using l k i0 by (cases inds; cases paths) auto
    then show ?thesis using False by (auto simp: mt_val_def)
  qed
  then have "mt_val (trie\<lparr>mt_store := st'\<rparr>) = (mt_val trie)(zip inds paths \<mapsto> v)" by blast
  then show ?thesis using st' inv' l k by (intro exI [of _ st']) (auto simp: insert_paths_def index_def)
qed

text \<open>A run of insertions that record what they insert.\<close>

definition infos_at :: "nat \<Rightarrow> nat \<Rightarrow> (nat list list \<times> nat list) list \<Rightarrow> trie_iter_info list" where
  "infos_at cet a kis = map (\<lambda>(q, (c, i)). \<lparr>ti_indexes = i, ti_paths = c, ti_value = \<lparr>cet_index = cet, adaptor_index = a + q\<rparr>\<rparr>)
     (enumerate 0 kis)"

definition put_info :: "trie_iter_info \<Rightarrow> (indexed_path list \<Rightarrow> range_info option) \<Rightarrow> indexed_path list \<Rightarrow> range_info option" where
  "put_info t m = m(zip (ti_indexes t) (ti_paths t) \<mapsto> ti_value t)"

lemma put_info_simps [simp]:
  "put_info \<lparr>ti_indexes = i, ti_paths = c, ti_value = v\<rparr> m = m(zip i c \<mapsto> v)"
  by (simp add: put_info_def)

lemma infos_at_simps [simp]:
  "infos_at cet a [] = []"
  "infos_at cet a (ki # kis) =
     \<lparr>ti_indexes = snd ki, ti_paths = fst ki, ti_value = \<lparr>cet_index = cet, adaptor_index = a\<rparr>\<rparr> # infos_at cet (a + 1) kis"
  "length (infos_at cet a kis) = length kis"
  by (simp_all add: infos_at_def case_prod_unfold enumerate_Suc_eq o_def)

lemma infos_at_append: "infos_at cet a (xs @ ys) = infos_at cet a xs @ infos_at cet (a + length xs) ys"
  by (induction xs arbitrary: a) simp_all

lemma insert_all_ok:
  assumes "mt_inv trie" "\<forall>ki\<in>set kis. mt_key trie ki" "a + length kis < usize_bound"
  shows "\<exists>st'. fold_res (\<lambda>ki. insert_paths (oni_base (mt_infos trie)) ki (\<lambda>c i. get_value_callback c i cet)) kis (mt_store trie, a, ti) =
      (Ok (st', a + length kis, ti @ infos_at cet a kis) :: (_, 'e) res) \<and>
    mt_inv (trie\<lparr>mt_store := st'\<rparr>) \<and> mt_val (trie\<lparr>mt_store := st'\<rparr>) = fold put_info (infos_at cet a kis) (mt_val trie)"
  using assms
proof (induction kis arbitrary: trie a ti)
  case (Cons ki kis)
  obtain c i where ki: "ki = (c, i)" by fastforce
  let ?info = "\<lparr>cet_index = cet, adaptor_index = a\<rparr>"
  have gv: "get_value_callback c i cet (a, ti) = (Ok (?info, a + 1, ti @ [\<lparr>ti_indexes = i, ti_paths = c, ti_value = ?info\<rparr>]) :: (_, 'e) res)"
    using Cons.prems(3) by (simp add: get_value_callback_def uadd_def Let_def)
  obtain st1 where st1: "insert_paths (oni_base (mt_infos trie)) ki (\<lambda>c i. get_value_callback c i cet) (mt_store trie, a, ti) =
      (Ok (st1, a + 1, ti @ [\<lparr>ti_indexes = i, ti_paths = c, ti_value = ?info\<rparr>]) :: (_, 'e) res)"
    "mt_inv (trie\<lparr>mt_store := st1\<rparr>)" "mt_val (trie\<lparr>mt_store := st1\<rparr>) = (mt_val trie)(zip i c \<mapsto> ?info)"
    using insert_paths_ok [where gv = "\<lambda>c i. get_value_callback c i cet", OF Cons.prems(1) _ gv] Cons.prems(2) ki by auto
  show ?case
    using Cons.IH [OF st1(2), of "a + 1" "ti @ [\<lparr>ti_indexes = i, ti_paths = c, ti_value = ?info\<rparr>]"] Cons.prems(2,3) st1(1,3) ki
    by (auto simp del: fun_upd_apply)
qed simp

section \<open>Lookup in the whole trie\<close>

text \<open>A key fits the given paths when its paths are prefixes of the paths of some of the oracles, in their order.\<close>

definition mt_fits :: "indexed_path list \<Rightarrow> indexed_path list \<Rightarrow> bool" where
  "mt_fits key paths \<longleftrightarrow> (\<exists>ps. subseq ps paths \<and> list_all2 (\<lambda>(i, q) (j, p). i = j \<and> prefix q p) key ps)"

lemma zip_nth: "zip xs [0..<length xs] = map (\<lambda>i. (xs ! i, i)) [0..<length xs]"
  "zip [0..<length xs] xs = map (\<lambda>i. (i, xs ! i)) [0..<length xs]"
  by (rule nth_equalityI; simp)+

lemma nths_filter: "nths xs S = map ((!) xs) (filter (\<lambda>i. i \<in> S) [0..<length xs])"
  by (simp add: nths_def zip_nth filter_map o_def)

lemma select_nths: "map snd (filter (\<lambda>(i, x). i \<in> S) (enumerate 0 xs)) = nths xs S"
  by (simp add: nths_filter enumerate_eq_zip zip_nth filter_map o_def)

lemma nths_comb:
  assumes "s \<in> set (combs 0 (length xs) k)"
  shows "nths xs (set s) = map ((!) xs) s"
proof -
  have s: "sorted_wrt (<) s" "set s \<subseteq> {..<length xs}" using assms by (auto simp: set_combs)
  have "filter (\<lambda>i. i \<in> set s) [0..<length xs] = s"
    using s by (intro sorted_distinct_set_unique) (auto simp: strict_sorted_iff sorted_wrt_filter)
  then show ?thesis by (simp add: nths_filter)
qed

lemma subseq_comb:
  "(\<exists>ps. subseq ps paths \<and> length ps = k \<and> P ps) \<longleftrightarrow> (\<exists>s\<in>set (combs 0 (length paths) k). P (map ((!) paths) s))"
proof
  assume "\<exists>ps. subseq ps paths \<and> length ps = k \<and> P ps"
  then obtain N where N: "length (nths paths N) = k" "P (nths paths N)" by (auto simp: subseq_conv_nths)
  let ?s = "sorted_list_of_set {i. i < length paths \<and> i \<in> N}"
  have len: "length ?s = k" using N(1) by (simp add: length_nths)
  have s: "?s \<in> set (combs 0 (length paths) k)" using len by (auto simp: set_combs)
  have "nths paths (set ?s) = nths paths N" unfolding nths_filter
    by (intro arg_cong [of _ _ "map _"] filter_cong) auto
  then show "\<exists>s\<in>set (combs 0 (length paths) k). P (map ((!) paths) s)"
    using N(2) s nths_comb [OF s] by metis
next
  assume "\<exists>s\<in>set (combs 0 (length paths) k). P (map ((!) paths) s)"
  then obtain s where s: "s \<in> set (combs 0 (length paths) k)" "P (map ((!) paths) s)" by blast
  then show "\<exists>ps. subseq ps paths \<and> length ps = k \<and> P ps"
    using nths_comb [OF s(1)] unfolding subseq_conv_nths
    by (intro exI [of _ "map ((!) paths) s"]) (metis (mono_tags, lifting) length_map mem_Collect_eq set_combs)
qed

lemma list_all2_key:
  "list_all2 (\<lambda>(i, q) (j, p). i = j \<and> prefix q p) key ps \<longleftrightarrow>
   map fst key = map fst ps \<and> list_all2 (\<lambda>q p. prefix q (snd p)) (map snd key) ps"
proof (induction key arbitrary: ps)
  case (Cons x key)
  then show ?case by (cases ps) (auto simp: case_prod_unfold)
qed auto

lemma mt_found_val:
  assumes "ps \<noteq> []" "fst (hd ps) < mt_roots trie" "map fst key = map fst ps"
  shows "mt_found (mt_store trie) (fst (hd ps)) ps (map snd key) v \<longleftrightarrow>
    list_all2 (\<lambda>q p. prefix q (snd p)) (map snd key) ps \<and> mt_val trie key = Some v"
proof -
  have "key \<noteq> []" "fst (hd key) = fst (hd ps)" "map fst (tl key) = map fst (tl ps)"
    using assms(1,3) by (cases key; cases ps; simp)+
  then show ?thesis using assms(2) by (simp add: mt_found_def mt_val_def)
qed

lemma mt_val_length:
  assumes "mt_inv trie" "mt_val trie key = Some v"
  shows "length key = mt_nb_required trie"
proof -
  obtain dep where ok: "mt_ok (oni_base (mt_infos trie)) (mt_nb_required trie) dep (mt_store trie)"
    and r: "mt_roots trie \<le> length (mt_store trie)" "\<And>r. r < mt_roots trie \<Longrightarrow> dep r = 0"
    using assms(1) unfolding mt_inv_def by blast
  have "fst (hd key) < mt_roots trie" and g: "mget (mt_store trie) (fst (hd key)) (map snd key) (map fst (tl key)) = Some v"
    using assms(2) by (auto simp: mt_val_def split: if_splits)
  then show ?thesis using mget_length [OF ok _ g] r by fastforce
qed

lemma mt_look_up_selection:
  assumes inv: "mt_inv trie" and paths: "\<forall>p\<in>set ps. dt_path (oni_base (mt_infos trie)) (snd p)"
    and len: "length ps = mt_nb_required trie" and root: "fst (hd ps) < mt_roots trie"
  shows "\<exists>r. mt_look_up_internal (mt_store trie) (mt_store trie ! fst (hd ps)) ps 0 = (Ok r :: (_, 'e) res) \<and>
    (r = None \<longrightarrow> (\<forall>key v. list_all2 (\<lambda>(i, q) (j, p). i = j \<and> prefix q p) key ps \<longrightarrow> mt_val trie key \<noteq> Some v)) \<and>
    (\<forall>l. r = Some l \<longrightarrow> list_all2 (\<lambda>(i, q) (j, p). i = j \<and> prefix q p) (rev (lr_path l)) ps \<and>
       mt_val trie (rev (lr_path l)) = Some (lr_value l))"
proof -
  obtain dep where ok: "mt_ok (oni_base (mt_infos trie)) (mt_nb_required trie) dep (mt_store trie)"
    and r: "mt_roots trie \<le> length (mt_store trie)" "\<And>r. r < mt_roots trie \<Longrightarrow> dep r = 0"
    and k: "0 < mt_nb_required trie"
    using inv unfolding mt_inv_def by blast
  let ?n = "fst (hd ps)"
  have ne: "ps \<noteq> []" using len k by auto
  obtain r where r: "mt_look_up_internal (mt_store trie) (mt_store trie ! ?n) ps 0 = (Ok r :: (_, 'e) res)"
    "r = None \<longrightarrow> (\<forall>qs v. \<not> mt_found (mt_store trie) ?n ps qs v)"
    "\<forall>l. r = Some l \<longrightarrow> map fst (rev (lr_path l)) = map fst ps \<and> mt_found (mt_store trie) ?n ps (map snd (rev (lr_path l))) (lr_value l)"
    using mt_look_up_internal_ok [OF ok, of ?n 0 ps, where ?'e = 'e] r root len paths by auto
  then show ?thesis
    unfolding list_all2_key using mt_found_val [OF ne root] by (intro exI [of _ r]) blast
qed

lemma multi_trie_look_up_ok:
  assumes inv: "mt_inv trie" and paths: "\<forall>p\<in>set paths. dt_path (oni_base (mt_infos trie)) (snd p)"
    and len: "length paths < usize_bound"
  shows "\<exists>r. multi_trie_look_up trie paths = (Ok r :: (_, 'e) res) \<and>
    (r = None \<longrightarrow> (\<forall>key. mt_fits key paths \<longrightarrow> mt_val trie key = None)) \<and>
    (\<forall>v key. r = Some (v, key) \<longrightarrow> mt_fits key paths \<and> mt_val trie key = Some v)"
proof (cases "length paths < mt_nb_required trie")
  case True
  have "mt_val trie key = None" if "mt_fits key paths" for key
  proof (rule ccontr)
    assume "mt_val trie key \<noteq> None"
    then have "length key = mt_nb_required trie" using mt_val_length [OF inv] by auto
    moreover have "length key \<le> length paths"
      using that list_all2_lengthD list_emb_length unfolding mt_fits_def by metis
    ultimately show False using True by simp
  qed
  then show ?thesis using True by (auto simp: multi_trie_look_up_def)
next
  case False
  let ?k = "mt_nb_required trie"
  have k: "0 < ?k" "?k \<le> mt_nb_tries trie" "mt_nb_tries trie < usize_bound" using inv by (auto simp: mt_inv_def)
  have cs: "and_then (ci_new (length paths) ?k) ci_collect = (Ok (combs 0 (length paths) ?k) :: (_, 'e) res)"
    using ci_collect_combs [OF k(1) _ len refl] False by (simp add: ci_new_def)
  define f :: "nat list \<Rightarrow> ((_ \<times> indexed_path list) option, 'e) res" where
    "f s = and_then (index s 0) (\<lambda>s0. and_then (index paths s0) (\<lambda>p0.
       if mt_roots trie \<le> fst p0 then Ok None
       else and_then (index (mt_store trie) (fst p0)) (\<lambda>node.
            and_then (mt_look_up_internal (mt_store trie) node
                        (map snd (filter (\<lambda>(i, x). i \<in> set s) (enumerate 0 paths))) 0) (\<lambda>r.
              Ok (map_option (\<lambda>l. (lr_value l, rev (lr_path l))) r)))))" for s
  let ?fit = "\<lambda>key ps. list_all2 (\<lambda>(i, q) (j, p). i = j \<and> prefix q p) (key :: indexed_path list) ps"
  have fs: "\<exists>r. f s = Ok r \<and> (r = None \<longrightarrow> (\<forall>key v. ?fit key (map ((!) paths) s) \<longrightarrow> mt_val trie key \<noteq> Some v)) \<and>
      (\<forall>v key. r = Some (v, key) \<longrightarrow> ?fit key (map ((!) paths) s) \<and> mt_val trie key = Some v)"
    if s: "s \<in> set (combs 0 (length paths) ?k)" for s
  proof -
    let ?ps = "map ((!) paths) s"
    have s': "length s = ?k" "set s \<subseteq> {..<length paths}" using s by (auto simp: set_combs)
    then obtain s0 ss where s0: "s = s0 # ss" "s0 < length paths" using k(1) by (cases s) auto
    have sel: "map snd (filter (\<lambda>(i, x). i \<in> set s) (enumerate 0 paths)) = ?ps"
      unfolding select_nths by (rule nths_comb [OF s])
    have hd: "fst (hd ?ps) = fst (paths ! s0)" using s0 by simp
    show ?thesis
    proof (cases "mt_roots trie \<le> fst (paths ! s0)")
      case True
      have "mt_val trie key = None" if "?fit key ?ps" for key
        using that True s0(1) by (cases key) (auto simp: mt_val_def)
      then show ?thesis using True s0 by (auto simp: f_def index_def)
    next
      case False
      have node: "fst (paths ! s0) < length (mt_store trie)" using False inv by (auto simp: mt_inv_def)
      have "\<forall>p\<in>set ?ps. dt_path (oni_base (mt_infos trie)) (snd p)" using paths s' by auto
      from mt_look_up_selection [OF inv this, where ?'e = 'e] False s' hd obtain r where
        r: "mt_look_up_internal (mt_store trie) (mt_store trie ! fst (paths ! s0)) ?ps 0 = (Ok r :: (_, 'e) res)"
        "r = None \<longrightarrow> (\<forall>key v. ?fit key ?ps \<longrightarrow> mt_val trie key \<noteq> Some v)"
        "\<forall>l. r = Some l \<longrightarrow> ?fit (rev (lr_path l)) ?ps \<and> mt_val trie (rev (lr_path l)) = Some (lr_value l)" by auto
      have "f s = Ok (map_option (\<lambda>l. (lr_value l, rev (lr_path l))) r)"
        unfolding f_def sel using False s0 node r(1) by (simp add: index_def)
      then show ?thesis using r(2,3) by auto
    qed
  qed
  have top: "multi_trie_look_up trie paths = first_some f (combs 0 (length paths) ?k)"
  proof -
    have "and_then (usub (mt_nb_tries trie) ?k) (\<lambda>d. uadd d 1) = (Ok (mt_roots trie) :: (_, 'e) res)"
      using k by (simp add: usub_def uadd_def mt_roots_def)
    then have roots: "and_then (usub (mt_nb_tries trie) ?k) (\<lambda>d. and_then (uadd d 1) g) = g (mt_roots trie)"
      for g :: "nat \<Rightarrow> (_, 'e) res" unfolding and_then_assoc [symmetric] by simp
    show ?thesis using False cs unfolding multi_trie_look_up_def roots
      by (simp add: f_def [abs_def] ci_new_def)
  qed
  have ex: "\<exists>r. f s = Ok r" if "s \<in> set (combs 0 (length paths) ?k)" for s using fs [OF that] by blast
  obtain r where r: "first_some f (combs 0 (length paths) ?k) = Ok r"
    "r = None \<longrightarrow> (\<forall>s\<in>set (combs 0 (length paths) ?k). f s = Ok None)"
    "\<forall>y. r = Some y \<longrightarrow> (\<exists>s\<in>set (combs 0 (length paths) ?k). f s = Ok (Some y))"
    using first_some_spec [of "combs 0 (length paths) ?k" f, OF ex] by blast
  have some: "\<exists>s\<in>set (combs 0 (length paths) ?k). f s = Ok (Some y)" if "r = Some y" for y using r(3) that by blast
  have "mt_val trie key = None" if none: "r = None" and fits: "mt_fits key paths" for key
  proof (rule ccontr)
    assume "mt_val trie key \<noteq> None"
    then obtain v where v: "mt_val trie key = Some v" by auto
    obtain ps where ps: "subseq ps paths" "?fit key ps" using fits by (auto simp: mt_fits_def)
    then have "length ps = ?k" using mt_val_length [OF inv v] list_all2_lengthD by fastforce
    then obtain s where s: "s \<in> set (combs 0 (length paths) ?k)" "?fit key (map ((!) paths) s)"
      using subseq_comb [of paths ?k "?fit key"] ps by blast
    then show False using fs [OF s(1)] r(2) none v by auto
  qed
  moreover have "mt_fits key paths \<and> mt_val trie key = Some v" if rs: "r = Some (v, key)" for v key
  proof -
    obtain s where s: "s \<in> set (combs 0 (length paths) ?k)" "f s = Ok (Some (v, key))" using some [OF rs] by blast
    then have "?fit key (map ((!) paths) s)" "mt_val trie key = Some v" using fs [OF s(1)] by auto
    then show ?thesis using subseq_comb [of paths ?k "?fit key"] s(1) unfolding mt_fits_def by blast
  qed
  ultimately show ?thesis unfolding top using r(1) by blast
qed

text \<open>A new trie has no values.\<close>

lemma multi_trie_new_ok:
  assumes "0 < k" "k \<le> length (oni_nb_digits infos)" "length (oni_nb_digits infos) < usize_bound"
  shows "\<exists>trie :: 'a multi_trie. multi_trie_new infos k S E mc = (Ok trie :: (_, 'e) res) \<and> mt_inv trie \<and> mt_val trie = Map.empty \<and>
    mt_infos trie = infos \<and> mt_nb_required trie = k \<and> mt_min_support_exp trie = S \<and> mt_max_error_exp trie = E \<and>
    mt_maximize_coverage trie = mc"
proof -
  let ?n = "length (oni_nb_digits infos)"
  let ?st = "replicate (?n - k + 1) (mnode_new (\<not> 1 < k) (oni_base infos))"
  define trie :: "'a multi_trie" where "trie = \<lparr>mt_store = ?st, mt_nb_tries = ?n, mt_nb_required = k, mt_min_support_exp = S,
    mt_max_error_exp = E, mt_maximize_coverage = mc, mt_infos = infos\<rparr>"
  have len: "min ?n (?n - k + 1) = ?n - k + 1" using assms(1,2) by simp
  have st: "map (\<lambda>_. mnode_new (\<not> 1 < k) (oni_base infos)) (take (?n - k + 1) [0..<?n]) = ?st"
    by (simp only: map_replicate_const length_take length_upt diff_zero len)
  have u: "usub ?n k = (Ok (?n - k) :: (_, 'e) res)" "uadd (?n - k) 1 = (Ok (?n - k + 1) :: (_, 'e) res)"
    "assert_that (0 < k \<and> k \<le> ?n \<and> oni_nb_digits infos \<noteq> []) = (Ok () :: (_, 'e) res)"
    using assms by (auto simp: assert_that_def)
  have new: "multi_trie_new infos k S E mc = (Ok trie :: (_, 'e) res)"
    by (simp only: multi_trie_new_def Let_def u and_then_simps st trie_def)
  have nth: "?st ! n = mnode_new (\<not> 1 < k) (oni_base infos)" if "n < length ?st" for n
    using that by (simp only: nth_replicate length_replicate)
  have none: "\<not> edge_at ?st n p i m" for n p i m
    using edge_at_mnode_new [OF _ nth, of n p i m] by (auto simp only: edge_at_def)
  have "mt_ok (oni_base infos) k (\<lambda>_. 0) ?st"
  proof (rule mt_okI, goal_cases)
    case (1 n)
    then show ?case unfolding nth [OF 1] using assms by (auto simp: mnode_new_def dt_inv_new)
  qed (use none in blast)+
  then have "mt_inv trie" using assms by (auto simp: mt_inv_def trie_def mt_roots_def intro!: exI [of _ "\<lambda>_. 0"])
  moreover have "mt_val trie key = None" for key
    using mget_new [OF _ nth, of "fst (hd key)"] by (auto simp: mt_val_def trie_def mt_roots_def simp del: replicate.simps)
  ultimately show ?thesis using new by (intro exI [of _ trie]) (auto simp: trie_def)
qed

section \<open>Insertion for all selections of oracles\<close>

lemma fold_res_concat: "fold_res f (concat xss) s = fold_res (fold_res f) xss s"
proof (induction xss arbitrary: s)
  case (Cons xs xss)
  show ?case by (cases "fold_res f xs s") (simp_all add: fold_res_append Cons)
qed simp

lemma fold_res_map: "fold_res f (map g xs) s = fold_res (\<lambda>x. f (g x)) xs s"
  by (induction xs arbitrary: s) (auto intro: and_then_cong)

lemma fold_res_cong:
  "(\<And>x s. x \<in> set xs \<Longrightarrow> f x s = g x s) \<Longrightarrow> fold_res f xs s = fold_res g xs s"
  by (induction xs arbitrary: s) (auto intro!: and_then_cong)

lemma comb_first:
  assumes "s \<in> set (combs 0 n k)" "0 < k"
  shows "s ! 0 < n - k + 1" "length s = k"
proof -
  have s: "length s = k" "sorted_wrt (<) s" "set s \<subseteq> {..<n}" using assms(1) by (auto simp: set_combs lessThan_atLeast0)
  have "set s \<subseteq> {s ! 0..<n}"
  proof
    fix x assume x: "x \<in> set s"
    then obtain i where i: "i < k" "x = s ! i" using s(1) by (auto simp: in_set_conv_nth)
    have "s ! 0 \<le> s ! i" using sorted_wrt_nth_less [OF s(2), of 0 i] i s(1) by (cases "i = 0") auto
    then show "x \<in> {s ! 0..<n}" using i x s(3) by auto
  qed
  then have "card (set s) \<le> n - s ! 0" using card_mono [of "{s ! 0..<n}" "set s"] by simp
  moreover have "card (set s) = k" using s(1,2) by (simp add: distinct_card strict_sorted_iff)
  ultimately show "s ! 0 < n - k + 1" using assms(2) by linarith
qed (use assms in \<open>auto simp: set_combs\<close>)

text \<open>
  All insertions of one call: the selections of oracles in order, with the combinations of
  paths for each.
\<close>

definition insert_keys :: "nat \<Rightarrow> nat \<Rightarrow> (nat list \<Rightarrow> nat list list list) \<Rightarrow> (nat list list \<times> nat list) list" where
  "insert_keys n k cs = concat (map (\<lambda>s. map (\<lambda>c. (c, s)) (cs s)) (combs 0 n k))"

lemma multi_trie_insert_ok:
  assumes inv: "mt_inv trie"
    and cs: "\<And>s. s \<in> set (combs 0 (mt_nb_tries trie) (mt_nb_required trie)) \<Longrightarrow>
      selector_combinations trie path s = (Ok (cs s) :: (_, 'e) res)"
    and paths: "\<And>s c. s \<in> set (combs 0 (mt_nb_tries trie) (mt_nb_required trie)) \<Longrightarrow> c \<in> set (cs s) \<Longrightarrow>
      length c = mt_nb_required trie \<and> (\<forall>p\<in>set c. dt_path (oni_base (mt_infos trie)) p \<and> p \<noteq> [])"
    and kis: "kis = insert_keys (mt_nb_tries trie) (mt_nb_required trie) cs" and a: "a + length kis < usize_bound"
  shows "\<exists>st'. multi_trie_insert trie path (\<lambda>c i. get_value_callback c i cet) (a, ti) =
      (Ok (trie\<lparr>mt_store := st'\<rparr>, a + length kis, ti @ infos_at cet a kis) :: (_, 'e) res) \<and>
    mt_inv (trie\<lparr>mt_store := st'\<rparr>) \<and> mt_val (trie\<lparr>mt_store := st'\<rparr>) = fold put_info (infos_at cet a kis) (mt_val trie)"
proof -
  let ?n = "mt_nb_tries trie" and ?k = "mt_nb_required trie"
  let ?gv = "\<lambda>c i. get_value_callback c i cet :: _ \<Rightarrow> (_, 'e) res"
  have k: "0 < ?k" "?k \<le> ?n" "?n < usize_bound" "oni_nb_digits (mt_infos trie) \<noteq> []"
    using inv by (auto simp: mt_inv_def)
  have it: "and_then (ci_new ?n ?k) ci_collect = (Ok (combs 0 ?n ?k) :: (_, 'e) res)"
    using ci_collect_combs [OF k(1,2,3) refl] k(2) by (simp add: ci_new_def)
  have keys: "\<forall>ki\<in>set kis. mt_key trie ki"
    using paths comb_first [OF _ k(1)] by (auto simp: kis insert_keys_def mt_key_def mt_roots_def)
  have loop: "fold_res (\<lambda>sel (store, s). and_then (selector_combinations trie path sel) (\<lambda>combinations.
        fold_res (\<lambda>c. insert_paths (oni_base (mt_infos trie)) (c, sel) ?gv) combinations (store, s)))
      (combs 0 ?n ?k) z = fold_res (\<lambda>ki. insert_paths (oni_base (mt_infos trie)) ki ?gv) kis z" for z
    unfolding kis insert_keys_def fold_res_concat fold_res_map
    by (rule fold_res_cong) (auto simp: cs)
  obtain st' where st': "fold_res (\<lambda>ki. insert_paths (oni_base (mt_infos trie)) ki ?gv) kis (mt_store trie, a, ti) =
      (Ok (st', a + length kis, ti @ infos_at cet a kis) :: (_, 'e) res)"
    "mt_inv (trie\<lparr>mt_store := st'\<rparr>)" "mt_val (trie\<lparr>mt_store := st'\<rparr>) = fold put_info (infos_at cet a kis) (mt_val trie)"
    using insert_all_ok [OF inv keys a, where ?'e = 'e] by blast
  have "multi_trie_insert trie path ?gv (a, ti) = Ok (trie\<lparr>mt_store := st'\<rparr>, a + length kis, ti @ infos_at cet a kis)"
    using it k(2,4) loop st'(1) unfolding multi_trie_insert_def by (simp add: get_min_nb_digits_def ci_new_def)
  then show ?thesis using st'(2,3) by blast
qed

section \<open>Properties\<close>

text \<open>
  Inserting one key (a path for each of \<open>nb_required\<close> oracles) into a well-formed trie of tries
  at a root: the callback is called once and the new arena is well formed, at every node of the
  level of the root the value at the key is the callback's, and no other value changes.
\<close>

theorem mt_insert_internal_key:
  assumes "mt_inv trie" "mt_key trie (paths, inds)" "get_value paths inds s = (Ok (v, s') :: (_, 'e) res)"
  shows "\<exists>st'. mt_insert_internal (oni_base (mt_infos trie)) (mt_store trie) (inds ! 0) paths 0 inds get_value s = Ok (st', s') \<and>
    mt_inv (trie\<lparr>mt_store := st'\<rparr>) \<and> mt_val (trie\<lparr>mt_store := st'\<rparr>) = (mt_val trie)(zip inds paths \<mapsto> v)"
proof -
  have "0 < length inds" using assms(1,2) by (auto simp: mt_key_def mt_inv_def)
  then show ?thesis using insert_paths_ok [of trie paths inds get_value s v s', OF assms] by (auto simp: insert_paths_def index_def)
qed

lemma mt_insert_internal_key_witness:
  "\<exists>trie st'. multi_trie_new \<lparr>oni_base = 2, oni_nb_digits = [3, 3, 4]\<rparr> 2 1 2 True = (Ok trie :: (nat multi_trie, unit) res) \<and>
     mt_insert_internal 2 (mt_store trie) 1 [[0, 1], [1]] 0 [1, 2] (\<lambda>_ _ s. Ok (7, s + 1)) (0 :: nat) = (Ok (st', 1) :: (_, unit) res) \<and>
     mt_val (trie\<lparr>mt_store := st'\<rparr>) = Map.empty([(1, [0, 1]), (2, [1])] \<mapsto> 7)"
proof -
  let ?infos = "\<lparr>oni_base = 2, oni_nb_digits = [3, 3, 4]\<rparr>"
  obtain trie :: "nat multi_trie" where t: "multi_trie_new ?infos 2 1 2 True = (Ok trie :: (_, unit) res)"
    "mt_inv trie" "mt_val trie = Map.empty" "mt_infos trie = ?infos" "mt_nb_required trie = 2"
    using multi_trie_new_ok [of 2 ?infos 1 2 True, where ?'e = unit] by auto
  have "mt_nb_tries trie = 3" using t(2,4) by (simp add: mt_inv_def)
  then have "mt_key trie ([[0, 1], [1]], [1, 2])" using t(4,5) by (simp add: mt_key_def mt_roots_def dt_path_def)
  from mt_insert_internal_key [where ?'e = unit, OF t(2) this, of "\<lambda>_ _ s. Ok (7, s + 1)" "0 :: nat" 7 1] show ?thesis
    using t by auto
qed

text \<open>
  C23. A lookup in a well-formed trie of tries ends and returns a value exactly when the trie has
  one at a key whose oracles are among the given ones, in their order, and whose paths are
  prefixes of the given paths; it returns such a key with its value.
\<close>

theorem multi_trie_look_up_complete:
  assumes "mt_inv trie" "\<forall>(i, p)\<in>set paths. list_all (\<lambda>x. x < oni_base (mt_infos trie)) p" "length paths < 2 ^ 64"
  shows "\<exists>r. multi_trie_look_up trie paths = (Ok r :: (_, 'e) res) \<and>
    (r = None \<longleftrightarrow> (\<forall>key. mt_fits key paths \<longrightarrow> mt_val trie key = None)) \<and>
    (\<forall>v key. r = Some (v, key) \<longrightarrow> mt_fits key paths \<and> mt_val trie key = Some v)"
proof -
  have "\<forall>p\<in>set paths. dt_path (oni_base (mt_infos trie)) (snd p)" using assms(2) by (auto simp: dt_path_def)
  from multi_trie_look_up_ok [OF assms(1) this assms(3), where ?'e = 'e] obtain r where
    "multi_trie_look_up trie paths = (Ok r :: (_, 'e) res)"
    "r = None \<longrightarrow> (\<forall>key. mt_fits key paths \<longrightarrow> mt_val trie key = None)"
    "\<forall>v key. r = Some (v, key) \<longrightarrow> mt_fits key paths \<and> mt_val trie key = Some v" by blast
  then show ?thesis by (intro exI [of _ r]) (cases r; force)
qed

lemma multi_trie_look_up_complete_witness:
  "\<exists>trie r. multi_trie_new \<lparr>oni_base = 2, oni_nb_digits = [3, 3, 4]\<rparr> 2 1 2 True = (Ok trie :: (nat multi_trie, unit) res) \<and>
     multi_trie_look_up trie [(0, [1, 0, 1]), (2, [0, 1, 1, 0])] = (Ok r :: (_, unit) res) \<and>
     (r = None \<longleftrightarrow> (\<forall>key. mt_fits key [(0, [1, 0, 1]), (2, [0, 1, 1, 0])] \<longrightarrow> mt_val trie key = None))"
proof -
  let ?infos = "\<lparr>oni_base = 2, oni_nb_digits = [3, 3, 4]\<rparr>"
  obtain trie :: "nat multi_trie" where t: "multi_trie_new ?infos 2 1 2 True = (Ok trie :: (_, unit) res)"
    "mt_inv trie" "mt_infos trie = ?infos"
    using multi_trie_new_ok [of 2 ?infos 1 2 True, where ?'e = unit] by auto
  from multi_trie_look_up_complete [OF t(2), of "[(0, [1, 0, 1]), (2, [0, 1, 1, 0])]", where ?'e = unit] show ?thesis
    using t(1,3) by auto
qed

text \<open>
  A trie of tries restored from its dump is the same trie: for every well-formed trie the
  dump succeeds and \<open>from_dump\<close> gives the trie back.
\<close>

theorem multi_trie_dump_roundtrip:
  assumes "mt_inv trie"
  shows "\<exists>d. multi_trie_get_dump trie = (Ok d :: (_, 'e) res) \<and> multi_trie_from_dump d = (Ok trie :: (_, 'e) res)"
proof -
  obtain dep where ok: "mt_ok (oni_base (mt_infos trie)) (mt_nb_required trie) dep (mt_store trie)"
    using assms by (auto simp: mt_inv_def)
  have node: "\<exists>d. mnode_get_data n = (Ok d :: (_, 'e) res) \<and> mnode_from_data d = (Ok n :: (_, 'e) res)"
    if n: "n \<in> set (mt_store trie)" for n
  proof -
    obtain i where "i < length (mt_store trie)" "n = mt_store trie ! i" using n by (auto simp: in_set_conv_nth)
    then have "node_ok (oni_base (mt_infos trie)) (mt_nb_required trie) (dep i) n" using mt_okD(1) [OF ok] by blast
    then show ?thesis
      using digit_trie_from_dump_dump [where ?'e = 'e] digit_trie_from_dump_dump [where ?'e = 'e and ?'a = "trie_node_info list"]
      by (cases n) (fastforce simp: mnode_get_data_def mnode_from_data_def)+
  qed
  define g where "g n = (SOME d. mnode_get_data n = (Ok d :: (_, 'e) res) \<and> mnode_from_data d = (Ok n :: (_, 'e) res))" for n :: "'a mnode"
  have g: "mnode_get_data n = (Ok (g n) :: (_, 'e) res)" "mnode_from_data (g n) = (Ok n :: (_, 'e) res)"
    if "n \<in> set (mt_store trie)" for n
    using someI_ex [OF node [OF that]] by (auto simp: g_def)
  have "traverse mnode_get_data (mt_store trie) = (Ok (map g (mt_store trie)) :: (_, 'e) res)"
    by (rule traverse_all_Ok) (rule g(1))
  moreover have "traverse mnode_from_data (map g (mt_store trie)) = (Ok (mt_store trie) :: (_, 'e) res)"
    unfolding traverse_Ok_iff using g(2) by (auto simp: list_all2_conv_all_nth)
  ultimately show ?thesis by (simp add: multi_trie_get_dump_def multi_trie_from_dump_def)
qed

lemma multi_trie_dump_roundtrip_witness:
  "\<exists>trie d. multi_trie_new \<lparr>oni_base = 2, oni_nb_digits = [3, 3, 4]\<rparr> 2 1 2 True = (Ok trie :: (nat multi_trie, unit) res) \<and>
     multi_trie_get_dump trie = (Ok d :: (_, unit) res) \<and> multi_trie_from_dump d = (Ok trie :: (_, unit) res)"
proof -
  obtain trie :: "nat multi_trie" where t: "multi_trie_new \<lparr>oni_base = 2, oni_nb_digits = [3, 3, 4]\<rparr> 2 1 2 True = (Ok trie :: (_, unit) res)"
    "mt_inv trie"
    using multi_trie_new_ok [of 2 "\<lparr>oni_base = 2, oni_nb_digits = [3, 3, 4]\<rparr>" 1 2 True, where ?'e = unit] by auto
  from multi_trie_dump_roundtrip [OF t(2), where ?'e = unit] show ?thesis using t(1) by auto
qed

end
