(* ===== verification/Combination_Shape.thy ===== *)
theory Combination_Shape
  imports Outcome_Agreement
begin

text \<open>
  The paths that \<open>compute_outcome_combinations\<close> of \<open>dlc-trie/src/multi_oracle.rs\<close> puts into
  the combinations are the ones a trie accepts: non-empty lists of binary digits, one for each
  oracle.  There are at most \<open>2 ^ k + 1\<close> combinations for \<open>k\<close> oracles.
\<close>

lemma and_then_OkE:
  assumes "and_then r f = Ok y"
  obtains x where "r = Ok x" "f x = Ok y"
  using assms by (auto simp: res_simps)

section \<open>The paths of the combinations\<close>

text \<open>
  Every path in a combination is a non-empty list of binary digits.  A prefix of \<open>n\<close> digits
  leaves such a path for each oracle when the digits it ignores are fewer than the oracle has.
\<close>

definition usable :: "nat list \<Rightarrow> nat \<Rightarrow> nat list \<Rightarrow> bool" where
  "usable infos n p \<longleftrightarrow> digits_below 2 p \<and> length p \<le> n \<and> (\<forall>nb\<in>set infos. n - length p < nb)"

definition proper :: "nat list \<Rightarrow> nat list list \<Rightarrow> bool" where
  "proper infos c \<longleftrightarrow> length c = length infos \<and> (\<forall>p\<in>set c. digits_below 2 p \<and> p \<noteq> [])"

lemma adjust_proper:
  assumes "adjust_prefix_size p nb s = Ok r" "digits_below 2 p" "s < nb"
  shows "digits_below 2 r \<and> r \<noteq> []"
  using assms
  by (auto simp: adjust_prefix_size_def pre_pad_vec_def res_simps list_all_iff dest: in_set_dropD split: if_splits)

lemma unwrap_ok_eq_Ok: "unwrap_ok r = Ok x \<longleftrightarrow> r = Ok x"
  by (cases r) (auto simp: unwrap_ok_def)

lemma single_proper:
  assumes "single_covering_prefix_combinations q p infos k = Ok c" "usable infos n q" "usable infos n p" "n - length q = k"
  shows "proper infos c"
proof -
  obtain nb0 rest where i: "infos = nb0 # rest" using assms(1)
    by (cases infos) (auto simp: single_covering_prefix_combinations_def res_simps)
  then obtain m sec where c: "c = m # sec" "adjust_prefix_size q nb0 k = Ok m"
    "list_all2 (\<lambda>nb r. \<exists>d. usub (length q) (length p) = Ok d \<and> (\<exists>s. uadd d k = Ok s \<and> adjust_prefix_size p nb s = Ok r)) rest sec"
    using assms(1) by (auto simp: single_covering_prefix_combinations_def res_simps traverse_Ok_iff unwrap_ok_eq_Ok index_def)
  have "digits_below 2 m \<and> m \<noteq> []"
    using assms(2,4) i by (intro adjust_proper [OF c(2)]) (auto simp: usable_def)
  moreover have "digits_below 2 r \<and> r \<noteq> []" if "r \<in> set sec" for r
  proof -
    obtain nb where nb: "nb \<in> set rest" "length p \<le> length q" "adjust_prefix_size p nb (length q - length p + k) = Ok r"
      using c(3) \<open>r \<in> set sec\<close> by (fastforce simp: list_all2_conv_all_nth in_set_conv_nth)
    have "length q - length p + k = n - length p" using assms(2,4) nb(2) by (auto simp: usable_def)
    then show ?thesis using assms(3) nb i by (intro adjust_proper [OF nb(3)]) (auto simp: usable_def)
  qed
  ultimately show ?thesis using c i by (auto simp: proper_def dest: list_all2_lengthD)
qed

lemma push_if_ok_eq_Ok: "push_if_ok r = Ok xs \<longleftrightarrow> (\<exists>x. r = Ok x \<and> xs = [x]) \<or> (\<exists>e. r = Err e) \<and> xs = []"
  by (cases r) (auto simp: push_if_ok_def)

lemma traverse_mem: "traverse f xs = Ok ys \<Longrightarrow> y \<in> set ys \<Longrightarrow> \<exists>x\<in>set xs. f x = Ok y"
  by (induction xs arbitrary: ys) (auto simp: res_simps)

lemma double_proper:
  assumes "double_covering_prefix_combinations q p r infos k = (Ok cs :: (_, 'e) res)" "usable infos n q" "usable infos n p" "usable infos n r"
    and "n - length q = k" "c \<in> set cs"
  shows "proper infos c"
proof -
  obtain a b where ab: "(if p \<le> r then (p, r) else (r, p)) = (a, b)" by fastforce
  let ?N = "length infos - 1"
  have fs: "usable infos n a" "usable infos n b" using assms(3,4) ab by (auto split: if_splits)
  have ne: "infos \<noteq> []" using assms(1)
    by (auto simp: double_covering_prefix_combinations_def res_simps)
  obtain i where c: "traverse (\<lambda>(x, y). and_then (uadd (length q) k) (\<lambda>l. and_then (usub l (length x)) (\<lambda>s. adjust_prefix_size x y s)))
      (zip (rev (map (\<lambda>j. if i AND (2 :: nat) ^ j = 0 then a else b) [0..<?N] @ [q])) infos) = Ok c"
  proof -
    obtain rs "is" where rs: "c \<in> set (concat rs)" "traverse (\<lambda>i. push_if_ok (traverse (\<lambda>(x, y).
        and_then (uadd (length q) k) (\<lambda>l. and_then (usub l (length x)) (\<lambda>s. adjust_prefix_size x y s)))
        (zip (rev (map (\<lambda>j. if i AND (2 :: nat) ^ j = 0 then a else b) [0..<?N] @ [q])) infos))) is =
        (Ok rs :: (_, 'e) res)"
      using assms(1,6) unfolding double_covering_prefix_combinations_def Let_def ab prod.case
      by (auto simp: res_simps)
    then obtain r' where r': "c \<in> set r'" "r' \<in> set rs" by auto
    from traverse_mem [OF rs(2) r'(2)] r'(1) show ?thesis using that by (auto simp: push_if_ok_eq_Ok)
  qed
  let ?zs = "zip (rev (map (\<lambda>j. if i AND (2 :: nat) ^ j = 0 then a else b) [0..<?N] @ [q])) infos"
  have len: "length c = length infos" using traverse_length [OF c] ne by (cases infos) auto
  have "digits_below 2 z \<and> z \<noteq> []" if zc: "z \<in> set c" for z
  proof -
    obtain x nb where x: "(x, nb) \<in> set ?zs" "adjust_prefix_size x nb (length q + k - length x) = Ok z"
      using traverse_mem [OF c zc] by (auto simp: res_simps)
    have nb: "nb \<in> set infos" using x(1) by (rule set_zip_rightD)
    have "x \<in> set (rev (map (\<lambda>j. if i AND (2 :: nat) ^ j = 0 then a else b) [0..<?N] @ [q]))" using x(1) by (rule set_zip_leftD)
    then have "usable infos n x" using fs assms(2) by auto
    moreover have "length q + k = n" using assms(2,5) by (auto simp: usable_def)
    ultimately show ?thesis using nb by (intro adjust_proper [OF x(2)]) (auto simp: usable_def)
  qed
  then show ?thesis using len by (simp add: proper_def)
qed

lemma restricted_proper:
  assumes "double_covering_restricted_prefix_combinations q r infos k = (Ok cs :: (_, 'e) res)" "usable infos n q" "usable infos n r"
    and "n - length q = k" "c \<in> set cs"
  shows "proper infos c"
proof -
  have "\<exists>cs'. double_covering_prefix_combinations q q r infos k = (Ok cs' :: (_, 'e) res) \<and> (cs = butlast cs' \<or> cs = drop 1 cs')"
    using assms(1) by (auto simp: double_covering_restricted_prefix_combinations_def res_simps split: if_splits)
  then obtain cs' where cs': "double_covering_prefix_combinations q q r infos k = (Ok cs' :: (_, 'e) res)" "set cs \<subseteq> set cs'"
    by (auto dest: in_set_dropD in_set_butlastD)
  then show ?thesis using double_proper [OF cs'(1) assms(2,2,3,4)] assms(5) by blast
qed

lemma decompose_loop_digits: "decompose_loop v b = Ok ds \<Longrightarrow> digits_below b ds"
proof (induction v b arbitrary: ds rule: decompose_loop.induct)
  case (1 v b)
  show ?case using 1(1) [OF _ _ refl] 1(2) unfolding decompose_loop.simps [of v b]
    by (auto simp: res_simps Let_def split: if_splits)
qed

lemma decompose_value_Ok: "decompose_value v b n = Ok ds \<Longrightarrow> 0 < b \<Longrightarrow> digits_below b ds \<and> length ds = n"
  using decompose_loop_digits by (fastforce simp: decompose_value_def res_simps Let_def list_all_iff)

lemma num_to_vec_usable:
  assumes "num_to_vec v n e 2 = Ok p" "\<forall>nb\<in>set infos. e < nb" "e \<le> n"
  shows "usable infos n p"
  using assms decompose_value_Ok [of v 2 n]
  by (fastforce simp: num_to_vec_def res_simps usable_def list_all_iff dest: in_set_takeD)

lemma usable_long:
  assumes "digits_below 2 p" "length p \<le> n" "n - e \<le> length p" "\<forall>nb\<in>set infos. e < nb"
  shows "usable infos n p"
  using assms unfolding usable_def by fastforce

lemma takeWhile_digits: "digits_below b ds \<Longrightarrow> digits_below b (take m ds @ takeWhile P (drop m ds))"
  by (auto simp: list_all_iff dest!: set_takeWhileD dest: in_set_takeD in_set_dropD)

lemma left_prefix_usable:
  assumes "compute_left_covering_prefix a e s n = (Ok p :: (_, 'e) res)" "\<forall>nb\<in>set infos. e < nb"
  shows "usable infos n p"
proof -
  obtain ds where ds: "decompose_value (a - s) 2 n = (Ok ds :: (_, 'e) res)" "e \<le> n"
    "p = take (n - e) ds @ takeWhile (\<lambda>x. x = 1) (drop (n - e) ds)"
    using assms(1) by (auto simp: compute_left_covering_prefix_def res_simps split_at_def split: if_splits)
  have d: "digits_below 2 ds" "length ds = n" using decompose_value_Ok [OF ds(1)] by simp_all
  have "length (takeWhile (\<lambda>x. x = 1) (drop (n - e) ds)) \<le> e"
    using length_takeWhile_le [of "\<lambda>x. x = 1" "drop (n - e) ds"] d(2) ds(2) by simp
  then show ?thesis using d ds assms(2) takeWhile_digits [OF d(1)]
    by (intro usable_long [of _ _ e]) auto
qed

lemma right_prefix_usable:
  assumes "compute_right_covering_prefix a e s n = (Ok p :: (_, 'e) res)" "\<forall>nb\<in>set infos. e < nb"
  shows "usable infos n p"
proof -
  obtain ds where ds: "decompose_value (a + s) 2 n = (Ok ds :: (_, 'e) res)" "e \<le> n"
    "p = take (n - e) ds @ takeWhile (\<lambda>x. x = 0) (drop (n - e) ds)"
    using assms(1) by (auto simp: compute_right_covering_prefix_def res_simps split_at_def split: if_splits)
  have d: "digits_below 2 ds" "length ds = n" using decompose_value_Ok [OF ds(1)] by simp_all
  have "length (takeWhile (\<lambda>x. x = 0) (drop (n - e) ds)) \<le> e"
    using length_takeWhile_le [of "\<lambda>x. x = 0" "drop (n - e) ds"] d(2) ds(2) by simp
  then show ?thesis using d ds assms(2) takeWhile_digits [OF d(1)]
    by (intro usable_long [of _ _ e]) auto
qed

lemma min_support_usable:
  assumes "compute_min_support_covering_prefix a b s n = (Ok p :: (_, 'e) res)" "\<forall>nb\<in>set infos. e < nb"
    and "s \<le> a" "a \<le> b" "b + s < 2 ^ n" "n \<le> 53" "e \<le> n" "(a - s) div 2 ^ e = (b + s) div 2 ^ e"
  shows "usable infos n p"
proof -
  obtain q k c where q: "compute_min_support_covering_prefix a b s n = (Ok q :: (_, 'e) res)" "block n q c k"
    "k \<le> e" using min_support_block [OF assms(3,5,4,6), where ?'e = 'e] assms(7,8) by metis
  then have "p = q" using assms(1) by simp
  then show ?thesis using q(3) block_length [OF q(2)] block_prefix [OF q(2)] assms(2,7)
    by (intro usable_long [of _ _ e]) auto
qed

lemma short_proper:
  assumes ok: "short_interval_combinations infos q n (2 ^ n - 1) E (2 ^ E) (2 ^ E div 2) (2 ^ S) k a (a + 2 ^ k - 1) mc =
      (Ok cs :: (_, 'e) res)"
    and b: "block n q a k" and q: "usable infos n q" and E: "\<forall>nb\<in>set infos. E < nb" "E \<le> n" and n: "n \<le> 53"
    and c: "c \<in> set cs"
  shows "proper infos c"
proof -
  define l where "l = a div 2 ^ E * 2 ^ E"
  have k: "n - length q = k" "k \<le> n" using block_length [OF b] b by (auto simp: block_def)
  have a: "a < 2 ^ n" using b by (auto simp: block_def)
  have pn: "(2::nat) ^ n < usize_bound"
  proof -
    have "(2::nat) ^ n \<le> 2 ^ 53" using n by (rule power_increasing) simp
    then show ?thesis by simp
  qed
  have l: "l \<le> a" "a < l + 2 ^ E" "a mod 2 ^ E = a - l" "2 ^ E dvd l"
    using dividend_less_div_times [of "2 ^ E" a] by (simp_all add: l_def add.commute minus_div_mult_eq_mod)
  have E64: "E < 64" using E(2) n by simp
  have shr: "ushr a E = (Ok (a div 2 ^ E) :: (_, 'e) res)" using E64 by (simp add: ushr_def)
  have shl: "ushl (a div 2 ^ E) E = (Ok l :: (_, 'e) res)"
  proof -
    have "l < usize_bound" using l(1) a pn by linarith
    then show ?thesis using E64 unfolding ushl_def l_def by simp
  qed
  have half: "num_to_vec v n e 2 = (Ok p :: (_, 'e) res) \<Longrightarrow> usub E 1 = (Ok e :: (_, 'e) res) \<Longrightarrow> usable infos n p" for v e p
    using E by (intro num_to_vec_usable [of v n e]) auto
  have full: "num_to_vec v n E 2 = (Ok p :: (_, 'e) res) \<Longrightarrow> usable infos n p" for v p
    using E by (intro num_to_vec_usable [of v n E]) auto
  have single: "single_covering_prefix_combinations q p infos k = (Ok c :: (_, 'e) res) \<Longrightarrow> usable infos n p \<Longrightarrow> proper infos c" for p c
    using single_proper [OF _ q _ k(1)] by blast
  have double: "double_covering_prefix_combinations q p p' infos k = (Ok cs :: (_, 'e) res) \<Longrightarrow> usable infos n p \<Longrightarrow>
      usable infos n p' \<Longrightarrow> proper infos c" for p p'
    using double_proper [OF _ q _ _ k(1) c] by blast
  have left: "compute_left_covering_prefix v E s n = (Ok p :: (_, 'e) res) \<Longrightarrow> usable infos n p" for v s p
    by (rule left_prefix_usable [OF _ E(1)])
  have right: "compute_right_covering_prefix v E s n = (Ok p :: (_, 'e) res) \<Longrightarrow> usable infos n p" for v s p
    by (rule right_prefix_usable [OF _ E(1)])
  have mid: "usable infos n p"
    if p: "compute_min_support_covering_prefix a (a + 2 ^ k - 1) (2 ^ S) n = (Ok p :: (_, 'e) res)"
      and s: "2 ^ S \<le> a mod 2 ^ E" "a + 2 ^ k - 1 \<le> l + (2 ^ E - 1) - 2 ^ S" "2 ^ S \<le> l + (2 ^ E - 1)" for p
  proof -
    have t: "1 \<le> (2::nat) ^ k" "1 \<le> (2::nat) ^ E" by simp_all
    have le: "l + 2 ^ E \<le> 2 ^ n"
      using dvd_next [of "2 ^ E" l "2 ^ n"] l(1,4) a E(2) by (auto simp: le_imp_power_dvd)
    have div: "(a - 2 ^ S) div 2 ^ E * 2 ^ E = l" "(a + 2 ^ k - 1 + 2 ^ S) div 2 ^ E * 2 ^ E = l"
      using s l t by (intro div_block l(4); linarith)+
    then have "(a - 2 ^ S) div 2 ^ E = (a + 2 ^ k - 1 + 2 ^ S) div 2 ^ E"
      by (metis mult_cancel2 power_not_zero zero_neq_numeral)
    moreover have "2 ^ S \<le> a" "a \<le> a + 2 ^ k - 1" "a + 2 ^ k - 1 + 2 ^ S < 2 ^ n" using s l(3) le t by linarith+
    ultimately show ?thesis using min_support_usable [OF p E(1) _ _ _ n E(2)] by blast
  qed
  note masks = and_mask_mod pow2_or_mask [OF l(4)]
  obtain ep rs where ep: "num_to_vec l n E 2 = (Ok ep :: (_, 'e) res)" "2 ^ S \<le> l + (2 ^ E - 1)" "rs = l + (2 ^ E - 1) - 2 ^ S"
    using ok unfolding short_interval_combinations_def Let_def shr and_then_simps shl masks by (auto simp: res_simps)
  have sub: "usub (l + (2 ^ E - 1)) (2 ^ S) = (Ok rs :: (_, 'e) res)" using ep by simp
  note run = ok [unfolded short_interval_combinations_def Let_def shr and_then_simps shl masks ep(1) sub]
  consider "2 ^ S \<le> a mod 2 ^ E \<and> a + 2 ^ k - 1 \<le> rs" | "\<not> (2 ^ S \<le> a mod 2 ^ E \<and> a + 2 ^ k - 1 \<le> rs)" "a mod 2 ^ E < 2 ^ S"
    | "\<not> (2 ^ S \<le> a mod 2 ^ E \<and> a + 2 ^ k - 1 \<le> rs)" "\<not> a mod 2 ^ E < 2 ^ S" by blast
  then show ?thesis
  proof cases
    case 1
    then have u: "usable infos n p" if "(if mc then Ok ep else compute_min_support_covering_prefix a (a + 2 ^ k - 1) (2 ^ S) n) = (Ok p :: (_, 'e) res)" for p
      using that mid ep full by (auto split: if_splits)
    show ?thesis using run [unfolded if_P [OF 1]] c u single by (auto simp: res_simps)
  next
    case 2
    have u: "usable infos n p" if "(if mc then Ok ep else compute_right_covering_prefix (a + 2 ^ k - 1) E (2 ^ S) n) = (Ok p :: (_, 'e) res)" for p
      using that right ep full by (auto split: if_splits)
    have u': "usable infos n p" if "(if mc then and_then (usub l (2 ^ E div 2)) (\<lambda>l. and_then (usub E 1) (\<lambda>e. num_to_vec l n e 2))
        else compute_left_covering_prefix a E (2 ^ S) n) = (Ok p :: (_, 'e) res)" for p
      using that left half by (auto simp: res_simps split: if_splits)
    show ?thesis using run [unfolded if_not_P [OF 2(1)] if_P [OF 2(2)]]
    proof (rule and_then_OkE)
      fix p assume p: "(if mc then Ok ep else compute_right_covering_prefix (a + 2 ^ k - 1) E (2 ^ S) n) = (Ok p :: (_, 'e) res)"
        and r: "(if l = 0 then and_then (single_covering_prefix_combinations q p infos k) (\<lambda>c. Ok [c])
          else and_then (if mc then and_then (usub l (2 ^ E div 2)) (\<lambda>l. and_then (usub E 1) (\<lambda>e. num_to_vec l n e 2))
            else compute_left_covering_prefix a E (2 ^ S) n) (\<lambda>p'. double_covering_prefix_combinations q p p' infos k)) = (Ok cs :: (_, 'e) res)"
      show ?thesis
      proof (cases "l = 0")
        case True
        from r [unfolded if_P [OF True]] show ?thesis using c single [OF _ u [OF p]] by (auto simp: res_simps)
      next
        case False
        from r [unfolded if_not_P [OF False]] show ?thesis
          by (rule and_then_OkE) (rule double [OF _ u [OF p] u'])
      qed
    qed
  next
    case 3
    have u: "usable infos n p" if "(if mc then Ok ep else compute_left_covering_prefix a E (2 ^ S) n) = (Ok p :: (_, 'e) res)" for p
      using that left ep full by (auto split: if_splits)
    have u': "usable infos n p" if "(if mc then and_then (uadd (l + (2 ^ E - 1)) 1) (\<lambda>r. and_then (usub E 1) (\<lambda>e. num_to_vec r n e 2))
        else compute_right_covering_prefix (a + 2 ^ k - 1) E (2 ^ S) n) = (Ok p :: (_, 'e) res)" for p
      using that right half by (auto simp: res_simps split: if_splits)
    have "rs < a + 2 ^ k - 1" using 3 by linarith
    show ?thesis using run [unfolded if_not_P [OF 3(1)] if_not_P [OF 3(2)] if_P [OF \<open>rs < a + 2 ^ k - 1\<close>]]
    proof (rule and_then_OkE)
      fix p assume p: "(if mc then Ok ep else compute_left_covering_prefix a E (2 ^ S) n) = (Ok p :: (_, 'e) res)"
        and r: "(if l + (2 ^ E - 1) = 2 ^ n - 1 then and_then (single_covering_prefix_combinations q p infos k) (\<lambda>c. Ok [c])
          else and_then (if mc then and_then (uadd (l + (2 ^ E - 1)) 1) (\<lambda>r. and_then (usub E 1) (\<lambda>e. num_to_vec r n e 2))
            else compute_right_covering_prefix (a + 2 ^ k - 1) E (2 ^ S) n) (\<lambda>p'. double_covering_prefix_combinations q p p' infos k)) = (Ok cs :: (_, 'e) res)"
      show ?thesis
      proof (cases "l + (2 ^ E - 1) = 2 ^ n - 1")
        case True
        from r [unfolded if_P [OF True]] show ?thesis using c single [OF _ u [OF p]] by (auto simp: res_simps)
      next
        case False
        from r [unfolded if_not_P [OF False]] show ?thesis
          by (rule and_then_OkE) (rule double [OF _ u [OF p] u'])
      qed
    qed
  qed
qed

lemma end_proper:
  assumes "and_then (usub n (length rp)) (\<lambda>s. double_covering_restricted_prefix_combinations rp lp infos s) = (Ok cs :: (_, 'e) res)"
    and "usable infos n rp" "usable infos n lp" "c \<in> set cs"
  shows "proper infos c"
  using assms(1)
proof (rule and_then_OkE)
  fix s assume s: "usub n (length rp) = (Ok s :: (_, 'e) res)"
    "double_covering_restricted_prefix_combinations rp lp infos s = (Ok cs :: (_, 'e) res)"
  then show ?thesis using restricted_proper [OF s(2) assms(2,3) _ assms(4)] by simp
qed

lemma left_end_proper:
  assumes run: "left_end_combinations infos n E half S ms start mc = (Ok cs :: (_, 'e) res)"
    and E: "\<forall>nb\<in>set infos. E < nb" "E \<le> n" "S < E" and c: "c \<in> set cs"
  shows "proper infos c"
proof -
  have u: "num_to_vec v n e 2 = (Ok p :: (_, 'e) res) \<Longrightarrow> e \<le> E \<Longrightarrow> usable infos n p" for v e p
    using E by (intro num_to_vec_usable [of v n e]) auto
  have u1: "usable infos n p" if "(if mc then and_then (usub E 1) (\<lambda>e. num_to_vec start n e 2) else num_to_vec start n S 2) = (Ok p :: (_, 'e) res)" for p
    using that E(3) by (auto simp: res_simps split: if_splits intro: u)
  have u2: "usable infos n p" if "(if mc then and_then (usub start half) (\<lambda>l. and_then (usub E 1) (\<lambda>e. num_to_vec l n e 2))
      else and_then (usub start ms) (\<lambda>l. num_to_vec l n S 2)) = (Ok p :: (_, 'e) res)" for p
    using that E(3) by (auto simp: res_simps split: if_splits intro: u)
  show ?thesis
  proof (cases "start \<noteq> 0")
    case True
    show ?thesis using run [unfolded left_end_combinations_def if_P [OF True]]
      by (elim and_then_OkE [of "if mc then _ else _"]) (rule end_proper [OF _ u1 u2 c])
  next
    case False
    then show ?thesis using run c by (simp add: left_end_combinations_def)
  qed
qed

lemma right_end_proper:
  assumes run: "right_end_combinations infos n mx E half S ms en mc = (Ok cs :: (_, 'e) res)"
    and E: "\<forall>nb\<in>set infos. E < nb" "E \<le> n" "S < E" and c: "c \<in> set cs"
  shows "proper infos c"
proof -
  have u: "num_to_vec v n e 2 = (Ok p :: (_, 'e) res) \<Longrightarrow> e \<le> E \<Longrightarrow> usable infos n p" for v e p
    using E by (intro num_to_vec_usable [of v n e]) auto
  have u1: "usable infos n p" if "(if mc then and_then (usub en half) (\<lambda>l. and_then (uadd l 1) (\<lambda>l.
        and_then (usub E 1) (\<lambda>e. num_to_vec l n e 2)))
      else and_then (usub en ms) (\<lambda>l. and_then (uadd l 1) (\<lambda>l. num_to_vec l n S 2))) = (Ok p :: (_, 'e) res)" for p
    using that E(3) by (auto simp: res_simps split: if_splits intro: u)
  have u2: "usable infos n p" if "(if mc then and_then (usub E 1) (\<lambda>e. num_to_vec r n e 2) else num_to_vec r n S 2) = (Ok p :: (_, 'e) res)" for p r
    using that E(3) by (auto simp: res_simps split: if_splits intro: u)
  show ?thesis
  proof (cases "en \<noteq> mx")
    case True
    show ?thesis using run [unfolded right_end_combinations_def if_P [OF True]]
      by (elim and_then_OkE [of "if mc then _ else _"] and_then_OkE [of "uadd en 1"]) (rule end_proper [OF _ u1 u2 c])
  next
    case False
    then show ?thesis using run c by (simp add: right_end_combinations_def)
  qed
qed

lemma outcome_combinations_proper:
  assumes "2 \<le> length infos" "length infos \<le> 31" "\<forall>nb\<in>set infos. hd infos \<le> nb" "hd infos \<le> 52"
    and "digits_below 2 p" "p \<noteq> []" "length p \<le> hd infos" "S < E" "E < hd infos"
    and run: "compute_outcome_combinations infos p E S mc = (Ok cs :: (_, 'e) res)" and c: "c \<in> set cs"
  shows "proper infos c"
proof -
  define m n q where "m = hd infos"
    and "n = (if \<forall>nb\<in>set (tl infos). nb = hd infos then hd infos else hd infos + 1)"
    and "q = (if \<forall>nb\<in>set (tl infos). nb = hd infos then p else 0 # p)"
  define a k where "a = plo 2 m p" and "k = m - length p"
  have p: "block m p a k" using prefix_block assms(5,7) by (simp add: a_def k_def m_def)
  have q: "block n q a k"
    using prefix_block [of "0 # p" "Suc m"] assms(5,7) p
    by (auto simp: n_def q_def m_def a_def k_def plo_def)
  have nm: "n = m \<and> (\<forall>nb\<in>set infos. n \<le> nb) \<or> n = Suc m \<and> (\<forall>nb\<in>set infos. n \<le> nb \<or> Suc nb = n)"
    using assms(3) by (auto simp: n_def m_def le_Suc_eq Suc_le_eq)
  then have o: "oracles infos n (2 ^ m)" and n: "n \<le> 53"
    using assms(1,2,4) by (auto simp: oracles_def m_def)
  have E: "\<forall>nb\<in>set infos. E < nb" "E \<le> n" using assms(3,9) nm by (auto simp: m_def intro: less_le_trans)
  have k: "n - length q = k" "k < m" using block_length [OF q] assms(6,7) by (cases p; auto simp: k_def m_def)+
  have u: "usable infos n q"
    using block_prefix [OF q] block_length [OF q] k assms(3) by (auto simp: usable_def m_def block_def)
  show ?thesis
  proof (cases "k < E")
    case True
    show ?thesis
      using run [unfolded compute_outcome_combinations_eq [OF o q assms(8) E(2) n_def q_def] if_P [OF True]]
      by (rule short_proper [OF _ q u E n c])
  next
    case False
    from run [unfolded compute_outcome_combinations_eq [OF o q assms(8) E(2) n_def q_def] if_not_P [OF False]]
    obtain ls x rs where "left_end_combinations infos n E (2 ^ E div 2) S (2 ^ S) a mc = (Ok ls :: (_, 'e) res)"
      "single_covering_prefix_combinations q q infos k = (Ok x :: (_, 'e) res)"
      "right_end_combinations infos n (2 ^ n - 1) E (2 ^ E div 2) S (2 ^ S) (a + 2 ^ k - 1) mc = (Ok rs :: (_, 'e) res)"
      "cs = ls @ [x] @ rs" by (auto elim!: and_then_OkE)
    then show ?thesis using c left_end_proper [OF _ E assms(8)] right_end_proper [OF _ E assms(8)] single_proper [OF _ u u k(1)]
      by auto
  qed
qed

text \<open>How many combinations there are.\<close>

lemma push_if_ok_length: "push_if_ok r = Ok xs \<Longrightarrow> length xs \<le> 1"
  by (cases r) (auto simp: push_if_ok_def)

lemma traverse_concat_length:
  "traverse f xs = Ok yss \<Longrightarrow> (\<And>x ys. f x = Ok ys \<Longrightarrow> length ys \<le> 1) \<Longrightarrow> length (concat yss) \<le> length xs"
proof (induction xs arbitrary: yss)
  case (Cons x xs)
  then obtain y ys where y: "f x = Ok y" "traverse f xs = Ok ys" "yss = y # ys" by (auto simp: res_simps)
  have "length y \<le> 1" "length (concat ys) \<le> length xs" using Cons y by blast+
  then show ?case using y by simp
qed simp

lemma double_length:
  assumes "double_covering_prefix_combinations q p r infos k = (Ok cs :: (_, 'e) res)"
  shows "length cs \<le> 2 ^ (length infos - 1)"
proof -
  obtain a b where ab: "(if p \<le> r then (p, r) else (r, p)) = (a, b)" by fastforce
  obtain "is" f yss where y: "i32_shl_range (length infos - 1) = (Ok is :: (_, 'e) res)"
    "traverse (\<lambda>i. push_if_ok (f i :: (_, unit) res)) is = (Ok yss :: (_, 'e) res)" "cs = concat yss"
    using assms unfolding double_covering_prefix_combinations_def Let_def ab prod.case
    by (auto simp: res_simps)
  have "length is \<le> 2 ^ (length infos - 1)" using y(1) by (auto simp: i32_shl_range_def split: if_splits)
  moreover have "length (concat yss) \<le> length is"
    by (rule traverse_concat_length [OF y(2)]) (rule push_if_ok_length)
  ultimately show ?thesis unfolding y(3) by (rule order_trans [rotated])
qed

lemma restricted_length:
  assumes "double_covering_restricted_prefix_combinations q r infos k = (Ok cs :: (_, 'e) res)"
  shows "length cs \<le> 2 ^ (length infos - 1)"
proof -
  have "\<exists>cs'. double_covering_prefix_combinations q q r infos k = (Ok cs' :: (_, 'e) res) \<and> length cs \<le> length cs'"
    using assms by (auto simp: double_covering_restricted_prefix_combinations_def res_simps split: if_splits)
  then show ?thesis using double_length [of q q r infos k, where ?'e = 'e] by fastforce
qed

definition at_most :: "nat \<Rightarrow> ('a list, 'e) res \<Rightarrow> bool" where
  "at_most N r \<longleftrightarrow> (\<forall>xs. r = Ok xs \<longrightarrow> length xs \<le> N)"

lemma at_most_intros:
  "(\<And>x. r = Ok x \<Longrightarrow> at_most N (f x)) \<Longrightarrow> at_most N (and_then r f)"
  "(b \<Longrightarrow> at_most N p) \<Longrightarrow> (\<not> b \<Longrightarrow> at_most N q) \<Longrightarrow> at_most N (if b then p else q)"
  "length xs \<le> N \<Longrightarrow> at_most N (Ok xs)"
  "at_most N Panic"
  "(\<And>x y. z = (x, y) \<Longrightarrow> at_most N (g x y)) \<Longrightarrow> at_most N (case z of (x, y) \<Rightarrow> g x y)"
  by (auto simp: at_most_def res_simps split: prod.split)

lemma short_length: "at_most (2 ^ (length infos - 1)) (short_interval_combinations infos q n mx E me h ms k a b mc)"
  unfolding short_interval_combinations_def Let_def
  by (intro at_most_intros) (auto simp: at_most_def dest: double_length)

lemma left_end_length: "at_most (2 ^ (length infos - 1)) (left_end_combinations infos n E h S ms start mc)"
  unfolding left_end_combinations_def
  by (intro at_most_intros) (auto simp: at_most_def dest: restricted_length)

lemma right_end_length: "at_most (2 ^ (length infos - 1)) (right_end_combinations infos n mx E h S ms en mc)"
  unfolding right_end_combinations_def
  by (intro at_most_intros) (auto simp: at_most_def dest: restricted_length)

lemma combinations_length: "at_most (2 ^ length infos + 1) (compute_outcome_combinations infos p E S mc :: (_, 'e) res)"
proof (cases "1 < length infos")
  case True
  then have two: "(2::nat) ^ length infos = 2 ^ (length infos - 1) + 2 ^ (length infos - 1)"
    by (cases "length infos") auto
  have le: "at_most (2 ^ (length infos - 1)) r \<Longrightarrow> at_most (2 ^ length infos + 1) r" for r :: "(nat list list list, 'e) res"
    using two by (fastforce simp: at_most_def)
  show ?thesis
    unfolding compute_outcome_combinations_def Let_def
    apply (intro at_most_intros le [OF short_length])
    subgoal premises p for _ _ _ _ _ _ _ _ _ _ _ _ ls m rs
      using left_end_length [of infos] right_end_length [of infos] p two unfolding at_most_def by fastforce
    done
next
  case False
  then show ?thesis by (simp add: at_most_def compute_outcome_combinations_def res_simps)
qed

end
