(* ===== verification/Multi_Oracle_Trie_With_Diff.thy ===== *)
theory Multi_Oracle_Trie_With_Diff
  imports Multi_Trie Combination_Shape
begin

text \<open>
  \<open>dlc-trie/src/multi_oracle_trie_with_diff.rs\<close>: the trie of adaptor signature information when
  the outcomes of the oracles may differ.  \<open>generate\<close> inserts, for every range of outcomes with
  one payout, the combinations of paths under which the oracles agree; the state it threads is the
  trie, the next adaptor signature index and the list of the entries made.  The main result follows an
  attestation through the whole trie: \<open>generate\<close> and then \<open>look_up\<close>, for oracles with the same
  number of digits.
\<close>

section \<open>The trie\<close>

record diff_trie =
  wd_trie :: "range_info multi_trie"
  wd_infos :: oracle_numeric_info

definition diff_trie_new :: "oracle_numeric_info \<Rightarrow> nat \<Rightarrow> nat \<Rightarrow> nat \<Rightarrow> (diff_trie, dlc_error) res" where
  "diff_trie_new infos threshold min_support_exp max_error_exp =
     (let nb_oracles = length (oni_nb_digits infos) in
      if \<not> (1 \<le> nb_oracles \<and> threshold \<le> nb_oracles \<and> min_support_exp < max_error_exp)
      then Err InvalidArgument
      else and_then (multi_trie_new infos threshold min_support_exp max_error_exp True) (\<lambda>t.
             Ok \<lparr>wd_trie = t, wd_infos = infos\<rparr>))"

type_synonym gen_state = "range_info multi_trie \<times> nat \<times> trie_iter_info list"

definition diff_trie_insert_group :: "nat \<Rightarrow> nat list \<Rightarrow> gen_state \<Rightarrow> (gen_state, dlc_error) res" where
  "diff_trie_insert_group cet prefix_digits = (\<lambda>(trie, s). multi_trie_insert trie prefix_digits (\<lambda>ps is. get_value_callback ps is cet) s)"

definition diff_trie_insert_range ::
  "oracle_numeric_info \<Rightarrow> nat \<times> range_payout \<Rightarrow> gen_state \<Rightarrow> (gen_state, dlc_error) res" where
  "diff_trie_insert_range infos = (\<lambda>(cet, outcome) st.
     if rp_count outcome = 0 then Err InvalidArgument
     else
       and_then (uadd (rp_start outcome) (rp_count outcome)) (\<lambda>e.
       and_then (usub e 1) (\<lambda>e.
       and_then (get_min_nb_digits infos) (\<lambda>m.
       and_then (group_by_ignoring_digits (rp_start outcome) e (oni_base infos) m) (\<lambda>groups.
         fold_res (diff_trie_insert_group cet) groups st)))))"

definition diff_trie_generate ::
  "diff_trie \<Rightarrow> nat \<Rightarrow> range_payout list \<Rightarrow> (diff_trie \<times> trie_iter_info list, dlc_error) res" where
  "diff_trie_generate trie adaptor_index_start ranges =
     and_then (fold_res (diff_trie_insert_range (wd_infos trie)) (enumerate 0 ranges)
                 (wd_trie trie, adaptor_index_start, [])) (\<lambda>(t, a, ti).
     if has_diff_nb_digits (wd_infos trie)
     then and_then (insert_max_paths t (\<lambda>ps is s. and_then (usub (length ranges) 1) (\<lambda>c. get_value_callback ps is c s))
                      (a, ti)) (\<lambda>(t, a, ti). Ok (trie\<lparr>wd_trie := t\<rparr>, ti))
     else Ok (trie\<lparr>wd_trie := t\<rparr>, ti))"

record diff_trie_dump =
  wdd_trie :: "range_info multi_trie_dump"
  wdd_infos :: oracle_numeric_info

definition diff_trie_get_dump :: "diff_trie \<Rightarrow> (diff_trie_dump, 'e) res" where
  "diff_trie_get_dump trie = and_then (multi_trie_get_dump (wd_trie trie)) (\<lambda>d. Ok \<lparr>wdd_trie = d, wdd_infos = wd_infos trie\<rparr>)"

definition diff_trie_from_dump :: "diff_trie_dump \<Rightarrow> (diff_trie, 'e) res" where
  "diff_trie_from_dump d = and_then (multi_trie_from_dump (wdd_trie d)) (\<lambda>t. Ok \<lparr>wd_trie = t, wd_infos = wdd_infos d\<rparr>)"

section \<open>The entries of a generated trie\<close>

text \<open>The combinations for one group, with oracles that have the same number of digits.\<close>

definition group_combinations :: "'a multi_trie \<Rightarrow> nat \<Rightarrow> nat list \<Rightarrow> nat list list list" where
  "group_combinations trie m g =
     (case (compute_outcome_combinations (replicate (mt_nb_required trie) m) g (mt_max_error_exp trie)
              (mt_min_support_exp trie) (mt_maximize_coverage trie) :: (_, dlc_error) res) of Ok cs \<Rightarrow> cs | _ \<Rightarrow> [])"

definition group_keys :: "'a multi_trie \<Rightarrow> nat \<Rightarrow> nat list \<Rightarrow> (nat list list \<times> nat list) list" where
  "group_keys trie m g = insert_keys (mt_nb_tries trie) (mt_nb_required trie) (\<lambda>_. group_combinations trie m g)"

definition range_groups :: "nat \<Rightarrow> range_payout \<Rightarrow> nat list list" where
  "range_groups m r =
     (case (group_by_ignoring_digits (rp_start r) (rp_start r + rp_count r - 1) 2 m :: (_, dlc_error) res) of
        Ok gs \<Rightarrow> gs | _ \<Rightarrow> [])"

definition range_keys :: "'a multi_trie \<Rightarrow> nat \<Rightarrow> range_payout \<Rightarrow> (nat list list \<times> nat list) list" where
  "range_keys trie m r = concat (map (group_keys trie m) (range_groups m r))"

fun all_infos :: "'a multi_trie \<Rightarrow> nat \<Rightarrow> nat \<Rightarrow> nat \<Rightarrow> range_payout list \<Rightarrow> trie_iter_info list" where
  "all_infos trie m i a [] = []"
| "all_infos trie m i a (r # rs) =
     infos_at i a (range_keys trie m r) @ all_infos trie m (i + 1) (a + length (range_keys trie m r)) rs"

text \<open>The parameters of the trie that the theorem is about.\<close>

definition same_digits :: "'a multi_trie \<Rightarrow> nat \<Rightarrow> bool" where
  "same_digits trie m \<longleftrightarrow> mt_inv trie \<and> 2 \<le> mt_nb_required trie \<and> mt_nb_required trie \<le> 31 \<and>
     oni_base (mt_infos trie) = 2 \<and> oni_nb_digits (mt_infos trie) = replicate (mt_nb_tries trie) m \<and> m \<le> 52 \<and>
     mt_min_support_exp trie < mt_max_error_exp trie \<and> mt_max_error_exp trie < m"

definition near :: "nat \<Rightarrow> nat list \<Rightarrow> bool" where
  "near d ys \<longleftrightarrow> (\<forall>v\<in>set ys. \<forall>w\<in>set ys. v \<le> w + d)"

lemma group_combinations_ok:
  assumes t: "same_digits trie m" and g: "digits_below 2 g" "g \<noteq> []" "length g \<le> m"
  shows "compute_outcome_combinations (replicate (mt_nb_required trie) m) g (mt_max_error_exp trie)
      (mt_min_support_exp trie) (mt_maximize_coverage trie) = (Ok (group_combinations trie m g) :: (_, dlc_error) res)"
    and "c \<in> set (group_combinations trie m g) \<Longrightarrow> proper (replicate (mt_nb_required trie) m) c"
    and "outcomes (replicate (mt_nb_required trie) m) (y # ys) \<Longrightarrow>
      covered_by (replicate (mt_nb_required trie) m) (group_combinations trie m g) (y # ys) \<Longrightarrow>
      covered m g y \<and> ((\<forall>z\<in>set ys. z < y + 2 ^ mt_max_error_exp trie \<and> y < z + 2 ^ mt_max_error_exp trie) \<or>
        (\<forall>z\<in>set ys. covered m g z))"
    and "outcomes (replicate (mt_nb_required trie) m) (y # ys) \<Longrightarrow> covered m g y \<Longrightarrow>
      near (2 ^ mt_min_support_exp trie) (y # ys) \<Longrightarrow>
      covered_by (replicate (mt_nb_required trie) m) (group_combinations trie m g) (y # ys)"
proof -
  let ?infos = "replicate (mt_nb_required trie) m"
  have i: "2 \<le> length ?infos" "length ?infos \<le> 31" "\<forall>nb\<in>set ?infos. hd ?infos \<le> nb" "hd ?infos \<le> 52" "hd ?infos = m"
    "mt_min_support_exp trie < mt_max_error_exp trie" "mt_max_error_exp trie < hd ?infos"
    using t by (auto simp: same_digits_def)
  obtain cs where cs: "compute_outcome_combinations ?infos g (mt_max_error_exp trie)
      (mt_min_support_exp trie) (mt_maximize_coverage trie) = (Ok cs :: (_, dlc_error) res)"
    "\<forall>y ys. outcomes ?infos (y # ys) \<longrightarrow>
      (covered_by ?infos cs (y # ys) \<longrightarrow> covered m g y \<and> ((\<forall>z\<in>set ys. z < y + 2 ^ mt_max_error_exp trie \<and>
        y < z + 2 ^ mt_max_error_exp trie) \<or> (\<forall>z\<in>set ys. covered m g z))) \<and>
      (covered m g y \<and> (\<forall>v\<in>set (y # ys). \<forall>w\<in>set (y # ys). v \<le> w + 2 ^ mt_min_support_exp trie) \<longrightarrow>
        covered_by ?infos cs (y # ys))"
    using combinations_agree [OF i(1-4) g(1) _ i(6), of "mt_maximize_coverage trie", where ?'e = dlc_error] g(3) i(5,7) by auto
  have gc: "group_combinations trie m g = cs" by (simp add: group_combinations_def cs(1))
  show "compute_outcome_combinations ?infos g (mt_max_error_exp trie)
      (mt_min_support_exp trie) (mt_maximize_coverage trie) = (Ok (group_combinations trie m g) :: (_, dlc_error) res)"
    using cs(1) gc by simp
  show "proper ?infos c" if "c \<in> set (group_combinations trie m g)"
    using outcome_combinations_proper [OF i(1-4) g(1,2) _ i(6,7) cs(1)] that gc g(3) i(5) by simp
  show "covered m g y \<and> ((\<forall>z\<in>set ys. z < y + 2 ^ mt_max_error_exp trie \<and> y < z + 2 ^ mt_max_error_exp trie) \<or>
        (\<forall>z\<in>set ys. covered m g z))"
    if "outcomes ?infos (y # ys)" "covered_by ?infos (group_combinations trie m g) (y # ys)"
    using cs(2) that gc by blast
  show "covered_by ?infos (group_combinations trie m g) (y # ys)"
    if "outcomes ?infos (y # ys)" "covered m g y" "near (2 ^ mt_min_support_exp trie) (y # ys)"
    using cs(2) that gc unfolding near_def by blast
qed

lemma selector_combinations_same:
  assumes t: "same_digits trie m" and g: "digits_below 2 g" "g \<noteq> []" "length g \<le> m"
    and s: "s \<in> set (combs 0 (mt_nb_tries trie) (mt_nb_required trie))"
  shows "selector_combinations trie g s = (Ok (group_combinations trie m g) :: (_, dlc_error) res)"
proof -
  let ?k = "mt_nb_required trie" and ?n = "mt_nb_tries trie"
  have k: "2 \<le> ?k" "?k \<le> ?n" "oni_nb_digits (mt_infos trie) = replicate ?n m" using t unfolding same_digits_def mt_inv_def by blast+
  have ls: "length s = ?k" "set s \<subseteq> {..<?n}" using s by (auto simp: set_combs lessThan_atLeast0)
  have sel: "map snd (filter (\<lambda>(i, x). i \<in> set s) (enumerate 0 (oni_nb_digits (mt_infos trie)))) = replicate ?k m"
  proof -
    have "nths (replicate ?n m) (set s) = map ((!) (replicate ?n m)) s" by (rule nths_comb) (use s in simp)
    also have "\<dots> = map (\<lambda>_. m) s" using ls(2) by (intro map_cong) auto
    finally show ?thesis unfolding select_nths k(3) by (simp add: map_replicate_const ls(1))
  qed
  have min: "get_min_nb_digits (mt_infos trie) = (Ok m :: (_, dlc_error) res)"
    using k by (auto simp: get_min_nb_digits_def)
  have r: "reorder_to_min_first (replicate ?k m) = (Ok (replicate ?k m, 0) :: (_, dlc_error) res)"
    using k(1) by (cases ?k) (auto simp: reorder_to_min_first_def)
  have len: "length g < usize_bound" using g(3) t by (simp add: same_digits_def)
  show ?thesis
    unfolding selector_combinations_def min and_then_simps Let_def sel r prod.case
    using k(1) len by (simp add: index_def usub_def uadd_def pre_pad_vec_def group_combinations_ok(1) [OF t g])
qed

lemma keys_update [simp]:
  "group_combinations (trie\<lparr>mt_store := st\<rparr>) m g = group_combinations trie m g"
  "group_keys (trie\<lparr>mt_store := st\<rparr>) m g = group_keys trie m g"
  "range_keys (trie\<lparr>mt_store := st\<rparr>) m r = range_keys trie m r"
  by (simp_all add: group_combinations_def group_keys_def range_keys_def cong: map_cong)

lemma same_digits_update:
  "same_digits trie m \<Longrightarrow> mt_inv (trie\<lparr>mt_store := st\<rparr>) \<Longrightarrow> same_digits (trie\<lparr>mt_store := st\<rparr>) m"
  unfolding same_digits_def by simp

text \<open>Groups of digits that are paths.\<close>

definition good_group :: "nat \<Rightarrow> nat list \<Rightarrow> bool" where
  "good_group m g \<longleftrightarrow> digits_below 2 g \<and> g \<noteq> [] \<and> length g \<le> m"

lemma insert_group_ok:
  assumes t: "same_digits trie m" and g: "good_group m g" and a: "a + length (group_keys trie m g) < usize_bound"
  shows "\<exists>st'. diff_trie_insert_group cet g (trie, a, ti) =
      Ok (trie\<lparr>mt_store := st'\<rparr>, a + length (group_keys trie m g), ti @ infos_at cet a (group_keys trie m g)) \<and>
    mt_inv (trie\<lparr>mt_store := st'\<rparr>) \<and>
    mt_val (trie\<lparr>mt_store := st'\<rparr>) = fold put_info (infos_at cet a (group_keys trie m g)) (mt_val trie)"
proof -
  have inv: "mt_inv trie" and base: "oni_base (mt_infos trie) = 2" using t unfolding same_digits_def by blast+
  have g': "digits_below 2 g" "g \<noteq> []" "length g \<le> m" using g unfolding good_group_def by blast+
  have p: "length c = mt_nb_required trie \<and> (\<forall>p\<in>set c. dt_path (oni_base (mt_infos trie)) p \<and> p \<noteq> [])"
    if "c \<in> set (group_combinations trie m g)" for c
    using group_combinations_ok(2) [OF t g' that] unfolding proper_def dt_path_def base by auto
  show ?thesis unfolding diff_trie_insert_group_def prod.case
    by (rule multi_trie_insert_ok [OF inv selector_combinations_same [OF t g'] p group_keys_def a])
qed

lemma insert_groups_ok:
  assumes "same_digits trie m" "\<forall>g\<in>set gs. good_group m g" "a + length (concat (map (group_keys trie m) gs)) < usize_bound"
  shows "\<exists>st'. fold_res (diff_trie_insert_group cet) gs (trie, a, ti) =
      Ok (trie\<lparr>mt_store := st'\<rparr>, a + length (concat (map (group_keys trie m) gs)),
          ti @ infos_at cet a (concat (map (group_keys trie m) gs))) \<and>
    mt_inv (trie\<lparr>mt_store := st'\<rparr>) \<and>
    mt_val (trie\<lparr>mt_store := st'\<rparr>) = fold put_info (infos_at cet a (concat (map (group_keys trie m) gs))) (mt_val trie)"
  using assms
proof (induction gs arbitrary: trie a ti)
  case Nil
  then show ?case by (intro exI [of _ "mt_store trie"]) (simp add: same_digits_def)
next
  case (Cons g gs)
  let ?ks = "group_keys trie m g" and ?rest = "concat (map (group_keys trie m) gs)"
  obtain st1 where st1: "diff_trie_insert_group cet g (trie, a, ti) = Ok (trie\<lparr>mt_store := st1\<rparr>, a + length ?ks, ti @ infos_at cet a ?ks)"
    "mt_inv (trie\<lparr>mt_store := st1\<rparr>)" "mt_val (trie\<lparr>mt_store := st1\<rparr>) = fold put_info (infos_at cet a ?ks) (mt_val trie)"
    using insert_group_ok [OF Cons.prems(1), of g a cet ti] Cons.prems(2,3) by auto
  obtain st2 where st2: "fold_res (diff_trie_insert_group cet) gs (trie\<lparr>mt_store := st1\<rparr>, a + length ?ks, ti @ infos_at cet a ?ks) =
      Ok (trie\<lparr>mt_store := st2\<rparr>, a + length ?ks + length ?rest, (ti @ infos_at cet a ?ks) @ infos_at cet (a + length ?ks) ?rest)"
    "mt_inv (trie\<lparr>mt_store := st2\<rparr>)"
    "mt_val (trie\<lparr>mt_store := st2\<rparr>) = fold put_info (infos_at cet (a + length ?ks) ?rest) (mt_val (trie\<lparr>mt_store := st1\<rparr>))"
    using Cons.IH [OF same_digits_update [OF Cons.prems(1) st1(2)], of "a + length ?ks" "ti @ infos_at cet a ?ks"] Cons.prems(2,3)
    by (auto simp: add.assoc)
  show ?case
    using st1(1) st2 by (intro exI [of _ st2]) (simp add: infos_at_append st1(3) add.assoc)
qed

text \<open>A range of outcomes whose groups are paths: not empty and not all outcomes.\<close>

definition good_range :: "nat \<Rightarrow> range_payout \<Rightarrow> bool" where
  "good_range m r \<longleftrightarrow> 0 < rp_count r \<and> rp_count r < 2 ^ m \<and> rp_start r + rp_count r \<le> 2 ^ m"

lemma tiles_good:
  assumes "tiles 2 m gs a c" "c - a < 2 ^ m"
  shows "\<forall>g\<in>set gs. good_group m g"
  using assms
proof (induction gs arbitrary: a)
  case (Cons g gs)
  have c: "phi 2 m g \<le> c" using Cons.prems tiles_le by auto
  have g: "g \<noteq> []"
  proof
    assume "g = []"
    then have "phi 2 m g = a + 2 ^ m" using Cons.prems(1) by (simp add: phi_eq_plo)
    then show False using c Cons.prems(2) by linarith
  qed
  have "a \<le> phi 2 m g" using Cons.prems(1) plo_le_phi [of 2 m g] by auto
  then have "c - phi 2 m g < 2 ^ m" using Cons.prems(2) by linarith
  then have "\<forall>g\<in>set gs. good_group m g" using Cons.prems(1) by (intro Cons.IH [of "phi 2 m g"]) auto
  then show ?case using Cons.prems(1) g by (auto simp: good_group_def)
qed simp

lemma range_groups_ok:
  assumes "good_range m r" "m \<le> 52"
  shows "group_by_ignoring_digits (rp_start r) (rp_start r + rp_count r - 1) 2 m = (Ok (range_groups m r) :: (_, dlc_error) res)"
    and "tiles 2 m (range_groups m r) (rp_start r) (rp_start r + rp_count r)"
    and "\<forall>g\<in>set (range_groups m r). good_group m g"
proof -
  have r: "0 < rp_count r" "rp_count r < 2 ^ m" "rp_start r + rp_count r \<le> 2 ^ m" using assms(1) by (auto simp: good_range_def)
  have "(2::nat) ^ m \<le> 2 ^ 52" using assms(2) by (rule power_increasing) simp
  then have e: "rp_start r \<le> rp_start r + rp_count r - 1" "rp_start r + rp_count r - 1 < 2 ^ 53"
    "rp_start r + rp_count r - 1 < 2 ^ m" using r by auto
  obtain gs where gs: "group_by_ignoring_digits (rp_start r) (rp_start r + rp_count r - 1) 2 m = (Ok gs :: (_, dlc_error) res)"
    "tiles 2 m gs (rp_start r) (rp_start r + rp_count r - 1 + 1)"
    using group_by_ignoring_digits_tiles [of 2 "rp_start r" "rp_start r + rp_count r - 1" m, OF _ _ e, where ?'e = dlc_error] by auto
  have eq: "range_groups m r = gs" unfolding range_groups_def gs(1) by simp
  show "group_by_ignoring_digits (rp_start r) (rp_start r + rp_count r - 1) 2 m = (Ok (range_groups m r) :: (_, dlc_error) res)"
    using gs(1) eq by simp
  show t: "tiles 2 m (range_groups m r) (rp_start r) (rp_start r + rp_count r)" using gs(2) r(1) eq by simp
  show "\<forall>g\<in>set (range_groups m r). good_group m g" by (rule tiles_good [OF t]) (use r in simp)
qed

lemma insert_range_ok:
  assumes t: "same_digits trie m" and r: "good_range m r" and a: "a + length (range_keys trie m r) < usize_bound"
  shows "\<exists>st'. diff_trie_insert_range (mt_infos trie) (cet, r) (trie, a, ti) =
      Ok (trie\<lparr>mt_store := st'\<rparr>, a + length (range_keys trie m r), ti @ infos_at cet a (range_keys trie m r)) \<and>
    mt_inv (trie\<lparr>mt_store := st'\<rparr>) \<and>
    mt_val (trie\<lparr>mt_store := st'\<rparr>) = fold put_info (infos_at cet a (range_keys trie m r)) (mt_val trie)"
proof -
  have p: "2 \<le> mt_nb_required trie" "mt_nb_required trie \<le> mt_nb_tries trie" "oni_base (mt_infos trie) = 2" "m \<le> 52"
    "oni_nb_digits (mt_infos trie) = replicate (mt_nb_tries trie) m"
    using t unfolding same_digits_def mt_inv_def by blast+
  have min: "get_min_nb_digits (mt_infos trie) = (Ok m :: (_, dlc_error) res)"
    using p by (simp add: get_min_nb_digits_def)
  have "(2::nat) ^ m \<le> 2 ^ 52" using p(4) by (rule power_increasing) simp
  then have u: "uadd (rp_start r) (rp_count r) = (Ok (rp_start r + rp_count r) :: (_, dlc_error) res)"
    "usub (rp_start r + rp_count r) 1 = (Ok (rp_start r + rp_count r - 1) :: (_, dlc_error) res)" "rp_count r \<noteq> 0"
    using r by (auto simp: good_range_def)
  show ?thesis
    unfolding diff_trie_insert_range_def prod.case if_not_P [OF u(3)] u(1,2) and_then_simps min p(3) range_groups_ok(1) [OF r p(4)]
      range_keys_def
    by (rule insert_groups_ok [OF t range_groups_ok(3) [OF r p(4)] a [unfolded range_keys_def]])
qed

lemma insert_ranges_ok:
  assumes "same_digits trie m" "\<forall>r\<in>set rs. good_range m r" "a + length (concat (map (range_keys trie m) rs)) < usize_bound"
  shows "\<exists>st' a'. fold_res (diff_trie_insert_range (mt_infos trie)) (enumerate i rs) (trie, a, ti) =
      Ok (trie\<lparr>mt_store := st'\<rparr>, a', ti @ all_infos trie m i a rs) \<and>
    mt_inv (trie\<lparr>mt_store := st'\<rparr>) \<and> mt_val (trie\<lparr>mt_store := st'\<rparr>) = fold put_info (all_infos trie m i a rs) (mt_val trie)"
  using assms
proof (induction rs arbitrary: trie a ti i)
  case Nil
  then show ?case by (intro exI [of _ "mt_store trie"]) (simp add: same_digits_def)
next
  case (Cons r rs)
  let ?ks = "range_keys trie m r"
  have all: "all_infos (trie\<lparr>mt_store := st\<rparr>) m i a rs = all_infos trie m i a rs" for st i a
    by (induction rs arbitrary: i a) simp_all
  obtain st1 where st1: "diff_trie_insert_range (mt_infos trie) (i, r) (trie, a, ti) = Ok (trie\<lparr>mt_store := st1\<rparr>, a + length ?ks, ti @ infos_at i a ?ks)"
    "mt_inv (trie\<lparr>mt_store := st1\<rparr>)" "mt_val (trie\<lparr>mt_store := st1\<rparr>) = fold put_info (infos_at i a ?ks) (mt_val trie)"
    using insert_range_ok [OF Cons.prems(1), of r a i ti] Cons.prems(2,3) by auto
  obtain st2 a2 where st2: "fold_res (diff_trie_insert_range (mt_infos trie)) (enumerate (Suc i) rs) (trie\<lparr>mt_store := st1\<rparr>, a + length ?ks, ti @ infos_at i a ?ks) =
      Ok (trie\<lparr>mt_store := st2\<rparr>, a2, (ti @ infos_at i a ?ks) @ all_infos trie m (i + 1) (a + length ?ks) rs)"
    "mt_inv (trie\<lparr>mt_store := st2\<rparr>)"
    "mt_val (trie\<lparr>mt_store := st2\<rparr>) = fold put_info (all_infos trie m (i + 1) (a + length ?ks) rs) (mt_val (trie\<lparr>mt_store := st1\<rparr>))"
    using Cons.IH [OF same_digits_update [OF Cons.prems(1) st1(2)], of "a + length ?ks" "Suc i" "ti @ infos_at i a ?ks"] Cons.prems(2,3)
    by (auto simp: add.assoc all)
  show ?case
    using st1(1) st2 by (intro exI [of _ st2] exI [of _ a2]) (simp add: st1(3))
qed

section \<open>What a lookup finds\<close>

lemma fold_put_info_Some:
  "fold put_info ts M key = Some v \<Longrightarrow> M key = Some v \<or> (\<exists>t\<in>set ts. zip (ti_indexes t) (ti_paths t) = key \<and> ti_value t = v)"
proof (induction ts arbitrary: M)
  case (Cons t ts)
  from Cons.IH [of "put_info t M"] Cons.prems show ?case by (auto simp: put_info_def split: if_splits)
qed simp

lemma fold_put_info_keeps: "M key \<noteq> None \<Longrightarrow> fold put_info ts M key \<noteq> None"
  by (induction ts arbitrary: M) (auto simp: put_info_def)

lemma fold_put_info_mem: "t \<in> set ts \<Longrightarrow> fold put_info ts M (zip (ti_indexes t) (ti_paths t)) \<noteq> None"
proof (induction ts arbitrary: M)
  case (Cons x ts)
  have "put_info t M (zip (ti_indexes t) (ti_paths t)) \<noteq> None" by (simp add: put_info_def)
  then show ?case using Cons fold_put_info_keeps [of "put_info t M" "zip (ti_indexes t) (ti_paths t)" ts]
    by (cases "t = x") simp_all
qed simp

lemma infos_at_mem:
  "t \<in> set (infos_at cet a kis) \<Longrightarrow> cet_index (ti_value t) = cet \<and> (ti_paths t, ti_indexes t) \<in> set kis"
  by (induction kis arbitrary: a) auto

lemma infos_at_ex: "(c, s) \<in> set kis \<Longrightarrow> \<exists>t\<in>set (infos_at cet a kis). ti_paths t = c \<and> ti_indexes t = s"
  by (induction kis arbitrary: a) auto

lemma all_infos_mem:
  "t \<in> set (all_infos trie m i a rs) \<Longrightarrow>
   \<exists>j<length rs. cet_index (ti_value t) = i + j \<and> (ti_paths t, ti_indexes t) \<in> set (range_keys trie m (rs ! j))"
proof (induction rs arbitrary: i a)
  case (Cons r rs)
  show ?case
  proof (cases "t \<in> set (infos_at i a (range_keys trie m r))")
    case True
    then show ?thesis using infos_at_mem [OF True] by (intro exI [of _ 0]) simp
  next
    case False
    then obtain j where "j < length rs" "cet_index (ti_value t) = i + 1 + j" "(ti_paths t, ti_indexes t) \<in> set (range_keys trie m (rs ! j))"
      using Cons by fastforce
    then show ?thesis by (intro exI [of _ "Suc j"]) simp
  qed
qed simp

lemma all_infos_ex:
  "j < length rs \<Longrightarrow> (c, s) \<in> set (range_keys trie m (rs ! j)) \<Longrightarrow>
   \<exists>t\<in>set (all_infos trie m i a rs). ti_paths t = c \<and> ti_indexes t = s"
proof (induction rs arbitrary: i a j)
  case (Cons r rs)
  then show ?case using infos_at_ex [of c s "range_keys trie m r" i a] by (cases j) fastforce+
qed simp

lemma range_keys_mem:
  "(c, s) \<in> set (range_keys trie m r) \<longleftrightarrow> (\<exists>g\<in>set (range_groups m r). c \<in> set (group_combinations trie m g)) \<and>
     s \<in> set (combs 0 (mt_nb_tries trie) (mt_nb_required trie))"
  by (auto simp: range_keys_def group_keys_def insert_keys_def)

lemma tiles_covered:
  assumes "tiles 2 m gs a c" "c \<le> 2 ^ m"
  shows "(\<exists>g\<in>set gs. covered m g y) \<longleftrightarrow> a \<le> y \<and> y < c"
  using assms
proof (induction gs arbitrary: a)
  case (Cons g gs)
  have g: "length g \<le> m" "digits_below 2 g" "plo 2 m g = a" "tiles 2 m gs (phi 2 m g) c" using Cons.prems(1) by auto
  have "covered m g y \<longleftrightarrow> a \<le> y \<and> y < phi 2 m g"
    using block_covers [OF prefix_block [OF g(2,1)]] g(3) by (simp add: phi_eq_plo)
  moreover have "phi 2 m g \<le> c" "a \<le> phi 2 m g" using tiles_le [OF g(4)] plo_le_phi [of 2 m g] g(3) by auto
  ultimately show ?case using Cons.IH [OF g(4) Cons.prems(2)] by auto
qed simp

lemma matches_nth:
  "matches infos c ys \<longleftrightarrow> length c = length infos \<and> length ys = length infos \<and> (\<forall>i<length infos. covered (infos ! i) (c ! i) (ys ! i))"
proof (induction infos c ys rule: matches.induct)
  case (2 nb infos p c y ys)
  show ?case unfolding matches.simps 2 by (auto simp: nth_Cons less_Suc_eq_0_disj split: nat.splits)
qed auto

lemma covered_dg_prefix: "y < 2 ^ m \<Longrightarrow> covered m p y \<longleftrightarrow> prefix p (dg m y)"
  unfolding covered_def prefix_def by (metis append_eq_conv_conj)

text \<open>The keys that fit the outcomes of as many oracles as a key has.\<close>

lemma fits_exact:
  assumes "length sel = k" "length ys = k" "\<forall>y\<in>set ys. y < 2 ^ m" "length key = k"
  shows "mt_fits key (zip sel (map (dg m) ys)) \<longleftrightarrow> map fst key = sel \<and> matches (replicate k m) (map snd key) ys"
proof -
  let ?ps = "zip sel (map (dg m) ys)"
  have len: "length ?ps = k" using assms(1,2) by simp
  have "mt_fits key ?ps \<longleftrightarrow> list_all2 (\<lambda>(i, q) (j, p). i = j \<and> prefix q p) key ?ps"
  proof
    assume "mt_fits key ?ps"
    then obtain ps where ps: "subseq ps ?ps" "list_all2 (\<lambda>(i, q) (j, p). i = j \<and> prefix q p) key ps" by (auto simp: mt_fits_def)
    then have "length ps = length ?ps" using list_all2_lengthD assms(4) len by fastforce
    then have "ps = ?ps" using ps(1) by (simp add: subseq_same_length)
    then show "list_all2 (\<lambda>(i, q) (j, p). i = j \<and> prefix q p) key ?ps" using ps(2) by simp
  qed (auto simp: mt_fits_def)
  also have "\<dots> \<longleftrightarrow> map fst key = sel \<and> (\<forall>i<k. prefix (snd (key ! i)) (dg m (ys ! i)))"
    unfolding list_all2_key using assms(1,2,4) by (auto simp: list_all2_conv_all_nth)
  also have "\<dots> \<longleftrightarrow> map fst key = sel \<and> matches (replicate k m) (map snd key) ys"
    using assms(2,3,4) covered_dg_prefix by (auto simp: matches_nth)
  finally show ?thesis .
qed

lemma contiguous_find:
  "contiguous rs a c \<Longrightarrow> a \<le> y \<Longrightarrow> y < c \<Longrightarrow> \<exists>j<length rs. rp_start (rs ! j) \<le> y \<and> y < rp_start (rs ! j) + rp_count (rs ! j)"
proof (induction rs arbitrary: a)
  case (Cons r rs)
  show ?case
  proof (cases "y < a + rp_count r")
    case True
    then show ?thesis using Cons.prems by (intro exI [of _ 0]) auto
  next
    case False
    then obtain j where "j < length rs" "rp_start (rs ! j) \<le> y \<and> y < rp_start (rs ! j) + rp_count (rs ! j)"
      using Cons.IH [of "a + rp_count r"] Cons.prems by auto
    then show ?thesis by (intro exI [of _ "Suc j"]) auto
  qed
qed simp

lemma contiguous_good:
  assumes "contiguous rs 0 (2 ^ m)" "2 \<le> length rs"
  shows "\<forall>r\<in>set rs. good_range m r"
proof
  fix r assume "r \<in> set rs"
  then obtain xs ys where rs: "rs = xs @ r # ys" by (auto simp: in_set_conv_decomp)
  then obtain b where b: "contiguous xs 0 b" "rp_start r = b" "0 < rp_count r" "contiguous ys (b + rp_count r) (2 ^ m)"
    using assms(1) by (auto simp: contiguous_append)
  have "0 < b \<or> b + rp_count r < 2 ^ m"
  proof (cases xs)
    case Nil
    then obtain y ys' where "ys = y # ys'" using assms(2) rs by (cases ys) auto
    then show ?thesis using b(4) contiguous_le [of ys' "b + rp_count r + rp_count y" "2 ^ m"] by auto
  next
    case (Cons x xs')
    then show ?thesis using b(1) contiguous_le [of xs' "rp_count x" b] by auto
  qed
  then show "good_range m r" using b contiguous_le [OF b(4)] by (auto simp: good_range_def)
qed

text \<open>How many entries there are at most.\<close>

lemma tiles_length: "tiles 2 m gs a c \<Longrightarrow> length gs \<le> c - a"
proof (induction gs arbitrary: a)
  case (Cons g gs)
  have "phi 2 m g = a + 2 ^ (m - length g)" using Cons.prems by (simp add: phi_eq_plo)
  then have "a + 1 \<le> phi 2 m g" by simp
  moreover have "phi 2 m g \<le> c" "length gs \<le> c - phi 2 m g" using Cons tiles_le [of 2 m gs] by auto
  ultimately show ?case by simp
qed simp

lemma group_keys_length:
  "length (group_keys trie m g) \<le> (mt_nb_tries trie choose mt_nb_required trie) * (2 ^ mt_nb_required trie + 1)"
proof -
  have "length (group_combinations trie m g) \<le> 2 ^ mt_nb_required trie + 1"
    using combinations_length [of "replicate (mt_nb_required trie) m" g "mt_max_error_exp trie" "mt_min_support_exp trie"
        "mt_maximize_coverage trie", where ?'e = dlc_error]
    by (auto simp: group_combinations_def at_most_def split: res.splits)
  moreover have "length (group_keys trie m g) = (mt_nb_tries trie choose mt_nb_required trie) * length (group_combinations trie m g)"
    by (simp add: group_keys_def insert_keys_def length_concat o_def sum_list_triv length_combs)
  ultimately show ?thesis by (simp only: mult_le_mono2)
qed

lemma range_keys_length:
  assumes "good_range m r" "m \<le> 52"
  shows "length (range_keys trie m r) \<le> rp_count r * ((mt_nb_tries trie choose mt_nb_required trie) * (2 ^ mt_nb_required trie + 1))"
    (is "_ \<le> _ * ?N")
proof -
  have "length (concat (map (group_keys trie m) gs)) \<le> length gs * ?N" for gs
    using group_keys_length [of trie m] by (induction gs) (auto intro: add_mono)
  moreover have "length (range_groups m r) \<le> rp_count r"
    using tiles_length [OF range_groups_ok(2) [OF assms]] by simp
  ultimately show ?thesis unfolding range_keys_def by (meson mult_le_mono1 order_trans)
qed

lemma all_keys_length:
  assumes "contiguous rs b c" "\<forall>r\<in>set rs. good_range m r" "m \<le> 52"
  shows "length (concat (map (range_keys trie m) rs)) \<le> (c - b) * ((mt_nb_tries trie choose mt_nb_required trie) * (2 ^ mt_nb_required trie + 1))"
    (is "_ \<le> _ * ?N")
  using assms
proof (induction rs arbitrary: b)
  case (Cons r rs)
  have c: "contiguous rs (b + rp_count r) c" "b + rp_count r \<le> c" using Cons.prems(1) contiguous_le by auto
  have "length (concat (map (range_keys trie m) rs)) \<le> (c - (b + rp_count r)) * ?N" using Cons c by auto
  moreover have "length (range_keys trie m r) \<le> rp_count r * ?N" using range_keys_length Cons.prems(2,3) by auto
  moreover have "(c - b) * ?N = rp_count r * ?N + (c - (b + rp_count r)) * ?N"
    unfolding add_mult_distrib [symmetric] using c(2) by simp
  ultimately show ?case by simp
qed simp

lemma outcomes_replicate: "outcomes (replicate k m) ys \<longleftrightarrow> length ys = k \<and> (\<forall>y\<in>set ys. y < 2 ^ m)"
  by (auto simp: outcomes_def list_all2_conv_all_nth all_set_conv_all_nth)

lemma infos_at_adaptors: "map (\<lambda>e. adaptor_index (ti_value e)) (infos_at i b ks) = [b..<b + length ks]"
  by (induction ks arbitrary: b) (simp_all add: upt_conv_Cons del: upt_Suc)

lemma all_infos_adaptors:
  "map (\<lambda>e. adaptor_index (ti_value e)) (all_infos trie m i b rs) = [b..<b + length (all_infos trie m i b rs)]"
proof (induction rs arbitrary: i b)
  case (Cons r rs)
  let ?l = "length (range_keys trie m r)"
  have "map (\<lambda>e. adaptor_index (ti_value e)) (all_infos trie m i b (r # rs)) =
      [b..<b + ?l] @ [b + ?l..<b + ?l + length (all_infos trie m (i + 1) (b + ?l) rs)]"
    using Cons [of "i + 1" "b + ?l"] by (simp only: all_infos.simps map_append infos_at_adaptors)
  also have "\<dots> = [b..<b + ?l + length (all_infos trie m (i + 1) (b + ?l) rs)]"
    by (rule upt_add_eq_append [symmetric]) simp
  finally show ?case by (simp add: add.assoc)
qed simp

text \<open>The key of a lookup result names the range of the outcome of the first oracle.\<close>

lemma diff_entry:
  assumes t: "same_digits trie m" and rs: "\<forall>r\<in>set rs. good_range m r"
    and sel: "length sel = mt_nb_required trie" and ys: "length ys = mt_nb_required trie" "\<forall>y\<in>set ys. y < 2 ^ m"
    and e: "e \<in> set (all_infos trie m 0 a rs)" "zip (ti_indexes e) (ti_paths e) = key" "mt_fits key (zip sel (map (dg m) ys))"
  shows "cet_index (ti_value e) < length rs \<and>
    (let r = rs ! cet_index (ti_value e) in rp_start r \<le> hd ys \<and> hd ys < rp_start r + rp_count r \<and>
      (\<forall>z\<in>set ys. z < hd ys + 2 ^ mt_max_error_exp trie \<and> hd ys < z + 2 ^ mt_max_error_exp trie \<or>
        rp_start r \<le> z \<and> z < rp_start r + rp_count r))"
proof -
  let ?k = "mt_nb_required trie" and ?j = "cet_index (ti_value e)"
  have j: "?j < length rs" "(ti_paths e, ti_indexes e) \<in> set (range_keys trie m (rs ! ?j))"
    using all_infos_mem [OF e(1)] by auto
  define r where "r = rs ! ?j"
  have m: "m \<le> 52" and k: "2 \<le> ?k" using t by (auto simp: same_digits_def)
  have r: "good_range m r" "r = rs ! ?j" using rs j(1) by (auto simp: r_def)
  obtain g where g: "g \<in> set (range_groups m r)" "ti_paths e \<in> set (group_combinations trie m g)"
    and s: "ti_indexes e \<in> set (combs 0 (mt_nb_tries trie) ?k)"
    using j(2) unfolding range_keys_mem r_def by blast
  have gg: "digits_below 2 g" "g \<noteq> []" "length g \<le> m" using range_groups_ok(3) [OF r(1) m] g(1) by (auto simp: good_group_def)
  have tiles: "tiles 2 m (range_groups m r) (rp_start r) (rp_start r + rp_count r)" by (rule range_groups_ok(2) [OF r(1) m])
  have in_r: "covered m g z \<Longrightarrow> rp_start r \<le> z \<and> z < rp_start r + rp_count r" for z
    using tiles_covered [OF tiles, of z] g(1) r(1) by (auto simp: good_range_def)
  have len: "length (ti_paths e) = ?k" "length (ti_indexes e) = ?k"
    using group_combinations_ok(2) [OF t gg g(2)] s by (auto simp: proper_def set_combs)
  then have key: "map snd key = ti_paths e" "length key = ?k" unfolding e(2) [symmetric] by simp_all
  obtain y ys' where y: "ys = y # ys'" using ys(1) k by (cases ys) auto
  have "covered_by (replicate ?k m) (group_combinations trie m g) (y # ys')"
    using fits_exact [OF sel ys key(2)] e(3) g(2) unfolding covered_by_def key(1) y by auto
  moreover have "outcomes (replicate ?k m) (y # ys')"
    using ys unfolding y outcomes_replicate by blast
  ultimately have c: "covered m g y" "(\<forall>z\<in>set ys'. z < y + 2 ^ mt_max_error_exp trie \<and> y < z + 2 ^ mt_max_error_exp trie) \<or>
      (\<forall>z\<in>set ys'. covered m g z)"
    using group_combinations_ok(3) [OF t gg] by blast+
  have "z < y + 2 ^ mt_max_error_exp trie \<and> y < z + 2 ^ mt_max_error_exp trie \<or> rp_start r \<le> z \<and> z < rp_start r + rp_count r"
    if "z \<in> set ys" for z
    using c in_r that by (auto simp: y)
  then show ?thesis using j(1) in_r [OF c(1)] unfolding r(2) [symmetric] Let_def by (simp add: y)
qed

lemma diff_found:
  assumes t: "same_digits trie m" and rs: "\<forall>r\<in>set rs. good_range m r" "contiguous rs 0 (2 ^ m)"
    and sel: "sel \<in> set (combs 0 (mt_nb_tries trie) (mt_nb_required trie))"
    and ys: "length ys = mt_nb_required trie" "\<forall>y\<in>set ys. y < 2 ^ m" "near (2 ^ mt_min_support_exp trie) ys"
  shows "\<exists>e\<in>set (all_infos trie m 0 a rs). mt_fits (zip (ti_indexes e) (ti_paths e)) (zip sel (map (dg m) ys))"
proof -
  let ?k = "mt_nb_required trie"
  have m: "m \<le> 52" and k: "2 \<le> ?k" using t by (auto simp: same_digits_def)
  obtain y ys' where y: "ys = y # ys'" using ys(1) k by (cases ys) auto
  obtain j where j: "j < length rs" "rp_start (rs ! j) \<le> y \<and> y < rp_start (rs ! j) + rp_count (rs ! j)"
    using contiguous_find [OF rs(2), of y] ys(2) y by auto
  define r where "r = rs ! j"
  have r: "good_range m r" using rs(1) j(1) by (simp add: r_def)
  obtain g where g: "g \<in> set (range_groups m r)" "covered m g y"
    using tiles_covered [OF range_groups_ok(2) [OF r m], of y] r j(2) by (auto simp: good_range_def r_def)
  have gg: "digits_below 2 g" "g \<noteq> []" "length g \<le> m" using range_groups_ok(3) [OF r m] g(1) by (auto simp: good_group_def)
  have out: "outcomes (replicate ?k m) (y # ys')"
    using ys(1,2) unfolding y outcomes_replicate by blast
  obtain c where c: "c \<in> set (group_combinations trie m g)" "matches (replicate ?k m) c ys"
    using group_combinations_ok(4) [OF t gg out g(2)] ys(3) unfolding covered_by_def y by blast
  have "(c, sel) \<in> set (range_keys trie m r)" unfolding range_keys_mem using g(1) c(1) sel by blast
  then obtain e where e: "e \<in> set (all_infos trie m 0 a rs)" "ti_paths e = c" "ti_indexes e = sel"
    using all_infos_ex [OF j(1), of c sel trie m] unfolding r_def by blast
  have len: "length sel = ?k" "length c = ?k" using sel c(2) by (auto simp: set_combs matches_nth)
  then have "mt_fits (zip sel c) (zip sel (map (dg m) ys))"
    using fits_exact [OF len(1) ys(1,2), of "zip sel c"] c(2) by simp
  then show ?thesis using e by blast
qed

section \<open>Properties\<close>

text \<open>
  C6. From the payouts to the attestation.  For oracles with the same number of digits and ranges
  that tile all outcomes, \<open>generate\<close> on a new trie succeeds and numbers the adaptor signatures
  consecutively.  A lookup of the outcomes attested by \<open>threshold\<close> oracles then ends, and what it
  returns is one of the entries made: its transaction is the one for the range that contains the
  outcome of the first oracle, and every other outcome is in this range or differs by less than the
  maximal error.  When no two outcomes differ by more than the minimal support, it returns an entry.
\<close>

theorem diff_trie_generate_look_up:
  assumes "2 \<le> k" "k \<le> 31" "k \<le> n" "n < 2 ^ 64" "S < E" "E < m" "m \<le> 52"
    and "contiguous rs 0 (2 ^ m)" "2 \<le> length rs"
    and "diff_trie_new \<lparr>oni_base = 2, oni_nb_digits = replicate n m\<rparr> k S E = Ok new"
    and "a + 2 ^ m * ((n choose k) * (2 ^ k + 1)) < 2 ^ 64"
  shows "\<exists>trie entries. diff_trie_generate new a rs = Ok (trie, entries) \<and>
    map (\<lambda>e. adaptor_index (ti_value e)) entries = [a..<a + length entries] \<and>
    (\<forall>sel ys. length sel = k \<and> sorted_wrt (<) sel \<and> set sel \<subseteq> {..<n} \<and> length ys = k \<and> (\<forall>y\<in>set ys. y < 2 ^ m) \<longrightarrow>
      (\<exists>found. multi_trie_look_up (wd_trie trie) (zip sel (map (dg m) ys)) = (Ok found :: (_, 'e) res) \<and>
        (near (2 ^ S) ys \<longrightarrow> found \<noteq> None) \<and>
        (\<forall>info key. found = Some (info, key) \<longrightarrow>
          (\<exists>e\<in>set entries. ti_value e = info \<and> zip (ti_indexes e) (ti_paths e) = key) \<and> map fst key = sel \<and>
          cet_index info < length rs \<and>
          (let r = rs ! cet_index info in rp_start r \<le> hd ys \<and> hd ys < rp_start r + rp_count r \<and>
            (\<forall>z\<in>set ys. z < hd ys + 2 ^ E \<and> hd ys < z + 2 ^ E \<or> rp_start r \<le> z \<and> z < rp_start r + rp_count r)))))"
proof -
  let ?infos = "\<lparr>oni_base = 2, oni_nb_digits = replicate n m\<rparr>"
  obtain t :: "range_info multi_trie" where t: "multi_trie_new ?infos k S E True = (Ok t :: (_, dlc_error) res)" "mt_inv t"
    "mt_val t = Map.empty" "mt_infos t = ?infos" "mt_nb_required t = k" "mt_min_support_exp t = S" "mt_max_error_exp t = E"
    using multi_trie_new_ok [of k ?infos S E True, where ?'e = dlc_error] assms(1,3,4) by auto
  have new: "new = \<lparr>wd_trie = t, wd_infos = ?infos\<rparr>"
    using assms(1,3,5,10) t(1) by (auto simp: diff_trie_new_def split: if_splits)
  have tries: "mt_nb_tries t = n" using t(2,4) by (simp add: mt_inv_def)
  have same: "same_digits t m" using assms(1,2,5-7) t tries by (simp add: same_digits_def)
  have good: "\<forall>r\<in>set rs. good_range m r" by (rule contiguous_good [OF assms(8,9)])
  have len: "a + length (concat (map (range_keys t m) rs)) < usize_bound"
    using all_keys_length [OF assms(8) good assms(7), of t] assms(11) tries t(5) by simp
  let ?es = "all_infos t m 0 a rs"
  obtain st' a' where gen: "fold_res (diff_trie_insert_range ?infos) (enumerate 0 rs) (t, a, []) = Ok (t\<lparr>mt_store := st'\<rparr>, a', ?es)"
    and inv: "mt_inv (t\<lparr>mt_store := st'\<rparr>)" and val: "mt_val (t\<lparr>mt_store := st'\<rparr>) = fold put_info ?es Map.empty"
    using insert_ranges_ok [OF same good len, of 0 "[]"] t(3,4) by auto
  let ?trie = "\<lparr>wd_trie = t\<lparr>mt_store := st'\<rparr>, wd_infos = ?infos\<rparr>"
  have nd: "\<not> has_diff_nb_digits ?infos" by (auto simp: has_diff_nb_digits_def list_ex_iff dest: in_set_dropD)
  have run: "diff_trie_generate new a rs = Ok (?trie, ?es)"
    by (simp add: diff_trie_generate_def new gen nd)
  have look: "\<exists>found. multi_trie_look_up (wd_trie ?trie) (zip sel (map (dg m) ys)) = (Ok found :: (_, 'e) res) \<and>
        (near (2 ^ S) ys \<longrightarrow> found \<noteq> None) \<and>
        (\<forall>info key. found = Some (info, key) \<longrightarrow>
          (\<exists>e\<in>set ?es. ti_value e = info \<and> zip (ti_indexes e) (ti_paths e) = key) \<and> map fst key = sel \<and>
          cet_index info < length rs \<and>
          (let r = rs ! cet_index info in rp_start r \<le> hd ys \<and> hd ys < rp_start r + rp_count r \<and>
            (\<forall>z\<in>set ys. z < hd ys + 2 ^ E \<and> hd ys < z + 2 ^ E \<or> rp_start r \<le> z \<and> z < rp_start r + rp_count r)))"
    if sel: "length sel = k" "sorted_wrt (<) sel" "set sel \<subseteq> {..<n}" and ys: "length ys = k" "\<forall>y\<in>set ys. y < 2 ^ m" for sel ys
  proof -
    let ?paths = "zip sel (map (dg m) ys)"
    have comb: "sel \<in> set (combs 0 (mt_nb_tries t) (mt_nb_required t))"
      using sel tries t(5) by (auto simp: set_combs lessThan_atLeast0)
    have "dt_path 2 (dg m y)" for y using dg_digits [of m y] by (simp add: dt_path_def)
    then have p: "\<forall>p\<in>set ?paths. dt_path (oni_base (mt_infos (t\<lparr>mt_store := st'\<rparr>))) (snd p)"
      using t(4) by (auto dest!: set_zip_rightD)
    have l: "length ?paths < usize_bound" using sel(1) ys(1) assms(2) by simp
    obtain found where f: "multi_trie_look_up (t\<lparr>mt_store := st'\<rparr>) ?paths = (Ok found :: (_, 'e) res)"
      "found = None \<longrightarrow> (\<forall>key. mt_fits key ?paths \<longrightarrow> mt_val (t\<lparr>mt_store := st'\<rparr>) key = None)"
      "\<forall>v key. found = Some (v, key) \<longrightarrow> mt_fits key ?paths \<and> mt_val (t\<lparr>mt_store := st'\<rparr>) key = Some v"
      using multi_trie_look_up_ok [OF inv p l, where ?'e = 'e] by blast
    have "found \<noteq> None" if near: "near (2 ^ S) ys"
    proof -
      obtain e where "e \<in> set ?es" "mt_fits (zip (ti_indexes e) (ti_paths e)) ?paths"
        using diff_found [OF same good assms(8) comb, of ys a] ys near t(5,6) by auto
      then show ?thesis using f(2) val fold_put_info_mem [of e ?es Map.empty] by auto
    qed
    moreover have "(\<exists>e\<in>set ?es. ti_value e = info \<and> zip (ti_indexes e) (ti_paths e) = key) \<and> map fst key = sel \<and>
          cet_index info < length rs \<and>
          (let r = rs ! cet_index info in rp_start r \<le> hd ys \<and> hd ys < rp_start r + rp_count r \<and>
            (\<forall>z\<in>set ys. z < hd ys + 2 ^ E \<and> hd ys < z + 2 ^ E \<or> rp_start r \<le> z \<and> z < rp_start r + rp_count r))"
      if "found = Some (info, key)" for info key
    proof -
      have fits: "mt_fits key ?paths" and v: "mt_val (t\<lparr>mt_store := st'\<rparr>) key = Some info" using f(3) that by blast+
      obtain e where e: "e \<in> set ?es" "zip (ti_indexes e) (ti_paths e) = key" "ti_value e = info"
        using fold_put_info_Some [of ?es Map.empty key info] v val by auto
      have "length key = k" using mt_val_length [OF inv v] t(5) by simp
      then have "map fst key = sel" using fits_exact [OF sel(1) ys] fits by blast
      moreover note diff_entry [OF same good _ _ ys(2) e(1,2) fits]
      ultimately show ?thesis using sel(1) ys(1) t(5,7) e by auto
    qed
    ultimately show ?thesis using f(1) by (intro exI [of _ found]) simp
  qed
  show ?thesis using run all_infos_adaptors look by (intro exI [of _ ?trie] exI [of _ ?es]) blast
qed

lemma diff_trie_generate_look_up_witness:
  "\<exists>rs new. rs = [\<lparr>rp_start = 0, rp_count = 7, rp_payout = \<lparr>offer = 1, accept = 0\<rparr>\<rparr>,
      \<lparr>rp_start = 7, rp_count = 9, rp_payout = \<lparr>offer = 0, accept = 1\<rparr>\<rparr>] \<and>
    diff_trie_new \<lparr>oni_base = 2, oni_nb_digits = replicate 3 4\<rparr> 2 0 2 = Ok new \<and>
    (\<exists>trie entries. diff_trie_generate new 5 rs = Ok (trie, entries) \<and>
    map (\<lambda>e. adaptor_index (ti_value e)) entries = [5..<5 + length entries] \<and>
    (\<forall>sel ys. length sel = 2 \<and> sorted_wrt (<) sel \<and> set sel \<subseteq> {..<3} \<and> length ys = 2 \<and> (\<forall>y\<in>set ys. y < 2 ^ 4) \<longrightarrow>
      (\<exists>found. multi_trie_look_up (wd_trie trie) (zip sel (map (dg 4) ys)) = (Ok found :: (_, unit) res) \<and>
        (near (2 ^ 0) ys \<longrightarrow> found \<noteq> None) \<and>
        (\<forall>info key. found = Some (info, key) \<longrightarrow>
          (\<exists>e\<in>set entries. ti_value e = info \<and> zip (ti_indexes e) (ti_paths e) = key) \<and> map fst key = sel \<and>
          cet_index info < length rs \<and>
          (let r = rs ! cet_index info in rp_start r \<le> hd ys \<and> hd ys < rp_start r + rp_count r \<and>
            (\<forall>z\<in>set ys. z < hd ys + 2 ^ 2 \<and> hd ys < z + 2 ^ 2 \<or> rp_start r \<le> z \<and> z < rp_start r + rp_count r))))))"
proof -
  let ?infos = "\<lparr>oni_base = 2, oni_nb_digits = replicate 3 4\<rparr>"
  obtain t :: "range_info multi_trie" where t: "multi_trie_new ?infos 2 0 2 True = (Ok t :: (_, dlc_error) res)"
    using multi_trie_new_ok [of 2 ?infos 0 2 True, where ?'e = dlc_error] by auto
  have choose: "(3 choose 2) = (3 :: nat)" by (simp add: numeral_2_eq_2 numeral_3_eq_3)
  obtain new where new: "diff_trie_new ?infos 2 0 2 = Ok new"
    using t by (simp add: diff_trie_new_def)
  obtain rs :: "range_payout list" where rs: "rs = [\<lparr>rp_start = 0, rp_count = 7, rp_payout = \<lparr>offer = 1, accept = 0\<rparr>\<rparr>,
      \<lparr>rp_start = 7, rp_count = 9, rp_payout = \<lparr>offer = 0, accept = 1\<rparr>\<rparr>]" by simp
  have c: "contiguous rs 0 (2 ^ 4)" "2 \<le> length rs" by (simp_all add: rs)
  have h: "(2 :: nat) \<le> 2" "(2 :: nat) \<le> 31" "(2 :: nat) \<le> 3" "(3 :: nat) < 2 ^ 64" "(0 :: nat) < 2" "(2 :: nat) < 4" "(4 :: nat) \<le> 52"
    "5 + 2 ^ 4 * ((3 choose 2) * (2 ^ 2 + 1)) < (2 :: nat) ^ 64" by (simp_all add: choose)
  note diff_trie_generate_look_up [OF h(1-7) c new h(8), where ?'e = unit]
  then show ?thesis using rs new by (intro exI [of _ rs] exI [of _ new]) (intro conjI)
qed

end
