(* ===== verification/Multi_Oracle_Trie.thy ===== *)
theory Multi_Oracle_Trie
  imports Multi_Oracle_Trie_With_Diff
begin

text \<open>
  \<open>dlc-trie/src/multi_oracle_trie.rs\<close>: the trie of adaptor signature information when the
  oracles must agree on the outcome.  A digit trie holds, for every group of outcomes, one entry
  for each combination of \<open>threshold\<close> oracles; a trie of tries covers the outcomes out of the range
  of the oracles with the fewest digits.  The order in which a \<open>HashMap\<close> is iterated is an argument
  of the definitions that depend on it.
\<close>

section \<open>The trie\<close>

record multi_oracle_trie =
  ot_digit_trie :: "range_info list digit_trie"
  ot_threshold :: nat
  ot_infos :: oracle_numeric_info
  ot_extra_cover :: "range_info multi_trie option"

record multi_oracle_trie_dump =
  od_digit_trie :: "range_info list digit_trie_dump"
  od_threshold :: nat
  od_infos :: oracle_numeric_info
  od_extra_cover :: "range_info multi_trie_dump option"

text \<open>\<open>Option::map\<close> of a call.\<close>

definition map_call :: "('a \<Rightarrow> ('b, 'e) res) \<Rightarrow> 'a option \<Rightarrow> ('b option, 'e) res" where
  "map_call f m = (case m of None \<Rightarrow> Ok None | Some x \<Rightarrow> and_then (f x) (\<lambda>y. Ok (Some y)))"

definition oracle_trie_get_dump :: "multi_oracle_trie \<Rightarrow> (multi_oracle_trie_dump, 'e) res" where
  "oracle_trie_get_dump trie =
     and_then (digit_trie_dump (ot_digit_trie trie)) (\<lambda>d.
     and_then (map_call multi_trie_get_dump (ot_extra_cover trie)) (\<lambda>x.
       Ok \<lparr>od_digit_trie = d, od_threshold = ot_threshold trie, od_infos = ot_infos trie, od_extra_cover = x\<rparr>))"

definition oracle_trie_from_dump :: "multi_oracle_trie_dump \<Rightarrow> (multi_oracle_trie, 'e) res" where
  "oracle_trie_from_dump d =
     and_then (digit_trie_from_dump (od_digit_trie d)) (\<lambda>t.
     and_then (map_call multi_trie_from_dump (od_extra_cover d)) (\<lambda>x.
       Ok \<lparr>ot_digit_trie = t, ot_threshold = od_threshold d, ot_infos = od_infos d, ot_extra_cover = x\<rparr>))"

definition oracle_trie_new :: "oracle_numeric_info \<Rightarrow> nat \<Rightarrow> (multi_oracle_trie, dlc_error) res" where
  "oracle_trie_new infos threshold =
     (if oni_nb_digits infos = [] then Err InvalidArgument
      else
        and_then (if has_diff_nb_digits infos
                  then and_then (multi_trie_new infos threshold 1 2 True) (\<lambda>t. Ok (Some t)) else Ok None) (\<lambda>x.
          Ok \<lparr>ot_digit_trie = digit_trie_new (oni_base infos), ot_threshold = threshold, ot_infos = infos,
              ot_extra_cover = x\<rparr>))"

section \<open>Generating the trie\<close>

text \<open>The entry of one combination of oracles at one group of outcomes.\<close>

definition oracle_trie_entry ::
  "oracle_numeric_info \<Rightarrow> nat \<Rightarrow> nat \<Rightarrow> nat list \<Rightarrow> nat list \<Rightarrow> nat \<times> trie_iter_info list \<times> range_info list
    \<Rightarrow> (nat \<times> trie_iter_info list \<times> range_info list, 'e) res" where
  "oracle_trie_entry infos min_nb_digits cet group_path sel = (\<lambda>(adaptor, trie_infos, range_infos).
     let info = \<lparr>cet_index = cet, adaptor_index = adaptor\<rparr> in
     and_then (uadd adaptor 1) (\<lambda>adaptor'.
     and_then (traverse (\<lambda>(i, nb_digits).
         and_then (uadd (length group_path) nb_digits) (\<lambda>l.
         and_then (usub l min_nb_digits) (pre_pad_vec group_path)))
         (filter (\<lambda>(i, x). i \<in> set sel) (enumerate 0 (oni_nb_digits infos)))) (\<lambda>paths.
       Ok (adaptor', trie_infos @ [\<lparr>ti_indexes = sel, ti_paths = paths, ti_value = info\<rparr>], range_infos @ [info]))))"

definition oracle_trie_value ::
  "oracle_numeric_info \<Rightarrow> nat \<Rightarrow> nat \<Rightarrow> nat \<Rightarrow> nat list \<Rightarrow> (range_info list, nat \<times> trie_iter_info list, 'e) get_data" where
  "oracle_trie_value infos threshold min_nb_digits cet group_path old = (\<lambda>(adaptor, trie_infos).
     and_then (ci_new (length (oni_nb_digits infos)) threshold) (\<lambda>it.
     and_then (ci_collect it) (\<lambda>selectors.
     and_then (fold_res (oracle_trie_entry infos min_nb_digits cet group_path) selectors (adaptor, trie_infos, []))
       (\<lambda>(adaptor', trie_infos', range_infos). Ok (range_infos, (adaptor', trie_infos'))))))"

type_synonym ot_state = "range_info list digit_trie \<times> nat \<times> trie_iter_info list"

definition oracle_trie_insert_group ::
  "oracle_numeric_info \<Rightarrow> nat \<Rightarrow> nat \<Rightarrow> nat \<Rightarrow> nat list \<Rightarrow> ot_state \<Rightarrow> (ot_state, 'e) res" where
  "oracle_trie_insert_group infos threshold min_nb_digits cet group_path = (\<lambda>(trie, s).
     digit_trie_insert trie group_path (oracle_trie_value infos threshold min_nb_digits cet group_path) s)"

definition oracle_trie_insert_range ::
  "oracle_numeric_info \<Rightarrow> nat \<Rightarrow> nat \<Rightarrow> nat \<times> range_payout \<Rightarrow> ot_state \<Rightarrow> (ot_state, dlc_error) res" where
  "oracle_trie_insert_range infos threshold min_nb_digits = (\<lambda>(cet, outcome) (trie, s).
     if rp_count outcome = 0 then Err InvalidArgument
     else
       and_then (uadd (rp_start outcome) (rp_count outcome)) (\<lambda>e.
       and_then (usub e 1) (\<lambda>e.
       and_then (group_by_ignoring_digits (rp_start outcome) e (dt_base trie) min_nb_digits) (\<lambda>groups.
         fold_res (oracle_trie_insert_group infos threshold min_nb_digits cet) groups (trie, s)))))"

definition oracle_trie_generate ::
  "multi_oracle_trie \<Rightarrow> nat \<Rightarrow> range_payout list \<Rightarrow> (multi_oracle_trie \<times> trie_iter_info list, dlc_error) res" where
  "oracle_trie_generate trie adaptor_index_start ranges =
     and_then (get_min_nb_digits (ot_infos trie)) (\<lambda>min_nb_digits.
     and_then (fold_res (oracle_trie_insert_range (ot_infos trie) (ot_threshold trie) min_nb_digits) (enumerate 0 ranges)
                 (ot_digit_trie trie, adaptor_index_start, [])) (\<lambda>(t, a, ti).
     case ot_extra_cover trie of
       None \<Rightarrow> Ok (trie\<lparr>ot_digit_trie := t\<rparr>, ti)
     | Some x \<Rightarrow>
         and_then (insert_max_paths x (\<lambda>ps is s. and_then (usub (length ranges) 1) (\<lambda>c. get_value_callback ps is c s))
                     (a, ti)) (\<lambda>(x', a', ti').
           Ok (trie\<lparr>ot_digit_trie := t, ot_extra_cover := Some x'\<rparr>, ti'))))"

section \<open>Lookup\<close>

text \<open>
  The oracles that agree on a path, grouped in a hash map; \<open>hash_order\<close> is the order in which
  the map is iterated.  The groups are sorted by their size and those that are too small left out.
\<close>

type_synonym agreement = "nat list \<times> nat list"

fun add_agreement :: "indexed_path \<Rightarrow> agreement list \<Rightarrow> agreement list" where
  "add_agreement (i, p) [] = [(p, [i])]"
| "add_agreement (i, p) ((q, is) # gs) = (if p = q then (q, is @ [i]) # gs else (q, is) # add_agreement (i, p) gs)"

definition get_agreeing_oracles ::
  "(agreement list \<Rightarrow> agreement list) \<Rightarrow> nat \<Rightarrow> indexed_path list \<Rightarrow> agreement list option" where
  "get_agreeing_oracles hash_order threshold paths =
     (let hash_set = fold add_agreement paths [] in
      if hash_set = [] then None
      else
        (let res = filter (\<lambda>x. threshold \<le> length (snd x)) (sort_key (\<lambda>x. length (snd x)) (hash_order hash_set))
         in if res = [] then None else Some res))"

text \<open>The paths within the range of the oracles with the fewest digits, shortened to their length.\<close>

definition strip_paths :: "nat \<Rightarrow> indexed_path list \<Rightarrow> indexed_path list" where
  "strip_paths min_nb_digits paths =
     List.map_filter (\<lambda>(i, p).
       if length p < min_nb_digits then None
       else
         (let extra_len = length p - min_nb_digits in
          if list_all (\<lambda>x. x = 0) (take extra_len p) then Some (i, drop extra_len p) else None)) paths"

definition oracle_trie_try ::
  "multi_oracle_trie \<Rightarrow> nat \<Rightarrow> agreement \<Rightarrow> ((range_info \<times> indexed_path list) option, 'e) res" where
  "oracle_trie_try trie min_nb_digits = (\<lambda>(path, combination).
     and_then (assert_that (length path = min_nb_digits)) (\<lambda>_.
     and_then (digit_trie_look_up (ot_digit_trie trie) path) (\<lambda>found.
     case found of
       None \<Rightarrow> Ok None
     | Some entries \<Rightarrow>
         (let sufficient = take (ot_threshold trie) combination in
          and_then (ci_new (length (oni_nb_digits (ot_infos trie))) (ot_threshold trie)) (\<lambda>it.
          and_then (get_index_for_combination it sufficient) (\<lambda>pos.
          case pos of
            None \<Rightarrow> Ok None
          | Some position \<Rightarrow>
              and_then (index entries 0) (\<lambda>hit.
              and_then (index (lr_value hit) position) (\<lambda>info.
              and_then (traverse (\<lambda>x.
                  and_then (index (oni_nb_digits (ot_infos trie)) x) (\<lambda>nb.
                  and_then (uadd (length (lr_path hit)) nb) (\<lambda>l.
                  and_then (usub l min_nb_digits) (\<lambda>actual_len.
                  and_then (pre_pad_vec (lr_path hit) actual_len) (\<lambda>p. Ok (x, p)))))) sufficient) (\<lambda>ps.
                Ok (Some (info, ps)))))))))))"

definition oracle_trie_look_up ::
  "(agreement list \<Rightarrow> agreement list) \<Rightarrow> multi_oracle_trie \<Rightarrow> indexed_path list
    \<Rightarrow> ((range_info \<times> indexed_path list) option, 'e) res" where
  "oracle_trie_look_up hash_order trie paths =
     and_then (get_min_nb_digits (ot_infos trie)) (\<lambda>min_nb_digits.
     and_then (case get_agreeing_oracles hash_order (ot_threshold trie) (strip_paths min_nb_digits paths) of
                 None \<Rightarrow> Ok None
               | Some combinations \<Rightarrow> first_some (oracle_trie_try trie min_nb_digits) combinations) (\<lambda>r.
     case r of
       Some x \<Rightarrow> Ok (Some x)
     | None \<Rightarrow>
         (case ot_extra_cover trie of
            None \<Rightarrow> Ok None
          | Some extra_cover_trie \<Rightarrow> multi_trie_look_up extra_cover_trie paths)))"

end
