(* ===== verification/Bitcoin_Types.thy ===== *)
theory Bitcoin_Types
  imports Float64 Payout_Types "HOL-Library.Multiset"
begin

text \<open>
  The Bitcoin data the transaction builders use, the errors of the \<open>dlc\<close> crate and its
  helpers in \<open>dlc/src/util.rs\<close>.  Amounts are satoshis as \<open>nat\<close> (an \<open>Amount\<close> is a
  \<open>u64\<close>, whose \<open>+\<close> and \<open>-\<close> panic out of range), scripts and public keys are byte
  lists (a key is its compressed serialization, on which the library's order is lexicographic).
  Functions of the \<open>bitcoin\<close> crate that are not in the repository are fields of the record
  \<open>bitcoin_api\<close>, an argument of the definitions that use them.  Texts of error messages are
  left out.
\<close>

section \<open>Data\<close>

type_synonym bytes = "nat list"
type_synonym script = bytes
type_synonym pubkey = bytes

record out_point =
  op_txid :: bytes
  op_vout :: nat

record tx_in =
  previous_output :: out_point
  script_sig :: script
  tx_sequence :: nat
  tx_witness :: "bytes list"

record tx_out =
  out_value :: nat
  script_pubkey :: script

record transaction =
  tx_version :: nat
  tx_lock_time :: nat
  tx_input :: "tx_in list"
  tx_output :: "tx_out list"

text \<open>
  \<open>compute_txid\<close>, \<open>to_p2wsh\<close>, and \<open>WitnessProgram::new(V0, bytes)\<close> followed by
  \<open>ScriptBuf::new_witness_program\<close> (\<open>None\<close> is the constructor's error).
\<close>

record bitcoin_api =
  compute_txid :: "transaction \<Rightarrow> bytes"
  to_p2wsh :: "script \<Rightarrow> script"
  new_v0_witness_program :: "bytes \<Rightarrow> script option"

section \<open>Helpers\<close>

definition DISABLE_LOCKTIME :: nat where "DISABLE_LOCKTIME = 4294967295"
definition ENABLE_LOCKTIME :: nat where "ENABLE_LOCKTIME = 4294967294"

definition get_sequence :: "nat \<Rightarrow> nat" where
  "get_sequence lock_time = (if lock_time = 0 then DISABLE_LOCKTIME else ENABLE_LOCKTIME)"

text \<open>The macro \<open>checked_add!\<close> with two, three and four arguments.\<close>

definition checked_add2 :: "nat \<Rightarrow> nat \<Rightarrow> (nat, dlc_error) res" where
  "checked_add2 a b = ok_or InvalidArgument (checked_add a b)"

definition checked_add3 :: "nat \<Rightarrow> nat \<Rightarrow> nat \<Rightarrow> (nat, dlc_error) res" where
  "checked_add3 a b c = and_then (checked_add2 a b) (\<lambda>s. checked_add2 s c)"

definition checked_add4 :: "nat \<Rightarrow> nat \<Rightarrow> nat \<Rightarrow> nat \<Rightarrow> (nat, dlc_error) res" where
  "checked_add4 a b c d = and_then (checked_add3 a b c) (\<lambda>s. checked_add2 s d)"

lemma checked_add_Ok [simp]:
  "checked_add2 a b = Ok s \<longleftrightarrow> a + b < usize_bound \<and> s = a + b"
  "checked_add3 a b c = Ok s \<longleftrightarrow> a + b + c < usize_bound \<and> s = a + b + c"
  "checked_add4 a b c d = Ok s \<longleftrightarrow> a + b + c + d < usize_bound \<and> s = a + b + c + d"
  by (auto simp: checked_add2_def checked_add3_def checked_add4_def res_simps)

lemma checked_add_neq_Panic [simp]:
  "checked_add2 a b \<noteq> Panic" "checked_add3 a b c \<noteq> Panic" "checked_add4 a b c d \<noteq> Panic"
  by (auto simp: checked_add2_def checked_add3_def checked_add4_def checked_add_def res_simps)

definition weight_to_fee :: "nat \<Rightarrow> nat \<Rightarrow> (nat, dlc_error) res" where
  "weight_to_fee weight fee_rate =
     ok_or InvalidArgument
       (checked_mul (f64_ceil_u64 (f64_div (f64_of_nat weight) (f64_of_nat 4))) fee_rate)"

definition redeem_script_to_script_sig :: "bitcoin_api \<Rightarrow> script \<Rightarrow> (script, 'e) res" where
  "redeem_script_to_script_sig api redeem =
     (if length redeem = 0 then Ok [] else unwrap (new_v0_witness_program api redeem))"

definition order_by_serial_ids :: "'a list \<Rightarrow> nat list \<Rightarrow> ('a list, 'e) res" where
  "order_by_serial_ids inputs ids =
     and_then (assert_that (length inputs = length ids)) (\<lambda>_.
       Ok (map snd (sort_key fst (zip ids inputs))))"

definition get_output_for_script_pubkey :: "transaction \<Rightarrow> script \<Rightarrow> (nat \<times> tx_out) option" where
  "get_output_for_script_pubkey tx spk =
     find (\<lambda>(_, x). script_pubkey x = spk) (enumerate 0 (tx_output tx))"

definition discard_dust :: "tx_out list \<Rightarrow> nat \<Rightarrow> tx_out list" where
  "discard_dust txs dust_limit = filter (\<lambda>x. dust_limit \<le> out_value x) txs"

definition validate_fee_rate :: "nat \<Rightarrow> (unit, dlc_error) res" where
  "validate_fee_rate fee_rate_per_vb =
     (if 25 * 250 < fee_rate_per_vb then Err InvalidArgument else Ok ())"

section \<open>Facts\<close>

lemma f64_quarter:
  assumes "w < 2 ^ 53"
  shows "f64_div (f64_of_nat w) (f64_of_nat 4) = of_nat w / 4"
proof (cases "w = 0")
  case True
  then show ?thesis by (simp add: f64_div_def f64_of_nat_def f64_round_def)
next
  case False
  have "f64_of_nat w = of_nat w" "f64_of_nat 4 = 4"
    using assms f64_of_nat_exact [of w] f64_of_nat_exact [of 4] by simp_all
  moreover have "f64_round (of_nat w / 4) = of_nat w / 4"
    using f64_round_exact [of "of_nat w / 4" "int w" "-2"] False assms
    by (simp add: power_int_minus field_simps)
  ultimately show ?thesis by (simp add: f64_div_def)
qed

lemma ceil_quarter: "nat \<lceil>of_nat w / 4 :: rat\<rceil> = (w + 3) div 4"
proof -
  have "\<lceil>of_nat w / 4 :: rat\<rceil> = int ((w + 3) div 4)"
  proof (rule ceiling_unique)
    define q where "q = (w + 3) div 4"
    have q: "q * 4 \<le> w + 3" "w < q * 4 + 1" unfolding q_def by linarith+
    have "of_nat (q * 4) \<le> (of_nat (w + 3) :: rat)" "of_nat (w + 1) \<le> (of_nat (q * 4 + 1) :: rat)"
      using q by (simp_all only: of_nat_le_iff)
    then show "of_int (int ((w + 3) div 4)) - 1 < (of_nat w / 4 :: rat)"
      "of_nat w / 4 \<le> (of_int (int ((w + 3) div 4)) :: rat)"
      unfolding q_def [symmetric] by simp_all
  qed
  then show ?thesis by simp
qed

text \<open>The fee of a weight is the number of virtual bytes, rounded up, times the rate.\<close>

lemma weight_to_fee_eq:
  assumes "w < 2 ^ 53"
  shows "weight_to_fee w r =
    (if (w + 3) div 4 * r < usize_bound then Ok ((w + 3) div 4 * r) else Err InvalidArgument)"
proof -
  have "(w + 3) div 4 \<le> usize_bound - 1"
    using assms by (intro order_trans [OF div_le_dividend]) simp
  then have "f64_ceil_u64 (f64_div (f64_of_nat w) (f64_of_nat 4)) = (w + 3) div 4"
    using ceil_quarter [of w] by (simp add: f64_quarter [OF assms] f64_ceil_u64_def)
  then show ?thesis by (simp add: weight_to_fee_def checked_mul_def)
qed

lemma weight_to_fee_neq_Panic [simp]: "weight_to_fee w r \<noteq> Panic"
  by (auto simp: weight_to_fee_def checked_mul_def)

lemma sum_list_filter_dust:
  "sum_list (map out_value (discard_dust os d)) \<le> sum_list (map out_value os)"
  by (induction os) (auto simp: discard_dust_def)

lemma sum_list_dust_bound:
  "sum_list (map out_value os) \<le> sum_list (map out_value (discard_dust os d)) + length os * (d - 1)"
  by (induction os) (auto simp: discard_dust_def)

lemma set_discard_dust [simp]: "set (discard_dust os d) = {x \<in> set os. d \<le> out_value x}"
  by (auto simp: discard_dust_def)

text \<open>Ordering by serial ids is a stable sort of the pairs of an id and an element.\<close>

lemma order_by_serial_ids_sorted:
  assumes "order_by_serial_ids xs ids = Ok ys"
  shows "\<exists>ps. mset ps = mset (zip ids xs) \<and> sorted (map fst ps) \<and> ys = map snd ps \<and> length ids = length xs"
  using assms by (intro exI [of _ "sort_key fst (zip ids xs)"]) (auto simp: order_by_serial_ids_def res_simps)

lemma mset_order_by_serial_ids:
  assumes "order_by_serial_ids xs ids = Ok ys"
  shows "mset ys = mset xs"
proof -
  obtain ps where ps: "mset ps = mset (zip ids xs)" "ys = map snd ps" "length ids = length xs"
    using order_by_serial_ids_sorted [OF assms] by blast
  have "mset ys = image_mset snd (mset (zip ids xs))" unfolding ps(2) mset_map ps(1) ..
  also have "\<dots> = mset xs" using ps(3) by (metis map_snd_zip mset_map)
  finally show ?thesis .
qed

lemma order_by_serial_ids_Ok: "length xs = length ids \<Longrightarrow> \<exists>ys. order_by_serial_ids xs ids = Ok ys"
  by (simp add: order_by_serial_ids_def)

lemma find_enumerate:
  "find (\<lambda>(_, x). P x) (enumerate n xs) = Some (i, x) \<Longrightarrow>
   n \<le> i \<and> i < n + length xs \<and> xs ! (i - n) = x \<and> P x"
  by (induction xs arbitrary: n) (fastforce simp: nth_Cons' split: if_splits)+

lemma find_enumerate_None:
  "find (\<lambda>(_, x). P x) (enumerate n xs) = None \<longleftrightarrow> (\<forall>x\<in>set xs. \<not> P x)"
  by (induction xs arbitrary: n) auto

lemma get_output_Some:
  "get_output_for_script_pubkey tx spk = Some (i, out) \<Longrightarrow>
   i < length (tx_output tx) \<and> tx_output tx ! i = out \<and> script_pubkey out = spk"
  unfolding get_output_for_script_pubkey_def by (drule find_enumerate) simp

lemma get_output_None:
  "get_output_for_script_pubkey tx spk = None \<longleftrightarrow> (\<forall>x\<in>set (tx_output tx). script_pubkey x \<noteq> spk)"
  unfolding get_output_for_script_pubkey_def by (rule find_enumerate_None)

end
