(* ===== verification/Dlc_Transactions.thy ===== *)
theory Dlc_Transactions
  imports Bitcoin_Types Payout_Types "HOL-Library.Word"
begin

text \<open>
  \<open>dlc/src/lib.rs\<close> and the data of \<open>dlc/src/dlc_input.rs\<close>: the fund transaction with the
  fees and the change of both parties, the contract execution transactions (CETs) and the
  refund transaction.  The lemmas follow the money: what the fund output holds, what the
  transactions spend, and what is left to the miners.
\<close>

unbundle bit_operations_syntax

section \<open>Data\<close>

definition DUST_LIMIT :: nat where "DUST_LIMIT = 1000"
definition TX_VERSION :: nat where "TX_VERSION = 2"
definition FUND_TX_BASE_WEIGHT :: nat where "FUND_TX_BASE_WEIGHT = 214"
definition CET_BASE_WEIGHT :: nat where "CET_BASE_WEIGHT = 500"
definition TX_INPUT_BASE_WEIGHT :: nat where "TX_INPUT_BASE_WEIGHT = 164"
definition P2WPKH_WITNESS_SIZE :: nat where "P2WPKH_WITNESS_SIZE = 108"
definition REFUND_TO_ACCEPTER_FLAG :: nat where "REFUND_TO_ACCEPTER_FLAG = 1"

record tx_input_info =
  ti_outpoint :: out_point
  ti_max_witness_len :: nat
  ti_redeem_script :: script
  ti_serial_id :: nat

record dlc_input_info =
  di_fund_tx :: transaction
  di_fund_vout :: nat
  di_local_fund_pubkey :: pubkey
  di_remote_fund_pubkey :: pubkey
  di_fund_amount :: nat
  di_max_witness_len :: nat
  di_input_serial_id :: nat
  di_contract_id :: bytes

record party_params =
  fund_pubkey :: pubkey
  change_script_pubkey :: script
  change_serial_id :: nat
  payout_script_pubkey :: script
  payout_serial_id :: nat
  pp_inputs :: "tx_input_info list"
  dlc_inputs :: "dlc_input_info list"
  input_amount :: nat
  collateral :: nat

record dlc_transactions =
  dlc_fund :: transaction
  dlc_cets :: "transaction list"
  dlc_refund :: transaction
  funding_witness_script :: script
  pending_close_txs :: "transaction list"

definition dlc_input_to_tx_input :: "bitcoin_api \<Rightarrow> dlc_input_info \<Rightarrow> tx_input_info" where
  "dlc_input_to_tx_input api val =
     \<lparr>ti_outpoint = \<lparr>op_txid = compute_txid api (di_fund_tx val), op_vout = di_fund_vout val\<rparr>,
      ti_max_witness_len = di_max_witness_len val, ti_redeem_script = [],
      ti_serial_id = di_input_serial_id val\<rparr>"

text \<open>The iterator's \<open>sum()\<close> adds from the left and panics on overflow.\<close>

definition usum :: "nat list \<Rightarrow> (nat, 'e) res" where
  "usum xs = fold_res (\<lambda>x s. uadd s x) xs 0"

definition get_dlc_inputs_weight :: "dlc_input_info list \<Rightarrow> (nat, 'e) res" where
  "get_dlc_inputs_weight inputs =
     and_then (traverse (\<lambda>i. uadd (36 * 4 + 4 + 4 * 4) (di_max_witness_len i)) inputs) usum"

definition calculate_total_dlc_input_amount :: "dlc_input_info list \<Rightarrow> (nat, 'e) res" where
  "calculate_total_dlc_input_amount inputs = usum (map di_fund_amount inputs)"

section \<open>Change and fees of a party\<close>

definition add_input_weight ::
  "bitcoin_api \<Rightarrow> tx_input_info \<Rightarrow> nat \<Rightarrow> (nat, dlc_error) res" where
  "add_input_weight api w inputs_weight =
     and_then (redeem_script_to_script_sig api (ti_redeem_script w)) (\<lambda>sig.
     and_then (ok_or InvalidArgument (checked_mul (length sig) 4)) (\<lambda>script_weight.
       checked_add4 inputs_weight TX_INPUT_BASE_WEIGHT script_weight (ti_max_witness_len w)))"

definition get_change_output_and_fees ::
  "bitcoin_api \<Rightarrow> party_params \<Rightarrow> nat \<Rightarrow> nat \<Rightarrow> nat \<Rightarrow> (tx_out \<times> nat \<times> nat, dlc_error) res" where
  "get_change_output_and_fees api params total_collateral fee_rate_per_vb extra_fee =
     (if collateral params = 0
      then Ok (\<lparr>out_value = 0, script_pubkey = change_script_pubkey params\<rparr>, 0, 0)
      else
        and_then (get_dlc_inputs_weight (dlc_inputs params)) (\<lambda>dlc_weight.
        and_then (fold_res (add_input_weight api) (pp_inputs params) dlc_weight) (\<lambda>inputs_weight.
        and_then (ok_or InvalidArgument (checked_mul (length (change_script_pubkey params)) 4)) (\<lambda>change_weight.
        let this_party_fund_base_weight =
              (if collateral params = total_collateral then FUND_TX_BASE_WEIGHT else FUND_TX_BASE_WEIGHT div 2) in
        and_then (checked_add4 this_party_fund_base_weight inputs_weight change_weight 36) (\<lambda>total_fund_weight.
        and_then (weight_to_fee total_fund_weight fee_rate_per_vb) (\<lambda>fund_fee.
        let this_party_cet_base_weight =
              (if collateral params = total_collateral then CET_BASE_WEIGHT else CET_BASE_WEIGHT div 2) in
        and_then (ok_or InvalidArgument (checked_mul (length (payout_script_pubkey params)) 4)) (\<lambda>output_spk_weight.
        and_then (checked_add2 this_party_cet_base_weight output_spk_weight) (\<lambda>total_cet_weight.
        and_then (weight_to_fee total_cet_weight fee_rate_per_vb) (\<lambda>cet_or_refund_fee.
        and_then (checked_add4 (collateral params) fund_fee cet_or_refund_fee extra_fee) (\<lambda>required_input_funds.
          if input_amount params < required_input_funds then Err InvalidArgument
          else Ok (\<lparr>out_value = input_amount params - required_input_funds,
                     script_pubkey = change_script_pubkey params\<rparr>, fund_fee, cet_or_refund_fee)))))))))))"

definition get_unsigned_tx_inputs_and_serial_ids ::
  "bitcoin_api \<Rightarrow> party_params \<Rightarrow> nat \<Rightarrow> (tx_in list \<times> nat list, 'e) res" where
  "get_unsigned_tx_inputs_and_serial_ids api params sequence =
     and_then (traverse (\<lambda>input.
         and_then (redeem_script_to_script_sig api (ti_redeem_script input)) (\<lambda>sig.
           Ok \<lparr>previous_output = ti_outpoint input, script_sig = sig, tx_sequence = sequence,
               tx_witness = []\<rparr>)) (pp_inputs params)) (\<lambda>tx_ins.
       Ok (tx_ins, map ti_serial_id (pp_inputs params)))"

section \<open>The fund transaction\<close>

text \<open>\<open>a <= b\<close> on public keys, and the script builder's bytes.\<close>

fun bytes_le :: "bytes \<Rightarrow> bytes \<Rightarrow> bool" where
  "bytes_le [] ys = True"
| "bytes_le (x # xs) [] = False"
| "bytes_le (x # xs) (y # ys) = (x < y \<or> (x = y \<and> bytes_le xs ys))"

definition OP_PUSHNUM_2 :: nat where "OP_PUSHNUM_2 = 82"
definition OP_CHECKMULTISIG :: nat where "OP_CHECKMULTISIG = 174"

text \<open>\<open>push_slice\<close> of a slice of less than 76 bytes: its length and its bytes.\<close>

definition push_slice :: "bytes \<Rightarrow> bytes" where
  "push_slice b = length b # b"

definition make_funding_redeemscript :: "pubkey \<Rightarrow> pubkey \<Rightarrow> script" where
  "make_funding_redeemscript a b =
     (let (first, second) = (if bytes_le a b then (a, b) else (b, a))
      in [OP_PUSHNUM_2] @ push_slice first @ push_slice second @ [OP_PUSHNUM_2, OP_CHECKMULTISIG])"

definition create_funding_transaction ::
  "bitcoin_api \<Rightarrow> script \<Rightarrow> nat \<Rightarrow> tx_in list \<Rightarrow> nat list \<Rightarrow> tx_in list \<Rightarrow> nat list
    \<Rightarrow> tx_out \<Rightarrow> nat \<Rightarrow> tx_out \<Rightarrow> nat \<Rightarrow> nat \<Rightarrow> nat \<Rightarrow> (transaction, 'e) res" where
  "create_funding_transaction api witness_script output_amount offer_inputs offer_inputs_serial_ids
     accept_inputs accept_inputs_serial_ids offer_change_output offer_change_serial_id
     accept_change_output accept_change_serial_id fund_output_serial_id lock_time =
     (let fund_tx_out = \<lparr>out_value = output_amount, script_pubkey = to_p2wsh api witness_script\<rparr>;
          serial_ids = [fund_output_serial_id, offer_change_serial_id, accept_change_serial_id] in
      and_then (order_by_serial_ids [fund_tx_out, offer_change_output, accept_change_output] serial_ids) (\<lambda>outs.
      let output = discard_dust outs DUST_LIMIT in
      and_then (order_by_serial_ids (offer_inputs @ accept_inputs)
                 (offer_inputs_serial_ids @ accept_inputs_serial_ids)) (\<lambda>input.
        Ok \<lparr>tx_version = TX_VERSION, tx_lock_time = lock_time, tx_input = input, tx_output = output\<rparr>)))"

definition create_fund_transaction_with_fees ::
  "bitcoin_api \<Rightarrow> party_params \<Rightarrow> party_params \<Rightarrow> nat \<Rightarrow> nat \<Rightarrow> nat \<Rightarrow> nat
    \<Rightarrow> (transaction \<times> script, dlc_error) res" where
  "create_fund_transaction_with_fees api offer_params accept_params fee_rate_per_vb fund_lock_time
     fund_output_serial_id extra_fee =
     and_then (checked_add2 (collateral offer_params) (collateral accept_params)) (\<lambda>total_collateral.
     and_then (get_change_output_and_fees api offer_params total_collateral fee_rate_per_vb extra_fee)
       (\<lambda>(offer_change_output, offer_fund_fee, offer_cet_fee).
     and_then (get_change_output_and_fees api accept_params total_collateral fee_rate_per_vb extra_fee)
       (\<lambda>(accept_change_output, accept_fund_fee, accept_cet_fee).
     and_then (checked_add2 (input_amount offer_params) (input_amount accept_params)) (\<lambda>v0.
     and_then (usub v0 (out_value offer_change_output)) (\<lambda>v1.
     and_then (usub v1 (out_value accept_change_output)) (\<lambda>v2.
     and_then (usub v2 offer_fund_fee) (\<lambda>v3.
     and_then (usub v3 accept_fund_fee) (\<lambda>v4.
     and_then (usub v4 extra_fee) (\<lambda>fund_output_value.
     and_then (uadd total_collateral offer_cet_fee) (\<lambda>a1.
     and_then (uadd a1 accept_cet_fee) (\<lambda>a2.
     and_then (uadd a2 extra_fee) (\<lambda>a3.
     and_then (assert_that (a3 = fund_output_value)) (\<lambda>_.
     and_then (uadd (input_amount offer_params) (input_amount accept_params)) (\<lambda>l.
     and_then (uadd fund_output_value (out_value offer_change_output)) (\<lambda>b1.
     and_then (uadd b1 (out_value accept_change_output)) (\<lambda>b2.
     and_then (uadd b2 offer_fund_fee) (\<lambda>b3.
     and_then (uadd b3 accept_fund_fee) (\<lambda>b4.
     and_then (uadd b4 extra_fee) (\<lambda>b5.
     and_then (assert_that (l = b5)) (\<lambda>_.
     let fund_sequence = get_sequence fund_lock_time in
     and_then (get_unsigned_tx_inputs_and_serial_ids api offer_params fund_sequence) (\<lambda>(offer_tx_ins, offer_ids).
     and_then (get_unsigned_tx_inputs_and_serial_ids api accept_params fund_sequence) (\<lambda>(accept_tx_ins, accept_ids).
     let witness_script = make_funding_redeemscript (fund_pubkey offer_params) (fund_pubkey accept_params) in
     and_then (create_funding_transaction api witness_script fund_output_value offer_tx_ins offer_ids
                accept_tx_ins accept_ids offer_change_output (change_serial_id offer_params)
                accept_change_output (change_serial_id accept_params) fund_output_serial_id fund_lock_time)
       (\<lambda>fund_tx. Ok (fund_tx, witness_script))))))))))))))))))))))))"

section \<open>Contract execution and refund transactions\<close>

definition create_cet :: "tx_out \<Rightarrow> nat \<Rightarrow> tx_out \<Rightarrow> nat \<Rightarrow> tx_in \<Rightarrow> nat \<Rightarrow> transaction" where
  "create_cet offer_output offer_payout_serial_id accept_output accept_payout_serial_id fund_tx_in lock_time =
     (let output = (if offer_payout_serial_id < accept_payout_serial_id
                    then [offer_output, accept_output] else [accept_output, offer_output])
      in \<lparr>tx_version = TX_VERSION, tx_lock_time = lock_time, tx_input = [fund_tx_in],
          tx_output = discard_dust output DUST_LIMIT\<rparr>)"

definition create_cets ::
  "tx_in \<Rightarrow> script \<Rightarrow> nat \<Rightarrow> script \<Rightarrow> nat \<Rightarrow> payout list \<Rightarrow> nat \<Rightarrow> transaction list" where
  "create_cets fund_tx_input offer_spk offer_serial_id accept_spk accept_serial_id payouts lock_time =
     map (\<lambda>p. create_cet \<lparr>out_value = offer p, script_pubkey = offer_spk\<rparr> offer_serial_id
                \<lparr>out_value = accept p, script_pubkey = accept_spk\<rparr> accept_serial_id fund_tx_input lock_time) payouts"

definition create_refund_transaction :: "tx_out \<Rightarrow> tx_out \<Rightarrow> tx_in \<Rightarrow> nat \<Rightarrow> transaction" where
  "create_refund_transaction offer_output accept_output funding_input locktime =
     \<lparr>tx_version = TX_VERSION, tx_lock_time = locktime, tx_input = [funding_input],
      tx_output = discard_dust [offer_output, accept_output] DUST_LIMIT\<rparr>"

definition create_cets_and_refund_tx ::
  "party_params \<Rightarrow> party_params \<Rightarrow> out_point \<Rightarrow> payout list \<Rightarrow> nat \<Rightarrow> nat \<Rightarrow> nat option \<Rightarrow> nat
    \<Rightarrow> (transaction list \<times> transaction, dlc_error) res" where
  "create_cets_and_refund_tx offer_params accept_params prev_outpoint payouts refund_lock_time
     cet_lock_time cet_nsequence contract_flags =
     and_then (checked_add2 (collateral offer_params) (collateral accept_params)) (\<lambda>total_collateral.
       if \<not> list_all (\<lambda>o'. case checked_add2 (offer o') (accept o') of
                            Ok t \<Rightarrow> t = total_collateral | _ \<Rightarrow> False) payouts
       then Err InvalidArgument
       else
         (let cet_input = \<lparr>previous_output = prev_outpoint, script_sig = [],
                tx_sequence = (case cet_nsequence of Some q \<Rightarrow> q | None \<Rightarrow> get_sequence cet_lock_time),
                tx_witness = []\<rparr>;
              cets = create_cets cet_input (payout_script_pubkey offer_params) (payout_serial_id offer_params)
                (payout_script_pubkey accept_params) (payout_serial_id accept_params) payouts cet_lock_time;
              (offer_refund_value, accept_refund_value) =
                (if contract_flags AND REFUND_TO_ACCEPTER_FLAG \<noteq> 0 then (0, total_collateral)
                 else (collateral offer_params, collateral accept_params));
              refund_input = \<lparr>previous_output = prev_outpoint, script_sig = [],
                tx_sequence = ENABLE_LOCKTIME, tx_witness = []\<rparr>
          in Ok (cets, create_refund_transaction
                \<lparr>out_value = offer_refund_value, script_pubkey = payout_script_pubkey offer_params\<rparr>
                \<lparr>out_value = accept_refund_value, script_pubkey = payout_script_pubkey accept_params\<rparr>
                refund_input refund_lock_time)))"

section \<open>All transactions of a contract\<close>

definition create_dlc_transactions ::
  "bitcoin_api \<Rightarrow> party_params \<Rightarrow> party_params \<Rightarrow> payout list \<Rightarrow> nat \<Rightarrow> nat \<Rightarrow> nat \<Rightarrow> nat \<Rightarrow> nat \<Rightarrow> nat
    \<Rightarrow> (dlc_transactions, dlc_error) res" where
  "create_dlc_transactions api offer_params accept_params payouts refund_lock_time fee_rate_per_vb
     fund_lock_time cet_lock_time fund_output_serial_id contract_flags =
     and_then (create_fund_transaction_with_fees api offer_params accept_params fee_rate_per_vb
                fund_lock_time fund_output_serial_id 0) (\<lambda>(fund_tx, witness_script).
     and_then (unwrap (get_output_for_script_pubkey fund_tx (to_p2wsh api witness_script))) (\<lambda>(vout, _).
     let fund_outpoint = \<lparr>op_txid = compute_txid api fund_tx, op_vout = as_u32 vout\<rparr> in
     and_then (create_cets_and_refund_tx offer_params accept_params fund_outpoint payouts refund_lock_time
                cet_lock_time None contract_flags) (\<lambda>(cets, refund_tx).
       Ok \<lparr>dlc_fund = fund_tx, dlc_cets = cets, dlc_refund = refund_tx,
           funding_witness_script = witness_script, pending_close_txs = []\<rparr>)))"

definition spliced_params :: "bitcoin_api \<Rightarrow> party_params \<Rightarrow> party_params" where
  "spliced_params api params =
     params\<lparr>pp_inputs := filter (\<lambda>i. ti_max_witness_len i \<le> 108) (pp_inputs params) @
               map (dlc_input_to_tx_input api) (dlc_inputs params),
            dlc_inputs := []\<rparr>"

definition create_spliced_dlc_transactions ::
  "bitcoin_api \<Rightarrow> party_params \<Rightarrow> party_params \<Rightarrow> payout list \<Rightarrow> nat \<Rightarrow> nat \<Rightarrow> nat \<Rightarrow> nat \<Rightarrow> nat \<Rightarrow> nat
    \<Rightarrow> (dlc_transactions, dlc_error) res" where
  "create_spliced_dlc_transactions api offer_params accept_params =
     create_dlc_transactions api (spliced_params api offer_params) (spliced_params api accept_params)"

text \<open>Accessors of the transactions of a contract.\<close>

definition get_fund_output :: "bitcoin_api \<Rightarrow> dlc_transactions \<Rightarrow> (tx_out, 'e) res" where
  "get_fund_output api txs =
     and_then (unwrap (get_output_for_script_pubkey (dlc_fund txs) (to_p2wsh api (funding_witness_script txs))))
       (\<lambda>(_, out). Ok out)"

definition get_fund_output_index :: "bitcoin_api \<Rightarrow> dlc_transactions \<Rightarrow> (nat, 'e) res" where
  "get_fund_output_index api txs =
     and_then (unwrap (get_output_for_script_pubkey (dlc_fund txs) (to_p2wsh api (funding_witness_script txs))))
       (\<lambda>(i, _). Ok i)"

definition get_fund_outpoint :: "bitcoin_api \<Rightarrow> dlc_transactions \<Rightarrow> (out_point, 'e) res" where
  "get_fund_outpoint api txs =
     and_then (get_fund_output_index api txs) (\<lambda>i.
       Ok \<lparr>op_txid = compute_txid api (dlc_fund txs), op_vout = as_u32 i\<rparr>)"

section \<open>The funding script\<close>

lemma bytes_le_refl [simp]: "bytes_le a a"
  by (induction a) auto

lemma bytes_le_total: "bytes_le a b \<or> bytes_le b a"
  by (induction a b rule: bytes_le.induct) auto

lemma bytes_le_antisym: "bytes_le a b \<Longrightarrow> bytes_le b a \<Longrightarrow> a = b"
  by (induction a b rule: bytes_le.induct) (auto elim: bytes_le.elims)

lemma make_funding_redeemscript_commute:
  "make_funding_redeemscript a b = make_funding_redeemscript b a"
  using bytes_le_antisym [of a b] bytes_le_total [of a b] by (auto simp: make_funding_redeemscript_def)

lemma make_funding_redeemscript_inject:
  assumes "length a = 33" "length b = 33" "length c = 33" "length d = 33"
  shows "make_funding_redeemscript a b = make_funding_redeemscript c d \<longleftrightarrow> {a, b} = {c, d}"
proof
  assume "make_funding_redeemscript a b = make_funding_redeemscript c d"
  then show "{a, b} = {c, d}"
    using assms by (auto simp: make_funding_redeemscript_def push_slice_def split: if_splits)
next
  assume "{a, b} = {c, d}"
  then have "a = c \<and> b = d \<or> a = d \<and> b = c" by (auto simp: doubleton_eq_iff)
  then show "make_funding_redeemscript a b = make_funding_redeemscript c d"
    using make_funding_redeemscript_commute by auto
qed

section \<open>Change and fees\<close>

lemma change_zero_collateral:
  "collateral p = 0 \<Longrightarrow> get_change_output_and_fees api p tc r e =
     Ok (\<lparr>out_value = 0, script_pubkey = change_script_pubkey p\<rparr>, 0, 0)"
  by (simp add: get_change_output_and_fees_def)

text \<open>A party that funds gets back what its inputs hold beyond its collateral and fees.\<close>

lemma change_Ok:
  assumes "get_change_output_and_fees api p tc r e = Ok (out, fund_fee, cet_fee)" "collateral p \<noteq> 0"
  shows "input_amount p = out_value out + collateral p + fund_fee + cet_fee + e \<and>
    script_pubkey out = change_script_pubkey p \<and> collateral p + fund_fee + cet_fee + e < usize_bound"
  using assms by (auto simp: get_change_output_and_fees_def res_simps Let_def split: if_splits)

lemma change_script:
  "get_change_output_and_fees api p tc r e = Ok (out, fund_fee, cet_fee) \<Longrightarrow>
   script_pubkey out = change_script_pubkey p"
  using change_Ok [of api p tc r e out fund_fee cet_fee] change_zero_collateral [of p api tc r e]
  by (cases "collateral p = 0") auto

section \<open>The fund transaction\<close>

lemma fund_helpers_neq_Err [simp]:
  "redeem_script_to_script_sig api rs \<noteq> Err e"
  "order_by_serial_ids xs ids \<noteq> Err e"
  "get_unsigned_tx_inputs_and_serial_ids api p sq \<noteq> Err e"
  "create_funding_transaction api ws v oi oids ai aids oc ocs ac acs fs lt \<noteq> Err e"
proof -
  show r: "redeem_script_to_script_sig api rs \<noteq> Err e" for rs
    by (cases "new_v0_witness_program api rs") (simp_all add: redeem_script_to_script_sig_def)
  show o': "order_by_serial_ids xs ids \<noteq> Err e" for xs :: "'x list" and ids
    by (simp add: order_by_serial_ids_def res_simps)
  show "get_unsigned_tx_inputs_and_serial_ids api p sq \<noteq> Err e"
    by (auto simp: get_unsigned_tx_inputs_and_serial_ids_def res_simps dest!: traverse_Err)
       (simp add: redeem_script_to_script_sig_def unwrap_def split: if_splits option.splits)
  show "create_funding_transaction api ws v oi oids ai aids oc ocs ac acs fs lt \<noteq> Err e"
    by (auto simp: create_funding_transaction_def res_simps Let_def order_by_serial_ids_def)
qed

lemma unsigned_inputs_Ok:
  assumes "get_unsigned_tx_inputs_and_serial_ids api p sq = Ok (ins, ids)"
  shows "map previous_output ins = map ti_outpoint (pp_inputs p) \<and> ids = map ti_serial_id (pp_inputs p) \<and>
    (\<forall>i\<in>set ins. tx_sequence i = sq \<and> tx_witness i = [])"
proof -
  from assms have l: "list_all2 (\<lambda>input t. \<exists>sig. redeem_script_to_script_sig api (ti_redeem_script input) = (Ok sig :: (_, 'a) res) \<and>
      t = \<lparr>previous_output = ti_outpoint input, script_sig = sig, tx_sequence = sq, tx_witness = []\<rparr>)
      (pp_inputs p) ins" and ids: "ids = map ti_serial_id (pp_inputs p)"
    by (auto simp: get_unsigned_tx_inputs_and_serial_ids_def res_simps traverse_Ok_iff elim!: list_all2_mono)
  from l have "map previous_output ins = map ti_outpoint (pp_inputs p) \<and>
      (\<forall>i\<in>set ins. tx_sequence i = sq \<and> tx_witness i = [])"
    by (induction rule: list_all2_induct) auto
  with ids show ?thesis by blast
qed

lemma create_funding_transaction_Ok:
  assumes "create_funding_transaction api ws v oi oids ai aids oc ocs ac acs fs lt = Ok tx"
  shows "\<exists>ps. mset ps = {#(fs, \<lparr>out_value = v, script_pubkey = to_p2wsh api ws\<rparr>), (ocs, oc), (acs, ac)#} \<and>
    sorted (map fst ps) \<and> tx_output tx = discard_dust (map snd ps) DUST_LIMIT \<and>
    mset (tx_input tx) = mset (oi @ ai) \<and> tx_lock_time tx = lt"
proof -
  obtain outs ins where o: "order_by_serial_ids [\<lparr>out_value = v, script_pubkey = to_p2wsh api ws\<rparr>, oc, ac] [fs, ocs, acs] =
      (Ok outs :: (_, 'a) res)"
    and i: "order_by_serial_ids (oi @ ai) (oids @ aids) = (Ok ins :: (_, 'a) res)"
    and tx: "tx = \<lparr>tx_version = TX_VERSION, tx_lock_time = lt, tx_input = ins, tx_output = discard_dust outs DUST_LIMIT\<rparr>"
    using assms by (auto simp: create_funding_transaction_def res_simps Let_def)
  obtain ps where "mset ps = mset (zip [fs, ocs, acs] [\<lparr>out_value = v, script_pubkey = to_p2wsh api ws\<rparr>, oc, ac])"
    "sorted (map fst ps)" "outs = map snd ps"
    using order_by_serial_ids_sorted [OF o] by blast
  then show ?thesis using mset_order_by_serial_ids [OF i] by (intro exI [of _ ps]) (simp add: tx)
qed

text \<open>What a successful call has computed.\<close>

lemma create_fund_transaction_Ok:
  assumes "create_fund_transaction_with_fees api o' a r lt fs e = Ok (tx, ws)"
  shows "\<exists>oc off ocf ac aff acf.
    get_change_output_and_fees api o' (collateral o' + collateral a) r e = Ok (oc, off, ocf) \<and>
    get_change_output_and_fees api a (collateral o' + collateral a) r e = Ok (ac, aff, acf) \<and>
    ws = make_funding_redeemscript (fund_pubkey o') (fund_pubkey a) \<and>
    input_amount o' + input_amount a =
      collateral o' + collateral a + ocf + acf + e + out_value oc + out_value ac + off + aff + e \<and>
    mset (map previous_output (tx_input tx)) = mset (map ti_outpoint (pp_inputs o' @ pp_inputs a)) \<and>
    tx_lock_time tx = lt \<and>
    (\<exists>ps. mset ps = {#(fs, \<lparr>out_value = collateral o' + collateral a + ocf + acf + e, script_pubkey = to_p2wsh api ws\<rparr>),
        (change_serial_id o', oc), (change_serial_id a, ac)#} \<and>
      sorted (map fst ps) \<and> tx_output tx = discard_dust (map snd ps) DUST_LIMIT)"
proof -
  let ?tc = "collateral o' + collateral a"
  obtain oc off ocf ac aff acf oi oids ai aids where c:
    "get_change_output_and_fees api o' ?tc r e = Ok (oc, off, ocf)"
    "get_change_output_and_fees api a ?tc r e = Ok (ac, aff, acf)"
    "input_amount o' + input_amount a =
      ?tc + ocf + acf + e + out_value oc + out_value ac + off + aff + e"
    "get_unsigned_tx_inputs_and_serial_ids api o' (get_sequence lt) = (Ok (oi, oids) :: (_, dlc_error) res)"
    "get_unsigned_tx_inputs_and_serial_ids api a (get_sequence lt) = (Ok (ai, aids) :: (_, dlc_error) res)"
    "ws = make_funding_redeemscript (fund_pubkey o') (fund_pubkey a)"
    "create_funding_transaction api ws (?tc + ocf + acf + e) oi oids ai aids oc (change_serial_id o')
       ac (change_serial_id a) fs lt = (Ok tx :: (_, dlc_error) res)"
  proof -
    show thesis
      using assms
      unfolding create_fund_transaction_with_fees_def and_then_eq_Ok split_paired_Ex prod.case Let_def
        checked_add_Ok usub_eq_Ok_add uadd_eq_Ok assert_that_simps prod.inject res.inject
      apply (elim exE conjE)
      apply hypsubst
      apply (rule that, assumption, assumption, linarith, assumption, assumption, assumption)
      apply simp
      done
  qed
  have "mset (map previous_output (tx_input tx)) = image_mset previous_output (mset (oi @ ai))"
    using create_funding_transaction_Ok [OF c(7)] by (metis mset_map)
  also have "\<dots> = mset (map ti_outpoint (pp_inputs o' @ pp_inputs a))"
    using unsigned_inputs_Ok [OF c(4)] unsigned_inputs_Ok [OF c(5)] by (metis map_append mset_map)
  finally show ?thesis
    using c(1,2,3,6) create_funding_transaction_Ok [OF c(7)] by blast
qed

section \<open>Contract execution and refund transactions\<close>

lemma odd_flag: "contract_flags AND REFUND_TO_ACCEPTER_FLAG \<noteq> 0 \<longleftrightarrow> odd contract_flags" for contract_flags :: nat
  by (simp add: REFUND_TO_ACCEPTER_FLAG_def and_one_eq odd_iff_mod_2_eq_one)

lemma create_cets_and_refund_Ok_iff:
  "(\<exists>cets refund. create_cets_and_refund_tx o' a prev payouts rlt clt sq flags = Ok (cets, refund)) \<longleftrightarrow>
   collateral o' + collateral a < usize_bound \<and>
   (\<forall>p\<in>set payouts. offer p + accept p = collateral o' + collateral a)"
proof (cases "collateral o' + collateral a < usize_bound")
  case True
  have "(case checked_add2 (offer p) (accept p) of Ok t \<Rightarrow> t = collateral o' + collateral a | _ \<Rightarrow> False) \<longleftrightarrow>
      offer p + accept p = collateral o' + collateral a" for p
    using True by (auto simp: checked_add2_def checked_add_def)
  then have l: "list_all (\<lambda>p. case checked_add2 (offer p) (accept p) of Ok t \<Rightarrow> t = collateral o' + collateral a | _ \<Rightarrow> False)
      payouts \<longleftrightarrow> (\<forall>p\<in>set payouts. offer p + accept p = collateral o' + collateral a)"
    unfolding list_all_iff by (intro ball_cong refl)
  have c: "checked_add2 (collateral o') (collateral a) = Ok (collateral o' + collateral a)" using True by simp
  show ?thesis using True unfolding create_cets_and_refund_tx_def c and_then_simps l Let_def
    by (simp split: prod.splits)
next
  case False
  then show ?thesis by (simp add: create_cets_and_refund_tx_def res_simps)
qed

lemma create_cets_and_refund_Err:
  "create_cets_and_refund_tx o' a prev payouts rlt clt sq flags \<noteq> Panic"
  by (auto simp: create_cets_and_refund_tx_def res_simps Let_def split: if_splits prod.splits)

lemma create_cets_and_refund_Ok:
  assumes "create_cets_and_refund_tx o' a prev payouts rlt clt sq flags = Ok (cets, refund)"
  shows "cets = create_cets \<lparr>previous_output = prev, script_sig = [],
        tx_sequence = (case sq of Some q \<Rightarrow> q | None \<Rightarrow> get_sequence clt), tx_witness = []\<rparr>
      (payout_script_pubkey o') (payout_serial_id o') (payout_script_pubkey a) (payout_serial_id a) payouts clt \<and>
    refund = create_refund_transaction
      \<lparr>out_value = if odd flags then 0 else collateral o', script_pubkey = payout_script_pubkey o'\<rparr>
      \<lparr>out_value = if odd flags then collateral o' + collateral a else collateral a, script_pubkey = payout_script_pubkey a\<rparr>
      \<lparr>previous_output = prev, script_sig = [], tx_sequence = ENABLE_LOCKTIME, tx_witness = []\<rparr> rlt"
  using assms odd_flag [of flags]
  by (auto simp: create_cets_and_refund_tx_def res_simps Let_def split: if_splits)

text \<open>The outputs of a CET.\<close>

definition cet_outputs :: "party_params \<Rightarrow> party_params \<Rightarrow> payout \<Rightarrow> tx_out list" where
  "cet_outputs o' a p =
     (let oo = \<lparr>out_value = offer p, script_pubkey = payout_script_pubkey o'\<rparr>;
          ao = \<lparr>out_value = accept p, script_pubkey = payout_script_pubkey a\<rparr>
      in if payout_serial_id o' < payout_serial_id a then [oo, ao] else [ao, oo])"

lemma sum_cet_outputs: "sum_list (map out_value (cet_outputs o' a p)) = offer p + accept p"
  by (simp add: cet_outputs_def Let_def)

lemma create_cets_nth:
  fixes o' a :: party_params
  assumes "i < length payouts"
  shows "create_cets inp (payout_script_pubkey o') (payout_serial_id o') (payout_script_pubkey a) (payout_serial_id a) payouts lt ! i =
    \<lparr>tx_version = TX_VERSION, tx_lock_time = lt, tx_input = [inp],
     tx_output = discard_dust (cet_outputs o' a (payouts ! i)) DUST_LIMIT\<rparr>"
  using assms by (simp add: create_cets_def create_cet_def cet_outputs_def Let_def)

lemma sum_cet:
  fixes o' a :: party_params
  assumes "i < length payouts"
  shows "sum_list (map out_value (tx_output (create_cets inp (payout_script_pubkey o') (payout_serial_id o')
      (payout_script_pubkey a) (payout_serial_id a) payouts lt ! i))) \<le> offer (payouts ! i) + accept (payouts ! i)"
    and "offer (payouts ! i) + accept (payouts ! i) \<le> sum_list (map out_value (tx_output (create_cets inp
      (payout_script_pubkey o') (payout_serial_id o') (payout_script_pubkey a) (payout_serial_id a) payouts lt ! i))) + 1998"
  using sum_list_filter_dust [of "cet_outputs o' a (payouts ! i)" DUST_LIMIT]
    sum_list_dust_bound [of "cet_outputs o' a (payouts ! i)" DUST_LIMIT]
  by (simp_all add: create_cets_nth [OF assms] sum_cet_outputs)
     (simp add: cet_outputs_def Let_def DUST_LIMIT_def split: if_splits)

lemma cets_spend:
  assumes "create_cets_and_refund_tx o' a prev payouts rlt clt sq flags = Ok (cets, refund)"
  shows "(\<forall>tx\<in>set (refund # cets). map previous_output (tx_input tx) = [prev]) \<and>
    (\<forall>tx\<in>set cets. sum_list (map out_value (tx_output tx)) \<le> collateral o' + collateral a \<and>
      collateral o' + collateral a \<le> sum_list (map out_value (tx_output tx)) + 1998)"
proof -
  note cr = create_cets_and_refund_Ok [OF assms]
  have pay: "\<forall>p\<in>set payouts. offer p + accept p = collateral o' + collateral a"
    using assms create_cets_and_refund_Ok_iff [of o' a prev] by blast
  have "map previous_output (tx_input tx) = [prev] \<and>
      sum_list (map out_value (tx_output tx)) \<le> collateral o' + collateral a \<and>
      collateral o' + collateral a \<le> sum_list (map out_value (tx_output tx)) + 1998" if tx: "tx \<in> set cets" for tx
  proof -
    have "length cets = length payouts" using cr by (simp add: create_cets_def)
    moreover obtain i where "i < length cets" "cets ! i = tx" using tx unfolding in_set_conv_nth by blast
    ultimately have i: "i < length payouts" "tx = cets ! i" by simp_all
    have "offer (payouts ! i) + accept (payouts ! i) = collateral o' + collateral a" using pay i(1) by auto
    moreover have "sum_list (map out_value (tx_output tx)) \<le> offer (payouts ! i) + accept (payouts ! i)"
      "offer (payouts ! i) + accept (payouts ! i) \<le> sum_list (map out_value (tx_output tx)) + 1998"
      unfolding i(2) cr [THEN conjunct1] by (rule sum_cet [OF i(1)])+
    moreover have "map previous_output (tx_input tx) = [prev]"
      unfolding i(2) cr [THEN conjunct1] create_cets_nth [OF i(1)] by simp
    ultimately show ?thesis by simp
  qed
  moreover have "map previous_output (tx_input refund) = [prev]"
    using cr by (simp add: create_refund_transaction_def)
  ultimately show ?thesis by auto
qed

section \<open>All transactions\<close>

lemma create_dlc_transactions_Ok:
  assumes "create_dlc_transactions api o' a payouts rlt r flt clt fs flags = Ok d"
  shows "\<exists>tx ws out vout. create_fund_transaction_with_fees api o' a r flt fs 0 = Ok (tx, ws) \<and>
    get_output_for_script_pubkey tx (to_p2wsh api ws) = Some (vout, out) \<and>
    dlc_fund d = tx \<and> funding_witness_script d = ws \<and>
    create_cets_and_refund_tx o' a \<lparr>op_txid = compute_txid api tx, op_vout = as_u32 vout\<rparr> payouts rlt clt None flags
      = Ok (dlc_cets d, dlc_refund d)"
  using assms by (auto simp: create_dlc_transactions_def res_simps Let_def)

lemma fund_tx_outputs:
  assumes "create_fund_transaction_with_fees api o' a r lt fs e = Ok (tx, ws)"
  shows "length (tx_output tx) \<le> 3"
proof -
  obtain ps and x y z :: "nat \<times> tx_out" where ps: "mset ps = {#x, y, z#}"
    "tx_output tx = discard_dust (map snd ps) DUST_LIMIT"
    using create_fund_transaction_Ok [OF assms] by blast
  have "length ps = size (mset ps)" by simp
  then have "length ps = 3" unfolding ps(1) by simp
  then show ?thesis using length_filter_le [of _ "map snd ps"] ps(2) by (simp add: discard_dust_def)
qed

text \<open>The fund output is the only output of its script.\<close>

lemma fund_output_found:
  assumes "create_fund_transaction_with_fees api o' a r lt fs e = Ok (tx, ws)"
    and "get_output_for_script_pubkey tx (to_p2wsh api ws) = Some (vout, out)"
    and "to_p2wsh api ws \<notin> {change_script_pubkey o', change_script_pubkey a}"
  shows "\<exists>oc off ocf ac aff acf.
    get_change_output_and_fees api o' (collateral o' + collateral a) r e = Ok (oc, off, ocf) \<and>
    get_change_output_and_fees api a (collateral o' + collateral a) r e = Ok (ac, aff, acf) \<and>
    out = \<lparr>out_value = collateral o' + collateral a + ocf + acf + e, script_pubkey = to_p2wsh api ws\<rparr> \<and>
    DUST_LIMIT \<le> out_value out"
proof -
  obtain oc off ocf ac aff acf ps where f:
    "get_change_output_and_fees api o' (collateral o' + collateral a) r e = Ok (oc, off, ocf)"
    "get_change_output_and_fees api a (collateral o' + collateral a) r e = Ok (ac, aff, acf)"
    "mset ps = {#(fs, \<lparr>out_value = collateral o' + collateral a + ocf + acf + e, script_pubkey = to_p2wsh api ws\<rparr>),
        (change_serial_id o', oc), (change_serial_id a, ac)#}"
    "tx_output tx = discard_dust (map snd ps) DUST_LIMIT"
    using create_fund_transaction_Ok [OF assms(1)] by auto
  have "out \<in> set (tx_output tx)" "script_pubkey out = to_p2wsh api ws"
    using get_output_Some [OF assms(2)] by auto
  moreover have "set ps = set_mset (mset ps)" by simp
  ultimately have "out = \<lparr>out_value = collateral o' + collateral a + ocf + acf + e, script_pubkey = to_p2wsh api ws\<rparr>"
    "DUST_LIMIT \<le> out_value out"
    using f(4) change_script [OF f(1)] change_script [OF f(2)] assms(3) unfolding f(3) by auto
  with f(1,2) show ?thesis by blast
qed

section \<open>Properties\<close>

text \<open>A concrete pair of parties and a concrete \<open>bitcoin\<close> crate, for the instances below.\<close>

definition example_api :: bitcoin_api where
  "example_api = \<lparr>compute_txid = (\<lambda>tx. [length (tx_output tx)]), to_p2wsh = (\<lambda>s. 0 # s),
     new_v0_witness_program = (\<lambda>_. None)\<rparr>"

definition example_party :: "nat \<Rightarrow> nat \<Rightarrow> nat \<Rightarrow> party_params" where
  "example_party k amount coll =
     \<lparr>fund_pubkey = [k], change_script_pubkey = [k, 1], change_serial_id = k, payout_script_pubkey = [k, 2],
      payout_serial_id = k,
      pp_inputs = [\<lparr>ti_outpoint = \<lparr>op_txid = [k], op_vout = 0\<rparr>, ti_max_witness_len = 108,
        ti_redeem_script = [], ti_serial_id = k\<rparr>],
      dlc_inputs = [], input_amount = amount, collateral = coll\<rparr>"

lemmas example_defs = example_api_def example_party_def create_fund_transaction_with_fees_def
  get_change_output_and_fees_def get_dlc_inputs_weight_def usum_def add_input_weight_def
  redeem_script_to_script_sig_def checked_add4_def checked_add3_def checked_add2_def checked_add_def
  checked_mul_def TX_INPUT_BASE_WEIGHT_def FUND_TX_BASE_WEIGHT_def CET_BASE_WEIGHT_def weight_to_fee_eq
  uadd_def usub_def get_unsigned_tx_inputs_and_serial_ids_def create_funding_transaction_def
  order_by_serial_ids_def discard_dust_def DUST_LIMIT_def make_funding_redeemscript_def push_slice_def
  OP_PUSHNUM_2_def OP_CHECKMULTISIG_def Let_def

lemma example_fund:
  "\<exists>tx ws. create_fund_transaction_with_fees example_api (example_party 1 200000 100000)
     (example_party 2 150000 100000) 1 0 0 0 = Ok (tx, ws)"
  by (simp add: example_defs)

lemma sum_list_discard:
  "sum_list (map out_value outs) =
     sum_list (map out_value (discard_dust outs limit)) + sum_list (map out_value (filter (\<lambda>x. out_value x < limit) outs))"
  by (induction outs) (auto simp: discard_dust_def)

text \<open>
  C16. The fund transaction conserves value.  When it is built, its outputs are the fund
  output and the change outputs of the parties, less those below the dust limit; the fund
  output holds the total collateral, the CET fees and the extra fee; and what the inputs hold
  is the sum of its outputs, of those that were dropped as dust, the fund fees of both parties and, once more, the
  extra fee.  Without an extra fee and without dust these are the outputs and the fees of both parties.
\<close>

theorem fund_transaction_value:
  assumes "create_fund_transaction_with_fees api o' a r lt fs e = Ok (tx, ws)"
  shows "\<exists>oc off ocf ac aff acf outs.
    get_change_output_and_fees api o' (collateral o' + collateral a) r e = Ok (oc, off, ocf) \<and>
    get_change_output_and_fees api a (collateral o' + collateral a) r e = Ok (ac, aff, acf) \<and>
    mset outs = {#\<lparr>out_value = collateral o' + collateral a + ocf + acf + e, script_pubkey = to_p2wsh api ws\<rparr>, oc, ac#} \<and>
    tx_output tx = discard_dust outs DUST_LIMIT \<and>
    input_amount o' + input_amount a =
      sum_list (map out_value (tx_output tx)) + sum_list (map out_value (filter (\<lambda>x. out_value x < DUST_LIMIT) outs)) + off + aff + e"
proof -
  obtain oc off ocf ac aff acf ps where f:
    "get_change_output_and_fees api o' (collateral o' + collateral a) r e = Ok (oc, off, ocf)"
    "get_change_output_and_fees api a (collateral o' + collateral a) r e = Ok (ac, aff, acf)"
    "input_amount o' + input_amount a =
      collateral o' + collateral a + ocf + acf + e + out_value oc + out_value ac + off + aff + e"
    "mset ps = {#(fs, \<lparr>out_value = collateral o' + collateral a + ocf + acf + e, script_pubkey = to_p2wsh api ws\<rparr>),
        (change_serial_id o', oc), (change_serial_id a, ac)#}"
    "tx_output tx = discard_dust (map snd ps) DUST_LIMIT"
    using create_fund_transaction_Ok [OF assms] by blast
  define outs where "outs = map snd ps"
  have m: "mset outs = {#\<lparr>out_value = collateral o' + collateral a + ocf + acf + e, script_pubkey = to_p2wsh api ws\<rparr>, oc, ac#}"
    unfolding outs_def mset_map f(4) by simp
  have "sum_list (map out_value outs) = sum_mset (image_mset out_value (mset outs))"
    by (metis mset_map sum_mset_sum_list)
  then have v: "input_amount o' + input_amount a = sum_list (map out_value outs) + off + aff + e"
    using f(3) unfolding m by simp
  have o: "tx_output tx = discard_dust outs DUST_LIMIT" using f(5) by (simp add: outs_def)
  have "input_amount o' + input_amount a =
      sum_list (map out_value (tx_output tx)) + sum_list (map out_value (filter (\<lambda>x. out_value x < DUST_LIMIT) outs)) + off + aff + e"
    unfolding v o using sum_list_discard [of outs DUST_LIMIT] by simp
  with f(1,2) m o show ?thesis by blast
qed

lemma fund_transaction_value_witness:
  "\<exists>tx ws oc off ocf ac aff acf outs.
    create_fund_transaction_with_fees example_api (example_party 1 200000 100000)
      (example_party 2 150000 100000) 1 0 0 0 = Ok (tx, ws) \<and>
    get_change_output_and_fees example_api (example_party 1 200000 100000) 200000 1 0 = Ok (oc, off, ocf) \<and>
    get_change_output_and_fees example_api (example_party 2 150000 100000) 200000 1 0 = Ok (ac, aff, acf) \<and>
    mset outs = {#\<lparr>out_value = 200000 + ocf + acf + 0, script_pubkey = to_p2wsh example_api ws\<rparr>, oc, ac#} \<and>
    tx_output tx = discard_dust outs DUST_LIMIT \<and>
    350000 = sum_list (map out_value (tx_output tx)) + sum_list (map out_value (filter (\<lambda>x. out_value x < DUST_LIMIT) outs)) + off + aff + 0"
proof -
  have p: "collateral (example_party k x c) = c" "input_amount (example_party k x c) = x" for k x c
    by (simp_all add: example_party_def)
  obtain tx ws where "create_fund_transaction_with_fees example_api (example_party 1 200000 100000)
      (example_party 2 150000 100000) 1 0 0 0 = Ok (tx, ws)"
    using example_fund by blast
  moreover from fund_transaction_value [OF this, unfolded p]
  have "\<exists>oc off ocf ac aff acf outs.
    get_change_output_and_fees example_api (example_party 1 200000 100000) 200000 1 0 = Ok (oc, off, ocf) \<and>
    get_change_output_and_fees example_api (example_party 2 150000 100000) 200000 1 0 = Ok (ac, aff, acf) \<and>
    mset outs = {#\<lparr>out_value = 200000 + ocf + acf + 0, script_pubkey = to_p2wsh example_api ws\<rparr>, oc, ac#} \<and>
    tx_output tx = discard_dust outs DUST_LIMIT \<and>
    350000 = sum_list (map out_value (tx_output tx)) + sum_list (map out_value (filter (\<lambda>x. out_value x < DUST_LIMIT) outs)) + off + aff + 0" by simp
  ultimately show ?thesis by blast
qed

text \<open>
  A contract that one party funds alone works only if the other party brings exactly the
  extra fee: for a party without collateral the change and the fees are zero, so the assertion
  on the fund output fails, and the call panics, when its input amount is not the extra fee.  The
  extra fee is the fee of the channel transactions: a channel whose accepter has no collateral
  and no inputs cannot be funded.
\<close>

theorem single_funded_panics:
  assumes "collateral a = 0" "collateral o' \<noteq> 0"
    and "get_change_output_and_fees api o' (collateral o') r e = Ok (oc, off, ocf)"
    and "input_amount o' + input_amount a < 2 ^ 64" "input_amount a \<noteq> e"
  shows "create_fund_transaction_with_fees api o' a r lt fs e = Panic"
proof (cases "create_fund_transaction_with_fees api o' a r lt fs e")
  case (Ok p)
  obtain tx ws where p: "p = (tx, ws)" by (cases p)
  obtain oc' off' ocf' ac aff acf where f:
    "get_change_output_and_fees api o' (collateral o') r e = Ok (oc', off', ocf')"
    "get_change_output_and_fees api a (collateral o') r e = Ok (ac, aff, acf)"
    "input_amount o' + input_amount a =
      collateral o' + ocf' + acf + e + out_value oc' + out_value ac + off' + aff + e"
    using create_fund_transaction_Ok [OF Ok [unfolded p]] assms(1) by auto
  have "out_value ac = 0" "aff = 0" "acf = 0"
    using f(2) change_zero_collateral [OF assms(1), of api "collateral o'" r e] by auto
  then have "input_amount a = e" using f(3) change_Ok [OF f(1) assms(2)] by simp
  then show ?thesis using assms(5) by blast
next
  case (Err e')
  have "collateral o' < usize_bound" using change_Ok [OF assms(3,2)] by linarith
  then have t: "checked_add2 (collateral o') (collateral a) = Ok (collateral o')"
    "checked_add2 (input_amount o') (input_amount a) = Ok (input_amount o' + input_amount a)"
    using assms(1,4) by simp_all
  have "create_fund_transaction_with_fees api o' a r lt fs e \<noteq> Err e'"
    unfolding create_fund_transaction_with_fees_def t and_then_simps assms(3) prod.case
      change_zero_collateral [OF assms(1)] Let_def
    by (auto simp: res_simps)
  then show ?thesis using Err by blast
qed simp

lemma example_change:
  "\<exists>oc off ocf. get_change_output_and_fees example_api (example_party 1 200000 100000) 100000 1 500 = Ok (oc, off, ocf)"
  by (simp add: example_defs)

lemma single_funded_panics_witness:
  "create_fund_transaction_with_fees example_api (example_party 1 200000 100000) (example_party 2 0 0) 1 0 0 500 = Panic"
proof -
  have p: "collateral (example_party k x c) = c" "input_amount (example_party k x c) = x" for k x c
    by (simp_all add: example_party_def)
  obtain oc off ocf where
    "get_change_output_and_fees example_api (example_party 1 200000 100000) (collateral (example_party 1 200000 100000)) 1 500 = Ok (oc, off, ocf)"
    using example_change unfolding p by blast
  then show ?thesis by (intro single_funded_panics) (simp_all add: p)
qed

text \<open>
  C14. The contract execution transactions pay what the contract says.  Building them succeeds
  exactly when the total collateral fits and every payout sums to it, and never panics.  There
  is one CET for each payout; it spends the given outpoint, pays each party its payout, in the
  order of the payout serial ids, and leaves out an output only when it is below the dust limit;
  the refund transaction spends the same outpoint and returns the collaterals, or everything to
  the accepter when bit 0 of the flags is set.
\<close>

theorem cets_pay_payouts:
  fixes o' a :: party_params
  shows "create_cets_and_refund_tx o' a prev payouts rlt clt sq flags \<noteq> Panic \<and>
    ((\<exists>r. create_cets_and_refund_tx o' a prev payouts rlt clt sq flags = Ok r) \<longleftrightarrow>
      collateral o' + collateral a < 2 ^ 64 \<and> (\<forall>p\<in>set payouts. offer p + accept p = collateral o' + collateral a)) \<and>
    (\<forall>cets refund. create_cets_and_refund_tx o' a prev payouts rlt clt sq flags = Ok (cets, refund) \<longrightarrow>
      length cets = length payouts \<and>
      (\<forall>i<length payouts. map previous_output (tx_input (cets ! i)) = [prev] \<and>
        tx_output (cets ! i) = filter (\<lambda>t. 1000 \<le> out_value t)
          (let oo = \<lparr>out_value = offer (payouts ! i), script_pubkey = payout_script_pubkey o'\<rparr>;
               ao = \<lparr>out_value = accept (payouts ! i), script_pubkey = payout_script_pubkey a\<rparr>
           in if payout_serial_id o' < payout_serial_id a then [oo, ao] else [ao, oo])) \<and>
      map previous_output (tx_input refund) = [prev] \<and> tx_lock_time refund = rlt \<and>
      tx_output refund = filter (\<lambda>t. 1000 \<le> out_value t)
        [\<lparr>out_value = if odd flags then 0 else collateral o', script_pubkey = payout_script_pubkey o'\<rparr>,
         \<lparr>out_value = if odd flags then collateral o' + collateral a else collateral a,
          script_pubkey = payout_script_pubkey a\<rparr>])"
proof (intro conjI allI impI)
  show "(\<exists>r. create_cets_and_refund_tx o' a prev payouts rlt clt sq flags = Ok r) \<longleftrightarrow>
      collateral o' + collateral a < 2 ^ 64 \<and> (\<forall>p\<in>set payouts. offer p + accept p = collateral o' + collateral a)"
    using create_cets_and_refund_Ok_iff [of o' a prev payouts rlt clt sq flags] by simp
next
  fix cets refund assume "create_cets_and_refund_tx o' a prev payouts rlt clt sq flags = Ok (cets, refund)"
  note r = create_cets_and_refund_Ok [OF this]
  show "length cets = length payouts" using r by (simp add: create_cets_def)
  fix i assume i: "i < length payouts"
  show "map previous_output (tx_input (cets ! i)) = [prev]"
    "tx_output (cets ! i) = filter (\<lambda>t. 1000 \<le> out_value t)
          (let oo = \<lparr>out_value = offer (payouts ! i), script_pubkey = payout_script_pubkey o'\<rparr>;
               ao = \<lparr>out_value = accept (payouts ! i), script_pubkey = payout_script_pubkey a\<rparr>
           in if payout_serial_id o' < payout_serial_id a then [oo, ao] else [ao, oo])"
    using r create_cets_nth [OF i] by (simp_all add: discard_dust_def DUST_LIMIT_def cet_outputs_def)
qed (auto simp: create_cets_and_refund_Err create_refund_transaction_def discard_dust_def DUST_LIMIT_def
     dest!: create_cets_and_refund_Ok)

lemma cets_pay_payouts_witness:
  "\<exists>cets refund. create_cets_and_refund_tx (example_party 1 200000 100000) (example_party 2 150000 100000)
      \<lparr>op_txid = [1], op_vout = 0\<rparr> [\<lparr>offer = 200000, accept = 0\<rparr>, \<lparr>offer = 500, accept = 199500\<rparr>] 100 10 None 0 =
      Ok (cets, refund) \<and> length cets = 2"
proof -
  have p: "collateral (example_party k x c) = c" for k x c by (simp add: example_party_def)
  let ?c = "create_cets_and_refund_tx (example_party 1 200000 100000) (example_party 2 150000 100000)
      \<lparr>op_txid = [1], op_vout = 0\<rparr> [\<lparr>offer = 200000, accept = 0\<rparr>, \<lparr>offer = 500, accept = 199500\<rparr>] 100 10 None 0"
  have "\<exists>r. ?c = Ok r"
    by (rule iffD2 [OF conjunct1 [OF conjunct2 [OF cets_pay_payouts]]]) (simp add: p)
  then obtain cets refund where c: "?c = Ok (cets, refund)" by auto
  moreover have "length cets = 2" using cets_pay_payouts c by fastforce
  ultimately show ?thesis by blast
qed

text \<open>
  C15. The transactions of a contract fit together.  When they are built and no change script is
  the fund script, there is a fund output that holds the total collateral and the CET fees of
  both parties; it is the output \<open>get_fund_output\<close> finds, every CET and the refund transaction
  spend exactly it, and each CET leaves at least the CET fees, and at most 1,998 satoshis
  (two outputs below the dust limit) more, to the miners.
\<close>

theorem dlc_transactions_fit:
  assumes "create_dlc_transactions api o' a payouts rlt r flt clt fs flags = Ok d"
    and "to_p2wsh api (funding_witness_script d) \<notin> {change_script_pubkey o', change_script_pubkey a}"
  shows "\<exists>oc off ocf ac aff acf out point.
    get_change_output_and_fees api o' (collateral o' + collateral a) r 0 = Ok (oc, off, ocf) \<and>
    get_change_output_and_fees api a (collateral o' + collateral a) r 0 = Ok (ac, aff, acf) \<and>
    get_fund_output api d = (Ok out :: (_, unit) res) \<and> out_value out = collateral o' + collateral a + ocf + acf \<and>
    get_fund_outpoint api d = (Ok point :: (_, unit) res) \<and> op_vout point < length (tx_output (dlc_fund d)) \<and>
    tx_output (dlc_fund d) ! op_vout point = out \<and>
    (\<forall>tx\<in>set (dlc_refund d # dlc_cets d). map previous_output (tx_input tx) = [point]) \<and>
    (\<forall>tx\<in>set (dlc_cets d). sum_list (map out_value (tx_output tx)) + ocf + acf \<le> out_value out \<and>
      out_value out \<le> sum_list (map out_value (tx_output tx)) + ocf + acf + 1998)"
proof -
  obtain tx ws out vout where d: "create_fund_transaction_with_fees api o' a r flt fs 0 = Ok (tx, ws)"
    "get_output_for_script_pubkey tx (to_p2wsh api ws) = Some (vout, out)"
    "dlc_fund d = tx" "funding_witness_script d = ws"
    "create_cets_and_refund_tx o' a \<lparr>op_txid = compute_txid api tx, op_vout = as_u32 vout\<rparr> payouts rlt clt None flags
      = Ok (dlc_cets d, dlc_refund d)"
    using create_dlc_transactions_Ok [OF assms(1)] by blast
  define point where "point = \<lparr>op_txid = compute_txid api tx, op_vout = as_u32 vout\<rparr>"
  obtain oc off ocf ac aff acf where f:
    "get_change_output_and_fees api o' (collateral o' + collateral a) r 0 = Ok (oc, off, ocf)"
    "get_change_output_and_fees api a (collateral o' + collateral a) r 0 = Ok (ac, aff, acf)"
    "out_value out = collateral o' + collateral a + ocf + acf"
    using fund_output_found [OF d(1,2)] assms(2) d(4) by auto
  note cr = create_cets_and_refund_Ok [OF d(5)]
  have v: "as_u32 vout = vout" "vout < length (tx_output tx)" "tx_output tx ! vout = out"
    using get_output_Some [OF d(2)] fund_tx_outputs [OF d(1)] by auto
  note sp = cets_spend [OF d(5), folded point_def]
  have "get_fund_output api d = (Ok out :: (_, unit) res)" "get_fund_outpoint api d = (Ok point :: (_, unit) res)"
    using d v by (simp_all add: get_fund_output_def get_fund_outpoint_def get_fund_output_index_def point_def)
  moreover have "op_vout point = vout" using v(1) by (simp add: point_def)
  ultimately show ?thesis using f v sp d(3) by (intro exI conjI) auto
qed

lemma example_transactions:
  "\<exists>d. create_dlc_transactions example_api (example_party 1 200000 100000) (example_party 2 150000 100000)
      [\<lparr>offer = 200000, accept = 0\<rparr>, \<lparr>offer = 500, accept = 199500\<rparr>] 100 1 0 10 0 0 = Ok d \<and>
    funding_witness_script d = [82, 1, 1, 1, 2, 82, 174]"
  by (simp add: create_dlc_transactions_def create_cets_and_refund_tx_def get_output_for_script_pubkey_def
      example_defs)

lemma dlc_transactions_fit_witness:
  "\<exists>d out. create_dlc_transactions example_api (example_party 1 200000 100000) (example_party 2 150000 100000)
      [\<lparr>offer = 200000, accept = 0\<rparr>, \<lparr>offer = 500, accept = 199500\<rparr>] 100 1 0 10 0 0 = Ok d \<and>
    get_fund_output example_api d = (Ok out :: (_, unit) res) \<and> 200000 \<le> out_value out"
proof -
  obtain d where d: "create_dlc_transactions example_api (example_party 1 200000 100000) (example_party 2 150000 100000)
      [\<lparr>offer = 200000, accept = 0\<rparr>, \<lparr>offer = 500, accept = 199500\<rparr>] 100 1 0 10 0 0 = Ok d"
    "funding_witness_script d = [82, 1, 1, 1, 2, 82, 174]" using example_transactions by blast
  have "to_p2wsh example_api (funding_witness_script d) \<notin>
      {change_script_pubkey (example_party 1 200000 100000), change_script_pubkey (example_party 2 150000 100000)}"
    by (simp add: d(2) example_api_def example_party_def)
  from dlc_transactions_fit [OF d(1) this] d(1) show ?thesis
    by (auto simp: example_party_def)
qed

text \<open>
  A contract with a fund output below the dust limit cannot be built: the fund output is
  removed as dust, and the search for it, which is expected to succeed, panics.
\<close>

theorem dust_contract_panics:
  assumes "create_fund_transaction_with_fees api o' a r flt fs 0 = Ok (tx, ws)"
    and "get_change_output_and_fees api o' (collateral o' + collateral a) r 0 = Ok (oc, off, ocf)"
    and "get_change_output_and_fees api a (collateral o' + collateral a) r 0 = Ok (ac, aff, acf)"
    and "collateral o' + collateral a + ocf + acf < 1000"
    and "to_p2wsh api ws \<notin> {change_script_pubkey o', change_script_pubkey a}"
  shows "create_dlc_transactions api o' a payouts rlt r flt clt fs flags = Panic"
proof (cases "get_output_for_script_pubkey tx (to_p2wsh api ws)")
  case None
  then show ?thesis using assms(1) by (simp add: create_dlc_transactions_def)
next
  case (Some p)
  then have "get_output_for_script_pubkey tx (to_p2wsh api ws) = Some (fst p, snd p)" by simp
  from fund_output_found [OF assms(1) this assms(5)] have False
    using assms(2-4) by (auto simp: DUST_LIMIT_def)
  then show ?thesis ..
qed

lemma example_dust:
  "\<exists>tx oc ac. create_fund_transaction_with_fees example_api (example_party 1 200000 300)
     (example_party 2 150000 300) 1 0 0 0 = Ok (tx, [82, 1, 1, 1, 2, 82, 174]) \<and>
   get_change_output_and_fees example_api (example_party 1 200000 300) 600 1 0 = Ok (oc, 106, 65) \<and>
   get_change_output_and_fees example_api (example_party 2 150000 300) 600 1 0 = Ok (ac, 106, 65)"
  by (simp add: example_defs)

lemma dust_contract_panics_witness:
  "create_dlc_transactions example_api (example_party 1 200000 300) (example_party 2 150000 300) [] 100 1 0 10 0 0 = Panic"
proof -
  have p: "collateral (example_party k x c) = c" for k x c by (simp add: example_party_def)
  obtain tx oc ac where e: "create_fund_transaction_with_fees example_api (example_party 1 200000 300)
     (example_party 2 150000 300) 1 0 0 0 = Ok (tx, [82, 1, 1, 1, 2, 82, 174])"
   "get_change_output_and_fees example_api (example_party 1 200000 300) 600 1 0 = Ok (oc, 106, 65)"
   "get_change_output_and_fees example_api (example_party 2 150000 300) 600 1 0 = Ok (ac, 106, 65)"
    using example_dust by blast
  show ?thesis
    by (rule dust_contract_panics [OF e(1), where oc = oc and ac = ac and off = 106 and aff = 106 and ocf = 65 and acf = 65])
       (use e in \<open>simp_all add: p\<close>, simp_all add: example_api_def example_party_def)
qed

text \<open>
  The two parties derive the same fund script, whichever of them computes it, and for keys
  of 33 bytes the script determines the pair of keys.
\<close>

theorem funding_script_symmetric:
  "make_funding_redeemscript a b = make_funding_redeemscript b a \<and>
   (length a = 33 \<longrightarrow> length b = 33 \<longrightarrow> length c = 33 \<longrightarrow> length d = 33 \<longrightarrow>
     make_funding_redeemscript a b = make_funding_redeemscript c d \<longrightarrow> {a, b} = {c, d})"
  using make_funding_redeemscript_commute make_funding_redeemscript_inject by blast

lemma funding_script_symmetric_witness:
  "make_funding_redeemscript (replicate 33 2) (replicate 33 3) = make_funding_redeemscript (replicate 33 3) (replicate 33 2) \<and>
   {replicate 33 2, replicate 33 3} = {replicate 33 3, replicate 33 (2 :: nat)}"
  using funding_script_symmetric [of "replicate 33 2" "replicate 33 3" "replicate 33 3" "replicate 33 2"] by simp

text \<open>
  Splicing turns the DLC inputs of a party into regular inputs of the same weight.
\<close>

lemma add_input_weight_Ok:
  "add_input_weight api w s = Ok t \<longleftrightarrow>
     (\<exists>sig. redeem_script_to_script_sig api (ti_redeem_script w) = (Ok sig :: (_, dlc_error) res) \<and>
        length sig * 4 < usize_bound \<and> s + (164 + length sig * 4 + ti_max_witness_len w) < usize_bound \<and>
        t = s + (164 + length sig * 4 + ti_max_witness_len w))"
  by (auto simp: add_input_weight_def res_simps TX_INPUT_BASE_WEIGHT_def ok_or_def checked_mul_def split: if_splits)

lemma add_weights_shift:
  "fold_res (add_input_weight api) ws (s + d) = Ok t \<Longrightarrow>
   \<exists>t'. t = t' + d \<and> fold_res (add_input_weight api) ws s = Ok t'"
proof (induction ws arbitrary: s t)
  case (Cons w ws)
  then obtain sig where sig: "redeem_script_to_script_sig api (ti_redeem_script w) = (Ok sig :: (_, dlc_error) res)"
    "length sig * 4 < usize_bound" "s + d + (164 + length sig * 4 + ti_max_witness_len w) < usize_bound"
    "fold_res (add_input_weight api) ws (s + d + (164 + length sig * 4 + ti_max_witness_len w)) = Ok t"
    by (auto simp: and_then_eq_Ok add_input_weight_Ok)
  define s1 where "s1 = s + (164 + length sig * 4 + ti_max_witness_len w)"
  have "fold_res (add_input_weight api) ws (s1 + d) = Ok t" using sig(4) by (simp add: s1_def ac_simps)
  then obtain t' where "t = t' + d" "fold_res (add_input_weight api) ws s1 = Ok t'" using Cons.IH by blast
  moreover have "add_input_weight api w s = Ok s1"
    unfolding add_input_weight_Ok s1_def using sig(1,2,3) by auto
  ultimately show ?case by simp
qed simp

lemma add_weights_dlc:
  "s + sum_list (map (\<lambda>i. 164 + di_max_witness_len i) ds) < usize_bound \<Longrightarrow>
   fold_res (add_input_weight api) (map (dlc_input_to_tx_input api) ds) s =
     Ok (s + sum_list (map (\<lambda>i. 164 + di_max_witness_len i) ds))"
proof (induction ds arbitrary: s)
  case (Cons i ds)
  have "add_input_weight api (dlc_input_to_tx_input api i) s = Ok (s + (164 + di_max_witness_len i))"
    unfolding add_input_weight_Ok using Cons.prems
    by (auto simp: dlc_input_to_tx_input_def redeem_script_to_script_sig_def)
  then show ?case using Cons.IH [of "s + (164 + di_max_witness_len i)"] Cons.prems by (simp add: add.assoc)
qed simp

lemma fold_uadd_Ok: "fold_res (\<lambda>x s. uadd s x) xs s = Ok t \<Longrightarrow> t = s + sum_list xs"
  by (induction xs arbitrary: s) (fastforce simp: res_simps)+

lemma usum_Ok: "usum xs = Ok t \<Longrightarrow> t = sum_list xs"
  unfolding usum_def by (drule fold_uadd_Ok) simp

lemma dlc_inputs_weight_Ok:
  assumes "get_dlc_inputs_weight ds = Ok w"
  shows "w = sum_list (map (\<lambda>i. 164 + di_max_witness_len i) ds)"
proof -
  obtain ws where ws: "traverse (\<lambda>i. uadd 164 (di_max_witness_len i)) ds = (Ok ws :: (_, 'a) res)" "usum ws = (Ok w :: (_, 'a) res)"
    using assms by (auto simp: get_dlc_inputs_weight_def res_simps)
  have "list_all2 (\<lambda>i w. w = 164 + di_max_witness_len i) ds ws"
    using ws(1) unfolding traverse_Ok_iff by (rule list_all2_mono) simp
  then have "ws = map (\<lambda>i. 164 + di_max_witness_len i) ds" by (induction rule: list_all2_induct) auto
  then show ?thesis using usum_Ok [OF ws(2)] by simp
qed

text \<open>
  Splicing does not change what a party pays: for a party whose regular inputs are no
  larger than P2WPKH inputs, the change and the fees computed with its DLC inputs as such are
  those computed after the splice, where they are regular inputs; and the inputs of the spliced
  party are its regular inputs followed by one input for the fund output of each DLC input.
\<close>

theorem splice_keeps_fees:
  assumes "\<forall>i\<in>set (pp_inputs p). ti_max_witness_len i \<le> 108"
    and "get_change_output_and_fees api p tc r e = Ok res"
  shows "get_change_output_and_fees api (spliced_params api p) tc r e = Ok res \<and>
    map ti_outpoint (pp_inputs (spliced_params api p)) = map ti_outpoint (pp_inputs p) @
      map (\<lambda>i. \<lparr>op_txid = compute_txid api (di_fund_tx i), op_vout = di_fund_vout i\<rparr>) (dlc_inputs p)"
proof
  have ins: "pp_inputs (spliced_params api p) = pp_inputs p @ map (dlc_input_to_tx_input api) (dlc_inputs p)"
    using assms(1) by (simp add: spliced_params_def filter_id_conv)
  then show "map ti_outpoint (pp_inputs (spliced_params api p)) = map ti_outpoint (pp_inputs p) @
      map (\<lambda>i. \<lparr>op_txid = compute_txid api (di_fund_tx i), op_vout = di_fund_vout i\<rparr>) (dlc_inputs p)"
    by (simp add: dlc_input_to_tx_input_def)
  have same: "collateral (spliced_params api p) = collateral p" "input_amount (spliced_params api p) = input_amount p"
    "change_script_pubkey (spliced_params api p) = change_script_pubkey p"
    "payout_script_pubkey (spliced_params api p) = payout_script_pubkey p" "dlc_inputs (spliced_params api p) = []"
    by (simp_all add: spliced_params_def)
  show "get_change_output_and_fees api (spliced_params api p) tc r e = Ok res"
  proof (cases "collateral p = 0")
    case True
    then show ?thesis using assms(2) same by (simp add: change_zero_collateral)
  next
    case False
    obtain dw iw where w: "get_dlc_inputs_weight (dlc_inputs p) = (Ok dw :: (_, dlc_error) res)"
      "fold_res (add_input_weight api) (pp_inputs p) (0 + dw) = Ok iw" "iw < usize_bound"
      using assms(2) False by (auto simp: get_change_output_and_fees_def res_simps Let_def)
    obtain iw' where iw': "iw = iw' + dw" "fold_res (add_input_weight api) (pp_inputs p) 0 = Ok iw'"
      using add_weights_shift [OF w(2)] by blast
    have f: "fold_res (add_input_weight api) (pp_inputs (spliced_params api p)) 0 = Ok iw"
      using iw' w(3) dlc_inputs_weight_Ok [OF w(1)] add_weights_dlc [of iw' "dlc_inputs p" api]
      by (simp add: ins fold_res_append)
    have z: "get_dlc_inputs_weight [] = (Ok 0 :: (_, dlc_error) res)"
      by (simp add: get_dlc_inputs_weight_def usum_def)
    have "get_change_output_and_fees api (spliced_params api p) tc r e = get_change_output_and_fees api p tc r e"
      unfolding get_change_output_and_fees_def same f z w(1) w(2) [unfolded add_0_left] and_then_simps ..
    then show ?thesis using assms(2) by simp
  qed
qed

lemma splice_keeps_fees_witness:
  "\<exists>res. get_change_output_and_fees example_api (spliced_params example_api (example_party 1 200000 100000)) 100000 1 500 = Ok res"
proof -
  obtain oc off ocf where "get_change_output_and_fees example_api (example_party 1 200000 100000) 100000 1 500 = Ok (oc, off, ocf)"
    using example_change by blast
  from splice_keeps_fees [OF _ this] show ?thesis by (auto simp: example_party_def)
qed

end
