(* ===== verification/Signatures.thy ===== *)
theory Signatures
  imports Dlc_Transactions
begin

text \<open>
  The signatures of the \<open>dlc\<close> crate: \<open>dlc/src/util.rs\<close> (ECDSA signatures and witnesses of an
  input), \<open>dlc/src/secp_utils.rs\<close> (the point of a Schnorr signature), the adaptor signatures of
  \<open>dlc/src/lib.rs\<close> and the signatures of a DLC input in \<open>dlc/src/dlc_input.rs\<close>.  The curve
  operations of \<open>secp256k1-zkp\<close> and the signature hash of the \<open>bitcoin\<close> crate are fields of the
  record \<open>crypto_api\<close>; \<open>crypto_ok\<close> collects what the documentation of these crates promises.
  The main result: with an adaptor signature that was verified and the signatures of the oracles,
  \<open>sign_cet\<close> makes a CET whose witness satisfies the 2-of-2 script of the fund output.
\<close>

section \<open>The cryptography the code calls\<close>

type_synonym seckey = nat
type_synonym xonly = bytes
type_synonym message = bytes
type_synonym ecdsa_sig = bytes
type_synonym adaptor_sig = bytes
type_synonym schnorr_sig = bytes

text \<open>
  \<open>p2wsh_signature_hash\<close> with \<open>SIGHASH_ALL\<close> (\<open>None\<close> when the index is out of range),
  \<open>sign_ecdsa_low_r\<close>, \<open>verify_ecdsa\<close>, \<open>serialize_der\<close>, \<open>from_der\<close>, \<open>from_compact\<close>,
  \<open>PublicKey::from_secret_key\<close>, \<open>PubkeyHash::hash\<close> of a key, \<open>EcdsaAdaptorSignature::encrypt\<close>,
  \<open>decrypt\<close> and \<open>verify\<close>, \<open>PublicKey::combine_keys\<close>, \<open>mul_tweak\<close>, \<open>PublicKey::from_slice\<close>,
  \<open>XOnlyPublicKey::from_slice\<close>, the tagged hash of BIP 340, \<open>Scalar::from_be_bytes\<close>,
  \<open>SecretKey::from_slice\<close> and \<open>SecretKey::add_tweak\<close>.  A secret key is its number.
\<close>

record crypto_api = bitcoin_api +
  sighash_all :: "transaction \<Rightarrow> nat \<Rightarrow> script \<Rightarrow> nat \<Rightarrow> message option"
  ecdsa_sign :: "message \<Rightarrow> seckey \<Rightarrow> ecdsa_sig"
  ecdsa_verify :: "message \<Rightarrow> ecdsa_sig \<Rightarrow> pubkey \<Rightarrow> bool"
  serialize_der :: "ecdsa_sig \<Rightarrow> bytes"
  sig_from_der :: "bytes \<Rightarrow> ecdsa_sig option"
  sig_from_compact :: "bytes \<Rightarrow> ecdsa_sig option"
  pk_of_sk :: "seckey \<Rightarrow> pubkey"
  pubkey_hash :: "pubkey \<Rightarrow> bytes"
  adaptor_encrypt :: "message \<Rightarrow> seckey \<Rightarrow> pubkey \<Rightarrow> adaptor_sig"
  adaptor_decrypt :: "adaptor_sig \<Rightarrow> seckey \<Rightarrow> ecdsa_sig option"
  adaptor_verify :: "adaptor_sig \<Rightarrow> message \<Rightarrow> pubkey \<Rightarrow> pubkey \<Rightarrow> bool"
  combine_keys :: "pubkey list \<Rightarrow> pubkey option"
  mul_tweak :: "pubkey \<Rightarrow> nat \<Rightarrow> pubkey option"
  pubkey_from_slice :: "bytes \<Rightarrow> pubkey option"
  xonly_from_slice :: "bytes \<Rightarrow> xonly option"
  bip340_hash :: "bytes \<Rightarrow> bytes"
  scalar_from_be_bytes :: "bytes \<Rightarrow> nat option"
  seckey_from_slice :: "bytes \<Rightarrow> seckey option"
  sk_add_tweak :: "seckey \<Rightarrow> nat \<Rightarrow> seckey option"

section \<open>ECDSA signatures of inputs\<close>

definition SIGHASH_ALL :: nat where "SIGHASH_ALL = 1"

definition get_sig_hash_msg ::
  "('m) crypto_api_scheme \<Rightarrow> transaction \<Rightarrow> nat \<Rightarrow> script \<Rightarrow> nat \<Rightarrow> (message, dlc_error) res" where
  "get_sig_hash_msg api tx input_index script_pk val = ok_or InputsIndex (sighash_all api tx input_index script_pk val)"

definition finalize_sig :: "('m) crypto_api_scheme \<Rightarrow> ecdsa_sig \<Rightarrow> nat \<Rightarrow> bytes" where
  "finalize_sig api sig sig_hash_type = serialize_der api sig @ [sig_hash_type mod 256]"

definition get_raw_sig_for_tx_input ::
  "('m) crypto_api_scheme \<Rightarrow> transaction \<Rightarrow> nat \<Rightarrow> script \<Rightarrow> nat \<Rightarrow> seckey \<Rightarrow> (ecdsa_sig, dlc_error) res" where
  "get_raw_sig_for_tx_input api tx input_index script_pk val sk =
     and_then (get_sig_hash_msg api tx input_index script_pk val) (\<lambda>msg. Ok (ecdsa_sign api msg sk))"

definition get_sig_for_tx_input ::
  "('m) crypto_api_scheme \<Rightarrow> transaction \<Rightarrow> nat \<Rightarrow> script \<Rightarrow> nat \<Rightarrow> nat \<Rightarrow> seckey \<Rightarrow> (bytes, dlc_error) res" where
  "get_sig_for_tx_input api tx input_index script_pk val sig_hash_type sk =
     and_then (get_raw_sig_for_tx_input api tx input_index script_pk val sk) (\<lambda>sig.
       Ok (finalize_sig api sig sig_hash_type))"

text \<open>\<open>ScriptBuf::new_p2pkh\<close>: \<open>DUP HASH160 <20 bytes> EQUALVERIFY CHECKSIG\<close>.\<close>

definition get_pkh_script_pubkey_from_sk :: "('m) crypto_api_scheme \<Rightarrow> seckey \<Rightarrow> script" where
  "get_pkh_script_pubkey_from_sk api sk =
     [118, 169] @ push_slice (pubkey_hash api (pk_of_sk api sk)) @ [136, 172]"

definition get_sig_for_p2wpkh_input ::
  "('m) crypto_api_scheme \<Rightarrow> seckey \<Rightarrow> transaction \<Rightarrow> nat \<Rightarrow> nat \<Rightarrow> nat \<Rightarrow> (bytes, dlc_error) res" where
  "get_sig_for_p2wpkh_input api sk tx input_index val sig_hash_type =
     get_sig_for_tx_input api tx input_index (get_pkh_script_pubkey_from_sk api sk) val sig_hash_type sk"

definition get_witness_for_p2wpkh_input ::
  "('m) crypto_api_scheme \<Rightarrow> seckey \<Rightarrow> transaction \<Rightarrow> nat \<Rightarrow> nat \<Rightarrow> nat \<Rightarrow> (bytes list, dlc_error) res" where
  "get_witness_for_p2wpkh_input api sk tx input_index sig_hash_type val =
     and_then (get_sig_for_p2wpkh_input api sk tx input_index val sig_hash_type) (\<lambda>full_sig.
       Ok [full_sig, pk_of_sk api sk])"

text \<open>\<open>tx.input[i].witness = w\<close>.\<close>

definition set_witness :: "transaction \<Rightarrow> nat \<Rightarrow> bytes list \<Rightarrow> (transaction, 'e) res" where
  "set_witness tx i w =
     and_then (index (tx_input tx) i) (\<lambda>inp. Ok (tx\<lparr>tx_input := (tx_input tx)[i := inp\<lparr>tx_witness := w\<rparr>]\<rparr>))"

definition sign_p2wpkh_input ::
  "('m) crypto_api_scheme \<Rightarrow> seckey \<Rightarrow> transaction \<Rightarrow> nat \<Rightarrow> nat \<Rightarrow> nat \<Rightarrow> (transaction, dlc_error) res" where
  "sign_p2wpkh_input api sk tx input_index sig_hash_type val =
     and_then (get_witness_for_p2wpkh_input api sk tx input_index sig_hash_type val) (set_witness tx input_index)"

definition sign_multi_sig_input ::
  "('m) crypto_api_scheme \<Rightarrow> transaction \<Rightarrow> ecdsa_sig \<Rightarrow> pubkey \<Rightarrow> seckey \<Rightarrow> script \<Rightarrow> nat \<Rightarrow> nat
    \<Rightarrow> (transaction, dlc_error) res" where
  "sign_multi_sig_input api transaction other_sig other_pk sk script_pk input_value input_index =
     and_then (get_sig_for_tx_input api transaction input_index script_pk input_value SIGHASH_ALL sk) (\<lambda>own_sig.
     let own_pk = pk_of_sk api sk;
         other_finalized_sig = finalize_sig api other_sig SIGHASH_ALL in
     set_witness transaction input_index
       (if bytes_le own_pk other_pk \<and> own_pk \<noteq> other_pk
        then [[], own_sig, other_finalized_sig, script_pk]
        else [[], other_finalized_sig, own_sig, script_pk]))"

definition verify_tx_input_sig ::
  "('m) crypto_api_scheme \<Rightarrow> ecdsa_sig \<Rightarrow> transaction \<Rightarrow> nat \<Rightarrow> script \<Rightarrow> nat \<Rightarrow> pubkey \<Rightarrow> (unit, dlc_error) res" where
  "verify_tx_input_sig api signature tx input_index script_pk val pk =
     and_then (get_sig_hash_msg api tx input_index script_pk val) (\<lambda>msg.
       if ecdsa_verify api msg signature pk then Ok () else Err Secp256k1)"

section \<open>Points and adaptor signatures\<close>

definition create_schnorr_hash :: "('m) crypto_api_scheme \<Rightarrow> message \<Rightarrow> xonly \<Rightarrow> xonly \<Rightarrow> bytes" where
  "create_schnorr_hash api msg nonce pubkey = bip340_hash api (nonce @ pubkey @ msg)"

definition schnorr_pubkey_to_pubkey :: "('m) crypto_api_scheme \<Rightarrow> xonly \<Rightarrow> (pubkey, dlc_error) res" where
  "schnorr_pubkey_to_pubkey api pk = ok_or Secp256k1 (pubkey_from_slice api (2 # pk))"

definition schnorrsig_compute_sig_point ::
  "('m) crypto_api_scheme \<Rightarrow> xonly \<Rightarrow> xonly \<Rightarrow> message \<Rightarrow> (pubkey, dlc_error) res" where
  "schnorrsig_compute_sig_point api pubkey nonce msg =
     (let hash = create_schnorr_hash api msg nonce pubkey in
      and_then (schnorr_pubkey_to_pubkey api pubkey) (\<lambda>pk.
      and_then (unwrap (scalar_from_be_bytes api hash)) (\<lambda>scalar.
      and_then (ok_or Secp256k1 (mul_tweak api pk scalar)) (\<lambda>tweaked.
      and_then (schnorr_pubkey_to_pubkey api nonce) (\<lambda>npk.
        ok_or Secp256k1 (combine_keys api [npk, tweaked]))))))"

definition schnorrsig_decompose :: "('m) crypto_api_scheme \<Rightarrow> schnorr_sig \<Rightarrow> (xonly \<times> bytes, dlc_error) res" where
  "schnorrsig_decompose api signature =
     and_then (ok_or Secp256k1 (xonly_from_slice api (take 32 signature))) (\<lambda>x.
       Ok (x, take 32 (drop 32 signature)))"

record oracle_info =
  oi_public_key :: xonly
  oi_nonces :: "xonly list"

definition get_oracle_sig_point ::
  "('m) crypto_api_scheme \<Rightarrow> oracle_info \<Rightarrow> message list \<Rightarrow> (pubkey, dlc_error) res" where
  "get_oracle_sig_point api info msgs =
     (if length (oi_nonces info) < length msgs then Err InvalidArgument
      else
        and_then (traverse (\<lambda>(nonce, msg). schnorrsig_compute_sig_point api (oi_public_key info) nonce msg)
                    (zip (oi_nonces info) msgs)) (\<lambda>sig_points.
          ok_or Secp256k1 (combine_keys api sig_points)))"

definition get_adaptor_point_from_oracle_info ::
  "('m) crypto_api_scheme \<Rightarrow> oracle_info list \<Rightarrow> message list list \<Rightarrow> (pubkey, dlc_error) res" where
  "get_adaptor_point_from_oracle_info api oracle_infos msgs =
     (if oracle_infos = [] \<or> msgs = [] then Err InvalidArgument
      else
        and_then (traverse (\<lambda>(i, info). and_then (index msgs i) (get_oracle_sig_point api info))
                    (enumerate 0 oracle_infos)) (\<lambda>oracle_sigpoints.
          ok_or Secp256k1 (combine_keys api oracle_sigpoints)))"

definition create_cet_adaptor_sig_from_point ::
  "('m) crypto_api_scheme \<Rightarrow> transaction \<Rightarrow> pubkey \<Rightarrow> seckey \<Rightarrow> script \<Rightarrow> nat \<Rightarrow> (adaptor_sig, dlc_error) res" where
  "create_cet_adaptor_sig_from_point api cet adaptor_point funding_sk witness_script fund_output_value =
     and_then (get_sig_hash_msg api cet 0 witness_script fund_output_value) (\<lambda>sig_hash.
       Ok (adaptor_encrypt api sig_hash funding_sk adaptor_point))"

definition create_cet_adaptor_sig_from_oracle_info ::
  "('m) crypto_api_scheme \<Rightarrow> transaction \<Rightarrow> oracle_info list \<Rightarrow> seckey \<Rightarrow> script \<Rightarrow> nat \<Rightarrow> message list list
    \<Rightarrow> (adaptor_sig, dlc_error) res" where
  "create_cet_adaptor_sig_from_oracle_info api cet oracle_infos funding_sk witness_script fund_output_value msgs =
     and_then (get_adaptor_point_from_oracle_info api oracle_infos msgs) (\<lambda>adaptor_point.
       create_cet_adaptor_sig_from_point api cet adaptor_point funding_sk witness_script fund_output_value)"

definition create_cet_adaptor_sigs_from_points ::
  "('m) crypto_api_scheme \<Rightarrow> (transaction \<times> pubkey) list \<Rightarrow> seckey \<Rightarrow> script \<Rightarrow> nat \<Rightarrow> (adaptor_sig list, dlc_error) res" where
  "create_cet_adaptor_sigs_from_points api inputs funding_sk witness_script fund_output_value =
     traverse (\<lambda>(cet, adaptor_point).
       create_cet_adaptor_sig_from_point api cet adaptor_point funding_sk witness_script fund_output_value) inputs"

definition create_cet_adaptor_sigs_from_oracle_info ::
  "('m) crypto_api_scheme \<Rightarrow> transaction list \<Rightarrow> oracle_info list \<Rightarrow> seckey \<Rightarrow> script \<Rightarrow> nat \<Rightarrow> message list list list
    \<Rightarrow> (adaptor_sig list, dlc_error) res" where
  "create_cet_adaptor_sigs_from_oracle_info api cets oracle_infos funding_sk witness_script fund_output_value msgs =
     (if length msgs \<noteq> length cets then Err InvalidArgument
      else traverse (\<lambda>(cet, msg).
             create_cet_adaptor_sig_from_oracle_info api cet oracle_infos funding_sk witness_script fund_output_value msg)
             (zip cets msgs))"

text \<open>
  The sum of the scalars of the oracles' signatures.  The first scalar may be refused with an
  error; a later one, or a partial sum of zero, is a panic.
\<close>

definition signatures_to_secret :: "('m) crypto_api_scheme \<Rightarrow> schnorr_sig list list \<Rightarrow> (seckey, dlc_error) res" where
  "signatures_to_secret api signatures =
     and_then (traverse (\<lambda>x. and_then (schnorrsig_decompose api x) (\<lambda>v. Ok (snd v))) (concat signatures)) (\<lambda>s_values.
     and_then (index s_values 0) (\<lambda>s0.
     and_then (ok_or Secp256k1 (seckey_from_slice api s0)) (\<lambda>secret.
       fold_res (\<lambda>s accum. and_then (unwrap (seckey_from_slice api s)) (\<lambda>sec.
                             unwrap (sk_add_tweak api accum sec))) (tl s_values) secret)))"

definition sign_cet ::
  "('m) crypto_api_scheme \<Rightarrow> transaction \<Rightarrow> adaptor_sig \<Rightarrow> schnorr_sig list list \<Rightarrow> seckey \<Rightarrow> pubkey \<Rightarrow> script \<Rightarrow> nat
    \<Rightarrow> (transaction, dlc_error) res" where
  "sign_cet api cet adaptor_signature oracle_signatures funding_sk other_pk witness_script fund_output_value =
     and_then (signatures_to_secret api oracle_signatures) (\<lambda>adaptor_secret.
     and_then (ok_or Secp256k1 (adaptor_decrypt api adaptor_signature adaptor_secret)) (\<lambda>adapted_sig.
       sign_multi_sig_input api cet adapted_sig other_pk funding_sk witness_script fund_output_value 0))"

definition verify_cet_adaptor_sig_from_point ::
  "('m) crypto_api_scheme \<Rightarrow> adaptor_sig \<Rightarrow> transaction \<Rightarrow> pubkey \<Rightarrow> pubkey \<Rightarrow> script \<Rightarrow> nat \<Rightarrow> (unit, dlc_error) res" where
  "verify_cet_adaptor_sig_from_point api adaptor_sig cet adaptor_point pubkey witness_script total_collateral =
     and_then (get_sig_hash_msg api cet 0 witness_script total_collateral) (\<lambda>sig_hash.
       if adaptor_verify api adaptor_sig sig_hash pubkey adaptor_point then Ok () else Err Secp256k1)"

definition verify_cet_adaptor_sig_from_oracle_info ::
  "('m) crypto_api_scheme \<Rightarrow> adaptor_sig \<Rightarrow> transaction \<Rightarrow> oracle_info list \<Rightarrow> pubkey \<Rightarrow> script \<Rightarrow> nat
    \<Rightarrow> message list list \<Rightarrow> (unit, dlc_error) res" where
  "verify_cet_adaptor_sig_from_oracle_info api adaptor_sig cet oracle_infos pubkey witness_script total_collateral msgs =
     and_then (get_adaptor_point_from_oracle_info api oracle_infos msgs) (\<lambda>adaptor_point.
       verify_cet_adaptor_sig_from_point api adaptor_sig cet adaptor_point pubkey witness_script total_collateral)"

text \<open>The point of the paths of several oracles, from the points of their single digits.\<close>

definition get_adaptor_point_for_indexed_paths ::
  "('m) crypto_api_scheme \<Rightarrow> nat list \<Rightarrow> nat list list \<Rightarrow> pubkey list list list \<Rightarrow> (pubkey, dlc_error) res" where
  "get_adaptor_point_for_indexed_paths api indexes paths precomputed_points =
     and_then (assert_that (length indexes = length paths)) (\<lambda>_.
     and_then (assert_that (length indexes \<le> length precomputed_points)) (\<lambda>_.
     if indexes = [] then Err InvalidArgument
     else
       and_then (traverse (\<lambda>(i, j).
           and_then (index paths i) (\<lambda>path.
           and_then (index precomputed_points j) (\<lambda>points.
             traverse (\<lambda>(y, p). index y p) (zip points path)))) (enumerate 0 indexes)) (\<lambda>keys.
         ok_or Secp256k1 (combine_keys api (concat keys)))))"

section \<open>DLC inputs\<close>

definition create_dlc_input_funding_script :: "dlc_input_info \<Rightarrow> script" where
  "create_dlc_input_funding_script dlc_input =
     make_funding_redeemscript (di_local_fund_pubkey dlc_input) (di_remote_fund_pubkey dlc_input)"

definition create_dlc_funding_input_signature ::
  "('m) crypto_api_scheme \<Rightarrow> transaction \<Rightarrow> nat \<Rightarrow> dlc_input_info \<Rightarrow> seckey \<Rightarrow> (bytes, dlc_error) res" where
  "create_dlc_funding_input_signature api fund_transaction input_index dlc_input privkey =
     and_then (get_sig_hash_msg api fund_transaction input_index (create_dlc_input_funding_script dlc_input)
                 (di_fund_amount dlc_input)) (\<lambda>msg.
       Ok (finalize_sig api (ecdsa_sign api msg privkey) SIGHASH_ALL))"

definition verify_dlc_funding_input_signature ::
  "('m) crypto_api_scheme \<Rightarrow> transaction \<Rightarrow> nat \<Rightarrow> dlc_input_info \<Rightarrow> bytes \<Rightarrow> pubkey \<Rightarrow> (unit, dlc_error) res" where
  "verify_dlc_funding_input_signature api fund_transaction input_index dlc_input signature pubkey =
     and_then (if length signature = 64 then ok_or Secp256k1 (sig_from_compact api signature)
               else and_then (usub (length signature) 1) (\<lambda>n.
                      ok_or Secp256k1 (sig_from_der api (take n signature)))) (\<lambda>sig.
       verify_tx_input_sig api sig fund_transaction input_index (create_dlc_input_funding_script dlc_input)
         (di_fund_amount dlc_input) pubkey)"

definition combine_dlc_input_signatures ::
  "dlc_input_info \<Rightarrow> bytes \<Rightarrow> bytes \<Rightarrow> pubkey \<Rightarrow> pubkey \<Rightarrow> bytes list" where
  "combine_dlc_input_signatures dlc_input my_signature other_signature my_pubkey other_pubkey =
     (let (first_sig, second_sig) =
        (if bytes_le my_pubkey other_pubkey then (my_signature, other_signature) else (other_signature, my_signature))
      in [[], first_sig, second_sig, create_dlc_input_funding_script dlc_input])"

section \<open>What the libraries promise\<close>

text \<open>
  The scalars are added modulo the order \<open>n\<close> of the group, a sum of zero is refused, and the public
  key of a sum is the combination of the public keys.  An adaptor signature that was encrypted
  verifies; one that verifies decrypts, with the secret of its point, to a signature that verifies.
  The signature hash exists exactly for an index in range and does not depend on witnesses.
\<close>

definition same_but_witness :: "transaction \<Rightarrow> transaction \<Rightarrow> bool" where
  "same_but_witness tx tx' \<longleftrightarrow>
     (\<exists>ws. length ws = length (tx_input tx) \<and>
       tx' = tx\<lparr>tx_input := map2 (\<lambda>i w. i\<lparr>tx_witness := w\<rparr>) (tx_input tx) ws\<rparr>)"

definition crypto_ok :: "nat \<Rightarrow> ('m) crypto_api_scheme \<Rightarrow> bool" where
  "crypto_ok n api \<longleftrightarrow>
     (\<forall>a b. sk_add_tweak api a b = (if (a + b) mod n = 0 then None else Some ((a + b) mod n))) \<and>
     (\<forall>ss. ss \<noteq> [] \<longrightarrow> combine_keys api (map (pk_of_sk api) ss) =
       (if sum_list ss mod n = 0 then None else Some (pk_of_sk api (sum_list ss mod n)))) \<and>
     (\<forall>b s. seckey_from_slice api b = Some s \<longrightarrow> 0 < s \<and> s < n) \<and>
     (\<forall>msg sk. ecdsa_verify api msg (ecdsa_sign api msg sk) (pk_of_sk api sk)) \<and>
     (\<forall>msg sk p. adaptor_verify api (adaptor_encrypt api msg sk p) msg (pk_of_sk api sk) p) \<and>
     (\<forall>a msg pk s. adaptor_verify api a msg pk (pk_of_sk api s) \<longrightarrow>
       (\<exists>sig. adaptor_decrypt api a s = Some sig \<and> ecdsa_verify api msg sig pk)) \<and>
     (\<forall>tx i s v. sighash_all api tx i s v = None \<longleftrightarrow> length (tx_input tx) \<le> i) \<and>
     (\<forall>tx tx' i s v. same_but_witness tx tx' \<longrightarrow> sighash_all api tx' i s v = sighash_all api tx i s v)"

lemma crypto_okD:
  assumes "crypto_ok n api"
  shows "sk_add_tweak api a b = (if (a + b) mod n = 0 then None else Some ((a + b) mod n))"
    and "ss \<noteq> [] \<Longrightarrow> combine_keys api (map (pk_of_sk api) ss) =
       (if sum_list ss mod n = 0 then None else Some (pk_of_sk api (sum_list ss mod n)))"
    and "seckey_from_slice api b' = Some s \<Longrightarrow> 0 < s \<and> s < n"
    and "ecdsa_verify api msg (ecdsa_sign api msg sk) (pk_of_sk api sk)"
    and "adaptor_verify api (adaptor_encrypt api msg sk p) msg (pk_of_sk api sk) p"
    and "adaptor_verify api a' msg pk (pk_of_sk api s) \<Longrightarrow>
       \<exists>sig. adaptor_decrypt api a' s = Some sig \<and> ecdsa_verify api msg sig pk"
    and "sighash_all api tx i scr v = None \<longleftrightarrow> length (tx_input tx) \<le> i"
    and "same_but_witness tx tx' \<Longrightarrow> sighash_all api tx' i scr v = sighash_all api tx i scr v"
  using assms by (simp_all add: crypto_ok_def)

section \<open>Witnesses of the 2-of-2 script\<close>

text \<open>
  The input spends an output with the script of the keys \<open>a\<close> and \<open>b\<close>: the witness has a
  signature for each key, in the order of the script.
\<close>

definition spends_multisig :: "('m) crypto_api_scheme \<Rightarrow> transaction \<Rightarrow> nat \<Rightarrow> nat \<Rightarrow> pubkey \<Rightarrow> pubkey \<Rightarrow> bool" where
  "spends_multisig api tx i val a b \<longleftrightarrow>
     (let scr = make_funding_redeemscript a b;
          (first, second) = (if bytes_le a b then (a, b) else (b, a)) in
      i < length (tx_input tx) \<and>
      (\<exists>msg s1 s2. sighash_all api tx i scr val = Some msg \<and>
        tx_witness (tx_input tx ! i) = [[], finalize_sig api s1 SIGHASH_ALL, finalize_sig api s2 SIGHASH_ALL, scr] \<and>
        ecdsa_verify api msg s1 first \<and> ecdsa_verify api msg s2 second))"

lemma same_but_witness_set:
  assumes "i < length (tx_input tx)"
  shows "same_but_witness tx (tx\<lparr>tx_input := (tx_input tx)[i := (tx_input tx ! i)\<lparr>tx_witness := w\<rparr>]\<rparr>)"
proof -
  let ?ws = "(map tx_witness (tx_input tx))[i := w]"
  have "(tx_input tx)[i := (tx_input tx ! i)\<lparr>tx_witness := w\<rparr>] = map2 (\<lambda>i w. i\<lparr>tx_witness := w\<rparr>) (tx_input tx) ?ws"
  proof (rule nth_equalityI)
    fix j assume "j < length ((tx_input tx)[i := (tx_input tx ! i)\<lparr>tx_witness := w\<rparr>])"
    then show "(tx_input tx)[i := (tx_input tx ! i)\<lparr>tx_witness := w\<rparr>] ! j = map2 (\<lambda>i w. i\<lparr>tx_witness := w\<rparr>) (tx_input tx) ?ws ! j"
      by (cases "j = i"; cases "tx_input tx ! j") (simp_all add: nth_list_update)
  qed simp
  then show ?thesis unfolding same_but_witness_def by (intro exI [of _ ?ws]) simp
qed

lemma spends_multisigI:
  assumes ok: "crypto_ok n api" and i: "i < length (tx_input tx)"
    and msg: "sighash_all api tx i (make_funding_redeemscript a b) val = Some msg"
    and v: "ecdsa_verify api msg sa a" "ecdsa_verify api msg sb b"
    and w: "w = (if bytes_le a b then [[], finalize_sig api sa SIGHASH_ALL, finalize_sig api sb SIGHASH_ALL, make_funding_redeemscript a b]
        else [[], finalize_sig api sb SIGHASH_ALL, finalize_sig api sa SIGHASH_ALL, make_funding_redeemscript a b])"
  shows "spends_multisig api (tx\<lparr>tx_input := (tx_input tx)[i := (tx_input tx ! i)\<lparr>tx_witness := w\<rparr>]\<rparr>) i val a b"
  using v i crypto_okD(8) [OF ok same_but_witness_set [OF i]] msg
  by (auto simp: spends_multisig_def w Let_def)

text \<open>Completing the signature of the counterparty.\<close>

lemma sign_multi_sig_input_spends:
  assumes ok: "crypto_ok n api" and i: "i < length (tx_input tx)"
    and msg: "sighash_all api tx i (make_funding_redeemscript (pk_of_sk api sk) other_pk) val = Some msg"
    and v: "ecdsa_verify api msg other_sig other_pk"
  shows "\<exists>tx'. sign_multi_sig_input api tx other_sig other_pk sk (make_funding_redeemscript (pk_of_sk api sk) other_pk) val i = Ok tx' \<and>
    spends_multisig api tx' i val (pk_of_sk api sk) other_pk \<and> same_but_witness tx tx'"
proof -
  let ?a = "pk_of_sk api sk" and ?own = "ecdsa_sign api msg sk"
  let ?scr = "make_funding_redeemscript ?a other_pk"
  let ?w = "if bytes_le ?a other_pk \<and> ?a \<noteq> other_pk
      then [[], finalize_sig api ?own SIGHASH_ALL, finalize_sig api other_sig SIGHASH_ALL, ?scr]
      else [[], finalize_sig api other_sig SIGHASH_ALL, finalize_sig api ?own SIGHASH_ALL, ?scr]"
  let ?tx = "tx\<lparr>tx_input := (tx_input tx)[i := (tx_input tx ! i)\<lparr>tx_witness := ?w\<rparr>]\<rparr>"
  have run: "sign_multi_sig_input api tx other_sig other_pk sk ?scr val i = Ok ?tx"
    using i msg by (simp add: sign_multi_sig_input_def get_sig_for_tx_input_def get_raw_sig_for_tx_input_def
        get_sig_hash_msg_def set_witness_def index_def Let_def)
  have own: "ecdsa_verify api msg ?own ?a" by (rule crypto_okD(4) [OF ok])
  have "spends_multisig api ?tx i val ?a other_pk"
  proof (cases "?a = other_pk")
    case True
    then show ?thesis using i v own crypto_okD(8) [OF ok same_but_witness_set [OF i]] msg
      by (auto simp: spends_multisig_def Let_def)
  next
    case False
    then show ?thesis by (intro spends_multisigI [OF ok i msg own v]) simp
  qed
  then show ?thesis using run same_but_witness_set [OF i] by blast
qed

section \<open>The sum of the oracles' scalars\<close>

text \<open>A signature of an oracle: its nonce is the announced one and its scalar has the announced point.\<close>

definition attests :: "('m) crypto_api_scheme \<Rightarrow> xonly \<Rightarrow> xonly \<Rightarrow> message \<Rightarrow> schnorr_sig \<Rightarrow> bool" where
  "attests api pubkey nonce msg sig \<longleftrightarrow>
     xonly_from_slice api (take 32 sig) = Some nonce \<and>
     (\<exists>s. seckey_from_slice api (take 32 (drop 32 sig)) = Some s \<and>
       schnorrsig_compute_sig_point api pubkey nonce msg = Ok (pk_of_sk api s))"

definition sig_scalar :: "('m) crypto_api_scheme \<Rightarrow> schnorr_sig \<Rightarrow> nat" where
  "sig_scalar api sig = the (seckey_from_slice api (take 32 (drop 32 sig)))"

lemma attestsD:
  assumes "attests api pubkey nonce msg sig"
  shows "schnorrsig_decompose api sig = Ok (nonce, take 32 (drop 32 sig))"
    and "seckey_from_slice api (take 32 (drop 32 sig)) = Some (sig_scalar api sig)"
    and "schnorrsig_compute_sig_point api pubkey nonce msg = Ok (pk_of_sk api (sig_scalar api sig))"
  using assms by (auto simp: attests_def schnorrsig_decompose_def sig_scalar_def)

lemma fold_tweak:
  assumes ok: "crypto_ok n api"
    and "fold_res (\<lambda>s accum. and_then (unwrap (seckey_from_slice api s)) (\<lambda>sec. unwrap (sk_add_tweak api accum sec))) bs a = (Ok s :: (_, dlc_error) res)"
    and "list_all2 (\<lambda>b x. seckey_from_slice api b = Some x) bs xs" "a mod n = a"
  shows "s = (a + sum_list xs) mod n"
  using assms(2-)
proof (induction bs arbitrary: a xs)
  case (Cons b bs)
  obtain x xs' where xs: "xs = x # xs'" "seckey_from_slice api b = Some x" "list_all2 (\<lambda>b x. seckey_from_slice api b = Some x) bs xs'"
    using Cons.prems(2) by (auto simp: list_all2_Cons1)
  have "sk_add_tweak api a x = Some ((a + x) mod n)"
    and f: "fold_res (\<lambda>s accum. and_then (unwrap (seckey_from_slice api s)) (\<lambda>sec. unwrap (sk_add_tweak api accum sec))) bs ((a + x) mod n) = (Ok s :: (_, dlc_error) res)"
    using Cons.prems(1) xs(2) by (auto simp: res_simps crypto_okD(1) [OF ok] split: if_splits)
  have "s = ((a + x) mod n + sum_list xs') mod n" by (rule Cons.IH [OF f xs(3)]) simp
  then show ?case by (simp add: xs(1) mod_simps add.assoc)
qed simp

lemma signatures_to_secret_sum:
  assumes ok: "crypto_ok n api" and s: "signatures_to_secret api sigs = Ok secret"
    and a: "\<forall>sig\<in>set (concat sigs). \<exists>pk nonce msg. attests api pk nonce msg sig"
  shows "secret = sum_list (map (sig_scalar api) (concat sigs)) mod n"
proof -
  have "and_then (schnorrsig_decompose api sig) (\<lambda>v. Ok (snd v)) = (Ok (take 32 (drop 32 sig)) :: (_, dlc_error) res)"
    if sig: "sig \<in> set (concat sigs)" for sig
  proof -
    obtain pk nonce msg where "attests api pk nonce msg sig" using a sig by blast
    then show ?thesis by (simp add: attestsD(1))
  qed
  then have t: "traverse (\<lambda>x. and_then (schnorrsig_decompose api x) (\<lambda>v. Ok (snd v))) (concat sigs) =
      (Ok (map (\<lambda>sig. take 32 (drop 32 sig)) (concat sigs)) :: (_, dlc_error) res)"
    by (intro traverse_all_Ok) blast
  obtain sig rest where c: "concat sigs = sig # rest"
    using s by (cases "concat sigs") (auto simp: signatures_to_secret_def t index_def)
  have key: "seckey_from_slice api (take 32 (drop 32 x)) = Some (sig_scalar api x)" if "x \<in> set (concat sigs)" for x
    using a that attestsD(2) by blast
  have "list_all2 (\<lambda>b x. seckey_from_slice api b = Some x) (map (\<lambda>sig. take 32 (drop 32 sig)) rest) (map (sig_scalar api) rest)"
    using key c by (auto simp: list_all2_conv_all_nth)
  moreover have "sig_scalar api sig mod n = sig_scalar api sig"
    using crypto_okD(3) [OF ok key [of sig]] c by simp
  moreover have "fold_res (\<lambda>s accum. and_then (unwrap (seckey_from_slice api s)) (\<lambda>sec. unwrap (sk_add_tweak api accum sec)))
      (map (\<lambda>sig. take 32 (drop 32 sig)) rest) (sig_scalar api sig) = (Ok secret :: (_, dlc_error) res)"
    using s [unfolded signatures_to_secret_def t and_then_simps] key [of sig] by (simp add: c index_def)
  ultimately show ?thesis using fold_tweak [OF ok] by (fastforce simp: c)
qed


text \<open>The signatures of several oracles on the messages of one outcome.\<close>

definition attested :: "('m) crypto_api_scheme \<Rightarrow> oracle_info list \<Rightarrow> message list list \<Rightarrow> schnorr_sig list list \<Rightarrow> bool" where
  "attested api infos msgs sigs \<longleftrightarrow> length sigs = length infos \<and> length infos \<le> length msgs \<and>
     (\<forall>i<length infos. sigs ! i \<noteq> [] \<and>
       list_all2 (\<lambda>(nonce, msg) sig. attests api (oi_public_key (infos ! i)) nonce msg sig)
         (zip (oi_nonces (infos ! i)) (msgs ! i)) (sigs ! i))"

lemma oracle_point:
  assumes ok: "crypto_ok n api" and p: "get_oracle_sig_point api info msgs = Ok p" "sigs \<noteq> []"
    and a: "list_all2 (\<lambda>(nonce, msg) sig. attests api (oi_public_key info) nonce msg sig) (zip (oi_nonces info) msgs) sigs"
  shows "p = pk_of_sk api (sum_list (map (sig_scalar api) sigs) mod n)"
proof -
  have t: "traverse (\<lambda>(nonce, msg). schnorrsig_compute_sig_point api (oi_public_key info) nonce msg) (zip (oi_nonces info) msgs) =
      Ok (map (pk_of_sk api) (map (sig_scalar api) sigs))"
    using a unfolding traverse_Ok_iff list_all2_map2
    by (rule list_all2_mono) (auto dest: attestsD(3))
  have "map (sig_scalar api) sigs \<noteq> []" using p(2) by simp
  from p(1) crypto_okD(2) [OF ok this] show ?thesis
    by (auto simp: get_oracle_sig_point_def t split: if_splits)
qed

lemma sum_list_mod: "sum_list (map (\<lambda>x. f x mod n) xs) mod n = sum_list (map f xs) mod (n :: nat)"
  by (induction xs) (auto simp: mod_simps; metis mod_add_eq)+

lemma sum_list_concat: "sum_list (map f (concat xss)) = sum_list (map (\<lambda>xs. sum_list (map f xs)) xss)"
  for f :: "'a \<Rightarrow> nat"
  by (induction xss) auto

lemma adaptor_point:
  assumes ok: "crypto_ok n api" and p: "get_adaptor_point_from_oracle_info api infos msgs = Ok p"
    and a: "attested api infos msgs sigs"
  shows "p = pk_of_sk api (sum_list (map (sig_scalar api) (concat sigs)) mod n)"
proof -
  let ?part = "\<lambda>sigs. sum_list (map (sig_scalar api) sigs) mod n"
  obtain ps where ps: "traverse (\<lambda>(i, info). and_then (index msgs i) (get_oracle_sig_point api info)) (enumerate 0 infos) =
      (Ok ps :: (_, dlc_error) res)" "ok_or Secp256k1 (combine_keys api ps) = (Ok p :: (_, dlc_error) res)" "infos \<noteq> []"
    using p by (auto simp: get_adaptor_point_from_oracle_info_def res_simps split: if_splits)
  have "ps = map (pk_of_sk api) (map ?part sigs)"
  proof (rule nth_equalityI)
    show l: "length ps = length (map (pk_of_sk api) (map ?part sigs))"
      using traverse_length [OF ps(1)] a by (simp add: attested_def)
    fix i assume "i < length ps"
    then have i: "i < length infos" "i < length sigs" "i < length msgs" using l a by (auto simp: attested_def)
    then have "get_oracle_sig_point api (infos ! i) (msgs ! i) = Ok (ps ! i)"
      using ps(1) l a unfolding traverse_Ok_iff
      by (auto simp: list_all2_conv_all_nth nth_enumerate_eq attested_def index_def)
    then have "ps ! i = pk_of_sk api (?part (sigs ! i))"
      by (rule oracle_point [OF ok]) (use a i in \<open>auto simp: attested_def\<close>)
    then show "ps ! i = map (pk_of_sk api) (map ?part sigs) ! i" using i by simp
  qed
  moreover have "map ?part sigs \<noteq> []" using a ps(3) by (auto simp: attested_def)
  ultimately have "p = pk_of_sk api (sum_list (map ?part sigs) mod n)"
    using ps(2) crypto_okD(2) [OF ok, of "map ?part sigs"] by (auto split: if_splits)
  then show ?thesis
    by (simp add: sum_list_mod sum_list_concat)
qed

section \<open>Properties\<close>

text \<open>
  What a contract rests on: an adaptor signature of the counterparty that
  \<open>verify_cet_adaptor_sig_from_oracle_info\<close> accepts becomes, with signatures of the oracles on
  these messages, a CET that spends the fund output.  \<open>sign_cet\<close> succeeds whenever the sum of the
  oracles' scalars can be computed, the witness of the CET satisfies the 2-of-2 script of the two
  keys, and nothing but the witness of the CET changes.
\<close>

theorem sign_cet_spends:
  assumes "crypto_ok n api"
    and "verify_cet_adaptor_sig_from_oracle_info api adaptor_sig cet infos other_pk
      (make_funding_redeemscript (pk_of_sk api sk) other_pk) val msgs = Ok ()"
    and "attested api infos msgs sigs" "signatures_to_secret api sigs = Ok secret"
  shows "\<exists>cet'. sign_cet api cet adaptor_sig sigs sk other_pk (make_funding_redeemscript (pk_of_sk api sk) other_pk) val = Ok cet' \<and>
    spends_multisig api cet' 0 val (pk_of_sk api sk) other_pk \<and> same_but_witness cet cet'"
proof -
  let ?scr = "make_funding_redeemscript (pk_of_sk api sk) other_pk"
  obtain p msg where p: "get_adaptor_point_from_oracle_info api infos msgs = Ok p"
    and m: "sighash_all api cet 0 ?scr val = Some msg" and v: "adaptor_verify api adaptor_sig msg other_pk p"
    using assms(2) by (auto simp: verify_cet_adaptor_sig_from_oracle_info_def verify_cet_adaptor_sig_from_point_def
        get_sig_hash_msg_def res_simps split: if_splits)
  have "\<exists>pk nonce msg. attests api pk nonce msg sig" if sig: "sig \<in> set (concat sigs)" for sig
  proof -
    obtain i j where "i < length infos" "j < length (sigs ! i)" "sig = sigs ! i ! j"
      using sig assms(3) by (auto simp: attested_def in_set_conv_nth)
    moreover from this have "list_all2 (\<lambda>(nonce, msg) sig. attests api (oi_public_key (infos ! i)) nonce msg sig)
        (zip (oi_nonces (infos ! i)) (msgs ! i)) (sigs ! i)"
      using assms(3) unfolding attested_def by blast
    ultimately have "\<exists>nonce msg. attests api (oi_public_key (infos ! i)) nonce msg sig"
      by (auto dest!: list_all2_nthD2 split: prod.splits)
    then show ?thesis by blast
  qed
  then have "p = pk_of_sk api secret"
    using adaptor_point [OF assms(1) p assms(3)] signatures_to_secret_sum [OF assms(1,4)] by auto
  then obtain sig where sig: "adaptor_decrypt api adaptor_sig secret = Some sig" "ecdsa_verify api msg sig other_pk"
    using crypto_okD(6) [OF assms(1)] v by blast
  have i: "0 < length (tx_input cet)" using crypto_okD(7) [OF assms(1), of cet 0 ?scr val] m by simp
  from sign_multi_sig_input_spends [OF assms(1) i m sig(2)] show ?thesis
    by (simp add: sign_cet_def assms(4) sig(1))
qed


definition example_crypto :: crypto_api where
  "example_crypto = bitcoin_api.extend example_api (crypto_api.fields
     (\<lambda>tx i s v. if i < length (tx_input tx) then Some [1] else None) (\<lambda>msg sk. [sk]) (\<lambda>msg sig pk. hd sig = hd pk)
     (\<lambda>s. replicate 64 0 @ s) (\<lambda>b. Some (drop 64 b)) Some (\<lambda>sk. [sk]) (\<lambda>pk. pk) (\<lambda>msg sk p. [sk, hd p]) (\<lambda>a s. if last a = s then Some [hd a] else None)
     (\<lambda>a msg pk p. hd a = hd pk \<and> last a = hd p \<and> length a = 2)
     (\<lambda>ps. if sum_list (map hd ps) mod 101 = 0 then None else Some [sum_list (map hd ps) mod 101])
     (\<lambda>pk k. Some [hd pk * k]) (\<lambda>b. Some (drop 1 (take 2 b))) (\<lambda>b. Some [hd b]) (\<lambda>b. b) (\<lambda>b. Some (last b))
     (\<lambda>b. if b \<noteq> [] \<and> 0 < hd b \<and> hd b < 101 then Some (hd b) else None)
     (\<lambda>a b. if (a + b) mod 101 = 0 then None else Some ((a + b) mod 101)))"

lemma example_crypto_simps [simp]:
  "sighash_all example_crypto = (\<lambda>tx i s v. if i < length (tx_input tx) then Some [1] else None)"
  "ecdsa_sign example_crypto = (\<lambda>msg sk. [sk])" "ecdsa_verify example_crypto = (\<lambda>msg sig pk. hd sig = hd pk)"
  "serialize_der example_crypto = (\<lambda>s. replicate 64 0 @ s)" "sig_from_der example_crypto = (\<lambda>b. Some (drop 64 b))" "sig_from_compact example_crypto = Some"
  "pk_of_sk example_crypto = (\<lambda>sk. [sk])" "adaptor_encrypt example_crypto = (\<lambda>msg sk p. [sk, hd p])"
  "adaptor_decrypt example_crypto = (\<lambda>a s. if last a = s then Some [hd a] else None)"
  "adaptor_verify example_crypto = (\<lambda>a msg pk p. hd a = hd pk \<and> last a = hd p \<and> length a = 2)"
  "combine_keys example_crypto = (\<lambda>ps. if sum_list (map hd ps) mod 101 = 0 then None else Some [sum_list (map hd ps) mod 101])"
  "mul_tweak example_crypto = (\<lambda>pk k. Some [hd pk * k])" "pubkey_from_slice example_crypto = (\<lambda>b. Some (drop 1 (take 2 b)))"
  "xonly_from_slice example_crypto = (\<lambda>b. Some [hd b])" "bip340_hash example_crypto = (\<lambda>b. b)"
  "scalar_from_be_bytes example_crypto = (\<lambda>b. Some (last b))"
  "seckey_from_slice example_crypto = (\<lambda>b. if b \<noteq> [] \<and> 0 < hd b \<and> hd b < 101 then Some (hd b) else None)"
  "sk_add_tweak example_crypto = (\<lambda>a b. if (a + b) mod 101 = 0 then None else Some ((a + b) mod 101))"
  by (simp_all add: example_crypto_def bitcoin_api.defs crypto_api.defs)

lemma example_crypto_ok: "crypto_ok 101 example_crypto"
proof -
  have "same_but_witness tx tx' \<Longrightarrow> length (tx_input tx') = length (tx_input tx)" for tx tx'
    by (auto simp: same_but_witness_def)
  then show ?thesis by (auto simp: crypto_ok_def comp_def)
qed

text \<open>An oracle with the key 5 and the nonce 7 that signs the message 3 in the example: 7 + 3 * 5 = 22.\<close>

definition example_cet :: transaction where
  "example_cet = \<lparr>tx_version = 2, tx_lock_time = 0,
     tx_input = [\<lparr>previous_output = \<lparr>op_txid = [9], op_vout = 0\<rparr>, script_sig = [], tx_sequence = 0, tx_witness = []\<rparr>],
     tx_output = []\<rparr>"

lemma sign_cet_spends_witness:
  "\<exists>cet'. sign_cet example_crypto example_cet [13, 22] [[7 # replicate 31 0 @ 22 # replicate 31 0]] 11 [13]
      (make_funding_redeemscript [11] [13]) 1000 = Ok cet' \<and>
    spends_multisig example_crypto cet' 0 1000 [11] [13] \<and> same_but_witness example_cet cet'"
proof -
  let ?sig = "7 # replicate 31 0 @ 22 # replicate 31 (0 :: nat)" and ?infos = "[\<lparr>oi_public_key = [5], oi_nonces = [[7]]\<rparr>]"
  have point: "schnorrsig_compute_sig_point example_crypto [5] [7] [3] = Ok [22]"
    by (simp add: schnorrsig_compute_sig_point_def create_schnorr_hash_def schnorr_pubkey_to_pubkey_def)
  have scalar: "take 32 (drop 32 ?sig) = 22 # replicate 31 0" by (simp add: numeral_eq_Suc)
  have v: "verify_cet_adaptor_sig_from_oracle_info example_crypto [13, 22] example_cet ?infos [13]
      (make_funding_redeemscript (pk_of_sk example_crypto 11) [13]) 1000 [[[3]]] = Ok ()"
    by (simp add: verify_cet_adaptor_sig_from_oracle_info_def verify_cet_adaptor_sig_from_point_def get_sig_hash_msg_def
        get_adaptor_point_from_oracle_info_def get_oracle_sig_point_def index_def point example_cet_def)
  have a: "attested example_crypto ?infos [[[3]]] [[?sig]]"
    using point scalar by (simp add: attested_def attests_def)
  have s: "signatures_to_secret example_crypto [[?sig]] = Ok 22"
    using scalar by (simp add: signatures_to_secret_def schnorrsig_decompose_def index_def)
  show ?thesis using sign_cet_spends [OF example_crypto_ok v a s] by simp
qed

lemma made_signature_verified:
  assumes "crypto_ok n api" "\<forall>s. sig_from_der api (serialize_der api s) = Some s"
    and "sighash_all api tx i (create_dlc_input_funding_script d) (di_fund_amount d) = Some msg"
    and "s = finalize_sig api (ecdsa_sign api msg sk) SIGHASH_ALL"
  shows "verify_dlc_funding_input_signature api tx i d s (pk_of_sk api sk) =
    (if length s \<noteq> 64 then Ok ()
     else and_then (ok_or Secp256k1 (sig_from_compact api s)) (\<lambda>sig.
       verify_tx_input_sig api sig tx i (create_dlc_input_funding_script d) (di_fund_amount d) (pk_of_sk api sk)))"
proof -
  have l: "length s = length (serialize_der api (ecdsa_sign api msg sk)) + 1" by (simp add: assms(4) finalize_sig_def)
  show ?thesis
    using assms(2,3) crypto_okD(4) [OF assms(1), of msg sk] unfolding verify_dlc_funding_input_signature_def l
    by (simp add: assms(4) finalize_sig_def usub_def verify_tx_input_sig_def get_sig_hash_msg_def)
qed

text \<open>
  C26. The signatures of a DLC input.  Each party signs with its key of the spliced contract, and
  \<open>combine_dlc_input_signatures\<close> orders the two signatures, in whichever order they are given, to a
  witness that spends the fund output of that contract.  \<open>verify_dlc_funding_input_signature\<close> accepts each under the
  key of its party unless it is 64 bytes long, with its flag: a DER signature of 63 bytes is taken for one in the compact
  format, and the answer is that for the signature which the compact format makes of its bytes.
\<close>

theorem dlc_input_signatures_spend:
  assumes "crypto_ok n api" "\<forall>s. sig_from_der api (serialize_der api s) = Some s"
    and "i < length (tx_input tx)" "{di_local_fund_pubkey d, di_remote_fund_pubkey d} = {pk_of_sk api sk, pk_of_sk api sk'}"
  shows "\<exists>s s'. create_dlc_funding_input_signature api tx i d sk = Ok s \<and>
    create_dlc_funding_input_signature api tx i d sk' = Ok s' \<and>
    verify_dlc_funding_input_signature api tx i d s (pk_of_sk api sk) =
      (if length s \<noteq> 64 then Ok ()
       else and_then (ok_or Secp256k1 (sig_from_compact api s)) (\<lambda>sig.
         verify_tx_input_sig api sig tx i (create_dlc_input_funding_script d) (di_fund_amount d) (pk_of_sk api sk))) \<and>
    verify_dlc_funding_input_signature api tx i d s' (pk_of_sk api sk') =
      (if length s' \<noteq> 64 then Ok ()
       else and_then (ok_or Secp256k1 (sig_from_compact api s')) (\<lambda>sig.
         verify_tx_input_sig api sig tx i (create_dlc_input_funding_script d) (di_fund_amount d) (pk_of_sk api sk'))) \<and>
    (\<exists>tx'. set_witness tx i (combine_dlc_input_signatures d s s' (pk_of_sk api sk) (pk_of_sk api sk')) = (Ok tx' :: (_, 'e) res) \<and>
      spends_multisig api tx' i (di_fund_amount d) (pk_of_sk api sk) (pk_of_sk api sk'))"
proof -
  let ?a = "pk_of_sk api sk" and ?b = "pk_of_sk api sk'" and ?val = "di_fund_amount d"
  have scr: "create_dlc_input_funding_script d = make_funding_redeemscript ?a ?b"
    using assms(4) make_funding_redeemscript_commute [of ?a ?b]
    by (auto simp: create_dlc_input_funding_script_def doubleton_eq_iff)
  obtain msg where m: "sighash_all api tx i (make_funding_redeemscript ?a ?b) ?val = Some msg"
    using crypto_okD(7) [OF assms(1), of tx i "make_funding_redeemscript ?a ?b" ?val] assms(3) by fastforce
  let ?s = "finalize_sig api (ecdsa_sign api msg sk) SIGHASH_ALL" and ?s' = "finalize_sig api (ecdsa_sign api msg sk') SIGHASH_ALL"
  have c: "create_dlc_funding_input_signature api tx i d sk = Ok ?s" "create_dlc_funding_input_signature api tx i d sk' = Ok ?s'"
    by (simp_all add: create_dlc_funding_input_signature_def get_sig_hash_msg_def scr m)
  note own = crypto_okD(4) [OF assms(1), of msg]
  note v = made_signature_verified [OF assms(1,2) m [folded scr] refl]
  let ?w = "combine_dlc_input_signatures d ?s ?s' ?a ?b"
  have "set_witness tx i ?w = (Ok (tx\<lparr>tx_input := (tx_input tx)[i := (tx_input tx ! i)\<lparr>tx_witness := ?w\<rparr>]\<rparr>) :: (_, 'e) res)"
    using assms(3) by (simp add: set_witness_def index_def)
  moreover have "spends_multisig api (tx\<lparr>tx_input := (tx_input tx)[i := (tx_input tx ! i)\<lparr>tx_witness := ?w\<rparr>]\<rparr>) i ?val ?a ?b"
    by (rule spends_multisigI [OF assms(1,3) m own own]) (simp add: combine_dlc_input_signatures_def scr)
  ultimately show ?thesis using c v by blast
qed

definition example_dlc_input :: dlc_input_info where
  "example_dlc_input = \<lparr>di_fund_tx = example_cet, di_fund_vout = 0, di_local_fund_pubkey = [13], di_remote_fund_pubkey = [11],
     di_fund_amount = 5000, di_max_witness_len = 220, di_input_serial_id = 1, di_contract_id = [4]\<rparr>"

lemma dlc_input_signatures_spend_witness:
  "\<exists>s s' tx'. create_dlc_funding_input_signature example_crypto example_cet 0 example_dlc_input 11 = Ok s \<and>
     create_dlc_funding_input_signature example_crypto example_cet 0 example_dlc_input 13 = Ok s' \<and>
     verify_dlc_funding_input_signature example_crypto example_cet 0 example_dlc_input s [11] = Ok () \<and>
     set_witness example_cet 0 (combine_dlc_input_signatures example_dlc_input s s' [11] [13]) = (Ok tx' :: (_, unit) res) \<and>
     spends_multisig example_crypto tx' 0 5000 [11] [13]"
proof -
  have h: "\<forall>s. sig_from_der example_crypto (serialize_der example_crypto s) = Some s" by simp
  have d: "0 < length (tx_input example_cet)" "{di_local_fund_pubkey example_dlc_input, di_remote_fund_pubkey example_dlc_input} =
      {pk_of_sk example_crypto 11, pk_of_sk example_crypto 13}"
    by (auto simp: example_cet_def example_dlc_input_def)
  have k: "length s \<noteq> 64" if "create_dlc_funding_input_signature example_crypto example_cet 0 example_dlc_input 11 = Ok s" for s
    using that
    by (auto simp: create_dlc_funding_input_signature_def get_sig_hash_msg_def finalize_sig_def res_simps split: option.splits)
  show ?thesis
    using dlc_input_signatures_spend [OF example_crypto_ok h d, where ?'e = unit] k by (auto simp: example_dlc_input_def)
qed

text \<open>
  The sighash byte at the end of a DER signature is dropped before the verification and put in the
  witness as it is: a signature is accepted whatever this byte is.
\<close>

lemma sighash_byte_not_verified:
  assumes "length sig \<noteq> 63"
  shows "verify_dlc_funding_input_signature api tx i d (sig @ [b]) pk = verify_dlc_funding_input_signature api tx i d (sig @ [c]) pk"
  using assms by (simp add: verify_dlc_funding_input_signature_def usub_def)

end
