(* ===== verification/Channel_Transactions.thy ===== *)
theory Channel_Transactions
  imports Signatures
begin

text \<open>
  \<open>dlc/src/channel/mod.rs\<close>: the transactions of a DLC channel.  The fund output is spent by
  a buffer transaction, whose output the CETs spend, or by a settle transaction; a party that
  publishes a revoked one of them can be punished.  The output scripts are miniscripts: the
  format strings of the code are values of \<open>miniscript\<close>, one constructor for each fragment they
  use, and \<open>spendable\<close> is the meaning the miniscript reference gives them.  What the
  \<open>miniscript\<close> crate computes from a descriptor are fields of the record \<open>channel_api\<close>.
\<close>

section \<open>Scripts\<close>

datatype miniscript =
    Pk_k pubkey | Pk_h pubkey | Older nat
  | C miniscript | V miniscript
  | And_v miniscript miniscript
  | And_or miniscript miniscript miniscript
  | Or_i miniscript miniscript

datatype descriptor = Wsh miniscript

definition Pk :: "pubkey \<Rightarrow> miniscript" where "Pk k = C (Pk_k k)"
definition Pkh :: "pubkey \<Rightarrow> miniscript" where "Pkh k = C (Pk_h k)"

record revoke_params =
  own_pk :: pubkey
  publish_pk :: pubkey
  revoke_pk :: pubkey

text \<open>
  Parsing the descriptor (\<open>expect\<close>ed to succeed), its \<open>script_pubkey\<close> and \<open>script_code\<close>,
  \<open>satisfy\<close> (the input with its witness, or an error), and \<open>VarInt::size\<close>.
\<close>

record channel_api = crypto_api +
  ms_valid :: "descriptor \<Rightarrow> bool"
  ms_script_pubkey :: "descriptor \<Rightarrow> script"
  ms_script_code :: "descriptor \<Rightarrow> script option"
  ms_satisfy :: "descriptor \<Rightarrow> tx_in \<Rightarrow> (pubkey \<times> bytes) list \<Rightarrow> tx_in option"
  var_int_size :: "nat \<Rightarrow> nat"

definition buffer_descriptor :: "channel_api \<Rightarrow> revoke_params \<Rightarrow> revoke_params \<Rightarrow> (descriptor, 'e) res" where
  "buffer_descriptor api offer_revoke_params accept_revoke_params =
     (let offer_pk = own_pk offer_revoke_params;
          accept_pk = own_pk accept_revoke_params;
          accept_publish_pk = publish_pk accept_revoke_params;
          accept_revoke_pk = revoke_pk accept_revoke_params;
          offer_publish_pk = publish_pk offer_revoke_params;
          offer_revoke_pk = revoke_pk offer_revoke_params;
          (first_pk, second_pk) =
            (if bytes_le offer_pk accept_pk \<and> offer_pk \<noteq> accept_pk then (offer_pk, accept_pk)
             else (accept_pk, offer_pk));
          d = Wsh (C (And_or (Pk first_pk) (Pk_k second_pk)
                (Or_i (And_v (V (Pkh offer_pk)) (And_v (V (Pkh accept_publish_pk)) (Pk_h accept_revoke_pk)))
                      (And_v (V (Pkh accept_pk)) (And_v (V (Pkh offer_publish_pk)) (Pk_h offer_revoke_pk))))))
      in if ms_valid api d then Ok d else Panic)"

definition settle_descriptor :: "channel_api \<Rightarrow> revoke_params \<Rightarrow> pubkey \<Rightarrow> nat \<Rightarrow> (descriptor, 'e) res" where
  "settle_descriptor api payee_revoke_params counter_pk csv_timelock =
     (let d = Wsh (And_or (Pk (own_pk payee_revoke_params)) (Older csv_timelock)
                (And_v (V (Pk counter_pk))
                  (And_v (V (Pk (publish_pk payee_revoke_params))) (Pk (revoke_pk payee_revoke_params)))))
      in if ms_valid api d then Ok d else Panic)"

section \<open>Transactions\<close>

definition BUFFER_TX_WEIGHT :: nat where "BUFFER_TX_WEIGHT = 599"
definition CET_EXTRA_WEIGHT :: nat where "CET_EXTRA_WEIGHT = 330"
definition SETTLE_INPUT_WEIGHT :: nat where "SETTLE_INPUT_WEIGHT = 428"
definition SETTLE_OUTPUT_WEIGHT :: nat where "SETTLE_OUTPUT_WEIGHT = 172"
definition PUNISH_BUFFER_INPUT_WEIGHT :: nat where "PUNISH_BUFFER_INPUT_WEIGHT = 758"
definition PUNISH_SETTLE_INPUT_WEIGHT :: nat where "PUNISH_SETTLE_INPUT_WEIGHT = 575"
definition N_VALUE_WEIGHT :: nat where "N_VALUE_WEIGHT = 8 * 4"

record dlc_channel_transactions =
  dc_dlc_transactions :: dlc_transactions
  buffer_transaction :: transaction
  buffer_script_pubkey :: script

definition create_buffer_transaction :: "channel_api \<Rightarrow> tx_in \<Rightarrow> descriptor \<Rightarrow> nat \<Rightarrow> nat \<Rightarrow> transaction" where
  "create_buffer_transaction api fund_tx_in desc total_collateral lock_time =
     \<lparr>tx_version = TX_VERSION, tx_lock_time = lock_time, tx_input = [fund_tx_in],
      tx_output = [\<lparr>out_value = total_collateral, script_pubkey = ms_script_pubkey api desc\<rparr>]\<rparr>"

definition udiv :: "nat \<Rightarrow> nat \<Rightarrow> (nat, 'e) res" where
  "udiv a b = (if b = 0 then Panic else Ok (a div b))"

definition create_settle_transaction ::
  "channel_api \<Rightarrow> tx_in \<Rightarrow> revoke_params \<Rightarrow> revoke_params \<Rightarrow> nat \<Rightarrow> nat \<Rightarrow> nat \<Rightarrow> nat \<Rightarrow> nat \<Rightarrow> nat
    \<Rightarrow> (transaction, dlc_error) res" where
  "create_settle_transaction api fund_tx_in offer_revoke_params accept_revoke_params offer_payout accept_payout
     csv_timelock lock_time fund_output_value fee_rate_per_vb =
     and_then (settle_descriptor api offer_revoke_params (own_pk accept_revoke_params) csv_timelock) (\<lambda>offer_descriptor.
     and_then (settle_descriptor api accept_revoke_params (own_pk offer_revoke_params) csv_timelock) (\<lambda>accept_descriptor.
     let output = discard_dust
           [\<lparr>out_value = offer_payout, script_pubkey = ms_script_pubkey api offer_descriptor\<rparr>,
            \<lparr>out_value = accept_payout, script_pubkey = ms_script_pubkey api accept_descriptor\<rparr>] DUST_LIMIT in
     and_then (usub fund_output_value offer_payout) (\<lambda>v1.
     and_then (usub v1 accept_payout) (\<lambda>v2.
     and_then (weight_to_fee (SETTLE_INPUT_WEIGHT + length output * SETTLE_OUTPUT_WEIGHT) fee_rate_per_vb) (\<lambda>fee.
     and_then (usub v2 fee) (\<lambda>v3.
     and_then (udiv v3 (length output)) (\<lambda>remaining_fee.
     and_then (traverse (\<lambda>o'. and_then (uadd (out_value o') remaining_fee) (\<lambda>v. Ok (o'\<lparr>out_value := v\<rparr>))) output) (\<lambda>output'.
       Ok \<lparr>tx_version = TX_VERSION, tx_lock_time = lock_time, tx_input = [fund_tx_in], tx_output = output'\<rparr>))))))))"

definition create_renewal_channel_transactions ::
  "channel_api \<Rightarrow> party_params \<Rightarrow> party_params \<Rightarrow> revoke_params \<Rightarrow> revoke_params \<Rightarrow> transaction \<Rightarrow> script
    \<Rightarrow> payout list \<Rightarrow> nat \<Rightarrow> nat \<Rightarrow> nat \<Rightarrow> nat \<Rightarrow> nat \<Rightarrow> (dlc_channel_transactions, dlc_error) res" where
  "create_renewal_channel_transactions api offer_params accept_params offer_revoke_params accept_revoke_params
     fund_tx witness_script payouts refund_lock_time fee_rate_per_vb cet_lock_time cet_nsequence contract_flags =
     and_then (weight_to_fee (BUFFER_TX_WEIGHT + CET_EXTRA_WEIGHT) fee_rate_per_vb) (\<lambda>extra_fee.
     and_then (unwrap (get_output_for_script_pubkey fund_tx (to_p2wsh api witness_script))) (\<lambda>(fund_vout, fund_output).
     let tx_in = \<lparr>previous_output = \<lparr>op_txid = compute_txid api fund_tx, op_vout = as_u32 fund_vout\<rparr>,
           script_sig = [], tx_sequence = get_sequence cet_lock_time, tx_witness = []\<rparr> in
     and_then (buffer_descriptor api offer_revoke_params accept_revoke_params) (\<lambda>desc.
     and_then (usub (out_value fund_output) extra_fee) (\<lambda>buffer_value.
     let buffer = create_buffer_transaction api tx_in desc buffer_value cet_lock_time;
         outpoint = \<lparr>op_txid = compute_txid api buffer, op_vout = 0\<rparr> in
     and_then (create_cets_and_refund_tx offer_params accept_params outpoint payouts refund_lock_time cet_lock_time
                (Some cet_nsequence) contract_flags) (\<lambda>(cets, refund).
     and_then (ok_or Miniscript (ms_script_code api desc)) (\<lambda>code.
       Ok \<lparr>dc_dlc_transactions = \<lparr>dlc_fund = fund_tx, dlc_cets = cets, dlc_refund = refund,
             funding_witness_script = witness_script, pending_close_txs = []\<rparr>,
           buffer_transaction = buffer, buffer_script_pubkey = code\<rparr>))))))"

definition create_channel_transactions ::
  "channel_api \<Rightarrow> party_params \<Rightarrow> party_params \<Rightarrow> revoke_params \<Rightarrow> revoke_params \<Rightarrow> payout list \<Rightarrow> nat \<Rightarrow> nat
    \<Rightarrow> nat \<Rightarrow> nat \<Rightarrow> nat \<Rightarrow> nat \<Rightarrow> nat \<Rightarrow> (dlc_channel_transactions, dlc_error) res" where
  "create_channel_transactions api offer_params accept_params offer_revoke_params accept_revoke_params payouts
     refund_lock_time fee_rate_per_vb fund_lock_time cet_lock_time fund_output_serial_id cet_nsequence contract_flags =
     and_then (weight_to_fee (BUFFER_TX_WEIGHT + CET_EXTRA_WEIGHT) fee_rate_per_vb) (\<lambda>extra_fee.
     and_then (create_fund_transaction_with_fees (bitcoin_api.truncate api) offer_params accept_params fee_rate_per_vb
                fund_lock_time fund_output_serial_id extra_fee) (\<lambda>(fund, witness_script).
       create_renewal_channel_transactions api offer_params accept_params offer_revoke_params accept_revoke_params
         fund witness_script payouts refund_lock_time fee_rate_per_vb cet_lock_time cet_nsequence contract_flags))"

text \<open>Adaptor signatures of a buffer transaction, and the CET of a channel.\<close>

definition get_tx_adaptor_signature ::
  "channel_api \<Rightarrow> transaction \<Rightarrow> nat \<Rightarrow> script \<Rightarrow> seckey \<Rightarrow> pubkey \<Rightarrow> (adaptor_sig, dlc_error) res" where
  "get_tx_adaptor_signature api tx input_value script_pk own_fund_sk other_publish_key =
     and_then (get_sig_hash_msg api tx 0 script_pk input_value) (\<lambda>sighash.
       Ok (adaptor_encrypt api sighash own_fund_sk other_publish_key))"

definition verify_tx_adaptor_signature ::
  "channel_api \<Rightarrow> transaction \<Rightarrow> nat \<Rightarrow> script \<Rightarrow> pubkey \<Rightarrow> pubkey \<Rightarrow> adaptor_sig \<Rightarrow> (unit, dlc_error) res" where
  "verify_tx_adaptor_signature api tx input_value script_pk other_fund_pk own_publish_key adaptor_sig =
     and_then (get_sig_hash_msg api tx 0 script_pk input_value) (\<lambda>sighash.
       if adaptor_verify api adaptor_sig sighash other_fund_pk own_publish_key then Ok () else Err Secp256k1)"

definition channel_sign_cet ::
  "channel_api \<Rightarrow> transaction \<Rightarrow> nat \<Rightarrow> revoke_params \<Rightarrow> revoke_params \<Rightarrow> seckey \<Rightarrow> pubkey \<Rightarrow> adaptor_sig
    \<Rightarrow> schnorr_sig list list \<Rightarrow> (transaction, dlc_error) res" where
  "channel_sign_cet api cet amount offer_params accept_params own_sk counter_pubkey adaptor_signature
     oracle_signatures =
     and_then (signatures_to_secret api oracle_signatures) (\<lambda>adaptor_secret.
     and_then (ok_or Secp256k1 (adaptor_decrypt api adaptor_signature adaptor_secret)) (\<lambda>adapted_sig.
     and_then (buffer_descriptor api offer_params accept_params) (\<lambda>desc.
     and_then (ok_or Miniscript (ms_script_code api desc)) (\<lambda>code.
     and_then (get_raw_sig_for_tx_input api cet 0 code amount own_sk) (\<lambda>own_sig.
     and_then (index (tx_input cet) 0) (\<lambda>inp.
     and_then (ok_or InvalidArgument (ms_satisfy api desc inp
                [(pk_of_sk api own_sk, own_sig), (counter_pubkey, adapted_sig)])) (\<lambda>inp'.
       Ok (cet\<lparr>tx_input := (tx_input cet)[0 := inp']\<rparr>))))))))"

text \<open>
  The punishments.  The three secret keys sign the only input; \<open>satisfy\<close> finds the witness.
\<close>

definition punish_fee :: "channel_api \<Rightarrow> nat \<Rightarrow> script \<Rightarrow> nat \<Rightarrow> (nat, dlc_error) res" where
  "punish_fee api input_weight dest_script fee_rate_per_vb =
     (let output_weight = N_VALUE_WEIGHT + var_int_size api (length dest_script) + length dest_script * 4
      in weight_to_fee (input_weight + output_weight) fee_rate_per_vb)"

definition sign_and_satisfy ::
  "channel_api \<Rightarrow> descriptor \<Rightarrow> transaction \<Rightarrow> nat \<Rightarrow> seckey list \<Rightarrow> (transaction, dlc_error) res" where
  "sign_and_satisfy api desc tx input_value sks =
     and_then (traverse (\<lambda>sk.
         and_then (ok_or Miniscript (ms_script_code api desc)) (\<lambda>code.
         and_then (get_raw_sig_for_tx_input api tx 0 code input_value sk) (\<lambda>sig.
           Ok (pk_of_sk api sk, sig)))) sks) (\<lambda>sigs.
     and_then (index (tx_input tx) 0) (\<lambda>inp.
     and_then (ok_or InvalidArgument (ms_satisfy api desc inp sigs)) (\<lambda>inp'.
       Ok (tx\<lparr>tx_input := [inp']\<rparr>))))"

definition create_and_sign_punish_buffer_transaction ::
  "channel_api \<Rightarrow> revoke_params \<Rightarrow> revoke_params \<Rightarrow> seckey \<Rightarrow> seckey \<Rightarrow> seckey \<Rightarrow> transaction \<Rightarrow> script \<Rightarrow> nat \<Rightarrow> nat
    \<Rightarrow> (transaction, dlc_error) res" where
  "create_and_sign_punish_buffer_transaction api offer_params accept_params own_sk counter_publish_sk
     counter_revoke_sk prev_tx dest_script lock_time fee_rate_per_vb =
     and_then (buffer_descriptor api offer_params accept_params) (\<lambda>desc.
     let tx_in = \<lparr>previous_output = \<lparr>op_txid = compute_txid api prev_tx, op_vout = 0\<rparr>, script_sig = [],
           tx_sequence = 0, tx_witness = []\<rparr> in
     and_then (punish_fee api PUNISH_BUFFER_INPUT_WEIGHT dest_script fee_rate_per_vb) (\<lambda>tx_fee.
     and_then (index (tx_output prev_tx) 0) (\<lambda>prev_out.
     and_then (usub (out_value prev_out) tx_fee) (\<lambda>output_value.
       sign_and_satisfy api desc
         \<lparr>tx_version = TX_VERSION, tx_lock_time = lock_time, tx_input = [tx_in],
          tx_output = [\<lparr>out_value = output_value, script_pubkey = dest_script\<rparr>]\<rparr>
         (out_value prev_out) [own_sk, counter_publish_sk, counter_revoke_sk]))))"

definition create_and_sign_punish_settle_transaction ::
  "channel_api \<Rightarrow> revoke_params \<Rightarrow> revoke_params \<Rightarrow> seckey \<Rightarrow> seckey \<Rightarrow> seckey \<Rightarrow> transaction \<Rightarrow> script \<Rightarrow> nat \<Rightarrow> nat
    \<Rightarrow> nat \<Rightarrow> bool \<Rightarrow> (transaction, dlc_error) res" where
  "create_and_sign_punish_settle_transaction api offer_params accept_params own_sk counter_publish_sk
     counter_revoke_sk prev_tx dest_script csv_timelock lock_time fee_rate_per_vb is_offer =
     (let (own_params, counter_params) =
           (if is_offer then (offer_params, accept_params) else (accept_params, offer_params)) in
     and_then (settle_descriptor api counter_params (own_pk own_params) csv_timelock) (\<lambda>desc.
     let vout = (if is_offer then 1 else 0);
         tx_in = \<lparr>previous_output = \<lparr>op_txid = compute_txid api prev_tx, op_vout = vout\<rparr>, script_sig = [],
           tx_sequence = 0, tx_witness = []\<rparr> in
     and_then (index (tx_output prev_tx) vout) (\<lambda>prev_out.
     let input_value = out_value prev_out in
     and_then (punish_fee api PUNISH_SETTLE_INPUT_WEIGHT dest_script fee_rate_per_vb) (\<lambda>tx_fee.
     and_then (usub input_value tx_fee) (\<lambda>output_value.
       sign_and_satisfy api desc
         \<lparr>tx_version = TX_VERSION, tx_lock_time = lock_time, tx_input = [tx_in],
          tx_output = [\<lparr>out_value = output_value, script_pubkey = dest_script\<rparr>]\<rparr>
         input_value [own_sk, counter_publish_sk, counter_revoke_sk])))))"

definition create_collaborative_close_transaction ::
  "party_params \<Rightarrow> nat \<Rightarrow> party_params \<Rightarrow> nat \<Rightarrow> out_point \<Rightarrow> nat \<Rightarrow> out_point list \<Rightarrow> transaction" where
  "create_collaborative_close_transaction offer_params offer_payout accept_params accept_payout fund_outpoint
     fund_output_amount additional_inputs =
     (let close_in = (\<lambda>p. \<lparr>previous_output = p, script_sig = [], tx_sequence = DISABLE_LOCKTIME, tx_witness = []\<rparr>);
          offer_output = \<lparr>out_value = offer_payout, script_pubkey = payout_script_pubkey offer_params\<rparr>;
          accept_output = \<lparr>out_value = accept_payout, script_pubkey = payout_script_pubkey accept_params\<rparr>;
          output = (if payout_serial_id offer_params < payout_serial_id accept_params
                    then [offer_output, accept_output] else [accept_output, offer_output])
      in \<lparr>tx_version = TX_VERSION, tx_lock_time = 0, tx_input = close_in fund_outpoint # map close_in additional_inputs,
          tx_output = discard_dust output DUST_LIMIT\<rparr>)"

section \<open>Who can spend\<close>

text \<open>
  The keys whose signatures are given and the number of blocks the output is old that satisfy a
  miniscript.
\<close>

primrec spendable :: "miniscript \<Rightarrow> pubkey set \<Rightarrow> nat \<Rightarrow> bool" where
  "spendable (Pk_k k) K age \<longleftrightarrow> k \<in> K"
| "spendable (Pk_h k) K age \<longleftrightarrow> k \<in> K"
| "spendable (Older n) K age \<longleftrightarrow> n \<le> age"
| "spendable (C m) K age \<longleftrightarrow> spendable m K age"
| "spendable (V m) K age \<longleftrightarrow> spendable m K age"
| "spendable (And_v m n) K age \<longleftrightarrow> spendable m K age \<and> spendable n K age"
| "spendable (And_or m n l) K age \<longleftrightarrow> spendable m K age \<and> spendable n K age \<or> spendable l K age"
| "spendable (Or_i m n) K age \<longleftrightarrow> spendable m K age \<or> spendable n K age"

primrec desc_spendable :: "descriptor \<Rightarrow> pubkey set \<Rightarrow> nat \<Rightarrow> bool" where
  "desc_spendable (Wsh m) K age = spendable m K age"

lemma spendable_Pk [simp]: "spendable (Pk k) K age \<longleftrightarrow> k \<in> K" "spendable (Pkh k) K age \<longleftrightarrow> k \<in> K"
  by (simp_all add: Pk_def Pkh_def)

lemma spendable_buffer:
  assumes "buffer_descriptor api off acc = Ok d"
  shows "desc_spendable d K age \<longleftrightarrow> {own_pk off, own_pk acc} \<subseteq> K \<or>
    {own_pk off, publish_pk acc, revoke_pk acc} \<subseteq> K \<or> {own_pk acc, publish_pk off, revoke_pk off} \<subseteq> K"
  using assms by (auto simp: buffer_descriptor_def Let_def split: if_splits)

lemma spendable_settle:
  assumes "settle_descriptor api payee counter csv = Ok d"
  shows "desc_spendable d K age \<longleftrightarrow> own_pk payee \<in> K \<and> csv \<le> age \<or>
    {counter, publish_pk payee, revoke_pk payee} \<subseteq> K"
  using assms by (auto simp: settle_descriptor_def Let_def split: if_splits)

section \<open>Facts about the transactions\<close>

lemma truncate_api [simp]:
  "to_p2wsh (bitcoin_api.truncate api) = to_p2wsh api" "compute_txid (bitcoin_api.truncate api) = compute_txid api"
  by (simp_all add: bitcoin_api.truncate_def)

lemma settle_Ok:
  assumes "create_settle_transaction api inp off acc op ap csv lt v r = Ok tx"
  shows "\<exists>od ad fee rem. settle_descriptor api off (own_pk acc) csv = (Ok od :: (_, dlc_error) res) \<and>
    settle_descriptor api acc (own_pk off) csv = (Ok ad :: (_, dlc_error) res) \<and>
    weight_to_fee (428 + length (tx_output tx) * 172) r = Ok fee \<and> tx_output tx \<noteq> [] \<and>
    rem = (v - op - ap - fee) div length (tx_output tx) \<and> op + ap + fee \<le> v \<and>
    tx_input tx = [inp] \<and> tx_lock_time tx = lt \<and>
    tx_output tx = map (\<lambda>x. x\<lparr>out_value := out_value x + rem\<rparr>)
      (discard_dust [\<lparr>out_value = op, script_pubkey = ms_script_pubkey api od\<rparr>,
                     \<lparr>out_value = ap, script_pubkey = ms_script_pubkey api ad\<rparr>] DUST_LIMIT)"
proof -
  obtain od ad fee rem out out' v3 where s: "settle_descriptor api off (own_pk acc) csv = (Ok od :: (_, dlc_error) res)"
    "settle_descriptor api acc (own_pk off) csv = (Ok ad :: (_, dlc_error) res)"
    and out: "out = discard_dust [\<lparr>out_value = op, script_pubkey = ms_script_pubkey api od\<rparr>,
                     \<lparr>out_value = ap, script_pubkey = ms_script_pubkey api ad\<rparr>] DUST_LIMIT"
    and f: "weight_to_fee (428 + length out * 172) r = Ok fee" "udiv v3 (length out) = (Ok rem :: (_, dlc_error) res)"
      "v = op + ap + fee + v3"
      "traverse (\<lambda>x. and_then (uadd (out_value x) rem) (\<lambda>v. Ok (x\<lparr>out_value := v\<rparr>))) out = (Ok out' :: (_, dlc_error) res)"
      "tx = \<lparr>tx_version = TX_VERSION, tx_lock_time = lt, tx_input = [inp], tx_output = out'\<rparr>"
    using assms unfolding create_settle_transaction_def and_then_eq_Ok Let_def usub_eq_Ok_add
      SETTLE_INPUT_WEIGHT_def SETTLE_OUTPUT_WEIGHT_def
    by (elim exE conjE) (rule that, assumption, assumption, rule refl, assumption, assumption, linarith, assumption, simp)
  from f(4) have "list_all2 (\<lambda>x y. y = x\<lparr>out_value := out_value x + rem\<rparr>) out out'"
    unfolding traverse_Ok_iff by (rule list_all2_mono) (auto simp: res_simps)
  then have out': "out' = map (\<lambda>x. x\<lparr>out_value := out_value x + rem\<rparr>) out"
    by (induction rule: list_all2_induct) auto
  have "out \<noteq> []" "rem = (v - op - ap - fee) div length out"
    using f(2,3) by (auto simp: udiv_def split: if_splits)
  then show ?thesis using s f out' out by (intro exI conjI) auto
qed

lemma renewal_Ok:
  assumes "create_renewal_channel_transactions api o' a off acc fund ws payouts rlt r clt sq flags = Ok d"
  shows "\<exists>e vout out desc. weight_to_fee 929 r = Ok e \<and>
    get_output_for_script_pubkey fund (to_p2wsh api ws) = Some (vout, out) \<and>
    buffer_descriptor api off acc = (Ok desc :: (_, dlc_error) res) \<and> e \<le> out_value out \<and>
    buffer_transaction d = create_buffer_transaction api
      \<lparr>previous_output = \<lparr>op_txid = compute_txid api fund, op_vout = as_u32 vout\<rparr>, script_sig = [],
       tx_sequence = get_sequence clt, tx_witness = []\<rparr> desc (out_value out - e) clt \<and>
    dlc_fund (dc_dlc_transactions d) = fund \<and>
    create_cets_and_refund_tx o' a \<lparr>op_txid = compute_txid api (buffer_transaction d), op_vout = 0\<rparr> payouts rlt clt
      (Some sq) flags = Ok (dlc_cets (dc_dlc_transactions d), dlc_refund (dc_dlc_transactions d))"
  using assms
  by (auto simp: create_renewal_channel_transactions_def res_simps Let_def BUFFER_TX_WEIGHT_def CET_EXTRA_WEIGHT_def)

section \<open>Properties\<close>

text \<open>
  C24. Who can spend the outputs of a channel.  The buffer output needs the offerer's and the
  accepter's keys, or one party's key with the publish and the revocation key of the other, which
  that party learns only when a revoked transaction is published; an output of the settle
  transaction needs the payee's key after the timelock, or the other party's key with the
  payee's publish and revocation keys.
\<close>

theorem channel_outputs_spendable:
  "(\<forall>d. buffer_descriptor api off acc = (Ok d :: (_, 'e) res) \<longrightarrow>
      (desc_spendable d K age \<longleftrightarrow> {own_pk off, own_pk acc} \<subseteq> K \<or>
        {own_pk off, publish_pk acc, revoke_pk acc} \<subseteq> K \<or> {own_pk acc, publish_pk off, revoke_pk off} \<subseteq> K)) \<and>
   (\<forall>d. settle_descriptor api payee counter csv = (Ok d :: (_, 'e) res) \<longrightarrow>
      (desc_spendable d K age \<longleftrightarrow> own_pk payee \<in> K \<and> csv \<le> age \<or>
        {counter, publish_pk payee, revoke_pk payee} \<subseteq> K))"
  by (intro conjI allI impI) (erule spendable_buffer, erule spendable_settle)

definition example_channel_api :: channel_api where
  "example_channel_api = crypto_api.extend example_crypto (channel_api.fields (\<lambda>_. True)
     (\<lambda>d. case d of Wsh (And_or (C (Pk_k k)) _ _) \<Rightarrow> 7 # k | _ \<Rightarrow> [8]) (\<lambda>_. Some [9])
     (\<lambda>_ i sigs. Some (i\<lparr>tx_witness := map snd sigs\<rparr>)) (\<lambda>_. 1))"

definition example_revoke :: "nat \<Rightarrow> revoke_params" where
  "example_revoke k = \<lparr>own_pk = [k, 10], publish_pk = [k, 11], revoke_pk = [k, 12]\<rparr>"

lemma example_channel_api_simps [simp]:
  "ms_valid example_channel_api d" "ms_script_code example_channel_api d = Some [9]"
  "to_p2wsh example_channel_api s = 0 # s" "compute_txid example_channel_api tx = [length (tx_output tx)]"
  "bitcoin_api.truncate example_channel_api = example_api"
  by (simp_all add: example_channel_api_def example_crypto_def example_api_def bitcoin_api.defs crypto_api.defs channel_api.defs)

lemma channel_outputs_spendable_witness:
  "\<exists>d. buffer_descriptor example_channel_api (example_revoke 1) (example_revoke 2) = (Ok d :: (_, unit) res) \<and>
     desc_spendable d {[1, 10], [2, 11], [2, 12]} 0 \<and> \<not> desc_spendable d {[1, 10], [1, 11], [1, 12]} 1000"
proof -
  obtain d where d: "buffer_descriptor example_channel_api (example_revoke 1) (example_revoke 2) = (Ok d :: (_, unit) res)"
    by (simp add: buffer_descriptor_def Let_def example_revoke_def)
  show ?thesis
    using d channel_outputs_spendable [THEN conjunct1, THEN spec, THEN mp, OF d] by (auto simp: example_revoke_def)
qed

text \<open>
  The transactions of a channel fit together.  When they are built and no change script is
  the fund script, the fund output holds the total collateral, the CET fees of both parties and
  the extra fee, which is the fee of the buffer transaction and of the larger CETs; the buffer
  transaction spends it and keeps the total collateral and the CET fees; the CETs and the refund
  transaction spend the buffer output, and each CET leaves at least the CET fees and at most
  1,998 satoshis more to the miners.
\<close>

theorem channel_transactions_fit:
  assumes "create_channel_transactions api o' a off acc payouts rlt r flt clt fs sq flags = Ok d"
    and "to_p2wsh api (make_funding_redeemscript (fund_pubkey o') (fund_pubkey a)) \<notin>
      {change_script_pubkey o', change_script_pubkey a}"
  shows "\<exists>e oc oof ocf ac aff acf vout spk.
    (let fund = dlc_fund (dc_dlc_transactions d); buffer = buffer_transaction d;
         value = collateral o' + collateral a + ocf + acf in
     weight_to_fee 929 r = Ok e \<and>
     get_change_output_and_fees (bitcoin_api.truncate api) o' (collateral o' + collateral a) r e = Ok (oc, oof, ocf) \<and>
     get_change_output_and_fees (bitcoin_api.truncate api) a (collateral o' + collateral a) r e = Ok (ac, aff, acf) \<and>
     vout < length (tx_output fund) \<and> out_value (tx_output fund ! vout) = value + e \<and>
     map previous_output (tx_input buffer) = [\<lparr>op_txid = compute_txid api fund, op_vout = vout\<rparr>] \<and>
     tx_output buffer = [\<lparr>out_value = value, script_pubkey = spk\<rparr>] \<and>
     (\<forall>tx\<in>set (dlc_refund (dc_dlc_transactions d) # dlc_cets (dc_dlc_transactions d)).
        map previous_output (tx_input tx) = [\<lparr>op_txid = compute_txid api buffer, op_vout = 0\<rparr>]) \<and>
     (\<forall>tx\<in>set (dlc_cets (dc_dlc_transactions d)). sum_list (map out_value (tx_output tx)) + ocf + acf \<le> value \<and>
        value \<le> sum_list (map out_value (tx_output tx)) + ocf + acf + 1998))"
proof -
  obtain e fund ws where f: "weight_to_fee 929 r = Ok e"
    "create_fund_transaction_with_fees (bitcoin_api.truncate api) o' a r flt fs e = Ok (fund, ws)"
    "create_renewal_channel_transactions api o' a off acc fund ws payouts rlt r clt sq flags = Ok d"
    using assms(1) by (auto simp: create_channel_transactions_def res_simps BUFFER_TX_WEIGHT_def CET_EXTRA_WEIGHT_def)
  obtain vout out desc where r: "get_output_for_script_pubkey fund (to_p2wsh api ws) = Some (vout, out)"
    "e \<le> out_value out"
    "buffer_transaction d = create_buffer_transaction api
      \<lparr>previous_output = \<lparr>op_txid = compute_txid api fund, op_vout = as_u32 vout\<rparr>, script_sig = [],
       tx_sequence = get_sequence clt, tx_witness = []\<rparr> desc (out_value out - e) clt"
    "dlc_fund (dc_dlc_transactions d) = fund"
    "create_cets_and_refund_tx o' a \<lparr>op_txid = compute_txid api (buffer_transaction d), op_vout = 0\<rparr> payouts rlt clt
      (Some sq) flags = Ok (dlc_cets (dc_dlc_transactions d), dlc_refund (dc_dlc_transactions d))"
    using renewal_Ok [OF f(3)] f(1) by auto
  have "ws = make_funding_redeemscript (fund_pubkey o') (fund_pubkey a)"
    using create_fund_transaction_Ok [OF f(2)] by blast
  then obtain oc oof ocf ac aff acf where c:
    "get_change_output_and_fees (bitcoin_api.truncate api) o' (collateral o' + collateral a) r e = Ok (oc, oof, ocf)"
    "get_change_output_and_fees (bitcoin_api.truncate api) a (collateral o' + collateral a) r e = Ok (ac, aff, acf)"
    "out_value out = collateral o' + collateral a + ocf + acf + e"
    using fund_output_found [OF f(2)] r(1) assms(2) by auto
  have v: "as_u32 vout = vout" "vout < length (tx_output fund)" "tx_output fund ! vout = out"
    using get_output_Some [OF r(1)] fund_tx_outputs [OF f(2)] by auto
  note sp = cets_spend [OF r(5)]
  have b: "map previous_output (tx_input (buffer_transaction d)) = [\<lparr>op_txid = compute_txid api fund, op_vout = vout\<rparr>]"
    "tx_output (buffer_transaction d) = [\<lparr>out_value = collateral o' + collateral a + ocf + acf, script_pubkey = ms_script_pubkey api desc\<rparr>]"
    unfolding r(3) using v(1) c(3) by (simp_all add: create_buffer_transaction_def)
  have s: "\<forall>tx\<in>set (dlc_cets (dc_dlc_transactions d)). sum_list (map out_value (tx_output tx)) + ocf + acf \<le>
        collateral o' + collateral a + ocf + acf \<and>
      collateral o' + collateral a + ocf + acf \<le> sum_list (map out_value (tx_output tx)) + ocf + acf + 1998"
    using sp [THEN conjunct2] by auto
  have v': "out_value (tx_output fund ! vout) = collateral o' + collateral a + ocf + acf + e"
    using v(3) c(3) by simp
  show ?thesis unfolding Let_def r(4)
    by (intro exI conjI) (rule f(1) c(1) c(2) v(2) v' b sp [THEN conjunct1] s)+
qed

lemma example_channel:
  "\<exists>d. create_channel_transactions example_channel_api (example_party 1 200000 100000) (example_party 2 150000 100000)
      (example_revoke 1) (example_revoke 2) [\<lparr>offer = 200000, accept = 0\<rparr>, \<lparr>offer = 500, accept = 199500\<rparr>]
      500 2 100 200 1 3 0 = Ok d"
  by (simp add: create_channel_transactions_def create_renewal_channel_transactions_def BUFFER_TX_WEIGHT_def
      CET_EXTRA_WEIGHT_def create_cets_and_refund_tx_def get_output_for_script_pubkey_def buffer_descriptor_def
      example_defs example_revoke_def)

lemma channel_transactions_fit_witness:
  "\<exists>d. create_channel_transactions example_channel_api (example_party 1 200000 100000) (example_party 2 150000 100000)
      (example_revoke 1) (example_revoke 2) [\<lparr>offer = 200000, accept = 0\<rparr>, \<lparr>offer = 500, accept = 199500\<rparr>]
      500 2 100 200 1 3 0 = Ok d \<and>
     200000 \<le> sum_list (map out_value (tx_output (buffer_transaction d)))"
proof -
  obtain d where d: "create_channel_transactions example_channel_api (example_party 1 200000 100000) (example_party 2 150000 100000)
      (example_revoke 1) (example_revoke 2) [\<lparr>offer = 200000, accept = 0\<rparr>, \<lparr>offer = 500, accept = 199500\<rparr>]
      500 2 100 200 1 3 0 = Ok d"
    using example_channel by blast
  have s: "to_p2wsh example_channel_api (make_funding_redeemscript (fund_pubkey (example_party 1 200000 100000))
        (fund_pubkey (example_party 2 150000 100000))) \<notin>
      {change_script_pubkey (example_party 1 200000 100000), change_script_pubkey (example_party 2 150000 100000)}"
    by (simp add: example_party_def)
  have c: "collateral (example_party k x c) = c" for k x c by (simp add: example_party_def)
  from channel_transactions_fit [OF d s] d show ?thesis
    by (auto simp: Let_def c)
qed

text \<open>
  C25. Settling a channel.  When the settle transaction is built, both payouts and
  the fee fit in the fund output.  A payout that reaches the dust limit has an output, offerer first, with the
  payout and an equal share of what remains; a payout below the limit has none and is lost to the party.  The value of the fund
  output is that of the outputs, the fee, the payouts that were dropped, and a rest of less than one satoshi per output.
\<close>

theorem settle_transaction_value:
  assumes "create_settle_transaction api inp off acc op ap csv lt v r = Ok tx"
  shows "\<exists>fee rem od ad. op + ap + fee \<le> v \<and> weight_to_fee (428 + length (tx_output tx) * 172) r = Ok fee \<and>
    settle_descriptor api off (own_pk acc) csv = (Ok od :: (_, dlc_error) res) \<and>
    settle_descriptor api acc (own_pk off) csv = (Ok ad :: (_, dlc_error) res) \<and>
    tx_output tx = (if DUST_LIMIT \<le> op then [\<lparr>out_value = op + rem, script_pubkey = ms_script_pubkey api od\<rparr>] else []) @
      (if DUST_LIMIT \<le> ap then [\<lparr>out_value = ap + rem, script_pubkey = ms_script_pubkey api ad\<rparr>] else []) \<and>
    (\<exists>rest < length (tx_output tx). v = sum_list (map out_value (tx_output tx)) + fee +
       (if op < DUST_LIMIT then op else 0) + (if ap < DUST_LIMIT then ap else 0) + rest)"
proof -
  obtain od ad fee rem where s: "settle_descriptor api off (own_pk acc) csv = (Ok od :: (_, dlc_error) res)"
    "settle_descriptor api acc (own_pk off) csv = (Ok ad :: (_, dlc_error) res)"
    and f: "weight_to_fee (428 + length (tx_output tx) * 172) r = Ok fee" "tx_output tx \<noteq> []"
      "rem = (v - op - ap - fee) div length (tx_output tx)" "op + ap + fee \<le> v"
    and o: "tx_output tx = map (\<lambda>x. x\<lparr>out_value := out_value x + rem\<rparr>)
      (discard_dust [\<lparr>out_value = op, script_pubkey = ms_script_pubkey api od\<rparr>,
                     \<lparr>out_value = ap, script_pubkey = ms_script_pubkey api ad\<rparr>] DUST_LIMIT)"
    using settle_Ok [OF assms] by blast
  define n where "n = length (tx_output tx)"
  have "0 < n" using f(2) by (simp add: n_def)
  define rest where "rest = (v - op - ap - fee) mod n"
  have l: "rest < n" "v = op + ap + fee + rem * n + rest"
    using \<open>0 < n\<close> f(4) div_mult_mod_eq [of "v - op - ap - fee" n] unfolding f(3) n_def [symmetric] rest_def by (simp, linarith)
  have out: "tx_output tx = (if DUST_LIMIT \<le> op then [\<lparr>out_value = op + rem, script_pubkey = ms_script_pubkey api od\<rparr>] else []) @
      (if DUST_LIMIT \<le> ap then [\<lparr>out_value = ap + rem, script_pubkey = ms_script_pubkey api ad\<rparr>] else [])"
    unfolding o by (simp add: discard_dust_def)
  then have "v = sum_list (map out_value (tx_output tx)) + fee +
      (if op < DUST_LIMIT then op else 0) + (if ap < DUST_LIMIT then ap else 0) + rest"
    using l(2) n_def by (auto split: if_splits)
  then show ?thesis using f s l(1) out unfolding n_def by blast
qed

definition example_fund_in :: tx_in where
  "example_fund_in = \<lparr>previous_output = \<lparr>op_txid = [1], op_vout = 0\<rparr>, script_sig = [], tx_sequence = 0, tx_witness = []\<rparr>"

lemma example_settle:
  "\<exists>tx. create_settle_transaction example_channel_api example_fund_in (example_revoke 1) (example_revoke 2)
      500 60000 144 0 70000 2 = Ok tx"
  by (simp add: create_settle_transaction_def settle_descriptor_def example_defs SETTLE_INPUT_WEIGHT_def
      SETTLE_OUTPUT_WEIGHT_def udiv_def)

lemma settle_transaction_value_witness:
  "\<exists>tx x. create_settle_transaction example_channel_api example_fund_in (example_revoke 1) (example_revoke 2)
      500 60000 144 0 70000 2 = Ok tx \<and> tx_output tx = [x] \<and> 60000 \<le> out_value x"
proof -
  obtain tx where t: "create_settle_transaction example_channel_api example_fund_in (example_revoke 1) (example_revoke 2)
      500 60000 144 0 70000 2 = Ok tx"
    using example_settle by blast
  from settle_transaction_value [OF t] t show ?thesis by (auto simp: DUST_LIMIT_def)
qed

text \<open>
  Punishing a revoked settle transaction.  The transaction is found by the position of the
  output only: the offerer's punishment reads the second output.  When the counterparty's
  payout reaches the dust limit and the offerer's does not, there is no second output and the
  punishment panics, although the output of the counterparty can be taken; when both do, the
  output read is the counterparty's.
\<close>

theorem punish_settle_output:
  assumes "create_settle_transaction api inp off acc op ap csv lt v r = Ok tx" and "DUST_LIMIT \<le> ap"
  shows "(op < DUST_LIMIT \<longrightarrow>
      create_and_sign_punish_settle_transaction api off acc own_sk pub_sk rev_sk tx dest csv lt' r' True = Panic) \<and>
    (DUST_LIMIT \<le> op \<longrightarrow> (\<exists>ad. settle_descriptor api acc (own_pk off) csv = (Ok ad :: (_, dlc_error) res) \<and>
      script_pubkey (tx_output tx ! 1) = ms_script_pubkey api ad \<and> ap \<le> out_value (tx_output tx ! 1)))"
proof -
  obtain od ad rem where s: "settle_descriptor api acc (own_pk off) csv = (Ok ad :: (_, dlc_error) res)"
    and o: "tx_output tx = map (\<lambda>x. x\<lparr>out_value := out_value x + rem\<rparr>)
      (discard_dust [\<lparr>out_value = op, script_pubkey = ms_script_pubkey api od\<rparr>,
                     \<lparr>out_value = ap, script_pubkey = ms_script_pubkey api ad\<rparr>] DUST_LIMIT)"
    using settle_Ok [OF assms(1)] by blast
  show ?thesis
    using assms(2) s
    by (auto simp: o discard_dust_def create_and_sign_punish_settle_transaction_def index_def Let_def)
qed

lemma punish_settle_output_witness:
  "\<exists>tx. create_settle_transaction example_channel_api example_fund_in (example_revoke 1) (example_revoke 2)
      500 60000 144 0 70000 2 = Ok tx \<and>
     create_and_sign_punish_settle_transaction example_channel_api (example_revoke 1) (example_revoke 2)
      1 2 3 tx [4] 144 0 2 True = Panic"
proof -
  obtain tx where t: "create_settle_transaction example_channel_api example_fund_in (example_revoke 1) (example_revoke 2)
      500 60000 144 0 70000 2 = Ok tx"
    using example_settle by blast
  from punish_settle_output [OF t] t show ?thesis by (auto simp: DUST_LIMIT_def)
qed

end
