(* ===== verification/Float_Arithmetic.thy ===== *)
theory Float_Arithmetic
  imports Float64
begin

text \<open>
  The arithmetic of Rust's \<open>f64\<close> (IEEE 754 binary64, round to nearest, ties to even) on all its
  values: signed zeros, subnormal numbers, infinities and NaN.  A finite float is a sign and a
  magnitude; every operation is the exact result rounded once.  The payout curves compute with it.
\<close>

section \<open>Values\<close>

text \<open>\<open>Fin s x\<close> is \<open>x\<close>, or \<open>-x\<close> if \<open>s\<close>; the sign of a NaN is not modelled.\<close>

datatype f64 = Fin bool rat | Inf bool | NaN

definition f64_pack :: "bool \<Rightarrow> rat \<Rightarrow> f64" where
  "f64_pack s x =
     (if x = 0 then Fin s 0
      else
        (let e = max (ilog2 x - 52) (-1074);
             y = of_int (round_half_even (x / 2 powi e)) * 2 powi e
         in if 1024 \<le> ilog2 y then Inf s else Fin s y))"

definition nat_f64 :: "nat \<Rightarrow> f64" where
  "nat_f64 n = Fin False (f64_of_nat n)"

abbreviation f64_zero :: f64 where "f64_zero \<equiv> Fin False 0"

section \<open>Arithmetic\<close>

fun f64_neg :: "f64 \<Rightarrow> f64" where
  "f64_neg (Fin s x) = Fin (\<not> s) x"
| "f64_neg (Inf s) = Inf (\<not> s)"
| "f64_neg NaN = NaN"

fun f64_add :: "f64 \<Rightarrow> f64 \<Rightarrow> f64" where
  "f64_add (Fin s x) (Fin t y) =
     (if s = t then f64_pack s (x + y)
      else if x = y then Fin False 0
      else if y < x then f64_pack s (x - y) else f64_pack t (y - x))"
| "f64_add (Inf s) (Inf t) = (if s = t then Inf s else NaN)"
| "f64_add (Inf s) (Fin t y) = Inf s"
| "f64_add (Fin s x) (Inf t) = Inf t"
| "f64_add NaN b = NaN"
| "f64_add a NaN = NaN"

definition f64_sub :: "f64 \<Rightarrow> f64 \<Rightarrow> f64" where
  "f64_sub a b = f64_add a (f64_neg b)"

fun f64_mul :: "f64 \<Rightarrow> f64 \<Rightarrow> f64" where
  "f64_mul (Fin s x) (Fin t y) = f64_pack (s \<noteq> t) (x * y)"
| "f64_mul (Inf s) (Inf t) = Inf (s \<noteq> t)"
| "f64_mul (Inf s) (Fin t y) = (if y = 0 then NaN else Inf (s \<noteq> t))"
| "f64_mul (Fin s x) (Inf t) = (if x = 0 then NaN else Inf (s \<noteq> t))"
| "f64_mul NaN b = NaN"
| "f64_mul a NaN = NaN"

fun f64_quot :: "f64 \<Rightarrow> f64 \<Rightarrow> f64" where
  "f64_quot (Fin s x) (Fin t y) =
     (if y = 0 then (if x = 0 then NaN else Inf (s \<noteq> t)) else f64_pack (s \<noteq> t) (x / y))"
| "f64_quot (Inf s) (Inf t) = NaN"
| "f64_quot (Inf s) (Fin t y) = Inf (s \<noteq> t)"
| "f64_quot (Fin s x) (Inf t) = Fin (s \<noteq> t) 0"
| "f64_quot NaN b = NaN"
| "f64_quot a NaN = NaN"

text \<open>The remainder \<open>a % b\<close> has the sign of \<open>a\<close> and is exact.\<close>

fun f64_rem :: "f64 \<Rightarrow> f64 \<Rightarrow> f64" where
  "f64_rem (Fin s x) (Fin t y) = (if y = 0 then NaN else Fin s (x - y * of_int \<lfloor>x / y\<rfloor>))"
| "f64_rem (Fin s x) (Inf t) = Fin s x"
| "f64_rem a b = NaN"

text \<open>\<open>isqrt n\<close> is the integer square root, computed bit by bit from \<open>4 ^ k\<close> with \<open>n < 4 ^ k\<close>.\<close>

fun isqrt_bits :: "nat \<Rightarrow> nat \<Rightarrow> nat \<Rightarrow> nat" where
  "isqrt_bits 0 n r = r"
| "isqrt_bits (Suc k) n r = (let t = r + 2 ^ k in isqrt_bits k n (if t * t \<le> n then t else r))"

definition isqrt :: "nat \<Rightarrow> nat" where
  "isqrt n = isqrt_bits (floorlog 2 n) n 0"

fun f64_sqrt :: "f64 \<Rightarrow> f64" where
  "f64_sqrt (Fin s x) =
     (if x = 0 then Fin s 0
      else if s then NaN
      else
        (let e = max (ilog2 x div 2 - 52) (-1074);
             y = x / 2 powi (2 * e);
             f = isqrt (nat \<lfloor>y\<rfloor>);
             h = (of_nat f + 1 / 2) * (of_nat f + 1 / 2);
             g = (if y < h then f else if h < y then f + 1 else if even f then f else f + 1)
         in Fin False (of_nat g * 2 powi e)))"
| "f64_sqrt (Inf s) = (if s then NaN else Inf False)"
| "f64_sqrt NaN = NaN"

text \<open>\<open>round()\<close> rounds half away from zero; the cast to \<open>u64\<close> truncates and saturates.\<close>

fun f64_nearest :: "f64 \<Rightarrow> f64" where
  "f64_nearest (Fin s x) = Fin s (of_int \<lfloor>x + 1 / 2\<rfloor>)"
| "f64_nearest a = a"

fun f64_as_u64 :: "f64 \<Rightarrow> nat" where
  "f64_as_u64 (Fin s x) = (if s then 0 else min (nat \<lfloor>x\<rfloor>) (usize_bound - 1))"
| "f64_as_u64 (Inf s) = (if s then 0 else usize_bound - 1)"
| "f64_as_u64 NaN = 0"

section \<open>Comparisons and classes\<close>

fun f64_key :: "f64 \<Rightarrow> (int \<times> rat) option" where
  "f64_key (Fin s x) = Some (0, if s then - x else x)"
| "f64_key (Inf s) = Some (if s then -1 else 1, 0)"
| "f64_key NaN = None"

definition f64_less :: "f64 \<Rightarrow> f64 \<Rightarrow> bool" where
  "f64_less a b =
     (case (f64_key a, f64_key b) of
        (Some (i, x), Some (j, y)) \<Rightarrow> i < j \<or> i = j \<and> x < y
      | _ \<Rightarrow> False)"

definition f64_eq :: "f64 \<Rightarrow> f64 \<Rightarrow> bool" where
  "f64_eq a b = (f64_key a \<noteq> None \<and> f64_key a = f64_key b)"

definition f64_le :: "f64 \<Rightarrow> f64 \<Rightarrow> bool" where
  "f64_le a b = (f64_less a b \<or> f64_eq a b)"

fun f64_sign_negative :: "f64 \<Rightarrow> bool" where
  "f64_sign_negative (Fin s x) = s"
| "f64_sign_negative (Inf s) = s"
| "f64_sign_negative NaN = False"

fun f64_is_normal :: "f64 \<Rightarrow> bool" where
  "f64_is_normal (Fin s x) = (x \<noteq> 0 \<and> -1022 \<le> ilog2 x)"
| "f64_is_normal a = False"

section \<open>Exact results\<close>

text \<open>Natural numbers up to \<open>2 ^ 53\<close> are floats.\<close>

lemma ilog2_of_nat:
  assumes "0 < n" "n \<le> 2 ^ 53"
  shows "0 \<le> ilog2 (of_nat n)" "ilog2 (of_nat n) \<le> 53"
proof -
  have b: "(2::rat) powi ilog2 (of_nat n) \<le> of_nat n" "of_nat n < (2::rat) powi (ilog2 (of_nat n) + 1)"
    using ilog2_bounds [of "of_nat n"] assms(1) by auto
  have "(2::rat) powi 0 \<le> of_nat n" using assms(1) by simp
  then have "(2::rat) powi 0 < 2 powi (ilog2 (of_nat n) + 1)" using b(2) by linarith
  from two_powi_less_imp_less [OF this] show "0 \<le> ilog2 (of_nat n)" by simp
  have "of_nat n \<le> (of_nat (2 ^ 53) :: rat)" using assms(2) of_nat_le_iff by blast
  then have "of_nat n < (2::rat) powi 54" by (simp add: power_int_def)
  then have "(2::rat) powi ilog2 (of_nat n) < 2 powi 54" using b(1) by linarith
  from two_powi_less_imp_less [OF this] show "ilog2 (of_nat n) \<le> 53" by simp
qed

lemma f64_pack_exact:
  assumes "f64_round x = x" "0 < x" "-1022 \<le> ilog2 x" "ilog2 x < 1024"
  shows "f64_pack s x = Fin s x"
proof -
  have m: "max (ilog2 x - 52) (-1074) = ilog2 x - 52" using assms(3) by simp
  have "of_int (round_half_even (x / 2 powi (ilog2 x - 52))) * 2 powi (ilog2 x - 52) = x"
    using assms(1,2) by (simp add: f64_round_def Let_def)
  then show ?thesis using assms(2,4) by (simp add: f64_pack_def Let_def m)
qed

lemma f64_pack_of_nat:
  assumes "n \<le> 2 ^ 53"
  shows "f64_pack s (of_nat n) = Fin s (of_nat n)"
proof (cases "n = 0")
  case False
  then show ?thesis
    using ilog2_of_nat [of n] assms f64_of_nat_exact [OF assms]
    by (intro f64_pack_exact) (auto simp: f64_of_nat_def)
qed (simp add: f64_pack_def)

lemma f64_pack_half [simp]: "f64_pack s (1 / 2) = Fin s (1 / 2)"
proof -
  have "ilog2 (1 / 2) = -1" by (rule ilog2_unique) simp_all
  moreover have "f64_round (1 / 2) = 1 / 2" by (rule f64_round_exact [of _ 1 "-1"]) (simp_all add: power_int_minus)
  ultimately show ?thesis by (intro f64_pack_exact) simp_all
qed

lemma f64_pack_simps [simp]:
  "f64_pack s 0 = Fin s 0"
  "f64_pack s 1 = Fin s 1"
  "(numeral k :: nat) \<le> 2 ^ 53 \<Longrightarrow> f64_pack s (numeral k) = Fin s (numeral k)"
  using f64_pack_of_nat [of 0 s] f64_pack_of_nat [of 1 s] f64_pack_of_nat [of "numeral k" s] by simp_all

lemma nat_f64_exact: "n \<le> 2 ^ 53 \<Longrightarrow> nat_f64 n = Fin False (of_nat n)"
  by (simp add: nat_f64_def f64_of_nat_exact)

lemma nat_f64_simps [simp]:
  "nat_f64 0 = Fin False 0"
  "nat_f64 (Suc 0) = Fin False 1"
  "(numeral k :: nat) \<le> 2 ^ 53 \<Longrightarrow> nat_f64 (numeral k) = Fin False (numeral k)"
  using nat_f64_exact [of 0] nat_f64_exact [of 1] nat_f64_exact [of "numeral k"] by simp_all

lemma f64_is_normal_nat:
  "0 < n \<Longrightarrow> n \<le> 2 ^ 53 \<Longrightarrow> f64_is_normal (Fin s (of_nat n))"
  using ilog2_of_nat [of n] by simp

lemma f64_is_normal_simps [simp]:
  "f64_is_normal (Fin s 1)"
  "(numeral k :: nat) \<le> 2 ^ 53 \<Longrightarrow> f64_is_normal (Fin s (numeral k))"
  using f64_is_normal_nat [of 1 s] f64_is_normal_nat [of "numeral k" s] by simp_all

declare f64_is_normal.simps(1) [simp del]

lemma f64_nearest_int: "f64_nearest (Fin s (of_int k)) = Fin s (of_int k)"
proof -
  have "\<lfloor>of_int k + 1 / 2 :: rat\<rfloor> = k" by linarith
  then show ?thesis by simp
qed

lemma f64_nearest_simps [simp]:
  "f64_nearest (Fin s 0) = Fin s 0"
  "f64_nearest (Fin s 1) = Fin s 1"
  "f64_nearest (Fin s (numeral k)) = Fin s (numeral k)"
  using f64_nearest_int [of s 0] f64_nearest_int [of s 1] f64_nearest_int [of s "numeral k"] by simp_all

declare f64_nearest.simps(1) [simp del]

end
