(* ===== verification/Manager_Types.thy ===== *)
theory Manager_Types
  imports Payout_Types
begin

text \<open>
  The errors of the manager (\<open>ddk-manager/src/error.rs\<close>, \<open>conversion_utils.rs\<close>) and the
  conversion of the errors of other crates into them, which \<open>?\<close> does through \<open>From\<close>.
\<close>

datatype conversion_error = BitcoinEncoding | InvalidConversionParameters

datatype manager_error =
    Conversion conversion_error
  | IOError
  | Deserialize
  | InvalidParameters
  | InvalidState
  | WalletError
  | BlockchainError
  | StorageError
  | OracleError
  | DlcError dlc_error
  | SecpError

definition map_err :: "('e \<Rightarrow> 'f) \<Rightarrow> ('a, 'e) res \<Rightarrow> ('a, 'f) res" where
  "map_err f r = (case r of Ok x \<Rightarrow> Ok x | Err e \<Rightarrow> Err (f e) | Panic \<Rightarrow> Panic)"

lemma map_err_simps [simp]:
  "map_err f (Ok x) = Ok x"
  "map_err f (Err e) = Err (f e)"
  "map_err f Panic = Panic"
  by (simp_all add: map_err_def)

lemma map_err_iff [simp]:
  "map_err f r = Ok x \<longleftrightarrow> r = Ok x"
  "map_err f r = Panic \<longleftrightarrow> r = Panic"
  by (cases r; simp)+

lemma map_err_Err: "map_err f r = Err e \<longleftrightarrow> (\<exists>e'. r = Err e' \<and> e = f e')"
  by (cases r) auto

text \<open>An \<open>if\<close> that returns an error.\<close>

definition ensure :: "bool \<Rightarrow> 'e \<Rightarrow> (unit, 'e) res" where
  "ensure b e = (if b then Ok () else Err e)"

lemma ensure_simps [simp]:
  "ensure True e = Ok ()"
  "ensure False e = Err e"
  "ensure b e = Ok u \<longleftrightarrow> b"
  "ensure b e = Err e' \<longleftrightarrow> \<not> b \<and> e' = e"
  "ensure b e \<noteq> Panic"
  by (auto simp: ensure_def)

end
