(* ===== verification/Payout_Curve.thy ===== *)
theory Payout_Curve
  imports Float_Arithmetic Manager_Types
begin

text \<open>
  \<open>ddk-manager/src/payout_curve.rs\<close>: payout functions made of polynomial and hyperbola pieces,
  their evaluation in floating point, rounding, and the list of ranges of outcomes with one payout.
  The main results: for a function whose pieces have ascending points, the ranges are contiguous,
  cover exactly the outcomes of the function, and split the collateral.
\<close>

section \<open>The pieces of a payout function\<close>

record payout_point =
  pp_event_outcome :: nat
  pp_outcome_payout :: nat
  pp_extra_precision :: nat

record hyperbola_piece =
  hp_left_end_point :: payout_point
  hp_right_end_point :: payout_point
  hp_use_positive_piece :: bool
  hp_translate_outcome :: f64
  hp_translate_payout :: f64
  hp_a :: f64
  hp_b :: f64
  hp_c :: f64
  hp_d :: f64

datatype payout_piece =
    PolynomialPayoutCurvePiece "payout_point list"
  | HyperbolaPayoutCurvePiece hyperbola_piece

text \<open>A payout function is the list of its pieces.\<close>

type_synonym payout_function = "payout_piece list"

record rounding_interval =
  ri_begin_interval :: nat
  ri_rounding_mod :: nat

type_synonym rounding_intervals = "rounding_interval list"

definition polynomial_new :: "payout_point list \<Rightarrow> (payout_piece, manager_error) res" where
  "polynomial_new points =
     (if 1 < length points \<and> list_all (\<lambda>(cur, next). pp_event_outcome cur < pp_event_outcome next) (zip points (tl points))
      then Ok (PolynomialPayoutCurvePiece points) else Err InvalidParameters)"

definition hyperbola_new :: "hyperbola_piece \<Rightarrow> (payout_piece, manager_error) res" where
  "hyperbola_new h =
     (if f64_eq (f64_mul (hp_a h) (hp_d h)) (f64_mul (hp_b h) (hp_c h)) then Err InvalidParameters
      else if pp_event_outcome (hp_right_end_point h) \<le> pp_event_outcome (hp_left_end_point h) then Err InvalidParameters
      else Ok (HyperbolaPayoutCurvePiece h))"

fun get_first_point :: "payout_piece \<Rightarrow> (payout_point, 'e) res" where
  "get_first_point (PolynomialPayoutCurvePiece p) = index p 0"
| "get_first_point (HyperbolaPayoutCurvePiece h) = Ok (hp_left_end_point h)"

fun get_last_point :: "payout_piece \<Rightarrow> (payout_point, 'e) res" where
  "get_last_point (PolynomialPayoutCurvePiece p) = (if p = [] then Panic else Ok (last p))"
| "get_last_point (HyperbolaPayoutCurvePiece h) = Ok (hp_right_end_point h)"

text \<open>\<open>all\<close> stops at the first pair that does not match.\<close>

fun is_continuous :: "payout_piece list \<Rightarrow> (bool, 'e) res" where
  "is_continuous (cur # next # ps) =
     and_then (get_last_point cur) (\<lambda>l.
     and_then (get_first_point next) (\<lambda>f.
       if l = f then is_continuous (next # ps) else Ok False))"
| "is_continuous ps = Ok True"

definition payout_function_new :: "payout_piece list \<Rightarrow> (payout_function, manager_error) res" where
  "payout_function_new pieces =
     (if pieces = [] then Err InvalidParameters
      else and_then (is_continuous pieces) (\<lambda>c. if c then Ok pieces else Err InvalidParameters))"

definition payout_function_validate :: "payout_function \<Rightarrow> nat \<Rightarrow> (unit, manager_error) res" where
  "payout_function_validate pieces max_value =
     and_then (is_continuous pieces) (\<lambda>c.
     if \<not> c then Err InvalidParameters
     else
       and_then (index pieces 0) (\<lambda>p.
       and_then (get_first_point p) (\<lambda>f.
       and_then (get_last_point (last pieces)) (\<lambda>l.
         if pp_event_outcome f = 0 \<and> pp_event_outcome l = max_value then Ok () else Err InvalidParameters))))"

section \<open>Rounding\<close>

text \<open>
  \<open>binary_search_by\<close> of the standard library on a strictly increasing list: \<open>Inl\<close> the position
  of the key, or \<open>Inr\<close> the position where it would be inserted.
\<close>

definition binary_search :: "nat list \<Rightarrow> nat \<Rightarrow> nat + nat" where
  "binary_search ks x =
     (let i = length (takeWhile (\<lambda>k. k < x) ks) in if i < length ks \<and> ks ! i = x then Inl i else Inr i)"

definition find_rounding_mod :: "rounding_intervals \<Rightarrow> nat \<Rightarrow> (nat, 'e) res" where
  "find_rounding_mod intervals outcome =
     (case binary_search (map ri_begin_interval intervals) outcome of
        Inl i \<Rightarrow> and_then (index intervals i) (\<lambda>r. Ok (ri_rounding_mod r))
      | Inr i \<Rightarrow> if i \<noteq> 0 then and_then (index intervals (i - 1)) (\<lambda>r. Ok (ri_rounding_mod r)) else Panic)"

definition rounding_round :: "rounding_intervals \<Rightarrow> nat \<Rightarrow> f64 \<Rightarrow> (nat, 'e) res" where
  "rounding_round intervals outcome pay =
     and_then (find_rounding_mod intervals outcome) (\<lambda>m.
       let rounding_mod = nat_f64 m;
           r = (if f64_le f64_zero pay then f64_rem pay rounding_mod
                else f64_add (f64_rem pay rounding_mod) rounding_mod)
       in Ok (f64_as_u64 (f64_nearest
            (if f64_le (f64_quot rounding_mod (nat_f64 2)) r
             then f64_sub (f64_add pay rounding_mod) r else f64_sub pay r))))"

definition rounding_validate :: "rounding_intervals \<Rightarrow> (unit, manager_error) res" where
  "rounding_validate intervals =
     (if intervals = [] then Err InvalidParameters
      else if ri_begin_interval (hd intervals) \<noteq> 0 then Err InvalidParameters
      else if list_ex (\<lambda>(cur, x). ri_begin_interval x \<le> ri_begin_interval cur) (zip intervals (tl intervals))
      then Err InvalidParameters else Ok ())"

section \<open>Evaluation\<close>

definition get_outcome_payout :: "payout_point \<Rightarrow> f64" where
  "get_outcome_payout p =
     f64_add (nat_f64 (pp_outcome_payout p)) (f64_quot (nat_f64 (pp_extra_precision p)) (nat_f64 65536))"

text \<open>The factor of the point \<open>i\<close> of the Lagrange polynomial and the sum over all points.\<close>

definition lagrange_term :: "payout_point list \<Rightarrow> f64 \<Rightarrow> nat \<Rightarrow> (f64, 'e) res" where
  "lagrange_term points x i =
     and_then (index points i) (\<lambda>p.
       fold_res (\<lambda>j l.
         if i = j then Ok l
         else
           and_then (index points j) (\<lambda>q.
           and_then (assert_that (pp_event_outcome p \<noteq> pp_event_outcome q)) (\<lambda>_.
             let i_outcome = nat_f64 (pp_event_outcome p); j_outcome = nat_f64 (pp_event_outcome q)
             in Ok (f64_mul l (f64_quot (f64_sub x j_outcome) (f64_sub i_outcome j_outcome))))))
         [0..<length points] (get_outcome_payout p))"

definition evaluate_polynomial :: "payout_point list \<Rightarrow> nat \<Rightarrow> (f64, 'e) res" where
  "evaluate_polynomial points outcome =
     (if length points = 2
      then
        (let left_point = points ! 0; right_point = points ! 1 in
         if pp_outcome_payout left_point = pp_outcome_payout right_point
         then Ok (nat_f64 (pp_outcome_payout right_point))
         else
           and_then (usub (pp_event_outcome right_point) (pp_event_outcome left_point)) (\<lambda>dx.
           and_then (usub outcome (pp_event_outcome left_point)) (\<lambda>x.
             let slope = f64_quot (f64_sub (nat_f64 (pp_outcome_payout right_point)) (nat_f64 (pp_outcome_payout left_point)))
                           (nat_f64 dx)
             in Ok (f64_add (f64_mul (nat_f64 x) slope) (nat_f64 (pp_outcome_payout left_point))))))
      else
        fold_res (\<lambda>i result. and_then (lagrange_term points (nat_f64 outcome) i) (\<lambda>l. Ok (f64_add result l)))
          [0..<length points] f64_zero)"

definition evaluate_hyperbola :: "hyperbola_piece \<Rightarrow> nat \<Rightarrow> f64" where
  "evaluate_hyperbola h outcome =
     (let x = f64_sub (nat_f64 outcome) (hp_translate_outcome h);
          sqrt_abs = f64_sqrt (f64_sub (f64_mul x x) (f64_mul (f64_mul (nat_f64 4) (hp_a h)) (hp_b h)));
          sqrt_term = (if hp_use_positive_piece h then sqrt_abs else f64_neg sqrt_abs);
          sum_term = f64_add x sqrt_term;
          first_term = f64_quot (f64_mul (hp_c h) sum_term) (f64_mul (nat_f64 2) (hp_a h));
          second_term = f64_quot (f64_mul (f64_mul (nat_f64 2) (hp_a h)) (hp_d h)) sum_term
      in f64_add (f64_add first_term second_term) (hp_translate_payout h))"

fun evaluate :: "payout_piece \<Rightarrow> nat \<Rightarrow> (f64, 'e) res" where
  "evaluate (PolynomialPayoutCurvePiece p) outcome = evaluate_polynomial p outcome"
| "evaluate (HyperbolaPayoutCurvePiece h) outcome = Ok (evaluate_hyperbola h outcome)"

definition get_first_outcome :: "payout_piece \<Rightarrow> (nat, 'e) res" where
  "get_first_outcome p = and_then (get_first_point p) (\<lambda>x. Ok (pp_event_outcome x))"

definition get_last_outcome :: "payout_piece \<Rightarrow> (nat, 'e) res" where
  "get_last_outcome p = and_then (get_last_point p) (\<lambda>x. Ok (pp_event_outcome x))"

definition get_rounded_payout :: "payout_piece \<Rightarrow> nat \<Rightarrow> rounding_intervals \<Rightarrow> nat \<Rightarrow> (nat, manager_error) res" where
  "get_rounded_payout f outcome intervals collateral_sum =
     and_then (evaluate f outcome) (\<lambda>payout_double.
     if f64_sign_negative payout_double \<or> (\<not> f64_eq payout_double f64_zero \<and> \<not> f64_is_normal payout_double)
     then Err InvalidParameters
     else if f64_less (nat_f64 collateral_sum) (f64_nearest payout_double) then Err InvalidParameters
     else and_then (rounding_round intervals outcome payout_double) (\<lambda>r. Ok (min r collateral_sum)))"

section \<open>Ranges of outcomes with one payout\<close>

definition new_range :: "nat \<Rightarrow> nat \<Rightarrow> nat \<Rightarrow> (range_payout, 'e) res" where
  "new_range outcome pay collateral_sum =
     and_then (usub collateral_sum pay) (\<lambda>rest.
       Ok \<lparr>rp_start = outcome, rp_count = 1, rp_payout = \<lparr>offer = pay, accept = rest\<rparr>\<rparr>)"

text \<open>The last range so far, taken off the list, or the range of the first outcome.\<close>

definition get_cur_range ::
  "payout_piece \<Rightarrow> range_payout list \<Rightarrow> nat \<Rightarrow> rounding_intervals
    \<Rightarrow> (range_payout \<times> range_payout list, manager_error) res" where
  "get_cur_range f ranges collateral_sum intervals =
     (if ranges \<noteq> [] then Ok (last ranges, butlast ranges)
      else
        and_then (get_first_outcome f) (\<lambda>first_outcome.
        and_then (get_rounded_payout f first_outcome intervals collateral_sum) (\<lambda>first_payout.
        and_then (new_range first_outcome first_payout collateral_sum) (\<lambda>r. Ok (r, [])))))"

definition extend_ranges ::
  "payout_piece \<Rightarrow> rounding_intervals \<Rightarrow> nat \<Rightarrow> nat \<Rightarrow> range_payout \<times> range_payout list
    \<Rightarrow> (range_payout \<times> range_payout list, manager_error) res" where
  "extend_ranges f intervals collateral_sum outcome = (\<lambda>(cur_range, ranges).
     and_then (get_rounded_payout f outcome intervals collateral_sum) (\<lambda>pay.
     if collateral_sum < pay then Err InvalidParameters
     else if offer (rp_payout cur_range) = pay
     then and_then (uadd (rp_count cur_range) 1) (\<lambda>c. Ok (cur_range\<lparr>rp_count := c\<rparr>, ranges))
     else and_then (new_range outcome pay collateral_sum) (\<lambda>r. Ok (r, ranges @ [cur_range]))))"

definition compute_range_payouts ::
  "payout_piece \<Rightarrow> rounding_intervals \<Rightarrow> nat \<Rightarrow> range_payout list \<Rightarrow> (range_payout list, manager_error) res" where
  "compute_range_payouts f intervals collateral_sum ranges =
     and_then (get_first_outcome f) (\<lambda>first_outcome.
     and_then (get_cur_range f ranges collateral_sum intervals) (\<lambda>st.
     and_then (get_last_outcome f) (\<lambda>last_outcome.
       let range_end = min (last_outcome + 1) (usize_bound - 1) in
       and_then (uadd first_outcome 1) (\<lambda>a.
       and_then (fold_res (extend_ranges f intervals collateral_sum) [a..<range_end] st) (\<lambda>(cur_range, ranges').
         Ok (ranges' @ [cur_range]))))))"

fun piece_to_range_payouts ::
  "payout_piece \<Rightarrow> nat \<Rightarrow> rounding_intervals \<Rightarrow> range_payout list \<Rightarrow> (range_payout list, manager_error) res" where
  "piece_to_range_payouts (PolynomialPayoutCurvePiece p) collateral_sum intervals ranges =
     (if length p = 2 \<and> pp_outcome_payout (p ! 0) = pp_outcome_payout (p ! 1)
      then
        and_then (get_cur_range (PolynomialPayoutCurvePiece p) ranges collateral_sum intervals) (\<lambda>(cur_range, ranges').
        and_then (usub (pp_event_outcome (p ! 1)) (pp_event_outcome (p ! 0))) (\<lambda>n.
        and_then (uadd (rp_count cur_range) n) (\<lambda>c.
          Ok (ranges' @ [cur_range\<lparr>rp_count := c\<rparr>]))))
      else compute_range_payouts (PolynomialPayoutCurvePiece p) intervals collateral_sum ranges)"
| "piece_to_range_payouts (HyperbolaPayoutCurvePiece h) collateral_sum intervals ranges =
     compute_range_payouts (HyperbolaPayoutCurvePiece h) intervals collateral_sum ranges"

definition to_range_payouts :: "payout_function \<Rightarrow> nat \<Rightarrow> rounding_intervals \<Rightarrow> (range_payout list, manager_error) res" where
  "to_range_payouts pieces collateral_sum intervals =
     fold_res (\<lambda>piece ranges. piece_to_range_payouts piece collateral_sum intervals ranges) pieces []"

section \<open>The ranges of an ascending function\<close>

text \<open>
  \<open>range_ok\<close>: the ranges cover the outcomes from \<open>a\<close> to \<open>c\<close> (exclusive) without a gap, each
  splits the collateral, and each outcome has a payout that satisfies \<open>Q\<close>.
\<close>

definition paid :: "(nat \<Rightarrow> nat \<Rightarrow> bool) \<Rightarrow> range_payout list \<Rightarrow> nat \<Rightarrow> bool" where
  "paid Q rs x \<longleftrightarrow> (\<exists>r\<in>set rs. rp_start r \<le> x \<and> x < rp_start r + rp_count r \<and> Q x (offer (rp_payout r)))"

definition range_ok :: "nat \<Rightarrow> (nat \<Rightarrow> nat \<Rightarrow> bool) \<Rightarrow> range_payout list \<Rightarrow> nat \<Rightarrow> nat \<Rightarrow> bool" where
  "range_ok tot Q rs a c \<longleftrightarrow>
     contiguous rs a c \<and> (\<forall>r\<in>set rs. offer (rp_payout r) + accept (rp_payout r) = tot) \<and>
     (\<forall>x. a \<le> x \<and> x < c \<longrightarrow> paid Q rs x)"

lemma contiguous_snoc:
  "contiguous (rs @ [r]) a c \<longleftrightarrow> contiguous rs a (rp_start r) \<and> 0 < rp_count r \<and> rp_start r + rp_count r = c"
  by (auto simp: contiguous_append)

lemma range_ok_extend:
  assumes "range_ok tot Q (rs @ [r]) a c" "\<And>x. c \<le> x \<Longrightarrow> x < c + n \<Longrightarrow> Q x (offer (rp_payout r))"
  shows "range_ok tot Q (rs @ [r\<lparr>rp_count := rp_count r + n\<rparr>]) a (c + n)"
proof -
  have c: "contiguous (rs @ [r]) a c" using assms(1) by (simp add: range_ok_def)
  have p: "paid Q (rs @ [r\<lparr>rp_count := rp_count r + n\<rparr>]) x" if x: "a \<le> x" "x < c + n" for x
  proof (cases "x < c")
    case True
    then have "paid Q (rs @ [r]) x" using assms(1) x by (simp add: range_ok_def)
    then show ?thesis by (auto simp: paid_def)
  next
    case False
    then show ?thesis using x c assms(2) by (auto simp: paid_def contiguous_snoc)
  qed
  show ?thesis
    using assms(1) p by (auto simp: range_ok_def contiguous_snoc)
qed

lemma range_ok_add:
  assumes "range_ok tot Q rs a c" "new_range c v tot = (Ok r :: (_, 'e) res)" "Q c v"
  shows "range_ok tot Q (rs @ [r]) a (c + 1)"
proof -
  have r: "r = \<lparr>rp_start = c, rp_count = 1, rp_payout = \<lparr>offer = v, accept = tot - v\<rparr>\<rparr>" "v \<le> tot"
    using assms(2) by (auto simp: new_range_def res_simps)
  have "paid Q (rs @ [r]) x" if x: "a \<le> x" "x < c + 1" for x
  proof (cases "x < c")
    case True
    then have "paid Q rs x" using assms(1) x by (simp add: range_ok_def)
    then show ?thesis by (auto simp: paid_def)
  next
    case False
    then have "x = c" using x by simp
    then show ?thesis using assms(3) r by (auto simp: paid_def)
  qed
  then show ?thesis using assms(1) r by (auto simp: range_ok_def contiguous_snoc)
qed

text \<open>One round of the loop, and the loop.\<close>

lemma extend_ranges_ok:
  assumes "extend_ranges f ivs tot c (cur, rs) = Ok (cur', rs')" "range_ok tot Q (rs @ [cur]) a c"
    and "\<And>v. get_rounded_payout f c ivs tot = Ok v \<Longrightarrow> Q c v"
  shows "range_ok tot Q (rs' @ [cur']) a (c + 1)"
proof -
  obtain v where v: "get_rounded_payout f c ivs tot = Ok v"
    using assms(1) by (auto simp: extend_ranges_def res_simps)
  show ?thesis
  proof (cases "offer (rp_payout cur) = v")
    case True
    then have "cur' = cur\<lparr>rp_count := rp_count cur + 1\<rparr>" "rs' = rs"
      using assms(1) v by (auto simp: extend_ranges_def res_simps split: if_splits)
    then show ?thesis
      using range_ok_extend [OF assms(2), of 1] assms(3) [OF v] True by (simp add: le_less_Suc_eq)
  next
    case False
    then have "new_range c v tot = (Ok cur' :: (_, manager_error) res)" "rs' = rs @ [cur]"
      using assms(1) v by (auto simp: extend_ranges_def res_simps split: if_splits)
    then show ?thesis using range_ok_add [OF assms(2) _ assms(3) [OF v]] by blast
  qed
qed

lemma extend_all_ok:
  assumes "fold_res (extend_ranges f ivs tot) [c..<e] (cur, rs) = Ok (cur', rs')"
    and "range_ok tot Q (rs @ [cur]) a c" "c \<le> e"
    and "\<And>x v. c \<le> x \<Longrightarrow> x < e \<Longrightarrow> get_rounded_payout f x ivs tot = Ok v \<Longrightarrow> Q x v"
  shows "range_ok tot Q (rs' @ [cur']) a e"
  using assms
proof (induction "e - c" arbitrary: c cur rs)
  case 0
  then show ?case by simp
next
  case (Suc n)
  then have l: "[c..<e] = c # [c + 1..<e]" by (simp add: upt_conv_Cons)
  obtain cur1 rs1 where s: "extend_ranges f ivs tot c (cur, rs) = Ok (cur1, rs1)"
    "fold_res (extend_ranges f ivs tot) [c + 1..<e] (cur1, rs1) = Ok (cur', rs')"
    using Suc.prems(1) unfolding l by (auto simp: res_simps)
  have "range_ok tot Q (rs1 @ [cur1]) a (c + 1)"
    using extend_ranges_ok [OF s(1) Suc.prems(2)] Suc.prems(4) Suc.hyps(2) by simp
  then show ?case using Suc.hyps(1) [of "c + 1" cur1 rs1] s(2) Suc.hyps(2) Suc.prems(4) by simp
qed

text \<open>A piece is ascending if its constructor accepts it.\<close>

definition ascending :: "payout_piece \<Rightarrow> bool" where
  "ascending p = (case p of
     PolynomialPayoutCurvePiece ps \<Rightarrow> polynomial_new ps = Ok p
   | HyperbolaPayoutCurvePiece h \<Rightarrow> pp_event_outcome (hp_left_end_point h) < pp_event_outcome (hp_right_end_point h))"

definition piece_start :: "payout_piece \<Rightarrow> nat" where
  "piece_start p = (case p of PolynomialPayoutCurvePiece ps \<Rightarrow> pp_event_outcome (hd ps)
     | HyperbolaPayoutCurvePiece h \<Rightarrow> pp_event_outcome (hp_left_end_point h))"

definition piece_end :: "payout_piece \<Rightarrow> nat" where
  "piece_end p = (case p of PolynomialPayoutCurvePiece ps \<Rightarrow> pp_event_outcome (last ps)
     | HyperbolaPayoutCurvePiece h \<Rightarrow> pp_event_outcome (hp_right_end_point h))"

lemma adjacent_sorted: "list_all (\<lambda>(x, y). f x < (f y :: nat)) (zip xs (tl xs)) \<Longrightarrow> xs \<noteq> [] \<Longrightarrow> f (hd xs) \<le> f (last xs)"
proof (induction xs)
  case (Cons x xs)
  then show ?case by (cases xs) (auto split: if_splits)
qed simp

lemma ascending_bounds:
  assumes "ascending p"
  shows "piece_start p < piece_end p" "get_first_outcome p = (Ok (piece_start p) :: (_, 'e) res)"
    "get_last_outcome p = (Ok (piece_end p) :: (_, 'e) res)"
proof -
  show "piece_start p < piece_end p"
  proof (cases p)
    case (PolynomialPayoutCurvePiece ps)
    then obtain a b qs where q: "ps = a # b # qs" "pp_event_outcome a < pp_event_outcome b"
      "list_all (\<lambda>(x, y). pp_event_outcome x < pp_event_outcome y) (zip (b # qs) (tl (b # qs)))"
      using assms by (cases ps; cases "tl ps") (auto simp: ascending_def polynomial_new_def split: if_splits)
    then have "pp_event_outcome b \<le> pp_event_outcome (last (b # qs))" using adjacent_sorted [of pp_event_outcome "b # qs"] by simp
    then show ?thesis using PolynomialPayoutCurvePiece q by (simp add: piece_start_def piece_end_def)
  qed (use assms in \<open>simp add: ascending_def piece_start_def piece_end_def\<close>)
  show "get_first_outcome p = (Ok (piece_start p) :: (_, 'e) res)" "get_last_outcome p = (Ok (piece_end p) :: (_, 'e) res)"
    using assms by (cases p; auto simp: ascending_def polynomial_new_def get_first_outcome_def get_last_outcome_def
      piece_start_def piece_end_def index_def hd_conv_nth split: if_splits)+
qed

text \<open>The payout the code assigns to an outcome of a piece.  A constant piece extends the range it starts in.\<close>

definition constant_piece :: "payout_piece \<Rightarrow> bool" where
  "constant_piece p = (\<exists>a b. p = PolynomialPayoutCurvePiece [a, b] \<and> pp_outcome_payout a = pp_outcome_payout b)"

definition piece_pays :: "rounding_intervals \<Rightarrow> nat \<Rightarrow> payout_piece list \<Rightarrow> nat \<Rightarrow> nat \<Rightarrow> bool" where
  "piece_pays ivs tot ps x v \<longleftrightarrow> (\<exists>p\<in>set ps. piece_start p \<le> x \<and> x \<le> piece_end p \<and>
     (get_rounded_payout p x ivs tot = Ok v \<or> constant_piece p))"

lemma get_cur_range_ok:
  assumes "get_cur_range p rs tot ivs = Ok (cur, rs')" "ascending p" "p \<in> set ps"
    and "rs \<noteq> [] \<Longrightarrow> range_ok tot (piece_pays ivs tot ps) rs a (piece_start p + 1)" "rs = [] \<Longrightarrow> a = piece_start p"
  shows "range_ok tot (piece_pays ivs tot ps) (rs' @ [cur]) a (piece_start p + 1)"
proof (cases "rs = []")
  case True
  obtain v where v: "get_rounded_payout p (piece_start p) ivs tot = Ok v"
    "new_range (piece_start p) v tot = (Ok cur :: (_, manager_error) res)" "rs' = []"
    using assms(1) True ascending_bounds(2) [OF assms(2), where ?'e = manager_error]
    by (auto simp: get_cur_range_def res_simps)
  have "piece_pays ivs tot ps (piece_start p) v"
    using v(1) assms(2,3) ascending_bounds(1) [OF assms(2)] unfolding piece_pays_def by (intro bexI [of _ p]) auto
  then have "range_ok tot (piece_pays ivs tot ps) ([] @ [cur]) (piece_start p) (piece_start p + 1)"
    by (intro range_ok_add [OF _ v(2)]) (auto simp: range_ok_def)
  then show ?thesis using v(3) assms(5) True by simp
next
  case False
  then have "cur = last rs" "rs' = butlast rs" using assms(1) by (auto simp: get_cur_range_def)
  then show ?thesis using assms(4) False by simp
qed

lemma piece_ranges_ok:
  assumes "piece_to_range_payouts p tot ivs rs = Ok rs'" "ascending p" "p \<in> set ps" "piece_end p < usize_bound - 1"
    and "rs \<noteq> [] \<Longrightarrow> range_ok tot (piece_pays ivs tot ps) rs a (piece_start p + 1)" "rs = [] \<Longrightarrow> a = piece_start p"
  shows "range_ok tot (piece_pays ivs tot ps) rs' a (piece_end p + 1) \<and> rs' \<noteq> []"
proof (cases "constant_piece p")
  case True
  then obtain x y where p: "p = PolynomialPayoutCurvePiece [x, y]" "pp_outcome_payout x = pp_outcome_payout y"
    by (auto simp: constant_piece_def)
  obtain cur rs1 where c: "get_cur_range p rs tot ivs = Ok (cur, rs1)"
    and r: "rs' = rs1 @ [cur\<lparr>rp_count := rp_count cur + (piece_end p - piece_start p)\<rparr>]"
    using assms(1) p by (auto simp: res_simps piece_start_def piece_end_def)
  have le: "piece_start p < piece_end p" by (rule ascending_bounds(1) [OF assms(2)])
  have "piece_pays ivs tot ps x v" if "piece_start p + 1 \<le> x" "x < piece_start p + 1 + (piece_end p - piece_start p)" for x v
    using that True assms(3) le unfolding piece_pays_def by (intro bexI [of _ p]) auto
  then have "range_ok tot (piece_pays ivs tot ps) rs' a (piece_start p + 1 + (piece_end p - piece_start p))"
    unfolding r by (intro range_ok_extend get_cur_range_ok [OF c assms(2,3)] assms(5,6)) auto
  then show ?thesis using le r by simp
next
  case False
  then have "\<not> (length ps = 2 \<and> pp_outcome_payout (ps ! 0) = pp_outcome_payout (ps ! 1))"
    if "p = PolynomialPayoutCurvePiece ps" for ps
    using that by (cases ps; cases "tl ps") (auto simp: constant_piece_def)
  then have "compute_range_payouts p ivs tot rs = Ok rs'"
    using assms(1) by (cases p) (auto split: if_splits)
  then obtain cur rs1 cur' rs2 where c: "get_cur_range p rs tot ivs = Ok (cur, rs1)"
    and l: "fold_res (extend_ranges p ivs tot) [piece_start p + 1..<piece_end p + 1] (cur, rs1) = Ok (cur', rs2)"
    and r: "rs' = rs2 @ [cur']"
    using ascending_bounds(2,3) [OF assms(2), where ?'e = manager_error] assms(4)
    by (auto simp: compute_range_payouts_def res_simps Let_def simp del: upt_Suc)
  have "piece_pays ivs tot ps x v"
    if "piece_start p + 1 \<le> x" "x < piece_end p + 1" "get_rounded_payout p x ivs tot = Ok v" for x v
    using that assms(3) unfolding piece_pays_def by (intro bexI [of _ p]) auto
  then have "range_ok tot (piece_pays ivs tot ps) (rs2 @ [cur']) a (piece_end p + 1)"
    by (intro extend_all_ok [OF l get_cur_range_ok [OF c assms(2,3)]] assms(5,6))
      (auto simp: ascending_bounds(1) [OF assms(2)] less_imp_le)
  then show ?thesis using r by simp
qed

text \<open>The pieces one after the other.\<close>

lemma continuous_Cons:
  assumes "is_continuous (p # q # ps) = (Ok True :: (_, 'e) res)" "ascending p" "ascending q"
  shows "piece_end p = piece_start q" "is_continuous (q # ps) = (Ok True :: (_, 'e) res)"
proof -
  obtain l f where l: "get_last_point p = (Ok l :: (_, 'e) res)" and f: "get_first_point q = (Ok f :: (_, 'e) res)"
    and e: "l = f" and c: "is_continuous (q # ps) = (Ok True :: (_, 'e) res)"
    using assms(1) by (auto simp: res_simps split: if_splits)
  show "is_continuous (q # ps) = (Ok True :: (_, 'e) res)" by (rule c)
  show "piece_end p = piece_start q"
    using ascending_bounds(3) [OF assms(2), where ?'e = 'e] ascending_bounds(2) [OF assms(3), where ?'e = 'e] l f e
    by (simp add: get_last_outcome_def get_first_outcome_def)
qed

lemma continuous_ends:
  "is_continuous ps = (Ok True :: (_, 'e) res) \<Longrightarrow> list_all ascending ps \<Longrightarrow> p \<in> set ps \<Longrightarrow> piece_end p \<le> piece_end (last ps)"
proof (induction ps arbitrary: p)
  case (Cons q qs)
  then show ?case
  proof (cases qs)
    case (Cons r rs)
    have a: "ascending q" "ascending r" "list_all ascending qs" using Cons.prems(2) Cons by auto
    have c: "piece_end q = piece_start r" "is_continuous qs = (Ok True :: (_, 'e) res)"
      using continuous_Cons [where ?'e = 'e, OF _ a(1,2)] Cons.prems(1) Cons by auto
    have "piece_end r \<le> piece_end (last qs)" using Cons.IH [OF c(2) a(3), of r] Cons by simp
    then have "piece_end q \<le> piece_end (last qs)" using c(1) ascending_bounds(1) [OF a(2)] by simp
    then show ?thesis using Cons.prems(3) Cons.IH [OF c(2) a(3), of p] Cons by auto
  qed (use Cons.prems in simp)
qed simp

lemma pieces_ranges_ok:
  assumes "fold_res (\<lambda>p rs. piece_to_range_payouts p tot ivs rs) (p # qs) rs = Ok rs'"
    and "is_continuous (p # qs) = (Ok True :: (_, 'e) res)" "list_all ascending (p # qs)" "set (p # qs) \<subseteq> set ps"
    and "piece_end (last (p # qs)) < usize_bound - 1"
    and "rs \<noteq> [] \<Longrightarrow> range_ok tot (piece_pays ivs tot ps) rs a (piece_start p + 1)" "rs = [] \<Longrightarrow> a = piece_start p"
  shows "range_ok tot (piece_pays ivs tot ps) rs' a (piece_end (last (p # qs)) + 1)"
  using assms
proof (induction qs arbitrary: p rs)
  case (Cons q qs)
  have asc: "ascending p" "ascending q" using Cons.prems(3) by auto
  have le: "piece_end p < usize_bound - 1"
    using continuous_ends [OF Cons.prems(2,3), of p] Cons.prems(5) by simp
  obtain rs1 where r: "piece_to_range_payouts p tot ivs rs = Ok rs1"
    "fold_res (\<lambda>p rs. piece_to_range_payouts p tot ivs rs) (q # qs) rs1 = Ok rs'"
    using Cons.prems(1) by (auto simp: res_simps)
  note c = continuous_Cons [OF Cons.prems(2) asc]
  have 1: "range_ok tot (piece_pays ivs tot ps) rs1 a (piece_end p + 1) \<and> rs1 \<noteq> []"
    by (rule piece_ranges_ok [OF r(1) asc(1) _ le Cons.prems(6,7)]) (use Cons.prems(4) in auto)
  show ?case using Cons.IH [OF r(2) c(2)] Cons.prems(3-5) 1 c(1) by simp
next
  case Nil
  then have "piece_to_range_payouts p tot ivs rs = Ok rs'" by (auto simp: res_simps)
  from piece_ranges_ok [OF this _ _ _ Nil.prems(6,7)] show ?case using Nil.prems(3-5) by simp
qed

text \<open>
  C27. The payouts of a valid function whose pieces have ascending points: the ranges are contiguous
  from \<open>0\<close> to the largest outcome, every range splits the whole collateral between the parties, and
  the payout of an outcome is the rounded value of a piece at this outcome, except on a piece with
  a constant payout, which prolongs the range before it.
\<close>

theorem to_range_payouts_cover:
  assumes "payout_function_validate pieces max_value = Ok ()" "list_all ascending pieces" "max_value < usize_bound - 1"
    and "to_range_payouts pieces tot ivs = Ok rs"
  shows "contiguous rs 0 (max_value + 1) \<and>
    (\<forall>r\<in>set rs. offer (rp_payout r) + accept (rp_payout r) = tot) \<and>
    (\<forall>x\<le>max_value. \<exists>r\<in>set rs. rp_start r \<le> x \<and> x < rp_start r + rp_count r \<and>
      piece_pays ivs tot pieces x (offer (rp_payout r)))"
proof -
  obtain p qs where p: "pieces = p # qs" "is_continuous pieces = (Ok True :: (_, manager_error) res)"
    using assms(1) by (cases pieces) (auto simp: payout_function_validate_def index_def res_simps split: if_splits)
  have asc: "ascending p" "ascending (last pieces)" using assms(2) p(1) by (auto simp: list_all_iff)
  have b: "piece_start p = 0" "piece_end (last pieces) = max_value"
    using assms(1) p ascending_bounds(2) [OF asc(1), where ?'e = manager_error]
      ascending_bounds(3) [OF asc(2), where ?'e = manager_error]
    by (auto simp: payout_function_validate_def index_def res_simps get_first_outcome_def get_last_outcome_def split: if_splits)
  have "range_ok tot (piece_pays ivs tot pieces) rs 0 (piece_end (last (p # qs)) + 1)"
    using assms(2-4) p b
    by (intro pieces_ranges_ok [where rs = "[]" and ps = pieces]) (auto simp: to_range_payouts_def)
  then show ?thesis
    using b(2) p(1) by (auto simp: range_ok_def paid_def less_Suc_eq_le)
qed

definition example_point :: "nat \<Rightarrow> nat \<Rightarrow> payout_point" where
  "example_point x v = \<lparr>pp_event_outcome = x, pp_outcome_payout = v, pp_extra_precision = 0\<rparr>"

lemma example_point_simps [simp]:
  "pp_event_outcome (example_point x v) = x" "pp_outcome_payout (example_point x v) = v"
  "pp_extra_precision (example_point x v) = 0"
  by (simp_all add: example_point_def)

definition example_function :: payout_function where
  "example_function =
     [PolynomialPayoutCurvePiece [example_point 0 0, example_point 2 0],
      PolynomialPayoutCurvePiece [example_point 2 0, example_point 4 10],
      PolynomialPayoutCurvePiece [example_point 4 10, example_point 7 10]]"

definition example_rounding :: rounding_intervals where
  "example_rounding = [\<lparr>ri_begin_interval = 0, ri_rounding_mod = 1\<rparr>]"

lemmas evaluation_simps = get_rounded_payout_def evaluate_polynomial_def rounding_round_def find_rounding_mod_def
  binary_search_def index_def usub_def uadd_def f64_sub_def f64_eq_def f64_less_def f64_le_def

lemma example_ranges:
  "to_range_payouts example_function 10 example_rounding =
     Ok [\<lparr>rp_start = 0, rp_count = 3, rp_payout = \<lparr>offer = 0, accept = 10\<rparr>\<rparr>,
         \<lparr>rp_start = 3, rp_count = 1, rp_payout = \<lparr>offer = 5, accept = 5\<rparr>\<rparr>,
         \<lparr>rp_start = 4, rp_count = 4, rp_payout = \<lparr>offer = 10, accept = 0\<rparr>\<rparr>]"
proof -
  let ?A = "PolynomialPayoutCurvePiece [example_point 0 0, example_point 2 0]"
  let ?B = "PolynomialPayoutCurvePiece [example_point 2 0, example_point 4 10]"
  let ?C = "PolynomialPayoutCurvePiece [example_point 4 10, example_point 7 10]"
  have v: "get_rounded_payout ?A 0 example_rounding 10 = Ok 0" "get_rounded_payout ?B 3 example_rounding 10 = Ok 5"
    "get_rounded_payout ?B 4 example_rounding 10 = Ok 10"
    by (simp_all add: example_rounding_def evaluation_simps)
  have u: "[3..<5] = [3, 4::nat]" by code_simp
  note ranges = get_cur_range_def get_first_outcome_def get_last_outcome_def index_def usub_def uadd_def new_range_def
  have A: "piece_to_range_payouts ?A 10 example_rounding [] = Ok [\<lparr>rp_start = 0, rp_count = 3, rp_payout = \<lparr>offer = 0, accept = 10\<rparr>\<rparr>]"
    using v(1) by (simp add: ranges)
  have B: "piece_to_range_payouts ?B 10 example_rounding [\<lparr>rp_start = 0, rp_count = 3, rp_payout = \<lparr>offer = 0, accept = 10\<rparr>\<rparr>] =
      Ok [\<lparr>rp_start = 0, rp_count = 3, rp_payout = \<lparr>offer = 0, accept = 10\<rparr>\<rparr>,
          \<lparr>rp_start = 3, rp_count = 1, rp_payout = \<lparr>offer = 5, accept = 5\<rparr>\<rparr>,
          \<lparr>rp_start = 4, rp_count = 1, rp_payout = \<lparr>offer = 10, accept = 0\<rparr>\<rparr>]"
    using v(2,3) by (simp add: compute_range_payouts_def extend_ranges_def ranges u Let_def del: upt_Suc)
  show ?thesis
    using A B by (simp add: to_range_payouts_def example_function_def) (simp add: ranges)
qed

lemma to_range_payouts_cover_witness:
  "\<exists>rs. to_range_payouts example_function 10 example_rounding = Ok rs \<and> contiguous rs 0 8 \<and>
     (\<forall>x\<le>7. \<exists>r\<in>set rs. rp_start r \<le> x \<and> x < rp_start r + rp_count r \<and>
       piece_pays example_rounding 10 example_function x (offer (rp_payout r)))"
proof -
  have v: "payout_function_validate example_function 7 = Ok ()" by code_simp
  have a: "list_all ascending example_function"
    by (simp add: example_function_def ascending_def polynomial_new_def example_point_def)
  show ?thesis
    using to_range_payouts_cover [OF v a _ example_ranges] example_ranges by simp
qed

section \<open>What the validation lets through\<close>

text \<open>
  A rounding modulus of zero is accepted by the validation of the rounding intervals, and then
  every payout is rounded to zero: the remainder of the division by zero is NaN, and the cast of
  NaN to an integer is zero.
\<close>

theorem rounding_mod_zero:
  "rounding_validate [\<lparr>ri_begin_interval = 0, ri_rounding_mod = 0\<rparr>] = Ok () \<and>
   rounding_round [\<lparr>ri_begin_interval = 0, ri_rounding_mod = 0\<rparr>] outcome pay = (Ok 0 :: (_, 'e) res)"
proof
  have n: "f64_rem pay f64_zero = NaN" "f64_sub pay NaN = NaN" "f64_sub (f64_add pay f64_zero) NaN = NaN"
    by (cases pay; cases "f64_add pay f64_zero"; simp add: f64_sub_def)+
  show "rounding_validate [\<lparr>ri_begin_interval = 0, ri_rounding_mod = 0\<rparr>] = Ok ()"
    by (simp add: rounding_validate_def)
  show "rounding_round [\<lparr>ri_begin_interval = 0, ri_rounding_mod = 0\<rparr>] outcome pay = (Ok 0 :: (_, 'e) res)"
    using n by (simp add: rounding_round_def find_rounding_mod_def binary_search_def index_def Let_def)
qed

text \<open>A function whose middle piece runs backwards.\<close>

definition backward_function :: payout_function where
  "backward_function =
     [PolynomialPayoutCurvePiece [example_point 0 0, example_point 4 8],
      PolynomialPayoutCurvePiece [example_point 4 8, example_point 2 0],
      PolynomialPayoutCurvePiece [example_point 2 0, example_point 7 10]]"

text \<open>
  The validation checks that the pieces join and where they start and end, but not that the
  points of a piece ascend, as the constructor of a piece does: a function with a piece that runs
  backwards is accepted, and two of its ranges give the same outcome different payouts.
\<close>

theorem backward_function_accepted:
  "payout_function_validate backward_function 7 = Ok () \<and>
   (\<exists>rs r r'. to_range_payouts backward_function 10 example_rounding = Ok rs \<and> r \<in> set rs \<and> r' \<in> set rs \<and>
      rp_start r = 3 \<and> rp_start r' = 3 \<and> offer (rp_payout r) \<noteq> offer (rp_payout r'))"
proof -
  let ?A = "PolynomialPayoutCurvePiece [example_point 0 0, example_point 4 8]"
  let ?B = "PolynomialPayoutCurvePiece [example_point 4 8, example_point 2 0]"
  let ?C = "PolynomialPayoutCurvePiece [example_point 2 0, example_point 7 10]"
  let ?r = "\<lambda>x v. \<lparr>rp_start = x, rp_count = 1, rp_payout = \<lparr>offer = v, accept = 10 - v\<rparr>\<rparr>"
  have v: "get_rounded_payout ?A 0 example_rounding 10 = Ok 0" "get_rounded_payout ?A 1 example_rounding 10 = Ok 2"
    "get_rounded_payout ?A (Suc 0) example_rounding 10 = Ok 2"
    "get_rounded_payout ?A 2 example_rounding 10 = Ok 4" "get_rounded_payout ?A 3 example_rounding 10 = Ok 6"
    "get_rounded_payout ?A 4 example_rounding 10 = Ok 8" "get_rounded_payout ?C 3 example_rounding 10 = Ok 2"
    "get_rounded_payout ?C 4 example_rounding 10 = Ok 4" "get_rounded_payout ?C 5 example_rounding 10 = Ok 6"
    "get_rounded_payout ?C 6 example_rounding 10 = Ok 8" "get_rounded_payout ?C 7 example_rounding 10 = Ok 10"
    by (simp_all add: example_rounding_def evaluation_simps)
  have u: "[Suc 0..<5] = [1, 2, 3, 4]" "[3..<8] = [3, 4, 5, 6, 7::nat]" by code_simp+
  note ranges = get_cur_range_def get_first_outcome_def get_last_outcome_def index_def usub_def uadd_def new_range_def
    compute_range_payouts_def extend_ranges_def Let_def
  have A: "piece_to_range_payouts ?A 10 example_rounding [] = Ok (map2 ?r [0, 1, 2, 3, 4] [0, 2, 4, 6, 8])"
    using v by (simp add: ranges u del: upt_Suc)
  have B: "piece_to_range_payouts ?B 10 example_rounding rs = Ok rs" if "rs \<noteq> []" for rs
    using that by (simp add: ranges)
  have C: "piece_to_range_payouts ?C 10 example_rounding (map2 ?r [0, 1, 2, 3, 4] [0, 2, 4, 6, 8]) =
      Ok (map2 ?r [0, 1, 2, 3, 4, 3, 4, 5, 6, 7] [0, 2, 4, 6, 8, 2, 4, 6, 8, 10])"
    using v by (simp add: ranges u del: upt_Suc)
  have "to_range_payouts backward_function 10 example_rounding =
      Ok (map2 ?r [0, 1, 2, 3, 4, 3, 4, 5, 6, 7] [0, 2, 4, 6, 8, 2, 4, 6, 8, 10])"
    unfolding to_range_payouts_def backward_function_def using A B C by simp
  moreover have "payout_function_validate backward_function 7 = Ok ()"
    by (simp add: payout_function_validate_def backward_function_def index_def)
  moreover have "?r 3 6 \<in> set (map2 ?r [0, 1, 2, 3, 4, 3, 4, 5, 6, 7] [0, 2, 4, 6, 8, 2, 4, 6, 8, 10])"
    "?r 3 2 \<in> set (map2 ?r [0, 1, 2, 3, 4, 3, 4, 5, 6, 7] [0, 2, 4, 6, 8, 2, 4, 6, 8, 10])" by simp_all
  ultimately show ?thesis
    by (intro conjI exI [of _ "?r 3 6"] exI [of _ "?r 3 2"] exI) (assumption | simp)+
qed

end
