(* ===== verification/Dlc_Trie.thy ===== *)
theory Dlc_Trie
  imports Multi_Oracle_Trie Signatures
begin

text \<open>
  The trait \<open>DlcTrie\<close> of \<open>dlc-trie/src/lib.rs\<close>: making and verifying the adaptor signatures of all
  entries of a trie.  The methods are given the function \<open>generate\<close> of the trie.  The version
  without the feature \<open>parallel\<close> is modelled.  The main result: signatures made with a secret key
  verify with its public key, and the index returned by the verification is the next one.
\<close>

section \<open>Signing and verifying\<close>

definition sign_entry ::
  "('m) crypto_api_scheme \<Rightarrow> transaction list \<Rightarrow> seckey \<Rightarrow> script \<Rightarrow> nat \<Rightarrow> pubkey list list list \<Rightarrow> trie_iter_info
    \<Rightarrow> (nat \<times> adaptor_sig, dlc_error) res" where
  "sign_entry api cets fund_privkey witness_script fund_output_value points x =
     and_then (get_adaptor_point_for_indexed_paths api (ti_indexes x) (ti_paths x) points) (\<lambda>adaptor_point.
     and_then (index cets (cet_index (ti_value x))) (\<lambda>cet.
     and_then (create_cet_adaptor_sig_from_point api cet adaptor_point fund_privkey witness_script fund_output_value) (\<lambda>sig.
       Ok (adaptor_index (ti_value x), sig))))"

definition sign_helper ::
  "('m) crypto_api_scheme \<Rightarrow> transaction list \<Rightarrow> seckey \<Rightarrow> script \<Rightarrow> nat \<Rightarrow> pubkey list list list \<Rightarrow> trie_iter_info list
    \<Rightarrow> (adaptor_sig list, dlc_error) res" where
  "sign_helper api cets fund_privkey witness_script fund_output_value points trie_info =
     and_then (traverse (sign_entry api cets fund_privkey witness_script fund_output_value points) trie_info) (\<lambda>unsorted.
       Ok (map snd (sort_key fst unsorted)))"

definition verify_entry ::
  "('m) crypto_api_scheme \<Rightarrow> transaction list \<Rightarrow> adaptor_sig list \<Rightarrow> pubkey \<Rightarrow> script \<Rightarrow> nat \<Rightarrow> pubkey list list list
    \<Rightarrow> trie_iter_info \<Rightarrow> nat \<Rightarrow> (nat, dlc_error) res" where
  "verify_entry api cets adaptor_sigs fund_pk witness_script fund_output_value points x max_adaptor_index =
     and_then (get_adaptor_point_for_indexed_paths api (ti_indexes x) (ti_paths x) points) (\<lambda>adaptor_point.
     and_then (index adaptor_sigs (adaptor_index (ti_value x))) (\<lambda>sig.
     and_then (index cets (cet_index (ti_value x))) (\<lambda>cet.
     and_then (verify_cet_adaptor_sig_from_point api sig cet adaptor_point fund_pk witness_script fund_output_value) (\<lambda>_.
       Ok (max max_adaptor_index (adaptor_index (ti_value x)))))))"

definition verify_helper ::
  "('m) crypto_api_scheme \<Rightarrow> transaction list \<Rightarrow> adaptor_sig list \<Rightarrow> pubkey \<Rightarrow> script \<Rightarrow> nat \<Rightarrow> pubkey list list list
    \<Rightarrow> trie_iter_info list \<Rightarrow> (nat, dlc_error) res" where
  "verify_helper api cets adaptor_sigs fund_pk witness_script fund_output_value points trie_info =
     and_then (fold_res (verify_entry api cets adaptor_sigs fund_pk witness_script fund_output_value points) trie_info 0)
       (\<lambda>m. uadd m 1)"

text \<open>The methods that build the trie with its own \<open>generate\<close>.\<close>

type_synonym 't generator = "'t \<Rightarrow> nat \<Rightarrow> range_payout list \<Rightarrow> ('t \<times> trie_iter_info list, dlc_error) res"

definition generate_sign ::
  "('m) crypto_api_scheme \<Rightarrow> 't generator \<Rightarrow> 't \<Rightarrow> seckey \<Rightarrow> script \<Rightarrow> nat \<Rightarrow> range_payout list \<Rightarrow> transaction list
    \<Rightarrow> pubkey list list list \<Rightarrow> nat \<Rightarrow> ('t \<times> adaptor_sig list, dlc_error) res" where
  "generate_sign api generate trie fund_privkey witness_script fund_output_value ranges cets points adaptor_index_start =
     and_then (generate trie adaptor_index_start ranges) (\<lambda>(trie', trie_info).
     and_then (sign_helper api cets fund_privkey witness_script fund_output_value points trie_info) (\<lambda>sigs.
       Ok (trie', sigs)))"

definition generate_verify ::
  "('m) crypto_api_scheme \<Rightarrow> 't generator \<Rightarrow> 't \<Rightarrow> pubkey \<Rightarrow> script \<Rightarrow> nat \<Rightarrow> range_payout list \<Rightarrow> transaction list
    \<Rightarrow> pubkey list list list \<Rightarrow> adaptor_sig list \<Rightarrow> nat \<Rightarrow> ('t \<times> nat, dlc_error) res" where
  "generate_verify api generate trie fund_pk witness_script fund_output_value ranges cets points adaptor_sigs
       adaptor_index_start =
     and_then (generate trie adaptor_index_start ranges) (\<lambda>(trie', trie_info).
     and_then (verify_helper api cets adaptor_sigs fund_pk witness_script fund_output_value points trie_info) (\<lambda>n.
       Ok (trie', n)))"

section \<open>Signatures that were made verify\<close>

text \<open>The entries of a trie have the adaptor indices from \<open>a\<close> on, in their order.\<close>

definition consecutive :: "nat \<Rightarrow> trie_iter_info list \<Rightarrow> bool" where
  "consecutive a infos \<longleftrightarrow> map (\<lambda>x. adaptor_index (ti_value x)) infos = [a..<a + length infos]"

lemma sign_entry_index: "sign_entry api cets sk scr v pts x = Ok (i, sig) \<Longrightarrow> i = adaptor_index (ti_value x)"
  by (auto simp: sign_entry_def res_simps)

lemma sorted_unsorted:
  assumes "traverse (sign_entry api cets sk scr v pts) infos = Ok unsorted" "consecutive a infos"
  shows "sort_key fst unsorted = unsorted" "map fst unsorted = [a..<a + length infos]"
proof -
  have l: "list_all2 (\<lambda>x y. sign_entry api cets sk scr v pts x = Ok y) infos unsorted"
    using assms(1) by (simp add: traverse_Ok_iff)
  have "map fst unsorted = map (\<lambda>x. adaptor_index (ti_value x)) infos"
    using l by (intro nth_equalityI) (auto simp: list_all2_conv_all_nth, metis prod.collapse sign_entry_index)
  then show m: "map fst unsorted = [a..<a + length infos]" using assms(2) by (simp add: consecutive_def)
  then have "sorted (map fst unsorted)" by simp
  then show "sort_key fst unsorted = unsorted" by (rule sort_key_id_if_sorted)
qed

lemma verify_entry_ok:
  assumes "crypto_ok n api" "sign_entry api cets sk scr v pts x = Ok (i, sig)" "i < length sigs" "sigs ! i = sig"
  shows "verify_entry api cets sigs (pk_of_sk api sk) scr v pts x m = Ok (max m i)"
proof -
  obtain p msg where p: "get_adaptor_point_for_indexed_paths api (ti_indexes x) (ti_paths x) pts = Ok p"
    and c: "cet_index (ti_value x) < length cets"
    and m: "get_sig_hash_msg api (cets ! cet_index (ti_value x)) 0 scr v = Ok msg" "sig = adaptor_encrypt api msg sk p"
    and i: "i = adaptor_index (ti_value x)"
    using assms(2) by (auto simp: sign_entry_def res_simps create_cet_adaptor_sig_from_point_def simp del: index_eq_Ok)
      (auto simp: index_def split: if_splits)
  have "adaptor_verify api (sigs ! i) msg (pk_of_sk api sk) p"
    unfolding assms(4) m(2) by (rule crypto_okD(5) [OF assms(1)])
  then show ?thesis
    using p c m(1) i assms(3) by (simp add: verify_entry_def verify_cet_adaptor_sig_from_point_def index_def)
qed

lemma verify_entries_ok:
  assumes "\<And>m x. x \<in> set infos \<Longrightarrow> verify_entry api cets sigs pk scr v pts x m = Ok (max m (adaptor_index (ti_value x)))"
  shows "fold_res (verify_entry api cets sigs pk scr v pts) infos m =
    Ok (fold max (map (\<lambda>x. adaptor_index (ti_value x)) infos) m)"
  using assms by (induction infos arbitrary: m) (auto simp: max.commute)

lemma fold_max_upt: "n \<noteq> 0 \<Longrightarrow> fold max [a..<a + n] 0 = a + n - (1 :: nat)"
proof (induction n)
  case (Suc n)
  then show ?case by (cases n) auto
qed simp

lemma sign_verify_helper:
  assumes "crypto_ok n api" "sign_helper api cets sk scr v pts infos = Ok sigs" "consecutive a infos" "infos \<noteq> []"
    and "take (length sigs) (drop a all_sigs) = sigs" "a + length sigs < usize_bound"
  shows "verify_helper api cets all_sigs (pk_of_sk api sk) scr v pts infos = Ok (a + length sigs)"
proof -
  obtain unsorted where u: "traverse (sign_entry api cets sk scr v pts) infos = Ok unsorted"
    using assms(2) by (auto simp: sign_helper_def res_simps)
  note s = sorted_unsorted [OF u assms(3)]
  have sigs: "sigs = map snd unsorted" using assms(2) u s(1) by (simp add: sign_helper_def)
  have len: "length unsorted = length infos" using traverse_length [OF u] .
  have v: "verify_entry api cets all_sigs (pk_of_sk api sk) scr v pts x m = Ok (max m (adaptor_index (ti_value x)))"
    if x: "x \<in> set infos" for x m
  proof -
    obtain j where j: "j < length infos" "x = infos ! j" using x by (auto simp: in_set_conv_nth)
    then have e: "sign_entry api cets sk scr v pts x = Ok (unsorted ! j)"
      using u by (auto simp: traverse_Ok_iff list_all2_conv_all_nth)
    have f: "fst (unsorted ! j) = a + j" using s(2) len j(1) by (metis nth_map nth_upt nat_add_left_cancel_less)
    have l: "length sigs = length infos" "sigs ! j = snd (unsorted ! j)" using sigs len j(1) by simp_all
    have "sigs ! j = all_sigs ! (a + j)" "a + j < length all_sigs"
      using arg_cong [OF assms(5), of "\<lambda>xs. xs ! j"] arg_cong [OF assms(5), of length] j(1) l(1) by auto
    then show ?thesis
      using verify_entry_ok [OF assms(1), of cets sk scr v pts x "a + j" "snd (unsorted ! j)" all_sigs m] e f l(2)
        sign_entry_index [of api cets sk scr v pts x "a + j" "snd (unsorted ! j)"]
      by (metis prod.collapse)
  qed
  have "fold_res (verify_entry api cets all_sigs (pk_of_sk api sk) scr v pts) infos 0 = Ok (a + length infos - 1)"
    using verify_entries_ok [OF v] assms(3,4) fold_max_upt [of "length infos" a] by (simp add: consecutive_def)
  then show ?thesis using assms(4,6) sigs len by (simp add: verify_helper_def uadd_def)
qed

section \<open>The adaptor indices of a generated trie\<close>

text \<open>A property of the caller's state that the callback keeps is kept by every insertion.\<close>

lemma insert_internal_state:
  assumes "insert_internal b st cur path g s = Ok (i, st', s')" "P s"
    and "\<And>old s d s'. g old s = Ok (d, s') \<Longrightarrow> P s \<Longrightarrow> P s'"
  shows "P s'"
  using assms
proof (induction b st cur path g s arbitrary: i st' s' rule: insert_internal.induct)
  case (1 base store path get_data s)
  then show ?case by (auto simp: res_simps Let_def insert_new_leaf_def)
next
  case (2 base store cur path get_data s)
  note keep = 2(4)
  obtain pre where c: "cur < length store \<and> is_node (store ! cur)"
    and pre: "get_node_prefix (store ! cur) = (Ok pre :: (_, 'c) res)"
    using 2(2) by (auto simp: insert_internal.simps(2) Let_def res_simps split: if_splits)
  show ?case
  proof (cases "pre = path")
    case True
    then show ?thesis
      using 2(2) c pre 2(3) keep
      by (auto simp: insert_internal.simps(2) Let_def res_simps split: node.splits) (blast+)?
  next
    case False
    let ?common = "get_common_prefix pre path"
    show ?thesis
    proof (cases "pre = ?common")
      case True
      show ?thesis
      proof (cases "store ! cur")
        case (Node n)
        then obtain digit child j st2 where ch: "index (drop (length ?common) path) 0 = (Ok digit :: (_, 'c) res)"
            "index (dn_children n) digit = (Ok child :: (_, 'c) res)"
            "insert_internal base (store[cur := Node_None]) child (drop (length ?common) path) get_data s = Ok (j, st2, s')"
          using 2(2) c pre False True unfolding insert_internal.simps(2)
          by (simp add: Let_def res_simps del: index_eq_Ok) (metis prod.collapse)
        show ?thesis
          by (rule 2(1) [OF _ refl refl pre False refl refl True Node ch(1,2,3) 2(3)]) (use c keep in auto)
      next
        case (Leaf l)
        then show ?thesis
          using 2(2) c pre False True 2(3) keep unfolding insert_internal.simps(2)
          by (auto simp: Let_def res_simps insert_new_leaf_def)
      qed (use c in simp)
    next
      case ne: False
      then show ?thesis
        using 2(2) c pre False 2(3) keep unfolding insert_internal.simps(2)
        by (cases "path = ?common") (auto simp: Let_def res_simps insert_new_leaf_def)
    qed
  qed
qed

lemma digit_trie_insert_state:
  assumes "digit_trie_insert t path g s = Ok (t', s')" "P s" "\<And>old s d s'. g old s = Ok (d, s') \<Longrightarrow> P s \<Longrightarrow> P s'"
  shows "P s'"
  using assms(1) insert_internal_state [of "dt_base t" "dt_store t" "dt_root t" path g s _ _ s' P] assms(2,3)
  by (auto simp: digit_trie_insert_def res_simps split: if_splits)

lemma mt_insert_internal_state:
  assumes "mt_insert_internal b st cur ps k is g s = Ok (st', s')" "P s"
    and "\<And>s d s'. g ps is s = Ok (d, s') \<Longrightarrow> P s \<Longrightarrow> P s'"
  shows "P s'"
  using assms
proof (induction b st cur ps k "is" g s arbitrary: st' s' rule: mt_insert_internal.induct)
  case (1 base store cur paths k tis g s)
  from 1(2) show ?case
    unfolding mt_insert_internal.simps [of base store cur paths k tis g s]
    using 1(3,4) 1(1)
    by (auto simp: Let_def res_simps split: if_splits node.splits elim!: digit_trie_insert_state [where P = P])
qed

text \<open>The state of the generation: the next adaptor index and the entries made so far.\<close>

definition gen_inv :: "nat \<Rightarrow> nat \<times> trie_iter_info list \<Rightarrow> bool" where
  "gen_inv a = (\<lambda>(adaptor, infos). consecutive a infos \<and> adaptor = a + length infos)"

lemma gen_inv_start: "gen_inv a (a, [])"
  by (simp add: gen_inv_def consecutive_def)

lemma gen_inv_add:
  "gen_inv a (adaptor, infos) \<Longrightarrow> adaptor_index (ti_value x) = adaptor \<Longrightarrow> gen_inv a (adaptor + 1, infos @ [x])"
  by (auto simp: gen_inv_def consecutive_def)

lemma get_value_callback_inv:
  "get_value_callback ps is cet s = Ok (d, s') \<Longrightarrow> gen_inv a s \<Longrightarrow> gen_inv a s'"
  using gen_inv_add by (cases s) (force simp: get_value_callback_def Let_def res_simps)

lemma fold_res_inv:
  "fold_res f xs s = Ok s' \<Longrightarrow> P s \<Longrightarrow> (\<And>x s s'. f x s = Ok s' \<Longrightarrow> P s \<Longrightarrow> P s') \<Longrightarrow> P s'"
  by (rule fold_res_invariant) auto

lemma insert_paths_state:
  assumes "insert_paths b pt g (st, s) = Ok (st', s')" "P s" "\<And>ps is s d s'. g ps is s = Ok (d, s') \<Longrightarrow> P s \<Longrightarrow> P s'"
  shows "P s'"
proof -
  obtain ps tis where pt: "pt = (ps, tis)" by (cases pt)
  have "mt_insert_internal b st (tis ! 0) ps 0 tis g s = Ok (st', s')"
    using assms(1) unfolding pt insert_paths_def by (simp add: res_simps)
  then show ?thesis using assms(2) by (rule mt_insert_internal_state) (rule assms(3))
qed

lemma insert_max_paths_state:
  assumes "insert_max_paths t g s = Ok (t', s')" "P s" "\<And>ps is s d s'. g ps is s = Ok (d, s') \<Longrightarrow> P s \<Longrightarrow> P s'"
  shows "P s'"
proof -
  obtain ips st where "fold_res (\<lambda>p. insert_paths (oni_base (mt_infos t)) (map snd p, map fst p) g) ips (mt_store t, s) = Ok (st, s')"
    using assms(1) by (auto simp: insert_max_paths_def res_simps)
  then have "P (snd (st, s'))"
    by (rule fold_res_inv) (use assms(2,3) in \<open>auto elim: insert_paths_state\<close>)
  then show ?thesis by simp
qed

lemma multi_trie_insert_state:
  assumes "multi_trie_insert t path g s = Ok (t', s')" "P s" "\<And>ps is s d s'. g ps is s = Ok (d, s') \<Longrightarrow> P s \<Longrightarrow> P s'"
  shows "P s'"
proof -
  let ?step = "\<lambda>sel (store, s). and_then (selector_combinations t path sel) (\<lambda>combinations.
           fold_res (\<lambda>c. insert_paths (oni_base (mt_infos t)) (c, sel) g) combinations (store, s))"
  obtain sels st where f: "fold_res ?step sels (mt_store t, s) = Ok (st, s')"
    using assms(1) by (auto simp: multi_trie_insert_def res_simps)
  have step: "P (snd st')" if r: "?step sel st0 = Ok st'" "P (snd st0)" for sel st0 st'
  proof -
    obtain cs where "fold_res (\<lambda>c. insert_paths (oni_base (mt_infos t)) (c, sel) g) cs st0 = Ok st'"
      using r(1) by (cases st0) (auto simp: res_simps)
    then show ?thesis
      by (rule fold_res_inv) (use r(2) assms(3) in \<open>auto elim: insert_paths_state\<close>)
  qed
  have "P (snd (st, s'))" by (rule fold_res_inv [OF f, of "\<lambda>x. P (snd x)"]) (simp add: assms(2), rule step)
  then show ?thesis by simp
qed

lemma extra_cover_inv:
  assumes "insert_max_paths t (\<lambda>ps is s. and_then (usub l 1) (\<lambda>c. get_value_callback ps is c s)) s = Ok (t', s')" "gen_inv a s"
  shows "gen_inv a s'"
  using assms by (rule insert_max_paths_state) (auto simp: res_simps elim: get_value_callback_inv)

lemma diff_trie_generate_consecutive:
  assumes "diff_trie_generate trie a ranges = Ok (trie', infos)"
  shows "consecutive a infos"
proof -
  have g: "gen_inv a (snd st')" if "diff_trie_insert_group cet p st = Ok st'" "gen_inv a (snd st)" for cet p st st'
    using that by (cases st; cases st') (auto simp: diff_trie_insert_group_def elim: multi_trie_insert_state get_value_callback_inv)
  have r: "gen_inv a (snd st')" if s: "diff_trie_insert_range nfo x st = Ok st'" "gen_inv a (snd st)" for nfo x st st'
  proof -
    obtain cet groups where "fold_res (diff_trie_insert_group cet) groups st = Ok st'"
      using s(1) by (cases x) (auto simp: diff_trie_insert_range_def res_simps split: if_splits)
    then show ?thesis by (rule fold_res_inv) (use s(2) g in auto)
  qed
  obtain t s where st: "fold_res (diff_trie_insert_range (wd_infos trie)) (enumerate 0 ranges) (wd_trie trie, a, []) = Ok (t, s)"
    using assms by (auto simp: diff_trie_generate_def res_simps)
  have "gen_inv a (snd (t, s))"
    by (rule fold_res_inv [OF st, of "\<lambda>x. gen_inv a (snd x)"]) (simp add: gen_inv_start, rule r)
  then have inv: "gen_inv a s" by simp
  show ?thesis
  proof (cases "has_diff_nb_digits (wd_infos trie)")
    case True
    then obtain t' a' where "insert_max_paths t (\<lambda>ps is s. and_then (usub (length ranges) 1) (\<lambda>c. get_value_callback ps is c s)) s =
        (Ok (t', a', infos) :: (_, dlc_error) res)"
      using assms st by (cases s) (auto simp: diff_trie_generate_def res_simps)
    from extra_cover_inv [OF this inv] show ?thesis by (simp add: gen_inv_def)
  next
    case False
    then show ?thesis using assms st inv by (cases s) (simp add: diff_trie_generate_def gen_inv_def)
  qed
qed

lemma oracle_trie_value_inv:
  assumes "oracle_trie_value nfo threshold m cet g old s = (Ok (d, s') :: (_, 'e) res)" "gen_inv a s"
  shows "gen_inv a s'"
proof -
  obtain adaptor infos where s: "s = (adaptor, infos)" by (cases s)
  obtain a' infos' where s': "s' = (a', infos')" by (cases s')
  obtain sels where f: "fold_res (oracle_trie_entry nfo m cet g) sels (adaptor, infos, []) = (Ok (a', infos', d) :: (_, 'e) res)"
    using assms(1) s s' by (auto simp: oracle_trie_value_def res_simps)
  have step: "gen_inv a (fst st', fst (snd st'))"
    if "oracle_trie_entry nfo m cet g sel st = (Ok st' :: (_, 'e) res)" "gen_inv a (fst st, fst (snd st))" for sel st st'
    using that by (cases st) (auto simp: oracle_trie_entry_def Let_def res_simps intro!: gen_inv_add [of a, simplified])
  have "gen_inv a (fst (a', infos', d), fst (snd (a', infos', d)))"
    by (rule fold_res_inv [OF f, of "\<lambda>x. gen_inv a (fst x, fst (snd x))"]) (use assms(2) s in simp, rule step)
  then show ?thesis using s' by simp
qed

lemma oracle_trie_generate_consecutive:
  assumes "oracle_trie_generate trie a ranges = Ok (trie', infos)"
  shows "consecutive a infos"
proof -
  have g: "gen_inv a (snd st')" if "oracle_trie_insert_group nfo threshold m cet p st = (Ok st' :: (_, dlc_error) res)" "gen_inv a (snd st)"
    for nfo threshold m cet p st st'
    using that by (cases st; cases st') (auto simp: oracle_trie_insert_group_def elim: digit_trie_insert_state oracle_trie_value_inv)
  have r: "gen_inv a (snd st')" if s: "oracle_trie_insert_range nfo threshold m x st = Ok st'" "gen_inv a (snd st)"
    for nfo threshold m x st st'
  proof -
    obtain cet groups where "fold_res (oracle_trie_insert_group nfo threshold m cet) groups st = (Ok st' :: (_, dlc_error) res)"
      using s(1) by (cases x; cases st) (auto simp: oracle_trie_insert_range_def res_simps split: if_splits)
    then show ?thesis by (rule fold_res_inv) (use s(2) g in auto)
  qed
  obtain m t s where st: "fold_res (oracle_trie_insert_range (ot_infos trie) (ot_threshold trie) m) (enumerate 0 ranges)
      (ot_digit_trie trie, a, []) = Ok (t, s)" "get_min_nb_digits (ot_infos trie) = (Ok m :: (_, dlc_error) res)"
    using assms by (auto simp: oracle_trie_generate_def res_simps)
  have "gen_inv a (snd (t, s))"
    by (rule fold_res_inv [OF st(1), of "\<lambda>x. gen_inv a (snd x)"]) (simp add: gen_inv_start, rule r)
  then have inv: "gen_inv a s" by simp
  show ?thesis
  proof (cases "ot_extra_cover trie")
    case (Some x)
    then obtain t' a' where "insert_max_paths x (\<lambda>ps is s. and_then (usub (length ranges) 1) (\<lambda>c. get_value_callback ps is c s)) s =
        (Ok (t', a', infos) :: (_, dlc_error) res)"
      using assms st by (cases s) (auto simp: oracle_trie_generate_def res_simps)
    from extra_cover_inv [OF this inv] show ?thesis by (simp add: gen_inv_def)
  next
    case None
    then show ?thesis using assms st inv by (cases s) (simp add: oracle_trie_generate_def gen_inv_def)
  qed
qed

text \<open>Signing and verifying with a generator of consecutive entries.\<close>

lemma generate_sign_verify:
  assumes "crypto_ok n api" "generate_sign api generate trie sk scr v ranges cets pts a = Ok (trie', sigs)"
    and "\<And>t infos. generate trie a ranges = Ok (t, infos) \<Longrightarrow> consecutive a infos"
    and "sigs \<noteq> []" "take (length sigs) (drop a all_sigs) = sigs" "a + length sigs < usize_bound"
  shows "generate_verify api generate trie (pk_of_sk api sk) scr v ranges cets pts all_sigs a = Ok (trie', a + length sigs)"
proof -
  obtain infos where i: "generate trie a ranges = Ok (trie', infos)" "sign_helper api cets sk scr v pts infos = Ok sigs"
    using assms(2) by (auto simp: generate_sign_def res_simps)
  have "infos \<noteq> []" using i(2) assms(4) by (auto simp: sign_helper_def)
  then show ?thesis
    using sign_verify_helper [OF assms(1) i(2) assms(3) [OF i(1)] _ assms(5,6)] i(1)
    by (simp add: generate_verify_def)
qed

end
