(* ===== verification/Wire_Format.thy ===== *)
theory Wire_Format
  imports Signatures Float_Arithmetic
begin

text \<open>
  \<open>dlc-messages/src/ser_impls.rs\<close> and the macros of \<open>ser_macros.rs\<close>: how values are written to
  and read from a stream of bytes.  A codec is the pair of a \<open>Writeable\<close> and a \<open>Readable\<close>
  implementation; the combinators below are the field types of the macros.  The locale \<open>codec_law\<close>
  states the contract of the two traits: what was written is read back and nothing after it is
  consumed.  The locale \<open>wire_laws\<close> collects what holds over codecs of the other crates that keep
  their promises; every message adds its codec to it, and it is interpreted on \<open>lightning_wire\<close>.  The codecs of the \<open>lightning\<close> and
  \<open>bitcoin\<close> crates (integers, scripts, keys, signatures, transactions) are fields of \<open>wire_api\<close>.
\<close>

section \<open>Codecs\<close>

datatype decode_error = UnknownRequiredFeature | InvalidValue | ShortRead | BadLengthDescriptor | OtherDecodeError

type_synonym 'a reader = "bytes \<Rightarrow> ('a \<times> bytes, decode_error) res"

record 'a codec =
  put :: "'a \<Rightarrow> bytes"
  get :: "'a reader"

locale codec_law =
  fixes enc :: "'a \<Rightarrow> bytes" and dec :: "'a reader" and valid :: "'a \<Rightarrow> bool"
  assumes decode_encode: "valid x \<Longrightarrow> dec (enc x @ rest) = Ok (x, rest)"
begin

lemma decode_all: "valid x \<Longrightarrow> dec (enc x) = Ok (x, [])"
  using decode_encode [of x "[]"] by simp

lemma unique:
  assumes "valid x" "valid y" "enc x @ xs = enc y @ ys"
  shows "x = y \<and> xs = ys"
proof -
  have "Ok (x, xs) = (Ok (y, ys) :: (_, decode_error) res)"
    unfolding decode_encode [OF assms(1), symmetric] decode_encode [OF assms(2), symmetric] assms(3) by (rule refl)
  then show ?thesis by simp
qed

lemma injective: "valid x \<Longrightarrow> valid y \<Longrightarrow> enc x = enc y \<Longrightarrow> x = y"
  using unique [of x y "[]" "[]"] by blast

end

definition codec_ok :: "'a codec \<Rightarrow> ('a \<Rightarrow> bool) \<Rightarrow> bool" where
  "codec_ok c V \<longleftrightarrow> (\<forall>x rest. V x \<longrightarrow> get c (put c x @ rest) = Ok (x, rest))"

lemma codec_okD: "codec_ok c V \<Longrightarrow> V x \<Longrightarrow> get c (put c x @ rest) = Ok (x, rest)"
  by (simp add: codec_ok_def)

lemma codec_okI: "(\<And>x rest. V x \<Longrightarrow> get c (put c x @ rest) = Ok (x, rest)) \<Longrightarrow> codec_ok c V"
  by (simp add: codec_ok_def)

lemma codec_ok_law: "codec_ok c V \<Longrightarrow> codec_law (put c) (get c) V"
  by unfold_locales (simp add: codec_okD)

lemma codec_ok_mono: "codec_ok c V \<Longrightarrow> (\<And>x. W x \<Longrightarrow> V x) \<Longrightarrow> codec_ok c W"
  by (simp add: codec_ok_def)

section \<open>The codecs of other crates\<close>

record wire_api =
  u8 :: "nat codec"
  u16 :: "nat codec"
  u32 :: "nat codec"
  u64 :: "nat codec"
  i32_be :: "int codec"
  i64_be :: "int codec"
  f64_be :: "f64 codec"
  w_bool :: "bool codec"
  w_script :: "script codec"
  w_pubkey :: "pubkey codec"
  w_seckey :: "seckey codec"
  w_ecdsa :: "ecdsa_sig codec"
  w_adaptor :: "adaptor_sig codec"
  w_schnorr :: "schnorr_sig codec"
  w_xonly :: "xonly codec"
  w_transaction :: "transaction codec"
  w_out_point :: "out_point codec"
  w_array32 :: "bytes codec"
  w_bytes :: "bytes codec"
  utf8 :: "bytes \<Rightarrow> bool"
  max_buf_size :: nat

text \<open>What these crates promise.  A script, a key, a signature is valid when its own codec keeps it.\<close>

definition keeps :: "'a codec \<Rightarrow> 'a \<Rightarrow> bool" where
  "keeps c x \<longleftrightarrow> (\<forall>rest. get c (put c x @ rest) = Ok (x, rest))"

lemma codec_ok_keeps: "codec_ok c (keeps c)"
  by (simp add: codec_ok_def keeps_def)

definition wire_ok :: "wire_api \<Rightarrow> bool" where
  "wire_ok api \<longleftrightarrow>
     codec_ok (u8 api) (\<lambda>n. n < 2 ^ 8) \<and> codec_ok (u16 api) (\<lambda>n. n < 2 ^ 16) \<and>
     codec_ok (u32 api) (\<lambda>n. n < 2 ^ 32) \<and> codec_ok (u64 api) (\<lambda>n. n < 2 ^ 64) \<and>
     codec_ok (i32_be api) (\<lambda>i. - (2 ^ 31) \<le> i \<and> i < 2 ^ 31) \<and> codec_ok (i64_be api) (\<lambda>i. - (2 ^ 63) \<le> i \<and> i < 2 ^ 63) \<and>
     codec_ok (w_bool api) (\<lambda>_. True) \<and> codec_ok (w_array32 api) (\<lambda>b. length b = 32 \<and> (\<forall>x\<in>set b. x < 256))"

lemma wire_okD:
  assumes "wire_ok api"
  shows "codec_ok (u8 api) (\<lambda>n. n < 2 ^ 8)" "codec_ok (u16 api) (\<lambda>n. n < 2 ^ 16)" "codec_ok (u32 api) (\<lambda>n. n < 2 ^ 32)"
    "codec_ok (u64 api) (\<lambda>n. n < 2 ^ 64)" "codec_ok (i32_be api) (\<lambda>i. - (2 ^ 31) \<le> i \<and> i < 2 ^ 31)"
    "codec_ok (i64_be api) (\<lambda>i. - (2 ^ 63) \<le> i \<and> i < 2 ^ 63)" "codec_ok (w_bool api) (\<lambda>_. True)"
    "codec_ok (w_array32 api) (\<lambda>b. length b = 32 \<and> (\<forall>x\<in>set b. x < 256))"
  using assms by (simp_all add: wire_ok_def)

section \<open>Combinators\<close>

text \<open>The fields of a struct, one after the other.\<close>

definition seqc :: "'a codec \<Rightarrow> 'b codec \<Rightarrow> ('a \<times> 'b) codec" where
  "seqc c d = \<lparr>put = \<lambda>(x, y). put c x @ put d y,
     get = \<lambda>bs. and_then (get c bs) (\<lambda>(x, bs). and_then (get d bs) (\<lambda>(y, bs). Ok ((x, y), bs)))\<rparr>"

text \<open>The struct itself: \<open>g\<close> takes the fields out and \<open>f\<close> puts them together.\<close>

definition structc :: "('a \<Rightarrow> 'b) \<Rightarrow> ('b \<Rightarrow> 'a) \<Rightarrow> 'a codec \<Rightarrow> 'b codec" where
  "structc f g c = \<lparr>put = \<lambda>y. put c (g y), get = \<lambda>bs. and_then (get c bs) (\<lambda>(x, bs). Ok (f x, bs))\<rparr>"

text \<open>The version of the macro with a type id, which is written first and checked.\<close>

definition typed :: "wire_api \<Rightarrow> nat \<Rightarrow> 'a codec \<Rightarrow> 'a codec" where
  "typed api ty c = \<lparr>put = \<lambda>x. put (u16 api) ty @ put c x,
     get = \<lambda>bs. and_then (get (u16 api) bs) (\<lambda>(i, bs). if i \<noteq> ty then Err UnknownRequiredFeature else get c bs)\<rparr>"

text \<open>An integer that is narrowed by a cast before it is written.\<close>

definition castc :: "nat \<Rightarrow> nat codec \<Rightarrow> nat codec" where
  "castc w c = c\<lparr>put := \<lambda>n. put c (n mod 2 ^ w)\<rparr>"

definition big_size :: "wire_api \<Rightarrow> nat codec" where
  "big_size api =
     \<lparr>put = \<lambda>n.
        if n \<le> 0xFC then put (u8 api) n
        else if n \<le> 0xFFFF then put (u8 api) 0xFD @ put (u16 api) n
        else if n \<le> 0xFFFFFFFF then put (u8 api) 0xFE @ put (u32 api) n
        else put (u8 api) 0xFF @ put (u64 api) n,
      get = \<lambda>bs. and_then (get (u8 api) bs) (\<lambda>(n, bs).
        if n = 0xFF then and_then (get (u64 api) bs) (\<lambda>(x, bs). if x < 0x100000000 then Err InvalidValue else Ok (x, bs))
        else if n = 0xFE then and_then (get (u32 api) bs) (\<lambda>(x, bs). if x < 0x10000 then Err InvalidValue else Ok (x, bs))
        else if n = 0xFD then and_then (get (u16 api) bs) (\<lambda>(x, bs). if x < 0xFD then Err InvalidValue else Ok (x, bs))
        else Ok (n, bs))\<rparr>"

definition MAX_VEC_SIZE :: nat where "MAX_VEC_SIZE = 1000000"

text \<open>Reading a given number of values.\<close>

fun read_n :: "'a reader \<Rightarrow> nat \<Rightarrow> 'a list reader" where
  "read_n r 0 bs = Ok ([], bs)"
| "read_n r (Suc n) bs = and_then (r bs) (\<lambda>(x, bs). and_then (read_n r n bs) (\<lambda>(xs, bs). Ok (x # xs, bs)))"

text \<open>\<open>write_vec_cb\<close> and \<open>read_vec_cb\<close>, with a length of type BigSize, and the variant with a \<open>u16\<close>.\<close>

definition vecc :: "wire_api \<Rightarrow> 'a codec \<Rightarrow> 'a list codec" where
  "vecc api c =
     \<lparr>put = \<lambda>xs. put (big_size api) (length xs) @ concat (map (put c) xs),
      get = \<lambda>bs. and_then (get (big_size api) bs) (\<lambda>(n, bs). if MAX_VEC_SIZE < n then Err InvalidValue else read_n (get c) n bs)\<rparr>"

definition vec_u16 :: "wire_api \<Rightarrow> 'a codec \<Rightarrow> 'a list codec" where
  "vec_u16 api c =
     \<lparr>put = \<lambda>xs. put (u16 api) (length xs mod 2 ^ 16) @ concat (map (put c) xs),
      get = \<lambda>bs. and_then (get (u16 api) bs) (\<lambda>(n, bs). read_n (get c) n bs)\<rparr>"

text \<open>A string is its UTF-8 bytes.\<close>

definition stringc :: "wire_api \<Rightarrow> bytes codec" where
  "stringc api =
     \<lparr>put = \<lambda>s. put (big_size api) (length s) @ concat (map (put (u8 api)) s),
      get = \<lambda>bs. and_then (get (big_size api) bs) (\<lambda>(n, bs).
        if MAX_VEC_SIZE < n then Err InvalidValue
        else and_then (read_n (get (u8 api)) n bs) (\<lambda>(s, bs). if utf8 api s then Ok (s, bs) else Err InvalidValue))\<rparr>"

definition strings_u16 :: "wire_api \<Rightarrow> bytes list codec" where
  "strings_u16 api = vec_u16 api (stringc api)"

definition strings :: "wire_api \<Rightarrow> bytes list codec" where
  "strings api = vecc api (stringc api)"

definition optionc :: "wire_api \<Rightarrow> 'a codec \<Rightarrow> 'a option codec" where
  "optionc api c =
     \<lparr>put = \<lambda>m. case m of Some x \<Rightarrow> put (u8 api) 1 @ put c x | None \<Rightarrow> put (u8 api) 0,
      get = \<lambda>bs. and_then (get (u8 api) bs) (\<lambda>(i, bs).
        if i = 0 then Ok (None, bs)
        else if i = 1 then and_then (get c bs) (\<lambda>(x, bs). Ok (Some x, bs)) else Err InvalidValue)\<rparr>"

text \<open>An enum of two variants with the given ids.\<close>

definition enum2 :: "wire_api \<Rightarrow> nat \<Rightarrow> nat \<Rightarrow> 'a codec \<Rightarrow> 'b codec \<Rightarrow> ('a + 'b) codec" where
  "enum2 api i j c d =
     \<lparr>put = \<lambda>s. case s of Inl x \<Rightarrow> put (u8 api) i @ put c x | Inr y \<Rightarrow> put (u8 api) j @ put d y,
      get = \<lambda>bs. and_then (get (u8 api) bs) (\<lambda>(n, bs).
        if n = i then and_then (get c bs) (\<lambda>(x, bs). Ok (Inl x, bs))
        else if n = j then and_then (get d bs) (\<lambda>(y, bs). Ok (Inr y, bs)) else Err UnknownRequiredFeature)\<rparr>"

section \<open>Records of type, length and value\<close>

text \<open>
  \<open>FixedLengthReader\<close> gives the inner reader the next \<open>len\<close> bytes only (or fewer at the end of the
  stream, when a read fails); a body that leaves bytes over is refused.
\<close>

definition read_tlv_body :: "'a reader \<Rightarrow> nat \<Rightarrow> 'a reader" where
  "read_tlv_body r len bs =
     and_then (r (take len bs)) (\<lambda>(x, left).
       if left = [] \<and> len \<le> length bs then Ok (x, drop len bs) else Err InvalidValue)"

definition tlv :: "wire_api \<Rightarrow> nat \<Rightarrow> 'a codec \<Rightarrow> 'a codec" where
  "tlv api ty c =
     \<lparr>put = \<lambda>x. put (big_size api) ty @ put (big_size api) (length (put c x)) @ put c x,
      get = \<lambda>bs. and_then (get (big_size api) bs) (\<lambda>(i, bs).
        if i \<noteq> ty then Err InvalidValue
        else and_then (get (big_size api) bs) (\<lambda>(len, bs). read_tlv_body (get c) len bs))\<rparr>"

definition enum2_tlv :: "wire_api \<Rightarrow> nat \<Rightarrow> nat \<Rightarrow> 'a codec \<Rightarrow> 'b codec \<Rightarrow> ('a + 'b) codec" where
  "enum2_tlv api i j c d =
     \<lparr>put = \<lambda>s. case s of
         Inl x \<Rightarrow> put (big_size api) i @ put (big_size api) (length (put c x)) @ put c x
       | Inr y \<Rightarrow> put (big_size api) j @ put (big_size api) (length (put d y)) @ put d y,
      get = \<lambda>bs. and_then (get (big_size api) bs) (\<lambda>(n, bs).
        if n = i then and_then (get (big_size api) bs) (\<lambda>(len, bs).
          and_then (read_tlv_body (get c) len bs) (\<lambda>(x, bs). Ok (Inl x, bs)))
        else if n = j then and_then (get (big_size api) bs) (\<lambda>(len, bs).
          and_then (read_tlv_body (get d) len bs) (\<lambda>(y, bs). Ok (Inr y, bs)))
        else Err UnknownRequiredFeature)\<rparr>"

text \<open>The trait \<open>TlvRecord\<close>: a record on its own, which has to use up the bytes.\<close>

definition to_tlv_bytes :: "wire_api \<Rightarrow> nat \<Rightarrow> 'a codec \<Rightarrow> 'a \<Rightarrow> bytes" where
  "to_tlv_bytes api ty c x = put (tlv api ty c) x"

definition read_exactly :: "'a reader \<Rightarrow> bytes \<Rightarrow> ('a, decode_error) res" where
  "read_exactly r bs = and_then (r bs) (\<lambda>(x, left). if left \<noteq> [] then Err InvalidValue else Ok x)"

definition from_tlv_bytes :: "wire_api \<Rightarrow> nat \<Rightarrow> 'a codec \<Rightarrow> bytes \<Rightarrow> ('a, decode_error) res" where
  "from_tlv_bytes api ty c bs = read_exactly (get (tlv api ty c)) bs"

definition from_tlv_bytes_or_legacy :: "wire_api \<Rightarrow> nat \<Rightarrow> 'a codec \<Rightarrow> bytes \<Rightarrow> ('a, decode_error) res" where
  "from_tlv_bytes_or_legacy api ty c bs =
     (case from_tlv_bytes api ty c bs of
        Ok x \<Rightarrow> Ok x
      | Err _ \<Rightarrow> read_exactly (get c) bs
      | Panic \<Rightarrow> Panic)"

section \<open>The combinators keep the contract\<close>

lemma seqc_ok: "codec_ok c V \<Longrightarrow> codec_ok d W \<Longrightarrow> codec_ok (seqc c d) (\<lambda>(x, y). V x \<and> W y)"
  by (auto simp: codec_ok_def seqc_def)

lemma structc_ok: "codec_ok c V \<Longrightarrow> (\<And>y. f (g y) = y) \<Longrightarrow> codec_ok (structc f g c) (\<lambda>y. V (g y))"
  by (simp add: codec_ok_def structc_def)

lemma typed_ok: "wire_ok api \<Longrightarrow> ty < 2 ^ 16 \<Longrightarrow> codec_ok c V \<Longrightarrow> codec_ok (typed api ty c) V"
  using wire_okD(2) [of api] by (simp add: codec_ok_def typed_def)

lemma castc_ok: "codec_ok c (\<lambda>n. n < 2 ^ w) \<Longrightarrow> codec_ok (castc w c) (\<lambda>n. n < 2 ^ w)"
  by (simp add: codec_ok_def castc_def)

lemma big_size_ok: "wire_ok api \<Longrightarrow> codec_ok (big_size api) (\<lambda>n. n < 2 ^ 64)"
  using wire_okD(1-4) [of api] by (simp add: codec_ok_def big_size_def)

lemma read_n_ok:
  assumes "codec_ok c V" "\<forall>x\<in>set xs. V x"
  shows "read_n (get c) (length xs) (concat (map (put c) xs) @ rest) = Ok (xs, rest)"
  using assms(2) codec_okD [OF assms(1)] by (induction xs) simp_all

lemma vecc_ok:
  assumes "wire_ok api" "codec_ok c V"
  shows "codec_ok (vecc api c) (\<lambda>xs. length xs \<le> MAX_VEC_SIZE \<and> (\<forall>x\<in>set xs. V x))"
  using codec_okD [OF big_size_ok [OF assms(1)]] read_n_ok [OF assms(2)]
  by (auto simp: codec_ok_def vecc_def MAX_VEC_SIZE_def)

lemma vec_u16_ok:
  assumes "wire_ok api" "codec_ok c V"
  shows "codec_ok (vec_u16 api c) (\<lambda>xs. length xs < 2 ^ 16 \<and> (\<forall>x\<in>set xs. V x))"
  using codec_okD [OF wire_okD(2) [OF assms(1)]] read_n_ok [OF assms(2)]
  by (auto simp: codec_ok_def vec_u16_def)

text \<open>The strings of Rust: UTF-8, here of a length the reader accepts.\<close>

definition valid_string :: "wire_api \<Rightarrow> bytes \<Rightarrow> bool" where
  "valid_string api s \<longleftrightarrow> length s \<le> MAX_VEC_SIZE \<and> (\<forall>b\<in>set s. b < 256) \<and> utf8 api s"

lemma stringc_ok:
  assumes "wire_ok api"
  shows "codec_ok (stringc api) (valid_string api)"
  using codec_okD [OF big_size_ok [OF assms]] read_n_ok [OF wire_okD(1) [OF assms]]
  by (auto simp: codec_ok_def stringc_def valid_string_def MAX_VEC_SIZE_def)

lemma strings_u16_ok:
  "wire_ok api \<Longrightarrow> codec_ok (strings_u16 api) (\<lambda>xs. length xs < 2 ^ 16 \<and> (\<forall>s\<in>set xs. valid_string api s))"
  unfolding strings_u16_def by (intro vec_u16_ok stringc_ok)

lemma optionc_ok:
  assumes "wire_ok api" "codec_ok c V"
  shows "codec_ok (optionc api c) (\<lambda>m. \<forall>x\<in>set_option m. V x)"
  using wire_okD(1) [OF assms(1)] assms(2) by (auto simp: codec_ok_def optionc_def split: option.splits)

lemma enum2_ok:
  assumes "wire_ok api" "i < 2 ^ 8" "j < 2 ^ 8" "i \<noteq> j" "codec_ok c V" "codec_ok d W"
  shows "codec_ok (enum2 api i j c d) (\<lambda>s. case s of Inl x \<Rightarrow> V x | Inr y \<Rightarrow> W y)"
  using wire_okD(1) [OF assms(1)] assms(2-) by (auto simp: codec_ok_def enum2_def split: sum.splits)

lemma read_tlv_body_ok:
  assumes "codec_ok c V" "V x"
  shows "read_tlv_body (get c) (length (put c x)) (put c x @ rest) = Ok (x, rest)"
  using codec_okD [OF assms, of "[]"] by (simp add: read_tlv_body_def)

lemma tlv_ok:
  assumes "wire_ok api" "ty < 2 ^ 64" "codec_ok c V"
  shows "codec_ok (tlv api ty c) (\<lambda>x. V x \<and> length (put c x) < 2 ^ 64)"
  using codec_okD [OF big_size_ok [OF assms(1)]] read_tlv_body_ok [OF assms(3)] assms(2)
  by (auto simp: codec_ok_def tlv_def)

lemma enum2_tlv_ok:
  assumes "wire_ok api" "i < 2 ^ 64" "j < 2 ^ 64" "i \<noteq> j" "codec_ok c V" "codec_ok d W"
  shows "codec_ok (enum2_tlv api i j c d)
    (\<lambda>s. case s of Inl x \<Rightarrow> V x \<and> length (put c x) < 2 ^ 64 | Inr y \<Rightarrow> W y \<and> length (put d y) < 2 ^ 64)"
  using codec_okD [OF big_size_ok [OF assms(1)]] read_tlv_body_ok [OF assms(5)] read_tlv_body_ok [OF assms(6)] assms(2-4)
  by (auto simp: codec_ok_def enum2_tlv_def split: sum.splits)

definition fits_u64 :: "'a codec \<Rightarrow> 'a \<Rightarrow> bool" where
  "fits_u64 c x \<longleftrightarrow> length (put c x) < 2 ^ 64"

lemma from_to_tlv_bytes:
  assumes "wire_ok api" "ty < 2 ^ 64" "codec_ok c V" "V x" "fits_u64 c x"
  shows "from_tlv_bytes api ty c (to_tlv_bytes api ty c x) = Ok x"
    and "from_tlv_bytes_or_legacy api ty c (to_tlv_bytes api ty c x) = Ok x"
proof -
  show "from_tlv_bytes api ty c (to_tlv_bytes api ty c x) = Ok x"
    using codec_okD [OF tlv_ok [OF assms(1-3)], of x "[]"] assms(4,5)
    by (simp add: from_tlv_bytes_def to_tlv_bytes_def read_exactly_def fits_u64_def)
  then show "from_tlv_bytes_or_legacy api ty c (to_tlv_bytes api ty c x) = Ok x"
    by (simp add: from_tlv_bytes_or_legacy_def)
qed

section \<open>The contract of the messages\<close>

locale wire_laws =
  fixes api :: wire_api
  assumes wire_law: "wire_ok api"
begin

lemma tlv_roundtrip:
  assumes "codec_ok c V" "V x" "fits_u64 c x" "ty < 2 ^ 64"
  shows "from_tlv_bytes api ty c (to_tlv_bytes api ty c x) = Ok x"
    "from_tlv_bytes_or_legacy api ty c (to_tlv_bytes api ty c x) = Ok x"
  using from_to_tlv_bytes [OF wire_law assms(4,1,2,3)] by auto

lemma tlv_trailing:
  assumes "codec_ok c V" "V x" "fits_u64 c x" "ty < 2 ^ 64" "rest \<noteq> []"
  shows "from_tlv_bytes api ty c (to_tlv_bytes api ty c x @ rest) = Err InvalidValue"
  using codec_okD [OF tlv_ok [OF wire_law assms(4,1)], of x rest] assms(2,3,5)
  by (simp add: from_tlv_bytes_def to_tlv_bytes_def read_exactly_def fits_u64_def)

end

text \<open>The contract holds for the big-endian integers and the formats the crates document.\<close>

fun be_bytes :: "nat \<Rightarrow> nat \<Rightarrow> bytes" where
  "be_bytes 0 n = []"
| "be_bytes (Suc k) n = n div 256 ^ k mod 256 # be_bytes k n"

definition be_value :: "bytes \<Rightarrow> nat" where
  "be_value bs = foldl (\<lambda>a b. a * 256 + b) 0 bs"

lemma length_be_bytes [simp]: "length (be_bytes w n) = w"
  by (induction w) simp_all

lemma foldl_be_bytes: "foldl (\<lambda>a b. a * 256 + b) a (be_bytes w n) = a * 256 ^ w + n mod 256 ^ w"
proof (induction w arbitrary: a)
  case (Suc w)
  have "n mod 256 ^ Suc w = 256 ^ w * (n div 256 ^ w mod 256) + n mod 256 ^ w"
    using mod_mult2_eq [of n "256 ^ w" 256] by (simp add: mult.commute)
  then show ?case using Suc by (simp add: algebra_simps)
qed simp

lemma be_value_bytes: "n < 256 ^ w \<Longrightarrow> be_value (be_bytes w n) = n"
  by (simp add: be_value_def foldl_be_bytes)

definition fixed :: "nat \<Rightarrow> ('a \<Rightarrow> bytes) \<Rightarrow> (bytes \<Rightarrow> ('a, decode_error) res) \<Rightarrow> 'a codec" where
  "fixed w f g = \<lparr>put = f, get = \<lambda>bs. if length bs < w then Err ShortRead else and_then (g (take w bs)) (\<lambda>x. Ok (x, drop w bs))\<rparr>"

definition be :: "nat \<Rightarrow> nat codec" where
  "be w = fixed w (be_bytes w) (\<lambda>b. Ok (be_value b))"

definition be_signed :: "nat \<Rightarrow> int codec" where
  "be_signed w = fixed w (\<lambda>i. be_bytes w (nat (i mod 256 ^ w)))
     (\<lambda>b. let v = int (be_value b) in Ok (if 2 * v < 256 ^ w then v else v - 256 ^ w))"

definition raw :: "nat \<Rightarrow> bytes codec" where
  "raw w = fixed w (\<lambda>b. b) Ok"

definition lightning_bool :: "bool codec" where
  "lightning_bool = fixed 1 (\<lambda>b. [of_bool b]) (\<lambda>b. if hd b = 0 then Ok False else if hd b = 1 then Ok True else Err InvalidValue)"

definition lightning_script :: "script codec" where
  "lightning_script =
     \<lparr>put = \<lambda>s. be_bytes 2 (length s mod 2 ^ 16) @ s,
      get = \<lambda>bs. and_then (get (be 2) bs) (\<lambda>(n, bs). get (raw n) bs)\<rparr>"

text \<open>The bits of a float, and transactions and outpoints in the consensus encoding, are left out.\<close>

definition no_codec :: "'a codec" where
  "no_codec = \<lparr>put = \<lambda>_. [], get = \<lambda>_. Err OtherDecodeError\<rparr>"

definition lightning_wire :: wire_api where
  "lightning_wire = \<lparr>u8 = be 1, u16 = be 2, u32 = be 4, u64 = be 8, i32_be = be_signed 4, i64_be = be_signed 8,
     f64_be = no_codec, w_bool = lightning_bool, w_script = lightning_script, w_pubkey = raw 33, w_seckey = be 32, w_ecdsa = raw 64,
     w_adaptor = raw 162, w_schnorr = raw 64, w_xonly = raw 32, w_transaction = no_codec, w_out_point = no_codec,
     w_array32 = raw 32, w_bytes = lightning_script, utf8 = list_all (\<lambda>b. b < 128), max_buf_size = 65536\<rparr>"

lemma fixed_ok: "(\<And>x. V x \<Longrightarrow> length (f x) = w \<and> g (f x) = Ok x) \<Longrightarrow> codec_ok (fixed w f g) V"
  by (auto simp: codec_ok_def fixed_def)

lemma be_ok: "codec_ok (be w) (\<lambda>n. n < 256 ^ w)"
  unfolding be_def by (rule fixed_ok) (simp add: be_value_bytes)

lemma raw_ok: "codec_ok (raw w) (\<lambda>b. length b = w)"
  unfolding raw_def by (rule fixed_ok) simp

lemma be_signed_ok:
  assumes "0 < w"
  shows "codec_ok (be_signed w) (\<lambda>i. - (256 ^ w) \<le> 2 * i \<and> 2 * i < 256 ^ w)"
  unfolding be_signed_def
proof (rule fixed_ok)
  fix i :: int assume i: "- (256 ^ w) \<le> 2 * i \<and> 2 * i < 256 ^ w"
  have e: "even (256 ^ w :: int)" using assms by simp
  have n: "nat (i mod 256 ^ w) < 256 ^ w"
    using pos_mod_bound [of "256 ^ w" i] pos_mod_sign [of "256 ^ w" i] by (simp add: nat_less_iff)
  have v: "int (be_value (be_bytes w (nat (i mod 256 ^ w)))) = i mod 256 ^ w"
    using be_value_bytes [OF n] by simp
  have m: "i mod 256 ^ w = (if 0 \<le> i then i else i + 256 ^ w)"
  proof (cases "0 \<le> i")
    case False
    then have "(i + 256 ^ w) mod 256 ^ w = i + 256 ^ w" using i by (intro mod_pos_pos_trivial) auto
    then show ?thesis using False by simp
  qed (use i in \<open>simp add: mod_pos_pos_trivial\<close>)
  show "length (be_bytes w (nat (i mod 256 ^ w))) = w \<and>
    (let v = int (be_value (be_bytes w (nat (i mod 256 ^ w)))) in Ok (if 2 * v < 256 ^ w then v else v - 256 ^ w)) = Ok i"
  proof (cases "0 \<le> i")
    case True
    then show ?thesis using i v m by (simp add: Let_def)
  next
    case False
    then have "2 * (i + 256 ^ w) \<ge> 256 ^ w" using conjunct1 [OF i] by (simp add: distrib_left)
    then show ?thesis using False v m by (simp add: Let_def)
  qed
qed

lemma lightning_wire_ok: "wire_ok lightning_wire"
proof -
  have "codec_ok lightning_bool (\<lambda>_. True)"
    unfolding lightning_bool_def by (rule fixed_ok) auto
  then show ?thesis
    using be_ok [of 1] be_ok [of 2] be_ok [of 4] be_ok [of 8] be_signed_ok [of 4] be_signed_ok [of 8] raw_ok [of 32]
    by (auto simp: wire_ok_def lightning_wire_def elim!: codec_ok_mono)
qed

interpretation lightning: wire_laws lightning_wire
  by unfold_locales (rule lightning_wire_ok)

lemma raw_keeps: "length b = w \<Longrightarrow> keeps (raw w) b"
  using raw_ok [of w] by (simp add: codec_ok_def keeps_def)

end
