(* ===== verification/Oracle_Messages.thy ===== *)
theory Oracle_Messages
  imports Wire_Format
begin

text \<open>
  \<open>dlc-messages/src/oracle_msgs.rs\<close>: events, announcements and attestations of oracles, their
  validation and their serialization.  SHA-256 and the verification of Schnorr signatures are
  fields of \<open>oracle_api\<close>.
\<close>

record oracle_api = crypto_api +
  sha256 :: "bytes \<Rightarrow> bytes"
  schnorr_verify :: "schnorr_sig \<Rightarrow> message \<Rightarrow> xonly \<Rightarrow> bool"

section \<open>Messages\<close>

record digit_event =
  dd_base :: nat
  dd_is_signed :: bool
  dd_unit :: bytes
  dd_precision :: int
  dd_nb_digits :: nat

datatype event_descriptor = EnumEvent "bytes list" | DigitDecompositionEvent digit_event

record oracle_event =
  oracle_nonces :: "xonly list"
  event_maturity_epoch :: nat
  event_desc :: event_descriptor
  event_id :: bytes

record oracle_announcement =
  announcement_signature :: schnorr_sig
  oracle_public_key :: xonly
  announced_event :: oracle_event

record oracle_params =
  op_max_error_exp :: nat
  op_min_fail_exp :: nat
  op_maximize_coverage :: bool

record multi_oracle_info =
  mo_threshold :: nat
  mo_announcements :: "oracle_announcement list"
  mo_params :: "oracle_params option"

datatype ser_oracle_info = Single oracle_announcement | Multi multi_oracle_info

record oracle_attestation =
  att_event_id :: bytes
  att_public_key :: xonly
  att_signatures :: "schnorr_sig list"
  att_outcomes :: "bytes list"

definition get_first_event_descriptor :: "ser_oracle_info \<Rightarrow> (event_descriptor, 'e) res" where
  "get_first_event_descriptor i =
     (case i of
        Single a \<Rightarrow> Ok (event_desc (announced_event a))
      | Multi m \<Rightarrow> and_then (index (mo_announcements m) 0) (\<lambda>a. Ok (event_desc (announced_event a))))"

definition oracle_closest_maturity_date :: "ser_oracle_info \<Rightarrow> (nat, 'e) res" where
  "oracle_closest_maturity_date i =
     (case i of
        Single a \<Rightarrow> Ok (event_maturity_epoch (announced_event a))
      | Multi m \<Rightarrow>
          if mo_announcements m = [] then Panic
          else Ok (Min (set (map (\<lambda>a. event_maturity_epoch (announced_event a)) (mo_announcements m)))))"

section \<open>Serialization\<close>

definition ANNOUNCEMENT_TYPE :: nat where "ANNOUNCEMENT_TYPE = 55332"
definition ORACLE_EVENT_TYPE :: nat where "ORACLE_EVENT_TYPE = 55330"
definition ATTESTATION_TYPE :: nat where "ATTESTATION_TYPE = 55400"

definition digit_event_codec :: "wire_api \<Rightarrow> digit_event codec" where
  "digit_event_codec api =
     structc (\<lambda>(b, s, u, p, n). \<lparr>dd_base = b, dd_is_signed = s, dd_unit = u, dd_precision = p, dd_nb_digits = n\<rparr>)
       (\<lambda>d. (dd_base d, dd_is_signed d, dd_unit d, dd_precision d, dd_nb_digits d))
       (seqc (u16 api) (seqc (w_bool api) (seqc (stringc api) (seqc (i32_be api) (u16 api)))))"

definition event_descriptor_codec :: "wire_api \<Rightarrow> event_descriptor codec" where
  "event_descriptor_codec api =
     structc (\<lambda>s. case s of Inl x \<Rightarrow> EnumEvent x | Inr y \<Rightarrow> DigitDecompositionEvent y)
       (\<lambda>d. case d of EnumEvent x \<Rightarrow> Inl x | DigitDecompositionEvent y \<Rightarrow> Inr y)
       (enum2_tlv api 55302 55306 (strings_u16 api) (digit_event_codec api))"

definition oracle_event_codec :: "wire_api \<Rightarrow> oracle_event codec" where
  "oracle_event_codec api =
     structc (\<lambda>(n, m, d, i). \<lparr>oracle_nonces = n, event_maturity_epoch = m, event_desc = d, event_id = i\<rparr>)
       (\<lambda>e. (oracle_nonces e, event_maturity_epoch e, event_desc e, event_id e))
       (seqc (vec_u16 api (w_xonly api)) (seqc (u32 api) (seqc (event_descriptor_codec api) (stringc api))))"

definition announcement_codec :: "wire_api \<Rightarrow> oracle_announcement codec" where
  "announcement_codec api =
     structc (\<lambda>(s, k, e). \<lparr>announcement_signature = s, oracle_public_key = k, announced_event = e\<rparr>)
       (\<lambda>a. (announcement_signature a, oracle_public_key a, announced_event a))
       (seqc (w_schnorr api) (seqc (w_xonly api) (tlv api ORACLE_EVENT_TYPE (oracle_event_codec api))))"

definition oracle_params_codec :: "wire_api \<Rightarrow> oracle_params codec" where
  "oracle_params_codec api =
     structc (\<lambda>(a, b, c). \<lparr>op_max_error_exp = a, op_min_fail_exp = b, op_maximize_coverage = c\<rparr>)
       (\<lambda>p. (op_max_error_exp p, op_min_fail_exp p, op_maximize_coverage p))
       (seqc (u16 api) (seqc (u16 api) (w_bool api)))"

definition multi_oracle_info_codec :: "wire_api \<Rightarrow> multi_oracle_info codec" where
  "multi_oracle_info_codec api =
     structc (\<lambda>(t, a, p). \<lparr>mo_threshold = t, mo_announcements = a, mo_params = p\<rparr>)
       (\<lambda>m. (mo_threshold m, mo_announcements m, mo_params m))
       (seqc (u16 api) (seqc (vecc api (tlv api ANNOUNCEMENT_TYPE (announcement_codec api)))
         (optionc api (oracle_params_codec api))))"

definition oracle_info_codec :: "wire_api \<Rightarrow> ser_oracle_info codec" where
  "oracle_info_codec api =
     structc (\<lambda>s. case s of Inl x \<Rightarrow> Single x | Inr y \<Rightarrow> Multi y) (\<lambda>i. case i of Single x \<Rightarrow> Inl x | Multi y \<Rightarrow> Inr y)
       (enum2 api 0 1 (tlv api ANNOUNCEMENT_TYPE (announcement_codec api)) (multi_oracle_info_codec api))"

definition attestation_codec :: "wire_api \<Rightarrow> oracle_attestation codec" where
  "attestation_codec api =
     structc (\<lambda>(i, k, s, out). \<lparr>att_event_id = i, att_public_key = k, att_signatures = s, att_outcomes = out\<rparr>)
       (\<lambda>a. (att_event_id a, att_public_key a, att_signatures a, att_outcomes a))
       (seqc (stringc api) (seqc (w_xonly api) (seqc (vec_u16 api (w_schnorr api)) (strings_u16 api))))"

section \<open>Validation\<close>

definition ORACLE_ANNOUNCEMENT_TAG :: bytes where
  "ORACLE_ANNOUNCEMENT_TAG = map of_char ''DLC/oracle/announcement/v0''"

definition ORACLE_ATTESTATION_TAG :: bytes where
  "ORACLE_ATTESTATION_TAG = map of_char ''DLC/oracle/attestation/v0''"

definition tagged_announcement_msg :: "('m) oracle_api_scheme \<Rightarrow> wire_api \<Rightarrow> oracle_event \<Rightarrow> message" where
  "tagged_announcement_msg api wire event =
     (let tag_hash = sha256 api ORACLE_ANNOUNCEMENT_TAG;
          event_hex = to_tlv_bytes wire ORACLE_EVENT_TYPE (oracle_event_codec wire) event
      in sha256 api (tag_hash @ tag_hash @ event_hex))"

definition tagged_attestation_msg :: "('m) oracle_api_scheme \<Rightarrow> bytes \<Rightarrow> message" where
  "tagged_attestation_msg api outcome =
     (let tag_hash = sha256 api ORACLE_ATTESTATION_TAG in sha256 api (tag_hash @ tag_hash @ outcome))"

definition event_validate :: "oracle_event \<Rightarrow> (unit, dlc_error) res" where
  "event_validate e =
     (let expected_nb_nonces =
        (case event_desc e of
           EnumEvent _ \<Rightarrow> 1
         | DigitDecompositionEvent d \<Rightarrow> if dd_is_signed d then dd_nb_digits d + 1 else dd_nb_digits d)
      in if expected_nb_nonces = length (oracle_nonces e) then Ok () else Err InvalidArgument)"

definition announcement_validate :: "('m) oracle_api_scheme \<Rightarrow> wire_api \<Rightarrow> oracle_announcement \<Rightarrow> (unit, dlc_error) res" where
  "announcement_validate api wire a =
     (if \<not> schnorr_verify api (announcement_signature a) (tagged_announcement_msg api wire (announced_event a)) (oracle_public_key a)
      then Err Secp256k1 else event_validate (announced_event a))"

definition oracle_info_validate :: "('m) oracle_api_scheme \<Rightarrow> wire_api \<Rightarrow> ser_oracle_info \<Rightarrow> (unit, dlc_error) res" where
  "oracle_info_validate api wire i =
     (case i of
        Single a \<Rightarrow> announcement_validate api wire a
      | Multi m \<Rightarrow> fold_res (\<lambda>a _. announcement_validate api wire a) (mo_announcements m) ())"

definition attestation_validate ::
  "('m) oracle_api_scheme \<Rightarrow> oracle_attestation \<Rightarrow> oracle_announcement \<Rightarrow> (unit, dlc_error) res" where
  "attestation_validate api a announcement =
     (if length (att_outcomes a) \<noteq> length (att_signatures a) then Err InvalidArgument
      else if att_public_key a \<noteq> oracle_public_key announcement then Err InvalidArgument
      else if \<not> list_all (\<lambda>(sig, outcome). schnorr_verify api sig (tagged_attestation_msg api outcome) (att_public_key a))
                 (zip (att_signatures a) (att_outcomes a)) then Err InvalidArgument
      else if \<not> list_all (\<lambda>(sig, nonce). take 32 sig = nonce)
                 (zip (att_signatures a) (oracle_nonces (announced_event announcement))) then Err InvalidArgument
      else Ok ())"

definition attestation_nonces :: "('m) crypto_api_scheme \<Rightarrow> oracle_attestation \<Rightarrow> (xonly list, 'e) res" where
  "attestation_nonces api a = traverse (\<lambda>s. unwrap (xonly_from_slice api (take 32 s))) (att_signatures a)"

definition announcement_oracle_info :: "oracle_announcement \<Rightarrow> oracle_info" where
  "announcement_oracle_info a =
     \<lparr>oi_public_key = oracle_public_key a, oi_nonces = oracle_nonces (announced_event a)\<rparr>"

section \<open>Messages that survive serialization\<close>

definition valid_digit_event :: "wire_api \<Rightarrow> digit_event \<Rightarrow> bool" where
  "valid_digit_event api d \<longleftrightarrow> dd_base d < 2 ^ 16 \<and> valid_string api (dd_unit d) \<and>
     - (2 ^ 31) \<le> dd_precision d \<and> dd_precision d < 2 ^ 31 \<and> dd_nb_digits d < 2 ^ 16"

definition valid_descriptor :: "wire_api \<Rightarrow> event_descriptor \<Rightarrow> bool" where
  "valid_descriptor api d \<longleftrightarrow>
     (case d of
        EnumEvent xs \<Rightarrow> length xs < 2 ^ 16 \<and> (\<forall>s\<in>set xs. valid_string api s) \<and> fits_u64 (strings_u16 api) xs
      | DigitDecompositionEvent e \<Rightarrow> valid_digit_event api e \<and> fits_u64 (digit_event_codec api) e)"

definition valid_event :: "wire_api \<Rightarrow> oracle_event \<Rightarrow> bool" where
  "valid_event api e \<longleftrightarrow> length (oracle_nonces e) < 2 ^ 16 \<and> (\<forall>n\<in>set (oracle_nonces e). keeps (w_xonly api) n) \<and>
     event_maturity_epoch e < 2 ^ 32 \<and> valid_descriptor api (event_desc e) \<and> valid_string api (event_id e)"

definition valid_announcement :: "wire_api \<Rightarrow> oracle_announcement \<Rightarrow> bool" where
  "valid_announcement api a \<longleftrightarrow> keeps (w_schnorr api) (announcement_signature a) \<and> keeps (w_xonly api) (oracle_public_key a) \<and>
     valid_event api (announced_event a) \<and> fits_u64 (oracle_event_codec api) (announced_event a)"

definition valid_oracle_info :: "wire_api \<Rightarrow> ser_oracle_info \<Rightarrow> bool" where
  "valid_oracle_info api i \<longleftrightarrow>
     (case i of
        Single a \<Rightarrow> valid_announcement api a \<and> fits_u64 (announcement_codec api) a
      | Multi m \<Rightarrow> mo_threshold m < 2 ^ 16 \<and> length (mo_announcements m) \<le> MAX_VEC_SIZE \<and>
          (\<forall>a\<in>set (mo_announcements m). valid_announcement api a \<and> fits_u64 (announcement_codec api) a) \<and>
          (\<forall>p\<in>set_option (mo_params m). op_max_error_exp p < 2 ^ 16 \<and> op_min_fail_exp p < 2 ^ 16))"

definition valid_attestation :: "wire_api \<Rightarrow> oracle_attestation \<Rightarrow> bool" where
  "valid_attestation api a \<longleftrightarrow> valid_string api (att_event_id a) \<and> keeps (w_xonly api) (att_public_key a) \<and>
     length (att_signatures a) < 2 ^ 16 \<and> (\<forall>s\<in>set (att_signatures a). keeps (w_schnorr api) s) \<and>
     length (att_outcomes a) < 2 ^ 16 \<and> (\<forall>s\<in>set (att_outcomes a). valid_string api s)"

lemma digit_event_codec_ok: "wire_ok api \<Longrightarrow> codec_ok (digit_event_codec api) (valid_digit_event api)"
  unfolding digit_event_codec_def
  by (rule codec_ok_mono, rule structc_ok, (rule seqc_ok wire_okD stringc_ok | assumption)+)
    (auto simp: valid_digit_event_def)

lemma descriptor_codec_ok: "wire_ok api \<Longrightarrow> codec_ok (event_descriptor_codec api) (valid_descriptor api)"
  unfolding event_descriptor_codec_def
  by (rule codec_ok_mono, rule structc_ok, rule enum2_tlv_ok, assumption, simp, simp, simp, rule strings_u16_ok, assumption,
      rule digit_event_codec_ok, assumption)
    (auto simp: valid_descriptor_def fits_u64_def split: event_descriptor.splits)

lemma event_codec_ok: "wire_ok api \<Longrightarrow> codec_ok (oracle_event_codec api) (valid_event api)"
  unfolding oracle_event_codec_def
  by (rule codec_ok_mono, rule structc_ok,
      (rule seqc_ok wire_okD stringc_ok vec_u16_ok codec_ok_keeps descriptor_codec_ok | assumption)+)
    (auto simp: valid_event_def)

lemma announcement_codec_ok: "wire_ok api \<Longrightarrow> codec_ok (announcement_codec api) (valid_announcement api)"
  unfolding announcement_codec_def
  by (rule codec_ok_mono, rule structc_ok,
      (rule seqc_ok codec_ok_keeps tlv_ok event_codec_ok | assumption | simp add: ORACLE_EVENT_TYPE_def)+)
    (auto simp: valid_announcement_def fits_u64_def)

lemma oracle_params_codec_ok:
  "wire_ok api \<Longrightarrow> codec_ok (oracle_params_codec api) (\<lambda>p. op_max_error_exp p < 2 ^ 16 \<and> op_min_fail_exp p < 2 ^ 16)"
  unfolding oracle_params_codec_def
  by (rule codec_ok_mono, rule structc_ok, (rule seqc_ok wire_okD | assumption)+) auto

lemma multi_oracle_info_codec_ok:
  "wire_ok api \<Longrightarrow> codec_ok (multi_oracle_info_codec api) (\<lambda>m. valid_oracle_info api (Multi m))"
  unfolding multi_oracle_info_codec_def
  by (rule codec_ok_mono, rule structc_ok,
      (rule seqc_ok wire_okD vecc_ok tlv_ok announcement_codec_ok optionc_ok oracle_params_codec_ok | assumption
        | simp add: ANNOUNCEMENT_TYPE_def)+)
    (auto simp: valid_oracle_info_def fits_u64_def)

lemma oracle_info_codec_ok: "wire_ok api \<Longrightarrow> codec_ok (oracle_info_codec api) (valid_oracle_info api)"
  unfolding oracle_info_codec_def
  by (rule codec_ok_mono, rule structc_ok, rule enum2_ok, assumption, simp, simp, simp,
      rule tlv_ok, assumption, simp add: ANNOUNCEMENT_TYPE_def, rule announcement_codec_ok, assumption,
      rule multi_oracle_info_codec_ok, assumption)
    (auto simp: valid_oracle_info_def fits_u64_def split: ser_oracle_info.splits)

lemma attestation_codec_ok: "wire_ok api \<Longrightarrow> codec_ok (attestation_codec api) (valid_attestation api)"
  unfolding attestation_codec_def
  by (rule codec_ok_mono, rule structc_ok,
      (rule seqc_ok stringc_ok codec_ok_keeps vec_u16_ok strings_u16_ok | assumption)+)
    (auto simp: valid_attestation_def)


sublocale wire_laws \<subseteq> event: codec_law "put (oracle_event_codec api)" "get (oracle_event_codec api)" "valid_event api"
  by (rule codec_ok_law) (rule event_codec_ok [OF wire_law])

sublocale wire_laws \<subseteq> announcement: codec_law "put (announcement_codec api)" "get (announcement_codec api)" "valid_announcement api"
  by (rule codec_ok_law) (rule announcement_codec_ok [OF wire_law])

sublocale wire_laws \<subseteq> attestation: codec_law "put (attestation_codec api)" "get (attestation_codec api)" "valid_attestation api"
  by (rule codec_ok_law) (rule attestation_codec_ok [OF wire_law])

text \<open>
  C28. Announcements and attestations travel on their own as records of type, length and value: what
  was written is read back, by the strict reader and by the one that also takes records without a
  header, and bytes after the record are refused.
\<close>

theorem oracle_records_roundtrip:
  assumes "wire_ok api" "valid_announcement api a" "fits_u64 (announcement_codec api) a"
    and "valid_attestation api t" "fits_u64 (attestation_codec api) t"
  shows "from_tlv_bytes api ANNOUNCEMENT_TYPE (announcement_codec api) (to_tlv_bytes api ANNOUNCEMENT_TYPE (announcement_codec api) a) = Ok a \<and>
    from_tlv_bytes_or_legacy api ANNOUNCEMENT_TYPE (announcement_codec api) (to_tlv_bytes api ANNOUNCEMENT_TYPE (announcement_codec api) a) = Ok a \<and>
    from_tlv_bytes_or_legacy api ATTESTATION_TYPE (attestation_codec api) (to_tlv_bytes api ATTESTATION_TYPE (attestation_codec api) t) = Ok t \<and>
    (rest \<noteq> [] \<longrightarrow>
      from_tlv_bytes api ATTESTATION_TYPE (attestation_codec api)
        (to_tlv_bytes api ATTESTATION_TYPE (attestation_codec api) t @ rest) = Err InvalidValue)"
proof -
  have ty: "ANNOUNCEMENT_TYPE < 2 ^ 64" "ATTESTATION_TYPE < 2 ^ 64" by (simp_all add: ANNOUNCEMENT_TYPE_def ATTESTATION_TYPE_def)
  note w = wire_laws.tlv_roundtrip [OF wire_laws.intro [OF assms(1)]] wire_laws.tlv_trailing [OF wire_laws.intro [OF assms(1)]]
  note c = announcement_codec_ok [OF assms(1)] attestation_codec_ok [OF assms(1)]
  show ?thesis using w(1,2) [OF c(1) assms(2,3) ty(1)] w(2) [OF c(2) assms(4,5) ty(2)] w(3) [OF c(2) assms(4,5) ty(2)] by blast
qed

definition example_announcement :: oracle_announcement where
  "example_announcement = \<lparr>announcement_signature = replicate 64 1, oracle_public_key = replicate 32 2,
     announced_event = \<lparr>oracle_nonces = [replicate 32 3], event_maturity_epoch = 1700000000,
       event_desc = EnumEvent [[97], [98]], event_id = [101]\<rparr>\<rparr>"

definition example_attestation :: oracle_attestation where
  "example_attestation = \<lparr>att_event_id = [101], att_public_key = replicate 32 2, att_signatures = [replicate 64 7],
     att_outcomes = [[97]]\<rparr>"

lemmas codec_defs = seqc_def structc_def enum2_tlv_def tlv_def vec_u16_def strings_u16_def stringc_def big_size_def
  attestation_codec_def announcement_codec_def oracle_event_codec_def event_descriptor_codec_def

lemma valid_ascii: "x < 128 \<Longrightarrow> valid_string lightning_wire [x]"
  by (simp add: valid_string_def MAX_VEC_SIZE_def lightning_wire_def)

lemma example_oracle_messages_valid:
  "valid_announcement lightning_wire example_announcement" "fits_u64 (announcement_codec lightning_wire) example_announcement"
  "valid_attestation lightning_wire example_attestation" "fits_u64 (attestation_codec lightning_wire) example_attestation"
proof -
  have k: "w_xonly lightning_wire = raw 32" "w_schnorr lightning_wire = raw 64"
    by (simp_all add: lightning_wire_def)
  note sizes = fits_u64_def codec_defs lightning_wire_def be_def raw_def fixed_def
  have f: "fits_u64 (strings_u16 lightning_wire) [[97], [98]]" "fits_u64 (announcement_codec lightning_wire) example_announcement"
    "fits_u64 (oracle_event_codec lightning_wire) (announced_event example_announcement)"
    "fits_u64 (attestation_codec lightning_wire) example_attestation"
    by (simp_all add: sizes example_announcement_def example_attestation_def)
  then show "fits_u64 (announcement_codec lightning_wire) example_announcement"
    "fits_u64 (attestation_codec lightning_wire) example_attestation"
    by blast+
  show "valid_announcement lightning_wire example_announcement" "valid_attestation lightning_wire example_attestation"
    using f by (simp_all add: valid_announcement_def valid_event_def valid_descriptor_def valid_attestation_def
      example_announcement_def example_attestation_def k valid_ascii raw_keeps)
qed

lemma oracle_records_roundtrip_witness:
  "from_tlv_bytes lightning_wire ANNOUNCEMENT_TYPE (announcement_codec lightning_wire)
     (to_tlv_bytes lightning_wire ANNOUNCEMENT_TYPE (announcement_codec lightning_wire) example_announcement) = Ok example_announcement"
  using oracle_records_roundtrip [OF lightning_wire_ok example_oracle_messages_valid] by blast

end
