(* ===== verification/Contract_Messages.thy ===== *)
theory Contract_Messages
  imports Oracle_Messages
begin

text \<open>
  \<open>dlc-messages/src/contract_msgs.rs\<close>: the outcomes, payouts and oracles of a contract as they are
  sent, with their serialization.  Structs with one field are the type of that field.
\<close>

section \<open>Messages\<close>

record contract_outcome =
  co_outcome :: bytes
  co_offer_payout :: nat

record ser_payout_point =
  sp_event_outcome :: nat
  sp_outcome_payout :: nat
  sp_extra_precision :: nat

record ser_hyperbola_piece =
  sh_use_positive_piece :: bool
  sh_translate_outcome :: f64
  sh_translate_payout :: f64
  sh_a :: f64
  sh_b :: f64
  sh_c :: f64
  sh_d :: f64

datatype ser_curve_piece = SerPolynomial "ser_payout_point list" | SerHyperbola ser_hyperbola_piece

record ser_function_piece =
  sf_end_point :: ser_payout_point
  sf_payout_curve_piece :: ser_curve_piece

record ser_payout_function =
  sf_payout_function_pieces :: "ser_function_piece list"
  sf_last_endpoint :: ser_payout_point

record ser_rounding_interval =
  sr_begin_interval :: nat
  sr_rounding_mod :: nat

type_synonym ser_rounding_intervals = "ser_rounding_interval list"

record numeric_outcome_descriptor =
  no_num_digits :: nat
  no_payout_function :: ser_payout_function
  no_rounding_intervals :: ser_rounding_intervals

datatype ser_contract_descriptor =
    EnumeratedContractDescriptor "contract_outcome list"
  | NumericOutcomeContractDescriptor numeric_outcome_descriptor

record contract_info_inner =
  in_contract_descriptor :: ser_contract_descriptor
  in_oracle_info :: ser_oracle_info

record single_contract_info =
  si_total_collateral :: nat
  si_contract_info :: contract_info_inner

record disjoint_contract_info =
  dj_total_collateral :: nat
  dj_contract_infos :: "contract_info_inner list"

datatype ser_contract_info = SingleContractInfo single_contract_info | DisjointContractInfo disjoint_contract_info

definition ser_total_collateral :: "ser_contract_info \<Rightarrow> nat" where
  "ser_total_collateral i =
     (case i of SingleContractInfo s \<Rightarrow> si_total_collateral s | DisjointContractInfo d \<Rightarrow> dj_total_collateral d)"

definition info_closest_maturity_date :: "ser_contract_info \<Rightarrow> (nat, 'e) res" where
  "info_closest_maturity_date i =
     (case i of
        SingleContractInfo s \<Rightarrow> oracle_closest_maturity_date (in_oracle_info (si_contract_info s))
      | DisjointContractInfo d \<Rightarrow>
          and_then (traverse (\<lambda>x. oracle_closest_maturity_date (in_oracle_info x)) (dj_contract_infos d)) (\<lambda>dates.
            if dates = [] then Panic else Ok (Min (set dates))))"

section \<open>Serialization\<close>

definition contract_outcome_codec :: "wire_api \<Rightarrow> contract_outcome codec" where
  "contract_outcome_codec api =
     structc (\<lambda>(a, b). \<lparr>co_outcome = a, co_offer_payout = b\<rparr>) (\<lambda>x. (co_outcome x, co_offer_payout x))
       (seqc (stringc api) (u64 api))"

definition payout_point_codec :: "wire_api \<Rightarrow> ser_payout_point codec" where
  "payout_point_codec api =
     structc (\<lambda>(a, b, c). \<lparr>sp_event_outcome = a, sp_outcome_payout = b, sp_extra_precision = c\<rparr>)
       (\<lambda>x. (sp_event_outcome x, sp_outcome_payout x, sp_extra_precision x))
       (seqc (u64 api) (seqc (u64 api) (u16 api)))"

definition hyperbola_codec :: "wire_api \<Rightarrow> ser_hyperbola_piece codec" where
  "hyperbola_codec api =
     structc (\<lambda>(p, o', q, a, b, c, d). \<lparr>sh_use_positive_piece = p, sh_translate_outcome = o', sh_translate_payout = q,
                sh_a = a, sh_b = b, sh_c = c, sh_d = d\<rparr>)
       (\<lambda>x. (sh_use_positive_piece x, sh_translate_outcome x, sh_translate_payout x, sh_a x, sh_b x, sh_c x, sh_d x))
       (seqc (w_bool api) (seqc (f64_be api) (seqc (f64_be api)
         (seqc (f64_be api) (seqc (f64_be api) (seqc (f64_be api) (f64_be api)))))))"

definition curve_piece_codec :: "wire_api \<Rightarrow> ser_curve_piece codec" where
  "curve_piece_codec api =
     structc (case_sum SerPolynomial SerHyperbola) (\<lambda>x. case x of SerPolynomial p \<Rightarrow> Inl p | SerHyperbola h \<Rightarrow> Inr h)
       (enum2 api 0 1 (vecc api (payout_point_codec api)) (hyperbola_codec api))"

definition function_piece_codec :: "wire_api \<Rightarrow> ser_function_piece codec" where
  "function_piece_codec api =
     structc (\<lambda>(a, b). \<lparr>sf_end_point = a, sf_payout_curve_piece = b\<rparr>) (\<lambda>x. (sf_end_point x, sf_payout_curve_piece x))
       (seqc (payout_point_codec api) (curve_piece_codec api))"

definition payout_function_codec :: "wire_api \<Rightarrow> ser_payout_function codec" where
  "payout_function_codec api =
     structc (\<lambda>(a, b). \<lparr>sf_payout_function_pieces = a, sf_last_endpoint = b\<rparr>)
       (\<lambda>x. (sf_payout_function_pieces x, sf_last_endpoint x))
       (seqc (vecc api (function_piece_codec api)) (payout_point_codec api))"

definition rounding_interval_codec :: "wire_api \<Rightarrow> ser_rounding_interval codec" where
  "rounding_interval_codec api =
     structc (\<lambda>(a, b). \<lparr>sr_begin_interval = a, sr_rounding_mod = b\<rparr>) (\<lambda>x. (sr_begin_interval x, sr_rounding_mod x))
       (seqc (u64 api) (u64 api))"

definition numeric_descriptor_codec :: "wire_api \<Rightarrow> numeric_outcome_descriptor codec" where
  "numeric_descriptor_codec api =
     structc (\<lambda>(a, b, c). \<lparr>no_num_digits = a, no_payout_function = b, no_rounding_intervals = c\<rparr>)
       (\<lambda>x. (no_num_digits x, no_payout_function x, no_rounding_intervals x))
       (seqc (u16 api) (seqc (payout_function_codec api) (vecc api (rounding_interval_codec api))))"

definition contract_descriptor_codec :: "wire_api \<Rightarrow> ser_contract_descriptor codec" where
  "contract_descriptor_codec api =
     structc (case_sum EnumeratedContractDescriptor NumericOutcomeContractDescriptor)
       (\<lambda>x. case x of EnumeratedContractDescriptor e \<Rightarrow> Inl e | NumericOutcomeContractDescriptor n \<Rightarrow> Inr n)
       (enum2 api 0 1 (vecc api (contract_outcome_codec api)) (numeric_descriptor_codec api))"

definition info_inner_codec :: "wire_api \<Rightarrow> contract_info_inner codec" where
  "info_inner_codec api =
     structc (\<lambda>(a, b). \<lparr>in_contract_descriptor = a, in_oracle_info = b\<rparr>) (\<lambda>x. (in_contract_descriptor x, in_oracle_info x))
       (seqc (contract_descriptor_codec api) (oracle_info_codec api))"

definition single_info_codec :: "wire_api \<Rightarrow> single_contract_info codec" where
  "single_info_codec api =
     structc (\<lambda>(a, b). \<lparr>si_total_collateral = a, si_contract_info = b\<rparr>) (\<lambda>x. (si_total_collateral x, si_contract_info x))
       (seqc (u64 api) (info_inner_codec api))"

definition disjoint_info_codec :: "wire_api \<Rightarrow> disjoint_contract_info codec" where
  "disjoint_info_codec api =
     structc (\<lambda>(a, b). \<lparr>dj_total_collateral = a, dj_contract_infos = b\<rparr>) (\<lambda>x. (dj_total_collateral x, dj_contract_infos x))
       (seqc (u64 api) (vecc api (info_inner_codec api)))"

definition contract_info_codec :: "wire_api \<Rightarrow> ser_contract_info codec" where
  "contract_info_codec api =
     structc (case_sum SingleContractInfo DisjointContractInfo)
       (\<lambda>x. case x of SingleContractInfo s \<Rightarrow> Inl s | DisjointContractInfo d \<Rightarrow> Inr d)
       (enum2 api 0 1 (single_info_codec api) (disjoint_info_codec api))"

section \<open>Messages that survive serialization\<close>

definition valid_list :: "('a \<Rightarrow> bool) \<Rightarrow> 'a list \<Rightarrow> bool" where
  "valid_list V xs \<longleftrightarrow> length xs \<le> MAX_VEC_SIZE \<and> (\<forall>x\<in>set xs. V x)"

lemma vecc_valid: "wire_ok api \<Longrightarrow> codec_ok c V \<Longrightarrow> codec_ok (vecc api c) (valid_list V)"
  by (rule codec_ok_mono [OF vecc_ok [where V = V]]) (simp_all add: valid_list_def)

definition valid_point :: "ser_payout_point \<Rightarrow> bool" where
  "valid_point p \<longleftrightarrow> sp_event_outcome p < 2 ^ 64 \<and> sp_outcome_payout p < 2 ^ 64 \<and> sp_extra_precision p < 2 ^ 16"

definition valid_hyperbola :: "wire_api \<Rightarrow> ser_hyperbola_piece \<Rightarrow> bool" where
  "valid_hyperbola api h \<longleftrightarrow>
     (\<forall>x\<in>{sh_translate_outcome h, sh_translate_payout h, sh_a h, sh_b h, sh_c h, sh_d h}. keeps (f64_be api) x)"

definition valid_piece :: "wire_api \<Rightarrow> ser_function_piece \<Rightarrow> bool" where
  "valid_piece api p \<longleftrightarrow> valid_point (sf_end_point p) \<and>
     (case sf_payout_curve_piece p of SerPolynomial ps \<Rightarrow> valid_list valid_point ps | SerHyperbola h \<Rightarrow> valid_hyperbola api h)"

definition valid_function :: "wire_api \<Rightarrow> ser_payout_function \<Rightarrow> bool" where
  "valid_function api f \<longleftrightarrow> valid_list (valid_piece api) (sf_payout_function_pieces f) \<and> valid_point (sf_last_endpoint f)"

definition valid_rounding :: "ser_rounding_intervals \<Rightarrow> bool" where
  "valid_rounding = valid_list (\<lambda>r. sr_begin_interval r < 2 ^ 64 \<and> sr_rounding_mod r < 2 ^ 64)"

definition valid_inner :: "wire_api \<Rightarrow> contract_info_inner \<Rightarrow> bool" where
  "valid_inner api i \<longleftrightarrow> valid_oracle_info api (in_oracle_info i) \<and>
     (case in_contract_descriptor i of
        EnumeratedContractDescriptor e \<Rightarrow> valid_list (\<lambda>c. valid_string api (co_outcome c) \<and> co_offer_payout c < 2 ^ 64) e
      | NumericOutcomeContractDescriptor n \<Rightarrow>
          no_num_digits n < 2 ^ 16 \<and> valid_function api (no_payout_function n) \<and> valid_rounding (no_rounding_intervals n))"

definition valid_contract_info :: "wire_api \<Rightarrow> ser_contract_info \<Rightarrow> bool" where
  "valid_contract_info api i \<longleftrightarrow> ser_total_collateral i < 2 ^ 64 \<and>
     (case i of
        SingleContractInfo s \<Rightarrow> valid_inner api (si_contract_info s)
      | DisjointContractInfo d \<Rightarrow> valid_list (valid_inner api) (dj_contract_infos d))"

lemma contract_outcome_codec_ok:
  "wire_ok api \<Longrightarrow> codec_ok (contract_outcome_codec api) (\<lambda>c. valid_string api (co_outcome c) \<and> co_offer_payout c < 2 ^ 64)"
  unfolding contract_outcome_codec_def
  by (rule codec_ok_mono, rule structc_ok, (rule seqc_ok wire_okD stringc_ok | assumption)+) auto

lemma payout_point_codec_ok: "wire_ok api \<Longrightarrow> codec_ok (payout_point_codec api) valid_point"
  unfolding payout_point_codec_def
  by (rule codec_ok_mono, rule structc_ok, (rule seqc_ok wire_okD | assumption)+) (auto simp: valid_point_def)

lemma hyperbola_codec_ok: "wire_ok api \<Longrightarrow> codec_ok (hyperbola_codec api) (valid_hyperbola api)"
  unfolding hyperbola_codec_def
  by (rule codec_ok_mono, rule structc_ok, (rule seqc_ok wire_okD(7) codec_ok_keeps | assumption)+)
    (auto simp: valid_hyperbola_def)

lemma function_piece_codec_ok: "wire_ok api \<Longrightarrow> codec_ok (function_piece_codec api) (valid_piece api)"
  unfolding function_piece_codec_def curve_piece_codec_def
  by (rule codec_ok_mono, rule structc_ok,
      (rule seqc_ok structc_ok enum2_ok payout_point_codec_ok vecc_valid hyperbola_codec_ok | assumption
        | simp split: ser_curve_piece.splits)+)
    (auto simp: valid_piece_def split: ser_curve_piece.splits)

lemma payout_function_codec_ok: "wire_ok api \<Longrightarrow> codec_ok (payout_function_codec api) (valid_function api)"
  unfolding payout_function_codec_def
  by (rule codec_ok_mono, rule structc_ok,
      (rule seqc_ok payout_point_codec_ok vecc_valid function_piece_codec_ok | assumption)+)
    (auto simp: valid_function_def)

lemma rounding_codec_ok: "wire_ok api \<Longrightarrow> codec_ok (vecc api (rounding_interval_codec api)) valid_rounding"
  unfolding valid_rounding_def rounding_interval_codec_def
  by (rule vecc_valid, assumption, rule codec_ok_mono, rule structc_ok, (rule seqc_ok wire_okD | assumption)+) auto

lemma numeric_descriptor_codec_ok:
  "wire_ok api \<Longrightarrow> codec_ok (numeric_descriptor_codec api)
    (\<lambda>n. no_num_digits n < 2 ^ 16 \<and> valid_function api (no_payout_function n) \<and> valid_rounding (no_rounding_intervals n))"
  unfolding numeric_descriptor_codec_def
  by (rule codec_ok_mono, rule structc_ok,
      (rule seqc_ok wire_okD payout_function_codec_ok rounding_codec_ok | assumption)+) auto

lemma info_inner_codec_ok: "wire_ok api \<Longrightarrow> codec_ok (info_inner_codec api) (valid_inner api)"
  unfolding info_inner_codec_def contract_descriptor_codec_def
  by (rule codec_ok_mono, rule structc_ok,
      (rule seqc_ok structc_ok enum2_ok contract_outcome_codec_ok vecc_valid numeric_descriptor_codec_ok oracle_info_codec_ok
        | assumption | simp split: ser_contract_descriptor.splits)+)
    (auto simp: valid_inner_def split: ser_contract_descriptor.splits)

lemma contract_info_codec_ok: "wire_ok api \<Longrightarrow> codec_ok (contract_info_codec api) (valid_contract_info api)"
  unfolding contract_info_codec_def single_info_codec_def disjoint_info_codec_def
  by (rule codec_ok_mono, rule structc_ok,
      (rule seqc_ok structc_ok enum2_ok info_inner_codec_ok vecc_valid wire_okD(4)
        | assumption | simp split: ser_contract_info.splits)+)
    (auto simp: valid_contract_info_def ser_total_collateral_def split: ser_contract_info.splits)

sublocale wire_laws \<subseteq> contract_info: codec_law "put (contract_info_codec api)" "get (contract_info_codec api)" "valid_contract_info api"
  by (rule codec_ok_law) (rule contract_info_codec_ok [OF wire_law])

end
