(* ===== verification/Dlc_Messages.thy ===== *)
theory Dlc_Messages
  imports Contract_Messages Dlc_Transactions
begin

text \<open>
  \<open>dlc-messages/src/lib.rs\<close>: the messages that set up and close a contract, their serialization and
  the validation of an offer.  The reader of an offer also takes the old format without a protocol
  version; it looks at the bytes themselves, so its round trip is proved for big-endian integers
  (\<open>big_endian\<close>).  The consensus encoding of transactions is the field \<open>consensus_decode\<close>.  Lists of
  signatures and witness elements, which the code wraps in structs of one field, are lists.
\<close>

section \<open>Inputs\<close>

record message_api = oracle_api +
  consensus_decode :: "bytes \<Rightarrow> transaction option"

record dlc_input =
  dlc_local_fund_pubkey :: pubkey
  dlc_remote_fund_pubkey :: pubkey
  dlc_contract_id :: bytes

record funding_input =
  fi_input_serial_id :: nat
  fi_prev_tx :: bytes
  fi_prev_tx_vout :: nat
  fi_sequence :: nat
  fi_max_witness_len :: nat
  fi_redeem_script :: script
  fi_dlc_input :: "dlc_input option"

definition funding_tx_input_info :: "('m) message_api_scheme \<Rightarrow> funding_input \<Rightarrow> (tx_input_info, 'e) res" where
  "funding_tx_input_info api x =
     and_then (unwrap (consensus_decode api (fi_prev_tx x))) (\<lambda>tx.
       Ok \<lparr>ti_outpoint = \<lparr>op_txid = compute_txid (bitcoin_api.truncate api) tx, op_vout = fi_prev_tx_vout x\<rparr>,
         ti_max_witness_len = fi_max_witness_len x, ti_redeem_script = fi_redeem_script x,
         ti_serial_id = fi_input_serial_id x\<rparr>)"

definition funding_dlc_input_info :: "('m) message_api_scheme \<Rightarrow> funding_input \<Rightarrow> (dlc_input_info, 'e) res" where
  "funding_dlc_input_info api x =
     and_then (unwrap (consensus_decode api (fi_prev_tx x))) (\<lambda>fund_tx.
     and_then (unwrap (fi_dlc_input x)) (\<lambda>d.
     and_then (index (tx_output fund_tx) (fi_prev_tx_vout x)) (\<lambda>out.
       Ok \<lparr>di_fund_tx = fund_tx, di_fund_vout = fi_prev_tx_vout x,
         di_local_fund_pubkey = dlc_local_fund_pubkey d, di_remote_fund_pubkey = dlc_remote_fund_pubkey d,
         di_fund_amount = out_value out, di_max_witness_len = fi_max_witness_len x,
         di_input_serial_id = fi_input_serial_id x, di_contract_id = dlc_contract_id d\<rparr>)))"

definition dlc_input_codec :: "wire_api \<Rightarrow> dlc_input codec" where
  "dlc_input_codec api =
     structc (\<lambda>(a, b, c). \<lparr>dlc_local_fund_pubkey = a, dlc_remote_fund_pubkey = b, dlc_contract_id = c\<rparr>)
       (\<lambda>x. (dlc_local_fund_pubkey x, dlc_remote_fund_pubkey x, dlc_contract_id x))
       (seqc (w_pubkey api) (seqc (w_pubkey api) (w_array32 api)))"

definition funding_input_codec :: "wire_api \<Rightarrow> funding_input codec" where
  "funding_input_codec api =
     structc (\<lambda>(a, b, c, d, e, f, g). \<lparr>fi_input_serial_id = a, fi_prev_tx = b, fi_prev_tx_vout = c, fi_sequence = d,
                fi_max_witness_len = e, fi_redeem_script = f, fi_dlc_input = g\<rparr>)
       (\<lambda>x. (fi_input_serial_id x, fi_prev_tx x, fi_prev_tx_vout x, fi_sequence x, fi_max_witness_len x,
             fi_redeem_script x, fi_dlc_input x))
       (seqc (u64 api) (seqc (vecc api (u8 api)) (seqc (u32 api) (seqc (u32 api) (seqc (u16 api)
         (seqc (w_script api) (optionc api (dlc_input_codec api))))))))"

section \<open>Signatures and negotiation\<close>

definition cet_adaptor_signatures_codec :: "wire_api \<Rightarrow> adaptor_sig list codec" where
  "cet_adaptor_signatures_codec api = vecc api (w_adaptor api)"

definition funding_signatures_codec :: "wire_api \<Rightarrow> bytes list list codec" where
  "funding_signatures_codec api = vecc api (vecc api (vecc api (u8 api)))"

datatype negotiation_fields = NegotiateSingle ser_rounding_intervals | NegotiateDisjoint "negotiation_fields list"

fun put_negotiation :: "wire_api \<Rightarrow> negotiation_fields \<Rightarrow> bytes" where
  "put_negotiation api (NegotiateSingle r) = put (u8 api) 0 @ put (vecc api (rounding_interval_codec api)) r"
| "put_negotiation api (NegotiateDisjoint ns) =
     put (u8 api) 1 @ put (big_size api) (length ns) @ concat (map (put_negotiation api) ns)"

text \<open>Every level of the reader takes a byte, so the number of bytes bounds the depth.\<close>

fun get_negotiation :: "wire_api \<Rightarrow> nat \<Rightarrow> negotiation_fields reader" where
  "get_negotiation api 0 bs = Err ShortRead"
| "get_negotiation api (Suc fuel) bs =
     and_then (get (u8 api) bs) (\<lambda>(i, bs).
       if i = 0 then and_then (get (vecc api (rounding_interval_codec api)) bs) (\<lambda>(r, bs). Ok (NegotiateSingle r, bs))
       else if i = 1 then
         and_then (get (big_size api) bs) (\<lambda>(n, bs).
           if MAX_VEC_SIZE < n then Err InvalidValue
           else and_then (read_n (get_negotiation api fuel) n bs) (\<lambda>(ns, bs). Ok (NegotiateDisjoint ns, bs)))
       else Err UnknownRequiredFeature)"

definition negotiation_codec :: "wire_api \<Rightarrow> negotiation_fields codec" where
  "negotiation_codec api = \<lparr>put = put_negotiation api, get = \<lambda>bs. get_negotiation api (Suc (length bs)) bs\<rparr>"

section \<open>Messages\<close>

definition OFFER_TYPE :: nat where "OFFER_TYPE = 42778"
definition ACCEPT_TYPE :: nat where "ACCEPT_TYPE = 42780"
definition SIGN_TYPE :: nat where "SIGN_TYPE = 42782"
definition CLOSE_TYPE :: nat where "CLOSE_TYPE = 42784"

record offer_dlc =
  om_protocol_version :: nat
  om_contract_flags :: nat
  om_chain_hash :: bytes
  om_temporary_contract_id :: bytes
  om_contract_info :: ser_contract_info
  om_funding_pubkey :: pubkey
  om_payout_spk :: script
  om_payout_serial_id :: nat
  om_offer_collateral :: nat
  om_funding_inputs :: "funding_input list"
  om_change_spk :: script
  om_change_serial_id :: nat
  om_fund_output_serial_id :: nat
  om_fee_rate_per_vb :: nat
  om_cet_locktime :: nat
  om_refund_locktime :: nat

record accept_dlc =
  am_protocol_version :: nat
  am_temporary_contract_id :: bytes
  am_accept_collateral :: nat
  am_funding_pubkey :: pubkey
  am_payout_spk :: script
  am_payout_serial_id :: nat
  am_funding_inputs :: "funding_input list"
  am_change_spk :: script
  am_change_serial_id :: nat
  am_cet_adaptor_signatures :: "adaptor_sig list"
  am_refund_signature :: ecdsa_sig
  am_negotiation_fields :: "negotiation_fields option"

record sign_dlc =
  sm_protocol_version :: nat
  sm_contract_id :: bytes
  sm_cet_adaptor_signatures :: "adaptor_sig list"
  sm_refund_signature :: ecdsa_sig
  sm_funding_signatures :: "bytes list list"

record close_dlc =
  cm_protocol_version :: nat
  cm_contract_id :: bytes
  cm_close_signature :: ecdsa_sig
  cm_accept_payout :: nat
  cm_fee_rate_per_vb :: nat
  cm_fund_input_serial_id :: nat
  cm_funding_inputs :: "funding_input list"
  cm_funding_signatures :: "bytes list list"

text \<open>Sums of a \<open>u32\<close>.\<close>

definition add_u32 :: "nat \<Rightarrow> nat \<Rightarrow> (nat, 'e) res" where
  "add_u32 a b = (if a + b < 2 ^ 32 then Ok (a + b) else Panic)"

text \<open>The checks of the dates are joined by \<open>&&\<close>: a later one is only made when the earlier ones hold.\<close>

definition valid_dates :: "nat \<Rightarrow> nat \<Rightarrow> nat \<Rightarrow> nat \<Rightarrow> nat \<Rightarrow> (bool, 'e) res" where
  "valid_dates cet_locktime refund_locktime closest min_timeout max_timeout =
     (if \<not> cet_locktime \<le> closest then Ok False
      else and_then (add_u32 closest min_timeout) (\<lambda>lo.
        if \<not> lo \<le> refund_locktime then Ok False
        else and_then (add_u32 closest max_timeout) (\<lambda>hi. Ok (refund_locktime \<le> hi))))"

definition offer_validate ::
  "('m) oracle_api_scheme \<Rightarrow> wire_api \<Rightarrow> offer_dlc \<Rightarrow> nat \<Rightarrow> nat \<Rightarrow> (unit, dlc_error) res" where
  "offer_validate api wire m min_timeout max_timeout =
     and_then
       (case om_contract_info m of
          SingleContractInfo s \<Rightarrow> oracle_info_validate api wire (in_oracle_info (si_contract_info s))
        | DisjointContractInfo d \<Rightarrow>
            if length (dj_contract_infos d) < 2 then Err InvalidArgument
            else fold_res (\<lambda>c _. oracle_info_validate api wire (in_oracle_info c)) (dj_contract_infos d) ()) (\<lambda>_.
     and_then (info_closest_maturity_date (om_contract_info m)) (\<lambda>closest.
     and_then (valid_dates (om_cet_locktime m) (om_refund_locktime m) closest min_timeout max_timeout) (\<lambda>valid.
       if valid then Ok () else Err InvalidArgument)))"

section \<open>Serialization\<close>

text \<open>The fields of an offer behind the chain hash.\<close>

type_synonym offer_tail = "bytes \<times> ser_contract_info \<times> pubkey \<times> script \<times> nat \<times> nat \<times> funding_input list \<times> script
  \<times> nat \<times> nat \<times> nat \<times> nat \<times> nat"

definition offer_of :: "nat \<Rightarrow> nat \<Rightarrow> bytes \<Rightarrow> offer_tail \<Rightarrow> offer_dlc" where
  "offer_of v f h = (\<lambda>(a, b, c, d, e, g, i, j, k, l, m, n, p).
     \<lparr>om_protocol_version = v, om_contract_flags = f, om_chain_hash = h, om_temporary_contract_id = a, om_contract_info = b,
      om_funding_pubkey = c, om_payout_spk = d, om_payout_serial_id = e, om_offer_collateral = g, om_funding_inputs = i,
      om_change_spk = j, om_change_serial_id = k, om_fund_output_serial_id = l, om_fee_rate_per_vb = m,
      om_cet_locktime = n, om_refund_locktime = p\<rparr>)"

definition offer_tail_of :: "offer_dlc \<Rightarrow> offer_tail" where
  "offer_tail_of m =
     (om_temporary_contract_id m, om_contract_info m, om_funding_pubkey m, om_payout_spk m, om_payout_serial_id m,
      om_offer_collateral m, om_funding_inputs m, om_change_spk m, om_change_serial_id m, om_fund_output_serial_id m,
      om_fee_rate_per_vb m, om_cet_locktime m, om_refund_locktime m)"

definition offer_tail_codec :: "wire_api \<Rightarrow> offer_tail codec" where
  "offer_tail_codec api =
     seqc (w_array32 api) (seqc (contract_info_codec api) (seqc (w_pubkey api) (seqc (w_script api) (seqc (u64 api)
       (seqc (u64 api) (seqc (vecc api (funding_input_codec api)) (seqc (w_script api) (seqc (u64 api) (seqc (u64 api)
       (seqc (u64 api) (seqc (u32 api) (u32 api))))))))))))"

definition put_offer :: "wire_api \<Rightarrow> offer_dlc \<Rightarrow> bytes" where
  "put_offer api m =
     put (u16 api) OFFER_TYPE @ put (u32 api) (om_protocol_version m) @ put (u8 api) (om_contract_flags m) @
     put (w_array32 api) (om_chain_hash m) @ put (offer_tail_codec api) (offer_tail_of m)"

definition read_raw :: "nat \<Rightarrow> bytes reader" where
  "read_raw n bs = (if length bs < n then Err ShortRead else Ok (take n bs, drop n bs))"

definition get_offer :: "wire_api \<Rightarrow> offer_dlc reader" where
  "get_offer api bs =
     and_then (get (u16 api) bs) (\<lambda>(type_id, bs).
     if type_id \<noteq> OFFER_TYPE then Err UnknownRequiredFeature
     else
       and_then (read_raw 5 bs) (\<lambda>(peek, bs).
       let possible_pv = be_value (take 4 peek) in
       and_then
         (if 1 \<le> possible_pv \<and> possible_pv \<le> 10
          then and_then (get (w_array32 api) bs) (\<lambda>(chain_hash, bs). Ok (possible_pv, peek ! 4, chain_hash, bs))
          else and_then (read_raw 28 bs) (\<lambda>(remaining, bs). Ok (1, peek ! 0, drop 1 peek @ remaining, bs)))
         (\<lambda>(version, flags, chain_hash, bs).
       and_then (get (offer_tail_codec api) bs) (\<lambda>(t, bs). Ok (offer_of version flags chain_hash t, bs)))))"

definition offer_codec :: "wire_api \<Rightarrow> offer_dlc codec" where
  "offer_codec api = \<lparr>put = put_offer api, get = get_offer api\<rparr>"

definition accept_codec :: "wire_api \<Rightarrow> accept_dlc codec" where
  "accept_codec api =
     structc (\<lambda>(a, b, c, d, e, f, g, h, i, j, k, l).
         \<lparr>am_protocol_version = a, am_temporary_contract_id = b, am_accept_collateral = c, am_funding_pubkey = d,
          am_payout_spk = e, am_payout_serial_id = f, am_funding_inputs = g, am_change_spk = h, am_change_serial_id = i,
          am_cet_adaptor_signatures = j, am_refund_signature = k, am_negotiation_fields = l\<rparr>)
       (\<lambda>m. (am_protocol_version m, am_temporary_contract_id m, am_accept_collateral m, am_funding_pubkey m, am_payout_spk m,
             am_payout_serial_id m, am_funding_inputs m, am_change_spk m, am_change_serial_id m,
             am_cet_adaptor_signatures m, am_refund_signature m, am_negotiation_fields m))
       (typed api ACCEPT_TYPE
         (seqc (u32 api) (seqc (w_array32 api) (seqc (u64 api) (seqc (w_pubkey api) (seqc (w_script api) (seqc (u64 api)
         (seqc (vecc api (funding_input_codec api)) (seqc (w_script api) (seqc (u64 api)
         (seqc (cet_adaptor_signatures_codec api) (seqc (w_ecdsa api) (optionc api (negotiation_codec api)))))))))))))) "

definition sign_codec :: "wire_api \<Rightarrow> sign_dlc codec" where
  "sign_codec api =
     structc (\<lambda>(a, b, c, d, e). \<lparr>sm_protocol_version = a, sm_contract_id = b, sm_cet_adaptor_signatures = c,
                sm_refund_signature = d, sm_funding_signatures = e\<rparr>)
       (\<lambda>m. (sm_protocol_version m, sm_contract_id m, sm_cet_adaptor_signatures m, sm_refund_signature m,
             sm_funding_signatures m))
       (typed api SIGN_TYPE
         (seqc (u32 api) (seqc (w_array32 api) (seqc (cet_adaptor_signatures_codec api) (seqc (w_ecdsa api)
         (funding_signatures_codec api))))))"

definition close_codec :: "wire_api \<Rightarrow> close_dlc codec" where
  "close_codec api =
     structc (\<lambda>(a, b, c, d, e, f, g, h). \<lparr>cm_protocol_version = a, cm_contract_id = b, cm_close_signature = c,
                cm_accept_payout = d, cm_fee_rate_per_vb = e, cm_fund_input_serial_id = f, cm_funding_inputs = g,
                cm_funding_signatures = h\<rparr>)
       (\<lambda>m. (cm_protocol_version m, cm_contract_id m, cm_close_signature m, cm_accept_payout m, cm_fee_rate_per_vb m,
             cm_fund_input_serial_id m, cm_funding_inputs m, cm_funding_signatures m))
       (typed api CLOSE_TYPE
         (seqc (u32 api) (seqc (w_array32 api) (seqc (w_ecdsa api) (seqc (u64 api) (seqc (u64 api) (seqc (u64 api)
         (seqc (vecc api (funding_input_codec api)) (funding_signatures_codec api)))))))))"

section \<open>Messages that survive serialization\<close>

definition valid_dlc_input :: "wire_api \<Rightarrow> dlc_input \<Rightarrow> bool" where
  "valid_dlc_input api d \<longleftrightarrow> keeps (w_pubkey api) (dlc_local_fund_pubkey d) \<and> keeps (w_pubkey api) (dlc_remote_fund_pubkey d) \<and>
     length (dlc_contract_id d) = 32 \<and> (\<forall>b\<in>set (dlc_contract_id d). b < 256)"

definition valid_bytes :: "bytes \<Rightarrow> bool" where
  "valid_bytes = valid_list (\<lambda>b. b < 2 ^ 8)"

definition valid_funding_input :: "wire_api \<Rightarrow> funding_input \<Rightarrow> bool" where
  "valid_funding_input api x \<longleftrightarrow> fi_input_serial_id x < 2 ^ 64 \<and> valid_bytes (fi_prev_tx x) \<and> fi_prev_tx_vout x < 2 ^ 32 \<and>
     fi_sequence x < 2 ^ 32 \<and> fi_max_witness_len x < 2 ^ 16 \<and> keeps (w_script api) (fi_redeem_script x) \<and>
     (\<forall>d\<in>set_option (fi_dlc_input x). valid_dlc_input api d)"

fun valid_negotiation :: "negotiation_fields \<Rightarrow> bool" where
  "valid_negotiation (NegotiateSingle r) \<longleftrightarrow> valid_rounding r"
| "valid_negotiation (NegotiateDisjoint ns) \<longleftrightarrow> length ns \<le> MAX_VEC_SIZE \<and> list_all valid_negotiation ns"

definition valid_id :: "bytes \<Rightarrow> bool" where
  "valid_id b \<longleftrightarrow> length b = 32 \<and> (\<forall>x\<in>set b. x < 256)"

definition valid_offer :: "wire_api \<Rightarrow> offer_dlc \<Rightarrow> bool" where
  "valid_offer api m \<longleftrightarrow> om_contract_flags m < 2 ^ 8 \<and> valid_id (om_chain_hash m) \<and> valid_id (om_temporary_contract_id m) \<and>
     valid_contract_info api (om_contract_info m) \<and> keeps (w_pubkey api) (om_funding_pubkey m) \<and>
     keeps (w_script api) (om_payout_spk m) \<and> om_payout_serial_id m < 2 ^ 64 \<and> om_offer_collateral m < 2 ^ 64 \<and>
     valid_list (valid_funding_input api) (om_funding_inputs m) \<and> keeps (w_script api) (om_change_spk m) \<and>
     om_change_serial_id m < 2 ^ 64 \<and> om_fund_output_serial_id m < 2 ^ 64 \<and> om_fee_rate_per_vb m < 2 ^ 64 \<and>
     om_cet_locktime m < 2 ^ 32 \<and> om_refund_locktime m < 2 ^ 32"

definition valid_accept :: "wire_api \<Rightarrow> accept_dlc \<Rightarrow> bool" where
  "valid_accept api m \<longleftrightarrow> am_protocol_version m < 2 ^ 32 \<and> valid_id (am_temporary_contract_id m) \<and>
     am_accept_collateral m < 2 ^ 64 \<and> keeps (w_pubkey api) (am_funding_pubkey m) \<and> keeps (w_script api) (am_payout_spk m) \<and>
     am_payout_serial_id m < 2 ^ 64 \<and> valid_list (valid_funding_input api) (am_funding_inputs m) \<and>
     keeps (w_script api) (am_change_spk m) \<and> am_change_serial_id m < 2 ^ 64 \<and>
     valid_list (keeps (w_adaptor api)) (am_cet_adaptor_signatures m) \<and> keeps (w_ecdsa api) (am_refund_signature m) \<and>
     (\<forall>n\<in>set_option (am_negotiation_fields m). valid_negotiation n)"

definition valid_funding_signatures :: "bytes list list \<Rightarrow> bool" where
  "valid_funding_signatures = valid_list (valid_list valid_bytes)"

definition valid_sign :: "wire_api \<Rightarrow> sign_dlc \<Rightarrow> bool" where
  "valid_sign api m \<longleftrightarrow> sm_protocol_version m < 2 ^ 32 \<and> valid_id (sm_contract_id m) \<and>
     valid_list (keeps (w_adaptor api)) (sm_cet_adaptor_signatures m) \<and> keeps (w_ecdsa api) (sm_refund_signature m) \<and>
     valid_funding_signatures (sm_funding_signatures m)"

definition valid_close :: "wire_api \<Rightarrow> close_dlc \<Rightarrow> bool" where
  "valid_close api m \<longleftrightarrow> cm_protocol_version m < 2 ^ 32 \<and> valid_id (cm_contract_id m) \<and> keeps (w_ecdsa api) (cm_close_signature m) \<and>
     cm_accept_payout m < 2 ^ 64 \<and> cm_fee_rate_per_vb m < 2 ^ 64 \<and> cm_fund_input_serial_id m < 2 ^ 64 \<and>
     valid_list (valid_funding_input api) (cm_funding_inputs m) \<and> valid_funding_signatures (cm_funding_signatures m)"

lemma array32_ok: "wire_ok api \<Longrightarrow> codec_ok (w_array32 api) valid_id"
  by (rule codec_ok_mono [OF wire_okD(8)]) (auto simp: valid_id_def)

lemma bytes_codec_ok: "wire_ok api \<Longrightarrow> codec_ok (vecc api (u8 api)) valid_bytes"
  unfolding valid_bytes_def by (intro vecc_valid wire_okD)

lemma dlc_input_codec_ok: "wire_ok api \<Longrightarrow> codec_ok (dlc_input_codec api) (valid_dlc_input api)"
  unfolding dlc_input_codec_def
  by (rule codec_ok_mono, rule structc_ok, (rule seqc_ok array32_ok codec_ok_keeps | assumption)+)
    (auto simp: valid_dlc_input_def valid_id_def)

lemma funding_input_codec_ok: "wire_ok api \<Longrightarrow> codec_ok (funding_input_codec api) (valid_funding_input api)"
  unfolding funding_input_codec_def
  by (rule codec_ok_mono, rule structc_ok,
      (rule seqc_ok wire_okD(2-4) bytes_codec_ok optionc_ok dlc_input_codec_ok codec_ok_keeps | assumption)+)
    (auto simp: valid_funding_input_def)

lemma adaptor_signatures_codec_ok:
  "wire_ok api \<Longrightarrow> codec_ok (cet_adaptor_signatures_codec api) (valid_list (keeps (w_adaptor api)))"
  unfolding cet_adaptor_signatures_codec_def by (intro vecc_valid codec_ok_keeps)

lemma funding_signatures_codec_ok: "wire_ok api \<Longrightarrow> codec_ok (funding_signatures_codec api) valid_funding_signatures"
  unfolding funding_signatures_codec_def valid_funding_signatures_def by (intro vecc_valid bytes_codec_ok)

text \<open>A number of eight bits takes at least a byte, as two numbers are told apart.\<close>

lemma u8_nonempty:
  assumes "wire_ok api" "n < 2 ^ 8"
  shows "0 < length (put (u8 api) n)"
proof (rule ccontr)
  assume "\<not> ?thesis"
  then have e: "put (u8 api) n = []" by simp
  define k where "k = (if n = 0 then 1 else 0 :: nat)"
  have k: "k < 2 ^ 8" "k \<noteq> n" by (simp_all add: k_def)
  show False
    using codec_okD [OF wire_okD(1) [OF assms(1)] assms(2), of "put (u8 api) k"]
      codec_okD [OF wire_okD(1) [OF assms(1)] k(1), of "[]"] k(2) e by simp
qed

lemma length_concat_elem: "x \<in> set xs \<Longrightarrow> length (f x) \<le> length (concat (map f xs))"
  by (induction xs) auto

lemma get_put_negotiation:
  assumes "wire_ok api" "valid_negotiation n" "length (put_negotiation api n) \<le> fuel"
  shows "get_negotiation api fuel (put_negotiation api n @ rest) = Ok (n, rest)"
  using assms(2,3)
proof (induction n arbitrary: fuel rest)
  case (NegotiateSingle r)
  then obtain f where f: "fuel = Suc f" using u8_nonempty [OF assms(1), of 0] by (cases fuel) auto
  have v: "valid_rounding r" using NegotiateSingle(1) by simp
  show ?case
    using codec_okD [OF wire_okD(1) [OF assms(1)], of 0] codec_okD [OF rounding_codec_ok [OF assms(1)] v] by (simp add: f)
next
  case (NegotiateDisjoint ns)
  obtain f where f: "fuel = Suc f" using NegotiateDisjoint(3) u8_nonempty [OF assms(1), of 1] by (cases fuel) auto
  have len: "length (concat (map (put_negotiation api) ns)) \<le> f"
  proof -
    have "length (put_negotiation api (NegotiateDisjoint ns)) =
        length (put (u8 api) 1) + (length (put (big_size api) (length ns)) + length (concat (map (put_negotiation api) ns)))"
      by simp
    moreover have "0 < length (put (u8 api) 1)" by (rule u8_nonempty [OF assms(1)]) simp
    ultimately show ?thesis using NegotiateDisjoint(3) f by linarith
  qed
  have "codec_ok \<lparr>put = put_negotiation api, get = get_negotiation api f\<rparr> (\<lambda>x. x \<in> set ns)"
  proof (rule codec_okI)
    fix x rest assume x: "x \<in> set ns"
    then have "valid_negotiation x" "length (put_negotiation api x) \<le> f"
      using NegotiateDisjoint(2) le_trans [OF length_concat_elem [OF x, of "put_negotiation api"] len] by (auto simp: list_all_iff)
    then show "get \<lparr>put = put_negotiation api, get = get_negotiation api f\<rparr>
        (put \<lparr>put = put_negotiation api, get = get_negotiation api f\<rparr> x @ rest) = Ok (x, rest)"
      using NegotiateDisjoint(1) [OF x] by simp
  qed
  then have r: "read_n (get_negotiation api f) (length ns) (concat (map (put_negotiation api) ns) @ rest) = Ok (ns, rest)"
    using read_n_ok [of "\<lparr>put = put_negotiation api, get = get_negotiation api f\<rparr>" "\<lambda>x. x \<in> set ns" ns rest] by simp
  have n: "length ns \<le> MAX_VEC_SIZE" using NegotiateDisjoint(2) by simp
  have "length ns < 2 ^ 64" using n by (simp add: MAX_VEC_SIZE_def)
  then show ?case
    using codec_okD [OF wire_okD(1) [OF assms(1)], of 1] codec_okD [OF big_size_ok [OF assms(1)]] n r by (simp add: f)
qed

lemma negotiation_codec_ok: "wire_ok api \<Longrightarrow> codec_ok (negotiation_codec api) valid_negotiation"
  by (rule codec_okI) (simp add: negotiation_codec_def get_put_negotiation del: get_negotiation.simps)

lemma accept_codec_ok: "wire_ok api \<Longrightarrow> codec_ok (accept_codec api) (valid_accept api)"
  unfolding accept_codec_def
  by (rule codec_ok_mono, rule structc_ok,
      (rule typed_ok seqc_ok wire_okD(3,4) array32_ok vecc_valid funding_input_codec_ok adaptor_signatures_codec_ok optionc_ok
        negotiation_codec_ok codec_ok_keeps | assumption | simp add: ACCEPT_TYPE_def)+)
    (simp add: valid_accept_def)

lemma sign_codec_ok: "wire_ok api \<Longrightarrow> codec_ok (sign_codec api) (valid_sign api)"
  unfolding sign_codec_def
  by (rule codec_ok_mono, rule structc_ok,
      (rule typed_ok seqc_ok wire_okD(3) array32_ok adaptor_signatures_codec_ok funding_signatures_codec_ok codec_ok_keeps
        | assumption | simp add: SIGN_TYPE_def)+)
    (simp add: valid_sign_def)

lemma close_codec_ok: "wire_ok api \<Longrightarrow> codec_ok (close_codec api) (valid_close api)"
  unfolding close_codec_def
  by (rule codec_ok_mono, rule structc_ok,
      (rule typed_ok seqc_ok wire_okD(3,4) array32_ok vecc_valid funding_input_codec_ok funding_signatures_codec_ok codec_ok_keeps
        | assumption | simp add: CLOSE_TYPE_def)+)
    (simp add: valid_close_def)

lemma offer_tail_codec_ok:
  assumes "wire_ok api" "valid_offer api m"
  shows "get (offer_tail_codec api) (put (offer_tail_codec api) (offer_tail_of m) @ rest) = Ok (offer_tail_of m, rest)"
proof -
  have "codec_ok (offer_tail_codec api) (\<lambda>(a, b, c, d, e, g, i, j, k, l, m, n, p).
      valid_id a \<and> valid_contract_info api b \<and> keeps (w_pubkey api) c \<and> keeps (w_script api) d \<and> e < 2 ^ 64 \<and> g < 2 ^ 64 \<and>
      valid_list (valid_funding_input api) i \<and> keeps (w_script api) j \<and> k < 2 ^ 64 \<and> l < 2 ^ 64 \<and> m < 2 ^ 64 \<and>
      n < 2 ^ 32 \<and> p < 2 ^ 32)"
    unfolding offer_tail_codec_def
    by (rule codec_ok_mono,
        (rule seqc_ok wire_okD(3,4) array32_ok contract_info_codec_ok vecc_valid funding_input_codec_ok codec_ok_keeps
          | rule assms(1))+) auto
  from codec_okD [OF this] show ?thesis using assms(2) by (simp add: offer_tail_of_def valid_offer_def)
qed

lemma offer_of_tail: "offer_of (om_protocol_version m) (om_contract_flags m) (om_chain_hash m) (offer_tail_of m) = m"
  by (cases m) (simp add: offer_of_def offer_tail_of_def)

section \<open>Offers, old and new\<close>

text \<open>The documented formats that the reader of an offer relies on.\<close>

definition big_endian :: "wire_api \<Rightarrow> bool" where
  "big_endian api \<longleftrightarrow> (\<forall>n < 2 ^ 32. put (u32 api) n = be_bytes 4 n) \<and> (\<forall>n < 2 ^ 8. put (u8 api) n = [n]) \<and>
     (\<forall>b. valid_id b \<longrightarrow> put (w_array32 api) b = b)"

text \<open>An offer as it was written before the protocol version was added.\<close>

definition put_legacy_offer :: "wire_api \<Rightarrow> offer_dlc \<Rightarrow> bytes" where
  "put_legacy_offer api m =
     put (u16 api) OFFER_TYPE @ put (u8 api) (om_contract_flags m) @ put (w_array32 api) (om_chain_hash m) @
     put (offer_tail_codec api) (offer_tail_of m)"

lemma offer_of_version [simp]: "om_protocol_version (offer_of v f h t) = v"
  by (simp add: offer_of_def split: prod.splits)

lemma get_offer_type:
  assumes "wire_ok api"
  shows "get_offer api (put (u16 api) OFFER_TYPE @ bs) =
    and_then (read_raw 5 bs) (\<lambda>(peek, bs).
       let possible_pv = be_value (take 4 peek) in
       and_then
         (if 1 \<le> possible_pv \<and> possible_pv \<le> 10
          then and_then (get (w_array32 api) bs) (\<lambda>(chain_hash, bs). Ok (possible_pv, peek ! 4, chain_hash, bs))
          else and_then (read_raw 28 bs) (\<lambda>(remaining, bs). Ok (1, peek ! 0, drop 1 peek @ remaining, bs)))
         (\<lambda>(version, flags, chain_hash, bs).
       and_then (get (offer_tail_codec api) bs) (\<lambda>(t, bs). Ok (offer_of version flags chain_hash t, bs))))"
proof -
  have "get (u16 api) (put (u16 api) OFFER_TYPE @ bs) = Ok (OFFER_TYPE, bs)"
    by (rule codec_okD [OF wire_okD(2) [OF assms]]) (simp add: OFFER_TYPE_def)
  then show ?thesis by (simp add: get_offer_def)
qed

lemma get_put_offer:
  assumes "wire_ok api" "big_endian api" "valid_offer api m" "1 \<le> om_protocol_version m" "om_protocol_version m \<le> 10"
  shows "get_offer api (put_offer api m @ rest) = Ok (m, rest)"
proof -
  have v: "om_protocol_version m < 2 ^ 32" using assms(5) by simp
  then have p: "put (u32 api) (om_protocol_version m) = be_bytes 4 (om_protocol_version m)"
    "put (u8 api) (om_contract_flags m) = [om_contract_flags m]" and bv: "be_value (be_bytes 4 (om_protocol_version m)) = om_protocol_version m"
    using assms(2,3) be_value_bytes [of "om_protocol_version m" 4] by (auto simp: big_endian_def valid_offer_def)
  have h: "get (w_array32 api) (put (w_array32 api) (om_chain_hash m) @ bs) = Ok (om_chain_hash m, bs)" for bs
    using codec_okD [OF array32_ok [OF assms(1)]] assms(3) by (simp add: valid_offer_def)
  let ?peek = "be_bytes 4 (om_protocol_version m) @ [om_contract_flags m]"
  have r: "read_raw 5 (?peek @ bs) = Ok (?peek, bs)" for bs by (simp add: read_raw_def)
  have e: "put_offer api m @ rest = put (u16 api) OFFER_TYPE @ ?peek @ put (w_array32 api) (om_chain_hash m) @
      put (offer_tail_codec api) (offer_tail_of m) @ rest"
    by (simp add: put_offer_def p)
  have t: "take 4 ?peek = be_bytes 4 (om_protocol_version m)" "?peek ! 4 = om_contract_flags m"
    by (simp_all add: nth_append del: be_bytes.simps)
  show ?thesis
    unfolding e get_offer_type [OF assms(1)] r
    by (simp only: and_then_simps prod.case Let_def t bv assms(4,5) simp_thms if_True h offer_tail_codec_ok [OF assms(1,3)] offer_of_tail)
qed

lemma get_put_legacy:
  assumes "wire_ok api" "big_endian api" "valid_offer api m"
    and "\<not> (1 \<le> be_value (om_contract_flags m # take 3 (om_chain_hash m)) \<and>
          be_value (om_contract_flags m # take 3 (om_chain_hash m)) \<le> 10)"
  shows "get_offer api (put_legacy_offer api m @ rest) = Ok (m\<lparr>om_protocol_version := 1\<rparr>, rest)"
proof -
  have p: "put (u8 api) (om_contract_flags m) = [om_contract_flags m]" "put (w_array32 api) (om_chain_hash m) = om_chain_hash m"
    and l: "length (om_chain_hash m) = 32"
    using assms(2,3) by (auto simp: big_endian_def valid_offer_def valid_id_def)
  let ?peek = "om_contract_flags m # take 4 (om_chain_hash m)"
  have lp: "length ?peek = 5" using l by simp
  have e: "put_legacy_offer api m @ rest = put (u16 api) OFFER_TYPE @ ?peek @ drop 4 (om_chain_hash m) @
      put (offer_tail_codec api) (offer_tail_of m) @ rest"
    using append_take_drop_id [of 4 "om_chain_hash m"] by (simp add: put_legacy_offer_def p flip: append_assoc)
  have r: "read_raw 5 (?peek @ bs) = Ok (?peek, bs)" "read_raw 28 (drop 4 (om_chain_hash m) @ bs) = Ok (drop 4 (om_chain_hash m), bs)" for bs
    using l lp by (simp_all add: read_raw_def)
  have t: "take 4 ?peek = om_contract_flags m # take 3 (om_chain_hash m)" "drop 1 ?peek @ drop 4 (om_chain_hash m) = om_chain_hash m"
    "?peek ! 0 = om_contract_flags m"
    by (simp_all add: take_Cons' min_def)
  have o: "offer_of 1 (om_contract_flags m) (om_chain_hash m) (offer_tail_of m) = m\<lparr>om_protocol_version := 1\<rparr>"
    by (cases m) (simp add: offer_of_def offer_tail_of_def)
  show ?thesis
    unfolding e get_offer_type [OF assms(1)] r
    by (simp only: and_then_simps prod.case Let_def t assms(4) simp_thms if_False r offer_tail_codec_ok [OF assms(1,3)] o)
qed

text \<open>A version that the reader takes for the old format is never read back.\<close>

lemma version_not_read:
  assumes "wire_ok api" "big_endian api" "valid_offer api m" "om_protocol_version m < 2 ^ 32"
    and "om_protocol_version m = 0 \<or> 10 < om_protocol_version m"
  shows "get_offer api (put_offer api m @ rest) \<noteq> Ok (m, rest')"
proof
  assume a: "get_offer api (put_offer api m @ rest) = Ok (m, rest')"
  have p: "put (u32 api) (om_protocol_version m) = be_bytes 4 (om_protocol_version m)"
    "put (u8 api) (om_contract_flags m) = [om_contract_flags m]"
    using assms(2-4) by (auto simp: big_endian_def valid_offer_def)
  have bv: "be_value (be_bytes 4 (om_protocol_version m)) = om_protocol_version m"
    using be_value_bytes [of "om_protocol_version m" 4] assms(4) by simp
  let ?peek = "be_bytes 4 (om_protocol_version m) @ [om_contract_flags m]"
  have r: "read_raw 5 (?peek @ bs) = Ok (?peek, bs)" for bs by (simp add: read_raw_def)
  have e: "put_offer api m @ rest = put (u16 api) OFFER_TYPE @ ?peek @ put (w_array32 api) (om_chain_hash m) @
      put (offer_tail_codec api) (offer_tail_of m) @ rest"
    by (simp add: put_offer_def p)
  have t: "take 4 ?peek = be_bytes 4 (om_protocol_version m)" by (simp del: be_bytes.simps)
  have np: "(1 \<le> om_protocol_version m \<and> om_protocol_version m \<le> 10) = False" using assms(5) by auto
  have "om_protocol_version m = 1"
    using a unfolding e get_offer_type [OF assms(1)] r and_then_simps prod.case Let_def t bv np if_False
    by (auto simp: res_simps dest!: arg_cong [where f = om_protocol_version])
  then show False using assms(5) by simp
qed

section \<open>Validation of offers\<close>

fun info_announcements :: "ser_oracle_info \<Rightarrow> oracle_announcement list" where
  "info_announcements (Single a) = [a]"
| "info_announcements (Multi m) = mo_announcements m"

fun offer_announcements :: "ser_contract_info \<Rightarrow> oracle_announcement list" where
  "offer_announcements (SingleContractInfo s) = info_announcements (in_oracle_info (si_contract_info s))"
| "offer_announcements (DisjointContractInfo d) = concat (map (\<lambda>c. info_announcements (in_oracle_info c)) (dj_contract_infos d))"

definition announced :: "('m) oracle_api_scheme \<Rightarrow> wire_api \<Rightarrow> oracle_announcement \<Rightarrow> bool" where
  "announced api wire a \<longleftrightarrow>
     schnorr_verify api (announcement_signature a) (tagged_announcement_msg api wire (announced_event a)) (oracle_public_key a) \<and>
     length (oracle_nonces (announced_event a)) =
       (case event_desc (announced_event a) of
          EnumEvent _ \<Rightarrow> 1
        | DigitDecompositionEvent d \<Rightarrow> dd_nb_digits d + (if dd_is_signed d then 1 else 0))"

abbreviation maturity :: "oracle_announcement \<Rightarrow> nat" where
  "maturity a \<equiv> event_maturity_epoch (announced_event a)"

lemma announcement_validate_Ok: "announcement_validate api wire a = Ok () \<longleftrightarrow> announced api wire a"
  by (auto simp: announcement_validate_def announced_def event_validate_def Let_def split: event_descriptor.splits)

lemma fold_unit_Ok: "fold_res (\<lambda>x _. f x) xs () = Ok () \<longleftrightarrow> (\<forall>x\<in>set xs. f x = Ok ())"
  by (induction xs) (auto simp: res_simps)

lemma oracle_info_validate_Ok:
  "oracle_info_validate api wire i = Ok () \<longleftrightarrow> (\<forall>a\<in>set (info_announcements i). announced api wire a)"
  by (cases i) (simp_all add: oracle_info_validate_def announcement_validate_Ok fold_unit_Ok)

lemma oracle_closest_le:
  "oracle_closest_maturity_date i = Ok c \<Longrightarrow> c = Min (maturity ` set (info_announcements i)) \<and> info_announcements i \<noteq> []"
  by (cases i) (auto simp: oracle_closest_maturity_date_def split: if_splits)

lemma info_closest_le:
  assumes "info_closest_maturity_date i = (Ok c :: (nat, 'e) res)"
  shows "(\<exists>a\<in>set (offer_announcements i). maturity a = c) \<and> (\<forall>a\<in>set (offer_announcements i). c \<le> maturity a)"
proof (cases i)
  case (SingleContractInfo s)
  then have m: "c = Min (maturity ` set (offer_announcements i))" "offer_announcements i \<noteq> []"
    using assms oracle_closest_le by (auto simp: info_closest_maturity_date_def)
  then show ?thesis
    using Min_in [of "maturity ` set (offer_announcements i)"] Min_le [of "maturity ` set (offer_announcements i)"] by fastforce
next
  case (DisjointContractInfo d)
  let ?f = "\<lambda>x. oracle_closest_maturity_date (in_oracle_info x)"
  obtain ds where ds: "traverse ?f (dj_contract_infos d) = (Ok ds :: (nat list, 'e) res)" "ds \<noteq> []" "c = Min (set ds)"
    using assms DisjointContractInfo by (auto simp: info_closest_maturity_date_def res_simps split: if_splits)
  have l: "length ds = length (dj_contract_infos d)"
    and n: "\<And>j. j < length ds \<Longrightarrow> ds ! j = Min (maturity ` set (info_announcements (in_oracle_info (dj_contract_infos d ! j)))) \<and>
      info_announcements (in_oracle_info (dj_contract_infos d ! j)) \<noteq> []"
    using ds(1) by (auto simp: traverse_Ok_iff list_all2_conv_all_nth dest: oracle_closest_le)
  have "c \<in> set ds" using ds(2,3) by simp
  then obtain j where j: "j < length ds" "ds ! j = c" by (auto simp: in_set_conv_nth)
  then have "\<exists>a\<in>set (info_announcements (in_oracle_info (dj_contract_infos d ! j))). maturity a = c"
    using n [OF j(1)] Min_in [of "maturity ` set (info_announcements (in_oracle_info (dj_contract_infos d ! j)))"] by fastforce
  then have 1: "\<exists>a\<in>set (offer_announcements i). maturity a = c" using j(1) l DisjointContractInfo by auto
  have "c \<le> maturity a" if x: "x \<in> set (dj_contract_infos d)" and am: "a \<in> set (info_announcements (in_oracle_info x))" for x a
  proof -
    obtain k where k: "k < length ds" "x = dj_contract_infos d ! k" using x l in_set_conv_nth [of x "dj_contract_infos d"] by auto
    have "ds ! k \<le> maturity a" using n [OF k(1)] am k(2) by simp
    moreover have "c \<le> ds ! k" using ds(3) k(1) by simp
    ultimately show ?thesis by simp
  qed
  then show ?thesis using 1 DisjointContractInfo by auto
qed

lemma valid_dates_True:
  "valid_dates l r c lo hi = Ok True \<longleftrightarrow> l \<le> c \<and> c + lo \<le> r \<and> r \<le> c + hi \<and> c + lo < 2 ^ 32 \<and> c + hi < 2 ^ 32"
  by (auto simp: valid_dates_def add_u32_def)

text \<open>
  C30. An offer passes validation only when every oracle announcement is signed by the key it names and
  has a nonce for each signature, the CETs are spendable when the first oracle attests, and the refund
  is possible no earlier than the first maturity and the minimal interval, no later than the maximal
  one.  A maturity so late that the minimal interval leaves 32 bits makes the check panic.
\<close>

theorem offer_validate_sound:
  shows "(offer_validate api wire m lo hi = Ok () \<longrightarrow>
     (\<forall>a\<in>set (offer_announcements (om_contract_info m)). announced api wire a \<and> om_cet_locktime m \<le> maturity a) \<and>
     (\<exists>a\<in>set (offer_announcements (om_contract_info m)).
        maturity a + lo \<le> om_refund_locktime m \<and> om_refund_locktime m \<le> maturity a + hi)) \<and>
   (om_contract_info m = SingleContractInfo s \<and> in_oracle_info (si_contract_info s) = Single a \<and> announced api wire a \<and>
      om_cet_locktime m \<le> maturity a \<and> 2 ^ 32 \<le> maturity a + lo \<longrightarrow> offer_validate api wire m lo hi = Panic)"
proof -
  have 1: "(\<forall>a\<in>set (offer_announcements (om_contract_info m)). announced api wire a \<and> om_cet_locktime m \<le> maturity a) \<and>
     (\<exists>a\<in>set (offer_announcements (om_contract_info m)).
        maturity a + lo \<le> om_refund_locktime m \<and> om_refund_locktime m \<le> maturity a + hi)"
    if a: "offer_validate api wire m lo hi = Ok ()"
  proof -
    have v: "\<forall>a\<in>set (offer_announcements (om_contract_info m)). announced api wire a"
      using a by (cases "om_contract_info m")
        (auto simp: offer_validate_def res_simps oracle_info_validate_Ok fold_unit_Ok split: if_splits)
    obtain c where c: "info_closest_maturity_date (om_contract_info m) = (Ok c :: (nat, dlc_error) res)"
      and d: "valid_dates (om_cet_locktime m) (om_refund_locktime m) c lo hi = (Ok True :: (bool, dlc_error) res)"
      using a by (auto simp: offer_validate_def res_simps split: if_splits)
    show ?thesis using v info_closest_le [OF c] d unfolding valid_dates_True by (metis le_trans)
  qed
  have 2: "offer_validate api wire m lo hi = Panic"
    if "om_contract_info m = SingleContractInfo s" "in_oracle_info (si_contract_info s) = Single a" "announced api wire a"
      "om_cet_locktime m \<le> maturity a" "2 ^ 32 \<le> maturity a + lo"
    using that announcement_validate_Ok [of api wire a]
    by (simp add: offer_validate_def oracle_info_validate_def info_closest_maturity_date_def oracle_closest_maturity_date_def
      valid_dates_def add_u32_def)
  show ?thesis using 1 2 by blast
qed

section \<open>Round trips\<close>

text \<open>
  C29. An offer is read back exactly when its protocol version is between 1 and 10; an offer of the old
  format is read with version 1, as long as its flags and the start of its chain hash do not look like
  a version.  Acceptances, signatures and closes are read back, with nothing behind them consumed.
\<close>

theorem contract_messages_roundtrip:
  assumes "wire_ok api" "big_endian api" "valid_offer api m" "om_protocol_version m < 2 ^ 32"
    and "valid_accept api a" "valid_sign api s" "valid_close api c"
  shows "(get_offer api (put_offer api m @ rest) = Ok (m, rest) \<longleftrightarrow> 1 \<le> om_protocol_version m \<and> om_protocol_version m \<le> 10) \<and>
    (be_value (om_contract_flags m # take 3 (om_chain_hash m)) \<notin> {1..10} \<longrightarrow>
       get_offer api (put_legacy_offer api m @ rest) = Ok (m\<lparr>om_protocol_version := 1\<rparr>, rest)) \<and>
    get (accept_codec api) (put (accept_codec api) a @ rest) = Ok (a, rest) \<and>
    get (sign_codec api) (put (sign_codec api) s @ rest) = Ok (s, rest) \<and>
    get (close_codec api) (put (close_codec api) c @ rest) = Ok (c, rest)"
proof -
  have "get_offer api (put_offer api m @ rest) = Ok (m, rest) \<longleftrightarrow> 1 \<le> om_protocol_version m \<and> om_protocol_version m \<le> 10"
    using get_put_offer [OF assms(1-3)] version_not_read [OF assms(1-4)] by (metis less_one not_le)
  moreover have "get_offer api (put_legacy_offer api m @ rest) = Ok (m\<lparr>om_protocol_version := 1\<rparr>, rest)"
    if "be_value (om_contract_flags m # take 3 (om_chain_hash m)) \<notin> {1..10}"
    using get_put_legacy [OF assms(1-3)] that unfolding atLeastAtMost_iff by blast
  ultimately show ?thesis
    using codec_okD [OF accept_codec_ok [OF assms(1)] assms(5)] codec_okD [OF sign_codec_ok [OF assms(1)] assms(6)]
      codec_okD [OF close_codec_ok [OF assms(1)] assms(7)]
    by blast
qed

definition example_info :: ser_contract_info where
  "example_info = SingleContractInfo \<lparr>si_total_collateral = 100,
     si_contract_info = \<lparr>in_contract_descriptor = EnumeratedContractDescriptor
         [\<lparr>co_outcome = [97], co_offer_payout = 100\<rparr>, \<lparr>co_outcome = [98], co_offer_payout = 0\<rparr>],
       in_oracle_info = Single example_announcement\<rparr>\<rparr>"

definition example_funding_input :: funding_input where
  "example_funding_input = \<lparr>fi_input_serial_id = 7, fi_prev_tx = [1, 2], fi_prev_tx_vout = 0, fi_sequence = 4294967295,
     fi_max_witness_len = 108, fi_redeem_script = [],
     fi_dlc_input = Some \<lparr>dlc_local_fund_pubkey = replicate 33 2, dlc_remote_fund_pubkey = replicate 33 3,
       dlc_contract_id = replicate 32 9\<rparr>\<rparr>"

definition example_offer :: offer_dlc where
  "example_offer = \<lparr>om_protocol_version = 1, om_contract_flags = 0, om_chain_hash = 6 # 34 # replicate 30 0,
     om_temporary_contract_id = replicate 32 4, om_contract_info = example_info, om_funding_pubkey = replicate 33 2,
     om_payout_spk = [0, 20], om_payout_serial_id = 1, om_offer_collateral = 50, om_funding_inputs = [example_funding_input],
     om_change_spk = [0, 20], om_change_serial_id = 2, om_fund_output_serial_id = 3, om_fee_rate_per_vb = 4,
     om_cet_locktime = 1000, om_refund_locktime = 2000\<rparr>"

definition example_accept :: accept_dlc where
  "example_accept = \<lparr>am_protocol_version = 1, am_temporary_contract_id = replicate 32 4, am_accept_collateral = 50,
     am_funding_pubkey = replicate 33 2, am_payout_spk = [], am_payout_serial_id = 5, am_funding_inputs = [],
     am_change_spk = [], am_change_serial_id = 6, am_cet_adaptor_signatures = [replicate 162 1],
     am_refund_signature = replicate 64 1,
     am_negotiation_fields = Some (NegotiateDisjoint [NegotiateSingle [\<lparr>sr_begin_interval = 0, sr_rounding_mod = 1\<rparr>]])\<rparr>"

definition example_sign :: sign_dlc where
  "example_sign = \<lparr>sm_protocol_version = 1, sm_contract_id = replicate 32 4, sm_cet_adaptor_signatures = [replicate 162 1],
     sm_refund_signature = replicate 64 1, sm_funding_signatures = [[[1, 2], [3]]]\<rparr>"

definition example_close :: close_dlc where
  "example_close = \<lparr>cm_protocol_version = 1, cm_contract_id = replicate 32 4, cm_close_signature = replicate 64 1,
     cm_accept_payout = 10, cm_fee_rate_per_vb = 2, cm_fund_input_serial_id = 1, cm_funding_inputs = [],
     cm_funding_signatures = []\<rparr>"

lemma lightning_script_keeps: "length s < 2 ^ 16 \<Longrightarrow> keeps lightning_script s"
  using raw_keeps [OF refl, of s] codec_okD [OF be_ok [of 2], of "length s"]
  by (simp add: keeps_def lightning_script_def be_def fixed_def raw_def)

lemma lightning_big_endian: "big_endian lightning_wire"
  by (simp add: big_endian_def lightning_wire_def be_def raw_def fixed_def)

lemma example_messages_valid:
  "valid_offer lightning_wire example_offer" "valid_accept lightning_wire example_accept"
  "valid_sign lightning_wire example_sign" "valid_close lightning_wire example_close"
proof -
  have k: "w_xonly lightning_wire = raw 32" "w_schnorr lightning_wire = raw 64" "w_pubkey lightning_wire = raw 33"
    "w_ecdsa lightning_wire = raw 64" "w_adaptor lightning_wire = raw 162" "w_script lightning_wire = lightning_script"
    by (simp_all add: lightning_wire_def)
  have i: "valid_contract_info lightning_wire example_info"
    using example_oracle_messages_valid
    by (simp add: valid_contract_info_def example_info_def ser_total_collateral_def valid_inner_def valid_oracle_info_def
      valid_list_def MAX_VEC_SIZE_def valid_ascii)
  note d = valid_list_def MAX_VEC_SIZE_def valid_id_def valid_bytes_def k raw_keeps lightning_script_keeps valid_funding_signatures_def
  show "valid_offer lightning_wire example_offer"
    by (simp add: valid_offer_def example_offer_def i valid_funding_input_def example_funding_input_def valid_dlc_input_def d)
  show "valid_accept lightning_wire example_accept" "valid_sign lightning_wire example_sign"
    "valid_close lightning_wire example_close"
    by (simp_all add: valid_accept_def example_accept_def valid_sign_def example_sign_def valid_close_def example_close_def
      valid_rounding_def d)
qed

lemma contract_messages_roundtrip_witness:
  "get_offer lightning_wire (put_offer lightning_wire example_offer) = Ok (example_offer, []) \<and>
   get (accept_codec lightning_wire) (put (accept_codec lightning_wire) example_accept) = Ok (example_accept, [])"
  using contract_messages_roundtrip [OF lightning_wire_ok lightning_big_endian example_messages_valid(1) _
      example_messages_valid(2-4), of "[]"]
  by (simp add: example_offer_def)

definition example_oracle_api :: oracle_api where
  "example_oracle_api = crypto_api.extend example_crypto (oracle_api.fields (\<lambda>b. [length b]) (\<lambda>_ _ _. True))"

lemma example_announced: "announced example_oracle_api w example_announcement"
  by (simp add: announced_def example_oracle_api_def crypto_api.defs oracle_api.defs example_announcement_def)

lemma offer_validate_sound_witness:
  "offer_validate example_oracle_api lightning_wire (example_offer\<lparr>om_refund_locktime := 1700000100\<rparr>) 50 200 = Ok () \<and>
   (\<exists>a\<in>set (offer_announcements example_info). maturity a + 50 \<le> 1700000100) \<and>
   offer_validate example_oracle_api lightning_wire (example_offer\<lparr>om_refund_locktime := 1700000100\<rparr>) 4000000000 200 = Panic"
proof -
  let ?m = "example_offer\<lparr>om_refund_locktime := 1700000100\<rparr>"
  have "announcement_validate example_oracle_api lightning_wire example_announcement = Ok ()"
    by (simp add: announcement_validate_Ok example_announced)
  then have ok: "offer_validate example_oracle_api lightning_wire ?m 50 200 = Ok ()"
    by (simp add: offer_validate_def example_offer_def example_info_def oracle_info_validate_def info_closest_maturity_date_def
      oracle_closest_maturity_date_def valid_dates_def add_u32_def example_announcement_def)
  show ?thesis
    using ok offer_validate_sound [of example_oracle_api lightning_wire ?m 50 200]
      offer_validate_sound [of example_oracle_api lightning_wire ?m 4000000000 200 _ example_announcement]
      example_announced [of lightning_wire]
    by (auto simp: example_offer_def example_info_def example_announcement_def)
qed

end
