(* ===== verification/Channel_Messages.thy ===== *)
theory Channel_Messages
  imports Dlc_Messages
begin

text \<open>
  \<open>dlc-messages/src/channel.rs\<close>: the messages that set up, settle, renew and close a DLC channel,
  their serialization and the validation of an offer of a channel.
\<close>

section \<open>Messages\<close>

definition OFFER_CHANNEL_TYPE :: nat where "OFFER_CHANNEL_TYPE = 43000"
definition ACCEPT_CHANNEL_TYPE :: nat where "ACCEPT_CHANNEL_TYPE = 43002"
definition SIGN_CHANNEL_TYPE :: nat where "SIGN_CHANNEL_TYPE = 43004"
definition SETTLE_CHANNEL_OFFER_TYPE :: nat where "SETTLE_CHANNEL_OFFER_TYPE = 43006"
definition SETTLE_CHANNEL_ACCEPT_TYPE :: nat where "SETTLE_CHANNEL_ACCEPT_TYPE = 43008"
definition SETTLE_CHANNEL_CONFIRM_TYPE :: nat where "SETTLE_CHANNEL_CONFIRM_TYPE = 43010"
definition SETTLE_CHANNEL_FINALIZE_TYPE :: nat where "SETTLE_CHANNEL_FINALIZE_TYPE = 43012"
definition RENEW_CHANNEL_OFFER_TYPE :: nat where "RENEW_CHANNEL_OFFER_TYPE = 43014"
definition RENEW_CHANNEL_ACCEPT_TYPE :: nat where "RENEW_CHANNEL_ACCEPT_TYPE = 43016"
definition RENEW_CHANNEL_CONFIRM_TYPE :: nat where "RENEW_CHANNEL_CONFIRM_TYPE = 43018"
definition RENEW_CHANNEL_FINALIZE_TYPE :: nat where "RENEW_CHANNEL_FINALIZE_TYPE = 43020"
definition COLLABORATIVE_CLOSE_OFFER_TYPE :: nat where "COLLABORATIVE_CLOSE_OFFER_TYPE = 43022"
definition REJECT :: nat where "REJECT = 43024"
definition RENEW_CHANNEL_REVOKE_TYPE :: nat where "RENEW_CHANNEL_REVOKE_TYPE = 43026"

record offer_channel =
  och_protocol_version :: nat
  och_contract_flags :: nat
  och_chain_hash :: bytes
  och_temporary_contract_id :: bytes
  och_temporary_channel_id :: bytes
  och_contract_info :: ser_contract_info
  och_funding_pubkey :: pubkey
  och_revocation_basepoint :: pubkey
  och_publish_basepoint :: pubkey
  och_own_basepoint :: pubkey
  och_first_per_update_point :: pubkey
  och_payout_spk :: script
  och_payout_serial_id :: nat
  och_offer_collateral :: nat
  och_funding_inputs :: "funding_input list"
  och_change_spk :: script
  och_change_serial_id :: nat
  och_fund_output_serial_id :: nat
  och_fee_rate_per_vb :: nat
  och_cet_locktime :: nat
  och_refund_locktime :: nat
  och_cet_nsequence :: nat

record accept_channel =
  ach_temporary_channel_id :: bytes
  ach_accept_collateral :: nat
  ach_funding_pubkey :: pubkey
  ach_revocation_basepoint :: pubkey
  ach_publish_basepoint :: pubkey
  ach_own_basepoint :: pubkey
  ach_first_per_update_point :: pubkey
  ach_payout_spk :: script
  ach_payout_serial_id :: nat
  ach_funding_inputs :: "funding_input list"
  ach_change_spk :: script
  ach_change_serial_id :: nat
  ach_cet_adaptor_signatures :: "adaptor_sig list"
  ach_buffer_adaptor_signature :: adaptor_sig
  ach_refund_signature :: ecdsa_sig
  ach_negotiation_fields :: "negotiation_fields option"

record sign_channel =
  sch_channel_id :: bytes
  sch_cet_adaptor_signatures :: "adaptor_sig list"
  sch_buffer_adaptor_signature :: adaptor_sig
  sch_refund_signature :: ecdsa_sig
  sch_funding_signatures :: "bytes list list"

record settle_offer =
  sto_channel_id :: bytes
  sto_counter_payout :: nat
  sto_next_per_update_point :: pubkey

record settle_accept =
  sta_channel_id :: bytes
  sta_next_per_update_point :: pubkey
  sta_settle_adaptor_signature :: adaptor_sig

record settle_confirm =
  stc_channel_id :: bytes
  stc_prev_per_update_secret :: seckey
  stc_settle_adaptor_signature :: adaptor_sig

record settle_finalize =
  stf_channel_id :: bytes
  stf_prev_per_update_secret :: seckey

record renew_offer =
  rno_channel_id :: bytes
  rno_temporary_contract_id :: bytes
  rno_counter_payout :: nat
  rno_next_per_update_point :: pubkey
  rno_contract_info :: ser_contract_info
  rno_cet_locktime :: nat
  rno_refund_locktime :: nat
  rno_cet_nsequence :: nat

record renew_accept =
  rna_channel_id :: bytes
  rna_next_per_update_point :: pubkey
  rna_cet_adaptor_signatures :: "adaptor_sig list"
  rna_refund_signature :: ecdsa_sig

record renew_confirm =
  rnc_channel_id :: bytes
  rnc_buffer_adaptor_signature :: adaptor_sig
  rnc_cet_adaptor_signatures :: "adaptor_sig list"
  rnc_refund_signature :: ecdsa_sig

record renew_finalize =
  rnf_channel_id :: bytes
  rnf_per_update_secret :: seckey
  rnf_buffer_adaptor_signature :: adaptor_sig

record renew_revoke =
  rnr_channel_id :: bytes
  rnr_per_update_secret :: seckey

record collaborative_close_offer =
  cco_channel_id :: bytes
  cco_counter_payout :: nat
  cco_close_signature :: ecdsa_sig

record reject =
  rej_channel_id :: bytes

definition offer_channel_validate ::
  "('m) oracle_api_scheme \<Rightarrow> wire_api \<Rightarrow> offer_channel \<Rightarrow> nat \<Rightarrow> nat \<Rightarrow> nat \<Rightarrow> nat \<Rightarrow> (unit, dlc_error) res" where
  "offer_channel_validate api wire m min_timeout max_timeout min_cet_nsequence max_cet_nsequence =
     and_then (info_closest_maturity_date (och_contract_info m)) (\<lambda>closest.
     and_then (valid_dates (och_cet_locktime m) (och_refund_locktime m) closest min_timeout max_timeout) (\<lambda>valid.
       if \<not> (valid \<and> min_cet_nsequence \<le> och_cet_nsequence m \<and> och_cet_nsequence m \<le> max_cet_nsequence)
       then Err InvalidArgument
       else
         (case och_contract_info m of
            SingleContractInfo s \<Rightarrow> oracle_info_validate api wire (in_oracle_info (si_contract_info s))
          | DisjointContractInfo d \<Rightarrow>
              fold_res (\<lambda>c _. oracle_info_validate api wire (in_oracle_info c)) (dj_contract_infos d) ())))"

section \<open>Serialization\<close>

definition offer_channel_codec :: "wire_api \<Rightarrow> offer_channel codec" where
  "offer_channel_codec api =
     structc (\<lambda>(a, b, c, d, e, f, g, h, i, j, k, l, n, o', p, q, r, s, t, u, v, w).
         \<lparr>och_protocol_version = a, och_contract_flags = b, och_chain_hash = c, och_temporary_contract_id = d,
          och_temporary_channel_id = e, och_contract_info = f, och_funding_pubkey = g,
          och_revocation_basepoint = h, och_publish_basepoint = i, och_own_basepoint = j,
          och_first_per_update_point = k, och_payout_spk = l, och_payout_serial_id = n,
          och_offer_collateral = o', och_funding_inputs = p, och_change_spk = q, och_change_serial_id = r,
          och_fund_output_serial_id = s, och_fee_rate_per_vb = t, och_cet_locktime = u,
          och_refund_locktime = v, och_cet_nsequence = w\<rparr>)
       (\<lambda>m. (och_protocol_version m, och_contract_flags m, och_chain_hash m, och_temporary_contract_id m,
              och_temporary_channel_id m, och_contract_info m, och_funding_pubkey m,
              och_revocation_basepoint m, och_publish_basepoint m, och_own_basepoint m,
              och_first_per_update_point m, och_payout_spk m, och_payout_serial_id m, och_offer_collateral m,
              och_funding_inputs m, och_change_spk m, och_change_serial_id m, och_fund_output_serial_id m,
              och_fee_rate_per_vb m, och_cet_locktime m, och_refund_locktime m, och_cet_nsequence m))
       (typed api OFFER_CHANNEL_TYPE
         (seqc (u32 api) (seqc (u8 api) (seqc (w_array32 api) (seqc (w_array32 api) (seqc (w_array32 api)
           (seqc (contract_info_codec api) (seqc (w_pubkey api) (seqc (w_pubkey api) (seqc (w_pubkey api)
           (seqc (w_pubkey api) (seqc (w_pubkey api) (seqc (w_script api) (seqc (u64 api) (seqc (u64 api)
           (seqc (vecc api (funding_input_codec api)) (seqc (w_script api) (seqc (u64 api) (seqc (u64 api)
           (seqc (u64 api) (seqc (u32 api) (seqc (u32 api) (u32 api)))))))))))))))))))))))"

definition accept_channel_codec :: "wire_api \<Rightarrow> accept_channel codec" where
  "accept_channel_codec api =
     structc (\<lambda>(a, b, c, d, e, f, g, h, i, j, k, l, n, o', p, q).
         \<lparr>ach_temporary_channel_id = a, ach_accept_collateral = b, ach_funding_pubkey = c,
          ach_revocation_basepoint = d, ach_publish_basepoint = e, ach_own_basepoint = f,
          ach_first_per_update_point = g, ach_payout_spk = h, ach_payout_serial_id = i, ach_funding_inputs = j,
          ach_change_spk = k, ach_change_serial_id = l, ach_cet_adaptor_signatures = n,
          ach_buffer_adaptor_signature = o', ach_refund_signature = p, ach_negotiation_fields = q\<rparr>)
       (\<lambda>m. (ach_temporary_channel_id m, ach_accept_collateral m, ach_funding_pubkey m,
              ach_revocation_basepoint m, ach_publish_basepoint m, ach_own_basepoint m,
              ach_first_per_update_point m, ach_payout_spk m, ach_payout_serial_id m, ach_funding_inputs m,
              ach_change_spk m, ach_change_serial_id m, ach_cet_adaptor_signatures m,
              ach_buffer_adaptor_signature m, ach_refund_signature m, ach_negotiation_fields m))
       (typed api ACCEPT_CHANNEL_TYPE
         (seqc (w_array32 api) (seqc (u64 api) (seqc (w_pubkey api) (seqc (w_pubkey api) (seqc (w_pubkey api)
           (seqc (w_pubkey api) (seqc (w_pubkey api) (seqc (w_script api) (seqc (u64 api)
           (seqc (vecc api (funding_input_codec api)) (seqc (w_script api) (seqc (u64 api)
           (seqc (cet_adaptor_signatures_codec api) (seqc (w_adaptor api) (seqc (w_ecdsa api)
           (optionc api (negotiation_codec api))))))))))))))))))"

definition sign_channel_codec :: "wire_api \<Rightarrow> sign_channel codec" where
  "sign_channel_codec api =
     structc (\<lambda>(a, b, c, d, e).
         \<lparr>sch_channel_id = a, sch_cet_adaptor_signatures = b, sch_buffer_adaptor_signature = c,
          sch_refund_signature = d, sch_funding_signatures = e\<rparr>)
       (\<lambda>m. (sch_channel_id m, sch_cet_adaptor_signatures m, sch_buffer_adaptor_signature m,
              sch_refund_signature m, sch_funding_signatures m))
       (typed api SIGN_CHANNEL_TYPE
         (seqc (w_array32 api) (seqc (cet_adaptor_signatures_codec api) (seqc (w_adaptor api)
           (seqc (w_ecdsa api) (funding_signatures_codec api))))))"

definition settle_offer_codec :: "wire_api \<Rightarrow> settle_offer codec" where
  "settle_offer_codec api =
     structc (\<lambda>(a, b, c).
         \<lparr>sto_channel_id = a, sto_counter_payout = b, sto_next_per_update_point = c\<rparr>)
       (\<lambda>m. (sto_channel_id m, sto_counter_payout m, sto_next_per_update_point m))
       (typed api SETTLE_CHANNEL_OFFER_TYPE
         (seqc (w_array32 api) (seqc (u64 api) (w_pubkey api))))"

definition settle_accept_codec :: "wire_api \<Rightarrow> settle_accept codec" where
  "settle_accept_codec api =
     structc (\<lambda>(a, b, c).
         \<lparr>sta_channel_id = a, sta_next_per_update_point = b, sta_settle_adaptor_signature = c\<rparr>)
       (\<lambda>m. (sta_channel_id m, sta_next_per_update_point m, sta_settle_adaptor_signature m))
       (typed api SETTLE_CHANNEL_ACCEPT_TYPE
         (seqc (w_array32 api) (seqc (w_pubkey api) (w_adaptor api))))"

definition settle_confirm_codec :: "wire_api \<Rightarrow> settle_confirm codec" where
  "settle_confirm_codec api =
     structc (\<lambda>(a, b, c).
         \<lparr>stc_channel_id = a, stc_prev_per_update_secret = b, stc_settle_adaptor_signature = c\<rparr>)
       (\<lambda>m. (stc_channel_id m, stc_prev_per_update_secret m, stc_settle_adaptor_signature m))
       (typed api SETTLE_CHANNEL_CONFIRM_TYPE
         (seqc (w_array32 api) (seqc (w_seckey api) (w_adaptor api))))"

definition settle_finalize_codec :: "wire_api \<Rightarrow> settle_finalize codec" where
  "settle_finalize_codec api =
     structc (\<lambda>(a, b).
         \<lparr>stf_channel_id = a, stf_prev_per_update_secret = b\<rparr>)
       (\<lambda>m. (stf_channel_id m, stf_prev_per_update_secret m))
       (typed api SETTLE_CHANNEL_FINALIZE_TYPE
         (seqc (w_array32 api) (w_seckey api)))"

definition renew_offer_codec :: "wire_api \<Rightarrow> renew_offer codec" where
  "renew_offer_codec api =
     structc (\<lambda>(a, b, c, d, e, f, g, h).
         \<lparr>rno_channel_id = a, rno_temporary_contract_id = b, rno_counter_payout = c,
          rno_next_per_update_point = d, rno_contract_info = e, rno_cet_locktime = f, rno_refund_locktime = g,
          rno_cet_nsequence = h\<rparr>)
       (\<lambda>m. (rno_channel_id m, rno_temporary_contract_id m, rno_counter_payout m, rno_next_per_update_point m,
              rno_contract_info m, rno_cet_locktime m, rno_refund_locktime m, rno_cet_nsequence m))
       (typed api RENEW_CHANNEL_OFFER_TYPE
         (seqc (w_array32 api) (seqc (w_array32 api) (seqc (u64 api) (seqc (w_pubkey api)
           (seqc (contract_info_codec api) (seqc (u32 api) (seqc (u32 api) (u32 api)))))))))"

definition renew_accept_codec :: "wire_api \<Rightarrow> renew_accept codec" where
  "renew_accept_codec api =
     structc (\<lambda>(a, b, c, d).
         \<lparr>rna_channel_id = a, rna_next_per_update_point = b, rna_cet_adaptor_signatures = c,
          rna_refund_signature = d\<rparr>)
       (\<lambda>m. (rna_channel_id m, rna_next_per_update_point m, rna_cet_adaptor_signatures m,
              rna_refund_signature m))
       (typed api RENEW_CHANNEL_ACCEPT_TYPE
         (seqc (w_array32 api) (seqc (w_pubkey api) (seqc (cet_adaptor_signatures_codec api) (w_ecdsa api)))))"

definition renew_confirm_codec :: "wire_api \<Rightarrow> renew_confirm codec" where
  "renew_confirm_codec api =
     structc (\<lambda>(a, b, c, d).
         \<lparr>rnc_channel_id = a, rnc_buffer_adaptor_signature = b, rnc_cet_adaptor_signatures = c,
          rnc_refund_signature = d\<rparr>)
       (\<lambda>m. (rnc_channel_id m, rnc_buffer_adaptor_signature m, rnc_cet_adaptor_signatures m,
              rnc_refund_signature m))
       (typed api RENEW_CHANNEL_CONFIRM_TYPE
         (seqc (w_array32 api) (seqc (w_adaptor api) (seqc (cet_adaptor_signatures_codec api) (w_ecdsa api)))))"

definition renew_finalize_codec :: "wire_api \<Rightarrow> renew_finalize codec" where
  "renew_finalize_codec api =
     structc (\<lambda>(a, b, c).
         \<lparr>rnf_channel_id = a, rnf_per_update_secret = b, rnf_buffer_adaptor_signature = c\<rparr>)
       (\<lambda>m. (rnf_channel_id m, rnf_per_update_secret m, rnf_buffer_adaptor_signature m))
       (typed api RENEW_CHANNEL_FINALIZE_TYPE
         (seqc (w_array32 api) (seqc (w_seckey api) (w_adaptor api))))"

definition renew_revoke_codec :: "wire_api \<Rightarrow> renew_revoke codec" where
  "renew_revoke_codec api =
     structc (\<lambda>(a, b).
         \<lparr>rnr_channel_id = a, rnr_per_update_secret = b\<rparr>)
       (\<lambda>m. (rnr_channel_id m, rnr_per_update_secret m))
       (typed api RENEW_CHANNEL_REVOKE_TYPE
         (seqc (w_array32 api) (w_seckey api)))"

definition collaborative_close_offer_codec :: "wire_api \<Rightarrow> collaborative_close_offer codec" where
  "collaborative_close_offer_codec api =
     structc (\<lambda>(a, b, c).
         \<lparr>cco_channel_id = a, cco_counter_payout = b, cco_close_signature = c\<rparr>)
       (\<lambda>m. (cco_channel_id m, cco_counter_payout m, cco_close_signature m))
       (typed api COLLABORATIVE_CLOSE_OFFER_TYPE
         (seqc (w_array32 api) (seqc (u64 api) (w_ecdsa api))))"

definition reject_codec :: "wire_api \<Rightarrow> reject codec" where
  "reject_codec api =
     structc (\<lambda>a.
         \<lparr>rej_channel_id = a\<rparr>)
       (\<lambda>m. rej_channel_id m)
       (typed api REJECT
         (w_array32 api))"

section \<open>Messages that survive serialization\<close>

definition valid_offer_channel :: "wire_api \<Rightarrow> offer_channel \<Rightarrow> bool" where
  "valid_offer_channel api m \<longleftrightarrow>
     och_protocol_version m < 2 ^ 32 \<and> och_contract_flags m < 2 ^ 8 \<and>
     valid_id (och_chain_hash m) \<and> valid_id (och_temporary_contract_id m) \<and>
     valid_id (och_temporary_channel_id m) \<and> valid_contract_info api (och_contract_info m) \<and>
     keeps (w_pubkey api) (och_funding_pubkey m) \<and>
     keeps (w_pubkey api) (och_revocation_basepoint m) \<and>
     keeps (w_pubkey api) (och_publish_basepoint m) \<and> keeps (w_pubkey api) (och_own_basepoint m) \<and>
     keeps (w_pubkey api) (och_first_per_update_point m) \<and> keeps (w_script api) (och_payout_spk m) \<and>
     och_payout_serial_id m < 2 ^ 64 \<and> och_offer_collateral m < 2 ^ 64 \<and>
     valid_list (valid_funding_input api) (och_funding_inputs m) \<and>
     keeps (w_script api) (och_change_spk m) \<and> och_change_serial_id m < 2 ^ 64 \<and>
     och_fund_output_serial_id m < 2 ^ 64 \<and> och_fee_rate_per_vb m < 2 ^ 64 \<and>
     och_cet_locktime m < 2 ^ 32 \<and> och_refund_locktime m < 2 ^ 32 \<and> och_cet_nsequence m < 2 ^ 32"

definition valid_accept_channel :: "wire_api \<Rightarrow> accept_channel \<Rightarrow> bool" where
  "valid_accept_channel api m \<longleftrightarrow>
     valid_id (ach_temporary_channel_id m) \<and> ach_accept_collateral m < 2 ^ 64 \<and>
     keeps (w_pubkey api) (ach_funding_pubkey m) \<and>
     keeps (w_pubkey api) (ach_revocation_basepoint m) \<and>
     keeps (w_pubkey api) (ach_publish_basepoint m) \<and> keeps (w_pubkey api) (ach_own_basepoint m) \<and>
     keeps (w_pubkey api) (ach_first_per_update_point m) \<and> keeps (w_script api) (ach_payout_spk m) \<and>
     ach_payout_serial_id m < 2 ^ 64 \<and> valid_list (valid_funding_input api) (ach_funding_inputs m) \<and>
     keeps (w_script api) (ach_change_spk m) \<and> ach_change_serial_id m < 2 ^ 64 \<and>
     valid_list (keeps (w_adaptor api)) (ach_cet_adaptor_signatures m) \<and>
     keeps (w_adaptor api) (ach_buffer_adaptor_signature m) \<and>
     keeps (w_ecdsa api) (ach_refund_signature m) \<and>
     (\<forall>n\<in>set_option (ach_negotiation_fields m). valid_negotiation n)"

definition valid_sign_channel :: "wire_api \<Rightarrow> sign_channel \<Rightarrow> bool" where
  "valid_sign_channel api m \<longleftrightarrow>
     valid_id (sch_channel_id m) \<and>
     valid_list (keeps (w_adaptor api)) (sch_cet_adaptor_signatures m) \<and>
     keeps (w_adaptor api) (sch_buffer_adaptor_signature m) \<and>
     keeps (w_ecdsa api) (sch_refund_signature m) \<and> valid_funding_signatures (sch_funding_signatures m)"

definition valid_settle_offer :: "wire_api \<Rightarrow> settle_offer \<Rightarrow> bool" where
  "valid_settle_offer api m \<longleftrightarrow>
     valid_id (sto_channel_id m) \<and> sto_counter_payout m < 2 ^ 64 \<and>
     keeps (w_pubkey api) (sto_next_per_update_point m)"

definition valid_settle_accept :: "wire_api \<Rightarrow> settle_accept \<Rightarrow> bool" where
  "valid_settle_accept api m \<longleftrightarrow>
     valid_id (sta_channel_id m) \<and> keeps (w_pubkey api) (sta_next_per_update_point m) \<and>
     keeps (w_adaptor api) (sta_settle_adaptor_signature m)"

definition valid_settle_confirm :: "wire_api \<Rightarrow> settle_confirm \<Rightarrow> bool" where
  "valid_settle_confirm api m \<longleftrightarrow>
     valid_id (stc_channel_id m) \<and> keeps (w_seckey api) (stc_prev_per_update_secret m) \<and>
     keeps (w_adaptor api) (stc_settle_adaptor_signature m)"

definition valid_settle_finalize :: "wire_api \<Rightarrow> settle_finalize \<Rightarrow> bool" where
  "valid_settle_finalize api m \<longleftrightarrow>
     valid_id (stf_channel_id m) \<and> keeps (w_seckey api) (stf_prev_per_update_secret m)"

definition valid_renew_offer :: "wire_api \<Rightarrow> renew_offer \<Rightarrow> bool" where
  "valid_renew_offer api m \<longleftrightarrow>
     valid_id (rno_channel_id m) \<and> valid_id (rno_temporary_contract_id m) \<and>
     rno_counter_payout m < 2 ^ 64 \<and> keeps (w_pubkey api) (rno_next_per_update_point m) \<and>
     valid_contract_info api (rno_contract_info m) \<and> rno_cet_locktime m < 2 ^ 32 \<and>
     rno_refund_locktime m < 2 ^ 32 \<and> rno_cet_nsequence m < 2 ^ 32"

definition valid_renew_accept :: "wire_api \<Rightarrow> renew_accept \<Rightarrow> bool" where
  "valid_renew_accept api m \<longleftrightarrow>
     valid_id (rna_channel_id m) \<and> keeps (w_pubkey api) (rna_next_per_update_point m) \<and>
     valid_list (keeps (w_adaptor api)) (rna_cet_adaptor_signatures m) \<and>
     keeps (w_ecdsa api) (rna_refund_signature m)"

definition valid_renew_confirm :: "wire_api \<Rightarrow> renew_confirm \<Rightarrow> bool" where
  "valid_renew_confirm api m \<longleftrightarrow>
     valid_id (rnc_channel_id m) \<and> keeps (w_adaptor api) (rnc_buffer_adaptor_signature m) \<and>
     valid_list (keeps (w_adaptor api)) (rnc_cet_adaptor_signatures m) \<and>
     keeps (w_ecdsa api) (rnc_refund_signature m)"

definition valid_renew_finalize :: "wire_api \<Rightarrow> renew_finalize \<Rightarrow> bool" where
  "valid_renew_finalize api m \<longleftrightarrow>
     valid_id (rnf_channel_id m) \<and> keeps (w_seckey api) (rnf_per_update_secret m) \<and>
     keeps (w_adaptor api) (rnf_buffer_adaptor_signature m)"

definition valid_renew_revoke :: "wire_api \<Rightarrow> renew_revoke \<Rightarrow> bool" where
  "valid_renew_revoke api m \<longleftrightarrow>
     valid_id (rnr_channel_id m) \<and> keeps (w_seckey api) (rnr_per_update_secret m)"

definition valid_collaborative_close_offer :: "wire_api \<Rightarrow> collaborative_close_offer \<Rightarrow> bool" where
  "valid_collaborative_close_offer api m \<longleftrightarrow>
     valid_id (cco_channel_id m) \<and> cco_counter_payout m < 2 ^ 64 \<and>
     keeps (w_ecdsa api) (cco_close_signature m)"

definition valid_reject :: "wire_api \<Rightarrow> reject \<Rightarrow> bool" where
  "valid_reject api m \<longleftrightarrow>
     valid_id (rej_channel_id m)"

lemmas field_codecs_ok = typed_ok seqc_ok wire_okD(1,3,4) array32_ok contract_info_codec_ok vecc_valid funding_input_codec_ok
  adaptor_signatures_codec_ok funding_signatures_codec_ok optionc_ok negotiation_codec_ok codec_ok_keeps

lemma offer_channel_codec_ok: "wire_ok api \<Longrightarrow> codec_ok (offer_channel_codec api) (valid_offer_channel api)"
  unfolding offer_channel_codec_def
  by (rule codec_ok_mono, rule structc_ok, (rule field_codecs_ok | assumption | simp add: OFFER_CHANNEL_TYPE_def)+)
    (simp add: valid_offer_channel_def)

lemma accept_channel_codec_ok: "wire_ok api \<Longrightarrow> codec_ok (accept_channel_codec api) (valid_accept_channel api)"
  unfolding accept_channel_codec_def
  by (rule codec_ok_mono, rule structc_ok, (rule field_codecs_ok | assumption | simp add: ACCEPT_CHANNEL_TYPE_def)+)
    (simp add: valid_accept_channel_def)

lemma sign_channel_codec_ok: "wire_ok api \<Longrightarrow> codec_ok (sign_channel_codec api) (valid_sign_channel api)"
  unfolding sign_channel_codec_def
  by (rule codec_ok_mono, rule structc_ok, (rule field_codecs_ok | assumption | simp add: SIGN_CHANNEL_TYPE_def)+)
    (simp add: valid_sign_channel_def)

lemma settle_offer_codec_ok: "wire_ok api \<Longrightarrow> codec_ok (settle_offer_codec api) (valid_settle_offer api)"
  unfolding settle_offer_codec_def
  by (rule codec_ok_mono, rule structc_ok, (rule field_codecs_ok | assumption | simp add: SETTLE_CHANNEL_OFFER_TYPE_def)+)
    (simp add: valid_settle_offer_def)

lemma settle_accept_codec_ok: "wire_ok api \<Longrightarrow> codec_ok (settle_accept_codec api) (valid_settle_accept api)"
  unfolding settle_accept_codec_def
  by (rule codec_ok_mono, rule structc_ok, (rule field_codecs_ok | assumption | simp add: SETTLE_CHANNEL_ACCEPT_TYPE_def)+)
    (simp add: valid_settle_accept_def)

lemma settle_confirm_codec_ok: "wire_ok api \<Longrightarrow> codec_ok (settle_confirm_codec api) (valid_settle_confirm api)"
  unfolding settle_confirm_codec_def
  by (rule codec_ok_mono, rule structc_ok, (rule field_codecs_ok | assumption | simp add: SETTLE_CHANNEL_CONFIRM_TYPE_def)+)
    (simp add: valid_settle_confirm_def)

lemma settle_finalize_codec_ok: "wire_ok api \<Longrightarrow> codec_ok (settle_finalize_codec api) (valid_settle_finalize api)"
  unfolding settle_finalize_codec_def
  by (rule codec_ok_mono, rule structc_ok, (rule field_codecs_ok | assumption | simp add: SETTLE_CHANNEL_FINALIZE_TYPE_def)+)
    (simp add: valid_settle_finalize_def)

lemma renew_offer_codec_ok: "wire_ok api \<Longrightarrow> codec_ok (renew_offer_codec api) (valid_renew_offer api)"
  unfolding renew_offer_codec_def
  by (rule codec_ok_mono, rule structc_ok, (rule field_codecs_ok | assumption | simp add: RENEW_CHANNEL_OFFER_TYPE_def)+)
    (simp add: valid_renew_offer_def)

lemma renew_accept_codec_ok: "wire_ok api \<Longrightarrow> codec_ok (renew_accept_codec api) (valid_renew_accept api)"
  unfolding renew_accept_codec_def
  by (rule codec_ok_mono, rule structc_ok, (rule field_codecs_ok | assumption | simp add: RENEW_CHANNEL_ACCEPT_TYPE_def)+)
    (simp add: valid_renew_accept_def)

lemma renew_confirm_codec_ok: "wire_ok api \<Longrightarrow> codec_ok (renew_confirm_codec api) (valid_renew_confirm api)"
  unfolding renew_confirm_codec_def
  by (rule codec_ok_mono, rule structc_ok, (rule field_codecs_ok | assumption | simp add: RENEW_CHANNEL_CONFIRM_TYPE_def)+)
    (simp add: valid_renew_confirm_def)

lemma renew_finalize_codec_ok: "wire_ok api \<Longrightarrow> codec_ok (renew_finalize_codec api) (valid_renew_finalize api)"
  unfolding renew_finalize_codec_def
  by (rule codec_ok_mono, rule structc_ok, (rule field_codecs_ok | assumption | simp add: RENEW_CHANNEL_FINALIZE_TYPE_def)+)
    (simp add: valid_renew_finalize_def)

lemma renew_revoke_codec_ok: "wire_ok api \<Longrightarrow> codec_ok (renew_revoke_codec api) (valid_renew_revoke api)"
  unfolding renew_revoke_codec_def
  by (rule codec_ok_mono, rule structc_ok, (rule field_codecs_ok | assumption | simp add: RENEW_CHANNEL_REVOKE_TYPE_def)+)
    (simp add: valid_renew_revoke_def)

lemma collaborative_close_offer_codec_ok: "wire_ok api \<Longrightarrow> codec_ok (collaborative_close_offer_codec api) (valid_collaborative_close_offer api)"
  unfolding collaborative_close_offer_codec_def
  by (rule codec_ok_mono, rule structc_ok, (rule field_codecs_ok | assumption | simp add: COLLABORATIVE_CLOSE_OFFER_TYPE_def)+)
    (simp add: valid_collaborative_close_offer_def)

lemma reject_codec_ok: "wire_ok api \<Longrightarrow> codec_ok (reject_codec api) (valid_reject api)"
  unfolding reject_codec_def
  by (rule codec_ok_mono, rule structc_ok, (rule field_codecs_ok | assumption | simp add: REJECT_def)+)
    (simp add: valid_reject_def)

end
