(* ===== verification/Message_Handler.thy ===== *)
theory Message_Handler
  imports Channel_Messages
begin

text \<open>
  \<open>dlc-messages/src/message_handler.rs\<close> and \<open>segmentation/\<close>: sending and receiving messages, cut
  into segments when they are too long for one message of the transport.  The mutexes of the handler
  are not modelled: each operation runs alone.  Assertions of debug builds are kept.  The main results:
  what is sent is received, and a handler keeps a bounded amount of data for a peer.
\<close>

section \<open>Messages by their type\<close>

datatype message =
    OfferM offer_dlc
  | AcceptM accept_dlc
  | SignM sign_dlc
  | CloseM close_dlc
  | OfferChannelM offer_channel
  | AcceptChannelM accept_channel
  | SignChannelM sign_channel
  | SettleOfferM settle_offer
  | SettleAcceptM settle_accept
  | SettleConfirmM settle_confirm
  | SettleFinalizeM settle_finalize
  | RenewOfferM renew_offer
  | RenewAcceptM renew_accept
  | RenewConfirmM renew_confirm
  | RenewFinalizeM renew_finalize
  | RenewRevokeM renew_revoke
  | CollaborativeCloseOfferM collaborative_close_offer
  | RejectM reject

fun message_type_id :: "message \<Rightarrow> nat" where
  "message_type_id (OfferM _) = OFFER_TYPE"
| "message_type_id (AcceptM _) = ACCEPT_TYPE"
| "message_type_id (SignM _) = SIGN_TYPE"
| "message_type_id (CloseM _) = CLOSE_TYPE"
| "message_type_id (OfferChannelM _) = OFFER_CHANNEL_TYPE"
| "message_type_id (AcceptChannelM _) = ACCEPT_CHANNEL_TYPE"
| "message_type_id (SignChannelM _) = SIGN_CHANNEL_TYPE"
| "message_type_id (SettleOfferM _) = SETTLE_CHANNEL_OFFER_TYPE"
| "message_type_id (SettleAcceptM _) = SETTLE_CHANNEL_ACCEPT_TYPE"
| "message_type_id (SettleConfirmM _) = SETTLE_CHANNEL_CONFIRM_TYPE"
| "message_type_id (SettleFinalizeM _) = SETTLE_CHANNEL_FINALIZE_TYPE"
| "message_type_id (RenewOfferM _) = RENEW_CHANNEL_OFFER_TYPE"
| "message_type_id (RenewAcceptM _) = RENEW_CHANNEL_ACCEPT_TYPE"
| "message_type_id (RenewConfirmM _) = RENEW_CHANNEL_CONFIRM_TYPE"
| "message_type_id (RenewFinalizeM _) = RENEW_CHANNEL_FINALIZE_TYPE"
| "message_type_id (RenewRevokeM _) = RENEW_CHANNEL_REVOKE_TYPE"
| "message_type_id (CollaborativeCloseOfferM _) = COLLABORATIVE_CLOSE_OFFER_TYPE"
| "message_type_id (RejectM _) = REJECT"

fun put_message :: "wire_api \<Rightarrow> message \<Rightarrow> bytes" where
  "put_message api (OfferM m) = put (offer_codec api) m"
| "put_message api (AcceptM m) = put (accept_codec api) m"
| "put_message api (SignM m) = put (sign_codec api) m"
| "put_message api (CloseM m) = put (close_codec api) m"
| "put_message api (OfferChannelM m) = put (offer_channel_codec api) m"
| "put_message api (AcceptChannelM m) = put (accept_channel_codec api) m"
| "put_message api (SignChannelM m) = put (sign_channel_codec api) m"
| "put_message api (SettleOfferM m) = put (settle_offer_codec api) m"
| "put_message api (SettleAcceptM m) = put (settle_accept_codec api) m"
| "put_message api (SettleConfirmM m) = put (settle_confirm_codec api) m"
| "put_message api (SettleFinalizeM m) = put (settle_finalize_codec api) m"
| "put_message api (RenewOfferM m) = put (renew_offer_codec api) m"
| "put_message api (RenewAcceptM m) = put (renew_accept_codec api) m"
| "put_message api (RenewConfirmM m) = put (renew_confirm_codec api) m"
| "put_message api (RenewFinalizeM m) = put (renew_finalize_codec api) m"
| "put_message api (RenewRevokeM m) = put (renew_revoke_codec api) m"
| "put_message api (CollaborativeCloseOfferM m) = put (collaborative_close_offer_codec api) m"
| "put_message api (RejectM m) = put (reject_codec api) m"

record segment_start =
  ss_nb_segments :: nat
  ss_data :: bytes

text \<open>A \<open>SegmentChunk\<close> is its data.\<close>

datatype wire_message = MessageW message | SegmentStartW segment_start | SegmentChunkW bytes

section \<open>Segments\<close>

definition SEGMENT_START_TYPE :: nat where "SEGMENT_START_TYPE = 42900"
definition SEGMENT_CHUNK_TYPE :: nat where "SEGMENT_CHUNK_TYPE = 42902"
definition MAX_DATA_SIZE :: nat where "MAX_DATA_SIZE = 65535"
definition MAX_START_DATA_SIZE :: nat where "MAX_START_DATA_SIZE = 65526"
definition MAX_CHUNK_SIZE :: nat where "MAX_CHUNK_SIZE = 65528"
definition MAX_SEGMENTS :: nat where "MAX_SEGMENTS = 1000"

definition segment_start_codec :: "wire_api \<Rightarrow> segment_start codec" where
  "segment_start_codec api =
     structc (\<lambda>(a, b). \<lparr>ss_nb_segments = a, ss_data = b\<rparr>) (\<lambda>s. (ss_nb_segments s, ss_data s))
       (seqc (u16 api) (w_bytes api))"

text \<open>The loop that drains the data into chunks, a given number of times.\<close>

fun take_chunks :: "nat \<Rightarrow> bytes \<Rightarrow> bytes list" where
  "take_chunks 0 data = []"
| "take_chunks (Suc n) data =
     (let to_take = min (length data) MAX_CHUNK_SIZE in take to_take data # take_chunks n (drop to_take data))"

definition get_segments :: "wire_api \<Rightarrow> bytes \<Rightarrow> nat \<Rightarrow> (segment_start \<times> bytes list, 'e) res" where
  "get_segments api data msg_type =
     and_then (assert_that (MAX_DATA_SIZE < length data)) (\<lambda>_.
     and_then (usub (length data) MAX_START_DATA_SIZE) (\<lambda>d.
     and_then (uadd d 2) (\<lambda>len_minus_start.
     let nb = (len_minus_start div MAX_CHUNK_SIZE + 1) mod 2 ^ 16 in
     and_then
       (if len_minus_start mod MAX_CHUNK_SIZE \<noteq> 0 then if nb + 1 < 2 ^ 16 then Ok (nb + 1) else Panic else Ok nb) (\<lambda>nb_segments.
     and_then (assert_that (1 < nb_segments)) (\<lambda>_.
     let start_data = put (u16 api) msg_type @ take (MAX_START_DATA_SIZE - 2) data in
     and_then (assert_that (MAX_START_DATA_SIZE = length start_data)) (\<lambda>_.
       Ok (\<lparr>ss_nb_segments = nb_segments, ss_data = start_data\<rparr>,
           take_chunks (nb_segments - 1) (drop (MAX_START_DATA_SIZE - 2) data))))))))"

datatype segment_error = SegmentInvalidState | SegmentInvalidParameter

record segment_reader =
  cur_data :: bytes
  remaining_segments :: nat

definition reader_new :: segment_reader where
  "reader_new = \<lparr>cur_data = [], remaining_segments = 0\<rparr>"

definition reader_reset :: "segment_reader \<Rightarrow> segment_reader" where
  "reader_reset r = r\<lparr>cur_data := [], remaining_segments := 0\<rparr>"

definition expecting_chunk :: "segment_reader \<Rightarrow> bool" where
  "expecting_chunk r \<longleftrightarrow> remaining_segments r \<noteq> 0"

definition process_segment_start :: "segment_reader \<Rightarrow> segment_start \<Rightarrow> (segment_reader, segment_error) res" where
  "process_segment_start r s =
     (if cur_data r \<noteq> [] then Err SegmentInvalidState
      else if ss_nb_segments s < 2 \<or> MAX_SEGMENTS < ss_nb_segments s then Err SegmentInvalidParameter
      else if length (ss_data s) < MAX_START_DATA_SIZE then Err SegmentInvalidParameter
      else Ok (r\<lparr>remaining_segments := ss_nb_segments s - 1, cur_data := ss_data s\<rparr>))"

definition process_segment_chunk ::
  "segment_reader \<Rightarrow> bytes \<Rightarrow> (segment_reader \<times> bytes option, segment_error) res" where
  "process_segment_chunk r data =
     (if cur_data r = [] then Err SegmentInvalidState
      else if 1 < remaining_segments r \<and> length data \<noteq> MAX_CHUNK_SIZE then Err SegmentInvalidParameter
      else
        and_then (usub (remaining_segments r) 1) (\<lambda>n.
          if n = 0 then Ok (r\<lparr>cur_data := [], remaining_segments := n\<rparr>, Some (cur_data r @ data))
          else Ok (r\<lparr>cur_data := cur_data r @ data, remaining_segments := n\<rparr>, None)))"

section \<open>The message handler\<close>

record message_handler =
  msg_events :: "(pubkey \<times> wire_message) list"
  msg_received :: "(pubkey \<times> message) list"
  segment_readers :: "pubkey \<Rightarrow> segment_reader option"

definition handler_new :: message_handler where
  "handler_new = \<lparr>msg_events = [], msg_received = [], segment_readers = (\<lambda>_. None)\<rparr>"

definition get_and_clear_received_messages :: "message_handler \<Rightarrow> (pubkey \<times> message) list \<times> message_handler" where
  "get_and_clear_received_messages h = (msg_received h, h\<lparr>msg_received := []\<rparr>)"

definition get_and_clear_pending_msg :: "message_handler \<Rightarrow> (pubkey \<times> wire_message) list \<times> message_handler" where
  "get_and_clear_pending_msg h = (msg_events h, h\<lparr>msg_events := []\<rparr>)"

definition has_pending_messages :: "message_handler \<Rightarrow> bool" where
  "has_pending_messages h \<longleftrightarrow> msg_events h \<noteq> []"

definition send_message :: "wire_api \<Rightarrow> pubkey \<Rightarrow> message \<Rightarrow> message_handler \<Rightarrow> (message_handler, 'e) res" where
  "send_message api node_id msg h =
     (if max_buf_size api < length (put_message api msg)
      then
        and_then (get_segments api (put_message api msg) (message_type_id msg)) (\<lambda>(seg_start, seg_chunks).
          Ok (h\<lparr>msg_events := msg_events h @ (node_id, SegmentStartW seg_start) #
                 map (\<lambda>c. (node_id, SegmentChunkW c)) seg_chunks\<rparr>))
      else Ok (h\<lparr>msg_events := msg_events h @ [(node_id, MessageW msg)]\<rparr>))"

definition read_as :: "'a codec \<Rightarrow> ('a \<Rightarrow> message) \<Rightarrow> bytes \<Rightarrow> (wire_message option, decode_error) res" where
  "read_as c f bs = and_then (get c bs) (\<lambda>(x, _). Ok (Some (MessageW (f x))))"

definition read_dlc_message :: "wire_api \<Rightarrow> nat \<Rightarrow> bytes \<Rightarrow> (wire_message option, decode_error) res" where
  "read_dlc_message api msg_type bs =
     (if msg_type = OFFER_TYPE then read_as (offer_codec api) OfferM bs
      else if msg_type = ACCEPT_TYPE then read_as (accept_codec api) AcceptM bs
      else if msg_type = SIGN_TYPE then read_as (sign_codec api) SignM bs
      else if msg_type = OFFER_CHANNEL_TYPE then read_as (offer_channel_codec api) OfferChannelM bs
      else if msg_type = ACCEPT_CHANNEL_TYPE then read_as (accept_channel_codec api) AcceptChannelM bs
      else if msg_type = SIGN_CHANNEL_TYPE then read_as (sign_channel_codec api) SignChannelM bs
      else if msg_type = SETTLE_CHANNEL_OFFER_TYPE then read_as (settle_offer_codec api) SettleOfferM bs
      else if msg_type = SETTLE_CHANNEL_ACCEPT_TYPE then read_as (settle_accept_codec api) SettleAcceptM bs
      else if msg_type = SETTLE_CHANNEL_CONFIRM_TYPE then read_as (settle_confirm_codec api) SettleConfirmM bs
      else if msg_type = SETTLE_CHANNEL_FINALIZE_TYPE then read_as (settle_finalize_codec api) SettleFinalizeM bs
      else if msg_type = RENEW_CHANNEL_OFFER_TYPE then read_as (renew_offer_codec api) RenewOfferM bs
      else if msg_type = RENEW_CHANNEL_ACCEPT_TYPE then read_as (renew_accept_codec api) RenewAcceptM bs
      else if msg_type = RENEW_CHANNEL_CONFIRM_TYPE then read_as (renew_confirm_codec api) RenewConfirmM bs
      else if msg_type = RENEW_CHANNEL_FINALIZE_TYPE then read_as (renew_finalize_codec api) RenewFinalizeM bs
      else if msg_type = COLLABORATIVE_CLOSE_OFFER_TYPE
      then read_as (collaborative_close_offer_codec api) CollaborativeCloseOfferM bs
      else if msg_type = REJECT then read_as (reject_codec api) RejectM bs
      else Ok None)"

definition handler_read :: "wire_api \<Rightarrow> nat \<Rightarrow> bytes \<Rightarrow> (wire_message option, decode_error) res" where
  "handler_read api msg_type bs =
     (if msg_type = SEGMENT_START_TYPE
      then and_then (get (segment_start_codec api) bs) (\<lambda>(s, _). Ok (Some (SegmentStartW s)))
      else if msg_type = SEGMENT_CHUNK_TYPE
      then and_then (get (w_bytes api) bs) (\<lambda>(c, _). Ok (Some (SegmentChunkW c)))
      else read_dlc_message api msg_type bs)"

text \<open>The error of the transport: the peer is disconnected.\<close>

datatype lightning_error = DisconnectPeer

definition to_ln_error :: "('a, 'e) res \<Rightarrow> ('a, lightning_error) res" where
  "to_ln_error r = (case r of Ok x \<Rightarrow> Ok x | Err _ \<Rightarrow> Err DisconnectPeer | Panic \<Rightarrow> Panic)"

text \<open>A message put together from its segments.\<close>

definition reassembled :: "wire_api \<Rightarrow> bytes \<Rightarrow> (message, lightning_error) res" where
  "reassembled api msg =
     and_then (to_ln_error (get (u16 api) msg)) (\<lambda>(message_type, rest).
     and_then (to_ln_error (handler_read api message_type rest)) (\<lambda>r.
     and_then (unwrap r) (\<lambda>w.
       case w of MessageW m \<Rightarrow> Ok m | _ \<Rightarrow> Err DisconnectPeer)))"

definition set_reader :: "pubkey \<Rightarrow> segment_reader \<Rightarrow> message_handler \<Rightarrow> message_handler" where
  "set_reader org r h = h\<lparr>segment_readers := (segment_readers h)(org \<mapsto> r)\<rparr>"

definition push_received :: "pubkey \<Rightarrow> message \<Rightarrow> message_handler \<Rightarrow> message_handler" where
  "push_received org m h = h\<lparr>msg_received := msg_received h @ [(org, m)]\<rparr>"

text \<open>The second \<open>match\<close>, of a message that is not an expected chunk.\<close>

definition handle_other ::
  "wire_message \<Rightarrow> pubkey \<Rightarrow> segment_reader \<Rightarrow> message_handler \<Rightarrow> message_handler \<times> (unit, lightning_error) res" where
  "handle_other msg org r h =
     (case msg of
        MessageW m \<Rightarrow> (push_received org m (set_reader org r h), Ok ())
      | SegmentStartW s \<Rightarrow>
          (case process_segment_start r s of
             Ok r' \<Rightarrow> (set_reader org r' h, Ok ())
           | Err _ \<Rightarrow> (set_reader org r h, Err DisconnectPeer)
           | Panic \<Rightarrow> (set_reader org r h, Panic))
      | SegmentChunkW _ \<Rightarrow> (set_reader org r h, Err DisconnectPeer))"

definition handle_chunk ::
  "wire_api \<Rightarrow> bytes \<Rightarrow> pubkey \<Rightarrow> segment_reader \<Rightarrow> message_handler \<Rightarrow> message_handler \<times> (unit, lightning_error) res" where
  "handle_chunk api data org r h =
     (case process_segment_chunk r data of
        Ok (r', None) \<Rightarrow> (set_reader org r' h, Ok ())
      | Ok (r', Some msg) \<Rightarrow>
          (case reassembled api msg of
             Ok m \<Rightarrow> (push_received org m (set_reader org r' h), Ok ())
           | Err e \<Rightarrow> (set_reader org r' h, Err e)
           | Panic \<Rightarrow> (set_reader org r' h, Panic))
      | Err _ \<Rightarrow> (set_reader org r h, Err DisconnectPeer)
      | Panic \<Rightarrow> (set_reader org r h, Panic))"

definition handle_custom_message ::
  "wire_api \<Rightarrow> wire_message \<Rightarrow> pubkey \<Rightarrow> message_handler \<Rightarrow> message_handler \<times> (unit, lightning_error) res" where
  "handle_custom_message api msg org h =
     (let r = (case segment_readers h org of Some r \<Rightarrow> r | None \<Rightarrow> reader_new) in
      if expecting_chunk r
      then
        (case msg of
           SegmentChunkW data \<Rightarrow> handle_chunk api data org r h
         | _ \<Rightarrow> handle_other msg org (reader_reset r) h)
      else handle_other msg org r h)"

section \<open>Reading what was written\<close>

fun valid_message :: "wire_api \<Rightarrow> message \<Rightarrow> bool" where
  "valid_message api (OfferM m) \<longleftrightarrow> valid_offer api m \<and> 1 \<le> om_protocol_version m \<and> om_protocol_version m \<le> 10"
| "valid_message api (AcceptM m) \<longleftrightarrow> valid_accept api m"
| "valid_message api (SignM m) \<longleftrightarrow> valid_sign api m"
| "valid_message api (CloseM m) \<longleftrightarrow> valid_close api m"
| "valid_message api (OfferChannelM m) \<longleftrightarrow> valid_offer_channel api m"
| "valid_message api (AcceptChannelM m) \<longleftrightarrow> valid_accept_channel api m"
| "valid_message api (SignChannelM m) \<longleftrightarrow> valid_sign_channel api m"
| "valid_message api (SettleOfferM m) \<longleftrightarrow> valid_settle_offer api m"
| "valid_message api (SettleAcceptM m) \<longleftrightarrow> valid_settle_accept api m"
| "valid_message api (SettleConfirmM m) \<longleftrightarrow> valid_settle_confirm api m"
| "valid_message api (SettleFinalizeM m) \<longleftrightarrow> valid_settle_finalize api m"
| "valid_message api (RenewOfferM m) \<longleftrightarrow> valid_renew_offer api m"
| "valid_message api (RenewAcceptM m) \<longleftrightarrow> valid_renew_accept api m"
| "valid_message api (RenewConfirmM m) \<longleftrightarrow> valid_renew_confirm api m"
| "valid_message api (RenewFinalizeM m) \<longleftrightarrow> valid_renew_finalize api m"
| "valid_message api (RenewRevokeM m) \<longleftrightarrow> valid_renew_revoke api m"
| "valid_message api (CollaborativeCloseOfferM m) \<longleftrightarrow> valid_collaborative_close_offer api m"
| "valid_message api (RejectM m) \<longleftrightarrow> valid_reject api m"

text \<open>The messages that the reader has no case for.\<close>

fun unread :: "message \<Rightarrow> bool" where
  "unread (CloseM _) = True"
| "unread (RenewRevokeM _) = True"
| "unread _ = False"

lemmas type_defs = OFFER_TYPE_def ACCEPT_TYPE_def SIGN_TYPE_def CLOSE_TYPE_def OFFER_CHANNEL_TYPE_def ACCEPT_CHANNEL_TYPE_def
  SIGN_CHANNEL_TYPE_def SETTLE_CHANNEL_OFFER_TYPE_def SETTLE_CHANNEL_ACCEPT_TYPE_def SETTLE_CHANNEL_CONFIRM_TYPE_def
  SETTLE_CHANNEL_FINALIZE_TYPE_def RENEW_CHANNEL_OFFER_TYPE_def RENEW_CHANNEL_ACCEPT_TYPE_def RENEW_CHANNEL_CONFIRM_TYPE_def
  RENEW_CHANNEL_FINALIZE_TYPE_def RENEW_CHANNEL_REVOKE_TYPE_def COLLABORATIVE_CLOSE_OFFER_TYPE_def REJECT_def
  SEGMENT_START_TYPE_def SEGMENT_CHUNK_TYPE_def





lemma handler_read_unread: "unread m \<Longrightarrow> handler_read api (message_type_id m) bs = Ok None"
  by (cases m) (simp_all add: handler_read_def read_dlc_message_def type_defs)

lemma message_type_id_bound: "message_type_id m < 2 ^ 16"
  by (cases m) (simp_all add: type_defs)


lemma reassembled_unread:
  assumes "wire_ok api" "unread m"
  shows "reassembled api (put (u16 api) (message_type_id m) @ bs) = Panic"
  using codec_okD [OF wire_okD(2) [OF assms(1)] message_type_id_bound, of m bs] handler_read_unread [OF assms(2)]
  by (simp add: reassembled_def to_ln_error_def)

section \<open>Segments put together again\<close>

lemma take_chunks_concat: "concat (take_chunks n data) = take (n * MAX_CHUNK_SIZE) data"
  by (induction n data rule: take_chunks.induct) (simp_all add: Let_def take_add min_def)

lemma length_take_chunks [simp]: "length (take_chunks n data) = n"
  by (induction n data rule: take_chunks.induct) (simp_all add: Let_def)

lemma take_chunks_full:
  assumes "c \<in> set (butlast (take_chunks n data))" "(n - 1) * MAX_CHUNK_SIZE \<le> length data"
  shows "length c = MAX_CHUNK_SIZE"
  using assms
proof (induction n data rule: take_chunks.induct)
  case (2 n data)
  show ?case
  proof (cases n)
    case (Suc k)
    then have l: "MAX_CHUNK_SIZE \<le> length data" "(n - 1) * MAX_CHUNK_SIZE \<le> length (drop MAX_CHUNK_SIZE data)"
      using 2(3) by simp_all
    have "take_chunks n (drop MAX_CHUNK_SIZE data) \<noteq> []" "min (length data) MAX_CHUNK_SIZE = MAX_CHUNK_SIZE"
      using Suc l(1) by (simp_all add: Let_def min_def)
    then have "c = take MAX_CHUNK_SIZE data \<or> c \<in> set (butlast (take_chunks n (drop MAX_CHUNK_SIZE data)))"
      using 2(2) by (simp add: Let_def split: if_splits)
    moreover have "min (length data) MAX_CHUNK_SIZE = MAX_CHUNK_SIZE" using l(1) by simp
    ultimately show ?thesis using 2(1) [OF refl] l by auto
  qed (use 2(2) in \<open>simp add: Let_def\<close>)
qed simp

text \<open>The number of segments of a message: the start and the chunks.\<close>

definition nb_chunks :: "nat \<Rightarrow> nat" where
  "nb_chunks len = (len - (MAX_START_DATA_SIZE - 2) + (MAX_CHUNK_SIZE - 1)) div MAX_CHUNK_SIZE"

lemmas size_defs = MAX_DATA_SIZE_def MAX_START_DATA_SIZE_def MAX_CHUNK_SIZE_def MAX_SEGMENTS_def

lemma div_up: "(r + 65527) div 65528 = (if r mod 65528 \<noteq> 0 then r div 65528 + 1 else r div 65528)" for r :: nat
proof -
  define q m where "q = r div 65528" and "m = r mod 65528"
  have r: "r = q * 65528 + m" and m: "m < 65528" unfolding q_def m_def by (rule div_mult_mod_eq [symmetric]) simp
  have "(r + 65527) div 65528 = (if m \<noteq> 0 then q + 1 else q)"
    by (subst nat_div_eq_iff) (use m r in auto)
  then show ?thesis by (simp only: q_def m_def)
qed

lemma get_segments_ok:
  assumes "MAX_DATA_SIZE < length data" "nb_chunks (length data) < MAX_SEGMENTS" "length (put (u16 api) ty) = 2"
  shows "get_segments api data ty = (Ok (\<lparr>ss_nb_segments = nb_chunks (length data) + 1,
      ss_data = put (u16 api) ty @ take (MAX_START_DATA_SIZE - 2) data\<rparr>,
      take_chunks (nb_chunks (length data)) (drop (MAX_START_DATA_SIZE - 2) data)) :: (_, 'e) res)"
    and "1 \<le> nb_chunks (length data)"
    and "(nb_chunks (length data) - 1) * MAX_CHUNK_SIZE \<le> length data - (MAX_START_DATA_SIZE - 2)"
    and "length data - (MAX_START_DATA_SIZE - 2) \<le> nb_chunks (length data) * MAX_CHUNK_SIZE"
proof -
  define r where "r = length data - 65524"
  have l: "65535 < length data" using assms(1) by (simp add: size_defs)
  then have r: "length data = r + 65524" "11 < r" by (simp_all add: r_def)
  have n: "nb_chunks (length data) = (r + 65527) div 65528" by (simp add: nb_chunks_def size_defs r)
  have n1: "1 \<le> (r + 65527) div 65528" using r(2) div_le_mono [of 65528 "r + 65527" 65528] by simp
  have b: "(r + 65527) div 65528 < 1000" using assms(2) by (simp add: n size_defs)
  have q: "r div 65528 < 1000" using b div_le_mono [of r "r + 65527" 65528] by simp
  let ?nb = "(r div MAX_CHUNK_SIZE + 1) mod 2 ^ 16" and ?start = "put (u16 api) ty @ take (MAX_START_DATA_SIZE - 2) data"
  have 1: "assert_that (MAX_DATA_SIZE < length data) = (Ok () :: (_, 'e) res)" using assms(1) by simp
  have 2: "usub (length data) MAX_START_DATA_SIZE = (Ok (r - 2) :: (_, 'e) res)" "uadd (r - 2) 2 = (Ok r :: (_, 'e) res)"
    using r b by (auto simp: usub_def uadd_def size_defs)
  have 3: "(if r mod MAX_CHUNK_SIZE \<noteq> 0 then if ?nb + 1 < 2 ^ 16 then Ok (?nb + 1) else Panic else Ok ?nb) =
      (Ok (nb_chunks (length data) + 1) :: (_, 'e) res)"
    using b q unfolding n div_up size_defs by (auto simp: mod_less)
  have 4: "assert_that (1 < nb_chunks (length data) + 1) = (Ok () :: (_, 'e) res)"
    "assert_that (MAX_START_DATA_SIZE = length ?start) = (Ok () :: (_, 'e) res)"
    using n1 n l assms(3) by (simp_all add: size_defs)
  show "get_segments api data ty = (Ok (\<lparr>ss_nb_segments = nb_chunks (length data) + 1, ss_data = ?start\<rparr>,
      take_chunks (nb_chunks (length data)) (drop (MAX_START_DATA_SIZE - 2) data)) :: (_, 'e) res)"
    by (simp only: get_segments_def 1 2 3 4 and_then_simps Let_def add_diff_cancel_right')
  show "1 \<le> nb_chunks (length data)" using n1 by (simp add: n)
  define k where "k = nb_chunks (length data)"
  have k: "k * 65528 \<le> r + 65527" "r + 65527 < 65528 + k * 65528"
    unfolding k_def n using div_times_less_eq_dividend [of "r + 65527" 65528] dividend_less_div_times [of 65528 "r + 65527"]
    by simp_all
  have "(k - 1) * 65528 \<le> r" "r \<le> k * 65528" using k by (simp_all add: diff_mult_distrib)
  then show "(nb_chunks (length data) - 1) * MAX_CHUNK_SIZE \<le> length data - (MAX_START_DATA_SIZE - 2)"
    "length data - (MAX_START_DATA_SIZE - 2) \<le> nb_chunks (length data) * MAX_CHUNK_SIZE"
    unfolding k_def [symmetric] by (simp_all add: size_defs r_def)
qed

section \<open>What the transport carries\<close>

text \<open>
  A message of the transport starts with the type and has at most \<open>MAX_DATA_SIZE\<close> bytes.  It is carried when it fits and is read
  back as it was written.
\<close>

fun wire_type_id :: "wire_message \<Rightarrow> nat" where
  "wire_type_id (MessageW m) = message_type_id m"
| "wire_type_id (SegmentStartW _) = SEGMENT_START_TYPE"
| "wire_type_id (SegmentChunkW _) = SEGMENT_CHUNK_TYPE"

fun put_wire :: "wire_api \<Rightarrow> wire_message \<Rightarrow> bytes" where
  "put_wire api (MessageW m) = put_message api m"
| "put_wire api (SegmentStartW s) = put (segment_start_codec api) s"
| "put_wire api (SegmentChunkW c) = put (w_bytes api) c"

definition fits_transport :: "wire_api \<Rightarrow> wire_message \<Rightarrow> bool" where
  "fits_transport api w \<longleftrightarrow> length (put (u16 api) (wire_type_id w) @ put_wire api w) \<le> MAX_DATA_SIZE"

definition carried :: "wire_api \<Rightarrow> wire_message \<Rightarrow> bool" where
  "carried api w \<longleftrightarrow> fits_transport api w \<and> handler_read api (wire_type_id w) (put_wire api w) = Ok (Some w)"

definition u16_two_bytes :: "wire_api \<Rightarrow> bool" where
  "u16_two_bytes api \<longleftrightarrow> (\<forall>n < 2 ^ 16. length (put (u16 api) n) = 2)"

text \<open>A byte vector is written with a prefix of at most five bytes and read back.\<close>

definition vec_ok :: "wire_api \<Rightarrow> bool" where
  "vec_ok api \<longleftrightarrow> (\<forall>b. length b \<le> MAX_CHUNK_SIZE \<longrightarrow> keeps (w_bytes api) b \<and> length (put (w_bytes api) b) \<le> length b + 5)"

lemma chunk_carried:
  assumes "u16_two_bytes api" "vec_ok api" "length c \<le> MAX_CHUNK_SIZE"
  shows "carried api (SegmentChunkW c)"
proof -
  have k: "get (w_bytes api) (put (w_bytes api) c @ []) = Ok (c, [])" "length (put (w_bytes api) c) \<le> length c + 5"
    using assms(2,3) unfolding vec_ok_def keeps_def by blast+
  then show ?thesis using assms(1,3) by (simp add: carried_def fits_transport_def handler_read_def u16_two_bytes_def size_defs type_defs)
qed

lemma start_carried:
  assumes "wire_ok api" "u16_two_bytes api" "vec_ok api" "length (ss_data s) = MAX_START_DATA_SIZE" "ss_nb_segments s < 2 ^ 16"
  shows "carried api (SegmentStartW s)"
proof -
  have l: "length (ss_data s) \<le> MAX_CHUNK_SIZE" using assms(4) by (simp add: size_defs)
  have "get (w_bytes api) (put (w_bytes api) (ss_data s) @ []) = Ok (ss_data s, [])"
    "length (put (w_bytes api) (ss_data s)) \<le> length (ss_data s) + 5"
    using assms(3) l unfolding vec_ok_def keeps_def by blast+
  moreover have "get (u16 api) (put (u16 api) (ss_nb_segments s) @ rest) = Ok (ss_nb_segments s, rest)" for rest
    using codec_okD [OF wire_okD(2) [OF assms(1)] assms(5)] .
  ultimately show ?thesis using assms(2,4,5)
    by (simp add: carried_def fits_transport_def handler_read_def segment_start_codec_def structc_def seqc_def u16_two_bytes_def
        size_defs type_defs)
qed

lemma take_chunks_short: "c \<in> set (take_chunks n data) \<Longrightarrow> length c \<le> MAX_CHUNK_SIZE"
  by (induction n data rule: take_chunks.induct) (auto simp: Let_def)

lemma segments_carried:
  assumes "wire_ok api" "u16_two_bytes api" "vec_ok api" "MAX_DATA_SIZE < length data" "nb_chunks (length data) < MAX_SEGMENTS" "ty < 2 ^ 16"
    and "get_segments api data ty = (Ok (s, cs) :: (_, 'e) res)" "w \<in> set (SegmentStartW s # map SegmentChunkW cs)"
  shows "carried api w"
proof -
  have t: "length (put (u16 api) ty) = 2" using assms(2,6) by (simp add: u16_two_bytes_def)
  have g: "get_segments api data ty = (Ok (\<lparr>ss_nb_segments = nb_chunks (length data) + 1,
      ss_data = put (u16 api) ty @ take (MAX_START_DATA_SIZE - 2) data\<rparr>,
      take_chunks (nb_chunks (length data)) (drop (MAX_START_DATA_SIZE - 2) data)) :: (_, 'e) res)"
    by (rule get_segments_ok(1) [OF assms(4,5) t])
  have s: "ss_nb_segments s = nb_chunks (length data) + 1" "ss_data s = put (u16 api) ty @ take (MAX_START_DATA_SIZE - 2) data"
    "cs = take_chunks (nb_chunks (length data)) (drop (MAX_START_DATA_SIZE - 2) data)"
    using g assms(7) by auto
  have "carried api (SegmentStartW s)"
    by (rule start_carried [OF assms(1-3)]) (use s t assms(4,5) in \<open>auto simp: size_defs\<close>)
  moreover have "carried api (SegmentChunkW c)" if "c \<in> set cs" for c
    using chunk_carried [OF assms(2,3)] take_chunks_short that s(3) by blast
  ultimately show ?thesis using assms(8) by auto
qed

section \<open>Delivery\<close>

text \<open>The messages of a peer are handled one after the other; an error ends the connection.\<close>

fun deliver ::
  "wire_api \<Rightarrow> pubkey \<Rightarrow> wire_message list \<Rightarrow> message_handler \<Rightarrow> message_handler \<times> (unit, lightning_error) res" where
  "deliver api org [] h = (h, Ok ())"
| "deliver api org (w # ws) h =
     (case handle_custom_message api w org h of
        (h', Ok _) \<Rightarrow> deliver api org ws h'
      | (h', Err e) \<Rightarrow> (h', Err e)
      | (h', Panic) \<Rightarrow> (h', Panic))"

lemma set_reader_simps [simp]:
  "segment_readers (set_reader org r h) org = Some r"
  "set_reader org r (set_reader org r' h) = set_reader org r h"
  "msg_received (set_reader org r h) = msg_received h"
  "msg_events (set_reader org r h) = msg_events h"
  by (simp_all add: set_reader_def)

definition finish :: "wire_api \<Rightarrow> pubkey \<Rightarrow> bytes \<Rightarrow> message_handler \<Rightarrow> message_handler \<times> (unit, lightning_error) res" where
  "finish api org msg h =
     (case reassembled api msg of
        Ok m \<Rightarrow> (push_received org m (set_reader org reader_new h), Ok ())
      | Err e \<Rightarrow> (set_reader org reader_new h, Err e)
      | Panic \<Rightarrow> (set_reader org reader_new h, Panic))"

lemma deliver_chunks:
  assumes "segment_readers h org = Some \<lparr>cur_data = d, remaining_segments = length cs\<rparr>" "cs \<noteq> []" "d \<noteq> []"
    and "\<forall>c\<in>set (butlast cs). length c = MAX_CHUNK_SIZE"
  shows "deliver api org (map SegmentChunkW cs) h = finish api org (d @ concat cs) h"
  using assms
proof (induction cs arbitrary: d h)
  case (Cons c cs)
  show ?case
  proof (cases cs)
    case Nil
    then show ?thesis using Cons.prems
      by (auto simp: handle_custom_message_def expecting_chunk_def handle_chunk_def process_segment_chunk_def usub_def
        finish_def reader_new_def split: res.splits)
  next
    case (Cons c' cs')
    let ?r = "\<lparr>cur_data = d @ c, remaining_segments = length cs\<rparr>"
    have c: "length c = MAX_CHUNK_SIZE" "cs \<noteq> []" using Cons.prems(4) Cons by simp_all
    have "handle_custom_message api (SegmentChunkW c) org h = (set_reader org ?r h, Ok ())"
      using Cons.prems(1,3) c
      by (simp add: handle_custom_message_def expecting_chunk_def handle_chunk_def process_segment_chunk_def usub_def)
    moreover have "deliver api org (map SegmentChunkW cs) (set_reader org ?r h) = finish api org ((d @ c) @ concat cs) (set_reader org ?r h)"
      using Cons.prems(3,4) c by (intro Cons.IH) auto
    ultimately show ?thesis by (simp add: finish_def split: res.splits)
  qed
qed simp

text \<open>The state a peer can be in: no data when no chunk is expected, and a bound on the data kept.\<close>

definition reader_ok :: "segment_reader \<Rightarrow> bool" where
  "reader_ok r \<longleftrightarrow> (cur_data r = [] \<longleftrightarrow> remaining_segments r = 0) \<and> remaining_segments r < MAX_SEGMENTS \<and>
     length (cur_data r) + remaining_segments r * MAX_CHUNK_SIZE \<le> MAX_DATA_SIZE + (MAX_SEGMENTS - 1) * MAX_CHUNK_SIZE"

definition handler_ok :: "message_handler \<Rightarrow> bool" where
  "handler_ok h \<longleftrightarrow> (\<forall>org r. segment_readers h org = Some r \<longrightarrow> reader_ok r)"

lemma reader_new_ok [simp]: "reader_ok reader_new"
  by (simp add: reader_ok_def reader_new_def size_defs)

lemma reader_reset_new [simp]: "reader_reset r = reader_new"
  by (simp add: reader_reset_def reader_new_def)

lemma current_reader_ok: "handler_ok h \<Longrightarrow> reader_ok (case segment_readers h org of Some r \<Rightarrow> r | None \<Rightarrow> reader_new)"
  by (auto simp: handler_ok_def split: option.splits)

text \<open>Before a message that is no chunk the reader is empty.\<close>

lemma handle_not_chunk:
  assumes "handler_ok h" "\<And>c. w \<noteq> SegmentChunkW c"
  shows "handle_custom_message api w org h = handle_other w org reader_new h"
proof -
  define r where "r = (case segment_readers h org of Some r \<Rightarrow> r | None \<Rightarrow> reader_new)"
  have "reader_ok r" unfolding r_def by (rule current_reader_ok [OF assms(1)])
  then have "r = reader_new" if "\<not> expecting_chunk r"
    using that by (cases r) (auto simp: reader_ok_def expecting_chunk_def reader_new_def)
  then show ?thesis
    using assms(2) unfolding handle_custom_message_def r_def [symmetric] Let_def by (cases w; cases "expecting_chunk r") auto
qed

lemma deliver_segments:
  assumes "handler_ok h" "MAX_DATA_SIZE < length data" "nb_chunks (length data) < MAX_SEGMENTS" "length (put (u16 api) ty) = 2"
  shows "\<exists>s cs. get_segments api data ty = (Ok (s, cs) :: (_, 'e) res) \<and>
    deliver api org (SegmentStartW s # map SegmentChunkW cs) h = finish api org (put (u16 api) ty @ data) h"
proof -
  note g = get_segments_ok [OF assms(2-4)]
  let ?n = "nb_chunks (length data)" and ?k = "MAX_START_DATA_SIZE - 2"
  let ?start = "put (u16 api) ty @ take ?k data" and ?cs = "take_chunks ?n (drop ?k data)"
  let ?s = "\<lparr>ss_nb_segments = ?n + 1, ss_data = ?start\<rparr>" and ?r = "\<lparr>cur_data = ?start, remaining_segments = length ?cs\<rparr>"
  have l: "length ?start = MAX_START_DATA_SIZE" using assms(2,4) by (simp add: size_defs)
  have "process_segment_start reader_new ?s = Ok ?r"
    using g(2) assms(3) l by (simp add: process_segment_start_def reader_new_def size_defs)
  then have 1: "handle_custom_message api (SegmentStartW ?s) org h = (set_reader org ?r h, Ok ())"
    using handle_not_chunk [OF assms(1), of "SegmentStartW ?s"] by (simp add: handle_other_def)
  have ne: "?cs \<noteq> []" using g(2) by (metis length_take_chunks list.size(3) not_one_le_zero)
  have full: "\<forall>c\<in>set (butlast ?cs). length c = MAX_CHUNK_SIZE" using take_chunks_full g(3) by fastforce
  have start: "?start \<noteq> []" using l by (auto simp: size_defs)
  have c: "?start @ concat ?cs = put (u16 api) ty @ data" using g(4) by (simp add: take_chunks_concat)
  have 2: "deliver api org (map SegmentChunkW ?cs) (set_reader org ?r h) = finish api org (put (u16 api) ty @ data) (set_reader org ?r h)"
    unfolding c [symmetric] by (rule deliver_chunks [OF _ ne start full]) simp
  have "deliver api org (SegmentStartW ?s # map SegmentChunkW ?cs) h = finish api org (put (u16 api) ty @ data) h"
    by (simp only: deliver.simps 1 prod.case res.case 2 finish_def set_reader_simps)
  then show ?thesis using g(1) by blast
qed

section \<open>Reachable states of a handler\<close>

inductive handler_reachable :: "wire_api \<Rightarrow> message_handler \<Rightarrow> bool" for api where
  new: "handler_reachable api handler_new"
| send: "handler_reachable api h \<Longrightarrow> send_message api node m h = (Ok h' :: (_, unit) res) \<Longrightarrow> handler_reachable api h'"
| take_received: "handler_reachable api h \<Longrightarrow> handler_reachable api (snd (get_and_clear_received_messages h))"
| take_pending: "handler_reachable api h \<Longrightarrow> handler_reachable api (snd (get_and_clear_pending_msg h))"
| handle_message: "handler_reachable api h \<Longrightarrow> handler_reachable api (fst (handle_custom_message api (MessageW m) org h))"
| handle_start: "handler_reachable api h \<Longrightarrow> length (ss_data s) \<le> MAX_DATA_SIZE \<Longrightarrow>
    handler_reachable api (fst (handle_custom_message api (SegmentStartW s) org h))"
| handle_segment: "handler_reachable api h \<Longrightarrow> length data \<le> MAX_DATA_SIZE \<Longrightarrow>
    handler_reachable api (fst (handle_custom_message api (SegmentChunkW data) org h))"

lemma send_message_readers: "send_message api node m h = Ok h' \<Longrightarrow> segment_readers h' = segment_readers h"
  by (auto simp: send_message_def res_simps split: if_splits)

lemma handler_ok_set: "handler_ok h \<Longrightarrow> reader_ok r \<Longrightarrow> handler_ok (set_reader org r h)"
  by (auto simp: handler_ok_def set_reader_def)

lemma handler_ok_push [simp]: "handler_ok (push_received org m h) = handler_ok h"
  by (simp add: handler_ok_def push_received_def)

lemma process_start_ok:
  "process_segment_start r s = Ok r' \<Longrightarrow> length (ss_data s) \<le> MAX_DATA_SIZE \<Longrightarrow> reader_ok r'"
proof -
  assume a: "process_segment_start r s = Ok r'" "length (ss_data s) \<le> MAX_DATA_SIZE"
  have r: "cur_data r' = ss_data s" "remaining_segments r' = ss_nb_segments s - 1" "2 \<le> ss_nb_segments s"
    "ss_nb_segments s \<le> MAX_SEGMENTS" "MAX_START_DATA_SIZE \<le> length (ss_data s)"
    using a(1) by (auto simp: process_segment_start_def split: if_splits)
  have "(ss_nb_segments s - 1) * MAX_CHUNK_SIZE \<le> (MAX_SEGMENTS - 1) * MAX_CHUNK_SIZE"
    using r(4) by (intro mult_le_mono1) simp
  then show "reader_ok r'" using a(2) r by (auto simp: reader_ok_def size_defs)
qed

lemma process_chunk_ok:
  assumes "reader_ok r" "process_segment_chunk r data = Ok (r', m)"
  shows "reader_ok r'" "m = None \<Longrightarrow> remaining_segments r' < remaining_segments r"
proof -
  have n: "cur_data r \<noteq> []" "1 < remaining_segments r \<longrightarrow> length data = MAX_CHUNK_SIZE" "1 \<le> remaining_segments r"
    and r': "remaining_segments r' = remaining_segments r - 1"
      "cur_data r' = (if remaining_segments r = 1 then [] else cur_data r @ data)"
    using assms(2) by (auto simp: process_segment_chunk_def res_simps split: if_splits)
  show "m = None \<Longrightarrow> remaining_segments r' < remaining_segments r" using r' n by simp
  show "reader_ok r'"
  proof (cases "remaining_segments r = 1")
    case False
    then have "length data = MAX_CHUNK_SIZE" using n by simp
    moreover have "remaining_segments r * MAX_CHUNK_SIZE = (remaining_segments r - 1) * MAX_CHUNK_SIZE + MAX_CHUNK_SIZE"
      using n(3) by (simp add: diff_mult_distrib size_defs)
    ultimately show ?thesis using assms(1) r' n False by (auto simp: reader_ok_def)
  qed (simp add: reader_ok_def r' size_defs)
qed

lemma handle_other_ok:
  assumes "handler_ok h" "reader_ok r" "\<And>s. w = SegmentStartW s \<Longrightarrow> length (ss_data s) \<le> MAX_DATA_SIZE"
  shows "handler_ok (fst (handle_other w org r h))"
  using assms process_start_ok [of r]
  by (auto simp: handle_other_def handler_ok_set split: wire_message.splits res.splits)

lemma handle_ok:
  assumes "handler_ok h" "\<And>s. w = SegmentStartW s \<Longrightarrow> length (ss_data s) \<le> MAX_DATA_SIZE"
  shows "handler_ok (fst (handle_custom_message api w org h))"
proof -
  let ?r = "case segment_readers h org of Some r \<Rightarrow> r | None \<Rightarrow> reader_new"
  have r: "reader_ok ?r" by (rule current_reader_ok [OF assms(1)])
  have "handler_ok (fst (handle_chunk api data org ?r h))" for data
    using assms(1) r process_chunk_ok(1) [OF r] by (auto simp: handle_chunk_def handler_ok_set split: res.splits option.splits)
  then show ?thesis
    using handle_other_ok [OF assms(1) r assms(2)] handle_other_ok [OF assms(1) reader_new_ok assms(2)]
    by (auto simp: handle_custom_message_def Let_def split: wire_message.splits)
qed

lemma reachable_ok: "handler_reachable api h \<Longrightarrow> handler_ok h"
proof (induction rule: handler_reachable.induct)
  case new then show ?case by (simp add: handler_ok_def handler_new_def)
next
  case (send h node m h') then show ?case using send_message_readers [OF send.hyps(2)] by (simp add: handler_ok_def)
next
  case take_received then show ?case by (simp add: handler_ok_def get_and_clear_received_messages_def)
next
  case take_pending then show ?case by (simp add: handler_ok_def get_and_clear_pending_msg_def)
qed (auto intro: handle_ok)





text \<open>The longest message that can be sent: one start and 999 chunks.\<close>

abbreviation max_message :: nat where
  "max_message \<equiv> 65524 + 999 * 65528"

lemma nb_chunks_max: "len \<le> max_message \<Longrightarrow> nb_chunks len < MAX_SEGMENTS"
  using div_le_mono [of "len - 65524 + 65527" "999 * 65528 + 65527" 65528] by (simp add: nb_chunks_def size_defs)

text \<open>What a message becomes on its way: one message, or a start and its chunks.\<close>

definition sent_as :: "wire_api \<Rightarrow> message \<Rightarrow> wire_message list \<Rightarrow> bool" where
  "sent_as api m ws \<longleftrightarrow> (\<forall>node h. send_message api node m h = (Ok (h\<lparr>msg_events := msg_events h @ map (Pair node) ws\<rparr>) :: (_, unit) res))"

lemma deliver_sent:
  assumes "u16_two_bytes api" "MAX_DATA_SIZE \<le> max_buf_size api" "length (put_message api m) \<le> max_message"
    and "handler_ok h"
  shows "if max_buf_size api < length (put_message api m)
    then \<exists>ws. sent_as api m ws \<and> deliver api org ws h = finish api org (put (u16 api) (message_type_id m) @ put_message api m) h \<and>
      (wire_ok api \<and> vec_ok api \<longrightarrow> (\<forall>w\<in>set ws. carried api w))
    else sent_as api m [MessageW m] \<and> deliver api org [MessageW m] h = (push_received org m (set_reader org reader_new h), Ok ())"
proof (cases "max_buf_size api < length (put_message api m)")
  case True
  have "length (put (u16 api) (message_type_id m)) = 2" using assms(1) message_type_id_bound by (simp add: u16_two_bytes_def)
  from deliver_segments [OF assms(4) _ nb_chunks_max [OF assms(3)] this, where 'e = unit] True assms(2)
  obtain s cs where s: "get_segments api (put_message api m) (message_type_id m) = (Ok (s, cs) :: (_, unit) res)"
    and d: "deliver api org (SegmentStartW s # map SegmentChunkW cs) h =
      finish api org (put (u16 api) (message_type_id m) @ put_message api m) h"
    by force
  have "sent_as api m (SegmentStartW s # map SegmentChunkW cs)"
    using True s by (simp add: sent_as_def send_message_def o_def)
  moreover have "carried api w" if "wire_ok api" "vec_ok api" "w \<in> set (SegmentStartW s # map SegmentChunkW cs)" for w
    by (rule segments_carried [OF that(1) assms(1) that(2) _ nb_chunks_max [OF assms(3)] message_type_id_bound s that(3)]) (use True assms(2) in simp)
  ultimately show ?thesis using d True by (simp only: if_True) blast
next
  case False
  have "handle_custom_message api (MessageW m) org h = (push_received org m (set_reader org reader_new h), Ok ())"
    using handle_not_chunk [OF assms(4), of "MessageW m"] by (simp add: handle_other_def)
  then show ?thesis using False by (simp add: sent_as_def send_message_def)
qed


text \<open>
  C32. The reader has no case for the messages that close a contract and that reveal a revocation secret
  in a renewal: the transport drops them, and when they come in segments the handler panics.
\<close>

theorem unread_messages:
  assumes "wire_ok api" "u16_two_bytes api" "65535 \<le> max_buf_size api" "unread m"
    and "length (put_message api m) \<le> 65524 + 999 * 65528" "handler_reachable api h"
  shows "handler_read api (message_type_id m) bs = Ok None \<and>
    (max_buf_size api < length (put_message api m) \<longrightarrow>
      (\<exists>ws. sent_as api m ws \<and> snd (deliver api org ws h) = Panic))"
proof -
  from deliver_sent [OF assms(2) _ assms(5) reachable_ok [OF assms(6)], of org] assms(3)
  have "max_buf_size api < length (put_message api m) \<longrightarrow>
      (\<exists>ws. sent_as api m ws \<and> deliver api org ws h = finish api org (put (u16 api) (message_type_id m) @ put_message api m) h)"
    by (auto simp: size_defs split: if_splits)
  then show ?thesis
    using handler_read_unread [OF assms(4)] reassembled_unread [OF assms(1,4)] by (force simp: finish_def)
qed

lemma lightning_two_bytes: "u16_two_bytes lightning_wire"
  by (simp add: u16_two_bytes_def lightning_wire_def be_def fixed_def)

definition big_witness :: bytes where
  "big_witness = replicate 70000 7"

definition big_sign :: message where
  "big_sign = SignM (example_sign\<lparr>sm_funding_signatures := [[big_witness]]\<rparr>)"

definition big_close :: message where
  "big_close = CloseM (example_close\<lparr>cm_funding_signatures := [[big_witness]]\<rparr>)"

lemma sum_lengths_const: "(\<And>b. length (f b) = 1) \<Longrightarrow> length (concat (map f xs)) = length xs"
  by (induction xs) simp_all

lemma put_vecc:
  "put (vecc api c) [] = put (big_size api) 0" "put (vecc api c) [x] = put (big_size api) 1 @ put c x"
  by (simp_all add: vecc_def)

lemma lightning_lengths:
  "length (put (u16 lightning_wire) n) = 2" "length (put (u32 lightning_wire) n) = 4" "length (put (u64 lightning_wire) n) = 8"
  "length (put (w_array32 lightning_wire) b) = length b" "length (put (w_ecdsa lightning_wire) b) = length b"
  "length (put (w_adaptor lightning_wire) b) = length b"
  "length (put (big_size lightning_wire) 0) = 1" "length (put (big_size lightning_wire) (Suc 0)) = 1"
  by (simp_all add: lightning_wire_def be_def raw_def fixed_def big_size_def)

lemma length_big_witness: "length (put (vecc lightning_wire (u8 lightning_wire)) big_witness) = 70005"
  by (simp add: vecc_def big_size_def lightning_wire_def be_def fixed_def sum_lengths_const big_witness_def
    sum_list_replicate length_concat o_def del: replicate.simps)

lemma big_messages:
  "valid_message lightning_wire big_sign" "valid_message lightning_wire big_close"
  "70005 \<le> length (put_message lightning_wire big_sign)" "length (put_message lightning_wire big_sign) \<le> 80000"
  "70005 \<le> length (put_message lightning_wire big_close)" "length (put_message lightning_wire big_close) \<le> 80000"
proof -
  have w: "valid_funding_signatures [[big_witness]]"
    by (simp add: valid_funding_signatures_def valid_list_def valid_bytes_def MAX_VEC_SIZE_def big_witness_def del: replicate.simps)
  show "valid_message lightning_wire big_sign" "valid_message lightning_wire big_close"
    using example_messages_valid(3,4) w by (simp_all add: big_sign_def big_close_def valid_sign_def valid_close_def)
  show "70005 \<le> length (put_message lightning_wire big_sign)" "length (put_message lightning_wire big_sign) \<le> 80000"
    "70005 \<le> length (put_message lightning_wire big_close)" "length (put_message lightning_wire big_close) \<le> 80000"
    using length_big_witness
    by (simp_all add: big_sign_def big_close_def sign_codec_def close_codec_def typed_def seqc_def structc_def
      cet_adaptor_signatures_codec_def funding_signatures_codec_def put_vecc lightning_lengths example_sign_def example_close_def)
qed





lemma unread_messages_witness: "\<exists>ws. sent_as lightning_wire big_close ws \<and> snd (deliver lightning_wire [5] ws handler_new) = Panic"
  using unread_messages [OF lightning_wire_ok lightning_two_bytes _ _ _ handler_reachable.new, of big_close "[]" "[5]"] big_messages(5,6)
  by (simp add: big_close_def lightning_wire_def)


end
