(* ===== verification/Trie_Iterators.thy ===== *)
theory Trie_Iterators
  imports Dlc_Trie
begin

text \<open>
  The iterators over the values of the tries: \<open>DigitTrieIter\<close> of \<open>dlc-trie/src/digit_trie.rs\<close>,
  \<open>MultiTrieIterator\<close> of \<open>multi_trie.rs\<close> and \<open>MultiOracleTrieIter\<close> of \<open>multi_oracle_trie.rs\<close>, and the
  methods \<open>sign\<close> and \<open>verify\<close> of \<open>DlcTrie\<close> that use them.  A stack (a \<open>Vec\<close> used with push and pop) is a list
  with its top first.  The calls of \<open>next\<close> are nested; their depth is given as fuel.
\<close>

section \<open>Iterating over a digit trie\<close>

record digit_iter =
  di_stack :: "(nat option \<times> int) list"
  di_prefix :: "nat list list"

definition digit_iter_new :: "'a digit_trie \<Rightarrow> digit_iter" where
  "digit_iter_new trie = \<lparr>di_stack = [(dt_root trie, -1)], di_prefix = []\<rparr>"

definition iter_path :: "digit_iter \<Rightarrow> nat list \<Rightarrow> nat list" where
  "iter_path it p = concat (rev (di_prefix it)) @ p"

fun digit_iter_next ::
    "nat \<Rightarrow> 'a digit_trie \<Rightarrow> digit_iter \<Rightarrow> (('a, nat) lookup_result option \<times> digit_iter, 'e) res"
  and digit_iter_loop ::
    "nat \<Rightarrow> 'a digit_trie \<Rightarrow> nat \<Rightarrow> nat option list \<Rightarrow> int \<Rightarrow> digit_iter
      \<Rightarrow> (('a, nat) lookup_result option \<times> digit_iter, 'e) res" where
  "digit_iter_next 0 trie it = Panic"
| "digit_iter_next (Suc fuel) trie it =
     (case di_stack it of
        [] \<Rightarrow> Ok (None, it)
      | (None, _) # rest \<Rightarrow> digit_iter_next fuel trie (it\<lparr>di_stack := rest\<rparr>)
      | (Some cur_index, cur_child) # rest \<Rightarrow>
          and_then (index (dt_store trie) cur_index) (\<lambda>node.
          case node of
            Node_None \<Rightarrow> Panic
          | Leaf l \<Rightarrow>
              Ok (Some \<lparr>lr_path = iter_path it (dl_prefix l), lr_value = dl_data l\<rparr>, it\<lparr>di_stack := rest\<rparr>)
          | Node n \<Rightarrow>
              if int (dt_base trie) \<le> cur_child
              then digit_iter_next fuel trie (it\<lparr>di_stack := rest, di_prefix := tl (di_prefix it)\<rparr>)
              else
                (case (if cur_child = -1 then dn_data n else None) of
                   Some d \<Rightarrow>
                     Ok (Some \<lparr>lr_path = iter_path it (dn_prefix n), lr_value = d\<rparr>,
                         it\<lparr>di_stack := (Some cur_index, cur_child + 1) # rest\<rparr>)
                 | None \<Rightarrow>
                     let cur_child = (if cur_child = -1 then 0 else cur_child);
                         pre = (if cur_child = 0 then dn_prefix n # di_prefix it else di_prefix it)
                     in digit_iter_loop fuel trie cur_index (dn_children n) cur_child
                          (it\<lparr>di_stack := rest, di_prefix := pre\<rparr>))))"
| "digit_iter_loop 0 trie cur_index cur_children cur_child it = Panic"
| "digit_iter_loop (Suc fuel) trie cur_index cur_children cur_child it =
     (if cur_child < int (dt_base trie) then
        and_then (index cur_children (nat cur_child)) (\<lambda>child.
        and_then (digit_iter_next fuel trie
            (it\<lparr>di_stack := (child, -1) # (Some cur_index, cur_child + 1) # di_stack it\<rparr>)) (\<lambda>(r, it').
          case r of
            None \<Rightarrow> digit_iter_loop fuel trie cur_index cur_children (cur_child + 1) (it'\<lparr>di_stack := tl (di_stack it')\<rparr>)
          | Some x \<Rightarrow> Ok (Some x, it')))
      else Ok (None, it\<lparr>di_stack := tl (di_stack it), di_prefix := tl (di_prefix it)\<rparr>))"

text \<open>Every node is visited at most once for each of its children, and every visit is two calls deep.\<close>

definition digit_iter_fuel :: "'a digit_trie \<Rightarrow> nat" where
  "digit_iter_fuel trie = length (dt_store trie) * (3 * dt_base trie + 1) + 2"

fun digit_iter_drain :: "nat \<Rightarrow> 'a digit_trie \<Rightarrow> digit_iter \<Rightarrow> (('a, nat) lookup_result list, 'e) res" where
  "digit_iter_drain 0 trie it = Panic"
| "digit_iter_drain (Suc n) trie it =
     and_then (digit_iter_next (digit_iter_fuel trie) trie it) (\<lambda>(r, it').
       case r of None \<Rightarrow> Ok [] | Some x \<Rightarrow> and_then (digit_iter_drain n trie it') (\<lambda>xs. Ok (x # xs)))"

definition digit_iter_collect :: "'a digit_trie \<Rightarrow> (('a, nat) lookup_result list, 'e) res" where
  "digit_iter_collect trie = digit_iter_drain (length (dt_store trie) + 1) trie (digit_iter_new trie)"

section \<open>Iterating over a trie of tries\<close>

record 'a multi_iter =
  mi_node_stack :: "((nat \<times> nat list) \<times> trie_node_info list digit_trie \<times> digit_iter) list"
  mi_trie_info :: "(nat list \<times> (nat \<times> trie_node_info) list) list"
  mi_leaf_iter :: "(nat \<times> 'a digit_trie \<times> digit_iter) list"
  mi_cur_path :: "indexed_path list"

text \<open>The roots are pushed in reverse order, so that the first is on top.\<close>

definition multi_iter_new :: "'a multi_trie \<Rightarrow> ('a multi_iter, 'e) res" where
  "multi_iter_new trie =
     and_then (usub (mt_nb_tries trie) (mt_nb_required trie)) (\<lambda>d.
     and_then (uadd d 1) (\<lambda>nb_roots.
     if 1 < mt_nb_required trie then
       and_then (traverse (\<lambda>i. and_then (index (mt_store trie) i) (\<lambda>node.
           case node of Node t \<Rightarrow> Ok ((i, []), t, digit_iter_new t) | _ \<Rightarrow> Panic)) [0..<nb_roots]) (\<lambda>ns.
         Ok \<lparr>mi_node_stack = ns, mi_trie_info = [], mi_leaf_iter = [], mi_cur_path = []\<rparr>)
     else
       and_then (traverse (\<lambda>i. and_then (index (mt_store trie) i) (\<lambda>node.
           case node of Leaf t \<Rightarrow> Ok (i, t, digit_iter_new t) | _ \<Rightarrow> Panic)) [0..<nb_roots]) (\<lambda>ls.
         Ok \<lparr>mi_node_stack = [], mi_trie_info = [], mi_leaf_iter = ls, mi_cur_path = []\<rparr>)))"

text \<open>
  One call of \<open>next\<close> up to its return or the next recursive call, in three parts: the topmost leaf, the list of children
  that is being read, and the topmost inner node.  \<open>Again\<close> is a recursive call, \<open>Onward\<close> goes on to the next part.
\<close>

datatype ('r, 's) turn = Return 'r 's | Again 's | Onward 's

definition multi_iter_leaf ::
  "'a multi_iter \<Rightarrow> (((('a, indexed_path) lookup_result) option, 'a multi_iter) turn, 'e) res" where
  "multi_iter_leaf it =
     (case mi_leaf_iter it of
        [] \<Rightarrow> Ok (Onward it)
      | (i, t, di) # rest \<Rightarrow>
          and_then (digit_iter_next (digit_iter_fuel t) t di) (\<lambda>(r, di').
            case r of
              Some x \<Rightarrow>
                Ok (Return (Some \<lparr>lr_path = rev ((i, lr_path x) # mi_cur_path it), lr_value = lr_value x\<rparr>)
                  (it\<lparr>mi_leaf_iter := (i, t, di') # rest\<rparr>))
            | None \<Rightarrow> Ok (Again (it\<lparr>mi_leaf_iter := rest\<rparr>))))"

definition multi_iter_info ::
  "'a multi_trie \<Rightarrow> 'a multi_iter \<Rightarrow> (((('a, indexed_path) lookup_result) option, 'a multi_iter) turn, 'e) res" where
  "multi_iter_info trie it =
     (case mi_trie_info it of
        [] \<Rightarrow> Ok (Onward it)
      | (path, []) # rest \<Rightarrow> Ok (Onward (it\<lparr>mi_trie_info := rest, mi_cur_path := tl (mi_cur_path it)\<rparr>))
      | (path, (i, info) # infos) # rest \<Rightarrow>
          let it = it\<lparr>mi_trie_info := (path, infos) # rest\<rparr> in
          and_then (if i = 0
                    then (case mi_node_stack it of
                            [] \<Rightarrow> Panic
                          | ((ti, _), _) # _ \<Rightarrow> Ok (it\<lparr>mi_cur_path := (ti, path) # mi_cur_path it\<rparr>))
                    else Ok it) (\<lambda>it.
          and_then (index (mt_store trie) (store_index info)) (\<lambda>node.
          case node of
            Node_None \<Rightarrow> Panic
          | Node t \<Rightarrow>
              Ok (Onward (it\<lparr>mi_node_stack := ((trie_index info, path), t, digit_iter_new t) # mi_node_stack it\<rparr>))
          | Leaf t \<Rightarrow> Ok (Again (it\<lparr>mi_leaf_iter := (trie_index info, t, digit_iter_new t) # mi_leaf_iter it\<rparr>)))))"

definition multi_iter_node ::
  "'a multi_iter \<Rightarrow> (((('a, indexed_path) lookup_result) option, 'a multi_iter) turn, 'e) res" where
  "multi_iter_node it =
     (case mi_node_stack it of
        [] \<Rightarrow> Ok (Return None it)
      | (ip, t, di) # rest \<Rightarrow>
          and_then (digit_iter_next (digit_iter_fuel t) t di) (\<lambda>(r, di').
            case r of
              None \<Rightarrow> Ok (Again (it\<lparr>mi_node_stack := rest\<rparr>))
            | Some x \<Rightarrow>
                Ok (Again (it\<lparr>mi_node_stack := (ip, t, di') # rest,
                  mi_trie_info := (lr_path x, enumerate 0 (lr_value x)) # mi_trie_info it\<rparr>))))"

definition multi_iter_turn ::
  "'a multi_trie \<Rightarrow> 'a multi_iter \<Rightarrow> (((('a, indexed_path) lookup_result) option, 'a multi_iter) turn, 'e) res" where
  "multi_iter_turn trie it =
     and_then (multi_iter_leaf it) (\<lambda>t. case t of
       Onward it \<Rightarrow>
         and_then (multi_iter_info trie it) (\<lambda>t. case t of Onward it \<Rightarrow> multi_iter_node it | _ \<Rightarrow> Ok t)
     | _ \<Rightarrow> Ok t)"

fun multi_iter_next ::
  "nat \<Rightarrow> 'a multi_trie \<Rightarrow> 'a multi_iter \<Rightarrow> (('a, indexed_path) lookup_result option \<times> 'a multi_iter, 'e) res" where
  "multi_iter_next 0 trie it = Panic"
| "multi_iter_next (Suc fuel) trie it =
     and_then (multi_iter_turn trie it) (\<lambda>t.
       case t of Return r it' \<Rightarrow> Ok (r, it') | Again it' \<Rightarrow> multi_iter_next fuel trie it' | Onward it' \<Rightarrow> Ok (None, it'))"

text \<open>
  Every node of the arena is entered once; each of its entries is read once and each of its children entered once.  A
  turn does one of these or leaves a level.
\<close>

definition multi_iter_fuel :: "'a multi_trie \<Rightarrow> nat" where
  "multi_iter_fuel trie =
     4 * (sum_list (map (\<lambda>node. case node of
         Node_None \<Rightarrow> 0
       | Leaf t \<Rightarrow> length (dt_store t) + 1
       | Node t \<Rightarrow> sum_list (map (\<lambda>n. case n of
             Leaf l \<Rightarrow> length (dl_data l) + 1
           | Node m \<Rightarrow> (case dn_data m of None \<Rightarrow> 0 | Some d \<Rightarrow> length d) + 1
           | Node_None \<Rightarrow> 0) (dt_store t)) + 1) (mt_store trie)) + 1)"

section \<open>Iterating over the trie of several oracles\<close>

record oracle_iter =
  oi_digit_iter :: digit_iter
  oi_extra_cover :: "range_info multi_iter option"
  oi_cur_res :: "(range_info list, nat) lookup_result option"
  oi_cur_index :: nat
  oi_combination_iter :: combination_iterator

definition oracle_iter_new :: "multi_oracle_trie \<Rightarrow> (oracle_iter, 'e) res" where
  "oracle_iter_new trie =
     and_then (map_call multi_iter_new (ot_extra_cover trie)) (\<lambda>extra.
     and_then (ci_new (length (oni_nb_digits (ot_infos trie))) (ot_threshold trie)) (\<lambda>c.
       Ok \<lparr>oi_digit_iter = digit_iter_new (ot_digit_trie trie), oi_extra_cover = extra, oi_cur_res = None,
           oi_cur_index = 0, oi_combination_iter = c\<rparr>))"

definition multi_info :: "(range_info, indexed_path) lookup_result \<Rightarrow> trie_iter_info" where
  "multi_info x = \<lparr>ti_indexes = map fst (lr_path x), ti_paths = map snd (lr_path x), ti_value = lr_value x\<rparr>"

definition padded_path :: "oracle_numeric_info \<Rightarrow> nat \<Rightarrow> nat list \<Rightarrow> nat \<Rightarrow> (nat list, 'e) res" where
  "padded_path infos min_nb_digits p i =
     and_then (index (oni_nb_digits infos) i) (\<lambda>n.
     and_then (usub n min_nb_digits) (\<lambda>extra_len.
       if extra_len = 0 then Ok p else pre_pad_vec p (extra_len + length p)))"

fun oracle_iter_next ::
  "nat \<Rightarrow> multi_oracle_trie \<Rightarrow> oracle_iter \<Rightarrow> (trie_iter_info option \<times> oracle_iter, 'e) res" where
  "oracle_iter_next 0 trie it = Panic"
| "oracle_iter_next (Suc fuel) trie it =
     and_then (case oi_cur_res it of
         Some x \<Rightarrow> Ok it
       | None \<Rightarrow>
           and_then (digit_iter_next (digit_iter_fuel (ot_digit_trie trie)) (ot_digit_trie trie) (oi_digit_iter it)) (\<lambda>(r, di).
             Ok (it\<lparr>oi_digit_iter := di, oi_cur_res := r\<rparr>))) (\<lambda>it.
     case oi_cur_res it of
       None \<Rightarrow>
         (case (oi_extra_cover it, ot_extra_cover trie) of
            (Some mi, Some extra) \<Rightarrow>
              and_then (multi_iter_next (multi_iter_fuel extra) extra mi) (\<lambda>(r, mi').
                Ok (map_option multi_info r, it\<lparr>oi_extra_cover := Some mi'\<rparr>))
          | _ \<Rightarrow> Ok (None, it))
     | Some x \<Rightarrow>
         and_then (ci_next (oi_combination_iter it)) (\<lambda>(r, c).
         case r of
           None \<Rightarrow>
             and_then (ci_new (nb_elements c) (nb_selected c)) (\<lambda>c.
               oracle_iter_next fuel trie (it\<lparr>oi_cur_res := None, oi_cur_index := 0, oi_combination_iter := c\<rparr>))
         | Some indexes \<Rightarrow>
             and_then (get_min_nb_digits (ot_infos trie)) (\<lambda>m.
             and_then (traverse (padded_path (ot_infos trie) m (lr_path x)) indexes) (\<lambda>paths.
             and_then (index (lr_value x) (oi_cur_index it)) (\<lambda>v.
               Ok (Some \<lparr>ti_indexes = indexes, ti_paths = paths, ti_value = v\<rparr>,
                   it\<lparr>oi_cur_index := oi_cur_index it + 1, oi_combination_iter := c\<rparr>))))))"

fun drain_iter :: "nat \<Rightarrow> ('s \<Rightarrow> ('r option \<times> 's, 'e) res) \<Rightarrow> 's \<Rightarrow> ('r list, 'e) res" where
  "drain_iter 0 step s = Panic"
| "drain_iter (Suc n) step s =
     and_then (step s) (\<lambda>(r, s'). case r of None \<Rightarrow> Ok [] | Some x \<Rightarrow> and_then (drain_iter n step s') (\<lambda>xs. Ok (x # xs)))"

definition diff_trie_iter :: "diff_trie \<Rightarrow> (trie_iter_info list, 'e) res" where
  "diff_trie_iter t =
     and_then (multi_iter_new (wd_trie t)) (\<lambda>it.
     and_then (drain_iter (multi_iter_fuel (wd_trie t)) (multi_iter_next (multi_iter_fuel (wd_trie t)) (wd_trie t)) it) (\<lambda>xs.
       Ok (map multi_info xs)))"

definition oracle_trie_iter :: "multi_oracle_trie \<Rightarrow> (trie_iter_info list, 'e) res" where
  "oracle_trie_iter t =
     and_then (oracle_iter_new t) (\<lambda>it.
       drain_iter (length (dt_store (ot_digit_trie t)) * ci_fuel (oi_combination_iter it)
           + (case ot_extra_cover t of None \<Rightarrow> 0 | Some extra \<Rightarrow> multi_iter_fuel extra) + 1)
         (oracle_iter_next 2 t) it)"

section \<open>Signing and verifying a trie that was built before\<close>

definition trie_sign ::
  "('m) crypto_api_scheme \<Rightarrow> ('t \<Rightarrow> (trie_iter_info list, dlc_error) res) \<Rightarrow> 't \<Rightarrow> seckey \<Rightarrow> script \<Rightarrow> nat \<Rightarrow> transaction list
    \<Rightarrow> pubkey list list list \<Rightarrow> (adaptor_sig list, dlc_error) res" where
  "trie_sign api iter trie fund_privkey witness_script fund_output_value cets points =
     and_then (iter trie) (sign_helper api cets fund_privkey witness_script fund_output_value points)"

definition trie_verify ::
  "('m) crypto_api_scheme \<Rightarrow> ('t \<Rightarrow> (trie_iter_info list, dlc_error) res) \<Rightarrow> 't \<Rightarrow> pubkey \<Rightarrow> script \<Rightarrow> nat
    \<Rightarrow> adaptor_sig list \<Rightarrow> transaction list \<Rightarrow> pubkey list list list \<Rightarrow> (nat, dlc_error) res" where
  "trie_verify api iter trie fund_pk witness_script fund_output_value adaptor_sigs cets points =
     and_then (iter trie) (verify_helper api cets adaptor_sigs fund_pk witness_script fund_output_value points)"

section \<open>The iterator of a digit trie is complete\<close>

text \<open>The entries of a tree in the order of a traversal, and the calls a traversal takes.\<close>

primrec preorder :: "'a atree \<Rightarrow> (nat list \<times> 'a) list" where
  "preorder (ALeaf i p d) = [(p, d)]"
| "preorder (ANode i cs p d) =
     (case d of None \<Rightarrow> [] | Some x \<Rightarrow> [(p, x)]) @
     map (apfst ((@) p)) (concat (map (\<lambda>c. case c of None \<Rightarrow> [] | Some xs \<Rightarrow> xs) (map (map_option preorder) cs)))"

primrec visits :: "'a atree \<Rightarrow> nat" where
  "visits (ALeaf i p d) = 1"
| "visits (ANode i cs p d) =
     1 + sum_list (map (\<lambda>c. 2 + (case c of None \<Rightarrow> 1 | Some n \<Rightarrow> n)) (map (map_option visits) cs))"

definition opreorder :: "'a atree option \<Rightarrow> (nat list \<times> 'a) list" where
  "opreorder c = (case c of None \<Rightarrow> [] | Some t \<Rightarrow> preorder t)"

definition ovisits :: "'a atree option \<Rightarrow> nat" where
  "ovisits c = (case c of None \<Rightarrow> 1 | Some t \<Rightarrow> visits t)"

lemma preorder_ANode:
  "preorder (ANode i cs p d) =
     (case d of None \<Rightarrow> [] | Some x \<Rightarrow> [(p, x)]) @ map (apfst ((@) p)) (concat (map opreorder cs))"
proof -
  have "(case map_option preorder c of None \<Rightarrow> [] | Some xs \<Rightarrow> xs) = opreorder c" for c :: "'a atree option"
    by (cases c) (simp_all add: opreorder_def)
  then show ?thesis by (simp add: o_def)
qed

lemma visits_ANode: "visits (ANode i cs p d) = 1 + sum_list (map (\<lambda>c. 2 + ovisits c) cs)"
proof -
  have "(case map_option visits c of None \<Rightarrow> 1 | Some n \<Rightarrow> n) = ovisits c" for c :: "'a atree option"
    by (cases c) (simp_all add: ovisits_def)
  then show ?thesis by (simp add: o_def)
qed

declare preorder.simps(2) [simp del] visits.simps(2) [simp del]

text \<open>What is on the stack: a subtree not yet entered, or a node whose children from one on are left.\<close>

datatype 'a item = Fresh "'a atree option" | At nat "'a atree option list" "nat list" "'a option" nat

fun item_of :: "'a item \<Rightarrow> nat option \<times> int" where
  "item_of (Fresh c) = (map_option aix c, -1)"
| "item_of (At i cs p d c) = (Some i, int c)"

fun item_ok :: "nat \<Rightarrow> 'a dnode list \<Rightarrow> 'a item \<Rightarrow> bool" where
  "item_ok b st (Fresh c) \<longleftrightarrow> (\<forall>t. c = Some t \<longrightarrow> holds b st t)"
| "item_ok b st (At i cs p d c) \<longleftrightarrow> holds b st (ANode i cs p d) \<and> c \<le> b"

definition under :: "nat list list \<Rightarrow> (nat list \<times> 'a) list \<Rightarrow> (nat list \<times> 'a) list" where
  "under ps xs = map (apfst ((@) (concat (rev ps)))) xs"

fun left :: "'a item list \<Rightarrow> nat list list \<Rightarrow> (nat list \<times> 'a) list" where
  "left [] ps = []"
| "left (Fresh c # S) ps = under ps (opreorder c) @ left S ps"
| "left (At i cs p d c # S) ps =
     (if c = 0 then under (p # ps) (concat (map opreorder cs)) @ left S ps
      else under ps (concat (map opreorder (drop c cs))) @ left S (tl ps))"

definition rest_visits :: "'a atree option list \<Rightarrow> nat \<Rightarrow> nat" where
  "rest_visits cs c = sum_list (map (\<lambda>c. 2 + ovisits c) (drop c cs))"

fun stack_visits :: "'a item list \<Rightarrow> nat" where
  "stack_visits [] = 1"
| "stack_visits (Fresh c # S) = ovisits c + stack_visits S"
| "stack_visits (At i cs p d c # S) = 1 + rest_visits cs c + stack_visits S"

definition iter_at :: "'a item list \<Rightarrow> nat list list \<Rightarrow> digit_iter" where
  "iter_at S ps = \<lparr>di_stack = map item_of S, di_prefix = ps\<rparr>"

definition gives ::
  "nat \<Rightarrow> 'a dnode list \<Rightarrow> (('a, nat) lookup_result option \<times> digit_iter, 'e) res \<Rightarrow> (nat list \<times> 'a) list \<Rightarrow> nat \<Rightarrow> bool" where
  "gives b st r es m \<longleftrightarrow>
     (\<exists>S ps. list_all (item_ok b st) S \<and> stack_visits S \<le> m \<and>
       (case es of
          [] \<Rightarrow> r = Ok (None, iter_at S ps) \<and> S = []
        | (q, d) # es' \<Rightarrow> r = Ok (Some \<lparr>lr_path = q, lr_value = d\<rparr>, iter_at S ps) \<and> left S ps = es'))"

lemma gives_mono: "gives b st r es m \<Longrightarrow> m \<le> m' \<Longrightarrow> gives b st r es m'"
  unfolding gives_def by (meson order_trans)

lemma gives_None: "gives b st r [] m \<Longrightarrow> \<exists>ps. r = Ok (None, iter_at ([] :: 'a item list) ps)"
  for r :: "(('a, nat) lookup_result option \<times> digit_iter, 'e) res"
  by (force simp: gives_def)

lemma gives_Some:
  "gives b st r ((q, d) # es) m \<Longrightarrow>
   \<exists>S ps. list_all (item_ok b st) S \<and> stack_visits S \<le> m \<and> r = Ok (Some \<lparr>lr_path = q, lr_value = d\<rparr>, iter_at S ps) \<and>
     left S ps = es"
  by (auto simp: gives_def)

lemma rest_visits_step: "c < length cs \<Longrightarrow> rest_visits cs c = 2 + ovisits (cs ! c) + rest_visits cs (Suc c)"
  by (simp add: rest_visits_def flip: Cons_nth_drop_Suc)

lemma under_simps [simp]:
  "under ps [] = []" "under ps (x # xs) = (concat (rev ps) @ fst x, snd x) # under ps xs"
  "under ps (xs @ ys) = under ps xs @ under ps ys"
  "under ps (map (apfst ((@) p)) xs) = under (p # ps) xs"
  by (cases x) (simp_all add: under_def apfst_def map_prod_def split_beta)

lemma iter_at_simps [simp]:
  fixes S :: "'a item list"
  shows
  "di_stack (iter_at S ps) = map item_of S" "di_prefix (iter_at S ps) = ps"
  "(iter_at S ps)\<lparr>di_stack := map item_of S'\<rparr> = iter_at S' ps"
  "(iter_at S ps)\<lparr>di_stack := map item_of S', di_prefix := qs\<rparr> = iter_at S' qs"
  "(iter_at S ps)\<lparr>di_stack := []\<rparr> = iter_at ([] :: 'a item list) ps" "(iter_at S ps)\<lparr>di_prefix := qs\<rparr> = iter_at S qs"
  "(iter_at S ps)\<lparr>di_stack := [], di_prefix := qs\<rparr> = iter_at ([] :: 'a item list) qs"
  by (simp_all add: iter_at_def)

lemma digit_iter_gives:
  assumes "0 < dt_base trie"
  shows "\<And>S ps. list_all (item_ok (dt_base trie) (dt_store trie)) S \<Longrightarrow> stack_visits S \<le> f \<Longrightarrow>
      gives (dt_base trie) (dt_store trie) (digit_iter_next f trie (iter_at S ps) :: (_, 'e) res) (left S ps) (stack_visits S)"
    and "\<And>S ps i cs p d c. list_all (item_ok (dt_base trie) (dt_store trie)) S \<Longrightarrow>
      holds (dt_base trie) (dt_store trie) (ANode i cs p d) \<Longrightarrow> c < dt_base trie \<or> S = [] \<Longrightarrow>
      rest_visits cs c + stack_visits S \<le> f \<Longrightarrow>
      gives (dt_base trie) (dt_store trie)
        (digit_iter_loop f trie i (map (map_option aix) cs) (int c) (iter_at S ps) :: (_, 'e) res)
        (under ps (concat (map opreorder (drop c cs))) @ left S (tl ps)) (rest_visits cs c + stack_visits S)"
proof (induction f)
  case 0
  {
    case (1 S ps)
    have "0 < stack_visits S" for S :: "'a item list" by (induction S rule: stack_visits.induct) auto
    with 1 show ?case by (metis le_zero_eq less_numeral_extra(3))
  next
    case (2 S ps i cs p d c)
    have "0 < stack_visits S" for S :: "'a item list" by (induction S rule: stack_visits.induct) auto
    with 2 show ?case by (metis add_is_0 le_zero_eq less_numeral_extra(3))
  }
next
  case (Suc f)
  note next_IH = Suc.IH(1) and loop_IH = Suc.IH(2)
  let ?b = "dt_base trie" and ?st = "dt_store trie"
  {
    case (1 S ps)
    show ?case
    proof (cases S)
      case Nil
      then show ?thesis by (auto simp: gives_def)
    next
      case (Cons x R)
      then have R: "list_all (item_ok ?b ?st) R" and x: "item_ok ?b ?st x" using 1(1) by auto
      show ?thesis
      proof (cases x)
        case (Fresh ot)
        show ?thesis
        proof (cases ot)
          case None
          then show ?thesis using next_IH [OF R, of ps] 1(2) Cons Fresh
            by (auto simp: ovisits_def opreorder_def intro: gives_mono)
        next
          case (Some t)
          then have t: "holds ?b ?st t" using x Fresh by simp
          show ?thesis
          proof (cases t)
            case (ALeaf i p d)
            have "gives ?b ?st (Ok (Some \<lparr>lr_path = concat (rev ps) @ p, lr_value = d\<rparr>, iter_at R ps) :: (_, 'e) res)
                ((concat (rev ps) @ p, d) # left R ps) (stack_visits S)"
              unfolding gives_def using R Cons Fresh by (intro exI [of _ R] exI [of _ ps]) auto
            moreover have "i < length ?st" "?st ! i = Leaf \<lparr>dl_data = d, dl_prefix = p\<rparr>" using t ALeaf by (auto simp: holds_simps)
            ultimately show ?thesis using Cons Fresh Some ALeaf
              by (simp add: index_def iter_path_def opreorder_def)
          next
            case (ANode i cs p d)
            have n: "i < length ?st" "?st ! i = Node \<lparr>dn_children = map (map_option aix) cs, dn_prefix = p, dn_data = d\<rparr>"
              using t ANode by (auto simp: holds_simps)
            have v: "stack_visits S = 1 + rest_visits cs 0 + stack_visits R"
              using Cons Fresh Some ANode by (simp add: ovisits_def visits_ANode rest_visits_def)
            have l: "left S ps = (case d of None \<Rightarrow> [] | Some y \<Rightarrow> [(concat (rev ps) @ p, y)]) @
                under (p # ps) (concat (map opreorder cs)) @ left R ps"
              using Cons Fresh Some ANode by (simp add: opreorder_def preorder_ANode split: option.splits)
            show ?thesis
            proof (cases d)
              case d: None
              have "gives ?b ?st (digit_iter_loop f trie i (map (map_option aix) cs) (int 0) (iter_at R (p # ps)) :: (_, 'e) res)
                  (under (p # ps) (concat (map opreorder (drop 0 cs))) @ left R (tl (p # ps))) (rest_visits cs 0 + stack_visits R)"
                using t ANode R 1(2) v assms by (intro loop_IH [where p = p and d = d]) auto
              then have "gives ?b ?st (digit_iter_loop f trie i (map (map_option aix) cs) 0 (iter_at R (p # ps)) :: (_, 'e) res)
                  (left S ps) (stack_visits S)"
                using v l d by (auto intro: gives_mono)
              then show ?thesis using n Cons Fresh Some ANode d by (simp add: index_def)
            next
              case d: (Some y)
              have "gives ?b ?st (Ok (Some \<lparr>lr_path = concat (rev ps) @ p, lr_value = y\<rparr>, iter_at (At i cs p d 0 # R) ps) :: (_, 'e) res)
                  (left S ps) (stack_visits S)"
                unfolding gives_def l using R v d t ANode
                by (intro exI [of _ "At i cs p d 0 # R"] exI [of _ ps]) simp
              then show ?thesis using n Cons Fresh Some ANode d
                by (simp add: index_def iter_path_def) (simp add: iter_at_def)
            qed
          qed
        qed
      next
        case (At i cs p d c)
        then have t: "holds ?b ?st (ANode i cs p d)" and c: "c \<le> ?b" using x by auto
        have n: "i < length ?st" "?st ! i = Node \<lparr>dn_children = map (map_option aix) cs, dn_prefix = p, dn_data = d\<rparr>" "length cs = ?b"
          using t by (auto simp: holds_simps)
        show ?thesis
        proof (cases "c = ?b")
          case True
          have "gives ?b ?st (digit_iter_next f trie (iter_at R (tl ps)) :: (_, 'e) res) (left R (tl ps)) (stack_visits R)"
            using 1(2) Cons At by (intro next_IH [OF R]) simp
          then show ?thesis using True n Cons At assms by (auto simp: index_def intro: gives_mono)
        next
          case False
          let ?ps = "if c = 0 then p # ps else ps"
          have "gives ?b ?st (digit_iter_loop f trie i (map (map_option aix) cs) (int c) (iter_at R ?ps) :: (_, 'e) res)
              (under ?ps (concat (map opreorder (drop c cs))) @ left R (tl ?ps)) (rest_visits cs c + stack_visits R)"
            using t R 1(2) Cons At c False by (intro loop_IH [where p = p and d = d]) auto
          moreover have "left S ps = under ?ps (concat (map opreorder (drop c cs))) @ left R (tl ?ps)"
            using Cons At by simp
          ultimately have "gives ?b ?st (digit_iter_loop f trie i (map (map_option aix) cs) (int c) (iter_at R ?ps) :: (_, 'e) res)
              (left S ps) (stack_visits S)"
            using Cons At by (auto intro: gives_mono)
          then show ?thesis using False c n Cons At by (auto simp: index_def Let_def)
        qed
      qed
    qed
  next
    case (2 S ps i cs p d c)
    have n: "length cs = ?b" using 2(2) by (auto simp: holds_simps)
    show ?case
    proof (cases "c < ?b")
      case False
      then show ?thesis using 2(3) n by (auto simp: gives_def rest_visits_def)
    next
      case True
      let ?S = "Fresh (cs ! c) # At i cs p d (Suc c) # S"
      have v: "rest_visits cs c + stack_visits S = Suc (stack_visits ?S)"
        using True n by (simp add: rest_visits_step)
      have l: "under ps (concat (map opreorder (drop c cs))) @ left S (tl ps) = left ?S ps"
        using True n by (simp flip: Cons_nth_drop_Suc)
      have ok: "list_all (item_ok ?b ?st) ?S" using 2(1,2) True by (auto simp: holds_simps)
      have g: "gives ?b ?st (digit_iter_next f trie (iter_at ?S ps) :: (_, 'e) res) (left ?S ps) (stack_visits ?S)"
        using 2(4) v by (intro next_IH [OF ok]) simp
      have step: "digit_iter_loop (Suc f) trie i (map (map_option aix) cs) (int c) (iter_at S ps) =
          and_then (digit_iter_next f trie (iter_at ?S ps) :: (_, 'e) res) (\<lambda>(r, it').
            case r of None \<Rightarrow> digit_iter_loop f trie i (map (map_option aix) cs) (int c + 1) (it'\<lparr>di_stack := tl (di_stack it')\<rparr>)
            | Some x \<Rightarrow> Ok (Some x, it'))"
        using True n by (simp add: index_def iter_at_def add.commute cong: option.case_cong)
      show ?thesis
      proof (cases "left ?S ps")
        case Nil
        then obtain qs where qs: "digit_iter_next f trie (iter_at ?S ps) = (Ok (None, iter_at ([] :: 'a item list) qs) :: (_, 'e) res)"
          using g gives_None by metis
        have e: "concat (map opreorder (drop (Suc c) cs)) = []" using Nil by (auto simp: under_def)
        have "gives ?b ?st (digit_iter_loop f trie i (map (map_option aix) cs) (int (Suc c)) (iter_at ([] :: 'a item list) qs) :: (_, 'e) res)
            (under qs (concat (map opreorder (drop (Suc c) cs))) @ left [] (tl qs)) (rest_visits cs (Suc c) + stack_visits ([] :: 'a item list))"
          using 2(2,4) v by (intro loop_IH [where p = p and d = d]) auto
        moreover have "under ps (concat (map opreorder (drop (Suc c) cs))) = []" using e by (simp only: under_simps)
        ultimately show ?thesis unfolding l step qs Nil
          using v e by (auto simp: add.commute [of _ 1] simp del: digit_iter_loop.simps intro: gives_mono)
      next
        case (Cons y es)
        then obtain S' qs where "list_all (item_ok ?b ?st) S'" "stack_visits S' \<le> stack_visits ?S" "left S' qs = es"
            "digit_iter_next f trie (iter_at ?S ps) = (Ok (Some \<lparr>lr_path = fst y, lr_value = snd y\<rparr>, iter_at S' qs) :: (_, 'e) res)"
          using g gives_Some [of ?b ?st _ "fst y" "snd y" es] by (metis prod.collapse)
        then show ?thesis unfolding l step Cons v
          by (auto simp: gives_def split: prod.split intro!: exI [of _ S'] exI [of _ qs])
      qed
    qed
  }
qed

text \<open>The traversal of a tree in the arena: its length, its content and its order.\<close>

lemma finite_ixs [simp]: "holds b st t \<Longrightarrow> finite (ixs t)"
  by (rule finite_subset [of _ "{..<length st}"]) (auto dest: holds_bound)

lemma sum_oixs:
  assumes "\<And>k. k < length cs \<Longrightarrow> finite (oixs (cs ! k))"
    and "\<And>k l. k < length cs \<Longrightarrow> l < length cs \<Longrightarrow> k \<noteq> l \<Longrightarrow> oixs (cs ! k) \<inter> oixs (cs ! l) = {}"
  shows "sum_list (map (\<lambda>c. card (oixs c)) cs) = card (\<Union>k<length cs. oixs (cs ! k))"
proof -
  have "card (\<Union>k<length cs. oixs (cs ! k)) = (\<Sum>k<length cs. card (oixs (cs ! k)))"
    using assms by (intro card_UN_disjoint) auto
  then show ?thesis by (simp add: sum_list_sum_nth atLeast0LessThan)
qed

lemma holds_card:
  assumes "holds b st (ANode i cs p d)"
  shows "card (ixs (ANode i cs p d)) = 1 + sum_list (map (\<lambda>c. card (oixs c)) cs)" "length cs = b"
proof -
  have n: "length cs = b" "\<And>k u. k < b \<Longrightarrow> cs ! k = Some u \<Longrightarrow> holds b st u \<and> i \<notin> ixs u"
    "\<And>k l. k < b \<Longrightarrow> l < b \<Longrightarrow> k \<noteq> l \<Longrightarrow> oixs (cs ! k) \<inter> oixs (cs ! l) = {}"
    using assms by (auto simp: holds_simps)
  have f: "finite (oixs (cs ! k)) \<and> i \<notin> oixs (cs ! k)" if "k < length cs" for k
    using n(1,2) that finite_ixs by (cases "cs ! k") (auto, blast)
  then show "card (ixs (ANode i cs p d)) = 1 + sum_list (map (\<lambda>c. card (oixs c)) cs)"
    using sum_oixs [of cs] n by (simp add: ixs_ANode)
  show "length cs = b" by (rule n(1))
qed

lemma visits_card: "holds b st t \<Longrightarrow> visits t \<le> card (ixs t) * (3 * b + 1)"
proof (induction t rule: holds.induct)
  case (holds_node i cs p d)
  let ?w = "3 * b + 1"
  have h: "holds b st (ANode i cs p d)" by (rule holds.holds_node) (use holds_node in auto)
  have "2 + ovisits c \<le> 3 + card (oixs c) * ?w" if "c \<in> set cs" for c
  proof (cases c)
    case (Some u)
    then obtain k where "k < b" "cs ! k = Some u" using \<open>c \<in> set cs\<close> holds_node.hyps(4) by (metis in_set_conv_nth)
    then show ?thesis using holds_node.IH [of k u] Some by (simp add: ovisits_def)
  qed (simp add: ovisits_def)
  then have "sum_list (map (\<lambda>c. 2 + ovisits c) cs) \<le> sum_list (map (\<lambda>c. 3 + card (oixs c) * ?w) cs)"
    by (intro sum_list_mono)
  also have "\<dots> = 3 * b + sum_list (map (\<lambda>c. card (oixs c)) cs) * ?w"
    using holds_node.hyps(4) by (simp add: sum_list_addf sum_list_mult_const sum_list_triv)
  finally show ?case using holds_card [OF h] by (simp add: visits_ANode)
qed simp

lemma preorder_card: "holds b st t \<Longrightarrow> length (preorder t) \<le> card (ixs t)"
proof (induction t rule: holds.induct)
  case (holds_node i cs p d)
  have h: "holds b st (ANode i cs p d)" by (rule holds.holds_node) (use holds_node in auto)
  have "length (opreorder c) \<le> card (oixs c)" if "c \<in> set cs" for c
  proof (cases c)
    case (Some u)
    then obtain k where "k < b" "cs ! k = Some u" using \<open>c \<in> set cs\<close> holds_node.hyps(4) by (metis in_set_conv_nth)
    then show ?thesis using holds_node.IH Some by (simp add: opreorder_def)
  qed (simp add: opreorder_def)
  then have "length (concat (map opreorder cs)) \<le> sum_list (map (\<lambda>c. card (oixs c)) cs)"
    by (simp add: length_concat o_def sum_list_mono)
  then show ?case using holds_card [OF h] by (simp add: preorder_ANode split: option.splits)
qed simp

lemma set_preorder: "holds b st t \<Longrightarrow> (q, x) \<in> set (preorder t) \<longleftrightarrow> entry t q = Some x"
proof (induction t arbitrary: q rule: holds.induct)
  case (holds_node i cs p d)
  have kids: "(r, x) \<in> set (opreorder (cs ! k)) \<longleftrightarrow> oentry (cs ! k) r = Some x" if "k < b" for k r
    using holds_node.IH that by (cases "cs ! k") (auto simp: opreorder_def)
  have first: "\<exists>r'. r = k # r'" if "k < b" "oentry (cs ! k) r = Some x" for k r
  proof (cases "cs ! k")
    case (Some u)
    then have "prefix (apath u) r" "\<exists>r'. apath u = k # r'" using that holds_node.IH entry_prefix by auto
    then show ?thesis by (auto simp: prefix_def)
  qed (use that in simp)
  have "(q, x) \<in> set (preorder (ANode i cs p d)) \<longleftrightarrow>
      (q = p \<and> d = Some x) \<or> (\<exists>r k. q = p @ r \<and> k < b \<and> oentry (cs ! k) r = Some x)"
    using kids holds_node.hyps(4)
    by (auto simp: preorder_ANode set_conv_nth [of cs] apfst_def image_iff split: option.splits) fastforce+
  also have "\<dots> \<longleftrightarrow> entry (ANode i cs p d) q = Some x"
    using first holds_node.hyps(4) by (auto simp: entry_ANode kid_def prefix_def) fastforce+
  finally show ?case .
qed auto


definition path_order :: "(nat list \<times> nat list) set" where
  "path_order = lexord {(x, y). x < y}"

lemma path_order_simps [simp]:
  "(p @ q, p @ r) \<in> path_order \<longleftrightarrow> (q, r) \<in> path_order" "([], x # r) \<in> path_order"
  "(x # q, y # r) \<in> path_order \<longleftrightarrow> x < y \<or> x = y \<and> (q, r) \<in> path_order"
  "(p, p @ r) \<in> path_order \<longleftrightarrow> r \<noteq> []"
proof -
  have i: "irrefl {(x :: nat, y). x < y}" by (auto simp: irrefl_def)
  then have a: "(p @ q, p @ r) \<in> path_order \<longleftrightarrow> (q, r) \<in> path_order" for q r
    unfolding path_order_def by (intro lexord_same_pref_if_irrefl)
  then show "(p @ q, p @ r) \<in> path_order \<longleftrightarrow> (q, r) \<in> path_order" .
  show b: "([], x # r) \<in> path_order" "(x # q, y # r) \<in> path_order \<longleftrightarrow> x < y \<or> x = y \<and> (q, r) \<in> path_order"
    by (simp_all add: path_order_def)
  show "(p, p @ r) \<in> path_order \<longleftrightarrow> r \<noteq> []"
    using a [of "[]" r] by (cases r) (simp_all add: path_order_def)
qed

lemma sorted_preorder: "holds b st t \<Longrightarrow> sorted_wrt (\<lambda>x y. (fst x, fst y) \<in> path_order) (preorder t)"
proof (induction t rule: holds.induct)
  case (holds_node i cs p d)
  let ?R = "\<lambda>x y. (fst x, fst y) \<in> path_order"
  have kid: "sorted_wrt ?R (opreorder (cs ! k)) \<and> (\<forall>x\<in>set (opreorder (cs ! k)). \<exists>r. fst x = k # r)" if "k < b" for k
  proof (cases "cs ! k")
    case (Some u)
    then have "holds b st u" "sorted_wrt ?R (preorder u)" "\<exists>r. apath u = k # r" using that holds_node.IH by auto
    then show ?thesis using Some set_preorder entry_prefix by (fastforce simp: opreorder_def prefix_def)
  qed (simp add: opreorder_def)
  have "sorted_wrt ?R (concat (map (\<lambda>k. opreorder (cs ! k)) [0..<n])) \<and>
      (\<forall>x\<in>set (concat (map (\<lambda>k. opreorder (cs ! k)) [0..<n])). \<exists>k r. k < n \<and> fst x = k # r)" if "n \<le> b" for n
    using that
  proof (induction n)
    case (Suc n)
    then show ?case using kid [of n] by (fastforce simp: sorted_wrt_append)
  qed simp
  moreover have m: "map opreorder cs = map (\<lambda>k. opreorder (cs ! k)) [0..<b]"
    using holds_node.hyps(4) by (intro nth_equalityI) auto
  ultimately have k: "sorted_wrt ?R (concat (map opreorder cs))" "\<forall>x\<in>set (concat (map opreorder cs)). fst x \<noteq> []"
    by (simp, fastforce simp: m)
  then show ?case
    by (auto simp: preorder_ANode sorted_wrt_append sorted_wrt_map split: option.splits)
qed simp

lemma digit_iter_drain_left:
  assumes "0 < dt_base trie"
  shows "list_all (item_ok (dt_base trie) (dt_store trie)) S \<Longrightarrow> stack_visits S \<le> digit_iter_fuel trie \<Longrightarrow>
    length (left S ps) < n \<Longrightarrow>
    digit_iter_drain n trie (iter_at S ps) = (Ok (map (\<lambda>(q, d). \<lparr>lr_path = q, lr_value = d\<rparr>) (left S ps)) :: (_, 'e) res)"
proof (induction n arbitrary: S ps)
  case (Suc n)
  note g = digit_iter_gives(1) [OF assms Suc.prems(1,2), of ps]
  show ?case
  proof (cases "left S ps")
    case Nil
    then obtain qs where "digit_iter_next (digit_iter_fuel trie) trie (iter_at S ps) =
        (Ok (None, iter_at ([] :: 'a item list) qs) :: (_, 'e) res)"
      using g gives_None by metis
    then show ?thesis using Nil by simp
  next
    case (Cons y es)
    then obtain S' qs where "list_all (item_ok (dt_base trie) (dt_store trie)) S'" "stack_visits S' \<le> stack_visits S" "left S' qs = es"
        "digit_iter_next (digit_iter_fuel trie) trie (iter_at S ps) =
          (Ok (Some \<lparr>lr_path = fst y, lr_value = snd y\<rparr>, iter_at S' qs) :: (_, 'e) res)"
      using g gives_Some [of _ _ _ "fst y" "snd y" es] by (metis prod.collapse)
    then show ?thesis using Suc.IH [of S' qs] Suc.prems(2,3) Cons by (simp add: case_prod_beta)
  qed
qed simp

lemma digit_iter_collect_preorder:
  assumes "dt_tree b trie ot" "0 < b"
  shows "digit_iter_collect trie = (Ok (map (\<lambda>(q, d). \<lparr>lr_path = q, lr_value = d\<rparr>) (opreorder ot)) :: (_, 'e) res)"
proof -
  have b: "dt_base trie = b" "dt_root trie = map_option aix ot" and h: "\<And>t. ot = Some t \<Longrightarrow> holds b (dt_store trie) t"
    using assms(1) by (auto simp: dt_tree_def)
  have c: "card (ixs t) \<le> length (dt_store trie)" if "ot = Some t" for t
    using holds_bound [OF h [OF that]] by (intro card_mono [of "{..<length (dt_store trie)}", simplified]) auto
  have v: "ovisits ot \<le> digit_iter_fuel trie - 1"
  proof (cases ot)
    case (Some t)
    have "visits t \<le> card (ixs t) * (3 * b + 1)" by (rule visits_card [OF h [OF Some]])
    also have "\<dots> \<le> length (dt_store trie) * (3 * b + 1)" by (rule mult_le_mono1 [OF c [OF Some]])
    finally show ?thesis using Some b by (simp add: ovisits_def digit_iter_fuel_def)
  qed (simp add: ovisits_def digit_iter_fuel_def)
  have l: "length (opreorder ot) \<le> length (dt_store trie)"
    using preorder_card [OF h] c by (cases ot) (force simp: opreorder_def)+
  have "digit_iter_drain (length (dt_store trie) + 1) trie (iter_at [Fresh ot] []) =
      (Ok (map (\<lambda>(q, d). \<lparr>lr_path = q, lr_value = d\<rparr>) (left [Fresh ot] [])) :: (_, 'e) res)"
    using assms(2) b h v l by (intro digit_iter_drain_left) (auto simp: under_def digit_iter_fuel_def)
  then show ?thesis using b
    by (simp add: digit_iter_collect_def digit_iter_new_def iter_at_def under_def apfst_def map_prod_def
        case_prod_beta o_def del: digit_iter_drain.simps)
qed

text \<open>
  C33. Iterating over a well-formed digit trie ends without a panic, and yields every path with its datum exactly once,
  in the lexicographic order of the paths.
\<close>

theorem digit_trie_iter_complete:
  assumes "dt_inv b t" "0 < b"
  shows "\<exists>xs. digit_iter_collect t = (Ok xs :: (_, 'e) res) \<and>
    sorted_wrt (\<lambda>x y. (lr_path x, lr_path y) \<in> lexord {(a, b). a < b}) xs \<and>
    (\<forall>p d. dt_get t p = Some d \<longleftrightarrow> \<lparr>lr_path = p, lr_value = d\<rparr> \<in> set xs)"
proof -
  obtain ot where ot: "dt_tree b t ot" using assms(1) by (auto simp: dt_inv_tree)
  have h: "holds b (dt_store t) u" if "ot = Some u" for u using ot that by (simp add: dt_tree_def)
  have s: "sorted_wrt (\<lambda>x y. (fst x, fst y) \<in> path_order) (opreorder ot)"
    using sorted_preorder [OF h] by (cases ot) (simp_all add: opreorder_def)
  have m: "dt_get t p = Some d \<longleftrightarrow> (p, d) \<in> set (opreorder ot)" for p d
    using set_preorder [OF h] dt_get_tree [OF ot] by (cases ot) (simp_all add: opreorder_def)
  show ?thesis
    using digit_iter_collect_preorder [OF ot assms(2), where 'e = 'e] s m
    by (intro exI conjI) (auto simp: sorted_wrt_map path_order_def case_prod_beta image_iff, metis fst_conv snd_conv)
qed

lemma digit_trie_iter_complete_witness:
  "\<exists>t xs. digit_trie_insert (digit_trie_new 2) [1, 0] (\<lambda>_ s. Ok (7 :: nat, s)) () = (Ok (t, ()) :: (_, unit) res) \<and>
     digit_iter_collect t = (Ok xs :: (_, unit) res) \<and> \<lparr>lr_path = [1, 0], lr_value = 7\<rparr> \<in> set xs"
proof -
  obtain t where t: "digit_trie_insert (digit_trie_new 2) [1, 0] (\<lambda>_ s. Ok (7 :: nat, s)) () = (Ok (t, ()) :: (_, unit) res)"
      "dt_inv 2 t" "dt_get t [1, 0] = Some 7"
    using dt_ins_Ok [OF dt_inv_new [of 2], of "[1, 0]" "\<lambda>_ s. Ok (7 :: nat, s)" "()" 7 "()"]
    by (fastforce simp: dt_path_def simp del: One_nat_def)
  then show ?thesis using digit_trie_iter_complete [OF t(2), where 'e = unit] by fastforce
qed

end
