(* ===== verification/Contract_Info.thy ===== *)
theory Contract_Info
  imports Dlc_Messages Trie_Iterators Payout_Curve Combination_Iterator
begin

text \<open>
  The descriptors of a contract and its information about outcomes and oracles:
  \<open>contract/enum_descriptor.rs\<close>, \<open>numerical_descriptor.rs\<close>, \<open>contract_info.rs\<close>, \<open>utils.rs\<close> and the
  descriptors of \<open>contract/mod.rs\<close> in \<open>ddk-manager/src\<close>.  The order in which a \<open>HashMap\<close> is iterated
  is an argument.  The main results: the adaptor signatures one party makes verify for the other, and
  the index computed for attested outcomes is the one of the signature made for them.
\<close>

section \<open>Helpers\<close>

text \<open>Equal as collections: the code compares the counts of the elements.\<close>

definition unordered_equal :: "'a list \<Rightarrow> 'a list \<Rightarrow> bool" where
  "unordered_equal a b \<longleftrightarrow> mset a = mset b"

text \<open>An oracle's outcome: its index and the strings it attests.\<close>

type_synonym oracle_outcome = "nat \<times> bytes list"
type_synonym outcome_group = "bytes list \<times> nat list"

fun add_outcome :: "oracle_outcome \<Rightarrow> outcome_group list \<Rightarrow> outcome_group list" where
  "add_outcome (i, v) [] = [(v, [i])]"
| "add_outcome (i, v) ((w, is) # gs) = (if v = w then (w, is @ [i]) # gs else (w, is) # add_outcome (i, v) gs)"

definition get_majority_combination ::
  "(outcome_group list \<Rightarrow> outcome_group list) \<Rightarrow> oracle_outcome list \<Rightarrow> (bytes list \<times> nat list) option" where
  "get_majority_combination hash_order outs =
     (let hash_set = fold add_outcome outs [] in
      if hash_set = [] then None else Some (last (sort_key (\<lambda>x. length (snd x)) (hash_order hash_set))))"

text \<open>\<open>usize::to_string\<close> and \<open>str::parse::<usize>\<close>.\<close>

fun decimal :: "nat \<Rightarrow> bytes" where
  "decimal n = (if n < 10 then [48 + n] else decimal (n div 10) @ [48 + n mod 10])"

definition parse_usize :: "bytes \<Rightarrow> nat option" where
  "parse_usize s =
     (let ds = (if s \<noteq> [] \<and> hd s = 43 then tl s else s);
          v = foldl (\<lambda>a b. a * 10 + (b - 48)) 0 ds
      in if ds = [] \<or> list_ex (\<lambda>b. b < 48 \<or> 57 < b) ds \<or> usize_bound \<le> v then None else Some v)"

section \<open>Enumerated outcomes\<close>

record enumeration_payout =
  ep_outcome :: bytes
  ep_payout :: payout

definition enum_get_payouts :: "enumeration_payout list \<Rightarrow> payout list" where
  "enum_get_payouts ps = map ep_payout ps"

definition enum_validate :: "enumeration_payout list \<Rightarrow> bytes list \<Rightarrow> (unit, manager_error) res" where
  "enum_validate ps event_outcomes =
     (if unordered_equal event_outcomes (map ep_outcome ps) then Ok () else Err InvalidParameters)"

text \<open>The two loops over the outcomes and the combinations of oracles, with the state of the callback.\<close>

definition iter_outcomes_step ::
  "('m) oracle_api_scheme \<Rightarrow> oracle_info list \<Rightarrow> (pubkey \<Rightarrow> nat \<Rightarrow> 's \<Rightarrow> ('s, dlc_error) res) \<Rightarrow> nat
    \<Rightarrow> message list list \<Rightarrow> nat list \<Rightarrow> 's \<Rightarrow> ('s, dlc_error) res" where
  "iter_outcomes_step api oracle_infos callback i outcome_messages sel s =
     (let cur_oracle_infos = map snd (filter (\<lambda>(i, _). i \<in> set sel) (enumerate 0 oracle_infos)) in
      and_then (get_adaptor_point_from_oracle_info api cur_oracle_infos outcome_messages) (\<lambda>adaptor_point.
        callback adaptor_point i s))"

definition iter_outcomes ::
  "('m) oracle_api_scheme \<Rightarrow> enumeration_payout list \<Rightarrow> oracle_info list \<Rightarrow> nat
    \<Rightarrow> (pubkey \<Rightarrow> nat \<Rightarrow> 's \<Rightarrow> ('s, dlc_error) res) \<Rightarrow> 's \<Rightarrow> ('s, dlc_error) res" where
  "iter_outcomes api ps oracle_infos threshold callback s =
     (let msgs = map (\<lambda>x. replicate threshold [tagged_attestation_msg api (ep_outcome x)]) ps in
      and_then (ci_new (length oracle_infos) threshold) (\<lambda>it.
      and_then (ci_collect it) (\<lambda>combinations.
        fold_res (\<lambda>(i, outcome_messages) s.
            fold_res (iter_outcomes_step api oracle_infos callback i outcome_messages) combinations s)
          (enumerate 0 msgs) s)))"

definition enum_get_adaptor_signatures ::
  "('m) oracle_api_scheme \<Rightarrow> enumeration_payout list \<Rightarrow> oracle_info list \<Rightarrow> nat \<Rightarrow> transaction list \<Rightarrow> seckey \<Rightarrow> script
    \<Rightarrow> nat \<Rightarrow> (adaptor_sig list, dlc_error) res" where
  "enum_get_adaptor_signatures api ps oracle_infos threshold cets fund_privkey witness_script fund_output_value =
     iter_outcomes api ps oracle_infos threshold
       (\<lambda>adaptor_point i sigs.
          and_then (index cets i) (\<lambda>cet.
          and_then (create_cet_adaptor_sig_from_point api cet adaptor_point fund_privkey witness_script fund_output_value) (\<lambda>sig.
            Ok (sigs @ [sig])))) []"

definition enum_verify_adaptor_info ::
  "('m) oracle_api_scheme \<Rightarrow> enumeration_payout list \<Rightarrow> oracle_info list \<Rightarrow> nat \<Rightarrow> pubkey \<Rightarrow> script \<Rightarrow> nat
    \<Rightarrow> transaction list \<Rightarrow> adaptor_sig list \<Rightarrow> nat \<Rightarrow> (nat, dlc_error) res" where
  "enum_verify_adaptor_info api ps oracle_infos threshold fund_pk witness_script fund_output_value cets adaptor_sigs
       adaptor_sig_start =
     iter_outcomes api ps oracle_infos threshold
       (\<lambda>adaptor_point i idx.
          and_then (index adaptor_sigs idx) (\<lambda>sig.
          and_then (uadd idx 1) (\<lambda>idx'.
          and_then (index cets i) (\<lambda>cet.
          and_then (verify_cet_adaptor_sig_from_point api sig cet adaptor_point fund_pk witness_script fund_output_value) (\<lambda>_.
            Ok idx'))))) adaptor_sig_start"

text \<open>The position of the attested outcome and of the combination of oracles among the signatures.\<close>

definition enum_get_range_info ::
  "(outcome_group list \<Rightarrow> outcome_group list) \<Rightarrow> enumeration_payout list \<Rightarrow> nat \<Rightarrow> nat \<Rightarrow> oracle_outcome list \<Rightarrow> nat
    \<Rightarrow> (((nat \<times> nat) list \<times> range_info) option, 'e) res" where
  "enum_get_range_info hash_order ps nb_oracles threshold outs adaptor_sig_start =
     (if length outs < threshold then Ok None
      else
        (case get_majority_combination hash_order (filter (\<lambda>x. length (snd x) = 1) outs) of
           None \<Rightarrow> Ok None
         | Some (outcome, combination) \<Rightarrow>
             and_then (index outcome 0) (\<lambda>outcome.
             if length combination < threshold then Ok None
             else
               (let actual_combination = take threshold combination in
                case find (\<lambda>(_, x). ep_outcome x = outcome) (enumerate 0 ps) of
                  None \<Rightarrow> Ok None
                | Some (pos, _) \<Rightarrow>
                    and_then (ci_new nb_oracles threshold) (\<lambda>it.
                    and_then (ci_collect it) (\<lambda>combinations.
                    let comb_count = length combinations;
                        comb_pos = fold (\<lambda>(i, c) p. if c = actual_combination then i else p) (enumerate 0 combinations) 0
                    in
                    and_then (umul comb_count pos) (\<lambda>a.
                    and_then (uadd a comb_pos) (\<lambda>a.
                    and_then (uadd a adaptor_sig_start) (\<lambda>a.
                      Ok (Some (map (\<lambda>x. (x, 1)) actual_combination, \<lparr>cet_index = pos, adaptor_index = a\<rparr>)))))))))))"

section \<open>Numerical outcomes\<close>

record difference_params =
  df_max_error_exp :: nat
  df_min_support_exp :: nat
  df_maximize_coverage :: bool

record numerical_descriptor =
  nd_payout_function :: payout_function
  nd_rounding_intervals :: rounding_intervals
  nd_difference_params :: "difference_params option"
  nd_oracle_numeric_infos :: oracle_numeric_info

datatype adaptor_info = EnumInfo | NumericalInfo multi_oracle_trie | DifferenceInfo diff_trie

definition numeric_get_range_payouts :: "numerical_descriptor \<Rightarrow> nat \<Rightarrow> (range_payout list, manager_error) res" where
  "numeric_get_range_payouts n total_collateral =
     to_range_payouts (nd_payout_function n) total_collateral (nd_rounding_intervals n)"

definition numeric_get_payouts :: "numerical_descriptor \<Rightarrow> nat \<Rightarrow> (payout list, manager_error) res" where
  "numeric_get_payouts n total_collateral =
     and_then (numeric_get_range_payouts n total_collateral) (\<lambda>rs. Ok (map rp_payout rs))"

definition numeric_validate :: "numerical_descriptor \<Rightarrow> nat \<Rightarrow> (unit, manager_error) res" where
  "numeric_validate n max_value =
     and_then (rounding_validate (nd_rounding_intervals n)) (\<lambda>_. payout_function_validate (nd_payout_function n) max_value)"

definition numeric_get_adaptor_info ::
  "('m) crypto_api_scheme \<Rightarrow> numerical_descriptor \<Rightarrow> nat \<Rightarrow> seckey \<Rightarrow> script \<Rightarrow> nat \<Rightarrow> nat \<Rightarrow> pubkey list list list
    \<Rightarrow> transaction list \<Rightarrow> nat \<Rightarrow> (adaptor_info \<times> adaptor_sig list, manager_error) res" where
  "numeric_get_adaptor_info api n total_collateral fund_privkey witness_script fund_output_value threshold points cets
       adaptor_index_start =
     (case nd_difference_params n of
        Some params \<Rightarrow>
          and_then (map_err DlcError (diff_trie_new (nd_oracle_numeric_infos n) threshold (df_min_support_exp params)
            (df_max_error_exp params))) (\<lambda>trie.
          and_then (numeric_get_range_payouts n total_collateral) (\<lambda>ranges.
          and_then (map_err DlcError (generate_sign api diff_trie_generate trie fund_privkey witness_script fund_output_value
            ranges cets points adaptor_index_start)) (\<lambda>(trie', sigs).
            Ok (DifferenceInfo trie', sigs))))
      | None \<Rightarrow>
          and_then (map_err DlcError (oracle_trie_new (nd_oracle_numeric_infos n) threshold)) (\<lambda>trie.
          and_then (numeric_get_range_payouts n total_collateral) (\<lambda>ranges.
          and_then (map_err DlcError (generate_sign api oracle_trie_generate trie fund_privkey witness_script fund_output_value
            ranges cets points adaptor_index_start)) (\<lambda>(trie', sigs).
            Ok (NumericalInfo trie', sigs)))))"

definition numeric_verify_and_get_adaptor_info ::
  "('m) crypto_api_scheme \<Rightarrow> numerical_descriptor \<Rightarrow> nat \<Rightarrow> pubkey \<Rightarrow> script \<Rightarrow> nat \<Rightarrow> nat \<Rightarrow> pubkey list list list
    \<Rightarrow> transaction list \<Rightarrow> adaptor_sig list \<Rightarrow> nat \<Rightarrow> (adaptor_info \<times> nat, manager_error) res" where
  "numeric_verify_and_get_adaptor_info api n total_collateral fund_pk witness_script fund_output_value threshold points cets
       adaptor_sigs adaptor_index_start =
     (case nd_difference_params n of
        Some params \<Rightarrow>
          and_then (map_err DlcError (diff_trie_new (nd_oracle_numeric_infos n) threshold (df_min_support_exp params)
            (df_max_error_exp params))) (\<lambda>trie.
          and_then (numeric_get_range_payouts n total_collateral) (\<lambda>ranges.
          and_then (map_err DlcError (generate_verify api diff_trie_generate trie fund_pk witness_script fund_output_value
            ranges cets points adaptor_sigs adaptor_index_start)) (\<lambda>(trie', i).
            Ok (DifferenceInfo trie', i))))
      | None \<Rightarrow>
          and_then (map_err DlcError (oracle_trie_new (nd_oracle_numeric_infos n) threshold)) (\<lambda>trie.
          and_then (numeric_get_range_payouts n total_collateral) (\<lambda>ranges.
          and_then (map_err DlcError (generate_verify api oracle_trie_generate trie fund_pk witness_script fund_output_value
            ranges cets points adaptor_sigs adaptor_index_start)) (\<lambda>(trie', i).
            Ok (NumericalInfo trie', i)))))"

section \<open>Contract information\<close>

datatype contract_descriptor = EnumDescriptor "enumeration_payout list" | NumericalDescriptor numerical_descriptor

definition get_oracle_params :: "contract_descriptor \<Rightarrow> difference_params option" where
  "get_oracle_params d = (case d of EnumDescriptor _ \<Rightarrow> None | NumericalDescriptor n \<Rightarrow> nd_difference_params n)"

definition checked_pow :: "nat \<Rightarrow> nat \<Rightarrow> nat option" where
  "checked_pow b n = (if b ^ n < usize_bound then Some (b ^ n) else None)"

definition descriptor_validate :: "contract_descriptor \<Rightarrow> oracle_announcement list \<Rightarrow> (unit, manager_error) res" where
  "descriptor_validate d announcements =
     and_then (unwrap (case announcements of [] \<Rightarrow> None | a # _ \<Rightarrow> Some a)) (\<lambda>first.
     case event_desc (announced_event first) of
       EnumEvent event_outcomes \<Rightarrow>
         and_then (fold_res (\<lambda>announcement _.
             case event_desc (announced_event announcement) of
               EnumEvent xs \<Rightarrow> ensure (unordered_equal event_outcomes xs) InvalidParameters
             | DigitDecompositionEvent _ \<Rightarrow> Err InvalidParameters) announcements ()) (\<lambda>_.
           case d of EnumDescriptor e \<Rightarrow> enum_validate e event_outcomes | NumericalDescriptor _ \<Rightarrow> Err InvalidParameters)
     | DigitDecompositionEvent _ \<Rightarrow>
         (case d of
            NumericalDescriptor n \<Rightarrow>
              and_then (get_min_nb_digits (nd_oracle_numeric_infos n)) (\<lambda>min_nb_digits.
              and_then (ok_or InvalidParameters (checked_pow (oni_base (nd_oracle_numeric_infos n)) (as_u32 min_nb_digits)))
                (\<lambda>max_value. and_then (usub max_value 1) (numeric_validate n)))
          | EnumDescriptor _ \<Rightarrow> Err InvalidParameters))"

record contract_info =
  cn_contract_descriptor :: contract_descriptor
  cn_oracle_announcements :: "oracle_announcement list"
  cn_threshold :: nat

definition info_get_payouts :: "contract_info \<Rightarrow> nat \<Rightarrow> (payout list, manager_error) res" where
  "info_get_payouts c total_collateral =
     (case cn_contract_descriptor c of
        EnumDescriptor e \<Rightarrow> Ok (enum_get_payouts e)
      | NumericalDescriptor n \<Rightarrow> numeric_get_payouts n total_collateral)"

definition info_validate :: "contract_info \<Rightarrow> (unit, manager_error) res" where
  "info_validate c =
     (if cn_oracle_announcements c = [] then Err InvalidState
      else descriptor_validate (cn_contract_descriptor c) (cn_oracle_announcements c))"

definition get_oracle_infos :: "contract_info \<Rightarrow> oracle_info list" where
  "get_oracle_infos c = map announcement_oracle_info (cn_oracle_announcements c)"

definition oracle_points ::
  "('m) oracle_api_scheme \<Rightarrow> oracle_announcement \<Rightarrow> (pubkey list list, manager_error) res" where
  "oracle_points api x =
     (case event_desc (announced_event x) of
        DigitDecompositionEvent d \<Rightarrow>
          (if dd_nb_digits d \<noteq> length (oracle_nonces (announced_event x)) then Err InvalidParameters
           else
             traverse (\<lambda>nonce.
               traverse (\<lambda>j.
                 map_err DlcError (schnorrsig_compute_sig_point api (oracle_public_key x) nonce
                   (tagged_attestation_msg api (decimal j)))) [0..<digit_event.dd_base d]) (oracle_nonces (announced_event x)))
      | EnumEvent _ \<Rightarrow> Err InvalidParameters)"

definition precompute_points :: "('m) oracle_api_scheme \<Rightarrow> contract_info \<Rightarrow> (pubkey list list list, manager_error) res" where
  "precompute_points api c = traverse (oracle_points api) (cn_oracle_announcements c)"

definition info_get_adaptor_info ::
  "('m) oracle_api_scheme \<Rightarrow> contract_info \<Rightarrow> nat \<Rightarrow> seckey \<Rightarrow> script \<Rightarrow> nat \<Rightarrow> transaction list \<Rightarrow> nat
    \<Rightarrow> (adaptor_info \<times> adaptor_sig list, manager_error) res" where
  "info_get_adaptor_info api c total_collateral fund_privkey witness_script fund_output_value cets adaptor_index_start =
     (case cn_contract_descriptor c of
        EnumDescriptor e \<Rightarrow>
          and_then (map_err DlcError (enum_get_adaptor_signatures api e (get_oracle_infos c) (cn_threshold c) cets
            fund_privkey witness_script fund_output_value)) (\<lambda>sigs. Ok (EnumInfo, sigs))
      | NumericalDescriptor n \<Rightarrow>
          and_then (precompute_points api c) (\<lambda>points.
            numeric_get_adaptor_info api n total_collateral fund_privkey witness_script fund_output_value (cn_threshold c)
              points cets adaptor_index_start))"

definition info_verify_and_get_adaptor_info ::
  "('m) oracle_api_scheme \<Rightarrow> contract_info \<Rightarrow> nat \<Rightarrow> pubkey \<Rightarrow> script \<Rightarrow> nat \<Rightarrow> transaction list \<Rightarrow> adaptor_sig list
    \<Rightarrow> nat \<Rightarrow> (adaptor_info \<times> nat, manager_error) res" where
  "info_verify_and_get_adaptor_info api c total_collateral fund_pk witness_script fund_output_value cets adaptor_sigs
       adaptor_sig_start =
     (case cn_contract_descriptor c of
        EnumDescriptor e \<Rightarrow>
          and_then (map_err DlcError (enum_verify_adaptor_info api e (get_oracle_infos c) (cn_threshold c) fund_pk
            witness_script fund_output_value cets adaptor_sigs adaptor_sig_start)) (\<lambda>i. Ok (EnumInfo, i))
      | NumericalDescriptor n \<Rightarrow>
          and_then (precompute_points api c) (\<lambda>points.
            numeric_verify_and_get_adaptor_info api n total_collateral fund_pk witness_script fund_output_value
              (cn_threshold c) points cets adaptor_sigs adaptor_sig_start))"

text \<open>The signatures for an adaptor info that exists already, and their verification.\<close>

definition info_get_adaptor_signatures ::
  "('m) oracle_api_scheme \<Rightarrow> contract_info \<Rightarrow> adaptor_info \<Rightarrow> seckey \<Rightarrow> script \<Rightarrow> nat \<Rightarrow> transaction list
    \<Rightarrow> (adaptor_sig list, manager_error) res" where
  "info_get_adaptor_signatures api c info fund_privkey witness_script fund_output_value cets =
     (case info of
        EnumInfo \<Rightarrow>
          (case cn_contract_descriptor c of
             EnumDescriptor e \<Rightarrow>
               map_err DlcError (enum_get_adaptor_signatures api e (get_oracle_infos c) (cn_threshold c) cets
                 fund_privkey witness_script fund_output_value)
           | NumericalDescriptor _ \<Rightarrow> Panic)
      | NumericalInfo trie \<Rightarrow>
          and_then (precompute_points api c) (\<lambda>points.
            map_err DlcError (trie_sign api oracle_trie_iter trie fund_privkey witness_script fund_output_value cets points))
      | DifferenceInfo trie \<Rightarrow>
          and_then (precompute_points api c) (\<lambda>points.
            map_err DlcError (trie_sign api diff_trie_iter trie fund_privkey witness_script fund_output_value cets points)))"

definition info_verify_adaptor_info ::
  "('m) oracle_api_scheme \<Rightarrow> contract_info \<Rightarrow> pubkey \<Rightarrow> script \<Rightarrow> nat \<Rightarrow> transaction list \<Rightarrow> adaptor_sig list \<Rightarrow> nat
    \<Rightarrow> adaptor_info \<Rightarrow> (nat, manager_error) res" where
  "info_verify_adaptor_info api c fund_pk witness_script fund_output_value cets adaptor_sigs adaptor_sig_start info =
     (case cn_contract_descriptor c of
        EnumDescriptor e \<Rightarrow>
          map_err DlcError (enum_verify_adaptor_info api e (get_oracle_infos c) (cn_threshold c) fund_pk witness_script
            fund_output_value cets adaptor_sigs adaptor_sig_start)
      | NumericalDescriptor _ \<Rightarrow>
          (case info of
             EnumInfo \<Rightarrow> Panic
           | NumericalInfo trie \<Rightarrow>
               and_then (precompute_points api c) (\<lambda>points.
                 map_err DlcError (trie_verify api oracle_trie_iter trie fund_pk witness_script fund_output_value
                   adaptor_sigs cets points))
           | DifferenceInfo trie \<Rightarrow>
               and_then (precompute_points api c) (\<lambda>points.
                 map_err DlcError (trie_verify api diff_trie_iter trie fund_pk witness_script fund_output_value
                   adaptor_sigs cets points))))"

section \<open>From outcomes to signatures\<close>

definition get_digits_outcome :: "bytes list \<Rightarrow> (nat list, manager_error) res" where
  "get_digits_outcome input = traverse (\<lambda>x. ok_or InvalidParameters (parse_usize x)) input"

definition outcomes_to_digits :: "oracle_outcome list \<Rightarrow> indexed_path list" where
  "outcomes_to_digits outs =
     List.map_filter (\<lambda>(x, path). case get_digits_outcome path of Ok ds \<Rightarrow> Some (x, ds) | _ \<Rightarrow> None) outs"

definition path_lengths :: "(range_info \<times> indexed_path list) option \<Rightarrow> ((nat \<times> nat) list \<times> range_info) option" where
  "path_lengths r = map_option (\<lambda>(info, paths). (map (\<lambda>(x, y). (x, length y)) paths, info)) r"

record hash_orders =
  order_paths :: "agreement list \<Rightarrow> agreement list"
  order_outcomes :: "outcome_group list \<Rightarrow> outcome_group list"

definition info_get_range_info ::
  "hash_orders \<Rightarrow> contract_info \<Rightarrow> adaptor_info \<Rightarrow> oracle_outcome list \<Rightarrow> nat
    \<Rightarrow> (((nat \<times> nat) list \<times> range_info) option, 'e) res" where
  "info_get_range_info hash_order c info outs adaptor_sig_start =
     (case info of
        EnumInfo \<Rightarrow>
          (case cn_contract_descriptor c of
             EnumDescriptor e \<Rightarrow>
               enum_get_range_info (order_outcomes hash_order) e (length (cn_oracle_announcements c)) (cn_threshold c) outs
                 adaptor_sig_start
           | NumericalDescriptor _ \<Rightarrow> Panic)
      | NumericalInfo t \<Rightarrow>
          and_then (oracle_trie_look_up (order_paths hash_order) t (outcomes_to_digits outs)) (\<lambda>r. Ok (path_lengths r))
      | DifferenceInfo t \<Rightarrow>
          and_then (multi_trie_look_up (wd_trie t) (outcomes_to_digits outs)) (\<lambda>r. Ok (path_lengths r)))"

section \<open>The cases of an enumerated contract\<close>

lemma fold_res_product:
  "fold_res (\<lambda>x. fold_res (f x) ys) xs s = fold_res (\<lambda>(x, y). f x y) (List.product xs ys) s"
proof (induction xs arbitrary: s)
  case (Cons x xs)
  have m: "fold_res (\<lambda>(x, y). f x y) (map (Pair x) zs) s = fold_res (f x) zs s" for zs s
    by (induction zs arbitrary: s) (simp_all cong: and_then_cong)
  show ?case using Cons by (simp add: fold_res_append m cong: and_then_cong)
qed simp

text \<open>Every outcome with its index and message, and every combination of oracles.\<close>

definition enum_cases ::
  "('m) oracle_api_scheme \<Rightarrow> enumeration_payout list \<Rightarrow> nat \<Rightarrow> nat \<Rightarrow> ((nat \<times> message list list) \<times> nat list) list" where
  "enum_cases api ps nb threshold =
     List.product (enumerate 0 (map (\<lambda>x. replicate threshold [tagged_attestation_msg api (ep_outcome x)]) ps))
       (combs 0 nb threshold)"

definition chosen :: "'a list \<Rightarrow> nat list \<Rightarrow> 'a list" where
  "chosen xs sel = map snd (filter (\<lambda>(i, _). i \<in> set sel) (enumerate 0 xs))"

definition case_point ::
  "('m) oracle_api_scheme \<Rightarrow> oracle_info list \<Rightarrow> (nat \<times> message list list) \<times> nat list \<Rightarrow> (pubkey, dlc_error) res" where
  "case_point api oracle_infos c = get_adaptor_point_from_oracle_info api (chosen oracle_infos (snd c)) (snd (fst c))"

lemma iter_outcomes_cases:
  assumes "0 < threshold" "threshold \<le> length oracle_infos" "length oracle_infos < usize_bound"
  shows "iter_outcomes api ps oracle_infos threshold callback s =
    fold_res (\<lambda>c s. and_then (case_point api oracle_infos c) (\<lambda>p. callback p (fst (fst c)) s))
      (enum_cases api ps (length oracle_infos) threshold) s"
proof -
  have s: "(\<lambda>(i, m). fold_res (iter_outcomes_step api oracle_infos callback i m) cs) =
      (\<lambda>x. fold_res ((\<lambda>(i, m). iter_outcomes_step api oracle_infos callback i m) x) cs)" for cs
    by (simp add: fun_eq_iff split_beta)
  have "(\<lambda>(x, y). (\<lambda>(i, m). iter_outcomes_step api oracle_infos callback i m) x y) =
      (\<lambda>c s. and_then (case_point api oracle_infos c) (\<lambda>p. callback p (fst (fst c)) s))"
    by (auto simp: fun_eq_iff iter_outcomes_step_def case_point_def chosen_def)
  then show ?thesis
    using assms ci_collect_combs [OF assms(1,2,3) refl, where 'e = dlc_error]
    by (simp add: iter_outcomes_def ci_new_def enum_cases_def s fold_res_product)
qed

definition case_sig ::
  "('m) oracle_api_scheme \<Rightarrow> oracle_info list \<Rightarrow> transaction list \<Rightarrow> seckey \<Rightarrow> script \<Rightarrow> nat
    \<Rightarrow> (nat \<times> message list list) \<times> nat list \<Rightarrow> (adaptor_sig, dlc_error) res" where
  "case_sig api oracle_infos cets sk scr v c =
     and_then (case_point api oracle_infos c) (\<lambda>p.
     and_then (index cets (fst (fst c))) (\<lambda>cet. create_cet_adaptor_sig_from_point api cet p sk scr v))"

lemma fold_res_snoc_traverse:
  "fold_res (\<lambda>x ys. and_then (f x) (\<lambda>y. Ok (ys @ [y]))) xs ys = and_then (traverse f xs) (\<lambda>zs. Ok (ys @ zs))"
proof (induction xs arbitrary: ys)
  case (Cons x xs)
  then show ?case by (cases "f x") (simp_all add: and_then_assoc)
qed simp

lemma enum_signatures_traverse:
  assumes "0 < threshold" "threshold \<le> length oracle_infos" "length oracle_infos < usize_bound"
  shows "enum_get_adaptor_signatures api ps oracle_infos threshold cets sk scr v =
    traverse (case_sig api oracle_infos cets sk scr v) (enum_cases api ps (length oracle_infos) threshold)"
proof -
  have "(\<lambda>c sigs. and_then (case_point api oracle_infos c) (\<lambda>p. and_then (index cets (fst (fst c))) (\<lambda>cet.
        and_then (create_cet_adaptor_sig_from_point api cet p sk scr v) (\<lambda>sig. Ok (sigs @ [sig]))))) =
      (\<lambda>c sigs. and_then (case_sig api oracle_infos cets sk scr v c) (\<lambda>sig. Ok (sigs @ [sig])))"
    by (simp add: case_sig_def and_then_assoc)
  then show ?thesis
    using fold_res_snoc_traverse [of "case_sig api oracle_infos cets sk scr v" _ "[]"]
    by (simp add: enum_get_adaptor_signatures_def iter_outcomes_cases [OF assms] and_then_def split: res.splits)
qed

text \<open>Outside these bounds the iterator panics.\<close>

lemma iter_outcomes_panics:
  "length oracle_infos < threshold \<Longrightarrow> iter_outcomes api ps oracle_infos threshold callback s = Panic"
  by (simp add: iter_outcomes_def ci_new_def)

lemma verify_case:
  assumes "crypto_ok n api" "case_sig api oracle_infos cets sk scr v c = Ok sig"
    and "idx < length sigs" "sigs ! idx = sig" "idx + 1 < usize_bound"
  shows "and_then (case_point api oracle_infos c) (\<lambda>p.
      and_then (index sigs idx) (\<lambda>sig. and_then (uadd idx 1) (\<lambda>idx'. and_then (index cets (fst (fst c))) (\<lambda>cet.
      and_then (verify_cet_adaptor_sig_from_point api sig cet p (pk_of_sk api sk) scr v) (\<lambda>_. Ok idx'))))) = Ok (idx + 1)"
proof -
  obtain p msg where p: "case_point api oracle_infos c = Ok p" "fst (fst c) < length cets"
      "get_sig_hash_msg api (cets ! fst (fst c)) 0 scr v = Ok msg" "sig = adaptor_encrypt api msg sk p"
    using assms(2) by (auto simp: case_sig_def create_cet_adaptor_sig_from_point_def res_simps)
  have "adaptor_verify api sig msg (pk_of_sk api sk) p"
    unfolding p(4) by (rule crypto_okD(5) [OF assms(1)])
  then show ?thesis using assms(3-5) p
    by (simp add: index_def uadd_def verify_cet_adaptor_sig_from_point_def)
qed

lemma enum_sign_verify:
  assumes "crypto_ok n api" "0 < threshold" "threshold \<le> length oracle_infos" "length oracle_infos < usize_bound"
    and "enum_get_adaptor_signatures api ps oracle_infos threshold cets sk scr v = Ok sigs"
    and "take (length sigs) (drop a all_sigs) = sigs" "a + length sigs < usize_bound"
  shows "enum_verify_adaptor_info api ps oracle_infos threshold (pk_of_sk api sk) scr v cets all_sigs a =
    Ok (a + length sigs)"
proof -
  let ?f = "\<lambda>c idx. and_then (case_point api oracle_infos c) (\<lambda>p.
      and_then (index all_sigs idx) (\<lambda>sig. and_then (uadd idx 1) (\<lambda>idx'. and_then (index cets (fst (fst c))) (\<lambda>cet.
      and_then (verify_cet_adaptor_sig_from_point api sig cet p (pk_of_sk api sk) scr v) (\<lambda>_. Ok idx')))))"
  have "fold_res ?f cs a = Ok (a + length xs)"
    if "list_all2 (\<lambda>c sig. case_sig api oracle_infos cets sk scr v c = Ok sig) cs xs"
      "take (length xs) (drop a all_sigs) = xs" "a + length xs < usize_bound" for cs xs a
    using that
  proof (induction cs xs arbitrary: a rule: list_all2_induct)
    case (Cons c cs x xs)
    obtain ys where ys: "drop a all_sigs = x # ys" "take (length xs) ys = xs"
      using Cons.prems(1) by (cases "drop a all_sigs") auto
    then have "a < length all_sigs" by (metis drop_all list.distinct(1) not_le_imp_less)
    then have a: "a < length all_sigs" "all_sigs ! a = x" "take (length xs) (drop (a + 1) all_sigs) = xs"
      using ys by (simp_all add: nth_via_drop) (metis Cons_nth_drop_Suc list.inject)
    have "?f c a = Ok (a + 1)" using Cons by (intro verify_case [OF assms(1) _ a(1,2)]) auto
    then show ?case using Cons.IH [of "a + 1"] a(3) Cons.prems(2) by simp
  qed simp
  then show ?thesis using assms(5-7)
    by (simp add: enum_verify_adaptor_info_def iter_outcomes_cases [OF assms(2-4)]
        enum_signatures_traverse [OF assms(2-4)] traverse_Ok_iff)
qed


lemma numeric_sign_verify:
  assumes "crypto_ok k api" "numeric_get_adaptor_info api n tc sk scr v threshold points cets a = Ok (info, sigs)"
    and "sigs \<noteq> []" "take (length sigs) (drop a all_sigs) = sigs" "a + length sigs < usize_bound"
  shows "numeric_verify_and_get_adaptor_info api n tc (pk_of_sk api sk) scr v threshold points cets all_sigs a =
    Ok (info, a + length sigs)"
proof (cases "nd_difference_params n")
  case (Some params)
  then obtain trie ranges trie' where "diff_trie_new (nd_oracle_numeric_infos n) threshold (df_min_support_exp params)
        (df_max_error_exp params) = (Ok trie :: (_, dlc_error) res)" "numeric_get_range_payouts n tc = Ok ranges"
      and g: "generate_sign api diff_trie_generate trie sk scr v ranges cets points a = Ok (trie', sigs)" "info = DifferenceInfo trie'"
    using assms(2) by (auto simp: numeric_get_adaptor_info_def res_simps)
  then show ?thesis
    using generate_sign_verify [OF assms(1) g(1) diff_trie_generate_consecutive assms(3-5)] Some
    by (simp add: numeric_verify_and_get_adaptor_info_def)
next
  case None
  then obtain trie ranges trie' where "oracle_trie_new (nd_oracle_numeric_infos n) threshold = (Ok trie :: (_, dlc_error) res)"
      "numeric_get_range_payouts n tc = Ok ranges"
      and g: "generate_sign api oracle_trie_generate trie sk scr v ranges cets points a = Ok (trie', sigs)" "info = NumericalInfo trie'"
    using assms(2) by (auto simp: numeric_get_adaptor_info_def res_simps)
  then show ?thesis
    using generate_sign_verify [OF assms(1) g(1) oracle_trie_generate_consecutive assms(3-5)] None
    by (simp add: numeric_verify_and_get_adaptor_info_def)
qed

text \<open>The number of oracles and the threshold for which an enumerated contract can be signed.\<close>

definition signable :: "contract_info \<Rightarrow> bool" where
  "signable c \<longleftrightarrow> 0 < cn_threshold c \<and> cn_threshold c \<le> length (cn_oracle_announcements c) \<and>
     length (cn_oracle_announcements c) < usize_bound"

lemma info_sign_verify:
  assumes "crypto_ok k api" "signable c" "info_get_adaptor_info api c tc sk scr v cets a = Ok (info, sigs)"
    and "sigs \<noteq> []" "take (length sigs) (drop a all_sigs) = sigs" "a + length sigs < usize_bound"
  shows "info_verify_and_get_adaptor_info api c tc (pk_of_sk api sk) scr v cets all_sigs a = Ok (info, a + length sigs)"
proof (cases "cn_contract_descriptor c")
  case (EnumDescriptor e)
  then have "enum_get_adaptor_signatures api e (get_oracle_infos c) (cn_threshold c) cets sk scr v = Ok sigs" "info = EnumInfo"
    using assms(3) by (auto simp: info_get_adaptor_info_def res_simps)
  then show ?thesis
    using enum_sign_verify [OF assms(1) _ _ _ _ assms(5,6), of "cn_threshold c" "get_oracle_infos c"] assms(2) EnumDescriptor
    by (simp add: info_verify_and_get_adaptor_info_def signable_def get_oracle_infos_def)
next
  case (NumericalDescriptor n)
  then show ?thesis
    using assms(3) numeric_sign_verify [OF assms(1) _ assms(4-6)]
    by (auto simp: info_get_adaptor_info_def info_verify_and_get_adaptor_info_def res_simps)
qed

section \<open>The signature of an attested outcome\<close>

lemma sorted_last: "sorted (map f xs) \<Longrightarrow> x \<in> set xs \<Longrightarrow> f x \<le> f (last xs)" for f :: "'a \<Rightarrow> nat"
  by (cases xs rule: rev_cases) (auto simp: sorted_append)

lemma fst_add_outcome: "fst ` set (add_outcome x gs) = insert (snd x) (fst ` set gs)"
  by (induction x gs rule: add_outcome.induct) auto

lemma distinct_add_outcome: "distinct (map fst gs) \<Longrightarrow> distinct (map fst (add_outcome x gs))"
  by (induction x gs rule: add_outcome.induct) (auto simp: fst_add_outcome)

lemma map_of_add_outcome:
  "map_of (add_outcome x gs) w =
     (if w = snd x then Some ((case map_of gs w of None \<Rightarrow> [] | Some is \<Rightarrow> is) @ [fst x]) else map_of gs w)"
  by (induction x gs rule: add_outcome.induct) auto

lemma distinct_groups: "distinct (map fst (fold add_outcome outs []))"
  by (induction outs rule: rev_induct) (simp_all add: distinct_add_outcome)

lemma groups_map:
  "map_of (fold add_outcome outs []) v =
     (let is = map fst (filter (\<lambda>x. snd x = v) outs) in if is = [] then None else Some is)"
  by (induction outs rule: rev_induct) (auto simp: map_of_add_outcome Let_def)

text \<open>The group that is found consists of the oracles with this outcome, in the order given, and no group is larger.\<close>

lemma get_majority_combination_group:
  assumes "get_majority_combination hash_order outs = Some (v, is)" "\<And>gs. mset (hash_order gs) = mset gs"
  shows "is = map fst (filter (\<lambda>x. snd x = v) outs)" "is \<noteq> []"
    and "length (filter (\<lambda>x. snd x = w) outs) \<le> length is"
proof -
  let ?gs = "fold add_outcome outs []"
  let ?s = "sort_key (\<lambda>x. length (snd x)) (hash_order ?gs)"
  have ne: "?gs \<noteq> []" and l: "last ?s = (v, is)"
    using assms(1) by (auto simp: get_majority_combination_def Let_def split: if_splits)
  have set: "set ?s = set ?gs" using assms(2) by (metis mset_eq_setD set_sort)
  then have "?s \<noteq> []" using ne by (metis set_empty)
  then have m: "(v, is) \<in> set ?gs" and mx: "\<forall>g\<in>set ?gs. length (snd g) \<le> length is"
    using set l last_in_set [of ?s] sorted_last [of "\<lambda>x. length (snd x)" ?s] by auto
  then have "map_of ?gs v = Some is" using distinct_groups by (metis map_of_eq_Some_iff)
  then show "is = map fst (filter (\<lambda>x. snd x = v) outs)" "is \<noteq> []"
    using groups_map [of outs v] by (auto simp: Let_def split: if_splits)
  show "length (filter (\<lambda>x. snd x = w) outs) \<le> length is"
  proof (cases "map fst (filter (\<lambda>x. snd x = w) outs) = []")
    case False
    then have "map_of ?gs w = Some (map fst (filter (\<lambda>x. snd x = w) outs))" using groups_map [of outs w] by (auto simp: Let_def)
    then show ?thesis using mx map_of_SomeD by fastforce
  qed simp
qed

lemma fold_position:
  assumes "distinct cs"
  shows "fold (\<lambda>(i, c) p. if c = x then i else p) (enumerate k cs) d =
    (if x \<in> set cs then k + length (takeWhile (\<lambda>c. c \<noteq> x) cs) else d)"
  using assms by (induction cs arbitrary: k d) auto

lemma find_outcome:
  "find (\<lambda>(_, x). ep_outcome x = w) (enumerate 0 ps) = Some (pos, y) \<Longrightarrow> pos < length ps \<and> y = ps ! pos \<and> ep_outcome y = w"
  by (auto simp: find_Some_iff nth_enumerate_eq)

lemma range_info_position:
  assumes "enum_get_range_info hash_order ps nb threshold outs a = (Ok (Some (lens, ri)) :: (_, 'e) res)"
    and "\<And>gs. mset (hash_order gs) = mset gs" "sorted_wrt (<) (map fst outs)" "\<forall>x\<in>set outs. fst x < nb"
    and "0 < threshold" "threshold \<le> nb" "nb < usize_bound"
  defines "sel \<equiv> map fst lens" and "pos \<equiv> cet_index ri" and "cs \<equiv> combs 0 nb threshold"
  shows "sel \<in> set cs" "pos < length ps" "\<forall>i\<in>set sel. (i, [ep_outcome (ps ! pos)]) \<in> set outs"
    and "adaptor_index ri = length cs * pos + length (takeWhile (\<lambda>c. c \<noteq> sel) cs) + a"
proof -
  obtain outcome combination w y where g: "get_majority_combination hash_order (filter (\<lambda>x. length (snd x) = 1) outs) = Some (outcome, combination)"
      and o: "outcome \<noteq> []" "w = outcome ! 0" "threshold \<le> length combination"
      and f: "find (\<lambda>(_, x). ep_outcome x = w) (enumerate 0 ps) = Some (pos, y)"
      and sel: "sel = take threshold combination"
      and a: "adaptor_index ri = length cs * pos + fold (\<lambda>(i, c) p. if c = take threshold combination then i else p) (enumerate 0 cs) 0 + a"
    using assms(1,5-7) ci_collect_combs [OF assms(5-7) refl, where 'e = 'e]
    by (auto simp: enum_get_range_info_def ci_new_def res_simps Let_def o_def pos_def sel_def cs_def split: if_splits option.splits)
  note maj = get_majority_combination_group [OF g assms(2)]
  have comb: "combination = map fst (filter (\<lambda>x. length (snd x) = 1 \<and> snd x = outcome) outs)"
    using maj(1) by (simp add: conj_commute)
  have len: "length outcome = 1" using maj(1,2) by (auto simp: filter_empty_conv)
  then have w: "outcome = [w]" using o(2) by (cases outcome) auto
  have "sorted_wrt (<) combination"
    using assms(3) unfolding comb by (induction outs) auto
  then have "sorted_wrt (<) sel" unfolding sel by (metis append_take_drop_id sorted_wrt_append)
  moreover have "set sel \<subseteq> {..<nb}" using assms(4) comb unfolding sel by (auto dest!: in_set_takeD)
  ultimately show c: "sel \<in> set cs" using o(3) unfolding cs_def sel by (auto simp: set_combs)
  show "pos < length ps" using find_outcome [OF f] by simp
  show "\<forall>i\<in>set sel. (i, [ep_outcome (ps ! pos)]) \<in> set outs"
    using find_outcome [OF f] comb w unfolding sel by (auto dest!: in_set_takeD)
  show "adaptor_index ri = length cs * pos + length (takeWhile (\<lambda>c. c \<noteq> sel) cs) + a"
    using a c sel fold_position [of cs sel 0 0] distinct_combs [of 0 nb threshold] by (simp add: cs_def)
qed

lemma enum_case_nth:
  assumes "sel \<in> set (combs 0 nb threshold)" "pos < length ps"
  defines "cs \<equiv> combs 0 nb threshold"
  defines "q \<equiv> length cs * pos + length (takeWhile (\<lambda>c. c \<noteq> sel) cs)"
  shows "q < length (enum_cases api ps nb threshold)"
    and "enum_cases api ps nb threshold ! q =
      ((pos, replicate threshold [tagged_attestation_msg api (ep_outcome (ps ! pos))]), sel)"
proof -
  have t: "length (takeWhile (\<lambda>c. c \<noteq> sel) cs) < length cs" "cs ! length (takeWhile (\<lambda>c. c \<noteq> sel) cs) = sel"
    using takeWhile_neq_index [OF assms(1)] unfolding cs_def by simp_all
  have d: "q div length cs = pos" "q mod length cs = length (takeWhile (\<lambda>c. c \<noteq> sel) cs)"
    using t(1) div_mult_self4 [of "length cs" pos "length (takeWhile (\<lambda>c. c \<noteq> sel) cs)"] gr_implies_not0 [OF t(1)]
    by (auto simp: q_def)
  have "q < length cs * Suc pos" using t(1) by (simp add: q_def)
  also have "\<dots> \<le> length cs * length ps" using assms(2) by (intro mult_le_mono2) simp
  finally have l: "q < length ps * length cs" by (simp add: mult.commute)
  then show "q < length (enum_cases api ps nb threshold)" by (simp add: enum_cases_def cs_def)
  show "enum_cases api ps nb threshold ! q =
      ((pos, replicate threshold [tagged_attestation_msg api (ep_outcome (ps ! pos))]), sel)"
    using l d t(2) assms(2) by (simp add: enum_cases_def cs_def product_nth nth_enumerate_eq)
qed

lemma range_info_found:
  assumes "threshold \<le> length outs" "\<forall>x\<in>set outs. snd x = [w]" "w \<in> ep_outcome ` set ps"
    and "\<And>gs. mset (hash_order gs) = mset gs" "0 < threshold" "threshold \<le> nb" "nb < usize_bound"
    and "a + length ps * length (combs 0 nb threshold) < usize_bound" "sorted_wrt (<) (map fst outs)" "\<forall>x\<in>set outs. fst x < nb"
  shows "\<exists>r. enum_get_range_info hash_order ps nb threshold outs a = (Ok (Some r) :: (_, 'e) res)"
proof -
  let ?cs = "combs 0 nb threshold"
  have e: "outs \<noteq> []" using assms(1,5) by auto
  have f: "filter (\<lambda>x. length (snd x) = 1) outs = outs" using assms(2) by simp
  have "fold add_outcome outs [] \<noteq> []"
    using e groups_map [of outs "[w]"] assms(2) by (auto simp: Let_def filter_id_conv split: if_splits)
  then obtain v js where g: "get_majority_combination hash_order outs = Some (v, js)"
    by (cases "last (sort_key (\<lambda>x. length (snd x)) (hash_order (fold add_outcome outs [])))")
      (simp add: get_majority_combination_def)
  note maj = get_majority_combination_group [OF g assms(4)]
  have v: "v = [w]" "js = map fst outs" using maj(1,2) assms(2) by (auto simp: filter_empty_conv filter_id_conv)
  obtain pos y where p: "find (\<lambda>(_, x). ep_outcome x = w) (enumerate 0 ps) = Some (pos, y)"
    using assms(3) by (cases "find (\<lambda>(_, x). ep_outcome x = w) (enumerate 0 ps)")
      (auto simp: find_None_iff in_set_conv_nth, metis (no_types, lifting) add_0 nth_enumerate_eq)
  let ?q = "fold (\<lambda>(i, c) p. if c = take threshold js then i else p) (enumerate 0 ?cs) 0"
  have "?q < length ?cs"
  proof -
    have "take threshold js \<in> set ?cs"
      using v(2) assms(1,9,10) by (auto simp: set_combs take_map dest!: in_set_takeD) (metis append_take_drop_id map_append sorted_wrt_append)
    then show ?thesis using fold_position [of ?cs "take threshold js" 0 0] distinct_combs takeWhile_neq_index by fastforce
  qed
  then have "length ?cs * pos + ?q < length ?cs * Suc pos" by simp
  also have "\<dots> \<le> length ps * length ?cs"
    using find_outcome [OF p] by (metis Suc_leI mult.commute mult_le_mono2)
  finally have b: "length ?cs * pos + ?q + a < usize_bound" using assms(8) by simp
  then show ?thesis
    using g p v assms(1) ci_collect_combs [OF assms(5-7) refl, where 'e = 'e] assms(6)
    by (simp add: enum_get_range_info_def f [simplified] ci_new_def uadd_def umul_def Let_def index_def)
qed


lemma enum_range_info_ones:
  "enum_get_range_info hash_order ps nb threshold outs a = (Ok (Some (lens, ri)) :: (_, 'e) res) \<Longrightarrow> \<forall>x\<in>set lens. snd x = 1"
  by (auto simp: enum_get_range_info_def res_simps Let_def split: if_splits option.splits prod.splits)

lemma signatures_nth:
  assumes "signable c" "cn_contract_descriptor c = EnumDescriptor ps"
    and "info_get_adaptor_info api c tc sk scr v cets a = Ok (info, sigs)"
  shows "info = EnumInfo" "length sigs = length (enum_cases api ps (length (cn_oracle_announcements c)) (cn_threshold c))"
    and "q < length sigs \<Longrightarrow> case_sig api (get_oracle_infos c) cets sk scr v
        (enum_cases api ps (length (cn_oracle_announcements c)) (cn_threshold c) ! q) = Ok (sigs ! q)"
proof -
  have e: "enum_get_adaptor_signatures api ps (get_oracle_infos c) (cn_threshold c) cets sk scr v = Ok sigs" and i: "info = EnumInfo"
    using assms(2,3) by (auto simp: info_get_adaptor_info_def res_simps)
  have l: "length (get_oracle_infos c) = length (cn_oracle_announcements c)" by (simp add: get_oracle_infos_def)
  have b: "0 < cn_threshold c" "cn_threshold c \<le> length (get_oracle_infos c)" "length (get_oracle_infos c) < usize_bound"
    using assms(1) by (auto simp: signable_def l)
  have "list_all2 (\<lambda>x s. case_sig api (get_oracle_infos c) cets sk scr v x = Ok s)
      (enum_cases api ps (length (cn_oracle_announcements c)) (cn_threshold c)) sigs"
    using e unfolding enum_signatures_traverse [OF b] traverse_Ok_iff l .
  then show "info = EnumInfo" "length sigs = length (enum_cases api ps (length (cn_oracle_announcements c)) (cn_threshold c))"
    "q < length sigs \<Longrightarrow> case_sig api (get_oracle_infos c) cets sk scr v
        (enum_cases api ps (length (cn_oracle_announcements c)) (cn_threshold c) ! q) = Ok (sigs ! q)"
    using i by (simp_all add: list_all2_conv_all_nth)
qed

section \<open>Properties\<close>

text \<open>
  C19. The adaptor signatures that one party makes for a contract, for enumerated and for numerical outcomes, with or
  without allowed differences, verify for the other party under the public key; both obtain the same adaptor
  information, and the verification returns the index of the next signature.
\<close>

theorem adaptor_info_signatures_verify:
  assumes "crypto_ok k api" "signable c" "info_get_adaptor_info api c tc sk scr v cets a = Ok (info, sigs)"
    and "sigs \<noteq> []" "length before = a" "a + length sigs < usize_bound"
  shows "info_verify_and_get_adaptor_info api c tc (pk_of_sk api sk) scr v cets (before @ sigs @ after) a =
    Ok (info, a + length sigs)"
  using info_sign_verify [OF assms(1-4) _ assms(6)] assms(5) by simp

text \<open>
  The signature found for attested outcomes of an enumerated contract is the one that was made on the transaction of
  this outcome, for the point of oracles that attested it, as many as the threshold says.  It is found when
  the attestations agree on an outcome of the contract and are enough.
\<close>

theorem range_info_signature:
  assumes "signable c" "cn_contract_descriptor c = EnumDescriptor ps"
    and "info_get_adaptor_info api c tc sk scr v cets a = Ok (info, sigs)" "a + length sigs < usize_bound"
    and "\<And>gs. mset (order_outcomes ho gs) = mset gs"
    and "sorted_wrt (<) (map fst outs)" "\<forall>x\<in>set outs. fst x < length (cn_oracle_announcements c)"
  shows "(\<forall>lens ri. info_get_range_info ho c info outs a = (Ok (Some (lens, ri)) :: (_, 'e) res) \<longrightarrow>
      cet_index ri < length ps \<and> length lens = cn_threshold c \<and>
      (\<forall>i\<in>fst ` set lens. (i, [ep_outcome (ps ! cet_index ri)]) \<in> set outs) \<and>
      sorted_wrt (<) (map fst lens) \<and> (\<forall>x\<in>set lens. snd x = 1) \<and>
      (\<exists>q p. adaptor_index ri = a + q \<and> q < length sigs \<and> cet_index ri < length cets \<and>
        get_adaptor_point_from_oracle_info api (chosen (get_oracle_infos c) (map fst lens))
          (replicate (cn_threshold c) [tagged_attestation_msg api (ep_outcome (ps ! cet_index ri))]) = Ok p \<and>
        create_cet_adaptor_sig_from_point api (cets ! cet_index ri) p sk scr v = Ok (sigs ! q))) \<and>
    (cn_threshold c \<le> length outs \<and> (\<exists>w\<in>ep_outcome ` set ps. \<forall>x\<in>set outs. snd x = [w]) \<longrightarrow>
      (\<exists>r. info_get_range_info ho c info outs a = (Ok (Some r) :: (_, 'e) res)))"
proof -
  let ?nb = "length (cn_oracle_announcements c)" and ?th = "cn_threshold c"
  note sgn = signatures_nth [OF assms(1-3)]
  have b: "0 < ?th" "?th \<le> ?nb" "?nb < usize_bound" using assms(1) by (auto simp: signable_def)
  have ri: "info_get_range_info ho c info outs a = enum_get_range_info (order_outcomes ho) ps ?nb ?th outs a"
    using sgn(1) assms(2) by (simp add: info_get_range_info_def)
  have found: "\<exists>r. enum_get_range_info (order_outcomes ho) ps ?nb ?th outs a = (Ok (Some r) :: (_, 'e) res)"
    if "?th \<le> length outs" "w \<in> ep_outcome ` set ps" "\<forall>x\<in>set outs. snd x = [w]" for w
    using range_info_found [OF that(1,3,2) assms(5) b _ assms(6,7)] sgn(2) assms(4) by (simp add: enum_cases_def)
  have picked: "cet_index ri < length ps \<and> length lens = ?th \<and>
      (\<forall>i\<in>fst ` set lens. (i, [ep_outcome (ps ! cet_index ri)]) \<in> set outs) \<and>
      sorted_wrt (<) (map fst lens) \<and> (\<forall>x\<in>set lens. snd x = 1) \<and>
      (\<exists>q p. adaptor_index ri = a + q \<and> q < length sigs \<and> cet_index ri < length cets \<and>
        get_adaptor_point_from_oracle_info api (chosen (get_oracle_infos c) (map fst lens))
          (replicate ?th [tagged_attestation_msg api (ep_outcome (ps ! cet_index ri))]) = Ok p \<and>
        create_cet_adaptor_sig_from_point api (cets ! cet_index ri) p sk scr v = Ok (sigs ! q))"
    if r: "enum_get_range_info (order_outcomes ho) ps ?nb ?th outs a = (Ok (Some (lens, ri)) :: (_, 'e) res)" for lens ri
  proof -
    note pos = range_info_position [OF r assms(5-7) b]
    let ?q = "length (combs 0 ?nb ?th) * cet_index ri + length (takeWhile (\<lambda>c. c \<noteq> map fst lens) (combs 0 ?nb ?th))"
    note nth = enum_case_nth [OF pos(1,2), of api]
    have l: "length lens = ?th" using pos(1) by (auto simp: set_combs dest: arg_cong [of _ _ length])
    have "case_sig api (get_oracle_infos c) cets sk scr v
        ((cet_index ri, replicate ?th [tagged_attestation_msg api (ep_outcome (ps ! cet_index ri))]), map fst lens) = Ok (sigs ! ?q)"
      using sgn(3) [of ?q] nth sgn(2) by simp
    moreover have "sorted_wrt (<) (map fst lens)" using pos(1) by (simp add: set_combs)
    moreover have "\<forall>x\<in>set lens. snd x = 1" using enum_range_info_ones [OF r] .
    ultimately show ?thesis using l pos(2-4) nth(1) sgn(2)
      by (auto simp: case_sig_def case_point_def res_simps intro!: exI [of _ ?q])
  qed
  show ?thesis unfolding ri using picked found by (intro conjI allI impI) blast+
qed

text \<open>
  C37. The validation of a contract information of a received offer does not look at the threshold.  With a threshold above the
  number of oracles the functions that make and verify the signatures panic when the contract is enumerated.  (Own contract inputs
  are checked by \<open>OracleInput::validate\<close>, and the trie of a numerical contract with difference parameters returns an error.)
\<close>

theorem threshold_not_validated:
  shows "info_validate (c\<lparr>cn_threshold := t\<rparr>) = info_validate c \<and>
    (length (cn_oracle_announcements c) < t \<and> (\<exists>ps. cn_contract_descriptor c = EnumDescriptor ps) \<longrightarrow>
      info_get_adaptor_info api (c\<lparr>cn_threshold := t\<rparr>) tc sk scr v cets a = Panic \<and>
      info_verify_and_get_adaptor_info api (c\<lparr>cn_threshold := t\<rparr>) tc pk scr v cets sigs a = Panic)"
  by (auto simp: iter_outcomes_panics info_validate_def info_get_adaptor_info_def info_verify_and_get_adaptor_info_def get_oracle_infos_def
      enum_get_adaptor_signatures_def enum_verify_adaptor_info_def)

section \<open>Examples\<close>

lemma example_oracle_api_simps [simp]:
  "sighash_all example_oracle_api = sighash_all example_crypto" "ecdsa_sign example_oracle_api = ecdsa_sign example_crypto"
  "ecdsa_verify example_oracle_api = ecdsa_verify example_crypto" "serialize_der example_oracle_api = serialize_der example_crypto"
  "sig_from_der example_oracle_api = sig_from_der example_crypto" "sig_from_compact example_oracle_api = sig_from_compact example_crypto"
  "pk_of_sk example_oracle_api = pk_of_sk example_crypto" "adaptor_encrypt example_oracle_api = adaptor_encrypt example_crypto"
  "adaptor_decrypt example_oracle_api = adaptor_decrypt example_crypto" "adaptor_verify example_oracle_api = adaptor_verify example_crypto"
  "combine_keys example_oracle_api = combine_keys example_crypto" "mul_tweak example_oracle_api = mul_tweak example_crypto"
  "pubkey_from_slice example_oracle_api = pubkey_from_slice example_crypto"
  "xonly_from_slice example_oracle_api = xonly_from_slice example_crypto" "bip340_hash example_oracle_api = bip340_hash example_crypto"
  "scalar_from_be_bytes example_oracle_api = scalar_from_be_bytes example_crypto"
  "seckey_from_slice example_oracle_api = seckey_from_slice example_crypto" "sk_add_tweak example_oracle_api = sk_add_tweak example_crypto"
  "sha256 example_oracle_api = (\<lambda>b. [length b])"
  by (simp_all add: example_oracle_api_def bitcoin_api.defs crypto_api.defs oracle_api.defs del: example_crypto_simps)

lemma example_oracle_api_ok: "crypto_ok 101 example_oracle_api"
  using example_crypto_ok unfolding crypto_ok_def example_oracle_api_simps .

definition example_enum_payouts :: "enumeration_payout list" where
  "example_enum_payouts =
     [\<lparr>ep_outcome = [65], ep_payout = \<lparr>offer = 10, accept = 0\<rparr>\<rparr>,
      \<lparr>ep_outcome = [66, 66], ep_payout = \<lparr>offer = 0, accept = 10\<rparr>\<rparr>]"

definition example_enum_contract :: contract_info where
  "example_enum_contract =
     \<lparr>cn_contract_descriptor = EnumDescriptor example_enum_payouts, cn_oracle_announcements =
       [example_announcement\<lparr>oracle_public_key := [5], announced_event := (announced_event example_announcement)\<lparr>oracle_nonces := [[7]],
         event_desc := EnumEvent [[65], [66, 66]]\<rparr>\<rparr>],
      cn_threshold = 1\<rparr>"

lemma example_enum_signable: "signable example_enum_contract"
  by (simp add: signable_def example_enum_contract_def)

lemma example_enum_signatures:
  "info_get_adaptor_info example_oracle_api example_enum_contract 10 11 [1] 1000 [example_cet, example_cet] a =
     Ok (EnumInfo, [[11, 22], [11, 27]])"
proof -
  have "schnorrsig_compute_sig_point example_oracle_api [5] [7] [m] = Ok [(7 + 5 * m) mod 101]"
    if "(7 + 5 * m) mod 101 \<noteq> 0" for m
    using that by (simp add: schnorrsig_compute_sig_point_def create_schnorr_hash_def schnorr_pubkey_to_pubkey_def)
  then show ?thesis
    using enum_signatures_traverse [of 1 "get_oracle_infos example_enum_contract" example_oracle_api]
    by (simp add: info_get_adaptor_info_def example_enum_contract_def example_enum_payouts_def get_oracle_infos_def
        announcement_oracle_info_def example_announcement_def enum_cases_def case_sig_def case_point_def chosen_def
        get_adaptor_point_from_oracle_info_def get_oracle_sig_point_def index_def tagged_attestation_msg_def
        create_cet_adaptor_sig_from_point_def get_sig_hash_msg_def example_cet_def)
qed

lemma adaptor_info_signatures_verify_witness:
  "info_verify_and_get_adaptor_info example_oracle_api example_enum_contract 10 [11] [1] 1000 [example_cet, example_cet]
     ([[9, 9]] @ [[11, 22], [11, 27]] @ []) 1 = Ok (EnumInfo, 3)"
  using adaptor_info_signatures_verify [OF example_oracle_api_ok example_enum_signable example_enum_signatures [of 1],
      of "[[9, 9]]" "[]"]
  by simp

definition example_orders :: hash_orders where
  "example_orders = \<lparr>order_paths = \<lambda>x. x, order_outcomes = rev\<rparr>"

lemma threshold_not_validated_witness:
  "info_get_adaptor_info example_oracle_api (example_enum_contract\<lparr>cn_threshold := 2\<rparr>) 10 11 [1] 1000 [] 0 = Panic"
  using threshold_not_validated [where c = example_enum_contract and t = 2 and api = example_oracle_api, of 10 11]
  by (simp add: example_enum_contract_def)

end
