(* ===== verification/Conversion.thy ===== *)
theory Conversion
  imports Contract_Info
begin

text \<open>
  \<open>ddk-manager/src/conversion_utils.rs\<close>: from the messages to the values the manager works with and
  back.  The main result: the contract information of an offer survives the way to the message and
  back.
\<close>

section \<open>Inputs\<close>

definition get_tx_input_infos ::
  "('m) message_api_scheme \<Rightarrow> funding_input list \<Rightarrow> (tx_input_info list \<times> nat, conversion_error) res" where
  "get_tx_input_infos api funding_inputs =
     fold_res (\<lambda>fund_input (inputs, input_amount).
       and_then (ok_or BitcoinEncoding (consensus_decode api (fi_prev_tx fund_input))) (\<lambda>tx.
       and_then (if fi_prev_tx_vout fund_input < length (tx_output tx) then Ok (tx_output tx ! fi_prev_tx_vout fund_input)
                 else Err InvalidConversionParameters) (\<lambda>tx_out.
       and_then (uadd input_amount (out_value tx_out)) (\<lambda>input_amount.
         Ok (inputs @ [\<lparr>ti_outpoint = \<lparr>op_txid = compute_txid (bitcoin_api.truncate api) tx, op_vout = fi_prev_tx_vout fund_input\<rparr>,
               ti_max_witness_len = (if fi_dlc_input fund_input \<noteq> None then 220 else 108),
               ti_redeem_script = fi_redeem_script fund_input, ti_serial_id = fi_input_serial_id fund_input\<rparr>], input_amount)))))
       funding_inputs ([], 0)"

section \<open>Payout functions and rounding intervals\<close>

definition payout_point_to_ser :: "payout_point \<Rightarrow> ser_payout_point" where
  "payout_point_to_ser p =
     \<lparr>sp_event_outcome = pp_event_outcome p, sp_outcome_payout = pp_outcome_payout p, sp_extra_precision = pp_extra_precision p\<rparr>"

definition payout_point_of_ser :: "ser_payout_point \<Rightarrow> payout_point" where
  "payout_point_of_ser p =
     \<lparr>pp_event_outcome = sp_event_outcome p, pp_outcome_payout = sp_outcome_payout p, pp_extra_precision = sp_extra_precision p\<rparr>"

definition hyperbola_to_ser :: "hyperbola_piece \<Rightarrow> ser_hyperbola_piece" where
  "hyperbola_to_ser h =
     \<lparr>sh_use_positive_piece = hp_use_positive_piece h, sh_translate_outcome = hp_translate_outcome h,
      sh_translate_payout = hp_translate_payout h, sh_a = hp_a h, sh_b = hp_b h, sh_c = hp_c h, sh_d = hp_d h\<rparr>"

text \<open>The end points are sent once: every piece carries its left one.\<close>

definition payout_piece_to_ser :: "payout_piece \<Rightarrow> (ser_function_piece, 'e) res" where
  "payout_piece_to_ser x =
     (case x of
        PolynomialPayoutCurvePiece ps \<Rightarrow>
          and_then (index ps 0) (\<lambda>left.
          and_then (usub (length ps) 2) (\<lambda>n.
            Ok \<lparr>sf_end_point = payout_point_to_ser left,
                sf_payout_curve_piece = SerPolynomial (map payout_point_to_ser (take n (drop 1 ps)))\<rparr>))
      | HyperbolaPayoutCurvePiece h \<Rightarrow>
          Ok \<lparr>sf_end_point = payout_point_to_ser (hp_left_end_point h),
              sf_payout_curve_piece = SerHyperbola (hyperbola_to_ser h)\<rparr>)"

definition last_of :: "'a list \<Rightarrow> ('a, 'e) res" where
  "last_of xs = unwrap (if xs = [] then None else Some (last xs))"

definition payout_function_to_ser :: "payout_function \<Rightarrow> (ser_payout_function, 'e) res" where
  "payout_function_to_ser f =
     and_then (traverse payout_piece_to_ser f) (\<lambda>pieces.
     and_then (last_of f) (\<lambda>last_piece.
     and_then (case last_piece of
         PolynomialPayoutCurvePiece ps \<Rightarrow> last_of ps
       | HyperbolaPayoutCurvePiece h \<Rightarrow> Ok (hp_right_end_point h)) (\<lambda>p.
       Ok \<lparr>sf_payout_function_pieces = pieces, sf_last_endpoint = payout_point_to_ser p\<rparr>)))"

definition from_ser_payout_function_piece :: "ser_function_piece \<Rightarrow> ser_payout_point \<Rightarrow> payout_piece" where
  "from_ser_payout_function_piece piece right_end_point =
     (case sf_payout_curve_piece piece of
        SerPolynomial ps \<Rightarrow>
          PolynomialPayoutCurvePiece
            ([payout_point_of_ser (sf_end_point piece)] @ map payout_point_of_ser ps @ [payout_point_of_ser right_end_point])
      | SerHyperbola h \<Rightarrow>
          HyperbolaPayoutCurvePiece
            \<lparr>hp_left_end_point = payout_point_of_ser (sf_end_point piece), hp_right_end_point = payout_point_of_ser right_end_point,
             hp_use_positive_piece = sh_use_positive_piece h, hp_translate_outcome = sh_translate_outcome h,
             hp_translate_payout = sh_translate_payout h, hp_a = sh_a h, hp_b = sh_b h, hp_c = sh_c h, hp_d = sh_d h\<rparr>)"

definition payout_function_of_ser :: "ser_payout_function \<Rightarrow> payout_function" where
  "payout_function_of_ser f =
     map (\<lambda>(x, y). from_ser_payout_function_piece x y)
       (zip (sf_payout_function_pieces f) (map sf_end_point (drop 1 (sf_payout_function_pieces f)) @ [sf_last_endpoint f]))"

definition rounding_interval_to_ser :: "rounding_interval \<Rightarrow> ser_rounding_interval" where
  "rounding_interval_to_ser x = \<lparr>sr_begin_interval = ri_begin_interval x, sr_rounding_mod = ri_rounding_mod x\<rparr>"

definition rounding_interval_of_ser :: "ser_rounding_interval \<Rightarrow> rounding_interval" where
  "rounding_interval_of_ser x = \<lparr>ri_begin_interval = sr_begin_interval x, ri_rounding_mod = sr_rounding_mod x\<rparr>"

definition rounding_intervals_to_ser :: "rounding_intervals \<Rightarrow> ser_rounding_intervals" where
  "rounding_intervals_to_ser = map rounding_interval_to_ser"

definition rounding_intervals_of_ser :: "ser_rounding_intervals \<Rightarrow> rounding_intervals" where
  "rounding_intervals_of_ser = map rounding_interval_of_ser"

section \<open>Contract information from a message\<close>

definition enum_announcements :: "ser_oracle_info \<Rightarrow> oracle_announcement list \<times> nat" where
  "enum_announcements i = (case i of Single a \<Rightarrow> ([a], 1) | Multi m \<Rightarrow> (mo_announcements m, mo_threshold m))"

definition enum_info_of_ser ::
  "nat \<Rightarrow> contract_outcome list \<Rightarrow> ser_oracle_info \<Rightarrow> (contract_info, conversion_error) res" where
  "enum_info_of_ser total_collateral payouts oracle_info =
     and_then (traverse (\<lambda>x. and_then (usub total_collateral (co_offer_payout x)) (\<lambda>a.
         Ok \<lparr>ep_outcome = co_outcome x, ep_payout = \<lparr>offer = co_offer_payout x, accept = a\<rparr>\<rparr>)) payouts) (\<lambda>outcome_payouts.
     let (announcements, threshold) = enum_announcements oracle_info in
     if list_ex (\<lambda>x. case event_desc (announced_event x) of EnumEvent _ \<Rightarrow> False | DigitDecompositionEvent _ \<Rightarrow> True) announcements
     then Err InvalidConversionParameters
     else Ok \<lparr>cn_contract_descriptor = EnumDescriptor outcome_payouts, cn_oracle_announcements = announcements, cn_threshold = threshold\<rparr>)"

definition numeric_announcements :: "ser_oracle_info \<Rightarrow> oracle_announcement list \<times> nat \<times> difference_params option" where
  "numeric_announcements i =
     (case i of
        Single a \<Rightarrow> ([a], 1, None)
      | Multi m \<Rightarrow>
          (mo_announcements m, mo_threshold m,
           map_option (\<lambda>params. \<lparr>df_max_error_exp = op_max_error_exp params, df_min_support_exp = op_min_fail_exp params,
             df_maximize_coverage = op_maximize_coverage params\<rparr>) (mo_params m)))"

definition digits_with_base :: "nat \<Rightarrow> oracle_announcement \<Rightarrow> (nat, conversion_error) res" where
  "digits_with_base expected_base x =
     (case event_desc (announced_event x) of
        DigitDecompositionEvent d \<Rightarrow>
          if digit_event.dd_base d = expected_base then Ok (dd_nb_digits d) else Err InvalidConversionParameters
      | EnumEvent _ \<Rightarrow> Err InvalidConversionParameters)"

definition numeric_info_of_ser ::
  "numeric_outcome_descriptor \<Rightarrow> ser_oracle_info \<Rightarrow> (contract_info, conversion_error) res" where
  "numeric_info_of_ser numeric oracle_info =
     (let (announcements, threshold, difference_params) = numeric_announcements oracle_info in
      case announcements of
        [] \<Rightarrow> Err InvalidConversionParameters
      | first # _ \<Rightarrow>
          and_then (case event_desc (announced_event first) of
              DigitDecompositionEvent d \<Rightarrow> Ok (digit_event.dd_base d)
            | EnumEvent _ \<Rightarrow> Err InvalidConversionParameters) (\<lambda>expected_base.
          and_then (traverse (digits_with_base expected_base) announcements) (\<lambda>nb_digits.
            Ok \<lparr>cn_contract_descriptor = NumericalDescriptor
                  \<lparr>nd_payout_function = payout_function_of_ser (no_payout_function numeric),
                   nd_rounding_intervals = rounding_intervals_of_ser (no_rounding_intervals numeric),
                   nd_difference_params = difference_params,
                   nd_oracle_numeric_infos = \<lparr>oni_base = expected_base, oni_nb_digits = nb_digits\<rparr>\<rparr>,
                cn_oracle_announcements = announcements, cn_threshold = threshold\<rparr>)))"

definition info_of_ser :: "nat \<Rightarrow> contract_info_inner \<Rightarrow> (contract_info, conversion_error) res" where
  "info_of_ser total_collateral c =
     (case in_contract_descriptor c of
        EnumeratedContractDescriptor payouts \<Rightarrow> enum_info_of_ser total_collateral payouts (in_oracle_info c)
      | NumericOutcomeContractDescriptor numeric \<Rightarrow> numeric_info_of_ser numeric (in_oracle_info c))"

definition get_contract_info_and_announcements ::
  "ser_contract_info \<Rightarrow> (contract_info list, conversion_error) res" where
  "get_contract_info_and_announcements c =
     (case c of
        SingleContractInfo s \<Rightarrow> traverse (info_of_ser (si_total_collateral s)) [si_contract_info s]
      | DisjointContractInfo d \<Rightarrow> traverse (info_of_ser (dj_total_collateral d)) (dj_contract_infos d))"

section \<open>Contract information to a message\<close>

text \<open>The casts \<open>as u16\<close>.\<close>

definition as_u16 :: "nat \<Rightarrow> nat" where
  "as_u16 n = n mod 2 ^ 16"

definition oracle_info_to_ser :: "contract_info \<Rightarrow> ser_oracle_info" where
  "oracle_info_to_ser c =
     (case cn_oracle_announcements c of
        [a] \<Rightarrow> Single a
      | announcements \<Rightarrow>
          Multi \<lparr>mo_threshold = as_u16 (cn_threshold c), mo_announcements = announcements,
            mo_params =
              (case cn_contract_descriptor c of
                 NumericalDescriptor n \<Rightarrow>
                   map_option (\<lambda>params. \<lparr>op_max_error_exp = as_u16 (df_max_error_exp params),
                     op_min_fail_exp = as_u16 (df_min_support_exp params),
                     op_maximize_coverage = df_maximize_coverage params\<rparr>) (nd_difference_params n)
               | EnumDescriptor _ \<Rightarrow> None)\<rparr>)"

definition descriptor_to_ser :: "contract_descriptor \<Rightarrow> (ser_contract_descriptor, 'e) res" where
  "descriptor_to_ser d =
     (case d of
        EnumDescriptor e \<Rightarrow>
          Ok (EnumeratedContractDescriptor (map (\<lambda>x. \<lparr>co_outcome = ep_outcome x, co_offer_payout = offer (ep_payout x)\<rparr>) e))
      | NumericalDescriptor n \<Rightarrow>
          and_then (get_min_nb_digits (nd_oracle_numeric_infos n)) (\<lambda>m.
          and_then (payout_function_to_ser (nd_payout_function n)) (\<lambda>f.
            Ok (NumericOutcomeContractDescriptor
              \<lparr>no_num_digits = as_u16 m, no_payout_function = f,
               no_rounding_intervals = rounding_intervals_to_ser (nd_rounding_intervals n)\<rparr>))))"

definition contract_info_to_ser :: "nat \<Rightarrow> contract_info list \<Rightarrow> (ser_contract_info, 'e) res" where
  "contract_info_to_ser total_collateral infos =
     and_then (traverse (\<lambda>c. and_then (descriptor_to_ser (cn_contract_descriptor c)) (\<lambda>d.
         Ok \<lparr>in_contract_descriptor = d, in_oracle_info = oracle_info_to_ser c\<rparr>)) infos) (\<lambda>contract_infos.
       Ok (case contract_infos of
             [i] \<Rightarrow> SingleContractInfo \<lparr>si_total_collateral = total_collateral, si_contract_info = i\<rparr>
           | _ \<Rightarrow> DisjointContractInfo \<lparr>dj_total_collateral = total_collateral, dj_contract_infos = contract_infos\<rparr>))"

section \<open>What survives\<close>

text \<open>The end points of a piece, and functions whose pieces share them.\<close>

fun left_point :: "payout_piece \<Rightarrow> payout_point" where
  "left_point (PolynomialPayoutCurvePiece ps) = hd ps"
| "left_point (HyperbolaPayoutCurvePiece h) = hp_left_end_point h"

fun right_point :: "payout_piece \<Rightarrow> payout_point" where
  "right_point (PolynomialPayoutCurvePiece ps) = last ps"
| "right_point (HyperbolaPayoutCurvePiece h) = hp_right_end_point h"

fun has_two_points :: "payout_piece \<Rightarrow> bool" where
  "has_two_points (PolynomialPayoutCurvePiece ps) \<longleftrightarrow> 2 \<le> length ps"
| "has_two_points (HyperbolaPayoutCurvePiece h) \<longleftrightarrow> True"

definition joined :: "payout_function \<Rightarrow> bool" where
  "joined f \<longleftrightarrow> f \<noteq> [] \<and> list_all has_two_points f \<and>
     (\<forall>i. Suc i < length f \<longrightarrow> right_point (f ! i) = left_point (f ! Suc i))"

lemma payout_point_ser [simp]: "payout_point_of_ser (payout_point_to_ser p) = p"
  by (simp add: payout_point_to_ser_def payout_point_of_ser_def)

lemma rounding_intervals_ser [simp]: "rounding_intervals_of_ser (rounding_intervals_to_ser r) = r"
proof -
  have "rounding_interval_of_ser \<circ> rounding_interval_to_ser = id"
    by (simp add: fun_eq_iff rounding_interval_to_ser_def rounding_interval_of_ser_def)
  then show ?thesis by (simp add: rounding_intervals_to_ser_def rounding_intervals_of_ser_def)
qed

lemma middle_points: "2 \<le> length ps \<Longrightarrow> hd ps # take (length ps - 2) (drop 1 ps) @ [last ps] = ps"
  by (cases ps; cases "tl ps" rule: rev_cases) auto

lemma payout_piece_ser:
  assumes "payout_piece_to_ser x = (Ok s :: (_, 'e) res)" "has_two_points x"
  shows "from_ser_payout_function_piece s (payout_point_to_ser (right_point x)) = x \<and>
    sf_end_point s = payout_point_to_ser (left_point x)"
proof (cases x)
  case (PolynomialPayoutCurvePiece ps)
  then have l: "2 \<le> length ps" using assms(2) by simp
  then have h: "ps \<noteq> []" "ps ! 0 = hd ps" by (cases ps; simp)+
  have m: "map payout_point_of_ser (map payout_point_to_ser qs) = qs" for qs
    by (simp add: o_def)
  have s: "s = \<lparr>sf_end_point = payout_point_to_ser (hd ps),
      sf_payout_curve_piece = SerPolynomial (map payout_point_to_ser (take (length ps - 2) (drop 1 ps)))\<rparr>"
    using assms(1) PolynomialPayoutCurvePiece h by (auto simp: payout_piece_to_ser_def res_simps)
  show ?thesis
    using middle_points [OF l] PolynomialPayoutCurvePiece
    by (simp add: s from_ser_payout_function_piece_def m del: map_map)
next
  case (HyperbolaPayoutCurvePiece h)
  then show ?thesis using assms(1)
    by (auto simp: payout_piece_to_ser_def from_ser_payout_function_piece_def hyperbola_to_ser_def)
qed

lemma payout_function_ser:
  assumes "joined f" "payout_function_to_ser f = (Ok s :: (_, 'e) res)"
  shows "payout_function_of_ser s = f"
proof -
  have ne: "f \<noteq> []" and two: "\<And>i. i < length f \<Longrightarrow> has_two_points (f ! i)"
    and ends: "\<And>i. Suc i < length f \<Longrightarrow> right_point (f ! i) = left_point (f ! Suc i)"
    using assms(1) by (auto simp: joined_def list_all_length)
  obtain pieces where p: "traverse payout_piece_to_ser f = (Ok pieces :: (_, 'e) res)" "sf_payout_function_pieces s = pieces"
      "sf_last_endpoint s = payout_point_to_ser (right_point (last f))"
    using assms(2) ne two [of "length f - 1"]
    by (auto simp: payout_function_to_ser_def last_of_def res_simps last_conv_nth split: payout_piece.splits if_splits)
  have len: "length pieces = length f" using traverse_length [OF p(1)] .
  have piece: "payout_piece_to_ser (f ! i) = (Ok (pieces ! i) :: (_, 'e) res)" if "i < length f" for i
    using p(1) that by (simp add: traverse_Ok_iff list_all2_conv_all_nth)
  let ?ends = "map sf_end_point (drop 1 pieces) @ [sf_last_endpoint s]"
  have e: "?ends ! i = payout_point_to_ser (right_point (f ! i))" if "i < length f" for i
  proof (cases "Suc i < length f")
    case True
    then show ?thesis using len payout_piece_ser [OF piece two, of "Suc i"] ends [of i] by (simp add: nth_append)
  next
    case False
    then have "i = length f - 1" using that by simp
    then show ?thesis using len ne p(3) by (simp add: nth_append last_conv_nth)
  qed
  show ?thesis
    using len e payout_piece_ser [OF piece two] ne
    by (intro nth_equalityI) (auto simp: payout_function_of_ser_def p(2))
qed

text \<open>
  A contract information that an offer can carry: a single oracle has threshold one and no difference parameters,
  the numbers have sixteen bits, and the descriptor fits the events of the oracles.
\<close>

definition fits_events :: "nat \<Rightarrow> contract_info \<Rightarrow> bool" where
  "fits_events total_collateral c \<longleftrightarrow>
     (case cn_contract_descriptor c of
        EnumDescriptor ps \<Rightarrow>
          (\<forall>p\<in>set ps. offer (ep_payout p) \<le> total_collateral \<and> offer (ep_payout p) + accept (ep_payout p) = total_collateral) \<and>
          (\<forall>a\<in>set (cn_oracle_announcements c). \<exists>xs. event_desc (announced_event a) = EnumEvent xs)
      | NumericalDescriptor n \<Rightarrow>
          joined (nd_payout_function n) \<and> cn_oracle_announcements c \<noteq> [] \<and>
          list_all2 (\<lambda>a nb. \<exists>d. event_desc (announced_event a) = DigitDecompositionEvent d \<and>
              digit_event.dd_base d = oni_base (nd_oracle_numeric_infos n) \<and> dd_nb_digits d = nb)
            (cn_oracle_announcements c) (oni_nb_digits (nd_oracle_numeric_infos n)) \<and>
          (length (cn_oracle_announcements c) = 1 \<longrightarrow> nd_difference_params n = None) \<and>
          (\<forall>p. nd_difference_params n = Some p \<longrightarrow> df_max_error_exp p < 2 ^ 16 \<and> df_min_support_exp p < 2 ^ 16))"

definition sendable :: "nat \<Rightarrow> contract_info \<Rightarrow> bool" where
  "sendable total_collateral c \<longleftrightarrow> fits_events total_collateral c \<and> cn_threshold c < 2 ^ 16 \<and>
     (length (cn_oracle_announcements c) = 1 \<longrightarrow> cn_threshold c = 1)"

lemma enum_info_roundtrip:
  assumes "sendable tc c" "cn_contract_descriptor c = EnumDescriptor ps"
  shows "enum_info_of_ser tc (map (\<lambda>x. \<lparr>co_outcome = ep_outcome x, co_offer_payout = offer (ep_payout x)\<rparr>) ps) (oracle_info_to_ser c) = Ok c"
proof -
  have p: "offer (ep_payout x) \<le> tc" "accept (ep_payout x) = tc - offer (ep_payout x)" if "x \<in> set ps" for x
    using assms that by (auto simp: sendable_def fits_events_def)
  have e: "\<exists>xs. event_desc (announced_event a) = EnumEvent xs" if "a \<in> set (cn_oracle_announcements c)" for a
    using assms that by (auto simp: sendable_def fits_events_def)
  have t: "traverse (\<lambda>x. and_then (usub tc (co_offer_payout x)) (\<lambda>a.
      Ok \<lparr>ep_outcome = co_outcome x, ep_payout = \<lparr>offer = co_offer_payout x, accept = a\<rparr>\<rparr>))
      (map (\<lambda>x. \<lparr>co_outcome = ep_outcome x, co_offer_payout = offer (ep_payout x)\<rparr>) ps) = (Ok ps :: (_, conversion_error) res)"
  proof -
    have q: "p = \<lparr>offer = offer p, accept = tc - offer p\<rparr>" if "accept p = tc - offer p" for p :: payout
      using that by (cases p) simp
    have "x = \<lparr>ep_outcome = ep_outcome x, ep_payout = \<lparr>offer = offer (ep_payout x), accept = tc - offer (ep_payout x)\<rparr>\<rparr>"
      if "x \<in> set ps" for x using q [OF p(2) [OF that]] by (cases x) simp
    then show ?thesis using p(1)
      by (auto simp: traverse_Ok_iff list_all2_map1 list_all2_same usub_def)
  qed
  have anns: "enum_announcements (oracle_info_to_ser c) = (cn_oracle_announcements c, cn_threshold c)"
    using assms by (auto simp: enum_announcements_def oracle_info_to_ser_def sendable_def as_u16_def split: list.splits)
  show ?thesis using assms(2) e t
    by (auto simp: enum_info_of_ser_def anns list_ex_iff split: event_descriptor.splits)
      (metis event_descriptor.distinct(1))
qed

lemma numeric_info_roundtrip:
  assumes "sendable tc c" "cn_contract_descriptor c = NumericalDescriptor n"
    and "payout_function_to_ser (nd_payout_function n) = (Ok f :: (_, 'e) res)"
  shows "numeric_info_of_ser \<lparr>no_num_digits = m, no_payout_function = f,
      no_rounding_intervals = rounding_intervals_to_ser (nd_rounding_intervals n)\<rparr> (oracle_info_to_ser c) = Ok c"
proof -
  let ?as = "cn_oracle_announcements c" and ?i = "nd_oracle_numeric_infos n"
  have d: "list_all2 (\<lambda>a nb. \<exists>d. event_desc (announced_event a) = DigitDecompositionEvent d \<and>
      digit_event.dd_base d = oni_base ?i \<and> dd_nb_digits d = nb) ?as (oni_nb_digits ?i)"
    and ne: "?as \<noteq> []" and j: "joined (nd_payout_function n)"
    using assms(1,2) by (auto simp: sendable_def fits_events_def)
  then obtain a as where as: "?as = a # as" by (cases ?as) auto
  obtain d0 where d0: "event_desc (announced_event a) = DigitDecompositionEvent d0" "digit_event.dd_base d0 = oni_base ?i"
    using d as by (auto simp: list_all2_Cons1)
  have t: "traverse (digits_with_base (oni_base ?i)) ?as = Ok (oni_nb_digits ?i)"
    using d by (auto simp: traverse_Ok_iff digits_with_base_def elim!: list_all2_mono)
  have params: "map_option (\<lambda>params. \<lparr>df_max_error_exp = op_max_error_exp params, df_min_support_exp = op_min_fail_exp params,
      df_maximize_coverage = op_maximize_coverage params\<rparr>)
      (map_option (\<lambda>params. \<lparr>op_max_error_exp = as_u16 (df_max_error_exp params), op_min_fail_exp = as_u16 (df_min_support_exp params),
        op_maximize_coverage = df_maximize_coverage params\<rparr>) (nd_difference_params n)) = nd_difference_params n"
    using assms(1,2) by (cases "nd_difference_params n") (auto simp: sendable_def fits_events_def as_u16_def)
  have anns: "numeric_announcements (oracle_info_to_ser c) = (?as, cn_threshold c, nd_difference_params n)"
    using assms(1,2) params
    by (auto simp: numeric_announcements_def oracle_info_to_ser_def sendable_def fits_events_def as_u16_def split: list.splits)
  have "numeric_info_of_ser \<lparr>no_num_digits = m, no_payout_function = f,
      no_rounding_intervals = rounding_intervals_to_ser (nd_rounding_intervals n)\<rparr> (oracle_info_to_ser c) =
      Ok \<lparr>cn_contract_descriptor = NumericalDescriptor n, cn_oracle_announcements = ?as, cn_threshold = cn_threshold c\<rparr>"
    using t d0 as payout_function_ser [OF j assms(3)] by (simp add: numeric_info_of_ser_def anns)
  then show ?thesis using assms(2) by simp
qed

lemma info_roundtrip:
  assumes "sendable tc c" "descriptor_to_ser (cn_contract_descriptor c) = (Ok d :: (_, 'e) res)"
  shows "info_of_ser tc \<lparr>in_contract_descriptor = d, in_oracle_info = oracle_info_to_ser c\<rparr> = Ok c"
  using assms enum_info_roundtrip [OF assms(1)] numeric_info_roundtrip [OF assms(1), where 'e = 'e]
  by (cases "cn_contract_descriptor c") (auto simp: info_of_ser_def descriptor_to_ser_def res_simps)

lemma payout_function_to_ser_total:
  assumes "joined f"
  shows "\<exists>s. payout_function_to_ser f = (Ok s :: (_, 'e) res)"
proof -
  have two: "has_two_points x" if "x \<in> set f" for x using assms that by (auto simp: joined_def list_all_iff)
  have "\<exists>y. payout_piece_to_ser x = (Ok y :: (_, 'e) res)" if "x \<in> set f" for x
    using two [OF that] by (cases x) (auto simp: payout_piece_to_ser_def res_simps index_def usub_def)
  then obtain g where "\<forall>x\<in>set f. payout_piece_to_ser x = (Ok (g x) :: (_, 'e) res)" by metis
  then have t: "traverse payout_piece_to_ser f = (Ok (map g f) :: (_, 'e) res)" by (intro traverse_all_Ok) simp
  have "f \<noteq> []" using assms by (simp add: joined_def)
  then show ?thesis using t two [of "last f"]
    by (auto simp: payout_function_to_ser_def last_of_def split: payout_piece.splits)
qed

lemma descriptor_to_ser_total:
  assumes "sendable tc c"
  shows "\<exists>d. descriptor_to_ser (cn_contract_descriptor c) = (Ok d :: (_, 'e) res)"
proof (cases "cn_contract_descriptor c")
  case (NumericalDescriptor n)
  then have "oni_nb_digits (nd_oracle_numeric_infos n) \<noteq> []" "joined (nd_payout_function n)"
    using assms by (auto simp: sendable_def fits_events_def)
  then show ?thesis using payout_function_to_ser_total [of "nd_payout_function n", where 'e = 'e] NumericalDescriptor
    by (auto simp: descriptor_to_ser_def get_min_nb_digits_def)
qed (simp add: descriptor_to_ser_def)

text \<open>
  The information of a contract that fits the events of its oracles is turned into a message without a panic, and
  reading the message gives the same information: payouts, payout functions with their shared end points,
  rounding intervals, oracles, threshold and allowed differences.
\<close>

theorem sendable_infos_roundtrip:
  assumes "\<forall>c\<in>set infos. sendable tc c"
  shows "\<exists>s. contract_info_to_ser tc infos = (Ok s :: (_, 'e) res) \<and> get_contract_info_and_announcements s = Ok infos"
proof -
  let ?f = "\<lambda>c. and_then (descriptor_to_ser (cn_contract_descriptor c)) (\<lambda>d.
      (Ok \<lparr>in_contract_descriptor = d, in_oracle_info = oracle_info_to_ser c\<rparr> :: (_, 'e) res))"
  obtain g where g: "\<forall>c\<in>set infos. descriptor_to_ser (cn_contract_descriptor c) = (Ok (g c) :: (_, 'e) res)"
    using assms descriptor_to_ser_total [where 'e = 'e] by metis
  let ?g = "\<lambda>c. \<lparr>in_contract_descriptor = g c, in_oracle_info = oracle_info_to_ser c\<rparr>"
  have t: "traverse ?f infos = Ok (map ?g infos)" using g by (intro traverse_all_Ok) simp
  have ret: "traverse (info_of_ser tc) (map ?g infos) = Ok infos"
    using g assms info_roundtrip [where 'e = 'e] by (auto simp: traverse_Ok_iff list_all2_map1 list_all2_same)
  show ?thesis
  proof (cases "map ?g infos")
    case Nil
    then show ?thesis using t ret by (simp add: contract_info_to_ser_def get_contract_info_and_announcements_def)
  next
    case (Cons x xs)
    show ?thesis
    proof (cases xs)
      case Nil
      then show ?thesis using t ret unfolding contract_info_to_ser_def get_contract_info_and_announcements_def Cons by simp
    next
      case Cons': (Cons y ys)
      show ?thesis using t ret unfolding contract_info_to_ser_def get_contract_info_and_announcements_def Cons Cons' by simp
    qed
  qed
qed

definition example_numeric_contract :: contract_info where
  "example_numeric_contract =
     \<lparr>cn_contract_descriptor = NumericalDescriptor
        \<lparr>nd_payout_function =
           [PolynomialPayoutCurvePiece [\<lparr>pp_event_outcome = 0, pp_outcome_payout = 0, pp_extra_precision = 0\<rparr>,
              \<lparr>pp_event_outcome = 2, pp_outcome_payout = 4, pp_extra_precision = 0\<rparr>],
            PolynomialPayoutCurvePiece [\<lparr>pp_event_outcome = 2, pp_outcome_payout = 4, pp_extra_precision = 0\<rparr>,
              \<lparr>pp_event_outcome = 3, pp_outcome_payout = 10, pp_extra_precision = 0\<rparr>]],
         nd_rounding_intervals = [\<lparr>ri_begin_interval = 0, ri_rounding_mod = 1\<rparr>], nd_difference_params = None,
         nd_oracle_numeric_infos = \<lparr>oni_base = 2, oni_nb_digits = [2]\<rparr>\<rparr>,
      cn_oracle_announcements = [example_announcement\<lparr>announced_event := (announced_event example_announcement)
        \<lparr>event_desc := DigitDecompositionEvent \<lparr>digit_event.dd_base = 2, dd_is_signed = False, dd_unit = [], dd_precision = 0, dd_nb_digits = 2\<rparr>\<rparr>\<rparr>],
      cn_threshold = 1\<rparr>"

lemma sendable_infos_roundtrip_example:
  "\<exists>s. contract_info_to_ser 10 [example_enum_contract, example_numeric_contract] = (Ok s :: (_, unit) res) \<and>
     get_contract_info_and_announcements s = Ok [example_enum_contract, example_numeric_contract]"
proof -
  have "\<forall>c\<in>set [example_enum_contract, example_numeric_contract]. sendable 10 c"
    by (simp add: sendable_def fits_events_def example_enum_contract_def example_enum_payouts_def example_numeric_contract_def
        example_announcement_def joined_def less_Suc_eq)
  from sendable_infos_roundtrip [OF this] show ?thesis .
qed

end
