(* ===== verification/Contract_Data.thy ===== *)
theory Contract_Data
  imports Conversion
begin

text \<open>
  The states of a contract: \<open>ddk-manager/src/contract/\<close> \<open>offered_contract.rs\<close>, \<open>accepted_contract.rs\<close>,
  \<open>signed_contract.rs\<close>, \<open>contract_input.rs\<close> and the enumeration \<open>Contract\<close> of \<open>mod.rs\<close>, with the functions of
  \<open>ddk-manager/src/utils.rs\<close> and \<open>dlc_input.rs\<close> that build and read them.  The wallet, the signer provider and the
  random numbers are parameters; a signer is its secret key, as \<open>SimpleSigner\<close> of \<open>lib.rs\<close> is.
\<close>

section \<open>Interfaces\<close>

text \<open>
  \<open>ContractSignerProvider::derive_signer_key_id\<close> and \<open>derive_contract_signer\<close>, and the consensus encoding of a
  transaction.
\<close>

record manager_api = message_api +
  derive_signer_key_id :: "bool \<Rightarrow> bytes \<Rightarrow> bytes"
  derive_contract_signer :: "bytes \<Rightarrow> (seckey, manager_error) res"
  consensus_encode :: "transaction \<Rightarrow> bytes"

record utxo =
  ut_outpoint :: out_point
  ut_redeem_script :: script

text \<open>What the wallet, the blockchain and the random number generator answer while the parameters of a party are made.\<close>

record party_env =
  new_address :: "(script, manager_error) res"
  new_change_address :: "(script, manager_error) res"
  utxos_for_amount :: "nat \<Rightarrow> nat \<Rightarrow> (utxo list, manager_error) res"
  prev_transaction :: "bytes \<Rightarrow> (transaction, manager_error) res"
  rnd_payout_serial_id :: nat
  rnd_change_serial_id :: nat
  rnd_input_serial_id :: "nat \<Rightarrow> nat"
  rnd_fund_output_serial_id :: nat
  rnd_temporary_id :: bytes

section \<open>States of a contract\<close>

record offered_contract =
  oc_id :: bytes
  oc_is_offer_party :: bool
  oc_contract_info :: "contract_info list"
  oc_counter_party :: pubkey
  oc_offer_params :: party_params
  oc_total_collateral :: nat
  oc_funding_inputs :: "funding_input list"
  oc_fund_output_serial_id :: nat
  oc_fee_rate_per_vb :: nat
  oc_cet_locktime :: nat
  oc_refund_locktime :: nat
  oc_contract_flags :: nat
  oc_keys_id :: bytes

record accepted_contract =
  ac_offered_contract :: offered_contract
  ac_accept_params :: party_params
  ac_funding_inputs :: "funding_input list"
  ac_adaptor_infos :: "adaptor_info list"
  ac_adaptor_signatures :: "adaptor_sig list"
  ac_accept_refund_signature :: ecdsa_sig
  ac_dlc_transactions :: dlc_transactions

record signed_contract =
  sc_accepted_contract :: accepted_contract
  sc_adaptor_signatures :: "adaptor_sig list"
  sc_offer_refund_signature :: ecdsa_sig
  sc_funding_signatures :: "bytes list list"
  sc_channel_id :: "bytes option"

record failed_accept_contract =
  fa_offered_contract :: offered_contract
  fa_accept_message :: accept_dlc
  fa_error_message :: manager_error

record failed_sign_contract =
  fs_accepted_contract :: accepted_contract
  fs_sign_message :: sign_dlc
  fs_error_message :: manager_error

record preclosed_contract =
  pc_signed_contract :: signed_contract
  pc_attestations :: "oracle_attestation list option"
  pc_signed_cet :: transaction

record closed_contract =
  cl_attestations :: "oracle_attestation list option"
  cl_signed_cet :: "transaction option"
  cl_contract_id :: bytes
  cl_temporary_contract_id :: bytes
  cl_counter_party_id :: pubkey
  cl_funding_txid :: bytes
  cl_pnl :: int
  cl_signed_contract :: signed_contract

datatype contract =
    Offered offered_contract
  | Accepted accepted_contract
  | Signed signed_contract
  | Confirmed signed_contract
  | PreClosed preclosed_contract
  | Closed closed_contract
  | Refunded signed_contract
  | FailedAccept failed_accept_contract
  | FailedSign failed_sign_contract
  | Rejected offered_contract

abbreviation sc_offered_contract :: "signed_contract \<Rightarrow> offered_contract" where
  "sc_offered_contract s \<equiv> ac_offered_contract (sc_accepted_contract s)"

abbreviation btc :: "('m) message_api_scheme \<Rightarrow> bitcoin_api" where
  "btc api \<equiv> bitcoin_api.truncate api"

section \<open>Identifiers\<close>

definition compute_id :: "bytes \<Rightarrow> nat \<Rightarrow> bytes \<Rightarrow> bytes" where
  "compute_id fund_tx_id fund_output_index temporary_id =
     (let res = map2 Bit_Operations.xor (rev fund_tx_id) temporary_id;
          res = res[30 := Bit_Operations.xor (res ! 30) (fund_output_index div 256 mod 256)]
      in res[31 := Bit_Operations.xor (res ! 31) (fund_output_index mod 256)])"

definition get_contract_id :: "('m) message_api_scheme \<Rightarrow> accepted_contract \<Rightarrow> (bytes, 'e) res" where
  "get_contract_id api a =
     and_then (get_fund_output_index (btc api) (ac_dlc_transactions a)) (\<lambda>i.
       Ok (compute_id (compute_txid (btc api) (dlc_fund (ac_dlc_transactions a))) (as_u16 i) (oc_id (ac_offered_contract a))))"

definition get_id :: "('m) message_api_scheme \<Rightarrow> contract \<Rightarrow> (bytes, 'e) res" where
  "get_id api c =
     (case c of
        Offered oc \<Rightarrow> Ok (oc_id oc) | Rejected oc \<Rightarrow> Ok (oc_id oc)
      | Accepted a \<Rightarrow> get_contract_id api a
      | Signed s \<Rightarrow> get_contract_id api (sc_accepted_contract s)
      | Confirmed s \<Rightarrow> get_contract_id api (sc_accepted_contract s)
      | Refunded s \<Rightarrow> get_contract_id api (sc_accepted_contract s)
      | FailedAccept f \<Rightarrow> Ok (oc_id (fa_offered_contract f))
      | FailedSign f \<Rightarrow> get_contract_id api (fs_accepted_contract f)
      | PreClosed p \<Rightarrow> get_contract_id api (sc_accepted_contract (pc_signed_contract p))
      | Closed p \<Rightarrow> Ok (cl_contract_id p))"

text \<open>The offer a contract began with, for every state but \<open>Closed\<close>, which the getters treat apart.\<close>

definition offer_of_contract :: "contract \<Rightarrow> offered_contract option" where
  "offer_of_contract c =
     (case c of
        Offered oc \<Rightarrow> Some oc | Rejected oc \<Rightarrow> Some oc
      | Accepted a \<Rightarrow> Some (ac_offered_contract a)
      | Signed s \<Rightarrow> Some (sc_offered_contract s) | Confirmed s \<Rightarrow> Some (sc_offered_contract s)
      | Refunded s \<Rightarrow> Some (sc_offered_contract s)
      | FailedAccept f \<Rightarrow> Some (fa_offered_contract f)
      | FailedSign f \<Rightarrow> Some (ac_offered_contract (fs_accepted_contract f))
      | PreClosed p \<Rightarrow> Some (sc_offered_contract (pc_signed_contract p))
      | Closed _ \<Rightarrow> None)"

definition get_temporary_id :: "contract \<Rightarrow> bytes" where
  "get_temporary_id c = (case c of Closed p \<Rightarrow> cl_temporary_contract_id p | _ \<Rightarrow> oc_id (the (offer_of_contract c)))"

definition get_counter_party_id :: "contract \<Rightarrow> pubkey" where
  "get_counter_party_id c =
     (case c of Closed p \<Rightarrow> cl_counter_party_id p | _ \<Rightarrow> oc_counter_party (the (offer_of_contract c)))"

definition is_offer_party :: "contract \<Rightarrow> bool" where
  "is_offer_party c = (case c of Closed p \<Rightarrow> False | _ \<Rightarrow> oc_is_offer_party (the (offer_of_contract c)))"

definition get_fee_rate_per_vb :: "contract \<Rightarrow> nat" where
  "get_fee_rate_per_vb c = (case c of Closed p \<Rightarrow> 0 | _ \<Rightarrow> oc_fee_rate_per_vb (the (offer_of_contract c)))"

definition accepted_collateral :: "accepted_contract \<Rightarrow> nat \<times> nat \<times> nat" where
  "accepted_collateral a =
     (collateral (oc_offer_params (ac_offered_contract a)), collateral (ac_accept_params a), oc_total_collateral (ac_offered_contract a))"

definition get_collateral :: "contract \<Rightarrow> (nat \<times> nat \<times> nat, 'e) res" where
  "get_collateral c =
     (case c of
        Offered oc \<Rightarrow>
          and_then (usub (oc_total_collateral oc) (collateral (oc_offer_params oc))) (\<lambda>a.
            Ok (collateral (oc_offer_params oc), a, oc_total_collateral oc))
      | Accepted a \<Rightarrow> Ok (accepted_collateral a)
      | Signed s \<Rightarrow> Ok (accepted_collateral (sc_accepted_contract s))
      | Confirmed s \<Rightarrow> Ok (accepted_collateral (sc_accepted_contract s))
      | Refunded s \<Rightarrow> Ok (accepted_collateral (sc_accepted_contract s))
      | FailedAccept f \<Rightarrow>
          Ok (collateral (oc_offer_params (fa_offered_contract f)), 0, oc_total_collateral (fa_offered_contract f))
      | FailedSign f \<Rightarrow> Ok (accepted_collateral (fs_accepted_contract f))
      | PreClosed p \<Rightarrow> Ok (accepted_collateral (sc_accepted_contract (pc_signed_contract p)))
      | Closed _ \<Rightarrow> Ok (0, 0, 0)
      | Rejected _ \<Rightarrow> Ok (0, 0, 0))"

text \<open>The lock times of a closed contract are those of its transaction, which it need not have.\<close>

definition get_locktime :: "(offered_contract \<Rightarrow> nat) \<Rightarrow> contract \<Rightarrow> (nat, 'e) res" where
  "get_locktime f c =
     (case c of
        Closed p \<Rightarrow> and_then (unwrap (cl_signed_cet p)) (\<lambda>cet. Ok (tx_lock_time cet))
      | Rejected _ \<Rightarrow> Ok 0
      | _ \<Rightarrow> Ok (f (the (offer_of_contract c))))"

definition get_cet_locktime :: "contract \<Rightarrow> (nat, 'e) res" where
  "get_cet_locktime = get_locktime oc_cet_locktime"

definition get_refund_locktime :: "contract \<Rightarrow> (nat, 'e) res" where
  "get_refund_locktime = get_locktime oc_refund_locktime"

text \<open>\<open>as i64\<close> wraps; the difference of two \<open>i64\<close> values can overflow.\<close>

definition as_i64 :: "nat \<Rightarrow> int" where
  "as_i64 n = (let m = n mod 2 ^ 64 in if m < 2 ^ 63 then int m else int m - 2 ^ 64)"

definition isub :: "int \<Rightarrow> int \<Rightarrow> (int, 'e) res" where
  "isub a b = (if - (2 ^ 63) \<le> a - b \<and> a - b < 2 ^ 63 then Ok (a - b) else Panic)"

definition own_params :: "accepted_contract \<Rightarrow> party_params" where
  "own_params a =
     (if oc_is_offer_party (ac_offered_contract a) then oc_offer_params (ac_offered_contract a) else ac_accept_params a)"

definition compute_pnl :: "accepted_contract \<Rightarrow> transaction \<Rightarrow> (int, 'e) res" where
  "compute_pnl a cet =
     (let final_payout =
        (case find (\<lambda>x. script_pubkey x = payout_script_pubkey (own_params a)) (tx_output cet) of
           Some x \<Rightarrow> out_value x | None \<Rightarrow> 0)
      in isub (as_i64 final_payout) (as_i64 (collateral (own_params a))))"

definition get_pnl :: "contract \<Rightarrow> (int, 'e) res" where
  "get_pnl c =
     (case c of
        PreClosed p \<Rightarrow> compute_pnl (sc_accepted_contract (pc_signed_contract p)) (pc_signed_cet p)
      | Closed p \<Rightarrow> Ok (cl_pnl p)
      | _ \<Rightarrow> Ok 0)"

definition fund_txid :: "('m) message_api_scheme \<Rightarrow> accepted_contract \<Rightarrow> bytes" where
  "fund_txid api a = compute_txid (btc api) (dlc_fund (ac_dlc_transactions a))"

definition get_funding_txid :: "('m) message_api_scheme \<Rightarrow> contract \<Rightarrow> bytes option" where
  "get_funding_txid api c =
     (case c of
        Accepted a \<Rightarrow> Some (fund_txid api a)
      | Signed s \<Rightarrow> Some (fund_txid api (sc_accepted_contract s))
      | Confirmed s \<Rightarrow> Some (fund_txid api (sc_accepted_contract s))
      | Refunded s \<Rightarrow> Some (fund_txid api (sc_accepted_contract s))
      | PreClosed p \<Rightarrow> Some (fund_txid api (sc_accepted_contract (pc_signed_contract p)))
      | Closed p \<Rightarrow> Some (cl_funding_txid p)
      | _ \<Rightarrow> None)"

definition get_oracle_announcement :: "contract \<Rightarrow> (oracle_announcement option, 'e) res" where
  "get_oracle_announcement c =
     (case offer_of_contract c of
        None \<Rightarrow> Ok None
      | Some oc \<Rightarrow>
          and_then (index (oc_contract_info oc) 0) (\<lambda>info.
          and_then (index (cn_oracle_announcements info) 0) (\<lambda>a. Ok (Some a))))"

definition get_cet_txid :: "('m) message_api_scheme \<Rightarrow> contract \<Rightarrow> bytes option" where
  "get_cet_txid api c =
     (case c of
        PreClosed p \<Rightarrow> Some (compute_txid (btc api) (pc_signed_cet p))
      | Closed p \<Rightarrow> map_option (compute_txid (btc api)) (cl_signed_cet p)
      | _ \<Rightarrow> None)"

section \<open>The input of an offer\<close>

record oracle_input =
  or_public_keys :: "xonly list"
  or_event_id :: bytes
  or_threshold :: nat

record contract_input_info =
  ii_contract_descriptor :: contract_descriptor
  ii_oracles :: oracle_input

record contract_input =
  ci_offer_collateral :: nat
  ci_accept_collateral :: nat
  ci_fee_rate :: nat
  ci_contract_flags :: nat
  ci_contract_infos :: "contract_input_info list"

definition INPUT_DUST_LIMIT :: nat where "INPUT_DUST_LIMIT = 1000"

definition oracle_input_validate :: "oracle_input \<Rightarrow> (unit, manager_error) res" where
  "oracle_input_validate x =
     (if or_public_keys x = [] then Err InvalidParameters
      else if as_u16 (length (or_public_keys x)) < or_threshold x then Err InvalidParameters
      else if or_threshold x = 0 then Err InvalidParameters
      else Ok ())"

definition contract_input_validate :: "contract_input \<Rightarrow> (unit, manager_error) res" where
  "contract_input_validate x =
     (if 0 < ci_offer_collateral x \<and> ci_offer_collateral x < INPUT_DUST_LIMIT then Err InvalidParameters
      else
        and_then (uadd (ci_offer_collateral x) (ci_accept_collateral x)) (\<lambda>total_collateral.
        if total_collateral < INPUT_DUST_LIMIT then Err InvalidParameters
        else if ci_contract_infos x = [] then Err InvalidParameters
        else
          and_then (fold_res (\<lambda>i _. oracle_input_validate (ii_oracles i)) (ci_contract_infos x) ()) (\<lambda>_.
            map_err (\<lambda>_. InvalidParameters) (validate_fee_rate (ci_fee_rate x)))))"

section \<open>The parameters of a party\<close>

definition get_common_fee :: "nat \<Rightarrow> (nat, dlc_error) res" where
  "get_common_fee fee_rate = weight_to_fee (FUND_TX_BASE_WEIGHT + CET_BASE_WEIGHT) fee_rate"

definition get_half_common_fee :: "nat \<Rightarrow> (nat, manager_error) res" where
  "get_half_common_fee fee_rate = and_then (map_err DlcError (get_common_fee fee_rate)) (\<lambda>fee. Ok (fee div 2))"

definition ASSUME_P2WPKH_WEIGHT :: nat where "ASSUME_P2WPKH_WEIGHT = 124"

definition get_approximate_required_amount ::
  "dlc_input_info list \<Rightarrow> nat \<Rightarrow> nat \<Rightarrow> nat \<Rightarrow> (nat, manager_error) res" where
  "get_approximate_required_amount dlc_ins total_collateral own_collateral fee_rate =
     and_then (get_dlc_inputs_weight dlc_ins) (\<lambda>dlc_weight.
     if own_collateral = 0 then Ok 0
     else
       and_then (if own_collateral = total_collateral then map_err DlcError (get_common_fee fee_rate)
                 else get_half_common_fee fee_rate) (\<lambda>fee.
       and_then (uadd own_collateral fee) (\<lambda>s.
       and_then (map_err DlcError (weight_to_fee ASSUME_P2WPKH_WEIGHT fee_rate)) (\<lambda>payout_fee.
       and_then (uadd s payout_fee) (\<lambda>s.
       and_then (map_err DlcError (weight_to_fee dlc_weight fee_rate)) (\<lambda>dlc_fee.
         uadd s dlc_fee))))))"

text \<open>One input of the wallet, and one input that spends the funding output of another contract.\<close>

definition wallet_input ::
  "('m) manager_api_scheme \<Rightarrow> party_env \<Rightarrow> nat \<times> utxo \<Rightarrow> tx_input_info list \<times> funding_input list \<times> nat
    \<Rightarrow> (tx_input_info list \<times> funding_input list \<times> nat, manager_error) res" where
  "wallet_input api env = (\<lambda>(n, u) (infos, funding_inputs, total_input).
     and_then (prev_transaction env (op_txid (ut_outpoint u))) (\<lambda>prev_tx.
     let funding_input = \<lparr>fi_input_serial_id = rnd_input_serial_id env n, fi_prev_tx = consensus_encode api prev_tx,
           fi_prev_tx_vout = op_vout (ut_outpoint u), fi_sequence = 4294967295, fi_max_witness_len = 108,
           fi_redeem_script = ut_redeem_script u, fi_dlc_input = None\<rparr> in
     and_then (index (tx_output prev_tx) (op_vout (ut_outpoint u))) (\<lambda>out.
     and_then (uadd total_input (out_value out)) (\<lambda>total_input.
     and_then (funding_tx_input_info api funding_input) (\<lambda>info.
       Ok (infos @ [info], funding_inputs @ [funding_input], total_input))))))"

definition dlc_funding_input :: "('m) manager_api_scheme \<Rightarrow> dlc_input_info \<Rightarrow> funding_input" where
  "dlc_funding_input api d =
     \<lparr>fi_input_serial_id = di_input_serial_id d, fi_prev_tx = consensus_encode api (di_fund_tx d),
      fi_prev_tx_vout = di_fund_vout d, fi_sequence = 4294967295, fi_max_witness_len = as_u16 (di_max_witness_len d),
      fi_redeem_script = [],
      fi_dlc_input = Some \<lparr>dlc_local_fund_pubkey = di_local_fund_pubkey d, dlc_remote_fund_pubkey = di_remote_fund_pubkey d,
        dlc_contract_id = di_contract_id d\<rparr>\<rparr>"

definition get_party_params ::
  "('m) manager_api_scheme \<Rightarrow> party_env \<Rightarrow> nat \<Rightarrow> nat \<Rightarrow> dlc_input_info list \<Rightarrow> nat \<Rightarrow> seckey
    \<Rightarrow> (party_params \<times> funding_input list, manager_error) res" where
  "get_party_params api env own_collateral total_collateral dlc_ins fee_rate signer =
     (let funding_pubkey = pk_of_sk api signer in
      and_then (new_address env) (\<lambda>payout_spk.
      and_then (new_change_address env) (\<lambda>change_spk.
      and_then (get_approximate_required_amount dlc_ins total_collateral own_collateral fee_rate) (\<lambda>required.
      and_then (calculate_total_dlc_input_amount dlc_ins) (\<lambda>dlc_input_amount.
      and_then (utxos_for_amount env (required - dlc_input_amount) fee_rate) (\<lambda>utxos.
      and_then (fold_res (wallet_input api env) (enumerate 0 utxos) ([], [], dlc_input_amount)) (\<lambda>(infos, funding_inputs, total_input).
      let dlc_funding_inputs = map (dlc_funding_input api) dlc_ins in
      and_then (traverse (funding_tx_input_info api) dlc_funding_inputs) (\<lambda>dlc_infos.
        Ok (\<lparr>fund_pubkey = funding_pubkey, change_script_pubkey = change_spk, change_serial_id = rnd_change_serial_id env,
             payout_script_pubkey = payout_spk, payout_serial_id = rnd_payout_serial_id env, pp_inputs = infos @ dlc_infos,
             dlc_inputs = dlc_ins, input_amount = total_input, collateral = own_collateral\<rparr>,
            funding_inputs @ dlc_funding_inputs)))))))))"

definition get_latest_maturity_date :: "oracle_announcement list list \<Rightarrow> (nat, manager_error) res" where
  "get_latest_maturity_date announcements =
     (case map (\<lambda>x. event_maturity_epoch (announced_event x)) (concat announcements) of
        [] \<Rightarrow> Err InvalidParameters
      | x # xs \<Rightarrow> Ok (foldl max x xs))"

definition get_dlc_inputs_from_funding_inputs ::
  "('m) message_api_scheme \<Rightarrow> funding_input list \<Rightarrow> (dlc_input_info list, 'e) res" where
  "get_dlc_inputs_from_funding_inputs api funding_inputs =
     traverse (funding_dlc_input_info api) (filter (\<lambda>i. fi_dlc_input i \<noteq> None) funding_inputs)"

section \<open>Offers\<close>

definition offered_validate :: "offered_contract \<Rightarrow> (unit, manager_error) res" where
  "offered_validate oc =
     and_then (map_err (\<lambda>_. InvalidParameters) (validate_fee_rate (oc_fee_rate_per_vb oc))) (\<lambda>_.
       fold_res (\<lambda>info _.
         and_then (info_validate info) (\<lambda>_.
         and_then (info_get_payouts info (oc_total_collateral oc)) (\<lambda>payouts.
         and_then (fold_res (\<lambda>p valid. if valid then and_then (uadd (accept p) (offer p)) (\<lambda>s. Ok (s = oc_total_collateral oc))
             else Ok False) payouts True) (\<lambda>valid.
           if valid then Ok () else Err InvalidParameters))))
         (oc_contract_info oc) ())"

definition offered_new ::
  "party_env \<Rightarrow> bytes \<Rightarrow> contract_input \<Rightarrow> oracle_announcement list list \<Rightarrow> party_params \<Rightarrow> funding_input list \<Rightarrow> pubkey
    \<Rightarrow> nat \<Rightarrow> nat \<Rightarrow> bytes \<Rightarrow> (offered_contract, 'e) res" where
  "offered_new env temp_id contract oracle_announcements offer_params funding_inputs counter_party refund_delay cet_locktime keys_id =
     and_then (uadd (ci_offer_collateral contract) (ci_accept_collateral contract)) (\<lambda>total_collateral.
     and_then (assert_that (length (ci_contract_infos contract) = length oracle_announcements)) (\<lambda>_.
     and_then (case get_latest_maturity_date oracle_announcements of Ok d \<Rightarrow> Ok d | _ \<Rightarrow> Panic) (\<lambda>latest_maturity.
     and_then (add_u32 latest_maturity refund_delay) (\<lambda>refund_locktime.
       Ok \<lparr>oc_id = temp_id, oc_is_offer_party = True,
         oc_contract_info = map2 (\<lambda>x y. \<lparr>cn_contract_descriptor = ii_contract_descriptor x, cn_oracle_announcements = y,
           cn_threshold = or_threshold (ii_oracles x)\<rparr>) (ci_contract_infos contract) oracle_announcements,
         oc_counter_party = counter_party, oc_offer_params = offer_params, oc_total_collateral = total_collateral,
         oc_funding_inputs = funding_inputs, oc_fund_output_serial_id = rnd_fund_output_serial_id env,
         oc_fee_rate_per_vb = ci_fee_rate contract, oc_cet_locktime = cet_locktime, oc_refund_locktime = refund_locktime,
         oc_contract_flags = ci_contract_flags contract, oc_keys_id = keys_id\<rparr>))))"

definition try_from_offer_dlc ::
  "('m) message_api_scheme \<Rightarrow> offer_dlc \<Rightarrow> pubkey \<Rightarrow> bytes \<Rightarrow> (offered_contract, conversion_error) res" where
  "try_from_offer_dlc api m counter_party keys_id =
     and_then (get_contract_info_and_announcements (om_contract_info m)) (\<lambda>contract_info.
     and_then (get_tx_input_infos api (om_funding_inputs m)) (\<lambda>(ins, amount).
     and_then (get_dlc_inputs_from_funding_inputs api (om_funding_inputs m)) (\<lambda>dlc_ins.
       Ok \<lparr>oc_id = om_temporary_contract_id m, oc_is_offer_party = False, oc_contract_info = contract_info,
         oc_counter_party = counter_party,
         oc_offer_params = \<lparr>fund_pubkey = om_funding_pubkey m, change_script_pubkey = om_change_spk m,
           change_serial_id = om_change_serial_id m, payout_script_pubkey = om_payout_spk m,
           payout_serial_id = om_payout_serial_id m, pp_inputs = ins, dlc_inputs = dlc_ins,
           input_amount = amount, collateral = om_offer_collateral m\<rparr>,
         oc_total_collateral = ser_total_collateral (om_contract_info m), oc_funding_inputs = om_funding_inputs m,
         oc_fund_output_serial_id = om_fund_output_serial_id m, oc_fee_rate_per_vb = om_fee_rate_per_vb m,
         oc_cet_locktime = om_cet_locktime m, oc_refund_locktime = om_refund_locktime m,
         oc_contract_flags = om_contract_flags m, oc_keys_id = keys_id\<rparr>)))"

definition PROTOCOL_VERSION :: nat where "PROTOCOL_VERSION = 1"

definition BITCOIN_CHAINHASH :: bytes where
  "BITCOIN_CHAINHASH =
     [6, 34, 110, 70, 17, 26, 11, 89, 202, 175, 18, 96, 67, 235, 91, 191,
      40, 195, 79, 58, 94, 51, 42, 31, 199, 178, 183, 60, 241, 136, 145, 15]"

definition offer_message :: "offered_contract \<Rightarrow> (offer_dlc, 'e) res" where
  "offer_message oc =
     and_then (contract_info_to_ser (oc_total_collateral oc) (oc_contract_info oc)) (\<lambda>info.
       Ok \<lparr>om_protocol_version = PROTOCOL_VERSION, om_contract_flags = oc_contract_flags oc, om_chain_hash = BITCOIN_CHAINHASH,
         om_temporary_contract_id = oc_id oc, om_contract_info = info, om_funding_pubkey = fund_pubkey (oc_offer_params oc),
         om_payout_spk = payout_script_pubkey (oc_offer_params oc), om_payout_serial_id = payout_serial_id (oc_offer_params oc),
         om_offer_collateral = collateral (oc_offer_params oc), om_funding_inputs = oc_funding_inputs oc,
         om_change_spk = change_script_pubkey (oc_offer_params oc), om_change_serial_id = change_serial_id (oc_offer_params oc),
         om_fund_output_serial_id = oc_fund_output_serial_id oc, om_fee_rate_per_vb = oc_fee_rate_per_vb oc,
         om_cet_locktime = oc_cet_locktime oc, om_refund_locktime = oc_refund_locktime oc\<rparr>)"

section \<open>Messages and inputs from a contract\<close>

definition get_accept_contract_msg :: "accepted_contract \<Rightarrow> adaptor_sig list \<Rightarrow> accept_dlc" where
  "get_accept_contract_msg a sigs =
     \<lparr>am_protocol_version = PROTOCOL_VERSION, am_temporary_contract_id = oc_id (ac_offered_contract a),
      am_accept_collateral = collateral (ac_accept_params a), am_funding_pubkey = fund_pubkey (ac_accept_params a),
      am_payout_spk = payout_script_pubkey (ac_accept_params a), am_payout_serial_id = payout_serial_id (ac_accept_params a),
      am_funding_inputs = ac_funding_inputs a, am_change_spk = change_script_pubkey (ac_accept_params a),
      am_change_serial_id = change_serial_id (ac_accept_params a), am_cet_adaptor_signatures = sigs,
      am_refund_signature = ac_accept_refund_signature a, am_negotiation_fields = None\<rparr>"

definition get_sign_dlc :: "('m) message_api_scheme \<Rightarrow> signed_contract \<Rightarrow> adaptor_sig list \<Rightarrow> (sign_dlc, 'e) res" where
  "get_sign_dlc api s sigs =
     and_then (get_contract_id api (sc_accepted_contract s)) (\<lambda>contract_id.
       Ok \<lparr>sm_protocol_version = PROTOCOL_VERSION, sm_contract_id = contract_id, sm_cet_adaptor_signatures = sigs,
         sm_refund_signature = sc_offer_refund_signature s, sm_funding_signatures = sc_funding_signatures s\<rparr>)"

definition get_dlc_input :: "('m) message_api_scheme \<Rightarrow> nat \<Rightarrow> signed_contract \<Rightarrow> (dlc_input_info, 'e) res" where
  "get_dlc_input api serial_id s =
     (let a = sc_accepted_contract s; d = ac_dlc_transactions a in
      and_then (get_fund_output_index (btc api) d) (\<lambda>vout.
      and_then (get_fund_output (btc api) d) (\<lambda>out.
      and_then (get_contract_id api a) (\<lambda>contract_id.
        Ok \<lparr>di_fund_tx = dlc_fund d, di_fund_vout = as_u32 vout,
          di_local_fund_pubkey = fund_pubkey (oc_offer_params (ac_offered_contract a)),
          di_remote_fund_pubkey = fund_pubkey (ac_accept_params a), di_fund_amount = out_value out,
          di_max_witness_len = 220, di_input_serial_id = serial_id, di_contract_id = contract_id\<rparr>))))"

section \<open>The signatures of attested outcomes\<close>

definition get_range_info_and_oracle_sigs ::
  "hash_orders \<Rightarrow> contract_info \<Rightarrow> adaptor_info \<Rightarrow> (nat \<times> oracle_attestation) list
    \<Rightarrow> (range_info \<times> schnorr_sig list list, manager_error) res" where
  "get_range_info_and_oracle_sigs ho contract_info adaptor_info attestations =
     and_then (info_get_range_info ho contract_info adaptor_info (map (\<lambda>(i, x). (i, att_outcomes x)) attestations) 0) (\<lambda>r.
       case r of
         None \<Rightarrow> Err InvalidState
       | Some (sig_infos, range_info) \<Rightarrow>
           Ok (range_info, List.map_filter (\<lambda>(i, a).
             case find (\<lambda>x. fst x = i) sig_infos of
               None \<Rightarrow> None
             | Some sig_info \<Rightarrow> Some (take (snd sig_info) (att_signatures a))) attestations))"

section \<open>Facts\<close>

lemma compute_id_length: "length t = 32 \<Longrightarrow> length a = 32 \<Longrightarrow> length (compute_id t n a) = 32"
  by (simp add: compute_id_def Let_def)

lemma xor_cancel: "Bit_Operations.xor (x::nat) a = Bit_Operations.xor x b \<Longrightarrow> a = b"
  by (metis bit.xor_left_self xor.left_commute xor.assoc xor_self_eq xor.left_neutral)

lemma xor_cancel_iff [simp]: "Bit_Operations.xor (x::nat) a = Bit_Operations.xor x b \<longleftrightarrow> a = b"
  "Bit_Operations.xor a (x::nat) = Bit_Operations.xor b x \<longleftrightarrow> a = b"
  using xor_cancel by (auto simp: xor.commute)

text \<open>Contracts with the same funding output have different identifiers when their temporary identifiers differ.\<close>

lemma compute_id_inj:
  assumes "length t = 32" "length a = 32" "length b = 32" "compute_id t n a = compute_id t n b"
  shows "a = b"
proof (rule nth_equalityI)
  fix i assume "i < length a"
  then have i: "i < 32" using assms(2) by simp
  have r: "compute_id t n c ! i =
      (if i = 31 then Bit_Operations.xor (Bit_Operations.xor (rev t ! i) (c ! i)) (n mod 256)
       else if i = 30 then Bit_Operations.xor (Bit_Operations.xor (rev t ! i) (c ! i)) (n div 256 mod 256)
       else Bit_Operations.xor (rev t ! i) (c ! i))" if "length c = 32" for c
    using i that assms(1) by (simp add: compute_id_def Let_def nth_list_update)
  show "a ! i = b ! i" using r [OF assms(2)] r [OF assms(3)] assms(4) by (auto split: if_splits)
qed (use assms in simp)

subsection \<open>The inputs of a party\<close>

text \<open>The value of the output that a funding input spends, and inputs that both parties describe in the same way.\<close>

definition spent_value :: "('m) message_api_scheme \<Rightarrow> funding_input \<Rightarrow> nat" where
  "spent_value api f = out_value (tx_output (the (consensus_decode api (fi_prev_tx f))) ! fi_prev_tx_vout f)"

definition good_input :: "('m) message_api_scheme \<Rightarrow> funding_input \<Rightarrow> tx_input_info \<Rightarrow> bool" where
  "good_input api f i \<longleftrightarrow>
     (\<exists>tx. consensus_decode api (fi_prev_tx f) = Some tx \<and> fi_prev_tx_vout f < length (tx_output tx) \<and>
       i = \<lparr>ti_outpoint = \<lparr>op_txid = compute_txid (btc api) tx, op_vout = fi_prev_tx_vout f\<rparr>,
            ti_max_witness_len = (if fi_dlc_input f \<noteq> None then 220 else 108),
            ti_redeem_script = fi_redeem_script f, ti_serial_id = fi_input_serial_id f\<rparr>)"

lemma get_tx_input_infos_good:
  assumes "list_all2 (good_input api) fs is" "sum_list (map (spent_value api) fs) < usize_bound"
  shows "get_tx_input_infos api fs = Ok (is, sum_list (map (spent_value api) fs))"
proof -
  let ?step = "\<lambda>fund_input (inputs, input_amount).
       and_then (ok_or BitcoinEncoding (consensus_decode api (fi_prev_tx fund_input))) (\<lambda>tx.
       and_then (if fi_prev_tx_vout fund_input < length (tx_output tx) then Ok (tx_output tx ! fi_prev_tx_vout fund_input)
                 else Err InvalidConversionParameters) (\<lambda>tx_out.
       and_then (uadd input_amount (out_value tx_out)) (\<lambda>input_amount.
         Ok (inputs @ [\<lparr>ti_outpoint = \<lparr>op_txid = compute_txid (bitcoin_api.truncate api) tx, op_vout = fi_prev_tx_vout fund_input\<rparr>,
               ti_max_witness_len = (if fi_dlc_input fund_input \<noteq> None then 220 else 108),
               ti_redeem_script = fi_redeem_script fund_input, ti_serial_id = fi_input_serial_id fund_input\<rparr>], input_amount))))"
  have "fold_res ?step fs (js, n) = Ok (js @ is, n + sum_list (map (spent_value api) fs))"
    if "list_all2 (good_input api) fs is" "n + sum_list (map (spent_value api) fs) < usize_bound" for js n
    using that
  proof (induction fs "is" arbitrary: js n rule: list_all2_induct)
    case (Cons f fs i "is")
    then obtain tx where tx: "consensus_decode api (fi_prev_tx f) = Some tx" "fi_prev_tx_vout f < length (tx_output tx)"
      "i = \<lparr>ti_outpoint = \<lparr>op_txid = compute_txid (btc api) tx, op_vout = fi_prev_tx_vout f\<rparr>,
            ti_max_witness_len = (if fi_dlc_input f \<noteq> None then 220 else 108),
            ti_redeem_script = fi_redeem_script f, ti_serial_id = fi_input_serial_id f\<rparr>"
      by (auto simp: good_input_def)
    have u: "n + out_value (tx_output tx ! fi_prev_tx_vout f) < usize_bound" "out_value (tx_output tx ! fi_prev_tx_vout f) = spent_value api f"
      using Cons.prems tx(1) by (simp_all add: spent_value_def)
    have "?step f (js, n) = Ok (js @ [i], n + spent_value api f)"
      using tx u by (simp add: uadd_def)
    then have "fold_res ?step (f # fs) (js, n) = fold_res ?step fs (js @ [i], n + spent_value api f)"
      by simp
    also have "\<dots> = Ok ((js @ [i]) @ is, n + spent_value api f + sum_list (map (spent_value api) fs))"
      using Cons.prems by (intro Cons.IH) (simp add: add.assoc)
    finally show ?case by (simp add: add.assoc)
  qed simp
  then show ?thesis using assms by (fastforce simp: get_tx_input_infos_def)
qed

text \<open>An input that spends the funding output of another contract, as \<open>get_dlc_input\<close> makes it.\<close>

definition own_dlc_input :: "dlc_input_info \<Rightarrow> bool" where
  "own_dlc_input d \<longleftrightarrow> di_max_witness_len d = 220 \<and> di_fund_vout d < length (tx_output (di_fund_tx d)) \<and>
     di_fund_amount d = out_value (tx_output (di_fund_tx d) ! di_fund_vout d)"

lemma wallet_inputs_good:
  assumes "\<And>tx. consensus_decode api (consensus_encode api tx) = Some tx"
    and "fold_res (wallet_input api env) us (infos, fins, t) = Ok (infos', fins', t')"
    and "list_all2 (good_input api) fins infos" "\<forall>f\<in>set fins. fi_dlc_input f = None"
  shows "list_all2 (good_input api) fins' infos' \<and> (\<forall>f\<in>set fins'. fi_dlc_input f = None) \<and>
    t' = t + sum_list (map (spent_value api) (drop (length fins) fins')) \<and> take (length fins) fins' = fins \<and>
    (t < usize_bound \<longrightarrow> t' < usize_bound)"
  using assms(2-4)
proof (induction us arbitrary: infos fins t)
  case (Cons u us)
  obtain n x where u: "u = (n, x)" by (cases u)
  obtain tx where tx: "prev_transaction env (op_txid (ut_outpoint x)) = Ok tx" and
    step: "fold_res (wallet_input api env) (u # us) (infos, fins, t) = Ok (infos', fins', t')"
    using Cons.prems(1) by (auto simp: wallet_input_def u res_simps Let_def)
  let ?f = "\<lparr>fi_input_serial_id = rnd_input_serial_id env n, fi_prev_tx = consensus_encode api tx,
           fi_prev_tx_vout = op_vout (ut_outpoint x), fi_sequence = 4294967295, fi_max_witness_len = 108,
           fi_redeem_script = ut_redeem_script x, fi_dlc_input = None\<rparr>"
  obtain i where i: "good_input api ?f i" "t + spent_value api ?f < usize_bound"
    "fold_res (wallet_input api env) us (infos @ [i], fins @ [?f], t + spent_value api ?f) = Ok (infos', fins', t')"
    using Cons.prems(1) tx assms(1)
    by (auto simp: wallet_input_def u res_simps Let_def index_def good_input_def spent_value_def funding_tx_input_info_def split: if_splits)
  have g: "list_all2 (good_input api) (fins @ [?f]) (infos @ [i])" "\<forall>f\<in>set (fins @ [?f]). fi_dlc_input f = None"
    using Cons.prems(2,3) i(1) by (auto intro!: list_all2_appendI)
  note r = Cons.IH [OF i(3) g]
  then have "drop (length fins) fins' = ?f # drop (Suc (length fins)) fins'" "take (length fins) fins' = fins"
    by (metis append_eq_conv_conj append.assoc append_Cons append_Nil append_take_drop_id length_append_singleton)+
  then show ?case using r i(2) by simp
qed simp

lemma dlc_inputs_good:
  assumes "\<And>tx. consensus_decode api (consensus_encode api tx) = Some tx"
    and "\<forall>d\<in>set ds. own_dlc_input d" "traverse (funding_tx_input_info api) (map (dlc_funding_input api) ds) = (Ok is :: (_, 'e) res)"
  shows "list_all2 (good_input api) (map (dlc_funding_input api) ds) is \<and>
    map (spent_value api) (map (dlc_funding_input api) ds) = map di_fund_amount ds \<and>
    get_dlc_inputs_from_funding_inputs api (map (dlc_funding_input api) ds) = (Ok ds :: (_, 'f) res)"
  using assms(2,3)
proof (induction ds arbitrary: "is")
  case (Cons d ds)
  then show ?case using assms(1)
    by (auto simp: res_simps good_input_def funding_tx_input_info_def dlc_funding_input_def own_dlc_input_def spent_value_def
        as_u16_def get_dlc_inputs_from_funding_inputs_def funding_dlc_input_info_def index_def)
qed (simp add: get_dlc_inputs_from_funding_inputs_def)

lemma get_dlc_inputs_append:
  "get_dlc_inputs_from_funding_inputs api (fs @ gs) = (if \<forall>f\<in>set fs. fi_dlc_input f = None
     then get_dlc_inputs_from_funding_inputs api gs else get_dlc_inputs_from_funding_inputs api (fs @ gs))"
  by (simp add: get_dlc_inputs_from_funding_inputs_def filter_False)

lemma usum_bound:
  assumes "usum xs = (Ok n :: (_, 'e) res)"
  shows "n < usize_bound"
proof -
  have "fold_res (\<lambda>x s. uadd s x) xs 0 = (Ok n :: (_, 'e) res)" using assms by (simp add: usum_def)
  then show ?thesis by (rule fold_res_invariant) auto
qed

text \<open>The other party reads the inputs of a party from its message as the party itself has them.\<close>

lemma party_params_received:
  assumes "\<And>tx. consensus_decode api (consensus_encode api tx) = Some tx" "\<forall>d\<in>set ds. own_dlc_input d"
    and "get_party_params api env own tc ds rate sk = Ok (pp, fins)"
  shows "get_tx_input_infos api fins = Ok (pp_inputs pp, input_amount pp) \<and>
    get_dlc_inputs_from_funding_inputs api fins = (Ok (dlc_inputs pp) :: (_, 'e) res) \<and>
    dlc_inputs pp = ds \<and> collateral pp = own \<and> fund_pubkey pp = pk_of_sk api sk"
proof -
  obtain n us infos wins t dis where p: "calculate_total_dlc_input_amount ds = (Ok n :: (_, manager_error) res)"
    "fold_res (wallet_input api env) us ([], [], n) = Ok (infos, wins, t)"
    "traverse (funding_tx_input_info api) (map (dlc_funding_input api) ds) = (Ok dis :: (_, manager_error) res)"
    "pp_inputs pp = infos @ dis" "input_amount pp = t" "dlc_inputs pp = ds" "collateral pp = own" "fund_pubkey pp = pk_of_sk api sk"
    "fins = wins @ map (dlc_funding_input api) ds"
    using assms(3) by (auto simp: get_party_params_def res_simps Let_def)
  have n: "n = sum_list (map di_fund_amount ds)" "n < usize_bound"
    using p(1) usum_Ok usum_bound by (auto simp: calculate_total_dlc_input_amount_def)
  note w = wallet_inputs_good [OF assms(1) p(2), simplified]
  note d = dlc_inputs_good [OF assms(1,2) p(3), where 'f = 'e]
  have t: "t = sum_list (map (spent_value api) fins)"
    using w d n(1) unfolding p(9) map_append sum_list_append by (metis add.commute)
  have "get_tx_input_infos api fins = Ok (infos @ dis, t)"
    unfolding t using w d n t by (intro get_tx_input_infos_good) (auto simp: p(9) intro!: list_all2_appendI)
  moreover have "get_dlc_inputs_from_funding_inputs api fins = (Ok ds :: (_, 'e) res)"
    using w d by (simp add: p(9) get_dlc_inputs_append)
  ultimately show ?thesis using p by simp
qed

end
