(* ===== verification/Contract_Updater.thy ===== *)
theory Contract_Updater
  imports Contract_Data Channel_Transactions
begin

text \<open>
  \<open>ddk-manager/src/contract_updater.rs\<close> and \<open>dlc_input.rs\<close>: making an offer, accepting it, verifying an acceptance and
  signing, verifying the signatures of the offer, and the transactions that close or refund a contract.
  The storage is the function \<open>lookup\<close> that reads one contract, the wallet the function \<open>wallet\<close> that signs one input of
  a partially signed transaction.  Log messages are left out.
\<close>

section \<open>Partially signed transactions\<close>

record psbt_input =
  pi_witness_utxo :: "tx_out option"
  pi_redeem_script :: "script option"
  pi_final_script_witness :: "bytes list option"

record psbt =
  ps_unsigned_tx :: transaction
  ps_inputs :: "psbt_input list"

text \<open>\<open>Psbt::from_unsigned_tx\<close> (\<open>None\<close> when an input has a script or a witness) and \<open>extract_tx_unchecked_fee_rate\<close>.\<close>

record updater_api = manager_api +
  psbt_from_unsigned_tx :: "transaction \<Rightarrow> psbt option"
  psbt_extract_tx :: "psbt \<Rightarrow> transaction"

type_synonym lookup = "bytes \<Rightarrow> (contract option, manager_error) res"
type_synonym wallet = "psbt \<Rightarrow> nat \<Rightarrow> (psbt, manager_error) res"

definition update_psbt_input :: "nat \<Rightarrow> (psbt_input \<Rightarrow> psbt_input) \<Rightarrow> psbt \<Rightarrow> (psbt, 'e) res" where
  "update_psbt_input i f p = and_then (index (ps_inputs p) i) (\<lambda>x. Ok (p\<lparr>ps_inputs := (ps_inputs p)[i := f x]\<rparr>))"

definition populate_psbt :: "('m) message_api_scheme \<Rightarrow> funding_input list \<Rightarrow> psbt \<Rightarrow> (psbt, manager_error) res" where
  "populate_psbt api all_funding_inputs p =
     fold_res (\<lambda>(input_index, x) p.
       and_then (ok_or InvalidParameters (consensus_decode api (fi_prev_tx x))) (\<lambda>tx.
       and_then (if fi_prev_tx_vout x < length (tx_output tx) then Ok (tx_output tx ! fi_prev_tx_vout x)
                 else Err InvalidParameters) (\<lambda>tx_out.
         update_psbt_input input_index
           (\<lambda>i. i\<lparr>pi_witness_utxo := Some tx_out, pi_redeem_script := Some (fi_redeem_script x)\<rparr>) p)))
       (enumerate 0 all_funding_inputs) p"

definition funding_input_position :: "funding_input list \<Rightarrow> funding_input \<Rightarrow> (nat, manager_error) res" where
  "funding_input_position all_funding_inputs f =
     (case find (\<lambda>(_, x). x = f) (enumerate 0 all_funding_inputs) of Some (i, _) \<Rightarrow> Ok i | None \<Rightarrow> Err InvalidState)"

section \<open>Inputs that spend another contract\<close>

definition confirmed_keys_id :: "lookup \<Rightarrow> bytes \<Rightarrow> (bytes, manager_error) res" where
  "confirmed_keys_id lookup contract_id =
     and_then (lookup contract_id) (\<lambda>c.
       case c of
         None \<Rightarrow> Err StorageError
       | Some (Confirmed s) \<Rightarrow> Ok (oc_keys_id (sc_offered_contract s))
       | Some _ \<Rightarrow> Err InvalidState)"

definition get_fund_pubkey_for_dlc_input ::
  "('m) manager_api_scheme \<Rightarrow> lookup \<Rightarrow> bytes \<Rightarrow> (pubkey, manager_error) res" where
  "get_fund_pubkey_for_dlc_input api lookup contract_id =
     and_then (confirmed_keys_id lookup contract_id) (\<lambda>keys_id.
     and_then (derive_contract_signer api keys_id) (\<lambda>sk. Ok (pk_of_sk api sk)))"

definition get_signature_for_dlc_input ::
  "('m) manager_api_scheme \<Rightarrow> lookup \<Rightarrow> funding_input \<Rightarrow> transaction \<Rightarrow> nat \<Rightarrow> bytes \<Rightarrow> (bytes, manager_error) res" where
  "get_signature_for_dlc_input api lookup funding_input fund_transaction input_index contract_id =
     and_then (funding_dlc_input_info api funding_input) (\<lambda>dlc_input_info.
     and_then (confirmed_keys_id lookup contract_id) (\<lambda>key_id.
     and_then (derive_contract_signer api key_id) (\<lambda>sk.
       map_err DlcError (create_dlc_funding_input_signature api fund_transaction input_index dlc_input_info sk))))"

section \<open>Offering\<close>

definition offer_contract ::
  "('m) manager_api_scheme \<Rightarrow> party_env \<Rightarrow> nat \<Rightarrow> contract_input \<Rightarrow> oracle_announcement list list \<Rightarrow> dlc_input_info list
    \<Rightarrow> nat \<Rightarrow> pubkey \<Rightarrow> (offered_contract \<times> offer_dlc, manager_error) res" where
  "offer_contract api env unix_time contract_input oracle_announcements dlc_ins refund_delay counter_party =
     and_then (contract_input_validate contract_input) (\<lambda>_.
     let temp_id = rnd_temporary_id env; keys_id = derive_signer_key_id api True temp_id in
     and_then (derive_contract_signer api keys_id) (\<lambda>signer.
     and_then (uadd (ci_offer_collateral contract_input) (ci_accept_collateral contract_input)) (\<lambda>total_collateral.
     and_then (get_party_params api env (ci_offer_collateral contract_input) total_collateral dlc_ins
         (ci_fee_rate contract_input) signer) (\<lambda>(params, funding_inputs).
     and_then (offered_new env temp_id contract_input oracle_announcements params funding_inputs counter_party refund_delay
         (as_u32 unix_time) keys_id) (\<lambda>offered.
     and_then (offer_message offered) (\<lambda>msg. Ok (offered, msg)))))))"

section \<open>Accepting\<close>

text \<open>The transactions of a contract, which both parties make in the same way.\<close>

definition make_dlc_transactions ::
  "('m) message_api_scheme \<Rightarrow> offered_contract \<Rightarrow> party_params \<Rightarrow> (dlc_transactions, manager_error) res" where
  "make_dlc_transactions api oc accept_params =
     and_then (index (oc_contract_info oc) 0) (\<lambda>info.
     and_then (info_get_payouts info (oc_total_collateral oc)) (\<lambda>payouts.
     let create = (if dlc_inputs accept_params \<noteq> [] \<or> dlc_inputs (oc_offer_params oc) \<noteq> []
                   then create_spliced_dlc_transactions else create_dlc_transactions)
     in map_err DlcError (create (btc api) (oc_offer_params oc) accept_params payouts (oc_refund_locktime oc)
          (oc_fee_rate_per_vb oc) 0 (oc_cet_locktime oc) (oc_fund_output_serial_id oc) (oc_contract_flags oc))))"

definition later_cets :: "offered_contract \<Rightarrow> party_params \<Rightarrow> tx_in \<Rightarrow> payout list \<Rightarrow> transaction list" where
  "later_cets oc accept_params cet_input payouts =
     create_cets cet_input (payout_script_pubkey (oc_offer_params oc)) (payout_serial_id (oc_offer_params oc))
       (payout_script_pubkey accept_params) (payout_serial_id accept_params) payouts 0"

definition cet_input_of :: "dlc_transactions \<Rightarrow> (tx_in, 'e) res" where
  "cet_input_of d = and_then (index (dlc_cets d) 0) (\<lambda>cet. index (tx_input cet) 0)"

text \<open>The adaptor information and the signatures of a contract information after the first.\<close>

definition sign_later_info ::
  "('m) message_api_scheme \<Rightarrow> offered_contract \<Rightarrow> party_params \<Rightarrow> tx_in \<Rightarrow> seckey \<Rightarrow> script \<Rightarrow> nat \<Rightarrow> contract_info
    \<Rightarrow> adaptor_info list \<times> adaptor_sig list \<times> transaction list
    \<Rightarrow> (adaptor_info list \<times> adaptor_sig list \<times> transaction list, manager_error) res" where
  "sign_later_info api oc accept_params cet_input sk scr input_value info = (\<lambda>(adaptor_infos, sigs, cets).
     and_then (info_get_payouts info (oc_total_collateral oc)) (\<lambda>payouts.
     let tmp_cets = later_cets oc accept_params cet_input payouts in
     and_then (info_get_adaptor_info api info (oc_total_collateral oc) sk scr input_value tmp_cets (length sigs)) (\<lambda>(adaptor_info, sig).
       Ok (adaptor_infos @ [adaptor_info], sigs @ sig, cets @ tmp_cets))))"

definition accept_contract_internal ::
  "('m) message_api_scheme \<Rightarrow> offered_contract \<Rightarrow> party_params \<Rightarrow> funding_input list \<Rightarrow> seckey \<Rightarrow> nat \<Rightarrow> script option
    \<Rightarrow> dlc_transactions \<Rightarrow> (accepted_contract \<times> adaptor_sig list, manager_error) res" where
  "accept_contract_internal api oc accept_params funding_inputs adaptor_secret_key input_value input_script_pubkey d =
     (let total_collateral = oc_total_collateral oc;
          scr = (case input_script_pubkey of None \<Rightarrow> funding_witness_script d | Some s \<Rightarrow> s) in
      and_then (cet_input_of d) (\<lambda>cet_input.
      and_then (index (oc_contract_info oc) 0) (\<lambda>info.
      and_then (info_get_adaptor_info api info total_collateral adaptor_secret_key scr input_value (dlc_cets d) 0) (\<lambda>(adaptor_info, sigs).
      and_then (fold_res (sign_later_info api oc accept_params cet_input adaptor_secret_key scr input_value)
          (drop 1 (oc_contract_info oc)) ([adaptor_info], sigs, dlc_cets d)) (\<lambda>(adaptor_infos, sigs, cets).
      and_then (map_err DlcError (get_raw_sig_for_tx_input api (dlc_refund d) 0 scr input_value adaptor_secret_key)) (\<lambda>refund_signature.
        Ok (\<lparr>ac_offered_contract = oc, ac_accept_params = accept_params, ac_funding_inputs = funding_inputs,
              ac_adaptor_infos = adaptor_infos, ac_adaptor_signatures = sigs, ac_accept_refund_signature = refund_signature,
              ac_dlc_transactions = d\<lparr>dlc_cets := cets, pending_close_txs := []\<rparr>\<rparr>, sigs)))))))"

definition accept_contract ::
  "('m) manager_api_scheme \<Rightarrow> party_env \<Rightarrow> offered_contract \<Rightarrow> (accepted_contract \<times> accept_dlc, manager_error) res" where
  "accept_contract api env oc =
     and_then (derive_contract_signer api (oc_keys_id oc)) (\<lambda>signer.
     and_then (usub (oc_total_collateral oc) (collateral (oc_offer_params oc))) (\<lambda>own_collateral.
     and_then (get_party_params api env own_collateral (oc_total_collateral oc) [] (oc_fee_rate_per_vb oc) signer) (\<lambda>(accept_params, funding_inputs).
     and_then (make_dlc_transactions api oc accept_params) (\<lambda>d.
     and_then (get_fund_output (btc api) d) (\<lambda>fund_output.
     and_then (accept_contract_internal api oc accept_params funding_inputs signer (out_value fund_output) None d) (\<lambda>(accepted, sigs).
       Ok (accepted, get_accept_contract_msg accepted sigs)))))))"

section \<open>Verifying an acceptance and signing\<close>

text \<open>
  The verification of the signatures of the accepting party.  For the first contract information the key and the script may
  be given (channels); for the later ones they are always those of the funding output.
\<close>

definition verify_later_info ::
  "('m) message_api_scheme \<Rightarrow> offered_contract \<Rightarrow> party_params \<Rightarrow> tx_in \<Rightarrow> nat \<Rightarrow> script \<Rightarrow> nat \<Rightarrow> adaptor_sig list \<Rightarrow> contract_info
    \<Rightarrow> adaptor_info list \<times> nat \<times> transaction list \<Rightarrow> (adaptor_info list \<times> nat \<times> transaction list, manager_error) res" where
  "verify_later_info api oc accept_params cet_input total_collateral witness_script input_value cet_adaptor_signatures info =
     (\<lambda>(adaptor_infos, adaptor_index, cets).
       and_then (info_get_payouts info total_collateral) (\<lambda>payouts.
       let tmp_cets = later_cets oc accept_params cet_input payouts in
       and_then (info_verify_and_get_adaptor_info api info (oc_total_collateral oc) (fund_pubkey accept_params)
           witness_script input_value tmp_cets cet_adaptor_signatures adaptor_index) (\<lambda>(adaptor_info, adaptor_index).
         Ok (adaptor_infos @ [adaptor_info], adaptor_index, cets @ tmp_cets))))"

definition verify_accepted ::
  "('m) message_api_scheme \<Rightarrow> offered_contract \<Rightarrow> party_params \<Rightarrow> ecdsa_sig \<Rightarrow> adaptor_sig list \<Rightarrow> nat \<Rightarrow> script option
    \<Rightarrow> pubkey option \<Rightarrow> dlc_transactions \<Rightarrow> (adaptor_info list \<times> transaction list, manager_error) res" where
  "verify_accepted api oc accept_params refund_signature cet_adaptor_signatures input_value input_script_pubkey counter_adaptor_pk d =
     (let scr = (case input_script_pubkey of None \<Rightarrow> funding_witness_script d | Some s \<Rightarrow> s);
          pk = (case counter_adaptor_pk of None \<Rightarrow> fund_pubkey accept_params | Some k \<Rightarrow> k) in
      and_then (map_err DlcError (verify_tx_input_sig api refund_signature (dlc_refund d) 0 scr input_value pk)) (\<lambda>_.
      and_then (index (oc_contract_info oc) 0) (\<lambda>info.
      and_then (info_verify_and_get_adaptor_info api info (oc_total_collateral oc) pk scr input_value (dlc_cets d) cet_adaptor_signatures 0) (\<lambda>(adaptor_info, adaptor_index).
      and_then (cet_input_of d) (\<lambda>cet_input.
      and_then (uadd (collateral (oc_offer_params oc)) (collateral accept_params)) (\<lambda>total_collateral.
      and_then (fold_res (verify_later_info api oc accept_params cet_input total_collateral (funding_witness_script d) input_value
            cet_adaptor_signatures) (drop 1 (oc_contract_info oc)) ([adaptor_info], adaptor_index, dlc_cets d)) (\<lambda>(adaptor_infos, _, cets).
        Ok (adaptor_infos, cets))))))))"

definition own_cet_signatures ::
  "('m) message_api_scheme \<Rightarrow> offered_contract \<Rightarrow> adaptor_info list \<Rightarrow> seckey \<Rightarrow> script \<Rightarrow> nat \<Rightarrow> transaction list
    \<Rightarrow> (adaptor_sig list, manager_error) res" where
  "own_cet_signatures api oc adaptor_infos sk scr input_value cets =
     fold_res (\<lambda>(info, adaptor_info) own_signatures.
       and_then (info_get_adaptor_signatures api info adaptor_info sk scr input_value cets) (\<lambda>sigs.
         Ok (own_signatures @ sigs))) (zip (oc_contract_info oc) adaptor_infos) []"

definition all_inputs :: "offered_contract \<Rightarrow> funding_input list \<Rightarrow> funding_input list" where
  "all_inputs oc accept_inputs = sort_key fi_input_serial_id (oc_funding_inputs oc @ accept_inputs)"

definition sign_offer_input ::
  "('m) manager_api_scheme \<Rightarrow> wallet \<Rightarrow> lookup \<Rightarrow> funding_input list \<Rightarrow> transaction \<Rightarrow> funding_input \<Rightarrow> psbt \<times> bytes list list
    \<Rightarrow> (psbt \<times> bytes list list, manager_error) res" where
  "sign_offer_input api wallet lookup all_funding_inputs fund f = (\<lambda>(p, witnesses).
     and_then (funding_input_position all_funding_inputs f) (\<lambda>input_index.
       case fi_dlc_input f of
         Some d \<Rightarrow>
           and_then (get_signature_for_dlc_input api lookup f fund input_index (dlc_contract_id d)) (\<lambda>sig.
             Ok (p, witnesses @ [[sig]]))
       | None \<Rightarrow>
           and_then (wallet p input_index) (\<lambda>p.
           and_then (index (ps_inputs p) input_index) (\<lambda>i.
           and_then (ok_or InvalidParameters (pi_final_script_witness i)) (\<lambda>w. Ok (p, witnesses @ [w]))))))"

definition verify_accepted_and_sign_contract_internal ::
  "('m) updater_api_scheme \<Rightarrow> wallet \<Rightarrow> lookup \<Rightarrow> offered_contract \<Rightarrow> party_params \<Rightarrow> funding_input list \<Rightarrow> ecdsa_sig
    \<Rightarrow> adaptor_sig list \<Rightarrow> nat \<Rightarrow> seckey \<Rightarrow> script option \<Rightarrow> pubkey option \<Rightarrow> dlc_transactions \<Rightarrow> bytes option
    \<Rightarrow> (signed_contract \<times> adaptor_sig list, manager_error) res" where
  "verify_accepted_and_sign_contract_internal api wallet lookup oc accept_params accept_inputs refund_signature
       cet_adaptor_signatures input_value signer input_script_pubkey counter_adaptor_pk d channel_id =
     and_then (ok_or InvalidState (psbt_from_unsigned_tx api (dlc_fund d))) (\<lambda>fund_psbt.
     and_then (verify_accepted api oc accept_params refund_signature cet_adaptor_signatures input_value
         input_script_pubkey counter_adaptor_pk d) (\<lambda>(adaptor_infos, cets).
     let scr = (case input_script_pubkey of None \<Rightarrow> funding_witness_script d | Some s \<Rightarrow> s) in
     and_then (own_cet_signatures api oc adaptor_infos signer scr input_value cets) (\<lambda>own_signatures.
     let all_funding_inputs = all_inputs oc accept_inputs in
     and_then (populate_psbt api all_funding_inputs fund_psbt) (\<lambda>fund_psbt.
     and_then (fold_res (sign_offer_input api wallet lookup all_funding_inputs (dlc_fund d)) (oc_funding_inputs oc)
         (fund_psbt, [])) (\<lambda>(_, witnesses).
     and_then (map_err DlcError (get_raw_sig_for_tx_input api (dlc_refund d) 0 scr input_value signer)) (\<lambda>offer_refund_signature.
       Ok (\<lparr>sc_accepted_contract =
              \<lparr>ac_offered_contract = oc, ac_accept_params = accept_params, ac_funding_inputs = accept_inputs,
               ac_adaptor_infos = adaptor_infos, ac_adaptor_signatures = cet_adaptor_signatures,
               ac_accept_refund_signature = refund_signature, ac_dlc_transactions = d\<lparr>dlc_cets := cets, pending_close_txs := []\<rparr>\<rparr>,
            sc_adaptor_signatures = own_signatures, sc_offer_refund_signature = offer_refund_signature,
            sc_funding_signatures = witnesses, sc_channel_id = channel_id\<rparr>, own_signatures)))))))"

definition accept_params_of ::
  "('m) message_api_scheme \<Rightarrow> accept_dlc \<Rightarrow> (party_params, manager_error) res" where
  "accept_params_of api m =
     and_then (map_err Conversion (get_tx_input_infos api (am_funding_inputs m))) (\<lambda>(ins, amount).
     and_then (get_dlc_inputs_from_funding_inputs api (am_funding_inputs m)) (\<lambda>dlc_ins.
       Ok \<lparr>fund_pubkey = am_funding_pubkey m, change_script_pubkey = am_change_spk m, change_serial_id = am_change_serial_id m,
         payout_script_pubkey = am_payout_spk m, payout_serial_id = am_payout_serial_id m, pp_inputs = ins,
         dlc_inputs = dlc_ins, input_amount = amount, collateral = am_accept_collateral m\<rparr>))"

definition verify_accepted_and_sign_contract ::
  "('m) updater_api_scheme \<Rightarrow> wallet \<Rightarrow> lookup \<Rightarrow> offered_contract \<Rightarrow> accept_dlc
    \<Rightarrow> (signed_contract \<times> sign_dlc, manager_error) res" where
  "verify_accepted_and_sign_contract api wallet lookup oc m =
     and_then (accept_params_of api m) (\<lambda>accept_params.
     and_then (make_dlc_transactions api oc accept_params) (\<lambda>d.
     and_then (get_fund_output (btc api) d) (\<lambda>fund_output.
     and_then (derive_contract_signer api (oc_keys_id oc)) (\<lambda>signer.
     and_then (verify_accepted_and_sign_contract_internal api wallet lookup oc accept_params (am_funding_inputs m)
         (am_refund_signature m) (am_cet_adaptor_signatures m) (out_value fund_output) signer None None d None) (\<lambda>(signed, sigs).
     and_then (get_sign_dlc api signed sigs) (\<lambda>msg. Ok (signed, msg)))))))"

section \<open>Verifying the signatures of the offering party\<close>

definition verify_signed ::
  "('m) message_api_scheme \<Rightarrow> accepted_contract \<Rightarrow> ecdsa_sig \<Rightarrow> adaptor_sig list \<Rightarrow> nat \<Rightarrow> script option \<Rightarrow> pubkey option
    \<Rightarrow> (nat, manager_error) res" where
  "verify_signed api a refund_signature cet_adaptor_signatures input_value input_script_pubkey counter_adaptor_pk =
     (let oc = ac_offered_contract a; d = ac_dlc_transactions a;
          scr = (case input_script_pubkey of None \<Rightarrow> funding_witness_script d | Some s \<Rightarrow> s);
          pk = (case counter_adaptor_pk of None \<Rightarrow> fund_pubkey (oc_offer_params oc) | Some k \<Rightarrow> k) in
      and_then (map_err DlcError (verify_tx_input_sig api refund_signature (dlc_refund d) 0 scr input_value pk)) (\<lambda>_.
        fold_res (\<lambda>(adaptor_info, info) adaptor_sig_start.
          info_verify_adaptor_info api info pk scr input_value (dlc_cets d) cet_adaptor_signatures adaptor_sig_start adaptor_info)
          (zip (ac_adaptor_infos a) (oc_contract_info oc)) 0))"

definition complete_offer_input ::
  "('m) manager_api_scheme \<Rightarrow> lookup \<Rightarrow> funding_input list \<Rightarrow> transaction \<Rightarrow> funding_input \<times> bytes list \<Rightarrow> psbt
    \<Rightarrow> (psbt, manager_error) res" where
  "complete_offer_input api lookup all_funding_inputs fund_tx = (\<lambda>(f, witness_elements) p.
     and_then (funding_input_position all_funding_inputs f) (\<lambda>input_index.
       case fi_dlc_input f of
         None \<Rightarrow> update_psbt_input input_index (\<lambda>i. i\<lparr>pi_final_script_witness := Some witness_elements\<rparr>) p
       | Some d \<Rightarrow>
           and_then (funding_dlc_input_info api f) (\<lambda>dlc_input_info.
           and_then (get_fund_pubkey_for_dlc_input api lookup (dlc_contract_id d)) (\<lambda>own_pk.
           let counter_pk = (if dlc_local_fund_pubkey d = own_pk then dlc_remote_fund_pubkey d else dlc_local_fund_pubkey d) in
           and_then (index witness_elements 0) (\<lambda>other_sig.
           and_then (map_err DlcError (verify_dlc_funding_input_signature api fund_tx input_index dlc_input_info other_sig counter_pk)) (\<lambda>_.
           and_then (get_signature_for_dlc_input api lookup f fund_tx input_index (dlc_contract_id d)) (\<lambda>my_sig.
             update_psbt_input input_index (\<lambda>i. i\<lparr>pi_final_script_witness :=
               Some (combine_dlc_input_signatures dlc_input_info my_sig other_sig own_pk counter_pk)\<rparr>) p)))))))"

definition verify_signed_contract_internal ::
  "('m) updater_api_scheme \<Rightarrow> wallet \<Rightarrow> lookup \<Rightarrow> accepted_contract \<Rightarrow> ecdsa_sig \<Rightarrow> adaptor_sig list \<Rightarrow> bytes list list
    \<Rightarrow> nat \<Rightarrow> script option \<Rightarrow> pubkey option \<Rightarrow> bytes option \<Rightarrow> (signed_contract \<times> transaction, manager_error) res" where
  "verify_signed_contract_internal api wallet lookup a refund_signature cet_adaptor_signatures funding_signatures input_value
       input_script_pubkey counter_adaptor_pk channel_id =
     and_then (verify_signed api a refund_signature cet_adaptor_signatures input_value input_script_pubkey counter_adaptor_pk) (\<lambda>_.
     let oc = ac_offered_contract a; fund_tx = dlc_fund (ac_dlc_transactions a) in
     and_then (ok_or InvalidState (psbt_from_unsigned_tx api fund_tx)) (\<lambda>fund_psbt.
     let all_funding_inputs = all_inputs oc (ac_funding_inputs a) in
     and_then (populate_psbt api all_funding_inputs fund_psbt) (\<lambda>fund_psbt.
     and_then (fold_res (complete_offer_input api lookup all_funding_inputs fund_tx)
         (zip (oc_funding_inputs oc) funding_signatures) fund_psbt) (\<lambda>fund_psbt.
     and_then (fold_res (\<lambda>f p. and_then (funding_input_position all_funding_inputs f) (wallet p)) (ac_funding_inputs a)
         fund_psbt) (\<lambda>fund_psbt.
       Ok (\<lparr>sc_accepted_contract = a, sc_adaptor_signatures = cet_adaptor_signatures, sc_offer_refund_signature = refund_signature,
            sc_funding_signatures = funding_signatures, sc_channel_id = channel_id\<rparr>, psbt_extract_tx api fund_psbt))))))"

definition verify_signed_contract ::
  "('m) updater_api_scheme \<Rightarrow> wallet \<Rightarrow> lookup \<Rightarrow> accepted_contract \<Rightarrow> sign_dlc
    \<Rightarrow> (signed_contract \<times> transaction, manager_error) res" where
  "verify_signed_contract api wallet lookup a m =
     and_then (get_fund_output (btc api) (ac_dlc_transactions a)) (\<lambda>fund_output.
       verify_signed_contract_internal api wallet lookup a (sm_refund_signature m) (sm_cet_adaptor_signatures m)
         (sm_funding_signatures m) (out_value fund_output) None None None)"

section \<open>Closing\<close>

definition get_signed_cet ::
  "('m) message_api_scheme \<Rightarrow> hash_orders \<Rightarrow> signed_contract \<Rightarrow> contract_info \<Rightarrow> adaptor_info
    \<Rightarrow> (nat \<times> oracle_attestation) list \<Rightarrow> seckey \<Rightarrow> (transaction, manager_error) res" where
  "get_signed_cet api ho s contract_info adaptor_info attestations funding_sk =
     (let a = sc_accepted_contract s; oc = ac_offered_contract a; d = ac_dlc_transactions a in
      and_then (assert_that (attestations \<noteq> [])) (\<lambda>_.
      and_then (get_range_info_and_oracle_sigs ho contract_info adaptor_info attestations) (\<lambda>(range_info, sigs).
      and_then (index (dlc_cets d) (cet_index range_info)) (\<lambda>cet.
      let (adaptor_sigs, other_pubkey) =
            (if oc_is_offer_party oc then (ac_adaptor_signatures a, fund_pubkey (ac_accept_params a))
             else (sc_adaptor_signatures s, fund_pubkey (oc_offer_params oc))) in
      and_then (index adaptor_sigs (adaptor_index range_info)) (\<lambda>adaptor_sig.
      and_then (get_fund_output (btc api) d) (\<lambda>fund_output.
        map_err DlcError (sign_cet api cet adaptor_sig sigs funding_sk other_pubkey (funding_witness_script d)
          (out_value fund_output))))))))"

definition get_signed_refund ::
  "('m) message_api_scheme \<Rightarrow> signed_contract \<Rightarrow> seckey \<Rightarrow> (transaction, manager_error) res" where
  "get_signed_refund api s fund_priv_key =
     (let a = sc_accepted_contract s; oc = ac_offered_contract a; d = ac_dlc_transactions a;
          (other_fund_pubkey, other_sig) =
            (if oc_is_offer_party oc then (fund_pubkey (ac_accept_params a), ac_accept_refund_signature a)
             else (fund_pubkey (oc_offer_params oc), sc_offer_refund_signature s)) in
      and_then (get_fund_output (btc api) d) (\<lambda>fund_output.
        map_err DlcError (sign_multi_sig_input api (dlc_refund d) other_sig other_fund_pubkey fund_priv_key
          (funding_witness_script d) (out_value fund_output) 0)))"

definition close_transaction ::
  "('m) message_api_scheme \<Rightarrow> accepted_contract \<Rightarrow> nat \<Rightarrow> nat \<Rightarrow> (transaction \<times> nat, 'e) res" where
  "close_transaction api a offer_payout accept_payout =
     and_then (get_fund_output (btc api) (ac_dlc_transactions a)) (\<lambda>fund_output.
     and_then (get_fund_outpoint (btc api) (ac_dlc_transactions a)) (\<lambda>fund_outpoint.
       Ok (create_collaborative_close_transaction (oc_offer_params (ac_offered_contract a)) offer_payout
             (ac_accept_params a) accept_payout fund_outpoint (out_value fund_output) [], out_value fund_output)))"

definition create_cooperative_close ::
  "('m) manager_api_scheme \<Rightarrow> signed_contract \<Rightarrow> nat \<Rightarrow> (close_dlc \<times> transaction, manager_error) res" where
  "create_cooperative_close api s counter_payout =
     (let a = sc_accepted_contract s; oc = ac_offered_contract a in
      if oc_total_collateral oc < counter_payout then Err InvalidParameters
      else
        and_then (close_transaction api a (oc_total_collateral oc - counter_payout) counter_payout) (\<lambda>(close_tx, fund_output_value).
        and_then (derive_contract_signer api (oc_keys_id oc)) (\<lambda>fund_private_key.
        and_then (map_err DlcError (get_raw_sig_for_tx_input api close_tx 0 (funding_witness_script (ac_dlc_transactions a))
            fund_output_value fund_private_key)) (\<lambda>close_signature.
        and_then (get_contract_id api a) (\<lambda>contract_id.
          Ok (\<lparr>cm_protocol_version = PROTOCOL_VERSION, cm_contract_id = contract_id, cm_close_signature = close_signature,
                cm_accept_payout = counter_payout, cm_fee_rate_per_vb = oc_fee_rate_per_vb oc,
                cm_fund_input_serial_id = oc_fund_output_serial_id oc, cm_funding_inputs = ac_funding_inputs a,
                cm_funding_signatures = sc_funding_signatures s\<rparr>, close_tx))))))"

definition complete_cooperative_close ::
  "('m) manager_api_scheme \<Rightarrow> signed_contract \<Rightarrow> close_dlc \<Rightarrow> (transaction, manager_error) res" where
  "complete_cooperative_close api s m =
     (let a = sc_accepted_contract s; oc = ac_offered_contract a in
      and_then (usub (oc_total_collateral oc) (cm_accept_payout m)) (\<lambda>offer_payout.
      and_then (close_transaction api a offer_payout (cm_accept_payout m)) (\<lambda>(close_tx, fund_output_value).
      and_then (derive_contract_signer api (oc_keys_id oc)) (\<lambda>fund_private_key.
      let counter_pubkey = (if oc_is_offer_party oc then fund_pubkey (ac_accept_params a) else fund_pubkey (oc_offer_params oc)) in
        map_err DlcError (sign_multi_sig_input api close_tx (cm_close_signature m) counter_pubkey fund_private_key
          (funding_witness_script (ac_dlc_transactions a)) fund_output_value 0)))))"

end
