(* ===== verification/Contract_Storage.thy ===== *)
theory Contract_Storage
  imports Contract_Updater "HOL-Library.DAList" "HOL-Library.List_Lexorder"
begin

text \<open>
  The storage of contracts: the operations of the trait \<open>ddk_manager::Storage\<close> that the handling of contracts uses, as a
  record; the laws the manager relies on, as a locale; and the storage in memory (\<open>ddk/src/storage/memory.rs\<close>) and
  in a sled tree (\<open>ddk/src/storage/sled/contract.rs\<close>), which satisfy them.  Both are association lists from identifiers
  to contracts.  The binary format of a contract and the failures of the database are not modelled.
\<close>

section \<open>The operations\<close>

record 's store_ops =
  st_get_contract :: "bytes \<Rightarrow> 's \<Rightarrow> (contract option, manager_error) res"
  st_get_contracts :: "'s \<Rightarrow> (contract list, manager_error) res"
  st_create_contract :: "offered_contract \<Rightarrow> 's \<Rightarrow> (unit, manager_error) res \<times> 's"
  st_delete_contract :: "bytes \<Rightarrow> 's \<Rightarrow> (unit, manager_error) res \<times> 's"
  st_update_contract :: "contract \<Rightarrow> 's \<Rightarrow> (unit, manager_error) res \<times> 's"
  st_offers :: "'s \<Rightarrow> (offered_contract list, manager_error) res"
  st_signed :: "'s \<Rightarrow> (signed_contract list, manager_error) res"
  st_confirmed :: "'s \<Rightarrow> (signed_contract list, manager_error) res"
  st_preclosed :: "'s \<Rightarrow> (preclosed_contract list, manager_error) res"

fun as_offered :: "contract \<Rightarrow> offered_contract option" where
  "as_offered (Offered oc) = Some oc" | "as_offered _ = None"

fun as_accepted :: "contract \<Rightarrow> accepted_contract option" where
  "as_accepted (Accepted a) = Some a" | "as_accepted _ = None"

fun as_signed :: "contract \<Rightarrow> signed_contract option" where
  "as_signed (Signed s) = Some s" | "as_signed _ = None"

fun as_confirmed :: "contract \<Rightarrow> signed_contract option" where
  "as_confirmed (Confirmed s) = Some s" | "as_confirmed _ = None"

fun as_preclosed :: "contract \<Rightarrow> preclosed_contract option" where
  "as_preclosed (PreClosed p) = Some p" | "as_preclosed _ = None"

lemma as_state_iff [simp]:
  "as_offered c = Some oc \<longleftrightarrow> c = Offered oc" "as_accepted c = Some a \<longleftrightarrow> c = Accepted a" "as_signed c = Some s \<longleftrightarrow> c = Signed s"
  "as_confirmed c = Some s \<longleftrightarrow> c = Confirmed s" "as_preclosed c = Some p \<longleftrightarrow> c = PreClosed p"
  by (cases c; auto)+

text \<open>
  Storing a contract under its identifier.  A storage that purges removes the offer, stored under its temporary
  identifier, when it stores the contract as accepted or signed.
\<close>

definition purged_id :: "bool \<Rightarrow> contract \<Rightarrow> bytes option" where
  "purged_id purge c = (case c of Accepted _ \<Rightarrow> if purge then Some (get_temporary_id c) else None
     | Signed _ \<Rightarrow> if purge then Some (get_temporary_id c) else None | _ \<Rightarrow> None)"

definition stored :: "bool \<Rightarrow> bytes \<Rightarrow> contract \<Rightarrow> (bytes \<rightharpoonup> contract) \<Rightarrow> (bytes \<rightharpoonup> contract)" where
  "stored purge i c S = (case purged_id purge c of Some t \<Rightarrow> S(t := None, i \<mapsto> c) | None \<Rightarrow> S(i \<mapsto> c))"

lemma stored_apply: "stored purge i c S j =
   (if j = i then Some c else if purged_id purge c = Some j then None else S j)"
  by (auto simp: stored_def split: option.splits)

lemma stored_plain [simp]:
  "stored purge i (Confirmed s) S = S(i \<mapsto> Confirmed s)" "stored purge i (PreClosed p) S = S(i \<mapsto> PreClosed p)"
  "stored purge i (Closed x) S = S(i \<mapsto> Closed x)" "stored purge i (Refunded s) S = S(i \<mapsto> Refunded s)"
  "stored purge i (FailedAccept f) S = S(i \<mapsto> FailedAccept f)" "stored purge i (FailedSign g) S = S(i \<mapsto> FailedSign g)"
  by (simp_all add: stored_def purged_id_def)

text \<open>The contracts of a storage, each once.\<close>

definition enumerates :: "(bytes \<rightharpoonup> contract) \<Rightarrow> (bytes \<times> contract) list \<Rightarrow> bool" where
  "enumerates S kvs \<longleftrightarrow> distinct (map fst kvs) \<and> set kvs = {(i, c). S i = Some c}"

definition lists_state :: "(contract \<Rightarrow> 'a option) \<Rightarrow> (bytes \<rightharpoonup> contract) \<Rightarrow> 'a list \<Rightarrow> bool" where
  "lists_state sel S xs \<longleftrightarrow> (\<exists>kvs. enumerates S kvs \<and> xs = List.map_filter sel (map snd kvs))"

section \<open>The interface\<close>

locale contract_storage =
  fixes ops :: "'s store_ops" and abs_store :: "'s \<Rightarrow> bytes \<rightharpoonup> contract" and api :: "'m message_api_scheme" and purge :: bool
  assumes get_law: "st_get_contract ops i st = Ok r \<Longrightarrow> r = abs_store st i"
    and create_law: "st_create_contract ops oc st = (res, st') \<Longrightarrow>
      abs_store st' = (if res = Ok () then (abs_store st)(oc_id oc \<mapsto> Offered oc) else abs_store st)"
    and update_law: "st_update_contract ops c st = (res, st') \<Longrightarrow>
      (if res = Ok () then \<exists>i. get_id api c = (Ok i :: (_, manager_error) res) \<and> abs_store st' = stored purge i c (abs_store st)
       else abs_store st' = abs_store st)"
    and signed_law: "st_signed ops st = Ok ss \<Longrightarrow> lists_state as_signed (abs_store st) ss"
    and confirmed_law: "st_confirmed ops st = Ok ss \<Longrightarrow> lists_state as_confirmed (abs_store st) ss"
    and preclosed_law: "st_preclosed ops st = Ok ps \<Longrightarrow> lists_state as_preclosed (abs_store st) ps"

text \<open>A storage that does not fail.\<close>

locale reliable_storage = contract_storage +
  assumes get_reliable: "st_get_contract ops i st = Ok (abs_store st i)"
    and update_reliable: "get_id api c = (Ok i :: (_, manager_error) res) \<Longrightarrow> fst (st_update_contract ops c st) = Ok ()"

section \<open>The storage in memory\<close>

text \<open>
  The map behind the lock.  A hash map lists its values in the order of the hashes of their keys.
\<close>

type_synonym contract_table = "(bytes, contract) alist"

definition table_values :: "(bytes \<Rightarrow> 'k::linorder) \<Rightarrow> contract_table \<Rightarrow> contract list" where
  "table_values key t = map snd (sort_key (\<lambda>e. key (fst e)) (DAList.impl_of t))"

definition memory_create_contract :: "offered_contract \<Rightarrow> contract_table \<Rightarrow> (unit, manager_error) res \<times> contract_table" where
  "memory_create_contract oc t = (Ok (), DAList.update (oc_id oc) (Offered oc) t)"

definition memory_update_contract ::
  "('m) message_api_scheme \<Rightarrow> contract \<Rightarrow> contract_table \<Rightarrow> (unit, manager_error) res \<times> contract_table" where
  "memory_update_contract api c t =
     (case get_id api c of Ok i \<Rightarrow> (Ok (), DAList.update i c t) | Err e \<Rightarrow> (Err e, t) | Panic \<Rightarrow> (Panic, t))"

definition memory_ops :: "('m) message_api_scheme \<Rightarrow> (bytes \<Rightarrow> nat) \<Rightarrow> contract_table store_ops" where
  "memory_ops api hash =
     \<lparr>st_get_contract = \<lambda>i t. Ok (DAList.lookup t i), st_get_contracts = \<lambda>t. Ok (table_values hash t),
      st_create_contract = memory_create_contract, st_delete_contract = \<lambda>i t. (Ok (), DAList.delete i t),
      st_update_contract = memory_update_contract api,
      st_offers = \<lambda>t. Ok (List.map_filter as_offered (table_values hash t)),
      st_signed = \<lambda>t. Ok (List.map_filter as_signed (table_values hash t)),
      st_confirmed = \<lambda>t. Ok (List.map_filter as_confirmed (table_values hash t)),
      st_preclosed = \<lambda>t. Ok (List.map_filter as_preclosed (table_values hash t))\<rparr>"

section \<open>The storage in a sled tree\<close>

text \<open>
  A tree is ordered by its keys.  The contracts of one state are found by the prefix of the stored value.
\<close>

definition sled_create_contract :: "offered_contract \<Rightarrow> contract_table \<Rightarrow> (unit, manager_error) res \<times> contract_table" where
  "sled_create_contract oc t = (Ok (), DAList.update (oc_id oc) (Offered oc) t)"

definition sled_update_contract ::
  "('m) message_api_scheme \<Rightarrow> contract \<Rightarrow> contract_table \<Rightarrow> (unit, manager_error) res \<times> contract_table" where
  "sled_update_contract api c t =
     (let t' = (case c of Accepted _ \<Rightarrow> DAList.delete (get_temporary_id c) t
                | Signed _ \<Rightarrow> DAList.delete (get_temporary_id c) t | _ \<Rightarrow> t) in
      case get_id api c of Ok i \<Rightarrow> (Ok (), DAList.update i c t') | Err e \<Rightarrow> (Err e, t) | Panic \<Rightarrow> (Panic, t))"

definition sled_ops :: "('m) message_api_scheme \<Rightarrow> contract_table store_ops" where
  "sled_ops api =
     \<lparr>st_get_contract = \<lambda>i t. Ok (DAList.lookup t i), st_get_contracts = \<lambda>t. Ok (table_values (\<lambda>k. k) t),
      st_create_contract = sled_create_contract, st_delete_contract = \<lambda>i t. (Ok (), DAList.delete i t),
      st_update_contract = sled_update_contract api,
      st_offers = \<lambda>t. Ok (List.map_filter as_offered (table_values (\<lambda>k. k) t)),
      st_signed = \<lambda>t. Ok (List.map_filter as_signed (table_values (\<lambda>k. k) t)),
      st_confirmed = \<lambda>t. Ok (List.map_filter as_confirmed (table_values (\<lambda>k. k) t)),
      st_preclosed = \<lambda>t. Ok (List.map_filter as_preclosed (table_values (\<lambda>k. k) t))\<rparr>"


section \<open>Both satisfy the interface\<close>

lemma table_values_enumerates: "\<exists>kvs. enumerates (DAList.lookup t) kvs \<and> table_values key t = map snd kvs"
proof (intro exI conjI)
  let ?kvs = "sort_key (\<lambda>e. key (fst e)) (DAList.impl_of t)"
  have "distinct (map fst ?kvs)"
    by (metis distinct_map impl_of_distinct mset_sort mset_map set_sort distinct_sort mset_eq_imp_distinct_iff)
  moreover have "set ?kvs = {(i, c). DAList.lookup t i = Some c}"
    by (auto simp: DAList.lookup.rep_eq map_of_eq_Some_iff)
  ultimately show "enumerates (DAList.lookup t) ?kvs" by (simp add: enumerates_def)
qed (simp add: table_values_def)

lemma table_lists_state: "lists_state sel (DAList.lookup t) (List.map_filter sel (table_values key t))"
  using table_values_enumerates [of t key] by (auto simp: lists_state_def)

interpretation memory: reliable_storage "memory_ops api hash" DAList.lookup api False for api hash
  by unfold_locales
    (auto simp: memory_ops_def memory_create_contract_def memory_update_contract_def table_lists_state stored_def purged_id_def
      split: res.splits contract.splits)

interpretation sled: reliable_storage "sled_ops api" DAList.lookup api True for api
  by unfold_locales
    (auto simp: sled_ops_def sled_create_contract_def sled_update_contract_def table_lists_state stored_def purged_id_def Let_def
      split: res.splits contract.splits)

end
