(* ===== verification/Contract_Manager.thy ===== *)
theory Contract_Manager
  imports Contract_Storage
begin

text \<open>
  \<open>ddk-manager/src/manager.rs\<close>: the life of a contract in the manager, from the offer to the close.
  A method of the manager is a state transformer: it reads and writes the storage and asks the wallet, the blockchain, the clock and
  the oracles.  What these answer may change from call to call, so the manager is given their answers as functions of the
  number of calls made so far.  The transactions that the blockchain took are part of the state.  Log messages are left out.
\<close>

section \<open>State and effects\<close>

datatype confirmation_status = NotFound | InMempool | ConfirmedAt nat

definition confirmations :: "confirmation_status \<Rightarrow> nat" where
  "confirmations st = (case st of ConfirmedAt n \<Rightarrow> n | _ \<Rightarrow> 0)"

text \<open>
  The fields of the struct \<open>Manager\<close> and the two settings read from the environment.  \<open>lock_time_satisfied\<close>,
  \<open>valid_time\<close> and \<open>valid_height\<close> are functions of the bitcoin crate; the two orders are those in which concurrent requests to
  oracles complete.
\<close>

record 's manager =
  mg_store :: "'s store_ops"
  mg_api :: updater_api
  mg_wire :: wire_api
  mg_orders :: hash_orders
  NB_CONFIRMATIONS :: nat
  AUTOMATIC_REFUND :: bool
  transaction_confirmations :: "nat \<Rightarrow> bytes \<Rightarrow> (confirmation_status, manager_error) res"
  send_result :: "nat \<Rightarrow> transaction \<Rightarrow> (unit, manager_error) res"
  blockchain_height :: "nat \<Rightarrow> (nat, manager_error) res"
  import_address :: "nat \<Rightarrow> script \<Rightarrow> (unit, manager_error) res"
  sign_psbt_input :: "nat \<Rightarrow> wallet"
  unix_time_now :: "nat \<Rightarrow> nat"
  party :: "nat \<Rightarrow> party_env"
  known_oracle :: "xonly \<Rightarrow> bool"
  oracle_announcement_of :: "nat \<Rightarrow> xonly \<Rightarrow> bytes \<Rightarrow> (oracle_announcement, manager_error) res"
  oracle_attestation_of :: "nat \<Rightarrow> xonly \<Rightarrow> bytes \<Rightarrow> (oracle_attestation, manager_error) res"
  announcement_order :: "nat \<Rightarrow> (oracle_announcement list, manager_error) res list \<Rightarrow> (oracle_announcement list, manager_error) res list"
  attestation_order :: "nat \<Rightarrow> (nat \<times> oracle_attestation) list \<Rightarrow> (nat \<times> oracle_attestation) list"
  lock_time_satisfied :: "nat \<Rightarrow> nat \<Rightarrow> nat \<Rightarrow> bool"
  valid_time :: "nat \<Rightarrow> bool"
  valid_height :: "nat \<Rightarrow> bool"

record 's manager_state =
  ms_store :: 's
  ms_calls :: nat
  ms_sent :: "transaction list"

type_synonym ('a, 's) action = "'s manager_state \<Rightarrow> ('a, manager_error) res \<times> 's manager_state"

definition lift_res :: "('a, manager_error) res \<Rightarrow> ('a, 's) action" where
  "lift_res r = (\<lambda>\<sigma>. (r, \<sigma>))"

definition and_do :: "('a, 's) action \<Rightarrow> ('a \<Rightarrow> ('b, 's) action) \<Rightarrow> ('b, 's) action" where
  "and_do m f = (\<lambda>\<sigma>. case m \<sigma> of (Ok x, \<sigma>') \<Rightarrow> f x \<sigma>' | (Err e, \<sigma>') \<Rightarrow> (Err e, \<sigma>') | (Panic, \<sigma>') \<Rightarrow> (Panic, \<sigma>'))"

text \<open>A \<open>match\<close> on the result of a call.\<close>

definition on_result ::
  "('a, 's) action \<Rightarrow> ('a \<Rightarrow> ('b, 's) action) \<Rightarrow> (manager_error \<Rightarrow> ('b, 's) action) \<Rightarrow> ('b, 's) action" where
  "on_result m f g = (\<lambda>\<sigma>. case m \<sigma> of (Ok x, \<sigma>') \<Rightarrow> f x \<sigma>' | (Err e, \<sigma>') \<Rightarrow> g e \<sigma>' | (Panic, \<sigma>') \<Rightarrow> (Panic, \<sigma>'))"

definition ask :: "(nat \<Rightarrow> 'a) \<Rightarrow> ('a, 's) action" where
  "ask f = (\<lambda>\<sigma>. (Ok (f (ms_calls \<sigma>)), \<sigma>\<lparr>ms_calls := Suc (ms_calls \<sigma>)\<rparr>))"

definition request :: "(nat \<Rightarrow> ('a, manager_error) res) \<Rightarrow> ('a, 's) action" where
  "request f = and_do (ask f) lift_res"

definition read_store :: "('s \<Rightarrow> ('a, manager_error) res) \<Rightarrow> ('a, 's) action" where
  "read_store f = (\<lambda>\<sigma>. (f (ms_store \<sigma>), \<sigma>))"

definition write_store :: "('s \<Rightarrow> ('a, manager_error) res \<times> 's) \<Rightarrow> ('a, 's) action" where
  "write_store f = (\<lambda>\<sigma>. case f (ms_store \<sigma>) of (r, st) \<Rightarrow> (r, \<sigma>\<lparr>ms_store := st\<rparr>))"

fun for_each :: "('a \<Rightarrow> (unit, 's) action) \<Rightarrow> 'a list \<Rightarrow> (unit, 's) action" where
  "for_each f [] = lift_res (Ok ())"
| "for_each f (x # xs) = and_do (f x) (\<lambda>_. for_each f xs)"

text \<open>The loops of the periodic checks log an error and go on.\<close>

definition logged :: "(unit, 's) action \<Rightarrow> (unit, 's) action" where
  "logged m = on_result m (\<lambda>_. lift_res (Ok ())) (\<lambda>_. lift_res (Ok ()))"

definition send_transaction :: "('s, 'x) manager_scheme \<Rightarrow> transaction \<Rightarrow> (unit, 's) action" where
  "send_transaction m tx = and_do (request (\<lambda>n. send_result m n tx)) (\<lambda>_. \<lambda>\<sigma>. (Ok (), \<sigma>\<lparr>ms_sent := ms_sent \<sigma> @ [tx]\<rparr>))"

definition get_transaction_confirmations :: "('s, 'x) manager_scheme \<Rightarrow> bytes \<Rightarrow> (confirmation_status, 's) action" where
  "get_transaction_confirmations m txid = request (\<lambda>n. transaction_confirmations m n txid)"

definition update_contract :: "('s, 'x) manager_scheme \<Rightarrow> contract \<Rightarrow> (unit, 's) action" where
  "update_contract m c = write_store (st_update_contract (mg_store m) c)"

definition txid_of :: "('s, 'x) manager_scheme \<Rightarrow> transaction \<Rightarrow> bytes" where
  "txid_of m tx = compute_txid (btc (mg_api m)) tx"

definition get_contract_in_state ::
  "('s, 'x) manager_scheme \<Rightarrow> bytes \<Rightarrow> (contract \<Rightarrow> 'a option) \<Rightarrow> pubkey option \<Rightarrow> ('a, 's) action" where
  "get_contract_in_state m contract_id state peer_id =
     and_do (read_store (st_get_contract (mg_store m) contract_id)) (\<lambda>object.
       lift_res (case object of
         None \<Rightarrow> Err InvalidParameters
       | Some c \<Rightarrow>
           if (case peer_id of Some p \<Rightarrow> get_counter_party_id c \<noteq> p | None \<Rightarrow> False) then Err InvalidParameters
           else (case state c of Some s \<Rightarrow> Ok s | None \<Rightarrow> Err InvalidState)))"

definition lookup_of :: "('s, 'x) manager_scheme \<Rightarrow> 's manager_state \<Rightarrow> lookup" where
  "lookup_of m \<sigma> = (\<lambda>i. st_get_contract (mg_store m) i (ms_store \<sigma>))"

section \<open>Offers\<close>

definition REFUND_DELAY :: nat where "REFUND_DELAY = 86400 * 7"

fun get_oracle_announcements_of ::
  "('s, 'x) manager_scheme \<Rightarrow> bytes \<Rightarrow> xonly list \<Rightarrow> (oracle_announcement list, 's) action" where
  "get_oracle_announcements_of m event [] = lift_res (Ok [])"
| "get_oracle_announcements_of m event (pk # pks) =
     and_do (lift_res (ensure (known_oracle m pk) InvalidParameters)) (\<lambda>_.
     and_do (request (\<lambda>n. oracle_announcement_of m n pk event)) (\<lambda>announcement.
     and_do (get_oracle_announcements_of m event pks) (\<lambda>rest. lift_res (Ok (announcement # rest)))))"

definition get_oracle_announcements :: "('s, 'x) manager_scheme \<Rightarrow> oracle_input \<Rightarrow> (oracle_announcement list, 's) action" where
  "get_oracle_announcements m oracle_inputs =
     get_oracle_announcements_of m (or_event_id oracle_inputs) (or_public_keys oracle_inputs)"

text \<open>The requests for the contract informations run concurrently and are collected in the order of their completion.\<close>

fun all_announcement_results ::
  "('s, 'x) manager_scheme \<Rightarrow> contract_input_info list \<Rightarrow> ((oracle_announcement list, manager_error) res list, 's) action" where
  "all_announcement_results m [] = lift_res (Ok [])"
| "all_announcement_results m (x # xs) =
     and_do (on_result (get_oracle_announcements m (ii_oracles x)) (\<lambda>a. lift_res (Ok (Ok a))) (\<lambda>e. lift_res (Ok (Err e)))) (\<lambda>r.
     and_do (all_announcement_results m xs) (\<lambda>rs. lift_res (Ok (r # rs))))"

definition oracle_announcements :: "('s, 'x) manager_scheme \<Rightarrow> contract_input \<Rightarrow> (oracle_announcement list list, 's) action" where
  "oracle_announcements m contract_input =
     and_do (all_announcement_results m (ci_contract_infos contract_input)) (\<lambda>rs.
     and_do (ask (\<lambda>n. announcement_order m n rs)) (\<lambda>rs. lift_res (traverse (\<lambda>r. r) rs)))"

definition store_offer ::
  "('s, 'x) manager_scheme \<Rightarrow> contract_input \<Rightarrow> pubkey \<Rightarrow> oracle_announcement list list \<Rightarrow> dlc_input_info list \<Rightarrow> (offer_dlc, 's) action" where
  "store_offer m contract_input counter_party announcements dlc_ins =
     and_do (request (\<lambda>n. offer_contract (mg_api m) (party m n) (unix_time_now m n) contract_input announcements dlc_ins
         REFUND_DELAY counter_party)) (\<lambda>(offered, offer_msg).
     and_do (lift_res (offered_validate offered)) (\<lambda>_.
     and_do (write_store (st_create_contract (mg_store m) offered)) (\<lambda>_. lift_res (Ok offer_msg))))"

definition send_offer_with_announcements ::
  "('s, 'x) manager_scheme \<Rightarrow> contract_input \<Rightarrow> pubkey \<Rightarrow> oracle_announcement list list \<Rightarrow> (offer_dlc, 's) action" where
  "send_offer_with_announcements m contract_input counter_party announcements =
     store_offer m contract_input counter_party announcements []"

definition send_offer :: "('s, 'x) manager_scheme \<Rightarrow> contract_input \<Rightarrow> pubkey \<Rightarrow> (offer_dlc, 's) action" where
  "send_offer m contract_input counter_party =
     and_do (oracle_announcements m contract_input) (send_offer_with_announcements m contract_input counter_party)"

definition send_splice_offer_with_announcements ::
  "('s, 'x) manager_scheme \<Rightarrow> contract_input \<Rightarrow> pubkey \<Rightarrow> bytes \<Rightarrow> oracle_announcement list list \<Rightarrow> (offer_dlc, 's) action" where
  "send_splice_offer_with_announcements m contract_input counter_party contract_id announcements =
     and_do (get_contract_in_state m contract_id as_confirmed (Some counter_party)) (\<lambda>confirmed.
     and_do (request (\<lambda>n. get_dlc_input (mg_api m) (rnd_input_serial_id (party m n) 0) confirmed)) (\<lambda>dlc_input.
       store_offer m contract_input counter_party announcements [dlc_input]))"

definition send_splice_offer ::
  "('s, 'x) manager_scheme \<Rightarrow> contract_input \<Rightarrow> pubkey \<Rightarrow> bytes \<Rightarrow> (offer_dlc, 's) action" where
  "send_splice_offer m contract_input counter_party contract_id =
     and_do (oracle_announcements m contract_input) (send_splice_offer_with_announcements m contract_input counter_party contract_id)"

definition on_offer_message :: "('s, 'x) manager_scheme \<Rightarrow> offer_dlc \<Rightarrow> pubkey \<Rightarrow> (unit, 's) action" where
  "on_offer_message m msg counter_party =
     and_do (lift_res (map_err DlcError (offer_validate (mg_api m) (mg_wire m) msg REFUND_DELAY (REFUND_DELAY * 2)))) (\<lambda>_.
     let keys_id = derive_signer_key_id (mg_api m) False (om_temporary_contract_id msg) in
     and_do (lift_res (map_err Conversion (try_from_offer_dlc (mg_api m) msg counter_party keys_id))) (\<lambda>contract.
     and_do (lift_res (offered_validate contract)) (\<lambda>_.
     and_do (read_store (st_get_contract (mg_store m) (oc_id contract))) (\<lambda>known.
     and_do (lift_res (ensure (known = None) InvalidParameters)) (\<lambda>_.
       write_store (st_create_contract (mg_store m) contract))))))"


section \<open>Accepting and signing\<close>

definition accept_contract_offer :: "('s, 'x) manager_scheme \<Rightarrow> bytes \<Rightarrow> (bytes \<times> pubkey \<times> accept_dlc, 's) action" where
  "accept_contract_offer m contract_id =
     and_do (get_contract_in_state m contract_id as_offered None) (\<lambda>offered.
     and_do (request (\<lambda>n. accept_contract (mg_api m) (party m n) offered)) (\<lambda>(accepted, accept_msg).
     and_do (request (\<lambda>n. import_address m n (funding_witness_script (ac_dlc_transactions accepted)))) (\<lambda>_.
     and_do (lift_res (get_contract_id (mg_api m) accepted)) (\<lambda>contract_id.
     and_do (update_contract m (Accepted accepted)) (\<lambda>_.
       lift_res (Ok (contract_id, oc_counter_party offered, accept_msg)))))))"

definition accept_fail_on_error ::
  "('s, 'x) manager_scheme \<Rightarrow> offered_contract \<Rightarrow> accept_dlc \<Rightarrow> manager_error \<Rightarrow> ('a, 's) action" where
  "accept_fail_on_error m offered msg e =
     and_do (update_contract m (FailedAccept \<lparr>fa_offered_contract = offered, fa_accept_message = msg, fa_error_message = e\<rparr>)) (\<lambda>_.
       lift_res (Err e))"

definition sign_fail_on_error ::
  "('s, 'x) manager_scheme \<Rightarrow> accepted_contract \<Rightarrow> sign_dlc \<Rightarrow> manager_error \<Rightarrow> ('a, 's) action" where
  "sign_fail_on_error m accepted msg e =
     and_do (update_contract m (FailedSign \<lparr>fs_accepted_contract = accepted, fs_sign_message = msg, fs_error_message = e\<rparr>)) (\<lambda>_.
       lift_res (Err e))"

definition on_accept_message :: "('s, 'x) manager_scheme \<Rightarrow> accept_dlc \<Rightarrow> pubkey \<Rightarrow> (sign_dlc, 's) action" where
  "on_accept_message m msg counter_party =
     and_do (get_contract_in_state m (am_temporary_contract_id msg) as_offered (Some counter_party)) (\<lambda>offered.
     on_result (\<lambda>\<sigma>. request (\<lambda>n. verify_accepted_and_sign_contract (mg_api m) (sign_psbt_input m n) (lookup_of m \<sigma>) offered msg) \<sigma>)
       (\<lambda>(signed, signed_msg).
          and_do (request (\<lambda>n. import_address m n (funding_witness_script (ac_dlc_transactions (sc_accepted_contract signed))))) (\<lambda>_.
          and_do (update_contract m (Signed signed)) (\<lambda>_. lift_res (Ok signed_msg))))
       (accept_fail_on_error m offered msg))"

definition preclosed_by_splice :: "signed_contract \<Rightarrow> signed_contract \<Rightarrow> contract" where
  "preclosed_by_splice previous spliced =
     PreClosed \<lparr>pc_signed_contract = previous, pc_attestations = None,
       pc_signed_cet = dlc_fund (ac_dlc_transactions (sc_accepted_contract spliced))\<rparr>"

definition spliced_input :: "offered_contract \<Rightarrow> dlc_input option" where
  "spliced_input oc = (case find (\<lambda>f. fi_dlc_input f \<noteq> None) (oc_funding_inputs oc) of Some f \<Rightarrow> fi_dlc_input f | None \<Rightarrow> None)"

definition on_sign_message :: "('s, 'x) manager_scheme \<Rightarrow> sign_dlc \<Rightarrow> pubkey \<Rightarrow> (unit, 's) action" where
  "on_sign_message m msg peer_id =
     and_do (get_contract_in_state m (sm_contract_id msg) as_accepted (Some peer_id)) (\<lambda>accepted.
     on_result (\<lambda>\<sigma>. request (\<lambda>n. verify_signed_contract (mg_api m) (sign_psbt_input m n) (lookup_of m \<sigma>) accepted msg) \<sigma>)
       (\<lambda>(signed, fund_tx).
          and_do (update_contract m (Signed signed)) (\<lambda>_.
          and_do (send_transaction m fund_tx) (\<lambda>_.
            case spliced_input (ac_offered_contract accepted) of
              None \<Rightarrow> lift_res (Ok ())
            | Some d \<Rightarrow>
                and_do (get_contract_in_state m (dlc_contract_id d) as_confirmed None) (\<lambda>previous.
                  update_contract m (preclosed_by_splice previous signed)))))
       (sign_fail_on_error m accepted msg))"

definition on_close_message :: "('s, 'x) manager_scheme \<Rightarrow> close_dlc \<Rightarrow> pubkey \<Rightarrow> (unit, 's) action" where
  "on_close_message m msg counter_party =
     and_do (get_contract_in_state m (cm_contract_id msg) as_confirmed (Some counter_party)) (\<lambda>signed.
     and_do (lift_res (complete_cooperative_close (mg_api m) signed msg)) (\<lambda>_. lift_res (Ok ())))"

section \<open>Confirmation and splicing\<close>

definition check_signed_contract :: "('s, 'x) manager_scheme \<Rightarrow> signed_contract \<Rightarrow> (unit, 's) action" where
  "check_signed_contract m s =
     and_do (get_transaction_confirmations m (txid_of m (dlc_fund (ac_dlc_transactions (sc_accepted_contract s))))) (\<lambda>status.
       if status \<noteq> NotFound \<and> NB_CONFIRMATIONS m \<le> confirmations status then update_contract m (Confirmed s)
       else lift_res (Ok ()))"

definition check_signed_contracts :: "('s, 'x) manager_scheme \<Rightarrow> signed_contract list \<Rightarrow> (unit, 's) action" where
  "check_signed_contracts m ss = for_each (\<lambda>s. logged (check_signed_contract m s)) ss"

definition check_splice :: "('s, 'x) manager_scheme \<Rightarrow> signed_contract \<Rightarrow> (unit, 's) action" where
  "check_splice m s =
     (case spliced_input (sc_offered_contract s) of
        None \<Rightarrow> lift_res (Ok ())
      | Some d \<Rightarrow>
          on_result (get_contract_in_state m (dlc_contract_id d) as_confirmed None)
            (\<lambda>previous.
               and_do (get_transaction_confirmations m (txid_of m (dlc_fund (ac_dlc_transactions (sc_accepted_contract s))))) (\<lambda>status.
                 if status = NotFound then lift_res (Ok ()) else update_contract m (preclosed_by_splice previous s)))
            (\<lambda>e. lift_res (if e = InvalidState then Ok () else Err e)))"

definition check_for_spliced_contract :: "('s, 'x) manager_scheme \<Rightarrow> (signed_contract list, 's) action" where
  "check_for_spliced_contract m =
     and_do (read_store (st_signed (mg_store m))) (\<lambda>contracts.
     and_do (for_each (check_splice m) contracts) (\<lambda>_. lift_res (Ok contracts)))"

section \<open>Attestations\<close>

fun matured_announcements :: "('s, 'x) manager_scheme \<Rightarrow> oracle_announcement list \<Rightarrow> (oracle_announcement list, 's) action" where
  "matured_announcements m [] = lift_res (Ok [])"
| "matured_announcements m (x # xs) =
     and_do (ask (\<lambda>n. event_maturity_epoch (announced_event x) \<le> unix_time_now m n)) (\<lambda>matured.
     and_do (matured_announcements m xs) (\<lambda>rest. lift_res (Ok (if matured then x # rest else rest))))"

definition fetch_attestation ::
  "('s, 'x) manager_scheme \<Rightarrow> oracle_announcement \<Rightarrow> (oracle_attestation option, 's) action" where
  "fetch_attestation m announcement =
     (if \<not> known_oracle m (oracle_public_key announcement) then lift_res (Ok None)
      else
        on_result (request (\<lambda>n. oracle_attestation_of m n (oracle_public_key announcement) (event_id (announced_event announcement))))
          (\<lambda>attestation.
             lift_res (case attestation_validate (mg_api m) attestation announcement of
               Ok _ \<Rightarrow> Ok (Some attestation) | Err _ \<Rightarrow> Ok None | Panic \<Rightarrow> Panic))
          (\<lambda>_. lift_res (Ok None)))"

fun fetch_attestations ::
  "('s, 'x) manager_scheme \<Rightarrow> (nat \<times> oracle_announcement) list \<Rightarrow> ((nat \<times> oracle_attestation) list, 's) action" where
  "fetch_attestations m [] = lift_res (Ok [])"
| "fetch_attestations m ((i, announcement) # rest) =
     and_do (fetch_attestation m announcement) (\<lambda>a.
     and_do (fetch_attestations m rest) (\<lambda>others.
       lift_res (Ok (case a of Some x \<Rightarrow> (i, x) # others | None \<Rightarrow> others))))"

text \<open>
  The announcements are numbered after those that have not matured are left out; the attestations come in the order in which the
  oracles answer.
\<close>

fun get_closable_contract_info ::
  "('s, 'x) manager_scheme \<Rightarrow> (contract_info \<times> adaptor_info) list
    \<Rightarrow> ((contract_info \<times> adaptor_info \<times> (nat \<times> oracle_attestation) list) option, 's) action" where
  "get_closable_contract_info m [] = lift_res (Ok None)"
| "get_closable_contract_info m ((contract_info, adaptor_info) # rest) =
     and_do (matured_announcements m (cn_oracle_announcements contract_info)) (\<lambda>matured.
       if cn_threshold contract_info \<le> length matured then
         and_do (fetch_attestations m (enumerate 0 matured)) (\<lambda>attestations.
         and_do (ask (\<lambda>n. attestation_order m n attestations)) (\<lambda>attestations.
           if cn_threshold contract_info \<le> length attestations then lift_res (Ok (Some (contract_info, adaptor_info, attestations)))
           else get_closable_contract_info m rest))
       else get_closable_contract_info m rest)"


section \<open>Closing\<close>

definition closed_contract_of ::
  "('s, 'x) manager_scheme \<Rightarrow> signed_contract \<Rightarrow> oracle_attestation list option \<Rightarrow> transaction \<Rightarrow> (contract, manager_error) res" where
  "closed_contract_of m s attestations tx =
     (let a = sc_accepted_contract s in
      and_then (compute_pnl a tx) (\<lambda>pnl.
      and_then (get_contract_id (mg_api m) a) (\<lambda>contract_id.
        Ok (Closed \<lparr>cl_attestations = attestations, cl_signed_cet = Some tx, cl_contract_id = contract_id,
          cl_temporary_contract_id = oc_id (ac_offered_contract a), cl_counter_party_id = oc_counter_party (ac_offered_contract a),
          cl_funding_txid = txid_of m (dlc_fund (ac_dlc_transactions a)), cl_pnl = pnl, cl_signed_contract = s\<rparr>))))"

definition preclosed_of :: "signed_contract \<Rightarrow> oracle_attestation list option \<Rightarrow> transaction \<Rightarrow> contract" where
  "preclosed_of s attestations tx = PreClosed \<lparr>pc_signed_contract = s, pc_attestations = attestations, pc_signed_cet = tx\<rparr>"

definition close_contract ::
  "('s, 'x) manager_scheme \<Rightarrow> signed_contract \<Rightarrow> transaction \<Rightarrow> oracle_attestation list \<Rightarrow> (contract, 's) action" where
  "close_contract m s signed_cet attestations =
     and_do (get_transaction_confirmations m (txid_of m signed_cet)) (\<lambda>status.
       if confirmations status < 1 then
         and_do (send_transaction m signed_cet) (\<lambda>_. lift_res (Ok (preclosed_of s (Some attestations) signed_cet)))
       else if confirmations status < NB_CONFIRMATIONS m then lift_res (Ok (preclosed_of s (Some attestations) signed_cet))
       else lift_res (closed_contract_of m s (Some attestations) signed_cet))"

definition sign_and_send_refund :: "('s, 'x) manager_scheme \<Rightarrow> signed_contract \<Rightarrow> (unit, 's) action" where
  "sign_and_send_refund m s =
     and_do (lift_res (derive_contract_signer (mg_api m) (oc_keys_id (sc_offered_contract s)))) (\<lambda>signer.
     and_do (lift_res (get_signed_refund (mg_api m) s signer)) (\<lambda>refund. send_transaction m refund))"

definition check_and_broadcast_refund :: "('s, 'x) manager_scheme \<Rightarrow> bytes \<Rightarrow> (contract, 's) action" where
  "check_and_broadcast_refund m contract_id =
     and_do (get_contract_in_state m contract_id as_confirmed None) (\<lambda>s.
     let refund = dlc_refund (ac_dlc_transactions (sc_accepted_contract s)) in
     and_do (ask (\<lambda>n. tx_lock_time refund \<le> unix_time_now m n)) (\<lambda>passed.
       if \<not> passed then lift_res (Err InvalidParameters)
       else
         and_do (get_transaction_confirmations m (txid_of m refund)) (\<lambda>status.
         and_do (if confirmations status = 0 then sign_and_send_refund m s else lift_res (Ok ())) (\<lambda>_.
         and_do (update_contract m (Refunded s)) (\<lambda>_. lift_res (Ok (Refunded s)))))))"

definition check_refund :: "('s, 'x) manager_scheme \<Rightarrow> signed_contract \<Rightarrow> (unit, 's) action" where
  "check_refund m s =
     (let refund = dlc_refund (ac_dlc_transactions (sc_accepted_contract s)) in
      and_do (ask (\<lambda>n. tx_lock_time refund \<le> unix_time_now m n)) (\<lambda>passed.
        if \<not> passed then lift_res (Ok ())
        else
          and_do (get_transaction_confirmations m (txid_of m refund)) (\<lambda>status.
            if 0 < confirmations status then update_contract m (Refunded s)
            else if AUTOMATIC_REFUND m then
              and_do (lift_res (get_contract_id (mg_api m) (sc_accepted_contract s))) (\<lambda>contract_id.
              and_do (check_and_broadcast_refund m contract_id) (\<lambda>_. lift_res (Ok ())))
            else lift_res (Ok ()))))"

fun check_pending_closes :: "('s, 'x) manager_scheme \<Rightarrow> signed_contract \<Rightarrow> transaction list \<Rightarrow> (unit, 's) action" where
  "check_pending_closes m s [] = lift_res (Ok ())"
| "check_pending_closes m s (tx # txs) =
     and_do (get_transaction_confirmations m (txid_of m tx)) (\<lambda>status.
       if max (NB_CONFIRMATIONS m) 1 \<le> confirmations status then
         and_do (lift_res (closed_contract_of m s None tx)) (update_contract m)
       else if 1 \<le> confirmations status then update_contract m (preclosed_of s None tx)
       else check_pending_closes m s txs)"

definition check_confirmed_contract :: "('s, 'x) manager_scheme \<Rightarrow> signed_contract \<Rightarrow> (unit, 's) action" where
  "check_confirmed_contract m s =
     (let a = sc_accepted_contract s; oc = ac_offered_contract a;
          otherwise = and_do (check_pending_closes m s (pending_close_txs (ac_dlc_transactions a))) (\<lambda>_. check_refund m s) in
      and_do (get_closable_contract_info m (zip (oc_contract_info oc) (ac_adaptor_infos a))) (\<lambda>closable.
        case closable of
          None \<Rightarrow> otherwise
        | Some (contract_info, adaptor_info, attestations) \<Rightarrow>
            and_do (lift_res (derive_contract_signer (mg_api m) (oc_keys_id oc))) (\<lambda>signer.
            on_result (lift_res (get_signed_cet (mg_api m) (mg_orders m) s contract_info adaptor_info attestations signer))
              (\<lambda>cet. and_do (close_contract m s cet (map snd attestations)) (update_contract m))
              (\<lambda>_. otherwise))))"

definition check_confirmed_contracts :: "('s, 'x) manager_scheme \<Rightarrow> (unit, 's) action" where
  "check_confirmed_contracts m =
     and_do (read_store (st_confirmed (mg_store m))) (\<lambda>ss.
       for_each (\<lambda>s. if sc_channel_id s \<noteq> None then lift_res (Ok ()) else logged (check_confirmed_contract m s)) ss)"

text \<open>The contract information whose announcements have the nonces of enough attestations, for a manual close.\<close>

definition matches_info :: "('s, 'x) manager_scheme \<Rightarrow> (nat \<times> oracle_attestation) list \<Rightarrow> contract_info \<Rightarrow> (bool, manager_error) res" where
  "matches_info m attestations c =
     and_then (traverse (\<lambda>(i, a). and_then (index (cn_oracle_announcements c) i) (\<lambda>announcement.
                                  and_then (attestation_nonces (mg_api m) a) (\<lambda>nonces.
                                    Ok (oracle_nonces (announced_event announcement) = nonces)))) attestations) (\<lambda>matches.
       Ok (cn_threshold c \<le> length (filter (\<lambda>b. b) matches)))"

fun find_info ::
  "('s, 'x) manager_scheme \<Rightarrow> (nat \<times> oracle_attestation) list \<Rightarrow> (contract_info \<times> adaptor_info) list
    \<Rightarrow> ((contract_info \<times> adaptor_info) option, manager_error) res" where
  "find_info m attestations [] = Ok None"
| "find_info m attestations ((c, i) # rest) =
     and_then (matches_info m attestations c) (\<lambda>b. if b then Ok (Some (c, i)) else find_info m attestations rest)"

definition close_confirmed_contract ::
  "('s, 'x) manager_scheme \<Rightarrow> bytes \<Rightarrow> (nat \<times> oracle_attestation) list \<Rightarrow> (contract, 's) action" where
  "close_confirmed_contract m contract_id attestations =
     and_do (get_contract_in_state m contract_id as_confirmed None) (\<lambda>s.
     let a = sc_accepted_contract s; oc = ac_offered_contract a in
     and_do (lift_res (find_info m attestations (zip (oc_contract_info oc) (ac_adaptor_infos a)))) (\<lambda>found.
       case found of
         None \<Rightarrow> lift_res (Err InvalidState)
       | Some (contract_info, adaptor_info) \<Rightarrow>
           and_do (lift_res (derive_contract_signer (mg_api m) (oc_keys_id oc))) (\<lambda>signer.
           and_do (lift_res (get_signed_cet (mg_api m) (mg_orders m) s contract_info adaptor_info attestations signer)) (\<lambda>cet.
           and_do (ask (\<lambda>n. as_u32 (unix_time_now m n))) (\<lambda>time.
           and_do (lift_res (assert_that (valid_time m time))) (\<lambda>_.
           and_do (request (\<lambda>n. blockchain_height m n)) (\<lambda>height.
           and_do (lift_res (assert_that (valid_height m (as_u32 height)))) (\<lambda>_.
           and_do (lift_res (ensure (lock_time_satisfied m (tx_lock_time cet) (as_u32 height) time) InvalidState)) (\<lambda>_.
           and_do (close_contract m s cet (map snd attestations)) (\<lambda>closed.
           and_do (update_contract m closed) (\<lambda>_. lift_res (Ok closed))))))))))))"

definition check_preclosed_contract :: "('s, 'x) manager_scheme \<Rightarrow> preclosed_contract \<Rightarrow> (unit, 's) action" where
  "check_preclosed_contract m p =
     and_do (get_transaction_confirmations m (txid_of m (pc_signed_cet p))) (\<lambda>status.
       if status = NotFound then
         on_result (send_transaction m (pc_signed_cet p)) (\<lambda>_. lift_res (Ok ()))
           (\<lambda>e. if pc_attestations p = None then update_contract m (Confirmed (pc_signed_contract p)) else lift_res (Err e))
       else if max (NB_CONFIRMATIONS m) 1 \<le> confirmations status then
         and_do (lift_res (closed_contract_of m (pc_signed_contract p) (pc_attestations p) (pc_signed_cet p))) (update_contract m)
       else lift_res (Ok ()))"

definition check_preclosed_contracts :: "('s, 'x) manager_scheme \<Rightarrow> (unit, 's) action" where
  "check_preclosed_contracts m =
     and_do (read_store (st_preclosed (mg_store m))) (\<lambda>ps. for_each (\<lambda>p. logged (check_preclosed_contract m p)) ps)"

definition check_contracts :: "('s, 'x) manager_scheme \<Rightarrow> (unit, 's) action" where
  "check_contracts m =
     and_do (check_for_spliced_contract m) (\<lambda>signed_contracts.
     and_do (check_signed_contracts m signed_contracts) (\<lambda>_.
     and_do (check_confirmed_contracts m) (\<lambda>_. check_preclosed_contracts m)))"

definition on_counterparty_close ::
  "('s, 'x) manager_scheme \<Rightarrow> signed_contract \<Rightarrow> transaction \<Rightarrow> nat \<Rightarrow> (contract, 's) action" where
  "on_counterparty_close m s closing_tx nb =
     (let d = ac_dlc_transactions (sc_accepted_contract s) in
      and_do (lift_res (if tx_input closing_tx = [] then Ok False
          else and_then (get_fund_outpoint (btc (mg_api m)) d) (\<lambda>outpoint.
            Ok (outpoint \<in> set (map previous_output (tx_input closing_tx)))))) (\<lambda>spends.
      and_do (lift_res (ensure spends InvalidParameters)) (\<lambda>_.
        if txid_of m (dlc_refund d) = txid_of m closing_tx then
          and_do (update_contract m (Refunded s)) (\<lambda>_. lift_res (Ok (Refunded s)))
        else
          and_do (if nb < NB_CONFIRMATIONS m then lift_res (Ok (preclosed_of s None closing_tx))
                  else lift_res (closed_contract_of m s None closing_tx)) (\<lambda>contract.
          and_do (update_contract m contract) (\<lambda>_. lift_res (Ok contract))))))"

definition with_pending_close :: "signed_contract \<Rightarrow> transaction \<Rightarrow> signed_contract" where
  "with_pending_close s close_tx =
     (let a = sc_accepted_contract s; d = ac_dlc_transactions a in
      s\<lparr>sc_accepted_contract := a\<lparr>ac_dlc_transactions := d\<lparr>pending_close_txs := pending_close_txs d @ [close_tx]\<rparr>\<rparr>\<rparr>)"

definition cooperative_close_contract :: "('s, 'x) manager_scheme \<Rightarrow> bytes \<Rightarrow> nat \<Rightarrow> (close_dlc \<times> pubkey, 's) action" where
  "cooperative_close_contract m contract_id counter_payout =
     and_do (get_contract_in_state m contract_id as_confirmed None) (\<lambda>s.
     and_do (lift_res (create_cooperative_close (mg_api m) s counter_payout)) (\<lambda>(close_message, close_tx).
     and_do (update_contract m (Confirmed (with_pending_close s close_tx))) (\<lambda>_.
       lift_res (Ok (close_message, oc_counter_party (sc_offered_contract s))))))"

definition accept_cooperative_close :: "('s, 'x) manager_scheme \<Rightarrow> bytes \<Rightarrow> close_dlc \<Rightarrow> (unit, 's) action" where
  "accept_cooperative_close m contract_id close_message =
     and_do (get_contract_in_state m contract_id as_confirmed None) (\<lambda>s.
     and_do (lift_res (complete_cooperative_close (mg_api m) s close_message)) (\<lambda>close_tx.
     and_do (send_transaction m close_tx) (\<lambda>_. update_contract m (preclosed_of s None close_tx))))"

section \<open>The messages of a contract\<close>

datatype contract_message =
    OfferMessage offer_dlc
  | AcceptMessage accept_dlc
  | SignMessage sign_dlc
  | CloseMessage close_dlc

text \<open>The cases of \<open>on_dlc_message\<close> for contracts; the answer is the message to sign, if there is one.\<close>

definition on_dlc_message :: "('s, 'x) manager_scheme \<Rightarrow> contract_message \<Rightarrow> pubkey \<Rightarrow> (sign_dlc option, 's) action" where
  "on_dlc_message m msg counter_party =
     (case msg of
        OfferMessage x \<Rightarrow> and_do (on_offer_message m x counter_party) (\<lambda>_. lift_res (Ok None))
      | AcceptMessage x \<Rightarrow> and_do (on_accept_message m x counter_party) (\<lambda>s. lift_res (Ok (Some s)))
      | SignMessage x \<Rightarrow> and_do (on_sign_message m x counter_party) (\<lambda>_. lift_res (Ok None))
      | CloseMessage x \<Rightarrow> and_do (on_close_message m x counter_party) (\<lambda>_. lift_res (Ok None)))"

end
