(* ===== verification/Contract_Example.thy ===== *)
theory Contract_Example
  imports Contract_Updater
begin

text \<open>
  Concrete parameters for the witnesses of the contract theories: a byte encoding of transactions, a small group for the keys,
  a wallet with one coin and an enumerated contract of two outcomes.
\<close>

section \<open>An encoding of transactions\<close>

definition enc_bytes :: "bytes \<Rightarrow> bytes" where
  "enc_bytes b = length b # b"

definition dec_bytes :: "bytes \<Rightarrow> bytes \<times> bytes" where
  "dec_bytes b = (take (hd b) (tl b), drop (hd b) (tl b))"

definition enc_list :: "('a \<Rightarrow> bytes) \<Rightarrow> 'a list \<Rightarrow> bytes" where
  "enc_list f xs = length xs # concat (map f xs)"

fun dec_items :: "(bytes \<Rightarrow> 'a \<times> bytes) \<Rightarrow> nat \<Rightarrow> bytes \<Rightarrow> 'a list \<times> bytes" where
  "dec_items f 0 b = ([], b)"
| "dec_items f (Suc n) b = (let (x, b) = f b; (xs, b) = dec_items f n b in (x # xs, b))"

definition dec_list :: "(bytes \<Rightarrow> 'a \<times> bytes) \<Rightarrow> bytes \<Rightarrow> 'a list \<times> bytes" where
  "dec_list f b = dec_items f (hd b) (tl b)"

definition enc_tx_in :: "tx_in \<Rightarrow> bytes" where
  "enc_tx_in i = enc_bytes (op_txid (previous_output i)) @ op_vout (previous_output i) # enc_bytes (script_sig i) @
     tx_sequence i # enc_list enc_bytes (tx_witness i)"

definition dec_tx_in :: "bytes \<Rightarrow> tx_in \<times> bytes" where
  "dec_tx_in b = (let (txid, b) = dec_bytes b; vout = hd b; (sig, b) = dec_bytes (tl b); sq = hd b; (w, b) = dec_list dec_bytes (tl b) in
     (\<lparr>previous_output = \<lparr>op_txid = txid, op_vout = vout\<rparr>, script_sig = sig, tx_sequence = sq, tx_witness = w\<rparr>, b))"

definition enc_tx_out :: "tx_out \<Rightarrow> bytes" where
  "enc_tx_out x = out_value x # enc_bytes (script_pubkey x)"

definition dec_tx_out :: "bytes \<Rightarrow> tx_out \<times> bytes" where
  "dec_tx_out b = (let v = hd b; (s, b) = dec_bytes (tl b) in (\<lparr>out_value = v, script_pubkey = s\<rparr>, b))"

definition enc_tx :: "transaction \<Rightarrow> bytes" where
  "enc_tx t = tx_version t # tx_lock_time t # enc_list enc_tx_in (tx_input t) @ enc_list enc_tx_out (tx_output t)"

definition dec_tx :: "bytes \<Rightarrow> transaction option" where
  "dec_tx b = (let v = hd b; l = hd (tl b); (is, b) = dec_list dec_tx_in (tl (tl b)); (os, b) = dec_list dec_tx_out b in
     Some \<lparr>tx_version = v, tx_lock_time = l, tx_input = is, tx_output = os\<rparr>)"

lemma dec_enc_bytes [simp]: "dec_bytes (enc_bytes b @ r) = (b, r)" "dec_bytes (length b # b @ r) = (b, r)"
  by (simp_all add: dec_bytes_def enc_bytes_def)

lemma dec_enc_list [simp]:
  assumes "\<And>x r. f (g x @ r) = (x, r)"
  shows "dec_list f (enc_list g xs @ r) = (xs, r)"
proof -
  have "dec_items f (length xs) (concat (map g xs) @ r) = (xs, r)" for r
    by (induction xs) (simp_all add: assms)
  then show ?thesis by (simp add: dec_list_def enc_list_def)
qed

lemma dec_enc_tx_in [simp]: "dec_tx_in (enc_tx_in i @ r) = (i, r)"
  by (cases i; cases "previous_output i") (simp add: dec_tx_in_def enc_tx_in_def)

lemma dec_enc_tx_out [simp]: "dec_tx_out (enc_tx_out x @ r) = (x, r)"
  by (cases x) (simp add: dec_tx_out_def enc_tx_out_def)

lemma dec_enc_tx: "dec_tx (enc_tx t) = Some t"
proof -
  have "dec_list dec_tx_out (enc_list enc_tx_out xs) = (xs, [])" for xs
    using dec_enc_list [of dec_tx_out enc_tx_out xs "[]"] by simp
  then show ?thesis by (cases t) (simp add: dec_tx_def enc_tx_def)
qed

section \<open>Parameters\<close>

definition example_psbt_from :: "transaction \<Rightarrow> psbt option" where
  "example_psbt_from tx =
     (if list_all (\<lambda>i. script_sig i = [] \<and> tx_witness i = []) (tx_input tx)
      then Some \<lparr>ps_unsigned_tx = tx,
        ps_inputs = map (\<lambda>_. \<lparr>pi_witness_utxo = None, pi_redeem_script = None, pi_final_script_witness = None\<rparr>) (tx_input tx)\<rparr>
      else None)"

definition example_psbt_extract :: "psbt \<Rightarrow> transaction" where
  "example_psbt_extract p =
     (ps_unsigned_tx p)\<lparr>tx_input := map2 (\<lambda>i x. i\<lparr>tx_witness := (case pi_final_script_witness x of Some w \<Rightarrow> w | None \<Rightarrow> [])\<rparr>)
        (tx_input (ps_unsigned_tx p)) (ps_inputs p)\<rparr>"

text \<open>The offering party has the key 11, the accepting party the key 13.\<close>

definition example_updater_api :: updater_api where
  "example_updater_api = manager_api.extend (message_api.extend (oracle_api.extend example_oracle_api (message_api.fields dec_tx))
     (manager_api.fields (\<lambda>offers _. if offers then [1] else [2]) (\<lambda>k. Ok (if k = [1] then 11 else 13)) enc_tx))
     (updater_api.fields example_psbt_from example_psbt_extract)"

lemma example_updater_api_simps [simp]:
  "consensus_decode example_updater_api = dec_tx" "consensus_encode example_updater_api = enc_tx"
  "derive_signer_key_id example_updater_api = (\<lambda>offers _. if offers then [1] else [2])"
  "derive_contract_signer example_updater_api = (\<lambda>k. Ok (if k = [1] then 11 else 13))"
  "psbt_from_unsigned_tx example_updater_api = example_psbt_from" "psbt_extract_tx example_updater_api = example_psbt_extract"
  "bitcoin_api.truncate example_updater_api = example_api"
  "sighash_all example_updater_api = sighash_all example_crypto" "ecdsa_sign example_updater_api = ecdsa_sign example_crypto"
  "ecdsa_verify example_updater_api = ecdsa_verify example_crypto" "serialize_der example_updater_api = serialize_der example_crypto"
  "sig_from_der example_updater_api = sig_from_der example_crypto" "sig_from_compact example_updater_api = sig_from_compact example_crypto"
  "pk_of_sk example_updater_api = pk_of_sk example_crypto" "adaptor_encrypt example_updater_api = adaptor_encrypt example_crypto"
  "adaptor_decrypt example_updater_api = adaptor_decrypt example_crypto" "adaptor_verify example_updater_api = adaptor_verify example_crypto"
  "combine_keys example_updater_api = combine_keys example_crypto" "mul_tweak example_updater_api = mul_tweak example_crypto"
  "pubkey_from_slice example_updater_api = pubkey_from_slice example_crypto"
  "xonly_from_slice example_updater_api = xonly_from_slice example_crypto" "bip340_hash example_updater_api = bip340_hash example_crypto"
  "scalar_from_be_bytes example_updater_api = scalar_from_be_bytes example_crypto"
  "seckey_from_slice example_updater_api = seckey_from_slice example_crypto" "sk_add_tweak example_updater_api = sk_add_tweak example_crypto"
  "sha256 example_updater_api = (\<lambda>b. [length b])"
  by (simp_all add: example_updater_api_def example_oracle_api_def example_crypto_def bitcoin_api.defs crypto_api.defs oracle_api.defs
      message_api.defs manager_api.defs updater_api.defs example_api_def del: example_crypto_simps)

lemma example_updater_api_ok: "crypto_ok 101 example_updater_api"
  using example_crypto_ok unfolding crypto_ok_def example_updater_api_simps .

definition example_coin :: "nat \<Rightarrow> transaction" where
  "example_coin k = \<lparr>tx_version = 2, tx_lock_time = 0, tx_input = [],
     tx_output = replicate k \<lparr>out_value = 150000, script_pubkey = [3]\<rparr>\<rparr>"

definition example_env :: "nat \<Rightarrow> party_env" where
  "example_env k = \<lparr>new_address = Ok [k, 2], new_change_address = Ok [k, 1],
     utxos_for_amount = (\<lambda>_ _. Ok [\<lparr>ut_outpoint = \<lparr>op_txid = [k], op_vout = 0\<rparr>, ut_redeem_script = []\<rparr>]),
     prev_transaction = (\<lambda>_. Ok (example_coin k)), rnd_payout_serial_id = k, rnd_change_serial_id = k,
     rnd_input_serial_id = (\<lambda>n. k + n), rnd_fund_output_serial_id = 5, rnd_temporary_id = [6]\<rparr>"

definition example_contract_input :: contract_input where
  "example_contract_input = \<lparr>ci_offer_collateral = 100000, ci_accept_collateral = 100000, ci_fee_rate = 1, ci_contract_flags = 0,
     ci_contract_infos = [\<lparr>ii_contract_descriptor = EnumDescriptor
         [\<lparr>ep_outcome = [65], ep_payout = \<lparr>offer = 200000, accept = 0\<rparr>\<rparr>, \<lparr>ep_outcome = [66, 66], ep_payout = \<lparr>offer = 500, accept = 199500\<rparr>\<rparr>],
       ii_oracles = \<lparr>or_public_keys = [[5]], or_event_id = [101], or_threshold = 1\<rparr>\<rparr>]\<rparr>"

definition example_announcements :: "oracle_announcement list list" where
  "example_announcements = [cn_oracle_announcements example_enum_contract]"

definition example_offered :: offered_contract where
  "example_offered = (case offer_contract example_updater_api (example_env 1) 10 example_contract_input example_announcements [] 604800 [33] of
     Ok (oc, m) \<Rightarrow> oc | _ \<Rightarrow> undefined)"

lemmas example_offer_defs = offer_contract_def example_contract_input_def contract_input_validate_def INPUT_DUST_LIMIT_def
  oracle_input_validate_def as_u16_def validate_fee_rate_def example_env_def get_party_params_def
  get_approximate_required_amount_def get_dlc_inputs_weight_def usum_def uadd_def get_half_common_fee_def get_common_fee_def
  weight_to_fee_eq FUND_TX_BASE_WEIGHT_def CET_BASE_WEIGHT_def ASSUME_P2WPKH_WEIGHT_def calculate_total_dlc_input_amount_def
  wallet_input_def example_coin_def index_def funding_tx_input_info_def dec_enc_tx offered_new_def example_announcements_def
  example_enum_contract_def example_announcement_def get_latest_maturity_date_def add_u32_def offer_message_def
  contract_info_to_ser_def descriptor_to_ser_def

lemma example_offer:
  "\<exists>m. offer_contract example_updater_api (example_env 1) 10 example_contract_input example_announcements [] 604800 [33] = Ok (example_offered, m)"
proof -
  have "\<exists>oc m. offer_contract example_updater_api (example_env 1) 10 example_contract_input example_announcements [] 604800 [33] = Ok (oc, m)"
    by (simp add: example_offer_defs Let_def)
  then show ?thesis by (auto simp: example_offered_def)
qed

lemma example_offered_fields:
  "oc_contract_info example_offered = [\<lparr>cn_contract_descriptor = EnumDescriptor
      [\<lparr>ep_outcome = [65], ep_payout = \<lparr>offer = 200000, accept = 0\<rparr>\<rparr>, \<lparr>ep_outcome = [66, 66], ep_payout = \<lparr>offer = 500, accept = 199500\<rparr>\<rparr>],
      cn_oracle_announcements = cn_oracle_announcements example_enum_contract, cn_threshold = 1\<rparr>] \<and>
   oc_total_collateral example_offered = 200000 \<and> oc_refund_locktime example_offered = 1700604800 \<and>
   oc_fee_rate_per_vb example_offered = 1 \<and> oc_cet_locktime example_offered = 10 \<and> oc_fund_output_serial_id example_offered = 5 \<and>
   oc_contract_flags example_offered = 0 \<and> oc_is_offer_party example_offered \<and> oc_keys_id example_offered = [1] \<and> oc_id example_offered = [6] \<and>
   oc_offer_params example_offered =
     \<lparr>fund_pubkey = [11], change_script_pubkey = [1, 1], change_serial_id = 1, payout_script_pubkey = [1, 2], payout_serial_id = 1,
      pp_inputs = [\<lparr>ti_outpoint = \<lparr>op_txid = [1], op_vout = 0\<rparr>, ti_max_witness_len = 108, ti_redeem_script = [], ti_serial_id = 1\<rparr>],
      dlc_inputs = [], input_amount = 150000, collateral = 100000\<rparr>"
  by (simp add: example_offered_def example_offer_defs Let_def example_api_def as_u32_def)

end
