(* ===== verification/Contract_Protocol.thy ===== *)
theory Contract_Protocol
  imports Contract_Example "HOL-Library.Sublist"
begin

text \<open>
  What two parties that follow \<open>contract_updater.rs\<close> achieve: the offer arrives as it was made, an honest acceptance verifies,
  and the contract can be closed by attestations, refunded, and closed cooperatively.
\<close>

section \<open>Both parties hold the same contract\<close>

text \<open>The contract of an offer as the other party stores it.\<close>

definition received_as :: "pubkey \<Rightarrow> bytes \<Rightarrow> offered_contract \<Rightarrow> offered_contract" where
  "received_as peer keys_id oc = oc\<lparr>oc_is_offer_party := False, oc_counter_party := peer, oc_keys_id := keys_id\<rparr>"

definition encodings_ok :: "('m) manager_api_scheme \<Rightarrow> bool" where
  "encodings_ok api \<longleftrightarrow> (\<forall>tx. consensus_decode api (consensus_encode api tx) = Some tx)"

lemma ser_total_collateral_to_ser:
  assumes "contract_info_to_ser tc infos = (Ok s :: (_, 'e) res)"
  shows "ser_total_collateral s = tc"
proof -
  obtain xs where s: "s = (case xs of [i] \<Rightarrow> SingleContractInfo \<lparr>si_total_collateral = tc, si_contract_info = i\<rparr>
      | _ \<Rightarrow> DisjointContractInfo \<lparr>dj_total_collateral = tc, dj_contract_infos = xs\<rparr>)"
    using assms by (auto simp: contract_info_to_ser_def and_then_eq_Ok simp del: list.case)
  show ?thesis
  proof (cases xs)
    case (Cons i js)
    then show ?thesis by (cases js) (simp_all add: s ser_total_collateral_def)
  qed (simp add: s ser_total_collateral_def)
qed

lemma offer_contractE:
  assumes "offer_contract api env time inp anns ds delay peer = Ok (oc, m)"
  obtains keys sk fins params where
    "derive_contract_signer api keys = Ok sk"
    "get_party_params api env (ci_offer_collateral inp) (oc_total_collateral oc) ds (ci_fee_rate inp) sk = Ok (params, fins)"
    "offer_message oc = (Ok m :: (_, manager_error) res)" "oc_offer_params oc = params" "oc_funding_inputs oc = fins"
    "oc_id oc = rnd_temporary_id env" "oc_is_offer_party oc" "oc_counter_party oc = peer" "oc_keys_id oc = keys"
    "keys = derive_signer_key_id api True (rnd_temporary_id env)"
  using assms by (auto simp: offer_contract_def offered_new_def res_simps Let_def)

text \<open>
  C20. An offer arrives as it was made: the contract that the other party reads from the offer message is the one that
  the offering party stores, but for the role and for the peer and the key identifier that each party fills in itself.
\<close>

theorem offer_received:
  assumes "encodings_ok api" "\<forall>d\<in>set ds. own_dlc_input d"
    and "offer_contract api env time inp anns ds delay peer = Ok (oc, m)"
    and "\<forall>c\<in>set (oc_contract_info oc). sendable (oc_total_collateral oc) c"
  shows "try_from_offer_dlc api m sender keys_id = Ok (received_as sender keys_id oc)"
proof -
  obtain params fins sk where off:
    "get_party_params api env (ci_offer_collateral inp) (oc_total_collateral oc) ds (ci_fee_rate inp) sk = Ok (params, fins)"
    "offer_message oc = (Ok m :: (_, manager_error) res)" "oc_offer_params oc = params" "oc_funding_inputs oc = fins"
    by (rule offer_contractE [OF assms(3)])
  obtain s where s: "contract_info_to_ser (oc_total_collateral oc) (oc_contract_info oc) = (Ok s :: (_, manager_error) res)"
    "get_contract_info_and_announcements s = Ok (oc_contract_info oc)"
    using sendable_infos_roundtrip [OF assms(4), where 'e = manager_error] by blast
  have e: "\<And>tx. consensus_decode api (consensus_encode api tx) = Some tx" using assms(1) by (simp add: encodings_ok_def)
  note p = party_params_received [OF e assms(2) off(1), where 'e = conversion_error]
  show ?thesis
    using off(2) s(1,2) p off(3,4) ser_total_collateral_to_ser [OF s(1)]
    by (auto simp: offer_message_def try_from_offer_dlc_def received_as_def)
qed

text \<open>Contract information for which signatures are made, at least one.\<close>

definition yields_signatures :: "('m) message_api_scheme \<Rightarrow> contract_info \<Rightarrow> bool" where
  "yields_signatures api c \<longleftrightarrow> signable c \<and>
     (\<forall>tc sk scr v cets a ai sigs. info_get_adaptor_info api c tc sk scr v cets a = Ok (ai, sigs) \<longrightarrow> sigs \<noteq> [])"

lemma sign_later_info_Ok:
  "sign_later_info api oc p inp sk scr v info (ais, sigs, cets) = Ok t \<longleftrightarrow>
     (\<exists>payouts ai sig. info_get_payouts info (oc_total_collateral oc) = Ok payouts \<and>
       info_get_adaptor_info api info (oc_total_collateral oc) sk scr v (later_cets oc p inp payouts) (length sigs) = Ok (ai, sig) \<and>
       t = (ais @ [ai], sigs @ sig, cets @ later_cets oc p inp payouts))"
  by (auto simp: sign_later_info_def res_simps Let_def)

lemma sign_later_infos_extend:
  "fold_res (sign_later_info api oc p inp sk scr v) infos (ais, sigs, cets) = Ok (ais', sigs', cets') \<Longrightarrow>
    \<exists>rest. sigs' = sigs @ rest"
  by (induction infos arbitrary: ais sigs cets) (fastforce simp: sign_later_info_Ok res_simps)+

lemma later_infos_verify:
  assumes "crypto_ok k api" "\<forall>c\<in>set infos. yields_signatures api c"
    and "fold_res (sign_later_info api oc p inp sk scr v) infos (ais, sigs, cets) = Ok (ais', sigs', cets')"
    and "length sigs' < usize_bound" "fund_pubkey p = pk_of_sk api sk" "oc_total_collateral oc' = oc_total_collateral oc"
    and "oc_offer_params oc' = oc_offer_params oc"
  shows "fold_res (verify_later_info api oc' p inp (oc_total_collateral oc) scr v sigs') infos (ais, length sigs, cets) =
    Ok (ais', length sigs', cets')"
  using assms(2,3)
proof (induction infos arbitrary: ais sigs cets)
  case (Cons info infos)
  obtain payouts ai sig where s: "info_get_payouts info (oc_total_collateral oc) = Ok payouts"
    "info_get_adaptor_info api info (oc_total_collateral oc) sk scr v (later_cets oc p inp payouts) (length sigs) = Ok (ai, sig)"
    "fold_res (sign_later_info api oc p inp sk scr v) infos (ais @ [ai], sigs @ sig, cets @ later_cets oc p inp payouts) =
      Ok (ais', sigs', cets')"
    using Cons.prems(2) by (auto simp: sign_later_info_Ok and_then_eq_Ok)
  obtain rest where r: "sigs' = sigs @ sig @ rest" using sign_later_infos_extend [OF s(3)] by auto
  have ne: "sig \<noteq> []" "signable info" using Cons.prems(1) s(2) by (auto simp: yields_signatures_def)
  have "later_cets oc' p inp payouts = later_cets oc p inp payouts" by (simp add: later_cets_def assms(7))
  moreover have "info_verify_and_get_adaptor_info api info (oc_total_collateral oc) (pk_of_sk api sk) scr v
      (later_cets oc p inp payouts) sigs' (length sigs) = Ok (ai, length sigs + length sig)"
    using assms(4) by (intro info_sign_verify [OF assms(1) ne(2) s(2) ne(1)]) (simp_all add: r)
  ultimately have "verify_later_info api oc' p inp (oc_total_collateral oc) scr v sigs' info (ais, length sigs, cets) =
      Ok (ais @ [ai], length (sigs @ sig), cets @ later_cets oc p inp payouts)"
    using s(1) assms(5,6) by (simp add: verify_later_info_def)
  then show ?case using Cons.IH [OF _ s(3)] Cons.prems(1) by simp
qed simp

lemma raw_sig_verifies:
  assumes "crypto_ok k api" "get_raw_sig_for_tx_input api tx i scr v sk = Ok sig"
  shows "verify_tx_input_sig api sig tx i scr v (pk_of_sk api sk) = Ok ()"
  using assms(2) crypto_okD(4) [OF assms(1)]
  by (auto simp: get_raw_sig_for_tx_input_def verify_tx_input_sig_def res_simps)

lemma make_dlc_transactions_received [simp]:
  "make_dlc_transactions api (received_as peer keys oc) = make_dlc_transactions api oc"
  by (simp add: make_dlc_transactions_def received_as_def fun_eq_iff)

lemma accept_contractE:
  assumes "accept_contract api env oc = Ok (a, m)"
  obtains sk fins d out where "derive_contract_signer api (oc_keys_id oc) = Ok sk"
    "collateral (oc_offer_params oc) \<le> oc_total_collateral oc"
    "get_party_params api env (oc_total_collateral oc - collateral (oc_offer_params oc)) (oc_total_collateral oc) []
       (oc_fee_rate_per_vb oc) sk = Ok (ac_accept_params a, fins)"
    "make_dlc_transactions api oc (ac_accept_params a) = Ok d"
    "get_fund_output (btc api) d = (Ok out :: (_, manager_error) res)"
    "accept_contract_internal api oc (ac_accept_params a) fins sk (out_value out) None d = Ok (a, am_cet_adaptor_signatures m)"
    "m = get_accept_contract_msg a (am_cet_adaptor_signatures m)" "ac_funding_inputs a = fins" "ac_offered_contract a = oc"
proof -
  obtain sk p fins d out sigs where x: "derive_contract_signer api (oc_keys_id oc) = Ok sk"
    "collateral (oc_offer_params oc) \<le> oc_total_collateral oc"
    "get_party_params api env (oc_total_collateral oc - collateral (oc_offer_params oc)) (oc_total_collateral oc) []
       (oc_fee_rate_per_vb oc) sk = Ok (p, fins)"
    "make_dlc_transactions api oc p = Ok d"
    "get_fund_output (btc api) d = (Ok out :: (_, manager_error) res)"
    "accept_contract_internal api oc p fins sk (out_value out) None d = Ok (a, sigs)"
    "m = get_accept_contract_msg a sigs"
    using assms by (auto simp: accept_contract_def res_simps)
  have y: "ac_accept_params a = p" "ac_funding_inputs a = fins" "ac_offered_contract a = oc"
    using x(6) by (auto simp: accept_contract_internal_def res_simps Let_def)
  have "am_cet_adaptor_signatures m = sigs" by (simp add: x(7) get_accept_contract_msg_def)
  with x y show thesis by (intro that [of sk fins d out]) simp_all
qed

lemma accept_contract_internalE:
  assumes "accept_contract_internal api oc p fins sk v None d = Ok (a, sigs)"
  obtains inp info infos ai sigs0 cets where "cet_input_of d = (Ok inp :: (_, manager_error) res)"
    "oc_contract_info oc = info # infos"
    "info_get_adaptor_info api info (oc_total_collateral oc) sk (funding_witness_script d) v (dlc_cets d) 0 = Ok (ai, sigs0)"
    "fold_res (sign_later_info api oc p inp sk (funding_witness_script d) v) infos ([ai], sigs0, dlc_cets d) =
       Ok (ac_adaptor_infos a, sigs, cets)"
    "get_raw_sig_for_tx_input api (dlc_refund d) 0 (funding_witness_script d) v sk = Ok (ac_accept_refund_signature a)"
    "ac_dlc_transactions a = d\<lparr>dlc_cets := cets, pending_close_txs := []\<rparr>"
proof -
  have "oc_contract_info oc \<noteq> []" using assms by (auto simp: accept_contract_internal_def res_simps Let_def index_def split: if_splits)
  then obtain info infos where c: "oc_contract_info oc = info # infos" by (cases "oc_contract_info oc") auto
  show thesis using assms c that
    by (auto simp: accept_contract_internal_def and_then_eq_Ok Let_def index_def)
qed

lemma accept_contract_internal_fields:
  assumes "accept_contract_internal api oc p fins sk v scr d = Ok (a, sigs)"
  shows "ac_adaptor_signatures a = sigs \<and>
    ac_dlc_transactions a = d\<lparr>dlc_cets := dlc_cets (ac_dlc_transactions a), pending_close_txs := []\<rparr>"
  using assms by (auto simp: accept_contract_internal_def res_simps Let_def)

text \<open>The offering party accepts what an honest accepting party made from its offer.\<close>

lemma accepted_verifies:
  assumes "crypto_ok k api" "\<forall>c\<in>set (oc_contract_info oc). yields_signatures api c"
    and "accept_contract_internal api (received_as peer keys oc) p fins sk v None d = Ok (a, sigs)"
    and "length sigs < usize_bound" "fund_pubkey p = pk_of_sk api sk"
    and "collateral (oc_offer_params oc) + collateral p = oc_total_collateral oc" "oc_total_collateral oc < usize_bound"
  shows "verify_accepted api oc p (ac_accept_refund_signature a) sigs v None None d =
    Ok (ac_adaptor_infos a, dlc_cets (ac_dlc_transactions a))"
proof -
  let ?r = "received_as peer keys oc"
  have same: "oc_contract_info ?r = oc_contract_info oc" "oc_total_collateral ?r = oc_total_collateral oc"
    "oc_offer_params ?r = oc_offer_params oc"
    by (simp_all add: received_as_def)
  obtain inp info infos ai sigs0 cets where x: "cet_input_of d = (Ok inp :: (_, manager_error) res)"
    "oc_contract_info oc = info # infos"
    "info_get_adaptor_info api info (oc_total_collateral oc) sk (funding_witness_script d) v (dlc_cets d) 0 = Ok (ai, sigs0)"
    "fold_res (sign_later_info api ?r p inp sk (funding_witness_script d) v) infos ([ai], sigs0, dlc_cets d) =
       Ok (ac_adaptor_infos a, sigs, cets)"
    "get_raw_sig_for_tx_input api (dlc_refund d) 0 (funding_witness_script d) v sk = Ok (ac_accept_refund_signature a)"
    "ac_dlc_transactions a = d\<lparr>dlc_cets := cets, pending_close_txs := []\<rparr>"
    by (rule accept_contract_internalE [OF assms(3), unfolded same])
  obtain rest where r: "sigs = sigs0 @ rest" using sign_later_infos_extend [OF x(4)] by auto
  have ne: "sigs0 \<noteq> []" "signable info" using assms(2) x(2,3) by (auto simp: yields_signatures_def)
  have v: "info_verify_and_get_adaptor_info api info (oc_total_collateral oc) (pk_of_sk api sk) (funding_witness_script d) v
      (dlc_cets d) sigs 0 = Ok (ai, length sigs0)"
    using info_sign_verify [OF assms(1) ne(2) x(3) ne(1), of sigs] assms(4) by (simp add: r)
  have l: "fold_res (verify_later_info api oc p inp (oc_total_collateral oc) (funding_witness_script d) v sigs) infos
      ([ai], length sigs0, dlc_cets d) = Ok (ac_adaptor_infos a, length sigs, cets)"
    using later_infos_verify [OF assms(1) _ x(4) assms(4,5), of oc] assms(2) x(2) same by simp
  show ?thesis
    using raw_sig_verifies [OF assms(1) x(5)] x(1,2,6) v l assms(5-7)
    by (simp add: verify_accepted_def index_def uadd_def)
qed

text \<open>
  C7. What an honest accepting party answers to an offer is accepted by the offering party: from the message it
  reads the parameters of the accepting party, makes the same transactions, finds the refund signature and the
  adaptor signatures of every contract information valid, and has the same adaptor information and CETs as the accepting
  party.  When it goes on to sign, both parties hold the same contract under the same identifier.
\<close>

theorem honest_acceptance_verifies:
  assumes "crypto_ok k api" "encodings_ok api" "\<forall>c\<in>set (oc_contract_info oc). yields_signatures api c"
    and "accept_contract api env (received_as peer keys oc) = Ok (a, m)"
    and "length (am_cet_adaptor_signatures m) < usize_bound" "oc_total_collateral oc < usize_bound"
  shows "accept_params_of api m = Ok (ac_accept_params a) \<and>
    (\<exists>d out. make_dlc_transactions api oc (ac_accept_params a) = Ok d \<and>
      get_fund_output (btc api) d = (Ok out :: (_, manager_error) res) \<and>
      verify_accepted api oc (ac_accept_params a) (am_refund_signature m) (am_cet_adaptor_signatures m) (out_value out) None None d =
        Ok (ac_adaptor_infos a, dlc_cets (ac_dlc_transactions a))) \<and>
    (\<forall>wallet lookup s sm. verify_accepted_and_sign_contract api wallet lookup oc m = Ok (s, sm) \<longrightarrow>
      sc_accepted_contract s = a\<lparr>ac_offered_contract := oc\<rparr> \<and> get_contract_id api a = (Ok (sm_contract_id sm) :: (_, manager_error) res))"
proof -
  let ?r = "received_as peer keys oc"
  have same: "oc_contract_info ?r = oc_contract_info oc" "oc_total_collateral ?r = oc_total_collateral oc"
    "oc_offer_params ?r = oc_offer_params oc" "oc_fee_rate_per_vb ?r = oc_fee_rate_per_vb oc" "oc_id ?r = oc_id oc"
    by (simp_all add: received_as_def)
  obtain sk fins d out where x: "collateral (oc_offer_params oc) \<le> oc_total_collateral oc"
    "get_party_params api env (oc_total_collateral oc - collateral (oc_offer_params oc)) (oc_total_collateral oc) []
       (oc_fee_rate_per_vb oc) sk = Ok (ac_accept_params a, fins)"
    "make_dlc_transactions api oc (ac_accept_params a) = Ok d"
    "get_fund_output (btc api) d = (Ok out :: (_, manager_error) res)"
    "accept_contract_internal api ?r (ac_accept_params a) fins sk (out_value out) None d = Ok (a, am_cet_adaptor_signatures m)"
    "m = get_accept_contract_msg a (am_cet_adaptor_signatures m)" "ac_funding_inputs a = fins" "ac_offered_contract a = ?r"
    using accept_contractE [OF assms(4), unfolded same make_dlc_transactions_received] by metis
  have e: "\<And>tx. consensus_decode api (consensus_encode api tx) = Some tx" using assms(2) by (simp add: encodings_ok_def)
  note p = party_params_received [OF e _ x(2), simplified, where 'e = manager_error]
  have m: "am_refund_signature m = ac_accept_refund_signature a" "am_funding_inputs m = fins"
    "am_funding_pubkey m = fund_pubkey (ac_accept_params a)" "am_change_spk m = change_script_pubkey (ac_accept_params a)"
    "am_change_serial_id m = change_serial_id (ac_accept_params a)" "am_payout_spk m = payout_script_pubkey (ac_accept_params a)"
    "am_payout_serial_id m = payout_serial_id (ac_accept_params a)" "am_accept_collateral m = collateral (ac_accept_params a)"
    by (subst x(6), simp add: get_accept_contract_msg_def x(7))+
  have params: "accept_params_of api m = Ok (ac_accept_params a)"
    using p by (simp add: accept_params_of_def m)
  have v: "verify_accepted api oc (ac_accept_params a) (ac_accept_refund_signature a) (am_cet_adaptor_signatures m) (out_value out) None None d =
      Ok (ac_adaptor_infos a, dlc_cets (ac_dlc_transactions a))"
    using p x(1) by (intro accepted_verifies [OF assms(1,3) x(5) assms(5) _ _ assms(6)]) auto
  have sigs: "ac_adaptor_signatures a = am_cet_adaptor_signatures m"
    "ac_dlc_transactions a = d\<lparr>dlc_cets := dlc_cets (ac_dlc_transactions a), pending_close_txs := []\<rparr>"
    using accept_contract_internal_fields [OF x(5)] by blast+
  have "sc_accepted_contract s = a\<lparr>ac_offered_contract := oc\<rparr> \<and> get_contract_id api a = (Ok (sm_contract_id sm) :: (_, manager_error) res)"
    if "verify_accepted_and_sign_contract api wallet lookup oc m = Ok (s, sm)" for wallet lookup s sm
  proof -
    have s: "sc_accepted_contract s = a\<lparr>ac_offered_contract := oc\<rparr>"
      using that params x(3,4) v sigs
      by (auto simp: verify_accepted_and_sign_contract_def verify_accepted_and_sign_contract_internal_def res_simps Let_def m x(7))
    moreover have "get_contract_id api (sc_accepted_contract s) = (Ok (sm_contract_id sm) :: (_, manager_error) res)"
      using that by (auto simp: verify_accepted_and_sign_contract_def get_sign_dlc_def res_simps)
    ultimately show ?thesis by (simp add: get_contract_id_def x(8) same)
  qed
  then show ?thesis using params x(3,4) v m(1) by auto
qed

section \<open>Closing with attestations\<close>

text \<open>An attestation of the outcome \<open>w\<close> by the oracle of an announcement.\<close>

definition honest_attestation :: "('m) oracle_api_scheme \<Rightarrow> oracle_announcement \<Rightarrow> oracle_attestation \<Rightarrow> bytes \<Rightarrow> bool" where
  "honest_attestation api ann att w \<longleftrightarrow> att_outcomes att = [w] \<and>
     oracle_nonces (announced_event ann) \<noteq> [] \<and> att_signatures att \<noteq> [] \<and>
     attests api (oracle_public_key ann) (hd (oracle_nonces (announced_event ann))) (tagged_attestation_msg api w) (hd (att_signatures att))"

definition counterparty_key :: "signed_contract \<Rightarrow> pubkey" where
  "counterparty_key s =
     (if oc_is_offer_party (sc_offered_contract s) then fund_pubkey (ac_accept_params (sc_accepted_contract s))
      else fund_pubkey (oc_offer_params (sc_offered_contract s)))"

definition counterparty_sigs :: "signed_contract \<Rightarrow> adaptor_sig list" where
  "counterparty_sigs s =
     (if oc_is_offer_party (sc_offered_contract s) then ac_adaptor_signatures (sc_accepted_contract s) else sc_adaptor_signatures s)"

text \<open>
  The contract holds the signatures that the counterparty, with its secret key, made for the first contract information \<open>c\<close>
  on the first CETs, and the funding output belongs to the keys of both.
\<close>

definition holds_signatures ::
  "('m) message_api_scheme \<Rightarrow> signed_contract \<Rightarrow> contract_info \<Rightarrow> seckey \<Rightarrow> seckey \<Rightarrow> nat \<Rightarrow> transaction list \<Rightarrow> bool" where
  "holds_signatures api s c sk other_sk fund_value cets \<longleftrightarrow>
     (let d = ac_dlc_transactions (sc_accepted_contract s) in
      funding_witness_script d = make_funding_redeemscript (pk_of_sk api sk) (pk_of_sk api other_sk) \<and>
      counterparty_key s = pk_of_sk api other_sk \<and>
      (\<exists>out. get_fund_output (btc api) d = (Ok out :: (_, manager_error) res) \<and> out_value out = fund_value) \<and>
      (\<exists>later. dlc_cets d = cets @ later) \<and>
      (\<exists>tc sigs rest. counterparty_sigs s = sigs @ rest \<and> length sigs < usize_bound \<and>
        info_get_adaptor_info api c tc other_sk (funding_witness_script d) fund_value cets 0 = Ok (EnumInfo, sigs)))"

lemma chosen_nth:
  assumes "sorted_wrt (<) sel" "\<forall>i\<in>set sel. i < length xs"
  shows "chosen xs sel = map ((!) xs) sel"
proof -
  have f: "filter (\<lambda>i. i \<in> set sel) [0..<length xs] = sel"
    using assms by (intro sorted_distinct_set_unique) (auto simp: strict_sorted_iff sorted_wrt_filter)
  have e: "enumerate 0 xs = map (\<lambda>i. (i, xs ! i)) [0..<length xs]"
    by (rule nth_equalityI) (simp_all add: nth_enumerate_eq)
  have "chosen xs sel = map ((!) xs) (filter (\<lambda>i. i \<in> set sel) [0..<length xs])"
    by (simp add: chosen_def e filter_map o_def)
  then show ?thesis by (simp add: f)
qed

lemma adaptor_sig_verifies:
  assumes "crypto_ok k api" "create_cet_adaptor_sig_from_point api cet p sk scr v = Ok sig"
  shows "verify_cet_adaptor_sig_from_point api sig cet p (pk_of_sk api sk) scr v = Ok ()"
proof -
  obtain msg where m: "get_sig_hash_msg api cet 0 scr v = Ok msg" "sig = adaptor_encrypt api msg sk p"
    using assms(2) by (auto simp: create_cet_adaptor_sig_from_point_def res_simps)
  then show ?thesis using crypto_okD(5) [OF assms(1)] by (simp add: verify_cet_adaptor_sig_from_point_def)
qed

lemma picked_signatures:
  fixes atts :: "(nat \<times> oracle_attestation) list"
  assumes "sorted_wrt (<) (map fst atts)" "sorted_wrt (<) (map fst lens)" "\<forall>x\<in>set lens. snd x = 1"
    and "set (map fst lens) \<subseteq> set (map fst atts)"
  shows "List.map_filter (\<lambda>(i, a). case find (\<lambda>x. fst x = i) lens of
             None \<Rightarrow> None | Some sig_info \<Rightarrow> Some (take (snd sig_info) (att_signatures a))) atts =
    map (\<lambda>i. take 1 (att_signatures (the (map_of atts i)))) (map fst lens)"
proof -
  let ?in = "\<lambda>(i, _). i \<in> set (map fst lens)"
  have find: "find (\<lambda>x. fst x = i) lens = (if i \<in> set (map fst lens) then Some (i, 1) else None)" for i
  proof (cases "find (\<lambda>x. fst x = i) lens")
    case (Some y)
    then have "y \<in> set lens" "fst y = i" by (auto simp: find_Some_iff)
    then have "y = (i, 1)" "i \<in> set (map fst lens)" using assms(3) by (auto intro: prod_eqI)
    then show ?thesis using Some by simp
  qed (auto simp: find_None_iff)
  have f: "map fst (filter ?in atts) = map fst lens"
  proof (intro sorted_distinct_set_unique)
    show "set (map fst (filter ?in atts)) = set (map fst lens)" using assms(4) by force
    have "map fst (filter ?in atts) = filter (\<lambda>i. i \<in> set (map fst lens)) (map fst atts)"
      by (simp add: filter_map o_def case_prod_beta')
    then show "sorted (map fst (filter ?in atts))" "distinct (map fst (filter ?in atts))"
      using assms(1) by (simp_all add: strict_sorted_iff sorted_wrt_filter)
  qed (use assms(2) in \<open>simp_all add: strict_sorted_iff\<close>)
  have d: "distinct (map fst atts)" using assms(1) by (simp add: strict_sorted_iff)
  have "List.map_filter (\<lambda>(i, a). case find (\<lambda>x. fst x = i) lens of
             None \<Rightarrow> None | Some sig_info \<Rightarrow> Some (take (snd sig_info) (att_signatures a))) atts =
      map (\<lambda>(i, a). take 1 (att_signatures a)) (filter ?in atts)"
    unfolding find map_filter_def
    by (auto simp: o_def rev_image_eqI split: if_splits option.splits intro!: map_cong filter_cong)
  also have "\<dots> = map (\<lambda>(i, a). take 1 (att_signatures (the (map_of atts i)))) (filter ?in atts)"
    using d by (auto simp: map_of_eq_Some_iff intro!: map_cong)
  also have "\<dots> = map (\<lambda>i. take 1 (att_signatures (the (map_of atts i)))) (map fst (filter ?in atts))"
    by (simp add: case_prod_beta o_def)
  finally show ?thesis unfolding f .
qed

lemma subseq_chosen:
  fixes atts :: "(nat \<times> 'b) list"
  assumes "sorted_wrt (<) (map fst atts)" "sorted_wrt (<) sel" "set sel \<subseteq> set (map fst atts)"
  shows "subseq (map (\<lambda>i. f (the (map_of atts i))) sel) (map (\<lambda>(_, att). f att) atts)"
proof -
  let ?kept = "filter (\<lambda>x. fst x \<in> set sel) atts"
  have "map fst ?kept = filter (\<lambda>i. i \<in> set sel) (map fst atts)" by (simp add: filter_map comp_def)
  moreover have "\<dots> = sel"
    using assms by (intro sorted_distinct_set_unique) (auto simp: strict_sorted_iff sorted_wrt_filter)
  ultimately have k: "map fst ?kept = sel" by simp
  have "distinct (map fst atts)" using assms(1) by (simp add: strict_sorted_iff)
  then have "map (\<lambda>i. f (the (map_of atts i))) (map fst ?kept) = map (\<lambda>(_, att). f att) ?kept" by auto
  then show ?thesis unfolding k by (auto intro: subseq_map)
qed

text \<open>
  C1. An enumerated contract can be closed when enough of its oracles attest the same outcome.  The party that
  holds the adaptor signatures of the other makes from the attestations the CET of this outcome, complete with the
  signatures of both parties: it spends the funding output, and but for the witness it is the CET that was agreed on.
\<close>

theorem signed_cet_pays_attested_outcome:
  assumes "crypto_ok k api" "signable c" "cn_contract_descriptor c = EnumDescriptor ps"
    and "holds_signatures api s c sk other_sk fund_value cets" "\<And>gs. mset (order_outcomes ho gs) = mset gs"
    and "sorted_wrt (<) (map fst atts)" "cn_threshold c \<le> length atts" "w \<in> ep_outcome ` set ps"
    and "\<forall>(i, att)\<in>set atts. i < length (cn_oracle_announcements c) \<and>
      honest_attestation api (cn_oracle_announcements c ! i) att w"
    and "\<And>sigs. subseq sigs (map (\<lambda>(_, att). [hd (att_signatures att)]) atts) \<Longrightarrow> length sigs = cn_threshold c \<Longrightarrow>
      \<exists>secret. signatures_to_secret api sigs = Ok secret"
  shows "\<exists>tx i. get_signed_cet api ho s c EnumInfo atts sk = Ok tx \<and> i < length ps \<and> ep_outcome (ps ! i) = w \<and>
    spends_multisig api tx 0 fund_value (pk_of_sk api sk) (pk_of_sk api other_sk) \<and> same_but_witness (cets ! i) tx"
proof -
  let ?outs = "map (\<lambda>(i, x). (i, att_outcomes x)) atts" and ?d = "ac_dlc_transactions (sc_accepted_contract s)"
  let ?anns = "cn_oracle_announcements c"
  obtain out later tc sigs rest where h: "funding_witness_script ?d = make_funding_redeemscript (pk_of_sk api sk) (pk_of_sk api other_sk)"
    "counterparty_key s = pk_of_sk api other_sk" "get_fund_output (btc api) ?d = (Ok out :: (_, manager_error) res)"
    "out_value out = fund_value" "dlc_cets ?d = cets @ later" "counterparty_sigs s = sigs @ rest" "length sigs < usize_bound"
    "info_get_adaptor_info api c tc other_sk (funding_witness_script ?d) fund_value cets 0 = Ok (EnumInfo, sigs)"
    using assms(4) by (auto simp: holds_signatures_def Let_def)
  have outs: "map fst ?outs = map fst atts" "\<forall>x\<in>set ?outs. fst x < length ?anns" "\<forall>x\<in>set ?outs. snd x = [w]"
    using assms(9) by (auto simp: honest_attestation_def)
  have sorted: "sorted_wrt (<) (map fst ?outs)" unfolding outs(1) by (rule assms(6))
  note ri = range_info_signature [OF assms(2,3) h(8) _ assms(5) sorted outs(2), where 'e = manager_error]
  obtain lens info where r: "info_get_range_info ho c EnumInfo ?outs 0 = (Ok (Some (lens, info)) :: (_, manager_error) res)"
    using ri h(7) assms(7,8) outs(3) by fastforce
  obtain q p where q: "cet_index info < length ps" "length lens = cn_threshold c"
    "\<forall>i\<in>fst ` set lens. (i, [ep_outcome (ps ! cet_index info)]) \<in> set ?outs"
    "sorted_wrt (<) (map fst lens)" "\<forall>x\<in>set lens. snd x = 1" "adaptor_index info = q" "q < length sigs" "cet_index info < length cets"
    "get_adaptor_point_from_oracle_info api (chosen (get_oracle_infos c) (map fst lens))
          (replicate (cn_threshold c) [tagged_attestation_msg api (ep_outcome (ps ! cet_index info))]) = Ok p"
    "create_cet_adaptor_sig_from_point api (cets ! cet_index info) p other_sk (funding_witness_script ?d) fund_value = Ok (sigs ! q)"
    using ri r h(7) by auto
  let ?sel = "map fst lens" and ?att = "\<lambda>i. the (map_of atts i)" and ?msg = "tagged_attestation_msg api w"
  let ?sigs = "map (\<lambda>i. take 1 (att_signatures (?att i))) ?sel" and ?infos = "chosen (get_oracle_infos c) ?sel"
  have sub: "set ?sel \<subseteq> set (map fst atts)" using q(3) by force
  have ne: "lens \<noteq> []" using q(2) assms(2) by (auto simp: signable_def)
  then obtain i where "i \<in> fst ` set lens" by (cases lens) auto
  then have w: "ep_outcome (ps ! cet_index info) = w" using q(3) outs(3) by fastforce
  have att: "(i, ?att i) \<in> set atts" "i < length ?anns" "honest_attestation api (?anns ! i) (?att i) w" if "i \<in> set ?sel" for i
  proof -
    have "i \<in> fst ` set atts" using sub that by auto
    then obtain y where "map_of atts i = Some y" by (metis domD dom_map_of_conv_image_fst)
    then show "(i, ?att i) \<in> set atts" by (simp add: map_of_SomeD)
    then show "i < length ?anns" "honest_attestation api (?anns ! i) (?att i) w" using assms(9) by auto
  qed
  have hd: "take 1 (att_signatures (?att i)) = [hd (att_signatures (?att i))]" if "i \<in> set ?sel" for i
    using att(3) [OF that] by (cases "att_signatures (?att i)") (auto simp: honest_attestation_def)
  have g: "get_range_info_and_oracle_sigs ho c EnumInfo atts = Ok (info, ?sigs)"
    using r picked_signatures [OF assms(6) q(4,5) sub] by (simp add: get_range_info_and_oracle_sigs_def)
  have infos: "?infos = map (\<lambda>i. announcement_oracle_info (?anns ! i)) ?sel"
    using q(4) att(2) by (subst chosen_nth) (auto simp: get_oracle_infos_def)
  have a: "attested api ?infos (replicate (cn_threshold c) [?msg]) ?sigs"
  proof -
    have "list_all2 (\<lambda>(nonce, msg) sig. attests api (oracle_public_key (?anns ! i)) nonce msg sig)
        (zip (oracle_nonces (announced_event (?anns ! i))) [?msg]) (take 1 (att_signatures (?att i)))" if "i \<in> set ?sel" for i
      using att(3) [OF that] hd [OF that]
      by (cases "oracle_nonces (announced_event (?anns ! i))") (auto simp: honest_attestation_def)
    then show ?thesis using q(2) hd by (auto simp: attested_def infos announcement_oracle_info_def)
  qed
  have v: "verify_cet_adaptor_sig_from_oracle_info api (sigs ! q) (cets ! cet_index info) ?infos (pk_of_sk api other_sk)
      (make_funding_redeemscript (pk_of_sk api sk) (pk_of_sk api other_sk)) fund_value (replicate (cn_threshold c) [?msg]) = Ok ()"
    using q(9) adaptor_sig_verifies [OF assms(1) q(10)] unfolding h(1) w
    by (simp add: verify_cet_adaptor_sig_from_oracle_info_def)
  have e: "?sigs = map (\<lambda>i. [hd (att_signatures (?att i))]) ?sel" using hd by simp
  have "subseq ?sigs (map (\<lambda>(_, att). [hd (att_signatures att)]) atts)"
    unfolding e by (rule subseq_chosen [OF assms(6) q(4) sub])
  then obtain secret where "signatures_to_secret api ?sigs = Ok secret" using assms(10) [of ?sigs] q(2) by auto
  then obtain tx where tx: "sign_cet api (cets ! cet_index info) (sigs ! q) ?sigs sk (pk_of_sk api other_sk)
      (make_funding_redeemscript (pk_of_sk api sk) (pk_of_sk api other_sk)) fund_value = Ok tx"
    "spends_multisig api tx 0 fund_value (pk_of_sk api sk) (pk_of_sk api other_sk)" "same_but_witness (cets ! cet_index info) tx"
    using sign_cet_spends [OF assms(1) v a] by blast
  have "atts \<noteq> []" using sub ne by auto
  then have "get_signed_cet api ho s c EnumInfo atts sk = Ok tx"
    using g tx(1) h q(6-8) 
    by (simp add: get_signed_cet_def index_def nth_append counterparty_key_def counterparty_sigs_def Let_def split: if_splits)
  then show ?thesis using q(1) w tx(2,3) by blast
qed

section \<open>Refund and cooperative close\<close>

definition counterparty_refund_sig :: "signed_contract \<Rightarrow> ecdsa_sig" where
  "counterparty_refund_sig s =
     (if oc_is_offer_party (sc_offered_contract s) then ac_accept_refund_signature (sc_accepted_contract s)
      else sc_offer_refund_signature s)"

lemma verify_tx_input_sigD:
  assumes "crypto_ok k api" "verify_tx_input_sig api sig tx i scr v pk = Ok ()"
  shows "\<exists>msg. sighash_all api tx i scr v = Some msg \<and> ecdsa_verify api msg sig pk \<and> i < length (tx_input tx)"
proof -
  obtain msg where "sighash_all api tx i scr v = Some msg" "ecdsa_verify api msg sig pk"
    using assms(2) by (auto simp: verify_tx_input_sig_def get_sig_hash_msg_def res_simps split: if_splits)
  moreover from this(1) have "i < length (tx_input tx)"
    using crypto_okD(7) [OF assms(1), of tx i scr v] by (simp add: linorder_not_le [symmetric])
  ultimately show ?thesis by blast
qed

text \<open>
  With the refund signature of the other party, which was verified when the contract was made, each party
  alone completes the refund transaction: it spends the funding output with the signatures of both, and it is the agreed
  transaction, lock time included.
\<close>

theorem signed_refund_spends:
  assumes "crypto_ok k api" "counterparty_key s = pk"
    and "funding_witness_script (ac_dlc_transactions (sc_accepted_contract s)) = make_funding_redeemscript (pk_of_sk api sk) pk"
    and "get_fund_output (btc api) (ac_dlc_transactions (sc_accepted_contract s)) = (Ok out :: (_, manager_error) res)"
    and "verify_tx_input_sig api (counterparty_refund_sig s) (dlc_refund (ac_dlc_transactions (sc_accepted_contract s))) 0
      (make_funding_redeemscript (pk_of_sk api sk) pk) (out_value out) pk = Ok ()"
  shows "\<exists>tx. get_signed_refund api s sk = Ok tx \<and> spends_multisig api tx 0 (out_value out) (pk_of_sk api sk) pk \<and>
    same_but_witness (dlc_refund (ac_dlc_transactions (sc_accepted_contract s))) tx \<and>
    tx_lock_time tx = tx_lock_time (dlc_refund (ac_dlc_transactions (sc_accepted_contract s)))"
proof -
  let ?d = "ac_dlc_transactions (sc_accepted_contract s)"
  obtain msg where m: "sighash_all api (dlc_refund ?d) 0 (make_funding_redeemscript (pk_of_sk api sk) pk) (out_value out) = Some msg"
    "ecdsa_verify api msg (counterparty_refund_sig s) pk" "0 < length (tx_input (dlc_refund ?d))"
    using verify_tx_input_sigD [OF assms(1,5)] by blast
  obtain tx where tx: "sign_multi_sig_input api (dlc_refund ?d) (counterparty_refund_sig s) pk sk
      (make_funding_redeemscript (pk_of_sk api sk) pk) (out_value out) 0 = Ok tx"
    "spends_multisig api tx 0 (out_value out) (pk_of_sk api sk) pk" "same_but_witness (dlc_refund ?d) tx"
    using sign_multi_sig_input_spends [OF assms(1) m(3,1,2)] by blast
  have "get_signed_refund api s sk = Ok tx"
    using assms(2-4) tx(1)
    by (simp add: get_signed_refund_def counterparty_key_def counterparty_refund_sig_def Let_def split: if_splits)
  moreover have "tx_lock_time tx = tx_lock_time (dlc_refund ?d)" using tx(3) by (auto simp: same_but_witness_def)
  ultimately show ?thesis using tx(2,3) by blast
qed

text \<open>The two parties' versions of one contract, for what a cooperative close needs.\<close>

definition same_funding :: "accepted_contract \<Rightarrow> accepted_contract \<Rightarrow> bool" where
  "same_funding a a' \<longleftrightarrow>
     oc_offer_params (ac_offered_contract a') = oc_offer_params (ac_offered_contract a) \<and>
     oc_total_collateral (ac_offered_contract a') = oc_total_collateral (ac_offered_contract a) \<and>
     ac_accept_params a' = ac_accept_params a \<and>
     dlc_fund (ac_dlc_transactions a') = dlc_fund (ac_dlc_transactions a) \<and>
     funding_witness_script (ac_dlc_transactions a') = funding_witness_script (ac_dlc_transactions a)"

lemma same_funding_close:
  "same_funding a a' \<Longrightarrow> close_transaction api a' x y = close_transaction api a x y"
  by (simp add: close_transaction_def same_funding_def get_fund_output_def get_fund_outpoint_def get_fund_output_index_def)

definition same_outputs :: "(nat \<times> script) list \<Rightarrow> transaction \<Rightarrow> bool" where
  "same_outputs outs tx \<longleftrightarrow>
     mset (tx_output tx) = mset (filter (\<lambda>x. DUST_LIMIT \<le> out_value x) (map (\<lambda>(v, scr). \<lparr>out_value = v, script_pubkey = scr\<rparr>) outs))"

text \<open>
  C38. A cooperative close that one party proposes is completed by the other: the transaction spends the funding output with the signatures
  of both.  The amount that the proposer calls the payout of its counterparty goes to the accepting party, also
  when the accepting party itself proposes the close; the offering party gets the rest of the collateral, and
  outputs below the dust limit are left out.
\<close>

theorem cooperative_close_spends:
  assumes "crypto_ok k api" "create_cooperative_close api s counter_payout = Ok (m, tx)"
    and "same_funding (sc_accepted_contract s) (sc_accepted_contract s')"
    and "derive_contract_signer api (oc_keys_id (sc_offered_contract s)) = Ok sk"
    and "derive_contract_signer api (oc_keys_id (sc_offered_contract s')) = Ok sk'" "counterparty_key s' = pk_of_sk api sk"
    and "funding_witness_script (ac_dlc_transactions (sc_accepted_contract s)) =
      make_funding_redeemscript (pk_of_sk api sk') (pk_of_sk api sk)"
  shows "\<exists>tx' fund_value. complete_cooperative_close api s' m = Ok tx' \<and>
    spends_multisig api tx' 0 fund_value (pk_of_sk api sk') (pk_of_sk api sk) \<and> same_but_witness tx tx' \<and>
    same_outputs [(oc_total_collateral (sc_offered_contract s) - counter_payout, payout_script_pubkey (oc_offer_params (sc_offered_contract s))),
      (counter_payout, payout_script_pubkey (ac_accept_params (sc_accepted_contract s)))] tx'"
proof -
  let ?a = "sc_accepted_contract s" and ?oc = "sc_offered_contract s" and ?scr = "make_funding_redeemscript (pk_of_sk api sk') (pk_of_sk api sk)"
  obtain v sig where c: "counter_payout \<le> oc_total_collateral ?oc"
    "close_transaction api ?a (oc_total_collateral ?oc - counter_payout) counter_payout = (Ok (tx, v) :: (_, manager_error) res)"
    "get_raw_sig_for_tx_input api tx 0 ?scr v sk = Ok sig" "cm_close_signature m = sig" "cm_accept_payout m = counter_payout"
    using assms(2,4,7) by (auto simp: create_cooperative_close_def res_simps Let_def split: if_splits)
  obtain msg where g: "sighash_all api tx 0 ?scr v = Some msg" "ecdsa_verify api msg sig (pk_of_sk api sk)" "0 < length (tx_input tx)"
    using verify_tx_input_sigD [OF assms(1) raw_sig_verifies [OF assms(1) c(3)]] by blast
  obtain tx' where tx': "sign_multi_sig_input api tx sig (pk_of_sk api sk) sk' ?scr v 0 = Ok tx'"
    "spends_multisig api tx' 0 v (pk_of_sk api sk') (pk_of_sk api sk)" "same_but_witness tx tx'"
    using sign_multi_sig_input_spends [OF assms(1) g(3,1,2)] by blast
  have f: "oc_total_collateral (sc_offered_contract s') = oc_total_collateral ?oc"
    "oc_offer_params (sc_offered_contract s') = oc_offer_params ?oc" "ac_accept_params (sc_accepted_contract s') = ac_accept_params ?a"
    "funding_witness_script (ac_dlc_transactions (sc_accepted_contract s')) = ?scr"
    using assms(3,7) by (simp_all add: same_funding_def)
  have "complete_cooperative_close api s' m = Ok tx'"
    using c(1,2,4,5) assms(5,6) tx'(1) f
    by (simp add: same_funding_close [OF assms(3)] complete_cooperative_close_def counterparty_key_def usub_def Let_def)
  moreover have "same_outputs [(oc_total_collateral ?oc - counter_payout, payout_script_pubkey (oc_offer_params ?oc)),
      (counter_payout, payout_script_pubkey (ac_accept_params ?a))] tx'"
    using c(2) tx'(3)
    by (auto simp: close_transaction_def create_collaborative_close_transaction_def same_but_witness_def same_outputs_def
        discard_dust_def res_simps Let_def)
  ultimately show ?thesis using tx'(2,3) by blast
qed

section \<open>Contracts with several contract informations\<close>

lemma sign_cet_same:
  "sign_cet api cet sig sigs sk pk scr v = Ok tx \<Longrightarrow> same_but_witness cet tx"
  by (auto simp: sign_cet_def sign_multi_sig_input_def set_witness_def index_def res_simps same_but_witness_set Let_def
      split: if_splits)

lemma range_info_cet_index:
  "enum_get_range_info hash_order ps nb threshold outs a = (Ok (Some (lens, ri)) :: (_, 'e) res) \<Longrightarrow> cet_index ri < length ps"
  by (auto simp: enum_get_range_info_def res_simps Let_def dest!: find_outcome split: if_splits option.splits prod.splits)

text \<open>
  A contract with several contract informations has the CETs of all of them, one after another.  When
  the oracles of a later enumerated information attest, \<open>get_signed_cet\<close> counts from the first CET all the same: what it signs is a
  CET of the first information, whose payouts belong to other outcomes.
\<close>

theorem later_info_signs_first_cets:
  assumes "get_signed_cet api ho s c EnumInfo atts sk = Ok tx" "cn_contract_descriptor c = EnumDescriptor ps"
    and "dlc_cets (ac_dlc_transactions (sc_accepted_contract s)) = first_cets @ others" "length ps \<le> length first_cets"
  shows "\<exists>cet\<in>set first_cets. same_but_witness cet tx"
proof -
  obtain info sigs cet sig pk scr v where g: "get_range_info_and_oracle_sigs ho c EnumInfo atts = Ok (info, sigs)"
    "index (first_cets @ others) (cet_index info) = (Ok cet :: (_, manager_error) res)"
    "sign_cet api cet sig sigs sk pk scr v = Ok tx"
    using assms(1,3) by (auto simp: get_signed_cet_def res_simps Let_def split: if_splits)
  have "cet_index info < length ps"
    using g(1) assms(2) range_info_cet_index [where 'e = manager_error]
    by (fastforce simp: get_range_info_and_oracle_sigs_def info_get_range_info_def res_simps split: option.splits)
  then have "cet = first_cets ! cet_index info" "cet_index info < length first_cets"
    using g(2) assms(4) by (auto simp: index_def nth_append split: if_splits)
  then show ?thesis using sign_cet_same [OF g(3)] by auto
qed

section \<open>Examples\<close>

lemma example_encodings_ok: "encodings_ok example_updater_api"
  by (simp add: encodings_ok_def dec_enc_tx)

lemma example_sendable: "\<forall>c\<in>set (oc_contract_info example_offered). sendable (oc_total_collateral example_offered) c"
  using example_offered_fields
  by (simp add: sendable_def fits_events_def example_enum_contract_def example_announcement_def)

lemma offer_received_witness:
  "\<exists>m. offer_contract example_updater_api (example_env 1) 10 example_contract_input example_announcements [] 604800 [33] = Ok (example_offered, m) \<and>
     try_from_offer_dlc example_updater_api m [44] [2] = Ok (received_as [44] [2] example_offered)"
proof -
  obtain m where m: "offer_contract example_updater_api (example_env 1) 10 example_contract_input example_announcements [] 604800 [33] =
      Ok (example_offered, m)" using example_offer by blast
  from offer_received [OF example_encodings_ok _ m example_sendable, of "[44]" "[2]"] m show ?thesis by auto
qed

lemma example_sig_point:
  "(7 + 5 * m) mod 101 \<noteq> 0 \<Longrightarrow> schnorrsig_compute_sig_point example_updater_api [5] [7] [m] = Ok [(7 + 5 * m) mod 101]"
  by (simp add: schnorrsig_compute_sig_point_def create_schnorr_hash_def schnorr_pubkey_to_pubkey_def)

lemma yields_enum:
  assumes "signable c" "cn_contract_descriptor c = EnumDescriptor ps" "ps \<noteq> []"
  shows "yields_signatures api c"
  unfolding yields_signatures_def
proof (intro conjI allI impI)
  fix tc sk scr v cets a ai sigs
  assume "info_get_adaptor_info api c tc sk scr v cets a = Ok (ai, sigs)"
  then have "length sigs = length ps * length (combs 0 (length (cn_oracle_announcements c)) (cn_threshold c))"
    using signatures_nth(2) [OF assms(1,2)] by (simp add: enum_cases_def)
  moreover have "combs 0 (length (cn_oracle_announcements c)) (cn_threshold c) \<noteq> []"
  proof -
    have "[0..<cn_threshold c] \<in> set (combs 0 (length (cn_oracle_announcements c)) (cn_threshold c))"
      using assms(1) by (auto simp: set_combs signable_def)
    then show ?thesis by auto
  qed
  ultimately show "sigs \<noteq> []" using assms(3) by auto
qed (rule assms(1))

lemma example_yields: "\<forall>c\<in>set (oc_contract_info example_offered). yields_signatures example_updater_api c"
proof -
  have "\<exists>ps. cn_contract_descriptor c = EnumDescriptor ps \<and> ps \<noteq> [] \<and> signable c"
    if "c \<in> set (oc_contract_info example_offered)" for c
    using that example_offered_fields by (auto simp: signable_def example_enum_contract_def)
  then show ?thesis using yields_enum by blast
qed


definition offered_info :: contract_info where
  "offered_info = \<lparr>cn_contract_descriptor = EnumDescriptor
      [\<lparr>ep_outcome = [65], ep_payout = \<lparr>offer = 200000, accept = 0\<rparr>\<rparr>, \<lparr>ep_outcome = [66, 66], ep_payout = \<lparr>offer = 500, accept = 199500\<rparr>\<rparr>],
      cn_oracle_announcements = cn_oracle_announcements example_enum_contract, cn_threshold = 1\<rparr>"

lemma example_encrypt:
  "tx_input c \<noteq> [] \<Longrightarrow> create_cet_adaptor_sig_from_point example_updater_api c p sk scr v = Ok [sk, hd p]"
  by (simp add: create_cet_adaptor_sig_from_point_def get_sig_hash_msg_def)

lemma example_info_signatures:
  assumes "tx_input c \<noteq> []" "tx_input c' \<noteq> []"
  shows "info_get_adaptor_info example_updater_api offered_info 200000 sk scr v [c, c'] a = Ok (EnumInfo, [[sk, 22], [sk, 27]])"
  using enum_signatures_traverse [of 1 "get_oracle_infos offered_info" example_updater_api]
  by (simp add: info_get_adaptor_info_def offered_info_def get_oracle_infos_def example_enum_contract_def
      announcement_oracle_info_def example_announcement_def enum_cases_def case_sig_def case_point_def chosen_def
      get_adaptor_point_from_oracle_info_def get_oracle_sig_point_def index_def tagged_attestation_msg_def example_sig_point
      example_encrypt assms)

definition example_received :: offered_contract where
  "example_received = received_as [44] [2] example_offered"

definition example_accept_params :: party_params where
  "example_accept_params = \<lparr>fund_pubkey = [13], change_script_pubkey = [2, 1], change_serial_id = 2, payout_script_pubkey = [2, 2], payout_serial_id = 2,
      pp_inputs = [\<lparr>ti_outpoint = \<lparr>op_txid = [2], op_vout = 0\<rparr>, ti_max_witness_len = 108, ti_redeem_script = [], ti_serial_id = 2\<rparr>],
      dlc_inputs = [], input_amount = 150000, collateral = 100000\<rparr>"

lemma example_accept_params:
  "\<exists>fins. get_party_params example_updater_api (example_env 2) 100000 200000 [] 1 13 = Ok (example_accept_params, fins)"
  by (simp add: example_offer_defs Let_def example_api_def as_u32_def example_accept_params_def)

definition example_input :: tx_in where
  "example_input = \<lparr>previous_output = \<lparr>op_txid = [3], op_vout = 2\<rparr>, script_sig = [], tx_sequence = ENABLE_LOCKTIME, tx_witness = []\<rparr>"

definition example_cet_to :: "tx_out \<Rightarrow> transaction" where
  "example_cet_to x = \<lparr>tx_version = TX_VERSION, tx_lock_time = 10, tx_input = [example_input], tx_output = [x]\<rparr>"

definition example_dlc :: dlc_transactions where
  "example_dlc = \<lparr>dlc_fund = \<lparr>tx_version = TX_VERSION, tx_lock_time = 0,
       tx_input = map (\<lambda>k. \<lparr>previous_output = \<lparr>op_txid = [k], op_vout = 0\<rparr>, script_sig = [], tx_sequence = DISABLE_LOCKTIME, tx_witness = []\<rparr>) [1, 2],
       tx_output = [\<lparr>out_value = 49829, script_pubkey = [1, 1]\<rparr>, \<lparr>out_value = 49829, script_pubkey = [2, 1]\<rparr>,
         \<lparr>out_value = 200130, script_pubkey = [0, 82, 1, 11, 1, 13, 82, 174]\<rparr>]\<rparr>,
     dlc_cets = [example_cet_to \<lparr>out_value = 200000, script_pubkey = [1, 2]\<rparr>, example_cet_to \<lparr>out_value = 199500, script_pubkey = [2, 2]\<rparr>],
     dlc_refund = create_refund_transaction \<lparr>out_value = 100000, script_pubkey = [1, 2]\<rparr> \<lparr>out_value = 100000, script_pubkey = [2, 2]\<rparr>
       example_input 1700604800,
     funding_witness_script = [82, 1, 11, 1, 13, 82, 174], pending_close_txs = []\<rparr>"

lemma example_dlc: "make_dlc_transactions example_updater_api example_received example_accept_params = Ok example_dlc"
  using example_offered_fields
  by (simp add: example_received_def received_as_def make_dlc_transactions_def index_def info_get_payouts_def
    example_offer_defs Let_def example_api_def as_u32_def create_dlc_transactions_def create_cets_and_refund_tx_def example_defs  get_output_for_script_pubkey_def
   create_cets_def create_cet_def enum_get_payouts_def example_accept_params_def get_sequence_def example_dlc_def example_cet_to_def example_input_def create_refund_transaction_def)

lemma example_fund_output:
  "get_fund_output example_api example_dlc = (Ok \<lparr>out_value = 200130, script_pubkey = [0, 82, 1, 11, 1, 13, 82, 174]\<rparr> :: (_, 'e) res)"
  by (simp add: get_fund_output_def get_fund_output_index_def get_output_for_script_pubkey_def example_dlc_def example_api_def index_def)

definition example_accepted :: accepted_contract where
  "example_accepted = \<lparr>ac_offered_contract = example_received, ac_accept_params = example_accept_params, 
    ac_funding_inputs = (case get_party_params example_updater_api (example_env 2) 100000 200000 [] 1 13 of Ok (_, fins) \<Rightarrow> fins),
    ac_adaptor_infos = [EnumInfo], ac_adaptor_signatures = [[13, 22], [13, 27]], ac_accept_refund_signature = [13], ac_dlc_transactions = example_dlc\<rparr>"

definition example_accept_msg :: accept_dlc where
  "example_accept_msg = get_accept_contract_msg example_accepted [[13, 22], [13, 27]]"

lemma example_received_fields:
  "oc_contract_info example_received = [offered_info]" "oc_total_collateral example_received = 200000"
  "oc_keys_id example_received = [2]" 
  "oc_fee_rate_per_vb example_received = 1" "collateral (oc_offer_params example_received) = 100000"
  using example_offered_fields by (simp_all add: example_received_def received_as_def offered_info_def)

lemma example_received_params: "oc_offer_params example_received = oc_offer_params example_offered"
  by (simp add: example_received_def received_as_def)

lemma example_accept:
  "accept_contract example_updater_api (example_env 2) example_received = Ok (example_accepted, example_accept_msg)"
proof -
  obtain fins where p: "get_party_params example_updater_api (example_env 2) 100000 200000 [] 1 13 = Ok (example_accept_params, fins)"
    using example_accept_params by blast
  have d: "tx_input (dlc_refund example_dlc) \<noteq> []" "funding_witness_script example_dlc = [82, 1, 11, 1, 13, 82, 174]"
    "dlc_cets example_dlc = [example_cet_to \<lparr>out_value = 200000, script_pubkey = [1, 2]\<rparr>, example_cet_to \<lparr>out_value = 199500, script_pubkey = [2, 2]\<rparr>]"
    "pending_close_txs example_dlc = []"
    by (simp_all add: example_dlc_def create_refund_transaction_def)
  have same: "example_dlc\<lparr>dlc_cets := [example_cet_to \<lparr>out_value = 200000, script_pubkey = [1, 2]\<rparr>,
      example_cet_to \<lparr>out_value = 199500, script_pubkey = [2, 2]\<rparr>], pending_close_txs := []\<rparr> = example_dlc"
    by (simp add: example_dlc_def)
  have ne: "tx_input (example_cet_to x) = [example_input]" for x by (simp add: example_cet_to_def)
  have i: "accept_contract_internal example_updater_api example_received example_accept_params fins 13 200130 None example_dlc =
     Ok (example_accepted, [[13, 22], [13, 27]])"
    using p d example_fund_output
    by (simp add: accept_contract_internal_def cet_input_of_def index_def example_received_fields example_info_signatures ne same
       get_raw_sig_for_tx_input_def get_sig_hash_msg_def example_accepted_def Let_def)
  show ?thesis
    using i p by (simp add: accept_contract_def example_received_fields usub_def example_dlc example_fund_output example_accept_msg_def)
qed

lemma example_accept_fields:
  "am_cet_adaptor_signatures example_accept_msg = [[13, 22], [13, 27]]" "am_refund_signature example_accept_msg = [13]"
  "ac_accept_params example_accepted = example_accept_params" "ac_adaptor_infos example_accepted = [EnumInfo]"
  "ac_dlc_transactions example_accepted = example_dlc" "oc_total_collateral example_offered = 200000"
  using example_offered_fields by (simp_all add: example_accept_msg_def get_accept_contract_msg_def example_accepted_def)

lemma honest_acceptance_verifies_witness:
  "accept_params_of example_updater_api example_accept_msg = Ok example_accept_params \<and>
   (\<exists>d out. make_dlc_transactions example_updater_api example_offered example_accept_params = Ok d \<and>
      get_fund_output example_api d = (Ok out :: (_, manager_error) res) \<and>
      verify_accepted example_updater_api example_offered example_accept_params [13] [[13, 22], [13, 27]] (out_value out) None None d =
        Ok ([EnumInfo], dlc_cets example_dlc))"
  using honest_acceptance_verifies [OF example_updater_api_ok example_encodings_ok example_yields
      example_accept [unfolded example_received_def], unfolded example_accept_fields] by simp

text \<open>The contract of the example as the offering party holds it, and an attestation of the first outcome.\<close>

definition example_signed :: signed_contract where
  "example_signed = \<lparr>sc_accepted_contract = example_accepted\<lparr>ac_offered_contract := example_offered\<rparr>,
     sc_adaptor_signatures = [[11, 22], [11, 27]], sc_offer_refund_signature = [11], sc_funding_signatures = [], sc_channel_id = None\<rparr>"

definition attestation_a :: oracle_attestation where
  "attestation_a = \<lparr>att_event_id = [101], att_public_key = [5],
     att_signatures = [7 # replicate 31 0 @ 22 # replicate 31 0], att_outcomes = [[65]]\<rparr>"

lemma example_funding_script:
  "funding_witness_script (ac_dlc_transactions (sc_accepted_contract example_signed)) = make_funding_redeemscript [11] [13]"
  "[82, Suc 0, 11, Suc 0, 13, 82, 174] = make_funding_redeemscript [11] [13]"
  by (simp_all add: example_signed_def example_accepted_def example_dlc_def make_funding_redeemscript_def push_slice_def OP_PUSHNUM_2_def
      OP_CHECKMULTISIG_def)

lemma example_holds:
  "holds_signatures example_updater_api example_signed offered_info 11 13 200130 (dlc_cets example_dlc)"
proof -
  let ?d = "ac_dlc_transactions (sc_accepted_contract example_signed)"
  have i: "info_get_adaptor_info example_updater_api offered_info 200000 13 (funding_witness_script ?d) 200130 (dlc_cets example_dlc) 0 =
      Ok (EnumInfo, [[13, 22], [13, 27]])"
    by (simp add: example_dlc_def example_info_signatures example_cet_to_def)
  have f: "counterparty_sigs example_signed = [[13, 22], [13, 27]] @ []" "counterparty_key example_signed = [13]" "?d = example_dlc"
    using example_offered_fields
    by (simp_all add: counterparty_sigs_def counterparty_key_def example_signed_def example_accepted_def example_accept_params_def)
  have "\<exists>tc sigs rest. counterparty_sigs example_signed = sigs @ rest \<and> length sigs < usize_bound \<and>
      info_get_adaptor_info example_updater_api offered_info tc 13 (funding_witness_script ?d) 200130 (dlc_cets example_dlc) 0 = Ok (EnumInfo, sigs)"
    by (rule exI [of _ 200000], rule exI [of _ "[[13, 22], [13, 27]]"], rule exI [of _ "[]"]) (simp add: i f(1))
  then show ?thesis
    unfolding holds_signatures_def Let_def using f(2,3) example_fund_output [where 'e = manager_error] example_funding_script(1) by simp
qed

lemma example_att:
  "honest_attestation example_updater_api (cn_oracle_announcements offered_info ! 0) attestation_a [65]"
  by (simp add: honest_attestation_def attestation_a_def offered_info_def example_enum_contract_def example_announcement_def
      attests_def tagged_attestation_msg_def example_sig_point)

lemma example_range_info:
  "info_get_range_info example_orders offered_info EnumInfo [(0, [[65]])] 0 =
     (Ok (Some ([(0, 1)], \<lparr>cet_index = 0, adaptor_index = 0\<rparr>)) :: (_, manager_error) res)"
  by (simp add: info_get_range_info_def offered_info_def example_enum_contract_def enum_get_range_info_def example_orders_def
      get_majority_combination_def ci_new_def ci_collect_def ci_fuel_def ci_next_def Let_def index_def uadd_def umul_def usub_def update_def)

lemma example_signed_cet:
  "\<exists>tx. get_signed_cet example_updater_api example_orders example_signed offered_info EnumInfo [(0, attestation_a)] 11 = Ok tx"
proof -
  have "get_range_info_and_oracle_sigs example_orders offered_info EnumInfo [(0, attestation_a)] =
      Ok (\<lparr>cet_index = 0, adaptor_index = 0\<rparr>, [att_signatures attestation_a])"
    using example_range_info by (simp add: get_range_info_and_oracle_sigs_def attestation_a_def List.map_filter_def)
  then show ?thesis
    using example_offered_fields example_fund_output [where 'e = manager_error]
    by (simp add: get_signed_cet_def example_signed_def example_accepted_def Let_def index_def example_dlc_def example_cet_to_def
      sign_cet_def signatures_to_secret_def schnorrsig_decompose_def attestation_a_def sign_multi_sig_input_def set_witness_def
      get_sig_for_tx_input_def get_raw_sig_for_tx_input_def get_sig_hash_msg_def)
qed

lemma signed_cet_pays_attested_outcome_witness:
  "\<exists>tx i. get_signed_cet example_updater_api example_orders example_signed offered_info EnumInfo [(0, attestation_a)] 11 = Ok tx \<and>
     spends_multisig example_updater_api tx 0 200130 [11] [13] \<and> same_but_witness (dlc_cets example_dlc ! i) tx"
proof -
  have "\<exists>secret. signatures_to_secret example_updater_api sigs = Ok secret"
    if "subseq sigs [[hd (att_signatures attestation_a)]]" "length sigs = 1" for sigs
    using that by (auto simp: length_Suc_conv signatures_to_secret_def schnorrsig_decompose_def attestation_a_def index_def split: if_splits)
  then show ?thesis
    using example_att signed_cet_pays_attested_outcome [OF example_updater_api_ok _ _ example_holds, of _ example_orders "[(0, attestation_a)]" "[65]"]
    by (auto simp: offered_info_def example_enum_contract_def example_orders_def signable_def)
qed

lemma signed_refund_spends_witness:
  "\<exists>tx. get_signed_refund example_updater_api example_signed 11 = Ok tx \<and>
     spends_multisig example_updater_api tx 0 200130 [11] [13] \<and> tx_lock_time tx = 1700604800"
proof -
  have f: "counterparty_key example_signed = [13]" "ac_dlc_transactions (sc_accepted_contract example_signed) = example_dlc"
    "counterparty_refund_sig example_signed = [13]"
    using example_offered_fields
    by (simp_all add: counterparty_key_def counterparty_refund_sig_def example_signed_def example_accepted_def example_accept_params_def)
  have "verify_tx_input_sig example_updater_api [13] (dlc_refund example_dlc) 0 scr 200130 [13] = Ok ()" for scr
    by (simp add: verify_tx_input_sig_def get_sig_hash_msg_def example_dlc_def create_refund_transaction_def)
  moreover have "tx_lock_time (dlc_refund example_dlc) = 1700604800"
    by (simp add: example_dlc_def create_refund_transaction_def)
  ultimately show ?thesis
    using signed_refund_spends [OF example_updater_api_ok, of example_signed "[13]" 11] example_fund_output [where 'e = manager_error]
      example_funding_script(1) f by auto
qed

lemma example_fund_index:
  "get_fund_output_index example_api example_dlc = (Ok 2 :: (_, 'e) res)"
  "get_fund_outpoint example_api example_dlc = (Ok \<lparr>op_txid = [3], op_vout = 2\<rparr> :: (_, 'e) res)"
  by (simp_all add: get_fund_outpoint_def get_fund_output_index_def get_output_for_script_pubkey_def example_dlc_def example_api_def
      index_def as_u32_def)

text \<open>The accepting party holds the same contract; it proposes to close it with 50000 for its counterparty.\<close>

definition example_counter_signed :: signed_contract where
  "example_counter_signed = example_signed\<lparr>sc_accepted_contract := example_accepted\<rparr>"

lemma example_close:
  "\<exists>m tx. create_cooperative_close example_updater_api example_counter_signed 50000 = Ok (m, tx)"
  using example_fund_output [where 'e = manager_error] example_fund_index [where 'e = manager_error]
  by (simp add: create_cooperative_close_def example_signed_def example_counter_signed_def example_accepted_def close_transaction_def
      create_collaborative_close_transaction_def get_raw_sig_for_tx_input_def get_sig_hash_msg_def get_contract_id_def Let_def
      example_received_fields)

lemma cooperative_close_spends_witness:
  "\<exists>m tx tx' fund_value. create_cooperative_close example_updater_api example_counter_signed 50000 = Ok (m, tx) \<and>
     complete_cooperative_close example_updater_api example_signed m = Ok tx' \<and>
     spends_multisig example_updater_api tx' 0 fund_value [11] [13] \<and>
     same_outputs [(150000, [1, 2]), (50000, [2, 2])] tx'"
proof -
  obtain m tx where c: "create_cooperative_close example_updater_api example_counter_signed 50000 = Ok (m, tx)"
    using example_close by blast
  have f: "counterparty_key example_signed = [13]" "same_funding (sc_accepted_contract example_counter_signed) (sc_accepted_contract example_signed)"
    "oc_keys_id (sc_offered_contract example_signed) = [1]" "oc_keys_id (sc_offered_contract example_counter_signed) = [2]"
    "ac_dlc_transactions (sc_accepted_contract example_counter_signed) = ac_dlc_transactions (sc_accepted_contract example_signed)"
    "oc_total_collateral (sc_offered_contract example_counter_signed) = 200000"
    "payout_script_pubkey (oc_offer_params (sc_offered_contract example_counter_signed)) = [1, 2]"
    "payout_script_pubkey (ac_accept_params (sc_accepted_contract example_counter_signed)) = [2, 2]"
    using example_offered_fields example_received_fields example_received_params
    by (simp_all add: counterparty_key_def same_funding_def example_signed_def example_counter_signed_def example_accepted_def
        example_accept_params_def)
  show ?thesis
    using cooperative_close_spends [OF example_updater_api_ok c f(2), of 13 11] f c example_funding_script(1) by fastforce
qed

lemma later_info_signs_first_cets_witness:
  "\<exists>tx. \<exists>cet\<in>set (dlc_cets example_dlc).
     get_signed_cet example_updater_api example_orders example_signed offered_info EnumInfo [(0, attestation_a)] 11 = Ok tx \<and>
     same_but_witness cet tx"
  using later_info_signs_first_cets [of example_updater_api example_orders example_signed offered_info "[(0, attestation_a)]" 11
      _ _ "dlc_cets example_dlc" "[]"] example_signed_cet
  by (fastforce simp: offered_info_def example_signed_def example_accepted_def example_dlc_def)

end
