(* ===== verification/Contract_Machine.thy ===== *)
theory Contract_Machine
  imports Contract_Manager Contract_Protocol
begin

text \<open>
  The life of a contract as an abstract machine on the map of stored contracts: its steps are those of one contract at a time,
  with the checks that the manager makes.  Then a logic for the actions of the manager: triples over the storage that hold
  whether an action succeeds or fails.
\<close>

section \<open>The abstract machine\<close>

text \<open>The signed contract of a contract whose funding transaction is confirmed.\<close>

fun held_contract :: "contract \<Rightarrow> signed_contract option" where
  "held_contract (Confirmed s) = Some s"
| "held_contract (PreClosed p) = Some (pc_signed_contract p)"
| "held_contract (Closed x) = Some (cl_signed_contract x)"
| "held_contract _ = None"

definition refund_time :: "('s, 'x) manager_scheme \<Rightarrow> signed_contract \<Rightarrow> bool" where
  "refund_time m s \<longleftrightarrow> (\<exists>n. tx_lock_time (dlc_refund (ac_dlc_transactions (sc_accepted_contract s))) \<le> unix_time_now m n)"

definition confirmed_times :: "('s, 'x) manager_scheme \<Rightarrow> transaction \<Rightarrow> nat \<Rightarrow> bool" where
  "confirmed_times m tx k \<longleftrightarrow> (\<exists>n st. transaction_confirmations m n (txid_of m tx) = Ok st \<and> st \<noteq> NotFound \<and> k \<le> confirmations st)"

text \<open>
  What the application reports with \<open>on_counterparty_close\<close>: a signed contract, the transaction that closed it, and the number of
  its confirmations.  The manager only checks that the transaction spends the funding output.
\<close>

type_synonym close_report = "signed_contract \<times> transaction \<times> nat"

fun signed_part :: "contract \<Rightarrow> signed_contract option" where
  "signed_part (Signed s) = Some s"
| "signed_part (Refunded s) = Some s"
| "signed_part c = held_contract c"

definition spends_funding :: "('s, 'x) manager_scheme \<Rightarrow> signed_contract \<Rightarrow> transaction \<Rightarrow> bool" where
  "spends_funding m s tx \<longleftrightarrow>
     (case (get_fund_outpoint (btc (mg_api m)) (ac_dlc_transactions (sc_accepted_contract s)) :: (_, manager_error) res) of
        Ok outpoint \<Rightarrow> outpoint \<in> set (map previous_output (tx_input tx))
      | _ \<Rightarrow> False)"

definition reported_contract :: "('s, 'x) manager_scheme \<Rightarrow> close_report \<Rightarrow> (contract, manager_error) res" where
  "reported_contract m = (\<lambda>(s, tx, n).
     if txid_of m (dlc_refund (ac_dlc_transactions (sc_accepted_contract s))) = txid_of m tx then Ok (Refunded s)
     else if n < NB_CONFIRMATIONS m then Ok (preclosed_of s None tx)
     else closed_contract_of m s None tx)"

text \<open>
  With \<open>own\<close> a party only accepts offers it received and only signs after acceptances of its own offers,
  and it only reports the close of a contract that it has stored.
\<close>

inductive contract_step ::
  "('s, 'x) manager_scheme \<Rightarrow> bool \<Rightarrow> bool \<Rightarrow> close_report set \<Rightarrow> (bytes \<rightharpoonup> contract) \<Rightarrow> (bytes \<rightharpoonup> contract) \<Rightarrow> bool" for m purge own reports where
  offered: "offer_contract (mg_api m) (party m n) time inp anns ds delay peer = Ok (oc, msg) \<Longrightarrow>
    contract_step m purge own reports S (S(oc_id oc \<mapsto> Offered oc))"
| received: "try_from_offer_dlc (mg_api m) msg peer keys = Ok oc \<Longrightarrow> S (oc_id oc) = None \<Longrightarrow>
    contract_step m purge own reports S (S(oc_id oc \<mapsto> Offered oc))"
| accepted: "S t = Some (Offered oc) \<Longrightarrow> own \<longrightarrow> \<not> oc_is_offer_party oc \<Longrightarrow>
    accept_contract (mg_api m) (party m n) oc = Ok (a, msg) \<Longrightarrow> get_id (mg_api m) (Accepted a) = (Ok i :: (_, manager_error) res) \<Longrightarrow>
    contract_step m purge own reports S (stored purge i (Accepted a) S)"
| signed: "S t = Some (Offered oc) \<Longrightarrow> own \<longrightarrow> oc_is_offer_party oc \<Longrightarrow>
    verify_accepted_and_sign_contract (mg_api m) wallet lookup oc msg = Ok (s, sm) \<Longrightarrow>
    get_id (mg_api m) (Signed s) = (Ok i :: (_, manager_error) res) \<Longrightarrow>
    contract_step m purge own reports S (stored purge i (Signed s) S)"
| failed_accept: "S t = Some (Offered (fa_offered_contract f)) \<Longrightarrow> i = oc_id (fa_offered_contract f) \<Longrightarrow>
    contract_step m purge own reports S (S(i \<mapsto> FailedAccept f))"
| countersigned: "S t = Some (Accepted a) \<Longrightarrow>
    verify_signed_contract (mg_api m) wallet lookup a sm = Ok (s, tx) \<Longrightarrow>
    get_id (mg_api m) (Signed s) = (Ok i :: (_, manager_error) res) \<Longrightarrow>
    contract_step m purge own reports S (stored purge i (Signed s) S)"
| failed_sign: "S t = Some (Accepted (fs_accepted_contract f)) \<Longrightarrow>
    get_id (mg_api m) (FailedSign f) = (Ok i :: (_, manager_error) res) \<Longrightarrow> contract_step m purge own reports S (S(i \<mapsto> FailedSign f))"
| confirmed: "S t = Some (Signed s) \<Longrightarrow>
    confirmed_times m (dlc_fund (ac_dlc_transactions (sc_accepted_contract s))) (NB_CONFIRMATIONS m) \<Longrightarrow>
    get_id (mg_api m) (Confirmed s) = (Ok i :: (_, manager_error) res) \<Longrightarrow> contract_step m purge own reports S (S(i \<mapsto> Confirmed s))"
| pending_close: "S t = Some (Confirmed s) \<Longrightarrow> create_cooperative_close (mg_api m) s payout = Ok (msg, tx) \<Longrightarrow>
    get_id (mg_api m) (Confirmed s) = (Ok i :: (_, manager_error) res) \<Longrightarrow>
    contract_step m purge own reports S (S(i \<mapsto> Confirmed (with_pending_close s tx)))"
| preclosed: "S t = Some (Confirmed (pc_signed_contract p)) \<Longrightarrow> get_id (mg_api m) (PreClosed p) = (Ok i :: (_, manager_error) res) \<Longrightarrow>
    contract_step m purge own reports S (S(i \<mapsto> PreClosed p))"
| reopened: "S t = Some (PreClosed p) \<Longrightarrow> pc_attestations p = None \<Longrightarrow>
    get_id (mg_api m) (PreClosed p) = (Ok i :: (_, manager_error) res) \<Longrightarrow> contract_step m purge own reports S (S(i \<mapsto> Confirmed (pc_signed_contract p)))"
| closed: "S t = Some c \<Longrightarrow> c = Confirmed s \<or> c = PreClosed p \<and> pc_signed_contract p = s \<Longrightarrow>
    closed_contract_of m s atts tx = Ok (Closed x) \<Longrightarrow> confirmed_times m tx (max 1 (NB_CONFIRMATIONS m)) \<Longrightarrow>
    contract_step m purge own reports S (S(cl_contract_id x \<mapsto> Closed x))"
| refunded: "S t = Some c \<Longrightarrow> held_contract c = Some s \<Longrightarrow> refund_time m s \<Longrightarrow>
    get_id (mg_api m) (Refunded s) = (Ok i :: (_, manager_error) res) \<Longrightarrow> contract_step m purge own reports S (S(i \<mapsto> Refunded s))"
| reported: "(s, tx, n) \<in> reports \<Longrightarrow> own \<longrightarrow> (\<exists>t c. S t = Some c \<and> signed_part c = Some s) \<Longrightarrow> spends_funding m s tx \<Longrightarrow>
    reported_contract m (s, tx, n) = Ok c \<Longrightarrow> get_id (mg_api m) c = (Ok i :: (_, manager_error) res) \<Longrightarrow>
    contract_step m purge own reports S (S(i \<mapsto> c))"

abbreviation contract_steps ::
  "('s, 'x) manager_scheme \<Rightarrow> bool \<Rightarrow> bool \<Rightarrow> close_report set \<Rightarrow> (bytes \<rightharpoonup> contract) \<Rightarrow> (bytes \<rightharpoonup> contract) \<Rightarrow> bool" where
  "contract_steps m purge own reports \<equiv> (contract_step m purge own reports)\<^sup>*\<^sup>*"

text \<open>Every contract is stored under its identifier.\<close>

definition keyed :: "('m) message_api_scheme \<Rightarrow> (bytes \<rightharpoonup> contract) \<Rightarrow> bool" where
  "keyed api S \<longleftrightarrow> (\<forall>i c. S i = Some c \<longrightarrow> get_id api c = (Ok i :: (_, manager_error) res))"

lemma keyedD: "keyed api S \<Longrightarrow> S i = Some c \<Longrightarrow> get_id api c = (Ok i :: (_, manager_error) res)"
  by (simp add: keyed_def)

lemma keyed_upd: "keyed api S \<Longrightarrow> get_id api c = (Ok i :: (_, manager_error) res) \<Longrightarrow> keyed api (S(i \<mapsto> c))"
  by (simp add: keyed_def)

lemma keyed_stored:
  "keyed api S \<Longrightarrow> get_id api c = (Ok i :: (_, manager_error) res) \<Longrightarrow> keyed api (stored purge i c S)"
  by (auto simp: keyed_def stored_apply split: if_splits)

lemma get_contract_id_pending [simp]:
  "get_contract_id api (sc_accepted_contract (with_pending_close s tx)) = get_contract_id api (sc_accepted_contract s)"
  by (simp add: get_contract_id_def with_pending_close_def get_fund_output_index_def Let_def)

lemma closed_contract_id:
  "closed_contract_of m s atts tx = Ok c \<Longrightarrow> \<exists>x. c = Closed x \<and> cl_signed_contract x = s \<and>
     get_contract_id (mg_api m) (sc_accepted_contract s) = (Ok (cl_contract_id x) :: (_, manager_error) res)"
  by (auto simp: closed_contract_of_def res_simps Let_def)

lemma contract_step_keyed: "contract_step m purge own reports S S' \<Longrightarrow> keyed (mg_api m) S \<Longrightarrow> keyed (mg_api m) S'"
proof (induction rule: contract_step.induct)
  case (closed S t c s p atts tx x)
  then have "get_id (mg_api m) (Closed x) = (Ok (cl_contract_id x) :: (_, manager_error) res)" by (simp add: get_id_def)
  with closed(5) show ?case by (rule keyed_upd)
qed (auto intro!: keyed_upd keyed_stored simp: get_id_def)

lemma contract_steps_keyed: "contract_steps m purge own reports S S' \<Longrightarrow> keyed (mg_api m) S \<Longrightarrow> keyed (mg_api m) S'"
  by (induction rule: rtranclp_induct) (auto intro: contract_step_keyed)


section \<open>Reasoning about actions\<close>

text \<open>An action that does not change the storage.\<close>

named_theorems queries \<open>actions that do not change the storage\<close>

definition query :: "('a, 's) action \<Rightarrow> bool" where
  "query act \<longleftrightarrow> (\<forall>\<sigma>. ms_store (snd (act \<sigma>)) = ms_store \<sigma>)"

lemma query_lift [queries]: "query (lift_res r)"
  by (simp add: query_def lift_res_def)

lemma query_ask [queries]: "query (ask f)"
  by (simp add: query_def ask_def)

lemma query_read [queries]: "query (read_store f)"
  by (simp add: query_def read_store_def)

lemma query_and_do [queries]: "query act \<Longrightarrow> (\<And>x. query (f x)) \<Longrightarrow> query (and_do act f)"
  by (auto simp: query_def and_do_def split: prod.splits res.splits) (metis snd_conv)+

lemma query_on_result [queries]: "query act \<Longrightarrow> (\<And>x. query (f x)) \<Longrightarrow> (\<And>e. query (g e)) \<Longrightarrow> query (on_result act f g)"
  by (auto simp: query_def on_result_def split: prod.splits res.splits) (metis snd_conv)+

lemma query_request [queries]: "query (request f)"
  by (simp add: request_def queries)

lemma query_send [queries]: "query (send_transaction m tx)"
  unfolding send_transaction_def by (rule query_and_do, rule query_request) (simp add: query_def)

lemma query_confirmations [queries]: "query (get_transaction_confirmations m txid)"
  by (simp add: get_transaction_confirmations_def queries)

lemma query_in_state [queries]: "query (get_contract_in_state m i state peer)"
  by (simp add: get_contract_in_state_def queries)

lemma query_announcements [queries]: "query (get_oracle_announcements_of m event pks)"
  by (induction pks) (auto intro!: queries)

lemma query_results [queries]: "query (all_announcement_results m xs)"
  by (induction xs) (auto simp: get_oracle_announcements_def intro!: queries)

lemma query_oracle_announcements [queries]: "query (oracle_announcements m inp)"
  by (auto simp: oracle_announcements_def intro!: queries)

lemma query_matured [queries]: "query (matured_announcements m xs)"
  by (induction xs) (auto intro!: queries)

lemma query_attestations [queries]: "query (fetch_attestations m xs)"
  by (induction xs rule: fetch_attestations.induct) (auto simp: fetch_attestation_def intro!: queries)

lemma query_closable [queries]: "query (get_closable_contract_info m xs)"
  by (induction m xs rule: get_closable_contract_info.induct) (auto intro!: queries)

text \<open>
  From storages with \<open>P\<close> the action leads to storages with \<open>E\<close>, whatever its result, and with \<open>Q x\<close> when it
  returns \<open>x\<close>.
\<close>

definition valid ::
  "('s \<Rightarrow> 'b) \<Rightarrow> ('b \<Rightarrow> bool) \<Rightarrow> ('b \<Rightarrow> bool) \<Rightarrow> ('a, 's) action \<Rightarrow> ('a \<Rightarrow> 'b \<Rightarrow> bool) \<Rightarrow> bool" where
  "valid f E P act Q \<longleftrightarrow> (\<forall>\<sigma>. P (f (ms_store \<sigma>)) \<longrightarrow> (case act \<sigma> of (r, \<sigma>') \<Rightarrow>
     E (f (ms_store \<sigma>')) \<and> (\<forall>x. r = Ok x \<longrightarrow> Q x (f (ms_store \<sigma>')))))"

lemma valid_and_do:
  fixes f :: "'s \<Rightarrow> 'b"
  assumes "valid f E P act Q" "\<And>x. valid f E (Q x) (g x) R"
  shows "valid f E P (and_do act g) R"
  unfolding valid_def
proof (intro allI impI)
  fix \<sigma> :: "'s manager_state" assume p: "P (f (ms_store \<sigma>))"
  obtain r \<sigma>' where a: "act \<sigma> = (r, \<sigma>')" by fastforce
  then have "E (f (ms_store \<sigma>'))" "\<And>x. r = Ok x \<Longrightarrow> Q x (f (ms_store \<sigma>'))" using assms(1) p by (auto simp: valid_def)
  then show "case and_do act g \<sigma> of (r, \<sigma>') \<Rightarrow> E (f (ms_store \<sigma>')) \<and> (\<forall>x. r = Ok x \<longrightarrow> R x (f (ms_store \<sigma>')))"
    using assms(2) a by (cases r) (auto simp: and_do_def valid_def)
qed

lemma valid_query:
  fixes act :: "('a, 's) action"
  assumes "query act" "\<And>S. P S \<Longrightarrow> E S" "\<And>\<sigma> x. P (f (ms_store \<sigma>)) \<Longrightarrow> fst (act \<sigma>) = Ok x \<Longrightarrow> Q x (f (ms_store \<sigma>))"
  shows "valid f E P act Q"
  unfolding valid_def
proof (intro allI impI)
  fix \<sigma> :: "'s manager_state" assume p: "P (f (ms_store \<sigma>))"
  obtain r \<sigma>' where a: "act \<sigma> = (r, \<sigma>')" by fastforce
  then have "ms_store \<sigma>' = ms_store \<sigma>" using assms(1) unfolding query_def by (metis snd_conv)
  then show "case act \<sigma> of (r, \<sigma>') \<Rightarrow> E (f (ms_store \<sigma>')) \<and> (\<forall>x. r = Ok x \<longrightarrow> Q x (f (ms_store \<sigma>')))"
    using assms(2,3) p a by auto
qed

lemma valid_lift: "(\<And>S. P S \<Longrightarrow> E S) \<Longrightarrow> (\<And>S x. P S \<Longrightarrow> r = Ok x \<Longrightarrow> Q x S) \<Longrightarrow> valid f E P (lift_res r) Q"
  by (auto simp: valid_def lift_res_def)

lemma valid_on_query:
  fixes act :: "('a, 's) action"
  assumes "query act" "\<And>S. P S \<Longrightarrow> E S" "\<And>\<sigma> x. P (f (ms_store \<sigma>)) \<Longrightarrow> fst (act \<sigma>) = Ok x \<Longrightarrow> Q x (f (ms_store \<sigma>))"
    and "\<And>x. valid f E (Q x) (g x) R" "\<And>e. valid f E P (h e) R"
  shows "valid f E P (on_result act g h) R"
  unfolding valid_def
proof (intro allI impI)
  fix \<sigma> :: "'s manager_state" assume p: "P (f (ms_store \<sigma>))"
  obtain r \<sigma>' where a: "act \<sigma> = (r, \<sigma>')" by fastforce
  then have s: "ms_store \<sigma>' = ms_store \<sigma>" using assms(1) unfolding query_def by (metis snd_conv)
  show "case on_result act g h \<sigma> of (r, \<sigma>') \<Rightarrow> E (f (ms_store \<sigma>')) \<and> (\<forall>x. r = Ok x \<longrightarrow> R x (f (ms_store \<sigma>')))"
  proof (cases r)
    case (Ok x)
    then have "Q x (f (ms_store \<sigma>'))" using assms(3) [OF p, of x] a s by simp
    then show ?thesis using assms(4) [of x] Ok a by (auto simp: on_result_def valid_def)
  next
    case (Err e)
    then show ?thesis using assms(5) [of e] a p s by (auto simp: on_result_def valid_def)
  next
    case Panic
    then show ?thesis using assms(2) p a s by (auto simp: on_result_def)
  qed
qed

lemma valid_if:
  "(b \<Longrightarrow> valid f E P act Q) \<Longrightarrow> (\<not> b \<Longrightarrow> valid f E P act' Q) \<Longrightarrow> valid f E P (if b then act else act') Q"
  by simp

lemma valid_at:
  fixes f :: "'s \<Rightarrow> 'b"
  assumes "\<And>S. P S \<Longrightarrow> valid f E ((=) S) act Q"
  shows "valid f E P act Q"
  unfolding valid_def
proof (intro allI impI)
  fix \<sigma> :: "'s manager_state" assume "P (f (ms_store \<sigma>))"
  from assms [OF this] show "case act \<sigma> of (r, \<sigma>') \<Rightarrow> E (f (ms_store \<sigma>')) \<and> (\<forall>x. r = Ok x \<longrightarrow> Q x (f (ms_store \<sigma>')))"
    by (simp add: valid_def)
qed

lemma valid_weaken:
  "valid f E P act Q \<Longrightarrow> (\<And>S. P' S \<Longrightarrow> P S) \<Longrightarrow> (\<And>S. E S \<Longrightarrow> E' S) \<Longrightarrow> (\<And>x S. Q x S \<Longrightarrow> Q' x S) \<Longrightarrow> valid f E' P' act Q'"
  unfolding valid_def by (simp add: case_prod_beta)

lemma valid_logged: "valid f E P act Q \<Longrightarrow> valid f E P (logged act) (\<lambda>_. E)"
  by (auto simp: valid_def logged_def on_result_def lift_res_def split: prod.splits res.splits)

end
