(* ===== verification/Contract_Lifecycle.thy ===== *)
theory Contract_Lifecycle
  imports Contract_Machine
begin

text \<open>
  The manager implements the machine: every check of the periodic loop, every call of the application and every message of
  the peer takes the stored contracts along steps of the machine, whatever the wallet, the blockchain, the clock and the oracles
  answer and whether the call succeeds or fails.  This is proved in the locale \<open>contract_manager\<close>, for any storage that
  satisfies the interface.
\<close>

section \<open>The manager implements the machine\<close>

text \<open>What an action that works on the contract \<open>t\<close> may do: it takes steps and leaves the other contracts alone.\<close>

definition only ::
  "('s, 'x) manager_scheme \<Rightarrow> bool \<Rightarrow> bool \<Rightarrow> close_report set \<Rightarrow> bytes \<Rightarrow> (bytes \<rightharpoonup> contract) \<Rightarrow> (bytes \<rightharpoonup> contract) \<Rightarrow> bool" where
  "only m purge own reports t S S' \<longleftrightarrow> contract_steps m purge own reports S S' \<and> (\<forall>j. j \<noteq> t \<longrightarrow> S' j = S j)"

lemma only_refl [simp]: "only m purge own reports t S S"
  by (simp add: only_def)

lemma onlyI: "contract_step m purge own reports S' S'' \<Longrightarrow> only m purge own reports t S S' \<Longrightarrow> (\<And>j. j \<noteq> t \<Longrightarrow> S'' j = S' j) \<Longrightarrow> only m purge own reports t S S''"
  by (simp add: only_def) (meson rtranclp.rtrancl_into_rtrancl)

lemma only_keyed: "only m purge own reports t S S' \<Longrightarrow> keyed (mg_api m) S \<Longrightarrow> keyed (mg_api m) S'"
  by (metis only_def contract_steps_keyed)

named_theorems vcg \<open>triples of a sequence of actions, by its first action\<close>

lemma valid_bind_query:
  fixes f :: "'s \<Rightarrow> 'b"
  assumes "query act" "\<And>S. P S \<Longrightarrow> E S" "\<And>\<sigma> x. fst (act \<sigma>) = Ok x \<Longrightarrow> valid f E P (g x) R"
  shows "valid f E P (and_do act g) R"
  unfolding valid_def
proof (intro allI impI)
  fix \<sigma> :: "'s manager_state" assume p: "P (f (ms_store \<sigma>))"
  obtain r \<sigma>' where a: "act \<sigma> = (r, \<sigma>')" by fastforce
  then have s: "ms_store \<sigma>' = ms_store \<sigma>" using assms(1) unfolding query_def by (metis snd_conv)
  show "case and_do act g \<sigma> of (r, \<sigma>') \<Rightarrow> E (f (ms_store \<sigma>')) \<and> (\<forall>x. r = Ok x \<longrightarrow> R x (f (ms_store \<sigma>')))"
    using assms(2) [of "f (ms_store \<sigma>)"] assms(3) [of \<sigma>] a p s
    by (cases r) (auto simp: and_do_def valid_def)
qed

lemma valid_ask [vcg]:
  "(\<And>S. P S \<Longrightarrow> E S) \<Longrightarrow> (\<And>n. valid f E P (g (h n)) R) \<Longrightarrow> valid f E P (and_do (ask h) g) R"
  by (rule valid_bind_query [OF query_ask]) (auto simp: ask_def)

lemma valid_request [vcg]:
  "(\<And>S. P S \<Longrightarrow> E S) \<Longrightarrow> (\<And>n x. h n = Ok x \<Longrightarrow> valid f E P (g x) R) \<Longrightarrow> valid f E P (and_do (request h) g) R"
  by (rule valid_bind_query [OF query_request]) (auto simp: request_def and_do_def ask_def lift_res_def)

lemma valid_confirmations [vcg]:
  "(\<And>S. P S \<Longrightarrow> E S) \<Longrightarrow> (\<And>n x. transaction_confirmations m n txid = Ok x \<Longrightarrow> valid f E P (g x) R) \<Longrightarrow>
    valid f E P (and_do (get_transaction_confirmations m txid) g) R"
  unfolding get_transaction_confirmations_def by (rule valid_request)

lemma valid_send [vcg]:
  "(\<And>S. P S \<Longrightarrow> E S) \<Longrightarrow> valid f E P (g ()) R \<Longrightarrow> valid f E P (and_do (send_transaction m tx) g) R"
  by (rule valid_bind_query [OF query_send]) simp_all

lemma valid_lift_bind [vcg]:
  "(\<And>S. P S \<Longrightarrow> E S) \<Longrightarrow> (\<And>x. r = Ok x \<Longrightarrow> valid f E P (g x) R) \<Longrightarrow> valid f E P (and_do (lift_res r) g) R"
  by (rule valid_bind_query [OF query_lift]) (auto simp: lift_res_def)

lemma valid_keep: "query act \<Longrightarrow> (\<And>S. P S \<Longrightarrow> E S) \<Longrightarrow> valid f E P act (\<lambda>_. P)"
  by (rule valid_query) simp_all

locale contract_manager = contract_storage "mg_store m" abs_store "mg_api m" purge
  for m :: "('s, 'x) manager_scheme" and abs_store :: "'s \<Rightarrow> bytes \<rightharpoonup> contract" and purge :: bool +
  fixes own :: bool and reports :: "close_report set"
begin

abbreviation steps where "steps \<equiv> contract_steps m purge own reports"
abbreviation api_id :: "contract \<Rightarrow> (bytes, manager_error) res" where "api_id \<equiv> get_id (mg_api m)"

lemma valid_update:
  assumes "\<And>S. P S \<Longrightarrow> E S" "\<And>S i. P S \<Longrightarrow> api_id c = Ok i \<Longrightarrow> E (stored purge i c S)"
    and "\<And>S i. P S \<Longrightarrow> api_id c = Ok i \<Longrightarrow> Q () (stored purge i c S)"
  shows "valid abs_store E P (update_contract m c) Q"
  unfolding valid_def
proof (intro allI impI)
  fix \<sigma> :: "'s manager_state" assume p: "P (abs_store (ms_store \<sigma>))"
  obtain r st where u: "st_update_contract (mg_store m) c (ms_store \<sigma>) = (r, st)" by fastforce
  show "case update_contract m c \<sigma> of (r, \<sigma>') \<Rightarrow> E (abs_store (ms_store \<sigma>')) \<and> (\<forall>x. r = Ok x \<longrightarrow> Q x (abs_store (ms_store \<sigma>')))"
    using update_law [OF u] assms p u by (auto simp: update_contract_def write_store_def split: if_splits)
qed

lemma get_found: "st_get_contract (mg_store m) i st = Ok r \<Longrightarrow> abs_store st i = r"
  using get_law by (rule sym)

lemma in_state_found:
  "fst (get_contract_in_state m i state peer \<sigma>) = Ok x \<Longrightarrow>
    \<exists>c. abs_store (ms_store \<sigma>) i = Some c \<and> state c = Some x \<and> (\<forall>p. peer = Some p \<longrightarrow> get_counter_party_id c = p)"
  by (auto simp: get_contract_in_state_def and_do_def read_store_def lift_res_def dest!: get_found
      split: res.splits option.splits if_splits)

lemma valid_in_state [vcg]:
  assumes "\<And>S. P S \<Longrightarrow> E S" "\<And>c x. state c = Some x \<Longrightarrow> (\<And>p. peer = Some p \<Longrightarrow> get_counter_party_id c = p) \<Longrightarrow>
      valid abs_store E (\<lambda>S. P S \<and> S i = Some c) (g x) R"
  shows "valid abs_store E P (and_do (get_contract_in_state m i state peer) g) R"
proof (rule valid_and_do)
  let ?F = "\<lambda>x c. state c = Some x \<and> (\<forall>p. peer = Some p \<longrightarrow> get_counter_party_id c = p)"
  show "valid abs_store E P (get_contract_in_state m i state peer) (\<lambda>x S. P S \<and> (\<exists>c. S i = Some c \<and> ?F x c))"
    by (rule valid_query [OF query_in_state assms(1)]) (auto dest: in_state_found)
  show "valid abs_store E (\<lambda>S. P S \<and> (\<exists>c. S i = Some c \<and> ?F x c)) (g x) R" for x
    unfolding valid_def
  proof (intro allI impI)
    fix \<sigma> :: "'s manager_state" assume "P (abs_store (ms_store \<sigma>)) \<and> (\<exists>c. abs_store (ms_store \<sigma>) i = Some c \<and> ?F x c)"
    then obtain c where "P (abs_store (ms_store \<sigma>)) \<and> abs_store (ms_store \<sigma>) i = Some c" "?F x c" by blast
    then show "case g x \<sigma> of (r, \<sigma>') \<Rightarrow> E (abs_store (ms_store \<sigma>')) \<and> (\<forall>x. r = Ok x \<longrightarrow> R x (abs_store (ms_store \<sigma>')))"
      using assms(2) [of c x] by (simp add: valid_def)
  qed
qed

section \<open>The checks of the periodic loop\<close>

definition plain :: "contract \<Rightarrow> bool" where
  "plain c \<longleftrightarrow> purged_id purge c = None"

lemma plain_simps [simp]:
  "plain (Confirmed s)" "plain (PreClosed p)" "plain (Closed x)" "plain (Refunded s)" "plain (preclosed_of s atts tx)"
  "plain (FailedAccept f)" "plain (FailedSign g)"
  by (simp_all add: plain_def purged_id_def preclosed_of_def)

lemma valid_update_only:
  assumes "plain c" "\<And>S'. P S' \<Longrightarrow> only m purge own reports t S S'"
    and step: "\<And>S' i. P S' \<Longrightarrow> api_id c = Ok i \<Longrightarrow> i = t \<and> contract_step m purge own reports S' (S'(t \<mapsto> c))"
    and "\<And>S'. only m purge own reports t S S' \<Longrightarrow> S' t = Some c \<Longrightarrow> Q () S'"
  shows "valid abs_store (only m purge own reports t S) P (update_contract m c) Q"
proof (rule valid_update)
  have o: "only m purge own reports t S (S'(t \<mapsto> c)) \<and> stored purge i c S' = S'(t \<mapsto> c)" if "P S'" "api_id c = Ok i" for S' i
  proof -
    from step [OF that] have st: "i = t" "contract_step m purge own reports S' (S'(t \<mapsto> c))" by simp_all
    then show ?thesis using assms(1) onlyI [OF st(2) assms(2) [OF that(1)]] by (simp add: stored_def plain_def)
  qed
  show "only m purge own reports t S S'" if "P S'" for S' using assms(2) that .
  show "only m purge own reports t S (stored purge i c S')" if "P S'" "api_id c = Ok i" for S' i using o [OF that] by simp
  show "Q () (stored purge i c S')" if "P S'" "api_id c = Ok i" for S' i
    using o [OF that] assms(4) [of "S'(t \<mapsto> c)"] by simp
qed

lemma check_signed_only:
  assumes "keyed (mg_api m) S" "S t = Some (Signed s)"
  shows "valid abs_store (only m purge own reports t S) ((=) S) (check_signed_contract m s) (\<lambda>_. only m purge own reports t S)"
  unfolding check_signed_contract_def
proof (intro vcg valid_if)
  fix status n
  let ?fund = "dlc_fund (ac_dlc_transactions (sc_accepted_contract s))"
  assume "transaction_confirmations m n (txid_of m ?fund) = Ok status" "status \<noteq> NotFound \<and> NB_CONFIRMATIONS m \<le> confirmations status"
  then have c: "confirmed_times m ?fund (NB_CONFIRMATIONS m)" by (auto simp: confirmed_times_def)
  have "i = t \<and> contract_step m purge own reports S (S(t \<mapsto> Confirmed s))" if i: "api_id (Confirmed s) = Ok i" for i
  proof -
    have "i = t" using keyedD [OF assms] i by (simp add: get_id_def)
    then show ?thesis using contract_step.confirmed [where S = S, OF assms(2) c i] by simp
  qed
  then show "valid abs_store (only m purge own reports t S) ((=) S) (update_contract m (Confirmed s)) (\<lambda>_. only m purge own reports t S)"
    by (intro valid_update_only) auto
qed (auto intro: valid_lift)

text \<open>The confirmation of a closing transaction, of a contract whose state may already have been changed by the same check.\<close>

definition holds :: "bytes \<Rightarrow> signed_contract \<Rightarrow> (bytes \<rightharpoonup> contract) \<Rightarrow> bool" where
  "holds t s S \<longleftrightarrow> (\<exists>c. S t = Some c \<and> held_contract c = Some s)"

lemma closable_step:
  assumes "api_id (Confirmed s) = Ok t" "S t = Some c" "c = Confirmed s \<or> c = PreClosed p \<and> pc_signed_contract p = s"
    and "confirmed_times m tx (max 1 (NB_CONFIRMATIONS m))" "closed_contract_of m s atts tx = Ok c'" "api_id c' = Ok i"
  shows "i = t \<and> contract_step m purge own reports S (S(t \<mapsto> c'))"
proof -
  obtain x where x: "c' = Closed x" "cl_signed_contract x = s" "cl_contract_id x = t"
    using closed_contract_id [OF assms(5)] assms(1) by (auto simp: get_id_def)
  then show ?thesis
    using contract_step.closed [where S = S, OF assms(2,3)] assms(4-6) by (auto simp: get_id_def)
qed

lemma closed_plain: "closed_contract_of m s atts tx = Ok c \<Longrightarrow> plain c \<and> held_contract c = Some s"
  using closed_contract_id by fastforce

lemma preclose_step:
  assumes "api_id (Confirmed s) = Ok t" "S t = Some (Confirmed s)" "api_id (preclosed_of s atts tx) = Ok i"
  shows "i = t \<and> contract_step m purge own reports S (S(t \<mapsto> preclosed_of s atts tx))"
  using assms contract_step.preclosed [where m = m and S = S and t = t and i = t
      and p = "\<lparr>pc_signed_contract = s, pc_attestations = atts, pc_signed_cet = tx\<rparr>"]
  by (simp add: preclosed_of_def get_id_def)

lemma confirmed_timesI:
  "transaction_confirmations m n (txid_of m tx) = Ok status \<Longrightarrow> 0 < k \<Longrightarrow> k \<le> confirmations status \<Longrightarrow> confirmed_times m tx k"
  by (force simp: confirmed_times_def confirmations_def split: confirmation_status.splits)

lemma check_pending_only:
  assumes "keyed (mg_api m) S" "S t = Some (Confirmed s)"
  shows "valid abs_store (only m purge own reports t S) ((=) S) (check_pending_closes m s txs) (\<lambda>_ S'. only m purge own reports t S S' \<and> holds t s S')"
proof (induction txs)
  case Nil
  then show ?case using assms by (auto intro!: valid_lift simp: holds_def)
next
  case (Cons tx txs)
  have id: "api_id (Confirmed s) = Ok t" using keyedD [OF assms] .
  show ?case
    unfolding check_pending_closes.simps
  proof (intro vcg valid_if)
    fix n status c
    assume "transaction_confirmations m n (txid_of m tx) = Ok status" "max (NB_CONFIRMATIONS m) 1 \<le> confirmations status"
      and cl: "closed_contract_of m s None tx = Ok c"
    then have "confirmed_times m tx (max 1 (NB_CONFIRMATIONS m))" by (intro confirmed_timesI) auto
    then show "valid abs_store (only m purge own reports t S) ((=) S) (update_contract m c) (\<lambda>_ S'. only m purge own reports t S S' \<and> holds t s S')"
      using closable_step [where S = S, OF id assms(2) disjI1 [OF refl] _ cl] closed_plain [OF cl]
      by (intro valid_update_only) (auto simp: holds_def)
  next
    show "valid abs_store (only m purge own reports t S) ((=) S) (update_contract m (preclosed_of s None tx))
        (\<lambda>_ S'. only m purge own reports t S S' \<and> holds t s S')"
      using preclose_step [where S = S, OF id assms(2)] by (intro valid_update_only) (auto simp: holds_def preclosed_of_def)
  qed (use Cons.IH in auto)
qed

lemma refund_step:
  assumes "api_id (Confirmed s) = Ok t" "holds t s S" "refund_time m s" "api_id (Refunded s) = Ok i"
  shows "i = t \<and> contract_step m purge own reports S (S(t \<mapsto> Refunded s))"
proof -
  obtain c where "S t = Some c" "held_contract c = Some s" using assms(2) by (auto simp: holds_def)
  moreover have "i = t" using assms(1,4) by (simp add: get_id_def)
  ultimately show ?thesis using contract_step.refunded [where S = S and t = t] assms(3,4) by blast
qed

lemma broadcast_refund_only:
  assumes "\<And>S'. P S' \<Longrightarrow> only m purge own reports t S S' \<and> keyed (mg_api m) S'"
  shows "valid abs_store (only m purge own reports t S) P (check_and_broadcast_refund m t)
    (\<lambda>c S'. only m purge own reports t S S' \<and> S' t = Some c)"
  unfolding check_and_broadcast_refund_def Let_def
proof (intro vcg valid_if)
  fix c s n
  assume c: "as_confirmed c = Some s"
    and "\<not> \<not> tx_lock_time (dlc_refund (ac_dlc_transactions (sc_accepted_contract s))) \<le> unix_time_now m n"
  let ?P = "\<lambda>S'. P S' \<and> S' t = Some c"
  have r: "refund_time m s" using \<open>\<not> \<not> _\<close> by (auto simp: refund_time_def)
  have "valid abs_store (only m purge own reports t S) ?P
      (if b then sign_and_send_refund m s else lift_res (Ok ())) (\<lambda>_. ?P)" for b
    using assms unfolding sign_and_send_refund_def by (intro valid_keep) (auto intro!: queries)
  moreover have "valid abs_store (only m purge own reports t S) ?P (update_contract m (Refunded s)) (\<lambda>_ S'. only m purge own reports t S S' \<and> S' t = Some (Refunded s))"
  proof (rule valid_update_only)
    fix S' i assume "?P S'" "api_id (Refunded s) = Ok i"
    then show "i = t \<and> contract_step m purge own reports S' (S'(t \<mapsto> Refunded s))"
      using refund_step [of s t S' i] keyedD [of "mg_api m" S' t c] assms c r by (auto simp: holds_def)
  qed (use assms in auto)
  ultimately show "valid abs_store (only m purge own reports t S) ?P
     (and_do (if confirmations x = 0 then sign_and_send_refund m s else lift_res (Ok ()))
       (\<lambda>_. and_do (update_contract m (Refunded s)) (\<lambda>_. lift_res (Ok (Refunded s)))))
     (\<lambda>c S'. only m purge own reports t S S' \<and> S' t = Some c)" for x
    by (intro valid_and_do [where Q = "\<lambda>_. ?P"] valid_and_do [where Q = "\<lambda>_ S'. only m purge own reports t S S' \<and> S' t = Some (Refunded s)"] valid_lift) auto
qed (use assms in \<open>auto intro: valid_lift\<close>)

lemma check_refund_only:
  assumes "keyed (mg_api m) S" "api_id (Confirmed s) = Ok t" "\<And>S'. P S' \<Longrightarrow> only m purge own reports t S S' \<and> holds t s S'"
  shows "valid abs_store (only m purge own reports t S) P (check_refund m s) (\<lambda>_. only m purge own reports t S)"
  unfolding check_refund_def Let_def
proof (intro vcg valid_if)
  fix n assume "\<not> \<not> tx_lock_time (dlc_refund (ac_dlc_transactions (sc_accepted_contract s))) \<le> unix_time_now m n"
  then have r: "refund_time m s" by (auto simp: refund_time_def)
  show "valid abs_store (only m purge own reports t S) P (update_contract m (Refunded s)) (\<lambda>_. only m purge own reports t S)"
    using refund_step [OF assms(2) _ r] assms(3) by (intro valid_update_only) auto
next
  fix i assume "get_contract_id (mg_api m) (sc_accepted_contract s) = (Ok i :: (_, manager_error) res)"
  then have i: "i = t" using assms(2) by (simp add: get_id_def)
  have "valid abs_store (only m purge own reports t S) P (check_and_broadcast_refund m t) (\<lambda>c S'. only m purge own reports t S S' \<and> S' t = Some c)"
    by (rule broadcast_refund_only) (use assms(1,3) only_keyed in blast)
  then show "valid abs_store (only m purge own reports t S) P (and_do (check_and_broadcast_refund m i) (\<lambda>_. lift_res (Ok ())))
      (\<lambda>_. only m purge own reports t S)"
    unfolding i by (rule valid_and_do) (auto intro: valid_lift)
qed (use assms(3) in \<open>auto intro: valid_lift\<close>)

text \<open>Closing by attestations and storing the result.\<close>

definition closing :: "bytes \<Rightarrow> (bytes \<rightharpoonup> contract) \<Rightarrow> contract \<Rightarrow> bool" where
  "closing t S c \<longleftrightarrow> plain c \<and> (\<forall>i. api_id c = Ok i \<longrightarrow> i = t \<and> contract_step m purge own reports S (S(t \<mapsto> c)))"

lemma close_contract_only:
  assumes "keyed (mg_api m) S" "S t = Some (Confirmed s)"
  shows "valid abs_store (only m purge own reports t S) ((=) S) (close_contract m s cet atts) (\<lambda>c S'. S = S' \<and> closing t S c)"
  unfolding close_contract_def
proof (intro vcg valid_if)
  have id: "api_id (Confirmed s) = Ok t" using keyedD [OF assms] .
  fix n status
  assume "transaction_confirmations m n (txid_of m cet) = Ok status" "\<not> confirmations status < 1"
    "\<not> confirmations status < NB_CONFIRMATIONS m"
  then have "confirmed_times m cet (max 1 (NB_CONFIRMATIONS m))" by (intro confirmed_timesI) auto
  then show "valid abs_store (only m purge own reports t S) ((=) S) (lift_res (closed_contract_of m s (Some atts) cet)) (\<lambda>c S'. S = S' \<and> closing t S c)"
    using closable_step [where S = S, OF id assms(2) disjI1 [OF refl]] closed_plain by (intro valid_lift) (auto simp: closing_def)
qed (use preclose_step [where S = S, OF keyedD [OF assms] assms(2)] in \<open>auto intro!: valid_lift simp: closing_def\<close>)

lemma update_closing:
  "valid abs_store (only m purge own reports t S) (\<lambda>S'. S = S' \<and> closing t S c) (update_contract m c) (\<lambda>_. only m purge own reports t S)"
proof (cases "closing t S c")
  case True
  then have "valid abs_store (only m purge own reports t S) ((=) S) (update_contract m c) (\<lambda>_. only m purge own reports t S)"
    by (intro valid_update_only) (auto simp: closing_def)
  then show ?thesis by (rule valid_weaken) auto
qed (simp add: valid_def)

lemmas close_and_update = valid_and_do [OF close_contract_only update_closing]

lemma check_confirmed_only:
  assumes "keyed (mg_api m) S" "S t = Some (Confirmed s)"
  shows "valid abs_store (only m purge own reports t S) ((=) S) (check_confirmed_contract m s) (\<lambda>_. only m purge own reports t S)"
proof -
  let ?otherwise = "and_do (check_pending_closes m s (pending_close_txs (ac_dlc_transactions (sc_accepted_contract s)))) (\<lambda>_. check_refund m s)"
  have r: "valid abs_store (only m purge own reports t S) (\<lambda>S'. only m purge own reports t S S' \<and> holds t s S') (check_refund m s) (\<lambda>_. only m purge own reports t S)"
    by (rule check_refund_only [OF assms(1) keyedD [OF assms]]) simp
  have other: "valid abs_store (only m purge own reports t S) ((=) S) ?otherwise (\<lambda>_. only m purge own reports t S)"
    by (rule valid_and_do [OF check_pending_only [OF assms]]) (rule r)
  show ?thesis
    unfolding check_confirmed_contract_def Let_def
  proof (rule valid_bind_query [OF query_closable], simp add: eq_commute)
    fix \<sigma> x assume "fst (get_closable_contract_info m (zip (oc_contract_info (sc_offered_contract s))
      (ac_adaptor_infos (sc_accepted_contract s))) \<sigma>) = Ok x"
    show "valid abs_store (only m purge own reports t S) ((=) S)
        (case x of None \<Rightarrow> ?otherwise
         | Some (contract_info, adaptor_info, attestations) \<Rightarrow>
             and_do (lift_res (derive_contract_signer (mg_api m) (oc_keys_id (sc_offered_contract s)))) (\<lambda>signer.
             on_result (lift_res (get_signed_cet (mg_api m) (mg_orders m) s contract_info adaptor_info attestations signer))
               (\<lambda>cet. and_do (close_contract m s cet (map snd attestations)) (update_contract m)) (\<lambda>_. ?otherwise)))
        (\<lambda>_. only m purge own reports t S)"
    proof (cases x)
      case (Some y)
      obtain ci ai atts where "y = (ci, ai, atts)" using prod_cases3 by blast
      with Some show ?thesis
        by (auto intro!: vcg valid_on_query [OF query_lift, where Q = "\<lambda>_. (=) S"] other close_and_update [OF assms])
    qed (simp add: other)
  qed
qed

lemma check_preclosed_only:
  assumes "keyed (mg_api m) S" "S t = Some (PreClosed p)"
  shows "valid abs_store (only m purge own reports t S) ((=) S) (check_preclosed_contract m p) (\<lambda>_. only m purge own reports t S)"
proof -
  have id: "api_id (PreClosed p) = Ok t" using keyedD [OF assms] .
  then have id': "api_id (Confirmed (pc_signed_contract p)) = Ok t" by (simp add: get_id_def)
  have reopen: "valid abs_store (only m purge own reports t S) ((=) S) (update_contract m (Confirmed (pc_signed_contract p))) (\<lambda>_. only m purge own reports t S)"
    if "pc_attestations p = None"
  proof -
    have "i = t \<and> contract_step m purge own reports S (S(t \<mapsto> Confirmed (pc_signed_contract p)))"
      if "api_id (Confirmed (pc_signed_contract p)) = Ok i" for i
      using that \<open>pc_attestations p = None\<close> id' contract_step.reopened [where S = S, OF assms(2) _ id] by simp
    then show ?thesis by (intro valid_update_only) auto
  qed
  have close: "valid abs_store (only m purge own reports t S) ((=) S) (update_contract m c) (\<lambda>_. only m purge own reports t S)"
    if "transaction_confirmations m n (txid_of m (pc_signed_cet p)) = Ok status" "max (NB_CONFIRMATIONS m) 1 \<le> confirmations status"
      and cl: "closed_contract_of m (pc_signed_contract p) (pc_attestations p) (pc_signed_cet p) = Ok c" for n status c
  proof -
    have "confirmed_times m (pc_signed_cet p) (max 1 (NB_CONFIRMATIONS m))" using that(1,2) by (intro confirmed_timesI) auto
    then show ?thesis
      using closable_step [where S = S, OF id' assms(2) disjI2 [OF conjI [OF refl refl]] _ cl] closed_plain [OF cl]
      by (intro valid_update_only) auto
  qed
  show ?thesis
    unfolding check_preclosed_contract_def
    by (intro vcg valid_if valid_on_query [OF query_send, where Q = "\<lambda>_. (=) S"] reopen close) (auto intro!: valid_lift)
qed

section \<open>The periodic check\<close>

lemma valid_for_each:
  "(\<And>x. valid f E I (g x) (\<lambda>_. I)) \<Longrightarrow> (\<And>S. I S \<Longrightarrow> E S) \<Longrightarrow> valid f E I (for_each g xs) (\<lambda>_. I)"
  by (induction xs) (auto intro: valid_lift valid_and_do)

lemma valid_read:
  assumes "\<And>S. P S \<Longrightarrow> E S" "\<And>st x. P (abs_store st) \<Longrightarrow> h st = Ok x \<Longrightarrow> valid abs_store E ((=) (abs_store st)) (g x) R"
  shows "valid abs_store E P (and_do (read_store h) g) R"
  unfolding valid_def
proof (intro allI impI)
  fix \<sigma> :: "'s manager_state" assume "P (abs_store (ms_store \<sigma>))"
  then show "case and_do (read_store h) g \<sigma> of (r, \<sigma>') \<Rightarrow> E (abs_store (ms_store \<sigma>')) \<and> (\<forall>x. r = Ok x \<longrightarrow> R x (abs_store (ms_store \<sigma>')))"
    using assms(1) assms(2) [of "ms_store \<sigma>"]
    by (cases "h (ms_store \<sigma>)") (simp_all add: and_do_def read_store_def valid_def)
qed

definition listed :: "('a \<Rightarrow> contract) \<Rightarrow> bytes list \<Rightarrow> 'a list \<Rightarrow> (bytes \<rightharpoonup> contract) \<Rightarrow> bool" where
  "listed K ts xs S \<longleftrightarrow> distinct ts \<and> list_all2 (\<lambda>t x. S t = Some (K x)) ts xs"

lemma lists_state_listed:
  assumes "lists_state sel S xs" "\<And>c x. sel c = Some x \<Longrightarrow> c = K x"
  shows "\<exists>ts. listed K ts xs S"
proof -
  obtain kvs where e: "distinct (map fst kvs)" "\<forall>(i, c)\<in>set kvs. S i = Some c" "xs = List.map_filter sel (map snd kvs)"
    using assms(1) by (auto simp: lists_state_def enumerates_def)
  let ?ts = "map fst (filter (\<lambda>e. sel (snd e) \<noteq> None) kvs)"
  have "distinct ?ts" using e(1) by (rule distinct_map_filter)
  moreover have "list_all2 (\<lambda>t x. S t = Some (K x)) ?ts (List.map_filter sel (map snd kvs))"
    using e(2) by (induction kvs) (auto simp: List.map_filter_simps dest: assms(2) split: option.splits)
  ultimately show ?thesis using e(3) by (auto simp: listed_def)
qed

lemma steps_trans: "steps S S' \<Longrightarrow> steps S' S'' \<Longrightarrow> steps S S''"
  by (rule rtranclp_trans)

lemma only_steps: "only m purge own reports t S S' \<Longrightarrow> steps S S'"
  by (simp add: only_def)

lemma valid_for_each_listed:
  assumes act: "\<And>S t x. keyed (mg_api m) S \<Longrightarrow> S t = Some (K x) \<Longrightarrow>
      valid abs_store (only m purge own reports t S) ((=) S) (g x) (\<lambda>_. only m purge own reports t S)"
    and key: "keyed (mg_api m) S0"
  shows "valid abs_store (steps S0) (\<lambda>S. steps S0 S \<and> listed K ts xs S) (for_each g xs) (\<lambda>_. steps S0)"
proof (induction xs arbitrary: ts)
  case (Cons x xs)
  show ?case
  proof (rule valid_at)
    fix S assume S: "steps S0 S \<and> listed K ts (x # xs) S"
    then obtain t ts' where t: "ts = t # ts'" "S t = Some (K x)" "listed K ts' xs S" "t \<notin> set ts'"
      by (auto simp: listed_def list_all2_Cons2)
    have "valid abs_store (only m purge own reports t S) ((=) S) (g x) (\<lambda>_. only m purge own reports t S)"
      using act [where S = S, OF _ t(2)] contract_steps_keyed [OF _ key] S by blast
    then have "valid abs_store (steps S0) ((=) S) (g x) (\<lambda>_ S'. steps S0 S' \<and> listed K ts' xs S')"
    proof (rule valid_weaken)
      fix S' assume o: "only m purge own reports t S S'"
      then show "steps S0 S'" using S only_steps steps_trans by blast
      moreover have "listed K ts' xs S'"
        using t(3,4) o by (auto simp: listed_def only_def list_all2_conv_all_nth) (metis nth_mem)
      ultimately show "steps S0 S' \<and> listed K ts' xs S'" by blast
    qed simp
    then show "valid abs_store (steps S0) ((=) S) (for_each g (x # xs)) (\<lambda>_. steps S0)"
      using Cons.IH by (auto intro: valid_and_do)
  qed
qed (auto intro!: valid_lift)

lemma preclose_splice:
  assumes "keyed (mg_api m) S" "S t = Some (Confirmed previous)"
  shows "valid abs_store (only m purge own reports t S) ((=) S) (update_contract m (preclosed_by_splice previous s)) (\<lambda>_. only m purge own reports t S)"
proof -
  have "preclosed_by_splice previous s = preclosed_of previous None (dlc_fund (ac_dlc_transactions (sc_accepted_contract s)))"
    by (simp add: preclosed_by_splice_def preclosed_of_def)
  then show ?thesis
    using preclose_step [where S = S, OF keyedD [OF assms] assms(2)] by (intro valid_update_only) auto
qed

definition keeps_signed :: "(bytes \<rightharpoonup> contract) \<Rightarrow> (bytes \<rightharpoonup> contract) \<Rightarrow> bool" where
  "keeps_signed S0 S \<longleftrightarrow> steps S0 S \<and> (\<forall>j x. S0 j = Some (Signed x) \<longrightarrow> S j = Some (Signed x))"

lemma check_splice_keeps:
  assumes "keyed (mg_api m) S0"
  shows "valid abs_store (keeps_signed S0) (keeps_signed S0) (check_splice m s) (\<lambda>_. keeps_signed S0)"
proof -
  have up: "valid abs_store (keeps_signed S0) (\<lambda>S. keeps_signed S0 S \<and> S t = Some (Confirmed previous))
      (update_contract m (preclosed_by_splice previous s)) (\<lambda>_. keeps_signed S0)" for t previous
  proof (rule valid_at)
    fix S assume S: "keeps_signed S0 S \<and> S t = Some (Confirmed previous)"
    then have "keyed (mg_api m) S" using contract_steps_keyed [OF _ assms] by (auto simp: keeps_signed_def)
    then have "valid abs_store (only m purge own reports t S) ((=) S) (update_contract m (preclosed_by_splice previous s)) (\<lambda>_. only m purge own reports t S)"
      using preclose_splice S by blast
    moreover have "keeps_signed S0 S'" if "only m purge own reports t S S'" for S'
    proof -
      have "steps S0 S'" using S steps_trans [OF _ only_steps [OF that]] by (simp add: keeps_signed_def)
      moreover have "S' j = Some (Signed x)" if "S0 j = Some (Signed x)" for j x
      proof -
        have "S j = Some (Signed x)" using S that by (simp add: keeps_signed_def)
        moreover from this have "j \<noteq> t" using S by auto
        ultimately show ?thesis using \<open>only m purge own reports t S S'\<close> by (simp add: only_def)
      qed
      ultimately show ?thesis by (simp add: keeps_signed_def)
    qed
    ultimately show "valid abs_store (keeps_signed S0) ((=) S) (update_contract m (preclosed_by_splice previous s)) (\<lambda>_. keeps_signed S0)"
      by (auto elim: valid_weaken)
  qed
  show ?thesis
  proof (cases "spliced_input (sc_offered_contract s)")
    case (Some d)
    show ?thesis
      unfolding check_splice_def Some option.case
      by (rule valid_on_query [OF query_in_state, where Q = "\<lambda>previous S. keeps_signed S0 S \<and> S (dlc_contract_id d) = Some (Confirmed previous)"])
        (auto dest!: in_state_found intro!: vcg valid_if valid_lift up)
  qed (auto simp: check_splice_def intro!: valid_lift)
qed

text \<open>Actions that take steps of the machine, from any storage that keeps its contracts under their identifiers.\<close>

definition implements :: "('a, 's) action \<Rightarrow> bool" where
  "implements act \<longleftrightarrow> (\<forall>S. keyed (mg_api m) S \<longrightarrow> valid abs_store (steps S) ((=) S) act (\<lambda>_. steps S))"

lemma implementsD: "implements act \<Longrightarrow> keyed (mg_api m) S0 \<Longrightarrow> valid abs_store (steps S0) (steps S0) act (\<lambda>_. steps S0)"
  by (rule valid_at) (auto simp: implements_def intro: steps_trans elim!: valid_weaken dest: contract_steps_keyed)

lemma implements_and_do: "implements act \<Longrightarrow> (\<And>x. implements (g x)) \<Longrightarrow> implements (and_do act g)"
  unfolding implements_def
  by (intro allI impI valid_and_do) (auto intro!: implementsD simp: implements_def)

lemma check_signed_loop:
  assumes "keyed (mg_api m) S0"
  shows "valid abs_store (steps S0) (\<lambda>S. steps S0 S \<and> listed Signed ts ss S) (check_signed_contracts m ss) (\<lambda>_. steps S0)"
  unfolding check_signed_contracts_def
  by (rule valid_for_each_listed [OF _ assms]) (rule valid_logged, rule check_signed_only)

lemma check_for_spliced:
  assumes "keyed (mg_api m) S0"
  shows "valid abs_store (steps S0) ((=) S0) (check_for_spliced_contract m) (\<lambda>ss S. steps S0 S \<and> (\<exists>ts. listed Signed ts ss S))"
  unfolding check_for_spliced_contract_def
proof (rule valid_read)
  fix st ss assume st: "S0 = abs_store st" "st_signed (mg_store m) st = Ok ss"
  then obtain ts where ts: "listed Signed ts ss S0" using lists_state_listed [OF signed_law [OF st(2)], of Signed] by auto
  have kept: "listed Signed ts ss S" if "keeps_signed S0 S" for S
    using ts that by (auto simp: listed_def keeps_signed_def list_all2_conv_all_nth)
  have "valid abs_store (keeps_signed S0) (keeps_signed S0) (for_each (check_splice m) ss) (\<lambda>_. keeps_signed S0)"
    by (rule valid_for_each) (rule check_splice_keeps [OF assms])
  then have "valid abs_store (steps S0) ((=) S0) (for_each (check_splice m) ss) (\<lambda>_ S. steps S0 S \<and> (\<exists>ts. listed Signed ts ss S))"
    by (rule valid_weaken) (use kept in \<open>auto simp: keeps_signed_def\<close>)
  then show "valid abs_store (steps S0) ((=) (abs_store st)) (and_do (for_each (check_splice m) ss) (\<lambda>_. lift_res (Ok ss)))
      (\<lambda>ss S. steps S0 S \<and> (\<exists>ts. listed Signed ts ss S))"
    unfolding st(1) [symmetric] by (rule valid_and_do) (auto intro!: valid_lift)
qed simp

lemma implements_confirmed: "implements (check_confirmed_contracts m)"
  unfolding implements_def check_confirmed_contracts_def
proof (intro allI impI, rule valid_read)
  fix S st ss assume key: "keyed (mg_api m) S" and st: "S = abs_store st" "st_confirmed (mg_store m) st = Ok ss"
  obtain ts where ts: "listed Confirmed ts ss S" using lists_state_listed [OF confirmed_law [OF st(2)], of Confirmed] st(1) by auto
  have "valid abs_store (steps S) (\<lambda>S'. steps S S' \<and> listed Confirmed ts ss S')
     (for_each (\<lambda>s. if sc_channel_id s \<noteq> None then lift_res (Ok ()) else logged (check_confirmed_contract m s)) ss) (\<lambda>_. steps S)"
    by (rule valid_for_each_listed [OF _ key]) (rule valid_if, auto intro!: valid_lift intro: valid_logged check_confirmed_only)
  then show "valid abs_store (steps S) ((=) (abs_store st))
     (for_each (\<lambda>s. if sc_channel_id s \<noteq> None then lift_res (Ok ()) else logged (check_confirmed_contract m s)) ss) (\<lambda>_. steps S)"
    by (rule valid_weaken) (use ts st in auto)
qed simp

lemma implements_preclosed: "implements (check_preclosed_contracts m)"
  unfolding implements_def check_preclosed_contracts_def
proof (intro allI impI, rule valid_read)
  fix S st ps assume key: "keyed (mg_api m) S" and st: "S = abs_store st" "st_preclosed (mg_store m) st = Ok ps"
  obtain ts where ts: "listed PreClosed ts ps S" using lists_state_listed [OF preclosed_law [OF st(2)], of PreClosed] st(1) by auto
  have "valid abs_store (steps S) (\<lambda>S'. steps S S' \<and> listed PreClosed ts ps S')
     (for_each (\<lambda>p. logged (check_preclosed_contract m p)) ps) (\<lambda>_. steps S)"
    by (rule valid_for_each_listed [OF _ key]) (rule valid_logged, rule check_preclosed_only)
  then show "valid abs_store (steps S) ((=) (abs_store st)) (for_each (\<lambda>p. logged (check_preclosed_contract m p)) ps) (\<lambda>_. steps S)"
    by (rule valid_weaken) (use ts st in auto)
qed simp

lemma implements_check: "implements (check_contracts m)"
  unfolding check_contracts_def implements_def
proof (intro allI impI)
  fix S assume key: "keyed (mg_api m) S"
  have signed: "valid abs_store (steps S) (\<lambda>S'. steps S S' \<and> (\<exists>ts. listed Signed ts ss S')) (check_signed_contracts m ss) (\<lambda>_. steps S)" for ss
    by (rule valid_at, elim conjE exE) (rule valid_weaken [OF check_signed_loop [OF key]], auto)
  show "valid abs_store (steps S) ((=) S) (and_do (check_for_spliced_contract m) (\<lambda>ss.
      and_do (check_signed_contracts m ss) (\<lambda>_. and_do (check_confirmed_contracts m) (\<lambda>_. check_preclosed_contracts m)))) (\<lambda>_. steps S)"
    by (intro valid_and_do [OF check_for_spliced [OF key]] valid_and_do [OF signed] valid_and_do [OF implementsD [OF implements_confirmed key]]
        implementsD [OF implements_preclosed key])
qed

section \<open>The calls of the application and the messages of the peer\<close>

lemma valid_step:
  assumes "steps S S'" "\<And>i. api_id c = Ok i \<Longrightarrow> contract_step m purge own reports S' (stored purge i c S')"
  shows "valid abs_store (steps S) ((=) S') (update_contract m c) (\<lambda>_. steps S)"
  using assms by (intro valid_update) (auto intro: rtranclp.rtrancl_into_rtrancl)

lemma valid_create:
  assumes "contract_step m purge own reports S (S(oc_id oc \<mapsto> Offered oc))"
  shows "valid abs_store (steps S) ((=) S) (write_store (st_create_contract (mg_store m) oc)) (\<lambda>_. steps S)"
  unfolding valid_def
proof (intro allI impI)
  fix \<sigma> :: "'s manager_state" assume s: "S = abs_store (ms_store \<sigma>)"
  obtain r st where c: "st_create_contract (mg_store m) oc (ms_store \<sigma>) = (r, st)" by fastforce
  show "case write_store (st_create_contract (mg_store m) oc) \<sigma> of
      (r, \<sigma>') \<Rightarrow> steps S (abs_store (ms_store \<sigma>')) \<and> (\<forall>x. r = Ok x \<longrightarrow> steps S (abs_store (ms_store \<sigma>')))"
    using create_law [OF c] assms c s by (auto simp: write_store_def split: if_splits)
qed

lemma valid_done: "valid f E E (lift_res r) (\<lambda>_. E)"
  by (auto intro: valid_lift)

lemma valid_then_done: "valid f E P act (\<lambda>_. E) \<Longrightarrow> valid f E P (and_do act (\<lambda>x. lift_res (g x))) (\<lambda>_. E)"
  by (rule valid_and_do [where Q = "\<lambda>_. E"]) (simp_all add: valid_done)

lemma store_offer_steps:
  "valid abs_store (steps S) ((=) S) (store_offer m inp peer anns ds) (\<lambda>_. steps S)"
  unfolding store_offer_def
proof (rule valid_request)
  fix n x
  assume o: "offer_contract (mg_api m) (party m n) (unix_time_now m n) inp anns ds REFUND_DELAY peer = Ok x"
  obtain oc msg where x: "x = (oc, msg)" by fastforce
  have "contract_step m purge own reports S (S(oc_id oc \<mapsto> Offered oc))" for S
    using contract_step.offered o x by blast
  then show "valid abs_store (steps S) ((=) S)
     (case x of (offered, offer_msg) \<Rightarrow> and_do (lift_res (offered_validate offered)) (\<lambda>_.
        and_do (write_store (st_create_contract (mg_store m) offered)) (\<lambda>_. lift_res (Ok offer_msg)))) (\<lambda>_. steps S)"
    unfolding x by (simp, intro vcg valid_and_do [OF valid_create] valid_done) auto
qed simp

lemma send_offer_steps: "valid abs_store (steps S) ((=) S) (send_offer m inp peer) (\<lambda>_. steps S)"
  unfolding send_offer_def send_offer_with_announcements_def
  by (rule valid_bind_query [OF query_oracle_announcements]) (auto intro: store_offer_steps)

lemma send_splice_with_steps:
  "valid abs_store (steps S) ((=) S) (send_splice_offer_with_announcements m inp peer i anns) (\<lambda>_. steps S)"
  unfolding send_splice_offer_with_announcements_def
  by (intro vcg) (auto intro: valid_weaken [OF store_offer_steps])

lemma send_splice_steps: "valid abs_store (steps S) ((=) S) (send_splice_offer m inp peer i) (\<lambda>_. steps S)"
  unfolding send_splice_offer_def
  by (rule valid_bind_query [OF query_oracle_announcements]) (auto intro: send_splice_with_steps)

lemma on_offer_steps: "valid abs_store (steps S) ((=) S) (on_offer_message m msg peer) (\<lambda>_. steps S)"
  unfolding on_offer_message_def Let_def
proof (intro vcg)
  fix oc
  assume r: "map_err Conversion (try_from_offer_dlc (mg_api m) msg peer
      (derive_signer_key_id (mg_api m) False (om_temporary_contract_id msg))) = Ok oc"
  show "valid abs_store (steps S) ((=) S) (and_do (read_store (st_get_contract (mg_store m) (oc_id oc)))
     (\<lambda>known. and_do (lift_res (ensure (known = None) InvalidParameters)) (\<lambda>_. write_store (st_create_contract (mg_store m) oc)))) (\<lambda>_. steps S)"
  proof (rule valid_read)
    fix st known assume st: "S = abs_store st" "st_get_contract (mg_store m) (oc_id oc) st = Ok known"
    show "valid abs_store (steps S) ((=) (abs_store st)) (and_do (lift_res (ensure (known = None) InvalidParameters))
        (\<lambda>_. write_store (st_create_contract (mg_store m) oc))) (\<lambda>_. steps S)"
    proof (rule valid_lift_bind)
      fix x assume "ensure (known = None) InvalidParameters = (Ok x :: (_, manager_error) res)"
      then have "S (oc_id oc) = None" using get_found [OF st(2)] st(1) by (auto simp: ensure_def split: if_splits)
      then have "contract_step m purge own reports S (S(oc_id oc \<mapsto> Offered oc))"
        using r contract_step.received by simp
      then show "valid abs_store (steps S) ((=) (abs_store st)) (write_store (st_create_contract (mg_store m) oc)) (\<lambda>_. steps S)"
        unfolding st(1) by (rule valid_create)
    qed (simp add: st(1))
  qed simp
qed simp_all

lemma accept_offer_steps:
  assumes "own \<longrightarrow> (\<forall>oc. S i = Some (Offered oc) \<longrightarrow> \<not> oc_is_offer_party oc)"
  shows "valid abs_store (steps S) ((=) S) (accept_contract_offer m i) (\<lambda>_. steps S)"
  unfolding accept_contract_offer_def
proof (intro vcg)
  fix c oc n x
  assume c: "as_offered c = Some oc" and a: "accept_contract (mg_api m) (party m n) oc = Ok x"
  obtain acc msg where x: "x = (acc, msg)" by fastforce
  have "valid abs_store (steps S) (\<lambda>S'. S = S' \<and> S' i = Some c) (update_contract m (Accepted acc)) (\<lambda>_. steps S)"
  proof (rule valid_at)
    fix S' assume s: "S = S' \<and> S' i = Some c"
    show "valid abs_store (steps S) ((=) S') (update_contract m (Accepted acc)) (\<lambda>_. steps S)"
    proof (rule valid_step)
      fix j assume j: "api_id (Accepted acc) = Ok j"
      have "S' i = Some (Offered oc)" using s c by simp
      from contract_step.accepted [where S = S', OF this _ a [unfolded x] j] assms this s
      show "contract_step m purge own reports S' (stored purge j (Accepted acc) S')" by simp
    qed (use s in simp)
  qed
  then show "valid abs_store (steps S) (\<lambda>S'. S = S' \<and> S' i = Some c)
     (case x of (accepted, accept_msg) \<Rightarrow>
        and_do (request (\<lambda>n. import_address m n (funding_witness_script (ac_dlc_transactions accepted)))) (\<lambda>_.
        and_do (lift_res (get_contract_id (mg_api m) accepted)) (\<lambda>contract_id.
        and_do (update_contract m (Accepted accepted)) (\<lambda>_. lift_res (Ok (contract_id, oc_counter_party oc, accept_msg)))))) (\<lambda>_. steps S)"
    unfolding x by (simp, intro vcg valid_and_do [where Q = "\<lambda>_. steps S"] valid_done) auto
qed auto

lemma on_accept_steps:
  assumes "own \<longrightarrow> (\<forall>oc. S (am_temporary_contract_id msg) = Some (Offered oc) \<longrightarrow> oc_is_offer_party oc)"
  shows "valid abs_store (steps S) ((=) S) (on_accept_message m msg peer) (\<lambda>_. steps S)"
  unfolding on_accept_message_def
proof (intro vcg)
  let ?i = "am_temporary_contract_id msg"
  fix c oc
  assume c: "as_offered c = Some oc"
  let ?P = "\<lambda>S'. S = S' \<and> S' ?i = Some c"
  let ?Q = "\<lambda>x S'. ?P S' \<and> (\<exists>wallet lookup. verify_accepted_and_sign_contract (mg_api m) wallet lookup oc msg = Ok x)"
  have up: "valid abs_store (steps S) (?Q (s, sm)) (update_contract m (Signed s)) (\<lambda>_. steps S)" for s sm
  proof (rule valid_at)
    fix S' assume s: "?Q (s, sm) S'"
    show "valid abs_store (steps S) ((=) S') (update_contract m (Signed s)) (\<lambda>_. steps S)"
    proof (rule valid_step)
      fix j assume j: "api_id (Signed s) = Ok j"
      have o: "S' ?i = Some (Offered oc)" using s c by simp
      obtain wallet lookup where v: "verify_accepted_and_sign_contract (mg_api m) wallet lookup oc msg = Ok (s, sm)" using s by blast
      from contract_step.signed [where S = S', OF o _ v j] assms o s
      show "contract_step m purge own reports S' (stored purge j (Signed s) S')" by simp
    qed (use s in simp)
  qed
  show "valid abs_store (steps S) ?P
     (on_result (\<lambda>\<sigma>. request (\<lambda>n. verify_accepted_and_sign_contract (mg_api m) (sign_psbt_input m n) (lookup_of m \<sigma>) oc msg) \<sigma>)
       (\<lambda>(s, signed_msg).
          and_do (request (\<lambda>n. import_address m n (funding_witness_script (ac_dlc_transactions (sc_accepted_contract s))))) (\<lambda>_.
          and_do (update_contract m (Signed s)) (\<lambda>_. lift_res (Ok signed_msg))))
       (accept_fail_on_error m oc msg)) (\<lambda>_. steps S)"
  proof (rule valid_on_query [where Q = ?Q])
    show "query (\<lambda>\<sigma>. request (\<lambda>n. verify_accepted_and_sign_contract (mg_api m) (sign_psbt_input m n) (lookup_of m \<sigma>) oc msg) \<sigma>)"
      by (simp add: query_def request_def and_do_def ask_def lift_res_def)
    show "valid abs_store (steps S) (?Q x) (case x of (s, signed_msg) \<Rightarrow>
          and_do (request (\<lambda>n. import_address m n (funding_witness_script (ac_dlc_transactions (sc_accepted_contract s))))) (\<lambda>_.
          and_do (update_contract m (Signed s)) (\<lambda>_. lift_res (Ok signed_msg)))) (\<lambda>_. steps S)" for x
      by (cases x, simp only: prod.case, rule valid_request, (simp; fail), rule valid_then_done, rule up)
    show "valid abs_store (steps S) ?P (accept_fail_on_error m oc msg e) (\<lambda>_. steps S)" for e
      unfolding accept_fail_on_error_def
    proof (rule valid_then_done, rule valid_at)
      fix S' assume s: "?P S'"
      show "valid abs_store (steps S) ((=) S')
         (update_contract m (FailedAccept \<lparr>fa_offered_contract = oc, fa_accept_message = msg, fa_error_message = e\<rparr>)) (\<lambda>_. steps S)"
        using contract_step.failed_accept [where m = m and purge = purge and own = own and reports = reports and S = S' and t = ?i and f = "\<lparr>fa_offered_contract = oc, fa_accept_message = msg, fa_error_message = e\<rparr>"] s c
        by (intro valid_step) (auto simp: get_id_def)
    qed
  qed (auto simp: request_def and_do_def ask_def lift_res_def)
qed auto

lemma splice_steps:
  assumes "keyed (mg_api m) S"
  shows "valid abs_store (steps S) ((=) S)
    (and_do (get_contract_in_state m i as_confirmed peer) (\<lambda>previous. update_contract m (preclosed_by_splice previous s))) (\<lambda>_. steps S)"
proof (intro vcg)
  fix c previous assume c: "as_confirmed c = Some previous"
  show "valid abs_store (steps S) (\<lambda>S'. S = S' \<and> S' i = Some c) (update_contract m (preclosed_by_splice previous s)) (\<lambda>_. steps S)"
  proof (rule valid_at)
    fix S' assume s: "S = S' \<and> S' i = Some c"
    then have "valid abs_store (only m purge own reports i S) ((=) S) (update_contract m (preclosed_by_splice previous s)) (\<lambda>_. only m purge own reports i S)"
      using preclose_splice [OF assms] c by simp
    then show "valid abs_store (steps S) ((=) S') (update_contract m (preclosed_by_splice previous s)) (\<lambda>_. steps S)"
      by (rule valid_weaken) (use s only_steps in auto)
  qed
qed simp

lemma on_sign_steps:
  assumes key: "keyed (mg_api m) S"
  shows "valid abs_store (steps S) ((=) S) (on_sign_message m msg peer) (\<lambda>_. steps S)"
  unfolding on_sign_message_def
proof (intro vcg)
  let ?i = "sm_contract_id msg"
  fix c a
  assume c: "as_accepted c = Some a"
  let ?P = "\<lambda>S'. S = S' \<and> S' ?i = Some c"
  let ?Q = "\<lambda>x S'. ?P S' \<and> (\<exists>wallet lookup. verify_signed_contract (mg_api m) wallet lookup a msg = Ok x)"
  have up: "valid abs_store (steps S) (?Q (s, tx)) (update_contract m (Signed s)) (\<lambda>_. steps S)" for s tx
  proof (rule valid_at)
    fix S' assume s: "?Q (s, tx) S'"
    show "valid abs_store (steps S) ((=) S') (update_contract m (Signed s)) (\<lambda>_. steps S)"
    proof (rule valid_step)
      fix j assume j: "api_id (Signed s) = Ok j"
      have ac: "S' ?i = Some (Accepted a)" using s c by simp
      obtain wallet lookup where v: "verify_signed_contract (mg_api m) wallet lookup a msg = Ok (s, tx)" using s by blast
      show "contract_step m purge own reports S' (stored purge j (Signed s) S')"
        by (rule contract_step.countersigned [where S = S', OF ac v j])
    qed (use s in simp)
  qed
  have splice: "valid abs_store (steps S) (steps S) (case spliced_input (ac_offered_contract a) of None \<Rightarrow> lift_res (Ok ())
      | Some d \<Rightarrow> and_do (get_contract_in_state m (dlc_contract_id d) as_confirmed None) (\<lambda>previous.
                    update_contract m (preclosed_by_splice previous s))) (\<lambda>_. steps S)" for s
    by (auto intro!: valid_done implementsD [OF _ key] splice_steps simp: implements_def split: option.split)
  show "valid abs_store (steps S) ?P
     (on_result (\<lambda>\<sigma>. request (\<lambda>n. verify_signed_contract (mg_api m) (sign_psbt_input m n) (lookup_of m \<sigma>) a msg) \<sigma>)
       (\<lambda>(s, fund_tx).
          and_do (update_contract m (Signed s)) (\<lambda>_.
          and_do (send_transaction m fund_tx) (\<lambda>_.
            case spliced_input (ac_offered_contract a) of
              None \<Rightarrow> lift_res (Ok ())
            | Some d \<Rightarrow>
                and_do (get_contract_in_state m (dlc_contract_id d) as_confirmed None) (\<lambda>previous.
                  update_contract m (preclosed_by_splice previous s)))))
       (sign_fail_on_error m a msg)) (\<lambda>_. steps S)"
  proof (rule valid_on_query [where Q = ?Q])
    show "query (\<lambda>\<sigma>. request (\<lambda>n. verify_signed_contract (mg_api m) (sign_psbt_input m n) (lookup_of m \<sigma>) a msg) \<sigma>)"
      by (simp add: query_def request_def and_do_def ask_def lift_res_def)
    show "valid abs_store (steps S) (?Q x) (case x of (s, fund_tx) \<Rightarrow>
          and_do (update_contract m (Signed s)) (\<lambda>_.
          and_do (send_transaction m fund_tx) (\<lambda>_.
            case spliced_input (ac_offered_contract a) of
              None \<Rightarrow> lift_res (Ok ())
            | Some d \<Rightarrow>
                and_do (get_contract_in_state m (dlc_contract_id d) as_confirmed None) (\<lambda>previous.
                  update_contract m (preclosed_by_splice previous s))))) (\<lambda>_. steps S)" for x
      by (cases x, simp only: prod.case, rule valid_and_do, rule up, rule valid_send, (simp; fail), rule splice)
    show "valid abs_store (steps S) ?P (sign_fail_on_error m a msg e) (\<lambda>_. steps S)" for e
      unfolding sign_fail_on_error_def
    proof (rule valid_then_done, rule valid_at)
      fix S' assume s: "?P S'"
      show "valid abs_store (steps S) ((=) S')
         (update_contract m (FailedSign \<lparr>fs_accepted_contract = a, fs_sign_message = msg, fs_error_message = e\<rparr>)) (\<lambda>_. steps S)"
        using contract_step.failed_sign [where S = S' and t = ?i and f = "\<lparr>fs_accepted_contract = a, fs_sign_message = msg, fs_error_message = e\<rparr>"] s c
        by (intro valid_step) auto
    qed
  qed (auto simp: request_def and_do_def ask_def lift_res_def)
qed auto

lemma on_close_steps: "valid abs_store (steps S) ((=) S) (on_close_message m msg peer) (\<lambda>_. steps S)"
  unfolding on_close_message_def by (intro vcg valid_lift) auto

lemma on_dlc_message_steps:
  assumes "keyed (mg_api m) S"
    and "\<And>x oc. own \<Longrightarrow> msg = AcceptMessage x \<Longrightarrow> S (am_temporary_contract_id x) = Some (Offered oc) \<Longrightarrow> oc_is_offer_party oc"
  shows "valid abs_store (steps S) ((=) S) (on_dlc_message m msg peer) (\<lambda>_. steps S)"
  using on_offer_steps on_accept_steps on_sign_steps [OF assms(1)] on_close_steps assms(2)
  by (auto simp: on_dlc_message_def intro!: valid_then_done split: contract_message.split)

lemma on_confirmed:
  assumes "keyed (mg_api m) S" "\<And>s. S i = Some (Confirmed s) \<Longrightarrow> valid abs_store (only m purge own reports i S) ((=) S) (g s) (\<lambda>_. only m purge own reports i S)"
  shows "valid abs_store (steps S) ((=) S) (and_do (get_contract_in_state m i as_confirmed peer) g) (\<lambda>_. steps S)"
proof (rule valid_in_state)
  fix c s assume c: "as_confirmed c = Some s"
  show "valid abs_store (steps S) (\<lambda>S'. S = S' \<and> S' i = Some c) (g s) (\<lambda>_. steps S)"
  proof (rule valid_at)
    fix S' assume S: "S = S' \<and> S' i = Some c"
    show "valid abs_store (steps S) ((=) S') (g s) (\<lambda>_. steps S)"
      by (rule valid_weaken [OF assms(2)]) (use S c only_steps in auto)
  qed
qed simp

lemma broadcast_refund_steps:
  assumes "keyed (mg_api m) S"
  shows "valid abs_store (steps S) ((=) S) (check_and_broadcast_refund m i) (\<lambda>_. steps S)"
  by (rule valid_weaken [OF broadcast_refund_only [where P = "(=) S" and S = S]]) (use assms only_steps in auto)

lemma cooperative_close_steps:
  assumes key: "keyed (mg_api m) S"
  shows "valid abs_store (steps S) ((=) S) (cooperative_close_contract m i payout) (\<lambda>_. steps S)"
  unfolding cooperative_close_contract_def
proof (rule on_confirmed [OF key], rule valid_lift_bind)
  fix s x
  assume s: "S i = Some (Confirmed s)" and c: "create_cooperative_close (mg_api m) s payout = Ok x"
  obtain msg tx where x: "x = (msg, tx)" by fastforce
  have "j = i \<and> contract_step m purge own reports S (S(i \<mapsto> Confirmed (with_pending_close s tx)))"
    if "api_id (Confirmed (with_pending_close s tx)) = Ok j" for j
  proof -
    have j: "api_id (Confirmed s) = Ok j" using that by (simp add: get_id_def)
    moreover have "j = i" using j keyedD [OF key s] by simp
    ultimately show ?thesis using contract_step.pending_close [where S = S, OF s c [unfolded x]] by blast
  qed
  then have "valid abs_store (only m purge own reports i S) ((=) S) (update_contract m (Confirmed (with_pending_close s tx))) (\<lambda>_. only m purge own reports i S)"
    by (intro valid_update_only) auto
  then show "valid abs_store (only m purge own reports i S) ((=) S) (case x of (close_message, close_tx) \<Rightarrow>
      and_do (update_contract m (Confirmed (with_pending_close s close_tx)))
        (\<lambda>_. lift_res (Ok (close_message, oc_counter_party (sc_offered_contract s))))) (\<lambda>_. only m purge own reports i S)"
    unfolding x by (simp only: prod.case) (rule valid_then_done)
qed auto

lemma accept_close_steps:
  assumes key: "keyed (mg_api m) S"
  shows "valid abs_store (steps S) ((=) S) (accept_cooperative_close m i msg) (\<lambda>_. steps S)"
  unfolding accept_cooperative_close_def
proof (rule on_confirmed [OF key], intro vcg)
  fix s tx assume s: "S i = Some (Confirmed s)"
  show "valid abs_store (only m purge own reports i S) ((=) S) (update_contract m (preclosed_of s None tx)) (\<lambda>_. only m purge own reports i S)"
    using preclose_step [where S = S, OF keyedD [OF key s] s] by (intro valid_update_only) auto
qed auto

lemma close_confirmed_steps:
  assumes key: "keyed (mg_api m) S"
  shows "valid abs_store (steps S) ((=) S) (close_confirmed_contract m i atts) (\<lambda>_. steps S)"
  unfolding close_confirmed_contract_def Let_def
proof (rule on_confirmed [OF key], rule valid_lift_bind)
  fix s found assume s: "S i = Some (Confirmed s)"
  have close: "valid abs_store (only m purge own reports i S) ((=) S)
     (and_do (close_contract m s cet xs) (\<lambda>closed. and_do (update_contract m closed) (\<lambda>_. lift_res (Ok closed)))) (\<lambda>_. only m purge own reports i S)"
    for cet xs
    by (rule valid_and_do [OF close_contract_only [OF key s]]) (rule valid_then_done [OF update_closing])
  show "valid abs_store (only m purge own reports i S) ((=) S) (case found of None \<Rightarrow> lift_res (Err InvalidState)
       | Some (contract_info, adaptor_info) \<Rightarrow>
           and_do (lift_res (derive_contract_signer (mg_api m) (oc_keys_id (sc_offered_contract s)))) (\<lambda>signer.
           and_do (lift_res (get_signed_cet (mg_api m) (mg_orders m) s contract_info adaptor_info atts signer)) (\<lambda>cet.
           and_do (ask (\<lambda>n. as_u32 (unix_time_now m n))) (\<lambda>time.
           and_do (lift_res (assert_that (valid_time m time))) (\<lambda>_.
           and_do (request (\<lambda>n. blockchain_height m n)) (\<lambda>height.
           and_do (lift_res (assert_that (valid_height m (as_u32 height)))) (\<lambda>_.
           and_do (lift_res (ensure (lock_time_satisfied m (tx_lock_time cet) (as_u32 height) time) InvalidState)) (\<lambda>_.
           and_do (close_contract m s cet (map snd atts)) (\<lambda>closed.
           and_do (update_contract m closed) (\<lambda>_. lift_res (Ok closed))))))))))) (\<lambda>_. only m purge own reports i S)"
  proof (cases found)
    case (Some y)
    then show ?thesis by (cases y) (simp only: option.case prod.case, intro vcg close, auto)
  qed (auto intro!: valid_lift)
qed auto

end

text \<open>What the application asks of the manager and what it is sent.\<close>

datatype call =
    SendOffer contract_input pubkey
  | SendOfferWithAnnouncements contract_input pubkey "oracle_announcement list list"
  | SendSpliceOffer contract_input pubkey bytes
  | SendSpliceOfferWithAnnouncements contract_input pubkey bytes "oracle_announcement list list"
  | AcceptContractOffer bytes
  | OnDlcMessage contract_message pubkey
  | PeriodicCheck
  | CloseConfirmedContract bytes "(nat \<times> oracle_attestation) list"
  | CheckAndBroadcastRefund bytes
  | CooperativeCloseContract bytes nat
  | AcceptCooperativeClose bytes close_dlc
  | OnCounterpartyClose signed_contract transaction nat

definition ignore :: "('a, 's) action \<Rightarrow> (unit, 's) action" where
  "ignore act = and_do act (\<lambda>_. lift_res (Ok ()))"

fun run_call :: "('s, 'x) manager_scheme \<Rightarrow> call \<Rightarrow> (unit, 's) action" where
  "run_call m (SendOffer inp peer) = ignore (send_offer m inp peer)"
| "run_call m (SendOfferWithAnnouncements inp peer anns) = ignore (send_offer_with_announcements m inp peer anns)"
| "run_call m (SendSpliceOffer inp peer i) = ignore (send_splice_offer m inp peer i)"
| "run_call m (SendSpliceOfferWithAnnouncements inp peer i anns) = ignore (send_splice_offer_with_announcements m inp peer i anns)"
| "run_call m (AcceptContractOffer i) = ignore (accept_contract_offer m i)"
| "run_call m (OnDlcMessage msg peer) = ignore (on_dlc_message m msg peer)"
| "run_call m PeriodicCheck = check_contracts m"
| "run_call m (CloseConfirmedContract i atts) = ignore (close_confirmed_contract m i atts)"
| "run_call m (CheckAndBroadcastRefund i) = ignore (check_and_broadcast_refund m i)"
| "run_call m (CooperativeCloseContract i payout) = ignore (cooperative_close_contract m i payout)"
| "run_call m (AcceptCooperativeClose i msg) = ignore (accept_cooperative_close m i msg)"
| "run_call m (OnCounterpartyClose s tx n) = ignore (on_counterparty_close m s tx n)"

fun reports_of :: "call \<Rightarrow> close_report set" where
  "reports_of (OnCounterpartyClose s tx n) = {(s, tx, n)}"
| "reports_of _ = {}"

text \<open>
  What a party that follows the protocol does: it accepts offers that it received, the peer accepts offers of this party, and it
  reports the close of a contract as it is stored.  The manager checks none of it.
\<close>

fun by_the_protocol :: "(bytes \<rightharpoonup> contract) \<Rightarrow> call \<Rightarrow> bool" where
  "by_the_protocol S (AcceptContractOffer i) = (case S i of Some (Offered oc) \<Rightarrow> \<not> oc_is_offer_party oc | _ \<Rightarrow> True)"
| "by_the_protocol S (OnDlcMessage (AcceptMessage msg) peer) =
     (case S (am_temporary_contract_id msg) of Some (Offered oc) \<Rightarrow> oc_is_offer_party oc | _ \<Rightarrow> True)"
| "by_the_protocol S (OnCounterpartyClose s tx n) = (Some s \<in> signed_part ` ran S)"
| "by_the_protocol S _ = True"

context contract_manager begin

lemma counterparty_close_steps:
  assumes "own \<longrightarrow> Some s \<in> signed_part ` ran S" "(s, tx, n) \<in> reports"
  shows "valid abs_store (steps S) ((=) S) (on_counterparty_close m s tx n) (\<lambda>_. steps S)"
proof -
  let ?d = "ac_dlc_transactions (sc_accepted_contract s)"
  have store: "valid abs_store (steps S) ((=) S) (and_do (update_contract m c) (\<lambda>_. lift_res (Ok c))) (\<lambda>_. steps S)"
    if "reported_contract m (s, tx, n) = Ok c" "spends_funding m s tx" for c
  proof -
    have p: "plain c" using that(1) by (auto simp: reported_contract_def dest: closed_plain split: if_splits)
    have "own \<longrightarrow> (\<exists>t c. S t = Some c \<and> signed_part c = Some s)" using assms(1) by (auto simp: ran_def intro: sym)
    then have "contract_step m purge own reports S (S(i \<mapsto> c))" if "api_id c = Ok i" for i
      using contract_step.reported [OF assms(2)] that \<open>spends_funding m s tx\<close> \<open>reported_contract m (s, tx, n) = Ok c\<close> by blast
    then have "contract_step m purge own reports S (stored purge i c S)" if "api_id c = Ok i" for i
      using p that by (simp add: stored_def plain_def)
    then show ?thesis by (intro valid_then_done valid_step) auto
  qed
  show ?thesis
    unfolding on_counterparty_close_def Let_def
  proof (rule valid_lift_bind, simp, rule valid_lift_bind, simp)
    fix spends x
    assume sp: "(if tx_input tx = [] then Ok False
        else and_then (get_fund_outpoint (btc (mg_api m)) ?d)
          (\<lambda>outpoint. Ok (outpoint \<in> set (map previous_output (tx_input tx))))) = (Ok spends :: (_, manager_error) res)"
      "ensure spends InvalidParameters = Ok x"
    then have sf: "spends_funding m s tx" by (auto simp: spends_funding_def res_simps split: if_splits)
    show "valid abs_store (steps S) ((=) S) (if txid_of m (dlc_refund ?d) = txid_of m tx
        then and_do (update_contract m (Refunded s)) (\<lambda>_. lift_res (Ok (Refunded s)))
        else and_do (if n < NB_CONFIRMATIONS m then lift_res (Ok (preclosed_of s None tx)) else lift_res (closed_contract_of m s None tx))
          (\<lambda>c. and_do (update_contract m c) (\<lambda>_. lift_res (Ok c)))) (\<lambda>_. steps S)"
    proof (rule valid_if)
      assume "txid_of m (dlc_refund ?d) = txid_of m tx"
      then show "valid abs_store (steps S) ((=) S) (and_do (update_contract m (Refunded s)) (\<lambda>_. lift_res (Ok (Refunded s)))) (\<lambda>_. steps S)"
        by (intro store sf) (simp add: reported_contract_def)
    next
      assume r: "txid_of m (dlc_refund ?d) \<noteq> txid_of m tx"
      have "(if n < NB_CONFIRMATIONS m then lift_res (Ok (preclosed_of s None tx)) else lift_res (closed_contract_of m s None tx)) =
          (lift_res (reported_contract m (s, tx, n)) :: (contract, 's) action)"
        using r by (simp add: reported_contract_def)
      then show "valid abs_store (steps S) ((=) S)
          (and_do (if n < NB_CONFIRMATIONS m then lift_res (Ok (preclosed_of s None tx)) else lift_res (closed_contract_of m s None tx))
            (\<lambda>c. and_do (update_contract m c) (\<lambda>_. lift_res (Ok c)))) (\<lambda>_. steps S)"
        by (simp only:) (rule valid_lift_bind, simp, rule store [OF _ sf])
    qed
  qed
qed

lemma run_call_steps:
  assumes "keyed (mg_api m) S" "own \<longrightarrow> by_the_protocol S c" "reports_of c \<subseteq> reports"
  shows "valid abs_store (steps S) ((=) S) (run_call m c) (\<lambda>_. steps S)"
proof (cases c)
  case (OnDlcMessage msg peer)
  have "oc_is_offer_party oc" if "own" "msg = AcceptMessage x" "S (am_temporary_contract_id x) = Some (Offered oc)" for x oc
    using that assms(2) OnDlcMessage by simp
  then show ?thesis using OnDlcMessage on_dlc_message_steps [OF assms(1)] by (auto simp: ignore_def intro!: valid_then_done)
next
  case (AcceptContractOffer i)
  then have "own \<longrightarrow> (\<forall>oc. S i = Some (Offered oc) \<longrightarrow> \<not> oc_is_offer_party oc)" using assms(2) by auto
  then show ?thesis using AcceptContractOffer accept_offer_steps by (auto simp: ignore_def intro!: valid_then_done)
qed (use assms send_offer_steps store_offer_steps send_splice_steps send_splice_with_steps close_confirmed_steps
      broadcast_refund_steps cooperative_close_steps accept_close_steps counterparty_close_steps implements_check
      in \<open>auto simp: ignore_def implements_def send_offer_with_announcements_def intro!: valid_then_done\<close>)

end

end
