(* ===== verification/Manager_Example.thy ===== *)
theory Manager_Example
  imports Contract_Lifecycle
begin

text \<open>
  A run of the manager for the witnesses: the party of the example offers its contract, the acceptance of the other
  party arrives, and the funding transaction is confirmed.
\<close>

text \<open>The wallet signs with one byte; the blockchain has confirmed funding transactions only; time passes at the tenth call.\<close>

definition example_wallet :: wallet where
  "example_wallet p i = Ok (p\<lparr>ps_inputs := map (\<lambda>x. x\<lparr>pi_final_script_witness := Some [[9]]\<rparr>) (ps_inputs p)\<rparr>)"

definition example_manager :: "nat \<Rightarrow> contract_table manager" where
  "example_manager late = \<lparr>mg_store = memory_ops example_updater_api (\<lambda>_. 0), mg_api = example_updater_api, mg_wire = undefined,
     mg_orders = example_orders, NB_CONFIRMATIONS = 6, AUTOMATIC_REFUND = False,
     transaction_confirmations = (\<lambda>_ txid. Ok (if txid = [3] then ConfirmedAt 6 else NotFound)),
     send_result = (\<lambda>_ _. Ok ()), blockchain_height = (\<lambda>_. Ok 100), import_address = (\<lambda>_ _. Ok ()),
     sign_psbt_input = (\<lambda>_. example_wallet), unix_time_now = (\<lambda>n. if n < late then 10 else 1700604800),
     party = (\<lambda>_. example_env 1), known_oracle = (\<lambda>_. True), oracle_announcement_of = (\<lambda>_ _ _. Err InvalidState),
     oracle_attestation_of = (\<lambda>_ _ _. Err InvalidState), announcement_order = (\<lambda>_ xs. xs), attestation_order = (\<lambda>_ xs. xs),
     lock_time_satisfied = (\<lambda>_ _ _. True), valid_time = (\<lambda>_. True), valid_height = (\<lambda>_. True)\<rparr>"

lemma example_manager_simps [simp]:
  "mg_store (example_manager late) = memory_ops example_updater_api (\<lambda>_. 0)" "mg_api (example_manager late) = example_updater_api"
  "NB_CONFIRMATIONS (example_manager late) = 6" "AUTOMATIC_REFUND (example_manager late) = False"
  "transaction_confirmations (example_manager late) n txid = Ok (if txid = [3] then ConfirmedAt 6 else NotFound)"
  "send_result (example_manager late) n tx = Ok ()" "import_address (example_manager late) n scr = Ok ()"
  "sign_psbt_input (example_manager late) n = example_wallet"
  "unix_time_now (example_manager late) n = (if n < late then 10 else 1700604800)"
  "party (example_manager late) n = example_env 1"
  by (simp_all add: example_manager_def)

definition example_calls :: "call list" where
  "example_calls = [SendOfferWithAnnouncements example_contract_input [33] example_announcements,
     OnDlcMessage (AcceptMessage example_accept_msg) [33], PeriodicCheck]"

section \<open>The offer\<close>

lemma example_offer_peer: "oc_counter_party example_offered = [33]"
  by (simp add: example_offered_def example_offer_defs Let_def example_api_def as_u32_def)

definition example_funding :: "nat \<Rightarrow> funding_input" where
  "example_funding k = \<lparr>fi_input_serial_id = k, fi_prev_tx = enc_tx (example_coin k), fi_prev_tx_vout = 0,
     fi_sequence = 4294967295, fi_max_witness_len = 108, fi_redeem_script = [], fi_dlc_input = None\<rparr>"

lemma example_offer_inputs: "oc_funding_inputs example_offered = [example_funding 1]"
  by (simp add: example_offered_def example_offer_defs Let_def example_api_def as_u32_def example_funding_def)

lemma example_offer_valid: "offered_validate example_offered = Ok ()"
  using example_offered_fields
  by (simp add: offered_validate_def validate_fee_rate_def info_validate_def info_get_payouts_def enum_get_payouts_def uadd_def
      descriptor_validate_def enum_validate_def unordered_equal_def example_enum_contract_def example_announcement_def ensure_def)

lemma example_store_offer:
  assumes "ms_calls \<sigma> < late"
  shows "run_call (example_manager late) (SendOfferWithAnnouncements example_contract_input [33] example_announcements) \<sigma> =
    (Ok (), \<sigma>\<lparr>ms_calls := Suc (ms_calls \<sigma>), ms_store := DAList.update [6] (Offered example_offered) (ms_store \<sigma>)\<rparr>)"
proof -
  obtain msg where m: "offer_contract example_updater_api (example_env 1) 10 example_contract_input example_announcements [] 604800 [33] =
      Ok (example_offered, msg)" using example_offer by blast
  show ?thesis
    using m example_offer_valid example_offered_fields assms
    by (simp add: ignore_def send_offer_with_announcements_def store_offer_def request_def ask_def and_do_def lift_res_def
        write_store_def memory_ops_def memory_create_contract_def REFUND_DELAY_def)
qed

section \<open>The acceptance\<close>

lemma example_accept_internal:
  "\<exists>fins. accept_contract_internal example_updater_api example_received example_accept_params fins 13 200130 None example_dlc =
     Ok (example_accepted, [[13, 22], [13, 27]])"
proof -
  obtain sk fins d out where x: "derive_contract_signer example_updater_api (oc_keys_id example_received) = Ok sk"
    "collateral (oc_offer_params example_received) \<le> oc_total_collateral example_received"
    "get_party_params example_updater_api (example_env 2) (oc_total_collateral example_received - collateral (oc_offer_params example_received))
       (oc_total_collateral example_received) [] (oc_fee_rate_per_vb example_received) sk = Ok (ac_accept_params example_accepted, fins)"
    "make_dlc_transactions example_updater_api example_received (ac_accept_params example_accepted) = Ok d"
    "get_fund_output (btc example_updater_api) d = (Ok out :: (_, manager_error) res)"
    "accept_contract_internal example_updater_api example_received (ac_accept_params example_accepted) fins sk (out_value out) None d =
       Ok (example_accepted, am_cet_adaptor_signatures example_accept_msg)"
    "example_accept_msg = get_accept_contract_msg example_accepted (am_cet_adaptor_signatures example_accept_msg)"
    "ac_funding_inputs example_accepted = fins" "ac_offered_contract example_accepted = example_received"
    by (rule accept_contractE [OF example_accept])
  then show ?thesis using example_dlc example_fund_output [where 'e = manager_error] by (auto simp: example_received_fields example_accept_fields)
qed

lemma example_verified:
  "verify_accepted example_updater_api example_offered example_accept_params [13] [[13, 22], [13, 27]] 200130 None None example_dlc =
     Ok ([EnumInfo], dlc_cets example_dlc)"
proof -
  obtain fins where i: "accept_contract_internal example_updater_api (received_as [44] [2] example_offered) example_accept_params fins 13 200130
      None example_dlc = Ok (example_accepted, [[13, 22], [13, 27]])"
    using example_accept_internal by (auto simp: example_received_def)
  show ?thesis
    using accepted_verifies [OF example_updater_api_ok example_yields i] example_offered_fields
    by (simp add: example_accepted_def example_accept_params_def)
qed

lemma example_dlc_fields:
  "dlc_cets example_dlc = [example_cet_to \<lparr>out_value = 200000, script_pubkey = [1, 2]\<rparr>, example_cet_to \<lparr>out_value = 199500, script_pubkey = [2, 2]\<rparr>]"
  "tx_input (dlc_refund example_dlc) \<noteq> []" "funding_witness_script example_dlc = [82, 1, 11, 1, 13, 82, 174]"
  "example_dlc\<lparr>dlc_cets := dlc_cets example_dlc, pending_close_txs := []\<rparr> = example_dlc"
  by (simp_all add: example_dlc_def create_refund_transaction_def)

lemma example_own_signatures:
  "own_cet_signatures example_updater_api example_offered [EnumInfo] 11 scr v (dlc_cets example_dlc) = Ok [[11, 22], [11, 27]]"
proof -
  have c: "oc_contract_info example_offered = [offered_info]" using example_offered_fields by (simp add: offered_info_def)
  have "info_get_adaptor_info example_updater_api offered_info 200000 11 scr v (dlc_cets example_dlc) 0 = Ok (EnumInfo, [[11, 22], [11, 27]])"
    by (simp add: example_dlc_fields example_info_signatures example_cet_to_def)
  then have "info_get_adaptor_signatures example_updater_api offered_info EnumInfo 11 scr v (dlc_cets example_dlc) = Ok [[11, 22], [11, 27]]"
    by (auto simp: info_get_adaptor_info_def info_get_adaptor_signatures_def offered_info_def res_simps)
  then show ?thesis by (simp add: own_cet_signatures_def c)
qed

lemma example_accept_inputs: "am_funding_inputs example_accept_msg = [example_funding 2]"
  by (simp add: example_accept_msg_def get_accept_contract_msg_def example_accepted_def example_offer_defs Let_def example_api_def
      as_u32_def example_funding_def)

lemma example_accept_params_read: "accept_params_of example_updater_api example_accept_msg = Ok example_accept_params"
  by (simp add: accept_params_of_def example_accept_inputs, simp add: example_accept_msg_def get_accept_contract_msg_def example_accepted_def
      example_accept_params_def get_tx_input_infos_def get_dlc_inputs_from_funding_inputs_def example_funding_def example_coin_def dec_enc_tx
      uadd_def example_api_def)

lemma example_inputs_sorted: "all_inputs example_offered [example_funding 2] = [example_funding 1, example_funding 2]"
  by (simp add: all_inputs_def example_offer_inputs example_funding_def)

lemma example_populated:
  "\<exists>p. populate_psbt example_updater_api [example_funding 1, example_funding 2]
      \<lparr>ps_unsigned_tx = tx, ps_inputs = [a, b]\<rparr> = Ok p \<and> length (ps_inputs p) = 2"
  by (simp add: populate_psbt_def example_funding_def example_coin_def dec_enc_tx update_psbt_input_def index_def)

lemma example_offer_input_signed:
  assumes "length (ps_inputs p) = 2"
  shows "\<exists>p'. sign_offer_input example_updater_api example_wallet lookup [example_funding 1, example_funding 2] fund (example_funding 1) (p, []) =
    Ok (p', [[[9]]])"
  using assms
  by (simp add: sign_offer_input_def funding_input_position_def, simp add: example_funding_def example_wallet_def index_def, auto)

lemma example_sign:
  "\<exists>s sm. verify_accepted_and_sign_contract example_updater_api example_wallet lookup example_offered example_accept_msg = Ok (s, sm) \<and>
     ac_dlc_transactions (sc_accepted_contract s) = example_dlc \<and> ac_offered_contract (sc_accepted_contract s) = example_offered \<and>
     sc_channel_id s = None \<and> ac_adaptor_infos (sc_accepted_contract s) = [EnumInfo] \<and>
     ac_accept_params (sc_accepted_contract s) = example_accept_params"
proof -
  have m: "make_dlc_transactions example_updater_api example_offered example_accept_params = Ok example_dlc"
    using example_dlc by (simp add: example_received_def)
  obtain a b where f: "example_psbt_from (dlc_fund example_dlc) = Some \<lparr>ps_unsigned_tx = dlc_fund example_dlc, ps_inputs = [a, b]\<rparr>"
    by (simp add: example_psbt_from_def example_dlc_def)
  obtain p where p: "populate_psbt example_updater_api [example_funding 1, example_funding 2]
      \<lparr>ps_unsigned_tx = dlc_fund example_dlc, ps_inputs = [a, b]\<rparr> = Ok p" "length (ps_inputs p) = 2"
    using example_populated by blast
  obtain p' where p': "sign_offer_input example_updater_api example_wallet lookup [example_funding 1, example_funding 2] (dlc_fund example_dlc)
      (example_funding 1) (p, []) = Ok (p', [[[9]]])"
    using example_offer_input_signed [OF p(2)] by blast
  have i: "get_fund_output_index (btc example_updater_api) example_dlc = (Ok 2 :: (_, manager_error) res)"
    using example_fund_index(1) by simp
  show ?thesis
    using m f p(1) p' example_verified example_own_signatures example_fund_output [where 'e = manager_error] example_offered_fields example_dlc_fields i
    by (simp add: verify_accepted_and_sign_contract_def verify_accepted_and_sign_contract_internal_def example_accept_params_read
      example_accept_inputs example_accept_fields example_inputs_sorted example_offer_inputs get_raw_sig_for_tx_input_def get_sig_hash_msg_def
      get_sign_dlc_def get_contract_id_def Let_def)
qed

definition example_id :: bytes where
  "example_id = compute_id [3] 2 [6]"

lemma example_id: "example_id = [5]"
  by (simp add: example_id_def compute_id_def Let_def)

lemma example_txids: "compute_txid example_api (dlc_fund example_dlc) = [3]" "compute_txid example_api (dlc_refund example_dlc) = [2]"
  by (simp_all add: example_dlc_def example_api_def create_refund_transaction_def discard_dust_def DUST_LIMIT_def)

text \<open>The contract of the example as the offering party stores it.\<close>

definition is_example :: "signed_contract \<Rightarrow> bool" where
  "is_example s \<longleftrightarrow> ac_dlc_transactions (sc_accepted_contract s) = example_dlc \<and>
     ac_offered_contract (sc_accepted_contract s) = example_offered \<and> sc_channel_id s = None \<and>
     ac_adaptor_infos (sc_accepted_contract s) = [EnumInfo] \<and> ac_accept_params (sc_accepted_contract s) = example_accept_params"

lemma example_contract_id:
  assumes "is_example s"
  shows "get_contract_id example_updater_api (sc_accepted_contract s) = (Ok example_id :: (_, manager_error) res)"
  using assms example_fund_index(1) [where 'e = manager_error] example_offered_fields
  by (simp add: get_contract_id_def is_example_def example_id_def example_txids as_u16_def)

lemma example_accept_arrives:
  assumes "DAList.lookup (ms_store \<sigma>) [6] = Some (Offered example_offered)"
  shows "\<exists>s sm. on_accept_message (example_manager late) example_accept_msg [33] \<sigma> =
      (Ok sm, \<sigma>\<lparr>ms_calls := Suc (Suc (ms_calls \<sigma>)), ms_store := DAList.update example_id (Signed s) (ms_store \<sigma>)\<rparr>) \<and>
    is_example s \<and> sm_contract_id sm = example_id"
proof -
  let ?l = "lookup_of (example_manager late) \<sigma>"
  obtain s sm where s: "verify_accepted_and_sign_contract example_updater_api example_wallet ?l example_offered example_accept_msg = Ok (s, sm)"
    "is_example s" using example_sign [of ?l] by (auto simp: is_example_def)
  have t: "am_temporary_contract_id example_accept_msg = [6]"
    using example_offered_fields
    by (simp add: example_accept_msg_def get_accept_contract_msg_def example_accepted_def example_received_def received_as_def)
  have id: "get_id example_updater_api (Signed s) = (Ok example_id :: (_, manager_error) res)"
    using example_contract_id [OF s(2)] by (simp add: get_id_def)
  have "sm_contract_id sm = example_id"
    using s example_contract_id [OF s(2)] by (auto simp: verify_accepted_and_sign_contract_def get_sign_dlc_def res_simps)
  moreover have "get_contract_in_state (example_manager late) [6] as_offered (Some [33]) \<sigma> = (Ok example_offered, \<sigma>)"
    using assms example_offer_peer
    by (simp add: get_contract_in_state_def read_store_def lift_res_def and_do_def memory_ops_def get_counter_party_id_def
        offer_of_contract_def)
  ultimately show ?thesis
    using s id t
    by (auto simp: on_accept_message_def and_do_def on_result_def request_def ask_def lift_res_def update_contract_def write_store_def
        memory_ops_def memory_update_contract_def)
qed

section \<open>The periodic check\<close>

lemma table_values_const: "table_values (\<lambda>_. 0 :: nat) t = map snd (DAList.impl_of t)"
proof -
  have "sort_key (\<lambda>_. 0 :: nat) xs = xs" for xs :: "(bytes \<times> contract) list"
  proof (induction xs)
    case (Cons x xs)
    then show ?case by (cases xs) simp_all
  qed simp
  then show ?thesis by (simp add: table_values_def)
qed

definition example_table :: "contract \<Rightarrow> contract_table" where
  "example_table c = DAList.update example_id c (DAList.update [6] (Offered example_offered) DAList.empty)"

lemma example_table_simps [simp]:
  "DAList.impl_of (example_table c) = [([6], Offered example_offered), ([5], c)]"
  "DAList.lookup (example_table c) [6] = Some (Offered example_offered)" "DAList.lookup (example_table c) [5] = Some c"
  "DAList.update [5] c' (example_table c) = example_table c'"
proof -
  show i: "DAList.impl_of (example_table c) = [([6], Offered example_offered), ([5], c)]" for c
    by (simp add: example_table_def example_id DAList.update.rep_eq DAList.empty.rep_eq)
  show "DAList.lookup (example_table c) [6] = Some (Offered example_offered)" "DAList.lookup (example_table c) [5] = Some c"
    by (simp_all add: DAList.lookup.rep_eq i)
  show "DAList.update [5] c' (example_table c) = example_table c'"
    by (rule DAList.impl_of_inject [THEN iffD1]) (simp add: i DAList.update.rep_eq)
qed

lemma example_not_matured:
  assumes "ms_calls \<sigma> < late"
  shows "get_closable_contract_info (example_manager late) (zip (oc_contract_info example_offered) [EnumInfo]) \<sigma> =
    (Ok None, \<sigma>\<lparr>ms_calls := Suc (ms_calls \<sigma>)\<rparr>)"
  using assms example_offered_fields
  by (simp add: example_enum_contract_def example_announcement_def and_do_def lift_res_def ask_def)

lemma example_checks:
  assumes "ms_store \<sigma> = example_table (Signed s)" "ms_calls \<sigma> + 2 < late" "is_example s"
  shows "run_call (example_manager late) PeriodicCheck \<sigma> =
    (Ok (), \<sigma>\<lparr>ms_store := example_table (Confirmed s), ms_calls := ms_calls \<sigma> + 3\<rparr>)"
proof -
  have d: "ac_dlc_transactions (sc_accepted_contract s) = example_dlc" "sc_offered_contract s = example_offered" "sc_channel_id s = None"
    "ac_adaptor_infos (sc_accepted_contract s) = [EnumInfo]" "pending_close_txs example_dlc = []" "tx_lock_time (dlc_refund example_dlc) = 1700604800"
    using assms(3) by (simp_all add: is_example_def example_dlc_def create_refund_transaction_def)
  have id: "get_id example_updater_api (Confirmed s) = (Ok [5] :: (_, manager_error) res)"
    using example_contract_id [OF assms(3)] by (simp add: get_id_def example_id)
  have splice: "check_for_spliced_contract (example_manager late) \<sigma> = (Ok [s], \<sigma>)"
    using assms(1) d
    by (simp add: check_for_spliced_contract_def and_do_def read_store_def lift_res_def memory_ops_def table_values_const
        List.map_filter_simps check_splice_def spliced_input_def example_offer_inputs example_funding_def)
  let ?\<sigma>1 = "\<sigma>\<lparr>ms_store := example_table (Confirmed s), ms_calls := Suc (ms_calls \<sigma>)\<rparr>"
  have signed: "check_signed_contracts (example_manager late) [s] \<sigma> = (Ok (), ?\<sigma>1)"
    using assms(1) d id
    by (simp add: check_signed_contracts_def logged_def on_result_def check_signed_contract_def and_do_def lift_res_def
        get_transaction_confirmations_def request_def ask_def txid_of_def example_txids confirmations_def update_contract_def write_store_def
        memory_ops_def memory_update_contract_def)
  let ?\<sigma>2 = "?\<sigma>1\<lparr>ms_calls := ms_calls \<sigma> + 3\<rparr>"
  have confirmed: "check_confirmed_contracts (example_manager late) ?\<sigma>1 = (Ok (), ?\<sigma>2)"
    using assms(2) d example_not_matured [of ?\<sigma>1 late]
    by (simp add: check_confirmed_contracts_def logged_def on_result_def check_confirmed_contract_def and_do_def lift_res_def
        read_store_def memory_ops_def table_values_const List.map_filter_simps check_refund_def ask_def Let_def)
  have preclosed: "check_preclosed_contracts (example_manager late) ?\<sigma>2 = (Ok (), ?\<sigma>2)"
    by (simp add: check_preclosed_contracts_def and_do_def lift_res_def read_store_def memory_ops_def table_values_const
        List.map_filter_simps)
  show ?thesis
    using splice signed confirmed preclosed by (simp add: check_contracts_def and_do_def)
qed

end
