(* ===== verification/Contract_Invariants.thy ===== *)
theory Contract_Invariants
  imports Manager_Example
begin

text \<open>
  What holds of the contracts that a manager has stored, after any sequence of calls and messages for contracts, and what it can do with them.
\<close>

section \<open>The refund signature\<close>

definition own_key :: "('m) manager_api_scheme \<Rightarrow> offered_contract \<Rightarrow> pubkey \<Rightarrow> bool" where
  "own_key api oc pk \<longleftrightarrow> (\<exists>sk. derive_contract_signer api (oc_keys_id oc) = Ok sk \<and> pk = pk_of_sk api sk)"

text \<open>
  The party can sign for one of the two keys of the funding output, and holds a refund signature that verifies under the other.
\<close>

definition refundable :: "('m) manager_api_scheme \<Rightarrow> signed_contract \<Rightarrow> bool" where
  "refundable api s \<longleftrightarrow>
     (let d = ac_dlc_transactions (sc_accepted_contract s) in
      \<exists>pk out. own_key api (sc_offered_contract s) pk \<and>
        funding_witness_script d = make_funding_redeemscript pk (counterparty_key s) \<and>
        get_fund_output (btc api) d = (Ok out :: (_, manager_error) res) \<and>
        verify_tx_input_sig api (counterparty_refund_sig s) (dlc_refund d) 0 (funding_witness_script d) (out_value out)
          (counterparty_key s) = Ok ())"

fun good :: "('m) manager_api_scheme \<Rightarrow> contract \<Rightarrow> bool" where
  "good api (Offered oc) \<longleftrightarrow> (oc_is_offer_party oc \<longrightarrow> own_key api oc (fund_pubkey (oc_offer_params oc)))"
| "good api (Accepted a) \<longleftrightarrow> \<not> oc_is_offer_party (ac_offered_contract a) \<and>
     own_key api (ac_offered_contract a) (fund_pubkey (ac_accept_params a)) \<and>
     funding_witness_script (ac_dlc_transactions a) =
       make_funding_redeemscript (fund_pubkey (oc_offer_params (ac_offered_contract a))) (fund_pubkey (ac_accept_params a))"
| "good api (Signed s) \<longleftrightarrow> refundable api s"
| "good api (Confirmed s) \<longleftrightarrow> refundable api s"
| "good api (PreClosed p) \<longleftrightarrow> refundable api (pc_signed_contract p)"
| "good api (Closed x) \<longleftrightarrow> refundable api (cl_signed_contract x)"
| "good api (Refunded s) \<longleftrightarrow> refundable api s"
| "good api _ \<longleftrightarrow> True"

text \<open>A property of all stored contracts.\<close>

definition each :: "(contract \<Rightarrow> bool) \<Rightarrow> (bytes \<rightharpoonup> contract) \<Rightarrow> bool" where
  "each P S \<longleftrightarrow> (\<forall>i c. S i = Some c \<longrightarrow> P c)"

lemma each_upd: "each P S \<Longrightarrow> P c \<Longrightarrow> each P (S(i \<mapsto> c))"
  by (simp add: each_def)

lemma each_stored: "each P S \<Longrightarrow> P c \<Longrightarrow> each P (stored purge i c S)"
  by (auto simp: each_def stored_apply split: if_splits)

lemma eachD: "each P S \<Longrightarrow> S i = Some c \<Longrightarrow> P c"
  by (simp add: each_def)

lemma own_key_of_params:
  assumes "get_party_params api env own tc ds rate sk = Ok (p, fins)"
  shows "fund_pubkey p = pk_of_sk api sk"
  using assms by (auto simp: get_party_params_def res_simps Let_def)

lemma refund_lock_time:
  "create_cets_and_refund_tx o' a op payouts rlt clt sq flags = Ok (cets, refund) \<Longrightarrow> tx_lock_time refund = rlt"
  by (auto simp: create_cets_and_refund_tx_def create_refund_transaction_def Let_def res_simps split: if_splits)

lemma make_dlc_transactions_script:
  assumes "make_dlc_transactions api oc p = Ok d"
  shows "funding_witness_script d = make_funding_redeemscript (fund_pubkey (oc_offer_params oc)) (fund_pubkey p) \<and>
    tx_lock_time (dlc_refund d) = oc_refund_locktime oc"
proof -
  have "funding_witness_script d = make_funding_redeemscript (fund_pubkey o') (fund_pubkey a) \<and> tx_lock_time (dlc_refund d) = rlt"
    if "create_dlc_transactions b o' a payouts rlt r flt clt fs flags = Ok d" for b o' a payouts rlt r flt clt fs flags
    using create_dlc_transactions_Ok [OF that] by (auto dest: create_fund_transaction_Ok refund_lock_time)
  from this [of "btc api"] show ?thesis
    using assms
    by (auto simp: make_dlc_transactions_def create_spliced_dlc_transactions_def spliced_params_def res_simps Let_def split: if_splits)
qed

lemma offered_good:
  assumes "offer_contract api env time inp anns ds delay peer = Ok (oc, msg)"
  shows "good api (Offered oc)"
proof -
  obtain keys sk fins params where o: "derive_contract_signer api keys = Ok sk"
    "get_party_params api env (ci_offer_collateral inp) (oc_total_collateral oc) ds (ci_fee_rate inp) sk = Ok (params, fins)"
    "oc_offer_params oc = params" "oc_keys_id oc = keys"
    by (rule offer_contractE [OF assms])
  then show ?thesis using own_key_of_params [OF o(2)] by (auto simp: own_key_def)
qed

lemma received_good: "try_from_offer_dlc api msg peer keys = Ok oc \<Longrightarrow> good api (Offered oc)"
  by (auto simp: try_from_offer_dlc_def res_simps Let_def)

lemma accepted_good:
  assumes "accept_contract api env oc = Ok (a, msg)" "\<not> oc_is_offer_party oc"
  shows "good api (Accepted a)"
proof -
  obtain sk fins d out where x: "derive_contract_signer api (oc_keys_id oc) = Ok sk"
    "collateral (oc_offer_params oc) \<le> oc_total_collateral oc"
    "get_party_params api env (oc_total_collateral oc - collateral (oc_offer_params oc)) (oc_total_collateral oc) []
       (oc_fee_rate_per_vb oc) sk = Ok (ac_accept_params a, fins)"
    "make_dlc_transactions api oc (ac_accept_params a) = Ok d" "get_fund_output (btc api) d = (Ok out :: (_, manager_error) res)"
    "accept_contract_internal api oc (ac_accept_params a) fins sk (out_value out) None d = Ok (a, am_cet_adaptor_signatures msg)"
    "msg = get_accept_contract_msg a (am_cet_adaptor_signatures msg)" "ac_funding_inputs a = fins" "ac_offered_contract a = oc"
    by (rule accept_contractE [OF assms(1)])
  have "funding_witness_script (ac_dlc_transactions a) = funding_witness_script d"
    using accept_contract_internal_fields [OF x(6)] by (metis dlc_transactions.select_convs(4) dlc_transactions.surjective dlc_transactions.update_convs)
  then show ?thesis
    using own_key_of_params [OF x(3)] make_dlc_transactions_script [OF x(4)] x(1,9) assms(2) by (auto simp: own_key_def)
qed

text \<open>Only what a transaction funds and refunds matters.\<close>

lemma refundableI:
  assumes "derive_contract_signer api (oc_keys_id (sc_offered_contract s)) = Ok sk"
    and "funding_witness_script (ac_dlc_transactions (sc_accepted_contract s)) = make_funding_redeemscript (pk_of_sk api sk) (counterparty_key s)"
    and "get_fund_output (btc api) (ac_dlc_transactions (sc_accepted_contract s)) = (Ok out :: (_, manager_error) res)"
    and "verify_tx_input_sig api (counterparty_refund_sig s) (dlc_refund (ac_dlc_transactions (sc_accepted_contract s))) 0
      (funding_witness_script (ac_dlc_transactions (sc_accepted_contract s))) (out_value out) (counterparty_key s) = Ok ()"
  shows "refundable api s"
  using assms by (auto simp: refundable_def own_key_def Let_def)

lemma verify_accepted_refund:
  "verify_accepted api oc p sig sigs v None None d = Ok x \<Longrightarrow>
    verify_tx_input_sig api sig (dlc_refund d) 0 (funding_witness_script d) v (fund_pubkey p) = Ok ()"
  by (auto simp: verify_accepted_def res_simps Let_def)

lemma signed_good:
  assumes "verify_accepted_and_sign_contract api wallet lookup oc msg = Ok (s, sm)" "oc_is_offer_party oc" "good api (Offered oc)"
  shows "good api (Signed s)"
proof -
  obtain p d out sk infos cets where x: "make_dlc_transactions api oc p = Ok d"
    "get_fund_output (btc api) d = (Ok out :: (_, manager_error) res)"
    "verify_accepted api oc p (am_refund_signature msg) (am_cet_adaptor_signatures msg) (out_value out) None None d = Ok (infos, cets)"
    "sc_offered_contract s = oc" "ac_accept_params (sc_accepted_contract s) = p"
    "ac_dlc_transactions (sc_accepted_contract s) = d\<lparr>dlc_cets := cets, pending_close_txs := []\<rparr>"
    "ac_accept_refund_signature (sc_accepted_contract s) = am_refund_signature msg"
    using assms(1)
    by (auto simp: verify_accepted_and_sign_contract_def verify_accepted_and_sign_contract_internal_def res_simps Let_def)
  obtain sk where sk: "derive_contract_signer api (oc_keys_id oc) = Ok sk" "fund_pubkey (oc_offer_params oc) = pk_of_sk api sk"
    using assms(2,3) by (auto simp: own_key_def)
  have out: "get_fund_output (btc api) (d\<lparr>dlc_cets := cets, pending_close_txs := []\<rparr>) = (Ok out :: (_, manager_error) res)"
    using x(2) by (simp add: get_fund_output_def)
  have "counterparty_key s = fund_pubkey p" "counterparty_refund_sig s = am_refund_signature msg"
    using x(4,5,7) assms(2) by (simp_all add: counterparty_key_def counterparty_refund_sig_def)
  then have "refundable api s"
    using refundableI [of api s sk out] sk x(4,6) out make_dlc_transactions_script [OF x(1)] verify_accepted_refund [OF x(3)] by simp
  then show ?thesis by simp
qed

lemma countersigned_good:
  assumes "verify_signed_contract api wallet lookup a sm = Ok (s, tx)" "good api (Accepted a)"
  shows "good api (Signed s)"
proof -
  let ?oc = "ac_offered_contract a" and ?d = "ac_dlc_transactions a"
  obtain out where x: "get_fund_output (btc api) ?d = (Ok out :: (_, manager_error) res)" "sc_accepted_contract s = a"
    "verify_tx_input_sig api (sc_offer_refund_signature s) (dlc_refund ?d) 0 (funding_witness_script ?d) (out_value out)
       (fund_pubkey (oc_offer_params ?oc)) = Ok ()"
    using assms(1)
    by (auto simp: verify_signed_contract_def verify_signed_contract_internal_def verify_signed_def res_simps Let_def)
  obtain sk where sk: "derive_contract_signer api (oc_keys_id ?oc) = Ok sk" "fund_pubkey (ac_accept_params a) = pk_of_sk api sk"
    "\<not> oc_is_offer_party ?oc"
    "funding_witness_script ?d = make_funding_redeemscript (pk_of_sk api sk) (fund_pubkey (oc_offer_params ?oc))"
    using assms(2) make_funding_redeemscript_commute by (auto simp: own_key_def)
  have "counterparty_key s = fund_pubkey (oc_offer_params ?oc)" "counterparty_refund_sig s = sc_offer_refund_signature s"
    using x(2) sk(3) by (simp_all add: counterparty_key_def counterparty_refund_sig_def)
  then have "refundable api s" using refundableI [of api s sk out] sk x by simp
  then show ?thesis by simp
qed

lemma refundable_pending [simp]: "refundable api (with_pending_close s tx) = refundable api s"
  by (simp add: refundable_def with_pending_close_def Let_def get_fund_output_def own_key_def counterparty_key_def counterparty_refund_sig_def)

lemma held_good: "held_contract c = Some s \<Longrightarrow> good api c \<Longrightarrow> refundable api s"
  by (cases c) auto

lemma signed_part_good: "signed_part c = Some s \<Longrightarrow> good api c \<Longrightarrow> refundable api s"
  by (cases c) auto

lemma reported_signed_part: "reported_contract m (s, tx, n) = Ok c \<Longrightarrow>
    c = Refunded s \<or> c = preclosed_of s None tx \<or> (\<exists>x. c = Closed x \<and> cl_signed_contract x = s)"
  by (auto simp: reported_contract_def dest!: closed_contract_id split: if_splits)

lemma reported_good: "reported_contract m (s, tx, n) = Ok c \<Longrightarrow> refundable api s \<Longrightarrow> good api c"
  by (drule reported_signed_part) (auto simp: preclosed_of_def)

text \<open>A party that follows the protocol, with a peer that does, only holds contracts that it can refund.\<close>

lemma contract_step_good:
  "contract_step m purge True reports S S' \<Longrightarrow> each (good (mg_api m)) S \<Longrightarrow> each (good (mg_api m)) S'"
proof (induction rule: contract_step.induct)
  case (offered n time inp anns ds delay peer oc msg S)
  then show ?case using offered_good by (blast intro: each_upd)
next
  case (received msg peer keys oc S)
  then show ?case using received_good by (blast intro: each_upd)
next
  case (accepted S t oc n a msg i)
  then show ?case using accepted_good by (blast intro: each_stored)
next
  case (signed S t oc wallet lookup msg s sm i)
  then show ?case using signed_good eachD [of "good (mg_api m)" S] by (blast intro: each_stored)
next
  case (countersigned S t a wallet lookup sm s tx i)
  then show ?case using countersigned_good eachD [of "good (mg_api m)" S] by (blast intro: each_stored)
next
  case (closed S t c s p atts tx x)
  then have "refundable (mg_api m) s" using eachD [of "good (mg_api m)" S] by fastforce
  moreover have "cl_signed_contract x = s" using closed_contract_id [OF closed(3)] by auto
  ultimately show ?case using closed(5) by (intro each_upd) auto
next
  case (refunded S t c s i)
  then show ?case using held_good eachD [of "good (mg_api m)" S] by (fastforce intro: each_upd)
next
  case (reported s tx n S c i)
  then obtain t c' where "S t = Some c'" "signed_part c' = Some s" by auto
  then have "refundable (mg_api m) s" using reported(6) signed_part_good eachD [of "good (mg_api m)" S] by blast
  with reported_good [OF reported(4)] reported(6) show ?case by (intro each_upd)
qed (auto intro!: each_upd dest: eachD)

section \<open>Confirmations and lock times\<close>

text \<open>
  What the periodic check has seen in the blockchain, or the application has reported: a report of a close is taken as it is.
\<close>

definition funded :: "('s, 'x) manager_scheme \<Rightarrow> close_report set \<Rightarrow> signed_contract \<Rightarrow> bool" where
  "funded m reports s \<longleftrightarrow> confirmed_times m (dlc_fund (ac_dlc_transactions (sc_accepted_contract s))) (NB_CONFIRMATIONS m) \<or>
     (\<exists>s' tx n. (s', tx, n) \<in> reports \<and> spends_funding m s' tx \<and>
        dlc_fund (ac_dlc_transactions (sc_accepted_contract s')) = dlc_fund (ac_dlc_transactions (sc_accepted_contract s)))"

definition close_reported :: "('s, 'x) manager_scheme \<Rightarrow> close_report set \<Rightarrow> signed_contract \<Rightarrow> transaction \<Rightarrow> bool" where
  "close_reported m reports s tx \<longleftrightarrow> (\<exists>n. (s, tx, n) \<in> reports \<and> spends_funding m s tx \<and> NB_CONFIRMATIONS m \<le> n)"

definition refund_reported :: "('s, 'x) manager_scheme \<Rightarrow> close_report set \<Rightarrow> signed_contract \<Rightarrow> bool" where
  "refund_reported m reports s \<longleftrightarrow> (\<exists>tx n. (s, tx, n) \<in> reports \<and> spends_funding m s tx \<and>
     txid_of m tx = txid_of m (dlc_refund (ac_dlc_transactions (sc_accepted_contract s))))"

fun settled :: "('s, 'x) manager_scheme \<Rightarrow> close_report set \<Rightarrow> contract \<Rightarrow> bool" where
  "settled m reports (Confirmed s) \<longleftrightarrow> funded m reports s"
| "settled m reports (PreClosed p) \<longleftrightarrow> funded m reports (pc_signed_contract p)"
| "settled m reports (Closed x) \<longleftrightarrow> funded m reports (cl_signed_contract x) \<and>
     (\<exists>tx. cl_signed_cet x = Some tx \<and>
       (confirmed_times m tx (max 1 (NB_CONFIRMATIONS m)) \<or> close_reported m reports (cl_signed_contract x) tx))"
| "settled m reports (Refunded s) \<longleftrightarrow> funded m reports s \<and> (refund_time m s \<or> refund_reported m reports s)"
| "settled m reports _ \<longleftrightarrow> True"

lemma funded_pending [simp]: "funded m reports (with_pending_close s tx) = funded m reports s"
  by (simp add: funded_def with_pending_close_def Let_def)

lemma held_settled: "held_contract c = Some s \<Longrightarrow> settled m reports c \<Longrightarrow> funded m reports s"
  by (cases c) auto

lemma closed_contract_cet: "closed_contract_of m s atts tx = Ok (Closed x) \<Longrightarrow> cl_signed_cet x = Some tx \<and> cl_signed_contract x = s"
  by (auto simp: closed_contract_of_def res_simps Let_def)

lemma reported_settled:
  assumes "(s, tx, n) \<in> reports" "spends_funding m s tx" "reported_contract m (s, tx, n) = Ok c"
  shows "settled m reports c"
proof -
  have f: "funded m reports s" using assms(1,2) by (auto simp: funded_def)
  have r: "refund_reported m reports s" if "txid_of m (dlc_refund (ac_dlc_transactions (sc_accepted_contract s))) = txid_of m tx"
    using assms(1,2) that by (auto simp: refund_reported_def)
  have k: "close_reported m reports s tx" if "\<not> n < NB_CONFIRMATIONS m"
    using assms(1,2) that by (auto simp: close_reported_def)
  show ?thesis
    using assms(3) closed_contract_id [of m s None tx c] closed_contract_cet [of m s None tx] f r k
    by (auto simp: reported_contract_def preclosed_of_def split: if_splits)
qed

lemma contract_step_settled:
  "contract_step m purge own reports S S' \<Longrightarrow> each (settled m reports) S \<Longrightarrow> each (settled m reports) S'"
proof (induction rule: contract_step.induct)
  case (closed S t c s p atts tx x)
  then have "funded m reports s" using eachD [of "settled m reports" S] by fastforce
  then show ?case using closed_contract_cet [OF closed(3)] closed by (intro each_upd) auto
next
  case (refunded S t c s i)
  then show ?case using held_settled eachD [of "settled m reports" S] by (fastforce intro: each_upd)
next
  case (reported s tx n S c i)
  then show ?case using reported_settled by (blast intro: each_upd)
next
  case (confirmed S t s i)
  then have "funded m reports s" by (simp add: funded_def)
  then show ?case using confirmed by (intro each_upd) auto
qed (auto intro!: each_upd each_stored dest: eachD)

lemma contract_steps_each:
  assumes "\<And>S S'. contract_step m purge own reports S S' \<Longrightarrow> each P S \<Longrightarrow> each P S'"
  shows "contract_steps m purge own reports S S' \<Longrightarrow> each P S \<Longrightarrow> each P S'"
  by (induction rule: rtranclp_induct) (auto intro: assms)

section \<open>Sequences of calls\<close>

fun run_calls :: "('s, 'x) manager_scheme \<Rightarrow> call list \<Rightarrow> 's manager_state \<Rightarrow> 's manager_state" where
  "run_calls m [] \<sigma> = \<sigma>"
| "run_calls m (c # cs) \<sigma> = run_calls m cs (snd (run_call m c \<sigma>))"

definition reports_in :: "call list \<Rightarrow> close_report set" where
  "reports_in cs = (\<Union>c\<in>set cs. reports_of c)"

lemma reports_in_simps [simp]: "reports_in [] = {}" "reports_in (c # cs) = reports_of c \<union> reports_in cs"
  by (simp_all add: reports_in_def)

fun follows_protocol :: "('s \<Rightarrow> bytes \<rightharpoonup> contract) \<Rightarrow> ('s, 'x) manager_scheme \<Rightarrow> call list \<Rightarrow> 's manager_state \<Rightarrow> bool" where
  "follows_protocol f m [] \<sigma> \<longleftrightarrow> True"
| "follows_protocol f m (c # cs) \<sigma> \<longleftrightarrow> by_the_protocol (f (ms_store \<sigma>)) c \<and> follows_protocol f m cs (snd (run_call m c \<sigma>))"

context contract_manager begin

lemma run_calls_steps:
  assumes "keyed (mg_api m) (abs_store (ms_store \<sigma>))" "own \<longrightarrow> follows_protocol abs_store m cs \<sigma>" "reports_in cs \<subseteq> reports"
  shows "steps (abs_store (ms_store \<sigma>)) (abs_store (ms_store (run_calls m cs \<sigma>)))"
  using assms
proof (induction cs arbitrary: \<sigma>)
  case (Cons c cs)
  let ?\<sigma>' = "snd (run_call m c \<sigma>)"
  have "steps (abs_store (ms_store \<sigma>)) (abs_store (ms_store ?\<sigma>'))"
    using run_call_steps [OF Cons.prems(1), of c] Cons.prems(2,3) by (auto simp: valid_def case_prod_beta)
  moreover from this have "keyed (mg_api m) (abs_store (ms_store ?\<sigma>'))" using contract_steps_keyed Cons.prems(1) by blast
  ultimately show ?case using Cons.IH [of ?\<sigma>'] Cons.prems(2,3) steps_trans by auto
qed simp

lemma run_calls_keyed:
  assumes "keyed (mg_api m) (abs_store (ms_store \<sigma>))" "own \<longrightarrow> follows_protocol abs_store m cs \<sigma>" "reports_in cs \<subseteq> reports"
  shows "keyed (mg_api m) (abs_store (ms_store (run_calls m cs \<sigma>)))"
  using run_calls_steps [OF assms] assms(1) by (rule contract_steps_keyed)

lemma run_calls_settled:
  assumes "abs_store (ms_store \<sigma>) = Map.empty" "own \<longrightarrow> follows_protocol abs_store m cs \<sigma>" "reports_in cs \<subseteq> reports"
  shows "each (settled m reports) (abs_store (ms_store (run_calls m cs \<sigma>)))"
  by (rule contract_steps_each [OF contract_step_settled run_calls_steps]) (use assms in \<open>simp_all add: keyed_def each_def\<close>)

lemma run_calls_good:
  assumes "abs_store (ms_store \<sigma>) = Map.empty" "own" "follows_protocol abs_store m cs \<sigma>" "reports_in cs \<subseteq> reports"
  shows "each (good (mg_api m)) (abs_store (ms_store (run_calls m cs \<sigma>)))"
proof (rule contract_steps_each)
  show "contract_step m purge own reports S S' \<Longrightarrow> each (good (mg_api m)) S \<Longrightarrow> each (good (mg_api m)) S'" for S S'
    using contract_step_good assms(2) by simp
  show "steps (abs_store (ms_store \<sigma>)) (abs_store (ms_store (run_calls m cs \<sigma>)))"
    by (rule run_calls_steps) (use assms in \<open>simp_all add: keyed_def\<close>)
qed (use assms in \<open>simp add: each_def\<close>)

end

text \<open>On a storage that does not fail.\<close>

locale reliable_manager = contract_manager m abs_store purge own reports + reliable_storage "mg_store m" abs_store "mg_api m" purge
  for m :: "('s, 'x) manager_scheme" and abs_store :: "'s \<Rightarrow> bytes \<rightharpoonup> contract" and purge :: bool and own :: bool
    and reports :: "close_report set"
begin

lemma in_state_run:
  assumes "abs_store (ms_store \<sigma>) i = Some c" "state c = Some x"
  shows "get_contract_in_state m i state None \<sigma> = (Ok x, \<sigma>)"
  using assms get_reliable by (simp add: get_contract_in_state_def and_do_def read_store_def lift_res_def)

lemma update_run:
  assumes "api_id c = Ok i"
  shows "\<exists>st. update_contract m c \<sigma> = (Ok (), \<sigma>\<lparr>ms_store := st\<rparr>) \<and> abs_store st = stored purge i c (abs_store (ms_store \<sigma>))"
proof -
  obtain r st where u: "st_update_contract (mg_store m) c (ms_store \<sigma>) = (r, st)" by fastforce
  moreover from this have "r = Ok ()" using update_reliable [OF assms, of "ms_store \<sigma>"] by simp
  ultimately show ?thesis using update_law [OF u] assms by (auto simp: update_contract_def write_store_def)
qed

lemma refund_goes_out:
  assumes "crypto_ok k (mg_api m)" "abs_store (ms_store \<sigma>) t = Some (Confirmed s)" "refundable (mg_api m) s" "api_id (Confirmed s) = Ok t"
    and "refund = dlc_refund (ac_dlc_transactions (sc_accepted_contract s))"
    and "tx_lock_time refund \<le> unix_time_now m (ms_calls \<sigma>)"
    and "transaction_confirmations m (Suc (ms_calls \<sigma>)) (txid_of m refund) = Ok status" "confirmations status = 0"
    and "\<And>tx. send_result m (Suc (Suc (ms_calls \<sigma>))) tx = Ok ()"
  shows "\<exists>tx v pk \<sigma>'. check_and_broadcast_refund m t \<sigma> = (Ok (Refunded s), \<sigma>') \<and> ms_sent \<sigma>' = ms_sent \<sigma> @ [tx] \<and>
    spends_multisig (mg_api m) tx 0 v pk (counterparty_key s) \<and> own_key (mg_api m) (sc_offered_contract s) pk \<and>
    same_but_witness refund tx \<and> abs_store (ms_store \<sigma>') t = Some (Refunded s)"
proof -
  let ?d = "ac_dlc_transactions (sc_accepted_contract s)"
  obtain sk out where r: "derive_contract_signer (mg_api m) (oc_keys_id (sc_offered_contract s)) = Ok sk"
    "funding_witness_script ?d = make_funding_redeemscript (pk_of_sk (mg_api m) sk) (counterparty_key s)"
    "get_fund_output (btc (mg_api m)) ?d = (Ok out :: (_, manager_error) res)"
    "verify_tx_input_sig (mg_api m) (counterparty_refund_sig s) refund 0
       (make_funding_redeemscript (pk_of_sk (mg_api m) sk) (counterparty_key s)) (out_value out) (counterparty_key s) = Ok ()"
    using assms(3,5) by (auto simp: refundable_def own_key_def Let_def)
  obtain tx where tx: "get_signed_refund (mg_api m) s sk = Ok tx"
    "spends_multisig (mg_api m) tx 0 (out_value out) (pk_of_sk (mg_api m) sk) (counterparty_key s)" "same_but_witness refund tx"
    using signed_refund_spends [OF assms(1) refl r(2,3)] r(4) assms(5) by blast
  let ?\<sigma>1 = "\<sigma>\<lparr>ms_calls := Suc (Suc (Suc (ms_calls \<sigma>))), ms_sent := ms_sent \<sigma> @ [tx]\<rparr>"
  have "api_id (Refunded s) = Ok t" using assms(4) by (simp add: get_id_def)
  then obtain st where st: "update_contract m (Refunded s) ?\<sigma>1 = (Ok (), ?\<sigma>1\<lparr>ms_store := st\<rparr>)"
    "abs_store st = (abs_store (ms_store \<sigma>))(t \<mapsto> Refunded s)"
    using update_run [of "Refunded s" t ?\<sigma>1] by auto
  have "check_and_broadcast_refund m t \<sigma> = (Ok (Refunded s), ?\<sigma>1\<lparr>ms_store := st\<rparr>)"
    using in_state_run [OF assms(2), of as_confirmed s] assms(5-9) r(1) tx(1) st(1)
    by (simp add: check_and_broadcast_refund_def sign_and_send_refund_def get_transaction_confirmations_def request_def ask_def
        and_do_def lift_res_def send_transaction_def Let_def)
  moreover have "own_key (mg_api m) (sc_offered_contract s) (pk_of_sk (mg_api m) sk)" using r(1) by (auto simp: own_key_def)
  ultimately show ?thesis using tx(2,3) st(2) by fastforce
qed

end

text \<open>The manager on the two storages.\<close>

definition on_memory :: "(contract_table, 'x) manager_scheme \<Rightarrow> (bytes \<Rightarrow> nat) \<Rightarrow> (contract_table, 'x) manager_scheme" where
  "on_memory m hash = m\<lparr>mg_store := memory_ops (mg_api m) hash\<rparr>"

definition on_sled :: "(contract_table, 'x) manager_scheme \<Rightarrow> (contract_table, 'x) manager_scheme" where
  "on_sled m = m\<lparr>mg_store := sled_ops (mg_api m)\<rparr>"

lemma on_memory_simps [simp]: "mg_store (on_memory m hash) = memory_ops (mg_api m) hash" "mg_api (on_memory m hash) = mg_api m"
  "NB_CONFIRMATIONS (on_memory m hash) = NB_CONFIRMATIONS m"
  by (simp_all add: on_memory_def)

lemma on_sled_simps [simp]: "mg_store (on_sled m) = sled_ops (mg_api m)" "mg_api (on_sled m) = mg_api m"
  "NB_CONFIRMATIONS (on_sled m) = NB_CONFIRMATIONS m"
  by (simp_all add: on_sled_def)

interpretation memory_manager: reliable_manager "on_memory m hash" DAList.lookup False own reports for m hash own reports
  by (simp add: reliable_manager_def contract_manager_def memory.contract_storage_axioms memory.reliable_storage_axioms)

interpretation sled_manager: reliable_manager "on_sled m" DAList.lookup True own reports for m own reports
  by (simp add: reliable_manager_def contract_manager_def sled.contract_storage_axioms sled.reliable_storage_axioms)

section \<open>The stored contracts\<close>

text \<open>A manager that starts with an empty storage.\<close>

definition fresh :: "contract_table manager_state" where
  "fresh = \<lparr>ms_store = DAList.empty, ms_calls = 0, ms_sent = []\<rparr>"

lemma fresh_store [simp]: "DAList.lookup (ms_store fresh) = Map.empty" "keyed api Map.empty"
  by (simp_all add: fresh_def keyed_def fun_eq_iff lookup_empty)

text \<open>
  C4. The life of a contract, in a manager that runs no DLC channels.  Whatever calls for contracts the application makes, those of
  \<open>on_counterparty_close\<close> among them, and whatever messages about contracts the peer sends, and whatever the
  wallet, the blockchain, the clock and the oracles answer, the stored contracts change by steps of the abstract machine only: offers
  are made or received under an unused identifier, an offer is accepted or its acceptance signed after the verification,
  a contract is confirmed, closed or refunded under the conditions of the machine, one contract at a time.  What the application reports
  with \<open>on_counterparty_close\<close> is a step of its own: the contract is the one of the report, whether it is stored or not, the transaction
  spends its funding output, and the number of confirmations is the reported one.
\<close>

theorem calls_are_contract_steps:
  "contract_steps (on_memory m hash) False False (reports_in cs) Map.empty (DAList.lookup (ms_store (run_calls (on_memory m hash) cs fresh))) \<and>
   contract_steps (on_sled m) True False (reports_in cs) Map.empty (DAList.lookup (ms_store (run_calls (on_sled m) cs fresh)))"
  using memory_manager.run_calls_steps [where hash = hash and own = False and reports = "reports_in cs" and \<sigma> = fresh and cs = cs and m = m]
    sled_manager.run_calls_steps [where own = False and reports = "reports_in cs" and \<sigma> = fresh and cs = cs and m = m] by simp

text \<open>
  C8. After any sequence of calls and messages for contracts, without DLC channels, every contract is stored under its own identifier,
  the one that is computed from its funding transaction once it is accepted and the temporary one before.
\<close>

theorem stored_under_identifier:
  "keyed (mg_api m) (DAList.lookup (ms_store (run_calls (on_memory m hash) cs fresh))) \<and>
   keyed (mg_api m) (DAList.lookup (ms_store (run_calls (on_sled m) cs fresh)))"
  using memory_manager.run_calls_keyed [where hash = hash and own = False and reports = "reports_in cs" and \<sigma> = fresh and cs = cs and m = m]
    sled_manager.run_calls_keyed [where own = False and reports = "reports_in cs" and \<sigma> = fresh and cs = cs and m = m] by simp

text \<open>
  C2. After any sequence of calls and messages for contracts, without DLC channels: but for what the application has reported with
  \<open>on_counterparty_close\<close>, a contract leaves the state \<open>Signed\<close> only after its funding transaction was seen, with the required number
  of confirmations; it is closed only after the closing transaction that is stored with it had that number and at least one; and it is
  refunded only after the lock time of the refund transaction.  A report is believed: a contract may be closed, also before its funding is
  seen, when the application has reported this very contract and this transaction with the required number of confirmations, and
  refunded when it has reported the refund transaction; the manager only checks that the reported transaction spends the funding output.
\<close>

theorem closed_after_confirmations_refunded_after_lock_time:
  "each (settled (on_memory m hash) (reports_in cs)) (DAList.lookup (ms_store (run_calls (on_memory m hash) cs fresh))) \<and>
   each (settled (on_sled m) (reports_in cs)) (DAList.lookup (ms_store (run_calls (on_sled m) cs fresh)))"
  using memory_manager.run_calls_settled [where hash = hash and own = False and reports = "reports_in cs" and \<sigma> = fresh and cs = cs and m = m]
    sled_manager.run_calls_settled [where own = False and reports = "reports_in cs" and \<sigma> = fresh and cs = cs and m = m] by simp

text \<open>
  C3. A confirmed contract can be refunded.  When the application and the peer have followed the protocol, then for every
  confirmed contract in the storage and after its lock time, \<open>check_and_broadcast_refund\<close> broadcasts a transaction that spends the
  funding output with the signatures of both parties and pays what the refund transaction pays, and stores the contract as
  refunded; the counterparty is not needed for it.
\<close>

theorem confirmed_contract_can_be_refunded:
  assumes "M = on_memory m hash \<or> M = on_sled m" "crypto_ok k (mg_api m)" "follows_protocol DAList.lookup M cs fresh"
    and "\<sigma> = run_calls M cs fresh" "DAList.lookup (ms_store \<sigma>) t = Some (Confirmed s)"
    and "refund = dlc_refund (ac_dlc_transactions (sc_accepted_contract s))"
    and "tx_lock_time refund \<le> unix_time_now M (ms_calls \<sigma>)"
    and "transaction_confirmations M (Suc (ms_calls \<sigma>)) (txid_of M refund) = Ok status" "confirmations status = 0"
    and "\<And>tx. send_result M (Suc (Suc (ms_calls \<sigma>))) tx = Ok ()"
  shows "\<exists>tx v pk \<sigma>'. check_and_broadcast_refund M t \<sigma> = (Ok (Refunded s), \<sigma>') \<and> ms_sent \<sigma>' = ms_sent \<sigma> @ [tx] \<and>
    spends_multisig (mg_api m) tx 0 v pk (counterparty_key s) \<and> own_key (mg_api m) (sc_offered_contract s) pk \<and>
    same_but_witness refund tx \<and> DAList.lookup (ms_store \<sigma>') t = Some (Refunded s)"
  using assms(1)
proof
  assume M: "M = on_memory m hash"
  have "each (good (mg_api m)) (DAList.lookup (ms_store \<sigma>))" "keyed (mg_api m) (DAList.lookup (ms_store \<sigma>))"
    using memory_manager.run_calls_good [where own = True and reports = "reports_in cs" and m = m and hash = hash and \<sigma> = fresh and cs = cs]
      memory_manager.run_calls_keyed [where own = True and reports = "reports_in cs" and m = m and hash = hash and \<sigma> = fresh and cs = cs] assms(3,4)
    by (simp_all add: M)
  then show ?thesis
    using memory_manager.refund_goes_out [where m = m and hash = hash and \<sigma> = \<sigma> and t = t and s = s and refund = refund, OF _ assms(5)]
      assms(2,5-10) keyedD eachD unfolding M by fastforce
next
  assume M: "M = on_sled m"
  have "each (good (mg_api m)) (DAList.lookup (ms_store \<sigma>))" "keyed (mg_api m) (DAList.lookup (ms_store \<sigma>))"
    using sled_manager.run_calls_good [where own = True and reports = "reports_in cs" and m = m and \<sigma> = fresh and cs = cs]
      sled_manager.run_calls_keyed [where own = True and reports = "reports_in cs" and m = m and \<sigma> = fresh and cs = cs] assms(3,4)
    by (simp_all add: M)
  then show ?thesis
    using sled_manager.refund_goes_out [where m = m and \<sigma> = \<sigma> and t = t and s = s and refund = refund, OF _ assms(5)]
      assms(2,5-10) keyedD eachD unfolding M by fastforce
qed

text \<open>The run of the example: an offer, its acceptance, the confirmation of the funding transaction, the refund.\<close>

lemma example_on_memory: "on_memory (example_manager late) (\<lambda>_. 0) = example_manager late"
  by (simp add: on_memory_def example_manager_def)

lemma example_run:
  "\<exists>s. is_example s \<and> run_calls (example_manager 6) example_calls fresh = \<lparr>ms_store = example_table (Confirmed s), ms_calls = 6, ms_sent = []\<rparr> \<and>
     follows_protocol DAList.lookup (example_manager 6) example_calls fresh"
proof -
  let ?m = "example_manager 6" and ?offer = "SendOfferWithAnnouncements example_contract_input [33] example_announcements"
  let ?\<sigma>1 = "\<lparr>ms_store = DAList.update [6] (Offered example_offered) DAList.empty, ms_calls = 1, ms_sent = []\<rparr>"
  have c1: "run_call ?m ?offer fresh = (Ok (), ?\<sigma>1)" using example_store_offer [of fresh 6] by (simp add: fresh_def)
  have l: "DAList.lookup (ms_store ?\<sigma>1) [6] = Some (Offered example_offered)" by (simp add: lookup_update)
  obtain s sm where a: "on_accept_message ?m example_accept_msg [33] ?\<sigma>1 =
      (Ok sm, ?\<sigma>1\<lparr>ms_calls := 3, ms_store := example_table (Signed s)\<rparr>)" "is_example s"
    using example_accept_arrives [OF l, of 6] by (auto simp: example_table_def)
  let ?\<sigma>2 = "\<lparr>ms_store = example_table (Signed s), ms_calls = 3, ms_sent = []\<rparr>"
  have c2: "run_call ?m (OnDlcMessage (AcceptMessage example_accept_msg) [33]) ?\<sigma>1 = (Ok (), ?\<sigma>2)"
    using a(1) by (simp add: ignore_def on_dlc_message_def and_do_def lift_res_def)
  have c3: "run_call ?m PeriodicCheck ?\<sigma>2 = (Ok (), \<lparr>ms_store = example_table (Confirmed s), ms_calls = 6, ms_sent = []\<rparr>)"
    using example_checks [of ?\<sigma>2 s 6] a(2) by simp
  have p: "by_the_protocol (DAList.lookup (ms_store ?\<sigma>1)) (OnDlcMessage (AcceptMessage example_accept_msg) [33])"
    using example_offered_fields by (simp add: lookup_update)
  show ?thesis
    using a(2) c1 c2 c3 p by (auto simp: example_calls_def simp del: run_call.simps by_the_protocol.simps(2))
qed

lemma confirmed_contract_can_be_refunded_witness:
  "\<exists>\<sigma> s tx v pk \<sigma>'. \<sigma> = run_calls (example_manager 6) example_calls fresh \<and> is_example s \<and>
     check_and_broadcast_refund (example_manager 6) [5] \<sigma> = (Ok (Refunded s), \<sigma>') \<and> ms_sent \<sigma>' = [tx] \<and>
     spends_multisig example_updater_api tx 0 v pk [13] \<and> tx_lock_time tx = 1700604800 \<and>
     DAList.lookup (ms_store \<sigma>') [5] = Some (Refunded s)"
proof -
  obtain s where r: "is_example s" "follows_protocol DAList.lookup (example_manager 6) example_calls fresh"
    "run_calls (example_manager 6) example_calls fresh = \<lparr>ms_store = example_table (Confirmed s), ms_calls = 6, ms_sent = []\<rparr>"
    using example_run by blast
  let ?refund = "dlc_refund (ac_dlc_transactions (sc_accepted_contract s))"
  have d: "?refund = dlc_refund example_dlc" "tx_lock_time (dlc_refund example_dlc) = 1700604800"
    "compute_txid (btc example_updater_api) (dlc_refund example_dlc) = [2]" "counterparty_key s = [13]"
    using r(1) example_txids example_offered_fields
    by (simp_all add: is_example_def example_dlc_def create_refund_transaction_def counterparty_key_def example_accept_params_def)
  have "\<exists>tx v pk \<sigma>'. check_and_broadcast_refund (example_manager 6) [5] (run_calls (example_manager 6) example_calls fresh) =
      (Ok (Refunded s), \<sigma>') \<and> ms_sent \<sigma>' = ms_sent (run_calls (example_manager 6) example_calls fresh) @ [tx] \<and>
      spends_multisig (mg_api (example_manager 6)) tx 0 v pk (counterparty_key s) \<and>
      own_key (mg_api (example_manager 6)) (sc_offered_contract s) pk \<and> same_but_witness ?refund tx \<and>
      DAList.lookup (ms_store \<sigma>') [5] = Some (Refunded s)"
    by (rule confirmed_contract_can_be_refunded [where M = "example_manager 6" and m = "example_manager 6" and hash = "\<lambda>_. 0"
          and k = 101 and cs = example_calls and status = NotFound])
      (use r d example_updater_api_ok in \<open>simp_all add: example_on_memory txid_of_def confirmations_def\<close>)
  then show ?thesis using r d by (fastforce simp: same_but_witness_def)
qed

section \<open>Offers of the peer\<close>

lemma role_plays_no_part:
  "make_dlc_transactions api (oc\<lparr>oc_is_offer_party := b\<rparr>) = make_dlc_transactions api oc"
  "verify_accepted api (oc\<lparr>oc_is_offer_party := b\<rparr>) = verify_accepted api oc"
  "own_cet_signatures api (oc\<lparr>oc_is_offer_party := b\<rparr>) = own_cet_signatures api oc"
  "all_inputs (oc\<lparr>oc_is_offer_party := b\<rparr>) = all_inputs oc"
proof -
  have l: "later_cets (oc\<lparr>oc_is_offer_party := b\<rparr>) = later_cets oc" by (simp add: later_cets_def fun_eq_iff)
  have v: "verify_later_info api (oc\<lparr>oc_is_offer_party := b\<rparr>) = verify_later_info api oc"
    by (simp add: verify_later_info_def l fun_eq_iff)
  show "make_dlc_transactions api (oc\<lparr>oc_is_offer_party := b\<rparr>) = make_dlc_transactions api oc"
    "verify_accepted api (oc\<lparr>oc_is_offer_party := b\<rparr>) = verify_accepted api oc"
    "own_cet_signatures api (oc\<lparr>oc_is_offer_party := b\<rparr>) = own_cet_signatures api oc"
    "all_inputs (oc\<lparr>oc_is_offer_party := b\<rparr>) = all_inputs oc"
    by (simp_all add: make_dlc_transactions_def verify_accepted_def own_cet_signatures_def all_inputs_def v fun_eq_iff)
qed

lemma verify_as_received:
  "verify_accepted_and_sign_contract api wallet lookup (oc\<lparr>oc_is_offer_party := b\<rparr>) msg =
     and_then (verify_accepted_and_sign_contract api wallet lookup oc msg) (\<lambda>(s, sm).
       Ok (s\<lparr>sc_accepted_contract := (sc_accepted_contract s)\<lparr>ac_offered_contract := oc\<lparr>oc_is_offer_party := b\<rparr>\<rparr>\<rparr>, sm))"
  by (simp add: verify_accepted_and_sign_contract_def verify_accepted_and_sign_contract_internal_def role_plays_no_part and_then_assoc
     case_prod_beta Let_def get_sign_dlc_def get_contract_id_def)

lemma signed_identifier:
  "verify_accepted_and_sign_contract api wallet lookup oc msg = Ok (s, sm) \<Longrightarrow>
    get_id api (Signed s) = (Ok (sm_contract_id sm) :: (_, manager_error) res)"
  by (auto simp: verify_accepted_and_sign_contract_def get_sign_dlc_def get_id_def res_simps)

lemma signed_own_refund:
  assumes "verify_accepted_and_sign_contract api wallet lookup oc msg = Ok (s, sm)" "\<not> oc_is_offer_party oc"
  shows "\<exists>sk v. derive_contract_signer api (oc_keys_id oc) = Ok sk \<and>
    get_raw_sig_for_tx_input api (dlc_refund (ac_dlc_transactions (sc_accepted_contract s))) 0
      (funding_witness_script (ac_dlc_transactions (sc_accepted_contract s))) v sk = Ok (counterparty_refund_sig s)"
  using assms
  by (auto simp: verify_accepted_and_sign_contract_def verify_accepted_and_sign_contract_internal_def counterparty_refund_sig_def
      res_simps Let_def)

context reliable_manager begin

lemma accept_run:
  assumes "abs_store (ms_store \<sigma>) (am_temporary_contract_id msg) = Some (Offered oc)" "oc_counter_party oc = peer"
    and "verify_accepted_and_sign_contract (mg_api m) (sign_psbt_input m (ms_calls \<sigma>)) (lookup_of m \<sigma>) oc msg = Ok (s, sm)"
    and "import_address m (Suc (ms_calls \<sigma>)) (funding_witness_script (ac_dlc_transactions (sc_accepted_contract s))) = Ok ()"
  shows "\<exists>\<sigma>'. on_accept_message m msg peer \<sigma> = (Ok sm, \<sigma>') \<and> abs_store (ms_store \<sigma>') (sm_contract_id sm) = Some (Signed s)"
proof -
  have found: "get_contract_in_state m (am_temporary_contract_id msg) as_offered (Some peer) \<sigma> = (Ok oc, \<sigma>)"
    using assms(1,2) get_reliable
    by (simp add: get_contract_in_state_def and_do_def read_store_def lift_res_def get_counter_party_id_def offer_of_contract_def)
  let ?\<sigma>1 = "\<sigma>\<lparr>ms_calls := Suc (Suc (ms_calls \<sigma>))\<rparr>"
  obtain st where st: "update_contract m (Signed s) ?\<sigma>1 = (Ok (), ?\<sigma>1\<lparr>ms_store := st\<rparr>)"
    "abs_store st = stored purge (sm_contract_id sm) (Signed s) (abs_store (ms_store \<sigma>))"
    using update_run [OF signed_identifier [OF assms(3)], of ?\<sigma>1] by auto
  have "on_accept_message m msg peer \<sigma> = (Ok sm, ?\<sigma>1\<lparr>ms_store := st\<rparr>)"
    using found assms(3,4) st(1)
    by (simp add: on_accept_message_def and_do_def on_result_def request_def ask_def lift_res_def)
  then show ?thesis using st(2) by (simp add: stored_apply)
qed

end

text \<open>
  C39. An acceptance that arrives for an offer that was received, not made, is handled as one of an own offer: whenever the
  verification succeeds, \<open>on_accept_message\<close> answers the peer with the sign message, with the signatures of the wallet for the
  funding inputs that the offer names, and stores the contract as signed.  The refund signature that is then
  kept as that of the counterparty is one that the party has made itself.  This holds on both storages.
\<close>

theorem acceptance_of_received_offer_signed:
  assumes "M = on_memory m hash \<or> M = on_sled m"
    and "DAList.lookup (ms_store \<sigma>) (am_temporary_contract_id msg) = Some (Offered oc)" "oc_counter_party oc = peer" "\<not> oc_is_offer_party oc"
    and "verify_accepted_and_sign_contract (mg_api M) (sign_psbt_input M (ms_calls \<sigma>)) (lookup_of M \<sigma>) oc msg = Ok (s, sm)"
    and "import_address M (Suc (ms_calls \<sigma>)) (funding_witness_script (ac_dlc_transactions (sc_accepted_contract s))) = Ok ()"
  shows "\<exists>\<sigma>' sk v. on_accept_message M msg peer \<sigma> = (Ok sm, \<sigma>') \<and>
    DAList.lookup (ms_store \<sigma>') (sm_contract_id sm) = Some (Signed s) \<and>
    derive_contract_signer (mg_api M) (oc_keys_id oc) = Ok sk \<and>
    get_raw_sig_for_tx_input (mg_api M) (dlc_refund (ac_dlc_transactions (sc_accepted_contract s))) 0
      (funding_witness_script (ac_dlc_transactions (sc_accepted_contract s))) v sk = Ok (counterparty_refund_sig s)"
  using assms(1) signed_own_refund [OF assms(5,4)]
    memory_manager.accept_run [where m = m and hash = hash and \<sigma> = \<sigma> and msg = msg and oc = oc and peer = peer and s = s and sm = sm]
    sled_manager.accept_run [where m = m and \<sigma> = \<sigma> and msg = msg and oc = oc and peer = peer and s = s and sm = sm] assms(2,3,5,6)
  by auto

text \<open>The offer of the example as one that was received.\<close>

lemma acceptance_of_received_offer_signed_witness:
  "\<exists>\<sigma> s sm \<sigma>' sk v. DAList.lookup (ms_store \<sigma>) [6] = Some (Offered (example_offered\<lparr>oc_is_offer_party := False\<rparr>)) \<and>
     on_accept_message (example_manager 6) example_accept_msg [33] \<sigma> = (Ok sm, \<sigma>') \<and>
     DAList.lookup (ms_store \<sigma>') (sm_contract_id sm) = Some (Signed s) \<and> derive_contract_signer example_updater_api [1] = Ok sk \<and>
     get_raw_sig_for_tx_input example_updater_api (dlc_refund example_dlc) 0 (funding_witness_script example_dlc) v sk =
       Ok (counterparty_refund_sig s)"
proof -
  let ?oc = "example_offered\<lparr>oc_is_offer_party := False\<rparr>"
  let ?\<sigma> = "\<lparr>ms_store = DAList.update [6] (Offered ?oc) DAList.empty, ms_calls = 0, ms_sent = []\<rparr>"
  let ?l = "lookup_of (example_manager 6) ?\<sigma>"
  obtain s' sm where v: "verify_accepted_and_sign_contract example_updater_api example_wallet ?l example_offered example_accept_msg = Ok (s', sm)"
    "ac_dlc_transactions (sc_accepted_contract s') = example_dlc" using example_sign [of ?l] by blast
  let ?s = "s'\<lparr>sc_accepted_contract := (sc_accepted_contract s')\<lparr>ac_offered_contract := ?oc\<rparr>\<rparr>"
  have t: "am_temporary_contract_id example_accept_msg = [6]"
    using example_offered_fields
    by (simp add: example_accept_msg_def get_accept_contract_msg_def example_accepted_def example_received_def received_as_def)
  have "\<exists>\<sigma>' sk v. on_accept_message (example_manager 6) example_accept_msg [33] ?\<sigma> = (Ok sm, \<sigma>') \<and>
    DAList.lookup (ms_store \<sigma>') (sm_contract_id sm) = Some (Signed ?s) \<and>
    derive_contract_signer (mg_api (example_manager 6)) (oc_keys_id ?oc) = Ok sk \<and>
    get_raw_sig_for_tx_input (mg_api (example_manager 6)) (dlc_refund (ac_dlc_transactions (sc_accepted_contract ?s))) 0
      (funding_witness_script (ac_dlc_transactions (sc_accepted_contract ?s))) v sk = Ok (counterparty_refund_sig ?s)"
    by (rule acceptance_of_received_offer_signed [where m = "example_manager 6" and hash = "\<lambda>_. 0"])
      (simp_all add: example_on_memory t lookup_update example_offer_peer verify_as_received v)
  then show ?thesis using v(2) example_offered_fields by (intro exI [of _ ?\<sigma>]) (auto simp: lookup_update)
qed

text \<open>
  C40. The storage in memory keeps an offer when its acceptance is signed: after \<open>on_accept_message\<close> the offer is still there
  for the peer, whose next acceptance is verified and signed as the first, and what was stored under the identifier of the
  contract is a signed contract again.
\<close>

theorem offer_stays_in_memory:
  assumes "on_accept_message (on_memory m hash) msg peer \<sigma> = (Ok sm, \<sigma>')" "sm_contract_id sm \<noteq> am_temporary_contract_id msg"
  shows "\<exists>oc s. DAList.lookup (ms_store \<sigma>') (am_temporary_contract_id msg) = Some (Offered oc) \<and> oc_counter_party oc = peer \<and>
    DAList.lookup (ms_store \<sigma>') (sm_contract_id sm) = Some (Signed s)"
proof -
  let ?m = "on_memory m hash" and ?t = "am_temporary_contract_id msg"
  obtain oc where oc: "get_contract_in_state ?m ?t as_offered (Some peer) \<sigma> = (Ok oc, \<sigma>)"
    using assms(1) by (auto simp: on_accept_message_def and_do_def get_contract_in_state_def read_store_def lift_res_def split: res.splits)
  have o: "DAList.lookup (ms_store \<sigma>) ?t = Some (Offered oc)" "oc_counter_party oc = peer"
    using memory_manager.in_state_found [where m = m and hash = hash and \<sigma> = \<sigma>, of ?t as_offered "Some peer" oc] oc
    by (auto simp: get_counter_party_id_def offer_of_contract_def)
  obtain s \<sigma>1 where v: "get_id (mg_api m) (Signed s) = (Ok (sm_contract_id sm) :: (_, manager_error) res)"
    "update_contract ?m (Signed s) \<sigma>1 = (Ok (), \<sigma>')" "ms_store \<sigma>1 = ms_store \<sigma>"
    using assms(1) oc
    by (auto simp: on_accept_message_def and_do_def on_result_def request_def ask_def lift_res_def accept_fail_on_error_def
        split: res.splits prod.splits dest!: signed_identifier)
  then have "DAList.lookup (ms_store \<sigma>') = (DAList.lookup (ms_store \<sigma>))(sm_contract_id sm \<mapsto> Signed s)"
    using memory_manager.update_run [where m = m and hash = hash and c = "Signed s" and i = "sm_contract_id sm" and \<sigma> = \<sigma>1]
    by (auto simp: stored_def purged_id_def)
  then show ?thesis using o assms(2) by auto
qed

lemma offer_stays_in_memory_witness:
  "\<exists>\<sigma> \<sigma>' sm oc s. on_accept_message (example_manager 6) example_accept_msg [33] \<sigma> = (Ok sm, \<sigma>') \<and> sm_contract_id sm = [5] \<and>
     DAList.lookup (ms_store \<sigma>') [6] = Some (Offered oc) \<and> oc_counter_party oc = [33] \<and> DAList.lookup (ms_store \<sigma>') [5] = Some (Signed s)"
proof -
  let ?\<sigma> = "\<lparr>ms_store = DAList.update [6] (Offered example_offered) DAList.empty, ms_calls = 1, ms_sent = []\<rparr>"
  have l: "DAList.lookup (ms_store ?\<sigma>) [6] = Some (Offered example_offered)" by (simp add: lookup_update)
  obtain sm \<sigma>' where a: "on_accept_message (example_manager 6) example_accept_msg [33] ?\<sigma> = (Ok sm, \<sigma>')" "sm_contract_id sm = [5]"
    using example_accept_arrives [OF l, of 6] by (auto simp: example_id)
  have t: "am_temporary_contract_id example_accept_msg = [6]"
    using example_offered_fields
    by (simp add: example_accept_msg_def get_accept_contract_msg_def example_accepted_def example_received_def received_as_def)
  have "\<exists>oc s. DAList.lookup (ms_store \<sigma>') [6] = Some (Offered oc) \<and> oc_counter_party oc = [33] \<and>
      DAList.lookup (ms_store \<sigma>') (sm_contract_id sm) = Some (Signed s)"
    using offer_stays_in_memory [where m = "example_manager 6" and hash = "\<lambda>_. 0" and \<sigma> = ?\<sigma>, unfolded example_on_memory, OF a(1)] a(2) t by simp
  then show ?thesis using a by (intro exI [of _ ?\<sigma>] exI [of _ \<sigma>'] exI [of _ sm]) auto
qed

end
