(* ===== verification/Chain_Monitor.thy ===== *)
theory Chain_Monitor
  imports Signatures "HOL-Library.DAList"
begin

text \<open>
  \<open>ddk-manager/src/chain_monitor.rs\<close>: the transactions and the transaction outputs that the manager watches on the blockchain for
  its channels.  The two hash maps are association lists; \<open>hash_order\<close> is the order in which the values of a hash
  map are listed.
\<close>

section \<open>State\<close>

datatype revoked_tx_type = RevokedBuffer | RevokedSettle

datatype tx_type =
    Revoked (tt_update_idx: nat) (tt_own_adaptor_signature: adaptor_sig) (tt_is_offer: bool) (tt_revoked_tx_type: revoked_tx_type)
  | BufferTx
  | CollaborativeClose
  | SettleTx
  | Cet

record channel_info =
  ch_channel_id :: bytes
  ch_tx_type :: tx_type

datatype watch_state = Registered channel_info | ConfirmedBy channel_info transaction

record chain_monitor =
  watched_tx :: "(bytes, watch_state) alist"
  watched_txo :: "(out_point, watch_state) alist"
  last_height :: nat

section \<open>Operations\<close>

definition monitor_new :: "nat \<Rightarrow> chain_monitor" where
  "monitor_new init_height = \<lparr>watched_tx = DAList.empty, watched_txo = DAList.empty, last_height = init_height\<rparr>"

definition monitor_is_empty :: "chain_monitor \<Rightarrow> bool" where
  "monitor_is_empty m \<longleftrightarrow> DAList.impl_of (watched_tx m) = []"

fun confirm_watch :: "transaction \<Rightarrow> watch_state \<Rightarrow> watch_state" where
  "confirm_watch tx (Registered ci) = ConfirmedBy ci tx"
| "confirm_watch tx (ConfirmedBy ci tx') = ConfirmedBy ci tx'"

fun watch_info :: "watch_state \<Rightarrow> channel_info" where
  "watch_info (Registered ci) = ci"
| "watch_info (ConfirmedBy ci _) = ci"

definition add_txo :: "out_point \<Rightarrow> channel_info \<Rightarrow> chain_monitor \<Rightarrow> chain_monitor" where
  "add_txo outpoint ci m = m\<lparr>watched_txo := DAList.update outpoint (Registered ci) (watched_txo m)\<rparr>"

definition add_tx :: "bytes \<Rightarrow> channel_info \<Rightarrow> chain_monitor \<Rightarrow> chain_monitor" where
  "add_tx txid ci m =
     (let m = m\<lparr>watched_tx := DAList.update txid (Registered ci) (watched_tx m)\<rparr> in
      if ch_tx_type ci = BufferTx
      then add_txo \<lparr>op_txid = txid, op_vout = 0\<rparr> \<lparr>ch_channel_id = ch_channel_id ci, ch_tx_type = Cet\<rparr> m
      else m)"

definition cleanup_channel :: "bytes \<Rightarrow> chain_monitor \<Rightarrow> chain_monitor" where
  "cleanup_channel channel_id m =
     m\<lparr>watched_tx := DAList.filter (\<lambda>(_, s). ch_channel_id (watch_info s) \<noteq> channel_id) (watched_tx m),
       watched_txo := DAList.filter (\<lambda>(_, s). ch_channel_id (watch_info s) \<noteq> channel_id) (watched_txo m)\<rparr>"

definition remove_tx :: "bytes \<Rightarrow> chain_monitor \<Rightarrow> chain_monitor" where
  "remove_tx txid m = m\<lparr>watched_tx := DAList.delete txid (watched_tx m)\<rparr>"

definition process_tx :: "bitcoin_api \<Rightarrow> transaction \<Rightarrow> chain_monitor \<Rightarrow> chain_monitor" where
  "process_tx api tx m =
     m\<lparr>watched_tx := DAList.map_entry (compute_txid api tx) (confirm_watch tx) (watched_tx m),
       watched_txo := fold (\<lambda>txin. DAList.map_entry (previous_output txin) (confirm_watch tx)) (tx_input tx) (watched_txo m)\<rparr>"

definition process_block :: "bitcoin_api \<Rightarrow> transaction list \<Rightarrow> nat \<Rightarrow> chain_monitor \<Rightarrow> (chain_monitor, 'e) res" where
  "process_block api txdata height m =
     and_then (assert_that (last_height m + 1 = height)) (\<lambda>_.
       let m = fold (process_tx api) txdata m in Ok (m\<lparr>last_height := last_height m + 1\<rparr>))"

definition confirmed_txs ::
  "((bytes \<times> watch_state) list \<Rightarrow> watch_state list) \<Rightarrow> ((out_point \<times> watch_state) list \<Rightarrow> watch_state list) \<Rightarrow> chain_monitor
    \<Rightarrow> (transaction \<times> channel_info) list" where
  "confirmed_txs tx_order txo_order m =
     List.map_filter (\<lambda>s. case s of Registered _ \<Rightarrow> None | ConfirmedBy ci tx \<Rightarrow> Some (tx, ci))
       (tx_order (DAList.impl_of (watched_tx m)) @ txo_order (DAList.impl_of (watched_txo m)))"

section \<open>What is watched is found\<close>

text \<open>The state of a watched item after the transactions \<open>txs\<close>, of which those with \<open>hit\<close> concern it.\<close>

definition after_txs :: "(transaction \<Rightarrow> bool) \<Rightarrow> transaction list \<Rightarrow> watch_state \<Rightarrow> watch_state" where
  "after_txs hit txs s = (case s of Registered ci \<Rightarrow> (case find hit txs of Some tx \<Rightarrow> ConfirmedBy ci tx | None \<Rightarrow> s) | _ \<Rightarrow> s)"

lemma confirm_watch_idem [simp]: "confirm_watch tx (confirm_watch tx s) = confirm_watch tx s"
  by (cases s) simp_all

lemma after_txs_Nil [simp]: "after_txs hit [] s = s"
  by (cases s) (simp_all add: after_txs_def)

lemma after_txs_Nil_fun [simp]: "after_txs hit [] = (\<lambda>s. s)"
  by (rule ext) simp

lemma after_txs_Cons [simp]: "after_txs hit (tx # txs) s = after_txs hit txs (if hit tx then confirm_watch tx s else s)"
proof (cases s)
  case (Registered ci)
  then show ?thesis by (cases "hit tx") (simp_all add: after_txs_def)
qed (simp add: after_txs_def)

lemma after_txs_append: "after_txs hit (txs @ txs') s = after_txs hit txs' (after_txs hit txs s)"
  by (induction txs arbitrary: s) simp_all

lemma lookup_map_entry:
  "DAList.lookup (DAList.map_entry k f t) j = (if j = k then map_option f (DAList.lookup t k) else DAList.lookup t j)"
  by (simp add: DAList.lookup.rep_eq DAList.map_entry.rep_eq map_of_map_entry split: option.split)

lemma process_inputs:
  "DAList.lookup (fold (\<lambda>txin. DAList.map_entry (previous_output txin) (confirm_watch tx)) ins t) op =
     map_option (\<lambda>s. if op \<in> set (map previous_output ins) then confirm_watch tx s else s) (DAList.lookup t op)"
proof (induction ins arbitrary: t)
  case (Cons i ins)
  show ?case
    by (cases "DAList.lookup t op") (auto simp: Cons.IH lookup_map_entry)
qed (simp add: option.map_ident)

lemma process_tx_simps:
  "DAList.lookup (watched_tx (process_tx api tx m)) txid =
     map_option (\<lambda>s. if compute_txid api tx = txid then confirm_watch tx s else s) (DAList.lookup (watched_tx m) txid)"
  "DAList.lookup (watched_txo (process_tx api tx m)) op =
     map_option (\<lambda>s. if op \<in> set (map previous_output (tx_input tx)) then confirm_watch tx s else s) (DAList.lookup (watched_txo m) op)"
  "last_height (process_tx api tx m) = last_height m"
  by (simp_all add: process_tx_def lookup_map_entry process_inputs option.map_ident)

lemma process_txs:
  "DAList.lookup (watched_tx (fold (process_tx api) txs m)) txid =
     map_option (after_txs (\<lambda>tx. compute_txid api tx = txid) txs) (DAList.lookup (watched_tx m) txid) \<and>
   DAList.lookup (watched_txo (fold (process_tx api) txs m)) op =
     map_option (after_txs (\<lambda>tx. op \<in> set (map previous_output (tx_input tx))) txs) (DAList.lookup (watched_txo m) op) \<and>
   last_height (fold (process_tx api) txs m) = last_height m"
proof (induction txs arbitrary: m)
  case (Cons tx txs)
  show ?case
    by (cases "DAList.lookup (watched_tx m) txid"; cases "DAList.lookup (watched_txo m) op";
        simp add: Cons.IH process_tx_simps)
qed (simp add: option.map_ident)

definition process_blocks :: "bitcoin_api \<Rightarrow> transaction list list \<Rightarrow> chain_monitor \<Rightarrow> (chain_monitor, 'e) res" where
  "process_blocks api blocks m =
     fold_res (\<lambda>(height, block). process_block api block height) (enumerate (Suc (last_height m)) blocks) m"

lemma after_txs_twice: "after_txs hit txs' \<circ> after_txs hit txs = after_txs hit (txs @ txs')"
  by (simp add: fun_eq_iff after_txs_append)

lemma process_blocks:
  "\<exists>m'. process_blocks api blocks m = (Ok m' :: (_, 'a) res) \<and> last_height m' = last_height m + length blocks \<and>
     (\<forall>txid. DAList.lookup (watched_tx m') txid =
        map_option (after_txs (\<lambda>tx. compute_txid api tx = txid) (concat blocks)) (DAList.lookup (watched_tx m) txid)) \<and>
     (\<forall>op. DAList.lookup (watched_txo m') op =
        map_option (after_txs (\<lambda>tx. op \<in> set (map previous_output (tx_input tx))) (concat blocks)) (DAList.lookup (watched_txo m) op))"
proof (induction blocks arbitrary: m)
  case Nil
  then show ?case by (simp add: process_blocks_def option.map_ident)
next
  case (Cons b blocks)
  let ?n = "(fold (process_tx api) b m)\<lparr>last_height := Suc (last_height m)\<rparr>"
  have p: "process_block api b (Suc (last_height m)) m = (Ok ?n :: (_, 'a) res)"
    by (simp add: process_block_def process_txs)
  obtain m' where "process_blocks api blocks ?n = (Ok m' :: (_, 'a) res)" and m': "last_height m' = last_height ?n + length blocks"
    "\<forall>txid. DAList.lookup (watched_tx m') txid =
        map_option (after_txs (\<lambda>tx. compute_txid api tx = txid) (concat blocks)) (DAList.lookup (watched_tx ?n) txid)"
    "\<forall>op. DAList.lookup (watched_txo m') op =
        map_option (after_txs (\<lambda>tx. op \<in> set (map previous_output (tx_input tx))) (concat blocks)) (DAList.lookup (watched_txo ?n) op)"
    using Cons.IH [of ?n] by blast
  then have "process_blocks api (b # blocks) m = (Ok m' :: (_, 'a) res)"
    by (simp add: process_blocks_def p)
  then show ?case
    using m' by (simp add: process_txs option.map_comp after_txs_twice)
qed

lemma confirmed_txs_set:
  assumes "\<And>xs. set (tx_order xs) = snd ` set xs" and "\<And>xs. set (txo_order xs) = snd ` set xs"
  shows "set (confirmed_txs tx_order txo_order m) =
    {(tx, ci). (\<exists>txid. DAList.lookup (watched_tx m) txid = Some (ConfirmedBy ci tx)) \<or>
       (\<exists>op. DAList.lookup (watched_txo m) op = Some (ConfirmedBy ci tx))}"
proof -
  have v: "snd ` set (DAList.impl_of t) = {s. \<exists>k. DAList.lookup t k = Some s}" for t :: "('k, watch_state) alist"
    by (force simp: DAList.lookup.rep_eq map_of_eq_Some_iff)
  have f: "set (List.map_filter g xs) = {y. \<exists>x\<in>set xs. g x = Some y}" for g :: "watch_state \<Rightarrow> (transaction \<times> channel_info) option" and xs
    by (induction xs) (auto simp: map_filter_simps split: option.splits)
  have g: "(case s of Registered _ \<Rightarrow> None | ConfirmedBy ci tx \<Rightarrow> Some (tx, ci)) = Some (tx, ci) \<longleftrightarrow> s = ConfirmedBy ci tx" for s tx ci
    by (cases s) auto
  have "set (confirmed_txs tx_order txo_order m) =
      {(tx, ci). ConfirmedBy ci tx \<in> snd ` set (DAList.impl_of (watched_tx m)) \<union> snd ` set (DAList.impl_of (watched_txo m))}"
    unfolding confirmed_txs_def f set_append assms by (simp add: g set_eq_iff Bex_def)
  then show ?thesis unfolding v by simp
qed
text \<open>
  C11. What the manager watches is found.  After any number of blocks the monitor has advanced by as many heights; a watched
  transaction is confirmed exactly when it is in one of the blocks, and a watched output when a transaction of the blocks spends it,
  by the first one that does; \<open>confirmed_txs\<close> returns exactly these.
\<close>

theorem watched_transactions_found:
  assumes "\<And>xs. set (tx_order xs) = snd ` set xs" and "\<And>xs. set (txo_order xs) = snd ` set xs"
  shows "\<exists>m'. process_blocks api blocks m = (Ok m' :: (_, 'e) res) \<and> last_height m' = last_height m + length blocks \<and>
    set (confirmed_txs tx_order txo_order m') =
      {(tx, ci). (\<exists>txid. DAList.lookup (watched_tx m) txid = Some (ConfirmedBy ci tx) \<or>
           DAList.lookup (watched_tx m) txid = Some (Registered ci) \<and> find (\<lambda>tx. compute_txid api tx = txid) (concat blocks) = Some tx) \<or>
         (\<exists>op. DAList.lookup (watched_txo m) op = Some (ConfirmedBy ci tx) \<or>
           DAList.lookup (watched_txo m) op = Some (Registered ci) \<and>
           find (\<lambda>tx. op \<in> set (map previous_output (tx_input tx))) (concat blocks) = Some tx)}"
proof -
  have a: "map_option (after_txs hit txs) z = Some (ConfirmedBy ci tx) \<longleftrightarrow>
      z = Some (ConfirmedBy ci tx) \<or> z = Some (Registered ci) \<and> find hit txs = Some tx" for hit txs z ci tx
  proof (cases z)
    case (Some s)
    then show ?thesis by (cases s; cases "find hit txs") (auto simp: after_txs_def)
  qed simp
  obtain m' where m': "process_blocks api blocks m = (Ok m' :: (_, 'e) res)" "last_height m' = last_height m + length blocks"
    "\<forall>txid. DAList.lookup (watched_tx m') txid =
        map_option (after_txs (\<lambda>tx. compute_txid api tx = txid) (concat blocks)) (DAList.lookup (watched_tx m) txid)"
    "\<forall>op. DAList.lookup (watched_txo m') op =
        map_option (after_txs (\<lambda>tx. op \<in> set (map previous_output (tx_input tx))) (concat blocks)) (DAList.lookup (watched_txo m) op)"
    using process_blocks [of api blocks m] by blast
  show ?thesis
    by (intro exI [of _ m'] conjI) (simp_all only: m' confirmed_txs_set [OF assms] a)
qed

definition example_monitor :: chain_monitor where
  "example_monitor = add_tx [1] \<lparr>ch_channel_id = [7], ch_tx_type = BufferTx\<rparr> (monitor_new 100)"

theorem watched_transactions_found_witness:
  "\<exists>m'. process_blocks (example_api\<lparr>compute_txid := \<lambda>tx. [tx_lock_time tx]\<rparr>) [[], [\<lparr>tx_version = 2, tx_lock_time = 1, tx_input = [], tx_output = []\<rparr>]]
      example_monitor = (Ok m' :: (_, unit) res) \<and> last_height m' = 102 \<and>
     (\<lparr>tx_version = 2, tx_lock_time = 1, tx_input = [], tx_output = []\<rparr>, \<lparr>ch_channel_id = [7], ch_tx_type = BufferTx\<rparr>)
       \<in> set (confirmed_txs (map snd) (map snd) m')"
  using watched_transactions_found [of "map snd" "map snd"
      "example_api\<lparr>compute_txid := \<lambda>tx. [tx_lock_time tx]\<rparr>" "[[], [\<lparr>tx_version = 2, tx_lock_time = 1, tx_input = [], tx_output = []\<rparr>]]"
      example_monitor]
  by (auto simp: example_monitor_def add_tx_def add_txo_def monitor_new_def Let_def)

end
