(* ===== verification/Channel_Data.thy ===== *)
theory Channel_Data
  imports Chain_Monitor Contract_Updater Channel_Messages
begin

text \<open>
  The states of a DLC channel: \<open>ddk-manager/src/channel/\<close> \<open>mod.rs\<close>, \<open>offered_channel.rs\<close>, \<open>accepted_channel.rs\<close>,
  \<open>signed_channel.rs\<close>, \<open>party_points.rs\<close> and \<open>utils.rs\<close>.  A variant of an enumeration that has fields is a constructor over a record
  of its fields.  The serialization (\<open>ser.rs\<close>) is not modelled.
\<close>

section \<open>What channels use of other crates\<close>

text \<open>
  The miniscript functions of \<open>channel_api\<close>; \<open>SecretKey::from_slice(build_commitment_secret(seed, idx))\<close> (\<open>None\<close> when the bytes are
  not a key), \<open>derive_private_key\<close>, \<open>derive_private_revocation_key\<close> and \<open>CounterpartyCommitmentSecrets\<close> of the lightning crate,
  whose value is a list of pairs of a secret and an index; \<open>EcdsaAdaptorSignature::recover\<close>; and
  \<open>ContractSignerProvider::get_secret_key_for_pubkey\<close>.
\<close>

type_synonym commitment_secrets = "(seckey \<times> nat) list"

record channel_deps =
  dep_ms_valid :: "descriptor \<Rightarrow> bool"
  dep_ms_script_pubkey :: "descriptor \<Rightarrow> script"
  dep_ms_script_code :: "descriptor \<Rightarrow> script option"
  dep_ms_satisfy :: "descriptor \<Rightarrow> tx_in \<Rightarrow> (pubkey \<times> bytes) list \<Rightarrow> tx_in option"
  dep_var_int_size :: "nat \<Rightarrow> nat"
  commitment_secret :: "seckey \<Rightarrow> nat \<Rightarrow> seckey option"
  derive_private_key :: "pubkey \<Rightarrow> seckey \<Rightarrow> seckey"
  derive_private_revocation_key :: "seckey \<Rightarrow> seckey \<Rightarrow> seckey"
  new_secrets :: commitment_secrets
  provide_secret :: "commitment_secrets \<Rightarrow> nat \<Rightarrow> seckey \<Rightarrow> commitment_secrets option"
  get_secret :: "commitment_secrets \<Rightarrow> nat \<Rightarrow> seckey option"
  adaptor_recover :: "adaptor_sig \<Rightarrow> ecdsa_sig \<Rightarrow> pubkey \<Rightarrow> seckey option"
  get_secret_key_for_pubkey :: "pubkey \<Rightarrow> (seckey, manager_error) res"

definition channel_of :: "('m) message_api_scheme \<Rightarrow> channel_deps \<Rightarrow> channel_api" where
  "channel_of api deps = crypto_api.extend (crypto_api.truncate api)
     (channel_api.fields (dep_ms_valid deps) (dep_ms_script_pubkey deps) (dep_ms_script_code deps) (dep_ms_satisfy deps)
        (dep_var_int_size deps))"

lemma channel_of_simps [simp]:
  "ms_valid (channel_of api deps) = dep_ms_valid deps" "ms_script_pubkey (channel_of api deps) = dep_ms_script_pubkey deps"
  "ms_script_code (channel_of api deps) = dep_ms_script_code deps" "ms_satisfy (channel_of api deps) = dep_ms_satisfy deps"
  "compute_txid (channel_of api deps) = compute_txid api" "to_p2wsh (channel_of api deps) = to_p2wsh api"
  "sighash_all (channel_of api deps) = sighash_all api" "ecdsa_sign (channel_of api deps) = ecdsa_sign api"
  "ecdsa_verify (channel_of api deps) = ecdsa_verify api" "pk_of_sk (channel_of api deps) = pk_of_sk api"
  "adaptor_encrypt (channel_of api deps) = adaptor_encrypt api" "adaptor_decrypt (channel_of api deps) = adaptor_decrypt api"
  "adaptor_verify (channel_of api deps) = adaptor_verify api" "serialize_der (channel_of api deps) = serialize_der api"
  "crypto_api.truncate (channel_of api deps) = crypto_api.truncate api"
  by (simp_all add: channel_of_def channel_api.defs crypto_api.defs)

section \<open>Points\<close>

record party_base_points =
  own_basepoint :: pubkey
  revocation_basepoint :: pubkey
  publish_basepoint :: pubkey

definition derive_public_key :: "('m) oracle_api_scheme \<Rightarrow> pubkey \<Rightarrow> pubkey \<Rightarrow> (pubkey, 'e) res" where
  "derive_public_key api per_commitment_point base_point =
     and_then (unwrap (seckey_from_slice api (sha256 api (per_commitment_point @ base_point)))) (\<lambda>sk.
       unwrap (combine_keys api [base_point, pk_of_sk api sk]))"

definition derive_public_revocation_key :: "('m) oracle_api_scheme \<Rightarrow> pubkey \<Rightarrow> pubkey \<Rightarrow> (pubkey, 'e) res" where
  "derive_public_revocation_key api per_commitment_point countersignatory_revocation_base_point =
     (let rev_append_commit_hash_key = sha256 api (countersignatory_revocation_base_point @ per_commitment_point);
          commit_append_rev_hash_key = sha256 api (per_commitment_point @ countersignatory_revocation_base_point) in
      and_then (unwrap (scalar_from_be_bytes api rev_append_commit_hash_key)) (\<lambda>s1.
      and_then (unwrap (mul_tweak api countersignatory_revocation_base_point s1)) (\<lambda>countersignatory_contrib.
      and_then (unwrap (scalar_from_be_bytes api commit_append_rev_hash_key)) (\<lambda>s2.
      and_then (unwrap (mul_tweak api per_commitment_point s2)) (\<lambda>broadcaster_contrib.
        unwrap (combine_keys api [countersignatory_contrib, broadcaster_contrib]))))))"

definition get_revokable_params ::
  "('m) oracle_api_scheme \<Rightarrow> party_base_points \<Rightarrow> pubkey \<Rightarrow> pubkey \<Rightarrow> (revoke_params, 'e) res" where
  "get_revokable_params api points countersignatory_revocation_basepoint per_update_point =
     and_then (derive_public_key api per_update_point (own_basepoint points)) (\<lambda>own.
     and_then (derive_public_key api per_update_point (publish_basepoint points)) (\<lambda>publish.
     and_then (derive_public_revocation_key api per_update_point countersignatory_revocation_basepoint) (\<lambda>revoke.
       Ok \<lparr>own_pk = own, publish_pk = publish, revoke_pk = revoke\<rparr>)))"

definition get_own_pk :: "('m) oracle_api_scheme \<Rightarrow> party_base_points \<Rightarrow> pubkey \<Rightarrow> (pubkey, 'e) res" where
  "get_own_pk api points per_update_point = derive_public_key api per_update_point (own_basepoint points)"

definition get_publish_pk :: "('m) oracle_api_scheme \<Rightarrow> party_base_points \<Rightarrow> pubkey \<Rightarrow> (pubkey, 'e) res" where
  "get_publish_pk api points per_update_point = derive_public_key api per_update_point (publish_basepoint points)"

definition get_revocation_pk :: "('m) oracle_api_scheme \<Rightarrow> party_base_points \<Rightarrow> pubkey \<Rightarrow> (pubkey, 'e) res" where
  "get_revocation_pk api points per_update_point = derive_public_key api per_update_point (revocation_basepoint points)"

text \<open>\<open>get_party_base_points\<close> of \<open>utils.rs\<close>: \<open>new_key n\<close> is the answer to the \<open>n\<close>-th call of \<open>get_new_secret_key\<close>.\<close>

definition get_party_base_points ::
  "('m) crypto_api_scheme \<Rightarrow> (nat \<Rightarrow> (seckey, manager_error) res) \<Rightarrow> (party_base_points, manager_error) res" where
  "get_party_base_points api new_key =
     and_then (new_key 0) (\<lambda>own. and_then (new_key 1) (\<lambda>publish. and_then (new_key 2) (\<lambda>revocation.
       Ok \<lparr>own_basepoint = pk_of_sk api own, revocation_basepoint = pk_of_sk api revocation,
           publish_basepoint = pk_of_sk api publish\<rparr>)))"

section \<open>Offered and accepted channels\<close>

record offered_channel =
  ofc_offered_contract_id :: bytes
  ofc_temporary_channel_id :: bytes
  ofc_party_points :: party_base_points
  ofc_per_update_point :: pubkey
  ofc_offer_per_update_seed :: "pubkey option"
  ofc_is_offer_party :: bool
  ofc_counter_party :: pubkey
  ofc_cet_nsequence :: nat

record accepted_channel =
  acc_counter_party :: pubkey
  acc_accepted_contract_id :: bytes
  acc_offer_base_points :: party_base_points
  acc_accept_base_points :: party_base_points
  acc_offer_per_update_point :: pubkey
  acc_accept_per_update_point :: pubkey
  acc_buffer_transaction :: transaction
  acc_buffer_script_pubkey :: script
  acc_temporary_channel_id :: bytes
  acc_channel_id :: bytes
  acc_accept_per_update_seed :: pubkey
  acc_accept_buffer_adaptor_signature :: adaptor_sig

definition CET_NSEQUENCE :: nat where "CET_NSEQUENCE = 288"

definition get_offer_channel_msg :: "offered_channel \<Rightarrow> offered_contract \<Rightarrow> (offer_channel, 'e) res" where
  "get_offer_channel_msg ch oc =
     and_then (contract_info_to_ser (oc_total_collateral oc) (oc_contract_info oc)) (\<lambda>contract_info.
     let party_points = ofc_party_points ch in
     Ok \<lparr>och_protocol_version = PROTOCOL_VERSION, och_contract_flags = oc_contract_flags oc, och_chain_hash = BITCOIN_CHAINHASH,
       och_temporary_contract_id = oc_id oc, och_temporary_channel_id = ofc_temporary_channel_id ch,
       och_contract_info = contract_info, och_funding_pubkey = fund_pubkey (oc_offer_params oc),
       och_revocation_basepoint = revocation_basepoint party_points, och_publish_basepoint = publish_basepoint party_points,
       och_own_basepoint = own_basepoint party_points, och_first_per_update_point = ofc_per_update_point ch,
       och_payout_spk = payout_script_pubkey (oc_offer_params oc), och_payout_serial_id = payout_serial_id (oc_offer_params oc),
       och_offer_collateral = collateral (oc_offer_params oc), och_funding_inputs = oc_funding_inputs oc,
       och_change_spk = change_script_pubkey (oc_offer_params oc), och_change_serial_id = change_serial_id (oc_offer_params oc),
       och_fund_output_serial_id = oc_fund_output_serial_id oc, och_fee_rate_per_vb = oc_fee_rate_per_vb oc,
       och_cet_locktime = oc_cet_locktime oc, och_refund_locktime = oc_refund_locktime oc, och_cet_nsequence = CET_NSEQUENCE\<rparr>)"

definition from_offer_channel ::
  "('m) message_api_scheme \<Rightarrow> offer_channel \<Rightarrow> pubkey \<Rightarrow> bytes \<Rightarrow> (offered_channel \<times> offered_contract, manager_error) res" where
  "from_offer_channel api m counter_party keys_id =
     (let channel = \<lparr>ofc_offered_contract_id = och_temporary_contract_id m, ofc_temporary_channel_id = och_temporary_channel_id m,
            ofc_party_points = \<lparr>own_basepoint = och_own_basepoint m, revocation_basepoint = och_revocation_basepoint m,
              publish_basepoint = och_publish_basepoint m\<rparr>,
            ofc_per_update_point = och_first_per_update_point m, ofc_offer_per_update_seed = None, ofc_is_offer_party = False,
            ofc_counter_party = counter_party, ofc_cet_nsequence = och_cet_nsequence m\<rparr> in
      and_then (map_err Conversion (get_tx_input_infos api (och_funding_inputs m))) (\<lambda>(ins, amount).
      and_then (get_dlc_inputs_from_funding_inputs api (och_funding_inputs m)) (\<lambda>dlc_ins.
      and_then (map_err Conversion (get_contract_info_and_announcements (och_contract_info m))) (\<lambda>contract_info.
        Ok (channel,
          \<lparr>oc_id = och_temporary_contract_id m, oc_is_offer_party = False, oc_contract_info = contract_info,
           oc_counter_party = counter_party,
           oc_offer_params = \<lparr>fund_pubkey = och_funding_pubkey m, change_script_pubkey = och_change_spk m,
             change_serial_id = och_change_serial_id m, payout_script_pubkey = och_payout_spk m,
             payout_serial_id = och_payout_serial_id m, pp_inputs = ins, dlc_inputs = dlc_ins,
             input_amount = amount, collateral = och_offer_collateral m\<rparr>,
           oc_total_collateral = ser_total_collateral (och_contract_info m), oc_funding_inputs = och_funding_inputs m,
           oc_fund_output_serial_id = och_fund_output_serial_id m, oc_fee_rate_per_vb = och_fee_rate_per_vb m,
           oc_cet_locktime = och_cet_locktime m, oc_refund_locktime = och_refund_locktime m,
           oc_contract_flags = och_contract_flags m, oc_keys_id = keys_id\<rparr>)))))"

definition get_accept_channel_msg ::
  "accepted_channel \<Rightarrow> accepted_contract \<Rightarrow> adaptor_sig \<Rightarrow> adaptor_sig list \<Rightarrow> accept_channel" where
  "get_accept_channel_msg ch a buffer_adaptor_signature cet_adaptor_signatures =
     \<lparr>ach_temporary_channel_id = acc_temporary_channel_id ch, ach_accept_collateral = collateral (ac_accept_params a),
      ach_funding_pubkey = fund_pubkey (ac_accept_params a),
      ach_revocation_basepoint = revocation_basepoint (acc_accept_base_points ch),
      ach_publish_basepoint = publish_basepoint (acc_accept_base_points ch),
      ach_own_basepoint = own_basepoint (acc_accept_base_points ch), ach_first_per_update_point = acc_accept_per_update_point ch,
      ach_payout_spk = payout_script_pubkey (ac_accept_params a), ach_payout_serial_id = payout_serial_id (ac_accept_params a),
      ach_funding_inputs = ac_funding_inputs a, ach_change_spk = change_script_pubkey (ac_accept_params a),
      ach_change_serial_id = change_serial_id (ac_accept_params a), ach_cet_adaptor_signatures = cet_adaptor_signatures,
      ach_buffer_adaptor_signature = buffer_adaptor_signature, ach_refund_signature = ac_accept_refund_signature a,
      ach_negotiation_fields = None\<rparr>"

section \<open>Signed channels\<close>

text \<open>The variants of \<open>SignedChannelState\<close>; the constructors keep their names.\<close>

record established =
  es_signed_contract_id :: bytes
  es_counter_buffer_adaptor_signature :: adaptor_sig
  es_own_buffer_adaptor_signature :: adaptor_sig
  es_buffer_transaction :: transaction
  es_is_offer :: bool
  es_total_collateral :: nat
  es_keys_id :: bytes

record settled_offered =
  so_counter_payout :: nat
  so_next_per_update_point :: pubkey
  so_timeout :: nat
  so_keys_id :: bytes

record settled_received =
  sr_own_payout :: nat
  sr_counter_payout :: nat
  sr_counter_next_per_update_point :: pubkey
  sr_keys_id :: bytes

record settled_accepted =
  sa_counter_next_per_update_point :: pubkey
  sa_own_next_per_update_point :: pubkey
  sa_own_settle_adaptor_signature :: adaptor_sig
  sa_settle_tx :: transaction
  sa_timeout :: nat
  sa_own_payout :: nat
  sa_counter_payout :: nat
  sa_keys_id :: bytes

record settled_confirmed =
  sf_settle_tx :: transaction
  sf_counter_settle_adaptor_signature :: adaptor_sig
  sf_counter_next_per_update_point :: pubkey
  sf_own_next_per_update_point :: pubkey
  sf_own_settle_adaptor_signature :: adaptor_sig
  sf_timeout :: nat
  sf_own_payout :: nat
  sf_counter_payout :: nat
  sf_keys_id :: bytes

record settled =
  sd_settle_tx :: transaction
  sd_counter_settle_adaptor_signature :: adaptor_sig
  sd_own_settle_adaptor_signature :: adaptor_sig
  sd_own_payout :: nat
  sd_counter_payout :: nat
  sd_keys_id :: bytes

record renew_offered =
  ro_offered_contract_id :: bytes
  ro_counter_payout :: nat
  ro_offer_next_per_update_point :: pubkey
  ro_is_offer :: bool
  ro_timeout :: nat
  ro_keys_id :: bytes

record renew_accepted =
  ra_contract_id :: bytes
  ra_offer_per_update_point :: pubkey
  ra_accept_per_update_point :: pubkey
  ra_buffer_transaction :: transaction
  ra_buffer_script_pubkey :: script
  ra_timeout :: nat
  ra_own_payout :: nat
  ra_keys_id :: bytes

record renew_confirmed =
  rc_contract_id :: bytes
  rc_offer_per_update_point :: pubkey
  rc_accept_per_update_point :: pubkey
  rc_buffer_transaction :: transaction
  rc_buffer_script_pubkey :: script
  rc_offer_buffer_adaptor_signature :: adaptor_sig
  rc_timeout :: nat
  rc_own_payout :: nat
  rc_total_collateral :: nat
  rc_keys_id :: bytes

record renew_finalized =
  rf_contract_id :: bytes
  rf_prev_offer_per_update_point :: pubkey
  rf_buffer_transaction :: transaction
  rf_buffer_script_pubkey :: script
  rf_offer_buffer_adaptor_signature :: adaptor_sig
  rf_accept_buffer_adaptor_signature :: adaptor_sig
  rf_timeout :: nat
  rf_own_payout :: nat
  rf_total_collateral :: nat
  rf_keys_id :: bytes

record closing =
  cg_buffer_transaction :: transaction
  cg_contract_id :: bytes
  cg_is_initiator :: bool
  cg_keys_id :: bytes

record close_offered =
  co_counter_payout :: nat
  co_offer_signature :: ecdsa_sig
  co_close_tx :: transaction
  co_timeout :: nat
  co_keys_id :: bytes

datatype signed_channel_state =
    Established established
  | SettledOffered settled_offered
  | SettledReceived settled_received
  | SettledAccepted settled_accepted
  | SettledConfirmed settled_confirmed
  | Settled settled
  | RenewOffered renew_offered
  | RenewAccepted renew_accepted
  | RenewConfirmed renew_confirmed
  | RenewFinalized renew_finalized
  | Closing closing
  | CollaborativeCloseOffered close_offered

datatype signed_channel_state_type =
    EstablishedType | SettledOfferedType | SettledReceivedType | SettledAcceptedType | SettledConfirmedType | SettledType
  | RenewOfferedType | RenewAcceptedType | RenewConfirmedType | RenewFinalizedType | ClosingType | CollaborativeCloseOfferedType

fun get_type :: "signed_channel_state \<Rightarrow> signed_channel_state_type" where
  "get_type (Established _) = EstablishedType"
| "get_type (SettledOffered _) = SettledOfferedType"
| "get_type (SettledReceived _) = SettledReceivedType"
| "get_type (SettledAccepted _) = SettledAcceptedType"
| "get_type (SettledConfirmed _) = SettledConfirmedType"
| "get_type (Settled _) = SettledType"
| "get_type (RenewOffered _) = RenewOfferedType"
| "get_type (RenewAccepted _) = RenewAcceptedType"
| "get_type (RenewConfirmed _) = RenewConfirmedType"
| "get_type (RenewFinalized _) = RenewFinalizedType"
| "get_type (Closing _) = ClosingType"
| "get_type (CollaborativeCloseOffered _) = CollaborativeCloseOfferedType"

definition is_of_type :: "signed_channel_state \<Rightarrow> signed_channel_state_type \<Rightarrow> bool" where
  "is_of_type s t \<longleftrightarrow> get_type s = t"

fun state_contract_id :: "signed_channel_state \<Rightarrow> bytes option" where
  "state_contract_id (Established x) = Some (es_signed_contract_id x)"
| "state_contract_id (RenewOffered x) = Some (ro_offered_contract_id x)"
| "state_contract_id (RenewAccepted x) = Some (ra_contract_id x)"
| "state_contract_id (RenewConfirmed x) = Some (rc_contract_id x)"
| "state_contract_id (RenewFinalized x) = Some (rf_contract_id x)"
| "state_contract_id (Closing x) = Some (cg_contract_id x)"
| "state_contract_id _ = None"

fun state_keys_id :: "signed_channel_state \<Rightarrow> bytes option" where
  "state_keys_id (Established x) = Some (es_keys_id x)"
| "state_keys_id (SettledOffered x) = Some (so_keys_id x)"
| "state_keys_id (SettledReceived x) = Some (sr_keys_id x)"
| "state_keys_id (SettledAccepted x) = Some (sa_keys_id x)"
| "state_keys_id (SettledConfirmed x) = Some (sf_keys_id x)"
| "state_keys_id (Settled x) = Some (sd_keys_id x)"
| "state_keys_id (RenewOffered x) = Some (ro_keys_id x)"
| "state_keys_id (RenewAccepted x) = Some (ra_keys_id x)"
| "state_keys_id (RenewConfirmed x) = Some (rc_keys_id x)"
| "state_keys_id (RenewFinalized x) = Some (rf_keys_id x)"
| "state_keys_id (Closing x) = Some (cg_keys_id x)"
| "state_keys_id (CollaborativeCloseOffered x) = Some (co_keys_id x)"

record signed_channel =
  ch_id :: bytes
  ch_counter_party :: pubkey
  ch_temporary_id :: bytes
  ch_own_params :: party_params
  ch_own_points :: party_base_points
  ch_own_per_update_point :: pubkey
  ch_own_per_update_seed :: pubkey
  ch_counter_points :: party_base_points
  ch_counter_per_update_point :: pubkey
  ch_counter_params :: party_params
  ch_state :: signed_channel_state
  ch_update_idx :: nat
  ch_fund_tx :: transaction
  ch_fund_script_pubkey :: script
  ch_fund_output_index :: nat
  ch_roll_back_state :: "signed_channel_state option"
  ch_counter_secrets :: commitment_secrets
  ch_fee_rate_per_vb :: nat

definition channel_contract_id :: "signed_channel \<Rightarrow> bytes option" where
  "channel_contract_id ch = state_contract_id (ch_state ch)"

definition channel_keys_id :: "signed_channel \<Rightarrow> bytes option" where
  "channel_keys_id ch = state_keys_id (ch_state ch)"

section \<open>Channels\<close>

record failed_accept_channel =
  fac_counter_party :: pubkey
  fac_temporary_channel_id :: bytes
  fac_error_message :: manager_error
  fac_accept_message :: accept_channel

record failed_sign_channel =
  fsc_counter_party :: pubkey
  fsc_channel_id :: bytes
  fsc_error_message :: manager_error
  fsc_sign_message :: sign_channel

record closing_channel =
  clg_counter_party :: pubkey
  clg_temporary_channel_id :: bytes
  clg_channel_id :: bytes
  clg_rollback_state :: "signed_channel option"
  clg_buffer_transaction :: transaction
  clg_contract_id :: bytes
  clg_is_closer :: bool

record closed_channel =
  clc_counter_party :: pubkey
  clc_temporary_channel_id :: bytes
  clc_channel_id :: bytes

record closed_punished_channel =
  cpc_counter_party :: pubkey
  cpc_temporary_channel_id :: bytes
  cpc_channel_id :: bytes
  cpc_punish_txid :: bytes

datatype channel =
    OfferedChannel offered_channel
  | AcceptedChannel accepted_channel
  | SignedChannel signed_channel
  | FailedAcceptChannel failed_accept_channel
  | FailedSignChannel failed_sign_channel
  | CancelledChannel offered_channel
  | ClosingChannel closing_channel
  | ClosedChannel closed_channel
  | CounterClosedChannel closed_channel
  | ClosedPunishedChannel closed_punished_channel
  | CollaborativelyClosedChannel closed_channel

fun channel_counter_party :: "channel \<Rightarrow> pubkey" where
  "channel_counter_party (OfferedChannel x) = ofc_counter_party x"
| "channel_counter_party (AcceptedChannel a) = acc_counter_party a"
| "channel_counter_party (SignedChannel s) = ch_counter_party s"
| "channel_counter_party (FailedAcceptChannel f) = fac_counter_party f"
| "channel_counter_party (FailedSignChannel f) = fsc_counter_party f"
| "channel_counter_party (CancelledChannel x) = ofc_counter_party x"
| "channel_counter_party (ClosingChannel c) = clg_counter_party c"
| "channel_counter_party (ClosedChannel c) = clc_counter_party c"
| "channel_counter_party (CounterClosedChannel c) = clc_counter_party c"
| "channel_counter_party (CollaborativelyClosedChannel c) = clc_counter_party c"
| "channel_counter_party (ClosedPunishedChannel c) = cpc_counter_party c"

fun channel_temporary_id :: "channel \<Rightarrow> (bytes, 'e) res" where
  "channel_temporary_id (OfferedChannel x) = Ok (ofc_temporary_channel_id x)"
| "channel_temporary_id (AcceptedChannel a) = Ok (acc_temporary_channel_id a)"
| "channel_temporary_id (SignedChannel s) = Ok (ch_temporary_id s)"
| "channel_temporary_id (FailedAcceptChannel f) = Ok (fac_temporary_channel_id f)"
| "channel_temporary_id (ClosedChannel c) = Ok (clc_temporary_channel_id c)"
| "channel_temporary_id (CounterClosedChannel c) = Ok (clc_temporary_channel_id c)"
| "channel_temporary_id (CollaborativelyClosedChannel c) = Ok (clc_temporary_channel_id c)"
| "channel_temporary_id (ClosedPunishedChannel c) = Ok (cpc_temporary_channel_id c)"
| "channel_temporary_id _ = Panic"

fun channel_id_of :: "channel \<Rightarrow> bytes" where
  "channel_id_of (OfferedChannel x) = ofc_temporary_channel_id x"
| "channel_id_of (AcceptedChannel a) = acc_channel_id a"
| "channel_id_of (SignedChannel s) = ch_id s"
| "channel_id_of (FailedAcceptChannel f) = fac_temporary_channel_id f"
| "channel_id_of (FailedSignChannel f) = fsc_channel_id f"
| "channel_id_of (ClosingChannel c) = clg_channel_id c"
| "channel_id_of (ClosedChannel c) = clc_channel_id c"
| "channel_id_of (CounterClosedChannel c) = clc_channel_id c"
| "channel_id_of (CollaborativelyClosedChannel c) = clc_channel_id c"
| "channel_id_of (ClosedPunishedChannel c) = cpc_channel_id c"
| "channel_id_of (CancelledChannel x) = ofc_temporary_channel_id x"

definition contract_id_of_channel :: "channel \<Rightarrow> bytes option" where
  "contract_id_of_channel c =
     (case c of OfferedChannel x \<Rightarrow> Some (ofc_offered_contract_id x) | AcceptedChannel a \<Rightarrow> Some (acc_accepted_contract_id a)
      | SignedChannel s \<Rightarrow> channel_contract_id s | _ \<Rightarrow> None)"

definition generate_temporary_contract_id :: "('m) oracle_api_scheme \<Rightarrow> bytes \<Rightarrow> nat \<Rightarrow> bytes" where
  "generate_temporary_contract_id api channel_id channel_update_idx = sha256 api (channel_id @ be_bytes 8 channel_update_idx)"

end
