(* ===== verification/Channel_Updater.thy ===== *)
theory Channel_Updater
  imports Channel_Data
begin

text \<open>
  \<open>ddk-manager/src/channel_updater.rs\<close>: setting up, settling, renewing and closing a DLC channel.  A function that changes a
  \<open>SignedChannel\<close> or the chain monitor works on both, so that what a failing call has changed already is seen; the callers in
  the manager drop the channel then, but the chain monitor keeps its change.  \<open>now\<close> is the answer of \<open>unix_time_now\<close>.
\<close>

section \<open>Effects\<close>

record update_state =
  us_channel :: signed_channel
  us_monitor :: chain_monitor

type_synonym 'a channel_update = "update_state \<Rightarrow> ('a, manager_error) res \<times> update_state"

definition then_do :: "'a channel_update \<Rightarrow> ('a \<Rightarrow> 'b channel_update) \<Rightarrow> 'b channel_update" where
  "then_do m f = (\<lambda>s. case m s of (Ok x, s') \<Rightarrow> f x s' | (Err e, s') \<Rightarrow> (Err e, s') | (Panic, s') \<Rightarrow> (Panic, s'))"

definition attempt :: "('a, manager_error) res \<Rightarrow> 'a channel_update" where
  "attempt r = (\<lambda>s. (r, s))"

definition with_channel :: "(signed_channel \<Rightarrow> 'a channel_update) \<Rightarrow> 'a channel_update" where
  "with_channel f = (\<lambda>s. f (us_channel s) s)"

definition set_channel :: "(signed_channel \<Rightarrow> signed_channel) \<Rightarrow> unit channel_update" where
  "set_channel f = (\<lambda>s. (Ok (), s\<lparr>us_channel := f (us_channel s)\<rparr>))"

definition watch_tx :: "bytes \<Rightarrow> channel_info \<Rightarrow> unit channel_update" where
  "watch_tx txid ci = (\<lambda>s. (Ok (), s\<lparr>us_monitor := add_tx txid ci (us_monitor s)\<rparr>))"

text \<open>\<open>std::mem::swap(&mut channel.state, &mut state); channel.roll_back_state = Some(state)\<close>.\<close>

definition enter_state :: "signed_channel_state \<Rightarrow> signed_channel \<Rightarrow> signed_channel" where
  "enter_state st ch = ch\<lparr>ch_state := st, ch_roll_back_state := Some (ch_state ch)\<rparr>"

text \<open>\<open>channel.state = channel.roll_back_state.take().expect(..)\<close>.\<close>

definition roll_back :: "signed_channel \<Rightarrow> (signed_channel, 'e) res" where
  "roll_back ch = and_then (unwrap (ch_roll_back_state ch)) (\<lambda>st. Ok (ch\<lparr>ch_state := st, ch_roll_back_state := None\<rparr>))"

fun get_established :: "signed_channel_state \<Rightarrow> established option" where
  "get_established (Established x) = Some x" | "get_established _ = None"

fun get_settled_accepted :: "signed_channel_state \<Rightarrow> settled_accepted option" where
  "get_settled_accepted (SettledAccepted x) = Some x" | "get_settled_accepted _ = None"

fun get_settled_confirmed :: "signed_channel_state \<Rightarrow> settled_confirmed option" where
  "get_settled_confirmed (SettledConfirmed x) = Some x" | "get_settled_confirmed _ = None"

fun get_settled :: "signed_channel_state \<Rightarrow> settled option" where
  "get_settled (Settled x) = Some x" | "get_settled _ = None"

fun get_renew_offered :: "signed_channel_state \<Rightarrow> renew_offered option" where
  "get_renew_offered (RenewOffered x) = Some x" | "get_renew_offered _ = None"

fun get_renew_accepted :: "signed_channel_state \<Rightarrow> renew_accepted option" where
  "get_renew_accepted (RenewAccepted x) = Some x" | "get_renew_accepted _ = None"

fun get_renew_confirmed :: "signed_channel_state \<Rightarrow> renew_confirmed option" where
  "get_renew_confirmed (RenewConfirmed x) = Some x" | "get_renew_confirmed _ = None"

fun get_renew_finalized :: "signed_channel_state \<Rightarrow> renew_finalized option" where
  "get_renew_finalized (RenewFinalized x) = Some x" | "get_renew_finalized _ = None"

fun get_closing :: "signed_channel_state \<Rightarrow> closing option" where
  "get_closing (Closing x) = Some x" | "get_closing _ = None"

fun get_close_offered :: "signed_channel_state \<Rightarrow> close_offered option" where
  "get_close_offered (CollaborativeCloseOffered x) = Some x" | "get_close_offered _ = None"

definition in_state :: "(signed_channel_state \<Rightarrow> 'a option) \<Rightarrow> signed_channel \<Rightarrow> ('a, manager_error) res" where
  "in_state sel ch = ok_or InvalidState (sel (ch_state ch))"

section \<open>Per update secrets\<close>

definition INITIAL_UPDATE_NUMBER :: nat where "INITIAL_UPDATE_NUMBER = 2 ^ 48 - 1"

text \<open>The point of a state of the channel, and the secret that revokes it.\<close>

definition next_per_update_point ::
  "('m) message_api_scheme \<Rightarrow> channel_deps \<Rightarrow> signed_channel \<Rightarrow> (pubkey, manager_error) res" where
  "next_per_update_point api deps ch =
     and_then (get_secret_key_for_pubkey deps (ch_own_per_update_seed ch)) (\<lambda>per_update_seed.
     and_then (usub (ch_update_idx ch) 1) (\<lambda>idx.
     and_then (unwrap (commitment_secret deps per_update_seed idx)) (\<lambda>per_update_secret.
       Ok (pk_of_sk api per_update_secret))))"

definition prev_per_update_secret :: "channel_deps \<Rightarrow> seckey \<Rightarrow> signed_channel \<Rightarrow> (seckey, manager_error) res" where
  "prev_per_update_secret deps per_update_seed ch = ok_or SecpError (commitment_secret deps per_update_seed (ch_update_idx ch))"

definition first_per_update_point ::
  "('m) message_api_scheme \<Rightarrow> channel_deps \<Rightarrow> seckey \<Rightarrow> (pubkey, manager_error) res" where
  "first_per_update_point api deps per_update_seed =
     and_then (unwrap (commitment_secret deps per_update_seed INITIAL_UPDATE_NUMBER)) (\<lambda>sk. Ok (pk_of_sk api sk))"

definition store_secret :: "channel_deps \<Rightarrow> seckey \<Rightarrow> signed_channel \<Rightarrow> (signed_channel, manager_error) res" where
  "store_secret deps secret ch =
     and_then (ok_or InvalidParameters (provide_secret deps (ch_counter_secrets ch) (ch_update_idx ch) secret)) (\<lambda>secrets.
       Ok (ch\<lparr>ch_counter_secrets := secrets\<rparr>))"

section \<open>Setting up a channel\<close>

definition make_channel_offer ::
  "('m) manager_api_scheme \<Rightarrow> channel_deps \<Rightarrow> party_env \<Rightarrow> (nat \<Rightarrow> (seckey, manager_error) res) \<Rightarrow> contract_input \<Rightarrow> pubkey
    \<Rightarrow> oracle_announcement list list \<Rightarrow> nat \<Rightarrow> nat \<Rightarrow> nat \<Rightarrow> bytes \<Rightarrow> (offered_channel \<times> offered_contract, manager_error) res" where
  "make_channel_offer api deps env new_key contract counter_party oracle_announcements cet_nsequence refund_delay now temporary_channel_id =
     (let temp_id = rnd_temporary_id env; keys_id = derive_signer_key_id api True temp_id in
      and_then (derive_contract_signer api keys_id) (\<lambda>signer.
      and_then (uadd (ci_offer_collateral contract) (ci_accept_collateral contract)) (\<lambda>total_collateral.
      and_then (get_party_params api env (ci_offer_collateral contract) total_collateral [] (ci_fee_rate contract) signer) (\<lambda>(offer_params, funding_inputs).
      and_then (get_party_base_points api new_key) (\<lambda>party_points.
      and_then (offered_new env temp_id contract oracle_announcements offer_params funding_inputs counter_party refund_delay
         (as_u32 now) keys_id) (\<lambda>offered_contract.
      and_then (new_key 3) (\<lambda>per_update_seed.
      and_then (first_per_update_point api deps per_update_seed) (\<lambda>point.
        Ok (\<lparr>ofc_offered_contract_id = oc_id offered_contract, ofc_temporary_channel_id = temporary_channel_id,
             ofc_party_points = party_points, ofc_per_update_point = point,
             ofc_offer_per_update_seed = Some (pk_of_sk api per_update_seed), ofc_is_offer_party = True,
             ofc_counter_party = counter_party, ofc_cet_nsequence = cet_nsequence\<rparr>, offered_contract)))))))))"

text \<open>The transactions of a new channel and its identifier.\<close>

definition new_channel_transactions ::
  "('m) message_api_scheme \<Rightarrow> channel_deps \<Rightarrow> offered_contract \<Rightarrow> party_params \<Rightarrow> revoke_params \<Rightarrow> revoke_params \<Rightarrow> nat
    \<Rightarrow> (dlc_channel_transactions, manager_error) res" where
  "new_channel_transactions api deps oc accept_params offer_revoke_params accept_revoke_params cet_nsequence =
     and_then (index (oc_contract_info oc) 0) (\<lambda>info.
     and_then (info_get_payouts info (oc_total_collateral oc)) (\<lambda>payouts.
       map_err DlcError (create_channel_transactions (channel_of api deps) (oc_offer_params oc) accept_params offer_revoke_params
         accept_revoke_params payouts (oc_refund_locktime oc) (oc_fee_rate_per_vb oc) 0 (oc_cet_locktime oc)
         (oc_fund_output_serial_id oc) cet_nsequence (oc_contract_flags oc))))"

definition new_channel_id :: "('m) message_api_scheme \<Rightarrow> dlc_transactions \<Rightarrow> bytes \<Rightarrow> (bytes, 'e) res" where
  "new_channel_id api d temporary_channel_id =
     and_then (get_fund_output_index (btc api) d) (\<lambda>i.
       Ok (compute_id (compute_txid api (dlc_fund d)) (as_u16 i) temporary_channel_id))"

definition accept_channel_offer ::
  "('m) manager_api_scheme \<Rightarrow> channel_deps \<Rightarrow> party_env \<Rightarrow> (nat \<Rightarrow> (seckey, manager_error) res) \<Rightarrow> offered_channel
    \<Rightarrow> offered_contract \<Rightarrow> (accepted_channel \<times> accepted_contract \<times> accept_channel, manager_error) res" where
  "accept_channel_offer api deps env new_key ofc oc =
     and_then (assert_that (ofc_offered_contract_id ofc = oc_id oc)) (\<lambda>_.
     and_then (derive_contract_signer api (oc_keys_id oc)) (\<lambda>signer.
     and_then (usub (oc_total_collateral oc) (collateral (oc_offer_params oc))) (\<lambda>own_collateral.
     and_then (get_party_params api env own_collateral (oc_total_collateral oc) [] (oc_fee_rate_per_vb oc) signer) (\<lambda>(accept_params, funding_inputs).
     and_then (new_key 0) (\<lambda>per_update_seed.
     and_then (first_per_update_point api deps per_update_seed) (\<lambda>first_point.
     and_then (get_party_base_points api (\<lambda>n. new_key (n + 1))) (\<lambda>accept_points.
     and_then (get_revokable_params api accept_points (revocation_basepoint (ofc_party_points ofc)) first_point) (\<lambda>accept_revoke_params.
     and_then (get_revokable_params api (ofc_party_points ofc) (revocation_basepoint accept_points) (ofc_per_update_point ofc)) (\<lambda>offer_revoke_params.
     and_then (new_channel_transactions api deps oc accept_params offer_revoke_params accept_revoke_params (ofc_cet_nsequence ofc)) (\<lambda>txs.
     let d = dc_dlc_transactions txs; buffer = buffer_transaction txs in
     and_then (get_secret_key_for_pubkey deps (own_basepoint accept_points)) (\<lambda>own_base_secret_key.
     let own_secret_key = derive_private_key deps first_point own_base_secret_key in
     and_then (new_channel_id api d (ofc_temporary_channel_id ofc)) (\<lambda>channel_id.
     and_then (get_fund_output (btc api) d) (\<lambda>fund_output.
     and_then (map_err DlcError (get_tx_adaptor_signature (channel_of api deps) buffer (out_value fund_output) (funding_witness_script d)
         signer (publish_pk offer_revoke_params))) (\<lambda>buffer_adaptor_signature.
     and_then (index (tx_output buffer) 0) (\<lambda>buffer_output.
     and_then (accept_contract_internal api oc accept_params funding_inputs own_secret_key (out_value buffer_output)
         (Some (buffer_script_pubkey txs)) d) (\<lambda>(accepted_contract, adaptor_sigs).
     and_then (get_contract_id api accepted_contract) (\<lambda>contract_id.
     let accepted_channel =
       \<lparr>acc_counter_party = oc_counter_party oc, acc_accepted_contract_id = contract_id,
        acc_offer_base_points = ofc_party_points ofc, acc_accept_base_points = accept_points,
        acc_offer_per_update_point = ofc_per_update_point ofc, acc_accept_per_update_point = first_point,
        acc_buffer_transaction = buffer, acc_buffer_script_pubkey = buffer_script_pubkey txs,
        acc_temporary_channel_id = ofc_temporary_channel_id ofc, acc_channel_id = channel_id,
        acc_accept_per_update_seed = pk_of_sk api per_update_seed,
        acc_accept_buffer_adaptor_signature = buffer_adaptor_signature\<rparr> in
       Ok (accepted_channel, accepted_contract,
         get_accept_channel_msg accepted_channel accepted_contract buffer_adaptor_signature adaptor_sigs))))))))))))))))))"

definition accept_channel_params ::
  "('m) message_api_scheme \<Rightarrow> accept_channel \<Rightarrow> (party_params, manager_error) res" where
  "accept_channel_params api m =
     and_then (map_err Conversion (get_tx_input_infos api (ach_funding_inputs m))) (\<lambda>(ins, amount).
       Ok \<lparr>fund_pubkey = ach_funding_pubkey m, change_script_pubkey = ach_change_spk m, change_serial_id = ach_change_serial_id m,
         payout_script_pubkey = ach_payout_spk m, payout_serial_id = ach_payout_serial_id m, pp_inputs = ins,
         dlc_inputs = [], input_amount = amount, collateral = ach_accept_collateral m\<rparr>)"

definition verify_and_sign_accepted_channel ::
  "('m) updater_api_scheme \<Rightarrow> channel_deps \<Rightarrow> wallet \<Rightarrow> lookup \<Rightarrow> offered_channel \<Rightarrow> offered_contract \<Rightarrow> accept_channel \<Rightarrow> nat
    \<Rightarrow> chain_monitor \<Rightarrow> (signed_channel \<times> signed_contract \<times> sign_channel, manager_error) res \<times> chain_monitor" where
  "verify_and_sign_accepted_channel api deps wallet lookup ofc oc m cet_nsequence monitor =
     (case and_then (accept_channel_params api m) (\<lambda>accept_params.
      let accept_points = \<lparr>own_basepoint = ach_own_basepoint m, revocation_basepoint = ach_revocation_basepoint m,
            publish_basepoint = ach_publish_basepoint m\<rparr> in
      and_then (get_secret_key_for_pubkey deps (own_basepoint (ofc_party_points ofc))) (\<lambda>_.
      and_then (derive_contract_signer api (oc_keys_id oc)) (\<lambda>offer_fund_sk.
      and_then (get_revokable_params api (ofc_party_points ofc) (revocation_basepoint accept_points) (ofc_per_update_point ofc)) (\<lambda>offer_revoke_params.
      and_then (get_revokable_params api accept_points (revocation_basepoint (ofc_party_points ofc)) (ach_first_per_update_point m)) (\<lambda>accept_revoke_params.
      and_then (new_channel_transactions api deps oc accept_params offer_revoke_params accept_revoke_params cet_nsequence) (\<lambda>txs.
      let d = dc_dlc_transactions txs; buffer = buffer_transaction txs in
      and_then (new_channel_id api d (ofc_temporary_channel_id ofc)) (\<lambda>channel_id.
      and_then (index (tx_output buffer) 0) (\<lambda>buffer_output.
      and_then (verify_accepted_and_sign_contract_internal api wallet lookup oc accept_params (ach_funding_inputs m)
          (ach_refund_signature m) (ach_cet_adaptor_signatures m) (out_value buffer_output) offer_fund_sk
          (Some (buffer_script_pubkey txs)) (Some (own_pk accept_revoke_params)) d (Some channel_id)) (\<lambda>(signed_contract, cet_sigs).
      and_then (get_fund_output (btc api) d) (\<lambda>fund_output.
      and_then (map_err DlcError (verify_tx_adaptor_signature (channel_of api deps) buffer (out_value fund_output) (funding_witness_script d)
          (fund_pubkey (ac_accept_params (sc_accepted_contract signed_contract))) (publish_pk offer_revoke_params)
          (ach_buffer_adaptor_signature m))) (\<lambda>_.
      and_then (map_err DlcError (get_tx_adaptor_signature (channel_of api deps) buffer (out_value fund_output) (funding_witness_script d)
          offer_fund_sk (publish_pk accept_revoke_params))) (\<lambda>own_buffer_adaptor_signature.
        Ok (accept_points, txs, channel_id, signed_contract, cet_sigs, own_buffer_adaptor_signature))))))))))))) of
       Err e \<Rightarrow> (Err e, monitor)
     | Panic \<Rightarrow> (Panic, monitor)
     | Ok (accept_points, txs, channel_id, signed_contract, cet_sigs, own_buffer_adaptor_signature) \<Rightarrow>
         let d = dc_dlc_transactions txs; buffer = buffer_transaction txs in
         (and_then (get_contract_id api (sc_accepted_contract signed_contract)) (\<lambda>contract_id.
          and_then (get_fund_output_index (btc api) d) (\<lambda>fund_output_index.
          and_then (unwrap (ofc_offer_per_update_seed ofc)) (\<lambda>seed.
            Ok (\<lparr>ch_id = channel_id, ch_counter_party = oc_counter_party (sc_offered_contract signed_contract),
                 ch_temporary_id = ofc_temporary_channel_id ofc, ch_own_params = oc_offer_params oc,
                 ch_own_points = ofc_party_points ofc, ch_own_per_update_point = ofc_per_update_point ofc,
                 ch_own_per_update_seed = seed, ch_counter_points = accept_points,
                 ch_counter_per_update_point = ach_first_per_update_point m,
                 ch_counter_params = ac_accept_params (sc_accepted_contract signed_contract),
                 ch_state = Established \<lparr>es_signed_contract_id = contract_id,
                   es_counter_buffer_adaptor_signature = ach_buffer_adaptor_signature m,
                   es_own_buffer_adaptor_signature = own_buffer_adaptor_signature, es_buffer_transaction = buffer,
                   es_is_offer = True, es_total_collateral = oc_total_collateral oc, es_keys_id = oc_keys_id oc\<rparr>,
                 ch_update_idx = INITIAL_UPDATE_NUMBER, ch_fund_tx = dlc_fund d,
                 ch_fund_script_pubkey = funding_witness_script d, ch_fund_output_index = fund_output_index,
                 ch_roll_back_state = None, ch_counter_secrets = new_secrets deps,
                 ch_fee_rate_per_vb = oc_fee_rate_per_vb (sc_offered_contract signed_contract)\<rparr>,
               signed_contract,
               \<lparr>sch_channel_id = channel_id, sch_cet_adaptor_signatures = cet_sigs,
                sch_buffer_adaptor_signature = own_buffer_adaptor_signature,
                sch_refund_signature = sc_offer_refund_signature signed_contract,
                sch_funding_signatures = sc_funding_signatures signed_contract\<rparr>)))),
          add_tx (compute_txid api buffer) \<lparr>ch_channel_id = channel_id, ch_tx_type = BufferTx\<rparr> monitor))"

definition verify_signed_channel ::
  "('m) updater_api_scheme \<Rightarrow> channel_deps \<Rightarrow> wallet \<Rightarrow> lookup \<Rightarrow> accepted_channel \<Rightarrow> accepted_contract \<Rightarrow> sign_channel
    \<Rightarrow> chain_monitor \<Rightarrow> (signed_channel \<times> signed_contract \<times> transaction, manager_error) res \<times> chain_monitor" where
  "verify_signed_channel api deps wallet lookup acc a m monitor =
     (let d = ac_dlc_transactions a; buffer = acc_buffer_transaction acc in
      case and_then (get_publish_pk api (acc_accept_base_points acc) (acc_accept_per_update_point acc)) (\<lambda>own_publish_pk.
      and_then (get_own_pk api (acc_offer_base_points acc) (acc_offer_per_update_point acc)) (\<lambda>counter_own_pk.
      and_then (get_fund_output (btc api) d) (\<lambda>fund_output.
      and_then (map_err DlcError (verify_tx_adaptor_signature (channel_of api deps) buffer (out_value fund_output) (funding_witness_script d)
          (fund_pubkey (oc_offer_params (ac_offered_contract a))) own_publish_pk (sch_buffer_adaptor_signature m))) (\<lambda>_.
      and_then (index (tx_output buffer) 0) (\<lambda>buffer_output.
        verify_signed_contract_internal api wallet lookup a (sch_refund_signature m) (sch_cet_adaptor_signatures m)
          (sch_funding_signatures m) (out_value buffer_output) (Some (acc_buffer_script_pubkey acc)) (Some counter_own_pk)
          (Some (acc_channel_id acc)))))))
      of
        Err e \<Rightarrow> (Err e, monitor)
      | Panic \<Rightarrow> (Panic, monitor)
      | Ok (signed_contract, signed_fund_tx) \<Rightarrow>
         (and_then (get_contract_id api (sc_accepted_contract signed_contract)) (\<lambda>contract_id.
          and_then (get_fund_output_index (btc api) d) (\<lambda>fund_output_index.
            Ok (\<lparr>ch_id = acc_channel_id acc, ch_counter_party = oc_counter_party (sc_offered_contract signed_contract),
                 ch_temporary_id = acc_temporary_channel_id acc, ch_own_params = ac_accept_params a,
                 ch_own_points = acc_accept_base_points acc, ch_own_per_update_point = acc_accept_per_update_point acc,
                 ch_own_per_update_seed = acc_accept_per_update_seed acc, ch_counter_points = acc_offer_base_points acc,
                 ch_counter_per_update_point = acc_offer_per_update_point acc,
                 ch_counter_params = oc_offer_params (ac_offered_contract a),
                 ch_state = Established \<lparr>es_signed_contract_id = contract_id,
                   es_counter_buffer_adaptor_signature = sch_buffer_adaptor_signature m,
                   es_own_buffer_adaptor_signature = acc_accept_buffer_adaptor_signature acc, es_buffer_transaction = buffer,
                   es_is_offer = False, es_total_collateral = oc_total_collateral (ac_offered_contract a),
                   es_keys_id = oc_keys_id (sc_offered_contract signed_contract)\<rparr>,
                 ch_update_idx = INITIAL_UPDATE_NUMBER,
                 ch_fund_tx = dlc_fund (ac_dlc_transactions (sc_accepted_contract signed_contract)),
                 ch_fund_script_pubkey = funding_witness_script d, ch_fund_output_index = fund_output_index,
                 ch_roll_back_state = None, ch_counter_secrets = new_secrets deps,
                 ch_fee_rate_per_vb = oc_fee_rate_per_vb (sc_offered_contract signed_contract)\<rparr>,
               signed_contract, signed_fund_tx))),
          add_tx (compute_txid api buffer) \<lparr>ch_channel_id = acc_channel_id acc, ch_tx_type = BufferTx\<rparr> monitor))"

section \<open>Settling a channel\<close>

definition settle_channel_offer ::
  "('m) message_api_scheme \<Rightarrow> channel_deps \<Rightarrow> nat \<Rightarrow> nat \<Rightarrow> nat \<Rightarrow> settle_offer channel_update" where
  "settle_channel_offer api deps counter_payout peer_timeout now = with_channel (\<lambda>ch.
     then_do (attempt (in_state get_established ch)) (\<lambda>e.
     then_do (attempt (next_per_update_point api deps ch)) (\<lambda>next_point.
     then_do (attempt (uadd now peer_timeout)) (\<lambda>timeout.
     then_do (set_channel (enter_state (SettledOffered \<lparr>so_counter_payout = counter_payout,
         so_next_per_update_point = next_point, so_timeout = timeout, so_keys_id = es_keys_id e\<rparr>))) (\<lambda>_.
       attempt (Ok \<lparr>sto_channel_id = ch_id ch, sto_counter_payout = counter_payout, sto_next_per_update_point = next_point\<rparr>))))))"

definition channel_collateral :: "signed_channel \<Rightarrow> (nat, 'e) res" where
  "channel_collateral ch = uadd (collateral (ch_own_params ch)) (collateral (ch_counter_params ch))"

definition on_settle_offer :: "settle_offer \<Rightarrow> unit channel_update" where
  "on_settle_offer m = with_channel (\<lambda>ch.
     then_do (attempt (in_state get_established ch)) (\<lambda>e.
     then_do (attempt (channel_collateral ch)) (\<lambda>total_collateral.
     then_do (attempt (ensure (sto_counter_payout m \<le> total_collateral) InvalidState)) (\<lambda>_.
       set_channel (enter_state (SettledReceived \<lparr>sr_own_payout = sto_counter_payout m,
         sr_counter_payout = total_collateral - sto_counter_payout m,
         sr_counter_next_per_update_point = sto_next_per_update_point m, sr_keys_id = es_keys_id e\<rparr>))))))"

definition fund_value :: "signed_channel \<Rightarrow> (nat, 'e) res" where
  "fund_value ch = and_then (index (tx_output (ch_fund_tx ch)) (ch_fund_output_index ch)) (\<lambda>x. Ok (out_value x))"

definition get_settle_tx_and_adaptor_sig ::
  "('m) message_api_scheme \<Rightarrow> channel_deps \<Rightarrow> pubkey \<Rightarrow> transaction \<Rightarrow> nat \<Rightarrow> script \<Rightarrow> seckey \<Rightarrow> party_base_points \<Rightarrow> party_base_points
    \<Rightarrow> pubkey \<Rightarrow> nat \<Rightarrow> nat \<Rightarrow> nat \<Rightarrow> nat \<Rightarrow> (adaptor_sig \<times> pubkey) option \<Rightarrow> nat \<Rightarrow> (transaction \<times> adaptor_sig, manager_error) res" where
  "get_settle_tx_and_adaptor_sig api deps own_next_per_update_point fund_tx fund_vout witness_script own_fund_sk
     offer_points accept_points counter_per_update_point offer_payout accept_payout csv_timelock lock_time
     counter_adaptor_signature fee_rate_per_vb =
     (let is_offer = (counter_adaptor_signature \<noteq> None);
          (offer_per_update_point, accept_per_update_point) =
            (if is_offer then (own_next_per_update_point, counter_per_update_point)
             else (counter_per_update_point, own_next_per_update_point));
          fund_tx_in = \<lparr>previous_output = \<lparr>op_txid = compute_txid api fund_tx, op_vout = as_u32 fund_vout\<rparr>, script_sig = [],
            tx_sequence = 4294967295, tx_witness = []\<rparr> in
      and_then (get_revokable_params api offer_points (revocation_basepoint accept_points) offer_per_update_point) (\<lambda>offer_revoke_params.
      and_then (get_revokable_params api accept_points (revocation_basepoint offer_points) accept_per_update_point) (\<lambda>accept_revoke_params.
      and_then (index (tx_output fund_tx) fund_vout) (\<lambda>fund_output.
      and_then (map_err DlcError (create_settle_transaction (channel_of api deps) fund_tx_in offer_revoke_params accept_revoke_params
          offer_payout accept_payout csv_timelock lock_time (out_value fund_output) fee_rate_per_vb)) (\<lambda>settle_tx.
      and_then (case counter_adaptor_signature of
          None \<Rightarrow> Ok ()
        | Some (adaptor_sig, fund_pk) \<Rightarrow>
            map_err DlcError (verify_tx_adaptor_signature (channel_of api deps) settle_tx (out_value fund_output)
              witness_script fund_pk (publish_pk offer_revoke_params) adaptor_sig)) (\<lambda>_.
      let counter_pk = (if is_offer then publish_pk accept_revoke_params else publish_pk offer_revoke_params) in
      and_then (map_err DlcError (get_tx_adaptor_signature (channel_of api deps) settle_tx (out_value fund_output)
          witness_script own_fund_sk counter_pk)) (\<lambda>sig.
        Ok (settle_tx, sig))))))))"

definition settle_channel_accept ::
  "('m) manager_api_scheme \<Rightarrow> channel_deps \<Rightarrow> nat \<Rightarrow> nat \<Rightarrow> nat \<Rightarrow> nat \<Rightarrow> settle_accept channel_update" where
  "settle_channel_accept api deps csv_timelock lock_time peer_timeout now = with_channel (\<lambda>ch.
     then_do (case ch_state ch of SettledReceived x \<Rightarrow> attempt (Ok x) | _ \<Rightarrow> attempt (Err InvalidState)) (\<lambda>x.
     then_do (attempt (next_per_update_point api deps ch)) (\<lambda>own_next.
     then_do (attempt (uadd (collateral (ch_counter_params ch)) (collateral (ch_own_params ch)))) (\<lambda>total_collateral.
     then_do (attempt (usub total_collateral (sr_own_payout x))) (\<lambda>final_offer_payout.
     then_do (attempt (derive_contract_signer api (sr_keys_id x))) (\<lambda>contract_signer.
     then_do (attempt (get_settle_tx_and_adaptor_sig api deps own_next (ch_fund_tx ch) (ch_fund_output_index ch) (ch_fund_script_pubkey ch)
         contract_signer (ch_counter_points ch) (ch_own_points ch) (sr_counter_next_per_update_point x) final_offer_payout
         (sr_own_payout x) csv_timelock lock_time None (ch_fee_rate_per_vb ch))) (\<lambda>(settle_tx, sig).
     then_do (watch_tx (compute_txid api settle_tx) \<lparr>ch_channel_id = ch_id ch, ch_tx_type = SettleTx\<rparr>) (\<lambda>_.
     then_do (attempt (uadd now peer_timeout)) (\<lambda>timeout.
     then_do (set_channel (\<lambda>ch. ch\<lparr>ch_state := SettledAccepted
         \<lparr>sa_counter_next_per_update_point = sr_counter_next_per_update_point x, sa_own_next_per_update_point = own_next,
          sa_own_settle_adaptor_signature = sig, sa_settle_tx = settle_tx, sa_timeout = timeout, sa_own_payout = sr_own_payout x,
          sa_counter_payout = sr_counter_payout x, sa_keys_id = sr_keys_id x\<rparr>\<rparr>)) (\<lambda>_.
       attempt (Ok \<lparr>sta_channel_id = ch_id ch, sta_next_per_update_point = own_next, sta_settle_adaptor_signature = sig\<rparr>)))))))))))"

definition settle_channel_confirm ::
  "('m) manager_api_scheme \<Rightarrow> channel_deps \<Rightarrow> settle_accept \<Rightarrow> nat \<Rightarrow> nat \<Rightarrow> nat \<Rightarrow> nat \<Rightarrow> settle_confirm channel_update" where
  "settle_channel_confirm api deps m csv_timelock lock_time peer_timeout now = with_channel (\<lambda>ch.
     then_do (case ch_state ch of SettledOffered x \<Rightarrow> attempt (Ok x) | _ \<Rightarrow> attempt (Err InvalidState)) (\<lambda>x.
     then_do (attempt (uadd (collateral (ch_counter_params ch)) (collateral (ch_own_params ch)))) (\<lambda>total_collateral.
     then_do (attempt (usub total_collateral (so_counter_payout x))) (\<lambda>final_offer_payout.
     then_do (attempt (derive_contract_signer api (so_keys_id x))) (\<lambda>contract_signer.
     then_do (attempt (get_settle_tx_and_adaptor_sig api deps (so_next_per_update_point x) (ch_fund_tx ch) (ch_fund_output_index ch)
         (ch_fund_script_pubkey ch) contract_signer (ch_own_points ch) (ch_counter_points ch) (sta_next_per_update_point m)
         final_offer_payout (so_counter_payout x) csv_timelock lock_time
         (Some (sta_settle_adaptor_signature m, fund_pubkey (ch_counter_params ch))) (ch_fee_rate_per_vb ch))) (\<lambda>(settle_tx, sig).
     then_do (watch_tx (compute_txid api settle_tx) \<lparr>ch_channel_id = ch_id ch, ch_tx_type = SettleTx\<rparr>) (\<lambda>_.
     then_do (attempt (get_secret_key_for_pubkey deps (ch_own_per_update_seed ch))) (\<lambda>per_update_seed.
     then_do (attempt (prev_per_update_secret deps per_update_seed ch)) (\<lambda>prev_secret.
     then_do (attempt (uadd now peer_timeout)) (\<lambda>timeout.
     then_do (set_channel (\<lambda>ch. ch\<lparr>ch_state := SettledConfirmed
         \<lparr>sf_settle_tx = settle_tx, sf_counter_settle_adaptor_signature = sta_settle_adaptor_signature m,
          sf_counter_next_per_update_point = sta_next_per_update_point m,
          sf_own_next_per_update_point = so_next_per_update_point x, sf_own_settle_adaptor_signature = sig, sf_timeout = timeout,
          sf_own_payout = final_offer_payout, sf_counter_payout = so_counter_payout x, sf_keys_id = so_keys_id x\<rparr>\<rparr>)) (\<lambda>_.
       attempt (Ok \<lparr>stc_channel_id = ch_id ch, stc_prev_per_update_secret = prev_secret,
         stc_settle_adaptor_signature = sig\<rparr>))))))))))))"

definition settle_channel_finalize ::
  "('m) message_api_scheme \<Rightarrow> channel_deps \<Rightarrow> settle_confirm \<Rightarrow> settle_finalize channel_update" where
  "settle_channel_finalize api deps m = with_channel (\<lambda>ch.
     then_do (attempt (in_state get_settled_accepted ch)) (\<lambda>x.
     then_do (attempt (get_secret_key_for_pubkey deps (ch_own_per_update_seed ch))) (\<lambda>per_update_seed.
     then_do (attempt (get_revokable_params api (ch_own_points ch) (revocation_basepoint (ch_counter_points ch))
         (sa_own_next_per_update_point x))) (\<lambda>accept_revoke_params.
     then_do (attempt (fund_value ch)) (\<lambda>input_value.
     then_do (attempt (map_err DlcError (verify_tx_adaptor_signature (channel_of api deps) (sa_settle_tx x) input_value
         (ch_fund_script_pubkey ch) (fund_pubkey (ch_counter_params ch)) (publish_pk accept_revoke_params)
         (stc_settle_adaptor_signature m)))) (\<lambda>_.
     then_do (attempt (ensure (pk_of_sk api (stc_prev_per_update_secret m) = ch_counter_per_update_point ch) InvalidParameters)) (\<lambda>_.
     then_do (attempt (store_secret deps (stc_prev_per_update_secret m) ch)) (\<lambda>ch.
     then_do (set_channel (\<lambda>_. ch)) (\<lambda>_.
     then_do (attempt (prev_per_update_secret deps per_update_seed ch)) (\<lambda>prev_secret.
     then_do (set_channel (\<lambda>ch. ch\<lparr>ch_own_per_update_point := sa_own_next_per_update_point x,
         ch_counter_per_update_point := sa_counter_next_per_update_point x,
         ch_state := Settled \<lparr>sd_settle_tx = sa_settle_tx x, sd_counter_settle_adaptor_signature = stc_settle_adaptor_signature m,
           sd_own_settle_adaptor_signature = sa_own_settle_adaptor_signature x, sd_own_payout = sa_own_payout x,
           sd_counter_payout = sa_counter_payout x, sd_keys_id = sa_keys_id x\<rparr>,
         ch_roll_back_state := None\<rparr>)) (\<lambda>_.
     then_do (attempt (usub (ch_update_idx ch) 1)) (\<lambda>idx.
     then_do (set_channel (\<lambda>ch. ch\<lparr>ch_update_idx := idx\<rparr>)) (\<lambda>_.
       attempt (Ok \<lparr>stf_channel_id = ch_id ch, stf_prev_per_update_secret = prev_secret\<rparr>))))))))))))))"

definition settle_channel_on_finalize ::
  "('m) message_api_scheme \<Rightarrow> channel_deps \<Rightarrow> settle_finalize \<Rightarrow> unit channel_update" where
  "settle_channel_on_finalize api deps m = with_channel (\<lambda>ch.
     then_do (attempt (in_state get_settled_confirmed ch)) (\<lambda>x.
     then_do (attempt (ensure (pk_of_sk api (stf_prev_per_update_secret m) = ch_counter_per_update_point ch) InvalidParameters)) (\<lambda>_.
     then_do (attempt (store_secret deps (stf_prev_per_update_secret m) ch)) (\<lambda>ch.
     then_do (set_channel (\<lambda>_. ch\<lparr>ch_state := Settled \<lparr>sd_settle_tx = sf_settle_tx x,
           sd_counter_settle_adaptor_signature = sf_counter_settle_adaptor_signature x,
           sd_own_settle_adaptor_signature = sf_own_settle_adaptor_signature x, sd_own_payout = sf_own_payout x,
           sd_counter_payout = sf_counter_payout x, sd_keys_id = sf_keys_id x\<rparr>,
         ch_roll_back_state := None, ch_own_per_update_point := sf_own_next_per_update_point x,
         ch_counter_per_update_point := sf_counter_next_per_update_point x\<rparr>)) (\<lambda>_.
     then_do (attempt (usub (ch_update_idx ch) 1)) (\<lambda>idx.
       set_channel (\<lambda>ch. ch\<lparr>ch_update_idx := idx\<rparr>)))))))"

definition reject_settle_offer :: "reject channel_update" where
  "reject_settle_offer = with_channel (\<lambda>ch.
     then_do (case ch_state ch of SettledReceived x \<Rightarrow> attempt (Ok ()) | _ \<Rightarrow> attempt (Err InvalidState)) (\<lambda>_.
     then_do (attempt (roll_back ch)) (\<lambda>ch. then_do (set_channel (\<lambda>_. ch)) (\<lambda>_. attempt (Ok \<lparr>rej_channel_id = ch_id ch\<rparr>)))))"

section \<open>Renewing the contract of a channel\<close>

definition renew_channel_offer ::
  "('m) message_api_scheme \<Rightarrow> channel_deps \<Rightarrow> party_env \<Rightarrow> contract_input \<Rightarrow> oracle_announcement list list \<Rightarrow> nat \<Rightarrow> nat \<Rightarrow> nat \<Rightarrow> nat
    \<Rightarrow> nat \<Rightarrow> (renew_offer \<times> offered_contract) channel_update" where
  "renew_channel_offer api deps env contract oracle_announcements counter_payout refund_delay peer_timeout cet_nsequence now = with_channel (\<lambda>ch.
     then_do (attempt (case ch_state ch of
         Established e \<Rightarrow>
           and_then (uadd (ci_accept_collateral contract) (ci_offer_collateral contract)) (\<lambda>s.
             ensure (es_total_collateral e = s) InvalidParameters)
       | Settled x \<Rightarrow>
           ensure (ci_offer_collateral contract = sd_own_payout x \<and> ci_accept_collateral contract = sd_counter_payout x) InvalidParameters
       | _ \<Rightarrow> Err InvalidState)) (\<lambda>_.
     let temporary_contract_id = generate_temporary_contract_id api (ch_id ch) (ch_update_idx ch) in
     then_do (attempt (ok_or InvalidState (channel_keys_id ch))) (\<lambda>keys_id.
     then_do (attempt (offered_new env temporary_contract_id contract oracle_announcements (ch_own_params ch) [] (ch_counter_party ch)
         refund_delay (as_u32 now) keys_id)) (\<lambda>oc.
     let oc = oc\<lparr>oc_fund_output_serial_id := 0, oc_fee_rate_per_vb := ch_fee_rate_per_vb ch\<rparr> in
     then_do (attempt (next_per_update_point api deps ch)) (\<lambda>next_point.
     then_do (attempt (uadd now peer_timeout)) (\<lambda>timeout.
     then_do (set_channel (enter_state (RenewOffered \<lparr>ro_offered_contract_id = oc_id oc, ro_counter_payout = counter_payout,
         ro_offer_next_per_update_point = next_point, ro_is_offer = True, ro_timeout = timeout, ro_keys_id = keys_id\<rparr>))) (\<lambda>_.
     then_do (attempt (contract_info_to_ser (oc_total_collateral oc) (oc_contract_info oc))) (\<lambda>contract_info.
       attempt (Ok (\<lparr>rno_channel_id = ch_id ch, rno_temporary_contract_id = oc_id oc, rno_counter_payout = counter_payout,
         rno_next_per_update_point = next_point, rno_contract_info = contract_info, rno_cet_locktime = oc_cet_locktime oc,
         rno_refund_locktime = oc_refund_locktime oc, rno_cet_nsequence = cet_nsequence\<rparr>, oc))))))))))"

definition on_renew_offer :: "renew_offer \<Rightarrow> nat \<Rightarrow> nat \<Rightarrow> offered_contract channel_update" where
  "on_renew_offer m peer_timeout now = with_channel (\<lambda>ch.
     then_do (attempt (case ch_state ch of Settled x \<Rightarrow> Ok (sd_keys_id x) | Established e \<Rightarrow> Ok (es_keys_id e) | _ \<Rightarrow> Err InvalidState)) (\<lambda>keys_id.
     then_do (attempt (map_err Conversion (get_contract_info_and_announcements (rno_contract_info m)))) (\<lambda>contract_info.
     then_do (attempt (channel_collateral ch)) (\<lambda>total_collateral.
     let oc = \<lparr>oc_id = rno_temporary_contract_id m, oc_is_offer_party = False, oc_contract_info = contract_info,
           oc_counter_party = ch_counter_party ch, oc_offer_params = ch_counter_params ch, oc_total_collateral = total_collateral,
           oc_funding_inputs = [], oc_fund_output_serial_id = 0, oc_fee_rate_per_vb = ch_fee_rate_per_vb ch,
           oc_cet_locktime = rno_cet_locktime m, oc_refund_locktime = rno_refund_locktime m, oc_contract_flags = 0,
           oc_keys_id = keys_id\<rparr> in
     then_do (attempt (uadd now peer_timeout)) (\<lambda>timeout.
     then_do (set_channel (enter_state (RenewOffered \<lparr>ro_offered_contract_id = oc_id oc, ro_counter_payout = rno_counter_payout m,
         ro_offer_next_per_update_point = rno_next_per_update_point m, ro_is_offer = False, ro_timeout = timeout,
         ro_keys_id = keys_id\<rparr>))) (\<lambda>_.
       attempt (Ok oc)))))))"

definition renewal_transactions ::
  "('m) message_api_scheme \<Rightarrow> channel_deps \<Rightarrow> signed_channel \<Rightarrow> offered_contract \<Rightarrow> party_params \<Rightarrow> revoke_params \<Rightarrow> revoke_params \<Rightarrow> nat
    \<Rightarrow> (dlc_channel_transactions, manager_error) res" where
  "renewal_transactions api deps ch oc accept_params offer_revoke_params accept_revoke_params cet_nsequence =
     and_then (index (oc_contract_info oc) 0) (\<lambda>info.
     and_then (info_get_payouts info (oc_total_collateral oc)) (\<lambda>payouts.
       map_err DlcError (create_renewal_channel_transactions (channel_of api deps) (oc_offer_params oc) accept_params offer_revoke_params
         accept_revoke_params (ch_fund_tx ch) (ch_fund_script_pubkey ch) payouts (oc_refund_locktime oc) (oc_fee_rate_per_vb oc) 0
         cet_nsequence (oc_contract_flags oc))))"

definition accept_channel_renewal ::
  "('m) message_api_scheme \<Rightarrow> channel_deps \<Rightarrow> offered_contract \<Rightarrow> nat \<Rightarrow> nat \<Rightarrow> nat \<Rightarrow> (accepted_contract \<times> renew_accept) channel_update" where
  "accept_channel_renewal api deps oc cet_nsequence peer_timeout now = with_channel (\<lambda>ch.
     then_do (attempt (in_state get_renew_offered ch)) (\<lambda>x.
     then_do (attempt (get_secret_key_for_pubkey deps (own_basepoint (ch_own_points ch)))) (\<lambda>own_base_secret_key.
     then_do (attempt (get_secret_key_for_pubkey deps (ch_own_per_update_seed ch))) (\<lambda>per_update_seed.
     then_do (attempt (get_revokable_params api (ch_counter_points ch) (revocation_basepoint (ch_own_points ch))
         (ro_offer_next_per_update_point x))) (\<lambda>offer_revoke_params.
     then_do (attempt (usub (ch_update_idx ch) 1)) (\<lambda>idx.
     then_do (attempt (ok_or SecpError (commitment_secret deps per_update_seed idx))) (\<lambda>accept_per_update_secret.
     let accept_per_update_point = pk_of_sk api accept_per_update_secret in
     then_do (attempt (get_revokable_params api (ch_own_points ch) (revocation_basepoint (ch_counter_points ch))
         accept_per_update_point)) (\<lambda>accept_revoke_params.
     then_do (attempt (renewal_transactions api deps ch oc (ch_own_params ch) offer_revoke_params accept_revoke_params cet_nsequence)) (\<lambda>txs.
     let own_secret_key = derive_private_key deps accept_per_update_point own_base_secret_key in
     then_do (attempt (index (tx_output (buffer_transaction txs)) 0)) (\<lambda>buffer_output.
     then_do (attempt (accept_contract_internal api oc (ch_own_params ch) [] own_secret_key (out_value buffer_output)
         (Some (buffer_script_pubkey txs)) (dc_dlc_transactions txs))) (\<lambda>(accepted_contract, adaptor_sigs).
     then_do (attempt (get_contract_id api accepted_contract)) (\<lambda>contract_id.
     then_do (attempt (uadd now peer_timeout)) (\<lambda>timeout.
     then_do (set_channel (\<lambda>ch. ch\<lparr>ch_state := RenewAccepted \<lparr>ra_contract_id = contract_id,
         ra_offer_per_update_point = ro_offer_next_per_update_point x, ra_accept_per_update_point = accept_per_update_point,
         ra_buffer_transaction = buffer_transaction txs, ra_buffer_script_pubkey = buffer_script_pubkey txs,
         ra_timeout = timeout, ra_own_payout = ro_counter_payout x, ra_keys_id = ro_keys_id x\<rparr>\<rparr>)) (\<lambda>_.
       attempt (Ok (accepted_contract, \<lparr>rna_channel_id = ch_id ch, rna_next_per_update_point = accept_per_update_point,
         rna_cet_adaptor_signatures = adaptor_sigs,
         rna_refund_signature = ac_accept_refund_signature accepted_contract\<rparr>))))))))))))))))"

definition verify_renew_accept_and_confirm ::
  "('m) updater_api_scheme \<Rightarrow> channel_deps \<Rightarrow> wallet \<Rightarrow> lookup \<Rightarrow> renew_accept \<Rightarrow> offered_contract \<Rightarrow> nat \<Rightarrow> nat \<Rightarrow> nat
    \<Rightarrow> (signed_contract \<times> renew_confirm) channel_update" where
  "verify_renew_accept_and_confirm api deps wallet lookup m oc cet_nsequence peer_timeout now = with_channel (\<lambda>ch.
     then_do (attempt (get_secret_key_for_pubkey deps (own_basepoint (ch_own_points ch)))) (\<lambda>_.
     then_do (attempt (in_state get_renew_offered ch)) (\<lambda>x.
     let offer_per_update_point = ro_offer_next_per_update_point x in
     then_do (attempt (derive_contract_signer api (ro_keys_id x))) (\<lambda>contract_signer.
     then_do (attempt (get_revokable_params api (ch_own_points ch) (revocation_basepoint (ch_counter_points ch))
         offer_per_update_point)) (\<lambda>offer_revoke_params.
     then_do (attempt (get_revokable_params api (ch_counter_points ch) (revocation_basepoint (ch_own_points ch))
         (rna_next_per_update_point m))) (\<lambda>accept_revoke_params.
     then_do (attempt (usub (oc_total_collateral oc) (ro_counter_payout x))) (\<lambda>own_payout.
     then_do (attempt (renewal_transactions api deps ch oc (ch_counter_params ch) offer_revoke_params accept_revoke_params cet_nsequence)) (\<lambda>txs.
     let d = dc_dlc_transactions txs; buffer = buffer_transaction txs in
     then_do (attempt (index (tx_output buffer) 0)) (\<lambda>buffer_output.
     then_do (attempt (verify_accepted_and_sign_contract_internal api wallet lookup oc (ch_counter_params ch) [] (rna_refund_signature m)
         (rna_cet_adaptor_signatures m) (out_value buffer_output) contract_signer (Some (buffer_script_pubkey txs))
         (Some (own_pk accept_revoke_params)) d (Some (ch_id ch)))) (\<lambda>(signed_contract, cet_sigs).
     then_do (attempt (get_fund_output (btc api) d)) (\<lambda>fund_output.
     then_do (attempt (map_err DlcError (get_tx_adaptor_signature (channel_of api deps) buffer (out_value fund_output) (funding_witness_script d)
         contract_signer (publish_pk accept_revoke_params)))) (\<lambda>own_buffer_adaptor_signature.
     then_do (attempt (get_contract_id api (sc_accepted_contract signed_contract))) (\<lambda>contract_id.
     then_do (attempt (uadd now peer_timeout)) (\<lambda>timeout.
     then_do (set_channel (\<lambda>ch. ch\<lparr>ch_state := RenewConfirmed \<lparr>rc_contract_id = contract_id,
         rc_offer_per_update_point = offer_per_update_point, rc_accept_per_update_point = rna_next_per_update_point m,
         rc_buffer_transaction = buffer, rc_buffer_script_pubkey = buffer_script_pubkey txs,
         rc_offer_buffer_adaptor_signature = own_buffer_adaptor_signature, rc_timeout = timeout, rc_own_payout = own_payout,
         rc_total_collateral = oc_total_collateral oc, rc_keys_id = ro_keys_id x\<rparr>\<rparr>)) (\<lambda>_.
       attempt (Ok (signed_contract, \<lparr>rnc_channel_id = ch_id ch, rnc_buffer_adaptor_signature = own_buffer_adaptor_signature,
         rnc_cet_adaptor_signatures = cet_sigs,
         rnc_refund_signature = sc_offer_refund_signature signed_contract\<rparr>)))))))))))))))))"

definition verify_renew_confirm_and_finalize ::
  "('m) updater_api_scheme \<Rightarrow> channel_deps \<Rightarrow> wallet \<Rightarrow> lookup \<Rightarrow> accepted_contract \<Rightarrow> renew_confirm \<Rightarrow> nat \<Rightarrow> nat
    \<Rightarrow> (signed_contract \<times> renew_finalize) channel_update" where
  "verify_renew_confirm_and_finalize api deps wallet lookup a m peer_timeout now = with_channel (\<lambda>ch.
     then_do (attempt (in_state get_renew_accepted ch)) (\<lambda>x.
     then_do (attempt (get_publish_pk api (ch_own_points ch) (ra_accept_per_update_point x))) (\<lambda>own_publish_pk.
     then_do (attempt (get_own_pk api (ch_counter_points ch) (ra_offer_per_update_point x))) (\<lambda>counter_own_pk.
     then_do (attempt (fund_value ch)) (\<lambda>buffer_input_value.
     then_do (attempt (map_err DlcError (verify_tx_adaptor_signature (channel_of api deps) (ra_buffer_transaction x) buffer_input_value
         (ch_fund_script_pubkey ch) (fund_pubkey (oc_offer_params (ac_offered_contract a))) own_publish_pk
         (rnc_buffer_adaptor_signature m)))) (\<lambda>_.
     then_do (attempt (index (tx_output (ra_buffer_transaction x)) 0)) (\<lambda>buffer_output.
     then_do (attempt (verify_signed_contract_internal api wallet lookup a (rnc_refund_signature m) (rnc_cet_adaptor_signatures m) []
         (out_value buffer_output) (Some (ra_buffer_script_pubkey x)) (Some counter_own_pk) (Some (ch_id ch)))) (\<lambda>(signed_contract, _).
     let prev_offer_per_update_point = ch_counter_per_update_point ch in
     then_do (set_channel (\<lambda>ch. ch\<lparr>ch_counter_per_update_point := ra_offer_per_update_point x,
         ch_own_per_update_point := ra_accept_per_update_point x\<rparr>)) (\<lambda>_.
     then_do (attempt (get_secret_key_for_pubkey deps (ch_own_per_update_seed ch))) (\<lambda>per_update_seed.
     then_do (attempt (prev_per_update_secret deps per_update_seed ch)) (\<lambda>prev_secret.
     then_do (attempt (get_revokable_params api (ch_counter_points ch) (revocation_basepoint (ch_own_points ch))
         (ra_offer_per_update_point x))) (\<lambda>offer_revoke_params.
     then_do (attempt (get_secret_key_for_pubkey deps (fund_pubkey (ch_own_params ch)))) (\<lambda>own_fund_sk.
     then_do (attempt (map_err DlcError (get_tx_adaptor_signature (channel_of api deps) (ra_buffer_transaction x) buffer_input_value
         (ch_fund_script_pubkey ch) own_fund_sk (publish_pk offer_revoke_params)))) (\<lambda>buffer_adaptor_signature.
     then_do (attempt (channel_collateral ch)) (\<lambda>total_collateral.
     then_do (watch_tx (compute_txid api (ra_buffer_transaction x)) \<lparr>ch_channel_id = ch_id ch, ch_tx_type = BufferTx\<rparr>) (\<lambda>_.
     then_do (attempt (get_contract_id api (sc_accepted_contract signed_contract))) (\<lambda>contract_id.
     then_do (attempt (uadd now peer_timeout)) (\<lambda>timeout.
     then_do (set_channel (\<lambda>ch. ch\<lparr>ch_state := RenewFinalized \<lparr>rf_contract_id = contract_id,
         rf_prev_offer_per_update_point = prev_offer_per_update_point, rf_buffer_transaction = ra_buffer_transaction x,
         rf_buffer_script_pubkey = ra_buffer_script_pubkey x, rf_offer_buffer_adaptor_signature = rnc_buffer_adaptor_signature m,
         rf_accept_buffer_adaptor_signature = buffer_adaptor_signature, rf_timeout = timeout, rf_own_payout = ra_own_payout x,
         rf_total_collateral = total_collateral, rf_keys_id = ra_keys_id x\<rparr>\<rparr>)) (\<lambda>_.
       attempt (Ok (signed_contract, \<lparr>rnf_channel_id = ch_id ch, rnf_per_update_secret = prev_secret,
         rnf_buffer_adaptor_signature = buffer_adaptor_signature\<rparr>)))))))))))))))))))))"

definition renew_channel_on_finalize ::
  "('m) message_api_scheme \<Rightarrow> channel_deps \<Rightarrow> renew_finalize \<Rightarrow> renew_revoke channel_update" where
  "renew_channel_on_finalize api deps m = with_channel (\<lambda>ch.
     then_do (attempt (in_state get_renew_confirmed ch)) (\<lambda>x.
     then_do (attempt (get_revokable_params api (ch_own_points ch) (revocation_basepoint (ch_counter_points ch))
         (rc_offer_per_update_point x))) (\<lambda>offer_revoke_params.
     then_do (attempt (fund_value ch)) (\<lambda>buffer_input_value.
     then_do (attempt (map_err DlcError (verify_tx_adaptor_signature (channel_of api deps) (rc_buffer_transaction x) buffer_input_value
         (ch_fund_script_pubkey ch) (fund_pubkey (ch_counter_params ch)) (publish_pk offer_revoke_params)
         (rnf_buffer_adaptor_signature m)))) (\<lambda>_.
     let state = Established \<lparr>es_signed_contract_id = rc_contract_id x,
           es_counter_buffer_adaptor_signature = rnf_buffer_adaptor_signature m,
           es_own_buffer_adaptor_signature = rc_offer_buffer_adaptor_signature x,
           es_buffer_transaction = rc_buffer_transaction x, es_is_offer = True, es_total_collateral = rc_total_collateral x,
           es_keys_id = rc_keys_id x\<rparr> in
     then_do (attempt (ensure (pk_of_sk api (rnf_per_update_secret m) = ch_counter_per_update_point ch) InvalidParameters)) (\<lambda>_.
     then_do (attempt (store_secret deps (rnf_per_update_secret m) ch)) (\<lambda>ch.
     then_do (set_channel (\<lambda>_. ch)) (\<lambda>_.
     then_do (attempt (get_secret_key_for_pubkey deps (ch_own_per_update_seed ch))) (\<lambda>per_update_seed.
     then_do (attempt (prev_per_update_secret deps per_update_seed ch)) (\<lambda>prev_secret.
     then_do (set_channel (\<lambda>ch. ch\<lparr>ch_own_per_update_point := rc_offer_per_update_point x,
         ch_counter_per_update_point := rc_accept_per_update_point x, ch_state := state, ch_roll_back_state := None\<rparr>)) (\<lambda>_.
     then_do (attempt (usub (ch_update_idx ch) 1)) (\<lambda>idx.
     then_do (set_channel (\<lambda>ch. ch\<lparr>ch_update_idx := idx\<rparr>)) (\<lambda>_.
       attempt (Ok \<lparr>rnr_channel_id = ch_id ch, rnr_per_update_secret = prev_secret\<rparr>))))))))))))))"

definition renew_channel_on_revoke ::
  "('m) message_api_scheme \<Rightarrow> channel_deps \<Rightarrow> renew_revoke \<Rightarrow> unit channel_update" where
  "renew_channel_on_revoke api deps m = with_channel (\<lambda>ch.
     then_do (attempt (in_state get_renew_finalized ch)) (\<lambda>x.
     then_do (attempt (ensure (pk_of_sk api (rnr_per_update_secret m) = rf_prev_offer_per_update_point x) InvalidParameters)) (\<lambda>_.
     then_do (attempt (store_secret deps (rnr_per_update_secret m) ch)) (\<lambda>ch.
     then_do (set_channel (\<lambda>_. ch)) (\<lambda>_.
     then_do (attempt (usub (ch_update_idx ch) 1)) (\<lambda>idx.
       set_channel (\<lambda>ch. ch\<lparr>ch_update_idx := idx,
         ch_state := Established \<lparr>es_signed_contract_id = rf_contract_id x,
           es_counter_buffer_adaptor_signature = rf_offer_buffer_adaptor_signature x,
           es_own_buffer_adaptor_signature = rf_accept_buffer_adaptor_signature x,
           es_buffer_transaction = rf_buffer_transaction x, es_is_offer = True, es_total_collateral = rf_total_collateral x,
           es_keys_id = rf_keys_id x\<rparr>\<rparr>)))))))"

definition reject_renew_offer :: "reject channel_update" where
  "reject_renew_offer = with_channel (\<lambda>ch.
     then_do (attempt (in_state get_renew_offered ch)) (\<lambda>x.
     then_do (attempt (ensure (\<not> ro_is_offer x) InvalidState)) (\<lambda>_.
     then_do (attempt (roll_back ch)) (\<lambda>ch. then_do (set_channel (\<lambda>_. ch)) (\<lambda>_. attempt (Ok \<lparr>rej_channel_id = ch_id ch\<rparr>))))))"

section \<open>Closing a channel\<close>

definition PEER_TIMEOUT :: nat where "PEER_TIMEOUT = 3600"

text \<open>The transaction that pays the party that offers \<open>offer_payout\<close> and the other one \<open>counter_payout\<close>.\<close>

definition channel_close_tx ::
  "('m) message_api_scheme \<Rightarrow> signed_channel \<Rightarrow> party_params \<Rightarrow> nat \<Rightarrow> party_params \<Rightarrow> nat \<Rightarrow> out_point list \<Rightarrow> (transaction, 'e) res" where
  "channel_close_tx api ch offer_params offer_payout accept_params accept_payout additional_inputs =
     and_then (fund_value ch) (\<lambda>fund_output_value.
       Ok (create_collaborative_close_transaction offer_params offer_payout accept_params accept_payout
         \<lparr>op_txid = compute_txid api (ch_fund_tx ch), op_vout = as_u32 (ch_fund_output_index ch)\<rparr> fund_output_value additional_inputs))"

definition offer_collaborative_close ::
  "('m) manager_api_scheme \<Rightarrow> nat \<Rightarrow> out_point list \<Rightarrow> nat \<Rightarrow> (collaborative_close_offer \<times> transaction) channel_update" where
  "offer_collaborative_close api counter_payout additional_inputs now = with_channel (\<lambda>ch.
     then_do (attempt (uadd (collateral (ch_counter_params ch)) (collateral (ch_own_params ch)))) (\<lambda>total_collateral.
     then_do (attempt (ensure (counter_payout \<le> total_collateral) InvalidParameters)) (\<lambda>_.
     then_do (attempt (channel_close_tx api ch (ch_own_params ch) (total_collateral - counter_payout) (ch_counter_params ch) counter_payout
         additional_inputs)) (\<lambda>close_tx.
     then_do (attempt (ok_or InvalidState (channel_keys_id ch))) (\<lambda>keys_id.
     then_do (attempt (derive_contract_signer api keys_id)) (\<lambda>contract_signer.
     then_do (attempt (fund_value ch)) (\<lambda>fund_output_value.
     then_do (attempt (map_err DlcError (get_raw_sig_for_tx_input api close_tx 0 (ch_fund_script_pubkey ch) fund_output_value contract_signer))) (\<lambda>sig.
     then_do (attempt (uadd now PEER_TIMEOUT)) (\<lambda>timeout.
     then_do (set_channel (enter_state (CollaborativeCloseOffered \<lparr>co_counter_payout = counter_payout, co_offer_signature = sig,
         co_close_tx = close_tx, co_timeout = timeout, co_keys_id = keys_id\<rparr>))) (\<lambda>_.
       attempt (Ok (\<lparr>cco_channel_id = ch_id ch, cco_counter_payout = counter_payout, cco_close_signature = sig\<rparr>, close_tx))))))))))))"

definition on_collaborative_close_offer ::
  "('m) message_api_scheme \<Rightarrow> collaborative_close_offer \<Rightarrow> nat \<Rightarrow> nat \<Rightarrow> unit channel_update" where
  "on_collaborative_close_offer api m peer_timeout now = with_channel (\<lambda>ch.
     then_do (attempt (channel_collateral ch)) (\<lambda>total_collateral.
     then_do (attempt (ensure (cco_counter_payout m \<le> total_collateral) InvalidParameters)) (\<lambda>_.
     then_do (attempt (ensure (ch_roll_back_state ch = None) InvalidState)) (\<lambda>_.
     then_do (attempt (channel_close_tx api ch (ch_counter_params ch) (total_collateral - cco_counter_payout m) (ch_own_params ch)
         (cco_counter_payout m) [])) (\<lambda>close_tx.
     then_do (attempt (uadd now peer_timeout)) (\<lambda>timeout.
     then_do (attempt (ok_or InvalidState (channel_keys_id ch))) (\<lambda>keys_id.
       set_channel (enter_state (CollaborativeCloseOffered \<lparr>co_counter_payout = cco_counter_payout m,
         co_offer_signature = cco_close_signature m, co_close_tx = close_tx, co_timeout = timeout, co_keys_id = keys_id\<rparr>)))))))))"

definition closed_of :: "signed_channel \<Rightarrow> closed_channel" where
  "closed_of ch = \<lparr>clc_counter_party = ch_counter_party ch, clc_temporary_channel_id = ch_temporary_id ch, clc_channel_id = ch_id ch\<rparr>"

definition accept_collaborative_close_offer ::
  "('m) message_api_scheme \<Rightarrow> channel_deps \<Rightarrow> signed_channel \<Rightarrow> (transaction \<times> channel, manager_error) res" where
  "accept_collaborative_close_offer api deps ch =
     and_then (in_state get_close_offered ch) (\<lambda>x.
     and_then (fund_value ch) (\<lambda>fund_out_amount.
     and_then (get_secret_key_for_pubkey deps (fund_pubkey (ch_own_params ch))) (\<lambda>own_fund_sk.
     and_then (map_err DlcError (sign_multi_sig_input api (co_close_tx x) (co_offer_signature x) (fund_pubkey (ch_counter_params ch))
         own_fund_sk (ch_fund_script_pubkey ch) fund_out_amount 0)) (\<lambda>close_tx.
       Ok (close_tx, CollaborativelyClosedChannel (closed_of ch))))))"

definition on_reject :: "unit channel_update" where
  "on_reject = with_channel (\<lambda>ch.
     case ch_state ch of
       Established _ \<Rightarrow> attempt (Ok ())
     | Settled _ \<Rightarrow> attempt (Ok ())
     | _ \<Rightarrow>
         if (case ch_state ch of RenewOffered x \<Rightarrow> ro_is_offer x | SettledOffered _ \<Rightarrow> True | _ \<Rightarrow> False)
         then then_do (attempt (roll_back ch)) (\<lambda>ch. set_channel (\<lambda>_. ch))
         else attempt (Err InvalidState))"

definition initiate_unilateral_close_established_channel ::
  "('m) message_api_scheme \<Rightarrow> channel_deps \<Rightarrow> adaptor_sig \<Rightarrow> bytes \<Rightarrow> transaction \<Rightarrow> bool \<Rightarrow> unit channel_update" where
  "initiate_unilateral_close_established_channel api deps buffer_adaptor_signature keys_id buffer_tx is_initiator = with_channel (\<lambda>ch.
     then_do (attempt (get_secret_key_for_pubkey deps (publish_basepoint (ch_own_points ch)))) (\<lambda>publish_base_secret.
     let publish_sk = derive_private_key deps (ch_own_per_update_point ch) publish_base_secret in
     then_do (attempt (ok_or SecpError (adaptor_decrypt api buffer_adaptor_signature publish_sk))) (\<lambda>counter_buffer_signature.
     then_do (attempt (get_secret_key_for_pubkey deps (fund_pubkey (ch_own_params ch)))) (\<lambda>buffer_input_sk.
     then_do (attempt (fund_value ch)) (\<lambda>input_value.
     then_do (attempt (map_err DlcError (sign_multi_sig_input api buffer_tx counter_buffer_signature (fund_pubkey (ch_counter_params ch))
         buffer_input_sk (ch_fund_script_pubkey ch) input_value 0))) (\<lambda>buffer_tx.
     then_do (attempt (ok_or InvalidState (channel_contract_id ch))) (\<lambda>contract_id.
       set_channel (\<lambda>ch. ch\<lparr>ch_state := Closing \<lparr>cg_buffer_transaction = buffer_tx, cg_contract_id = contract_id,
         cg_is_initiator = is_initiator, cg_keys_id = keys_id\<rparr>\<rparr>))))))))"

definition finalize_unilateral_close_settled_channel ::
  "('m) message_api_scheme \<Rightarrow> channel_deps \<Rightarrow> hash_orders \<Rightarrow> signed_channel \<Rightarrow> signed_contract \<Rightarrow> contract_info
    \<Rightarrow> (nat \<times> oracle_attestation) list \<Rightarrow> adaptor_info \<Rightarrow> bool \<Rightarrow> (transaction \<times> channel, manager_error) res" where
  "finalize_unilateral_close_settled_channel api deps ho ch confirmed_contract contract_info attestations adaptor_info is_initiator =
     (let a = sc_accepted_contract confirmed_contract; is_offer = oc_is_offer_party (ac_offered_contract a) in
      and_then (in_state get_closing ch) (\<lambda>x.
      and_then (get_range_info_and_oracle_sigs ho contract_info adaptor_info attestations) (\<lambda>(range_info, oracle_sigs).
      and_then (index (dlc_cets (ac_dlc_transactions a)) (cet_index range_info)) (\<lambda>cet.
      let (offer_points, accept_points, offer_per_update_point, accept_per_update_point) =
            (if is_offer then (ch_own_points ch, ch_counter_points ch, ch_own_per_update_point ch, ch_counter_per_update_point ch)
             else (ch_counter_points ch, ch_own_points ch, ch_counter_per_update_point ch, ch_own_per_update_point ch)) in
      and_then (get_revokable_params api offer_points (revocation_basepoint accept_points) offer_per_update_point) (\<lambda>offer_revoke_params.
      and_then (get_revokable_params api accept_points (revocation_basepoint offer_points) accept_per_update_point) (\<lambda>accept_revoke_params.
      let (own_per_update_point, own_base, counter_pk, adaptor_sigs) =
            (if is_offer then (offer_per_update_point, own_basepoint offer_points, own_pk accept_revoke_params, ac_adaptor_signatures a)
             else (accept_per_update_point, own_basepoint accept_points, own_pk offer_revoke_params,
                   sc_adaptor_signatures confirmed_contract)) in
      and_then (get_secret_key_for_pubkey deps own_base) (\<lambda>base_secret.
      let own_sk = derive_private_key deps own_per_update_point base_secret in
      and_then (index (tx_output (cg_buffer_transaction x)) 0) (\<lambda>buffer_output.
      and_then (index adaptor_sigs (adaptor_index range_info)) (\<lambda>adaptor_sig.
      and_then (map_err DlcError (channel_sign_cet (channel_of api deps) cet (out_value buffer_output) offer_revoke_params
          accept_revoke_params own_sk counter_pk adaptor_sig oracle_sigs)) (\<lambda>cet.
        Ok (cet, if is_initiator then ClosedChannel (closed_of ch) else CounterClosedChannel (closed_of ch))))))))))))"

definition close_settled_channel ::
  "('m) message_api_scheme \<Rightarrow> channel_deps \<Rightarrow> signed_channel \<Rightarrow> bool \<Rightarrow> (transaction \<times> channel, manager_error) res" where
  "close_settled_channel api deps ch is_initiator =
     and_then (in_state get_settled ch) (\<lambda>x.
     and_then (get_secret_key_for_pubkey deps (publish_basepoint (ch_own_points ch))) (\<lambda>publish_base_secret.
     let publish_sk = derive_private_key deps (ch_own_per_update_point ch) publish_base_secret in
     and_then (ok_or SecpError (adaptor_decrypt api (sd_counter_settle_adaptor_signature x) publish_sk)) (\<lambda>counter_settle_signature.
     and_then (get_secret_key_for_pubkey deps (fund_pubkey (ch_own_params ch))) (\<lambda>fund_sk.
     and_then (fund_value ch) (\<lambda>input_value.
     and_then (map_err DlcError (sign_multi_sig_input api (sd_settle_tx x) counter_settle_signature (fund_pubkey (ch_counter_params ch))
         fund_sk (ch_fund_script_pubkey ch) input_value 0)) (\<lambda>settle_tx.
       Ok (settle_tx, if is_initiator then ClosedChannel (closed_of ch) else CounterClosedChannel (closed_of ch))))))))"

end
