(* ===== verification/Channel_Settlement.thy ===== *)
theory Channel_Settlement
  imports Channel_Updater Contract_Example
begin

text \<open>
  The settlement protocol of \<open>channel_updater.rs\<close> between two honest parties, and the closing of a settled channel.
\<close>

section \<open>Runs of updates\<close>

named_theorems update_simps \<open>unfolding the steps of an update\<close>

lemma attempt_apply [update_simps]: "attempt r s = (r, s)"
  by (simp add: attempt_def)

lemma then_do_Ok [update_simps]:
  "then_do m f s = (Ok y, s') \<longleftrightarrow> (\<exists>x t. m s = (Ok x, t) \<and> f x t = (Ok y, s'))"
  by (cases "m s"; cases "fst (m s)") (auto simp: then_do_def)

lemma with_channel_apply [update_simps]: "with_channel f s = f (us_channel s) s"
  by (simp add: with_channel_def)

lemma set_channel_apply [update_simps]: "set_channel f s = (Ok (), s\<lparr>us_channel := f (us_channel s)\<rparr>)"
  by (simp add: set_channel_def)

lemma watch_tx_apply [update_simps]: "watch_tx txid ci s = (Ok (), s\<lparr>us_monitor := add_tx txid ci (us_monitor s)\<rparr>)"
  by (simp add: watch_tx_def)

lemma in_state_Ok [simp]: "in_state sel ch = Ok x \<longleftrightarrow> sel (ch_state ch) = Some x"
  by (simp add: in_state_def)

lemma get_state_Some [simp]:
  "get_established st = Some x1 \<longleftrightarrow> st = Established x1" "get_settled_accepted st = Some x4 \<longleftrightarrow> st = SettledAccepted x4"
  "get_settled_confirmed st = Some x5 \<longleftrightarrow> st = SettledConfirmed x5" "get_settled st = Some x6 \<longleftrightarrow> st = Settled x6"
  "get_renew_offered st = Some x7 \<longleftrightarrow> st = RenewOffered x7" "get_renew_accepted st = Some x8 \<longleftrightarrow> st = RenewAccepted x8"
  "get_renew_confirmed st = Some x9 \<longleftrightarrow> st = RenewConfirmed x9" "get_renew_finalized st = Some x10 \<longleftrightarrow> st = RenewFinalized x10"
  "get_closing st = Some x11 \<longleftrightarrow> st = Closing x11" "get_close_offered st = Some x12 \<longleftrightarrow> st = CollaborativeCloseOffered x12"
  by (cases st; auto)+

section \<open>Two parties of a channel\<close>

text \<open>The channel as the two parties hold it.\<close>

definition mirrored :: "signed_channel \<Rightarrow> signed_channel \<Rightarrow> bool" where
  "mirrored ch ch' \<longleftrightarrow> ch_id ch' = ch_id ch \<and> ch_own_params ch' = ch_counter_params ch \<and> ch_counter_params ch' = ch_own_params ch \<and>
     ch_own_points ch' = ch_counter_points ch \<and> ch_counter_points ch' = ch_own_points ch \<and>
     ch_own_per_update_point ch' = ch_counter_per_update_point ch \<and> ch_counter_per_update_point ch' = ch_own_per_update_point ch \<and>
     ch_update_idx ch' = ch_update_idx ch \<and> ch_fund_tx ch' = ch_fund_tx ch \<and> ch_fund_script_pubkey ch' = ch_fund_script_pubkey ch \<and>
     ch_fund_output_index ch' = ch_fund_output_index ch \<and> ch_fee_rate_per_vb ch' = ch_fee_rate_per_vb ch"

text \<open>The party has the secret of the current state; the other party can store it.\<close>

definition revocable :: "('m) message_api_scheme \<Rightarrow> channel_deps \<Rightarrow> signed_channel \<Rightarrow> signed_channel \<Rightarrow> bool" where
  "revocable api deps ch ch' \<longleftrightarrow> (\<exists>seed secret. get_secret_key_for_pubkey deps (ch_own_per_update_seed ch) = Ok seed \<and>
     commitment_secret deps seed (ch_update_idx ch) = Some secret \<and> pk_of_sk api secret = ch_own_per_update_point ch \<and>
     provide_secret deps (ch_counter_secrets ch') (ch_update_idx ch) secret \<noteq> None)"

text \<open>The party holds the key of its part of the funding output.\<close>

definition holds_fund_key :: "('m) manager_api_scheme \<Rightarrow> bytes \<Rightarrow> signed_channel \<Rightarrow> bool" where
  "holds_fund_key api keys_id ch \<longleftrightarrow>
     (\<exists>sk. derive_contract_signer api keys_id = Ok sk \<and> pk_of_sk api sk = fund_pubkey (ch_own_params ch))"

text \<open>An adaptor signature of the settle transaction that the party can use with its publish key.\<close>

definition can_publish :: "('m) message_api_scheme \<Rightarrow> channel_deps \<Rightarrow> signed_channel \<Rightarrow> bool" where
  "can_publish api deps ch \<longleftrightarrow> (\<exists>x v p. ch_state ch = Settled x \<and> fund_value ch = (Ok v :: (_, manager_error) res) \<and>
     get_publish_pk api (ch_own_points ch) (ch_own_per_update_point ch) = (Ok p :: (_, manager_error) res) \<and>
     verify_tx_adaptor_signature (channel_of api deps) (sd_settle_tx x) v (ch_fund_script_pubkey ch)
       (fund_pubkey (ch_counter_params ch)) p (sd_counter_settle_adaptor_signature x) = Ok ())"

definition settled_alike :: "signed_channel \<Rightarrow> signed_channel \<Rightarrow> nat \<Rightarrow> nat \<Rightarrow> bool" where
  "settled_alike ch ch' own counter \<longleftrightarrow> mirrored ch ch' \<and> ch_roll_back_state ch = None \<and> ch_roll_back_state ch' = None \<and>
     (\<exists>x x'. ch_state ch = Settled x \<and> ch_state ch' = Settled x' \<and> sd_settle_tx x' = sd_settle_tx x \<and>
       sd_own_payout x = own \<and> sd_counter_payout x = counter \<and> sd_own_payout x' = counter \<and> sd_counter_payout x' = own)"

lemma adaptor_signature_verifies:
  assumes "crypto_ok k api" "get_tx_adaptor_signature (channel_of api deps) tx v scr sk p = Ok sig"
  shows "verify_tx_adaptor_signature (channel_of api deps) tx v scr (pk_of_sk api sk) p sig = Ok ()"
  using assms(2) crypto_okD(5) [OF assms(1)]
  by (auto simp: get_tx_adaptor_signature_def verify_tx_adaptor_signature_def get_sig_hash_msg_def res_simps)

lemma adaptor_signature_exists:
  assumes "get_tx_adaptor_signature (channel_of api deps) tx v scr sk p = Ok sig"
  shows "\<exists>sig'. get_tx_adaptor_signature (channel_of api deps) tx v scr sk' p' = Ok sig'"
  using assms by (auto simp: get_tx_adaptor_signature_def get_sig_hash_msg_def res_simps)

text \<open>
  The offering party makes the same settle transaction as the accepting party, finds its adaptor signature valid, and
  answers with one that is valid for the accepting party.
\<close>

lemma settle_tx_agreed:
  assumes "crypto_ok k api"
    and "get_settle_tx_and_adaptor_sig api deps an fund vout ws sk_a op ap on po pa csv lt None r = Ok (tx, sig)"
  shows "\<exists>sig' orp arp out. get_settle_tx_and_adaptor_sig api deps on fund vout ws sk_o op ap an po pa csv lt
        (Some (sig, pk_of_sk api sk_a)) r = Ok (tx, sig') \<and>
      get_revokable_params api op (revocation_basepoint ap) on = (Ok orp :: (_, manager_error) res) \<and>
      get_revokable_params api ap (revocation_basepoint op) an = (Ok arp :: (_, manager_error) res) \<and>
      index (tx_output fund) vout = (Ok out :: (_, manager_error) res) \<and>
      verify_tx_adaptor_signature (channel_of api deps) tx (out_value out) ws (pk_of_sk api sk_a) (publish_pk orp) sig = Ok () \<and>
      verify_tx_adaptor_signature (channel_of api deps) tx (out_value out) ws (pk_of_sk api sk_o) (publish_pk arp) sig' = Ok ()"
proof -
  obtain orp arp out where x: "get_revokable_params api op (revocation_basepoint ap) on = (Ok orp :: (_, manager_error) res)"
    "get_revokable_params api ap (revocation_basepoint op) an = (Ok arp :: (_, manager_error) res)"
    "index (tx_output fund) vout = (Ok out :: (_, manager_error) res)"
    "create_settle_transaction (channel_of api deps) \<lparr>previous_output = \<lparr>op_txid = compute_txid api fund, op_vout = as_u32 vout\<rparr>,
       script_sig = [], tx_sequence = 4294967295, tx_witness = []\<rparr> orp arp po pa csv lt (out_value out) r = Ok tx"
    "get_tx_adaptor_signature (channel_of api deps) tx (out_value out) ws sk_a (publish_pk orp) = Ok sig"
    using assms(2) by (auto simp: get_settle_tx_and_adaptor_sig_def and_then_eq_Ok Let_def simp del: index_eq_Ok)
  obtain sig' where s: "get_tx_adaptor_signature (channel_of api deps) tx (out_value out) ws sk_o (publish_pk arp) = Ok sig'"
    using adaptor_signature_exists [OF x(5)] by blast
  note v = adaptor_signature_verifies [OF assms(1) x(5)] adaptor_signature_verifies [OF assms(1) s]
  have "get_settle_tx_and_adaptor_sig api deps on fund vout ws sk_o op ap an po pa csv lt (Some (sig, pk_of_sk api sk_a)) r = Ok (tx, sig')"
    using x v s by (simp add: get_settle_tx_and_adaptor_sig_def Let_def del: index_eq_Ok)
  then show ?thesis using x(1-3) v by blast
qed

lemma publish_pk_of_params:
  "get_revokable_params api p b q = (Ok rp :: (_, 'e) res) \<Longrightarrow> get_publish_pk api p q = (Ok (publish_pk rp) :: (_, 'e) res)"
  by (auto simp: get_revokable_params_def get_publish_pk_def res_simps)

lemma store_secret_Ok:
  assumes "provide_secret deps (ch_counter_secrets ch) (ch_update_idx ch) secret = Some t"
  shows "store_secret deps secret ch = Ok (ch\<lparr>ch_counter_secrets := t\<rparr>)"
  using assms by (simp add: store_secret_def)

text \<open>
  C9. Settlement.  When a channel is held alike by two parties and the party that received a settlement offer has accepted it, the
  protocol goes through: the offering party confirms, and after the finalization both hold the same settle transaction with the agreed
  payouts and an adaptor signature of the other party that is valid for their own publish key, on the points of the next state; and
  each party has received and stored the secret that revokes the former state of the other.
\<close>

theorem settlement_completes:
  fixes ch ch' :: signed_channel
  assumes "crypto_ok k api" "mirrored ch ch'" "ch_state ch = Established e" "ch_state ch' = Established e'"
    and "holds_fund_key api (es_keys_id e) ch" "holds_fund_key api (es_keys_id e') ch'"
    and "revocable api deps ch ch'" "revocable api deps ch' ch" "now + timeout < usize_bound"
    and "settle_channel_offer api deps payout timeout now \<lparr>us_channel = ch, us_monitor = mon\<rparr> = (Ok m1, s1)"
    and "on_settle_offer m1 \<lparr>us_channel = ch', us_monitor = mon'\<rparr> = (Ok (), r1)"
    and "settle_channel_accept api deps csv lt timeout now r1 = (Ok m2, r2)"
  shows "\<exists>m3 s2 m4 r3 s3 total secret secret'.
    settle_channel_confirm api deps m2 csv lt timeout now s1 = (Ok m3, s2) \<and>
    settle_channel_finalize api deps m3 r2 = (Ok m4, r3) \<and>
    settle_channel_on_finalize api deps m4 s2 = (Ok (), s3) \<and>
    collateral (ch_own_params ch) + collateral (ch_counter_params ch) = total \<and>
    settled_alike (us_channel s3) (us_channel r3) (total - payout) payout \<and>
    can_publish api deps (us_channel s3) \<and> can_publish api deps (us_channel r3) \<and>
    ch_update_idx (us_channel s3) + 1 = ch_update_idx ch \<and>
    pk_of_sk api secret = ch_own_per_update_point ch \<and> pk_of_sk api secret' = ch_own_per_update_point ch' \<and>
    provide_secret deps (ch_counter_secrets ch') (ch_update_idx ch) secret = Some (ch_counter_secrets (us_channel r3)) \<and>
    provide_secret deps (ch_counter_secrets ch) (ch_update_idx ch) secret' = Some (ch_counter_secrets (us_channel s3))"
proof -
  let ?total = "collateral (ch_own_params ch) + collateral (ch_counter_params ch)"
  note mir = assms(2) [unfolded mirrored_def]
  obtain np where np: "next_per_update_point api deps ch = Ok np"
    "m1 = \<lparr>sto_channel_id = ch_id ch, sto_counter_payout = payout, sto_next_per_update_point = np\<rparr>"
    "s1 = \<lparr>us_channel = enter_state (SettledOffered \<lparr>so_counter_payout = payout, so_next_per_update_point = np,
        so_timeout = now + timeout, so_keys_id = es_keys_id e\<rparr>) ch, us_monitor = mon\<rparr>"
    using assms(10) by (auto simp: settle_channel_offer_def update_simps assms(3))
  have total: "?total < usize_bound" "payout \<le> ?total"
    and r1: "r1 = \<lparr>us_channel = enter_state (SettledReceived \<lparr>sr_own_payout = payout, sr_counter_payout = ?total - payout,
       sr_counter_next_per_update_point = np, sr_keys_id = es_keys_id e'\<rparr>) ch', us_monitor = mon'\<rparr>"
    using assms(11) mir by (auto simp: on_settle_offer_def update_simps assms(4) np(2) channel_collateral_def add.commute)
  obtain np' sk' tx sig where acc: "next_per_update_point api deps (us_channel r1) = Ok np'"
    "derive_contract_signer api (es_keys_id e') = Ok sk'"
    "get_settle_tx_and_adaptor_sig api deps np' (ch_fund_tx ch) (ch_fund_output_index ch) (ch_fund_script_pubkey ch) sk'
       (ch_own_points ch) (ch_counter_points ch) np (?total - payout) payout csv lt None (ch_fee_rate_per_vb ch) = Ok (tx, sig)"
    "m2 = \<lparr>sta_channel_id = ch_id ch, sta_next_per_update_point = np', sta_settle_adaptor_signature = sig\<rparr>"
    "r2 = \<lparr>us_channel = (us_channel r1)\<lparr>ch_state := SettledAccepted \<lparr>sa_counter_next_per_update_point = np,
       sa_own_next_per_update_point = np', sa_own_settle_adaptor_signature = sig, sa_settle_tx = tx, sa_timeout = now + timeout,
       sa_own_payout = payout, sa_counter_payout = ?total - payout, sa_keys_id = es_keys_id e'\<rparr>\<rparr>,
       us_monitor = add_tx (compute_txid api tx) \<lparr>ch_channel_id = ch_id ch, ch_tx_type = SettleTx\<rparr> mon'\<rparr>"
    using assms(12) mir by (auto simp: settle_channel_accept_def update_simps r1 enter_state_def add.commute)
  obtain sk where sk: "derive_contract_signer api (es_keys_id e) = Ok sk" "pk_of_sk api sk = fund_pubkey (ch_own_params ch)"
    using assms(5) by (auto simp: holds_fund_key_def)
  have sk': "pk_of_sk api sk' = fund_pubkey (ch_counter_params ch)"
    using assms(6) acc(2) mir by (auto simp: holds_fund_key_def)
  obtain sig' orp arp out where agreed: "get_settle_tx_and_adaptor_sig api deps np (ch_fund_tx ch) (ch_fund_output_index ch)
       (ch_fund_script_pubkey ch) sk (ch_own_points ch) (ch_counter_points ch) np' (?total - payout) payout csv lt
       (Some (sig, fund_pubkey (ch_counter_params ch))) (ch_fee_rate_per_vb ch) = Ok (tx, sig')"
    "get_revokable_params api (ch_own_points ch) (revocation_basepoint (ch_counter_points ch)) np = (Ok orp :: (_, manager_error) res)"
    "get_revokable_params api (ch_counter_points ch) (revocation_basepoint (ch_own_points ch)) np' = (Ok arp :: (_, manager_error) res)"
    "index (tx_output (ch_fund_tx ch)) (ch_fund_output_index ch) = (Ok out :: (_, manager_error) res)"
    "verify_tx_adaptor_signature (channel_of api deps) tx (out_value out) (ch_fund_script_pubkey ch)
       (fund_pubkey (ch_counter_params ch)) (publish_pk orp) sig = Ok ()"
    "verify_tx_adaptor_signature (channel_of api deps) tx (out_value out) (ch_fund_script_pubkey ch)
       (fund_pubkey (ch_own_params ch)) (publish_pk arp) sig' = Ok ()"
    using settle_tx_agreed [OF assms(1) acc(3), of sk] unfolding sk(2) sk' by blast
  have fv: "fund_value ch = (Ok (out_value out) :: (_, manager_error) res)"
    using agreed(4) by (simp add: fund_value_def del: index_eq_Ok)
  obtain seed secret t where rev: "get_secret_key_for_pubkey deps (ch_own_per_update_seed ch) = Ok seed"
    "commitment_secret deps seed (ch_update_idx ch) = Some secret" "pk_of_sk api secret = ch_own_per_update_point ch"
    "provide_secret deps (ch_counter_secrets ch') (ch_update_idx ch) secret = Some t"
    using assms(7) by (auto simp: revocable_def)
  obtain seed' secret' t' where rev': "get_secret_key_for_pubkey deps (ch_own_per_update_seed ch') = Ok seed'"
    "commitment_secret deps seed' (ch_update_idx ch) = Some secret'" "pk_of_sk api secret' = ch_own_per_update_point ch'"
    "provide_secret deps (ch_counter_secrets ch) (ch_update_idx ch) secret' = Some t'"
    using assms(8) mir by (auto simp: revocable_def)
  have idx: "0 < ch_update_idx ch"
    using np(1) by (auto simp: next_per_update_point_def res_simps)
  have total': "?total - (?total - payout) = payout" using total(2) by simp
  define s2 where "s2 = \<lparr>us_channel = (us_channel s1)\<lparr>ch_state := SettledConfirmed \<lparr>sf_settle_tx = tx,
      sf_counter_settle_adaptor_signature = sig, sf_counter_next_per_update_point = np', sf_own_next_per_update_point = np,
      sf_own_settle_adaptor_signature = sig', sf_timeout = now + timeout, sf_own_payout = ?total - payout,
      sf_counter_payout = payout, sf_keys_id = es_keys_id e\<rparr>\<rparr>,
      us_monitor = add_tx (compute_txid api tx) \<lparr>ch_channel_id = ch_id ch, ch_tx_type = SettleTx\<rparr> mon\<rparr>"
  define m3 where "m3 = \<lparr>stc_channel_id = ch_id ch, stc_prev_per_update_secret = secret, stc_settle_adaptor_signature = sig'\<rparr>"
  have confirm: "settle_channel_confirm api deps m2 csv lt timeout now s1 = (Ok m3, s2)"
    using total agreed(1) sk(1) rev(1,2) assms(9) np(3) acc(4)
    by (simp add: settle_channel_confirm_def update_simps enter_state_def prev_per_update_secret_def s2_def m3_def uadd_def usub_def add.commute)
  define r3 where "r3 = r2\<lparr>us_channel := (us_channel r2)\<lparr>ch_counter_secrets := t, ch_own_per_update_point := np',
      ch_counter_per_update_point := np, ch_roll_back_state := None, ch_update_idx := ch_update_idx ch - 1,
      ch_state := Settled \<lparr>sd_settle_tx = tx, sd_counter_settle_adaptor_signature = sig', sd_own_settle_adaptor_signature = sig,
        sd_own_payout = payout, sd_counter_payout = ?total - payout, sd_keys_id = es_keys_id e'\<rparr>\<rparr>\<rparr>"
  define m4 where "m4 = \<lparr>stf_channel_id = ch_id ch, stf_prev_per_update_secret = secret'\<rparr>"
  have finalize: "settle_channel_finalize api deps m3 r2 = (Ok m4, r3)"
    using rev' rev(3,4) agreed(3,6) fv mir idx
    by (simp add: settle_channel_finalize_def update_simps acc(5) r1 enter_state_def m3_def m4_def r3_def prev_per_update_secret_def
        store_secret_def fund_value_def usub_def)
  define s3 where "s3 = s2\<lparr>us_channel := (us_channel s2)\<lparr>ch_counter_secrets := t', ch_own_per_update_point := np,
      ch_counter_per_update_point := np', ch_roll_back_state := None, ch_update_idx := ch_update_idx ch - 1,
      ch_state := Settled \<lparr>sd_settle_tx = tx, sd_counter_settle_adaptor_signature = sig, sd_own_settle_adaptor_signature = sig',
        sd_own_payout = ?total - payout, sd_counter_payout = payout, sd_keys_id = es_keys_id e\<rparr>\<rparr>\<rparr>"
  have on_finalize: "settle_channel_on_finalize api deps m4 s2 = (Ok (), s3)"
    using rev'(3,4) mir idx
    by (simp add: settle_channel_on_finalize_def update_simps s2_def np(3) enter_state_def m4_def s3_def store_secret_def usub_def)
  have alike: "settled_alike (us_channel s3) (us_channel r3) (?total - payout) payout"
    using mir by (simp add: settled_alike_def mirrored_def s3_def r3_def s2_def np(3) acc(5) r1 enter_state_def)
  have pub: "can_publish api deps (us_channel s3)" "can_publish api deps (us_channel r3)"
    using fv agreed(5,6) publish_pk_of_params [OF agreed(2)] publish_pk_of_params [OF agreed(3)] mir
    by (auto simp: can_publish_def s3_def r3_def s2_def np(3) acc(5) r1 enter_state_def fund_value_def)
  show ?thesis
  proof (intro exI conjI)
    show "settle_channel_confirm api deps m2 csv lt timeout now s1 = (Ok m3, s2)" by (rule confirm)
    show "settle_channel_finalize api deps m3 r2 = (Ok m4, r3)" by (rule finalize)
    show "settle_channel_on_finalize api deps m4 s2 = (Ok (), s3)" by (rule on_finalize)
    show "settled_alike (us_channel s3) (us_channel r3) (?total - payout) payout" by (rule alike)
    show "provide_secret deps (ch_counter_secrets ch') (ch_update_idx ch) secret = Some (ch_counter_secrets (us_channel r3))"
      "provide_secret deps (ch_counter_secrets ch) (ch_update_idx ch) secret' = Some (ch_counter_secrets (us_channel s3))"
      using rev(4) rev'(4) by (simp_all add: r3_def s3_def)
  qed (use pub rev(3) rev'(3) idx in \<open>simp_all add: s3_def s2_def np(3) enter_state_def\<close>)
qed

section \<open>Closing with an adaptor signature\<close>

text \<open>The party has the secret of its publish key for the current state, and its key of the funding output.\<close>

definition holds_close_keys :: "('m) message_api_scheme \<Rightarrow> channel_deps \<Rightarrow> signed_channel \<Rightarrow> bool" where
  "holds_close_keys api deps ch \<longleftrightarrow>
     (\<exists>base sk. get_secret_key_for_pubkey deps (publish_basepoint (ch_own_points ch)) = Ok base \<and>
       get_publish_pk api (ch_own_points ch) (ch_own_per_update_point ch) =
         (Ok (pk_of_sk api (derive_private_key deps (ch_own_per_update_point ch) base)) :: (_, manager_error) res) \<and>
       get_secret_key_for_pubkey deps (fund_pubkey (ch_own_params ch)) = Ok sk \<and> pk_of_sk api sk = fund_pubkey (ch_own_params ch)) \<and>
     ch_fund_script_pubkey ch = make_funding_redeemscript (fund_pubkey (ch_own_params ch)) (fund_pubkey (ch_counter_params ch))"

lemma adaptor_signature_closes:
  assumes "crypto_ok k api" "scr = make_funding_redeemscript (pk_of_sk api sk) pk"
    and "verify_tx_adaptor_signature (channel_of api deps) tx v scr pk (pk_of_sk api psk) a = Ok ()"
  shows "\<exists>sig tx'. adaptor_decrypt api a psk = Some sig \<and> sign_multi_sig_input api tx sig pk sk scr v 0 = Ok tx' \<and>
    spends_multisig api tx' 0 v (pk_of_sk api sk) pk \<and> same_but_witness tx tx'"
proof -
  obtain msg where m: "sighash_all api tx 0 scr v = Some msg" "adaptor_verify api a msg pk (pk_of_sk api psk)"
    using assms(3) by (auto simp: verify_tx_adaptor_signature_def get_sig_hash_msg_def res_simps split: if_splits)
  have i: "0 < length (tx_input tx)" using m(1) crypto_okD(7) [OF assms(1), of tx 0 scr v] by auto
  obtain sig where sig: "adaptor_decrypt api a psk = Some sig" "ecdsa_verify api msg sig pk"
    using crypto_okD(6) [OF assms(1) m(2)] by blast
  show ?thesis
    using sign_multi_sig_input_spends [OF assms(1) i m(1) [unfolded assms(2)] sig(2)] sig(1) by (auto simp: assms(2))
qed

text \<open>
  C21. A settled channel can be closed by one party alone: from the adaptor signature of the other party it makes the settle transaction
  with a witness that spends the funding output, unchanged otherwise, and the channel is recorded as closed.
\<close>

theorem settled_channel_closes:
  assumes "crypto_ok k api" "can_publish api deps ch" "holds_close_keys api deps ch"
  shows "\<exists>x v tx. ch_state ch = Settled x \<and> fund_value ch = (Ok v :: (_, manager_error) res) \<and>
    close_settled_channel api deps ch is_initiator =
      Ok (tx, if is_initiator then ClosedChannel (closed_of ch) else CounterClosedChannel (closed_of ch)) \<and>
    spends_multisig api tx 0 v (fund_pubkey (ch_own_params ch)) (fund_pubkey (ch_counter_params ch)) \<and>
    same_but_witness (sd_settle_tx x) tx"
proof -
  obtain base sk where k: "get_secret_key_for_pubkey deps (publish_basepoint (ch_own_points ch)) = Ok base"
    "get_publish_pk api (ch_own_points ch) (ch_own_per_update_point ch) =
       (Ok (pk_of_sk api (derive_private_key deps (ch_own_per_update_point ch) base)) :: (_, manager_error) res)"
    "get_secret_key_for_pubkey deps (fund_pubkey (ch_own_params ch)) = Ok sk" "pk_of_sk api sk = fund_pubkey (ch_own_params ch)"
    "ch_fund_script_pubkey ch = make_funding_redeemscript (pk_of_sk api sk) (fund_pubkey (ch_counter_params ch))"
    using assms(3) by (auto simp: holds_close_keys_def)
  obtain x v where x: "ch_state ch = Settled x" "fund_value ch = (Ok v :: (_, manager_error) res)"
    "verify_tx_adaptor_signature (channel_of api deps) (sd_settle_tx x) v (ch_fund_script_pubkey ch) (fund_pubkey (ch_counter_params ch))
       (pk_of_sk api (derive_private_key deps (ch_own_per_update_point ch) base)) (sd_counter_settle_adaptor_signature x) = Ok ()"
    using assms(2) k(2) by (auto simp: can_publish_def)
  show ?thesis
    using adaptor_signature_closes [OF assms(1) k(5) x(3)] x(1,2) k(1,3,4)
    by (auto simp: close_settled_channel_def in_state_def Let_def)
qed

section \<open>An example\<close>

text \<open>
  Keys and secrets are small numbers: the seed \<open>s\<close> has the secret \<open>s + i mod 5\<close> at the index \<open>i\<close>, and a table of all keys.
\<close>

definition example_deps :: channel_deps where
  "example_deps = \<lparr>dep_ms_valid = (\<lambda>_. True), dep_ms_script_pubkey = (\<lambda>_. [8]), dep_ms_script_code = (\<lambda>_. Some [9]),
     dep_ms_satisfy = (\<lambda>_ i sigs. Some (i\<lparr>tx_witness := map snd sigs\<rparr>)), dep_var_int_size = (\<lambda>_. 1),
     commitment_secret = (\<lambda>seed i. Some (seed + i mod 5)), derive_private_key = (\<lambda>p sk. (sk + 2) mod 101),
     derive_private_revocation_key = (\<lambda>a b. (2 * a + 2 * b) mod 101), new_secrets = [], provide_secret = (\<lambda>t i sk. Some ((sk, i) # t)),
     get_secret = (\<lambda>t i. map_option fst (find (\<lambda>x. snd x = i) t)), adaptor_recover = (\<lambda>a sig p. Some (last a)),
     get_secret_key_for_pubkey = (\<lambda>pk. Ok (hd pk))\<rparr>"

lemma example_deps_simps [simp]:
  "dep_ms_valid example_deps d" "dep_ms_script_pubkey example_deps d = [8]" "dep_ms_script_code example_deps d = Some [9]"
  "commitment_secret example_deps seed i = Some (seed + i mod 5)" "derive_private_key example_deps p sk = (sk + 2) mod 101"
  "provide_secret example_deps t i sk = Some ((sk, i) # t)" "get_secret_key_for_pubkey example_deps pk = Ok (hd pk)"
  "new_secrets example_deps = []"
  by (simp_all add: example_deps_def)

definition example_points :: "nat \<Rightarrow> party_base_points" where
  "example_points n = \<lparr>own_basepoint = [n + 1], revocation_basepoint = [n + 2], publish_basepoint = [n + 3]\<rparr>"

definition example_channel_params :: "nat \<Rightarrow> party_params" where
  "example_channel_params n = \<lparr>fund_pubkey = [n], change_script_pubkey = [n, 1], change_serial_id = n, payout_script_pubkey = [n, 2],
     payout_serial_id = n, pp_inputs = [], dlc_inputs = [], input_amount = 0, collateral = 100000\<rparr>"

definition example_fund_tx :: transaction where
  "example_fund_tx = \<lparr>tx_version = 2, tx_lock_time = 0, tx_input = [],
     tx_output = [\<lparr>out_value = 200929, script_pubkey = 0 # make_funding_redeemscript [11] [13]\<rparr>]\<rparr>"

definition example_established :: "nat \<Rightarrow> established" where
  "example_established k = \<lparr>es_signed_contract_id = [70], es_counter_buffer_adaptor_signature = [if k = 1 then 13 else 11, if k = 1 then 25 else 35],
     es_own_buffer_adaptor_signature = [if k = 1 then 11 else 13, if k = 1 then 35 else 25],
     es_buffer_transaction = \<lparr>tx_version = 2, tx_lock_time = 0, tx_input = [\<lparr>previous_output = \<lparr>op_txid = [1], op_vout = 0\<rparr>,
       script_sig = [], tx_sequence = 0, tx_witness = []\<rparr>], tx_output = [\<lparr>out_value = 200000, script_pubkey = [8]\<rparr>]\<rparr>,
     es_is_offer = (k = 1), es_total_collateral = 200000, es_keys_id = [k]\<rparr>"

definition example_channel :: "nat \<Rightarrow> signed_channel" where
  "example_channel k =
     (let (own, counter) = (if k = 1 then (11, 13) else (13, 11)); (p, q) = (if k = 1 then (20, 30) else (30, 20)) in
      \<lparr>ch_id = [60], ch_counter_party = [if k = 1 then 33 else 44], ch_temporary_id = [61], ch_own_params = example_channel_params own,
       ch_own_points = example_points p, ch_own_per_update_point = [p + 22], ch_own_per_update_seed = [p + 20],
       ch_counter_points = example_points q, ch_counter_per_update_point = [q + 22], ch_counter_params = example_channel_params counter,
       ch_state = Established (example_established k), ch_update_idx = 7, ch_fund_tx = example_fund_tx,
       ch_fund_script_pubkey = make_funding_redeemscript [11] [13], ch_fund_output_index = 0, ch_roll_back_state = None,
       ch_counter_secrets = [], ch_fee_rate_per_vb = 1\<rparr>)"

lemma example_derive:
  "derive_public_key example_updater_api [a] [b] = (if (b + 2) mod 101 = 0 then Panic else Ok [(b + 2) mod 101])"
  by (simp add: derive_public_key_def)

lemma example_derive_revocation:
  "derive_public_revocation_key example_updater_api [a] [b] = (if (b * 2 + a * 2) mod 101 = 0 then Panic else Ok [(b * 2 + a * 2) mod 101])"
  by (simp add: derive_public_revocation_key_def Let_def numeral_2_eq_2 [symmetric] del: mult_2 mult_2_right mult_Suc_right)

lemma example_channels:
  "mirrored (example_channel 1) (example_channel 2)" "ch_state (example_channel k) = Established (example_established k)"
  "holds_fund_key example_updater_api (es_keys_id (example_established 1)) (example_channel 1)"
  "holds_fund_key example_updater_api (es_keys_id (example_established 2)) (example_channel 2)"
  "revocable example_updater_api example_deps (example_channel 1) (example_channel 2)"
  "revocable example_updater_api example_deps (example_channel 2) (example_channel 1)"
  by (simp_all add: mirrored_def example_channel_def holds_fund_key_def revocable_def example_established_def example_channel_params_def Let_def)

definition example_settle_offer :: settle_offer where
  "example_settle_offer = \<lparr>sto_channel_id = [60], sto_counter_payout = 50000, sto_next_per_update_point = [41]\<rparr>"

definition example_offering :: update_state where
  "example_offering = \<lparr>us_channel = enter_state (SettledOffered \<lparr>so_counter_payout = 50000, so_next_per_update_point = [41],
     so_timeout = 3700, so_keys_id = [1]\<rparr>) (example_channel 1), us_monitor = monitor_new 100\<rparr>"

definition example_receiving :: update_state where
  "example_receiving = \<lparr>us_channel = enter_state (SettledReceived \<lparr>sr_own_payout = 50000, sr_counter_payout = 150000,
     sr_counter_next_per_update_point = [41], sr_keys_id = [2]\<rparr>) (example_channel 2), us_monitor = monitor_new 100\<rparr>"

lemma example_settle_offers:
  "settle_channel_offer example_updater_api example_deps 50000 3600 100 \<lparr>us_channel = example_channel 1, us_monitor = monitor_new 100\<rparr> =
     (Ok example_settle_offer, example_offering)"
  "on_settle_offer example_settle_offer \<lparr>us_channel = example_channel 2, us_monitor = monitor_new 100\<rparr> = (Ok (), example_receiving)"
  by (simp_all add: settle_channel_offer_def on_settle_offer_def update_simps example_settle_offer_def example_offering_def example_receiving_def
      example_channels in_state_def next_per_update_point_def example_channel_def Let_def example_established_def
      channel_collateral_def example_channel_params_def uadd_def usub_def)

lemma example_settle_accept:
  "\<exists>m2 r2. settle_channel_accept example_updater_api example_deps 288 0 3600 100 example_receiving = (Ok m2, r2)"
proof -
  have "\<exists>tx. create_settle_transaction (channel_of example_updater_api example_deps) inp off acc 150000 50000 288 0 200929 1 = Ok tx \<and>
      tx_input tx = [inp]" for inp off acc
    by (simp add: create_settle_transaction_def settle_descriptor_def Let_def discard_dust_def DUST_LIMIT_def usub_def udiv_def uadd_def
        weight_to_fee_eq SETTLE_INPUT_WEIGHT_def SETTLE_OUTPUT_WEIGHT_def numeral_2_eq_2 [symmetric])
  then obtain tx where tx: "create_settle_transaction (channel_of example_updater_api example_deps) inp off acc 150000 50000 288 0 200929 1 = Ok (tx inp off acc)"
    "tx_input (tx inp off acc) = [inp]" for inp off acc
    by metis
  show ?thesis
    by (simp add: settle_channel_accept_def update_simps example_receiving_def enter_state_def next_per_update_point_def
        example_channel_def Let_def uadd_def usub_def example_channel_params_def get_settle_tx_and_adaptor_sig_def
        get_revokable_params_def example_points_def example_derive example_derive_revocation index_def example_fund_tx_def tx [unfolded One_nat_def]
        get_tx_adaptor_signature_def get_sig_hash_msg_def)
qed

lemma settlement_completes_witness:
  "\<exists>m2 r2 m3 s2 m4 r3 s3.
     settle_channel_accept example_updater_api example_deps 288 0 3600 100 example_receiving = (Ok m2, r2) \<and>
     settle_channel_confirm example_updater_api example_deps m2 288 0 3600 100 example_offering = (Ok m3, s2) \<and>
     settle_channel_finalize example_updater_api example_deps m3 r2 = (Ok m4, r3) \<and>
     settle_channel_on_finalize example_updater_api example_deps m4 s2 = (Ok (), s3) \<and>
     settled_alike (us_channel s3) (us_channel r3) 150000 50000"
proof -
  obtain m2 r2 where a: "settle_channel_accept example_updater_api example_deps 288 0 3600 100 example_receiving = (Ok m2, r2)"
    using example_settle_accept by blast
  have "collateral (ch_own_params (example_channel 1)) + collateral (ch_counter_params (example_channel 1)) = 200000"
    by (simp add: example_channel_def example_channel_params_def Let_def)
  then show ?thesis
    using settlement_completes [OF example_updater_api_ok example_channels(1) example_channels(2) example_channels(2)
        example_channels(3-6) _ example_settle_offers a] a
    by auto
qed

definition example_settled :: signed_channel where
  "example_settled = (example_channel 1)\<lparr>ch_state := Settled \<lparr>sd_settle_tx = es_buffer_transaction (example_established 1),
     sd_counter_settle_adaptor_signature = [13, 25], sd_own_settle_adaptor_signature = [11, 35], sd_own_payout = 150000,
     sd_counter_payout = 50000, sd_keys_id = [1]\<rparr>\<rparr>"

lemma settled_channel_closes_witness:
  "\<exists>tx. close_settled_channel example_updater_api example_deps example_settled True = Ok (tx, ClosedChannel (closed_of example_settled)) \<and>
     spends_multisig example_updater_api tx 0 200929 [11] [13]"
proof -
  have p: "can_publish example_updater_api example_deps example_settled"
    by (simp add: can_publish_def example_settled_def fund_value_def index_def example_channel_def Let_def get_publish_pk_def
        example_fund_tx_def example_points_def example_derive verify_tx_adaptor_signature_def get_sig_hash_msg_def example_established_def
        example_channel_params_def)
  have k: "holds_close_keys example_updater_api example_deps example_settled"
    by (simp add: holds_close_keys_def example_settled_def example_channel_def Let_def example_points_def get_publish_pk_def example_derive
        example_channel_params_def)
  have f: "fund_value example_settled = (Ok 200929 :: (_, manager_error) res)" "fund_pubkey (ch_own_params example_settled) = [11]"
    "fund_pubkey (ch_counter_params example_settled) = [13]"
    by (simp_all add: example_settled_def fund_value_def index_def example_channel_def Let_def example_fund_tx_def example_channel_params_def)
  show ?thesis using settled_channel_closes [OF example_updater_api_ok p k, of True] f by auto
qed

end
