(* ===== verification/Channel_Setup.thy ===== *)
theory Channel_Setup
  imports Channel_Settlement Manager_Example
begin

text \<open>
  Setting up a channel between two parties: what each makes from the messages of the other, and under which key the signatures of
  the offering party are verified.
\<close>

section \<open>The signatures of the offering party\<close>

lemma offer_refund_signature:
  assumes "verify_accepted_and_sign_contract_internal api wallet lookup oc p fins rsig csigs v sk scr pk d cid = Ok (s, sigs)"
  shows "\<exists>scr. get_raw_sig_for_tx_input api (dlc_refund d) 0 scr v sk = Ok (sc_offer_refund_signature s)"
  using assms by (auto simp: verify_accepted_and_sign_contract_internal_def res_simps Let_def)

lemma verify_signed_refund:
  assumes "verify_signed_contract_internal api wallet lookup a sig csigs fsigs v (Some scr) (Some pk) cid = Ok x"
  shows "verify_tx_input_sig api sig (dlc_refund (ac_dlc_transactions a)) 0 scr v pk = Ok ()"
  using assms unfolding verify_signed_contract_internal_def verify_signed_def Let_def and_then_eq_Ok map_err_iff
  by (auto split: option.splits)

lemma channel_offer_signature:
  assumes "verify_and_sign_accepted_channel api deps wallet lookup ofc oc m n mon = (Ok (ch, s, sm), mon1)"
  shows "\<exists>sk scr v. derive_contract_signer api (oc_keys_id oc) = Ok sk \<and>
    get_raw_sig_for_tx_input api (dlc_refund (ac_dlc_transactions (sc_accepted_contract s))) 0 scr v sk = Ok (sch_refund_signature sm)"
proof -
  obtain sk p fins v scr pk d cid sigs where x: "derive_contract_signer api (oc_keys_id oc) = Ok sk"
    "verify_accepted_and_sign_contract_internal api wallet lookup oc p fins (ach_refund_signature m) (ach_cet_adaptor_signatures m)
       v sk scr pk d cid = Ok (s, sigs)" "sch_refund_signature sm = sc_offer_refund_signature s"
    using assms unfolding verify_and_sign_accepted_channel_def Let_def
    by (auto simp: res_simps split: res.splits)
  moreover have "dlc_refund (ac_dlc_transactions (sc_accepted_contract s)) = dlc_refund d"
    using x(2) by (auto simp: verify_accepted_and_sign_contract_internal_def res_simps Let_def)
  ultimately show ?thesis using offer_refund_signature [OF x(2)] by auto
qed

lemma verified_channel_refund:
  assumes "verify_signed_channel api deps wallet lookup acc a sm mon = (Ok x, mon')"
    and "get_own_pk api (acc_offer_base_points acc) (acc_offer_per_update_point acc) = (Ok pk :: (_, manager_error) res)"
  shows "\<exists>v. verify_tx_input_sig api (sch_refund_signature sm) (dlc_refund (ac_dlc_transactions a)) 0 (acc_buffer_script_pubkey acc) v pk = Ok ()"
  using assms unfolding verify_signed_channel_def Let_def
  by (auto simp: and_then_eq_Ok dest!: verify_signed_refund split: res.splits)

section \<open>An example\<close>

lemma example_updater_hash:
  "to_p2wsh example_updater_api s = 0 # s" "compute_txid example_updater_api tx = [length (tx_output tx)]"
  by (simp_all add: example_updater_api_def example_oracle_api_def example_crypto_def bitcoin_api.defs crypto_api.defs oracle_api.defs
      message_api.defs manager_api.defs updater_api.defs example_api_def del: example_crypto_simps)

definition example_offer_revoke :: revoke_params where
  "example_offer_revoke = \<lparr>own_pk = [23], publish_pk = [25], revoke_pk = [5]\<rparr>"

definition example_accept_revoke :: revoke_params where
  "example_accept_revoke = \<lparr>own_pk = [33], publish_pk = [34], revoke_pk = [3]\<rparr>"

definition example_buffer_input :: tx_in where
  "example_buffer_input = \<lparr>previous_output = \<lparr>op_txid = [1], op_vout = 0\<rparr>, script_sig = [], tx_sequence = 288, tx_witness = []\<rparr>"

definition example_buffer_cet :: "tx_out \<Rightarrow> transaction" where
  "example_buffer_cet x = \<lparr>tx_version = TX_VERSION, tx_lock_time = 10, tx_input = [example_buffer_input], tx_output = [x]\<rparr>"

definition example_channel_txs :: dlc_channel_transactions where
  "example_channel_txs = \<lparr>dc_dlc_transactions = example_dlc\<lparr>
       dlc_fund := (dlc_fund example_dlc)\<lparr>tx_output := [\<lparr>out_value = 49596, script_pubkey = [1, 1]\<rparr>, \<lparr>out_value = 49596, script_pubkey = [2, 1]\<rparr>,
         \<lparr>out_value = 200363, script_pubkey = [0, 82, 1, 11, 1, 13, 82, 174]\<rparr>]\<rparr>,
       dlc_cets := [example_buffer_cet \<lparr>out_value = 200000, script_pubkey = [1, 2]\<rparr>, example_buffer_cet \<lparr>out_value = 199500, script_pubkey = [2, 2]\<rparr>],
       dlc_refund := create_refund_transaction \<lparr>out_value = 100000, script_pubkey = [1, 2]\<rparr> \<lparr>out_value = 100000, script_pubkey = [2, 2]\<rparr>
         (example_buffer_input\<lparr>tx_sequence := ENABLE_LOCKTIME\<rparr>) 1700604800\<rparr>,
     buffer_transaction = \<lparr>tx_version = TX_VERSION, tx_lock_time = 10, tx_input = [example_input],
       tx_output = [\<lparr>out_value = 200130, script_pubkey = [8]\<rparr>]\<rparr>,
     buffer_script_pubkey = [9]\<rparr>"

lemma example_channel_txs: "new_channel_transactions example_updater_api example_deps example_received example_accept_params
    example_offer_revoke example_accept_revoke 288 = Ok example_channel_txs"
  using example_offered_fields
  by (simp add: example_received_def received_as_def new_channel_transactions_def index_def info_get_payouts_def example_updater_hash
    example_offer_defs Let_def example_api_def as_u32_def create_channel_transactions_def create_renewal_channel_transactions_def create_cets_and_refund_tx_def example_defs  get_output_for_script_pubkey_def
   create_cets_def create_cet_def enum_get_payouts_def example_accept_params_def get_sequence_def  create_refund_transaction_def BUFFER_TX_WEIGHT_def
      CET_EXTRA_WEIGHT_def buffer_descriptor_def example_offer_revoke_def example_accept_revoke_def create_buffer_transaction_def
    example_channel_txs_def example_buffer_cet_def example_buffer_input_def example_dlc_def example_input_def)

lemma example_channel_txs': "new_channel_transactions example_updater_api example_deps example_offered example_accept_params
    example_offer_revoke example_accept_revoke 288 = Ok example_channel_txs"
  using example_channel_txs by (simp add: new_channel_transactions_def example_received_def received_as_def)

lemma example_channel_dlc:
  "tx_output (buffer_transaction example_channel_txs) = [\<lparr>out_value = 200130, script_pubkey = [8]\<rparr>]"
  "tx_input (buffer_transaction example_channel_txs) = [example_input]"
  "dlc_cets (dc_dlc_transactions example_channel_txs) =
    [example_buffer_cet \<lparr>out_value = 200000, script_pubkey = [1, 2]\<rparr>, example_buffer_cet \<lparr>out_value = 199500, script_pubkey = [2, 2]\<rparr>]"
  "tx_input (dlc_refund (dc_dlc_transactions example_channel_txs)) \<noteq> []"
  "get_fund_output example_api (dc_dlc_transactions example_channel_txs) =
    (Ok \<lparr>out_value = 200363, script_pubkey = [0, 82, 1, 11, 1, 13, 82, 174]\<rparr> :: (_, 'e) res)"
  "get_fund_output_index example_api (dc_dlc_transactions example_channel_txs) = (Ok 2 :: (_, 'e) res)"
  "funding_witness_script (dc_dlc_transactions example_channel_txs) = [82, 1, 11, 1, 13, 82, 174]"
  "buffer_script_pubkey example_channel_txs = [9]"
  "tx_input (example_buffer_cet x) = [example_buffer_input]"
  "(dc_dlc_transactions example_channel_txs)\<lparr>pending_close_txs := []\<rparr> = dc_dlc_transactions example_channel_txs"
  "(dc_dlc_transactions example_channel_txs)\<lparr>dlc_cets := dlc_cets (dc_dlc_transactions example_channel_txs), pending_close_txs := []\<rparr> =
    dc_dlc_transactions example_channel_txs"
  "(dc_dlc_transactions example_channel_txs)\<lparr>dlc_cets := [example_buffer_cet \<lparr>out_value = 200000, script_pubkey = [1, 2]\<rparr>,
     example_buffer_cet \<lparr>out_value = 199500, script_pubkey = [2, 2]\<rparr>], pending_close_txs := []\<rparr> =
    dc_dlc_transactions example_channel_txs"
  by (simp_all add: example_channel_txs_def create_refund_transaction_def get_fund_output_def get_fund_output_index_def
      get_output_for_script_pubkey_def example_dlc_def example_api_def index_def example_buffer_cet_def)

lemma example_party_params:
  "\<exists>fins. get_party_params example_updater_api (example_env 2) 100000 200000 [] 1 13 = Ok (example_accept_params, fins)"
  by (simp add: example_offer_defs Let_def example_api_def as_u32_def example_accept_params_def)

lemma revocation_points: "revocation_basepoint (example_points 20) = [22]" "own_basepoint (example_points 20) = [21]"
  by (simp_all add: example_points_def)

lemma example_revoke_params:
  "get_revokable_params example_updater_api (example_points 20) [33] [20] = Ok example_offer_revoke"
  "get_revokable_params example_updater_api \<lparr>own_basepoint = [31], revocation_basepoint = [33], publish_basepoint = [32]\<rparr> [22] [30] = Ok example_accept_revoke"
  by (simp_all add: get_revokable_params_def example_points_def example_derive example_derive_revocation example_offer_revoke_def example_accept_revoke_def)

definition example_offered_channel :: offered_channel where
  "example_offered_channel = \<lparr>ofc_offered_contract_id = [6], ofc_temporary_channel_id = [61], ofc_party_points = example_points 20,
     ofc_per_update_point = [20], ofc_offer_per_update_seed = Some [20], ofc_is_offer_party = True, ofc_counter_party = [33],
     ofc_cet_nsequence = 288\<rparr>"

lemma example_accept_channel_internal:
  "\<exists>a. accept_contract_internal example_updater_api example_received example_accept_params fins 33 200130 (Some [9]) (dc_dlc_transactions example_channel_txs) =
     Ok (a, [[33, 22], [33, 27]]) \<and> ac_accept_params a = example_accept_params \<and> ac_funding_inputs a = fins \<and>
    ac_dlc_transactions a = dc_dlc_transactions example_channel_txs \<and> ac_accept_refund_signature a = [33]"
  by (simp add: accept_contract_internal_def cet_input_of_def index_def example_received_fields example_info_signatures example_channel_dlc
       get_raw_sig_for_tx_input_def get_sig_hash_msg_def Let_def del: One_nat_def)

lemma example_party_params':
  "get_party_params example_updater_api (example_env 2) 100000 200000 [] 1 13 = Ok (example_accept_params, [example_funding 2])"
  by (simp add: example_offer_defs Let_def example_api_def as_u32_def example_accept_params_def example_funding_def)

lemma example_accept_channel:
  "\<exists>acc a m. accept_channel_offer example_updater_api example_deps (example_env 2) (\<lambda>n. Ok (30 + n)) example_offered_channel example_received = Ok (acc, a, m) \<and>
     ach_refund_signature m = [33] \<and> ach_cet_adaptor_signatures m = [[33, 22], [33, 27]] \<and>
     ach_buffer_adaptor_signature m = [13, 25] \<and> ach_first_per_update_point m = [30] \<and> ach_own_basepoint m = [31] \<and>
     ach_revocation_basepoint m = [33] \<and> ach_publish_basepoint m = [32] \<and> ach_funding_inputs m = [example_funding 2] \<and>
     accept_channel_params example_updater_api m = Ok example_accept_params"
proof -
  define fins where "fins = [example_funding 2]"
  note f = example_party_params' [folded fins_def]
  obtain a where a: "accept_contract_internal example_updater_api example_received example_accept_params fins 33 200130 (Some [9]) (dc_dlc_transactions example_channel_txs) =
     Ok (a, [[33, 22], [33, 27]])" "ac_accept_params a = example_accept_params" "ac_funding_inputs a = fins" 
    "ac_dlc_transactions a = dc_dlc_transactions example_channel_txs" "ac_accept_refund_signature a = [33]"
    using example_accept_channel_internal by blast
  have i: "oc_id example_received = [6]" using example_offered_fields by (simp add: example_received_def received_as_def)
  show ?thesis
    apply (simp add: accept_channel_offer_def example_offered_channel_def i example_received_fields usub_def f [unfolded One_nat_def] revocation_points first_per_update_point_def
       INITIAL_UPDATE_NUMBER_def get_party_base_points_def example_revoke_params example_channel_txs Let_def example_channel_dlc
       new_channel_id_def get_tx_adaptor_signature_def get_sig_hash_msg_def index_def a get_contract_id_def get_accept_channel_msg_def accept_channel_params_def)
    apply (simp add: fins_def example_accept_params_def get_tx_input_infos_def get_dlc_inputs_from_funding_inputs_def example_funding_def example_coin_def dec_enc_tx
      uadd_def example_api_def example_offer_revoke_def)
    done
qed
lemma example_channel_verified:
  "verify_accepted example_updater_api example_offered example_accept_params [33] [[33, 22], [33, 27]] 200130 (Some [9]) (Some [33])
     (dc_dlc_transactions example_channel_txs) = Ok ([EnumInfo], dlc_cets (dc_dlc_transactions example_channel_txs))"
proof -
  let ?d = "dc_dlc_transactions example_channel_txs"
  have c: "oc_contract_info example_offered = [offered_info]" "oc_total_collateral example_offered = 200000"
    "collateral (oc_offer_params example_offered) = 100000"
    using example_offered_fields by (simp_all add: offered_info_def)
  have s: "signable offered_info" using example_yields c by (auto simp: yields_signatures_def)
  have "info_get_adaptor_info example_updater_api offered_info 200000 33 [9] 200130 (dlc_cets ?d) 0 = Ok (EnumInfo, [[33, 22], [33, 27]])"
    by (simp add: example_channel_dlc example_info_signatures)
  then have v: "info_verify_and_get_adaptor_info example_updater_api offered_info 200000 [33] [9] 200130 (dlc_cets ?d) [[33, 22], [33, 27]] 0 =
      Ok (EnumInfo, 2)"
    using info_sign_verify [OF example_updater_api_ok s, of 200000 33 "[9]" 200130 "dlc_cets ?d" 0 EnumInfo "[[33, 22], [33, 27]]" "[[33, 22], [33, 27]]"]
    by simp
  show ?thesis
    using v by (simp add: verify_accepted_def c index_def uadd_def cet_input_of_def verify_tx_input_sig_def get_sig_hash_msg_def
       example_channel_dlc example_accept_params_def)
qed

lemma example_channel_own_signatures:
  "own_cet_signatures example_updater_api example_offered [EnumInfo] 11 scr v (dlc_cets (dc_dlc_transactions example_channel_txs)) =
     Ok [[11, 22], [11, 27]]"
proof -
  have c: "oc_contract_info example_offered = [offered_info]" using example_offered_fields by (simp add: offered_info_def)
  have "info_get_adaptor_info example_updater_api offered_info 200000 11 scr v (dlc_cets (dc_dlc_transactions example_channel_txs)) 0 =
      Ok (EnumInfo, [[11, 22], [11, 27]])"
    by (simp add: example_channel_dlc example_info_signatures)
  then have "info_get_adaptor_signatures example_updater_api offered_info EnumInfo 11 scr v (dlc_cets (dc_dlc_transactions example_channel_txs)) =
      Ok [[11, 22], [11, 27]]"
    by (auto simp: info_get_adaptor_info_def info_get_adaptor_signatures_def offered_info_def res_simps)
  then show ?thesis by (simp add: own_cet_signatures_def c)
qed

lemma example_channel_fund:
  "\<exists>a b. example_psbt_from (dlc_fund (dc_dlc_transactions example_channel_txs)) =
     Some \<lparr>ps_unsigned_tx = dlc_fund (dc_dlc_transactions example_channel_txs), ps_inputs = [a, b]\<rparr>"
  by (simp add: example_psbt_from_def example_channel_txs_def example_dlc_def)

lemma example_sign_channel_internal:
  "\<exists>s. verify_accepted_and_sign_contract_internal example_updater_api example_wallet lookup example_offered example_accept_params [example_funding 2]
     [33] [[33, 22], [33, 27]] 200130 11 (Some [9]) (Some [33]) (dc_dlc_transactions example_channel_txs) cid = Ok (s, [[11, 22], [11, 27]]) \<and>
     sc_accepted_contract s = \<lparr>ac_offered_contract = example_offered, ac_accept_params = example_accept_params, ac_funding_inputs = [example_funding 2],
               ac_adaptor_infos = [EnumInfo], ac_adaptor_signatures = [[33, 22], [33, 27]],
               ac_accept_refund_signature = [33], ac_dlc_transactions = dc_dlc_transactions example_channel_txs\<rparr>"
proof -
  let ?fund = "dlc_fund (dc_dlc_transactions example_channel_txs)"
  obtain a b where f: "example_psbt_from ?fund = Some \<lparr>ps_unsigned_tx = ?fund, ps_inputs = [a, b]\<rparr>"
    using example_channel_fund by blast
  obtain p where p: "populate_psbt example_updater_api [example_funding 1, example_funding 2]
      \<lparr>ps_unsigned_tx = ?fund, ps_inputs = [a, b]\<rparr> = Ok p" "length (ps_inputs p) = 2"
    using example_populated by blast
  obtain p' where p': "sign_offer_input example_updater_api example_wallet lookup [example_funding 1, example_funding 2] ?fund
      (example_funding 1) (p, []) = Ok (p', [[[9]]])"
    using example_offer_input_signed [OF p(2)] by blast
  have t: "tx_input (dlc_refund (dc_dlc_transactions example_channel_txs)) \<noteq> []" by (rule example_channel_dlc)
  show ?thesis
    using f p(1) p' t
    by (simp add: verify_accepted_and_sign_contract_internal_def example_inputs_sorted example_offer_inputs example_channel_verified
      example_channel_own_signatures get_raw_sig_for_tx_input_def get_sig_hash_msg_def example_channel_dlc(10) Let_def)
qed

lemma example_sign_channel:
  assumes "accept_channel_params example_updater_api m = Ok example_accept_params" "ach_refund_signature m = [33]"
    "ach_cet_adaptor_signatures m = [[33, 22], [33, 27]]" "ach_buffer_adaptor_signature m = [13, 25]" "ach_first_per_update_point m = [30]"
    "ach_own_basepoint m = [31]" "ach_revocation_basepoint m = [33]" "ach_publish_basepoint m = [32]" "ach_funding_inputs m = [example_funding 2]"
  shows "\<exists>ch s sm mon1. verify_and_sign_accepted_channel example_updater_api example_deps example_wallet lookup example_offered_channel
    example_offered m 288 mon = (Ok (ch, s, sm), mon1)"
proof -
  obtain s where s: "verify_accepted_and_sign_contract_internal example_updater_api example_wallet lookup example_offered example_accept_params
     [example_funding 2] [33] [[33, 22], [33, 27]] 200130 11 (Some [9]) (Some [33]) (dc_dlc_transactions example_channel_txs) cid =
       Ok (s cid, [[11, 22], [11, 27]]) \<and>
     sc_accepted_contract (s cid) = \<lparr>ac_offered_contract = example_offered, ac_accept_params = example_accept_params, ac_funding_inputs = [example_funding 2],
               ac_adaptor_infos = [EnumInfo], ac_adaptor_signatures = [[33, 22], [33, 27]],
               ac_accept_refund_signature = [33], ac_dlc_transactions = dc_dlc_transactions example_channel_txs\<rparr>" for cid
    using example_sign_channel_internal [of lookup] by metis
  have k: "oc_keys_id example_offered = [1]" "own_pk example_accept_revoke = [33]" "publish_pk example_accept_revoke = [34]"
    "publish_pk example_offer_revoke = [25]" "fund_pubkey example_accept_params = [13]" 
    using example_offered_fields by (simp_all add: example_accept_revoke_def example_offer_revoke_def example_accept_params_def)
  show ?thesis
    by (simp add: verify_and_sign_accepted_channel_def assms k s example_offered_channel_def revocation_points example_revoke_params
      example_channel_txs' example_channel_dlc index_def new_channel_id_def verify_tx_adaptor_signature_def get_sig_hash_msg_def
      get_tx_adaptor_signature_def get_contract_id_def Let_def)
qed

section \<open>The key of the offering party\<close>

text \<open>
  C34. The offering party signs the refund transaction of a channel with its key of the funding output, but the accepting party verifies
  the signature under another key, the one derived from the own base point of the offering party.  So whatever the accepting
  party made from the offer: when the offering party has verified the acceptance and answers with its signatures, \<open>verify_signed_channel\<close>
  succeeds only if the signature that was made with the first key also verifies under the second.
\<close>

theorem offer_signature_verified_under_derived_key:
  assumes "accept_channel_offer api deps env new_key ofc' oc' = Ok (acc, a, m)"
    and "ofc_party_points ofc' = ofc_party_points ofc" "ofc_per_update_point ofc' = ofc_per_update_point ofc"
    and "verify_and_sign_accepted_channel api deps wallet lookup ofc oc m n mon = (Ok (ch, s, sm), mon1)"
    and "get_own_pk api (ofc_party_points ofc) (ofc_per_update_point ofc) = (Ok derived :: (_, manager_error) res)"
  shows "\<exists>sk scr v msg. derive_contract_signer api (oc_keys_id oc) = Ok sk \<and>
    sighash_all api (dlc_refund (ac_dlc_transactions (sc_accepted_contract s))) 0 scr v = Some msg \<and>
    sch_refund_signature sm = ecdsa_sign api msg sk \<and>
    (\<forall>wallet' lookup' mon' x mon''. verify_signed_channel api deps wallet' lookup' acc a sm mon' = (Ok x, mon'') \<longrightarrow>
      (\<exists>v' msg'. sighash_all api (dlc_refund (ac_dlc_transactions a)) 0 (acc_buffer_script_pubkey acc) v' = Some msg' \<and>
        ecdsa_verify api msg' (ecdsa_sign api msg sk) derived))"
proof -
  have acc: "acc_offer_base_points acc = ofc_party_points ofc" "acc_offer_per_update_point acc = ofc_per_update_point ofc"
    using assms(1-3) by (auto simp: accept_channel_offer_def res_simps Let_def)
  obtain sk scr v where sk: "derive_contract_signer api (oc_keys_id oc) = Ok sk"
    "get_raw_sig_for_tx_input api (dlc_refund (ac_dlc_transactions (sc_accepted_contract s))) 0 scr v sk = Ok (sch_refund_signature sm)"
    using channel_offer_signature [OF assms(4)] by blast
  obtain msg where msg: "sighash_all api (dlc_refund (ac_dlc_transactions (sc_accepted_contract s))) 0 scr v = Some msg"
    "sch_refund_signature sm = ecdsa_sign api msg sk"
    using sk(2) by (auto simp: get_raw_sig_for_tx_input_def get_sig_hash_msg_def res_simps)
  have "\<exists>v' msg'. sighash_all api (dlc_refund (ac_dlc_transactions a)) 0 (acc_buffer_script_pubkey acc) v' = Some msg' \<and>
        ecdsa_verify api msg' (ecdsa_sign api msg sk) derived"
    if v: "verify_signed_channel api deps wallet' lookup' acc a sm mon' = (Ok x, mon'')" for wallet' lookup' mon' x mon''
    using verified_channel_refund [OF v, unfolded acc, OF assms(5)] msg(2)
    by (auto simp: verify_tx_input_sig_def get_sig_hash_msg_def res_simps split: if_splits)
  then show ?thesis using sk(1) msg by blast
qed

text \<open>In the example the keys are 11 and 23, and the verification fails.\<close>

lemma offer_signature_verified_under_derived_key_witness:
  "\<exists>acc a m ch s sm mon1.
     accept_channel_offer example_updater_api example_deps (example_env 2) (\<lambda>n. Ok (30 + n)) example_offered_channel example_received = Ok (acc, a, m) \<and>
     verify_and_sign_accepted_channel example_updater_api example_deps example_wallet (\<lambda>_. Ok None) example_offered_channel example_offered m 288
       (monitor_new 0) = (Ok (ch, s, sm), mon1) \<and>
     (\<forall>x mon'. verify_signed_channel example_updater_api example_deps example_wallet (\<lambda>_. Ok None) acc a sm (monitor_new 0) \<noteq> (Ok x, mon'))"
proof -
  obtain acc a m where a: "accept_channel_offer example_updater_api example_deps (example_env 2) (\<lambda>n. Ok (30 + n)) example_offered_channel
      example_received = Ok (acc, a, m)"
    and m: "accept_channel_params example_updater_api m = Ok example_accept_params" "ach_refund_signature m = [33]"
    "ach_cet_adaptor_signatures m = [[33, 22], [33, 27]]" "ach_buffer_adaptor_signature m = [13, 25]" "ach_first_per_update_point m = [30]"
    "ach_own_basepoint m = [31]" "ach_revocation_basepoint m = [33]" "ach_publish_basepoint m = [32]" "ach_funding_inputs m = [example_funding 2]"
    using example_accept_channel by blast
  obtain ch s sm mon1 where s: "verify_and_sign_accepted_channel example_updater_api example_deps example_wallet (\<lambda>_. Ok None)
      example_offered_channel example_offered m 288 (monitor_new 0) = (Ok (ch, s, sm), mon1)"
    using example_sign_channel [OF m] by blast
  have k: "get_own_pk example_updater_api (ofc_party_points example_offered_channel) (ofc_per_update_point example_offered_channel) =
      (Ok [23] :: (_, manager_error) res)"
    by (simp add: get_own_pk_def example_offered_channel_def example_points_def example_derive)
  have d: "derive_contract_signer example_updater_api (oc_keys_id example_offered) = Ok 11"
    using example_offered_fields by simp
  show ?thesis
    using offer_signature_verified_under_derived_key [OF a refl refl s k] d a s by fastforce
qed

end
