(* ===== verification/Channel_Storage.thy ===== *)
theory Channel_Storage
  imports Channel_Data Contract_Storage
begin

text \<open>
  The storage of channels: the operations of the trait \<open>ddk_manager::Storage\<close> for channels and for the chain monitor as a record,
  the laws the manager relies on as a locale, and the storages in memory (\<open>ddk/src/storage/memory.rs\<close>) and in sled trees
  (\<open>ddk/src/storage/sled/contract.rs\<close>), which satisfy them.  The binary formats and the failures of the database are not modelled.
\<close>

section \<open>The operations\<close>

record 's channel_store_ops =
  cst_get_channel :: "bytes \<Rightarrow> 's \<Rightarrow> (channel option, manager_error) res"
  cst_upsert_channel :: "channel \<Rightarrow> contract option \<Rightarrow> 's \<Rightarrow> (unit, manager_error) res \<times> 's"
  cst_delete_channel :: "bytes \<Rightarrow> 's \<Rightarrow> (unit, manager_error) res \<times> 's"
  cst_get_signed_channels :: "signed_channel_state_type option \<Rightarrow> 's \<Rightarrow> (signed_channel list, manager_error) res"
  cst_get_offered_channels :: "'s \<Rightarrow> (offered_channel list, manager_error) res"
  cst_persist_chain_monitor :: "chain_monitor \<Rightarrow> 's \<Rightarrow> (unit, manager_error) res \<times> 's"
  cst_get_chain_monitor :: "'s \<Rightarrow> (chain_monitor option, manager_error) res"

fun as_offered_channel :: "channel \<Rightarrow> offered_channel option" where
  "as_offered_channel (OfferedChannel x) = Some x" | "as_offered_channel _ = None"

fun as_accepted_channel :: "channel \<Rightarrow> accepted_channel option" where
  "as_accepted_channel (AcceptedChannel x) = Some x" | "as_accepted_channel _ = None"

fun as_signed_channel :: "channel \<Rightarrow> signed_channel option" where
  "as_signed_channel (SignedChannel x) = Some x" | "as_signed_channel _ = None"

lemma as_channel_iff [simp]:
  "as_offered_channel c = Some x \<longleftrightarrow> c = OfferedChannel x" "as_accepted_channel c = Some y \<longleftrightarrow> c = AcceptedChannel y"
  "as_signed_channel c = Some z \<longleftrightarrow> c = SignedChannel z"
  by (cases c; auto)+

text \<open>The state that is asked for in a listing of the signed channels.\<close>

definition has_state :: "signed_channel_state_type option \<Rightarrow> signed_channel \<Rightarrow> bool" where
  "has_state t ch = (case t of Some s \<Rightarrow> get_type (ch_state ch) = s | None \<Rightarrow> True)"

text \<open>
  Storing a channel under its identifier.  A storage that purges removes what is stored under the temporary identifier when it stores the
  channel as accepted or signed.
\<close>

definition purged_channel_id :: "bool \<Rightarrow> channel \<Rightarrow> bytes option" where
  "purged_channel_id purge ch = (case ch of AcceptedChannel a \<Rightarrow> if purge then Some (acc_temporary_channel_id a) else None
     | SignedChannel s \<Rightarrow> if purge then Some (ch_temporary_id s) else None | _ \<Rightarrow> None)"

definition stored_channel :: "bool \<Rightarrow> channel \<Rightarrow> (bytes \<rightharpoonup> channel) \<Rightarrow> (bytes \<rightharpoonup> channel)" where
  "stored_channel purge ch S = (case purged_channel_id purge ch of Some t \<Rightarrow> S(t := None, channel_id_of ch \<mapsto> ch)
     | None \<Rightarrow> S(channel_id_of ch \<mapsto> ch))"

section \<open>The interface\<close>

locale channel_storage =
  fixes ops :: "'s channel_store_ops" and abs_channels :: "'s \<Rightarrow> bytes \<rightharpoonup> channel" and purge :: bool
  assumes get_channel_law: "cst_get_channel ops i st = Ok r \<Longrightarrow> r = abs_channels st i"
    and upsert_channel_law: "cst_upsert_channel ops ch c st = (res, st') \<Longrightarrow>
      abs_channels st' = (if res = Ok () then stored_channel purge ch (abs_channels st) else abs_channels st)"
    and signed_channels_law: "cst_get_signed_channels ops t st = Ok chs \<Longrightarrow>
      (\<exists>is. distinct is \<and> list_all2 (\<lambda>i ch. abs_channels st i = Some (SignedChannel ch)) is chs) \<and>
      (\<forall>i ch. abs_channels st i = Some (SignedChannel ch) \<longrightarrow> has_state t ch \<longrightarrow> ch \<in> set chs)"
    and persist_law: "cst_persist_chain_monitor ops mon st = (res, st') \<Longrightarrow> abs_channels st' = abs_channels st"

section \<open>The storage in memory\<close>

text \<open>
  The maps of the contracts and of the channels.  A hash map lists its values in the order of the hashes of their keys; the listing of
  the signed channels ignores the state that is asked for; the chain monitor is not stored.
\<close>

record memory_storage =
  mem_contracts :: contract_table
  mem_channels :: "(bytes, channel) alist"

definition channel_values :: "(bytes \<Rightarrow> 'k::linorder) \<Rightarrow> (bytes, channel) alist \<Rightarrow> channel list" where
  "channel_values key t = map snd (sort_key (\<lambda>e. key (fst e)) (DAList.impl_of t))"

definition memory_upsert_channel ::
  "('m) message_api_scheme \<Rightarrow> channel \<Rightarrow> contract option \<Rightarrow> memory_storage \<Rightarrow> (unit, manager_error) res \<times> memory_storage" where
  "memory_upsert_channel api ch c st =
     (case (case c of None \<Rightarrow> (Ok (), mem_contracts st) | Some x \<Rightarrow> memory_update_contract api x (mem_contracts st)) of
        (Ok _, t) \<Rightarrow> (Ok (), st\<lparr>mem_contracts := t, mem_channels := DAList.update (channel_id_of ch) ch (mem_channels st)\<rparr>)
      | (r, t) \<Rightarrow> (r, st\<lparr>mem_contracts := t\<rparr>))"

definition memory_channel_ops :: "('m) message_api_scheme \<Rightarrow> (bytes \<Rightarrow> nat) \<Rightarrow> memory_storage channel_store_ops" where
  "memory_channel_ops api hash =
     \<lparr>cst_get_channel = \<lambda>i st. Ok (DAList.lookup (mem_channels st) i), cst_upsert_channel = memory_upsert_channel api,
      cst_delete_channel = \<lambda>i st. (Ok (), st\<lparr>mem_channels := DAList.delete i (mem_channels st)\<rparr>),
      cst_get_signed_channels = \<lambda>_ st. Ok (List.map_filter as_signed_channel (channel_values hash (mem_channels st))),
      cst_get_offered_channels = \<lambda>st. Ok (List.map_filter as_offered_channel (channel_values hash (mem_channels st))),
      cst_persist_chain_monitor = \<lambda>_ st. (Ok (), st), cst_get_chain_monitor = \<lambda>_. Ok None\<rparr>"

text \<open>Its operations for contracts, which are those of \<open>Contract_Storage\<close> on the map of the contracts.\<close>

definition memory_store_ops :: "('m) message_api_scheme \<Rightarrow> (bytes \<Rightarrow> nat) \<Rightarrow> memory_storage store_ops" where
  "memory_store_ops api hash =
     (let ops = memory_ops api hash;
          upd = (\<lambda>f st. case f (mem_contracts st) of (r, t) \<Rightarrow> (r, st\<lparr>mem_contracts := t\<rparr>)) in
      \<lparr>st_get_contract = \<lambda>i st. st_get_contract ops i (mem_contracts st), st_get_contracts = \<lambda>st. st_get_contracts ops (mem_contracts st),
       st_create_contract = \<lambda>oc. upd (st_create_contract ops oc), st_delete_contract = \<lambda>i. upd (st_delete_contract ops i),
       st_update_contract = \<lambda>c. upd (st_update_contract ops c), st_offers = \<lambda>st. st_offers ops (mem_contracts st),
       st_signed = \<lambda>st. st_signed ops (mem_contracts st), st_confirmed = \<lambda>st. st_confirmed ops (mem_contracts st),
       st_preclosed = \<lambda>st. st_preclosed ops (mem_contracts st)\<rparr>)"

section \<open>The storage in sled trees\<close>

text \<open>
  The trees of the contracts and of the channels, and the stored chain monitor.  A tree is ordered by its keys; a channel and its
  contract are stored in one transaction.
\<close>

record sled_storage =
  sled_contracts :: contract_table
  sled_channels :: "(bytes, channel) alist"
  sled_monitor :: "chain_monitor option"

definition sled_upsert_channel ::
  "('m) message_api_scheme \<Rightarrow> channel \<Rightarrow> contract option \<Rightarrow> sled_storage \<Rightarrow> (unit, manager_error) res \<times> sled_storage" where
  "sled_upsert_channel api ch c st =
     (let t = (case ch of AcceptedChannel a \<Rightarrow> DAList.delete (acc_temporary_channel_id a) (sled_channels st)
               | SignedChannel s \<Rightarrow> DAList.delete (ch_temporary_id s) (sled_channels st) | _ \<Rightarrow> sled_channels st);
          t = DAList.update (channel_id_of ch) ch t in
      case (case c of None \<Rightarrow> (Ok (), sled_contracts st) | Some x \<Rightarrow> sled_update_contract api x (sled_contracts st)) of
        (Ok _, cs) \<Rightarrow> (Ok (), st\<lparr>sled_contracts := cs, sled_channels := t\<rparr>)
      | (r, _) \<Rightarrow> (r, st))"

definition sled_channel_ops :: "('m) message_api_scheme \<Rightarrow> sled_storage channel_store_ops" where
  "sled_channel_ops api =
     \<lparr>cst_get_channel = \<lambda>i st. Ok (DAList.lookup (sled_channels st) i), cst_upsert_channel = sled_upsert_channel api,
      cst_delete_channel = \<lambda>i st. (Ok (), st\<lparr>sled_channels := DAList.delete i (sled_channels st)\<rparr>),
      cst_get_signed_channels = \<lambda>t st.
        Ok (filter (has_state t) (List.map_filter as_signed_channel (channel_values (\<lambda>k. k) (sled_channels st)))),
      cst_get_offered_channels = \<lambda>st. Ok (List.map_filter as_offered_channel (channel_values (\<lambda>k. k) (sled_channels st))),
      cst_persist_chain_monitor = \<lambda>mon st. (Ok (), st\<lparr>sled_monitor := Some mon\<rparr>), cst_get_chain_monitor = \<lambda>st. Ok (sled_monitor st)\<rparr>"

definition sled_store_ops :: "('m) message_api_scheme \<Rightarrow> sled_storage store_ops" where
  "sled_store_ops api =
     (let ops = sled_ops api;
          upd = (\<lambda>f st. case f (sled_contracts st) of (r, t) \<Rightarrow> (r, st\<lparr>sled_contracts := t\<rparr>)) in
      \<lparr>st_get_contract = \<lambda>i st. st_get_contract ops i (sled_contracts st), st_get_contracts = \<lambda>st. st_get_contracts ops (sled_contracts st),
       st_create_contract = \<lambda>oc. upd (st_create_contract ops oc), st_delete_contract = \<lambda>i. upd (st_delete_contract ops i),
       st_update_contract = \<lambda>c. upd (st_update_contract ops c), st_offers = \<lambda>st. st_offers ops (sled_contracts st),
       st_signed = \<lambda>st. st_signed ops (sled_contracts st), st_confirmed = \<lambda>st. st_confirmed ops (sled_contracts st),
       st_preclosed = \<lambda>st. st_preclosed ops (sled_contracts st)\<rparr>)"

section \<open>Both satisfy the interface\<close>

lemma channel_values_set: "set (channel_values key t) = {ch. \<exists>i. DAList.lookup t i = Some ch}"
  by (force simp: channel_values_def DAList.lookup.rep_eq map_of_eq_Some_iff)

lemma set_map_filter: "set (List.map_filter f xs) = {y. \<exists>x\<in>set xs. f x = Some y}"
  by (induction xs) (auto simp: map_filter_simps split: option.splits)

lemma signed_values: "set (List.map_filter as_signed_channel (channel_values key t)) = {ch. \<exists>i. DAList.lookup t i = Some (SignedChannel ch)}"
  by (auto simp: set_map_filter channel_values_set)

text \<open>The listed channels are stored under different keys.\<close>

lemma filtered_listing:
  assumes "distinct is" "list_all2 P is xs"
  shows "\<exists>js. distinct js \<and> set js \<subseteq> set is \<and> list_all2 P js (filter Q xs)"
  using assms(2,1)
proof (induction rule: list_all2_induct)
  case (Cons i "is" x xs)
  then obtain js where js: "distinct js" "set js \<subseteq> set is" "list_all2 P js (filter Q xs)" by auto
  show ?case
  proof (cases "Q x")
    case True
    have "i \<notin> set js" using Cons.prems js(2) by auto
    then show ?thesis using js True Cons.hyps(1) by (intro exI [of _ "i # js"]) auto
  next
    case False
    then show ?thesis using js by (intro exI [of _ js]) auto
  qed
qed simp

lemma listing_of:
  assumes "distinct (map fst es)" "\<forall>(i, c)\<in>set es. look i = Some c"
  shows "\<exists>is. distinct is \<and> set is \<subseteq> set (map fst es) \<and>
    list_all2 (\<lambda>i ch. look i = Some (SignedChannel ch)) is (List.map_filter as_signed_channel (map snd es))"
  using assms
proof (induction es)
  case (Cons e es)
  then obtain js where js: "distinct js" "set js \<subseteq> set (map fst es)"
    "list_all2 (\<lambda>i ch. look i = Some (SignedChannel ch)) js (List.map_filter as_signed_channel (map snd es))" by auto
  show ?case
  proof (cases "as_signed_channel (snd e)")
    case None
    then show ?thesis using js by (auto simp: map_filter_simps)
  next
    case (Some ch)
    then have "look (fst e) = Some (SignedChannel ch)" "fst e \<notin> set js" using Cons.prems js(2) by auto
    then show ?thesis using js Some by (intro exI [of _ "fst e # js"]) (auto simp: map_filter_simps)
  qed
qed (simp add: map_filter_simps)

lemma signed_listing:
  "\<exists>is. distinct is \<and> list_all2 (\<lambda>i ch. DAList.lookup t i = Some (SignedChannel ch)) is
    (List.map_filter as_signed_channel (channel_values key t))"
proof -
  let ?es = "sort_key (\<lambda>e. key (fst e)) (DAList.impl_of t)"
  have "distinct (map fst ?es)"
    by (metis distinct_map impl_of_distinct mset_sort mset_map set_sort distinct_sort mset_eq_imp_distinct_iff)
  moreover have "\<forall>(i, c)\<in>set ?es. DAList.lookup t i = Some c" by (auto simp: DAList.lookup.rep_eq)
  ultimately show ?thesis using listing_of [of ?es "DAList.lookup t"] by (auto simp: channel_values_def)
qed

lemma filtered_signed_listing:
  "\<exists>is. distinct is \<and> list_all2 (\<lambda>i ch. DAList.lookup t i = Some (SignedChannel ch)) is
    (filter Q (List.map_filter as_signed_channel (channel_values key t)))"
  using signed_listing [of t key] filtered_listing by blast

interpretation memory_channels: channel_storage "memory_channel_ops api hash" "\<lambda>st. DAList.lookup (mem_channels st)" False for api hash
  by unfold_locales
    (auto simp: memory_channel_ops_def memory_upsert_channel_def DAList.lookup_update stored_channel_def purged_channel_id_def signed_values
        signed_listing split: prod.splits res.splits channel.splits)

interpretation sled_channels: channel_storage "sled_channel_ops api" "\<lambda>st. DAList.lookup (sled_channels st)" True for api
  by unfold_locales
    (auto simp: sled_channel_ops_def sled_upsert_channel_def DAList.lookup_update stored_channel_def purged_channel_id_def signed_values
        filtered_signed_listing Let_def split: prod.splits res.splits channel.splits)

end
