(* ===== verification/Channel_Manager.thy ===== *)
theory Channel_Manager
  imports Channel_Updater Contract_Manager Message_Handler Channel_Storage
begin

text \<open>
  \<open>ddk-manager/src/manager.rs\<close>, the methods for channels: the calls of the application and the handlers of the messages of the peer.
  They work like the methods for contracts; the chain monitor, which the manager keeps behind a lock, is held next to the storage.
\<close>

section \<open>State and effects\<close>

record 's node_state =
  nd_store :: 's
  nd_monitor :: chain_monitor

definition on_node :: "('s \<Rightarrow> 'r \<times> 's) \<Rightarrow> 's node_state \<Rightarrow> 'r \<times> 's node_state" where
  "on_node f n = (case f (nd_store n) of (r, st) \<Rightarrow> (r, n\<lparr>nd_store := st\<rparr>))"

text \<open>The operations of the storage for contracts, with the chain monitor next to it.\<close>

definition node_ops :: "'s store_ops \<Rightarrow> 's node_state store_ops" where
  "node_ops ops =
     \<lparr>st_get_contract = \<lambda>i n. st_get_contract ops i (nd_store n), st_get_contracts = \<lambda>n. st_get_contracts ops (nd_store n),
      st_create_contract = \<lambda>oc. on_node (st_create_contract ops oc), st_delete_contract = \<lambda>i. on_node (st_delete_contract ops i),
      st_update_contract = \<lambda>c. on_node (st_update_contract ops c), st_offers = \<lambda>n. st_offers ops (nd_store n),
      st_signed = \<lambda>n. st_signed ops (nd_store n), st_confirmed = \<lambda>n. st_confirmed ops (nd_store n),
      st_preclosed = \<lambda>n. st_preclosed ops (nd_store n)\<rparr>"

text \<open>
  What the methods for channels use besides: the storage of channels, the keys and secrets of channels, new secret keys, new temporary
  identifiers, blocks, the fee estimator, and the order in which the watched transactions are listed.
\<close>

record 's channel_manager = "'s node_state manager" +
  cm_store :: "'s channel_store_ops"
  cm_deps :: channel_deps
  new_secret_key :: "nat \<Rightarrow> nat \<Rightarrow> (seckey, manager_error) res"
  new_temporary_id :: "nat \<Rightarrow> bytes"
  block_at_height :: "nat \<Rightarrow> nat \<Rightarrow> (transaction list, manager_error) res"
  wallet_address :: "nat \<Rightarrow> (script, manager_error) res"
  unreserve_utxos :: "nat \<Rightarrow> out_point list \<Rightarrow> (unit, manager_error) res"
  est_sat_per_1000_weight :: "nat \<Rightarrow> nat"
  watched_tx_order :: "nat \<Rightarrow> (bytes \<times> watch_state) list \<Rightarrow> watch_state list"
  watched_txo_order :: "nat \<Rightarrow> (out_point \<times> watch_state) list \<Rightarrow> watch_state list"

type_synonym ('a, 's) node_action = "('a, 's node_state) action"

definition get_channel :: "('s, 'x) channel_manager_scheme \<Rightarrow> bytes \<Rightarrow> (channel option, 's) node_action" where
  "get_channel m i = read_store (\<lambda>n. cst_get_channel (cm_store m) i (nd_store n))"

definition get_channel_in_state ::
  "('s, 'x) channel_manager_scheme \<Rightarrow> bytes \<Rightarrow> (channel \<Rightarrow> 'a option) \<Rightarrow> pubkey option \<Rightarrow> ('a, 's) node_action" where
  "get_channel_in_state m channel_id state peer_id =
     and_do (get_channel m channel_id) (\<lambda>object.
       lift_res (case object of
         None \<Rightarrow> Err InvalidParameters
       | Some c \<Rightarrow>
           if (case peer_id of Some p \<Rightarrow> channel_counter_party c \<noteq> p | None \<Rightarrow> False) then Err InvalidParameters
           else (case state c of Some s \<Rightarrow> Ok s | None \<Rightarrow> Err InvalidState)))"

definition upsert_channel :: "('s, 'x) channel_manager_scheme \<Rightarrow> channel \<Rightarrow> contract option \<Rightarrow> (unit, 's) node_action" where
  "upsert_channel m ch c = write_store (on_node (cst_upsert_channel (cm_store m) ch c))"

text \<open>Work on the chain monitor, which is locked for it.\<close>

definition monitor_do :: "(chain_monitor \<Rightarrow> ('a, manager_error) res \<times> chain_monitor) \<Rightarrow> ('a, 's) node_action" where
  "monitor_do f = write_store (\<lambda>n. case f (nd_monitor n) of (r, mon) \<Rightarrow> (r, n\<lparr>nd_monitor := mon\<rparr>))"

definition change_monitor :: "(chain_monitor \<Rightarrow> chain_monitor) \<Rightarrow> (unit, 's) node_action" where
  "change_monitor f = monitor_do (\<lambda>mon. (Ok (), f mon))"

definition persist_monitor :: "('s, 'x) channel_manager_scheme \<Rightarrow> (unit, 's) node_action" where
  "persist_monitor m = write_store (\<lambda>n. on_node (cst_persist_chain_monitor (cm_store m) (nd_monitor n)) n)"

text \<open>An update of a channel that has been read, with the chain monitor; the changed channel is returned.\<close>

definition run_update :: "signed_channel \<Rightarrow> 'a channel_update \<Rightarrow> ('a \<times> signed_channel, 's) node_action" where
  "run_update ch upd = monitor_do (\<lambda>mon.
     case upd \<lparr>us_channel = ch, us_monitor = mon\<rparr> of (r, u) \<Rightarrow> (and_then r (\<lambda>x. Ok (x, us_channel u)), us_monitor u))"

text \<open>The clock is asked for updates that set a timeout.\<close>

definition run_timed :: "('s, 'x) channel_manager_scheme \<Rightarrow> signed_channel \<Rightarrow> (nat \<Rightarrow> 'a channel_update) \<Rightarrow> ('a \<times> signed_channel, 's) node_action" where
  "run_timed m ch upd = and_do (ask (\<lambda>n. unix_time_now m n)) (\<lambda>now. run_update ch (upd now))"

text \<open>\<open>Manager::new\<close>: the chain monitor of the storage, or a new one.\<close>

definition manager_new :: "('s, 'x) channel_manager_scheme \<Rightarrow> (unit, 's) node_action" where
  "manager_new m =
     and_do (request (\<lambda>n. blockchain_height m n)) (\<lambda>init_height.
     and_do (read_store (\<lambda>n. cst_get_chain_monitor (cm_store m) (nd_store n))) (\<lambda>stored.
       change_monitor (\<lambda>_. case stored of Some mon \<Rightarrow> mon | None \<Rightarrow> monitor_new init_height)))"

definition watch :: "bytes \<Rightarrow> bytes \<Rightarrow> tx_type \<Rightarrow> (unit, 's) node_action" where
  "watch txid channel_id t = change_monitor (add_tx txid \<lparr>ch_channel_id = channel_id, ch_tx_type = t\<rparr>)"

definition txid_in :: "('s, 'x) channel_manager_scheme \<Rightarrow> transaction \<Rightarrow> bytes" where
  "txid_in m tx = compute_txid (mg_api m) tx"

definition rollback_in :: "(signed_channel_state \<Rightarrow> 'a option) \<Rightarrow> signed_channel \<Rightarrow> ('a, manager_error) res" where
  "rollback_in sel ch = (case ch_roll_back_state ch of Some st \<Rightarrow> ok_or InvalidState (sel st) | None \<Rightarrow> Err InvalidState)"

definition get_collaboratively_closed_contract ::
  "('s, 'x) channel_manager_scheme \<Rightarrow> bytes \<Rightarrow> nat \<Rightarrow> bool \<Rightarrow> (closed_contract, 's) node_action" where
  "get_collaboratively_closed_contract m contract_id payout is_own_payout =
     and_do (get_contract_in_state m contract_id as_confirmed None) (\<lambda>s.
     let a = sc_accepted_contract s; oc = ac_offered_contract a;
         own_collateral = (if oc_is_offer_party oc then collateral (oc_offer_params oc) else collateral (ac_accept_params a)) in
     and_do (lift_res (if is_own_payout then Ok payout else usub (oc_total_collateral oc) payout)) (\<lambda>own_payout.
     and_do (lift_res (isub (as_i64 own_payout) (as_i64 own_collateral))) (\<lambda>pnl.
       lift_res (Ok \<lparr>cl_attestations = None, cl_signed_cet = None, cl_contract_id = contract_id,
         cl_temporary_contract_id = oc_id oc, cl_counter_party_id = oc_counter_party oc,
         cl_funding_txid = txid_in m (dlc_fund (ac_dlc_transactions a)), cl_pnl = pnl, cl_signed_contract = s\<rparr>))))"

section \<open>Setting up a channel\<close>

definition manager_offer_channel ::
  "('s, 'x) channel_manager_scheme \<Rightarrow> contract_input \<Rightarrow> pubkey \<Rightarrow> (offer_channel, 's) node_action" where
  "manager_offer_channel m contract_input counter_party =
     and_do (oracle_announcements m contract_input) (\<lambda>announcements.
     and_do (request (\<lambda>n. make_channel_offer (mg_api m) (cm_deps m) (party m n) (new_secret_key m n) contract_input counter_party
         announcements CET_NSEQUENCE REFUND_DELAY (unix_time_now m n) (new_temporary_id m n))) (\<lambda>(offered_channel, offered_contract).
     and_do (lift_res (get_offer_channel_msg offered_channel offered_contract)) (\<lambda>msg.
     and_do (upsert_channel m (OfferedChannel offered_channel) (Some (Offered offered_contract))) (\<lambda>_. lift_res (Ok msg)))))"

text \<open>An offered channel of the peer with its contract.\<close>

definition received_offer :: "('s, 'x) channel_manager_scheme \<Rightarrow> bytes \<Rightarrow> (offered_channel \<times> offered_contract, 's) node_action" where
  "received_offer m channel_id =
     and_do (get_channel_in_state m channel_id as_offered_channel None) (\<lambda>offered_channel.
     and_do (lift_res (ensure (\<not> ofc_is_offer_party offered_channel) InvalidState)) (\<lambda>_.
     and_do (get_contract_in_state m (ofc_offered_contract_id offered_channel) as_offered None) (\<lambda>offered_contract.
       lift_res (Ok (offered_channel, offered_contract)))))"

definition reject_channel :: "('s, 'x) channel_manager_scheme \<Rightarrow> bytes \<Rightarrow> (reject \<times> pubkey, 's) node_action" where
  "reject_channel m channel_id =
     and_do (received_offer m channel_id) (\<lambda>(offered_channel, offered_contract).
     and_do (upsert_channel m (CancelledChannel offered_channel) (Some (Rejected offered_contract))) (\<lambda>_.
       lift_res (Ok (\<lparr>rej_channel_id = channel_id\<rparr>, ofc_counter_party offered_channel))))"

definition manager_accept_channel ::
  "('s, 'x) channel_manager_scheme \<Rightarrow> bytes \<Rightarrow> (accept_channel \<times> bytes \<times> bytes \<times> pubkey, 's) node_action" where
  "manager_accept_channel m channel_id =
     and_do (received_offer m channel_id) (\<lambda>(offered_channel, offered_contract).
     and_do (request (\<lambda>n. accept_channel_offer (mg_api m) (cm_deps m) (party m n) (new_secret_key m n) offered_channel offered_contract))
       (\<lambda>(accepted_channel, accepted_contract, msg).
     and_do (request (\<lambda>n. import_address m n (funding_witness_script (ac_dlc_transactions accepted_contract)))) (\<lambda>_.
     and_do (lift_res (get_contract_id (mg_api m) accepted_contract)) (\<lambda>contract_id.
     and_do (upsert_channel m (AcceptedChannel accepted_channel) (Some (Accepted accepted_contract))) (\<lambda>_.
       lift_res (Ok (msg, acc_channel_id accepted_channel, contract_id, oc_counter_party (ac_offered_contract accepted_contract))))))))"

definition on_offer_channel :: "('s, 'x) channel_manager_scheme \<Rightarrow> offer_channel \<Rightarrow> pubkey \<Rightarrow> (unit, 's) node_action" where
  "on_offer_channel m msg counter_party =
     and_do (lift_res (map_err DlcError (offer_channel_validate (mg_api m) (mg_wire m) msg REFUND_DELAY (REFUND_DELAY * 2)
         CET_NSEQUENCE (CET_NSEQUENCE * 2)))) (\<lambda>_.
     let keys_id = derive_signer_key_id (mg_api m) False (och_temporary_contract_id msg) in
     and_do (lift_res (from_offer_channel (mg_api m) msg counter_party keys_id)) (\<lambda>(channel, contract).
     and_do (lift_res (offered_validate contract)) (\<lambda>_.
     and_do (get_channel m (ofc_temporary_channel_id channel)) (\<lambda>known.
     and_do (lift_res (ensure (known = None) InvalidParameters)) (\<lambda>_.
       upsert_channel m (OfferedChannel channel) (Some (Offered contract)))))))"

text \<open>The buffer transaction of a new channel is watched.\<close>

definition watch_buffer :: "('s, 'x) channel_manager_scheme \<Rightarrow> signed_channel \<Rightarrow> (unit, 's) node_action" where
  "watch_buffer m ch =
     (case get_established (ch_state ch) of
        Some e \<Rightarrow> watch (txid_in m (es_buffer_transaction e)) (ch_id ch) BufferTx
      | None \<Rightarrow> lift_res Panic)"

definition fail_accept_channel ::
  "('s, 'x) channel_manager_scheme \<Rightarrow> accept_channel \<Rightarrow> pubkey \<Rightarrow> manager_error \<Rightarrow> ('a, 's) node_action" where
  "fail_accept_channel m msg peer_id e =
     and_do (upsert_channel m (FailedAcceptChannel \<lparr>fac_counter_party = peer_id, fac_temporary_channel_id = ach_temporary_channel_id msg,
         fac_error_message = e, fac_accept_message = msg\<rparr>) None) (\<lambda>_. lift_res (Err e))"

definition on_accept_channel :: "('s, 'x) channel_manager_scheme \<Rightarrow> accept_channel \<Rightarrow> pubkey \<Rightarrow> (sign_channel, 's) node_action" where
  "on_accept_channel m msg peer_id =
     and_do (get_channel_in_state m (ach_temporary_channel_id msg) as_offered_channel (Some peer_id)) (\<lambda>offered_channel.
     and_do (get_contract_in_state m (ofc_offered_contract_id offered_channel) as_offered (Some peer_id)) (\<lambda>offered_contract.
     on_result (\<lambda>\<sigma>. and_do (ask (\<lambda>n. sign_psbt_input m n)) (\<lambda>wallet. monitor_do (verify_and_sign_accepted_channel (mg_api m) (cm_deps m)
         wallet (lookup_of m \<sigma>) offered_channel offered_contract msg CET_NSEQUENCE)) \<sigma>)
       (\<lambda>(signed_channel, signed_contract, sign_channel).
          and_do (request (\<lambda>n. import_address m n (funding_witness_script (ac_dlc_transactions (sc_accepted_contract signed_contract))))) (\<lambda>_.
          and_do (watch_buffer m signed_channel) (\<lambda>_.
          and_do (upsert_channel m (SignedChannel signed_channel) (Some (Signed signed_contract))) (\<lambda>_.
          and_do (persist_monitor m) (\<lambda>_. lift_res (Ok sign_channel))))))
       (fail_accept_channel m msg peer_id)))"

definition fail_sign_channel ::
  "('s, 'x) channel_manager_scheme \<Rightarrow> sign_channel \<Rightarrow> pubkey \<Rightarrow> manager_error \<Rightarrow> ('a, 's) node_action" where
  "fail_sign_channel m msg peer_id e =
     and_do (upsert_channel m (FailedSignChannel \<lparr>fsc_counter_party = peer_id, fsc_channel_id = sch_channel_id msg,
         fsc_error_message = e, fsc_sign_message = msg\<rparr>) None) (\<lambda>_. lift_res (Err e))"

definition on_sign_channel :: "('s, 'x) channel_manager_scheme \<Rightarrow> sign_channel \<Rightarrow> pubkey \<Rightarrow> (unit, 's) node_action" where
  "on_sign_channel m msg peer_id =
     and_do (get_channel_in_state m (sch_channel_id msg) as_accepted_channel (Some peer_id)) (\<lambda>accepted_channel.
     and_do (get_contract_in_state m (acc_accepted_contract_id accepted_channel) as_accepted (Some peer_id)) (\<lambda>accepted_contract.
     on_result (\<lambda>\<sigma>. and_do (ask (\<lambda>n. sign_psbt_input m n)) (\<lambda>wallet. monitor_do (verify_signed_channel (mg_api m) (cm_deps m)
         wallet (lookup_of m \<sigma>) accepted_channel accepted_contract msg)) \<sigma>)
       (\<lambda>(signed_channel, signed_contract, signed_fund_tx).
          and_do (watch_buffer m signed_channel) (\<lambda>_.
          and_do (send_transaction m signed_fund_tx) (\<lambda>_.
          and_do (upsert_channel m (SignedChannel signed_channel) (Some (Signed signed_contract))) (\<lambda>_. persist_monitor m))))
       (fail_sign_channel m msg peer_id)))"

section \<open>Settling a channel\<close>

abbreviation signed_of :: "('s, 'x) channel_manager_scheme \<Rightarrow> bytes \<Rightarrow> (signed_channel, 's) node_action" where
  "signed_of m i \<equiv> get_channel_in_state m i as_signed_channel None"

abbreviation signed_with :: "('s, 'x) channel_manager_scheme \<Rightarrow> bytes \<Rightarrow> pubkey \<Rightarrow> (signed_channel, 's) node_action" where
  "signed_with m i p \<equiv> get_channel_in_state m i as_signed_channel (Some p)"

definition manager_settle_offer :: "('s, 'x) channel_manager_scheme \<Rightarrow> bytes \<Rightarrow> nat \<Rightarrow> (settle_offer \<times> pubkey, 's) node_action" where
  "manager_settle_offer m channel_id counter_payout =
     and_do (signed_of m channel_id) (\<lambda>ch.
     and_do (run_timed m ch (settle_channel_offer (mg_api m) (cm_deps m) counter_payout PEER_TIMEOUT)) (\<lambda>(msg, ch).
     and_do (upsert_channel m (SignedChannel ch) None) (\<lambda>_. lift_res (Ok (msg, ch_counter_party ch)))))"

definition accept_settle_offer :: "('s, 'x) channel_manager_scheme \<Rightarrow> bytes \<Rightarrow> (settle_accept \<times> pubkey, 's) node_action" where
  "accept_settle_offer m channel_id =
     and_do (signed_of m channel_id) (\<lambda>ch.
     and_do (run_timed m ch (settle_channel_accept (mg_api m) (cm_deps m) CET_NSEQUENCE 0 PEER_TIMEOUT)) (\<lambda>(msg, ch).
     and_do (upsert_channel m (SignedChannel ch) None) (\<lambda>_. lift_res (Ok (msg, ch_counter_party ch)))))"

definition manager_reject_settle_offer :: "('s, 'x) channel_manager_scheme \<Rightarrow> bytes \<Rightarrow> (reject \<times> pubkey, 's) node_action" where
  "manager_reject_settle_offer m channel_id =
     and_do (signed_of m channel_id) (\<lambda>ch.
     and_do (run_update ch reject_settle_offer) (\<lambda>(msg, ch).
     and_do (upsert_channel m (SignedChannel ch) None) (\<lambda>_. lift_res (Ok (msg, ch_counter_party ch)))))"

definition manager_on_settle_offer ::
  "('s, 'x) channel_manager_scheme \<Rightarrow> settle_offer \<Rightarrow> pubkey \<Rightarrow> (reject option, 's) node_action" where
  "manager_on_settle_offer m msg peer_id =
     and_do (signed_with m (sto_channel_id msg) peer_id) (\<lambda>ch.
       if is_of_type (ch_state ch) SettledOfferedType then lift_res (Ok (Some \<lparr>rej_channel_id = sto_channel_id msg\<rparr>))
       else
         and_do (run_update ch (on_settle_offer msg)) (\<lambda>(_, ch).
         and_do (upsert_channel m (SignedChannel ch) None) (\<lambda>_. lift_res (Ok None))))"

definition on_settle_accept :: "('s, 'x) channel_manager_scheme \<Rightarrow> settle_accept \<Rightarrow> pubkey \<Rightarrow> (settle_confirm, 's) node_action" where
  "on_settle_accept m msg peer_id =
     and_do (signed_with m (sta_channel_id msg) peer_id) (\<lambda>ch.
     and_do (run_timed m ch (settle_channel_confirm (mg_api m) (cm_deps m) msg CET_NSEQUENCE 0 PEER_TIMEOUT)) (\<lambda>(answer, ch).
     and_do (upsert_channel m (SignedChannel ch) None) (\<lambda>_. lift_res (Ok answer))))"

text \<open>
  The end of a settlement: the buffer transaction of the former state is watched as revoked, and the contract of that state is closed
  with the payout of the settlement.
\<close>

definition finish_settlement ::
  "('s, 'x) channel_manager_scheme \<Rightarrow> established \<Rightarrow> nat \<Rightarrow> signed_channel \<Rightarrow> (unit, 's) node_action" where
  "finish_settlement m e own_payout ch =
     and_do (lift_res (uadd (ch_update_idx ch) 1)) (\<lambda>idx.
     and_do (watch (txid_in m (es_buffer_transaction e)) (ch_id ch)
         (Revoked idx (es_own_buffer_adaptor_signature e) (es_is_offer e) RevokedBuffer)) (\<lambda>_.
     and_do (get_collaboratively_closed_contract m (es_signed_contract_id e) own_payout True) (\<lambda>closed.
     and_do (upsert_channel m (SignedChannel ch) (Some (Closed closed))) (\<lambda>_. persist_monitor m))))"

definition on_settle_confirm :: "('s, 'x) channel_manager_scheme \<Rightarrow> settle_confirm \<Rightarrow> pubkey \<Rightarrow> (settle_finalize, 's) node_action" where
  "on_settle_confirm m msg peer_id =
     and_do (signed_with m (stc_channel_id msg) peer_id) (\<lambda>ch.
     and_do (lift_res (in_state get_settled_accepted ch)) (\<lambda>x.
     and_do (lift_res (rollback_in get_established ch)) (\<lambda>e.
     and_do (run_update ch (settle_channel_finalize (mg_api m) (cm_deps m) msg)) (\<lambda>(answer, ch).
     and_do (finish_settlement m e (sa_own_payout x) ch) (\<lambda>_. lift_res (Ok answer))))))"

definition on_settle_finalize :: "('s, 'x) channel_manager_scheme \<Rightarrow> settle_finalize \<Rightarrow> pubkey \<Rightarrow> (unit, 's) node_action" where
  "on_settle_finalize m msg peer_id =
     and_do (signed_with m (stf_channel_id msg) peer_id) (\<lambda>ch.
     and_do (lift_res (in_state get_settled_confirmed ch)) (\<lambda>x.
     and_do (lift_res (rollback_in get_established ch)) (\<lambda>e.
     and_do (run_update ch (settle_channel_on_finalize (mg_api m) (cm_deps m) msg)) (\<lambda>(_, ch).
       finish_settlement m e (sf_own_payout x) ch))))"

section \<open>Renewing the contract of a channel\<close>

definition manager_renew_offer ::
  "('s, 'x) channel_manager_scheme \<Rightarrow> bytes \<Rightarrow> nat \<Rightarrow> contract_input \<Rightarrow> (renew_offer \<times> pubkey, 's) node_action" where
  "manager_renew_offer m channel_id counter_payout contract_input =
     and_do (signed_of m channel_id) (\<lambda>ch.
     and_do (oracle_announcements m contract_input) (\<lambda>announcements.
     and_do (ask (\<lambda>n. party m n)) (\<lambda>env.
     and_do (run_timed m ch (renew_channel_offer (mg_api m) (cm_deps m) env contract_input announcements counter_payout REFUND_DELAY
         PEER_TIMEOUT CET_NSEQUENCE)) (\<lambda>((msg, offered_contract), ch).
     and_do (upsert_channel m (SignedChannel ch) (Some (Offered offered_contract))) (\<lambda>_.
       lift_res (Ok (msg, oc_counter_party offered_contract)))))))"

text \<open>The offered contract of a channel.\<close>

definition contract_offered_in ::
  "('s, 'x) channel_manager_scheme \<Rightarrow> signed_channel \<Rightarrow> pubkey option \<Rightarrow> (offered_contract, 's) node_action" where
  "contract_offered_in m ch peer_id =
     and_do (lift_res (ok_or InvalidState (channel_contract_id ch))) (\<lambda>i. get_contract_in_state m i as_offered peer_id)"

definition accept_renew_offer :: "('s, 'x) channel_manager_scheme \<Rightarrow> bytes \<Rightarrow> (renew_accept \<times> pubkey, 's) node_action" where
  "accept_renew_offer m channel_id =
     and_do (signed_of m channel_id) (\<lambda>ch.
     and_do (contract_offered_in m ch None) (\<lambda>offered_contract.
     and_do (run_timed m ch (accept_channel_renewal (mg_api m) (cm_deps m) offered_contract CET_NSEQUENCE PEER_TIMEOUT))
       (\<lambda>((accepted_contract, msg), ch).
     and_do (upsert_channel m (SignedChannel ch) (Some (Accepted accepted_contract))) (\<lambda>_.
       lift_res (Ok (msg, ch_counter_party ch))))))"

definition manager_reject_renew_offer :: "('s, 'x) channel_manager_scheme \<Rightarrow> bytes \<Rightarrow> (reject \<times> pubkey, 's) node_action" where
  "manager_reject_renew_offer m channel_id =
     and_do (signed_of m channel_id) (\<lambda>ch.
     and_do (contract_offered_in m ch None) (\<lambda>offered_contract.
     and_do (run_update ch reject_renew_offer) (\<lambda>(msg, ch).
     and_do (upsert_channel m (SignedChannel ch) (Some (Rejected offered_contract))) (\<lambda>_.
       lift_res (Ok (msg, ch_counter_party ch))))))"

definition manager_on_renew_offer ::
  "('s, 'x) channel_manager_scheme \<Rightarrow> renew_offer \<Rightarrow> pubkey \<Rightarrow> (reject option, 's) node_action" where
  "manager_on_renew_offer m msg peer_id =
     and_do (signed_with m (rno_channel_id msg) peer_id) (\<lambda>ch.
       if (case get_renew_offered (ch_state ch) of Some x \<Rightarrow> ro_is_offer x | None \<Rightarrow> False)
       then lift_res (Ok (Some \<lparr>rej_channel_id = rno_channel_id msg\<rparr>))
       else
         and_do (run_timed m ch (on_renew_offer msg PEER_TIMEOUT)) (\<lambda>(offered_contract, ch).
         and_do (write_store (st_create_contract (mg_store m) offered_contract)) (\<lambda>_.
         and_do (upsert_channel m (SignedChannel ch) None) (\<lambda>_. lift_res (Ok None)))))"

definition on_renew_accept :: "('s, 'x) channel_manager_scheme \<Rightarrow> renew_accept \<Rightarrow> pubkey \<Rightarrow> (renew_confirm, 's) node_action" where
  "on_renew_accept m msg peer_id =
     and_do (signed_with m (rna_channel_id msg) peer_id) (\<lambda>ch.
     and_do (contract_offered_in m ch (Some peer_id)) (\<lambda>offered_contract.
     and_do (ask (\<lambda>n. sign_psbt_input m n)) (\<lambda>wallet.
     and_do (\<lambda>\<sigma>. run_timed m ch (verify_renew_accept_and_confirm (mg_api m) (cm_deps m) wallet (lookup_of m \<sigma>) msg offered_contract
         CET_NSEQUENCE PEER_TIMEOUT) \<sigma>) (\<lambda>((signed_contract, answer), ch).
     and_do (upsert_channel m (SignedChannel ch) (Some (Confirmed signed_contract))) (\<lambda>_. lift_res (Ok answer))))))"

text \<open>The transaction that a renewal revokes, and the contract that it closes.\<close>

definition revoked_by_renewal ::
  "('s, 'x) channel_manager_scheme \<Rightarrow> signed_channel \<Rightarrow> nat \<Rightarrow> (tx_type \<times> bytes \<times> contract option, 's) node_action" where
  "revoked_by_renewal m ch own_payout =
     (case ch_roll_back_state ch of
        None \<Rightarrow> lift_res Panic
      | Some (Established e) \<Rightarrow>
          and_do (get_collaboratively_closed_contract m (es_signed_contract_id e) own_payout True) (\<lambda>closed.
            lift_res (Ok (Revoked (ch_update_idx ch) (es_own_buffer_adaptor_signature e) False RevokedBuffer,
              txid_in m (es_buffer_transaction e), Some (Closed closed))))
      | Some (Settled x) \<Rightarrow>
          lift_res (Ok (Revoked (ch_update_idx ch) (sd_own_settle_adaptor_signature x) False RevokedSettle,
            txid_in m (sd_settle_tx x), None))
      | Some _ \<Rightarrow> lift_res (Err InvalidState))"

definition close_renewed :: "('s, 'x) channel_manager_scheme \<Rightarrow> contract option \<Rightarrow> (unit, 's) node_action" where
  "close_renewed m c = (case c of Some x \<Rightarrow> update_contract m x | None \<Rightarrow> lift_res (Ok ()))"

definition on_renew_confirm :: "('s, 'x) channel_manager_scheme \<Rightarrow> renew_confirm \<Rightarrow> pubkey \<Rightarrow> (renew_finalize, 's) node_action" where
  "on_renew_confirm m msg peer_id =
     and_do (signed_with m (rnc_channel_id msg) peer_id) (\<lambda>ch.
     and_do (lift_res (in_state get_renew_accepted ch)) (\<lambda>x.
     and_do (lift_res (ok_or InvalidState (channel_contract_id ch))) (\<lambda>contract_id.
     and_do (revoked_by_renewal m ch (ra_own_payout x)) (\<lambda>(tx_type, prev_tx_id, closed_contract).
     and_do (get_contract_in_state m contract_id as_accepted (Some peer_id)) (\<lambda>accepted_contract.
     and_do (ask (\<lambda>n. sign_psbt_input m n)) (\<lambda>wallet.
     and_do (\<lambda>\<sigma>. run_timed m ch (verify_renew_confirm_and_finalize (mg_api m) (cm_deps m) wallet (lookup_of m \<sigma>) accepted_contract msg
         PEER_TIMEOUT) \<sigma>) (\<lambda>((signed_contract, answer), ch).
     and_do (watch prev_tx_id (ch_id ch) tx_type) (\<lambda>_.
     and_do (upsert_channel m (SignedChannel ch) (Some (Confirmed signed_contract))) (\<lambda>_.
     and_do (persist_monitor m) (\<lambda>_.
     and_do (close_renewed m closed_contract) (\<lambda>_. lift_res (Ok answer))))))))))))"

definition on_renew_finalize :: "('s, 'x) channel_manager_scheme \<Rightarrow> renew_finalize \<Rightarrow> pubkey \<Rightarrow> (renew_revoke, 's) node_action" where
  "on_renew_finalize m msg peer_id =
     and_do (signed_with m (rnf_channel_id msg) peer_id) (\<lambda>ch.
     and_do (lift_res (in_state get_renew_confirmed ch)) (\<lambda>x.
     and_do (revoked_by_renewal m ch (rc_own_payout x)) (\<lambda>(tx_type, prev_tx_id, closed_contract).
     and_do (run_update ch (renew_channel_on_finalize (mg_api m) (cm_deps m) msg)) (\<lambda>(answer, ch).
     and_do (watch prev_tx_id (ch_id ch) tx_type) (\<lambda>_.
     and_do (lift_res (in_state get_established ch)) (\<lambda>e.
     and_do (watch (txid_in m (es_buffer_transaction e)) (ch_id ch) BufferTx) (\<lambda>_.
     and_do (upsert_channel m (SignedChannel ch) None) (\<lambda>_.
     and_do (persist_monitor m) (\<lambda>_.
     and_do (close_renewed m closed_contract) (\<lambda>_. lift_res (Ok answer)))))))))))"

definition on_renew_revoke :: "('s, 'x) channel_manager_scheme \<Rightarrow> renew_revoke \<Rightarrow> pubkey \<Rightarrow> (unit, 's) node_action" where
  "on_renew_revoke m msg peer_id =
     and_do (signed_with m (rnr_channel_id msg) peer_id) (\<lambda>ch.
     and_do (run_update ch (renew_channel_on_revoke (mg_api m) (cm_deps m) msg)) (\<lambda>(_, ch).
       upsert_channel m (SignedChannel ch) None))"

section \<open>Closing a channel together\<close>

definition manager_offer_collaborative_close ::
  "('s, 'x) channel_manager_scheme \<Rightarrow> bytes \<Rightarrow> nat \<Rightarrow> out_point list \<Rightarrow> (collaborative_close_offer, 's) node_action" where
  "manager_offer_collaborative_close m channel_id counter_payout additional_inputs =
     and_do (signed_of m channel_id) (\<lambda>ch.
     and_do (run_timed m ch (offer_collaborative_close (mg_api m) counter_payout additional_inputs)) (\<lambda>((msg, close_tx), ch).
     and_do (watch (txid_in m close_tx) channel_id CollaborativeClose) (\<lambda>_.
     and_do (upsert_channel m (SignedChannel ch) None) (\<lambda>_.
     and_do (persist_monitor m) (\<lambda>_. lift_res (Ok msg))))))"

definition manager_on_collaborative_close_offer ::
  "('s, 'x) channel_manager_scheme \<Rightarrow> collaborative_close_offer \<Rightarrow> pubkey \<Rightarrow> (unit, 's) node_action" where
  "manager_on_collaborative_close_offer m msg peer_id =
     and_do (signed_with m (cco_channel_id msg) peer_id) (\<lambda>ch.
     and_do (run_timed m ch (on_collaborative_close_offer (mg_api m) msg PEER_TIMEOUT)) (\<lambda>(_, ch).
       upsert_channel m (SignedChannel ch) None))"

text \<open>The contract of a channel that is closed together, when there was one.\<close>

definition closed_together ::
  "('s, 'x) channel_manager_scheme \<Rightarrow> signed_channel \<Rightarrow> bool \<Rightarrow> (closed_contract option, 's) node_action" where
  "closed_together m ch is_own_payout =
     (case ch_roll_back_state ch of
        Some (Established e) \<Rightarrow>
          and_do (lift_res (in_state get_close_offered ch)) (\<lambda>x.
          and_do (get_collaboratively_closed_contract m (es_signed_contract_id e) (co_counter_payout x) is_own_payout) (\<lambda>closed.
            lift_res (Ok (Some closed))))
      | _ \<Rightarrow> lift_res (Ok None))"

definition accept_collaborative_close :: "('s, 'x) channel_manager_scheme \<Rightarrow> bytes \<Rightarrow> (unit, 's) node_action" where
  "accept_collaborative_close m channel_id =
     and_do (signed_of m channel_id) (\<lambda>ch.
     and_do (closed_together m ch True) (\<lambda>closed_contract.
     and_do (lift_res (accept_collaborative_close_offer (mg_api m) (cm_deps m) ch)) (\<lambda>(close_tx, closed_channel).
     and_do (send_transaction m close_tx) (\<lambda>_.
     and_do (upsert_channel m closed_channel None) (\<lambda>_. close_renewed m (map_option Closed closed_contract))))))"

section \<open>Closing a channel alone\<close>

definition manager_initiate_unilateral_close ::
  "('s, 'x) channel_manager_scheme \<Rightarrow> signed_channel \<Rightarrow> bool \<Rightarrow> adaptor_sig \<Rightarrow> transaction \<Rightarrow> (unit, 's) node_action" where
  "manager_initiate_unilateral_close m ch is_initiator buffer_adaptor_signature buffer_tx =
     and_do (lift_res (ok_or InvalidState (channel_keys_id ch))) (\<lambda>keys_id.
     and_do (run_update ch (initiate_unilateral_close_established_channel (mg_api m) (cm_deps m) buffer_adaptor_signature keys_id
         buffer_tx is_initiator)) (\<lambda>(_, ch).
     and_do (lift_res (in_state get_closing ch)) (\<lambda>x.
     and_do (send_transaction m (cg_buffer_transaction x)) (\<lambda>_.
     and_do (change_monitor (remove_tx (txid_in m (cg_buffer_transaction x)))) (\<lambda>_.
     and_do (upsert_channel m (SignedChannel ch) None) (\<lambda>_. persist_monitor m))))))"

definition manager_close_settled_channel ::
  "('s, 'x) channel_manager_scheme \<Rightarrow> signed_channel \<Rightarrow> bool \<Rightarrow> (unit, 's) node_action" where
  "manager_close_settled_channel m ch is_initiator =
     and_do (lift_res (close_settled_channel (mg_api m) (cm_deps m) ch is_initiator)) (\<lambda>(settle_tx, closed_channel).
     and_do (on_result (get_transaction_confirmations m (txid_in m settle_tx)) (\<lambda>status. lift_res (Ok (confirmations status)))
         (\<lambda>_. lift_res (Ok 0))) (\<lambda>confirmed.
     and_do (if confirmed = 0 then send_transaction m settle_tx else lift_res (Ok ())) (\<lambda>_.
     and_do (change_monitor (cleanup_channel (ch_id ch))) (\<lambda>_. upsert_channel m closed_channel None))))"

text \<open>A channel in the middle of an exchange is closed in the state it was in before.\<close>

function force_close_channel_internal ::
  "('s, 'x) channel_manager_scheme \<Rightarrow> signed_channel \<Rightarrow> bool \<Rightarrow> (unit, 's) node_action" where
  "force_close_channel_internal m ch is_initiator =
     (case ch_state ch of
        Established e \<Rightarrow>
          manager_initiate_unilateral_close m ch is_initiator (es_counter_buffer_adaptor_signature e) (es_buffer_transaction e)
      | RenewFinalized x \<Rightarrow>
          manager_initiate_unilateral_close m ch is_initiator (rf_offer_buffer_adaptor_signature x) (rf_buffer_transaction x)
      | Settled _ \<Rightarrow> manager_close_settled_channel m ch is_initiator
      | Closing _ \<Rightarrow> lift_res (Err InvalidState)
      | _ \<Rightarrow>
          (case ch_roll_back_state ch of
             None \<Rightarrow> lift_res Panic
           | Some st \<Rightarrow> force_close_channel_internal m (ch\<lparr>ch_state := st, ch_roll_back_state := None\<rparr>) is_initiator))"
  by pat_completeness auto
termination
  by (relation "measure (\<lambda>(m, ch, b). case ch_roll_back_state ch of None \<Rightarrow> 0 | Some _ \<Rightarrow> 1)") auto

declare force_close_channel_internal.simps [simp del]

definition force_close_channel :: "('s, 'x) channel_manager_scheme \<Rightarrow> bytes \<Rightarrow> (unit, 's) node_action" where
  "force_close_channel m channel_id = and_do (signed_of m channel_id) (\<lambda>ch. force_close_channel_internal m ch True)"

definition try_finalize_closing_established_channel ::
  "('s, 'x) channel_manager_scheme \<Rightarrow> signed_channel \<Rightarrow> (unit, 's) node_action" where
  "try_finalize_closing_established_channel m ch =
     and_do (lift_res (in_state get_closing ch)) (\<lambda>x.
     and_do (get_transaction_confirmations m (txid_in m (cg_buffer_transaction x))) (\<lambda>status.
       if confirmations status < CET_NSEQUENCE then lift_res (Ok ())
       else
         and_do (get_contract_in_state m (cg_contract_id x) as_confirmed None) (\<lambda>confirmed_contract.
         let a = sc_accepted_contract confirmed_contract in
         and_do (get_closable_contract_info m (zip (oc_contract_info (ac_offered_contract a)) (ac_adaptor_infos a))) (\<lambda>closable.
         and_do (lift_res (ok_or InvalidState closable)) (\<lambda>(contract_info, adaptor_info, attestations).
         and_do (lift_res (finalize_unilateral_close_settled_channel (mg_api m) (cm_deps m) (mg_orders m) ch confirmed_contract
             contract_info attestations adaptor_info (cg_is_initiator x))) (\<lambda>(signed_cet, closed_channel).
         and_do (close_contract m confirmed_contract signed_cet (map snd attestations)) (\<lambda>closed_contract.
         and_do (change_monitor (cleanup_channel (ch_id ch))) (\<lambda>_.
           upsert_channel m closed_channel (Some closed_contract)))))))))"

section \<open>Rejections\<close>

text \<open>The inputs of an offer are given back to the wallet.\<close>

definition offer_outpoints :: "('m) message_api_scheme \<Rightarrow> offered_contract \<Rightarrow> (out_point list, 'e) res" where
  "offer_outpoints api oc =
     traverse (\<lambda>f. and_then (unwrap (consensus_decode api (fi_prev_tx f))) (\<lambda>tx.
       Ok \<lparr>op_txid = compute_txid api tx, op_vout = fi_prev_tx_vout f\<rparr>)) (oc_funding_inputs oc)"

definition manager_on_reject :: "('s, 'x) channel_manager_scheme \<Rightarrow> reject \<Rightarrow> pubkey \<Rightarrow> (unit, 's) node_action" where
  "manager_on_reject m msg counter_party =
     and_do (get_channel m (rej_channel_id msg)) (\<lambda>channel.
       case channel of
         None \<Rightarrow> lift_res (Ok ())
       | Some channel \<Rightarrow>
           and_do (lift_res (ensure (channel_counter_party channel = counter_party) InvalidParameters)) (\<lambda>_.
             case channel of
               OfferedChannel offered_channel \<Rightarrow>
                 and_do (get_contract_in_state m (ofc_offered_contract_id offered_channel) as_offered None) (\<lambda>offered_contract.
                 and_do (lift_res (offer_outpoints (mg_api m) offered_contract)) (\<lambda>utxos.
                 and_do (request (\<lambda>n. unreserve_utxos m n utxos)) (\<lambda>_.
                   upsert_channel m (CancelledChannel offered_channel) (Some (Rejected offered_contract)))))
             | SignedChannel ch \<Rightarrow>
                 and_do (case get_renew_offered (ch_state ch) of
                     Some x \<Rightarrow>
                       and_do (get_contract_in_state m (ro_offered_contract_id x) as_offered None) (\<lambda>oc. lift_res (Ok (Some (Rejected oc))))
                   | None \<Rightarrow> lift_res (Ok None)) (\<lambda>contract.
                 and_do (run_update ch on_reject) (\<lambda>(_, ch). upsert_channel m (SignedChannel ch) contract))
             | _ \<Rightarrow> lift_res (Err InvalidState)))"

section \<open>The messages\<close>

text \<open>\<open>on_dlc_message\<close>; the answer is the message to send, if there is one.\<close>

definition answer_with :: "('a, 's) node_action \<Rightarrow> ('a \<Rightarrow> message option) \<Rightarrow> (message option, 's) node_action" where
  "answer_with act f = and_do act (\<lambda>x. lift_res (Ok (f x)))"

fun manager_on_dlc_message :: "('s, 'x) channel_manager_scheme \<Rightarrow> message \<Rightarrow> pubkey \<Rightarrow> (message option, 's) node_action" where
  "manager_on_dlc_message m (OfferM x) p = answer_with (on_offer_message m x p) (\<lambda>_. None)"
| "manager_on_dlc_message m (AcceptM x) p = answer_with (on_accept_message m x p) (\<lambda>s. Some (SignM s))"
| "manager_on_dlc_message m (SignM x) p = answer_with (on_sign_message m x p) (\<lambda>_. None)"
| "manager_on_dlc_message m (CloseM x) p = answer_with (on_close_message m x p) (\<lambda>_. None)"
| "manager_on_dlc_message m (OfferChannelM x) p = answer_with (on_offer_channel m x p) (\<lambda>_. None)"
| "manager_on_dlc_message m (AcceptChannelM x) p = answer_with (on_accept_channel m x p) (\<lambda>s. Some (SignChannelM s))"
| "manager_on_dlc_message m (SignChannelM x) p = answer_with (on_sign_channel m x p) (\<lambda>_. None)"
| "manager_on_dlc_message m (SettleOfferM x) p = answer_with (manager_on_settle_offer m x p) (map_option RejectM)"
| "manager_on_dlc_message m (SettleAcceptM x) p = answer_with (on_settle_accept m x p) (\<lambda>s. Some (SettleConfirmM s))"
| "manager_on_dlc_message m (SettleConfirmM x) p = answer_with (on_settle_confirm m x p) (\<lambda>s. Some (SettleFinalizeM s))"
| "manager_on_dlc_message m (SettleFinalizeM x) p = answer_with (on_settle_finalize m x p) (\<lambda>_. None)"
| "manager_on_dlc_message m (RenewOfferM x) p = answer_with (manager_on_renew_offer m x p) (map_option RejectM)"
| "manager_on_dlc_message m (RenewAcceptM x) p = answer_with (on_renew_accept m x p) (\<lambda>s. Some (RenewConfirmM s))"
| "manager_on_dlc_message m (RenewConfirmM x) p = answer_with (on_renew_confirm m x p) (\<lambda>s. Some (RenewFinalizeM s))"
| "manager_on_dlc_message m (RenewFinalizeM x) p = answer_with (on_renew_finalize m x p) (\<lambda>s. Some (RenewRevokeM s))"
| "manager_on_dlc_message m (RenewRevokeM x) p = answer_with (on_renew_revoke m x p) (\<lambda>_. None)"
| "manager_on_dlc_message m (CollaborativeCloseOfferM x) p = answer_with (manager_on_collaborative_close_offer m x p) (\<lambda>_. None)"
| "manager_on_dlc_message m (RejectM x) p = answer_with (manager_on_reject m x p) (\<lambda>_. None)"

end
