(* ===== verification/Channel_Checks.thy ===== *)
theory Channel_Checks
  imports Channel_Manager
begin

text \<open>
  \<open>ddk-manager/src/manager.rs\<close>, the periodic checks of the channels: the blocks given to the chain monitor, the transactions it has
  seen, the channels whose peer has not answered in time, and the channels that are being closed.
\<close>

section \<open>Blocks\<close>

fun process_heights :: "('s, 'x) channel_manager_scheme \<Rightarrow> nat list \<Rightarrow> (unit, 's) node_action" where
  "process_heights m [] = lift_res (Ok ())"
| "process_heights m (height # heights) =
     and_do (request (\<lambda>n. block_at_height m n height)) (\<lambda>txdata.
     and_do (monitor_do (\<lambda>mon. case process_block (btc (mg_api m)) txdata height mon of
         Ok mon' \<Rightarrow> (Ok (), mon') | Err e \<Rightarrow> (Err e, mon) | Panic \<Rightarrow> (Panic, mon))) (\<lambda>_.
       process_heights m heights))"

definition periodic_chain_monitor :: "('s, 'x) channel_manager_scheme \<Rightarrow> (unit, 's) node_action" where
  "periodic_chain_monitor m =
     and_do (request (\<lambda>n. blockchain_height m n)) (\<lambda>cur_height.
     and_do (read_store (\<lambda>n. Ok (last_height (nd_monitor n)))) (\<lambda>last.
     and_do (lift_res (ensure (last \<le> cur_height) InvalidState)) (\<lambda>_.
       process_heights m [last + 1..<cur_height + 1])))"

section \<open>Watched transactions\<close>

text \<open>The secrets of the two parties for a state that the peer has revoked, and the transaction that punishes its publication.\<close>

definition signature_of_revoked ::
  "('m) crypto_api_scheme \<Rightarrow> signed_channel \<Rightarrow> transaction \<Rightarrow> (ecdsa_sig, manager_error) res" where
  "signature_of_revoked api ch tx =
     and_then (index (tx_input tx) 0) (\<lambda>inp.
     and_then (index (tx_witness inp)
         (if bytes_le (fund_pubkey (ch_counter_params ch)) (fund_pubkey (ch_own_params ch)) then 2 else 1)) (\<lambda>w.
     and_then (usub (length w) 1) (\<lambda>n. ok_or SecpError (sig_from_der api (take n w)))))"

definition punish_transaction ::
  "('m) message_api_scheme \<Rightarrow> channel_deps \<Rightarrow> signed_channel \<Rightarrow> transaction \<Rightarrow> nat \<Rightarrow> adaptor_sig \<Rightarrow> bool \<Rightarrow> revoked_tx_type
    \<Rightarrow> nat \<Rightarrow> (script, manager_error) res \<Rightarrow> (transaction, manager_error) res" where
  "punish_transaction api deps ch tx update_idx own_adaptor_signature is_offer revoked_tx_type sat_per_1000_weight address =
     and_then (unwrap (get_secret deps (ch_counter_secrets ch) update_idx)) (\<lambda>counter_per_update_secret.
     and_then (get_secret_key_for_pubkey deps (ch_own_per_update_seed ch)) (\<lambda>per_update_seed_sk.
     and_then (unwrap (commitment_secret deps per_update_seed_sk update_idx)) (\<lambda>per_update_secret.
     let per_update_point = pk_of_sk api per_update_secret in
     and_then (get_revokable_params api (ch_own_points ch) (revocation_basepoint (ch_counter_points ch)) per_update_point)
       (\<lambda>own_revocation_params.
     let counter_per_update_point = pk_of_sk api counter_per_update_secret in
     and_then (get_secret_key_for_pubkey deps (own_basepoint (ch_own_points ch))) (\<lambda>base_own_sk.
     let own_sk = derive_private_key deps per_update_point base_own_sk in
     and_then (get_revokable_params api (ch_counter_points ch) (revocation_basepoint (ch_own_points ch)) counter_per_update_point)
       (\<lambda>counter_revocation_params.
     and_then (signature_of_revoked api ch tx) (\<lambda>own_sig.
     and_then (ok_or SecpError (adaptor_recover deps own_adaptor_signature own_sig (publish_pk counter_revocation_params))) (\<lambda>counter_sk.
     and_then (get_secret_key_for_pubkey deps (revocation_basepoint (ch_own_points ch))) (\<lambda>own_revocation_base_secret.
     let counter_revocation_sk = derive_private_revocation_key deps counter_per_update_secret own_revocation_base_secret;
         (offer_params, accept_params) = (if is_offer then (own_revocation_params, counter_revocation_params)
            else (counter_revocation_params, own_revocation_params));
         fee_rate_per_vb = sat_per_1000_weight div 250 in
     and_then address (\<lambda>dest.
       map_err DlcError (case revoked_tx_type of
         RevokedBuffer \<Rightarrow> create_and_sign_punish_buffer_transaction (channel_of api deps) offer_params accept_params own_sk counter_sk
           counter_revocation_sk tx dest 0 fee_rate_per_vb
       | RevokedSettle \<Rightarrow> create_and_sign_punish_settle_transaction (channel_of api deps) offer_params accept_params own_sk counter_sk
           counter_revocation_sk tx dest CET_NSEQUENCE 0 fee_rate_per_vb is_offer)))))))))))"

text \<open>The channel is closed and no longer watched.\<close>

definition close_watched ::
  "('s, 'x) channel_manager_scheme \<Rightarrow> signed_channel \<Rightarrow> channel \<Rightarrow> contract option \<Rightarrow> (unit, 's) node_action" where
  "close_watched m ch closed_channel c =
     and_do (change_monitor (cleanup_channel (ch_id ch))) (\<lambda>_.
     and_do (upsert_channel m closed_channel c) (\<lambda>_. persist_monitor m))"

definition saw_buffer :: "('s, 'x) channel_manager_scheme \<Rightarrow> transaction \<Rightarrow> signed_channel \<Rightarrow> (unit, 's) node_action" where
  "saw_buffer m tx ch =
     and_do (lift_res (unwrap (channel_contract_id ch))) (\<lambda>contract_id.
     and_do (lift_res (ok_or InvalidState (channel_keys_id ch))) (\<lambda>keys_id.
       upsert_channel m (SignedChannel (enter_state (Closing \<lparr>cg_buffer_transaction = tx, cg_contract_id = contract_id,
         cg_is_initiator = False, cg_keys_id = keys_id\<rparr>) ch)) None))"

definition saw_revoked ::
  "('s, 'x) channel_manager_scheme \<Rightarrow> transaction \<Rightarrow> signed_channel \<Rightarrow> nat \<Rightarrow> adaptor_sig \<Rightarrow> bool \<Rightarrow> revoked_tx_type \<Rightarrow> (unit, 's) node_action" where
  "saw_revoked m tx ch update_idx own_adaptor_signature is_offer revoked_tx_type =
     and_do (request (\<lambda>n. punish_transaction (mg_api m) (cm_deps m) ch tx update_idx own_adaptor_signature is_offer revoked_tx_type
         (est_sat_per_1000_weight m n) (wallet_address m n))) (\<lambda>signed_tx.
     and_do (send_transaction m signed_tx) (\<lambda>_.
       close_watched m ch (ClosedPunishedChannel \<lparr>cpc_counter_party = ch_counter_party ch, cpc_temporary_channel_id = ch_temporary_id ch,
         cpc_channel_id = ch_id ch, cpc_punish_txid = txid_in m signed_tx\<rparr>) None))"

definition saw_collaborative_close :: "('s, 'x) channel_manager_scheme \<Rightarrow> signed_channel \<Rightarrow> (unit, 's) node_action" where
  "saw_collaborative_close m ch =
     and_do (closed_together m ch False) (\<lambda>closed_contract.
     and_do (close_renewed m (map_option Closed closed_contract)) (\<lambda>_.
       close_watched m ch (CollaborativelyClosedChannel (closed_of ch)) None))"

definition preclosed_by_cet ::
  "('s, 'x) channel_manager_scheme \<Rightarrow> transaction \<Rightarrow> bytes option \<Rightarrow> (contract option, 's) node_action" where
  "preclosed_by_cet m tx contract_id =
     (case contract_id of
        None \<Rightarrow> lift_res (Ok None)
      | Some i \<Rightarrow>
          and_do (read_store (st_get_contract (mg_store m) i)) (\<lambda>c.
            lift_res (Ok (case c of Some (Confirmed s) \<Rightarrow> Some (preclosed_of s None tx) | _ \<Rightarrow> None))))"

definition saw_cet :: "('s, 'x) channel_manager_scheme \<Rightarrow> transaction \<Rightarrow> signed_channel \<Rightarrow> (unit, 's) node_action" where
  "saw_cet m tx ch =
     (let closed_channel = (case get_closing (ch_state ch) of
            Some x \<Rightarrow> if cg_is_initiator x then ClosedChannel (closed_of ch) else CounterClosedChannel (closed_of ch)
          | None \<Rightarrow> ClosedChannel (closed_of ch)) in
      and_do (change_monitor (cleanup_channel (ch_id ch))) (\<lambda>_.
      and_do (preclosed_by_cet m tx (channel_contract_id ch)) (\<lambda>c.
      and_do (upsert_channel m closed_channel c) (\<lambda>_. persist_monitor m))))"

text \<open>A transaction of a channel that is not found is skipped.\<close>

definition process_watched_tx :: "('s, 'x) channel_manager_scheme \<Rightarrow> transaction \<times> channel_info \<Rightarrow> (unit, 's) node_action" where
  "process_watched_tx m = (\<lambda>(tx, ci).
     on_result (signed_of m (ch_channel_id ci))
       (\<lambda>ch. case ch_tx_type ci of
          BufferTx \<Rightarrow> saw_buffer m tx ch
        | Revoked update_idx own_adaptor_signature is_offer revoked_tx_type \<Rightarrow>
            saw_revoked m tx ch update_idx own_adaptor_signature is_offer revoked_tx_type
        | CollaborativeClose \<Rightarrow> saw_collaborative_close m ch
        | SettleTx \<Rightarrow> close_watched m ch (CounterClosedChannel (closed_of ch)) None
        | Cet \<Rightarrow> saw_cet m tx ch)
       (\<lambda>_. lift_res (Ok ())))"

definition process_watched_txs :: "('s, 'x) channel_manager_scheme \<Rightarrow> (transaction \<times> channel_info) list \<Rightarrow> (unit, 's) node_action" where
  "process_watched_txs m watched_txs = for_each (process_watched_tx m) watched_txs"

definition check_for_watched_tx :: "('s, 'x) channel_manager_scheme \<Rightarrow> (unit, 's) node_action" where
  "check_for_watched_tx m =
     and_do (ask (\<lambda>n. (watched_tx_order m n, watched_txo_order m n))) (\<lambda>(tx_order, txo_order).
     and_do (read_store (\<lambda>n. Ok (confirmed_txs tx_order txo_order (nd_monitor n)))) (\<lambda>confirmed.
     and_do (process_watched_txs m confirmed) (\<lambda>_. persist_monitor m)))"

section \<open>Timeouts\<close>

fun state_timeout :: "signed_channel_state_type \<Rightarrow> signed_channel_state \<Rightarrow> nat option" where
  "state_timeout RenewOfferedType (RenewOffered x) = Some (ro_timeout x)"
| "state_timeout RenewAcceptedType (RenewAccepted x) = Some (ra_timeout x)"
| "state_timeout RenewConfirmedType (RenewConfirmed x) = Some (rc_timeout x)"
| "state_timeout SettledOfferedType (SettledOffered x) = Some (so_timeout x)"
| "state_timeout SettledAcceptedType (SettledAccepted x) = Some (sa_timeout x)"
| "state_timeout SettledConfirmedType (SettledConfirmed x) = Some (sf_timeout x)"
| "state_timeout _ _ = None"

definition check_timed_out_channel ::
  "('s, 'x) channel_manager_scheme \<Rightarrow> signed_channel_state_type \<Rightarrow> signed_channel \<Rightarrow> (unit, 's) node_action" where
  "check_timed_out_channel m t ch =
     (case state_timeout t (ch_state ch) of
        None \<Rightarrow> lift_res (Ok ())
      | Some timeout \<Rightarrow>
          and_do (ask (\<lambda>n. timeout < unix_time_now m n)) (\<lambda>is_timed_out.
            if is_timed_out then logged (force_close_channel_internal m ch True) else lift_res (Ok ())))"

definition check_timed_out_in_state ::
  "('s, 'x) channel_manager_scheme \<Rightarrow> signed_channel_state_type \<Rightarrow> (unit, 's) node_action" where
  "check_timed_out_in_state m t =
     and_do (read_store (\<lambda>n. cst_get_signed_channels (cm_store m) (Some t) (nd_store n))) (\<lambda>channels.
       for_each (check_timed_out_channel m t) channels)"

definition check_for_timed_out_channels :: "('s, 'x) channel_manager_scheme \<Rightarrow> (unit, 's) node_action" where
  "check_for_timed_out_channels m =
     for_each (check_timed_out_in_state m)
       [RenewOfferedType, RenewAcceptedType, RenewConfirmedType, SettledOfferedType, SettledAcceptedType, SettledConfirmedType]"

section \<open>The checks\<close>

definition channel_checks :: "('s, 'x) channel_manager_scheme \<Rightarrow> (unit, 's) node_action" where
  "channel_checks m =
     and_do (read_store (\<lambda>n. cst_get_signed_channels (cm_store m) (Some ClosingType) (nd_store n))) (\<lambda>channels.
     and_do (for_each (\<lambda>ch. logged (try_finalize_closing_established_channel m ch)) channels) (\<lambda>_.
     and_do (logged (check_for_timed_out_channels m)) (\<lambda>_. check_for_watched_tx m)))"

definition periodic_check :: "('s, 'x) channel_manager_scheme \<Rightarrow> bool \<Rightarrow> (unit, 's) node_action" where
  "periodic_check m check_channels =
     and_do (check_contracts m) (\<lambda>_. if check_channels then channel_checks m else lift_res (Ok ()))"

end
