(* ===== verification/Channel_Punishment.thy ===== *)
theory Channel_Punishment
  imports Channel_Checks Channel_Settlement
begin

text \<open>
  Punishing the publication of a revoked state: the keys that \<open>process_watched_txs\<close> recovers are those that spend the revoked output.
\<close>

section \<open>Keys and secrets\<close>

text \<open>
  What the code relies on: the private keys derived by the lightning crate belong to the public ones, and the secret of an adaptor
  signature is recovered from the signature that was made with it.
\<close>

definition derivation_laws :: "('m) message_api_scheme \<Rightarrow> channel_deps \<Rightarrow> bool" where
  "derivation_laws api deps \<longleftrightarrow>
     (\<forall>s b q. derive_public_key api (pk_of_sk api s) (pk_of_sk api b) = (Ok q :: (_, manager_error) res) \<longrightarrow>
        q = pk_of_sk api (derive_private_key deps (pk_of_sk api s) b)) \<and>
     (\<forall>s b q. derive_public_revocation_key api (pk_of_sk api s) (pk_of_sk api b) = (Ok q :: (_, manager_error) res) \<longrightarrow>
        q = pk_of_sk api (derive_private_revocation_key deps s b)) \<and>
     (\<forall>a sk sig. adaptor_decrypt api a sk = Some sig \<longrightarrow> adaptor_recover deps a sig (pk_of_sk api sk) = Some sk)"

text \<open>The party has the secrets of its base points, and those of both parties for the revoked state.\<close>

definition holds_secrets :: "('m) message_api_scheme \<Rightarrow> channel_deps \<Rightarrow> signed_channel \<Rightarrow> nat \<Rightarrow> seckey \<Rightarrow> seckey \<Rightarrow> bool" where
  "holds_secrets api deps ch idx own counter \<longleftrightarrow>
     (\<exists>b. get_secret_key_for_pubkey deps (own_basepoint (ch_own_points ch)) = Ok b \<and> pk_of_sk api b = own_basepoint (ch_own_points ch)) \<and>
     (\<exists>b. get_secret_key_for_pubkey deps (revocation_basepoint (ch_own_points ch)) = Ok b \<and>
        pk_of_sk api b = revocation_basepoint (ch_own_points ch)) \<and>
     (\<exists>seed. get_secret_key_for_pubkey deps (ch_own_per_update_seed ch) = Ok seed \<and> commitment_secret deps seed idx = Some own) \<and>
     get_secret deps (ch_counter_secrets ch) idx = Some counter"

lemma own_pk_of_params:
  assumes "derivation_laws api deps" "pk_of_sk api b = own_basepoint pts"
    and "get_revokable_params api pts rb (pk_of_sk api s) = (Ok rp :: (_, manager_error) res)"
  shows "own_pk rp = pk_of_sk api (derive_private_key deps (pk_of_sk api s) b)"
  using assms unfolding derivation_laws_def by (auto simp: get_revokable_params_def and_then_eq_Ok)

lemma revoke_pk_of_params:
  assumes "derivation_laws api deps" "pk_of_sk api b = rb"
    and "get_revokable_params api pts rb (pk_of_sk api s) = (Ok rp :: (_, manager_error) res)"
  shows "revoke_pk rp = pk_of_sk api (derive_private_revocation_key deps s b)"
  using assms unfolding derivation_laws_def by (auto simp: get_revokable_params_def and_then_eq_Ok)

lemma channel_of_crypto: "crypto_ok n api \<Longrightarrow> crypto_ok n (channel_of api deps)"
  by (simp add: crypto_ok_def channel_of_def crypto_api.defs channel_api.defs bitcoin_api.defs)

section \<open>The published transaction\<close>

text \<open>
  The peer completes a transaction with its own signature and the one it has recovered from the adaptor signature of this party.
\<close>

definition peer_completes :: "('m) crypto_api_scheme \<Rightarrow> signed_channel \<Rightarrow> ecdsa_sig \<Rightarrow> transaction \<Rightarrow> transaction \<Rightarrow> bool" where
  "peer_completes api ch sig tx0 tx \<longleftrightarrow>
     (\<exists>peer_sk scr v. fund_pubkey (ch_counter_params ch) = pk_of_sk api peer_sk \<and>
        sign_multi_sig_input api tx0 sig (fund_pubkey (ch_own_params ch)) peer_sk scr v 0 = Ok tx)"

lemma bytes_le_linear: "bytes_le a b \<or> bytes_le b a" "bytes_le a b \<Longrightarrow> bytes_le b a \<Longrightarrow> a = b"
  by (induction a b rule: bytes_le.induct) (auto elim: bytes_le.elims)

lemma peer_completes_outputs: "peer_completes api ch sig tx0 tx \<Longrightarrow> tx_output tx = tx_output tx0"
  by (auto simp: peer_completes_def sign_multi_sig_input_def set_witness_def res_simps Let_def)

text \<open>The signature of this party is where the code looks for it: the keys are in the order of the script.\<close>

lemma signature_found:
  assumes "peer_completes api ch sig tx0 tx" "fund_pubkey (ch_own_params ch) \<noteq> fund_pubkey (ch_counter_params ch)"
    and "\<forall>s. sig_from_der api (serialize_der api s) = Some s"
  shows "signature_of_revoked api ch tx = Ok sig"
  using assms bytes_le_linear [of "fund_pubkey (ch_own_params ch)" "fund_pubkey (ch_counter_params ch)"]
  by (auto simp: peer_completes_def sign_multi_sig_input_def set_witness_def signature_of_revoked_def res_simps Let_def index_def usub_def
      finalize_sig_def split: if_splits)

text \<open>
  What the miniscript crate promises: a valid descriptor has a script, and \<open>satisfy\<close> finds a witness when the signatures that are
  given fulfil the condition without waiting; only the witness of the input changes.
\<close>

definition miniscript_laws :: "channel_api \<Rightarrow> bool" where
  "miniscript_laws ca \<longleftrightarrow>
     (\<forall>d. ms_valid ca d \<longrightarrow> ms_script_code ca d \<noteq> None \<and>
       (\<forall>i sigs. desc_spendable d (fst ` set sigs) 0 \<longrightarrow> (\<exists>w. ms_satisfy ca d i sigs = Some (i\<lparr>tx_witness := w\<rparr>))))"

text \<open>
  The transaction takes one output of another transaction, which has the script of the descriptor, and pays its value less the fee.
  Its witness is made from valid signatures whose keys fulfil the descriptor without waiting.
\<close>

definition takes_output :: "channel_api \<Rightarrow> transaction \<Rightarrow> transaction \<Rightarrow> nat \<Rightarrow> descriptor \<Rightarrow> script \<Rightarrow> nat \<Rightarrow> bool" where
  "takes_output ca t tx vout d dest fee \<longleftrightarrow>
     vout < length (tx_output tx) \<and> script_pubkey (tx_output tx ! vout) = ms_script_pubkey ca d \<and>
     map previous_output (tx_input t) = [\<lparr>op_txid = compute_txid ca tx, op_vout = vout\<rparr>] \<and>
     fee \<le> out_value (tx_output tx ! vout) \<and>
     tx_output t = [\<lparr>out_value = out_value (tx_output tx ! vout) - fee, script_pubkey = dest\<rparr>] \<and>
     (\<exists>code msg sigs inp. ms_script_code ca d = Some code \<and>
        sighash_all ca t 0 code (out_value (tx_output tx ! vout)) = Some msg \<and>
        (\<forall>(pk, s)\<in>set sigs. ecdsa_verify ca msg s pk) \<and> desc_spendable d (fst ` set sigs) 0 \<and>
        ms_satisfy ca d inp sigs = Some (hd (tx_input t)))"

lemma signed_and_satisfied:
  assumes ok: "crypto_ok n ca" and laws: "miniscript_laws ca" "ms_valid ca d" and sp: "desc_spendable d (pk_of_sk ca ` set sks) 0"
    and out: "vout < length (tx_output tx)" "script_pubkey (tx_output tx ! vout) = ms_script_pubkey ca d"
    and fee: "fee \<le> out_value (tx_output tx ! vout)"
    and t: "t = \<lparr>tx_version = ver, tx_lock_time = lt, tx_input = [inp],
        tx_output = [\<lparr>out_value = out_value (tx_output tx ! vout) - fee, script_pubkey = dest\<rparr>]\<rparr>"
    and inp: "previous_output inp = \<lparr>op_txid = compute_txid ca tx, op_vout = vout\<rparr>"
  shows "\<exists>t'. sign_and_satisfy ca d t (out_value (tx_output tx ! vout)) sks = Ok t' \<and> takes_output ca t' tx vout d dest fee"
proof -
  let ?v = "out_value (tx_output tx ! vout)"
  obtain code where code: "ms_script_code ca d = Some code" using laws by (auto simp: miniscript_laws_def)
  obtain msg where msg: "sighash_all ca t 0 code ?v = Some msg"
    using crypto_okD(7) [OF ok, of t 0 code ?v] by (auto simp: t)
  let ?sigs = "map (\<lambda>sk. (pk_of_sk ca sk, ecdsa_sign ca msg sk)) sks"
  have sp': "desc_spendable d (fst ` set ?sigs) 0" using sp by (simp add: image_image)
  then obtain w where w: "ms_satisfy ca d inp ?sigs = Some (inp\<lparr>tx_witness := w\<rparr>)"
    using laws unfolding miniscript_laws_def by blast
  let ?t = "t\<lparr>tx_input := [inp\<lparr>tx_witness := w\<rparr>]\<rparr>"
  have "traverse (\<lambda>sk. and_then (ok_or Miniscript (ms_script_code ca d)) (\<lambda>code.
      and_then (get_raw_sig_for_tx_input ca t 0 code ?v sk) (\<lambda>sig. Ok (pk_of_sk ca sk, sig)))) sks = Ok ?sigs"
    unfolding traverse_Ok_iff list_all2_map2
    by (rule list.rel_refl) (simp add: code msg get_raw_sig_for_tx_input_def get_sig_hash_msg_def)
  then have run: "sign_and_satisfy ca d t ?v sks = Ok ?t"
    by (simp add: sign_and_satisfy_def w t index_def)
  have "same_but_witness t ?t"
    unfolding same_but_witness_def by (intro exI [of _ "[w]"]) (simp add: t)
  then have "sighash_all ca ?t 0 code ?v = Some msg" using crypto_okD(8) [OF ok] msg by simp
  moreover have "\<forall>(pk, s)\<in>set ?sigs. ecdsa_verify ca msg s pk" using crypto_okD(4) [OF ok] by auto
  ultimately have "takes_output ca ?t tx vout d dest fee"
    unfolding takes_output_def using out fee inp code sp' w by (auto simp: t intro!: exI [of _ ?sigs] exI [of _ inp])
  then show ?thesis using run by blast
qed

lemma settle_descriptor_valid: "settle_descriptor ca p k csv = Ok d \<Longrightarrow> ms_valid ca d"
  by (auto simp: settle_descriptor_def Let_def split: if_splits)

lemma buffer_descriptor_valid: "buffer_descriptor ca p q = Ok d \<Longrightarrow> ms_valid ca d"
  by (auto simp: buffer_descriptor_def Let_def split: if_splits)

section \<open>The punishment\<close>

text \<open>The three keys that the code recovers, and the call that it makes with them.\<close>

lemma punishing_keys:
  assumes "derivation_laws api deps" "holds_secrets api deps ch idx own counter"
    and "get_revokable_params api (ch_own_points ch) (revocation_basepoint (ch_counter_points ch)) (pk_of_sk api own) =
      (Ok orp :: (_, manager_error) res)"
    and "get_revokable_params api (ch_counter_points ch) (revocation_basepoint (ch_own_points ch)) (pk_of_sk api counter) =
      (Ok crp :: (_, manager_error) res)"
    and "publish_pk crp = pk_of_sk api psk" "adaptor_decrypt api a psk = Some sig" "signature_of_revoked api ch tx = Ok sig"
    and "off = (if is_offer then orp else crp)" "acc = (if is_offer then crp else orp)"
  shows "\<exists>own_sk rev_sk. own_pk orp = pk_of_sk api own_sk \<and> revoke_pk crp = pk_of_sk api rev_sk \<and>
    punish_transaction api deps ch tx idx a is_offer RevokedBuffer rate (Ok dest) =
      map_err DlcError (create_and_sign_punish_buffer_transaction (channel_of api deps) off acc own_sk psk rev_sk tx dest 0
        (rate div 250)) \<and>
    punish_transaction api deps ch tx idx a is_offer RevokedSettle rate (Ok dest) =
      map_err DlcError (create_and_sign_punish_settle_transaction (channel_of api deps) off acc own_sk psk rev_sk tx dest
        CET_NSEQUENCE 0 (rate div 250) is_offer)"
proof -
  obtain b rb seed where h: "get_secret_key_for_pubkey deps (own_basepoint (ch_own_points ch)) = Ok b"
    "pk_of_sk api b = own_basepoint (ch_own_points ch)"
    "get_secret_key_for_pubkey deps (revocation_basepoint (ch_own_points ch)) = Ok rb" "pk_of_sk api rb = revocation_basepoint (ch_own_points ch)"
    "get_secret_key_for_pubkey deps (ch_own_per_update_seed ch) = Ok seed" "commitment_secret deps seed idx = Some own"
    "get_secret deps (ch_counter_secrets ch) idx = Some counter"
    using assms(2) by (auto simp: holds_secrets_def)
  let ?own = "derive_private_key deps (pk_of_sk api own) b" and ?rev = "derive_private_revocation_key deps counter rb"
  have r: "adaptor_recover deps a sig (publish_pk crp) = Some psk"
    using assms(1,5,6) by (simp add: derivation_laws_def)
  have k: "own_pk orp = pk_of_sk api ?own" "revoke_pk crp = pk_of_sk api ?rev"
    using own_pk_of_params [OF assms(1) h(2) assms(3)] revoke_pk_of_params [OF assms(1) h(4) assms(4)] by simp_all
  note keys = h(1,3,5-7) assms(3,4,7) r
  show ?thesis
    using keys k assms(8,9)
    by (intro exI [of _ ?own] exI [of _ ?rev]) (auto simp: punish_transaction_def Let_def)
qed

text \<open>Each of the two punishments succeeds with these keys.\<close>

lemma punish_buffer_takes:
  assumes ok: "crypto_ok n ca" "miniscript_laws ca" and d: "buffer_descriptor ca off acc = (Ok d :: (_, dlc_error) res)"
    and sp: "desc_spendable d (pk_of_sk ca ` {own_sk, pub_sk, rev_sk}) 0"
    and out: "tx_output tx = [\<lparr>out_value = v, script_pubkey = ms_script_pubkey ca d\<rparr>]"
    and fee: "punish_fee ca PUNISH_BUFFER_INPUT_WEIGHT dest r = Ok fee" "fee \<le> v"
  shows "\<exists>t. create_and_sign_punish_buffer_transaction ca off acc own_sk pub_sk rev_sk tx dest lt r = Ok t \<and>
    takes_output ca t tx 0 d dest fee"
  using signed_and_satisfied [OF ok buffer_descriptor_valid [OF d], of "[own_sk, pub_sk, rev_sk]" 0 tx fee, OF _ _ _ _ refl] sp out fee
  by (simp add: create_and_sign_punish_buffer_transaction_def d fee index_def usub_def)

lemma punish_settle_takes:
  assumes ok: "crypto_ok n ca" "miniscript_laws ca"
    and d: "settle_descriptor ca (if is_offer then acc else off) (own_pk (if is_offer then off else acc)) csv = (Ok d :: (_, dlc_error) res)"
    and sp: "desc_spendable d (pk_of_sk ca ` {own_sk, pub_sk, rev_sk}) 0"
    and vout: "vout = (if is_offer then 1 else 0)"
    and out: "vout < length (tx_output tx)" "script_pubkey (tx_output tx ! vout) = ms_script_pubkey ca d"
    and fee: "punish_fee ca PUNISH_SETTLE_INPUT_WEIGHT dest r = Ok fee" "fee \<le> out_value (tx_output tx ! vout)"
  shows "\<exists>t. create_and_sign_punish_settle_transaction ca off acc own_sk pub_sk rev_sk tx dest csv lt r is_offer = Ok t \<and>
    takes_output ca t tx vout d dest fee"
  using signed_and_satisfied [OF ok settle_descriptor_valid [OF d], of "[own_sk, pub_sk, rev_sk]" vout tx fee, OF _ _ _ _ refl] sp out fee d
  by (cases is_offer) (simp_all add: create_and_sign_punish_settle_transaction_def fee index_def usub_def vout Let_def)

lemma settle_counter_output:
  assumes "create_settle_transaction ca inp off acc op ap csv lt v r = Ok tx" "DUST_LIMIT \<le> op" "is_offer \<longrightarrow> DUST_LIMIT \<le> ap"
    and "vout = (if is_offer then 1 else 0)"
  shows "\<exists>d. settle_descriptor ca (if is_offer then acc else off) (own_pk (if is_offer then off else acc)) csv =
      (Ok d :: (_, dlc_error) res) \<and>
    vout < length (tx_output tx) \<and> script_pubkey (tx_output tx ! vout) = ms_script_pubkey ca d \<and>
    (if is_offer then ap else op) \<le> out_value (tx_output tx ! vout)"
proof -
  obtain od ad rem where s: "settle_descriptor ca off (own_pk acc) csv = (Ok od :: (_, dlc_error) res)"
      "settle_descriptor ca acc (own_pk off) csv = (Ok ad :: (_, dlc_error) res)"
    and o: "tx_output tx = map (\<lambda>x. x\<lparr>out_value := out_value x + rem\<rparr>)
      (discard_dust [\<lparr>out_value = op, script_pubkey = ms_script_pubkey ca od\<rparr>,
                     \<lparr>out_value = ap, script_pubkey = ms_script_pubkey ca ad\<rparr>] DUST_LIMIT)"
    using settle_Ok [OF assms(1)] by blast
  show ?thesis using s assms(2-4) by (auto simp: o discard_dust_def)
qed

text \<open>
  C10. A revoked state can be punished.  The peer publishes the buffer or the settle transaction of a state whose secret it has given away,
  completed with its own signature and the one of this party, recovered from the adaptor signature.  When the recorded role is the role
  with which the state was made, the party finds its signature in the witness, recovers from it the publish key of the peer, and makes a
  transaction that takes the output and pays the value less the fee: of the buffer transaction the whole output, of the settle transaction
  the output of the peer, without waiting, with valid signatures of keys that fulfil the condition of the very script that the output
  has.  The fee must fit in the output.  In a settle transaction the output of the peer, and the one of the offering party before it, must have
  reached the dust limit, since the output is found by its position only; and the recorded role can be wrong after a renewal, then the
  theorem says nothing.
\<close>

theorem revoked_state_punishable:
  assumes "crypto_ok n api" "derivation_laws api deps" "miniscript_laws (channel_of api deps)" "holds_secrets api deps ch idx own counter"
    and "\<forall>s. sig_from_der api (serialize_der api s) = Some s"
    and "get_revokable_params api (ch_own_points ch) (revocation_basepoint (ch_counter_points ch)) (pk_of_sk api own) =
      (Ok orp :: (_, manager_error) res)"
    and "get_revokable_params api (ch_counter_points ch) (revocation_basepoint (ch_own_points ch)) (pk_of_sk api counter) =
      (Ok crp :: (_, manager_error) res)"
    and "publish_pk crp = pk_of_sk api psk" "adaptor_decrypt api a psk = Some sig"
    and "fund_pubkey (ch_own_params ch) \<noteq> fund_pubkey (ch_counter_params ch)" "peer_completes api ch sig tx0 tx"
    and "off = (if offered then orp else crp)" "acc = (if offered then crp else orp)" "is_offer = offered"
  shows "(buffer_descriptor (channel_of api deps) off acc = (Ok d :: (_, dlc_error) res) \<longrightarrow>
      tx0 = create_buffer_transaction (channel_of api deps) inp d v lt \<longrightarrow>
      punish_fee (channel_of api deps) PUNISH_BUFFER_INPUT_WEIGHT dest (rate div 250) = Ok fee \<longrightarrow> fee \<le> v \<longrightarrow>
      (\<exists>t. punish_transaction api deps ch tx idx a is_offer RevokedBuffer rate (Ok dest) = Ok t \<and>
        takes_output (channel_of api deps) t tx 0 d dest fee)) \<and>
    (create_settle_transaction (channel_of api deps) inp off acc op ap CET_NSEQUENCE lt v r = Ok tx0 \<longrightarrow>
      DUST_LIMIT \<le> op \<longrightarrow> (offered \<longrightarrow> DUST_LIMIT \<le> ap) \<longrightarrow>
      punish_fee (channel_of api deps) PUNISH_SETTLE_INPUT_WEIGHT dest (rate div 250) = Ok fee \<longrightarrow> fee \<le> (if offered then ap else op) \<longrightarrow>
      (\<exists>t d. settle_descriptor (channel_of api deps) crp (own_pk orp) CET_NSEQUENCE = (Ok d :: (_, dlc_error) res) \<and>
        punish_transaction api deps ch tx idx a is_offer RevokedSettle rate (Ok dest) = Ok t \<and>
        takes_output (channel_of api deps) t tx (if offered then 1 else 0) d dest fee))"
proof -
  let ?ca = "channel_of api deps"
  have ok: "crypto_ok n ?ca" using assms(1) by (rule channel_of_crypto)
  note out = peer_completes_outputs [OF assms(11)]
  have s: "signature_of_revoked api ch tx = Ok sig"
    using signature_found [OF assms(11,10,5)] .
  obtain own_sk rev_sk where k: "own_pk orp = pk_of_sk api own_sk" "revoke_pk crp = pk_of_sk api rev_sk"
    and run: "punish_transaction api deps ch tx idx a is_offer RevokedBuffer rate (Ok dest) =
        map_err DlcError (create_and_sign_punish_buffer_transaction ?ca off acc own_sk psk rev_sk tx dest 0 (rate div 250))"
      "punish_transaction api deps ch tx idx a is_offer RevokedSettle rate (Ok dest) =
        map_err DlcError (create_and_sign_punish_settle_transaction ?ca off acc own_sk psk rev_sk tx dest CET_NSEQUENCE 0
          (rate div 250) is_offer)"
    using punishing_keys [OF assms(2,4,6-9) s assms(12,13) [folded assms(14)]] by blast
  have keys: "pk_of_sk ?ca ` {own_sk, psk, rev_sk} = {own_pk orp, publish_pk crp, revoke_pk crp}"
    using k assms(8) by simp
  have buffer: "\<exists>t. punish_transaction api deps ch tx idx a is_offer RevokedBuffer rate (Ok dest) = Ok t \<and> takes_output ?ca t tx 0 d dest fee"
    if d: "buffer_descriptor ?ca off acc = (Ok d :: (_, dlc_error) res)" and b: "tx0 = create_buffer_transaction ?ca inp d v lt"
      and f: "punish_fee ?ca PUNISH_BUFFER_INPUT_WEIGHT dest (rate div 250) = Ok fee" "fee \<le> v"
  proof -
    have "desc_spendable d (pk_of_sk ?ca ` {own_sk, psk, rev_sk}) 0"
      unfolding spendable_buffer [OF d] keys assms(12,13) by simp
    moreover have "tx_output tx = [\<lparr>out_value = v, script_pubkey = ms_script_pubkey ?ca d\<rparr>]"
      unfolding out b by (simp add: create_buffer_transaction_def)
    ultimately show ?thesis using punish_buffer_takes [OF ok assms(3) d _ _ f] unfolding run by fastforce
  qed
  have settle: "\<exists>t d. settle_descriptor ?ca crp (own_pk orp) CET_NSEQUENCE = (Ok d :: (_, dlc_error) res) \<and>
      punish_transaction api deps ch tx idx a is_offer RevokedSettle rate (Ok dest) = Ok t \<and>
      takes_output ?ca t tx (if offered then 1 else 0) d dest fee"
    if t: "create_settle_transaction ?ca inp off acc op ap CET_NSEQUENCE lt v r = Ok tx0"
      and l: "DUST_LIMIT \<le> op" "offered \<longrightarrow> DUST_LIMIT \<le> ap"
      and f: "punish_fee ?ca PUNISH_SETTLE_INPUT_WEIGHT dest (rate div 250) = Ok fee" "fee \<le> (if offered then ap else op)"
  proof -
    have p: "(if offered then acc else off) = crp" "(if offered then off else acc) = orp" using assms(12,13) by simp_all
    obtain d where d: "settle_descriptor ?ca crp (own_pk orp) CET_NSEQUENCE = (Ok d :: (_, dlc_error) res)"
      and o: "(if offered then 1 else 0) < length (tx_output tx)"
        "script_pubkey (tx_output tx ! (if offered then 1 else 0)) = ms_script_pubkey ?ca d"
        "(if offered then ap else op) \<le> out_value (tx_output tx ! (if offered then 1 else 0))"
      using settle_counter_output [OF t l refl] unfolding p out by blast
    have "desc_spendable d (pk_of_sk ?ca ` {own_sk, psk, rev_sk}) 0"
      unfolding spendable_settle [OF d] keys by simp
    from punish_settle_takes [OF ok assms(3), of offered acc off, unfolded p, OF d this refl o(1,2) f(1) order_trans [OF f(2) o(3)]]
    show ?thesis using d unfolding assms(14) run [unfolded assms(14)] by fastforce
  qed
  show ?thesis using buffer settle by blast
qed

text \<open>The channel of the example after an update.\<close>

definition example_updated_channel :: signed_channel where
  "example_updated_channel = (example_channel 1)\<lparr>ch_counter_secrets := [(52, 7)], ch_update_idx := 6\<rparr>"

lemma example_derivation_laws: "derivation_laws example_updater_api example_deps"
  by (auto simp: derivation_laws_def example_derive example_derive_revocation example_deps_def algebra_simps split: if_splits)

lemma example_secrets: "holds_secrets example_updater_api example_deps example_updated_channel 7 42 52"
  by (simp add: holds_secrets_def example_updated_channel_def example_channel_def Let_def example_points_def)
    (simp add: example_deps_def)

lemma example_miniscript_laws: "miniscript_laws (channel_of example_updater_api example_deps)"
  by (auto simp: miniscript_laws_def) (simp add: example_deps_def, metis tx_in.unfold_congs)

lemma example_peer_completes:
  assumes "tx_input tx0 \<noteq> []"
  shows "\<exists>tx. peer_completes example_updater_api example_updated_channel [11] tx0 tx"
proof -
  have "sighash_all example_updater_api tx0 0 [] 0 \<noteq> None"
    using crypto_okD(7) [OF example_updater_api_ok, of tx0 0 "[]" 0] assms by simp
  then obtain msg where "sighash_all example_updater_api tx0 0 [] 0 = Some msg" by blast
  then have "\<exists>tx. sign_multi_sig_input example_updater_api tx0 [11] [11] 13 [] 0 0 = Ok tx"
    using assms by (simp add: sign_multi_sig_input_def get_sig_for_tx_input_def get_raw_sig_for_tx_input_def get_sig_hash_msg_def
        set_witness_def index_def Let_def)
  moreover have "fund_pubkey (ch_own_params example_updated_channel) = [11]"
    "fund_pubkey (ch_counter_params example_updated_channel) = pk_of_sk example_updater_api 13"
    by (simp_all add: example_updated_channel_def example_channel_def Let_def example_channel_params_def)
  ultimately show ?thesis unfolding peer_completes_def by metis
qed

lemma revoked_state_punishable_witness:
  "\<exists>off acc d tx tx' t t' d' tx0'. buffer_descriptor (channel_of example_updater_api example_deps) off acc = (Ok d :: (_, dlc_error) res) \<and>
     peer_completes example_updater_api example_updated_channel [11]
       (create_buffer_transaction (channel_of example_updater_api example_deps) example_fund_in d 200000 0) tx \<and>
     punish_transaction example_updater_api example_deps example_updated_channel tx 7 [11, 35] True RevokedBuffer 1000 (Ok [3]) = Ok t \<and>
     takes_output (channel_of example_updater_api example_deps) t tx 0 d [3] 796 \<and>
     create_settle_transaction (channel_of example_updater_api example_deps) example_fund_in off acc 100000 90000 CET_NSEQUENCE 0 200000 1 =
       Ok tx0' \<and>
     peer_completes example_updater_api example_updated_channel [11] tx0' tx' \<and>
     punish_transaction example_updater_api example_deps example_updated_channel tx' 7 [11, 35] True RevokedSettle 1000 (Ok [3]) = Ok t' \<and>
     takes_output (channel_of example_updater_api example_deps) t' tx' 1 d' [3] 612"
proof -
  let ?api = example_updater_api and ?ca = "channel_of example_updater_api example_deps" and ?ch = example_updated_channel
  let ?off = "\<lparr>own_pk = [23], publish_pk = [25], revoke_pk = [47]\<rparr>" and ?acc = "\<lparr>own_pk = [33], publish_pk = [35], revoke_pk = [47]\<rparr>"
  have p: "get_revokable_params ?api (ch_own_points ?ch) (revocation_basepoint (ch_counter_points ?ch)) (pk_of_sk ?api 42) =
      (Ok ?off :: (_, manager_error) res)"
    "get_revokable_params ?api (ch_counter_points ?ch) (revocation_basepoint (ch_own_points ?ch)) (pk_of_sk ?api 52) =
      (Ok ?acc :: (_, manager_error) res)"
    by (simp_all add: get_revokable_params_def example_updated_channel_def example_channel_def Let_def example_points_def
        example_derive example_derive_revocation)
  have k: "publish_pk ?acc = pk_of_sk ?api 35" "adaptor_decrypt ?api [11, 35] 35 = Some [11]"
    and f: "fund_pubkey (ch_own_params ?ch) \<noteq> fund_pubkey (ch_counter_params ?ch)"
    and der: "\<forall>s. sig_from_der ?api (serialize_der ?api s) = Some s"
    by (simp_all add: example_updated_channel_def example_channel_def Let_def example_channel_params_def)
  obtain d where d: "buffer_descriptor ?ca ?off ?acc = (Ok d :: (_, dlc_error) res)"
    by (simp add: buffer_descriptor_def Let_def)
  obtain tx0' where s: "create_settle_transaction ?ca example_fund_in ?off ?acc 100000 90000 CET_NSEQUENCE 0 200000 1 = Ok tx0'"
    by (simp add: create_settle_transaction_def settle_descriptor_def example_defs SETTLE_INPUT_WEIGHT_def SETTLE_OUTPUT_WEIGHT_def udiv_def numeral_2_eq_2 [symmetric])
  obtain tx where tx: "peer_completes ?api ?ch [11] (create_buffer_transaction ?ca example_fund_in d 200000 0) tx"
    using example_peer_completes by (fastforce simp: create_buffer_transaction_def)
  obtain tx' where tx': "peer_completes ?api ?ch [11] tx0' tx'"
    using example_peer_completes settle_Ok [OF s] by fastforce
  note punished = revoked_state_punishable [where offered = True and is_offer = True and rate = 1000 and dest = "[3]",
      OF example_updater_api_ok example_derivation_laws example_miniscript_laws example_secrets der p k f _ refl refl refl, unfolded if_True]
  have fees: "punish_fee ?ca PUNISH_BUFFER_INPUT_WEIGHT [3] (1000 div 250) = Ok 796"
    "punish_fee ?ca PUNISH_SETTLE_INPUT_WEIGHT [3] (1000 div 250) = Ok 612"
    by (simp_all add: punish_fee_def example_defs PUNISH_BUFFER_INPUT_WEIGHT_def PUNISH_SETTLE_INPUT_WEIGHT_def N_VALUE_WEIGHT_def
        channel_of_def channel_api.defs crypto_api.defs example_deps_def)
  obtain t where "punish_transaction ?api example_deps ?ch tx 7 [11, 35] True RevokedBuffer 1000 (Ok [3]) = Ok t"
      "takes_output ?ca t tx 0 d [3] 796"
    using punished [OF tx] d fees(1) by fastforce
  moreover obtain t' d' where "punish_transaction ?api example_deps ?ch tx' 7 [11, 35] True RevokedSettle 1000 (Ok [3]) = Ok t'"
      "takes_output ?ca t' tx' 1 d' [3] 612"
    using punished [OF tx'] s fees(2) by (fastforce simp: DUST_LIMIT_def)
  ultimately show ?thesis using d s tx tx' by blast
qed

end
