(* ===== verification/Channel_States.thy ===== *)
theory Channel_States
  imports Channel_Updater
begin

text \<open>
  The abstract machine of a signed channel: its state and the state it would roll back to, by their types, and the moves
  between them.  Every update of \<open>channel_updater.rs\<close> is a move of the machine and keeps the identity of the channel.
\<close>

section \<open>The machine\<close>

type_synonym phase = "signed_channel_state_type \<times> signed_channel_state_type option"

definition phase :: "signed_channel \<Rightarrow> phase" where
  "phase ch = (get_type (ch_state ch), map_option get_type (ch_roll_back_state ch))"

text \<open>The states in which a party waits for the answer of the other one.\<close>

definition exchange :: "signed_channel_state_type \<Rightarrow> bool" where
  "exchange t \<longleftrightarrow> t \<in> {SettledOfferedType, SettledReceivedType, SettledAcceptedType, SettledConfirmedType, RenewOfferedType,
     RenewAcceptedType, RenewConfirmedType, CollaborativeCloseOfferedType}"

inductive phase_step :: "phase \<Rightarrow> phase \<Rightarrow> bool" where
  stay: "phase_step p p"
| settle_offered: "t \<in> {SettledOfferedType, SettledReceivedType} \<Longrightarrow> phase_step (EstablishedType, r) (t, Some EstablishedType)"
| settle_accepted: "phase_step (SettledReceivedType, r) (SettledAcceptedType, r)"
| settle_confirmed: "phase_step (SettledOfferedType, r) (SettledConfirmedType, r)"
| settled: "t \<in> {SettledAcceptedType, SettledConfirmedType} \<Longrightarrow> phase_step (t, r) (SettledType, None)"
| renew_offered: "t \<in> {EstablishedType, SettledType} \<Longrightarrow> phase_step (t, r) (RenewOfferedType, Some t)"
| renew_accepted: "phase_step (RenewOfferedType, r) (RenewAcceptedType, r)"
| renew_confirmed: "phase_step (RenewOfferedType, r) (RenewConfirmedType, r)"
| renew_finalized: "phase_step (RenewAcceptedType, r) (RenewFinalizedType, r)"
| renewed: "phase_step (RenewConfirmedType, r) (EstablishedType, None)"
| renew_revoked: "phase_step (RenewFinalizedType, r) (EstablishedType, r)"
| rejected: "t \<in> {SettledOfferedType, SettledReceivedType, RenewOfferedType} \<Longrightarrow> phase_step (t, Some b) (b, None)"
| close_offered: "phase_step (t, r) (CollaborativeCloseOfferedType, Some t)"
| closing: "t \<in> {EstablishedType, RenewFinalizedType} \<Longrightarrow> phase_step (t, r) (ClosingType, r)"
| closing_rolled_back: "exchange t \<Longrightarrow> b \<in> {EstablishedType, RenewFinalizedType} \<Longrightarrow> phase_step (t, Some b) (ClosingType, None)"
| buffer_seen: "t \<in> {EstablishedType, RenewOfferedType, RenewAcceptedType, RenewConfirmedType, RenewFinalizedType, ClosingType} \<Longrightarrow>
    phase_step (t, r) (ClosingType, Some t)"

text \<open>What no update changes.\<close>

definition same_channel :: "signed_channel \<Rightarrow> signed_channel \<Rightarrow> bool" where
  "same_channel ch ch' \<longleftrightarrow> ch_id ch' = ch_id ch \<and> ch_temporary_id ch' = ch_temporary_id ch \<and> ch_counter_party ch' = ch_counter_party ch \<and>
     ch_own_params ch' = ch_own_params ch \<and> ch_counter_params ch' = ch_counter_params ch \<and> ch_own_points ch' = ch_own_points ch \<and>
     ch_counter_points ch' = ch_counter_points ch \<and> ch_own_per_update_seed ch' = ch_own_per_update_seed ch \<and>
     ch_fund_tx ch' = ch_fund_tx ch \<and> ch_fund_script_pubkey ch' = ch_fund_script_pubkey ch \<and>
     ch_fund_output_index ch' = ch_fund_output_index ch \<and> ch_fee_rate_per_vb ch' = ch_fee_rate_per_vb ch"

definition moves :: "signed_channel \<Rightarrow> signed_channel \<Rightarrow> bool" where
  "moves ch ch' \<longleftrightarrow> same_channel ch ch' \<and> phase_step (phase ch) (phase ch')"

lemma same_channel_refl [simp]: "same_channel ch ch"
  by (simp add: same_channel_def)

lemma moves_refl [simp]: "moves ch ch"
  by (simp add: moves_def stay)

section \<open>What an update returns with\<close>

named_theorems takes \<open>rules for the channel after an update\<close>

definition takes :: "signed_channel \<Rightarrow> 'a channel_update \<Rightarrow> ('a \<Rightarrow> signed_channel \<Rightarrow> bool) \<Rightarrow> bool" where
  "takes ch upd Q \<longleftrightarrow> (\<forall>mon x s. upd \<lparr>us_channel = ch, us_monitor = mon\<rparr> = (Ok x, s) \<longrightarrow> Q x (us_channel s))"

lemma takes_with [takes]: "takes ch (f ch) Q \<Longrightarrow> takes ch (with_channel f) Q"
  by (simp add: takes_def with_channel_def)

lemma takes_attempt [takes]: "(\<And>x. r = Ok x \<Longrightarrow> Q x ch) \<Longrightarrow> takes ch (attempt r) Q"
  by (simp add: takes_def attempt_def)

lemma takes_set [takes]: "Q () (g ch) \<Longrightarrow> takes ch (set_channel g) Q"
  by (auto simp: takes_def set_channel_def)

lemma takes_attempt_bind [takes]: "(\<And>x. r = Ok x \<Longrightarrow> takes ch (f x) Q) \<Longrightarrow> takes ch (then_do (attempt r) f) Q"
  by (cases r) (simp_all add: takes_def then_do_def attempt_def)

lemma takes_set_bind [takes]: "takes (g ch) (f ()) Q \<Longrightarrow> takes ch (then_do (set_channel g) f) Q"
  by (simp add: takes_def then_do_def set_channel_def)

lemma takes_watch_bind [takes]: "takes ch (f ()) Q \<Longrightarrow> takes ch (then_do (watch_tx t c) f) Q"
  by (simp add: takes_def then_do_def watch_tx_def)

lemma takes_pair [takes]: "(\<And>a b. x = (a, b) \<Longrightarrow> takes ch (f a b) Q) \<Longrightarrow> takes ch (case x of (a, b) \<Rightarrow> f a b) Q"
  by (cases x) simp

lemma store_secret_keeps: "store_secret deps sec ch = Ok ch' \<Longrightarrow> \<exists>t. ch' = ch\<lparr>ch_counter_secrets := t\<rparr>"
  by (auto simp: store_secret_def res_simps)

lemma roll_back_Ok: "roll_back ch = (Ok ch' :: (_, 'e) res) \<longleftrightarrow>
    (\<exists>st. ch_roll_back_state ch = Some st \<and> ch' = ch\<lparr>ch_state := st, ch_roll_back_state := None\<rparr>)"
  by (auto simp: roll_back_def res_simps split: option.splits)

lemma in_state_iff: "in_state sel ch = Ok x \<longleftrightarrow> sel (ch_state ch) = Some x"
  by (auto simp: in_state_def res_simps split: option.splits)

lemma get_state_iff [simp]:
  "get_established st = Some x1 \<longleftrightarrow> st = Established x1" "get_settled_accepted st = Some x2 \<longleftrightarrow> st = SettledAccepted x2"
  "get_settled_confirmed st = Some x3 \<longleftrightarrow> st = SettledConfirmed x3" "get_settled st = Some x4 \<longleftrightarrow> st = Settled x4"
  "get_renew_offered st = Some x5 \<longleftrightarrow> st = RenewOffered x5" "get_renew_accepted st = Some x6 \<longleftrightarrow> st = RenewAccepted x6"
  "get_renew_confirmed st = Some x7 \<longleftrightarrow> st = RenewConfirmed x7" "get_renew_finalized st = Some x8 \<longleftrightarrow> st = RenewFinalized x8"
  "get_closing st = Some x9 \<longleftrightarrow> st = Closing x9" "get_close_offered st = Some x10 \<longleftrightarrow> st = CollaborativeCloseOffered x10"
  by (cases st; auto)+

lemmas move_simps = moves_def same_channel_def phase_def enter_state_def in_state_iff roll_back_Ok

section \<open>The updates are moves\<close>

lemma settle_updates:
  "takes ch (settle_channel_offer api deps p pt now) (\<lambda>_. moves ch)" "takes ch (on_settle_offer so) (\<lambda>_. moves ch)"
  unfolding settle_channel_offer_def on_settle_offer_def
  by (intro takes; clarsimp simp: move_simps phase_step.settle_offered)+

lemma settle_accept_moves: "takes ch (settle_channel_accept api deps csv lt pt now) (\<lambda>_. moves ch)"
  unfolding settle_channel_accept_def
  by (rule takes_with, cases "ch_state ch"; simp; intro takes; clarsimp simp: move_simps phase_step.settle_accepted)

lemma settle_confirm_moves: "takes ch (settle_channel_confirm api deps m csv lt pt now) (\<lambda>_. moves ch)"
  unfolding settle_channel_confirm_def
  by (rule takes_with, cases "ch_state ch"; simp; intro takes; clarsimp simp: move_simps phase_step.settle_confirmed)

lemma settle_finalize_moves:
  "takes ch (settle_channel_finalize api deps sc) (\<lambda>_. moves ch)" "takes ch (settle_channel_on_finalize api deps sf) (\<lambda>_. moves ch)"
  unfolding settle_channel_finalize_def settle_channel_on_finalize_def
  by (intro takes; clarsimp simp: move_simps phase_step.settled dest!: store_secret_keeps)+


lemma reject_settle_moves: "takes ch reject_settle_offer (\<lambda>_. moves ch)"
  unfolding reject_settle_offer_def
  by (rule takes_with, cases "ch_state ch"; simp; intro takes; clarsimp simp: move_simps phase_step.rejected)

lemma renew_offer_moves: "takes ch (renew_channel_offer api deps env ci anns p rd pt cs now) (\<lambda>_. moves ch)"
  unfolding renew_channel_offer_def Let_def
  by (intro takes; clarsimp simp: move_simps split: signed_channel_state.splits;
      simp add: phase_step.renew_offered)

lemma on_renew_offer_moves: "takes ch (on_renew_offer m pt now) (\<lambda>_. moves ch)"
  unfolding on_renew_offer_def Let_def
  by (intro takes; clarsimp simp: move_simps split: signed_channel_state.splits;
      simp add: phase_step.renew_offered)

lemma accept_renewal_moves: "takes ch (accept_channel_renewal api deps oc cs pt now) (\<lambda>_. moves ch)"
  unfolding accept_channel_renewal_def Let_def
  by (intro takes; clarsimp simp: move_simps phase_step.renew_accepted)

lemma renew_confirm_moves: "takes ch (verify_renew_accept_and_confirm api deps wallet lookup m oc cs pt now) (\<lambda>_. moves ch)"
  unfolding verify_renew_accept_and_confirm_def Let_def
  by (intro takes; clarsimp simp: move_simps phase_step.renew_confirmed)

lemma renew_finalize_moves: "takes ch (verify_renew_confirm_and_finalize api deps wallet lookup a m pt now) (\<lambda>_. moves ch)"
  unfolding verify_renew_confirm_and_finalize_def Let_def
  by (intro takes; clarsimp simp: move_simps phase_step.renew_finalized)

lemma renewed_moves: "takes ch (renew_channel_on_finalize api deps m) (\<lambda>_. moves ch)"
  unfolding renew_channel_on_finalize_def Let_def
  by (intro takes; clarsimp simp: move_simps phase_step.renewed dest!: store_secret_keeps)

lemma renew_revoked_moves: "takes ch (renew_channel_on_revoke api deps m) (\<lambda>_. moves ch)"
  unfolding renew_channel_on_revoke_def
  by (intro takes; clarsimp simp: move_simps phase_step.renew_revoked dest!: store_secret_keeps)

lemma reject_renew_moves: "takes ch reject_renew_offer (\<lambda>_. moves ch)"
  unfolding reject_renew_offer_def
  by (intro takes; clarsimp simp: move_simps phase_step.rejected)

lemma offer_close_moves: "takes ch (offer_collaborative_close api p ins now) (\<lambda>_. moves ch)"
  unfolding offer_collaborative_close_def
  by (intro takes; clarsimp simp: move_simps phase_step.close_offered)

lemma on_close_offer_moves: "takes ch (on_collaborative_close_offer api m pt now) (\<lambda>_. moves ch)"
  unfolding on_collaborative_close_offer_def
  by (intro takes; clarsimp simp: move_simps phase_step.close_offered)

lemma on_reject_moves: "takes ch on_reject (\<lambda>_. moves ch)"
  unfolding on_reject_def
  by (rule takes_with, cases "ch_state ch"; simp; intro takes conjI impI; clarsimp simp: move_simps phase_step.rejected phase_step.stay)

text \<open>A unilateral close, of the channel in its state or rolled back.\<close>

lemma initiate_close_closes:
  "takes ch (initiate_unilateral_close_established_channel api deps a k tx b)
    (\<lambda>_ ch'. same_channel ch ch' \<and> (\<exists>x. ch_state ch' = Closing x) \<and> ch_roll_back_state ch' = ch_roll_back_state ch)"
  unfolding initiate_unilateral_close_established_channel_def Let_def
  by (intro takes; clarsimp simp: same_channel_def)

lemmas update_moves = settle_updates settle_accept_moves settle_confirm_moves settle_finalize_moves reject_settle_moves renew_offer_moves
  on_renew_offer_moves accept_renewal_moves renew_confirm_moves renew_finalize_moves renewed_moves renew_revoked_moves reject_renew_moves
  offer_close_moves on_close_offer_moves on_reject_moves

end
