(* ===== verification/Channel_Lifecycle.thy ===== *)
theory Channel_Lifecycle
  imports Channel_Checks Contract_Lifecycle Channel_States
begin

text \<open>
  The manager implements the machine of channels: every call of the application, every message of the peer and every periodic check
  takes the stored channels along steps of the machine, whatever the wallet, the blockchain, the clock and the oracles answer and
  whether the call succeeds or fails.
\<close>

section \<open>The machine of the stored channels\<close>

text \<open>What is stored for a signed channel after an update of it, or when it ends.\<close>

inductive becomes :: "signed_channel \<Rightarrow> channel \<Rightarrow> bool" for ch where
  updated: "moves ch ch' \<Longrightarrow> becomes ch (SignedChannel ch')"
| ended: "c \<in> {ClosedChannel (closed_of ch), CounterClosedChannel (closed_of ch), CollaborativelyClosedChannel (closed_of ch)} \<Longrightarrow>
    becomes ch c"
| punished: "cpc_channel_id p = ch_id ch \<Longrightarrow> becomes ch (ClosedPunishedChannel p)"

text \<open>The channel that may be stored next.\<close>

inductive channel_step :: "(bytes \<rightharpoonup> channel) \<Rightarrow> channel \<Rightarrow> bool" for S where
  offer_made: "ofc_is_offer_party x \<Longrightarrow> channel_step S (OfferedChannel x)"
| offer_received: "\<not> ofc_is_offer_party x \<Longrightarrow> S (ofc_temporary_channel_id x) = None \<Longrightarrow> channel_step S (OfferedChannel x)"
| cancelled: "S (ofc_temporary_channel_id x) = Some (OfferedChannel x) \<Longrightarrow> channel_step S (CancelledChannel x)"
| accepted: "S (acc_temporary_channel_id a) = Some (OfferedChannel x) \<Longrightarrow> \<not> ofc_is_offer_party x \<Longrightarrow> channel_step S (AcceptedChannel a)"
| accept_failed: "S (fac_temporary_channel_id f) = Some (OfferedChannel x) \<Longrightarrow> channel_step S (FailedAcceptChannel f)"
| sign_failed: "S (fsc_channel_id g) = Some (AcceptedChannel a) \<Longrightarrow> channel_step S (FailedSignChannel g)"
| signed_by_offerer: "S (ch_temporary_id ch) = Some (OfferedChannel x) \<Longrightarrow> phase ch = (EstablishedType, None) \<Longrightarrow> channel_step S (SignedChannel ch)"
| signed_by_accepter: "S (ch_id ch) = Some (AcceptedChannel a) \<Longrightarrow> phase ch = (EstablishedType, None) \<Longrightarrow> channel_step S (SignedChannel ch)"
| continued: "S (ch_id ch) = Some (SignedChannel ch) \<Longrightarrow> becomes ch c \<Longrightarrow> channel_step S c"

definition next_store :: "bool \<Rightarrow> (bytes \<rightharpoonup> channel) \<Rightarrow> (bytes \<rightharpoonup> channel) \<Rightarrow> bool" where
  "next_store purge S S' \<longleftrightarrow> (\<exists>c. channel_step S c \<and> S' = stored_channel purge c S)"

text \<open>
  A periodic check works through a list of channels that it has read from the storage \<open>S0\<close>.  On a storage that removes what is stored
  under the temporary identifier of a channel, whenever that channel is written, a channel of the list can have been removed as
  such an entry of another one of the list, and is then written back.
\<close>

inductive listed_step :: "bool \<Rightarrow> (bytes \<rightharpoonup> channel) \<Rightarrow> (bytes \<rightharpoonup> channel) \<Rightarrow> (bytes \<rightharpoonup> channel) \<Rightarrow> bool" for purge S0 where
  listed: "next_store purge S S' \<Longrightarrow> listed_step purge S0 S S'"
| written_back: "purge \<Longrightarrow> S0 (ch_id ch) = Some (SignedChannel ch) \<Longrightarrow> S0 (ch_id other) = Some (SignedChannel other) \<Longrightarrow>
    ch_temporary_id other = ch_id ch \<Longrightarrow> S (ch_id ch) = None \<Longrightarrow> becomes ch c \<Longrightarrow>
    listed_step purge S0 S (stored_channel purge c S)"

definition check_round :: "bool \<Rightarrow> (bytes \<rightharpoonup> channel) \<Rightarrow> (bytes \<rightharpoonup> channel) \<Rightarrow> bool" where
  "check_round purge S S' \<longleftrightarrow> (listed_step purge S)\<^sup>*\<^sup>* S S'"

definition node_step :: "bool \<Rightarrow> (bytes \<rightharpoonup> channel) \<Rightarrow> (bytes \<rightharpoonup> channel) \<Rightarrow> bool" where
  "node_step purge S S' \<longleftrightarrow> next_store purge S S' \<or> check_round purge S S'"

abbreviation channel_steps :: "bool \<Rightarrow> (bytes \<rightharpoonup> channel) \<Rightarrow> (bytes \<rightharpoonup> channel) \<Rightarrow> bool" where
  "channel_steps purge \<equiv> (node_step purge)\<^sup>*\<^sup>*"

text \<open>Without such removals a check is a sequence of plain steps.\<close>

lemma listed_step_plain: "listed_step False S0 = next_store False"
  by (auto simp: fun_eq_iff intro: listed_step.intros elim: listed_step.cases)

lemma plain_steps: "channel_steps False S S' \<Longrightarrow> (next_store False)\<^sup>*\<^sup>* S S'"
  by (induction rule: rtranclp_induct)
    (auto simp: node_step_def check_round_def listed_step_plain intro: rtranclp_trans rtranclp.rtrancl_into_rtrancl)

text \<open>Every channel is stored under its identifier.\<close>

definition filed :: "(bytes \<rightharpoonup> channel) \<Rightarrow> bool" where
  "filed S \<longleftrightarrow> (\<forall>i c. S i = Some c \<longrightarrow> channel_id_of c = i)"

lemma filed_stored: "filed S \<Longrightarrow> filed (stored_channel purge c S)"
  by (auto simp: filed_def stored_channel_def split: option.splits if_splits)

lemma filed_next: "next_store purge S S' \<Longrightarrow> filed S \<Longrightarrow> filed S'"
  by (auto simp: next_store_def filed_stored)

lemma filed_round: "check_round purge S S' \<Longrightarrow> filed S \<Longrightarrow> filed S'"
  unfolding check_round_def
  by (induction rule: rtranclp_induct) (auto simp: filed_next filed_stored elim!: listed_step.cases)

lemma filed_steps: "channel_steps purge S S' \<Longrightarrow> filed S \<Longrightarrow> filed S'"
  by (induction rule: rtranclp_induct) (auto simp: node_step_def dest: filed_next filed_round)

section \<open>Actions that leave the channels alone\<close>

named_theorems quiets \<open>actions that do not change what is abstracted\<close>

definition quiet :: "('s \<Rightarrow> 'b) \<Rightarrow> ('a, 's) action \<Rightarrow> bool" where
  "quiet f act \<longleftrightarrow> (\<forall>\<sigma>. f (ms_store (snd (act \<sigma>))) = f (ms_store \<sigma>))"

lemma quiet_query: "query act \<Longrightarrow> quiet f act"
  by (simp add: quiet_def query_def)

lemmas quiet_queries [quiets] = query_lift [THEN quiet_query] query_ask [THEN quiet_query] query_read [THEN quiet_query]
  query_request [THEN quiet_query] query_send [THEN quiet_query] query_confirmations [THEN quiet_query] query_in_state [THEN quiet_query]
  query_oracle_announcements [THEN quiet_query] query_closable [THEN quiet_query]

lemma quiet_and_do [quiets]: "quiet f act \<Longrightarrow> (\<And>x. quiet f (g x)) \<Longrightarrow> quiet f (and_do act g)"
  unfolding quiet_def and_do_def by (auto split: prod.splits res.splits) (metis snd_conv)+

lemma quiet_on_result [quiets]: "quiet f act \<Longrightarrow> (\<And>x. quiet f (g x)) \<Longrightarrow> (\<And>e. quiet f (h e)) \<Longrightarrow> quiet f (on_result act g h)"
  unfolding quiet_def on_result_def by (auto split: prod.splits res.splits) (metis snd_conv)+

lemma quiet_logged [quiets]: "quiet f act \<Longrightarrow> quiet f (logged act)"
  unfolding logged_def by (intro quiets)

lemma quiet_for_each [quiets]: "(\<And>x. quiet f (g x)) \<Longrightarrow> quiet f (for_each g xs)"
  by (induction xs) (auto intro!: quiets)

lemma quiet_if [quiets]: "quiet f a \<Longrightarrow> quiet f b \<Longrightarrow> quiet f (if c then a else b)"
  by simp

lemma quiet_prod [quiets]: "(\<And>a b. quiet f (g a b)) \<Longrightarrow> quiet f (case p of (a, b) \<Rightarrow> g a b)"
  by (cases p) simp

lemma quiet_option [quiets]: "quiet f a \<Longrightarrow> (\<And>x. quiet f (g x)) \<Longrightarrow> quiet f (case p of None \<Rightarrow> a | Some x \<Rightarrow> g x)"
  by (cases p) simp_all

lemma quiet_write: "(\<And>st r st'. w st = (r, st') \<Longrightarrow> f st' = f st) \<Longrightarrow> quiet f (write_store w)"
  by (auto simp: quiet_def write_store_def split: prod.splits)

lemma quiet_state: "(\<And>\<sigma>. quiet f (g \<sigma>)) \<Longrightarrow> quiet f (\<lambda>\<sigma>. g \<sigma> \<sigma>)"
  by (simp add: quiet_def)

lemma valid_quiet: "quiet f act \<Longrightarrow> (\<And>S. P S \<Longrightarrow> E S) \<Longrightarrow> (\<And>x S. P S \<Longrightarrow> Q x S) \<Longrightarrow> valid f E P act Q"
  by (auto simp: quiet_def valid_def split: prod.splits) (metis snd_conv)+

lemma valid_quiet_bind:
  assumes "quiet f act" "\<And>S. P S \<Longrightarrow> E S" "\<And>x. valid f E P (g x) R"
  shows "valid f E P (and_do act g) R"
  by (rule valid_and_do [OF valid_quiet [OF assms(1,2), where Q = "\<lambda>_. P"] assms(3)])

lemma valid_pair: "(\<And>a b. x = (a, b) \<Longrightarrow> valid f E P (g a b) Q) \<Longrightarrow> valid f E P (case x of (a, b) \<Rightarrow> g a b) Q"
  by (cases x) simp

lemma quiet_monitor [quiets]: "(\<And>n mon. f (n\<lparr>nd_monitor := mon\<rparr>) = f n) \<Longrightarrow> quiet f (monitor_do g)"
  unfolding monitor_do_def by (rule quiet_write) (auto split: prod.splits)


lemma valid_exists:
  fixes f :: "'s \<Rightarrow> 'b"
  assumes "\<And>y. I y \<Longrightarrow> valid f E (\<lambda>S. P S \<and> J y S) act R"
  shows "valid f E (\<lambda>S. P S \<and> (\<exists>y. I y \<and> J y S)) act R"
  unfolding valid_def
proof (intro allI impI)
  fix \<sigma> :: "'s manager_state" assume "P (f (ms_store \<sigma>)) \<and> (\<exists>y. I y \<and> J y (f (ms_store \<sigma>)))"
  then obtain y where "I y" "P (f (ms_store \<sigma>)) \<and> J y (f (ms_store \<sigma>))" by blast
  then show "case act \<sigma> of (r, \<sigma>') \<Rightarrow> E (f (ms_store \<sigma>')) \<and> (\<forall>x. r = Ok x \<longrightarrow> R x (f (ms_store \<sigma>')))"
    using assms [of y] by (simp add: valid_def)
qed

lemma valid_quiet_info:
  fixes f :: "'s \<Rightarrow> 'b" and act :: "('a, 's) action"
  assumes "quiet f act" "\<And>S. P S \<Longrightarrow> E S" "\<And>\<sigma> x. P (f (ms_store \<sigma>)) \<Longrightarrow> fst (act \<sigma>) = Ok x \<Longrightarrow> valid f E P (g x) R"
  shows "valid f E P (and_do act g) R"
proof (rule valid_and_do)
  show "valid f E P act (\<lambda>x S. P S \<and> (\<exists>\<sigma>. (P (f (ms_store \<sigma>)) \<and> fst (act \<sigma>) = Ok x) \<and> True))"
    using assms(1,2) by (auto simp: quiet_def valid_def split: prod.splits) (metis fst_conv snd_conv)+
  show "valid f E (\<lambda>S. P S \<and> (\<exists>\<sigma>. (P (f (ms_store \<sigma>)) \<and> fst (act \<sigma>) = Ok x) \<and> True)) (g x) R" for x
    by (rule valid_exists, simp only: simp_thms) (elim conjE, rule assms(3))
qed

lemma valid_on_quiet:
  fixes f :: "'s \<Rightarrow> 'b" and act :: "('a, 's) action"
  assumes "quiet f act" "\<And>S. P S \<Longrightarrow> E S" "\<And>\<sigma> x. P (f (ms_store \<sigma>)) \<Longrightarrow> fst (act \<sigma>) = Ok x \<Longrightarrow> valid f E P (g x) R"
    and "\<And>e. valid f E P (h e) R"
  shows "valid f E P (on_result act g h) R"
  unfolding valid_def
proof (intro allI impI)
  fix \<sigma> :: "'s manager_state" assume p: "P (f (ms_store \<sigma>))"
  obtain r \<sigma>' where a: "act \<sigma> = (r, \<sigma>')" by fastforce
  then have s: "P (f (ms_store \<sigma>'))" using assms(1) p unfolding quiet_def by (metis snd_conv)
  show "case on_result act g h \<sigma> of (r, \<sigma>') \<Rightarrow> E (f (ms_store \<sigma>')) \<and> (\<forall>x. r = Ok x \<longrightarrow> R x (f (ms_store \<sigma>')))"
  proof (cases r)
    case (Ok x)
    then show ?thesis using assms(3) [OF p, of x] a s by (simp add: on_result_def valid_def)
  next
    case (Err e)
    then show ?thesis using assms(4) [of e] a s by (simp add: on_result_def valid_def)
  qed (use assms(2) a s in \<open>simp add: on_result_def\<close>)
qed

lemma and_do_assoc: "and_do (and_do act g) h = and_do act (\<lambda>x. and_do (g x) h)"
  by (rule ext) (simp add: and_do_def split: prod.split res.split)

section \<open>What the functions that set up a channel return\<close>

lemma offered_channel_party:
  "make_channel_offer api deps env nk ci cp anns cs rd now tid = Ok (ofc, oc) \<Longrightarrow> ofc_is_offer_party ofc"
  "from_offer_channel api m cp k = Ok (ofc, oc) \<Longrightarrow> \<not> ofc_is_offer_party ofc"
  by (auto simp: make_channel_offer_def from_offer_channel_def res_simps Let_def)

lemma accepted_channel_id:
  "accept_channel_offer api deps env nk ofc oc = Ok (acc, a, m) \<Longrightarrow> acc_temporary_channel_id acc = ofc_temporary_channel_id ofc"
  by (auto simp: accept_channel_offer_def res_simps Let_def)

lemma new_channel_phase:
  "fst (verify_and_sign_accepted_channel api deps w lk ofc oc m n mon) = Ok (ch, s, sm) \<Longrightarrow>
    phase ch = (EstablishedType, None) \<and> ch_temporary_id ch = ofc_temporary_channel_id ofc"
  unfolding verify_and_sign_accepted_channel_def Let_def
  by (auto simp: and_then_eq_Ok phase_def split: res.splits)

lemma verified_channel_phase:
  "fst (verify_signed_channel api deps w lk acc a m mon) = Ok (ch, s, tx) \<Longrightarrow>
    phase ch = (EstablishedType, None) \<and> ch_id ch = acc_channel_id acc"
  unfolding verify_signed_channel_def Let_def
  by (auto simp: and_then_eq_Ok phase_def split: res.splits)

lemma closed_channels:
  "close_settled_channel api deps ch b = Ok (tx, c) \<Longrightarrow> c \<in> {ClosedChannel (closed_of ch), CounterClosedChannel (closed_of ch)}"
  "accept_collaborative_close_offer api deps ch = Ok (tx, c) \<Longrightarrow> c = CollaborativelyClosedChannel (closed_of ch)"
  "finalize_unilateral_close_settled_channel api deps ho ch cc ci atts ai b = Ok (tx, c) \<Longrightarrow>
    c \<in> {ClosedChannel (closed_of ch), CounterClosedChannel (closed_of ch)}"
  unfolding close_settled_channel_def accept_collaborative_close_offer_def finalize_unilateral_close_settled_channel_def Let_def
  by (auto simp: and_then_eq_Ok split: if_splits prod.splits)

section \<open>The manager on a storage of channels\<close>

text \<open>The storage of contracts does not touch the channels.\<close>

locale channel_node = channel_storage "cm_store m" abs_channels purge
  for m :: "('s, 'x) channel_manager_scheme" and abs_channels :: "'s \<Rightarrow> bytes \<rightharpoonup> channel" and purge :: bool +
  assumes update_keeps: "st_update_contract (mg_store m) c n = (r, n') \<Longrightarrow> abs_channels (nd_store n') = abs_channels (nd_store n)"
    and create_keeps: "st_create_contract (mg_store m) oc n = (r, n') \<Longrightarrow> abs_channels (nd_store n') = abs_channels (nd_store n)"
begin

definition channels :: "'s node_state \<Rightarrow> bytes \<rightharpoonup> channel" where
  "channels n = abs_channels (nd_store n)"

abbreviation steps where "steps \<equiv> channel_steps purge"

lemma quiet_monitor_do [quiets]: "quiet channels (monitor_do g)"
  by (rule quiet_monitor) (simp add: channels_def)

lemma quiet_change [quiets]: "quiet channels (change_monitor g)"
  unfolding change_monitor_def by (intro quiets)

lemma quiet_watch [quiets]: "quiet channels (watch txid i t)"
  unfolding watch_def by (intro quiets)

lemma quiet_persist [quiets]: "quiet channels (persist_monitor m)"
  unfolding persist_monitor_def
  by (rule quiet_write) (auto simp: channels_def on_node_def dest: persist_law split: prod.splits)

lemma quiet_update [quiets]: "quiet channels (update_contract m c)"
  unfolding update_contract_def by (rule quiet_write) (simp add: channels_def update_keeps)

lemma quiet_create [quiets]: "quiet channels (write_store (st_create_contract (mg_store m) oc))"
  by (rule quiet_write) (simp add: channels_def create_keeps)

lemma quiet_run [quiets]: "quiet channels (run_update ch upd)"
  unfolding run_update_def by (intro quiets)

lemma quiet_timed [quiets]: "quiet channels (run_timed m ch upd)"
  unfolding run_timed_def by (intro quiets)

lemma quiet_channel [quiets]: "quiet channels (get_channel m i)" "quiet channels (get_channel_in_state m i sel p)"
  unfolding get_channel_in_state_def get_channel_def by (intro quiets)+

lemma quiet_closed [quiets]: "quiet channels (get_collaboratively_closed_contract m i p b)" "quiet channels (closed_together m ch b)"
  "quiet channels (close_renewed m c)" "quiet channels (revoked_by_renewal m ch p)" "quiet channels (contract_offered_in m ch peer)"
  unfolding get_collaboratively_closed_contract_def closed_together_def close_renewed_def revoked_by_renewal_def contract_offered_in_def Let_def
  by (auto intro!: quiets split: option.splits signed_channel_state.splits)

lemma quiet_watch_buffer [quiets]: "quiet channels (watch_buffer m ch)"
  unfolding watch_buffer_def by (intro quiets)

lemma quiet_close_contract [quiets]: "quiet channels (close_contract m c cet atts)"
  unfolding close_contract_def by (intro quiets)

section \<open>Following the machine\<close>

named_theorems follow \<open>rules for the steps of an action\<close>

lemma valid_get_channel [follow]:
  assumes "\<And>S. P S \<Longrightarrow> E S" "\<And>r. valid channels E (\<lambda>S. P S \<and> S i = r) (g r) R"
  shows "valid channels E P (and_do (get_channel m i) g) R"
proof (rule valid_and_do)
  show "valid channels E P (get_channel m i) (\<lambda>r S. P S \<and> S i = r)"
    using assms(1) by (auto simp: valid_def get_channel_def read_store_def channels_def dest!: get_channel_law)
qed (rule assms(2))

lemma valid_channel_in_state [follow]:
  assumes "\<And>S. P S \<Longrightarrow> E S" "\<And>c x. sel c = Some x \<Longrightarrow> valid channels E (\<lambda>S. P S \<and> S i = Some c) (g x) R"
  shows "valid channels E P (and_do (get_channel_in_state m i sel peer) g) R"
proof -
  have "valid channels E (\<lambda>S. P S \<and> (\<exists>c. sel c = Some x \<and> S i = Some c)) (g x) R" for x
    by (rule valid_exists) (rule assms(2))
  moreover have "valid channels E P (get_channel_in_state m i sel peer) (\<lambda>x S. P S \<and> (\<exists>c. sel c = Some x \<and> S i = Some c))"
    unfolding get_channel_in_state_def
    by (intro follow assms(1)) (auto intro!: valid_lift assms(1) split: option.splits if_splits)
  ultimately show ?thesis by (rule valid_and_do [rotated])
qed

lemma valid_run [follow]:
  assumes "takes ch upd T" "\<And>S. P S \<Longrightarrow> E S" "\<And>x ch'. T x ch' \<Longrightarrow> valid channels E P (g (x, ch')) R"
  shows "valid channels E P (and_do (run_update ch upd) g) R"
proof (rule valid_quiet_info [OF quiet_run assms(2)])
  fix \<sigma> p assume "fst (run_update ch upd \<sigma>) = Ok p"
  then have "T (fst p) (snd p)"
    using assms(1) by (auto simp: run_update_def monitor_do_def write_store_def takes_def res_simps split: prod.splits)
  then show "valid channels E P (g p) R" using assms(3) [of "fst p" "snd p"] by simp
qed

lemma valid_timed [follow]:
  assumes "\<And>now. takes ch (upd now) T" "\<And>S. P S \<Longrightarrow> E S" "\<And>x ch'. T x ch' \<Longrightarrow> valid channels E P (g (x, ch')) R"
  shows "valid channels E P (and_do (run_timed m ch upd) g) R"
proof (rule valid_quiet_info [OF quiet_timed assms(2)])
  fix \<sigma> p assume "fst (run_timed m ch upd \<sigma>) = Ok p"
  then have "T (fst p) (snd p)"
    using assms(1) by (auto simp: run_timed_def run_update_def monitor_do_def write_store_def takes_def res_simps and_do_def ask_def
        split: prod.splits)
  then show "valid channels E P (g p) R" using assms(3) [of "fst p" "snd p"] by simp
qed

lemma valid_state_timed [follow]:
  assumes "\<And>\<sigma> now. takes ch (upd \<sigma> now) T" "\<And>S. P S \<Longrightarrow> E S" "\<And>x ch'. T x ch' \<Longrightarrow> valid channels E P (g (x, ch')) R"
  shows "valid channels E P (and_do (\<lambda>\<sigma>. run_timed m ch (upd \<sigma>) \<sigma>) g) R"
proof (rule valid_quiet_info [OF quiet_state [OF quiet_timed] assms(2)])
  fix \<sigma> p assume "fst (run_timed m ch (upd \<sigma>) \<sigma>) = Ok p"
  then have "T (fst p) (snd p)"
    using assms(1) by (auto simp: run_timed_def run_update_def monitor_do_def write_store_def takes_def res_simps and_do_def ask_def
        split: prod.splits)
  then show "valid channels E P (g p) R" using assms(3) [of "fst p" "snd p"] by simp
qed

lemma valid_upsert:
  assumes "\<And>S. P S \<Longrightarrow> E S" "\<And>S. P S \<Longrightarrow> E (stored_channel purge c S)" "\<And>S. P S \<Longrightarrow> Q () (stored_channel purge c S)"
  shows "valid channels E P (upsert_channel m c k) Q"
  using assms by (auto simp: valid_def upsert_channel_def write_store_def on_node_def channels_def dest!: upsert_channel_law
      split: prod.splits if_splits)

lemma valid_step [follow]:
  assumes "\<And>S'. P S' \<Longrightarrow> steps S S'" "\<And>S'. P S' \<Longrightarrow> channel_step S' c"
  shows "valid channels (steps S) P (upsert_channel m c k) (\<lambda>_. steps S)"
proof -
  have "steps S (stored_channel purge c S')" if "P S'" for S'
    using assms that by (meson next_store_def node_step_def rtranclp.rtrancl_into_rtrancl)
  then show ?thesis using assms(1) by (intro valid_upsert)
qed

lemma valid_step_bind [follow]:
  assumes "\<And>S'. P S' \<Longrightarrow> steps S S'" "\<And>S'. P S' \<Longrightarrow> channel_step S' c" "\<And>x. quiet channels (g x)"
  shows "valid channels (steps S) P (and_do (upsert_channel m c k) g) (\<lambda>_. steps S)"
  by (rule valid_and_do [OF valid_step [OF assms(1,2)] valid_quiet [OF assms(3)]])

lemma valid_done [follow]: "(\<And>S'. P S' \<Longrightarrow> steps S S') \<Longrightarrow> valid channels (steps S) P (lift_res r) (\<lambda>_. steps S)"
  by (rule valid_lift)

lemmas [follow] = valid_pair valid_lift_bind

section \<open>Every call is a sequence of steps\<close>

abbreviation follows :: "(bytes \<rightharpoonup> channel) \<Rightarrow> ('a, 's node_state) action \<Rightarrow> bool" where
  "follows S act \<equiv> valid channels (steps S) ((=) S) act (\<lambda>_. steps S)"

lemma filed_signed: "filed S \<Longrightarrow> S i = Some (SignedChannel ch) \<Longrightarrow> ch_id ch = i"
  unfolding filed_def by force

lemma updated_step: "filed S \<Longrightarrow> S i = Some (SignedChannel ch) \<Longrightarrow> moves ch ch' \<Longrightarrow> channel_step S (SignedChannel ch')"
  using filed_signed channel_step.continued becomes.updated by metis

lemma ended_step:
  "filed S \<Longrightarrow> S i = Some (SignedChannel ch) \<Longrightarrow>
    c \<in> {ClosedChannel (closed_of ch), CounterClosedChannel (closed_of ch), CollaborativelyClosedChannel (closed_of ch)} \<Longrightarrow> channel_step S c"
  using filed_signed channel_step.continued becomes.ended by metis

lemma valid_request_info [follow]:
  "(\<And>S. P S \<Longrightarrow> E S) \<Longrightarrow> (\<And>n x. h n = Ok x \<Longrightarrow> valid channels E P (g x) R) \<Longrightarrow> valid channels E P (and_do (request h) g) R"
  by (rule valid_request)

lemma received_offer_follows [follow]:
  assumes "\<And>S'. P S' \<Longrightarrow> E S'" "\<And>x oc. \<not> ofc_is_offer_party x \<Longrightarrow> valid channels E (\<lambda>S. P S \<and> S i = Some (OfferedChannel x)) (g (x, oc)) R"
  shows "valid channels E P (and_do (received_offer m i) g) R"
  unfolding received_offer_def and_do_assoc
  by (rule follow quiets valid_quiet_bind | (auto simp: assms and_do_def lift_res_def)[1])+

lemmas follows_rules = follow update_moves quiets valid_quiet_bind

lemma settle_calls:
  assumes "filed S"
  shows "follows S (manager_settle_offer m i p)" "follows S (accept_settle_offer m i)" "follows S (manager_reject_settle_offer m i)"
    "follows S (on_settle_accept m sa peer)"
  unfolding manager_settle_offer_def accept_settle_offer_def manager_reject_settle_offer_def on_settle_accept_def
  by (rule follows_rules | (auto intro: updated_step [OF assms])[1])+

lemma settle_handlers:
  assumes "filed S"
  shows "follows S (manager_on_settle_offer m so peer)" "follows S (on_settle_confirm m sc peer)" "follows S (on_settle_finalize m sf peer)"
  unfolding manager_on_settle_offer_def on_settle_confirm_def on_settle_finalize_def finish_settlement_def and_do_assoc
  by (rule follows_rules valid_if | (auto intro: updated_step [OF assms])[1])+

lemma renew_calls:
  assumes "filed S"
  shows "follows S (manager_renew_offer m i p ci)" "follows S (accept_renew_offer m i)" "follows S (manager_reject_renew_offer m i)"
    "follows S (manager_on_renew_offer m ro peer)"
  unfolding manager_renew_offer_def accept_renew_offer_def manager_reject_renew_offer_def manager_on_renew_offer_def
  by (rule follows_rules valid_if | (auto intro: updated_step [OF assms])[1])+

lemma renew_handlers:
  assumes "filed S"
  shows "follows S (on_renew_accept m ra peer)" "follows S (on_renew_confirm m rc peer)" "follows S (on_renew_finalize m rf peer)"
    "follows S (on_renew_revoke m rr peer)"
  unfolding on_renew_accept_def on_renew_confirm_def on_renew_finalize_def on_renew_revoke_def
  by (rule follows_rules valid_state_timed | (auto intro: updated_step [OF assms])[1])+

lemma close_calls:
  assumes "filed S"
  shows "follows S (manager_offer_collaborative_close m i p ins)" "follows S (manager_on_collaborative_close_offer m co peer)"
  unfolding manager_offer_collaborative_close_def manager_on_collaborative_close_offer_def
  by (rule follows_rules | (auto intro: updated_step [OF assms])[1])+

lemma filed_offered: "filed S \<Longrightarrow> S i = Some (OfferedChannel x) \<Longrightarrow> ofc_temporary_channel_id x = i"
  unfolding filed_def by force

lemma offered_steps:
  assumes "filed S" "S i = Some (OfferedChannel x)"
  shows "channel_step S (CancelledChannel x)"
    "\<not> ofc_is_offer_party x \<Longrightarrow> acc_temporary_channel_id a = ofc_temporary_channel_id x \<Longrightarrow> channel_step S (AcceptedChannel a)"
    "fac_temporary_channel_id f = i \<Longrightarrow> channel_step S (FailedAcceptChannel f)"
    "phase ch = (EstablishedType, None) \<and> ch_temporary_id ch = ofc_temporary_channel_id x \<Longrightarrow> channel_step S (SignedChannel ch)"
  using assms filed_offered [OF assms] by (auto intro: channel_step.intros)

lemma offer_calls:
  assumes "filed S"
  shows "follows S (manager_offer_channel m ci peer)" "follows S (reject_channel m i)"
    "follows S (manager_accept_channel m i)" "follows S (on_offer_channel m oc peer)"
  unfolding manager_offer_channel_def reject_channel_def manager_accept_channel_def on_offer_channel_def Let_def
  by (rule follows_rules | (auto dest!: offered_channel_party accepted_channel_id intro: offered_steps [OF assms] channel_step.offer_made channel_step.offer_received)[1])+

lemma close_together:
  assumes "filed S"
  shows "follows S (accept_collaborative_close m i)"
  unfolding accept_collaborative_close_def
  by (rule follows_rules | (auto dest!: closed_channels intro: ended_step [OF assms])[1])+

end

end
