(* ===== verification/Channel_Closing.thy ===== *)
theory Channel_Closing
  imports Channel_Lifecycle
begin

text \<open>
  Closing channels alone and the periodic checks: each works on channels that it has read before, and writes at most the channel it
  works on, by a step of the machine.
\<close>

section \<open>Actions on one channel\<close>

text \<open>Nothing changes, or the channel \<open>ch\<close> is stored again as it was read and then updated or ended.\<close>

definition one :: "bool \<Rightarrow> signed_channel \<Rightarrow> (bytes \<rightharpoonup> channel) \<Rightarrow> (bytes \<rightharpoonup> channel) \<Rightarrow> bool" where
  "one purge ch S S' \<longleftrightarrow> S' = S \<or> (\<exists>c. becomes ch c \<and> S' = stored_channel purge c S)"

lemma one_refl [simp]: "one purge ch S S"
  by (simp add: one_def)

text \<open>The channel is stored as it was read.\<close>

definition kept :: "(bytes \<rightharpoonup> channel) \<Rightarrow> signed_channel \<Rightarrow> bool" where
  "kept S ch \<longleftrightarrow> S (ch_id ch) = Some (SignedChannel ch)"

lemma filed_kept: "filed S \<Longrightarrow> S i = Some (SignedChannel ch) \<Longrightarrow> kept S ch"
  unfolding filed_def kept_def by force

lemma one_steps:
  assumes "one purge ch S S'" "kept S ch"
  shows "channel_steps purge S S'"
proof -
  have "S' = S \<or> next_store purge S S'" using assms channel_step.continued unfolding one_def next_store_def kept_def by blast
  then show ?thesis by (auto simp: node_step_def)
qed

lemma becomes_id:
  "becomes ch c \<Longrightarrow> channel_id_of c = ch_id ch \<and> (purged_channel_id purge c = None \<or> purge \<and> purged_channel_id purge c = Some (ch_temporary_id ch))"
  by (erule becomes.cases) (auto simp: purged_channel_id_def moves_def same_channel_def closed_of_def)

lemma one_other:
  assumes "one purge ch S S'" "i \<noteq> ch_id ch"
  shows "S' i = S i \<or> purge \<and> i = ch_temporary_id ch \<and> S' i = None"
proof -
  have "stored_channel purge c S i = S i \<or> purge \<and> i = ch_temporary_id ch \<and> stored_channel purge c S i = None" if "becomes ch c" for c
    using becomes_id [OF that, of purge] assms(2) by (auto simp: stored_channel_def split: if_splits)
  then show ?thesis using assms(1) by (auto simp: one_def)
qed

lemma one_moves: "moves ch ch' \<Longrightarrow> one purge ch S (stored_channel purge (SignedChannel ch') S)"
  unfolding one_def using becomes.updated by blast

lemma one_ends:
  "c \<in> {ClosedChannel (closed_of ch), CounterClosedChannel (closed_of ch), CollaborativelyClosedChannel (closed_of ch)} \<Longrightarrow>
    one purge ch S (stored_channel purge c S)"
  unfolding one_def using becomes.ended by blast

lemma one_punished: "cpc_channel_id p = ch_id ch \<Longrightarrow> one purge ch S (stored_channel purge (ClosedPunishedChannel p) S)"
  unfolding one_def using becomes.punished by blast

text \<open>A channel of a list that was read from \<open>S0\<close>: it is still stored, or was removed with another one.\<close>

definition remains :: "bool \<Rightarrow> (bytes \<rightharpoonup> channel) \<Rightarrow> (bytes \<rightharpoonup> channel) \<Rightarrow> signed_channel \<Rightarrow> bool" where
  "remains purge S0 S ch \<longleftrightarrow> kept S ch \<or>
     purge \<and> S (ch_id ch) = None \<and> (\<exists>other. kept S0 other \<and> ch_temporary_id other = ch_id ch)"

lemma one_listed:
  assumes "one purge ch S S'" "kept S0 ch" "remains purge S0 S ch"
  shows "(listed_step purge S0)\<^sup>*\<^sup>* S S'"
proof -
  have "S' = S \<or> listed_step purge S0 S S'"
  proof (cases "kept S ch")
    case True
    then have "S' = S \<or> next_store purge S S'" using assms(1) channel_step.continued unfolding one_def next_store_def kept_def by blast
    then show ?thesis by (auto intro: listed_step.listed)
  next
    case False
    then obtain other where "purge" "S (ch_id ch) = None" "kept S0 other" "ch_temporary_id other = ch_id ch"
      using assms(3) by (auto simp: remains_def)
    then show ?thesis using assms(1,2) by (auto simp: one_def kept_def intro: listed_step.written_back)
  qed
  then show ?thesis by auto
qed

lemma one_remains:
  assumes "one purge ch S S'" "kept S0 ch" "remains purge S0 S c" "ch_id c \<noteq> ch_id ch"
  shows "remains purge S0 S' c"
  using one_other [OF assms(1,4)] assms(2,3) by (auto simp: remains_def kept_def)

context channel_node begin

abbreviation changes :: "(bytes \<rightharpoonup> channel) \<Rightarrow> signed_channel \<Rightarrow> ('a, 's node_state) action \<Rightarrow> bool" where
  "changes S ch act \<equiv> valid channels (one purge ch S) ((=) S) act (\<lambda>_. one purge ch S)"

lemma changes_follows: "kept S ch \<Longrightarrow> changes S ch act \<Longrightarrow> follows S act"
  by (erule valid_weaken) (simp_all add: one_steps)

lemma changes_upsert:
  assumes "one purge ch S (stored_channel purge c S)"
  shows "changes S ch (upsert_channel m c k)"
  by (rule valid_upsert) (use assms in auto)

lemma changes_upsert_bind:
  assumes "one purge ch S (stored_channel purge c S)" "\<And>x. quiet channels (g x)"
  shows "changes S ch (and_do (upsert_channel m c k) g)"
  by (rule valid_and_do [OF changes_upsert [OF assms(1)] valid_quiet [OF assms(2)]])

lemma changes_quiet: "quiet channels act \<Longrightarrow> (\<And>x. changes S ch (g x)) \<Longrightarrow> changes S ch (and_do act g)"
  by (rule valid_quiet_bind) auto

lemma changes_lift: "changes S ch (lift_res r)"
  by (rule valid_lift) auto

lemma changes_lift_bind: "(\<And>x. r = Ok x \<Longrightarrow> changes S ch (g x)) \<Longrightarrow> changes S ch (and_do (lift_res r) g)"
  by (rule valid_lift_bind) auto

lemma changes_run:
  assumes "takes ch' upd T" "\<And>x ch''. T x ch'' \<Longrightarrow> changes S ch (g (x, ch''))"
  shows "changes S ch (and_do (run_update ch' upd) g)"
  by (rule valid_run [OF assms(1)]) (auto intro: assms(2))

lemma initiate_changes:
  assumes "same_channel was ch"
    "phase_step (phase was) (ClosingType, map_option get_type (ch_roll_back_state ch))"
  shows "changes S was (manager_initiate_unilateral_close m ch b a tx)"
  unfolding manager_initiate_unilateral_close_def
proof (rule changes_lift_bind, rule changes_run [OF initiate_close_closes], simp only: prod.case)
  fix ch' assume "same_channel ch ch' \<and> (\<exists>x. ch_state ch' = Closing x) \<and> ch_roll_back_state ch' = ch_roll_back_state ch"
  then have "moves was ch'" using assms by (auto simp: moves_def phase_def same_channel_def)
  then show "changes S was (and_do (lift_res (in_state get_closing ch')) (\<lambda>x.
       and_do (send_transaction m (cg_buffer_transaction x)) (\<lambda>_.
       and_do (change_monitor (remove_tx (txid_in m (cg_buffer_transaction x)))) (\<lambda>_.
       and_do (upsert_channel m (SignedChannel ch') None) (\<lambda>_. persist_monitor m)))))"
    by (intro changes_lift_bind changes_quiet [OF quiet_queries(5)] changes_quiet [OF quiet_change] changes_upsert_bind
        one_moves quiet_persist)
qed

lemma close_settled_changes:
  assumes "same_channel was ch"
  shows "changes S was (manager_close_settled_channel m ch b)"
  unfolding manager_close_settled_channel_def
proof (rule changes_lift_bind, clarsimp)
  fix tx c assume "close_settled_channel (mg_api m) (cm_deps m) ch b = Ok (tx, c)"
  moreover have "closed_of ch = closed_of was" using assms by (simp add: closed_of_def same_channel_def)
  ultimately have "one purge was S (stored_channel purge c S)"
    by (intro one_ends) (auto dest: closed_channels(1))
  then show "changes S was (and_do (on_result (get_transaction_confirmations m (txid_in m tx))
        (\<lambda>status. lift_res (Ok (confirmations status))) (\<lambda>_. lift_res (Ok 0))) (\<lambda>confirmed.
      and_do (if confirmed = 0 then send_transaction m tx else lift_res (Ok ())) (\<lambda>_.
      and_do (change_monitor (cleanup_channel (ch_id ch))) (\<lambda>_. upsert_channel m c None))))"
    by (intro changes_quiet [OF quiet_on_result] changes_quiet [OF quiet_if] changes_quiet [OF quiet_change] changes_upsert quiet_queries)
qed

lemma rolled_back_changes:
  assumes "same_channel was ch" "ch_roll_back_state ch = None"
    and "get_type (ch_state ch) \<in> {EstablishedType, RenewFinalizedType} \<Longrightarrow> phase_step (phase was) (ClosingType, None)"
  shows "changes S was (force_close_channel_internal m ch b)"
  using assms initiate_changes [where was = was and S = S and ch = ch] close_settled_changes [where was = was and S = S and ch = ch]
  by (cases "ch_state ch") (simp_all add: force_close_channel_internal.simps [of m ch b] changes_lift)

lemma force_close_changes: "changes S ch (force_close_channel_internal m ch b)"
proof (cases "exchange (get_type (ch_state ch))")
  case True
  show ?thesis
  proof (cases "ch_roll_back_state ch")
    case None
    then show ?thesis using True
      by (cases "ch_state ch") (simp_all add: force_close_channel_internal.simps [of m ch b] changes_lift exchange_def)
  next
    case (Some st)
    let ?r = "ch\<lparr>ch_state := st, ch_roll_back_state := None\<rparr>"
    have "force_close_channel_internal m ch b = force_close_channel_internal m ?r b"
      using True Some by (cases "ch_state ch") (simp_all add: force_close_channel_internal.simps [of m ch b] exchange_def)
    moreover have "phase_step (phase ch) (ClosingType, None)" if "get_type st \<in> {EstablishedType, RenewFinalizedType}"
      using closing_rolled_back [OF True that] Some by (simp add: phase_def)
    ultimately show ?thesis using rolled_back_changes [where was = ch and S = S and ch = ?r and b = b] by (simp add: same_channel_def)
  qed
next
  case False
  have "phase_step (phase ch) (ClosingType, map_option get_type (ch_roll_back_state ch))"
    if "get_type (ch_state ch) \<in> {EstablishedType, RenewFinalizedType}"
    using that closing by (simp add: phase_def)
  then show ?thesis
    using False initiate_changes [where was = ch and S = S and ch = ch] close_settled_changes [where was = ch and S = S and ch = ch]
    by (cases "ch_state ch") (simp_all add: force_close_channel_internal.simps [of m ch b] changes_lift exchange_def)
qed

lemma finalize_changes: "changes S ch (try_finalize_closing_established_channel m ch)"
  unfolding try_finalize_closing_established_channel_def Let_def
  by (intro changes_lift_bind changes_quiet [OF quiet_queries(6)] valid_if changes_lift changes_quiet [OF quiet_queries(7)]
    changes_quiet [OF quiet_queries(9)] valid_pair changes_quiet [OF quiet_close_contract] changes_quiet [OF quiet_change]
    changes_upsert one_ends) (auto dest!: closed_channels(3))

section \<open>Watched transactions\<close>

lemma follows_quiet: "quiet channels act \<Longrightarrow> (\<And>x. follows S (g x)) \<Longrightarrow> follows S (and_do act g)"
  by (rule valid_quiet_bind) auto

lemma buffer_moves: "channel_contract_id ch = Some i \<Longrightarrow> moves ch (enter_state (Closing x) ch)"
  by (cases "ch_state ch") (simp_all add: channel_contract_id_def move_simps phase_step.buffer_seen)

lemma close_watched_changes:
  assumes "one purge ch S (stored_channel purge c S)"
  shows "changes S ch (close_watched m ch c k)"
  unfolding close_watched_def by (intro changes_quiet [OF quiet_change] changes_upsert_bind assms quiet_persist)

lemma saw_changes:
  "changes S ch (saw_buffer m tx ch)" "changes S ch (saw_revoked m tx ch i a b r)"
    "changes S ch (saw_collaborative_close m ch)" "changes S ch (saw_cet m tx ch)"
    "changes S ch (close_watched m ch (CounterClosedChannel (closed_of ch)) None)"
proof -
  have "changes S ch (upsert_channel m (SignedChannel (enter_state (Closing x) ch)) None)" if "channel_contract_id ch = Some i" for i x
    by (intro changes_upsert one_moves buffer_moves [OF that])
  then show "changes S ch (saw_buffer m tx ch)"
    unfolding saw_buffer_def by (intro changes_lift_bind) simp
  show "changes S ch (saw_revoked m tx ch i a b r)"
    unfolding saw_revoked_def
    by (intro changes_quiet [OF quiet_queries(4)] changes_quiet [OF quiet_queries(5)] close_watched_changes one_punished) simp
  show "changes S ch (saw_collaborative_close m ch)"
    unfolding saw_collaborative_close_def
    by (intro changes_quiet [OF quiet_closed(2)] changes_quiet [OF quiet_closed(3)] close_watched_changes one_ends) simp
  show "changes S ch (close_watched m ch (CounterClosedChannel (closed_of ch)) None)"
    by (intro close_watched_changes one_ends) simp
  have q: "quiet channels (preclosed_by_cet m tx j)" for j
    unfolding preclosed_by_cet_def by (intro quiets)
  have "one purge ch S (stored_channel purge (if b then CounterClosedChannel (closed_of ch) else ClosedChannel (closed_of ch)) S)" for b
    by (intro one_ends) simp
  then show "changes S ch (saw_cet m tx ch)"
    unfolding saw_cet_def Let_def
    by (intro changes_quiet [OF quiet_change] changes_quiet [OF q] changes_upsert_bind quiet_persist one_ends)
      (simp split: option.split)
qed

lemma channel_found:
  "fst (get_channel_in_state m i sel peer \<sigma>) = Ok x \<Longrightarrow> \<exists>c. channels (ms_store \<sigma>) i = Some c \<and> sel c = Some x"
  by (auto simp: get_channel_in_state_def get_channel_def and_do_def read_store_def lift_res_def channels_def
      dest!: get_channel_law [THEN sym] split: res.splits option.splits if_splits)

lemma follows_on_channel:
  assumes "\<And>c x. S i = Some c \<Longrightarrow> sel c = Some x \<Longrightarrow> follows S (g x)" "\<And>e. follows S (h e)"
  shows "follows S (on_result (get_channel_in_state m i sel peer) g h)"
  by (rule valid_on_quiet [OF quiet_channel(2)]) (use assms in \<open>auto dest!: channel_found\<close>)

lemma process_watched_tx_follows:
  assumes "filed S"
  shows "follows S (process_watched_tx m p)"
proof (cases p)
  case (Pair tx ci)
  have "follows S (case ch_tx_type ci of BufferTx \<Rightarrow> saw_buffer m tx ch | Revoked i a b r \<Rightarrow> saw_revoked m tx ch i a b r
      | CollaborativeClose \<Rightarrow> saw_collaborative_close m ch | SettleTx \<Rightarrow> close_watched m ch (CounterClosedChannel (closed_of ch)) None
      | Cet \<Rightarrow> saw_cet m tx ch)" if "S (ch_channel_id ci) = Some (SignedChannel ch)" for ch
  proof -
    have "kept S ch" using filed_kept [OF assms that] .
    note saw = saw_changes [THEN changes_follows [OF this]]
    show ?thesis by (cases "ch_tx_type ci") (simp_all add: saw)
  qed
  then show ?thesis
    unfolding process_watched_tx_def Pair prod.case
    by (intro follows_on_channel valid_lift) auto
qed

lemma follows_bind:
  assumes "follows S act" "\<And>x S'. steps S S' \<Longrightarrow> follows S' (g x)"
  shows "follows S (and_do act g)"
proof (rule valid_and_do [OF assms(1)])
  show "valid channels (steps S) (steps S) (g x) (\<lambda>_. steps S)" for x
  proof (rule valid_at)
    fix S' assume s: "steps S S'"
    then show "valid channels (steps S) ((=) S') (g x) (\<lambda>_. steps S)"
      by (intro valid_weaken [OF assms(2) [OF s]]) auto
  qed
qed

lemma follows_done: "follows S (lift_res r)"
  by (rule valid_lift) auto

lemma follows_each:
  assumes "\<And>x S. filed S \<Longrightarrow> follows S (g x)"
  shows "filed S \<Longrightarrow> follows S (for_each g xs)"
proof (induction xs arbitrary: S)
  case (Cons x xs)
  then show ?case by (simp del: for_each.simps add: for_each.simps(2)) (intro follows_bind assms Cons.IH, auto intro: filed_steps)
qed (simp add: follows_done)

lemma watched_follows: "filed S \<Longrightarrow> follows S (check_for_watched_tx m)"
  unfolding check_for_watched_tx_def process_watched_txs_def
  by (intro follows_quiet [OF quiet_queries(2)] valid_pair follows_quiet [OF quiet_queries(3)] follows_bind follows_each
      process_watched_tx_follows valid_quiet quiet_persist) auto

section \<open>Lists of channels\<close>

text \<open>The loops over listed channels write each of them later: the list is kept, but for those that a write removes.\<close>

abbreviation round_from :: "(bytes \<rightharpoonup> channel) \<Rightarrow> (bytes \<rightharpoonup> channel) \<Rightarrow> (unit, 's node_state) action \<Rightarrow> bool" where
  "round_from S0 S act \<equiv> valid channels ((listed_step purge S0)\<^sup>*\<^sup>* S) ((=) S) act (\<lambda>_. (listed_step purge S0)\<^sup>*\<^sup>* S)"

lemma round_channels:
  assumes "\<And>ch S. changes S ch (g ch)"
  shows "distinct (map ch_id chs) \<Longrightarrow> \<forall>ch\<in>set chs. kept S0 ch \<and> remains purge S0 S ch \<Longrightarrow> round_from S0 S (for_each g chs)"
proof (induction chs arbitrary: S)
  case (Cons ch chs)
  show ?case
    unfolding for_each.simps
  proof (rule valid_and_do [OF assms [THEN valid_weaken, where P' = "(=) S" and Q' = "\<lambda>_. one purge ch S"]])
    show "one purge ch S S' \<Longrightarrow> (listed_step purge S0)\<^sup>*\<^sup>* S S'" for S' using one_listed Cons.prems(2) by simp
    show "valid channels ((listed_step purge S0)\<^sup>*\<^sup>* S) (one purge ch S) (for_each g chs) (\<lambda>_. (listed_step purge S0)\<^sup>*\<^sup>* S)"
    proof (rule valid_at)
      fix S' assume o: "one purge ch S S'"
      have "remains purge S0 S' c" if "c \<in> set chs" for c
        using that Cons.prems by (intro one_remains [OF o]) (auto simp: rev_image_eqI)
      then have "round_from S0 S' (for_each g chs)" using Cons.prems by (intro Cons.IH) auto
      moreover have "(listed_step purge S0)\<^sup>*\<^sup>* S S'" using one_listed [OF o] Cons.prems(2) by simp
      ultimately show "valid channels ((listed_step purge S0)\<^sup>*\<^sup>* S) ((=) S') (for_each g chs) (\<lambda>_. (listed_step purge S0)\<^sup>*\<^sup>* S)"
        by (elim valid_weaken) (auto intro: rtranclp_trans)
    qed
  qed auto
qed (auto intro: valid_lift)

lemma listed:
  assumes "filed (channels n)" "cst_get_signed_channels (cm_store m) t (nd_store n) = Ok chs"
  shows "distinct (map ch_id chs)" "\<forall>ch\<in>set chs. kept (channels n) ch"
proof -
  obtain ks where i: "distinct ks" "list_all2 (\<lambda>i ch. channels n i = Some (SignedChannel ch)) ks chs"
    using signed_channels_law [OF assms(2)] by (auto simp: channels_def)
  have "ch_id ch = i" if "channels n i = Some (SignedChannel ch)" for i ch using filed_signed [OF assms(1) that] .
  then have "list_all2 (\<lambda>i ch. ch_id ch = i) ks chs" by (intro list_all2_mono [OF i(2)])
  then have "map ch_id chs = ks" by (induction rule: list_all2_induct) auto
  then show "distinct (map ch_id chs)" using i(1) by simp
  have "\<exists>i. channels n i = Some (SignedChannel ch)" if "ch \<in> set chs" for ch
    using i(2) that by (auto simp: list_all2_conv_all_nth in_set_conv_nth)
  then show "\<forall>ch\<in>set chs. kept (channels n) ch" using filed_kept [OF assms(1)] by blast
qed

lemma follows_listed:
  assumes "\<And>ch S. changes S ch (g ch)" "filed S"
  shows "follows S (and_do (read_store (\<lambda>n. cst_get_signed_channels (cm_store m) t (nd_store n))) (for_each g))"
proof (rule valid_quiet_info [OF quiet_queries(3)])
  fix \<sigma> chs assume "S = channels (ms_store \<sigma>)" "fst (read_store (\<lambda>n. cst_get_signed_channels (cm_store m) t (nd_store n)) \<sigma>) = Ok chs"
  then have "round_from S S (for_each g chs)"
    using listed [of "ms_store \<sigma>" t chs] assms by (intro round_channels) (auto simp: read_store_def remains_def)
  then show "follows S (for_each g chs)" by (rule valid_weaken) (auto simp: node_step_def check_round_def)
qed simp

lemma timed_out_changes: "changes S ch (check_timed_out_channel m t ch)"
proof -
  have "changes S ch (if b then logged (force_close_channel_internal m ch True) else lift_res (Ok ()))" for b
    using valid_logged [OF force_close_changes] by (simp add: changes_lift)
  then show ?thesis
    unfolding check_timed_out_channel_def
    by (cases "state_timeout t (ch_state ch)") (auto intro: changes_lift changes_quiet [OF quiet_queries(2)])
qed

lemma timeouts_follow: "filed S \<Longrightarrow> follows S (check_for_timed_out_channels m)"
  unfolding check_for_timed_out_channels_def check_timed_out_in_state_def
  by (intro follows_each follows_listed timed_out_changes)

lemma closings_follow:
  "filed S \<Longrightarrow> follows S (and_do (read_store (\<lambda>n. cst_get_signed_channels (cm_store m) (Some ClosingType) (nd_store n)))
    (for_each (\<lambda>ch. logged (try_finalize_closing_established_channel m ch))))"
  by (intro follows_listed valid_logged [OF finalize_changes])

lemma channel_checks_follow:
  assumes "filed S"
  shows "follows S (channel_checks m)"
proof -
  have "follows S (and_do (and_do (read_store (\<lambda>n. cst_get_signed_channels (cm_store m) (Some ClosingType) (nd_store n)))
      (for_each (\<lambda>ch. logged (try_finalize_closing_established_channel m ch)))) (\<lambda>_.
      and_do (logged (check_for_timed_out_channels m)) (\<lambda>_. check_for_watched_tx m)))"
    by (intro follows_bind closings_follow valid_logged [OF timeouts_follow] watched_follows; blast intro: assms filed_steps rtranclp_trans)
  then show ?thesis unfolding channel_checks_def and_do_assoc .
qed

end

end
