(* ===== verification/Channel_Calls.thy ===== *)
theory Channel_Calls
  imports Channel_Closing
begin

text \<open>
  The messages that set up a channel and the calls for contracts; any sequence of calls, messages and checks follows the machine
  of channels on both storages.
\<close>

context channel_node begin

section \<open>Setting up and rejecting\<close>

lemma monitor_result: "fst (monitor_do f \<sigma>) = fst (f (nd_monitor (ms_store \<sigma>)))"
  by (simp add: monitor_do_def write_store_def split: prod.split)

lemma asked_monitor_result:
  "fst (and_do (ask h) (\<lambda>w. monitor_do (f w)) \<sigma>) = fst (f (h (ms_calls \<sigma>)) (nd_monitor (ms_store \<sigma>)))"
  by (simp add: and_do_def ask_def monitor_result)

lemma accepted_steps:
  assumes "filed S" "S i = Some (AcceptedChannel a)"
  shows "fsc_channel_id g = i \<Longrightarrow> channel_step S (FailedSignChannel g)"
    "phase ch = (EstablishedType, None) \<and> ch_id ch = acc_channel_id a \<Longrightarrow> channel_step S (SignedChannel ch)"
proof -
  have "acc_channel_id a = i" using assms unfolding filed_def by force
  then show "fsc_channel_id g = i \<Longrightarrow> channel_step S (FailedSignChannel g)"
    "phase ch = (EstablishedType, None) \<and> ch_id ch = acc_channel_id a \<Longrightarrow> channel_step S (SignedChannel ch)"
    using assms by (auto intro: channel_step.intros)
qed

lemma fail_follows:
  assumes "filed S"
  shows "S (ach_temporary_channel_id am) = Some (OfferedChannel x) \<Longrightarrow> follows S (fail_accept_channel m am peer e)"
    "S (sch_channel_id sm) = Some (AcceptedChannel a) \<Longrightarrow> follows S (fail_sign_channel m sm peer e)"
  unfolding fail_accept_channel_def fail_sign_channel_def
  by (rule follows_rules | (auto intro: offered_steps [OF assms] accepted_steps [OF assms])[1])+

lemma quiet_asked [quiets]: "quiet channels (\<lambda>\<sigma>. and_do (ask h) (\<lambda>w. monitor_do (f w \<sigma>)) \<sigma>)"
  by (rule quiet_state) (intro quiets)

lemma on_accept_follows:
  assumes "filed S"
  shows "follows S (on_accept_channel m msg peer)"
  unfolding on_accept_channel_def
proof (intro valid_channel_in_state valid_quiet_bind [OF quiet_queries(7)] valid_on_quiet [OF quiet_asked])
  fix c x oc \<sigma> p
  assume c: "as_offered_channel c = Some x" "S = channels (ms_store \<sigma>) \<and> channels (ms_store \<sigma>) (ach_temporary_channel_id msg) = Some c"
    and "fst (and_do (ask (\<lambda>n. sign_psbt_input m n)) (\<lambda>wallet. monitor_do (verify_and_sign_accepted_channel (mg_api m) (cm_deps m)
         wallet (lookup_of m \<sigma>) x oc msg CET_NSEQUENCE)) \<sigma>) = Ok p"
  then obtain ch s sm where p: "p = (ch, s, sm)" "phase ch = (EstablishedType, None) \<and> ch_temporary_id ch = ofc_temporary_channel_id x"
    using new_channel_phase by (cases p) (fastforce simp: asked_monitor_result)
  have st: "channel_step S (SignedChannel ch)"
    by (rule offered_steps(4) [OF assms _ p(2)]) (use c in auto)
  show "valid channels (steps S) (\<lambda>S'. S = S' \<and> S' (ach_temporary_channel_id msg) = Some c)
    (case p of (signed_channel, signed_contract, sign_channel) \<Rightarrow>
          and_do (request (\<lambda>n. import_address m n (funding_witness_script (ac_dlc_transactions (sc_accepted_contract signed_contract))))) (\<lambda>_.
          and_do (watch_buffer m signed_channel) (\<lambda>_.
          and_do (upsert_channel m (SignedChannel signed_channel) (Some (Signed signed_contract))) (\<lambda>_.
          and_do (persist_monitor m) (\<lambda>_. lift_res (Ok sign_channel)))))) (\<lambda>_. steps S)"
    unfolding p prod.case
    by (intro valid_request_info valid_step_bind valid_quiet_bind [OF quiet_watch_buffer] quiet_and_do quiet_persist quiet_queries)
      (auto intro: st)
next
  fix c x oc e
  assume c: "as_offered_channel c = Some x"
  show "valid channels (steps S) (\<lambda>S'. S = S' \<and> S' (ach_temporary_channel_id msg) = Some c) (fail_accept_channel m msg peer e) (\<lambda>_. steps S)"
  proof (rule valid_at)
    fix S' assume "S = S' \<and> S' (ach_temporary_channel_id msg) = Some c"
    then have "S' = S" "S (ach_temporary_channel_id msg) = Some (OfferedChannel x)" using c by auto
    then show "valid channels (steps S) ((=) S') (fail_accept_channel m msg peer e) (\<lambda>_. steps S)" using fail_follows(1) [OF assms] by simp
  qed
qed auto

lemma on_sign_follows:
  assumes "filed S"
  shows "follows S (on_sign_channel m msg peer)"
  unfolding on_sign_channel_def
proof (intro valid_channel_in_state valid_quiet_bind [OF quiet_queries(7)] valid_on_quiet [OF quiet_asked])
  fix c x ac \<sigma> p
  assume c: "as_accepted_channel c = Some x" "S = channels (ms_store \<sigma>) \<and> channels (ms_store \<sigma>) (sch_channel_id msg) = Some c"
    and "fst (and_do (ask (\<lambda>n. sign_psbt_input m n)) (\<lambda>wallet. monitor_do (verify_signed_channel (mg_api m) (cm_deps m)
         wallet (lookup_of m \<sigma>) x ac msg)) \<sigma>) = Ok p"
  then obtain ch s tx where p: "p = (ch, s, tx)" "phase ch = (EstablishedType, None) \<and> ch_id ch = acc_channel_id x"
    using verified_channel_phase by (cases p) (fastforce simp: asked_monitor_result)
  have st: "channel_step S (SignedChannel ch)"
    by (rule accepted_steps(2) [OF assms _ p(2)]) (use c in auto)
  show "valid channels (steps S) (\<lambda>S'. S = S' \<and> S' (sch_channel_id msg) = Some c)
    (case p of (signed_channel, signed_contract, signed_fund_tx) \<Rightarrow>
          and_do (watch_buffer m signed_channel) (\<lambda>_.
          and_do (send_transaction m signed_fund_tx) (\<lambda>_.
          and_do (upsert_channel m (SignedChannel signed_channel) (Some (Signed signed_contract))) (\<lambda>_. persist_monitor m)))) (\<lambda>_. steps S)"
    unfolding p prod.case
    by (intro valid_quiet_bind [OF quiet_watch_buffer] valid_quiet_bind [OF quiet_queries(5)] valid_step_bind quiet_persist) (auto intro: st)
next
  fix c x ac e
  assume c: "as_accepted_channel c = Some x"
  show "valid channels (steps S) (\<lambda>S'. S = S' \<and> S' (sch_channel_id msg) = Some c) (fail_sign_channel m msg peer e) (\<lambda>_. steps S)"
  proof (rule valid_at)
    fix S' assume "S = S' \<and> S' (sch_channel_id msg) = Some c"
    then have "S' = S" "S (sch_channel_id msg) = Some (AcceptedChannel x)" using c by auto
    then show "valid channels (steps S) ((=) S') (fail_sign_channel m msg peer e) (\<lambda>_. steps S)" using fail_follows(2) [OF assms] by simp
  qed
qed auto

lemma on_reject_follows:
  assumes "filed S"
  shows "follows S (manager_on_reject m msg peer)"
  unfolding manager_on_reject_def
proof (rule valid_get_channel, goal_cases)
  case (2 r)
  show ?case
  proof (cases r)
    case (Some c)
    show ?thesis unfolding Some option.case
    proof (rule valid_lift_bind, goal_cases)
      case (2 u)
      show ?case
      proof (cases c)
        case (OfferedChannel x)
        show ?thesis unfolding OfferedChannel channel.case
          by (intro valid_quiet_bind [OF quiet_queries(7)] valid_lift_bind valid_request_info valid_step)
            (auto intro: offered_steps(1) [OF assms])
      next
        case (SignedChannel ch)
        show ?thesis unfolding SignedChannel channel.case
          by (intro valid_quiet_bind [OF quiet_option] valid_run [OF on_reject_moves] valid_pair quiets)
            (auto intro!: valid_step intro: updated_step [OF assms])
      qed (auto intro: valid_lift)
    qed auto
  qed (auto intro: valid_lift)
qed auto

section \<open>Calls that leave the channels alone\<close>

lemma quiet_request_at: "quiet f (\<lambda>\<sigma>. request (h \<sigma>) \<sigma>)"
  by (rule quiet_state) (rule quiet_queries)

lemma quiet_contract_messages:
  "quiet channels (on_offer_message m om p)" "quiet channels (on_accept_message m am p)" "quiet channels (on_sign_message m sm p)"
  "quiet channels (on_close_message m cm p)"
  unfolding on_offer_message_def on_accept_message_def on_sign_message_def on_close_message_def accept_fail_on_error_def sign_fail_on_error_def Let_def
  by (intro quiets quiet_request_at)+

lemma quiet_offers:
  "quiet channels (send_offer m inp p)" "quiet channels (send_offer_with_announcements m inp p anns)"
  "quiet channels (send_splice_offer m inp p i)" "quiet channels (send_splice_offer_with_announcements m inp p i anns)"
  "quiet channels (accept_contract_offer m i)"
  unfolding send_offer_def send_offer_with_announcements_def send_splice_offer_def send_splice_offer_with_announcements_def store_offer_def
    accept_contract_offer_def
  by (intro quiets)+

lemma quiet_refund [quiets]: "quiet channels (check_and_broadcast_refund m i)" "quiet channels (check_refund m s)"
  unfolding check_and_broadcast_refund_def check_refund_def sign_and_send_refund_def Let_def
  by (intro quiets)+

lemma quiet_pending [quiets]: "quiet channels (check_pending_closes m s txs)"
  by (induction txs) (auto intro!: quiets simp: Let_def)

lemma quiet_checks:
  "quiet channels (check_contracts m)"
  unfolding check_contracts_def check_for_spliced_contract_def check_splice_def check_signed_contracts_def check_signed_contract_def
    check_confirmed_contracts_def check_confirmed_contract_def check_preclosed_contracts_def check_preclosed_contract_def Let_def
  by (intro quiets)

lemma quiet_closes:
  "quiet channels (close_confirmed_contract m i atts)" "quiet channels (cooperative_close_contract m i n)"
  "quiet channels (accept_cooperative_close m i msg)" "quiet channels (on_counterparty_close m s tx n)"
  unfolding close_confirmed_contract_def cooperative_close_contract_def accept_cooperative_close_def on_counterparty_close_def Let_def
  by (intro quiets)+

end

section \<open>Sequences of calls\<close>

text \<open>What the application and the peer can do with the methods for channels, and the calls for contracts.\<close>

datatype channel_call =
    ContractCall call
  | OfferChannelTo contract_input pubkey
  | RejectChannel bytes
  | AcceptChannelOf bytes
  | ForceCloseChannel bytes
  | SettleChannel bytes nat
  | AcceptSettle bytes
  | RejectSettle bytes
  | RenewChannel bytes nat contract_input
  | AcceptRenewal bytes
  | RejectRenewal bytes
  | CloseTogether bytes nat "out_point list"
  | AcceptCloseTogether bytes
  | OnMessage message pubkey
  | ChainMonitorCheck
  | AllChecks bool

fun run_channel_call :: "('s, 'x) channel_manager_scheme \<Rightarrow> channel_call \<Rightarrow> (unit, 's) node_action" where
  "run_channel_call m (ContractCall c) = run_call m c"
| "run_channel_call m (OfferChannelTo inp p) = ignore (manager_offer_channel m inp p)"
| "run_channel_call m (RejectChannel i) = ignore (reject_channel m i)"
| "run_channel_call m (AcceptChannelOf i) = ignore (manager_accept_channel m i)"
| "run_channel_call m (ForceCloseChannel i) = force_close_channel m i"
| "run_channel_call m (SettleChannel i payout) = ignore (manager_settle_offer m i payout)"
| "run_channel_call m (AcceptSettle i) = ignore (accept_settle_offer m i)"
| "run_channel_call m (RejectSettle i) = ignore (manager_reject_settle_offer m i)"
| "run_channel_call m (RenewChannel i payout inp) = ignore (manager_renew_offer m i payout inp)"
| "run_channel_call m (AcceptRenewal i) = ignore (accept_renew_offer m i)"
| "run_channel_call m (RejectRenewal i) = ignore (manager_reject_renew_offer m i)"
| "run_channel_call m (CloseTogether i payout ins) = ignore (manager_offer_collaborative_close m i payout ins)"
| "run_channel_call m (AcceptCloseTogether i) = accept_collaborative_close m i"
| "run_channel_call m (OnMessage msg p) = ignore (manager_on_dlc_message m msg p)"
| "run_channel_call m ChainMonitorCheck = periodic_chain_monitor m"
| "run_channel_call m (AllChecks b) = periodic_check m b"

fun run_channel_calls :: "('s, 'x) channel_manager_scheme \<Rightarrow> channel_call list \<Rightarrow> 's node_state manager_state \<Rightarrow> 's node_state manager_state" where
  "run_channel_calls m [] \<sigma> = \<sigma>"
| "run_channel_calls m (c # cs) \<sigma> = run_channel_calls m cs (snd (run_channel_call m c \<sigma>))"

context channel_node begin

lemma follows_ignore: "follows S act \<Longrightarrow> follows S (ignore act)"
  unfolding ignore_def by (intro follows_bind follows_done)

lemma follows_answer: "follows S act \<Longrightarrow> follows S (answer_with act f)"
  unfolding answer_with_def by (intro follows_bind follows_done)

lemma follows_of_quiet: "quiet channels act \<Longrightarrow> follows S act"
  by (rule valid_quiet) auto

lemma quiet_dlc_message: "quiet channels (on_dlc_message m msg p)"
  unfolding on_dlc_message_def by (cases msg) (auto intro!: quiet_and_do quiet_queries quiet_contract_messages)

lemma contract_call_quiet: "quiet channels (run_call m c)"
  by (cases c; simp only: run_call.simps ignore_def;
      intro quiet_and_do quiet_queries quiet_refund quiet_offers quiet_checks quiet_closes quiet_dlc_message)

lemmas message_rules = quiet_contract_messages [THEN follows_of_quiet] offer_calls(4) on_accept_follows on_sign_follows
  settle_handlers settle_calls(4) renew_calls(4) renew_handlers close_calls(2) on_reject_follows

lemma message_follows: "filed S \<Longrightarrow> follows S (manager_on_dlc_message m msg p)"
  by (cases msg; simp only: manager_on_dlc_message.simps; rule follows_answer; rule message_rules; assumption?)

lemma force_close_call_follows:
  assumes "filed S"
  shows "follows S (force_close_channel m i)"
  unfolding force_close_channel_def
proof (rule valid_channel_in_state)
  fix c ch assume c: "as_signed_channel c = Some ch"
  show "valid channels (steps S) (\<lambda>S'. S = S' \<and> S' i = Some c) (force_close_channel_internal m ch True) (\<lambda>_. steps S)"
  proof (rule valid_at)
    fix S' assume "S = S' \<and> S' i = Some c"
    then have "S' = S" "kept S ch" using filed_kept [OF assms, of i ch] c by auto
    then show "valid channels (steps S) ((=) S') (force_close_channel_internal m ch True) (\<lambda>_. steps S)"
      using changes_follows [OF _ force_close_changes] by simp
  qed
qed auto

lemma quiet_blocks: "quiet channels (periodic_chain_monitor m)"
proof -
  have "quiet channels (process_heights m hs)" for hs by (induction hs) (auto intro!: quiets)
  then show ?thesis unfolding periodic_chain_monitor_def by (intro quiets)
qed

lemmas call_rules = offer_calls(1-3) settle_calls(1-3) renew_calls(1-3) close_calls(1)

lemma call_follows:
  assumes "filed S"
  shows "follows S (run_channel_call m c)"
proof (cases c)
  case (AllChecks b)
  have "follows S' (if b then channel_checks m else lift_res (Ok ()))" if "S' = S" for S'
    using assms AllChecks that by (auto intro: channel_checks_follow follows_done)
  then have "follows S (periodic_check m b)"
    unfolding periodic_check_def by (intro follows_quiet quiet_checks) simp
  then show ?thesis using AllChecks by simp
next
  case (ForceCloseChannel i)
  then show ?thesis using force_close_call_follows [OF assms] by simp
next
  case (AcceptCloseTogether i)
  then show ?thesis using close_together [OF assms] by simp
qed (simp_all add: follows_of_quiet contract_call_quiet quiet_blocks follows_ignore message_follows call_rules [OF assms] assms)

lemma run_follows:
  assumes "filed (channels (ms_store \<sigma>))"
  shows "steps (channels (ms_store \<sigma>)) (channels (ms_store (run_channel_calls m cs \<sigma>)))"
  using assms
proof (induction cs arbitrary: \<sigma>)
  case (Cons c cs)
  let ?\<sigma>' = "snd (run_channel_call m c \<sigma>)"
  have "steps (channels (ms_store \<sigma>)) (channels (ms_store ?\<sigma>'))"
    using call_follows [OF Cons.prems, of c] by (auto simp: valid_def case_prod_beta)
  moreover from this have "filed (channels (ms_store ?\<sigma>'))" using filed_steps Cons.prems by blast
  ultimately show ?case using Cons.IH [of ?\<sigma>'] by auto
qed simp

end

text \<open>The manager on the two storages.\<close>

definition on_memory_node :: "(memory_storage, 'x) channel_manager_scheme \<Rightarrow> (bytes \<Rightarrow> nat) \<Rightarrow> (memory_storage, 'x) channel_manager_scheme" where
  "on_memory_node m hash =
     m\<lparr>mg_store := node_ops (memory_store_ops (mg_api m) hash), cm_store := memory_channel_ops (mg_api m) hash\<rparr>"

definition on_sled_node :: "(sled_storage, 'x) channel_manager_scheme \<Rightarrow> (sled_storage, 'x) channel_manager_scheme" where
  "on_sled_node m = m\<lparr>mg_store := node_ops (sled_store_ops (mg_api m)), cm_store := sled_channel_ops (mg_api m)\<rparr>"

lemma on_node_simps [simp]:
  "mg_store (on_memory_node m hash) = node_ops (memory_store_ops (mg_api m) hash)"
  "cm_store (on_memory_node m hash) = memory_channel_ops (mg_api m) hash"
  "mg_store (on_sled_node m') = node_ops (sled_store_ops (mg_api m'))" "cm_store (on_sled_node m') = sled_channel_ops (mg_api m')"
  by (simp_all add: on_memory_node_def on_sled_node_def)

interpretation memory_node: channel_node "on_memory_node m hash" "\<lambda>st. DAList.lookup (mem_channels st)" False for m hash
  unfolding channel_node_def channel_node_axioms_def
  by (auto simp: memory_channels.channel_storage_axioms node_ops_def on_node_def memory_store_ops_def Let_def split: prod.splits)

interpretation sled_node: channel_node "on_sled_node m" "\<lambda>st. DAList.lookup (sled_channels st)" True for m
  unfolding channel_node_def channel_node_axioms_def
  by (auto simp: sled_channels.channel_storage_axioms node_ops_def on_node_def sled_store_ops_def Let_def split: prod.splits)

section \<open>The stored channels\<close>

text \<open>A manager that starts with an empty storage; the chain monitor starts at a height.\<close>

definition fresh_memory :: "nat \<Rightarrow> memory_storage node_state manager_state" where
  "fresh_memory height = \<lparr>ms_store = \<lparr>nd_store = \<lparr>mem_contracts = DAList.empty, mem_channels = DAList.empty\<rparr>,
     nd_monitor = monitor_new height\<rparr>, ms_calls = 0, ms_sent = []\<rparr>"

definition fresh_sled :: "nat \<Rightarrow> sled_storage node_state manager_state" where
  "fresh_sled height = \<lparr>ms_store = \<lparr>nd_store = \<lparr>sled_contracts = DAList.empty, sled_channels = DAList.empty, sled_monitor = None\<rparr>,
     nd_monitor = monitor_new height\<rparr>, ms_calls = 0, ms_sent = []\<rparr>"

definition memory_channel_map :: "memory_storage node_state \<Rightarrow> bytes \<rightharpoonup> channel" where
  "memory_channel_map n = DAList.lookup (mem_channels (nd_store n))"

definition sled_channel_map :: "sled_storage node_state \<Rightarrow> bytes \<rightharpoonup> channel" where
  "sled_channel_map n = DAList.lookup (sled_channels (nd_store n))"

lemma channel_maps: "memory_node.channels = memory_channel_map" "sled_node.channels = sled_channel_map"
  by (simp_all add: fun_eq_iff memory_node.channels_def sled_node.channels_def memory_channel_map_def sled_channel_map_def)

lemma fresh_channels [simp]:
  "memory_channel_map (ms_store (fresh_memory h)) = Map.empty" "sled_channel_map (ms_store (fresh_sled h)) = Map.empty"
  "filed Map.empty"
  by (simp_all add: memory_channel_map_def sled_channel_map_def fresh_memory_def fresh_sled_def fun_eq_iff lookup_empty filed_def)

text \<open>
  C5. The life of a channel.  Whatever calls the application makes and whatever messages the peer sends, and whatever the wallet, the
  blockchain, the clock and the oracles answer, the stored channels change by steps of the abstract machine only, and each is stored under
  its identifier: an offer is accepted or cancelled, a channel is signed after an offer or an acceptance, a signed channel keeps its parties,
  keys and funding transaction and moves between the phases of settlement, renewal and closing, and ends closed or punished.  A step of
  the storage in sled trees also removes what is stored under the temporary identifier of the channel that is written; a periodic check there can write
  a channel back that the same check has removed as such an entry of another one.  In memory neither happens.
\<close>

theorem calls_are_channel_steps:
  "(next_store False)\<^sup>*\<^sup>* Map.empty (memory_channel_map (ms_store (run_channel_calls (on_memory_node m hash) cs (fresh_memory h)))) \<and>
   channel_steps True Map.empty (sled_channel_map (ms_store (run_channel_calls (on_sled_node m') cs (fresh_sled h)))) \<and>
   filed (memory_channel_map (ms_store (run_channel_calls (on_memory_node m hash) cs (fresh_memory h)))) \<and>
   filed (sled_channel_map (ms_store (run_channel_calls (on_sled_node m') cs (fresh_sled h))))"
proof -
  have m: "channel_steps False Map.empty (memory_channel_map (ms_store (run_channel_calls (on_memory_node m hash) cs (fresh_memory h))))"
    using memory_node.run_follows [where \<sigma> = "fresh_memory h" and cs = cs and m = m and hash = hash] by (simp add: channel_maps)
  have s: "channel_steps True Map.empty (sled_channel_map (ms_store (run_channel_calls (on_sled_node m') cs (fresh_sled h))))"
    using sled_node.run_follows [where \<sigma> = "fresh_sled h" and cs = cs and m = m'] by (simp add: channel_maps)
  show ?thesis using m s plain_steps [OF m] filed_steps [OF m] filed_steps [OF s] by simp
qed

end
