(* ===== verification/Channel_Hazards.thy ===== *)
theory Channel_Hazards
  imports Channel_Checks Channel_Settlement
begin

text \<open>
  What a peer can make the periodic checks do during a settlement: panic, and publish a state that has been revoked.
\<close>

lemma memory_signed:
  assumes "cm_store m = memory_channel_ops (mg_api m) hash"
    and "DAList.lookup (mem_channels (nd_store (ms_store \<sigma>))) i = Some (SignedChannel ch)"
    and "\<And>p. peer = Some p \<Longrightarrow> p = ch_counter_party ch"
  shows "get_channel_in_state m i as_signed_channel peer \<sigma> = (Ok ch, \<sigma>)"
  using assms by (cases peer) (auto simp: get_channel_in_state_def get_channel_def and_do_def read_store_def lift_res_def memory_channel_ops_def)

text \<open>
  C36. A settlement offer makes the checks panic when a buffer transaction confirms.  A channel whose contract is established receives
  a settlement offer of its peer, which it takes without being asked; when the buffer transaction of the channel is confirmed then, which the
  peer can publish, the check of the watched transactions panics: it looks for the contract of a state that has none.
\<close>

theorem settle_offer_panics_buffer_check:
  assumes "cm_store m = memory_channel_ops (mg_api m) hash"
    and "DAList.lookup (mem_channels (nd_store (ms_store \<sigma>))) (sto_channel_id msg) = Some (SignedChannel ch)" "ch_id ch = sto_channel_id msg"
    and "ch_state ch = Established e" "channel_collateral ch = (Ok amount :: (_, manager_error) res)" "sto_counter_payout msg \<le> amount"
  shows "\<exists>\<sigma>'. manager_on_settle_offer m msg (ch_counter_party ch) \<sigma> = (Ok None, \<sigma>') \<and>
    process_watched_txs m ((tx, \<lparr>ch_channel_id = sto_channel_id msg, ch_tx_type = BufferTx\<rparr>) # txs) \<sigma>' = (Panic, \<sigma>')"
proof -
  let ?st = "SettledReceived \<lparr>sr_own_payout = sto_counter_payout msg, sr_counter_payout = amount - sto_counter_payout msg,
      sr_counter_next_per_update_point = sto_next_per_update_point msg, sr_keys_id = es_keys_id e\<rparr>"
  let ?ch = "enter_state ?st ch"
  let ?n = "(ms_store \<sigma>)\<lparr>nd_store := (nd_store (ms_store \<sigma>))\<lparr>mem_channels :=
      DAList.update (sto_channel_id msg) (SignedChannel ?ch) (mem_channels (nd_store (ms_store \<sigma>)))\<rparr>\<rparr>"
  have run: "run_update ch (on_settle_offer msg) \<sigma> = (Ok ((), ?ch), \<sigma>)"
    using assms(4-6)
    by (simp add: run_update_def monitor_do_def write_store_def on_settle_offer_def with_channel_def then_do_def attempt_def in_state_def
        set_channel_def)
  have on: "manager_on_settle_offer m msg (ch_counter_party ch) \<sigma> = (Ok None, \<sigma>\<lparr>ms_store := ?n\<rparr>)"
    using assms(1,3,4) memory_signed [OF assms(1,2), of "Some (ch_counter_party ch)"] run
    by (simp add: manager_on_settle_offer_def and_do_def is_of_type_def upsert_channel_def write_store_def on_node_def memory_channel_ops_def
        memory_upsert_channel_def lift_res_def enter_state_def)
  have "get_channel_in_state m (sto_channel_id msg) as_signed_channel None (\<sigma>\<lparr>ms_store := ?n\<rparr>) = (Ok ?ch, \<sigma>\<lparr>ms_store := ?n\<rparr>)"
    by (rule memory_signed [OF assms(1)]) (simp_all add: DAList.lookup_update)
  then have "process_watched_tx m (tx, \<lparr>ch_channel_id = sto_channel_id msg, ch_tx_type = BufferTx\<rparr>) (\<sigma>\<lparr>ms_store := ?n\<rparr>) =
      (Panic, \<sigma>\<lparr>ms_store := ?n\<rparr>)"
    by (simp add: process_watched_tx_def on_result_def saw_buffer_def and_do_def lift_res_def channel_contract_id_def enter_state_def)
  then show ?thesis using on by (simp add: process_watched_txs_def and_do_def)
qed

definition example_established_node :: "memory_storage node_state manager_state" where
  "example_established_node = \<lparr>ms_store = \<lparr>nd_store = \<lparr>mem_contracts = DAList.empty,
     mem_channels = DAList.update [60] (SignedChannel (example_channel 2)) DAList.empty\<rparr>, nd_monitor = monitor_new 100\<rparr>,
     ms_calls = 0, ms_sent = []\<rparr>"

lemma settle_offer_panics_buffer_check_witness:
  "\<forall>(m :: memory_storage channel_manager) hash. \<exists>\<sigma>'.
    manager_on_settle_offer (m\<lparr>cm_store := memory_channel_ops (mg_api m) hash\<rparr>) example_settle_offer [44] example_established_node = (Ok None, \<sigma>') \<and>
    process_watched_txs (m\<lparr>cm_store := memory_channel_ops (mg_api m) hash\<rparr>)
      [(es_buffer_transaction (example_established 2), \<lparr>ch_channel_id = [60], ch_tx_type = BufferTx\<rparr>)] \<sigma>' = (Panic, \<sigma>')"
proof (intro allI)
  fix m :: "memory_storage channel_manager" and hash
  let ?m = "m\<lparr>cm_store := memory_channel_ops (mg_api m) hash\<rparr>"
  have c: "ch_counter_party (example_channel 2) = [44]" "ch_id (example_channel 2) = [60]"
    "channel_collateral (example_channel 2) = (Ok 200000 :: (_, manager_error) res)"
    by (simp_all add: example_channel_def channel_collateral_def example_channel_params_def Let_def uadd_def)
  show "\<exists>\<sigma>'. manager_on_settle_offer ?m example_settle_offer [44] example_established_node = (Ok None, \<sigma>') \<and>
      process_watched_txs ?m [(es_buffer_transaction (example_established 2), \<lparr>ch_channel_id = [60], ch_tx_type = BufferTx\<rparr>)] \<sigma>' = (Panic, \<sigma>')"
    using settle_offer_panics_buffer_check [of ?m hash example_established_node example_settle_offer "example_channel 2" "example_established 2" 200000]
    by (simp add: c example_established_node_def example_channels example_settle_offer_def DAList.lookup_update)
qed

section \<open>A settlement that is not finished\<close>

text \<open>
  C35. A settlement that the peer does not finish makes the manager publish a revoked state.  The party that confirms a settlement sends the
  secret that revokes the former state; when the peer does not answer in time, the periodic check closes the channel with the buffer
  transaction of that former state, which the peer can punish with the secret.
\<close>

theorem timeout_publishes_revoked_state:
  fixes M :: "('s, 'x) channel_manager_scheme"
  assumes "settle_channel_confirm api deps msg csv lt peer_timeout now \<lparr>us_channel = ch, us_monitor = mon\<rparr> = (Ok answer, s)"
    and "ch_roll_back_state ch = Some (Established e)" "now + peer_timeout < unix_time_now M (ms_calls \<sigma>)"
  shows "\<exists>seed. get_secret_key_for_pubkey deps (ch_own_per_update_seed ch) = Ok seed \<and>
      commitment_secret deps seed (ch_update_idx ch) = Some (stc_prev_per_update_secret answer) \<and>
    check_timed_out_channel M SettledConfirmedType (us_channel s) \<sigma> =
      logged (manager_initiate_unilateral_close M (ch\<lparr>ch_state := Established e, ch_roll_back_state := None\<rparr>) True
        (es_counter_buffer_adaptor_signature e) (es_buffer_transaction e)) (\<sigma>\<lparr>ms_calls := Suc (ms_calls \<sigma>)\<rparr>)"
proof -
  obtain x st seed where x: "us_channel s = ch\<lparr>ch_state := SettledConfirmed x\<rparr>" "sf_timeout x = now + peer_timeout"
    "get_secret_key_for_pubkey deps (ch_own_per_update_seed ch) = Ok seed"
    "commitment_secret deps seed (ch_update_idx ch) = Some (stc_prev_per_update_secret answer)"
    using assms(1)
    by (auto simp: settle_channel_confirm_def update_simps prev_per_update_secret_def res_simps split: signed_channel_state.splits prod.splits)
  have "force_close_channel_internal M (us_channel s) True =
      manager_initiate_unilateral_close M (ch\<lparr>ch_state := Established e, ch_roll_back_state := None\<rparr>) True
        (es_counter_buffer_adaptor_signature e) (es_buffer_transaction e)"
    using x(1) assms(2) by (simp add: force_close_channel_internal.simps)
  then show ?thesis
    using x assms(3) by (simp add: check_timed_out_channel_def and_do_def ask_def)
qed

definition example_settle_answer :: settle_accept where
  "example_settle_answer = \<lparr>sta_channel_id = [60], sta_next_per_update_point = [51], sta_settle_adaptor_signature = [13, 25]\<rparr>"

lemma example_settle_confirm:
  "\<exists>answer s. settle_channel_confirm example_updater_api example_deps example_settle_answer 288 0 3600 100 example_offering = (Ok answer, s)"
proof -
  have "\<exists>tx. create_settle_transaction (channel_of example_updater_api example_deps) inp off acc 150000 50000 288 0 200929 1 = Ok tx \<and>
      tx_input tx = [inp]" for inp off acc
    by (simp add: create_settle_transaction_def settle_descriptor_def Let_def discard_dust_def DUST_LIMIT_def usub_def udiv_def uadd_def
        weight_to_fee_eq SETTLE_INPUT_WEIGHT_def SETTLE_OUTPUT_WEIGHT_def numeral_2_eq_2 [symmetric])
  then obtain tx where tx: "create_settle_transaction (channel_of example_updater_api example_deps) inp off acc 150000 50000 288 0 200929 1 = Ok (tx inp off acc)"
    "tx_input (tx inp off acc) = [inp]" for inp off acc
    by metis
  show ?thesis
    by (simp add: settle_channel_confirm_def update_simps example_offering_def example_settle_answer_def enter_state_def prev_per_update_secret_def
        example_channel_def Let_def uadd_def usub_def example_channel_params_def get_settle_tx_and_adaptor_sig_def
        get_revokable_params_def example_points_def example_derive example_derive_revocation index_def example_fund_tx_def tx [unfolded One_nat_def]
        get_tx_adaptor_signature_def verify_tx_adaptor_signature_def get_sig_hash_msg_def)
qed

lemma timeout_publishes_revoked_state_witness:
  "\<exists>answer s. settle_channel_confirm example_updater_api example_deps example_settle_answer 288 0 3600 100 example_offering = (Ok answer, s) \<and>
    (\<exists>seed. commitment_secret example_deps seed 7 = Some (stc_prev_per_update_secret answer)) \<and>
    (\<forall>(M :: memory_storage channel_manager) \<sigma>. 3700 < unix_time_now M (ms_calls \<sigma>) \<longrightarrow>
      check_timed_out_channel M SettledConfirmedType (us_channel s) \<sigma> =
        logged (manager_initiate_unilateral_close M (example_channel 1) True
          (es_counter_buffer_adaptor_signature (example_established 1)) (es_buffer_transaction (example_established 1)))
          (\<sigma>\<lparr>ms_calls := Suc (ms_calls \<sigma>)\<rparr>))"
proof -
  obtain answer s where a: "settle_channel_confirm example_updater_api example_deps example_settle_answer 288 0 3600 100 example_offering = (Ok answer, s)"
    using example_settle_confirm by blast
  define ch where "ch = us_channel example_offering"
  have c: "example_offering = \<lparr>us_channel = ch, us_monitor = monitor_new 100\<rparr>" "ch_roll_back_state ch = Some (Established (example_established 1))"
    "ch\<lparr>ch_state := Established (example_established 1), ch_roll_back_state := None\<rparr> = example_channel 1" "ch_update_idx ch = 7"
    by (simp_all add: ch_def example_offering_def enter_state_def example_channel_def Let_def)
  note published = timeout_publishes_revoked_state [OF a [unfolded c(1)] c(2), unfolded c(3,4)]
  have "\<exists>seed. commitment_secret example_deps seed 7 = Some (stc_prev_per_update_secret answer)"
    using published [of "undefined\<lparr>unix_time_now := \<lambda>_. 3701\<rparr>" undefined] by auto
  then show ?thesis using a published by (intro exI [of _ answer] exI [of _ s]) auto
qed

end
