(* ===== verification/Spec2Isabelle.thy ===== *)
theory Spec2Isabelle
  imports Digit_Decomposition Combination_Iterator Digit_Trie Outcome_Agreement Multi_Oracle_Trie Dlc_Transactions Channel_Transactions
    Payout_Curve Dlc_Trie Oracle_Messages Message_Handler Contract_Invariants Channel_Setup Channel_Punishment Channel_Calls Channel_Hazards
begin

text \<open>
  \<^bold>\<open>The program.\<close>  dlcdevkit lets two parties make discreet log contracts on Bitcoin: both lock collateral in one
  output, and one contract execution transaction (CET) for each outcome pays it out.  Each party gives the other an
  adaptor signature of each CET, which turns into a signature with the oracles' attestation of the outcome.
  The crates build on each other: \<open>dlc\<close> builds and signs transactions, \<open>dlc-trie\<close> finds the CET of a numerical
  outcome of several oracles, \<open>dlc-messages\<close> is the wire format, \<open>ddk-manager\<close> keeps contracts and reacts to messages and
  to the blockchain, \<open>ddk\<close> gives it storage and a wallet.

  \<^bold>\<open>Theories and sources.\<close>
  \<^item> \<open>Prelude\<close>: the result of a Rust call (\<open>Ok\<close>, \<open>Err\<close>, \<open>Panic\<close>), arithmetic of \<open>usize\<close> and \<open>u64\<close> as naturals with
    overflow as a panic, indexing, loops that can fail; the collection \<open>res_simps\<close> inverts results.
    \<open>Float64\<close> and \<open>Float_Arithmetic\<close>: the operations of \<open>f64\<close> that the code uses.
  \<^item> \<open>dlc-trie\<close>: \<open>Digit_Decomposition\<close>, \<open>Combination_Iterator\<close>, \<open>Digit_Trie\<close>, \<open>Multi_Oracle\<close> with \<open>Combination_Shape\<close> and
    \<open>Outcome_Agreement\<close> (which outcomes of several oracles agree), \<open>Trie_Utils\<close>, \<open>Multi_Trie\<close>,
    \<open>Multi_Oracle_Trie_With_Diff\<close>, \<open>Multi_Oracle_Trie\<close>, \<open>Trie_Iterators\<close>, \<open>Trie_Types\<close> and \<open>Dlc_Trie\<close> (the signatures of a
    whole trie, \<open>lib.rs\<close>), each after the file of its name.
  \<^item> \<open>dlc\<close>: \<open>Bitcoin_Types\<close>, \<open>Dlc_Transactions\<close> (\<open>lib.rs\<close>, \<open>util.rs\<close>, \<open>dlc_input.rs\<close>), \<open>Channel_Transactions\<close>
    (\<open>channel/mod.rs\<close>), \<open>Signatures\<close> (\<open>secp_utils.rs\<close>, \<open>util.rs\<close> and the signatures of \<open>lib.rs\<close>).
  \<^item> \<open>dlc-messages\<close>: \<open>Wire_Format\<close> (\<open>ser_impls.rs\<close> and the macros, as combinators of codecs), \<open>Oracle_Messages\<close>,
    \<open>Contract_Messages\<close>, \<open>Dlc_Messages\<close>, \<open>Channel_Messages\<close>, \<open>Message_Handler\<close> (with the segmentation of long messages).
  \<^item> \<open>ddk-manager\<close>: \<open>Manager_Types\<close>, \<open>Payout_Curve\<close>, \<open>Contract_Info\<close>, \<open>Conversion\<close>, \<open>Contract_Data\<close> (the states of a
    contract), \<open>Contract_Updater\<close>, \<open>Contract_Protocol\<close> (what two parties achieve, with \<open>Contract_Example\<close>),
    \<open>Contract_Manager\<close> (the methods of \<open>manager.rs\<close> for contracts).  \<open>Contract_Machine\<close> is the life of a contract as an
    abstract machine, with a logic of triples for the methods; \<open>Contract_Lifecycle\<close> shows that the manager implements it,
    in the locale \<open>contract_manager\<close>; \<open>Contract_Invariants\<close> interprets the locale on both storages and states what holds after any
    sequence of calls and messages, with the run of \<open>Manager_Example\<close>.
  \<^item> \<open>ddk-manager\<close>, DLC channels: \<open>Chain_Monitor\<close> (\<open>chain_monitor.rs\<close>), \<open>Channel_Data\<close> (the files of \<open>channel/\<close>: states,
    messages and the keys of each state), \<open>Channel_Updater\<close> (\<open>channel_updater.rs\<close>: setting up, settling, renewing and closing),
    \<open>Channel_Settlement\<close>, \<open>Channel_Setup\<close> and \<open>Channel_Punishment\<close> (what two parties achieve with it), \<open>Channel_Manager\<close> and \<open>Channel_Checks\<close> (the calls,
    the messages and the periodic checks of \<open>manager.rs\<close> for channels).  \<open>Channel_States\<close> is the life of a signed channel as an abstract
    machine of phases; \<open>Channel_Lifecycle\<close>, \<open>Channel_Closing\<close> and \<open>Channel_Calls\<close> show in the locale \<open>channel_node\<close> that the
    manager implements it and interpret the locale on both storages; \<open>Channel_Hazards\<close> states what goes wrong during a settlement.
  \<^item> \<open>ddk\<close>: \<open>Contract_Storage\<close> and \<open>Channel_Storage\<close> (the storage of contracts, channels and the chain monitor in memory and in sled,
    with their laws as the locales \<open>contract_storage\<close> and \<open>channel_storage\<close>).

  \<^bold>\<open>State and operations.\<close>  Structs are records and enums datatypes with the constructors of the source.  The tries are
  arenas, lists of nodes with indices, updated as the code does.  The message handler and the manager are state
  transformers; a method of the manager is a function from its state to a result and the new state, so that what was
  stored before an error or a panic is kept.  The methods for channels work on the storage and the chain monitor; an update of a channel is a
  state transformer on the channel and the monitor, so that what the monitor watches after a failed update is seen.  \<open>Panic\<close> stands for every panic: \<open>unwrap\<close>, \<open>assert!\<close>, an index out of range,
  an arithmetic overflow with the checks of a debug build, and debug assertions.

  \<^bold>\<open>Code outside the repository\<close> is a field of a record of parameters: \<open>bitcoin_api\<close> (identifiers of transactions,
  script hashes), \<open>crypto_api\<close> (the curve and the signature hash, with the laws \<open>crypto_ok\<close>), \<open>channel_api\<close> (miniscript),
  \<open>oracle_api\<close> (SHA-256, Schnorr verification), \<open>wire_api\<close> (integers and keys of the lightning crate), \<open>message_api\<close>,
  \<open>manager_api\<close> and \<open>updater_api\<close> (consensus encoding, key derivation, partially signed transactions), \<open>party_env\<close> (wallet and random numbers),
  \<open>hash_orders\<close> (the order in which a hash map is iterated), \<open>channel_deps\<close> (secrets of each state, their store, derived keys and secret
  keys of a wallet), \<open>manager\<close> and \<open>channel_manager\<close> (blockchain, clock, wallet, fees and oracles, whose answers may change from call to call).  The theories that need their laws show by an example that the laws can hold.

  \<^bold>\<open>What is shown.\<close>
  \<^item> Outcomes: digit prefixes cover an interval exactly; the combinations of several oracles cover what is within the
    minimal support and nothing beyond the maximal error; the tries represent maps, and a lookup of attested outcomes
    finds the entry of the right CET; the iterators yield every entry once and end.
  \<^item> Transactions: value is conserved, the CETs pay the payouts, CETs and refund spend the fund output, who can spend the
    outputs of channel transactions and when.
  \<^item> Signatures: adaptor signatures made by one party verify for the other, and with attestations complete a CET.
  \<^item> Messages: every message that is written is read back, invalid offers are refused, messages that the transport can carry are
    delivered, in one piece or in segments, and the state of the message handler keeps its invariant.
  \<^item> Contracts: both parties hold the same contract after the exchange of messages; it can be closed by attestations,
    refunded by each party alone after the lock time, and closed cooperatively.
  \<^item> The manager: whatever the application, the peer, the blockchain, the clock and the oracles do, the stored contracts
    take steps of the abstract machine; each is stored under its identifier, is closed only after confirmations and
    refunded only after the lock time, unless the application has reported the close with \<open>on_counterparty_close\<close>, which is
    believed; a confirmed contract can be refunded without the counterparty.
    This is about a manager that gets the calls and messages for contracts only; the methods for channels store the contract of a
    channel too, and these stores are not steps of the machine of contracts.
  \<^item> Channels: a settlement that is accepted completes, with the agreed payouts and the exchange of the secrets that revoke the former
    state; a settled channel can be closed by each party alone; a published state that was revoked can be punished as
    long as the recorded role is the right one; the chain monitor finds exactly the transactions it watches; whatever
    happens, the stored channels take steps of the abstract machine.  The offering party signs the refund and the CETs of a channel with its
    key of the funding output and the accepting party verifies them under another, derived key, so a channel is established only when
    signatures made with one key verify under the other; a settlement that is not finished makes the checks panic or publish a revoked state.
  \<^item> Behaviour that differs from the intention (panics on received data, wrong indices, unread messages) is stated as
    theorems about the code as it is.

  \<^bold>\<open>Bounds and fuel.\<close>  Loops that are not structural have fuel that is proved to be enough:
  \<open>(n + 1) ^ k + 1\<close> steps for the combinations of \<open>k\<close> of \<open>n\<close>; \<open>(s + 1) * (l + 1)\<close> for a lookup of a path of length
  \<open>l\<close> in a trie of \<open>s\<close> nodes; \<open>s * (3 * base + 1) + 2\<close> for an iterator over \<open>s\<close> nodes; the product of the bounds for
  the loop over covering paths; the length of the input for negotiation fields.  The lists of other theories are walked
  structurally.

  \<^bold>\<open>Not modelled.\<close>  The binary storage format of contracts and channels (\<open>ser.rs\<close>) and the PostgreSQL storage, which are calls of
  serialization and database libraries; the wallet, the chain source, the transports, the node with its gRPC
  interface and the command line, which are input and output; logging.
\<close>

end
